(* ===== verification/Prelude.thy ===== *)
theory Prelude
  imports Main "HOL-Library.Word" "HOL-Library.AList" "HOL-Library.Sublist"
begin

text \<open>
  Shared vocabulary of the development: the machine integers, byte strings and hash maps the
  Rust sources use, the standard-library string and integer functions they call, and the generic
  lemmas the component theories rely on.

  Conventions.
  \<^item> \<open>Vec<u8>\<close> and \<open>&[u8]\<close> are lists of \<^typ>\<open>8 word\<close>; \<open>u16\<close>, \<open>u32\<close>, \<open>u64\<close> (and \<open>usize\<close> on
    the 64-bit targets) are words of that width where the code's arithmetic can overflow, and
    \<open>nat\<close> where the value is the length of a list.
  \<^item> \<open>String\<close> and \<open>&str\<close> are \<open>char list\<close>s of ASCII text; \<open>trim\<close> removes the ASCII members of
    Unicode's \<open>White_Space\<close>.
  \<^item> \<open>HashMap<K, V>\<close> is an association list with distinct keys, listed in the map's (unspecified)
    iteration order; \<open>get\<close>, \<open>insert\<close> and \<open>remove\<close> are \<open>map_of\<close>, \<open>AList.update\<close> and
    \<open>AList.delete\<close>.
  \<^item> \<open>Uuid\<close> is a 128-bit word; a freshly drawn id and the current time are arguments of the
    operation that draws them.
  \<^item> \<open>Result<T, E>\<close> is the sum \<open>'e + 't\<close> with \<open>Inl\<close> for \<open>Err\<close> and \<open>Inr\<close> for \<open>Ok\<close>.
\<close>

subsection \<open>Types\<close>

type_synonym byte = "8 word"
type_synonym bytes = "8 word list"
type_synonym u16 = "16 word"
type_synonym u32 = "32 word"
type_synonym u64 = "64 word"
type_synonym uuid = "128 word"
type_synonym time = int
type_synonym ('k, 'v) hashmap = "('k \<times> 'v) list"

abbreviation hm_get :: "('k, 'v) hashmap \<Rightarrow> 'k \<Rightarrow> 'v option" where
  "hm_get m k \<equiv> map_of m k"

abbreviation hm_insert :: "'k \<Rightarrow> 'v \<Rightarrow> ('k, 'v) hashmap \<Rightarrow> ('k, 'v) hashmap" where
  "hm_insert k v m \<equiv> AList.update k v m"

abbreviation hm_remove :: "'k \<Rightarrow> ('k, 'v) hashmap \<Rightarrow> ('k, 'v) hashmap" where
  "hm_remove k m \<equiv> AList.delete k m"

abbreviation hm_wf :: "('k, 'v) hashmap \<Rightarrow> bool" where
  "hm_wf m \<equiv> distinct (map fst m)"

named_theorems result_splits "case splits for results and options"

lemmas [result_splits] = sum.splits option.splits if_splits

lemma hm_get_insert: "hm_get (hm_insert k v m) k' = (if k' = k then Some v else hm_get m k')"
  by (simp add: update_conv)

lemma hm_get_remove: "hm_get (hm_remove k m) k' = (if k' = k then None else hm_get m k')"
  by (simp add: delete_conv)

lemma hm_wf_insert: "hm_wf m \<Longrightarrow> hm_wf (hm_insert k v m)"
  by (rule distinct_update)

lemma hm_wf_remove: "hm_wf m \<Longrightarrow> hm_wf (hm_remove k m)"
  by (rule distinct_delete)

lemmas hm_simps = hm_get_insert hm_get_remove hm_wf_insert hm_wf_remove

lemma map_of_eq_None_notin: "map_of m k = None \<longleftrightarrow> k \<notin> fst ` set m"
  by (rule map_of_eq_None_iff)

lemma hm_insert_fresh: "hm_get m k = None \<Longrightarrow> hm_insert k v m = m @ [(k, v)]"
  by (induction m) auto

lemma hm_insert_fresh_length: "hm_get m k = None \<Longrightarrow> length (hm_insert k v m) = Suc (length m)"
  by (simp add: hm_insert_fresh)

lemma hm_dom_insert: "dom (map_of (hm_insert k v m)) = insert k (dom (map_of m))"
  by (auto simp: update_conv dom_def)

subsection \<open>Integer operations of the Rust standard library\<close>

definition checked_add :: "'a::len word \<Rightarrow> 'a word \<Rightarrow> 'a word option" where
  "checked_add a b = (if unat a + unat b < 2 ^ LENGTH('a) then Some (a + b) else None)"

definition checked_mul :: "'a::len word \<Rightarrow> 'a word \<Rightarrow> 'a word option" where
  "checked_mul a b = (if unat a * unat b < 2 ^ LENGTH('a) then Some (a * b) else None)"

definition saturating_add :: "'a::len word \<Rightarrow> 'a word \<Rightarrow> 'a word" where
  "saturating_add a b = (if unat a + unat b < 2 ^ LENGTH('a) then a + b else - 1)"

definition saturating_sub :: "'a::len word \<Rightarrow> 'a word \<Rightarrow> 'a word" where
  "saturating_sub a b = (if b \<le> a then a - b else 0)"

definition saturating_mul :: "'a::len word \<Rightarrow> 'a word \<Rightarrow> 'a word" where
  "saturating_mul a b = (if unat a * unat b < 2 ^ LENGTH('a) then a * b else - 1)"

definition div_ceil :: "nat \<Rightarrow> nat \<Rightarrow> nat" where
  "div_ceil a b = (if a mod b = 0 then a div b else a div b + 1)"

lemma checked_add_Some:
  "checked_add a b = Some c \<Longrightarrow> unat c = unat a + unat b"
  by (auto simp: checked_add_def unat_word_ariths split: if_splits)

lemma unat_u64_of_nat: "k < 2 ^ 64 \<Longrightarrow> unat (word_of_nat k :: u64) = k"
  by (simp add: unat_of_nat take_bit_nat_eq_self)

lemma unat_minus_one_word: "unat (- 1 :: 'a::len word) = 2 ^ LENGTH('a) - 1"
  by (simp add: unsigned_minus_1_eq_mask mask_eq_exp_minus_1)

lemma unat_saturating_add:
  "unat (saturating_add a b) = min (unat a + unat b) (2 ^ LENGTH('a) - 1)"
  for a b :: "'a::len word"
  by (auto simp: saturating_add_def unat_word_ariths unat_minus_one_word)

lemma unat_saturating_sub: "unat (saturating_sub a b) = unat a - unat b"
  by (auto simp: saturating_sub_def unat_sub word_le_nat_alt)

lemma div_ceil_mult: "div_ceil a b * b = (if a mod b = 0 then a else a - a mod b + b)"
  by (auto simp: div_ceil_def minus_mod_eq_div_mult)

lemma less_div_ceil: "0 < b \<Longrightarrow> i < div_ceil a b \<longleftrightarrow> i * b < a"
proof -
  assume b: "0 < b"
  have a: "a div b * b + a mod b = a" and m: "a mod b < b"
    using b by (rule_tac [2] mod_less_divisor) (rule div_mult_mod_eq)
  have lt: "j * b < k * b \<longleftrightarrow> j < k" and le: "j * b \<le> k * b \<longleftrightarrow> j \<le> k" for j k
    using b by simp_all
  show ?thesis
  proof (cases "i \<le> a div b")
    case True
    then consider "i < a div b" | "i = a div b" by linarith
    then show ?thesis
    proof cases
      case 1
      then have "i * b < a div b * b" by (simp only: lt)
      with a have "i * b < a" by linarith
      with 1 show ?thesis by (simp add: div_ceil_def)
    next
      case 2
      have "a div b * b < a \<longleftrightarrow> a mod b \<noteq> 0" using a by linarith
      with 2 show ?thesis by (simp add: div_ceil_def)
    qed
  next
    case False
    then have "Suc (a div b) * b \<le> i * b" by (simp only: le)
    with a m have "\<not> i * b < a" by (simp only: mult_Suc)
    with False show ?thesis by (simp add: div_ceil_def)
  qed
qed

subsection \<open>Byte encodings of integers\<close>

fun nat_le_bytes :: "nat \<Rightarrow> nat \<Rightarrow> bytes" where
  "nat_le_bytes 0 v = []"
| "nat_le_bytes (Suc n) v = word_of_nat (v mod 256) # nat_le_bytes n (v div 256)"

fun nat_of_le :: "bytes \<Rightarrow> nat" where
  "nat_of_le [] = 0"
| "nat_of_le (b # bs) = unat b + 256 * nat_of_le bs"

definition u16_be :: "u16 \<Rightarrow> bytes" where
  "u16_be w = rev (nat_le_bytes 2 (unat w))"

definition u32_be :: "u32 \<Rightarrow> bytes" where
  "u32_be w = rev (nat_le_bytes 4 (unat w))"

definition u64_be :: "u64 \<Rightarrow> bytes" where
  "u64_be w = rev (nat_le_bytes 8 (unat w))"

definition u32_le :: "u32 \<Rightarrow> bytes" where
  "u32_le w = nat_le_bytes 4 (unat w)"

definition u64_le :: "u64 \<Rightarrow> bytes" where
  "u64_le w = nat_le_bytes 8 (unat w)"

definition u16_from_be :: "bytes \<Rightarrow> u16" where
  "u16_from_be bs = word_of_nat (nat_of_le (rev bs))"

definition u32_from_be :: "bytes \<Rightarrow> u32" where
  "u32_from_be bs = word_of_nat (nat_of_le (rev bs))"

definition u64_from_be :: "bytes \<Rightarrow> u64" where
  "u64_from_be bs = word_of_nat (nat_of_le (rev bs))"

definition u64_from_le :: "bytes \<Rightarrow> u64" where
  "u64_from_le bs = word_of_nat (nat_of_le bs)"

lemma length_nat_le_bytes [simp]: "length (nat_le_bytes n v) = n"
  by (induction n arbitrary: v) auto

lemma unat_byte_mod [simp]: "unat (word_of_nat (v mod 256) :: byte) = v mod 256"
  by (simp add: unat_of_nat)

lemma nat_of_le_nat_le_bytes: "v < 256 ^ n \<Longrightarrow> nat_of_le (nat_le_bytes n v) = v"
proof (induction n arbitrary: v)
  case 0
  then show ?case by simp
next
  case (Suc n)
  then have "v div 256 < 256 ^ n" by (simp add: less_mult_imp_div_less)
  with Suc.IH show ?case by simp
qed

lemma nat_le_bytes_inj:
  "nat_le_bytes n v = nat_le_bytes n w \<Longrightarrow> v < 256 ^ n \<Longrightarrow> w < 256 ^ n \<Longrightarrow> v = w"
  by (metis nat_of_le_nat_le_bytes)

lemma unat_lt_bytes:
  "unat (w :: u16) < 256 ^ 2" "unat (x :: u32) < 256 ^ 4" "unat (y :: u64) < 256 ^ 8"
  using unsigned_less [of w] unsigned_less [of x] unsigned_less [of y] by simp_all

lemma length_int_bytes [simp]:
  "length (u16_be w) = 2" "length (u32_be x) = 4" "length (u64_be y) = 8"
  "length (u32_le x) = 4" "length (u64_le y) = 8"
  by (simp_all add: u16_be_def u32_be_def u64_be_def u32_le_def u64_le_def)

lemma from_be_to_be [simp]:
  "u16_from_be (u16_be w) = w" "u32_from_be (u32_be x) = x" "u64_from_be (u64_be y) = y"
  "u64_from_le (u64_le y) = y"
  using unat_lt_bytes(1) [of w] unat_lt_bytes(2) [of x] unat_lt_bytes(3) [of y]
  by (simp_all add: u16_from_be_def u16_be_def u32_from_be_def u32_be_def u64_from_be_def
      u64_be_def u64_from_le_def u64_le_def nat_of_le_nat_le_bytes)

lemma nat_of_le_bound: "nat_of_le bs < 256 ^ length bs"
proof (induction bs)
  case (Cons b bs)
  have "unat b < 256" using unsigned_less [of b] by simp
  with Cons show ?case by simp
qed simp

lemma nat_le_bytes_nat_of_le: "nat_le_bytes (length bs) (nat_of_le bs) = bs"
proof (induction bs)
  case (Cons b bs)
  have b: "unat b < 256" using unsigned_less [of b] by simp
  then have "(unat b + 256 * n) mod 256 = unat b" "(unat b + 256 * n) div 256 = n" for n by simp_all
  with Cons show ?case by simp
qed simp

lemma to_be_from_be:
  "length a = 2 \<Longrightarrow> u16_be (u16_from_be a) = a" "length b = 4 \<Longrightarrow> u32_be (u32_from_be b) = b"
  "length c = 8 \<Longrightarrow> u64_be (u64_from_be c) = c"
  using nat_of_le_bound [of "rev a"] nat_of_le_bound [of "rev b"] nat_of_le_bound [of "rev c"]
    nat_le_bytes_nat_of_le [of "rev a"] nat_le_bytes_nat_of_le [of "rev b"] nat_le_bytes_nat_of_le [of "rev c"]
  by (simp_all add: u16_be_def u16_from_be_def u32_be_def u32_from_be_def u64_be_def u64_from_be_def
      unat_of_nat take_bit_nat_eq_self)

lemma u32_le_inj: "u32_le v = u32_le w \<Longrightarrow> v = w"
  using nat_le_bytes_inj [of 4 "unat v" "unat w"] unat_lt_bytes(2) [of v] unat_lt_bytes(2) [of w]
  unfolding u32_le_def by (metis word_unat_eq_iff)

lemma u64_le_inj: "u64_le v = u64_le w \<Longrightarrow> v = w"
  by (metis from_be_to_be(4))

subsection \<open>Strings\<close>

text \<open>\<open>str::split(c)\<close>: the pieces between the separators, always at least one.\<close>

fun split_char :: "char \<Rightarrow> string \<Rightarrow> string list" where
  "split_char c [] = [[]]"
| "split_char c (x # xs) =
     (if x = c then [] # split_char c xs
      else (case split_char c xs of [] \<Rightarrow> [[x]] | p # ps \<Rightarrow> (x # p) # ps))"

text \<open>\<open>slice::join\<close> with a separator.\<close>

fun join_with :: "'a list \<Rightarrow> 'a list list \<Rightarrow> 'a list" where
  "join_with sep [] = []"
| "join_with sep [p] = p"
| "join_with sep (p # ps) = p @ sep @ join_with sep ps"

definition is_ws :: "char \<Rightarrow> bool" where
  "is_ws c = (let n = (of_char c :: nat) in 9 \<le> n \<and> n \<le> 13 \<or> n = 32)"

definition trim_start :: "string \<Rightarrow> string" where
  "trim_start s = dropWhile is_ws s"

definition trim_end :: "string \<Rightarrow> string" where
  "trim_end s = rev (dropWhile is_ws (rev s))"

definition trim :: "string \<Rightarrow> string" where
  "trim s = trim_end (trim_start s)"

definition char_lower :: "char \<Rightarrow> char" where
  "char_lower c = (let n = (of_char c :: nat) in if 65 \<le> n \<and> n \<le> 90 then char_of (n + 32) else c)"

definition to_ascii_lowercase :: "string \<Rightarrow> string" where
  "to_ascii_lowercase s = map char_lower s"

text \<open>\<open>str::to_lowercase\<close> on UTF-8, as far as a search for ASCII text can tell: of the characters outside ASCII only the Kelvin sign and the capital I
  with a dot have an ASCII letter in their lower case; the others become characters outside ASCII again, and are left as they are.\<close>

fun str_to_lowercase :: "string \<Rightarrow> string" where
  "str_to_lowercase [] = []"
| "str_to_lowercase (c # cs) =
     (if c = CHR 0xE2 \<and> take 2 cs = [CHR 0x84, CHR 0xAA] then CHR ''k'' # str_to_lowercase (drop 2 cs)
      else if c = CHR 0xC4 \<and> take 1 cs = [CHR 0xB0] then CHR ''i'' # CHR 0xCC # CHR 0x87 # str_to_lowercase (drop 1 cs)
      else char_lower c # str_to_lowercase cs)"

definition str_bytes :: "string \<Rightarrow> bytes" where
  "str_bytes s = map (\<lambda>c. word_of_nat (of_char c)) s"

text \<open>The decimal digits of a number, as \<open>{}\<close> prints it.\<close>

fun dec_nat :: "nat \<Rightarrow> string" where
  "dec_nat n = (if n < 10 then [char_of (48 + n)] else dec_nat (n div 10) @ [char_of (48 + n mod 10)])"

declare dec_nat.simps [simp del]

abbreviation dec_u :: "'a::len word \<Rightarrow> string" where
  "dec_u w \<equiv> dec_nat (unat w)"

text \<open>A lower-case hexadecimal digit, as \<open>{:x}\<close> prints it.\<close>

definition hex_digit :: "nat \<Rightarrow> char" where
  "hex_digit d = char_of (if d < 10 then 48 + d else 87 + d)"

definition starts_with :: "'a list \<Rightarrow> 'a list \<Rightarrow> bool" where
  "starts_with s p = (take (length p) s = p)"

definition strip_prefix :: "'a list \<Rightarrow> 'a list \<Rightarrow> 'a list option" where
  "strip_prefix s p = (if starts_with s p then Some (drop (length p) s) else None)"

definition strip_suffix :: "'a list \<Rightarrow> 'a list \<Rightarrow> 'a list option" where
  "strip_suffix s p = map_option rev (strip_prefix (rev s) (rev p))"

text \<open>\<open>str::contains\<close> on a string pattern.\<close>

fun str_contains :: "'a list \<Rightarrow> 'a list \<Rightarrow> bool" where
  "str_contains [] p = (p = [])"
| "str_contains (x # xs) p = (starts_with (x # xs) p \<or> str_contains xs p)"

lemma starts_with_iff: "starts_with s p \<longleftrightarrow> prefix p s"
  by (auto simp: starts_with_def prefix_def) (metis append_take_drop_id)

lemma strip_prefix_Some: "strip_prefix s p = Some r \<longleftrightarrow> s = p @ r"
  by (auto simp: strip_prefix_def starts_with_iff prefix_def)

lemma inj_byte_of_char: "inj (\<lambda>c. word_of_nat (of_char c) :: byte)"
proof (rule injI)
  fix c d :: char
  assume "(word_of_nat (of_char c) :: byte) = word_of_nat (of_char d)"
  then have "unat (word_of_nat (of_char c) :: byte) = unat (word_of_nat (of_char d) :: byte)"
    by simp
  then have "(of_char c :: nat) = of_char d"
    by (simp add: unat_of_nat nat_of_char_less_256)
  then show "c = d" by simp
qed

lemma str_bytes_inj: "str_bytes s = str_bytes t \<longleftrightarrow> s = t"
  by (simp add: str_bytes_def inj_map_eq_map [OF inj_byte_of_char])

lemma length_str_bytes [simp]: "length (str_bytes s) = length s"
  by (simp add: str_bytes_def)

lemma split_char_nonempty [simp]: "split_char c s \<noteq> []"
  by (induction s) (auto split: list.splits)

lemma split_char_pieces: "p \<in> set (split_char c s) \<Longrightarrow> c \<notin> set p"
  by (induction s arbitrary: p) (auto split: if_splits list.splits)

lemma split_char_append:
  "c \<notin> set p \<Longrightarrow> split_char c (p @ c # r) = p # split_char c r"
  by (induction p) auto

lemma split_char_free: "c \<notin> set p \<Longrightarrow> split_char c p = [p]"
  by (induction p) auto

lemma split_char_join:
  "ps \<noteq> [] \<Longrightarrow> \<forall>p \<in> set ps. c \<notin> set p \<Longrightarrow> split_char c (join_with [c] ps) = ps"
  by (induction "[c]" ps rule: join_with.induct) (auto simp: split_char_append split_char_free)

subsection \<open>List updates\<close>

text \<open>\<open>buf[start..end].copy_from_slice(src)\<close> for \<open>end = start + src.len()\<close> in range.\<close>

definition write_slice :: "'a list \<Rightarrow> nat \<Rightarrow> 'a list \<Rightarrow> 'a list" where
  "write_slice buf start src = take start buf @ src @ drop (start + length src) buf"

definition slice :: "'a list \<Rightarrow> nat \<Rightarrow> nat \<Rightarrow> 'a list" where
  "slice xs start end = take (end - start) (drop start xs)"

lemma length_write_slice:
  "start + length src \<le> length buf \<Longrightarrow> length (write_slice buf start src) = length buf"
  by (simp add: write_slice_def)

lemma sum_list_map_update:
  fixes f :: "'a \<Rightarrow> nat"
  assumes "i < length xs"
  shows "sum_list (map f (xs[i := y])) + f (xs ! i) = sum_list (map f xs) + f y"
  using assms by (induction xs arbitrary: i) (auto split: nat.splits)

lemma nth_write_slice:
  assumes "start + length src \<le> length buf" and "i < length buf"
  shows "write_slice buf start src ! i =
    (if start \<le> i \<and> i < start + length src then src ! (i - start) else buf ! i)"
  using assms by (auto simp: write_slice_def nth_append min_def)

lemma length_slice [simp]: "length (slice xs s e) = min (e - s) (length xs - s)"
  by (simp add: slice_def)

lemma nth_slice: "i < e - s \<Longrightarrow> s + i < length xs \<Longrightarrow> slice xs s e ! i = xs ! (s + i)"
  by (simp add: slice_def)

lemma slice_append: "i \<le> j \<Longrightarrow> j \<le> k \<Longrightarrow> slice xs i j @ slice xs j k = slice xs i k"
proof -
  assume "i \<le> j" "j \<le> k"
  then have "take (j - i) (drop i xs) @ take (k - j) (drop (j - i) (drop i xs)) = take (j - i + (k - j)) (drop i xs)"
    by (simp only: take_add)
  with \<open>i \<le> j\<close> \<open>j \<le> k\<close> show ?thesis by (simp add: slice_def)
qed

lemma slice_all: "slice xs 0 (length xs) = xs"
  by (simp add: slice_def)

lemma slice_one: "i < length xs \<Longrightarrow> slice xs i (Suc i) = [xs ! i]"
  by (simp add: slice_def take_Suc_conv_app_nth Cons_nth_drop_Suc [symmetric])

lemma in_set_tlD: "x \<in> set (tl xs) \<Longrightarrow> x \<in> set xs"
  by (cases xs) auto

subsection \<open>State machines\<close>

text \<open>States reachable from an initial state by steps, and the contract of an inductive
  invariant: it holds initially and every step keeps it.\<close>

inductive reachable :: "('s \<Rightarrow> bool) \<Rightarrow> ('s \<Rightarrow> 's \<Rightarrow> bool) \<Rightarrow> 's \<Rightarrow> bool"
  for init :: "'s \<Rightarrow> bool" and step :: "'s \<Rightarrow> 's \<Rightarrow> bool" where
  reach_init: "init s \<Longrightarrow> reachable init step s"
| reach_step: "reachable init step s \<Longrightarrow> step s t \<Longrightarrow> reachable init step t"

locale inductive_invariant =
  fixes init :: "'s \<Rightarrow> bool" and step :: "'s \<Rightarrow> 's \<Rightarrow> bool" and inv :: "'s \<Rightarrow> bool"
  assumes init_inv: "init s \<Longrightarrow> inv s"
    and step_inv: "inv s \<Longrightarrow> step s t \<Longrightarrow> inv t"
begin

lemma reachable_inv: "reachable init step s \<Longrightarrow> inv s"
  by (induction rule: reachable.induct) (auto intro: init_inv step_inv)

end

subsection \<open>Bounded histories\<close>

text \<open>Several components keep the most recent entries of a stream: at capacity the oldest entry is
  dropped before the new one is appended. The contract gives what such a buffer holds after any
  sequence of pushes. (With capacity zero the code still holds the last entry.)\<close>

locale bounded_history =
  fixes capacity :: "'s \<Rightarrow> nat" and contents :: "'s \<Rightarrow> 'a list" and push :: "'a \<Rightarrow> 's \<Rightarrow> 's"
  assumes push_capacity: "capacity (push x s) = capacity s"
    and push_contents: "contents (push x s) =
      (if capacity s \<le> length (contents s) then tl (contents s) else contents s) @ [x]"
begin

lemma push_window:
  assumes "length (contents s) \<le> max 1 (capacity s)"
  shows "contents (push x s) =
      drop (Suc (length (contents s)) - max 1 (capacity s)) (contents s @ [x])"
  using assms by (cases "contents s") (auto simp: push_contents max_def le_Suc_eq)

lemma push_bound:
  "length (contents s) \<le> max 1 (capacity s) \<Longrightarrow> length (contents (push x s)) \<le> max 1 (capacity (push x s))"
  by (simp add: push_window push_capacity)

lemma pushes_window:
  assumes "length (contents s) \<le> max 1 (capacity s)"
  shows "contents (fold push xs s) =
      drop (length (contents s) + length xs - max 1 (capacity s)) (contents s @ xs)"
    and "capacity (fold push xs s) = capacity s"
  using assms
proof (induction xs arbitrary: s)
  case (Cons x xs)
  {
    case 1
    define c where "c = max 1 (capacity s)"
    define w where "w = Suc (length (contents s)) - c"
    have c: "length (contents s) \<le> c" "w \<le> 1" using 1 by (simp_all add: c_def w_def)
    have split: "drop w (contents s @ [x]) @ xs = drop w (contents s @ x # xs)"
      using c drop_append [of w "contents s @ [x]" xs] by simp
    have sum: "Suc (length (contents s)) - w + length xs - c + w =
        length (contents s) + length (x # xs) - c"
      using c by (auto simp: w_def)
    have "contents (push x s) = drop w (contents s @ [x])"
      using push_window [OF 1, of x] by (simp only: c_def w_def)
    then show ?case
      using Cons.IH(1) [OF push_bound [OF 1, of x]]
      by (simp only: fold_simps o_apply push_capacity c_def [symmetric] split drop_drop)
        (simp only: length_drop length_append length_Cons list.size add_0_right add_Suc_right sum)
  next
    case 2
    then show ?case using Cons.IH(2) [OF push_bound [OF 2, of x]] by (simp add: push_capacity)
  }
qed simp_all

lemma pushes_bound:
  "contents s = [] \<Longrightarrow> length (contents (fold push xs s)) \<le> max 1 (capacity s)"
  by (simp add: pushes_window)

end

end
