(* ===== verification/Nexus_Error.thy ===== *)
theory Nexus_Error
  imports Prelude
begin

text \<open>
  The error type of the library, \<open>src/src/error.rs\<close>.

  A payload that the source builds with \<open>format!\<close> is represented by the format string as it
  stands in the source, with its holes; the interpolated values (ids, paths, OS messages) are
  diagnostics that no modelled code reads back. Fixed messages are kept verbatim.
\<close>

datatype nexus_error =
    WasmError string
  | SnapshotCreateFailed string
  | RollbackFailed string
  | Timeout u64
  | FuelExhausted u64
  | MemoryLimitExceeded u64
  | StateCorruption string
  | InvalidCapability string
  | CapabilityDenied string
  | EgressDenied string
  | FilesystemError string
  | HealthValidationFailed string
  | ResourceExhausted string
  | SerializationError string
  | ConfigError string

type_synonym 'a result = "nexus_error + 'a"

abbreviation is_ok :: "'e + 'a \<Rightarrow> bool" where
  "is_ok r \<equiv> \<not> isl r"

fun is_recoverable :: "nexus_error \<Rightarrow> bool" where
  "is_recoverable (Timeout _) = True"
| "is_recoverable (FuelExhausted _) = True"
| "is_recoverable (StateCorruption _) = True"
| "is_recoverable (HealthValidationFailed _) = True"
| "is_recoverable _ = False"

fun error_category :: "nexus_error \<Rightarrow> string" where
  "error_category (WasmError _) = ''WASM_EXECUTION''"
| "error_category (SnapshotCreateFailed _) = ''SNAPSHOT_FAILURE''"
| "error_category (RollbackFailed _) = ''ROLLBACK_FAILURE''"
| "error_category (Timeout _) = ''TIMEOUT''"
| "error_category (FuelExhausted _) = ''INFINITE_LOOP_PREVENTED''"
| "error_category (MemoryLimitExceeded _) = ''MEMORY_EXCEEDED''"
| "error_category (StateCorruption _) = ''STATE_CORRUPTION''"
| "error_category (InvalidCapability _) = ''SECURITY_VIOLATION''"
| "error_category (CapabilityDenied _) = ''CAPABILITY_DENIED''"
| "error_category (EgressDenied _) = ''EGRESS_DENIED''"
| "error_category (FilesystemError _) = ''FILESYSTEM_ERROR''"
| "error_category (HealthValidationFailed _) = ''HEALTH_FAILURE''"
| "error_category (ResourceExhausted _) = ''RESOURCE_EXHAUSTED''"
| "error_category (SerializationError _) = ''SERIALIZATION_ERROR''"
| "error_category (ConfigError _) = ''CONFIG_ERROR''"

text \<open>Caller-safe denial reasons, \<open>src/src/security/denial.rs\<close>.\<close>

datatype denial_reason =
    TokenExpired
  | TokenRevoked
  | CapabilityNotPermitted
  | ToolNotAllowed
  | ProfileRestriction
  | WasmPathDenied
  | WasmPathInaccessible

fun safe_message :: "denial_reason \<Rightarrow> string" where
  "safe_message TokenExpired = ''capability token has expired''"
| "safe_message TokenRevoked = ''capability token has been revoked''"
| "safe_message CapabilityNotPermitted = ''capability not permitted by active profile''"
| "safe_message ToolNotAllowed = ''tool is not in the MCP tool allowlist''"
| "safe_message ProfileRestriction = ''request denied by active profile''"
| "safe_message WasmPathDenied = ''wasm path is outside allowed module directories''"
| "safe_message WasmPathInaccessible = ''wasm path is not accessible''"

text \<open>The category determines whether an error is recoverable: telemetry that keeps only the
  category loses nothing the recovery decision needs.\<close>

lemma recoverable_by_category:
  "error_category e = error_category e' \<Longrightarrow> is_recoverable e = is_recoverable e'"
  by (cases e; cases e') auto

end
