(* ===== verification/Capability.thy ===== *)
theory Capability
  imports Nexus_Error
begin

text \<open>
  Capabilities, memory scopes and the lexical path algebra they rest on:
  \<open>src/src/security/capability.rs\<close>, lines 16-302.

  A \<open>PathBuf\<close> is the string it holds. The standard library's view of it, \<open>Path::components\<close> on
  Unix, is \<open>components\<close>; \<open>==\<close> and \<open>Path::starts_with\<close> compare component lists. The path that
  \<open>normalize_lexical_path\<close> builds by \<open>push\<close> and \<open>pop\<close> is kept as its component list while the
  loop runs and rendered at the end.
\<close>

subsection \<open>Memory scopes\<close>

datatype memory_scope =
    Agent string
  | Session string string
  | Namespace string

fun scope_display :: "memory_scope \<Rightarrow> string" where
  "scope_display (Agent agent_id) = ''agent:'' @ agent_id"
| "scope_display (Session agent_id session_id) = ''session:'' @ agent_id @ '':'' @ session_id"
| "scope_display (Namespace namespace) = ''namespace:'' @ namespace"

definition scope_parse :: "string \<Rightarrow> memory_scope option" where
  "scope_parse input =
     (case split_char CHR '':'' input of
        [] \<Rightarrow> None
      | kind # parts \<Rightarrow>
          (if trim kind = ''agent'' then
             (case parts of [] \<Rightarrow> None | agent_id # _ \<Rightarrow> Some (Agent agent_id))
           else if trim kind = ''session'' then
             (case parts of
                agent_id # session_id # rest \<Rightarrow>
                  (if rest \<noteq> [] \<or> trim agent_id = [] \<or> trim session_id = [] then None
                   else Some (Session (trim agent_id) (trim session_id)))
              | _ \<Rightarrow> None)
           else if trim kind = ''namespace'' then
             (case parts of
                [] \<Rightarrow> None
              | namespace # _ \<Rightarrow>
                  (if trim namespace = [] then None else Some (Namespace (trim namespace))))
           else None))"

fun scope_is_subset_of :: "memory_scope \<Rightarrow> memory_scope \<Rightarrow> bool" where
  "scope_is_subset_of (Agent a) (Agent pa) = (a = pa)"
| "scope_is_subset_of (Agent a) (Namespace pn) = (a = pn)"
| "scope_is_subset_of (Session a s) (Session pa ps) = (a = pa \<and> s = ps)"
| "scope_is_subset_of (Session a s) (Agent pa) = (a = pa)"
| "scope_is_subset_of (Session a s) (Namespace pn) = (a = pn)"
| "scope_is_subset_of (Namespace n) (Namespace pn) = (n = pn)"
| "scope_is_subset_of (Namespace n) (Agent pa) = (n = pa)"
| "scope_is_subset_of (Namespace n) (Session pa ps) = (n = pa)"
| "scope_is_subset_of _ _ = False"

fun scope_matches :: "memory_scope \<Rightarrow> string \<Rightarrow> string option \<Rightarrow> bool" where
  "scope_matches (Agent a) agent_id session_id = (a = agent_id)"
| "scope_matches (Session a s) agent_id session_id =
     (a = agent_id \<and> (case session_id of Some sid \<Rightarrow> sid = s | None \<Rightarrow> False))"
| "scope_matches (Namespace n) agent_id session_id = (n = agent_id)"

subsection \<open>Paths\<close>

datatype path_component = RootDir | CurDir | ParentDir | Normal string

fun piece_component :: "string \<Rightarrow> path_component list" where
  "piece_component s =
     (if s = [] \<or> s = ''.'' then [] else if s = ''..'' then [ParentDir] else [Normal s])"

definition components :: "string \<Rightarrow> path_component list" where
  "components p =
     (let pieces = split_char CHR ''/'' p in
      (if starts_with p ''/'' then [RootDir] else if hd pieces = ''.'' then [CurDir] else [])
      @ concat (map piece_component pieces))"

definition path_eq_std :: "string \<Rightarrow> string \<Rightarrow> bool" where
  "path_eq_std p q = (components p = components q)"

definition path_starts_with :: "string \<Rightarrow> string \<Rightarrow> bool" where
  "path_starts_with p base = starts_with (components p) (components base)"

fun component_str :: "path_component \<Rightarrow> string" where
  "component_str RootDir = ''/''"
| "component_str CurDir = ''.''"
| "component_str ParentDir = ''..''"
| "component_str (Normal s) = s"

definition path_push :: "string \<Rightarrow> path_component \<Rightarrow> string" where
  "path_push buf c =
     (if c = RootDir then ''/''
      else if buf \<noteq> [] \<and> last buf \<noteq> CHR ''/'' then buf @ ''/'' @ component_str c
      else buf @ component_str c)"

definition render_path :: "path_component list \<Rightarrow> string" where
  "render_path cs = foldl path_push [] cs"

type_synonym norm_state = "path_component list \<times> nat \<times> bool"

fun norm_step :: "path_component \<Rightarrow> norm_state \<Rightarrow> norm_state" where
  "norm_step RootDir (normalized, depth, rooted) = ([RootDir], depth, True)"
| "norm_step CurDir st = st"
| "norm_step (Normal part) (normalized, depth, rooted) =
     (normalized @ [Normal part], depth + 1, rooted)"
| "norm_step ParentDir (normalized, depth, rooted) =
     (if 0 < depth then (butlast normalized, depth - 1, rooted)
      else if \<not> rooted then (normalized @ [ParentDir], depth, rooted)
      else (normalized, depth, rooted))"

definition norm_components :: "string \<Rightarrow> path_component list" where
  "norm_components p = fst (fold norm_step (components p) ([], 0, False))"

definition normalize_lexical_path :: "string \<Rightarrow> string" where
  "normalize_lexical_path p = render_path (norm_components p)"

definition path_contains :: "string \<Rightarrow> string \<Rightarrow> bool" where
  "path_contains parent requested =
     (let parent = normalize_lexical_path parent; requested = normalize_lexical_path requested
      in path_eq_std parent requested \<or> path_starts_with requested parent)"

definition path_eq :: "string \<Rightarrow> string \<Rightarrow> bool" where
  "path_eq left right = path_eq_std (normalize_lexical_path left) (normalize_lexical_path right)"

subsection \<open>Capabilities\<close>

datatype capability =
    ReadFile string
  | WriteFile string
  | ListDirectory string
  | HttpGet string
  | HttpPost string
  | ExecuteBinary string
  | MountTmpfs string
  | MemoryPreview
  | MemoryRecall
  | ReadMemory memory_scope
  | WriteMemory memory_scope
  | CapAll
  | CapNone

definition cap_allows :: "capability \<Rightarrow> capability \<Rightarrow> bool" where
  "cap_allows self requested =
     (case self of
        CapAll \<Rightarrow> True
      | CapNone \<Rightarrow> False
      | ReadFile p1 \<Rightarrow> (case requested of ReadFile p2 \<Rightarrow> path_contains p1 p2 | _ \<Rightarrow> False)
      | WriteFile p1 \<Rightarrow>
          (case requested of
             ReadFile p2 \<Rightarrow> path_contains p1 p2
           | WriteFile p2 \<Rightarrow> path_eq p1 p2
           | _ \<Rightarrow> False)
      | WriteMemory scope \<Rightarrow>
          (case requested of
             ReadMemory r \<Rightarrow> scope_is_subset_of r scope
           | WriteMemory r \<Rightarrow> scope_is_subset_of r scope
           | _ \<Rightarrow> False)
      | ReadMemory scope \<Rightarrow>
          (case requested of ReadMemory r \<Rightarrow> scope_is_subset_of r scope | _ \<Rightarrow> False)
      | ListDirectory p1 \<Rightarrow>
          (case requested of ListDirectory p2 \<Rightarrow> path_contains p1 p2 | _ \<Rightarrow> False)
      | HttpGet p1 \<Rightarrow> (case requested of HttpGet p2 \<Rightarrow> p1 = p2 | _ \<Rightarrow> False)
      | HttpPost p1 \<Rightarrow> (case requested of HttpPost p2 \<Rightarrow> p1 = p2 | _ \<Rightarrow> False)
      | ExecuteBinary p1 \<Rightarrow>
          (case requested of ExecuteBinary p2 \<Rightarrow> path_eq_std p1 p2 | _ \<Rightarrow> False)
      | MountTmpfs p1 \<Rightarrow> (case requested of MountTmpfs p2 \<Rightarrow> path_eq_std p1 p2 | _ \<Rightarrow> False)
      | MemoryPreview \<Rightarrow> (case requested of MemoryPreview \<Rightarrow> True | _ \<Rightarrow> False)
      | MemoryRecall \<Rightarrow> (case requested of MemoryRecall \<Rightarrow> True | _ \<Rightarrow> False))"

definition cap_is_subset_of :: "capability \<Rightarrow> capability \<Rightarrow> bool" where
  "cap_is_subset_of self parent =
     (if self = CapNone then True
      else if parent = CapAll then True
      else if self = CapAll then False
      else cap_allows parent self)"

fun cap_description :: "capability \<Rightarrow> string" where
  "cap_description (ReadFile p) = ''read:'' @ p"
| "cap_description (WriteFile p) = ''write:'' @ p"
| "cap_description (ListDirectory p) = ''list:'' @ p"
| "cap_description (HttpGet pattern) = ''http_get:'' @ pattern"
| "cap_description (HttpPost pattern) = ''http_post:'' @ pattern"
| "cap_description (ExecuteBinary p) = ''exec:'' @ p"
| "cap_description (MountTmpfs p) = ''tmpfs:'' @ p"
| "cap_description MemoryPreview = ''nexus:memory_preview''"
| "cap_description MemoryRecall = ''nexus:memory_recall''"
| "cap_description (ReadMemory scope) = ''nexus:read_memory:'' @ scope_display scope"
| "cap_description (WriteMemory scope) = ''nexus:write_memory:'' @ scope_display scope"
| "cap_description CapAll = ''all''"
| "cap_description CapNone = ''none''"

text \<open>The derived \<open>PartialEq\<close>: structural, with \<open>PathBuf\<close>'s component-wise equality.\<close>

definition cap_eq :: "capability \<Rightarrow> capability \<Rightarrow> bool" where
  "cap_eq a b =
     (case (a, b) of
        (ReadFile p, ReadFile q) \<Rightarrow> path_eq_std p q
      | (WriteFile p, WriteFile q) \<Rightarrow> path_eq_std p q
      | (ListDirectory p, ListDirectory q) \<Rightarrow> path_eq_std p q
      | (ExecuteBinary p, ExecuteBinary q) \<Rightarrow> path_eq_std p q
      | (MountTmpfs p, MountTmpfs q) \<Rightarrow> path_eq_std p q
      | _ \<Rightarrow> a = b)"

subsection \<open>Components of rendered paths\<close>

definition name_ok :: "string \<Rightarrow> bool" where
  "name_ok s = (s \<noteq> [] \<and> s \<noteq> ''.'' \<and> s \<noteq> ''..'' \<and> CHR ''/'' \<notin> set s)"

definition rooted_form :: "path_component list \<Rightarrow> string list \<Rightarrow> bool" where
  "rooted_form cs ns = (cs = RootDir # map Normal ns \<and> (\<forall>n \<in> set ns. name_ok n))"

definition relative_form :: "path_component list \<Rightarrow> nat \<Rightarrow> string list \<Rightarrow> bool" where
  "relative_form cs k ns = (cs = replicate k ParentDir @ map Normal ns \<and> (\<forall>n \<in> set ns. name_ok n))"

definition comp_ok :: "path_component \<Rightarrow> bool" where
  "comp_ok c = (c = ParentDir \<or> (\<exists>n. c = Normal n \<and> name_ok n))"

lemma comp_ok_str:
  assumes "comp_ok c"
  shows "component_str c \<noteq> []" "CHR ''/'' \<notin> set (component_str c)"
    "piece_component (component_str c) = [c]" "c \<noteq> RootDir"
  using assms by (auto simp: comp_ok_def name_ok_def)

lemma foldl_push:
  assumes "\<forall>c \<in> set cs. comp_ok c" and "buf \<noteq> []" and "last buf \<noteq> CHR ''/''"
  shows "foldl path_push buf cs = buf @ concat (map (\<lambda>c. ''/'' @ component_str c) cs)"
  using assms
proof (induction cs arbitrary: buf)
  case (Cons c cs)
  note c = comp_ok_str [of c]
  have "last (component_str c) \<noteq> CHR ''/''"
    using c Cons.prems(1) last_in_set by fastforce
  with Cons c show ?case by (simp add: path_push_def)
qed simp

lemma join_slash:
  "join_with ''/'' (p # ps) = p @ concat (map (\<lambda>q. ''/'' @ q) ps)"
  by (induction ps arbitrary: p) simp_all

lemma render_relative:
  assumes "\<forall>c \<in> set cs. comp_ok c"
  shows "render_path cs = join_with ''/'' (map component_str cs)"
proof (cases cs)
  case (Cons c ds)
  note c = comp_ok_str [of c]
  have "last (component_str c) \<noteq> CHR ''/''"
    using c assms Cons last_in_set by fastforce
  with c assms Cons show ?thesis
    by (simp add: render_path_def path_push_def foldl_push join_slash comp_def
        del: join_with.simps)
qed (simp add: render_path_def)

lemma render_rooted:
  assumes "\<forall>c \<in> set cs. comp_ok c"
  shows "render_path (RootDir # cs) = ''/'' @ join_with ''/'' (map component_str cs)"
proof (cases cs)
  case (Cons c ds)
  note c = comp_ok_str [of c]
  have "last (component_str c) \<noteq> CHR ''/''"
    using c assms Cons last_in_set by fastforce
  with c assms Cons show ?thesis
    by (simp add: render_path_def path_push_def foldl_push join_slash comp_def
        del: join_with.simps)
qed (simp add: render_path_def path_push_def)

lemma split_joined:
  assumes "\<forall>c \<in> set cs. comp_ok c"
  shows "concat (map piece_component (split_char CHR ''/'' (join_with ''/'' (map component_str cs)))) = cs"
proof (cases "cs = []")
  case False
  then have "split_char CHR ''/'' (join_with ''/'' (map component_str cs)) = map component_str cs"
    using assms by (intro split_char_join) (auto dest: comp_ok_str)
  moreover have "concat (map piece_component (map component_str cs)) = cs"
    using assms by (induction cs) (auto simp: comp_ok_str simp del: piece_component.simps)
  ultimately show ?thesis by simp
qed simp

lemma components_render_rooted:
  assumes "rooted_form cs ns"
  shows "components (render_path cs) = cs"
proof -
  from assms have cs: "cs = RootDir # map Normal ns" and ok: "\<forall>c \<in> set (map Normal ns). comp_ok c"
    by (auto simp: rooted_form_def comp_ok_def)
  have "render_path cs = CHR ''/'' # join_with ''/'' (map component_str (map Normal ns))"
    using render_rooted [OF ok] cs by simp
  then show ?thesis
    using split_joined [OF ok] cs
    by (simp add: components_def starts_with_def Let_def del: map_map piece_component.simps)
      simp
qed

lemma relative_head_not_slash:
  assumes "\<forall>c \<in> set cs. comp_ok c"
  shows "\<not> starts_with (join_with ''/'' (map component_str cs)) ''/''"
proof (cases cs)
  case (Cons c ds)
  with assms have "component_str c \<noteq> []" "CHR ''/'' \<notin> set (component_str c)"
    by (auto dest: comp_ok_str)
  then obtain x xs where "component_str c = x # xs" "x \<noteq> CHR ''/''"
    by (cases "component_str c") auto
  with Cons show ?thesis by (simp add: join_slash starts_with_def del: join_with.simps)
qed (simp add: starts_with_def)

lemma components_render_relative:
  assumes "relative_form cs k ns"
  shows "components (render_path cs) = cs"
proof -
  from assms have ok: "\<forall>c \<in> set cs. comp_ok c"
    by (auto simp: relative_form_def comp_ok_def)
  let ?s = "join_with ''/'' (map component_str cs)"
  have "hd (split_char CHR ''/'' ?s) \<noteq> ''.''"
  proof (cases cs)
    case (Cons c ds)
    then have "split_char CHR ''/'' ?s = map component_str cs"
      using ok by (intro split_char_join) (auto dest: comp_ok_str)
    moreover have "comp_ok c" using ok Cons by simp
    then have "component_str c \<noteq> ''.''" by (auto simp: comp_ok_def name_ok_def)
    ultimately show ?thesis by (simp only: Cons list.map list.sel) simp
  qed simp
  with relative_head_not_slash [OF ok]
  have "components ?s = concat (map piece_component (split_char CHR ''/'' ?s))"
    unfolding components_def Let_def by (simp only: if_False append_Nil)
  also have "\<dots> = cs" by (rule split_joined [OF ok])
  finally show ?thesis by (simp only: render_relative [OF ok])
qed

subsection \<open>Normal form of normalized paths\<close>

text \<open>The loop invariant of \<open>normalize_lexical_path\<close>: the buffer is a root or a run of \<open>..\<close>
  followed by plain names, and the depth counter is the number of those names.\<close>

fun norm_inv :: "norm_state \<Rightarrow> bool" where
  "norm_inv (cs, d, True) = (\<exists>ns. rooted_form cs ns \<and> d = length ns)"
| "norm_inv (cs, d, False) = (\<exists>k ns. relative_form cs k ns \<and> d = length ns)"

lemma norm_step_inv:
  assumes "norm_inv (cs, d, r)" and "comp_ok c"
  shows "norm_inv (norm_step c (cs, d, r)) \<and> snd (snd (norm_step c (cs, d, r))) = r"
proof (cases c)
  case (Normal n)
  with assms have n: "name_ok n" by (simp add: comp_ok_def)
  show ?thesis
  proof (cases r)
    case True
    with assms obtain ns where "rooted_form cs ns" "d = length ns" by auto
    with n Normal True show ?thesis
      by (auto simp: rooted_form_def intro!: exI [of _ "ns @ [n]"])
  next
    case False
    with assms obtain k ns where "relative_form cs k ns" "d = length ns" by auto
    with n Normal False show ?thesis
      by (auto simp: relative_form_def intro!: exI [of _ k] exI [of _ "ns @ [n]"])
  qed
next
  case ParentDir
  show ?thesis
  proof (cases r)
    case True
    with assms obtain ns where ns: "rooted_form cs ns" "d = length ns" by auto
    with ParentDir True show ?thesis
      by (cases ns rule: rev_cases) (auto simp: rooted_form_def butlast_append)
  next
    case False
    with assms obtain k ns where ns: "relative_form cs k ns" "d = length ns" by auto
    show ?thesis
    proof (cases ns rule: rev_cases)
      case Nil
      with ns False ParentDir show ?thesis
        by (auto simp: relative_form_def replicate_append_same
            intro!: exI [of _ "Suc k"] exI [of _ "[]"])
    next
      case (snoc ms m)
      with ns False ParentDir show ?thesis
        by (auto simp: relative_form_def butlast_append intro!: exI [of _ k] exI [of _ ms])
    qed
  qed
qed (use assms in \<open>auto simp: comp_ok_def\<close>)

lemma fold_norm_inv:
  assumes "norm_inv (cs, d, r)" and "\<forall>c \<in> set body. comp_ok c"
  shows "norm_inv (fold norm_step body (cs, d, r)) \<and> snd (snd (fold norm_step body (cs, d, r))) = r"
  using assms
proof (induction body arbitrary: cs d r)
  case (Cons c body)
  obtain cs' d' r' where s: "norm_step c (cs, d, r) = (cs', d', r')" by (metis prod_cases3)
  with norm_step_inv [OF Cons.prems(1), of c] Cons.prems(2) have "norm_inv (cs', d', r')" "r' = r"
    by auto
  with Cons s show ?case by simp
qed simp

definition path_body :: "string \<Rightarrow> path_component list" where
  "path_body p = concat (map piece_component (split_char CHR ''/'' p))"

lemma path_body_ok: "\<forall>c \<in> set (path_body p). comp_ok c"
proof
  fix c assume "c \<in> set (path_body p)"
  then obtain s where "s \<in> set (split_char CHR ''/'' p)" "c \<in> set (piece_component s)"
    by (auto simp: path_body_def simp del: piece_component.simps)
  then show "comp_ok c"
    by (auto simp: comp_ok_def name_ok_def dest: split_char_pieces split: if_splits)
qed

lemma fold_norm_components:
  "fold norm_step (components p) ([], 0, False) =
     (if starts_with p ''/'' then fold norm_step (path_body p) ([RootDir], 0, True)
      else fold norm_step (path_body p) ([], 0, False))"
  by (simp add: components_def path_body_def Let_def del: piece_component.simps)

lemma norm_components_form:
  "if starts_with p ''/'' then \<exists>ns. rooted_form (norm_components p) ns
   else \<exists>k ns. relative_form (norm_components p) k ns"
proof -
  have "norm_inv ([RootDir], 0, True)" "norm_inv ([], 0, False)"
    by (auto simp: rooted_form_def relative_form_def)
  then show ?thesis
    using fold_norm_inv [of "[RootDir]" 0 True "path_body p"]
      fold_norm_inv [of "[]" 0 False "path_body p"] path_body_ok [of p]
    unfolding norm_components_def fold_norm_components
    by (cases "fold norm_step (path_body p) ([RootDir], 0, True)";
        cases "fold norm_step (path_body p) ([], 0, False)") auto
qed

lemma components_normalize: "components (normalize_lexical_path p) = norm_components p"
proof (cases "starts_with p ''/''")
  case True
  with norm_components_form [of p] obtain ns where "rooted_form (norm_components p) ns" by auto
  then show ?thesis unfolding normalize_lexical_path_def by (rule components_render_rooted)
next
  case False
  with norm_components_form [of p] obtain k ns where "relative_form (norm_components p) k ns"
    by auto
  then show ?thesis unfolding normalize_lexical_path_def by (rule components_render_relative)
qed

lemma path_contains_iff: "path_contains p r \<longleftrightarrow> prefix (norm_components p) (norm_components r)"
  by (auto simp: path_contains_def path_eq_std_def path_starts_with_def components_normalize
      starts_with_iff)

lemma path_eq_iff: "path_eq p q \<longleftrightarrow> norm_components p = norm_components q"
  by (simp add: path_eq_def path_eq_std_def components_normalize)

lemma fold_norm_names:
  "fold norm_step (map Normal ns) (cs, d, r) = (cs @ map Normal ns, d + length ns, r)"
  by (induction ns arbitrary: cs d) auto

lemma fold_norm_parents:
  "(norm_step ParentDir ^^ k) (cs, 0, False) = (cs @ replicate k ParentDir, 0, False)"
  by (induction k) (auto simp: replicate_append_same)

text \<open>Normalizing a normal form changes nothing.\<close>

lemma norm_components_idem: "norm_components (normalize_lexical_path p) = norm_components p"
proof (cases "starts_with p ''/''")
  case True
  with norm_components_form [of p] obtain ns where "rooted_form (norm_components p) ns" by auto
  then show ?thesis
    by (simp add: norm_components_def [of "normalize_lexical_path p"] components_normalize
        rooted_form_def fold_norm_names)
next
  case False
  with norm_components_form [of p] obtain k ns where "relative_form (norm_components p) k ns"
    by auto
  then show ?thesis
    by (simp add: norm_components_def [of "normalize_lexical_path p"] components_normalize
        relative_form_def fold_norm_names fold_norm_parents)
qed

subsection \<open>Containment against a reference resolver\<close>

text \<open>The reference: walk the components of an absolute path with a stack of names, as a kernel
  without symbolic links would; \<open>..\<close> at the root stays at the root.\<close>

fun resolve_names :: "string list \<Rightarrow> path_component list \<Rightarrow> string list" where
  "resolve_names st [] = st"
| "resolve_names st (RootDir # cs) = resolve_names [] cs"
| "resolve_names st (CurDir # cs) = resolve_names st cs"
| "resolve_names st (ParentDir # cs) = resolve_names (butlast st) cs"
| "resolve_names st (Normal n # cs) = resolve_names (st @ [n]) cs"

lemma fold_norm_resolve:
  "\<forall>c \<in> set body. comp_ok c \<Longrightarrow>
   fold norm_step body (RootDir # map Normal st, length st, True) =
     (RootDir # map Normal (resolve_names st body), length (resolve_names st body), True)"
proof (induction st body rule: resolve_names.induct)
  case (4 st cs)
  then show ?case by (cases st rule: rev_cases) auto
qed (auto simp: comp_ok_def)

lemma norm_components_absolute:
  assumes "starts_with p ''/''"
  shows "norm_components p = RootDir # map Normal (resolve_names [] (components p))"
proof -
  have "components p = RootDir # path_body p"
    using assms by (simp add: components_def path_body_def Let_def del: piece_component.simps)
  then show ?thesis
    using assms fold_norm_resolve [OF path_body_ok, of p "[]"]
    unfolding norm_components_def fold_norm_components by simp
qed

text \<open>
  C8: On absolute paths, capability containment is exactly containment of the resolved
  locations: \<open>path_contains\<close> holds when the resolved names of the granted path are a prefix of the
  resolved names of the requested one, so no arrangement of \<open>.\<close>, \<open>..\<close> or repeated separators
  reaches outside a granted directory.
\<close>

theorem path_contains_absolute:
  assumes "starts_with p ''/''" and "starts_with r ''/''"
  shows "path_contains p r \<longleftrightarrow>
    prefix (resolve_names [] (components p)) (resolve_names [] (components r))"
proof -
  have "prefix (map Normal ns) (map Normal ms) \<longleftrightarrow> prefix ns ms" for ns ms
    by (induction ns ms rule: list_induct2') auto
  then show ?thesis
    by (simp add: path_contains_iff norm_components_absolute assms)
qed

theorem path_contains_absolute_witness:
  "path_contains ''/data'' ''/data/./in/../out'' \<and> \<not> path_contains ''/data'' ''/data/../etc''"
proof -
  have "starts_with ''/data'' ''/''" "starts_with ''/data/./in/../out'' ''/''"
    "starts_with ''/data/../etc'' ''/''"
    by (simp_all add: starts_with_def)
  note h = this
  show ?thesis
    unfolding path_contains_absolute [OF h(1) h(2)] path_contains_absolute [OF h(1) h(3)]
    by (simp add: components_def starts_with_def)
qed

lemma path_contains_refl: "path_contains p p"
  by (simp add: path_contains_iff)

lemma path_contains_trans: "path_contains p q \<Longrightarrow> path_contains q r \<Longrightarrow> path_contains p r"
  by (auto simp: path_contains_iff intro: prefix_order.trans)

lemma path_eq_contains_left: "path_eq p q \<Longrightarrow> path_contains p r = path_contains q r"
  by (simp add: path_contains_iff path_eq_iff)

lemma path_eq_contains_right: "path_eq p q \<Longrightarrow> path_contains r p = path_contains r q"
  by (simp add: path_contains_iff path_eq_iff)

lemma path_eq_refl: "path_eq p p"
  by (simp add: path_eq_iff)

lemma path_eq_trans: "path_eq p q \<Longrightarrow> path_eq q r \<Longrightarrow> path_eq p r"
  by (simp add: path_eq_iff)

text \<open>
  Normalization is idempotent as a function on strings: a normalized path is its own
  normal form, so comparing normalized paths never depends on how often they were normalized.
\<close>

lemma normalize_idempotent:
  "normalize_lexical_path (normalize_lexical_path p) = normalize_lexical_path p"
  using norm_components_idem [of p] by (simp add: normalize_lexical_path_def)

subsection \<open>Attenuation\<close>

text \<open>
  A contract for attenuation: whatever a narrower grant gives, the wider one gives too. Then a
  chain of attenuations, leaf first, grants nothing its root does not grant.
\<close>

locale grant_order =
  fixes sub :: "'c \<Rightarrow> 'c \<Rightarrow> bool" and grants :: "'c \<Rightarrow> 'r \<Rightarrow> bool"
  assumes sub_grants: "sub c p \<Longrightarrow> grants c r \<Longrightarrow> grants p r"
begin

lemma chain_grants:
  "successively sub (c # cs) \<Longrightarrow> grants c r \<Longrightarrow> p \<in> set (c # cs) \<Longrightarrow> grants p r"
proof (induction cs arbitrary: c)
  case (Cons d cs)
  then have "grants d r" by (auto intro: sub_grants)
  with Cons show ?case by (cases "p = c") auto
qed simp

end

text \<open>The one pair of scopes for which the subset test does not bound what the child matches.\<close>

fun scope_widens :: "memory_scope \<Rightarrow> memory_scope \<Rightarrow> bool" where
  "scope_widens (Namespace _) (Session _ _) = True"
| "scope_widens _ _ = False"

fun cap_scope :: "capability \<Rightarrow> memory_scope option" where
  "cap_scope (ReadMemory s) = Some s"
| "cap_scope (WriteMemory s) = Some s"
| "cap_scope _ = None"

definition cap_widens :: "capability \<Rightarrow> capability \<Rightarrow> bool" where
  "cap_widens c p =
     (case (cap_scope c, cap_scope p) of (Some s, Some t) \<Rightarrow> scope_widens s t | _ \<Rightarrow> False)"

lemma scope_subset_refl: "scope_is_subset_of s s"
  by (cases s) auto

lemma scope_subset_trans:
  "scope_is_subset_of r s \<Longrightarrow> scope_is_subset_of s t \<Longrightarrow> \<not> scope_widens s t \<Longrightarrow> scope_is_subset_of r t"
  by (cases r; cases s; cases t) auto

lemma scope_subset_matches:
  "scope_is_subset_of s t \<Longrightarrow> \<not> scope_widens s t \<Longrightarrow> scope_matches s a sid \<Longrightarrow> scope_matches t a sid"
  by (cases s; cases t) (auto split: option.splits)

lemma cap_subset_allows:
  assumes "cap_is_subset_of c p" and "\<not> cap_widens c p" and "cap_allows c r"
  shows "cap_allows p r"
proof (cases p)
  case (WriteFile x)
  with assms show ?thesis
    by (auto simp: cap_is_subset_of_def cap_allows_def path_eq_contains_left
        intro: path_contains_trans path_eq_trans split: capability.splits if_splits)
next
  case (ReadFile x)
  with assms show ?thesis
    by (auto simp: cap_is_subset_of_def cap_allows_def
        intro: path_contains_trans split: capability.splits if_splits)
next
  case (ListDirectory x)
  with assms show ?thesis
    by (auto simp: cap_is_subset_of_def cap_allows_def
        intro: path_contains_trans split: capability.splits if_splits)
next
  case (ReadMemory x)
  with assms show ?thesis
    by (auto simp: cap_is_subset_of_def cap_allows_def cap_widens_def
        intro: scope_subset_trans split: capability.splits if_splits)
next
  case (WriteMemory x)
  with assms show ?thesis
    by (auto simp: cap_is_subset_of_def cap_allows_def cap_widens_def
        intro: scope_subset_trans split: capability.splits if_splits)
qed (use assms in \<open>auto simp: cap_is_subset_of_def cap_allows_def path_eq_std_def
       split: capability.splits if_splits\<close>)

lemma cap_allows_refl: "c \<noteq> CapNone \<Longrightarrow> cap_allows c c"
  by (cases c) (auto simp: cap_allows_def path_contains_refl path_eq_refl path_eq_std_def
      scope_subset_refl)

lemma cap_subset_refl: "cap_is_subset_of c c"
  using cap_allows_refl [of c] by (auto simp: cap_is_subset_of_def)

interpretation cap_grants: grant_order "\<lambda>c p. cap_is_subset_of c p \<and> \<not> cap_widens c p" cap_allows
  by unfold_locales (auto intro: cap_subset_allows)

interpretation scope_grants: grant_order
  "\<lambda>s t. scope_is_subset_of s t \<and> \<not> scope_widens s t" "\<lambda>s (a, sid). scope_matches s a sid"
  by unfold_locales (auto intro: scope_subset_matches)

text \<open>
  Attenuation is sound along a whole chain: if every capability is a subset of the next
  (and no link re-scopes a session-scoped memory capability to a namespace), then whatever the
  leaf allows, every ancestor up to the root allows.
\<close>

lemma attenuation_chain_sound:
  assumes "successively (\<lambda>c p. cap_is_subset_of c p \<and> \<not> cap_widens c p) (c # cs)"
    and "cap_allows c r" and "p \<in> set cs"
  shows "cap_allows p r"
  using cap_grants.chain_grants [OF assms(1,2)] assms(3) by simp

text \<open>
  The subset test accepts a widening: a capability scoped to the namespace of an agent
  counts as a subset of one scoped to a single session of that agent, although the namespace
  scope matches every session of the agent (and requests without a session) and the session scope
  only its own.
\<close>

lemma namespace_subset_of_session_widens:
  assumes "sid \<noteq> Some s"
  shows "cap_is_subset_of (ReadMemory (Namespace a)) (ReadMemory (Session a s))
    \<and> scope_matches (Namespace a) a sid \<and> \<not> scope_matches (Session a s) a sid"
  using assms by (auto simp: cap_is_subset_of_def cap_allows_def split: option.splits)

subsection \<open>Printing and parsing scopes\<close>

fun scope_printable :: "memory_scope \<Rightarrow> bool" where
  "scope_printable (Agent a) = (CHR '':'' \<notin> set a)"
| "scope_printable (Session a s) =
     (CHR '':'' \<notin> set a \<and> CHR '':'' \<notin> set s \<and> a \<noteq> [] \<and> s \<noteq> [] \<and> trim a = a \<and> trim s = s)"
| "scope_printable (Namespace n) = (CHR '':'' \<notin> set n \<and> n \<noteq> [] \<and> trim n = n)"

lemma trim_kinds: "trim ''agent'' = ''agent''" "trim ''session'' = ''session''"
    "trim ''namespace'' = ''namespace''"
  by (simp_all add: trim_def trim_start_def trim_end_def is_ws_def)

text \<open>
  A scope survives a round trip through its display form, as long as its ids hold no
  colon and (for sessions and namespaces, whose ids the parser trims and requires) are non-empty
  and carry no surrounding white space.
\<close>

lemma scope_parse_display:
  assumes "scope_printable s"
  shows "scope_parse (scope_display s) = Some s"
proof (cases s)
  case (Agent a)
  have "split_char CHR '':'' (''agent'' @ CHR '':'' # a) = ''agent'' # split_char CHR '':'' a"
    by (rule split_char_append) simp
  with Agent assms show ?thesis by (simp add: scope_parse_def split_char_free trim_kinds)
next
  case (Session a t)
  have "split_char CHR '':'' (''session'' @ CHR '':'' # a @ CHR '':'' # t) =
      ''session'' # split_char CHR '':'' (a @ CHR '':'' # t)"
    by (rule split_char_append) simp
  with Session assms show ?thesis
    by (simp add: scope_parse_def split_char_free split_char_append trim_kinds)
next
  case (Namespace n)
  have "split_char CHR '':'' (''namespace'' @ CHR '':'' # n) =
      ''namespace'' # split_char CHR '':'' n"
    by (rule split_char_append) simp
  with Namespace assms show ?thesis by (simp add: scope_parse_def split_char_free trim_kinds)
qed

end
