(* ===== verification/Url_Guard.thy ===== *)
theory Url_Guard
  imports Nexus_Error
begin

text \<open>
  The SSRF guard \<open>src/src/security/url_guard.rs\<close> and the egress policy
  \<open>src/src/security/egress.rs\<close>.

  \<open>Url::parse\<close> belongs to the \<open>url\<close> crate and name resolution to the operating system: they are
  the parameters \<open>url_parse\<close> and \<open>resolve\<close>. What the code reads of a parsed URL is the record
  \<open>url\<close>. Address parsing (\<open>str::parse::<IpAddr>\<close>) and the address predicates (\<open>is_private\<close>,
  \<open>is_loopback\<close>, ...) are the standard library's and are defined here.
\<close>

unbundle bit_operations_syntax

subsection \<open>Addresses\<close>

datatype ipv4 = Ipv4 (oct0: byte) (oct1: byte) (oct2: byte) (oct3: byte)

datatype ip_addr = V4 ipv4 | V6 "u16 list"

fun v4_is_loopback :: "ipv4 \<Rightarrow> bool" where
  "v4_is_loopback (Ipv4 a b c d) = (a = 127)"

fun v4_is_private :: "ipv4 \<Rightarrow> bool" where
  "v4_is_private (Ipv4 a b c d) =
     (a = 10 \<or> a = 172 \<and> 16 \<le> b \<and> b \<le> 31 \<or> a = 192 \<and> b = 168)"

fun v4_is_link_local :: "ipv4 \<Rightarrow> bool" where
  "v4_is_link_local (Ipv4 a b c d) = (a = 169 \<and> b = 254)"

fun v4_is_multicast :: "ipv4 \<Rightarrow> bool" where
  "v4_is_multicast (Ipv4 a b c d) = (224 \<le> a \<and> a \<le> 239)"

fun v4_is_broadcast :: "ipv4 \<Rightarrow> bool" where
  "v4_is_broadcast (Ipv4 a b c d) = (a = 255 \<and> b = 255 \<and> c = 255 \<and> d = 255)"

fun v4_is_documentation :: "ipv4 \<Rightarrow> bool" where
  "v4_is_documentation (Ipv4 a b c d) =
     (a = 192 \<and> b = 0 \<and> c = 2 \<or> a = 198 \<and> b = 51 \<and> c = 100 \<or> a = 203 \<and> b = 0 \<and> c = 113)"

fun v4_is_unspecified :: "ipv4 \<Rightarrow> bool" where
  "v4_is_unspecified (Ipv4 a b c d) = (a = 0 \<and> b = 0 \<and> c = 0 \<and> d = 0)"

definition is_blocked_v4 :: "ipv4 \<Rightarrow> bool" where
  "is_blocked_v4 ip =
     (v4_is_loopback ip \<or> v4_is_private ip \<or> v4_is_link_local ip \<or> v4_is_multicast ip
      \<or> v4_is_broadcast ip \<or> v4_is_documentation ip \<or> v4_is_unspecified ip
      \<or> (oct0 ip = 100 \<and> oct1 ip AND 0xC0 = 64)
      \<or> (oct0 ip = 198 \<and> oct1 ip AND 0xFE = 18)
      \<or> 240 \<le> oct0 ip)"

definition word_octets :: "u16 \<Rightarrow> byte \<times> byte" where
  "word_octets w = (ucast (drop_bit 8 w), ucast w)"

definition v4_of_segments :: "u16 \<Rightarrow> u16 \<Rightarrow> ipv4" where
  "v4_of_segments hi lo =
     (case (word_octets hi, word_octets lo) of ((a, b), (c, d)) \<Rightarrow> Ipv4 a b c d)"

definition to_ipv4_mapped :: "u16 list \<Rightarrow> ipv4 option" where
  "to_ipv4_mapped s =
     (if take 6 s = [0, 0, 0, 0, 0, 0xFFFF] then Some (v4_of_segments (s ! 6) (s ! 7)) else None)"

definition to_ipv4 :: "u16 list \<Rightarrow> ipv4 option" where
  "to_ipv4 s =
     (if take 6 s = [0, 0, 0, 0, 0, 0] \<or> take 6 s = [0, 0, 0, 0, 0, 0xFFFF]
      then Some (v4_of_segments (s ! 6) (s ! 7)) else None)"

definition is_blocked_v6 :: "u16 list \<Rightarrow> bool" where
  "is_blocked_v6 s =
     (s = [0, 0, 0, 0, 0, 0, 0, 1]
      \<or> s ! 0 AND 0xFF00 = 0xFF00
      \<or> s = [0, 0, 0, 0, 0, 0, 0, 0]
      \<or> s ! 0 AND 0xFFC0 = 0xFE80
      \<or> s ! 0 AND 0xFE00 = 0xFC00
      \<or> (case (case to_ipv4_mapped s of Some v \<Rightarrow> Some v | None \<Rightarrow> to_ipv4 s) of
           Some mapped \<Rightarrow> is_blocked_v4 mapped
         | None \<Rightarrow> False))"

fun is_blocked_ip :: "ip_addr \<Rightarrow> bool" where
  "is_blocked_ip (V4 ip) = is_blocked_v4 ip"
| "is_blocked_ip (V6 s) = is_blocked_v6 s"

definition is_blocked_hostname :: "string \<Rightarrow> bool" where
  "is_blocked_hostname host =
     (host = ''localhost'' \<or> host = ''metadata.google.internal'' \<or> host = ''metadata.goog''
      \<or> host = ''metadata'' \<or> starts_with host ''localhost.'')"

subsection \<open>Parsing addresses\<close>

definition digit_val :: "nat \<Rightarrow> char \<Rightarrow> nat option" where
  "digit_val radix c =
     (let n = (of_char c :: nat);
          v = (if 48 \<le> n \<and> n \<le> 57 then Some (n - 48)
               else if 97 \<le> n \<and> n \<le> 102 then Some (n - 87)
               else if 65 \<le> n \<and> n \<le> 70 then Some (n - 55) else None)
      in (case v of Some d \<Rightarrow> if d < radix then Some d else None | None \<Rightarrow> None))"

definition read_number ::
  "nat \<Rightarrow> nat \<Rightarrow> nat \<Rightarrow> bool \<Rightarrow> string \<Rightarrow> (nat \<times> string) option" where
  "read_number radix max_digits max_val allow_zero_prefix s =
     (let ds = takeWhile (\<lambda>c. digit_val radix c \<noteq> None) s;
          n = foldl (\<lambda>acc c. acc * radix + the (digit_val radix c)) 0 ds
      in if ds = [] \<or> max_digits < length ds \<or> max_val < n
            \<or> (\<not> allow_zero_prefix \<and> hd ds = CHR ''0'' \<and> 1 < length ds)
         then None else Some (n, drop (length ds) s))"

fun read_char :: "char \<Rightarrow> string \<Rightarrow> string option" where
  "read_char c [] = None"
| "read_char c (x # xs) = (if x = c then Some xs else None)"

fun read_octets :: "nat \<Rightarrow> bool \<Rightarrow> string \<Rightarrow> (nat list \<times> string) option" where
  "read_octets 0 first s = Some ([], s)"
| "read_octets (Suc k) first s =
     (case (if first then Some s else read_char CHR ''.'' s) of
        None \<Rightarrow> None
      | Some s1 \<Rightarrow>
          (case read_number 10 3 255 False s1 of
             None \<Rightarrow> None
           | Some (n, s2) \<Rightarrow>
               (case read_octets k False s2 of
                  None \<Rightarrow> None
                | Some (ns, s3) \<Rightarrow> Some (n # ns, s3))))"

definition read_ipv4_addr :: "string \<Rightarrow> (ipv4 \<times> string) option" where
  "read_ipv4_addr s =
     (case read_octets 4 True s of
        Some ([a, b, c, d], rest) \<Rightarrow>
          Some (Ipv4 (of_nat a) (of_nat b) (of_nat c) (of_nat d), rest)
      | _ \<Rightarrow> None)"

text \<open>\<open>read_groups limit i s\<close>: the groups still to be read, the groups already read being \<open>i\<close>;
  the flag says that an embedded IPv4 address ended the run.\<close>

fun read_groups :: "nat \<Rightarrow> nat \<Rightarrow> string \<Rightarrow> u16 list \<times> bool \<times> string" where
  "read_groups 0 i s = ([], False, s)"
| "read_groups (Suc k) i s =
     (let sep = (if i = 0 then Some s else read_char CHR '':'' s);
          v4 = (if 0 < k then (case sep of Some s1 \<Rightarrow> read_ipv4_addr s1 | None \<Rightarrow> None) else None)
      in case v4 of
           Some (Ipv4 a b c d, rest) \<Rightarrow>
             ([of_nat (unat a * 256 + unat b), of_nat (unat c * 256 + unat d)], True, rest)
         | None \<Rightarrow>
             (case (case sep of Some s1 \<Rightarrow> read_number 16 4 65535 True s1 | None \<Rightarrow> None) of
                None \<Rightarrow> ([], False, s)
              | Some (n, rest) \<Rightarrow>
                  (let (gs, e, rest') = read_groups k (Suc i) rest in (of_nat n # gs, e, rest'))))"

definition read_ipv6_addr :: "string \<Rightarrow> (u16 list \<times> string) option" where
  "read_ipv6_addr s =
     (let (head, head_ipv4, r1) = read_groups 8 0 s in
      if length head = 8 then Some (head, r1)
      else if head_ipv4 then None
      else (case read_char CHR '':'' r1 of
              None \<Rightarrow> None
            | Some r2 \<Rightarrow>
                (case read_char CHR '':'' r2 of
                   None \<Rightarrow> None
                 | Some r3 \<Rightarrow>
                     (let (tail, _, r4) = read_groups (8 - (length head + 1)) 0 r3 in
                      Some (head @ replicate (8 - length head - length tail) 0 @ tail, r4)))))"

definition parse_ip :: "string \<Rightarrow> ip_addr option" where
  "parse_ip s =
     (case (case read_ipv4_addr s of
              Some (v, r) \<Rightarrow> Some (V4 v, r)
            | None \<Rightarrow> (case read_ipv6_addr s of Some (g, r) \<Rightarrow> Some (V6 g, r) | None \<Rightarrow> None)) of
        Some (ip, []) \<Rightarrow> Some ip
      | _ \<Rightarrow> None)"

subsection \<open>URLs and the pattern guard\<close>

datatype url_host = HostIpv4 ipv4 | HostIpv6 "u16 list" | HostDomain string

record url =
  url_scheme :: string
  url_host :: "url_host option"
  url_host_str :: "string option"
  url_port :: "u16 option"

definition validate_resolved_url :: "url \<Rightarrow> unit result" where
  "validate_resolved_url u =
     (let restricted = Inl (InvalidCapability ''HTTP URL '{}' targets a restricted host or address'')
      in case url_host u of
           Some (HostIpv4 ip) \<Rightarrow> (if is_blocked_ip (V4 ip) then restricted else Inr ())
         | Some (HostIpv6 ip) \<Rightarrow> (if is_blocked_v6 ip then restricted else Inr ())
         | Some (HostDomain name) \<Rightarrow>
             (let host = to_ascii_lowercase (rev (dropWhile (\<lambda>c. c = CHR ''.'') (rev name))) in
              if (case parse_ip host of Some ip \<Rightarrow> is_blocked_ip ip | None \<Rightarrow> False)
                 \<or> is_blocked_hostname host
              then restricted else Inr ())
         | None \<Rightarrow> Inl (InvalidCapability ''HTTP URL '{}' does not contain a host''))"

definition validate_http_capability_pattern :: "(string \<Rightarrow> url option) \<Rightarrow> string \<Rightarrow> unit result" where
  "validate_http_capability_pattern url_parse pattern =
     (let parse_target = (case strip_suffix pattern ''/*'' of Some t \<Rightarrow> t | None \<Rightarrow> pattern) in
      case url_parse parse_target of
        None \<Rightarrow> Inl (InvalidCapability ''invalid HTTP capability URL '{}': {}'')
      | Some u \<Rightarrow>
          (if url_scheme u \<noteq> ''http'' \<and> url_scheme u \<noteq> ''https''
           then Inl (InvalidCapability ''HTTP capability URL '{}' must use http or https scheme'')
           else (case validate_resolved_url u of
                   Inl _ \<Rightarrow>
                     Inl (InvalidCapability
                       ''HTTP capability URL '{}' targets a restricted host or address'')
                 | Inr _ \<Rightarrow> Inr ())))"

subsection \<open>Egress policy\<close>

record egress_policy =
  allow_hosts :: "string list"
  allow_private :: bool

datatype env_var = EnvNotPresent | EnvNotUnicode | EnvValue string

definition egress_from_env :: "env_var \<Rightarrow> env_var \<Rightarrow> egress_policy result" where
  "egress_from_env allowlist_var private_var =
     (case (case allowlist_var of
              EnvValue v \<Rightarrow>
                Inr (filter (\<lambda>h. h \<noteq> [])
                  (map (\<lambda>h. to_ascii_lowercase (trim h)) (split_char CHR '','' v)))
            | EnvNotPresent \<Rightarrow> Inr []
            | EnvNotUnicode \<Rightarrow> Inl (ConfigError ''{EGRESS_ALLOWLIST_ENV} must be valid Unicode'')) of
        Inl e \<Rightarrow> Inl e
      | Inr hosts \<Rightarrow>
          (case (case private_var of
                   EnvValue v \<Rightarrow>
                     (let n = to_ascii_lowercase (trim v) in
                      if n = [] \<or> n = ''0'' \<or> n = ''false'' then Inr False
                      else if n = ''1'' \<or> n = ''true'' then Inr True
                      else Inl (ConfigError
                        ''NEXUS_EGRESS_ALLOW_PRIVATE must be one of: 0, 1, true, false''))
                 | EnvNotPresent \<Rightarrow> Inr False
                 | EnvNotUnicode \<Rightarrow>
                     Inl (ConfigError ''{EGRESS_ALLOW_PRIVATE_ENV} must be valid Unicode'')) of
             Inl e \<Rightarrow> Inl e
           | Inr b \<Rightarrow> Inr \<lparr>allow_hosts = hosts, allow_private = b\<rparr>))"

definition egress_allow_host :: "string \<Rightarrow> egress_policy \<Rightarrow> egress_policy" where
  "egress_allow_host host policy =
     (let h = to_ascii_lowercase (trim host) in
      if h \<noteq> [] then policy\<lparr>allow_hosts := List.insert h (allow_hosts policy)\<rparr> else policy)"

definition egress_is_blocked_address :: "egress_policy \<Rightarrow> ip_addr \<Rightarrow> bool" where
  "egress_is_blocked_address policy ip = (if allow_private policy then False else is_blocked_ip ip)"

definition egress_check_url ::
  "(string \<Rightarrow> u16 \<Rightarrow> ip_addr list option) \<Rightarrow> egress_policy \<Rightarrow> url \<Rightarrow> unit result" where
  "egress_check_url resolve policy u =
     (if url_scheme u \<noteq> ''http'' \<and> url_scheme u \<noteq> ''https''
      then Inl (EgressDenied ''URL scheme '{}' is not allowed'')
      else case url_host_str u of
        None \<Rightarrow> Inl (EgressDenied ''URL does not include a host'')
      | Some host0 \<Rightarrow>
          (let host = to_ascii_lowercase (trim host0) in
           if host \<in> set (allow_hosts policy) then Inr ()
           else
             let socket_host =
               rev (dropWhile (\<lambda>c. c = CHR '']'') (rev (dropWhile (\<lambda>c. c = CHR ''['') host)))
             in case url_port u of
                  None \<Rightarrow> Inl (EgressDenied ''URL '{}' has no known port'')
                | Some port \<Rightarrow>
                    (case (case parse_ip socket_host of
                             Some ip \<Rightarrow> Some [ip]
                           | None \<Rightarrow> resolve socket_host port) of
                       None \<Rightarrow> Inl (EgressDenied ''Failed to resolve '{}' for AEON egress: {error}'')
                     | Some addresses \<Rightarrow>
                         (if addresses = []
                          then Inl (EgressDenied ''URL '{}' did not resolve to any IP address'')
                          else if \<exists>a \<in> set addresses. egress_is_blocked_address policy a
                          then Inl (EgressDenied
                            ''Egress denied to '{}' because destination is restricted'')
                          else Inr ()))))"

subsection \<open>What the guards guarantee\<close>

text \<open>The segments of an IPv4 address embedded in IPv6.\<close>

definition v4_segments :: "ipv4 \<Rightarrow> u16 \<times> u16" where
  "v4_segments ip =
     (push_bit 8 (ucast (oct0 ip)) OR ucast (oct1 ip), push_bit 8 (ucast (oct2 ip)) OR ucast (oct3 ip))"

lemma word_octets_join: "word_octets (push_bit 8 (ucast a) OR ucast b) = (a, b)"
proof -
  have "ucast (drop_bit 8 (push_bit 8 (ucast a :: u16) OR ucast b)) = a"
    by (rule bit_word_eqI)
      (auto simp: bit_simps dest: bit_imp_le_length)
  moreover have "ucast (push_bit 8 (ucast a :: u16) OR ucast b) = b"
    by (rule bit_word_eqI) (auto simp: bit_simps dest: bit_imp_le_length)
  ultimately show ?thesis by (simp add: word_octets_def)
qed

lemma v4_of_segments_segments: "v4_of_segments (fst (v4_segments ip)) (snd (v4_segments ip)) = ip"
  by (cases ip) (simp add: v4_of_segments_def v4_segments_def word_octets_join)

text \<open>
  A blocked IPv4 address stays blocked in each of its IPv6 spellings, IPv4-mapped
  (\<open>::ffff:a.b.c.d\<close>) and IPv4-compatible (\<open>::a.b.c.d\<close>).
\<close>

lemma blocked_v4_embeddings_blocked:
  assumes "is_blocked_v4 ip" and "m = 0 \<or> m = 0xFFFF"
  shows "is_blocked_ip (V6 [0, 0, 0, 0, 0, m, fst (v4_segments ip), snd (v4_segments ip)])"
  using assms by (auto simp: is_blocked_v6_def to_ipv4_mapped_def to_ipv4_def
      v4_of_segments_segments eval_nat_numeral)

text \<open>
  An egress check that passes has an http or https URL and either an allowlisted host, or
  a policy that permits private ranges, or at least one resolved address and no blocked one; a
  literal address is checked itself and never resolved.
\<close>

lemma egress_check_ok:
  assumes "egress_check_url resolve policy u = Inr ()"
  shows "(url_scheme u = ''http'' \<or> url_scheme u = ''https'') \<and>
    (\<exists>h0 h. url_host_str u = Some h0 \<and> h = to_ascii_lowercase (trim h0) \<and>
      (h \<in> set (allow_hosts policy) \<or>
       (\<exists>sock port addrs. url_port u = Some port
          \<and> sock = rev (dropWhile (\<lambda>c. c = CHR '']'') (rev (dropWhile (\<lambda>c. c = CHR ''['') h)))
          \<and> (case parse_ip sock of Some ip \<Rightarrow> addrs = [ip] | None \<Rightarrow> resolve sock port = Some addrs)
          \<and> addrs \<noteq> []
          \<and> (allow_private policy \<or> (\<forall>a \<in> set addrs. \<not> is_blocked_ip a)))))"
  using assms
  by (auto simp: egress_check_url_def Let_def egress_is_blocked_address_def
      split: result_splits)

text \<open>
  An HTTP capability pattern that is accepted parses as an http or https URL with a host
  that is neither a blocked address, nor a name that spells one, nor a blocked host name; trailing
  dots and letter case do not help.
\<close>

lemma http_pattern_ok:
  assumes "validate_http_capability_pattern url_parse pattern = Inr ()"
  shows "\<exists>u h. url_parse (case strip_suffix pattern ''/*'' of Some t \<Rightarrow> t | None \<Rightarrow> pattern) = Some u
    \<and> (url_scheme u = ''http'' \<or> url_scheme u = ''https'') \<and> url_host u = Some h
    \<and> (case h of
         HostIpv4 ip \<Rightarrow> \<not> is_blocked_ip (V4 ip)
       | HostIpv6 ip \<Rightarrow> \<not> is_blocked_ip (V6 ip)
       | HostDomain name \<Rightarrow>
           (let n = to_ascii_lowercase (rev (dropWhile (\<lambda>c. c = CHR ''.'') (rev name)))
            in \<not> is_blocked_hostname n \<and> (\<forall>ip. parse_ip n = Some ip \<longrightarrow> \<not> is_blocked_ip ip)))"
  using assms
  by (auto simp: validate_http_capability_pattern_def validate_resolved_url_def Let_def
      split: result_splits url_host.splits)

end
