(* ===== verification/Capability_Manager.thy ===== *)
theory Capability_Manager
  imports Capability Url_Guard
begin

text \<open>
  Capability tokens and the manager that issues, attenuates, validates and revokes them:
  \<open>src/src/security/capability.rs\<close>, lines 304-667.

  External code is a record of parameters, \<open>cap_env\<close>: \<open>bincode::serialize\<close> on the signed tuple,
  Ed25519 signing and verification, and \<open>Url::parse\<close>. The clock reading of an operation and a
  freshly drawn UUID are arguments. \<open>u32\<close> additions on the chain depth wrap, as they do in the
  release profile. The loop of \<open>validate_chain\<close> follows parent links through a hash map and is a
  \<open>partial_function\<close>: \<open>None\<close> is a loop that does not end.
\<close>

subsection \<open>Tokens\<close>

record capability_token =
  tok_id :: uuid
  capability :: capability
  granted_by :: string
  issued_at :: time
  expires_at :: time
  parent_id :: "uuid option"
  chain_depth :: u32
  signature :: bytes

type_synonym token_data =
  "uuid \<times> capability \<times> string \<times> time \<times> time \<times> uuid option \<times> u32"

record cap_env =
  bincode_token :: "token_data \<Rightarrow> bytes option"
  ed_sign :: "bytes \<Rightarrow> bytes \<Rightarrow> bytes"
  ed_verify :: "bytes \<Rightarrow> bytes \<Rightarrow> bytes \<Rightarrow> bool"
  env_url_parse :: "string \<Rightarrow> url option"

definition DEFAULT_MAX_CHAIN_DEPTH :: u32 where
  "DEFAULT_MAX_CHAIN_DEPTH = 5"

definition signed_data :: "capability_token \<Rightarrow> token_data" where
  "signed_data t =
     (tok_id t, capability t, granted_by t, issued_at t, expires_at t, parent_id t, chain_depth t)"

definition check_http_pattern :: "cap_env \<Rightarrow> capability \<Rightarrow> unit result" where
  "check_http_pattern env c =
     (case c of
        HttpGet p \<Rightarrow> validate_http_capability_pattern (env_url_parse env) p
      | HttpPost p \<Rightarrow> validate_http_capability_pattern (env_url_parse env) p
      | _ \<Rightarrow> Inr ())"

definition token_new ::
  "cap_env \<Rightarrow> time \<Rightarrow> uuid \<Rightarrow> capability \<Rightarrow> string \<Rightarrow> time \<Rightarrow> bytes \<Rightarrow> capability_token result" where
  "token_new env now new_id cap by_whom validity sk =
     (case check_http_pattern env cap of
        Inl e \<Rightarrow> Inl e
      | Inr _ \<Rightarrow>
          (let token = \<lparr>tok_id = new_id, capability = cap, granted_by = by_whom, issued_at = now,
                        expires_at = now + validity, parent_id = None, chain_depth = 0,
                        signature = []\<rparr>
           in case bincode_token env (signed_data token) of
                None \<Rightarrow> Inl (SerializationError ''token signing: {e}'')
              | Some data \<Rightarrow> Inr (token\<lparr>signature := ed_sign env sk data\<rparr>)))"

definition verify_signature :: "cap_env \<Rightarrow> capability_token \<Rightarrow> bytes \<Rightarrow> bool" where
  "verify_signature env t vk =
     (case bincode_token env (signed_data t) of
        None \<Rightarrow> False
      | Some data \<Rightarrow> (if length (signature t) \<noteq> 64 then False else ed_verify env vk data (signature t)))"

definition token_is_valid :: "time \<Rightarrow> capability_token \<Rightarrow> bool" where
  "token_is_valid now t = (now < expires_at t)"

definition token_allows :: "time \<Rightarrow> capability_token \<Rightarrow> capability \<Rightarrow> bool" where
  "token_allows now t requested = (token_is_valid now t \<and> cap_allows (capability t) requested)"

definition token_attenuate ::
  "cap_env \<Rightarrow> time \<Rightarrow> uuid \<Rightarrow> capability_token \<Rightarrow> capability \<Rightarrow> string \<Rightarrow> time \<Rightarrow> bytes \<Rightarrow> u32
   \<Rightarrow> capability_token result" where
  "token_attenuate env now new_id self narrower by_whom validity sk max_depth =
     (if \<not> cap_is_subset_of narrower (capability self)
      then Inl (InvalidCapability ''attenuated capability {:?} is not a subset of parent {:?}'')
      else
        let child_depth = chain_depth self + 1 in
        if max_depth < child_depth
        then Inl (InvalidCapability ''attenuation chain depth {child_depth} exceeds max {max_depth}'')
        else case check_http_pattern env narrower of
          Inl e \<Rightarrow> Inl e
        | Inr _ \<Rightarrow>
            (let token = \<lparr>tok_id = new_id, capability = narrower, granted_by = by_whom,
                          issued_at = now, expires_at = min (now + validity) (expires_at self),
                          parent_id = Some (tok_id self), chain_depth = child_depth,
                          signature = []\<rparr>
             in case bincode_token env (signed_data token) of
                  None \<Rightarrow> Inl (SerializationError ''attenuate signing: {e}'')
                | Some data \<Rightarrow> Inr (token\<lparr>signature := ed_sign env sk data\<rparr>)))"

subsection \<open>The manager\<close>

record capability_manager =
  signing_key :: bytes
  verifying_key :: bytes
  active_tokens :: "(uuid, capability_token) hashmap"
  revoked_tokens :: "(uuid, time) hashmap"

definition manager_from_keys :: "bytes \<Rightarrow> bytes \<Rightarrow> capability_manager" where
  "manager_from_keys sk vk =
     \<lparr>signing_key = sk, verifying_key = vk, active_tokens = [], revoked_tokens = []\<rparr>"

definition manager_issue ::
  "cap_env \<Rightarrow> time \<Rightarrow> uuid \<Rightarrow> capability \<Rightarrow> string \<Rightarrow> time \<Rightarrow> capability_manager
   \<Rightarrow> capability_token result \<times> capability_manager" where
  "manager_issue env now new_id cap by_whom validity m =
     (case token_new env now new_id cap by_whom validity (signing_key m) of
        Inl e \<Rightarrow> (Inl e, m)
      | Inr token \<Rightarrow>
          (Inr token, m\<lparr>active_tokens := hm_insert (tok_id token) token (active_tokens m)\<rparr>))"

definition manager_attenuate ::
  "cap_env \<Rightarrow> time \<Rightarrow> uuid \<Rightarrow> uuid \<Rightarrow> capability \<Rightarrow> string \<Rightarrow> time \<Rightarrow> capability_manager
   \<Rightarrow> capability_token result \<times> capability_manager" where
  "manager_attenuate env now new_id pid narrower by_whom validity m =
     (case hm_get (active_tokens m) pid of
        None \<Rightarrow> (Inl (InvalidCapability ''capability chain validation failed''), m)
      | Some parent \<Rightarrow>
          (case token_attenuate env now new_id parent narrower by_whom validity (signing_key m)
                  DEFAULT_MAX_CHAIN_DEPTH of
             Inl e \<Rightarrow> (Inl e, m)
           | Inr child \<Rightarrow>
               (Inr child, m\<lparr>active_tokens := hm_insert (tok_id child) child (active_tokens m)\<rparr>)))"

partial_function (option) validate_chain_loop ::
  "cap_env \<Rightarrow> time \<Rightarrow> capability_manager \<Rightarrow> capability_token \<Rightarrow> unit result option" where
  "validate_chain_loop env now m child =
     (case parent_id child of
        None \<Rightarrow> Some (Inr ())
      | Some pid \<Rightarrow>
          (case hm_get (revoked_tokens m) pid of
             Some _ \<Rightarrow> Some (Inl (InvalidCapability (safe_message TokenRevoked)))
           | None \<Rightarrow>
               (case hm_get (active_tokens m) pid of
                  None \<Rightarrow> Some (Inl (InvalidCapability ''capability chain validation failed''))
                | Some parent \<Rightarrow>
                    (if \<not> verify_signature env parent (verifying_key m)
                     then Some (Inl (InvalidCapability ''ancestor {pid} has invalid signature''))
                     else if \<not> token_is_valid now parent
                     then Some (Inl (InvalidCapability ''ancestor {pid} expired at {}''))
                     else if chain_depth child \<noteq> chain_depth parent + 1
                     then Some (Inl (InvalidCapability ''non-monotonic chain depth at {pid}''))
                     else if \<not> cap_is_subset_of (capability child) (capability parent)
                     then Some (Inl (InvalidCapability ''link {:?} is not a subset of parent {:?}''))
                     else validate_chain_loop env now m parent))))"

definition validate_chain ::
  "cap_env \<Rightarrow> time \<Rightarrow> capability_manager \<Rightarrow> capability_token \<Rightarrow> u32 \<Rightarrow> unit result option" where
  "validate_chain env now m token max_depth =
     (if max_depth < chain_depth token
      then Some (Inl (InvalidCapability ''chain depth {} exceeds max {max_depth}''))
      else validate_chain_loop env now m token)"

definition validate ::
  "cap_env \<Rightarrow> time \<Rightarrow> capability_manager \<Rightarrow> capability_token \<Rightarrow> capability \<Rightarrow> unit result option" where
  "validate env now m token requested =
     (case hm_get (revoked_tokens m) (tok_id token) of
        Some _ \<Rightarrow> Some (Inl (InvalidCapability (safe_message TokenRevoked)))
      | None \<Rightarrow>
          (if \<not> token_is_valid now token
           then Some (Inl (InvalidCapability (safe_message TokenExpired)))
           else if \<not> verify_signature env token (verifying_key m)
           then Some (Inl (InvalidCapability (safe_message CapabilityNotPermitted)))
           else case (if parent_id token \<noteq> None
                      then validate_chain env now m token DEFAULT_MAX_CHAIN_DEPTH
                      else Some (Inr ())) of
                  None \<Rightarrow> None
                | Some (Inl e) \<Rightarrow> Some (Inl e)
                | Some (Inr _) \<Rightarrow>
                    (if \<not> token_allows now token requested
                     then Some (Inl (InvalidCapability (safe_message CapabilityNotPermitted)))
                     else Some (Inr ()))))"

fun any_token_validates ::
  "cap_env \<Rightarrow> time \<Rightarrow> capability_manager \<Rightarrow> capability_token list \<Rightarrow> capability \<Rightarrow> bool option" where
  "any_token_validates env now m [] cap = Some False"
| "any_token_validates env now m (t # ts) cap =
     (case validate env now m t cap of
        None \<Rightarrow> None
      | Some r \<Rightarrow> (if is_ok r then Some True else any_token_validates env now m ts cap))"

fun authorize ::
  "cap_env \<Rightarrow> time \<Rightarrow> capability_manager \<Rightarrow> capability_token list \<Rightarrow> capability list
   \<Rightarrow> unit result option" where
  "authorize env now m tokens [] = Some (Inr ())"
| "authorize env now m tokens (cap # required) =
     (case any_token_validates env now m tokens cap of
        None \<Rightarrow> None
      | Some satisfied \<Rightarrow>
          (if \<not> satisfied then Some (Inl (CapabilityDenied ''no valid token grants {:?}''))
           else authorize env now m tokens required))"

definition revoke :: "time \<Rightarrow> uuid \<Rightarrow> capability_manager \<Rightarrow> capability_manager" where
  "revoke now token_id m =
     m\<lparr>revoked_tokens := hm_insert token_id now (revoked_tokens m),
       active_tokens := hm_remove token_id (active_tokens m)\<rparr>"

definition is_revoked :: "capability_manager \<Rightarrow> uuid \<Rightarrow> bool" where
  "is_revoked m token_id = (hm_get (revoked_tokens m) token_id \<noteq> None)"

subsection \<open>Specification of a valid chain\<close>

definition link_ok :: "cap_env \<Rightarrow> time \<Rightarrow> capability_manager \<Rightarrow> uuid \<Rightarrow> capability_token \<Rightarrow> capability_token \<Rightarrow> bool" where
  "link_ok env now m pid child parent \<longleftrightarrow>
     hm_get (revoked_tokens m) pid = None \<and> hm_get (active_tokens m) pid = Some parent
     \<and> verify_signature env parent (verifying_key m) \<and> token_is_valid now parent
     \<and> chain_depth child = chain_depth parent + 1
     \<and> cap_is_subset_of (capability child) (capability parent)"

inductive valid_chain :: "cap_env \<Rightarrow> time \<Rightarrow> capability_manager \<Rightarrow> capability_token \<Rightarrow> bool"
  for env now m where
  chain_root: "parent_id t = None \<Longrightarrow> valid_chain env now m t"
| chain_link: "parent_id t = Some pid \<Longrightarrow> link_ok env now m pid t p \<Longrightarrow> valid_chain env now m p
    \<Longrightarrow> valid_chain env now m t"

inductive_cases valid_chain_linkE: "valid_chain env now m t"

inductive ancestor :: "capability_manager \<Rightarrow> capability_token \<Rightarrow> capability_token \<Rightarrow> bool"
  for m where
  anc_self: "ancestor m t t"
| anc_up: "parent_id t = Some pid \<Longrightarrow> hm_get (active_tokens m) pid = Some p \<Longrightarrow> ancestor m p a
    \<Longrightarrow> ancestor m t a"

lemma chain_loop_sound:
  assumes "validate_chain_loop env now m t = Some r" and "r = Inr ()"
  shows "valid_chain env now m t"
proof -
  have "r = Inr () \<longrightarrow> valid_chain env now m t"
    by (rule validate_chain_loop.raw_induct
        [where P = "\<lambda>env now m t r. r = Inr () \<longrightarrow> valid_chain env now m t", OF _ assms(1)])
      (auto simp: link_ok_def split: option.splits if_splits
        intro: valid_chain.chain_root valid_chain.chain_link)
  with assms(2) show ?thesis by simp
qed

lemma chain_loop_complete:
  "valid_chain env now m t \<Longrightarrow> validate_chain_loop env now m t = Some (Inr ())"
  by (induction rule: valid_chain.induct)
    (subst validate_chain_loop.simps; simp add: link_ok_def)+

text \<open>The loop of \<open>validate_chain\<close> implements the inductive specification.\<close>

lemma chain_loop_iff:
  "validate_chain_loop env now m t = Some (Inr ()) \<longleftrightarrow> valid_chain env now m t"
  by (auto intro: chain_loop_sound chain_loop_complete)

lemma validate_ok_iff:
  "validate env now m t req = Some (Inr ()) \<longleftrightarrow>
     hm_get (revoked_tokens m) (tok_id t) = None \<and> token_is_valid now t
     \<and> verify_signature env t (verifying_key m)
     \<and> (parent_id t = None \<or> chain_depth t \<le> DEFAULT_MAX_CHAIN_DEPTH \<and> valid_chain env now m t)
     \<and> cap_allows (capability t) req"
  by (auto simp: validate_def validate_chain_def token_allows_def chain_loop_iff not_less
      dest: chain_loop_complete split: option.splits sum.splits if_splits)

lemma validate_valid_chain:
  "validate env now m t req = Some (Inr ()) \<Longrightarrow> valid_chain env now m t"
  by (auto simp: validate_ok_iff intro: valid_chain.chain_root)

subsection \<open>The manager's invariant\<close>

text \<open>What the code relies on of Ed25519 and bincode: a signature made with the signing key has 64
  bytes and verifies under the verifying key.\<close>

definition ed25519_ok :: "cap_env \<Rightarrow> bytes \<Rightarrow> bytes \<Rightarrow> bool" where
  "ed25519_ok env sk vk \<longleftrightarrow> (\<forall>d. length (ed_sign env sk d) = 64 \<and> ed_verify env vk d (ed_sign env sk d))"

text \<open>A drawn UUID collides with no id the manager has seen: no active or revoked token and no
  parent link of an active token.\<close>

definition fresh_id :: "capability_manager \<Rightarrow> uuid \<Rightarrow> bool" where
  "fresh_id m i \<longleftrightarrow> hm_get (active_tokens m) i = None \<and> hm_get (revoked_tokens m) i = None
     \<and> (\<forall>k t. hm_get (active_tokens m) k = Some t \<longrightarrow> parent_id t \<noteq> Some i)"

definition token_inv :: "cap_env \<Rightarrow> capability_manager \<Rightarrow> uuid \<Rightarrow> capability_token \<Rightarrow> bool" where
  "token_inv env m k t \<longleftrightarrow>
     tok_id t = k \<and> verify_signature env t (verifying_key m) \<and> unat (chain_depth t) \<le> 5
     \<and> (parent_id t = None \<longrightarrow> chain_depth t = 0)
     \<and> (\<forall>pid p. parent_id t = Some pid \<longrightarrow> hm_get (active_tokens m) pid = Some p \<longrightarrow>
          chain_depth t = chain_depth p + 1 \<and> expires_at t \<le> expires_at p
          \<and> cap_is_subset_of (capability t) (capability p))"

definition manager_inv :: "cap_env \<Rightarrow> capability_manager \<Rightarrow> bool" where
  "manager_inv env m \<longleftrightarrow> ed25519_ok env (signing_key m) (verifying_key m)
     \<and> (\<forall>k. hm_get (active_tokens m) k \<noteq> None \<longrightarrow> hm_get (revoked_tokens m) k = None)
     \<and> (\<forall>k t. hm_get (active_tokens m) k = Some t \<longrightarrow> token_inv env m k t)"

lemmas manager_inv_defs = manager_inv_def token_inv_def

lemma token_new_ok:
  assumes "token_new env now i cap g v sk = Inr t" and "ed25519_ok env sk vk"
  shows "tok_id t = i \<and> capability t = cap \<and> parent_id t = None \<and> chain_depth t = 0
    \<and> issued_at t = now \<and> expires_at t = now + v \<and> granted_by t = g
    \<and> verify_signature env t vk"
  using assms
  by (auto simp: token_new_def Let_def verify_signature_def signed_data_def ed25519_ok_def
      split: sum.splits option.splits)

lemma token_attenuate_ok:
  assumes "token_attenuate env now i p c g v sk md = Inr t" and "ed25519_ok env sk vk"
  shows "tok_id t = i \<and> capability t = c \<and> parent_id t = Some (tok_id p)
    \<and> chain_depth t = chain_depth p + 1 \<and> chain_depth t \<le> md
    \<and> issued_at t = now \<and> expires_at t = min (now + v) (expires_at p) \<and> granted_by t = g
    \<and> cap_is_subset_of c (capability p) \<and> verify_signature env t vk"
  using assms
  by (auto simp: token_attenuate_def Let_def not_less verify_signature_def signed_data_def
      ed25519_ok_def split: sum.splits option.splits if_splits)

lemma insert_token_inv:
  assumes inv: "manager_inv env m" and fresh: "fresh_id m (tok_id t)"
    and m': "m' = m\<lparr>active_tokens := hm_insert (tok_id t) t (active_tokens m)\<rparr>"
    and t: "verify_signature env t (verifying_key m)" "unat (chain_depth t) \<le> 5"
      "parent_id t = None \<longrightarrow> chain_depth t = 0"
      "\<And>pid. parent_id t = Some pid \<Longrightarrow> \<exists>p. hm_get (active_tokens m) pid = Some p
         \<and> chain_depth t = chain_depth p + 1 \<and> expires_at t \<le> expires_at p
         \<and> cap_is_subset_of (capability t) (capability p)"
  shows "manager_inv env m'"
proof -
  have keys: "hm_get (active_tokens m) (tok_id t) = None"
      "hm_get (revoked_tokens m) (tok_id t) = None"
    using fresh by (auto simp: fresh_id_def)
  have "token_inv env m' k u" if u: "hm_get (active_tokens m') k = Some u" for k u
  proof (cases "k = tok_id t")
    case True
    with u m' have "u = t" by (simp add: hm_simps)
    with True t keys m' show ?thesis by (fastforce simp: token_inv_def hm_simps)
  next
    case False
    with u m' have o: "hm_get (active_tokens m) k = Some u" by (simp add: hm_simps)
    with inv have "token_inv env m k u" by (simp add: manager_inv_def)
    moreover have "parent_id u \<noteq> Some (tok_id t)" using fresh o by (simp add: fresh_id_def)
    ultimately show ?thesis using m' by (auto simp: token_inv_def hm_simps)
  qed
  with inv keys m' show ?thesis by (auto simp: manager_inv_def hm_simps)
qed

lemma manager_issue_inv:
  assumes "manager_inv env m" and "fresh_id m i" and "manager_issue env now i cap g v m = (r, m')"
  shows "manager_inv env m'"
proof (cases "token_new env now i cap g v (signing_key m)")
  case (Inr t)
  have "ed25519_ok env (signing_key m) (verifying_key m)" using assms(1) by (simp add: manager_inv_def)
  note ok = token_new_ok [OF Inr this]
  show ?thesis
  proof (rule insert_token_inv [where t = t, OF assms(1)])
    show "m' = m\<lparr>active_tokens := hm_insert (tok_id t) t (active_tokens m)\<rparr>"
      using assms(3) Inr by (simp add: manager_issue_def)
  qed (use ok assms(2) in simp_all)
qed (use assms in \<open>simp add: manager_issue_def\<close>)

lemma manager_attenuate_inv:
  assumes inv: "manager_inv env m" and fresh: "fresh_id m i"
    and att: "manager_attenuate env now i pid c g v m = (r, m')"
  shows "manager_inv env m'"
proof (cases r)
  case (Inr t)
  with att obtain p where p: "hm_get (active_tokens m) pid = Some p"
    and t: "token_attenuate env now i p c g v (signing_key m) DEFAULT_MAX_CHAIN_DEPTH = Inr t"
    and m': "m' = m\<lparr>active_tokens := hm_insert (tok_id t) t (active_tokens m)\<rparr>"
    by (auto simp: manager_attenuate_def split: option.splits sum.splits)
  have "ed25519_ok env (signing_key m) (verifying_key m)" using inv by (simp add: manager_inv_def)
  note ok = token_attenuate_ok [OF t this]
  have "tok_id p = pid" using inv p by (simp add: manager_inv_defs)
  have "chain_depth t \<le> 5" using ok unfolding DEFAULT_MAX_CHAIN_DEPTH_def by blast
  then have depth: "unat (chain_depth t) \<le> 5" by (simp add: word_le_nat_alt)
  show ?thesis
    by (rule insert_token_inv [where t = t, OF inv _ m' _ depth])
      (use ok p fresh \<open>tok_id p = pid\<close> in simp_all)
next
  case (Inl e)
  with assms show ?thesis by (auto simp: manager_attenuate_def split: option.splits sum.splits)
qed

lemma revoke_inv: "manager_inv env m \<Longrightarrow> manager_inv env (revoke now i m)"
  by (auto simp: manager_inv_defs revoke_def hm_simps split: if_splits)

inductive manager_step :: "cap_env \<Rightarrow> capability_manager \<Rightarrow> capability_manager \<Rightarrow> bool" for env where
  step_issue: "fresh_id m i \<Longrightarrow> manager_issue env now i cap g v m = (r, m') \<Longrightarrow> manager_step env m m'"
| step_attenuate: "fresh_id m i \<Longrightarrow> manager_attenuate env now i pid cap g v m = (r, m')
    \<Longrightarrow> manager_step env m m'"
| step_revoke: "manager_step env m (revoke now i m)"

definition manager_init :: "cap_env \<Rightarrow> capability_manager \<Rightarrow> bool" where
  "manager_init env m \<longleftrightarrow> (\<exists>sk vk. m = manager_from_keys sk vk \<and> ed25519_ok env sk vk)"

interpretation manager: inductive_invariant "manager_init env" "manager_step env" "manager_inv env"
  for env
proof unfold_locales
  show "manager_init env m \<Longrightarrow> manager_inv env m" for m
    by (auto simp: manager_init_def manager_from_keys_def manager_inv_def)
  show "manager_inv env m \<Longrightarrow> manager_step env m m' \<Longrightarrow> manager_inv env m'" for m m'
    by (auto elim!: manager_step.cases intro: manager_issue_inv manager_attenuate_inv revoke_inv)
qed

text \<open>Wrap-around cannot make the depth check succeed on a token of a well-formed manager: the
  child's depth is one more than the parent's as a number.\<close>

lemma depth_step:
  assumes "unat (d :: u32) \<le> 5"
  shows "unat (d + 1) = Suc (unat d)"
  using assms by (simp add: unat_word_ariths)

lemma chain_loop_terminates_active:
  assumes "manager_inv env m" and "hm_get (active_tokens m) k = Some t"
  shows "\<exists>r. validate_chain_loop env now m t = Some r"
  using assms(2)
proof (induction "unat (chain_depth t)" arbitrary: t k rule: less_induct)
  case less
  have rec: "\<exists>r. validate_chain_loop env now m p = Some r"
    if "parent_id t = Some pid" "hm_get (active_tokens m) pid = Some p"
      "chain_depth t = chain_depth p + 1" for p pid
  proof -
    have "unat (chain_depth p) \<le> 5" using assms(1) that(2) by (auto simp: manager_inv_defs)
    with that show ?thesis using less.hyps [of p pid] by (simp add: depth_step)
  qed
  show ?case by (subst validate_chain_loop.simps) (auto split: option.splits intro: rec)
qed

lemma chain_loop_terminates:
  assumes "manager_inv env m"
  shows "\<exists>r. validate_chain_loop env now m t = Some r"
  by (subst validate_chain_loop.simps)
    (auto split: option.splits intro: chain_loop_terminates_active [OF assms])

lemma valid_chain_ancestor:
  "valid_chain env now m t \<Longrightarrow> ancestor m t a \<Longrightarrow> a = t \<or>
     (\<exists>k. hm_get (active_tokens m) k = Some a \<and> hm_get (revoked_tokens m) k = None
        \<and> verify_signature env a (verifying_key m) \<and> token_is_valid now a)"
proof (induction rule: valid_chain.induct)
  case (chain_root t)
  then show ?case by (auto elim: ancestor.cases)
next
  case (chain_link t pid p)
  from chain_link.prems show ?case
  proof cases
    case (anc_up pid' p')
    with chain_link.hyps have "p' = p" by (simp add: link_ok_def)
    with chain_link.IH anc_up have "a = p \<or> (\<exists>k. hm_get (active_tokens m) k = Some a
        \<and> hm_get (revoked_tokens m) k = None
        \<and> verify_signature env a (verifying_key m) \<and> token_is_valid now a)" by simp
    with chain_link.hyps show ?thesis by (auto simp: link_ok_def)
  qed simp
qed

lemma valid_chain_root:
  "valid_chain env now m t \<Longrightarrow> \<exists>a. ancestor m t a \<and> parent_id a = None"
  by (induction rule: valid_chain.induct) (auto simp: link_ok_def intro: ancestor.intros)

text \<open>No link between the token and one of its ancestors is the one widening the subset test
  lets through.\<close>

definition no_widening :: "capability_manager \<Rightarrow> capability_token \<Rightarrow> bool" where
  "no_widening m t \<longleftrightarrow> (\<forall>c pid p. ancestor m t c \<longrightarrow> parent_id c = Some pid \<longrightarrow>
     hm_get (active_tokens m) pid = Some p \<longrightarrow> \<not> cap_widens (capability c) (capability p))"

lemma no_widening_parent:
  assumes "no_widening m t" and "parent_id t = Some pid" and "hm_get (active_tokens m) pid = Some p"
  shows "no_widening m p" and "\<not> cap_widens (capability t) (capability p)"
  using assms unfolding no_widening_def by (blast intro: ancestor.intros)+

lemma valid_chain_allows:
  assumes "valid_chain env now m t" and "ancestor m t a" and "no_widening m t"
    and "cap_allows (capability t) req"
  shows "cap_allows (capability a) req"
  using assms
proof (induction rule: valid_chain.induct)
  case (chain_root t)
  then show ?case by (auto elim: ancestor.cases)
next
  case (chain_link t pid p)
  then have p: "hm_get (active_tokens m) pid = Some p"
    and sub: "cap_is_subset_of (capability t) (capability p)"
    by (simp_all add: link_ok_def)
  note nw = no_widening_parent [OF chain_link.prems(2) chain_link.hyps(1) p]
  from chain_link.prems(1) show ?case
  proof cases
    case (anc_up pid' p')
    with chain_link.hyps p have "ancestor m p a" by simp
    with nw sub chain_link show ?thesis by (auto intro: cap_subset_allows)
  qed (use chain_link.prems in simp)
qed

lemma valid_chain_insert_fresh:
  assumes "valid_chain env now m q" and "fresh_id m i"
    and m': "m' = m\<lparr>active_tokens := hm_insert i t (active_tokens m)\<rparr>"
  shows "valid_chain env now m' q"
  using assms(1)
proof (induction rule: valid_chain.induct)
  case (chain_link q k r)
  then have "k \<noteq> i" using assms(2) by (auto simp: link_ok_def fresh_id_def)
  with chain_link have "link_ok env now m' k q r" by (simp add: link_ok_def m' hm_simps)
  with chain_link show ?case by (blast intro: valid_chain.chain_link)
qed (rule valid_chain.chain_root)

subsection \<open>Properties\<close>

text \<open>
  Every manager reachable from a fresh key pair by issuing, attenuating and revoking
  satisfies the manager's invariant: no id is both active and revoked, every active token is filed
  under its own id, carries a signature that verifies, has depth at most five, and is no deeper,
  longer-lived or wider (by the subset test) than its active parent allows.
\<close>

lemma reachable_manager_inv:
  assumes "reachable (manager_init env) (manager_step env) m"
  shows "manager_inv env m"
  by (rule manager.reachable_inv [OF assms])

definition demo_env :: cap_env where
  "demo_env = \<lparr>bincode_token = (\<lambda>d. Some []), ed_sign = (\<lambda>k d. replicate 64 1),
     ed_verify = (\<lambda>k d s. s = replicate 64 1), env_url_parse = (\<lambda>s. None)\<rparr>"

lemma demo_env_ok: "ed25519_ok demo_env sk vk"
  by (simp add: ed25519_ok_def demo_env_def)

lemma demo_env_sel [simp]:
  "bincode_token demo_env d = Some []" "ed_sign demo_env k d' = replicate 64 1"
  "ed_verify demo_env k d' s \<longleftrightarrow> s = replicate 64 1"
  by (simp_all add: demo_env_def)

definition demo_manager :: capability_manager where
  "demo_manager = snd (manager_attenuate demo_env 11 2 1 (ReadFile ''/d/a'') ''op'' 50
     (snd (manager_issue demo_env 10 1 (WriteFile ''/d'') ''root'' 100 (manager_from_keys [] []))))"

lemma demo_subset: "cap_is_subset_of (ReadFile ''/d/a'') (WriteFile ''/d'')"
  by (simp add: cap_is_subset_of_def cap_allows_def path_contains_iff norm_components_def
      components_def starts_with_def)

definition demo_token :: "uuid \<Rightarrow> capability \<Rightarrow> string \<Rightarrow> time \<Rightarrow> time \<Rightarrow> uuid option \<Rightarrow> u32 \<Rightarrow> capability_token" where
  "demo_token i c g a b p d = \<lparr>tok_id = i, capability = c, granted_by = g, issued_at = a,
     expires_at = b, parent_id = p, chain_depth = d, signature = replicate 64 1\<rparr>"

definition demo_root :: capability_token where
  "demo_root = demo_token 1 (WriteFile ''/d'') ''root'' 10 110 None 0"

definition demo_leaf :: capability_token where
  "demo_leaf = demo_token 2 (ReadFile ''/d/a'') ''op'' 11 61 (Some 1) 1"

lemma demo_issue: "manager_issue demo_env 10 1 (WriteFile ''/d'') ''root'' 100 (manager_from_keys [] []) =
    (Inr demo_root, (manager_from_keys [] [])\<lparr>active_tokens := [(1, demo_root)]\<rparr>)"
  by (simp add: manager_issue_def token_new_def check_http_pattern_def demo_root_def demo_token_def
      manager_from_keys_def Let_def)

lemma demo_attenuate: "manager_attenuate demo_env 11 2 1 (ReadFile ''/d/a'') ''op'' 50
    ((manager_from_keys [] [])\<lparr>active_tokens := [(1, demo_root)]\<rparr>) =
    (Inr demo_leaf, (manager_from_keys [] [])\<lparr>active_tokens := [(1, demo_root), (2, demo_leaf)]\<rparr>)"
  by (simp add: manager_attenuate_def token_attenuate_def check_http_pattern_def demo_root_def
      demo_leaf_def demo_token_def manager_from_keys_def Let_def demo_subset
      DEFAULT_MAX_CHAIN_DEPTH_def)

lemma demo_manager_eq: "demo_manager = \<lparr>signing_key = [], verifying_key = [],
    active_tokens = [(1, demo_root), (2, demo_leaf)], revoked_tokens = []\<rparr>"
  by (simp add: demo_manager_def demo_issue demo_attenuate) (simp add: manager_from_keys_def)

lemma demo_reachable: "reachable (manager_init demo_env) (manager_step demo_env) demo_manager"
proof -
  let ?m0 = "manager_from_keys [] []"
  let ?m1 = "?m0\<lparr>active_tokens := [(1, demo_root)]\<rparr>"
  have "reachable (manager_init demo_env) (manager_step demo_env) ?m0"
    by (rule reach_init) (auto simp: manager_init_def demo_env_ok)
  moreover have "manager_step demo_env ?m0 ?m1"
    by (rule step_issue [OF _ demo_issue]) (simp add: fresh_id_def manager_from_keys_def)
  moreover have "manager_step demo_env ?m1 demo_manager"
    unfolding demo_manager_def demo_issue snd_conv demo_attenuate
    by (rule step_attenuate [OF _ demo_attenuate])
      (auto simp: fresh_id_def manager_from_keys_def demo_root_def demo_token_def split: if_splits)
  ultimately show ?thesis by (blast intro: reach_step)
qed

text \<open>
  Validation terminates on every reachable manager, for every presented token (also one
  the manager never issued): the walk up the parent links cannot cycle.
\<close>

lemma validate_terminates:
  assumes "reachable (manager_init env) (manager_step env) m"
  shows "\<exists>r. validate env now m t req = Some r"
proof -
  obtain r where "validate_chain_loop env now m t = Some r"
    using chain_loop_terminates [OF manager.reachable_inv [OF assms]] by blast
  then show ?thesis
    by (auto simp: validate_def validate_chain_def split: option.splits sum.splits)
qed

text \<open>
  C1: Validation is sound for the whole chain: when a token validates for a request, the token
  is unrevoked, unexpired and carries a verifying signature, every ancestor is an active, unrevoked,
  unexpired token whose signature verifies, the chain ends in a root token, and (if no link is the
  namespace-under-session widening) every ancestor grants the request.
\<close>

theorem validate_chain_sound:
  assumes "validate env now m t req = Some (Inr ())" and "ancestor m t a"
  shows "\<not> is_revoked m (tok_id t) \<and> now < expires_at a
    \<and> verify_signature env a (verifying_key m)
    \<and> (a \<noteq> t \<longrightarrow> (\<exists>k. hm_get (active_tokens m) k = Some a \<and> \<not> is_revoked m k))
    \<and> (\<exists>root. ancestor m t root \<and> parent_id root = None)
    \<and> (no_widening m t \<longrightarrow> cap_allows (capability a) req)"
proof -
  note ok = assms(1) [unfolded validate_ok_iff]
  note vc = validate_valid_chain [OF assms(1)]
  show ?thesis
    using ok valid_chain_ancestor [OF vc assms(2)] valid_chain_root [OF vc]
      valid_chain_allows [OF vc assms(2)]
    by (auto simp: is_revoked_def token_is_valid_def)
qed

lemma demo_validates: "validate demo_env 20 demo_manager demo_leaf (ReadFile ''/d/a'') = Some (Inr ())"
proof -
  have c: "valid_chain demo_env 20 demo_manager demo_leaf"
  proof (rule chain_link)
    show "parent_id demo_leaf = Some 1" by (simp add: demo_leaf_def demo_token_def)
    show "valid_chain demo_env 20 demo_manager demo_root"
      by (rule chain_root) (simp add: demo_root_def demo_token_def)
    show "link_ok demo_env 20 demo_manager 1 demo_leaf demo_root"
      by (simp add: link_ok_def demo_manager_eq)
        (simp add: demo_root_def demo_leaf_def demo_token_def
          verify_signature_def token_is_valid_def demo_subset)
  qed
  have "cap_allows (ReadFile ''/d/a'') (ReadFile ''/d/a'')" by (rule cap_allows_refl) simp
  with c show ?thesis
    by (simp add: validate_ok_iff)
      (simp add: demo_manager_eq demo_leaf_def demo_token_def token_is_valid_def
        verify_signature_def DEFAULT_MAX_CHAIN_DEPTH_def)
qed

lemma demo_ancestor: "ancestor demo_manager demo_leaf demo_root"
  by (rule anc_up [where pid = 1 and p = demo_root])
    (simp_all add: demo_manager_eq demo_leaf_def demo_token_def anc_self)

theorem validate_chain_sound_witness: "20 < expires_at demo_root \<and> \<not> is_revoked demo_manager 2"
  using validate_chain_sound [OF demo_validates demo_ancestor]
  by (simp add: demo_leaf_def demo_token_def)

text \<open>
  C6: Revocation is transitive and immediate: once a token id is revoked, neither that token nor
  any token below it in the delegation tree validates, for any request and at any time.
\<close>

theorem revoke_transitive:
  assumes "ancestor m t a" and "tok_id a = x"
    and keys: "\<And>k u. hm_get (active_tokens m) k = Some u \<Longrightarrow> tok_id u = k"
  shows "validate env now (revoke now' x m) t req \<noteq> Some (Inr ())"
proof
  assume ok: "validate env now (revoke now' x m) t req = Some (Inr ())"
  have "valid_chain env now (revoke now' x m) t \<Longrightarrow>
      hm_get (revoked_tokens (revoke now' x m)) (tok_id t) = None \<Longrightarrow> False"
    using assms(1,2)
  proof (induction rule: ancestor.induct)
    case (anc_self t)
    then show ?case by (simp add: revoke_def hm_simps)
  next
    case (anc_up t pid p a)
    from anc_up.prems(1) obtain p' where p': "link_ok env now (revoke now' x m) pid t p'"
      and vc: "valid_chain env now (revoke now' x m) p'"
      by cases (use anc_up.hyps in auto)
    then have "pid \<noteq> x" "p' = p" using anc_up.hyps(2)
      by (auto simp: link_ok_def revoke_def hm_simps split: if_splits)
    with anc_up p' vc keys [OF anc_up.hyps(2)] show ?case by (simp add: link_ok_def)
  qed
  with validate_valid_chain [OF ok] ok show False by (auto simp: validate_ok_iff)
qed

theorem revoke_transitive_witness:
  "validate demo_env 20 (revoke 15 1 demo_manager) demo_leaf (ReadFile ''/d/a'') \<noteq> Some (Inr ())"
proof (rule revoke_transitive [OF demo_ancestor])
  show "hm_get (active_tokens demo_manager) k = Some u \<Longrightarrow> tok_id u = k" for k u
    using manager.reachable_inv [OF demo_reachable] by (auto simp: manager_inv_defs)
qed (simp add: demo_root_def demo_token_def)

text \<open>
  Delegation works end to end: on a well-formed manager, attenuating a parent that itself
  validates, to a subset capability at a depth still allowed, yields a token that never outlives its
  parent, is one deeper, is filed as active, and validates for exactly what its capability allows
  until it expires.
\<close>

lemma attenuate_then_validate:
  assumes inv: "manager_inv env m" and fresh: "fresh_id m i"
    and p: "hm_get (active_tokens m) pid = Some p"
    and valid: "validate env now' m p (capability p) = Some (Inr ())"
    and att: "manager_attenuate env now i pid c g v m = (Inr t, m')" and live: "now' < now + v"
  shows "expires_at t = min (now + v) (expires_at p) \<and> unat (chain_depth t) = unat (chain_depth p) + 1
    \<and> unat (chain_depth t) \<le> 5 \<and> cap_is_subset_of c (capability p)
    \<and> hm_get (active_tokens m') i = Some t
    \<and> (validate env now' m' t req = Some (Inr ()) \<longleftrightarrow> cap_allows c req)"
proof -
  have ed: "ed25519_ok env (signing_key m) (verifying_key m)" using inv by (simp add: manager_inv_def)
  from att p have t: "token_attenuate env now i p c g v (signing_key m) DEFAULT_MAX_CHAIN_DEPTH = Inr t"
    and m': "m' = m\<lparr>active_tokens := hm_insert (tok_id t) t (active_tokens m)\<rparr>"
    by (auto simp: manager_attenuate_def split: option.splits sum.splits)
  note ok = token_attenuate_ok [OF t ed]
  have id: "tok_id p = pid" and d5: "unat (chain_depth p) \<le> 5"
    using inv p by (auto simp: manager_inv_defs)
  have dt: "chain_depth t \<le> 5" using ok unfolding DEFAULT_MAX_CHAIN_DEPTH_def by blast
  have vp: "token_is_valid now' p" "verify_signature env p (verifying_key m)"
      "hm_get (revoked_tokens m) pid = None"
    using valid id by (auto simp: validate_ok_iff)
  have "pid \<noteq> i" using p fresh by (auto simp: fresh_id_def)
  have link: "link_ok env now' m' pid t p"
    using ok p vp \<open>pid \<noteq> i\<close> by (simp add: link_ok_def m' hm_simps)
  have "parent_id t = Some pid" using ok id by simp
  then have vt: "valid_chain env now' m' t"
    by (rule chain_link [OF _ link]) (use valid_chain_insert_fresh [OF validate_valid_chain [OF valid] fresh] ok m' in simp)
  have "hm_get (revoked_tokens m') i = None" using fresh by (simp add: m' fresh_id_def)
  moreover have "token_is_valid now' t" using ok vp live by (simp add: token_is_valid_def)
  moreover have "hm_get (active_tokens m') i = Some t" using ok by (simp add: m' hm_simps)
  moreover have "unat (chain_depth t) = unat (chain_depth p) + 1" using ok d5 by (simp add: depth_step)
  moreover have "unat (chain_depth t) \<le> 5" using dt by (simp add: word_le_nat_alt)
  ultimately show ?thesis using ok vt dt
    by (simp add: validate_ok_iff m' DEFAULT_MAX_CHAIN_DEPTH_def)
qed

lemma any_token_validates_iff:
  assumes "\<And>t. \<exists>r. validate env now m t c = Some r"
  shows "any_token_validates env now m ts c =
    Some (\<exists>t \<in> set ts. validate env now m t c = Some (Inr ()))"
proof (induction ts)
  case (Cons t ts)
  obtain r where "validate env now m t c = Some r" using assms by blast
  with Cons show ?case by (cases r) auto
qed simp

lemma authorize_eq:
  assumes "reachable (manager_init env) (manager_step env) m"
  shows "authorize env now m tokens required =
    Some (if \<forall>c \<in> set required. \<exists>t \<in> set tokens. validate env now m t c = Some (Inr ())
          then Inr () else Inl (CapabilityDenied ''no valid token grants {:?}''))"
proof -
  have total: "\<exists>r. validate env now m t c = Some r" for t c
    using chain_loop_terminates [OF manager.reachable_inv [OF assms], of now t]
    by (auto simp: validate_def validate_chain_def split: option.splits sum.splits)
  show ?thesis by (induction required) (simp_all add: any_token_validates_iff [OF total])
qed

lemma authorize_ok_iff:
  assumes "reachable (manager_init env) (manager_step env) m"
  shows "authorize env now m tokens required = Some (Inr ()) \<longleftrightarrow>
    (\<forall>c \<in> set required. \<exists>t \<in> set tokens. validate env now m t c = Some (Inr ()))"
  by (simp add: authorize_eq [OF assms])

text \<open>
  Authorization of an execution is per requirement: on a reachable manager \<open>authorize\<close>
  always returns, and it succeeds exactly when every required capability is granted by some
  presented token that validates; otherwise it denies.
\<close>

lemma authorize_iff:
  assumes "reachable (manager_init env) (manager_step env) m"
  shows "authorize env now m tokens required =
    Some (if \<forall>c \<in> set required. \<exists>t \<in> set tokens. validate env now m t c = Some (Inr ())
          then Inr () else Inl (CapabilityDenied ''no valid token grants {:?}''))"
  by (rule authorize_eq [OF assms])

end
