(* ===== verification/Negotiator.thy ===== *)
theory Negotiator
  imports Capability_Manager
begin

text \<open>
  Capability-denial negotiation, \<open>src/src/security/negotiator.rs\<close>: after a denial the memory
  service is asked for hints, the hints select a strict subset of the original requirements, and
  the subset is re-authorized, in at most two rounds.

  The memory service (\<open>AeonMemoryClient::search\<close>, an HTTP client) is the parameter \<open>search\<close>; the
  authorizer is the closure the code takes. The two \<open>assert!\<close>s are branches that give \<open>Inl\<close> (a
  panic), so that their never failing is a theorem.
\<close>

record memory_hit =
  hit_id :: string
  content :: string
  score :: "64 word option"

record negotiation_outcome =
  narrowed_capabilities :: "capability list"
  rounds :: nat
  evidence_hits :: "memory_hit list"

definition MAX_NEGOTIATION_ROUNDS :: nat where
  "MAX_NEGOTIATION_ROUNDS = 2"

subsection \<open>Debug formatting\<close>

text \<open>The derived \<open>Debug\<close> of \<open>Capability\<close> on ASCII text: strings are quoted, with quotes,
  backslashes and control characters escaped.\<close>

definition escape_debug :: "char \<Rightarrow> string" where
  "escape_debug c =
     (let n = (of_char c :: nat) in
      if n = 0 then [CHR 0x5C, CHR ''0'']
      else if n = 9 then [CHR 0x5C, CHR ''t'']
      else if n = 10 then [CHR 0x5C, CHR ''n'']
      else if n = 13 then [CHR 0x5C, CHR ''r'']
      else if n = 34 \<or> n = 92 then [CHR 0x5C, c]
      else if n < 32 \<or> n = 127 then
        [CHR 0x5C, CHR ''u'', CHR ''{''] @ (if n < 16 then [] else [hex_digit (n div 16)])
          @ [hex_digit (n mod 16), CHR ''}'']
      else [c])"

definition debug_str :: "string \<Rightarrow> string" where
  "debug_str s = CHR 0x22 # concat (map escape_debug s) @ [CHR 0x22]"

fun debug_scope :: "memory_scope \<Rightarrow> string" where
  "debug_scope (Agent a) = ''Agent('' @ debug_str a @ '')''"
| "debug_scope (Session a s) =
     ''Session { agent_id: '' @ debug_str a @ '', session_id: '' @ debug_str s @ '' }''"
| "debug_scope (Namespace n) = ''Namespace('' @ debug_str n @ '')''"

fun debug_capability :: "capability \<Rightarrow> string" where
  "debug_capability (ReadFile p) = ''ReadFile('' @ debug_str p @ '')''"
| "debug_capability (WriteFile p) = ''WriteFile('' @ debug_str p @ '')''"
| "debug_capability (ListDirectory p) = ''ListDirectory('' @ debug_str p @ '')''"
| "debug_capability (HttpGet u) = ''HttpGet('' @ debug_str u @ '')''"
| "debug_capability (HttpPost u) = ''HttpPost('' @ debug_str u @ '')''"
| "debug_capability (ExecuteBinary p) = ''ExecuteBinary('' @ debug_str p @ '')''"
| "debug_capability (MountTmpfs p) = ''MountTmpfs('' @ debug_str p @ '')''"
| "debug_capability MemoryPreview = ''MemoryPreview''"
| "debug_capability MemoryRecall = ''MemoryRecall''"
| "debug_capability (ReadMemory s) = ''ReadMemory('' @ debug_scope s @ '')''"
| "debug_capability (WriteMemory s) = ''WriteMemory('' @ debug_scope s @ '')''"
| "debug_capability CapAll = ''All''"
| "debug_capability CapNone = ''None''"

subsection \<open>Candidates\<close>

fun capability_aliases :: "capability \<Rightarrow> string list" where
  "capability_aliases (ReadFile p) = [''readfile'', to_ascii_lowercase (''read file '' @ p)]"
| "capability_aliases (WriteFile p) = [''writefile'', to_ascii_lowercase (''write file '' @ p)]"
| "capability_aliases (ListDirectory p) =
     [''listdirectory'', to_ascii_lowercase (''list directory '' @ p)]"
| "capability_aliases (HttpGet u) = [''httpget'', to_ascii_lowercase (''http get '' @ u)]"
| "capability_aliases (HttpPost u) = [''httppost'', to_ascii_lowercase (''http post '' @ u)]"
| "capability_aliases (ExecuteBinary p) =
     [''executebinary'', to_ascii_lowercase (''execute binary '' @ p)]"
| "capability_aliases (MountTmpfs p) =
     [''mounttmpfs'', to_ascii_lowercase (''mount tmpfs '' @ p)]"
| "capability_aliases MemoryPreview = [''nexus:memory_preview'']"
| "capability_aliases MemoryRecall = [''memoryrecall'', ''memory_recall'']"
| "capability_aliases (ReadMemory s) = [''read_memory:'' @ scope_display s, ''readmemory'']"
| "capability_aliases (WriteMemory s) = [''write_memory:'' @ scope_display s, ''writememory'']"
| "capability_aliases CapAll = [''all'']"
| "capability_aliases CapNone = [''none'']"

definition capability_matches :: "string \<Rightarrow> capability \<Rightarrow> bool" where
  "capability_matches text c =
     (if text = [] then False
      else str_contains text (to_ascii_lowercase (cap_description c))
         \<or> str_contains text (to_ascii_lowercase (debug_capability c))
         \<or> list_ex (str_contains text) (capability_aliases c))"

definition candidates_from_hits :: "capability list \<Rightarrow> memory_hit list \<Rightarrow> capability list" where
  "candidates_from_hits original_required hits =
     (let text = to_ascii_lowercase (join_with [CHR 0x0A] (map content hits))
      in filter (capability_matches text) original_required)"

definition cap_contains :: "capability list \<Rightarrow> capability \<Rightarrow> bool" where
  "cap_contains cs c = list_ex (\<lambda>x. cap_eq x c) cs"

definition strict_intersection :: "capability list \<Rightarrow> capability list \<Rightarrow> capability list" where
  "strict_intersection original_required candidates =
     (let narrowed = fold (\<lambda>c acc. if cap_contains candidates c \<and> \<not> cap_contains acc c
                                   then acc @ [c] else acc) original_required [];
          narrowed = filter (cap_contains original_required) narrowed
      in if length original_required \<le> length narrowed then [] else narrowed)"

definition show_round :: "nat \<Rightarrow> string" where
  "show_round n = [char_of (48 + n)]"

definition negotiation_query :: "capability list \<Rightarrow> capability list \<Rightarrow> nat \<Rightarrow> string" where
  "negotiation_query original_required previous_attempt round =
     (let original = join_with '', '' (map cap_description original_required);
          previous = join_with '', '' (map cap_description previous_attempt)
      in ''capability denial negotiation round '' @ show_round round
         @ ''; original required capabilities: '' @ original
         @ ''; previous attempted capabilities: '' @ previous
         @ ''; suggest only a strict subset already present in original required capabilities'')"

subsection \<open>The negotiation loop\<close>

type_synonym search_fn = "string \<Rightarrow> nat \<Rightarrow> memory_hit list"

fun negotiate_rounds ::
  "capability list \<Rightarrow> search_fn \<Rightarrow> (capability list \<Rightarrow> bool) \<Rightarrow> capability list \<Rightarrow> nat list
   \<Rightarrow> string + negotiation_outcome option" where
  "negotiate_rounds original_required search auth previous [] = Inr None"
| "negotiate_rounds original_required search auth previous (round # rs) =
     (let query = negotiation_query original_required previous round;
          hits = search query (max (length original_required) 1);
          candidates = candidates_from_hits original_required hits;
          narrowed = strict_intersection original_required candidates
      in if \<not> list_all (cap_contains original_required) narrowed
         then Inl ''negotiated capabilities must be drawn only from the original requirement set''
         else if \<not> length narrowed < length original_required
         then Inl ''negotiated capabilities must strictly narrow the original requirement set''
         else if narrowed = [] then negotiate_rounds original_required search auth previous rs
         else if list_all2 cap_eq narrowed previous
         then negotiate_rounds original_required search auth previous rs
         else if auth narrowed
         then Inr (Some \<lparr>narrowed_capabilities = narrowed, rounds = round, evidence_hits = hits\<rparr>)
         else negotiate_rounds original_required search auth narrowed rs)"

definition negotiate_with_authorizer ::
  "capability list \<Rightarrow> search_fn \<Rightarrow> (capability list \<Rightarrow> bool) \<Rightarrow> string + negotiation_outcome option"
  where
  "negotiate_with_authorizer original_required search auth =
     (if original_required = [] then Inr None
      else negotiate_rounds original_required search auth original_required
             [1..<MAX_NEGOTIATION_ROUNDS + 1])"

definition negotiate_capability_denial ::
  "cap_env \<Rightarrow> time \<Rightarrow> capability list \<Rightarrow> capability_token list \<Rightarrow> capability_manager \<Rightarrow> search_fn
   \<Rightarrow> string + negotiation_outcome option" where
  "negotiate_capability_denial env now original_required caller_tokens manager search =
     negotiate_with_authorizer original_required search
       (\<lambda>narrowed. authorize env now manager caller_tokens narrowed = Some (Inr ()))"

subsection \<open>Lemmas\<close>

lemma cap_eq_refl [simp]: "cap_eq c c"
  by (cases c) (auto simp: cap_eq_def path_eq_std_def)

lemma cap_contains_member: "c \<in> set cs \<Longrightarrow> cap_contains cs c"
  by (auto simp: cap_contains_def list_ex_iff intro!: bexI [of _ c])

lemma narrow_fold_subset:
  "set (fold (\<lambda>c acc. if cap_contains k c \<and> \<not> cap_contains acc c then acc @ [c] else acc) xs acc)
     \<subseteq> set acc \<union> set xs"
proof (induction xs arbitrary: acc)
  case (Cons x xs)
  show ?case using Cons [of "acc @ [x]"] Cons [of acc] by auto
qed simp

lemma strict_intersection_subset: "set (strict_intersection req cand) \<subseteq> set req"
  using narrow_fold_subset [of cand req "[]"] by (auto simp: strict_intersection_def Let_def)

lemma strict_intersection_length:
  "req \<noteq> [] \<Longrightarrow> length (strict_intersection req cand) < length req"
  by (auto simp: strict_intersection_def Let_def)

lemma strict_intersection_contained:
  "list_all (cap_contains req) (strict_intersection req cand)"
  using strict_intersection_subset [of req cand]
  by (auto simp: list_all_iff intro: cap_contains_member)

lemmas strict_intersection_facts =
  strict_intersection_contained strict_intersection_length

lemma negotiate_rounds_ok:
  assumes "req \<noteq> []"
  shows "\<exists>out. negotiate_rounds req search auth prev rs = Inr out \<and>
    (\<forall>n. out = Some n \<longrightarrow> rounds n \<in> set rs \<and> narrowed_capabilities n \<noteq> []
       \<and> set (narrowed_capabilities n) \<subseteq> set req
       \<and> length (narrowed_capabilities n) < length req \<and> auth (narrowed_capabilities n))"
proof (induction rs arbitrary: prev)
  case (Cons r rs)
  define h where "h = search (negotiation_query req prev r) (max (length req) 1)"
  define n where "n = strict_intersection req (candidates_from_hits req h)"
  have n: "list_all (cap_contains req) n" "length n < length req" "set n \<subseteq> set req"
    using strict_intersection_facts assms strict_intersection_subset unfolding n_def by blast+
  have "negotiate_rounds req search auth prev (r # rs) =
      (if n = [] \<or> list_all2 cap_eq n prev then negotiate_rounds req search auth prev rs
       else if auth n
       then Inr (Some \<lparr>narrowed_capabilities = n, rounds = r, evidence_hits = h\<rparr>)
       else negotiate_rounds req search auth n rs)"
    using n(1,2) unfolding negotiate_rounds.simps Let_def h_def [symmetric] n_def [symmetric]
    by simp
  then show ?case using n Cons [of prev] Cons [of n] by auto
qed simp

text \<open>
  C17: Negotiation never escalates and never panics: the loop's assertions always hold, and any
  outcome it returns is a non-empty, strictly shorter selection of the originally required
  capabilities, found within two rounds, each of them granted by a caller token that validates.
\<close>

theorem negotiation_never_escalates:
  assumes "reachable (manager_init env) (manager_step env) m"
  shows "\<exists>out. negotiate_capability_denial env now req tokens m search = Inr out \<and>
    (\<forall>n. out = Some n \<longrightarrow> narrowed_capabilities n \<noteq> [] \<and> set (narrowed_capabilities n) \<subseteq> set req
       \<and> length (narrowed_capabilities n) < length req \<and> 1 \<le> rounds n \<and> rounds n \<le> 2
       \<and> (\<forall>c \<in> set (narrowed_capabilities n). \<exists>t \<in> set tokens.
             validate env now m t c = Some (Inr ())))"
proof (cases "req = []")
  case False
  have auth: "authorize env now m tokens cs = Some (Inr ()) \<Longrightarrow> c \<in> set cs \<Longrightarrow>
      \<exists>t \<in> set tokens. validate env now m t c = Some (Inr ())" for cs c
    using authorize_ok_iff [OF assms] by blast
  from negotiate_rounds_ok [OF False, of search
      "\<lambda>cs. authorize env now m tokens cs = Some (Inr ())" req "[1..<MAX_NEGOTIATION_ROUNDS + 1]"]
  obtain out where "negotiate_capability_denial env now req tokens m search = Inr out"
    and "\<And>n. out = Some n \<Longrightarrow> rounds n \<in> {1..<3} \<and> narrowed_capabilities n \<noteq> []
       \<and> set (narrowed_capabilities n) \<subseteq> set req
       \<and> length (narrowed_capabilities n) < length req
       \<and> authorize env now m tokens (narrowed_capabilities n) = Some (Inr ())"
    using False by (auto simp: negotiate_capability_denial_def negotiate_with_authorizer_def
        MAX_NEGOTIATION_ROUNDS_def)
  with auth show ?thesis by (intro exI [of _ out]) fastforce
qed (simp add: negotiate_capability_denial_def negotiate_with_authorizer_def)

definition demo_search :: search_fn where
  "demo_search q n = [\<lparr>hit_id = ''1'', content = ''ReadFile'', score = None\<rparr>]"

theorem negotiation_never_escalates_witness:
  "\<exists>out. negotiate_capability_denial demo_env 20 [ReadFile ''/d/a'', MemoryRecall] [demo_leaf]
     demo_manager demo_search = Inr out"
  using negotiation_never_escalates [OF demo_reachable, of 20 "[ReadFile ''/d/a'', MemoryRecall]"
      "[demo_leaf]" demo_search] by blast

end
