(* ===== verification/Lineage.thy ===== *)
theory Lineage
  imports Prelude "HOL-Library.Product_Lexorder" "HOL-Library.List_Lexorder" "HOL-Library.Char_ord"
begin

text \<open>
  Lineage heads and fork detection, \<open>src/src/snapshot/sync/lineage.rs\<close>: hybrid logical clocks and
  the parent-linked store of snapshot heads. A \<open>HashSet\<close> of digests is a list in its iteration
  order; the wall clock is an argument. Agent and node ids are their strings.
\<close>

subsection \<open>Hybrid logical clocks\<close>

datatype hlc_timestamp = HlcTimestamp (physical_millis: u64) (logical: u64) (hlc_node_id: string)

instantiation hlc_timestamp :: linorder
begin

definition less_eq_hlc_timestamp :: "hlc_timestamp \<Rightarrow> hlc_timestamp \<Rightarrow> bool" where
  "a \<le> b \<longleftrightarrow> (physical_millis a, logical a, hlc_node_id a) \<le> (physical_millis b, logical b, hlc_node_id b)"

definition less_hlc_timestamp :: "hlc_timestamp \<Rightarrow> hlc_timestamp \<Rightarrow> bool" where
  "a < b \<longleftrightarrow> (physical_millis a, logical a, hlc_node_id a) < (physical_millis b, logical b, hlc_node_id b)"

instance
  by standard (auto simp: less_eq_hlc_timestamp_def less_hlc_timestamp_def hlc_timestamp.expand)

end

definition hlc_now :: "u64 \<Rightarrow> string \<Rightarrow> hlc_timestamp" where
  "hlc_now now node = HlcTimestamp now 0 node"

definition hlc_tick :: "u64 \<Rightarrow> hlc_timestamp \<Rightarrow> hlc_timestamp" where
  "hlc_tick now t =
     (if physical_millis t < now then HlcTimestamp now 0 (hlc_node_id t)
      else HlcTimestamp (physical_millis t) (saturating_add (logical t) 1) (hlc_node_id t))"

definition hlc_update :: "u64 \<Rightarrow> hlc_timestamp \<Rightarrow> hlc_timestamp \<Rightarrow> hlc_timestamp" where
  "hlc_update now observed t =
     (let local_physical = physical_millis t;
          observed_physical = physical_millis observed;
          max_physical = max (max now local_physical) observed_physical;
          l = (if max_physical = local_physical \<and> max_physical = observed_physical
               then saturating_add (max (logical t) (logical observed)) 1
               else if max_physical = local_physical then saturating_add (logical t) 1
               else if max_physical = observed_physical then saturating_add (logical observed) 1
               else 0)
      in HlcTimestamp max_physical l (hlc_node_id t))"

lemma saturating_succ: "(l :: u64) \<noteq> - 1 \<Longrightarrow> l < saturating_add l 1"
proof -
  assume "l \<noteq> - 1"
  then have "unat l \<noteq> unat (- 1 :: u64)" by (simp only: word_unat_eq_iff not_False_eq_True)
  then have "unat l \<noteq> 2 ^ 64 - 1" unfolding unat_minus_one_word by simp
  moreover have "unat l < 2 ^ 64" using unsigned_less [of l] by simp
  ultimately show ?thesis by (simp add: word_less_nat_alt unat_saturating_add)
qed

lemma saturating_mono: "(l :: u64) \<le> m \<Longrightarrow> m \<noteq> - 1 \<Longrightarrow> l < saturating_add m 1"
  by (rule le_less_trans [OF _ saturating_succ])

text \<open>The part of a timestamp that orders events across nodes.\<close>

definition hlc_time :: "hlc_timestamp \<Rightarrow> u64 \<times> u64" where
  "hlc_time t = (physical_millis t, logical t)"

text \<open>
  Hybrid logical clocks respect causality: as long as no logical counter is saturated, a
  local event gets a timestamp strictly after the clock's previous one, a receive event one strictly
  after both the local clock and the observed timestamp, and neither falls behind the wall clock,
  even when the wall clock runs backwards.
\<close>

lemma hlc_causality:
  assumes "logical t \<noteq> - 1" and "logical observed \<noteq> - 1"
  shows "t < hlc_tick now t \<and> now \<le> physical_millis (hlc_tick now t)
    \<and> t < hlc_update now observed t \<and> hlc_time observed < hlc_time (hlc_update now observed t)
    \<and> now \<le> physical_millis (hlc_update now observed t)"
proof -
  note succ = saturating_succ [OF assms(1)] saturating_succ [OF assms(2)]
  have m: "max (logical t) (logical observed) \<noteq> - 1" using assms by (simp add: max_def)
  have "logical t < saturating_add (max (logical t) (logical observed)) 1"
      "logical observed < saturating_add (max (logical t) (logical observed)) 1"
    by (rule saturating_mono [OF _ m], simp)+
  with succ show ?thesis
    by (auto simp: hlc_tick_def hlc_update_def Let_def less_hlc_timestamp_def hlc_time_def max_def
        not_less split: if_splits)
qed

subsection \<open>The lineage store\<close>

type_synonym ldigest = bytes

record lineage_head =
  agent_id :: string
  head_digest :: ldigest
  parent_digest :: "ldigest option"
  hlc :: hlc_timestamp
  node_id :: string
  update_id :: uuid

record lineage_fork =
  fork_agent_id :: string
  fork_left :: ldigest
  fork_right :: ldigest

datatype lineage_update =
    InsertedRoot
  | AlreadyKnown
  | StaleAncestor ldigest
  | FastForwarded "ldigest list"
  | Forked "lineage_fork list"

record lineage_store =
  nodes :: "(ldigest, lineage_head) hashmap"
  heads_by_agent :: "(string, ldigest list) hashmap"
  forks :: "lineage_fork list"

definition lineage_new :: lineage_store where
  "lineage_new = \<lparr>nodes = [], heads_by_agent = [], forks = []\<rparr>"

definition node_parent :: "(ldigest, lineage_head) hashmap \<Rightarrow> ldigest \<Rightarrow> ldigest option" where
  "node_parent ns d = (case hm_get ns d of None \<Rightarrow> None | Some h \<Rightarrow> parent_digest h)"

lemma known_unseen_card:
  assumes "node_parent ns d = Some p" and "d \<notin> set seen"
  shows "card (fst ` set ns - set (d # seen)) < card (fst ` set ns - set seen)"
proof (rule psubset_card_mono)
  have "d \<in> fst ` set ns" using assms(1)
    by (cases "hm_get ns d") (auto simp: node_parent_def dest!: map_of_SomeD intro: rev_image_eqI)
  with assms(2) show "fst ` set ns - set (d # seen) \<subset> fst ` set ns - set seen" by auto
qed simp

text \<open>The loop of \<open>is_ancestor_digest\<close>, with its \<open>seen\<close> set.\<close>

function ancestor_loop ::
  "(ldigest, lineage_head) hashmap \<Rightarrow> ldigest \<Rightarrow> ldigest option \<Rightarrow> ldigest list \<Rightarrow> bool" where
  "ancestor_loop ns anc None seen = False"
| "ancestor_loop ns anc (Some d) seen =
     (if d = anc then True
      else if d \<in> set seen then False
      else ancestor_loop ns anc (node_parent ns d) (d # seen))"
  by pat_completeness auto

termination
proof (relation "measure (\<lambda>(ns, anc, cursor, seen).
    2 * card (fst ` set ns - set seen) + (case cursor of None \<Rightarrow> 0 | Some _ \<Rightarrow> 1))", goal_cases)
  case (2 ns anc d seen)
  show ?case
  proof (cases "node_parent ns d")
    case None
    have "card (fst ` set ns - set (d # seen)) \<le> card (fst ` set ns - set seen)"
      by (rule card_mono) auto
    with None show ?thesis by simp
  next
    case (Some p)
    with known_unseen_card [OF Some 2(2)] show ?thesis by simp
  qed
qed simp

definition is_ancestor_digest :: "lineage_store \<Rightarrow> ldigest \<Rightarrow> ldigest \<Rightarrow> bool" where
  "is_ancestor_digest st anc desc = ancestor_loop (nodes st) anc (Some desc) []"

definition agent_heads :: "lineage_store \<Rightarrow> string \<Rightarrow> ldigest list" where
  "agent_heads st a = (case hm_get (heads_by_agent st) a of None \<Rightarrow> [] | Some hs \<Rightarrow> hs)"

definition heads_for :: "lineage_store \<Rightarrow> string \<Rightarrow> lineage_head list" where
  "heads_for st a =
     sort_key (\<lambda>h. (hlc h, head_digest h)) (List.map_filter (hm_get (nodes st)) (agent_heads st a))"

fun classify ::
  "lineage_store \<Rightarrow> string \<Rightarrow> ldigest \<Rightarrow> ldigest list \<Rightarrow> ldigest list \<times> ldigest list \<times> lineage_fork list" where
  "classify st a d [] = ([], [], [])"
| "classify st a d (current # rest) =
     (case classify st a d rest of (replaced, descendants, fks) \<Rightarrow>
        if is_ancestor_digest st current d then (current # replaced, descendants, fks)
        else if is_ancestor_digest st d current then (replaced, current # descendants, fks)
        else (replaced, descendants,
              \<lparr>fork_agent_id = a, fork_left = current, fork_right = d\<rparr> # fks))"

definition set_heads :: "string \<Rightarrow> ldigest list \<Rightarrow> lineage_store \<Rightarrow> lineage_store" where
  "set_heads a hs st = st\<lparr>heads_by_agent := hm_insert a hs (heads_by_agent st)\<rparr>"

definition apply_head :: "lineage_head \<Rightarrow> lineage_store \<Rightarrow> lineage_update \<times> lineage_store" where
  "apply_head head st =
     (if hm_get (nodes st) (head_digest head) \<noteq> None then (AlreadyKnown, st)
      else
        let a = agent_id head; d = head_digest head;
            st1 = st\<lparr>nodes := hm_insert d head (nodes st)\<rparr>;
            current_heads = agent_heads st1 a
        in if current_heads = [] then (InsertedRoot, set_heads a [d] st1)
           else case classify st1 a d current_heads of (replaced, descendants, fks) \<Rightarrow>
             if replaced = [] \<and> descendants \<noteq> [] \<and> fks = []
             then (StaleAncestor (hd descendants), st1)
             else
               let hs = filter (\<lambda>x. x \<notin> set replaced) current_heads;
                   hs = (if descendants = [] then List.insert d hs else hs);
                   st2 = set_heads a hs st1
               in if fks = [] then (FastForwarded replaced, st2)
                  else (Forked fks, st2\<lparr>forks := forks st2 @ fks\<rparr>))"

subsection \<open>Ancestry\<close>

inductive lanc :: "(ldigest, lineage_head) hashmap \<Rightarrow> ldigest \<Rightarrow> ldigest \<Rightarrow> bool" for ns where
  lanc_refl: "lanc ns d d"
| lanc_up: "node_parent ns d = Some p \<Longrightarrow> lanc ns a p \<Longrightarrow> lanc ns a d"

lemma ancestor_loop_sound: "ancestor_loop ns a (Some d) seen \<Longrightarrow> lanc ns a d"
proof (induction ns a "Some d" seen arbitrary: d rule: ancestor_loop.induct)
  case (2 ns anc d seen)
  show ?case
  proof (cases "d = anc")
    case False
    with 2 obtain p where p: "node_parent ns d = Some p" and "ancestor_loop ns anc (Some p) (d # seen)"
      by (cases "node_parent ns d") (auto split: if_splits)
    with 2 False have "lanc ns anc p" by (auto split: if_splits)
    with p show ?thesis by (rule lanc_up)
  qed (simp add: lanc_refl)
qed

lemma lanc_closed:
  assumes "lanc ns a d" and "d \<in> S" and "\<And>x p. x \<in> S \<Longrightarrow> node_parent ns x = Some p \<Longrightarrow> p \<in> S"
  shows "a \<in> S"
  using assms by (induction rule: lanc.induct) auto

lemma ancestor_loop_complete:
  "lanc ns a d \<Longrightarrow> a \<notin> set seen \<Longrightarrow> \<forall>x \<in> set seen. \<forall>p. node_parent ns x = Some p \<longrightarrow> p \<in> insert d (set seen)
   \<Longrightarrow> ancestor_loop ns a (Some d) seen"
proof (induction ns a "Some d" seen arbitrary: d rule: ancestor_loop.induct)
  case (2 ns a d seen)
  show ?case
  proof (cases "d = a")
    case False
    have "d \<notin> set seen"
      using lanc_closed [OF "2.prems"(1), of "set seen"] "2.prems"(2,3) by blast
    moreover obtain p where p: "node_parent ns d = Some p" "lanc ns a p"
      using "2.prems"(1) False by (auto elim: lanc.cases)
    moreover have "ancestor_loop ns a (Some p) (d # seen)"
      by (rule "2.hyps" [OF False \<open>d \<notin> set seen\<close> p(1) p(2)])
        (use "2.prems" False p in auto)
    ultimately show ?thesis using False unfolding ancestor_loop.simps(2) [of ns a d] by simp
  qed simp
qed

lemma is_ancestor_iff: "is_ancestor_digest st a d \<longleftrightarrow> lanc (nodes st) a d"
  unfolding is_ancestor_digest_def
  by (rule iffI, erule ancestor_loop_sound, rule ancestor_loop_complete) simp_all

lemma lanc_trans: "lanc ns b c \<Longrightarrow> lanc ns a b \<Longrightarrow> lanc ns a c"
  by (induction rule: lanc.induct) (auto intro: lanc_up)

lemma lanc_extend: "lanc ns a c \<Longrightarrow> hm_get ns d = None \<Longrightarrow> lanc (hm_insert d h ns) a c"
proof (induction rule: lanc.induct)
  case (lanc_up c p a)
  then have "node_parent (hm_insert d h ns) c = Some p"
    by (auto simp: node_parent_def hm_simps)
  with lanc_up show ?case by (blast intro: lanc.lanc_up)
qed (rule lanc_refl)

text \<open>
  Ancestry by parent links is decided exactly: the loop of \<open>is_ancestor_digest\<close> always ends,
  also on cyclic links, and answers true exactly when the ancestor is reached from the descendant by
  following known parent links.
\<close>

lemma is_ancestor_correct: "is_ancestor_digest st a d \<longleftrightarrow> lanc (nodes st) a d"
  by (rule is_ancestor_iff)

subsection \<open>Visible heads\<close>

lemma classify_eq:
  "classify st a d hs =
     (filter (\<lambda>c. lanc (nodes st) c d) hs,
      filter (\<lambda>c. \<not> lanc (nodes st) c d \<and> lanc (nodes st) d c) hs,
      map (\<lambda>c. \<lparr>fork_agent_id = a, fork_left = c, fork_right = d\<rparr>)
        (filter (\<lambda>c. \<not> lanc (nodes st) c d \<and> \<not> lanc (nodes st) d c) hs))"
  by (induction hs) (auto simp: is_ancestor_iff)

definition new_heads :: "(ldigest, lineage_head) hashmap \<Rightarrow> ldigest \<Rightarrow> ldigest list \<Rightarrow> ldigest list" where
  "new_heads ns d hs =
     (let keep = filter (\<lambda>c. \<not> lanc ns c d) hs
      in if \<exists>c \<in> set keep. lanc ns d c then keep else List.insert d keep)"

lemma new_heads_set:
  "set (new_heads ns d hs) = {c \<in> set hs. \<not> lanc ns c d} \<union>
     (if \<exists>c \<in> set hs. \<not> lanc ns c d \<and> lanc ns d c then {} else {d})"
  by (auto simp: new_heads_def Let_def)

text \<open>What one update does to the store: the node is added, and the agent's visible heads are
  replaced by \<open>new_heads\<close>; the other agents' heads stay.\<close>

lemma set_heads_simps [simp]:
  "nodes (set_heads a hs st) = nodes st"
  "agent_heads (set_heads a hs st) b = (if b = a then hs else agent_heads st b)"
  "agent_heads (st\<lparr>nodes := ns\<rparr>) b = agent_heads st b"
  "agent_heads (st\<lparr>forks := fs\<rparr>) b = agent_heads st b"
  by (auto simp: set_heads_def agent_heads_def hm_simps)

lemma apply_head_effect:
  assumes "hm_get (nodes st) (head_digest h) = None" and "apply_head h st = (r, st')"
  shows "nodes st' = hm_insert (head_digest h) h (nodes st)"
    and "set (agent_heads st' (agent_id h)) =
      set (new_heads (hm_insert (head_digest h) h (nodes st)) (head_digest h) (agent_heads st (agent_id h)))"
    and "b \<noteq> agent_id h \<Longrightarrow> agent_heads st' b = agent_heads st b"
proof -
  define d a ns hs where defs: "d = head_digest h" "a = agent_id h"
    "ns = hm_insert d h (nodes st)" "hs = agent_heads st a"
  let ?st1 = "st\<lparr>nodes := ns\<rparr>"
  let ?keep = "filter (\<lambda>c. \<not> lanc ns c d) hs"
  let ?desc = "filter (\<lambda>c. \<not> lanc ns c d \<and> lanc ns d c) hs"
  let ?fk = "filter (\<lambda>c. \<not> lanc ns c d \<and> \<not> lanc ns d c) hs"
  have stale: "set (new_heads ns d hs) = set hs" if "filter (\<lambda>c. lanc ns c d) hs = []" "?desc \<noteq> []"
    using that unfolding new_heads_set by (auto simp: filter_empty_conv)
  have hd_eq: "set (if ?desc = [] then List.insert d ?keep else ?keep) = set (new_heads ns d hs)"
    unfolding new_heads_set by (auto simp: filter_empty_conv)
  have root: "hs = [] \<Longrightarrow> set (new_heads ns d hs) = {d}" by (simp add: new_heads_set)
  have rest: "filter (\<lambda>x. x \<notin> set (filter (\<lambda>c. lanc ns c d) hs)) hs = ?keep"
    by (rule filter_cong) auto
  have effect: "nodes (set_heads a X ?st1) = ns \<and> set (agent_heads (set_heads a X ?st1) a) = set X
      \<and> (\<forall>b. b \<noteq> a \<longrightarrow> agent_heads (set_heads a X ?st1) b = agent_heads st b)" for X
    by simp
  have effect_forks: "nodes ((set_heads a X ?st1)\<lparr>forks := fs\<rparr>) = ns
      \<and> set (agent_heads ((set_heads a X ?st1)\<lparr>forks := fs\<rparr>) a) = set X
      \<and> (\<forall>b. b \<noteq> a \<longrightarrow> agent_heads ((set_heads a X ?st1)\<lparr>forks := fs\<rparr>) b = agent_heads st b)" for X fs
    by simp
  let ?R = "filter (\<lambda>c. lanc ns c d) hs"
  let ?F = "map (\<lambda>c. \<lparr>fork_agent_id = a, fork_left = c, fork_right = d\<rparr>) ?fk"
  let ?st2 = "set_heads a (if ?desc = [] then List.insert d ?keep else ?keep) ?st1"
  have fresh: "hm_get (nodes st) d = None" using assms(1) by (simp add: defs)
  have ah: "agent_heads ?st1 a = hs" by (simp add: defs)
  have cl: "classify ?st1 a d hs = (?R, ?desc, ?F)" by (simp add: classify_eq)
  have eq: "apply_head h st = (if hs = [] then (InsertedRoot, set_heads a [d] ?st1)
      else if ?R = [] \<and> ?desc \<noteq> [] \<and> ?F = [] then (StaleAncestor (hd ?desc), ?st1)
      else if ?F = [] then (FastForwarded ?R, ?st2)
      else (Forked ?F, ?st2\<lparr>forks := forks ?st2 @ ?F\<rparr>))"
    unfolding apply_head_def Let_def defs(1) [symmetric] defs(2) [symmetric] defs(3) [symmetric]
      ah cl fresh prod.case rest by (simp only: simp_thms if_True if_False)
  have "nodes st' = ns \<and> set (agent_heads st' a) = set (new_heads ns d hs)
      \<and> (\<forall>b. b \<noteq> a \<longrightarrow> agent_heads st' b = agent_heads st b)"
  proof (cases "hs = []")
    case True
    with eq have "apply_head h st = (InsertedRoot, set_heads a [d] ?st1)" by (simp only: if_True simp_thms)
    with assms(2) have "st' = set_heads a [d] ?st1" by (simp only: prod.inject)
    with root [OF True] show ?thesis by simp
  next
    case False
    show ?thesis
    proof (cases "?R = [] \<and> ?desc \<noteq> [] \<and> ?F = []")
      case True
      with False eq have "apply_head h st = (StaleAncestor (hd ?desc), ?st1)"
        by (simp only: if_True if_False simp_thms)
      with assms(2) have "st' = ?st1" by (simp only: prod.inject)
      with stale True ah show ?thesis by simp
    next
      case nstale: False
      have "apply_head h st = (if ?F = [] then (FastForwarded ?R, ?st2)
          else (Forked ?F, ?st2\<lparr>forks := forks ?st2 @ ?F\<rparr>))"
        unfolding eq if_not_P [OF False] if_not_P [OF nstale] ..
      then have "snd (apply_head h st) = ?st2 \<or> snd (apply_head h st) = ?st2\<lparr>forks := forks ?st2 @ ?F\<rparr>"
        by (cases "?F = []") (simp_all only: if_True if_False snd_conv simp_thms)
      then have "st' = ?st2 \<or> st' = ?st2\<lparr>forks := forks ?st2 @ ?F\<rparr>"
        unfolding assms(2) snd_conv .
      then show ?thesis unfolding hd_eq [symmetric]
        by (elim disjE) (hypsubst, rule effect, hypsubst, rule effect_forks)
    qed
  qed
  then show "nodes st' = hm_insert (head_digest h) h (nodes st)"
    and "set (agent_heads st' (agent_id h)) =
      set (new_heads (hm_insert (head_digest h) h (nodes st)) (head_digest h) (agent_heads st (agent_id h)))"
    and "b \<noteq> agent_id h \<Longrightarrow> agent_heads st' b = agent_heads st b"
    by (simp_all add: defs)
qed

lemma apply_head_known: "hm_get (nodes st) (head_digest h) \<noteq> None \<Longrightarrow> apply_head h st = (AlreadyKnown, st)"
  by (simp add: apply_head_def)

text \<open>Every visible head of an agent is a known node of that agent, and every known node is an
  ancestor of (or is) a visible head of its agent.\<close>

definition cover_inv :: "lineage_store \<Rightarrow> bool" where
  "cover_inv st \<longleftrightarrow>
     (\<forall>a e. e \<in> set (agent_heads st a) \<longrightarrow> (\<exists>h. hm_get (nodes st) e = Some h \<and> agent_id h = a))
     \<and> (\<forall>d h. hm_get (nodes st) d = Some h \<longrightarrow>
          (\<exists>e \<in> set (agent_heads st (agent_id h)). lanc (nodes st) d e))"

lemma new_heads_cover:
  assumes "c \<in> insert d (set hs)"
  shows "\<exists>e \<in> set (new_heads ns d hs). lanc ns c e"
proof -
  have top: "\<exists>e \<in> set (new_heads ns d hs). lanc ns d e"
    unfolding new_heads_set by (auto intro: lanc_refl)
  show ?thesis
  proof (cases "lanc ns c d")
    case True
    with top show ?thesis by (blast intro: lanc_trans)
  next
    case False
    with assms have "c \<in> set (new_heads ns d hs)" unfolding new_heads_set by (auto intro: lanc_refl)
    then show ?thesis by (blast intro: lanc_refl)
  qed
qed

lemma apply_head_cover:
  assumes inv: "cover_inv st" and app: "apply_head h st = (r, st')"
  shows "cover_inv st'"
proof (cases "hm_get (nodes st) (head_digest h)")
  case (Some x)
  with app inv apply_head_known [of st h] show ?thesis by simp
next
  case None
  let ?d = "head_digest h" and ?a = "agent_id h"
  let ?ns = "hm_insert ?d h (nodes st)"
  note eff = apply_head_effect [OF None app]
  have known: "\<exists>k. hm_get ?ns e = Some k \<and> agent_id k = b" if "e \<in> set (agent_heads st b)" for b e
    using inv None that unfolding cover_inv_def hm_get_insert by fastforce
  have heads: "\<exists>k. hm_get ?ns e = Some k \<and> agent_id k = b" if "e \<in> set (agent_heads st' b)" for b e
  proof (cases "b = ?a")
    case True
    with that eff(2) have "e \<in> insert ?d (set (agent_heads st ?a))" by (auto simp: new_heads_set split: if_splits)
    with True known [of e ?a] show ?thesis by (auto simp: hm_get_insert)
  next
    case False
    with that eff(3) known show ?thesis by simp
  qed
  have cover: "\<exists>e \<in> set (agent_heads st' (agent_id k)). lanc ?ns c e" if c: "hm_get ?ns c = Some k" for c k
  proof (cases "c = ?d")
    case True
    with c have "k = h" by (simp add: hm_get_insert)
    with True eff(2) new_heads_cover [of ?d ?d] show ?thesis by simp
  next
    case False
    with c have old: "hm_get (nodes st) c = Some k" by (simp add: hm_get_insert)
    then obtain e where e: "e \<in> set (agent_heads st (agent_id k))" "lanc (nodes st) c e"
      using inv unfolding cover_inv_def by blast
    have ce: "lanc ?ns c e" by (rule lanc_extend [OF e(2) None])
    show ?thesis
    proof (cases "agent_id k = ?a")
      case True
      with new_heads_cover [of e ?d "agent_heads st ?a" ?ns] e(1)
      obtain f where "f \<in> set (new_heads ?ns ?d (agent_heads st ?a))" "lanc ?ns e f" by auto
      with ce True eff(2) show ?thesis by (auto intro: lanc_trans)
    next
      case False
      with ce e(1) eff(3) show ?thesis by auto
    qed
  qed
  from heads cover show ?thesis unfolding cover_inv_def eff(1) by blast
qed

inductive lineage_step :: "lineage_store \<Rightarrow> lineage_store \<Rightarrow> bool" where
  step_apply: "apply_head h st = (r, st') \<Longrightarrow> lineage_step st st'"

definition lineage_init :: "lineage_store \<Rightarrow> bool" where
  "lineage_init st \<longleftrightarrow> st = lineage_new"

interpretation lineage: inductive_invariant lineage_init lineage_step cover_inv
proof unfold_locales
  show "lineage_init st \<Longrightarrow> cover_inv st" for st
    by (simp add: lineage_init_def lineage_new_def cover_inv_def agent_heads_def)
  show "cover_inv st \<Longrightarrow> lineage_step st st' \<Longrightarrow> cover_inv st'" for st st'
    by (auto elim!: lineage_step.cases intro: apply_head_cover)
qed

text \<open>
  C10: No lineage update is ever lost: after any sequence of head updates, from any agents and in
  any order of arrival, every recorded node of an agent is an ancestor of, or is, one of the agent's
  visible heads, and every visible head is a recorded node of that agent.
\<close>

theorem lineage_covered:
  assumes "reachable lineage_init lineage_step st"
  shows "(hm_get (nodes st) d = Some h \<longrightarrow>
      (\<exists>e \<in> set (agent_heads st (agent_id h)). is_ancestor_digest st d e))
    \<and> (e \<in> set (agent_heads st a) \<longrightarrow> (\<exists>h. hm_get (nodes st) e = Some h \<and> agent_id h = a))"
  using lineage.reachable_inv [OF assms] by (auto simp: cover_inv_def is_ancestor_iff)

subsection \<open>Divergence\<close>

text \<open>Parent links stay within an agent's lineage.\<close>

definition same_agent :: "(ldigest, lineage_head) hashmap \<Rightarrow> bool" where
  "same_agent ns \<longleftrightarrow> (\<forall>d h p k. hm_get ns d = Some h \<longrightarrow> parent_digest h = Some p \<longrightarrow>
     hm_get ns p = Some k \<longrightarrow> agent_id k = agent_id h)"

definition antichain_inv :: "lineage_store \<Rightarrow> bool" where
  "antichain_inv st \<longleftrightarrow> cover_inv st \<and> same_agent (nodes st)
     \<and> (\<forall>a e f. e \<in> set (agent_heads st a) \<longrightarrow> f \<in> set (agent_heads st a) \<longrightarrow> e \<noteq> f \<longrightarrow>
          \<not> lanc (nodes st) e f)"

lemma lanc_same_agent:
  "lanc ns e f \<Longrightarrow> same_agent ns \<Longrightarrow> hm_get ns e = Some x \<Longrightarrow> hm_get ns f = Some y \<Longrightarrow>
   agent_id x = agent_id y"
proof (induction arbitrary: y rule: lanc.induct)
  case (lanc_up d p a)
  then obtain k where d: "parent_digest y = Some p" by (auto simp: node_parent_def)
  from lanc_up.hyps(2) lanc_up.prems(2) obtain z where z: "hm_get ns p = Some z"
    by (cases rule: lanc.cases) (auto simp: node_parent_def split: option.splits)
  with lanc_up d show ?case unfolding same_agent_def by metis
qed simp

text \<open>A path that exists only with the new node goes through it.\<close>

lemma lanc_through:
  assumes "lanc (hm_insert d h ns) e f" and "hm_get ns d = None"
  shows "lanc ns e f \<or> (lanc (hm_insert d h ns) e d \<and> lanc ns d f)"
  using assms
proof (induction rule: lanc.induct)
  case (lanc_up c p a)
  show ?case
  proof (cases "c = d")
    case True
    with lanc_up.hyps show ?thesis by (auto intro: lanc.lanc_up lanc_refl)
  next
    case False
    with lanc_up.hyps(1) have "node_parent ns c = Some p" by (simp add: node_parent_def hm_get_insert)
    with lanc_up show ?thesis by (auto intro: lanc.lanc_up)
  qed
qed (simp add: lanc_refl)

lemma apply_head_antichain:
  assumes inv: "antichain_inv st" and app: "apply_head h st = (r, st')"
    and same: "same_agent (hm_insert (head_digest h) h (nodes st))"
    and new: "hm_get (nodes st) (head_digest h) = None"
  shows "antichain_inv st'"
proof -
  let ?d = "head_digest h" and ?a = "agent_id h"
  let ?ns = "hm_insert ?d h (nodes st)"
  note eff = apply_head_effect [OF new app]
  have cov: "cover_inv st'" using apply_head_cover [OF _ app] inv by (simp add: antichain_inv_def)
  have old: "\<not> lanc (nodes st) e f" if "e \<in> set (agent_heads st b)" "f \<in> set (agent_heads st b)" "e \<noteq> f" for b e f
    using inv that unfolding antichain_inv_def by blast
  have known: "\<exists>k. hm_get ?ns e = Some k \<and> agent_id k = b" if "e \<in> set (agent_heads st' b)" for b e
    using cov that unfolding cover_inv_def eff(1) by blast
  have fresh: "?d \<notin> set (agent_heads st b)" for b
    using inv new unfolding antichain_inv_def cover_inv_def by force
  have "\<not> lanc ?ns e f"
    if ef: "e \<in> set (agent_heads st' b)" "f \<in> set (agent_heads st' b)" "e \<noteq> f" for b e f
  proof (cases "b = ?a")
    case False
    then have hs: "e \<in> set (agent_heads st b)" "f \<in> set (agent_heads st b)" using ef eff(3) by auto
    obtain k where k: "hm_get ?ns e = Some k" "agent_id k = b" using known [OF ef(1)] by blast
    have "\<not> lanc ?ns e ?d" using lanc_same_agent [OF _ same k(1), of ?d h] k(2) False by (auto simp: hm_get_insert)
    with lanc_through [OF _ new, of h e f] old [OF hs ef(3)] show ?thesis by blast
  next
    case True
    have H: "set (agent_heads st' b) = {c \<in> set (agent_heads st ?a). \<not> lanc ?ns c ?d} \<union>
        (if \<exists>c \<in> set (agent_heads st ?a). \<not> lanc ?ns c ?d \<and> lanc ?ns ?d c then {} else {?d})"
      using eff(2) True by (simp add: new_heads_set)
    show ?thesis
    proof
      assume l: "lanc ?ns e f"
      have "f = ?d \<Longrightarrow> e = ?d" using l ef(1) unfolding H by (auto split: if_splits)
      with ef(3) have f: "f \<in> set (agent_heads st ?a)" "\<not> lanc ?ns f ?d"
        using ef(2) unfolding H by (auto split: if_splits)
      have "e \<noteq> ?d" using l f ef(1) fresh unfolding H by (auto split: if_splits)
      then have e: "e \<in> set (agent_heads st ?a)" "\<not> lanc ?ns e ?d"
        using ef(1) unfolding H by (auto split: if_splits)
      from lanc_through [OF l new] old [OF e(1) f(1) ef(3)] e(2) show False by blast
    qed
  qed
  with cov same eff(1) show ?thesis unfolding antichain_inv_def by simp
qed

inductive agent_step :: "lineage_store \<Rightarrow> lineage_store \<Rightarrow> bool" where
  agent_apply: "same_agent (hm_insert (head_digest h) h (nodes st)) \<Longrightarrow> apply_head h st = (r, st')
    \<Longrightarrow> agent_step st st'"

interpretation agents: inductive_invariant lineage_init agent_step antichain_inv
proof unfold_locales
  show "lineage_init st \<Longrightarrow> antichain_inv st" for st
    by (simp add: lineage_init_def lineage_new_def cover_inv_def agent_heads_def antichain_inv_def
        same_agent_def)
  show "antichain_inv st'" if inv: "antichain_inv st" and "agent_step st st'" for st st'
    using that(2)
  proof cases
    case (agent_apply h r)
    then show ?thesis
      using apply_head_antichain [OF inv] apply_head_known [of st h] inv
      by (cases "hm_get (nodes st) (head_digest h)") auto
  qed
qed

text \<open>
  Several visible heads mean real divergence: as long as parent links stay within an agent's
  lineage, no visible head of an agent is an ancestor of another, in whatever order the updates
  arrive; so the heads of an agent are exactly the tips of its divergent branches.
\<close>

lemma heads_antichain:
  assumes "reachable lineage_init agent_step st"
    and "e \<in> set (agent_heads st a)" and "f \<in> set (agent_heads st a)" and "e \<noteq> f"
  shows "\<not> is_ancestor_digest st e f"
  using agents.reachable_inv [OF assms(1)] assms(2-) unfolding antichain_inv_def is_ancestor_iff by blast

definition demo_head :: "ldigest \<Rightarrow> ldigest option \<Rightarrow> lineage_head" where
  "demo_head d p = \<lparr>agent_id = ''a'', head_digest = d, parent_digest = p, hlc = HlcTimestamp 1 0 ''n'',
     node_id = ''n'', update_id = 0\<rparr>"

definition demo_st :: lineage_store where
  "demo_st = snd (apply_head (demo_head [3] (Some [1])) (snd (apply_head (demo_head [2] (Some [1]))
     (snd (apply_head (demo_head [1] None) lineage_new)))))"

lemma demo_step: "same_agent (hm_insert d (demo_head d p) (nodes st)) \<Longrightarrow>
    reachable lineage_init agent_step st \<Longrightarrow>
    reachable lineage_init agent_step (snd (apply_head (demo_head d p) st))"
  by (rule reach_step, assumption, rule agent_apply [where h = "demo_head d p" and r = "fst (apply_head (demo_head d p) st)"])
    (simp_all add: demo_head_def)

lemma demo_heads: "agent_heads demo_st ''a'' = [[3], [2]]"
  by (simp add: demo_st_def apply_head_def lineage_new_def demo_head_def agent_heads_def set_heads_def
      is_ancestor_digest_def node_parent_def Let_def)

lemma demo_st_reachable: "reachable lineage_init agent_step demo_st"
  unfolding demo_st_def
  by (intro demo_step reach_init)
    (auto simp: lineage_init_def lineage_new_def same_agent_def hm_get_insert demo_head_def
      apply_head_def agent_heads_def set_heads_def is_ancestor_digest_def node_parent_def Let_def
      split: if_splits)

lemma agent_reachable_lineage:
  "reachable lineage_init agent_step st \<Longrightarrow> reachable lineage_init lineage_step st"
  by (induction rule: reachable.induct)
    (auto intro: reach_init reach_step step_apply elim!: agent_step.cases)

theorem lineage_covered_witness: "\<exists>e \<in> {[3], [2]}. is_ancestor_digest demo_st [1] e"
proof -
  have "hm_get (nodes demo_st) [1] = Some (demo_head [1] None)"
    by (simp add: demo_st_def apply_head_def lineage_new_def demo_head_def agent_heads_def set_heads_def
        is_ancestor_digest_def node_parent_def Let_def)
  moreover have "agent_id (demo_head [1] None) = ''a''" by (simp add: demo_head_def)
  ultimately show ?thesis
    using lineage_covered [OF agent_reachable_lineage [OF demo_st_reachable], of "[1]" "demo_head [1] None"]
    by (simp add: demo_heads)
qed

end
