(* ===== verification/Float64.thy ===== *)
theory Float64
  imports Prelude "HOL-Library.Log_Nat"
begin

text \<open>
  The floating-point arithmetic the Rust sources use: IEEE 754 numbers as rationals with the two
  infinities and NaN, every operation being the exact one followed by rounding to nearest, ties to
  even, with gradual underflow. The two zeros are identified: no source reads the sign of a zero.
  The rounding is parametric in the precision and the least exponent, \<open>(53, -1074)\<close> for \<open>f64\<close> and
  \<open>(24, -149)\<close> for \<open>f32\<close>.
\<close>

subsection \<open>Rounding\<close>

definition pow2 :: "int \<Rightarrow> rat" where
  "pow2 k = (if 0 \<le> k then 2 ^ nat k else 1 / 2 ^ nat (- k))"

text \<open>The exponent of the leading binary digit of a positive rational.\<close>

definition ilog2 :: "rat \<Rightarrow> int" where
  "ilog2 x = (case quotient_of x of (n, d) \<Rightarrow>
     let k = int (floorlog 2 (nat n)) - int (floorlog 2 (nat d))
     in if pow2 k \<le> x then k else k - 1)"

definition round_even :: "rat \<Rightarrow> int" where
  "round_even x =
     (let f = \<lfloor>x\<rfloor>; r = x - of_int f
      in if r < 1 / 2 then f else if 1 / 2 < r then f + 1 else if even f then f else f + 1)"

definition unit_exp :: "nat \<Rightarrow> int \<Rightarrow> rat \<Rightarrow> int" where
  "unit_exp prec emin x = max (ilog2 \<bar>x\<bar> - int prec + 1) emin"

definition rnd :: "nat \<Rightarrow> int \<Rightarrow> rat \<Rightarrow> rat" where
  "rnd prec emin x =
     (if x = 0 then 0
      else let u = pow2 (unit_exp prec emin x) in of_int (round_even (x / u)) * u)"

lemma pow2_powi: "pow2 k = 2 powi k"
  by (simp add: pow2_def power_int_def field_simps power_inverse)

lemma pow2_pos [simp]: "0 < pow2 k" "pow2 k \<noteq> 0" "0 \<le> pow2 k"
  by (simp_all add: pow2_def)

lemma pow2_add: "pow2 (a + b) = pow2 a * pow2 b"
  by (simp add: pow2_powi power_int_add)

lemma pow2_diff: "pow2 (a - b) = pow2 a / pow2 b"
  by (simp add: pow2_powi power_int_diff)

lemma pow2_mono: "a \<le> b \<Longrightarrow> pow2 a \<le> pow2 b"
  by (simp add: pow2_powi power_int_increasing)

lemma pow2_nat: "pow2 (int n) = 2 ^ n"
  by (simp add: pow2_def)

lemma pow2_less_cancel: "pow2 a < pow2 b \<Longrightarrow> a < b"
  by (meson pow2_mono linorder_not_le)

lemma ilog2_bounds:
  assumes "0 < x"
  shows "pow2 (ilog2 x) \<le> x \<and> x < pow2 (ilog2 x + 1)"
proof -
  obtain n d where q: "quotient_of x = (n, d)" by fastforce
  have x: "x = of_int n / of_int d" "0 < d" using quotient_of_div [OF q] quotient_of_denom_pos [OF q] by auto
  with assms have n: "0 < n" by (simp add: zero_less_divide_iff)
  define a where "a = floorlog 2 (nat n)"
  define b where "b = floorlog 2 (nat d)"
  have bd: "(2::rat) ^ (floorlog 2 (nat m) - 1) \<le> of_int m" "of_int m < (2::rat) ^ floorlog 2 (nat m)"
      "0 < floorlog 2 (nat m)" if "0 < m" for m
  proof -
    obtain k where k: "m = int k" "0 < k" using \<open>0 < m\<close> zero_less_imp_eq_int by blast
    have fl: "2 ^ (floorlog 2 k - 1) \<le> k \<and> k < 2 ^ floorlog 2 k" using floorlog_bounds [of k 2] k by simp
    then have "of_nat (2 ^ (floorlog 2 k - 1)) \<le> (of_nat k :: rat)" "(of_nat k :: rat) < of_nat (2 ^ floorlog 2 k)"
      by (simp_all only: of_nat_le_iff of_nat_less_iff)
    then show "(2::rat) ^ (floorlog 2 (nat m) - 1) \<le> of_int m" "of_int m < (2::rat) ^ floorlog 2 (nat m)"
      by (simp_all add: k(1))
    show "0 < floorlog 2 (nat m)" using k fl by (cases "floorlog 2 k") simp_all
  qed
  note r = bd(1,2) [OF n, folded a_def] bd(1,2) [OF x(2), folded b_def]
  note ab = bd(3) [OF n, folded a_def] bd(3) [OF x(2), folded b_def]
  have pa: "(2::rat) ^ a = pow2 (int a)" "(2::rat) ^ b = pow2 (int b)"
    "(2::rat) ^ (a - 1) = pow2 (int a - 1)" "(2::rat) ^ (b - 1) = pow2 (int b - 1)"
    using ab by (simp_all add: of_nat_diff flip: pow2_nat)
  note r = r [unfolded pa]
  have n0: "(0::rat) < of_int n" and d0: "(0::rat) < of_int d" using n x(2) by simp_all
  have "pow2 (int a - 1) / pow2 (int b) \<le> x"
    unfolding x(1) by (rule frac_le [OF less_imp_le [OF n0] r(1) d0 less_imp_le [OF r(4)]])
  moreover have "x < pow2 (int a) / pow2 (int b - 1)"
    unfolding x(1) by (rule frac_less [OF less_imp_le [OF n0] r(2) _ r(3)]) simp
  ultimately have "pow2 (int a - int b - 1) \<le> x" "x < pow2 (int a - int b + 1)"
    by (simp_all add: algebra_simps flip: pow2_diff)
  then show ?thesis by (auto simp: ilog2_def q a_def b_def Let_def algebra_simps)
qed

lemma ilog2_unique:
  assumes "pow2 k \<le> x" and "x < pow2 (k + 1)"
  shows "ilog2 x = k"
proof -
  have x: "0 < x" using assms(1) pow2_pos(1) [of k] by linarith
  have "pow2 k < pow2 (ilog2 x + 1)" "pow2 (ilog2 x) < pow2 (k + 1)" using ilog2_bounds [OF x] assms by linarith+
  from pow2_less_cancel [OF this(1)] pow2_less_cancel [OF this(2)] show ?thesis by simp
qed

lemma ilog2_mono: "0 < x \<Longrightarrow> x \<le> y \<Longrightarrow> ilog2 x \<le> ilog2 y"
  using ilog2_bounds [of x] ilog2_bounds [of y] pow2_less_cancel [of "ilog2 x" "ilog2 y + 1"] by force

lemma round_even_of_int [simp]: "round_even (of_int k) = k"
  by (simp add: round_even_def)

lemma round_even_mono: "x \<le> y \<Longrightarrow> round_even x \<le> round_even y"
proof -
  assume xy: "x \<le> y"
  then have f: "\<lfloor>x\<rfloor> \<le> \<lfloor>y\<rfloor>" by (rule floor_mono)
  have b: "\<lfloor>z\<rfloor> \<le> round_even z" "round_even z \<le> \<lfloor>z\<rfloor> + 1" for z
    by (simp_all add: round_even_def Let_def)
  show ?thesis
  proof (cases "\<lfloor>x\<rfloor> = \<lfloor>y\<rfloor>")
    case True
    then show ?thesis using xy by (auto simp: round_even_def Let_def)
  next
    case False
    with f b(2) [of x] b(1) [of y] show ?thesis by linarith
  qed
qed

lemma round_even_error: "\<bar>of_int (round_even x) - x\<bar> \<le> 1 / 2"
proof -
  have "of_int \<lfloor>x\<rfloor> \<le> x" "x < of_int \<lfloor>x\<rfloor> + 1" by linarith+
  then show ?thesis by (auto simp: round_even_def Let_def abs_le_iff field_simps)
qed

lemma round_even_le_int: "x \<le> of_int k \<Longrightarrow> round_even x \<le> k"
  using round_even_mono [of x "of_int k"] by simp

lemma round_even_ge_int: "of_int k \<le> x \<Longrightarrow> k \<le> round_even x"
  using round_even_mono [of "of_int k" x] by simp

lemma rnd_zero [simp]: "rnd prec emin 0 = 0"
  by (simp add: rnd_def)

text \<open>A number that is a multiple of its own unit in the last place is not changed.\<close>

lemma rnd_exact: "x = of_int k * pow2 (unit_exp prec emin x) \<Longrightarrow> rnd prec emin x = x"
proof (cases "x = 0")
  case False
  assume x: "x = of_int k * pow2 (unit_exp prec emin x)"
  then have "x / pow2 (unit_exp prec emin x) = of_int k" by (simp add: divide_eq_eq)
  with False x show ?thesis by (simp add: rnd_def Let_def)
qed simp

lemma rnd_of_int:
  assumes "\<bar>k\<bar> \<le> 2 ^ prec" and "emin \<le> 0" and "0 < prec"
  shows "rnd prec emin (of_int k) = of_int k"
proof (cases "k = 0")
  case False
  define x :: rat where "x = of_int k"
  have pos: "0 < \<bar>x\<bar>" using False by (simp add: x_def)
  have le: "\<bar>x\<bar> \<le> pow2 (int prec)"
    using assms(1) by (simp add: x_def pow2_nat) (metis of_int_abs of_int_le_iff of_int_numeral of_int_power)
  have "pow2 (ilog2 \<bar>x\<bar>) < pow2 (int prec + 1)"
    using ilog2_bounds [OF pos] le by (simp add: pow2_add) (simp add: pow2_def)
  then have l: "ilog2 \<bar>x\<bar> \<le> int prec" using pow2_less_cancel by force
  show ?thesis
  proof (cases "ilog2 \<bar>x\<bar> = int prec")
    case True
    then have "\<bar>x\<bar> = pow2 (int prec)" using le ilog2_bounds [OF pos] by simp
    moreover have "unit_exp prec emin x = 1" using True assms(2) by (simp add: unit_exp_def)
    moreover have "pow2 (int prec) = of_int (2 ^ (prec - 1)) * pow2 1"
      unfolding pow2_nat using assms(3) by (cases prec) (simp_all add: pow2_def)
    moreover have "x = \<bar>x\<bar> \<or> x = - \<bar>x\<bar>" by linarith
    ultimately have "x = of_int (2 ^ (prec - 1)) * pow2 (unit_exp prec emin x)
        \<or> x = of_int (- (2 ^ (prec - 1))) * pow2 (unit_exp prec emin x)" by auto
    then show ?thesis unfolding x_def [symmetric] by (metis rnd_exact)
  next
    case False
    define j where "j = nat (- unit_exp prec emin x)"
    have u: "unit_exp prec emin x = - int j" using False l assms(2) by (simp add: unit_exp_def j_def)
    have "x = of_int (k * 2 ^ j) * pow2 (unit_exp prec emin x)"
      unfolding u by (simp add: x_def pow2_def)
    then show ?thesis unfolding x_def [symmetric] by (rule rnd_exact)
  qed
qed simp

lemma rnd_error:
  assumes "x \<noteq> 0"
  shows "\<bar>rnd prec emin x - x\<bar> \<le> pow2 (unit_exp prec emin x) / 2"
proof -
  let ?u = "pow2 (unit_exp prec emin x)"
  have "rnd prec emin x - x = (of_int (round_even (x / ?u)) - x / ?u) * ?u"
    using assms by (simp add: rnd_def Let_def left_diff_distrib)
  also have "\<bar>\<dots>\<bar> \<le> 1 / 2 * ?u"
    unfolding abs_mult using round_even_error [of "x / ?u"] by (intro mult_mono) simp_all
  finally show ?thesis by simp
qed

text \<open>The relative error of a number in the normal range.\<close>

lemma rnd_relative:
  assumes "0 < x" and "pow2 (emin + int prec - 1) \<le> x"
  shows "\<bar>rnd prec emin x - x\<bar> \<le> x / 2 ^ prec"
proof -
  have "pow2 (emin + int prec - 1) < pow2 (ilog2 x + 1)" using assms ilog2_bounds [OF assms(1)] by simp
  then have "unit_exp prec emin x = ilog2 x - int prec + 1"
    using pow2_less_cancel assms(1) by (force simp: unit_exp_def)
  then have "pow2 (unit_exp prec emin x) / 2 = pow2 (ilog2 x) / 2 ^ prec"
    by (simp add: pow2_add pow2_diff pow2_nat) (simp add: pow2_def)
  also have "\<dots> \<le> x / 2 ^ prec" using ilog2_bounds [OF assms(1)] by (simp add: divide_right_mono)
  finally show ?thesis using rnd_error [of x prec emin] assms(1) by linarith
qed

lemma pow2_multiple: "a \<le> b \<Longrightarrow> pow2 b = of_int (2 ^ nat (b - a)) * pow2 a"
  using pow2_add [of "b - a" a] by (simp add: pow2_def [of "b - a"])

lemma rnd_mono:
  assumes "0 < x" and "x \<le> y" and "0 < prec"
  shows "rnd prec emin x \<le> rnd prec emin y"
proof -
  define u where "u = unit_exp prec emin x"
  define v where "v = unit_exp prec emin y"
  have y: "0 < y" using assms by simp
  have uv: "u \<le> v" using ilog2_mono [OF assms(1,2)] assms(1,2) by (simp add: u_def v_def unit_exp_def)
  have r: "rnd prec emin x = of_int (round_even (x / pow2 u)) * pow2 u"
    "rnd prec emin y = of_int (round_even (y / pow2 v)) * pow2 v"
    using assms(1) y by (simp_all add: rnd_def u_def v_def Let_def)
  show ?thesis
  proof (cases "u = v")
    case True
    have "round_even (x / pow2 u) \<le> round_even (y / pow2 v)"
      unfolding True by (intro round_even_mono divide_right_mono assms(2)) simp
    then show ?thesis unfolding r True by (intro mult_right_mono) simp_all
  next
    case False
    with uv have lt: "u < v" by simp
    have v: "v = ilog2 y - int prec + 1" using lt y unfolding u_def v_def unit_exp_def by linarith
    define top where "top = pow2 (ilog2 y)"
    have "ilog2 x < ilog2 y" using lt assms(1) y unfolding u_def v_def unit_exp_def by (simp add: max_def split: if_splits)
    then have "x \<le> top"
      using ilog2_bounds [OF assms(1)] pow2_mono [of "ilog2 x + 1" "ilog2 y"] by (simp add: top_def)
    moreover have tu: "top = of_int (2 ^ nat (ilog2 y - u)) * pow2 u"
      unfolding top_def using lt v assms(3) by (intro pow2_multiple) simp
    ultimately have "x / pow2 u \<le> of_int (2 ^ nat (ilog2 y - u))" by (simp add: divide_le_eq)
    then have "rnd prec emin x \<le> top" unfolding r tu
      by (intro mult_right_mono) (simp_all only: of_int_le_iff round_even_le_int pow2_pos)
    moreover have tv: "top = of_int (2 ^ nat (ilog2 y - v)) * pow2 v"
      unfolding top_def using v assms(3) by (intro pow2_multiple) simp
    have "top \<le> y" using ilog2_bounds [OF y] by (simp add: top_def)
    then have "of_int (2 ^ nat (ilog2 y - v)) \<le> y / pow2 v" unfolding tv by (simp add: le_divide_eq)
    then have "top \<le> rnd prec emin y" unfolding r tv
      by (intro mult_right_mono) (simp_all only: of_int_le_iff round_even_ge_int pow2_pos)
    ultimately show ?thesis by simp
  qed
qed

subsection \<open>Numbers and operations\<close>

datatype float = Fin rat | PosInf | NegInf | NaN

type_synonym f64 = float
type_synonym f32 = float

text \<open>The result of an operation whose exact value is \<open>x\<close>; values beyond the largest finite number
  become infinite. The operations below take this rounding as their first argument.\<close>

definition float_of :: "nat \<Rightarrow> int \<Rightarrow> int \<Rightarrow> rat \<Rightarrow> float" where
  "float_of prec emin emax x = (let r = rnd prec emin x
     in if pow2 emax \<le> r then PosInf else if r \<le> - pow2 emax then NegInf else Fin r)"

definition f64_of :: "rat \<Rightarrow> f64" where
  "f64_of = float_of 53 (- 1074) 1024"

definition f32_of :: "rat \<Rightarrow> f32" where
  "f32_of = float_of 24 (- 149) 128"

definition inf_of :: "bool \<Rightarrow> float" where
  "inf_of positive = (if positive then PosInf else NegInf)"

fun fl_add :: "(rat \<Rightarrow> float) \<Rightarrow> float \<Rightarrow> float \<Rightarrow> float" where
  "fl_add rd (Fin x) (Fin y) = rd (x + y)"
| "fl_add rd NaN _ = NaN"
| "fl_add rd _ NaN = NaN"
| "fl_add rd PosInf NegInf = NaN"
| "fl_add rd NegInf PosInf = NaN"
| "fl_add rd PosInf _ = PosInf"
| "fl_add rd _ PosInf = PosInf"
| "fl_add rd NegInf _ = NegInf"
| "fl_add rd _ NegInf = NegInf"

fun fl_neg :: "float \<Rightarrow> float" where
  "fl_neg (Fin x) = Fin (- x)"
| "fl_neg PosInf = NegInf"
| "fl_neg NegInf = PosInf"
| "fl_neg NaN = NaN"

definition fl_sub :: "(rat \<Rightarrow> float) \<Rightarrow> float \<Rightarrow> float \<Rightarrow> float" where
  "fl_sub rd x y = fl_add rd x (fl_neg y)"

fun fl_sign :: "float \<Rightarrow> int" where
  "fl_sign (Fin x) = (if 0 < x then 1 else if x < 0 then - 1 else 0)"
| "fl_sign PosInf = 1"
| "fl_sign NegInf = - 1"
| "fl_sign NaN = 0"

fun fl_mul :: "(rat \<Rightarrow> float) \<Rightarrow> float \<Rightarrow> float \<Rightarrow> float" where
  "fl_mul rd (Fin x) (Fin y) = rd (x * y)"
| "fl_mul rd NaN _ = NaN"
| "fl_mul rd _ NaN = NaN"
| "fl_mul rd x y = (if fl_sign x * fl_sign y = 0 then NaN else inf_of (0 < fl_sign x * fl_sign y))"

text \<open>Division by zero takes the sign of the dividend: the code divides only by results of
  conversions from unsigned integers, whose zero is positive.\<close>

fun fl_div :: "(rat \<Rightarrow> float) \<Rightarrow> float \<Rightarrow> float \<Rightarrow> float" where
  "fl_div rd NaN _ = NaN"
| "fl_div rd _ NaN = NaN"
| "fl_div rd (Fin x) (Fin y) =
     (if y \<noteq> 0 then rd (x / y) else if x = 0 then NaN else inf_of (0 < x))"
| "fl_div rd (Fin x) _ = Fin 0"
| "fl_div rd x (Fin y) = inf_of ((0 < fl_sign x) = (0 \<le> y))"
| "fl_div rd _ _ = NaN"

fun fl_less :: "float \<Rightarrow> float \<Rightarrow> bool" where
  "fl_less (Fin x) (Fin y) = (x < y)"
| "fl_less NaN _ = False"
| "fl_less _ NaN = False"
| "fl_less x y = (x \<noteq> y \<and> (x = NegInf \<or> y = PosInf))"

fun fl_le :: "float \<Rightarrow> float \<Rightarrow> bool" where
  "fl_le (Fin x) (Fin y) = (x \<le> y)"
| "fl_le NaN _ = False"
| "fl_le _ NaN = False"
| "fl_le x y = (x = y \<or> x = NegInf \<or> y = PosInf)"

definition fl_clamp :: "float \<Rightarrow> float \<Rightarrow> float \<Rightarrow> float" where
  "fl_clamp lo hi x = (if fl_less x lo then lo else if fl_less hi x then hi else x)"

abbreviation "f64_add \<equiv> fl_add f64_of"
abbreviation "f64_mul \<equiv> fl_mul f64_of"
abbreviation "f64_div \<equiv> fl_div f64_of"
abbreviation "f32_add \<equiv> fl_add f32_of"
abbreviation "f32_sub \<equiv> fl_sub f32_of"
abbreviation "f32_mul \<equiv> fl_mul f32_of"

text \<open>\<open>n as f64\<close> for an unsigned \<open>n\<close> and \<open>x as u64\<close>, which truncates and saturates.\<close>

definition nat_as_f64 :: "nat \<Rightarrow> f64" where
  "nat_as_f64 n = f64_of (of_nat n)"

fun f64_as_int :: "nat \<Rightarrow> f64 \<Rightarrow> int" where
  "f64_as_int bits (Fin x) = max 0 (min \<lfloor>x\<rfloor> (2 ^ bits - 1))"
| "f64_as_int bits PosInf = 2 ^ bits - 1"
| "f64_as_int bits NegInf = 0"
| "f64_as_int bits NaN = 0"

definition u64_as_f64 :: "u64 \<Rightarrow> f64" where
  "u64_as_f64 w = f64_of (of_int (uint w))"

definition f64_as_u64 :: "f64 \<Rightarrow> u64" where
  "f64_as_u64 x = word_of_int (f64_as_int 64 x)"

fun fl_ceil :: "f64 \<Rightarrow> f64" where
  "fl_ceil (Fin x) = Fin (of_int \<lceil>x\<rceil>)"
| "fl_ceil x = x"

lemma pow2_1024_big: "2 ^ n \<le> pow2 1024" if "n \<le> 1024" for n
  using pow2_mono [of "int n" 1024] that by (simp add: pow2_nat)

text \<open>Integers below \<open>2^53\<close> are exact.\<close>

lemma rnd_of_nat: "n \<le> 2 ^ 53 \<Longrightarrow> rnd 53 (- 1074) (of_nat n) = of_nat n"
proof -
  assume "n \<le> 2 ^ 53"
  then have "\<bar>int n\<bar> \<le> 2 ^ 53" by (simp add: nat_le_numeral_power_cancel_iff flip: of_nat_le_iff)
  from rnd_of_int [OF this] show ?thesis by simp
qed

lemma rnd_nonneg: "0 \<le> x \<Longrightarrow> 0 \<le> rnd prec emin x"
  using round_even_ge_int [of 0 "x / pow2 (unit_exp prec emin x)"] by (simp add: rnd_def Let_def)

lemma ilog2_pow2: "ilog2 (pow2 k) = k"
proof -
  have b: "pow2 (ilog2 (pow2 k)) \<le> pow2 k" "pow2 k < pow2 (ilog2 (pow2 k) + 1)"
    using ilog2_bounds [of "pow2 k"] by simp_all
  have "pow2 k < pow2 (ilog2 (pow2 k))" if "k < ilog2 (pow2 k)"
    using that by (simp add: pow2_powi power_int_strict_increasing)
  with b(1) pow2_less_cancel [OF b(2)] show ?thesis by force
qed

lemma rnd_pow2: "emin \<le> k - int prec + 1 \<Longrightarrow> 0 < prec \<Longrightarrow> rnd prec emin (pow2 k) = pow2 k"
proof (rule rnd_exact)
  assume a: "emin \<le> k - int prec + 1" "0 < prec"
  then have "unit_exp prec emin (pow2 k) = k - int prec + 1" by (simp add: unit_exp_def ilog2_pow2)
  then show "pow2 k = of_int (2 ^ nat (int prec - 1)) * pow2 (unit_exp prec emin (pow2 k))"
    using pow2_multiple [of "k - int prec + 1" k] a(2) by simp
qed

lemma float_of_in_range:
  assumes "0 \<le> x" and "x \<le> pow2 k" and "k < emax" and "emin \<le> k - int prec + 1" and "0 < prec"
  shows "float_of prec emin emax x = Fin (rnd prec emin x)"
proof (cases "x = 0")
  case False
  then have x: "0 < x" using assms(1) by simp
  have "rnd prec emin x \<le> pow2 k"
    using rnd_mono [OF x assms(2,5), of emin] rnd_pow2 [OF assms(4,5)] by simp
  also have "pow2 k < pow2 emax" using assms(3) by (simp add: pow2_powi power_int_strict_increasing)
  finally have "\<not> pow2 emax \<le> rnd prec emin x" by simp
  moreover have "\<not> rnd prec emin x \<le> - pow2 emax"
    using rnd_nonneg [OF assms(1), of prec emin] pow2_pos(1) [of emax] by linarith
  ultimately show ?thesis by (simp add: float_of_def)
qed (simp add: float_of_def not_le)

lemma f64_of_small: "0 \<le> x \<Longrightarrow> x \<le> pow2 1000 \<Longrightarrow> f64_of x = Fin (rnd 53 (- 1074) x)"
  unfolding f64_of_def by (rule float_of_in_range [where k = 1000]) simp_all

lemma f32_of_small: "0 \<le> x \<Longrightarrow> x \<le> pow2 100 \<Longrightarrow> f32_of x = Fin (rnd 24 (- 149) x)"
  unfolding f32_of_def by (rule float_of_in_range [where k = 100]) simp_all

end
