(* ===== verification/Compression.thy ===== *)
theory Compression
  imports Nexus_Error Float64
begin

text \<open>
  Snapshot compression, \<open>src/src/snapshot/compression.rs\<close>. The zstd library is a parameter, a
  record of its encoder (by level) and decoder; the zero-page encoding of WASM memory is the
  repository's own and is modelled byte for byte, with the header's \<open>usize\<close> fields as 64-bit
  words.
\<close>

record zstd_env =
  copy_encode :: "int \<Rightarrow> bytes \<Rightarrow> bytes option"
  copy_decode :: "bytes \<Rightarrow> bytes option"

text \<open>What the code relies on of zstd: decoding inverts encoding, at every level.\<close>

definition zstd_ok :: "zstd_env \<Rightarrow> bool" where
  "zstd_ok z \<longleftrightarrow> (\<forall>l x y. copy_encode z l x = Some y \<longrightarrow> copy_decode z y = Some x)"

subsection \<open>General compression\<close>

datatype compression_algo = Zstd | NoCompression

record compression_config =
  cfg_algorithm :: compression_algo
  cfg_level :: int
  cfg_checksum :: bool

definition default_compression_config :: compression_config where
  "default_compression_config = \<lparr>cfg_algorithm = Zstd, cfg_level = 3, cfg_checksum = True\<rparr>"

record compressed_data =
  cd_data :: bytes
  cd_original_size :: nat
  cd_compressed_size :: nat
  cd_algorithm :: compression_algo
  cd_level :: int

definition compression_ratio :: "nat \<Rightarrow> nat \<Rightarrow> f64" where
  "compression_ratio original compressed =
     (if original = 0 then Fin 1 else f64_div (nat_as_f64 compressed) (nat_as_f64 original))"

definition cd_compression_ratio :: "compressed_data \<Rightarrow> f64" where
  "cd_compression_ratio c = compression_ratio (cd_original_size c) (cd_compressed_size c)"

definition space_saved :: "compressed_data \<Rightarrow> nat" where
  "space_saved c = cd_original_size c - cd_compressed_size c"

definition compress_zstd :: "zstd_env \<Rightarrow> bytes \<Rightarrow> int \<Rightarrow> string + compressed_data" where
  "compress_zstd z data level =
     (case copy_encode z level data of
        None \<Rightarrow> Inl ''Failed to compress: {}''
      | Some c \<Rightarrow> Inr \<lparr>cd_data = c, cd_original_size = length data, cd_compressed_size = length c,
                       cd_algorithm = Zstd, cd_level = level\<rparr>)"

definition decompress_zstd :: "zstd_env \<Rightarrow> bytes \<Rightarrow> nat \<Rightarrow> string + bytes" where
  "decompress_zstd z data original_size =
     (case copy_decode z data of None \<Rightarrow> Inl ''Failed to decompress: {}'' | Some d \<Rightarrow> Inr d)"

definition compress :: "zstd_env \<Rightarrow> bytes \<Rightarrow> compression_config \<Rightarrow> string + compressed_data" where
  "compress z data config =
     (case cfg_algorithm config of
        Zstd \<Rightarrow> compress_zstd z data (cfg_level config)
      | NoCompression \<Rightarrow>
          Inr \<lparr>cd_data = data, cd_original_size = length data, cd_compressed_size = length data,
               cd_algorithm = cfg_algorithm config, cd_level = cfg_level config\<rparr>)"

definition decompress :: "zstd_env \<Rightarrow> bytes \<Rightarrow> compression_algo \<Rightarrow> nat \<Rightarrow> string + bytes" where
  "decompress z data algorithm original_size =
     (case algorithm of Zstd \<Rightarrow> decompress_zstd z data original_size | NoCompression \<Rightarrow> Inr data)"

record streaming_compressor =
  sc_buffer :: bytes
  sc_level :: int

definition sc_new :: "int \<Rightarrow> string + streaming_compressor" where
  "sc_new level = Inr \<lparr>sc_buffer = [], sc_level = level\<rparr>"

definition sc_write :: "bytes \<Rightarrow> streaming_compressor \<Rightarrow> (string + unit) \<times> streaming_compressor" where
  "sc_write data s = (Inr (), s\<lparr>sc_buffer := sc_buffer s @ data\<rparr>)"

definition sc_finish :: "zstd_env \<Rightarrow> streaming_compressor \<Rightarrow> string + compressed_data" where
  "sc_finish z s =
     (case copy_encode z (sc_level s) (sc_buffer s) of
        None \<Rightarrow> Inl ''Failed to compress: {}''
      | Some c \<Rightarrow> Inr \<lparr>cd_data = c, cd_original_size = length (sc_buffer s),
                       cd_compressed_size = length c, cd_algorithm = Zstd, cd_level = sc_level s\<rparr>)"

subsection \<open>Zero-page encoding of WASM memory\<close>

definition WASM_PAGE :: nat where
  "WASM_PAGE = 65536"

text \<open>\<open>slice::chunks\<close>: consecutive pieces of \<open>n\<close> elements, the last one possibly shorter.\<close>

function chunks :: "nat \<Rightarrow> 'a list \<Rightarrow> 'a list list" where
  "chunks n xs = (if n = 0 \<or> xs = [] then [] else take n xs # chunks n (drop n xs))"
  by pat_completeness auto
termination by (relation "measure (\<lambda>(n, xs). length xs)") auto

declare chunks.simps [simp del]

fun compress_pages :: "bytes list \<Rightarrow> bytes \<Rightarrow> nat \<Rightarrow> nat \<Rightarrow> bytes \<times> nat \<times> nat" where
  "compress_pages [] res zero_pages nonzero_pages = (res, zero_pages, nonzero_pages)"
| "compress_pages (chunk # rest) res zero_pages nonzero_pages =
     (if list_all (\<lambda>b. b = 0) chunk
      then compress_pages rest (res @ [0x00]) (zero_pages + 1) nonzero_pages
      else compress_pages rest (res @ [0x01] @ chunk) zero_pages (nonzero_pages + 1))"

definition compress_snapshot_memory :: "bytes \<Rightarrow> string + bytes \<times> nat" where
  "compress_snapshot_memory memory =
     (if length memory mod WASM_PAGE \<noteq> 0
      then Inl ''Snapshot memory length must be a multiple of the WASM page size''
      else case compress_pages (chunks WASM_PAGE memory) [] 0 0 of
        (res, zero_pages, nonzero_pages) \<Rightarrow>
          Inr (u64_le (word_of_nat zero_pages) @ u64_le (word_of_nat nonzero_pages) @ res,
               length memory))"

text \<open>The decoding loop: \<open>k\<close> pages are left, \<open>pos\<close> is the read position.\<close>

fun decompress_pages ::
  "nat \<Rightarrow> bytes \<Rightarrow> nat \<Rightarrow> nat \<Rightarrow> nat \<Rightarrow> bytes \<Rightarrow> string + nat \<times> nat \<times> nat \<times> bytes" where
  "decompress_pages 0 compressed pos seen_zero seen_nonzero res =
     Inr (pos, seen_zero, seen_nonzero, res)"
| "decompress_pages (Suc k) compressed pos seen_zero seen_nonzero res =
     (if length compressed \<le> pos then Inl ''Unexpected end of data''
      else
        let marker = compressed ! pos; pos = pos + 1 in
        if marker = 0x00
        then decompress_pages k compressed pos (seen_zero + 1) seen_nonzero
               (res @ replicate WASM_PAGE 0)
        else if marker = 0x01 then
          (let end = pos + WASM_PAGE in
           if 2 ^ 64 \<le> end then Inl ''Compressed position overflow''
           else if length compressed < end then Inl ''Unexpected end of non-zero page''
           else decompress_pages k compressed end seen_zero (seen_nonzero + 1)
                  (res @ slice compressed pos end))
        else Inl ''Invalid page marker: {marker:#04x}'')"

definition decompress_snapshot_memory :: "bytes \<Rightarrow> string + bytes" where
  "decompress_snapshot_memory compressed =
     (if length compressed < 16 then Inl ''Invalid compressed data''
      else
        let zero_pages = u64_from_le (slice compressed 0 8);
            nonzero_pages = u64_from_le (slice compressed 8 16) in
        case checked_add zero_pages nonzero_pages of
          None \<Rightarrow> Inl ''Page count overflow''
        | Some total_pages \<Rightarrow>
            (case checked_mul nonzero_pages (word_of_nat WASM_PAGE) of
               None \<Rightarrow> Inl ''Compressed size overflow''
             | Some raw \<Rightarrow>
                 (case checked_add total_pages raw of
                    None \<Rightarrow> Inl ''Compressed size overflow''
                  | Some payload \<Rightarrow>
                      (case checked_add 16 payload of
                         None \<Rightarrow> Inl ''Compressed size overflow''
                       | Some expected_len \<Rightarrow>
                           (if length compressed \<noteq> unat expected_len
                            then Inl ''Compressed data length does not match header''
                            else case checked_mul total_pages (word_of_nat WASM_PAGE) of
                              None \<Rightarrow> Inl ''Decompressed size overflow''
                            | Some capacity \<Rightarrow>
                                (case decompress_pages (unat total_pages) compressed 16 0 0 [] of
                                   Inl e \<Rightarrow> Inl e
                                 | Inr (pos, seen_zero, seen_nonzero, res) \<Rightarrow>
                                     (if seen_zero \<noteq> unat zero_pages \<or> seen_nonzero \<noteq> unat nonzero_pages
                                      then Inl ''Page marker counts do not match header''
                                      else if pos \<noteq> length compressed
                                      then Inl ''Trailing compressed data''
                                      else Inr res)))))))"

subsection \<open>Lemmas\<close>

lemma chunks_concat: "0 < n \<Longrightarrow> concat (chunks n xs) = xs"
proof (induction n xs rule: chunks.induct)
  case (1 n xs)
  then show ?case by (cases "xs = []") (simp_all add: chunks.simps [of n xs] chunks.simps [of n "[]"])
qed

lemma chunks_length:
  "0 < n \<Longrightarrow> length xs mod n = 0 \<Longrightarrow> p \<in> set (chunks n xs) \<Longrightarrow> length p = n"
proof (induction n xs rule: chunks.induct)
  case (1 n xs)
  show ?case
  proof (cases "xs = []")
    case False
    with 1 have n: "n \<le> length xs" by (metis length_0_conv mod_less not_le)
    with 1 have "length (drop n xs) mod n = 0" by (simp add: le_mod_geq)
    with 1 False n show ?thesis by (auto simp: chunks.simps [of n xs])
  qed (use 1 in \<open>simp add: chunks.simps\<close>)
qed

definition zero_page :: "bytes \<Rightarrow> bool" where
  "zero_page p = list_all (\<lambda>b. b = 0) p"

definition encode_page :: "bytes \<Rightarrow> bytes" where
  "encode_page p = (if zero_page p then [0x00] else 0x01 # p)"

definition zero_count :: "bytes list \<Rightarrow> nat" where
  "zero_count ps = length (filter zero_page ps)"

definition nonzero_count :: "bytes list \<Rightarrow> nat" where
  "nonzero_count ps = length (filter (\<lambda>p. \<not> zero_page p) ps)"

lemma counts_sum: "zero_count ps + nonzero_count ps = length ps"
  by (simp add: zero_count_def nonzero_count_def sum_length_filter_compl)

lemma compress_pages_eq:
  "compress_pages ps r z nz =
     (r @ concat (map encode_page ps), z + zero_count ps, nz + nonzero_count ps)"
  by (induction ps r z nz rule: compress_pages.induct)
    (auto simp: encode_page_def zero_page_def zero_count_def nonzero_count_def)

lemma zero_page_replicate: "zero_page p \<Longrightarrow> p = replicate (length p) 0"
  by (rule replicate_eqI) (auto simp: zero_page_def list_all_iff)

lemma decompress_pages_encoded:
  assumes "\<forall>p \<in> set ps. length p = WASM_PAGE" and "length c < 2 ^ 64"
    and "drop pos c = concat (map encode_page ps)" and "pos \<le> length c"
  shows "decompress_pages (length ps) c pos z nz r =
    Inr (length c, z + zero_count ps, nz + nonzero_count ps, r @ concat ps)"
  using assms
proof (induction ps arbitrary: pos z nz r)
  case Nil
  then show ?case by (simp add: zero_count_def nonzero_count_def)
next
  case (Cons p ps)
  have dp: "drop pos c = encode_page p @ concat (map encode_page ps)" using Cons.prems(3) by simp
  then have lt: "pos < length c" by (cases "pos < length c") (auto simp: encode_page_def split: if_splits)
  have split: "drop pos c = c ! pos # drop (pos + 1) c" using lt by (simp add: Cons_nth_drop_Suc)
  show ?case
  proof (cases "zero_page p")
    case True
    with dp split have "c ! pos = 0" "drop (pos + 1) c = concat (map encode_page ps)"
      by (simp_all add: encode_page_def)
    moreover have "replicate WASM_PAGE 0 = p" using zero_page_replicate [OF True] Cons.prems(1) by simp
    ultimately show ?thesis
      using Cons.IH [of "pos + 1" "z + 1" nz "r @ p"] Cons.prems(1,2) lt True
      by (simp add: zero_count_def nonzero_count_def Let_def)
  next
    case False
    with dp split have m: "c ! pos = 1" and d: "drop (pos + 1) c = p @ concat (map encode_page ps)"
      by (simp_all add: encode_page_def)
    have lp: "length p = WASM_PAGE" using Cons.prems(1) by simp
    have le: "pos + 1 + WASM_PAGE \<le> length c"
      using arg_cong [OF d, of length] lp lt by simp
    have s: "slice c (pos + 1) (pos + 1 + WASM_PAGE) = p" using d lp by (simp add: slice_def)
    have "drop (pos + 1 + WASM_PAGE) c = concat (map encode_page ps)"
      using d lp by (metis append_eq_conv_conj drop_drop add.commute)
    with Cons.IH [of "pos + 1 + WASM_PAGE" z "nz + 1" "r @ p"] Cons.prems(1,2) lt le m s False
    show ?thesis by (simp add: zero_count_def nonzero_count_def Let_def)
  qed
qed

lemma length_encoded:
  "\<forall>p \<in> set ps. length p = WASM_PAGE \<Longrightarrow>
   length (concat (map encode_page ps)) = length ps + nonzero_count ps * WASM_PAGE"
  by (induction ps) (auto simp: encode_page_def nonzero_count_def)

lemma length_concat_pages:
  "\<forall>p \<in> set ps. length p = WASM_PAGE \<Longrightarrow> length (concat ps) = length ps * WASM_PAGE"
  by (induction ps) auto

lemma checked_add_of_nat:
  "a + b < 2 ^ LENGTH('a) \<Longrightarrow>
   checked_add (word_of_nat a) (word_of_nat b :: 'a::len word) = Some (word_of_nat (a + b))"
  by (simp add: checked_add_def unat_of_nat take_bit_nat_eq_self)

lemma checked_mul_of_nat:
  assumes "a < 2 ^ LENGTH('a)" and "b < 2 ^ LENGTH('a)" and "a * b < 2 ^ LENGTH('a)"
  shows "checked_mul (word_of_nat a) (word_of_nat b :: 'a::len word) = Some (word_of_nat (a * b))"
  using assms by (simp add: checked_mul_def unat_of_nat take_bit_nat_eq_self)

text \<open>None of the header's checked operations overflows on a memory below the size bound.\<close>

lemma header_arith:
  assumes zn: "z + n = k" and k: "k * 65536 < 2 ^ 63"
  shows "checked_add (word_of_nat z) (word_of_nat n :: u64) = Some (word_of_nat k)"
    and "checked_mul (word_of_nat n :: u64) (word_of_nat WASM_PAGE) = Some (word_of_nat (n * WASM_PAGE))"
    and "checked_add (word_of_nat k) (word_of_nat (n * WASM_PAGE) :: u64) =
      Some (word_of_nat (k + n * WASM_PAGE))"
    and "checked_add 16 (word_of_nat (k + n * WASM_PAGE) :: u64) =
      Some (word_of_nat (16 + (k + n * WASM_PAGE)))"
    and "checked_mul (word_of_nat k :: u64) (word_of_nat WASM_PAGE) = Some (word_of_nat (k * WASM_PAGE))"
proof -
  have n: "n * 65536 \<le> k * 65536" using zn by simp
  have "z + n < 2 ^ 64" using zn k by simp
  then show "checked_add (word_of_nat z) (word_of_nat n :: u64) = Some (word_of_nat k)"
    using checked_add_of_nat [where 'a = 64, of z n] zn by simp
  show "checked_mul (word_of_nat n :: u64) (word_of_nat WASM_PAGE) = Some (word_of_nat (n * WASM_PAGE))"
    by (rule checked_mul_of_nat) (use k n in \<open>simp_all add: WASM_PAGE_def\<close>)
  show "checked_add (word_of_nat k) (word_of_nat (n * WASM_PAGE) :: u64) =
      Some (word_of_nat (k + n * WASM_PAGE))"
    by (rule checked_add_of_nat) (use k n in \<open>simp add: WASM_PAGE_def\<close>)
  have "16 + (k + n * WASM_PAGE) < 2 ^ 64" using k n by (simp add: WASM_PAGE_def)
  then show "checked_add 16 (word_of_nat (k + n * WASM_PAGE) :: u64) =
      Some (word_of_nat (16 + (k + n * WASM_PAGE)))"
    using checked_add_of_nat [where 'a = 64, of 16 "k + n * WASM_PAGE"] by simp
  show "checked_mul (word_of_nat k :: u64) (word_of_nat WASM_PAGE) = Some (word_of_nat (k * WASM_PAGE))"
    by (rule checked_mul_of_nat) (use k in \<open>simp_all add: WASM_PAGE_def\<close>)
qed

subsection \<open>Properties\<close>

text \<open>
  C12: Compressing WASM memory by dropping its zero pages loses nothing: for every memory whose
  length is a multiple of the page size (and below the \<open>isize::MAX\<close> bound of a \<open>Vec\<close>), compression
  succeeds and decompression of its output, with all header and overflow checks, gives the memory
  back; the output has one byte per page plus the non-zero pages plus a 16-byte header.
\<close>

theorem snapshot_memory_roundtrip:
  assumes "length m mod WASM_PAGE = 0" and "length m < 2 ^ 63"
  shows "\<exists>c. compress_snapshot_memory m = Inr (c, length m)
    \<and> decompress_snapshot_memory c = Inr m
    \<and> length c = 16 + length (chunks WASM_PAGE m) + nonzero_count (chunks WASM_PAGE m) * WASM_PAGE"
proof -
  have W: "0 < WASM_PAGE" by (simp add: WASM_PAGE_def)
  define ps where "ps = chunks WASM_PAGE m"
  have ps: "\<forall>p \<in> set ps. length p = WASM_PAGE" "concat ps = m"
    using chunks_length [OF W assms(1)] chunks_concat [OF W] by (auto simp: ps_def)
  define z n where "z = zero_count ps" and "n = nonzero_count ps"
  have zn: "z + n = length ps" by (simp add: z_def n_def counts_sum)
  have lm: "length ps * WASM_PAGE = length m" using length_concat_pages [OF ps(1)] ps(2) by simp
  have lps: "length ps * 65536 < 2 ^ 63" using lm assms(2) by (simp add: WASM_PAGE_def)
  have nps: "n * 65536 \<le> length ps * 65536" using zn by simp
  define c where "c = u64_le (word_of_nat z) @ u64_le (word_of_nat n) @ concat (map encode_page ps)"
  have lc: "length c = 16 + (length ps + n * WASM_PAGE)"
    using length_encoded [OF ps(1)] by (simp add: c_def n_def)
  have lc64: "length c < 2 ^ 64" using lc lps nps by (simp add: WASM_PAGE_def)
  have comp: "compress_snapshot_memory m = Inr (c, length m)"
    using assms(1) by (simp add: compress_snapshot_memory_def compress_pages_eq c_def z_def n_def
        ps_def [symmetric])
  have "slice c 0 8 = u64_le (word_of_nat z)" "slice c 8 16 = u64_le (word_of_nat n)"
    by (simp_all add: c_def slice_def)
  then have head: "u64_from_le (slice c 0 8) = word_of_nat z" "u64_from_le (slice c 8 16) = word_of_nat n"
    by simp_all
  have bounds: "z < 2 ^ 64" "n < 2 ^ 64" "length ps < 2 ^ 64" using zn lps by simp_all
  note a = header_arith [OF zn lps]
  have "\<not> length c < 16" using lc by simp
  have "drop 16 c = concat (map encode_page ps)" by (simp add: c_def)
  then have pages: "decompress_pages (length ps) c 16 0 0 [] = Inr (length c, z, n, m)"
    using decompress_pages_encoded [OF ps(1) lc64, of 16 0 0 "[]"] lc ps(2) by (simp add: z_def n_def)
  have "decompress_snapshot_memory c = Inr m"
    using \<open>\<not> length c < 16\<close> lc64 bounds
    by (simp add: decompress_snapshot_memory_def head Let_def a(1-3,5) a(4) [folded lc] pages
        unat_u64_of_nat del: of_nat_add of_nat_mult)
  with comp lc show ?thesis by (auto simp: ps_def n_def)
qed

theorem snapshot_memory_roundtrip_witness:
  "\<exists>c. compress_snapshot_memory (replicate 65536 7) = Inr (c, 65536)
     \<and> decompress_snapshot_memory c = Inr (replicate 65536 7)"
  using snapshot_memory_roundtrip [of "replicate 65536 7"] by (auto simp: WASM_PAGE_def)

text \<open>
  Any sequence of writes to a streaming compressor, once finished, decompresses to the
  concatenation of the written pieces, and its recorded sizes are those of the data.
\<close>

lemma streaming_roundtrip:
  assumes "zstd_ok z" and "sc_new level = Inr s0"
    and "sc_finish z (fold (\<lambda>d s. snd (sc_write d s)) ds s0) = Inr c"
  shows "decompress z (cd_data c) (cd_algorithm c) (cd_original_size c) = Inr (concat ds)
    \<and> cd_original_size c = length (concat ds) \<and> cd_compressed_size c = length (cd_data c)"
proof -
  have buf: "sc_buffer (fold (\<lambda>d s. snd (sc_write d s)) ds s) = sc_buffer s @ concat ds" for s
    by (induction ds arbitrary: s) (simp_all add: sc_write_def)
  show ?thesis
    using assms by (auto simp: sc_new_def sc_finish_def buf decompress_def decompress_zstd_def
        zstd_ok_def split: option.splits)
qed

definition id_zstd :: zstd_env where
  "id_zstd = \<lparr>copy_encode = (\<lambda>l x. Some x), copy_decode = Some\<rparr>"

lemma id_zstd_ok [simp]: "zstd_ok id_zstd" "copy_encode id_zstd l x = Some x" "copy_decode id_zstd x = Some x"
  by (simp_all add: zstd_ok_def id_zstd_def)

end
