(* ===== verification/Differential.thy ===== *)
theory Differential
  imports Compression
begin

text \<open>
  Differential snapshots, \<open>src/src/snapshot/differential.rs\<close>, with the data types they share with
  the snapshot manager (\<open>src/src/snapshot/manager.rs\<close>): execution state and metadata.

  The dirty pages are a hash map from \<open>u32\<close> page indices to compressed pages, listed in the map's
  iteration order; \<open>page_idx as u32\<close> truncates. WASM floats are their bit patterns. The page
  results are shown not to depend on the iteration order.
\<close>

subsection \<open>Shared data types\<close>

datatype global_value = I32 u32 | I64 u64 | F32 u32 | F64 u64

record global_snapshot =
  gs_name :: string
  gs_value :: global_value
  gs_mutable :: bool

record table_snapshot =
  ts_name :: string
  ts_size :: u32

record execution_state =
  captured_globals :: "global_snapshot list"
  captured_tables :: "table_snapshot list"

record snapshot_metadata =
  operation_name :: string
  input_hash :: string
  creation_time_us :: u64
  memory_pages :: u32
  preconditions :: "string list"

definition metadata_new :: "string \<Rightarrow> string \<Rightarrow> snapshot_metadata" where
  "metadata_new op ih = \<lparr>operation_name = op, input_hash = ih, creation_time_us = 0,
     memory_pages = 0, preconditions = []\<rparr>"

subsection \<open>Dirty pages\<close>

definition PAGE_SIZE :: nat where
  "PAGE_SIZE = 4096"

record diff_snapshot =
  diff_id :: uuid
  base_id :: uuid
  diff_timestamp :: time
  dirty_pages :: "(u32, bytes) hashmap"
  dirty_count :: u32
  total_memory_size :: nat
  diff_execution_state :: execution_state
  diff_metadata :: snapshot_metadata
  generation :: u32

fun dirty_loop ::
  "zstd_env \<Rightarrow> bytes \<Rightarrow> bytes \<Rightarrow> nat list \<Rightarrow> (u32, bytes) hashmap \<Rightarrow> (u32, bytes) hashmap result" where
  "dirty_loop z base current [] dirty = Inr dirty"
| "dirty_loop z base current (page_idx # rest) dirty =
     (let start = page_idx * PAGE_SIZE;
          end = min (start + PAGE_SIZE) (length base);
          base_page = slice base start end;
          current_page = slice current start end
      in if base_page \<noteq> current_page
         then (case copy_encode z 3 current_page of
                 None \<Rightarrow> Inl (SerializationError ''page compression failed: {e}'')
               | Some compressed \<Rightarrow>
                   dirty_loop z base current rest (hm_insert (word_of_nat page_idx) compressed dirty))
         else dirty_loop z base current rest dirty)"

definition compute_dirty_pages ::
  "zstd_env \<Rightarrow> bytes \<Rightarrow> bytes \<Rightarrow> (u32, bytes) hashmap result" where
  "compute_dirty_pages z base_memory current_memory =
     (if length base_memory \<noteq> length current_memory
      then Inl (SnapshotCreateFailed ''memory size mismatch: base={} current={}'')
      else dirty_loop z base_memory current_memory
             [0..<div_ceil (length base_memory) PAGE_SIZE] [])"

definition diff_new ::
  "zstd_env \<Rightarrow> time \<Rightarrow> uuid \<Rightarrow> uuid \<Rightarrow> bytes \<Rightarrow> bytes \<Rightarrow> execution_state \<Rightarrow> snapshot_metadata \<Rightarrow> u32
   \<Rightarrow> diff_snapshot result" where
  "diff_new z now new_id base base_memory current_memory es md gen =
     (case compute_dirty_pages z base_memory current_memory of
        Inl e \<Rightarrow> Inl e
      | Inr pages \<Rightarrow>
          Inr \<lparr>diff_id = new_id, base_id = base, diff_timestamp = now, dirty_pages = pages,
               dirty_count = word_of_nat (length pages), total_memory_size = length current_memory,
               diff_execution_state = es, diff_metadata = md, generation = gen\<rparr>)"

definition diff_compressed_size :: "diff_snapshot \<Rightarrow> nat" where
  "diff_compressed_size d = sum_list (map (length \<circ> snd) (dirty_pages d))"

fun apply_pages :: "zstd_env \<Rightarrow> bytes \<Rightarrow> (u32, bytes) hashmap \<Rightarrow> bytes result" where
  "apply_pages z res [] = Inr res"
| "apply_pages z res ((page_idx, compressed) # rest) =
     (let start = unat page_idx * PAGE_SIZE;
          end = min (start + PAGE_SIZE) (length res)
      in if length res \<le> start
         then Inl (RollbackFailed ''dirty page index {} out of bounds for memory size {}'')
         else case copy_decode z compressed of
           None \<Rightarrow> Inl (SerializationError ''page decompression failed: {e}'')
         | Some decompressed \<Rightarrow>
             (if length decompressed \<noteq> end - start
              then Inl (RollbackFailed ''decompressed page {} has size {} but expected {}'')
              else apply_pages z (write_slice res start decompressed) rest))"

definition apply_diff :: "zstd_env \<Rightarrow> bytes \<Rightarrow> diff_snapshot \<Rightarrow> bytes result" where
  "apply_diff z base_memory diff =
     (if length base_memory \<noteq> total_memory_size diff
      then Inl (RollbackFailed ''base memory size ({}) does not match diff total_memory_size ({})'')
      else apply_pages z base_memory (dirty_pages diff))"

fun apply_diff_chain :: "zstd_env \<Rightarrow> bytes \<Rightarrow> diff_snapshot list \<Rightarrow> bytes result" where
  "apply_diff_chain z current [] = Inr current"
| "apply_diff_chain z current (diff # ds) =
     (case apply_diff z current diff of
        Inl e \<Rightarrow> Inl e
      | Inr next_memory \<Rightarrow> apply_diff_chain z next_memory ds)"

subsection \<open>Applying pages is a pointwise overlay\<close>

definition page_of :: "(u32, bytes) hashmap \<Rightarrow> nat \<Rightarrow> bytes option" where
  "page_of ps k = map_of (map (\<lambda>(i, c). (unat i, c)) ps) k"

definition overlay :: "zstd_env \<Rightarrow> (u32, bytes) hashmap \<Rightarrow> bytes \<Rightarrow> bytes" where
  "overlay z ps m = map (\<lambda>j. case page_of ps (j div PAGE_SIZE) of
       None \<Rightarrow> m ! j
     | Some c \<Rightarrow> the (copy_decode z c) ! (j mod PAGE_SIZE)) [0..<length m]"

definition page_ok :: "zstd_env \<Rightarrow> nat \<Rightarrow> u32 \<times> bytes \<Rightarrow> bool" where
  "page_ok z n = (\<lambda>(i, c). unat i * PAGE_SIZE < n \<and>
     (\<exists>d. copy_decode z c = Some d \<and> length d = min (unat i * PAGE_SIZE + PAGE_SIZE) n - unat i * PAGE_SIZE))"

lemma page_of_Some:
  assumes "hm_wf ps"
  shows "page_of ps k = Some c \<longleftrightarrow> (\<exists>i. (i, c) \<in> set ps \<and> unat i = k)"
proof -
  have "map fst (map (\<lambda>(i, c). (unat i, c)) ps) = map unat (map fst ps)" by auto
  moreover have "inj_on unat (set (map fst ps))"
    by (rule inj_onI) (rule word_unat_eq_iff [THEN iffD2])
  ultimately have "distinct (map fst (map (\<lambda>(i, c). (unat i, c)) ps))"
    using assms by (simp only: distinct_map)
  then show ?thesis by (auto simp: page_of_def)
qed

lemma page_of_same:
  assumes "hm_wf ps" and "hm_wf qs" and "set ps = set qs"
  shows "page_of ps = page_of qs"
proof
  fix k
  have "page_of ps k = Some c \<longleftrightarrow> page_of qs k = Some c" for c
    using page_of_Some [OF assms(1)] page_of_Some [OF assms(2)] assms(3) by simp
  then show "page_of ps k = page_of qs k" by (metis not_Some_eq)
qed

lemma length_overlay [simp]: "length (overlay z ps m) = length m"
  by (simp add: overlay_def)

lemma nth_overlay: "j < length m \<Longrightarrow> overlay z ps m ! j =
    (case page_of ps (j div PAGE_SIZE) of None \<Rightarrow> m ! j
     | Some c \<Rightarrow> the (copy_decode z c) ! (j mod PAGE_SIZE))"
  by (simp add: overlay_def split: option.splits)

lemma page_pos [simp]: "0 < PAGE_SIZE" "PAGE_SIZE \<noteq> 0"
  by (simp_all add: PAGE_SIZE_def)

lemma in_page_iff:
  "i * PAGE_SIZE \<le> j \<and> j < i * PAGE_SIZE + PAGE_SIZE \<longleftrightarrow> j div PAGE_SIZE = i"
proof -
  have "i * PAGE_SIZE \<le> j \<longleftrightarrow> i \<le> j div PAGE_SIZE"
    by (simp add: less_eq_div_iff_mult_less_eq)
  moreover have "j < i * PAGE_SIZE + PAGE_SIZE \<longleftrightarrow> j div PAGE_SIZE < Suc i"
    by (simp add: div_less_iff_less_mult add.commute)
  ultimately show ?thesis by auto
qed

lemma page_offset: "j div PAGE_SIZE = i \<Longrightarrow> j - i * PAGE_SIZE = j mod PAGE_SIZE"
  by (metis minus_div_mult_eq_mod)

lemma overlay_step:
  assumes ok: "page_ok z (length m) (i, c)" and fresh: "i \<notin> fst ` set ps"
    and d: "copy_decode z c = Some d"
  shows "overlay z ps (write_slice m (unat i * PAGE_SIZE) d) = overlay z ((i, c) # ps) m"
proof (rule nth_equalityI)
  let ?s = "unat i * PAGE_SIZE"
  have fit: "?s + length d \<le> length m" using ok d by (auto simp: page_ok_def)
  note lw = length_write_slice [OF fit]
  show "length (overlay z ps (write_slice m ?s d)) = length (overlay z ((i, c) # ps) m)"
    by (simp add: lw)
  fix j assume "j < length (overlay z ps (write_slice m ?s d))"
  then have j: "j < length m" by (simp add: lw)
  have inside: "?s \<le> j \<and> j < ?s + length d \<longleftrightarrow> j div PAGE_SIZE = unat i"
    using ok d j in_page_iff [of "unat i" j] by (auto simp: page_ok_def)
  have "page_of ps (unat i) = None"
    using fresh by (force simp: page_of_def map_of_eq_None_iff dest: word_unat_eq_iff [THEN iffD2])
  moreover have "write_slice m ?s d ! j =
      (if j div PAGE_SIZE = unat i then d ! (j mod PAGE_SIZE) else m ! j)"
    unfolding nth_write_slice [OF fit j] inside using page_offset [of j "unat i"] by simp
  ultimately show "overlay z ps (write_slice m ?s d) ! j = overlay z ((i, c) # ps) m ! j"
    using j d by (auto simp: nth_overlay lw page_of_def split: option.split)
qed

lemma apply_pages_overlay:
  assumes "hm_wf ps" and "\<forall>p \<in> set ps. page_ok z (length m) p"
  shows "apply_pages z m ps = Inr (overlay z ps m)"
  using assms
proof (induction ps arbitrary: m)
  case Nil
  have "overlay z [] m = m" by (rule nth_equalityI) (simp_all add: nth_overlay page_of_def)
  then show ?case by simp
next
  case (Cons p ps)
  obtain i c where p: "p = (i, c)" by (cases p)
  have ok: "page_ok z (length m) (i, c)" and fresh: "i \<notin> fst ` set ps" using Cons.prems p by auto
  then obtain d where d: "copy_decode z c = Some d"
      "length d = min (unat i * PAGE_SIZE + PAGE_SIZE) (length m) - unat i * PAGE_SIZE"
    by (auto simp: page_ok_def)
  have fit: "unat i * PAGE_SIZE + length d \<le> length m" using ok d by (auto simp: page_ok_def)
  have "apply_pages z m (p # ps) = apply_pages z (write_slice m (unat i * PAGE_SIZE) d) ps"
    using ok d p by (simp add: Let_def page_ok_def)
  also have "\<dots> = Inr (overlay z (p # ps) m)"
    using Cons.IH [of "write_slice m (unat i * PAGE_SIZE) d"] Cons.prems
      length_write_slice [OF fit] overlay_step [OF ok fresh d(1)] p by simp
  finally show ?case .
qed

lemma apply_pages_ok:
  "apply_pages z m ps = Inr r \<Longrightarrow> \<forall>p \<in> set ps. page_ok z (length m) p"
proof (induction z m ps arbitrary: r rule: apply_pages.induct)
  case (2 z m i c rest)
  from "2.prems" obtain d where d: "copy_decode z c = Some d" "unat i * PAGE_SIZE < length m"
      "length d = min (unat i * PAGE_SIZE + PAGE_SIZE) (length m) - unat i * PAGE_SIZE"
    and rec: "apply_pages z (write_slice m (unat i * PAGE_SIZE) d) rest = Inr r"
    by (auto simp: Let_def split: if_splits option.splits)
  have "length (write_slice m (unat i * PAGE_SIZE) d) = length m"
    by (rule length_write_slice) (use d in auto)
  with "2.IH" [OF refl refl _ d(1) _ rec] d show ?case by (auto simp: page_ok_def)
qed simp

subsection \<open>Computing dirty pages\<close>

definition page_at :: "bytes \<Rightarrow> nat \<Rightarrow> bytes" where
  "page_at m p = slice m (p * PAGE_SIZE) (min (p * PAGE_SIZE + PAGE_SIZE) (length m))"

text \<open>Page indices fit in the \<open>u32\<close> keys up to 16 TiB; WASM memories end at 4 GiB.\<close>

definition addressable :: "bytes \<Rightarrow> bool" where
  "addressable m \<longleftrightarrow> length m \<le> PAGE_SIZE * 2 ^ 32"

definition dirty_list :: "zstd_env \<Rightarrow> bytes \<Rightarrow> bytes \<Rightarrow> nat list \<Rightarrow> (u32, bytes) hashmap" where
  "dirty_list z base cur ps = map (\<lambda>p. (word_of_nat p, the (copy_encode z 3 (page_at cur p))))
     (filter (\<lambda>p. page_at base p \<noteq> page_at cur p) ps)"

lemma unat_u32_of_nat: "q < 2 ^ 32 \<Longrightarrow> unat (word_of_nat q :: u32) = q"
  by (simp add: unat_of_nat take_bit_nat_eq_self)

lemma u32_of_nat_inj: "p < 2 ^ 32 \<Longrightarrow> q < 2 ^ 32 \<Longrightarrow> (word_of_nat p :: u32) = word_of_nat q \<longleftrightarrow> p = q"
  by (metis unat_u32_of_nat)

lemma dirty_loop_eq:
  assumes "length base = length cur" and "distinct ps" and "\<forall>p \<in> set ps. p < 2 ^ 32"
    and "\<forall>p \<in> set ps. hm_get d (word_of_nat p) = None"
  shows "dirty_loop z base cur ps d = Inr r \<longleftrightarrow> r = d @ dirty_list z base cur ps
    \<and> (\<forall>p \<in> set ps. page_at base p \<noteq> page_at cur p \<longrightarrow> copy_encode z 3 (page_at cur p) \<noteq> None)"
  using assms(2-)
proof (induction ps arbitrary: d)
  case (Cons p ps)
  let ?dirty = "page_at base p \<noteq> page_at cur p"
  have step: "dirty_loop z base cur (p # ps) d =
      (if ?dirty then (case copy_encode z 3 (page_at cur p) of
          None \<Rightarrow> Inl (SerializationError ''page compression failed: {e}'')
        | Some c \<Rightarrow> dirty_loop z base cur ps (d @ [(word_of_nat p, c)]))
       else dirty_loop z base cur ps d)"
    using assms(1) Cons.prems(3)
    by (simp add: Let_def page_at_def hm_insert_fresh split: option.split)
  have ne: "(word_of_nat q :: u32) \<noteq> word_of_nat p" if "q \<in> set ps" for q
    using that Cons.prems(1,2) u32_of_nat_inj [of q p] by auto
  have fresh: "\<forall>q \<in> set ps. hm_get (d @ [(word_of_nat p, c)]) (word_of_nat q) = None" for c
    using Cons.prems(3) ne by (simp add: map_add_def)
  have prems: "distinct ps" "\<forall>p \<in> set ps. p < 2 ^ 32" "\<forall>q \<in> set ps. hm_get d (word_of_nat q) = None"
    using Cons.prems by auto
  show ?case
  proof (cases ?dirty)
    case False
    with Cons.IH [OF prems] show ?thesis unfolding step by (simp add: dirty_list_def)
  next
    case True
    show ?thesis
    proof (cases "copy_encode z 3 (page_at cur p)")
      case (Some c)
      with True Cons.IH [OF prems(1,2) fresh, of c] show ?thesis unfolding step
        by (simp add: dirty_list_def)
    qed (use True in \<open>unfold step, simp\<close>)
  qed
qed (auto simp: dirty_list_def)

definition page_list :: "bytes \<Rightarrow> nat list" where
  "page_list m = [0..<div_ceil (length m) PAGE_SIZE]"

lemma page_list_iff: "p \<in> set (page_list m) \<longleftrightarrow> p * PAGE_SIZE < length m"
  by (simp add: page_list_def less_div_ceil)

lemma page_list_bound: "addressable m \<Longrightarrow> p \<in> set (page_list m) \<Longrightarrow> p < 2 ^ 32"
  by (auto simp: page_list_iff addressable_def PAGE_SIZE_def)

lemma compute_dirty_ok_iff:
  assumes "addressable base"
  shows "compute_dirty_pages z base cur = Inr r \<longleftrightarrow> length base = length cur
    \<and> r = dirty_list z base cur (page_list base)
    \<and> (\<forall>p \<in> set (page_list base). page_at base p \<noteq> page_at cur p \<longrightarrow>
         copy_encode z 3 (page_at cur p) \<noteq> None)"
  using dirty_loop_eq [of base cur "page_list base" "[]" z r] page_list_bound [OF assms]
  by (auto simp: compute_dirty_pages_def page_list_def)

lemma dirty_list_wf: "addressable m \<Longrightarrow> hm_wf (dirty_list z base cur (page_list m))"
proof -
  assume "addressable m"
  then have "inj_on (word_of_nat :: nat \<Rightarrow> u32) (set (page_list m))"
    by (intro inj_onI) (metis page_list_bound u32_of_nat_inj)
  moreover have "distinct (page_list m)" by (simp add: page_list_def)
  ultimately show ?thesis
    by (auto simp: dirty_list_def comp_def distinct_map intro: inj_on_subset)
qed

lemma length_page_at: "p * PAGE_SIZE < length m \<Longrightarrow>
    length (page_at m p) = min (p * PAGE_SIZE + PAGE_SIZE) (length m) - p * PAGE_SIZE"
  by (simp add: page_at_def)

lemma nth_page_at:
  assumes "j < length m"
  shows "page_at m (j div PAGE_SIZE) ! (j mod PAGE_SIZE) = m ! j"
proof -
  have "j div PAGE_SIZE * PAGE_SIZE + j mod PAGE_SIZE = j" by (rule div_mult_mod_eq)
  moreover have "j mod PAGE_SIZE < PAGE_SIZE" by simp
  ultimately have "j mod PAGE_SIZE < min (j div PAGE_SIZE * PAGE_SIZE + PAGE_SIZE) (length m)
      - j div PAGE_SIZE * PAGE_SIZE"
    using assms by (simp only: less_diff_conv min_less_iff_conj) linarith
  then show ?thesis using assms \<open>j div PAGE_SIZE * PAGE_SIZE + j mod PAGE_SIZE = j\<close>
    unfolding page_at_def by (subst nth_slice) simp_all
qed

lemma dirty_overlay:
  assumes z: "zstd_ok z" and len: "length base = length cur" and adr: "addressable base"
    and enc: "\<forall>p \<in> set (page_list base). page_at base p \<noteq> page_at cur p \<longrightarrow>
      copy_encode z 3 (page_at cur p) \<noteq> None"
    and ps: "hm_wf ps" "set ps = set (dirty_list z base cur (page_list base))"
  shows "apply_pages z base ps = Inr cur"
proof -
  have mem: "(i, c) \<in> set ps \<longleftrightarrow> unat i * PAGE_SIZE < length base
      \<and> page_at base (unat i) \<noteq> page_at cur (unat i)
      \<and> copy_encode z 3 (page_at cur (unat i)) = Some c" for i c
    using enc page_list_bound [OF adr]
    by (force simp: ps(2) dirty_list_def unat_u32_of_nat page_list_iff [symmetric]
        image_iff intro!: bexI [of _ "unat i"])
  then have "\<forall>p \<in> set ps. page_ok z (length base) p"
    using z len length_page_at [of _ cur] by (fastforce simp: page_ok_def zstd_ok_def)
  note ap = apply_pages_overlay [OF ps(1) this]
  have "overlay z ps base = cur"
  proof (rule nth_equalityI)
    fix j assume "j < length (overlay z ps base)"
    then have j: "j < length base" by simp
    let ?p = "j div PAGE_SIZE"
    have pj: "?p * PAGE_SIZE < length base"
      using j div_mult_mod_eq [of j PAGE_SIZE] by linarith
    then have "?p < 2 ^ 32" using page_list_bound [OF adr, of ?p] by (simp add: page_list_iff)
    show "overlay z ps base ! j = cur ! j"
    proof (cases "page_of ps ?p")
      case None
      have "page_at base ?p = page_at cur ?p"
      proof (rule ccontr)
        assume ne: "page_at base ?p \<noteq> page_at cur ?p"
        with enc pj obtain c where "copy_encode z 3 (page_at cur ?p) = Some c"
          by (auto simp: page_list_iff)
        with ne pj have "(word_of_nat ?p, c) \<in> set ps" using \<open>?p < 2 ^ 32\<close> by (simp add: mem unat_u32_of_nat)
        with None page_of_Some [OF ps(1), of ?p c] unat_u32_of_nat [OF \<open>?p < 2 ^ 32\<close>] show False
          by auto
      qed
      with None j len nth_page_at [of j base] nth_page_at [of j cur] show ?thesis
        by (simp add: nth_overlay)
    next
      case (Some c)
      then have "copy_decode z c = Some (page_at cur ?p)"
        using page_of_Some [OF ps(1), of ?p c] mem z by (auto simp: zstd_ok_def)
      with Some j len nth_page_at [of j cur] show ?thesis by (simp add: nth_overlay)
    qed
  qed (simp add: len)
  with ap show ?thesis by simp
qed

text \<open>A diff whose pages, in whatever order the hash map lists them, were computed from the given
  base to the given memory.\<close>

definition diff_of :: "zstd_env \<Rightarrow> bytes \<Rightarrow> bytes \<Rightarrow> diff_snapshot \<Rightarrow> bool" where
  "diff_of z base cur d \<longleftrightarrow> (\<exists>pages. compute_dirty_pages z base cur = Inr pages
     \<and> hm_wf (dirty_pages d) \<and> set (dirty_pages d) = set pages
     \<and> total_memory_size d = length cur)"

lemma apply_diff_of:
  assumes "zstd_ok z" and "addressable base" and "diff_of z base cur d"
  shows "apply_diff z base d = Inr cur"
  using assms dirty_overlay [OF assms(1) _ assms(2)]
  by (auto simp: diff_of_def compute_dirty_ok_iff apply_diff_def)

lemma diff_new_diff_of:
  assumes "diff_new z now i b base cur es md g = Inr d" and "addressable base"
  shows "diff_of z base cur d"
  using assms dirty_list_wf [OF assms(2)]
  by (auto simp: diff_new_def diff_of_def compute_dirty_ok_iff split: sum.splits)

subsection \<open>Properties\<close>

text \<open>
  C11: A diff reconstructs exactly the memory it was taken from: applying to the base the dirty
  pages computed between base and current memory succeeds and yields the current memory, whatever
  order the hash map lists the pages in.
\<close>

theorem diff_roundtrip:
  assumes "zstd_ok z" and "addressable base"
    and "diff_new z now i b base cur es md g = Inr d"
    and "hm_wf pages" and "set pages = set (dirty_pages d)"
  shows "apply_diff z base (d\<lparr>dirty_pages := pages\<rparr>) = Inr cur"
proof (rule apply_diff_of [OF assms(1,2)])
  show "diff_of z base cur (d\<lparr>dirty_pages := pages\<rparr>)"
    using diff_new_diff_of [OF assms(3,2)] assms(4,5) by (auto simp: diff_of_def)
qed

definition demo_diff :: diff_snapshot where
  "demo_diff = \<lparr>diff_id = 9, base_id = 1, diff_timestamp = 5, dirty_pages = [(0, [1, 7, 3])],
     dirty_count = 1, total_memory_size = 3,
     diff_execution_state = \<lparr>captured_globals = [], captured_tables = []\<rparr>,
     diff_metadata = metadata_new ''op'' ''h'', generation = 1\<rparr>"

lemma demo_diff_new:
  "diff_new id_zstd 5 9 1 [1, 2, 3] [1, 7, 3] \<lparr>captured_globals = [], captured_tables = []\<rparr>
     (metadata_new ''op'' ''h'') 1 = Inr demo_diff"
  by (simp add: diff_new_def demo_diff_def compute_dirty_pages_def div_ceil_def PAGE_SIZE_def slice_def)

theorem diff_roundtrip_witness: "apply_diff id_zstd [1, 2, 3] demo_diff = Inr [1, 7, 3]"
  using diff_roundtrip [OF _ _ demo_diff_new, of "dirty_pages demo_diff"]
  by (simp add: addressable_def PAGE_SIZE_def) (simp add: demo_diff_def)

text \<open>
  A chain of ds, each taken from the memory before it, replays to the last memory of the
  chain.
\<close>

lemma diff_chain_roundtrip:
  assumes "zstd_ok z" and "addressable m0" and "length mems = length ds"
    and "\<And>k. k < length ds \<Longrightarrow> diff_of z ((m0 # mems) ! k) (mems ! k) (ds ! k)"
  shows "apply_diff_chain z m0 ds = Inr (last (m0 # mems))"
  using assms(2-)
proof (induction ds arbitrary: m0 mems)
  case (Cons d ds)
  then obtain m mems' where mems: "mems = m # mems'" by (cases mems) auto
  have d: "diff_of z m0 m d" using Cons.prems(3) [of 0] mems by simp
  then have "addressable m"
    using Cons.prems(1) by (auto simp: diff_of_def compute_dirty_pages_def addressable_def split: if_splits)
  moreover have "diff_of z ((m # mems') ! k) (mems' ! k) (ds ! k)" if "k < length ds" for k
    using Cons.prems(3) [of "Suc k"] that mems by simp
  ultimately have "apply_diff_chain z m ds = Inr (last (m # mems'))"
    using Cons.IH [of m mems'] Cons.prems(2) mems by simp
  then show ?case using apply_diff_of [OF assms(1) Cons.prems(1) d] mems by simp
qed simp

text \<open>
  The result of applying a diff does not depend on the order in which the hash map lists its
  pages: two listings of the same pages are both rejected or give the same memory.
\<close>

lemma apply_diff_order_independent:
  assumes "hm_wf (dirty_pages d)" and "hm_wf pages" and "set pages = set (dirty_pages d)"
  shows "(\<exists>r. apply_diff z m d = Inr r \<and> apply_diff z m (d\<lparr>dirty_pages := pages\<rparr>) = Inr r)
    \<or> (isl (apply_diff z m d) \<and> isl (apply_diff z m (d\<lparr>dirty_pages := pages\<rparr>)))"
proof (cases "\<forall>p \<in> set pages. page_ok z (length m) p")
  case True
  have "overlay z pages m = overlay z (dirty_pages d) m"
    using page_of_same [OF assms(2,1,3)] by (simp add: overlay_def)
  with True show ?thesis
    using apply_pages_overlay [OF assms(1), of z m] apply_pages_overlay [OF assms(2), of z m] assms(3)
    by (auto simp: apply_diff_def)
next
  case False
  then have "isl (apply_pages z m qs)" if "set qs = set pages" for qs
    using that apply_pages_ok [of z m qs] by (cases "apply_pages z m qs") auto
  then show ?thesis using assms(3) by (auto simp: apply_diff_def)
qed

text \<open>
  A diff stores only what changed: it holds exactly one page for every page on which base
  and current memory differ, and its \<open>dirty_count\<close> is that number.
\<close>

lemma diff_minimal:
  assumes "addressable base" and "diff_new z now i b base cur es md g = Inr d"
  shows "length base = length cur
    \<and> unat ` fst ` set (dirty_pages d) = {p. p * PAGE_SIZE < length base \<and> page_at base p \<noteq> page_at cur p}
    \<and> distinct (map fst (dirty_pages d)) \<and> dirty_count d = word_of_nat (length (dirty_pages d))"
proof -
  obtain pages where c: "compute_dirty_pages z base cur = Inr pages" "dirty_pages d = pages"
      "dirty_count d = word_of_nat (length pages)"
    using assms(2) by (auto simp: diff_new_def split: sum.splits)
  then have pages: "pages = dirty_list z base cur (page_list base)" and "length base = length cur"
    using compute_dirty_ok_iff [OF assms(1)] by auto
  moreover have "unat ` fst ` set pages = {p. p * PAGE_SIZE < length base \<and> page_at base p \<noteq> page_at cur p}"
    using page_list_bound [OF assms(1)]
    by (force simp: pages dirty_list_def page_list_iff [symmetric] unat_u32_of_nat)
  ultimately show ?thesis using c dirty_list_wf [OF assms(1)] by simp
qed

end
