(* ===== verification/Snapshot_Manager.thy ===== *)
theory Snapshot_Manager
  imports Differential
begin

text \<open>
  Snapshots, the ring buffer and the snapshot manager, \<open>src/src/snapshot/manager.rs\<close>.

  The crates the file calls are parameters in \<open>snap_env\<close>: zstd, SHA-256 (as lower-case hex),
  bincode on snapshots and the display form of a UUID. What one call reads from its surroundings (clock, fresh UUID, elapsed time, outcome
  of a file write) is the record \<open>call_env\<close>. The persistence directory is a map from paths to file
  contents. Each operation is one atomic step: the code takes its locks one after the other within
  a call and the model has no interleaving between two calls.
\<close>

subsection \<open>Filesystem changes\<close>

record file_change =
  fc_path :: string
  fc_content :: bytes
  fc_old_content :: "bytes option"

record filesystem_diff =
  created :: "file_change list"
  modified :: "file_change list"
  deleted :: "string list"
  dirs_created :: "string list"
  dirs_deleted :: "string list"

datatype revert_operation =
    Create string bytes
  | CreateDir string
  | Overwrite string bytes
  | Delete string
  | Restore string

definition fs_new :: filesystem_diff where
  "fs_new = \<lparr>created = [], modified = [], deleted = [], dirs_created = [], dirs_deleted = []\<rparr>"

definition record_create :: "string \<Rightarrow> bytes \<Rightarrow> filesystem_diff \<Rightarrow> filesystem_diff" where
  "record_create p content d =
     d\<lparr>created := created d @ [\<lparr>fc_path = p, fc_content = content, fc_old_content = None\<rparr>]\<rparr>"

definition record_modify :: "string \<Rightarrow> bytes \<Rightarrow> bytes \<Rightarrow> filesystem_diff \<Rightarrow> filesystem_diff" where
  "record_modify p new_content old d =
     d\<lparr>modified := modified d
         @ [\<lparr>fc_path = p, fc_content = new_content, fc_old_content = Some old\<rparr>]\<rparr>"

definition record_delete :: "string \<Rightarrow> filesystem_diff \<Rightarrow> filesystem_diff" where
  "record_delete p d = d\<lparr>deleted := deleted d @ [p]\<rparr>"

definition fs_revert :: "filesystem_diff \<Rightarrow> revert_operation list" where
  "fs_revert d =
     map Restore (deleted d)
     @ concat (map (\<lambda>c. case fc_old_content c of
                          Some old \<Rightarrow> [Overwrite (fc_path c) old]
                        | None \<Rightarrow> []) (modified d))
     @ map (\<lambda>c. Delete (fc_path c)) (created d)"

definition fs_apply :: "filesystem_diff \<Rightarrow> revert_operation list" where
  "fs_apply d =
     map CreateDir (dirs_created d)
     @ map (\<lambda>c. Create (fc_path c) (fc_content c)) (created d)
     @ map (\<lambda>c. Overwrite (fc_path c) (fc_content c)) (modified d)
     @ map Delete (deleted d)"

subsection \<open>Snapshots\<close>

record snapshot =
  snap_id :: uuid
  snap_timestamp :: time
  memory :: bytes
  memory_checksum :: string
  fs_changes :: filesystem_diff
  snap_execution_state :: execution_state
  metadata :: snapshot_metadata
  original_size :: nat
  compressed_size :: nat

record snap_env =
  zstd :: zstd_env
  sha256_hex :: "bytes \<Rightarrow> string"
  bincode_serialize :: "snapshot \<Rightarrow> bytes option"
  bincode_deserialize :: "bytes \<Rightarrow> snapshot option"
  uuid_display :: "uuid \<Rightarrow> string"

record call_env =
  ce_now :: time
  ce_id :: uuid
  ce_elapsed_us :: u64
  ce_write_ok :: bool

definition snapshot_new ::
  "snap_env \<Rightarrow> call_env \<Rightarrow> bytes \<Rightarrow> filesystem_diff \<Rightarrow> execution_state \<Rightarrow> snapshot_metadata
   \<Rightarrow> snapshot result" where
  "snapshot_new env ce mem fs es md =
     (case copy_encode (zstd env) 3 mem of
        None \<Rightarrow> Inl (SerializationError ''compression failed: {e}'')
      | Some compressed \<Rightarrow>
          Inr \<lparr>snap_id = ce_id ce, snap_timestamp = ce_now ce, memory = compressed,
               memory_checksum = sha256_hex env mem, fs_changes = fs, snap_execution_state = es,
               metadata = md, original_size = length mem, compressed_size = length compressed\<rparr>)"

definition snapshot_verify :: "snap_env \<Rightarrow> snapshot \<Rightarrow> bytes \<Rightarrow> bool" where
  "snapshot_verify env s mem = (sha256_hex env mem = memory_checksum s)"

definition decompress_memory :: "snap_env \<Rightarrow> snapshot \<Rightarrow> bytes result" where
  "decompress_memory env s =
     (case copy_decode (zstd env) (memory s) of
        None \<Rightarrow> Inl (SerializationError ''Failed to decompress: {}'')
      | Some d \<Rightarrow> Inr d)"

subsection \<open>The ring buffer\<close>

record ring_buffer =
  rb_capacity :: nat
  rb_snapshots :: "snapshot list"
  rb_index :: "(uuid, nat) hashmap"

definition ring_new :: "nat \<Rightarrow> ring_buffer" where
  "ring_new cap = \<lparr>rb_capacity = cap, rb_snapshots = [], rb_index = []\<rparr>"

definition reindex :: "snapshot list \<Rightarrow> (uuid, nat) hashmap" where
  "reindex ss = fold (\<lambda>(i, s) ix. hm_insert (snap_id s) i ix) (enumerate 0 ss) []"

definition ring_push :: "snapshot \<Rightarrow> ring_buffer \<Rightarrow> ring_buffer" where
  "ring_push s r =
     (let r = (if rb_capacity r \<le> length (rb_snapshots r)
               then let rest = tl (rb_snapshots r)
                    in r\<lparr>rb_snapshots := rest, rb_index := reindex rest\<rparr>
               else r);
          pos = length (rb_snapshots r)
      in r\<lparr>rb_snapshots := rb_snapshots r @ [s], rb_index := hm_insert (snap_id s) pos (rb_index r)\<rparr>)"

definition ring_get :: "ring_buffer \<Rightarrow> uuid \<Rightarrow> snapshot option" where
  "ring_get r i =
     (case hm_get (rb_index r) i of
        None \<Rightarrow> None
      | Some k \<Rightarrow> (if k < length (rb_snapshots r) then Some (rb_snapshots r ! k) else None))"

definition ring_latest :: "ring_buffer \<Rightarrow> snapshot option" where
  "ring_latest r = (if rb_snapshots r = [] then None else Some (last (rb_snapshots r)))"

definition ring_clear :: "ring_buffer \<Rightarrow> ring_buffer" where
  "ring_clear r = r\<lparr>rb_snapshots := [], rb_index := []\<rparr>"

subsection \<open>The manager\<close>

definition DEFAULT_MAX_DIFF_DEPTH :: u32 where
  "DEFAULT_MAX_DIFF_DEPTH = 8"

record snapshot_stats =
  total_snapshots :: u64
  total_rollbacks :: u64
  total_memory_saved_mb :: f64
  avg_compression_ratio :: f64
  last_snapshot_time_us :: u64

record snapshot_manager =
  buffer :: ring_buffer
  diff_buffer :: "diff_snapshot list"
  max_diff_depth :: u32
  persist_enabled :: bool
  persist_dir :: "string option"
  stats :: snapshot_stats

record rollback_result =
  rr_snapshot_id :: uuid
  rr_memory :: bytes
  rr_execution_state :: execution_state
  rr_fs_operations :: "revert_operation list"
  rr_timestamp :: time

datatype diff_snapshot_result = DiffCreated diff_snapshot | Promoted snapshot

type_synonym disk = "(string, bytes) hashmap"

definition default_stats :: snapshot_stats where
  "default_stats = \<lparr>total_snapshots = 0, total_rollbacks = 0, total_memory_saved_mb = Fin 0,
     avg_compression_ratio = Fin 0,
     last_snapshot_time_us = 0\<rparr>"

definition sm_new :: "nat \<Rightarrow> snapshot_manager" where
  "sm_new cap = \<lparr>buffer = ring_new cap, diff_buffer = [], max_diff_depth = DEFAULT_MAX_DIFF_DEPTH,
     persist_enabled = False, persist_dir = None, stats = default_stats\<rparr>"

definition sm_with_persistence :: "nat \<Rightarrow> string \<Rightarrow> snapshot_manager" where
  "sm_with_persistence cap dir =
     \<lparr>buffer = ring_new cap, diff_buffer = [], max_diff_depth = DEFAULT_MAX_DIFF_DEPTH,
      persist_enabled = True, persist_dir = Some dir, stats = default_stats\<rparr>"

definition sm_with_max_diff_depth :: "nat \<Rightarrow> u32 \<Rightarrow> snapshot_manager" where
  "sm_with_max_diff_depth cap depth =
     \<lparr>buffer = ring_new cap, diff_buffer = [], max_diff_depth = depth,
      persist_enabled = False, persist_dir = None, stats = default_stats\<rparr>"

text \<open>\<open>dir.join(format!("{}.snap", id))\<close>.\<close>

definition snapshot_path :: "snap_env \<Rightarrow> string \<Rightarrow> uuid \<Rightarrow> string" where
  "snapshot_path env dir i =
     (if dir = [] \<or> last dir = CHR ''/'' then dir else dir @ ''/'') @ uuid_display env i @ ''.snap''"

definition persist_snapshot ::
  "snap_env \<Rightarrow> call_env \<Rightarrow> snapshot_manager \<Rightarrow> snapshot \<Rightarrow> disk \<Rightarrow> unit result \<times> disk" where
  "persist_snapshot env ce m s disk =
     (case persist_dir m of
        None \<Rightarrow> (Inl (ConfigError ''No persistence directory set''), disk)
      | Some dir \<Rightarrow>
          (case bincode_serialize env s of
             None \<Rightarrow> (Inl (SerializationError ''Failed to serialize: {}''), disk)
           | Some bs \<Rightarrow>
               (if ce_write_ok ce then (Inr (), hm_insert (snapshot_path env dir (snap_id s)) bs disk)
                else (Inl (FilesystemError ''Failed to write: {}''), disk))))"

definition MAX_SNAPSHOT_BYTES :: nat where
  "MAX_SNAPSHOT_BYTES = 256 * 1024 * 1024"

definition load_snapshot ::
  "snap_env \<Rightarrow> snapshot_manager \<Rightarrow> uuid \<Rightarrow> bool \<Rightarrow> disk \<Rightarrow> snapshot option result" where
  "load_snapshot env m i read_ok disk =
     (case persist_dir m of
        None \<Rightarrow> Inl (ConfigError ''No persistence directory set'')
      | Some dir \<Rightarrow>
          (case hm_get disk (snapshot_path env dir i) of
             None \<Rightarrow> Inr None
           | Some bs \<Rightarrow>
               (if \<not> read_ok then Inl (FilesystemError ''Failed to read: {}'')
                else if MAX_SNAPSHOT_BYTES < length bs
                then Inl (SerializationError ''snapshot file too large ({} bytes; max {MAX_SNAPSHOT_BYTES})'')
                else case bincode_deserialize env bs of
                  None \<Rightarrow> Inl (SerializationError ''Failed to deserialize: {}'')
                | Some s \<Rightarrow> Inr (Some s))))"

definition snapshot_compression_ratio :: "snapshot \<Rightarrow> f64" where
  "snapshot_compression_ratio s = compression_ratio (original_size s) (compressed_size s)"

definition count_snapshot :: "u64 \<Rightarrow> snapshot \<Rightarrow> snapshot_stats \<Rightarrow> snapshot_stats" where
  "count_snapshot elapsed_us s st =
     (let n = total_snapshots st + 1
      in st\<lparr>total_snapshots := n,
            total_memory_saved_mb := f64_add (total_memory_saved_mb st)
              (f64_div (nat_as_f64 (original_size s - compressed_size s)) (Fin 1048576)),
            avg_compression_ratio := f64_div
              (f64_add (f64_mul (avg_compression_ratio st) (u64_as_f64 (n - 1))) (snapshot_compression_ratio s))
              (u64_as_f64 n),
            last_snapshot_time_us := elapsed_us\<rparr>)"

definition create_snapshot ::
  "snap_env \<Rightarrow> call_env \<Rightarrow> bytes \<Rightarrow> filesystem_diff \<Rightarrow> execution_state \<Rightarrow> snapshot_metadata
   \<Rightarrow> snapshot_manager \<Rightarrow> disk \<Rightarrow> snapshot result \<times> snapshot_manager \<times> disk" where
  "create_snapshot env ce mem fs es md m disk =
     (case snapshot_new env ce mem fs es md of
        Inl e \<Rightarrow> (Inl e, m, disk)
      | Inr s \<Rightarrow>
          (let m' = m\<lparr>stats := count_snapshot (ce_elapsed_us ce) s (stats m),
                     buffer := ring_push s (buffer m)\<rparr>
           in if persist_enabled m'
              then (case persist_snapshot env ce m' s disk of
                      (Inl e, disk') \<Rightarrow> (Inl e, m', disk')
                    | (Inr _, disk') \<Rightarrow> (Inr s, m', disk'))
              else (Inr s, m', disk)))"

definition count_rollback :: "snapshot_manager \<Rightarrow> snapshot_manager" where
  "count_rollback m = m\<lparr>stats := (stats m)\<lparr>total_rollbacks := total_rollbacks (stats m) + 1\<rparr>\<rparr>"

definition rollback_to ::
  "snap_env \<Rightarrow> time \<Rightarrow> uuid \<Rightarrow> snapshot_manager \<Rightarrow> rollback_result result \<times> snapshot_manager" where
  "rollback_to env now i m =
     (case ring_get (buffer m) i of
        None \<Rightarrow> (Inl (RollbackFailed ''Snapshot {} not found''), m)
      | Some s \<Rightarrow>
          (case decompress_memory env s of
             Inl e \<Rightarrow> (Inl e, m)
           | Inr mem \<Rightarrow>
               (Inr \<lparr>rr_snapshot_id = i, rr_memory = mem, rr_execution_state = snap_execution_state s,
                     rr_fs_operations = fs_revert (fs_changes s), rr_timestamp = now\<rparr>,
                count_rollback m)))"

definition find_diff :: "diff_snapshot list \<Rightarrow> uuid \<Rightarrow> diff_snapshot option" where
  "find_diff ds i = find (\<lambda>d. diff_id d = i) ds"

text \<open>The loop that collects the diffs from a target back to a full snapshot, target first. It is
  the same in \<open>rollback_to_diff\<close> and \<open>reconstruct_memory_for\<close> but for its error message.\<close>

partial_function (option) collect_chain ::
  "string \<Rightarrow> ring_buffer \<Rightarrow> diff_snapshot list \<Rightarrow> uuid \<Rightarrow> diff_snapshot list
   \<Rightarrow> (diff_snapshot list \<times> uuid) result option" where
  "collect_chain msg rb ds current_base chain =
     (if ring_get rb current_base \<noteq> None then Some (Inr (chain, current_base))
      else case find_diff ds current_base of
        None \<Rightarrow> Some (Inl (RollbackFailed msg))
      | Some parent \<Rightarrow> collect_chain msg rb ds (base_id parent) (chain @ [parent]))"

text \<open>The steps after the loop: decompress the full snapshot and replay the chain, oldest first.\<close>

definition replay_chain ::
  "snap_env \<Rightarrow> string \<Rightarrow> ring_buffer \<Rightarrow> uuid \<Rightarrow> diff_snapshot list \<Rightarrow> bytes result" where
  "replay_chain env msg rb base chain =
     (case ring_get rb base of
        None \<Rightarrow> Inl (RollbackFailed msg)
      | Some s \<Rightarrow>
          (case decompress_memory env s of
             Inl e \<Rightarrow> Inl e
           | Inr base_memory \<Rightarrow> apply_diff_chain (zstd env) base_memory (rev chain)))"

definition reconstruct_memory_for ::
  "snap_env \<Rightarrow> snapshot_manager \<Rightarrow> uuid \<Rightarrow> bytes result option" where
  "reconstruct_memory_for env m i =
     (case ring_get (buffer m) i of
        Some s \<Rightarrow> Some (decompress_memory env s)
      | None \<Rightarrow>
          (case find_diff (diff_buffer m) i of
             None \<Rightarrow> Some (Inl (RollbackFailed ''Snapshot {} not found in any buffer''))
           | Some target \<Rightarrow>
               (case collect_chain ''Diff chain broken at {}'' (buffer m) (diff_buffer m)
                       (base_id target) [target] of
                  None \<Rightarrow> None
                | Some (Inl e) \<Rightarrow> Some (Inl e)
                | Some (Inr (chain, base)) \<Rightarrow>
                    Some (replay_chain env
                      ''base snapshot {current_base} was evicted before diff reconstruction completed''
                      (buffer m) base chain))))"

definition create_diff_snapshot ::
  "snap_env \<Rightarrow> call_env \<Rightarrow> bytes \<Rightarrow> uuid \<Rightarrow> execution_state \<Rightarrow> snapshot_metadata \<Rightarrow> snapshot_manager
   \<Rightarrow> disk \<Rightarrow> (diff_snapshot_result result \<times> snapshot_manager \<times> disk) option" where
  "create_diff_snapshot env ce current_memory base es md m disk =
     (let gen = (case find_diff (diff_buffer m) base of Some d \<Rightarrow> generation d + 1 | None \<Rightarrow> 1)
      in if max_diff_depth m < gen
         then (case create_snapshot env ce current_memory fs_new es md m disk of
                 (Inl e, m', disk') \<Rightarrow> Some (Inl e, m', disk')
               | (Inr full, m', disk') \<Rightarrow> Some (Inr (Promoted full), m', disk'))
         else case reconstruct_memory_for env m base of
           None \<Rightarrow> None
         | Some (Inl e) \<Rightarrow> Some (Inl e, m, disk)
         | Some (Inr base_memory) \<Rightarrow>
             (case diff_new (zstd env) (ce_now ce) (ce_id ce) base base_memory current_memory es md gen of
                Inl e \<Rightarrow> Some (Inl e, m, disk)
              | Inr diff \<Rightarrow>
                  Some (Inr (DiffCreated diff), m\<lparr>diff_buffer := diff_buffer m @ [diff]\<rparr>, disk)))"

definition rollback_to_diff ::
  "snap_env \<Rightarrow> time \<Rightarrow> uuid \<Rightarrow> snapshot_manager
   \<Rightarrow> (rollback_result result \<times> snapshot_manager) option" where
  "rollback_to_diff env now i m =
     (case find_diff (diff_buffer m) i of
        None \<Rightarrow> Some (Inl (RollbackFailed ''Diff snapshot {} not found''), m)
      | Some target \<Rightarrow>
          (case collect_chain ''Diff chain broken: cannot find snapshot {}'' (buffer m)
                  (diff_buffer m) (base_id target) [target] of
             None \<Rightarrow> None
           | Some (Inl e) \<Rightarrow> Some (Inl e, m)
           | Some (Inr (chain, base)) \<Rightarrow>
               (case replay_chain env ''Base snapshot {} not found'' (buffer m) base chain of
                  Inl e \<Rightarrow> Some (Inl e, m)
                | Inr mem \<Rightarrow>
                    Some (Inr \<lparr>rr_snapshot_id = i, rr_memory = mem,
                               rr_execution_state = diff_execution_state target,
                               rr_fs_operations = [], rr_timestamp = now\<rparr>,
                          count_rollback m))))"

definition snapshot_content_digest :: "snapshot_manager \<Rightarrow> uuid \<Rightarrow> string option" where
  "snapshot_content_digest m i = map_option memory_checksum (ring_get (buffer m) i)"

subsection \<open>Restoring a live instance\<close>

text \<open>\<open>wasmtime::Memory\<close> is its bytes; \<open>Memory::grow\<close>, which may refuse, is the parameter \<open>grow\<close>.\<close>

definition restore_memory :: "(bytes \<Rightarrow> nat \<Rightarrow> bytes option) \<Rightarrow> bytes \<Rightarrow> bytes \<Rightarrow> bytes result" where
  "restore_memory grow mem bs =
     (if length mem < length bs
      then (case grow mem (div_ceil (length bs - length mem) 65536) of
              None \<Rightarrow> Inl (RollbackFailed ''memory grow failed: {e}'')
            | Some mem' \<Rightarrow> Inr (write_slice mem' 0 bs))
      else Inr (write_slice mem 0 bs))"

datatype wasm_val = ValI32 u32 | ValI64 u64 | ValF32 u32 | ValF64 u64

fun val_of_global :: "global_value \<Rightarrow> wasm_val" where
  "val_of_global (I32 v) = ValI32 v"
| "val_of_global (I64 v) = ValI64 v"
| "val_of_global (F32 v) = ValF32 v"
| "val_of_global (F64 v) = ValF64 v"

text \<open>An instance's exported globals by name; \<open>Global::set\<close> is the parameter \<open>gset\<close>.\<close>

fun restore_globals ::
  "('g \<Rightarrow> wasm_val \<Rightarrow> 'g option) \<Rightarrow> global_snapshot list \<Rightarrow> (string, 'g) hashmap
   \<Rightarrow> unit result \<times> (string, 'g) hashmap" where
  "restore_globals gset [] inst = (Inr (), inst)"
| "restore_globals gset (snap # rest) inst =
     (if \<not> gs_mutable snap then restore_globals gset rest inst
      else case hm_get inst (gs_name snap) of
        None \<Rightarrow> restore_globals gset rest inst
      | Some g \<Rightarrow>
          (case gset g (val_of_global (gs_value snap)) of
             None \<Rightarrow> (Inl (RollbackFailed ''failed to restore global '{}': {e}''), inst)
           | Some g' \<Rightarrow> restore_globals gset rest (hm_insert (gs_name snap) g' inst)))"

end
