(* ===== verification/Snapshot_Store.thy ===== *)
theory Snapshot_Store
  imports Snapshot_Manager
begin

text \<open>
  Correctness of the snapshot manager against an abstract store. The store records, for every id
  ever handed out, the memory and execution state it was created from; the manager may forget
  (eviction from the ring breaks diff chains) but never answers with anything else.
\<close>

subsection \<open>The ring buffer\<close>

definition ring_inv :: "ring_buffer \<Rightarrow> bool" where
  "ring_inv r \<longleftrightarrow> distinct (map snap_id (rb_snapshots r))
     \<and> length (rb_snapshots r) \<le> max 1 (rb_capacity r)
     \<and> (\<forall>i k. hm_get (rb_index r) i = Some k \<longleftrightarrow>
          k < length (rb_snapshots r) \<and> snap_id (rb_snapshots r ! k) = i)"

lemma reindex_snoc: "reindex (ss @ [s]) = hm_insert (snap_id s) (length ss) (reindex ss)"
  by (simp add: reindex_def enumerate_append_eq)

lemma reindex_get:
  "distinct (map snap_id ss) \<Longrightarrow>
   hm_get (reindex ss) i = Some k \<longleftrightarrow> k < length ss \<and> snap_id (ss ! k) = i"
proof (induction ss arbitrary: k rule: rev_induct)
  case (snoc s ss)
  have ne: "snap_id (ss ! k) \<noteq> snap_id s" if "k < length ss" for k
    using snoc.prems nth_mem [OF that] by (auto simp: image_iff)
  have IH: "hm_get (reindex ss) i = Some k \<longleftrightarrow> k < length ss \<and> snap_id (ss ! k) = i" for k
    using snoc by simp
  show ?case
  proof (cases "i = snap_id s")
    case True
    then show ?thesis using ne [of k]
      by (cases "k < length ss") (auto simp: reindex_snoc hm_simps nth_append less_Suc_eq)
  next
    case False
    then show ?thesis
      by (cases "k < length ss") (auto simp: reindex_snoc hm_simps IH nth_append less_Suc_eq)
  qed
qed (simp add: reindex_def)

lemma ring_contents:
  "rb_snapshots (ring_push s r) =
     (if rb_capacity r \<le> length (rb_snapshots r) then tl (rb_snapshots r) else rb_snapshots r) @ [s]"
  "rb_capacity (ring_push s r) = rb_capacity r"
  by (simp_all add: ring_push_def Let_def)

interpretation ring: bounded_history rb_capacity rb_snapshots ring_push
  by unfold_locales (simp_all add: ring_contents)

lemma ring_get_iff:
  assumes "ring_inv r"
  shows "ring_get r i = Some s \<longleftrightarrow> s \<in> set (rb_snapshots r) \<and> snap_id s = i"
proof -
  have ix: "hm_get (rb_index r) i = Some k \<longleftrightarrow>
      k < length (rb_snapshots r) \<and> snap_id (rb_snapshots r ! k) = i" for k
    using assms unfolding ring_inv_def by blast
  have "ring_get r i = Some s \<longleftrightarrow> (\<exists>k. hm_get (rb_index r) i = Some k \<and> rb_snapshots r ! k = s)"
  proof (cases "hm_get (rb_index r) i")
    case (Some k)
    with ix [of k] show ?thesis by (simp add: ring_get_def)
  qed (simp add: ring_get_def)
  also have "\<dots> \<longleftrightarrow> s \<in> set (rb_snapshots r) \<and> snap_id s = i"
    unfolding ix by (auto simp: in_set_conv_nth)
  finally show ?thesis .
qed

lemma ring_index_push:
  assumes "ring_inv r"
  shows "\<exists>ix. rb_index (ring_push s r) = hm_insert (snap_id s) (length (rb_snapshots (ring_push s r)) - 1) ix
    \<and> (\<forall>i k. hm_get ix i = Some k \<longleftrightarrow> k < length (rb_snapshots (ring_push s r)) - 1
          \<and> snap_id (rb_snapshots (ring_push s r) ! k) = i)"
proof (cases "rb_capacity r \<le> length (rb_snapshots r)")
  case True
  have "distinct (map snap_id (tl (rb_snapshots r)))"
    using assms by (simp add: ring_inv_def map_tl distinct_tl)
  note ix = reindex_get [OF this]
  have ss: "rb_snapshots (ring_push s r) = tl (rb_snapshots r) @ [s]"
      "rb_index (ring_push s r) = hm_insert (snap_id s) (length (tl (rb_snapshots r))) (reindex (tl (rb_snapshots r)))"
    using True by (simp_all add: ring_push_def Let_def)
  show ?thesis unfolding ss
    by (rule exI [of _ "reindex (tl (rb_snapshots r))"]) (simp add: ix nth_append cong: conj_cong)
next
  case False
  then have ss: "rb_snapshots (ring_push s r) = rb_snapshots r @ [s]"
      "rb_index (ring_push s r) = hm_insert (snap_id s) (length (rb_snapshots r)) (rb_index r)"
    by (simp_all add: ring_push_def Let_def)
  have "hm_get (rb_index r) i = Some k \<longleftrightarrow>
      k < length (rb_snapshots r) \<and> snap_id (rb_snapshots r ! k) = i" for i k
    using assms unfolding ring_inv_def by blast
  then show ?thesis unfolding ss
    by (intro exI [of _ "rb_index r"] conjI) (simp_all add: nth_append cong: conj_cong)
qed

lemma ring_push_inv:
  assumes inv: "ring_inv r" and fresh: "snap_id s \<notin> snap_id ` set (rb_snapshots r)"
  shows "ring_inv (ring_push s r)"
proof -
  let ?old = "if rb_capacity r \<le> length (rb_snapshots r) then tl (rb_snapshots r) else rb_snapshots r"
  let ?ss = "rb_snapshots (ring_push s r)"
  have sub: "set ?old \<subseteq> set (rb_snapshots r)" by (auto dest: in_set_tlD)
  have d: "distinct (map snap_id ?old)" using inv by (simp add: ring_inv_def map_tl distinct_tl)
  have dist: "distinct (map snap_id ?ss)"
    using d sub fresh by (auto simp: ring_contents image_iff)
  have len: "length ?ss \<le> max 1 (rb_capacity (ring_push s r))"
    by (rule ring.push_bound) (use inv in \<open>simp add: ring_inv_def\<close>)
  obtain ix where ix: "rb_index (ring_push s r) = hm_insert (snap_id s) (length ?ss - 1) ix"
    and old: "\<And>i k. hm_get ix i = Some k \<longleftrightarrow> k < length ?ss - 1 \<and> snap_id (?ss ! k) = i"
    using ring_index_push [OF inv] by blast
  have last: "?ss ! (length ?ss - 1) = s" "length ?ss \<noteq> 0" by (simp_all add: ring_contents nth_append)
  have uniq: "snap_id (?ss ! k) = snap_id s \<longleftrightarrow> k = length ?ss - 1" if "k < length ?ss" for k
    using nth_eq_iff_index_eq [OF dist, of k "length ?ss - 1"] last that by simp
  have "hm_get (rb_index (ring_push s r)) i = Some k \<longleftrightarrow> k < length ?ss \<and> snap_id (?ss ! k) = i" for i k
    using uniq [of k] last old [of i k] by (auto simp: ix hm_simps)
  with dist len show ?thesis by (simp add: ring_inv_def)
qed

lemma ring_push_get:
  assumes "ring_inv r" and "snap_id s \<notin> snap_id ` set (rb_snapshots r)"
  shows "ring_get (ring_push s r) (snap_id s) = Some s"
  using ring_get_iff [OF ring_push_inv [OF assms]] by (simp add: ring_contents)

lemma ring_push_get_old:
  assumes "ring_inv r" and "snap_id s \<notin> snap_id ` set (rb_snapshots r)"
    and "ring_get (ring_push s r) i = Some t" and "i \<noteq> snap_id s"
  shows "ring_get r i = Some t"
  using assms ring_get_iff [OF assms(1)] ring_get_iff [OF ring_push_inv [OF assms(1,2)]]
  by (auto simp: ring_contents dest: in_set_tlD split: if_splits)

lemma ring_new_inv: "ring_inv (ring_new cap)"
  by (simp add: ring_inv_def ring_new_def)

lemma ring_pushes_inv:
  "ring_inv r \<Longrightarrow> distinct (map snap_id ss) \<Longrightarrow> snap_id ` set (rb_snapshots r) \<inter> snap_id ` set ss = {}
   \<Longrightarrow> ring_inv (fold ring_push ss r)"
proof (induction ss arbitrary: r)
  case (Cons s ss)
  have "ring_inv (ring_push s r)" by (rule ring_push_inv) (use Cons.prems in auto)
  moreover have "snap_id ` set (rb_snapshots (ring_push s r)) \<inter> snap_id ` set ss = {}"
    using Cons.prems by (auto simp: ring_contents dest!: in_set_tlD split: if_splits)
  ultimately show ?case using Cons by simp
qed simp

text \<open>
  The ring buffer holds exactly the most recent snapshots: after any sequence of pushes with
  distinct ids it contains the last \<open>max 1 capacity\<close> of them in order, and lookup by id finds exactly
  these, although every eviction shifts all positions of the index.
\<close>

lemma ring_holds_recent:
  assumes "distinct (map snap_id ss)"
  shows "rb_snapshots (fold ring_push ss (ring_new cap)) = drop (length ss - max 1 cap) ss
    \<and> (\<forall>i s. ring_get (fold ring_push ss (ring_new cap)) i = Some s \<longleftrightarrow>
          s \<in> set (drop (length ss - max 1 cap) ss) \<and> snap_id s = i)"
proof -
  have inv: "ring_inv (fold ring_push ss (ring_new cap))"
    by (rule ring_pushes_inv [OF ring_new_inv assms]) (simp add: ring_new_def)
  have "rb_snapshots (fold ring_push ss (ring_new cap)) = drop (length ss - max 1 cap) ss"
    using ring.pushes_window(1) [of "ring_new cap" ss] by (simp add: ring_new_def)
  with ring_get_iff [OF inv] show ?thesis by simp
qed

definition demo_snap :: "uuid \<Rightarrow> bytes \<Rightarrow> snapshot" where
  "demo_snap i mem = \<lparr>snap_id = i, snap_timestamp = 0, memory = mem, memory_checksum = [],
     fs_changes = fs_new, snap_execution_state = \<lparr>captured_globals = [], captured_tables = []\<rparr>,
     metadata = metadata_new ''op'' ''h'', original_size = length mem, compressed_size = length mem\<rparr>"

subsection \<open>The abstract store and its refinement\<close>

type_synonym store = "uuid \<rightharpoonup> bytes \<times> execution_state"

definition ring_matches :: "snap_env \<Rightarrow> ring_buffer \<Rightarrow> store \<Rightarrow> bool" where
  "ring_matches env r g \<longleftrightarrow> (\<forall>s \<in> set (rb_snapshots r). \<exists>mem.
     copy_decode (zstd env) (memory s) = Some mem \<and> g (snap_id s) = Some (mem, snap_execution_state s))"

definition diff_matches :: "snap_env \<Rightarrow> store \<Rightarrow> diff_snapshot \<Rightarrow> bool" where
  "diff_matches env g d \<longleftrightarrow> (\<exists>mem base es. g (diff_id d) = Some (mem, diff_execution_state d)
     \<and> g (base_id d) = Some (base, es) \<and> diff_of (zstd env) base mem d \<and> addressable base)"

text \<open>No diff is based on itself or on a later diff.\<close>

definition diffs_ordered :: "diff_snapshot list \<Rightarrow> bool" where
  "diffs_ordered ds \<longleftrightarrow> (\<forall>k < length ds. base_id (ds ! k) \<notin> diff_id ` set (drop k ds))"

definition store_inv :: "snap_env \<Rightarrow> snapshot_manager \<times> store \<Rightarrow> bool" where
  "store_inv env = (\<lambda>(m, g). zstd_ok (zstd env) \<and> ring_inv (buffer m) \<and> ring_matches env (buffer m) g
     \<and> (\<forall>d \<in> set (diff_buffer m). diff_matches env g d) \<and> diffs_ordered (diff_buffer m)
     \<and> (\<forall>i \<in> dom g. addressable (fst (the (g i)))))"

inductive store_step ::
  "snap_env \<Rightarrow> snapshot_manager \<times> store \<Rightarrow> snapshot_manager \<times> store \<Rightarrow> bool" for env where
  step_create: "g (ce_id ce) = None \<Longrightarrow> addressable mem \<Longrightarrow>
    create_snapshot env ce mem fs es md m disk = (r, m', disk') \<Longrightarrow>
    store_step env (m, g) (m', g(ce_id ce \<mapsto> (mem, es)))"
| step_create_diff: "g (ce_id ce) = None \<Longrightarrow> addressable mem \<Longrightarrow>
    create_diff_snapshot env ce mem base es md m disk = Some (r, m', disk') \<Longrightarrow>
    store_step env (m, g) (m', g(ce_id ce \<mapsto> (mem, es)))"
| step_rollback: "rollback_to env now i m = (r, m') \<Longrightarrow> store_step env (m, g) (m', g)"
| step_rollback_diff: "rollback_to_diff env now i m = Some (r, m') \<Longrightarrow> store_step env (m, g) (m', g)"

definition store_init :: "snap_env \<Rightarrow> snapshot_manager \<times> store \<Rightarrow> bool" where
  "store_init env = (\<lambda>(m, g). zstd_ok (zstd env) \<and> g = Map.empty
     \<and> (\<exists>cap depth dir. m \<in> {sm_new cap, sm_with_persistence cap dir, sm_with_max_diff_depth cap depth}))"

lemma create_snapshot_cases:
  assumes "create_snapshot env ce mem fs es md m disk = (r, m', disk')"
  obtains (failed) "m' = m" "isl r"
  | (pushed) s where "snapshot_new env ce mem fs es md = Inr s" "buffer m' = ring_push s (buffer m)"
      "diff_buffer m' = diff_buffer m" "max_diff_depth m' = max_diff_depth m" "r = Inr s \<or> isl r"
proof (cases "snapshot_new env ce mem fs es md")
  case (Inl e)
  with assms have "(Inl e, m, disk) = (r, m', disk')" by (simp add: create_snapshot_def)
  then show thesis by (intro failed) auto
next
  case (Inr s)
  with assms show thesis
    by (intro pushed [OF Inr]) (auto simp: create_snapshot_def Let_def split: if_splits prod.splits sum.splits)
qed

lemma snapshot_new_ok:
  "snapshot_new env ce mem fs es md = Inr s \<Longrightarrow> snap_id s = ce_id ce \<and> snap_execution_state s = es
     \<and> fs_changes s = fs \<and> copy_encode (zstd env) 3 mem = Some (memory s)"
  by (auto simp: snapshot_new_def split: option.splits)

lemma ring_matches_dom: "ring_matches env r g \<Longrightarrow> g i = None \<Longrightarrow> i \<notin> snap_id ` set (rb_snapshots r)"
  by (force simp: ring_matches_def)

lemma diff_matches_extend:
  "diff_matches env g d \<Longrightarrow> g i = None \<Longrightarrow> diff_matches env (g(i \<mapsto> v)) d"
  unfolding diff_matches_def by (auto split: if_splits)

lemma store_inv_extend:
  assumes inv: "store_inv env (m, g)" and fresh: "g i = None" and adr: "addressable mem"
  shows "store_inv env (m, g(i \<mapsto> (mem, es)))"
proof -
  have "snap_id s \<noteq> i" if "s \<in> set (rb_snapshots (buffer m))" for s
    using ring_matches_dom [of env "buffer m" g i] inv fresh that by (auto simp: store_inv_def)
  then have "ring_matches env (buffer m) (g(i \<mapsto> (mem, es)))"
    using inv by (fastforce simp: store_inv_def ring_matches_def)
  moreover have "\<forall>d \<in> set (diff_buffer m). diff_matches env (g(i \<mapsto> (mem, es))) d"
    using inv diff_matches_extend fresh by (simp add: store_inv_def)
  ultimately show ?thesis using inv adr by (simp add: store_inv_def)
qed

lemma create_snapshot_inv:
  assumes inv: "store_inv env (m, g)" and fresh: "g (ce_id ce) = None" and adr: "addressable mem"
    and cr: "create_snapshot env ce mem fs es md m disk = (r, m', disk')"
  shows "store_inv env (m', g(ce_id ce \<mapsto> (mem, es)))"
  using cr
proof (cases rule: create_snapshot_cases)
  case failed
  with store_inv_extend [OF inv fresh adr] show ?thesis by simp
next
  case (pushed s)
  note s = snapshot_new_ok [OF pushed(1)]
  note ext = store_inv_extend [OF inv fresh adr, of es]
  have ids: "snap_id s \<notin> snap_id ` set (rb_snapshots (buffer m))"
    using ring_matches_dom [of env "buffer m" g "ce_id ce"] fresh inv s by (auto simp: store_inv_def)
  have "ring_inv (buffer m')"
    using ring_push_inv [OF _ ids] inv pushed by (simp add: store_inv_def)
  moreover have "copy_decode (zstd env) (memory s) = Some mem"
    using inv s by (auto simp: store_inv_def zstd_ok_def)
  then have "ring_matches env (buffer m') (g(ce_id ce \<mapsto> (mem, es)))"
    using ext s pushed(2) by (auto simp: store_inv_def ring_matches_def ring_contents dest!: in_set_tlD
        split: if_splits)
  ultimately show ?thesis using ext pushed by (simp add: store_inv_def)
qed

lemma apply_diff_chain_snoc:
  "apply_diff_chain z m (ds @ [d]) =
     (case apply_diff_chain z m ds of Inl e \<Rightarrow> Inl e | Inr m' \<Rightarrow> apply_diff z m' d)"
  by (induction ds arbitrary: m) (auto split: sum.splits)

lemma find_diff_Some: "find_diff ds i = Some d \<Longrightarrow> d \<in> set ds \<and> diff_id d = i"
  by (auto simp: find_diff_def find_Some_iff)

lemma find_diff_append:
  "find_diff (xs @ ys) i = (case find_diff xs i of None \<Rightarrow> find_diff ys i | Some d \<Rightarrow> Some d)"
  by (induction xs) (auto simp: find_diff_def)

text \<open>What the chain-collecting loop returns: it only appends, ends at a full snapshot, and replaying
  what it appended turns the recorded memory of that snapshot into that of the starting id.\<close>

lemma collect_chain_sound:
  assumes "collect_chain msg rb ds cur chain = Some r" and "r = Inr (chain', base)"
    and z: "zstd_ok (zstd env)" and ds: "\<forall>d \<in> set ds. diff_matches env g d" and cur: "cur \<in> dom g"
  shows "ring_get rb base \<noteq> None \<and> (\<exists>rest. chain' = chain @ rest \<and>
    (\<forall>mem es bm bes. g cur = Some (mem, es) \<longrightarrow> g base = Some (bm, bes) \<longrightarrow>
       apply_diff_chain (zstd env) bm (rev rest) = Inr mem))"
proof -
  let ?P = "\<lambda>msg rb ds cur chain r. \<forall>chain' base. r = Inr (chain', base) \<longrightarrow>
    (\<forall>d \<in> set ds. diff_matches env g d) \<longrightarrow> cur \<in> dom g \<longrightarrow>
    ring_get rb base \<noteq> None \<and> (\<exists>rest. chain' = chain @ rest \<and>
    (\<forall>mem es bm bes. g cur = Some (mem, es) \<longrightarrow> g base = Some (bm, bes) \<longrightarrow>
       apply_diff_chain (zstd env) bm (rev rest) = Inr mem))"
  have "?P msg rb ds cur chain r"
  proof (rule collect_chain.raw_induct [where P = ?P, OF _ assms(1)], intro allI impI)
    fix cc msg rb ds cur chain r chain' base
    assume IH: "\<And>msg rb ds cur chain r. cc msg rb ds cur chain = Some r \<Longrightarrow> ?P msg rb ds cur chain r"
      and step: "(if ring_get rb cur \<noteq> None then Some (Inr (chain, cur))
        else case find_diff ds cur of None \<Rightarrow> Some (Inl (RollbackFailed msg))
          | Some parent \<Rightarrow> cc msg rb ds (base_id parent) (chain @ [parent])) = Some r"
      and r: "r = Inr (chain', base)" and ds: "\<forall>d \<in> set ds. diff_matches env g d" and cur: "cur \<in> dom g"
    show "ring_get rb base \<noteq> None \<and> (\<exists>rest. chain' = chain @ rest \<and>
      (\<forall>mem es bm bes. g cur = Some (mem, es) \<longrightarrow> g base = Some (bm, bes) \<longrightarrow>
         apply_diff_chain (zstd env) bm (rev rest) = Inr mem))"
    proof (cases "ring_get rb cur = None")
      case False
      with step r show ?thesis by auto
    next
      case True
      with step r obtain p where p: "find_diff ds cur = Some p"
        and rec: "cc msg rb ds (base_id p) (chain @ [p]) = Some (Inr (chain', base))"
        by (auto split: option.splits)
      then obtain mem bmem bes where m: "g cur = Some (mem, diff_execution_state p)"
          "g (base_id p) = Some (bmem, bes)" "diff_of (zstd env) bmem mem p" "addressable bmem"
        using ds find_diff_Some [OF p] by (auto simp: diff_matches_def)
      from IH [OF rec] ds m(2) obtain rest where "ring_get rb base \<noteq> None" "chain' = (chain @ [p]) @ rest"
        and "\<And>bm bes'. g base = Some (bm, bes') \<Longrightarrow> apply_diff_chain (zstd env) bm (rev rest) = Inr bmem"
        by blast
      with m z show ?thesis
        by (intro conjI exI [of _ "p # rest"]) (auto simp: apply_diff_chain_snoc apply_diff_of)
    qed
  qed
  with assms(2) ds cur show ?thesis by blast
qed

lemma collect_chain_terminates:
  assumes "diffs_ordered ds" and "cur \<notin> diff_id ` set (drop n ds)"
  shows "\<exists>r. collect_chain msg rb ds cur chain = Some r"
  using assms(2)
proof (induction n arbitrary: cur chain rule: less_induct)
  case (less n)
  show ?case
  proof (cases "find_diff ds cur")
    case None
    then show ?thesis by (subst collect_chain.simps) simp
  next
    case (Some p)
    then obtain k where k: "k < length ds" "ds ! k = p" "diff_id p = cur"
      using find_diff_Some [OF Some] by (auto simp: in_set_conv_nth)
    have "k < n"
    proof (rule ccontr)
      assume "\<not> k < n"
      then have "drop n ds ! (k - n) = p" "k - n < length (drop n ds)" using k by auto
      then have "p \<in> set (drop n ds)" by (metis nth_mem)
      with less.prems k show False by auto
    qed
    moreover have "base_id p \<notin> diff_id ` set (drop k ds)"
      using assms(1) k by (auto simp: diffs_ordered_def)
    ultimately obtain r where "collect_chain msg rb ds (base_id p) (chain @ [p]) = Some r"
      using less.IH by blast
    then show ?thesis using Some by (subst collect_chain.simps) auto
  qed
qed

lemma collect_chain_total: "diffs_ordered ds \<Longrightarrow> \<exists>r. collect_chain msg rb ds cur chain = Some r"
  by (rule collect_chain_terminates [where n = "length ds"]) simp_all

lemma replay_sound:
  assumes inv: "store_inv env (m, g)" and d: "find_diff (diff_buffer m) i = Some d"
    and cc: "collect_chain msg (buffer m) (diff_buffer m) (base_id d) [d] = Some (Inr (chain, base))"
  shows "\<exists>mem. g i = Some (mem, diff_execution_state d)
    \<and> replay_chain env msg' (buffer m) base chain = Inr mem"
proof -
  have z: "zstd_ok (zstd env)" and ds: "\<forall>d \<in> set (diff_buffer m). diff_matches env g d"
    and ri: "ring_inv (buffer m)" and rm: "ring_matches env (buffer m) g"
    using inv by (auto simp: store_inv_def)
  from find_diff_Some [OF d] ds obtain mem bmem bes where
    g: "g i = Some (mem, diff_execution_state d)" "g (base_id d) = Some (bmem, bes)"
       "diff_of (zstd env) bmem mem d" "addressable bmem"
    by (auto simp: diff_matches_def)
  from collect_chain_sound [OF cc refl z ds] g(2) obtain rest s where
    rest: "chain = d # rest" "ring_get (buffer m) base = Some s"
    and rep: "\<And>bm es. g base = Some (bm, es) \<Longrightarrow> apply_diff_chain (zstd env) bm (rev rest) = Inr bmem"
    by fastforce
  have "s \<in> set (rb_snapshots (buffer m))" "snap_id s = base" using ring_get_iff [OF ri] rest(2) by auto
  then obtain bm where bm: "copy_decode (zstd env) (memory s) = Some bm"
      "g base = Some (bm, snap_execution_state s)"
    using rm by (auto simp: ring_matches_def)
  then have "replay_chain env msg' (buffer m) base chain = Inr mem"
    using rest rep [OF bm(2)] apply_diff_of [OF z g(4,3)]
    by (simp add: replay_chain_def decompress_memory_def apply_diff_chain_snoc)
  with g(1) show ?thesis by blast
qed

lemma ring_decompress:
  assumes "store_inv env (m, g)" and "ring_get (buffer m) i = Some s"
  shows "\<exists>mem. decompress_memory env s = Inr mem \<and> g i = Some (mem, snap_execution_state s)"
  using assms ring_get_iff [of "buffer m" i s]
  by (fastforce simp: store_inv_def ring_matches_def decompress_memory_def)

lemma reconstruct_sound:
  assumes inv: "store_inv env (m, g)" and "reconstruct_memory_for env m i = Some (Inr mem)"
  shows "\<exists>es. g i = Some (mem, es)"
proof (cases "ring_get (buffer m) i")
  case (Some s)
  with ring_decompress [OF inv Some] assms(2) show ?thesis by (auto simp: reconstruct_memory_for_def)
next
  case None
  with assms(2) obtain d chain base where d: "find_diff (diff_buffer m) i = Some d"
    and cc: "collect_chain ''Diff chain broken at {}'' (buffer m) (diff_buffer m) (base_id d) [d] =
      Some (Inr (chain, base))"
    and "replay_chain env ''base snapshot {current_base} was evicted before diff reconstruction completed''
      (buffer m) base chain = Inr mem"
    by (auto simp: reconstruct_memory_for_def split: option.splits sum.splits)
  with replay_sound [OF inv d cc,
      of "''base snapshot {current_base} was evicted before diff reconstruction completed''"]
  show ?thesis by auto
qed

lemma create_diff_cases:
  assumes "create_diff_snapshot env ce mem base es md m disk = Some (r, m', disk')"
  obtains (failed) "m' = m" "isl r"
  | (promoted) r' where "create_snapshot env ce mem fs_new es md m disk = (r', m', disk')"
      "\<And>d. r \<noteq> Inr (DiffCreated d)"
  | (diffed) bmem gen d where "reconstruct_memory_for env m base = Some (Inr bmem)"
      "diff_new (zstd env) (ce_now ce) (ce_id ce) base bmem mem es md gen = Inr d"
      "m' = m\<lparr>diff_buffer := diff_buffer m @ [d]\<rparr>" "r = Inr (DiffCreated d)"
      "gen = (case find_diff (diff_buffer m) base of Some d \<Rightarrow> generation d + 1 | None \<Rightarrow> 1)"
      "gen \<le> max_diff_depth m"
  using assms unfolding create_diff_snapshot_def Let_def
  by (auto simp: not_less split: if_splits option.splits sum.splits prod.splits)

lemma diff_new_fields:
  "diff_new z now i b base cur es md g = Inr d \<Longrightarrow> diff_id d = i \<and> base_id d = b
     \<and> diff_execution_state d = es \<and> generation d = g"
  by (auto simp: diff_new_def split: sum.splits)

lemma diffs_ordered_snoc:
  assumes "diffs_ordered ds" and "\<forall>e \<in> set ds. base_id e \<noteq> diff_id d" and "base_id d \<noteq> diff_id d"
  shows "diffs_ordered (ds @ [d])"
  unfolding diffs_ordered_def
proof (intro allI impI)
  fix k assume "k < length (ds @ [d])"
  then consider "k < length ds" | "k = length ds" by (auto simp: less_Suc_eq)
  then show "base_id ((ds @ [d]) ! k) \<notin> diff_id ` set (drop k (ds @ [d]))"
    by cases (use assms in \<open>auto simp: diffs_ordered_def nth_append\<close>)
qed

lemma create_diff_inv:
  assumes inv: "store_inv env (m, g)" and fresh: "g (ce_id ce) = None" and adr: "addressable mem"
    and cr: "create_diff_snapshot env ce mem base es md m disk = Some (r, m', disk')"
  shows "store_inv env (m', g(ce_id ce \<mapsto> (mem, es)))"
  using cr
proof (cases rule: create_diff_cases)
  case failed
  with store_inv_extend [OF inv fresh adr] show ?thesis by simp
next
  case promoted
  with create_snapshot_inv [OF inv fresh adr] show ?thesis by blast
next
  case (diffed bmem gen d)
  note ext = store_inv_extend [OF inv fresh adr, of es]
  note d = diff_new_fields [OF diffed(2)]
  obtain bes where b: "g base = Some (bmem, bes)" using reconstruct_sound [OF inv diffed(1)] by blast
  have bad: "addressable bmem" using inv b by (force simp: store_inv_def)
  have "base \<noteq> ce_id ce" using b fresh by auto
  then have "diff_matches env (g(ce_id ce \<mapsto> (mem, es))) d"
    using b d bad diff_new_diff_of [OF diffed(2) bad] by (auto simp: diff_matches_def)
  moreover have "diffs_ordered (diff_buffer m @ [d])"
  proof (rule diffs_ordered_snoc)
    show "\<forall>e \<in> set (diff_buffer m). base_id e \<noteq> diff_id d"
      using inv d fresh by (force simp: store_inv_def diff_matches_def)
  qed (use inv d \<open>base \<noteq> ce_id ce\<close> in \<open>auto simp: store_inv_def\<close>)
  ultimately show ?thesis using ext diffed(3) by (simp add: store_inv_def)
qed

lemma count_rollback_fields [simp]:
  "buffer (count_rollback m) = buffer m" "diff_buffer (count_rollback m) = diff_buffer m"
  "max_diff_depth (count_rollback m) = max_diff_depth m"
  by (simp_all add: count_rollback_def)

lemma store_inv_count: "store_inv env (count_rollback m, g) = store_inv env (m, g)"
  by (simp add: store_inv_def)

lemma rollback_state: "rollback_to env now i m = (r, m') \<Longrightarrow> m' = m \<or> m' = count_rollback m"
  by (auto simp: rollback_to_def split: option.splits sum.splits)

lemma rollback_diff_state:
  "rollback_to_diff env now i m = Some (r, m') \<Longrightarrow> m' = m \<or> m' = count_rollback m"
  by (auto simp: rollback_to_diff_def split: option.splits sum.splits)

interpretation snapstore: inductive_invariant "store_init env" "store_step env" "store_inv env" for env
proof unfold_locales
  show "store_init env s \<Longrightarrow> store_inv env s" for s
    by (auto simp: store_init_def store_inv_def sm_new_def sm_with_persistence_def
        sm_with_max_diff_depth_def ring_new_inv ring_matches_def diffs_ordered_def)
      (auto simp: ring_new_def)
  show "store_inv env s \<Longrightarrow> store_step env s t \<Longrightarrow> store_inv env t" for s t
    by (erule store_step.cases)
      (auto intro: create_snapshot_inv create_diff_inv dest!: rollback_state rollback_diff_state
        simp: store_inv_count)
qed

lemma rollback_diff_total:
  "store_inv env (m, g) \<Longrightarrow> \<exists>res. rollback_to_diff env now i m = Some res"
proof -
  assume "store_inv env (m, g)"
  then have "diffs_ordered (diff_buffer m)" by (simp add: store_inv_def)
  then have "\<exists>r. collect_chain msg (buffer m) (diff_buffer m) b c = Some r" for msg b c
    by (rule collect_chain_total)
  then show ?thesis
    by (auto simp: rollback_to_diff_def split: option.splits sum.splits)
       (metis not_Some_eq)+
qed

subsection \<open>A concrete run\<close>

definition demo_snap_env :: snap_env where
  "demo_snap_env = \<lparr>zstd = id_zstd, sha256_hex = (\<lambda>_. []), bincode_serialize = (\<lambda>s. Some (memory s)),
     bincode_deserialize = (\<lambda>b. Some (demo_snap 1 b)), uuid_display = (\<lambda>_. ''id'')\<rparr>"

definition demo_call :: "uuid \<Rightarrow> call_env" where
  "demo_call i = \<lparr>ce_now = 0, ce_id = i, ce_elapsed_us = 7, ce_write_ok = True\<rparr>"

definition demo_es :: execution_state where
  "demo_es = \<lparr>captured_globals = [], captured_tables = []\<rparr>"

definition demo_m1 :: snapshot_manager where
  "demo_m1 = \<lparr>buffer = \<lparr>rb_capacity = 2, rb_snapshots = [demo_snap 1 [1, 2, 3]], rb_index = [(1, 0)]\<rparr>,
     diff_buffer = [], max_diff_depth = 8, persist_enabled = False, persist_dir = None,
     stats = count_snapshot 7 (demo_snap 1 [1, 2, 3]) default_stats\<rparr>"

definition demo_d1 :: diff_snapshot where
  "demo_d1 = demo_diff\<lparr>diff_timestamp := 0\<rparr>"

definition demo_m2 :: snapshot_manager where
  "demo_m2 = demo_m1\<lparr>diff_buffer := [demo_d1]\<rparr>"

lemma demo_snap_env_sel [simp]:
  "zstd demo_snap_env = id_zstd" "sha256_hex demo_snap_env b = []"
  "bincode_serialize demo_snap_env s = Some (memory s)"
  "bincode_deserialize demo_snap_env b = Some (demo_snap 1 b)"
  by (simp_all add: demo_snap_env_def)

lemma demo_create: "create_snapshot demo_snap_env (demo_call 1) [1, 2, 3] fs_new demo_es
    (metadata_new ''op'' ''h'') (sm_new 2) [] = (Inr (demo_snap 1 [1, 2, 3]), demo_m1, [])"
  by (simp add: create_snapshot_def snapshot_new_def demo_call_def demo_snap_def demo_m1_def demo_es_def
      sm_new_def ring_new_def ring_push_def DEFAULT_MAX_DIFF_DEPTH_def Let_def)

lemma demo_create_diff: "create_diff_snapshot demo_snap_env (demo_call 9) [1, 7, 3] 1 demo_es
    (metadata_new ''op'' ''h'') demo_m1 [] = Some (Inr (DiffCreated demo_d1), demo_m2, [])"
proof -
  have "find_diff (diff_buffer demo_m1) 1 = None" by (simp add: demo_m1_def find_diff_def)
  moreover have "max_diff_depth demo_m1 = 8" by (simp add: demo_m1_def)
  moreover have "reconstruct_memory_for demo_snap_env demo_m1 1 = Some (Inr [1, 2, 3])"
    by (simp add: reconstruct_memory_for_def demo_m1_def ring_get_def decompress_memory_def demo_snap_def)
  moreover have "diff_new id_zstd (ce_now (demo_call 9)) (ce_id (demo_call 9)) 1 [1, 2, 3] [1, 7, 3] demo_es
      (metadata_new ''op'' ''h'') 1 = Inr demo_d1"
    by (simp add: demo_d1_def demo_diff_def demo_call_def demo_es_def diff_new_def
        compute_dirty_pages_def div_ceil_def PAGE_SIZE_def slice_def)
  ultimately show ?thesis
    by (simp add: create_diff_snapshot_def demo_m2_def) (simp add: demo_m1_def)
qed

definition demo_g1 :: store where
  "demo_g1 = Map.empty(ce_id (demo_call 1) \<mapsto> ([1, 2, 3], demo_es))"

lemma demo_reachable0: "reachable (store_init demo_snap_env) (store_step demo_snap_env) (sm_new 2, Map.empty)"
  by (rule reach_init) (auto simp: store_init_def)

lemma demo_reachable1: "reachable (store_init demo_snap_env) (store_step demo_snap_env) (demo_m1, demo_g1)"
  unfolding demo_g1_def
  by (rule reach_step [OF demo_reachable0 step_create [OF _ _ demo_create]])
    (simp_all add: addressable_def PAGE_SIZE_def)

lemma demo_reachable2: "reachable (store_init demo_snap_env) (store_step demo_snap_env)
    (demo_m2, demo_g1(ce_id (demo_call 9) \<mapsto> ([1, 7, 3], demo_es)))"
  by (rule reach_step [OF demo_reachable1 step_create_diff [OF _ _ demo_create_diff]])
    (simp_all add: addressable_def PAGE_SIZE_def demo_g1_def demo_call_def)

subsection \<open>Properties\<close>

lemma rollback_captured:
  assumes inv: "store_inv env (m, g)"
  shows "rollback_to env now i m = (Inr r, m') \<Longrightarrow> g i = Some (rr_memory r, rr_execution_state r)"
    and "rollback_to_diff env now i m = Some (Inr r, m') \<Longrightarrow> g i = Some (rr_memory r, rr_execution_state r)"
proof -
  show "g i = Some (rr_memory r, rr_execution_state r)" if "rollback_to env now i m = (Inr r, m')"
    using that ring_decompress [OF inv, of i]
    by (fastforce simp: rollback_to_def split: option.splits sum.splits)
  show "g i = Some (rr_memory r, rr_execution_state r)"
    if rb: "rollback_to_diff env now i m = Some (Inr r, m')"
  proof -
    from rb obtain d chain base mem where d: "find_diff (diff_buffer m) i = Some d"
      and cc: "collect_chain ''Diff chain broken: cannot find snapshot {}'' (buffer m) (diff_buffer m)
        (base_id d) [d] = Some (Inr (chain, base))"
      and rp: "replay_chain env ''Base snapshot {} not found'' (buffer m) base chain = Inr mem"
      and r: "rr_memory r = mem" "rr_execution_state r = diff_execution_state d"
      by (auto simp: rollback_to_diff_def split: option.splits sum.splits)
    with replay_sound [OF inv d cc, of "''Base snapshot {} not found''"] show ?thesis by auto
  qed
qed

text \<open>
  C2: Rollback never restores the wrong state: in every state reachable by creating full and
  differential snapshots (with automatic promotion and eviction) and rolling back, a successful
  rollback to a full snapshot or to a diff, through any chain of diffs, returns exactly the memory
  and execution state that were recorded under that id.
\<close>

theorem rollback_exact:
  assumes "reachable (store_init env) (store_step env) (m, g)"
  shows "(rollback_to env now i m = (Inr r, m') \<longrightarrow> g i = Some (rr_memory r, rr_execution_state r))
    \<and> (rollback_to_diff env now i m = Some (Inr r, m') \<longrightarrow> g i = Some (rr_memory r, rr_execution_state r))"
  using rollback_captured [OF snapstore.reachable_inv [OF assms]] by blast

theorem rollback_exact_witness:
  "rr_memory (projr (fst (rollback_to demo_snap_env 5 1 demo_m2))) = [1, 2, 3]"
proof -
  obtain r m' where r: "rollback_to demo_snap_env 5 1 demo_m2 = (Inr r, m')"
    by (simp add: rollback_to_def demo_m2_def demo_m1_def ring_get_def decompress_memory_def)
  with rollback_exact [OF demo_reachable2, of 5 1 r m'] show ?thesis
    by (simp add: demo_g1_def demo_call_def)
qed

text \<open>
  Rolling back to a diff always returns, with a result or an error: the walk from a diff to
  its base cannot cycle, in any reachable state and for any id.
\<close>

lemma rollback_diff_terminates:
  assumes "reachable (store_init env) (store_step env) (m, g)"
  shows "\<exists>res. rollback_to_diff env now i m = Some res"
  by (rule rollback_diff_total [OF snapstore.reachable_inv [OF assms]])

lemma collect_chain_snoc:
  assumes "collect_chain msg rb ds cur chain = Some r" and "r = Inr x"
  shows "collect_chain msg rb (ds @ [d]) cur chain = Some (Inr x)"
proof -
  let ?P = "\<lambda>msg rb ds cur chain r. r = Inr x \<longrightarrow> collect_chain msg rb (ds @ [d]) cur chain = Some (Inr x)"
  have "?P msg rb ds cur chain r"
  proof (rule collect_chain.raw_induct [where P = ?P, OF _ assms(1)], intro impI)
    fix cc msg rb ds cur chain r
    assume IH: "\<And>msg rb ds cur chain r. cc msg rb ds cur chain = Some r \<Longrightarrow> ?P msg rb ds cur chain r"
      and step: "(if ring_get rb cur \<noteq> None then Some (Inr (chain, cur))
        else case find_diff ds cur of None \<Rightarrow> Some (Inl (RollbackFailed msg))
          | Some parent \<Rightarrow> cc msg rb ds (base_id parent) (chain @ [parent])) = Some r"
      and r: "r = Inr x"
    have app: "find_diff ds cur = Some p \<Longrightarrow> find_diff (ds @ [d]) cur = Some p" for p
      by (simp add: find_diff_append)
    show "collect_chain msg rb (ds @ [d]) cur chain = Some (Inr x)"
      using step r app IH by (subst collect_chain.simps) (auto split: if_splits option.splits)
  qed
  with assms(2) show ?thesis by blast
qed

text \<open>Whether the loop finds a full snapshot depends neither on its message nor on what is already
  in the chain.\<close>

lemma collect_chain_retarget:
  assumes "collect_chain msg rb ds cur chain = Some (Inr x)"
  shows "\<exists>y. collect_chain msg' rb ds cur chain' = Some (Inr y)"
proof -
  let ?P = "\<lambda>(msg :: string) rb ds cur (chain :: diff_snapshot list)
    (r :: (diff_snapshot list \<times> uuid) result). \<not> isl r \<longrightarrow>
    (\<forall>chain'. \<exists>y. collect_chain msg' rb ds cur chain' = Some (Inr y))"
  have "?P msg rb ds cur chain (Inr x)"
  proof (rule collect_chain.raw_induct [where P = ?P, OF _ assms], intro impI allI)
    fix cc msg rb ds cur chain r chain'
    assume IH: "\<And>msg rb ds cur chain r. cc msg rb ds cur chain = Some r \<Longrightarrow> ?P msg rb ds cur chain r"
      and step: "(if ring_get rb cur \<noteq> None then Some (Inr (chain, cur))
        else case find_diff ds cur of None \<Rightarrow> Some (Inl (RollbackFailed msg))
          | Some parent \<Rightarrow> cc msg rb ds (base_id parent) (chain @ [parent])) = Some r"
      and r: "\<not> isl r"
    show "\<exists>y. collect_chain msg' rb ds cur chain' = Some (Inr y)"
      using step r IH by (subst collect_chain.simps) (auto split: if_splits option.splits)
  qed
  then show ?thesis by simp
qed

lemma find_diff_new:
  assumes "\<forall>e \<in> set ds. diff_id e \<noteq> diff_id d"
  shows "find_diff (ds @ [d]) (diff_id d) = Some d"
proof (cases "find_diff ds (diff_id d)")
  case None
  then show ?thesis unfolding find_diff_append by (simp add: find_diff_def)
next
  case (Some e)
  with assms find_diff_Some [OF Some] show ?thesis by blast
qed

lemma create_rollback:
  assumes inv: "store_inv env (m, g)" and "g (ce_id ce) = None"
    and "create_snapshot env ce mem fs es md m disk = (Inr s, m', disk')"
  shows "rollback_to env now (snap_id s) m' =
    (Inr \<lparr>rr_snapshot_id = snap_id s, rr_memory = mem, rr_execution_state = es,
          rr_fs_operations = fs_revert fs, rr_timestamp = now\<rparr>, count_rollback m')"
  using assms(3)
proof (cases rule: create_snapshot_cases)
  case (pushed s')
  note s = snapshot_new_ok [OF pushed(1)]
  have "s' = s" using pushed(5) by simp
  have "snap_id s \<notin> snap_id ` set (rb_snapshots (buffer m))"
    using ring_matches_dom [of env "buffer m" g "ce_id ce"] inv assms(2) s \<open>s' = s\<close>
    by (simp add: store_inv_def)
  then have "ring_get (buffer m') (snap_id s) = Some s"
    using ring_push_get [of "buffer m" s] inv pushed(2) \<open>s' = s\<close> by (simp add: store_inv_def)
  moreover have "decompress_memory env s = Inr mem"
    using s inv \<open>s' = s\<close> by (auto simp: decompress_memory_def store_inv_def zstd_ok_def)
  ultimately show ?thesis using s \<open>s' = s\<close> by (simp add: rollback_to_def)
qed simp

text \<open>
  A snapshot just taken can be rolled back to: creating a full snapshot in a reachable state,
  with any ring capacity, makes a rollback to its id succeed with the captured memory and execution
  state, the operations that undo its filesystem changes, and one more rollback counted.
\<close>

lemma create_then_rollback:
  assumes "reachable (store_init env) (store_step env) (m, g)" and "g (ce_id ce) = None"
    and "create_snapshot env ce mem fs es md m disk = (Inr s, m', disk')"
  shows "rollback_to env now (snap_id s) m' =
    (Inr \<lparr>rr_snapshot_id = snap_id s, rr_memory = mem, rr_execution_state = es,
          rr_fs_operations = fs_revert fs, rr_timestamp = now\<rparr>, count_rollback m')"
  by (rule create_rollback [OF snapstore.reachable_inv [OF assms(1)] assms(2,3)])

lemma create_diff_rollback:
  assumes inv: "store_inv env (m, g)" and fresh: "g (ce_id ce) = None"
    and adr: "addressable mem"
    and cr: "create_diff_snapshot env ce mem base es md m disk = Some (Inr (DiffCreated d), m', disk')"
  shows "rollback_to_diff env now (diff_id d) m' =
    Some (Inr \<lparr>rr_snapshot_id = diff_id d, rr_memory = mem, rr_execution_state = es,
               rr_fs_operations = [], rr_timestamp = now\<rparr>, count_rollback m')"
  using cr
proof (cases rule: create_diff_cases)
  case (diffed bmem gen d')
  note inv' = create_diff_inv [OF inv fresh adr cr]
  have dd: "d' = d" using diffed(4) by simp
  note fields = diff_new_fields [OF diffed(2), unfolded dd]
  have "\<forall>e \<in> set (diff_buffer m). diff_id e \<noteq> diff_id d"
    using inv fresh fields by (force simp: store_inv_def diff_matches_def)
  then have fd: "find_diff (diff_buffer m') (diff_id d) = Some d"
    using find_diff_new diffed(3) dd by simp
  obtain chain b where cc: "collect_chain ''Diff chain broken: cannot find snapshot {}'' (buffer m')
      (diff_buffer m') (base_id d) [d] = Some (Inr (chain, b))"
  proof (cases "ring_get (buffer m) base")
    case (Some s)
    with that show thesis using fields diffed(3) by (subst (asm) collect_chain.simps) simp
  next
    case None
    with diffed(1) obtain p x where p: "find_diff (diff_buffer m) base = Some p"
      and "collect_chain ''Diff chain broken at {}'' (buffer m) (diff_buffer m) (base_id p) [p] = Some (Inr x)"
      by (auto simp: reconstruct_memory_for_def split: option.splits sum.splits)
    then obtain y where "collect_chain ''Diff chain broken: cannot find snapshot {}'' (buffer m)
        (diff_buffer m) (base_id p) ([d] @ [p]) = Some (Inr y)"
      using collect_chain_retarget by blast
    with None p have "collect_chain ''Diff chain broken: cannot find snapshot {}'' (buffer m)
        (diff_buffer m) base [d] = Some (Inr y)"
      by (subst collect_chain.simps) simp
    from collect_chain_snoc [OF this refl, of d] that show thesis
      using fields diffed(3) dd by (cases y) simp
  qed
  from replay_sound [OF inv' fd cc, of "''Base snapshot {} not found''"] fields
  have "replay_chain env ''Base snapshot {} not found'' (buffer m') b chain = Inr mem" by auto
  with fd cc fields show ?thesis by (simp add: rollback_to_diff_def)
qed auto

text \<open>
  A diff just taken can be rolled back to: when \<open>create_diff_snapshot\<close> in a reachable state
  returns a diff, on a full snapshot or on another diff, rolling back to it succeeds and returns the
  current memory and execution state it was given.
\<close>

lemma create_diff_then_rollback:
  assumes "reachable (store_init env) (store_step env) (m, g)" and "g (ce_id ce) = None" and "addressable mem"
    and "create_diff_snapshot env ce mem base es md m disk = Some (Inr (DiffCreated d), m', disk')"
  shows "rollback_to_diff env now (diff_id d) m' =
    Some (Inr \<lparr>rr_snapshot_id = diff_id d, rr_memory = mem, rr_execution_state = es,
               rr_fs_operations = [], rr_timestamp = now\<rparr>, count_rollback m')"
  by (rule create_diff_rollback [OF snapstore.reachable_inv [OF assms(1)] assms(2-4)])

subsection \<open>Depth of diff chains\<close>

definition depth_inv :: "snap_env \<Rightarrow> u32 \<Rightarrow> snapshot_manager \<times> store \<Rightarrow> bool" where
  "depth_inv env mx = (\<lambda>(m, g). store_inv env (m, g) \<and> max_diff_depth m = mx
     \<and> (\<forall>d \<in> set (diff_buffer m). 1 \<le> unat (generation d) \<and> generation d \<le> mx
          \<and> (\<forall>p. find_diff (diff_buffer m) (base_id d) = Some p \<longrightarrow>
               unat (generation d) = unat (generation p) + 1)))"

definition depth_init :: "snap_env \<Rightarrow> u32 \<Rightarrow> snapshot_manager \<times> store \<Rightarrow> bool" where
  "depth_init env mx s \<longleftrightarrow> store_init env s \<and> max_diff_depth (fst s) = mx \<and> mx \<noteq> - 1"

lemma u32_succ: "d \<le> mx \<Longrightarrow> mx \<noteq> - 1 \<Longrightarrow> unat (d + 1) = unat d + 1" for d mx :: u32
proof -
  assume "d \<le> mx" "mx \<noteq> - 1"
  then have "d \<noteq> - 1" by (metis word_order.extremum_unique)
  then have "d + 1 \<noteq> 0" by (simp add: add_eq_0_iff2)
  then show ?thesis by (metis unatSuc add.commute Suc_eq_plus1)
qed

lemma depth_create_diff:
  assumes inv: "depth_inv env mx (m, g)" and mx: "mx \<noteq> - 1" and fresh: "g (ce_id ce) = None"
    and adr: "addressable mem"
    and cr: "create_diff_snapshot env ce mem base es md m disk = Some (r, m', disk')"
  shows "depth_inv env mx (m', g(ce_id ce \<mapsto> (mem, es)))"
proof -
  have si: "store_inv env (m, g)" using inv by (simp add: depth_inv_def)
  note si' = create_diff_inv [OF si fresh adr cr]
  from cr show ?thesis
  proof (cases rule: create_diff_cases)
    case (promoted r')
    from promoted(1) show ?thesis
      by (cases rule: create_snapshot_cases) (use inv si' in \<open>auto simp: depth_inv_def\<close>)
  next
    case (diffed bmem gen d)
    note f = diff_new_fields [OF diffed(2)]
    obtain bes where b: "g base = Some (bmem, bes)" using reconstruct_sound [OF si diffed(1)] by blast
    have new: "find_diff (diff_buffer m @ [d]) i = find_diff (diff_buffer m) i" if "i \<in> dom g" for i
      using that f fresh by (cases "find_diff (diff_buffer m) i") (auto simp: find_diff_append find_diff_def [of "[d]"])
    have old: "base_id e \<in> dom g" if "e \<in> set (diff_buffer m)" for e
      using si that by (auto simp: store_inv_def diff_matches_def)
    have gen: "1 \<le> unat gen \<and> (\<forall>p. find_diff (diff_buffer m) base = Some p \<longrightarrow>
        unat gen = unat (generation p) + 1)"
    proof (cases "find_diff (diff_buffer m) base")
      case (Some p)
      then have "generation p \<le> mx" using find_diff_Some [OF Some] inv by (auto simp: depth_inv_def)
      with Some u32_succ [OF this mx] diffed(5) show ?thesis by simp
    qed (use diffed(5) in simp)
    have "gen \<le> mx" using diffed(6) inv by (simp add: depth_inv_def)
    with gen old new inv f b si' show ?thesis
      unfolding depth_inv_def diffed(3) by (auto simp: domI)
  qed (use inv si' in \<open>auto simp: depth_inv_def\<close>)
qed

interpretation depth: inductive_invariant "depth_init env mx" "store_step env"
  "\<lambda>s. mx \<noteq> - 1 \<and> depth_inv env mx s" for env mx
proof unfold_locales
  show "depth_init env mx s \<Longrightarrow> mx \<noteq> - 1 \<and> depth_inv env mx s" for s
    using snapstore.init_inv [of env s]
    by (cases s) (auto simp: depth_init_def depth_inv_def store_init_def sm_new_def
        sm_with_persistence_def sm_with_max_diff_depth_def)
  show "mx \<noteq> - 1 \<and> depth_inv env mx s \<Longrightarrow> store_step env s t \<Longrightarrow> mx \<noteq> - 1 \<and> depth_inv env mx t"
    for s t
  proof -
    assume inv: "mx \<noteq> - 1 \<and> depth_inv env mx s" and st: "store_step env s t"
    have "store_inv env t"
      using snapstore.step_inv [OF _ st] inv by (cases s) (simp add: depth_inv_def)
    from st show ?thesis
    proof cases
      case (step_create g ce mem fs es md m disk r m' disk')
      from step_create(5) show ?thesis
        by (cases rule: create_snapshot_cases)
          (use inv step_create \<open>store_inv env t\<close> in \<open>auto simp: depth_inv_def\<close>)
    next
      case step_create_diff
      with inv depth_create_diff show ?thesis by blast
    qed (use inv in \<open>auto simp: depth_inv_def store_inv_count dest!: rollback_state rollback_diff_state\<close>)
  qed
qed

lemma collect_chain_length:
  assumes "collect_chain msg rb ds cur chain = Some r" and "r = Inr (chain', base)"
    and ds: "\<forall>d \<in> set ds. 1 \<le> unat (generation d) \<and> (\<forall>p. find_diff ds (base_id d) = Some p \<longrightarrow>
      unat (generation d) = unat (generation p) + 1)"
  shows "length chain' \<le> length chain + (case find_diff ds cur of Some p \<Rightarrow> unat (generation p) | None \<Rightarrow> 0)"
proof -
  let ?P = "\<lambda>msg rb ds cur chain r. \<forall>chain' base. r = Inr (chain', base) \<longrightarrow>
    (\<forall>d \<in> set ds. 1 \<le> unat (generation d) \<and> (\<forall>p. find_diff ds (base_id d) = Some p \<longrightarrow>
      unat (generation d) = unat (generation p) + 1)) \<longrightarrow>
    length chain' \<le> length chain + (case find_diff ds cur of Some p \<Rightarrow> unat (generation p) | None \<Rightarrow> 0)"
  have "?P msg rb ds cur chain r"
  proof (rule collect_chain.raw_induct [where P = ?P, OF _ assms(1)], intro allI impI)
    fix cc msg rb ds cur chain r chain' base
    assume IH: "\<And>msg rb ds cur chain r. cc msg rb ds cur chain = Some r \<Longrightarrow> ?P msg rb ds cur chain r"
      and step: "(if ring_get rb cur \<noteq> None then Some (Inr (chain, cur))
        else case find_diff ds cur of None \<Rightarrow> Some (Inl (RollbackFailed msg))
          | Some parent \<Rightarrow> cc msg rb ds (base_id parent) (chain @ [parent])) = Some r"
      and r: "r = Inr (chain', base)"
      and ds: "\<forall>d \<in> set ds. 1 \<le> unat (generation d) \<and> (\<forall>p. find_diff ds (base_id d) = Some p \<longrightarrow>
        unat (generation d) = unat (generation p) + 1)"
    show "length chain' \<le> length chain + (case find_diff ds cur of Some p \<Rightarrow> unat (generation p) | None \<Rightarrow> 0)"
    proof (cases "ring_get rb cur = None")
      case False
      with step r show ?thesis by simp
    next
      case True
      with step r obtain p where p: "find_diff ds cur = Some p"
        and rec: "cc msg rb ds (base_id p) (chain @ [p]) = Some (Inr (chain', base))"
        by (auto split: option.splits)
      from IH [OF rec] ds have "length chain' \<le> length (chain @ [p])
          + (case find_diff ds (base_id p) of Some q \<Rightarrow> unat (generation q) | None \<Rightarrow> 0)" by blast
      then show ?thesis using ds find_diff_Some [OF p] p
        by (cases "find_diff ds (base_id p)") fastforce+
    qed
  qed
  with assms(2) ds show ?thesis by blast
qed

text \<open>
  Diff chains stay short: with a configured maximum depth below \<open>u32::MAX\<close>, in every reachable
  state each retained diff has a generation between one and the maximum, and the chain a rollback
  collects for it is never longer than its generation, because the generation counts the diffs back
  to the full snapshot and a deeper diff is promoted instead.
\<close>

lemma diff_chain_depth:
  assumes "reachable (depth_init env mx) (store_step env) (m, g)" and "d \<in> set (diff_buffer m)"
    and "collect_chain msg (buffer m) (diff_buffer m) (base_id d) [d] = Some (Inr (chain, base))"
  shows "1 \<le> unat (generation d) \<and> generation d \<le> mx \<and> length chain \<le> unat (generation d)"
proof -
  have inv: "depth_inv env mx (m, g)" using depth.reachable_inv [OF assms(1)] by simp
  then have "\<forall>d \<in> set (diff_buffer m). 1 \<le> unat (generation d)
      \<and> (\<forall>p. find_diff (diff_buffer m) (base_id d) = Some p \<longrightarrow>
        unat (generation d) = unat (generation p) + 1)"
    by (simp add: depth_inv_def)
  from collect_chain_length [OF assms(3) refl this] this assms(2) inv show ?thesis
    by (cases "find_diff (diff_buffer m) (base_id d)") (fastforce simp: depth_inv_def)+
qed

subsection \<open>Persistence and live restore\<close>

text \<open>What the code relies on of bincode: deserializing inverts serializing.\<close>

definition bincode_ok :: "snap_env \<Rightarrow> bool" where
  "bincode_ok env \<longleftrightarrow>
     (\<forall>s b. bincode_serialize env s = Some b \<longrightarrow> bincode_deserialize env b = Some s)"

text \<open>
  A persisted snapshot can be loaded back: with persistence enabled, a successful
  \<open>create_snapshot\<close> has written a file from which \<open>load_snapshot\<close> returns the same snapshot, unless
  the file exceeds the 256 MiB guard.
\<close>

lemma persist_load_roundtrip:
  assumes "bincode_ok env" and "persist_enabled m"
    and "create_snapshot env ce mem fs es md m disk = (Inr s, m', disk')"
    and "bincode_serialize env s = Some b" and "length b \<le> MAX_SNAPSHOT_BYTES"
  shows "load_snapshot env m' (snap_id s) True disk' = Inr (Some s)"
  using assms
  by (auto simp: create_snapshot_def persist_snapshot_def load_snapshot_def bincode_ok_def Let_def hm_simps
      split: sum.splits option.splits if_splits prod.splits)

definition demo_disk_env :: snap_env where
  "demo_disk_env = demo_snap_env\<lparr>bincode_serialize := (\<lambda>s. if s = demo_snap 1 [4] then Some [4] else None)\<rparr>"

text \<open>What the code relies on of \<open>Memory::grow\<close>: it appends zero pages to the existing bytes.\<close>

definition grow_ok :: "(bytes \<Rightarrow> nat \<Rightarrow> bytes option) \<Rightarrow> bool" where
  "grow_ok grow \<longleftrightarrow> (\<forall>m n m'. grow m n = Some m' \<longrightarrow> m' = m @ replicate (n * 65536) 0)"

text \<open>
  Restoring a live memory writes the whole snapshot and never out of range: on success the
  memory starts with exactly the snapshot's bytes, it has grown by whole pages and only as far as
  needed, and whatever lay beyond the snapshot's length is left as it was.
\<close>

lemma restore_memory_spec:
  assumes "grow_ok grow" and "restore_memory grow mem bs = Inr mem'"
  shows "take (length bs) mem' = bs \<and> drop (length bs) mem' =
      (if length bs \<le> length mem then drop (length bs) mem
       else replicate (length mem' - length bs) 0)
    \<and> length mem \<le> length mem' \<and> length mem' < max (length mem + 1) (length bs + 65536)"
proof (cases "length mem < length bs")
  case False
  with assms(2) show ?thesis by (auto simp: restore_memory_def write_slice_def)
next
  case True
  define n where "n = div_ceil (length bs - length mem) 65536"
  have m': "mem' = write_slice (mem @ replicate (n * 65536) 0) 0 bs"
    using assms True by (auto simp: restore_memory_def grow_ok_def n_def split: option.splits)
  have "length bs \<le> length mem + n * 65536" "length mem + n * 65536 < length bs + 65536"
    using True div_ceil_mult [of "length bs - length mem" 65536]
      mod_less_divisor [of 65536 "length bs - length mem"] unfolding n_def
    by (auto split: if_splits)
  with True m' show ?thesis by (auto simp: write_slice_def)
qed

lemma restore_globals_rejects_mismatch:
  assumes "gs_mutable snap" and "hm_get inst (gs_name snap) = Some g"
    and "gset g (val_of_global (gs_value snap)) = None"
  shows "isl (fst (restore_globals gset (snap # rest) inst))"
  using assms by simp

lemma fs_revert_ignores_dirs: "fs_revert (d\<lparr>dirs_created := a, dirs_deleted := b\<rparr>) = fs_revert d"
  by (simp add: fs_revert_def)

end
