(* ===== verification/Failure_Recovery.thy ===== *)
theory Failure_Recovery
  imports Nexus_Error Float64
begin

text \<open>
  The failure taxonomy and what is derived from it: \<open>src/src/hypervisor/failure_mode.rs\<close>, the health
  status of \<open>src/src/hypervisor/validator/health.rs\<close>, the recovery policies of
  \<open>src/src/hypervisor/recovery.rs\<close> and the error log of \<open>src/src/hypervisor/validator/error_log.rs\<close>.
  A \<open>wasmtime::Trap\<close> is one of the variants the code names or another one, known by its debug name.
  Non-ASCII punctuation in messages is its UTF-8 encoding.
\<close>

subsection \<open>Failure modes\<close>

datatype failure_mode =
    Timeout u64 u64
  | FuelExhausted u64
  | TrapUnreachable
  | TrapDivByZero
  | TrapIntegerOverflow
  | TrapBadConversionToInteger
  | TrapStackOverflow
  | TrapMemoryOutOfBounds
  | TrapHeapMisaligned
  | TrapTableOutOfBounds
  | TrapIndirectCallToNull
  | TrapBadSignature
  | TrapNullReference
  | TrapCastFailure
  | TrapOther string
  | MemoryLimitExceeded u32 u32
  | InvalidModule string
  | MissingEntrypoint string
  | HostError string

datatype health_status =
    Healthy
  | Corrupted
  | HealthTimeout
  | ResourceExhausted
  | HealthFuelExhausted
  | Trapped
  | HealthInvalidModule

datatype trap =
    UnreachableCodeReached
  | IntegerDivisionByZero
  | IntegerOverflow
  | BadConversionToInteger
  | StackOverflow
  | MemoryOutOfBounds
  | HeapMisaligned
  | TableOutOfBounds
  | IndirectCallToNull
  | BadSignature
  | NullReference
  | CastFailure
  | OutOfFuel
  | OtherTrap string

fun category :: "failure_mode \<Rightarrow> string" where
  "category (Timeout _ _) = ''TIMEOUT''"
| "category (FuelExhausted _) = ''FUEL_EXHAUSTED''"
| "category TrapUnreachable = ''TRAP_UNREACHABLE''"
| "category TrapDivByZero = ''TRAP_DIV_BY_ZERO''"
| "category TrapIntegerOverflow = ''TRAP_INTEGER_OVERFLOW''"
| "category TrapBadConversionToInteger = ''TRAP_BAD_FLOAT_TO_INT''"
| "category TrapStackOverflow = ''TRAP_STACK_OVERFLOW''"
| "category TrapMemoryOutOfBounds = ''TRAP_MEMORY_OOB''"
| "category TrapHeapMisaligned = ''TRAP_HEAP_MISALIGNED''"
| "category TrapTableOutOfBounds = ''TRAP_TABLE_OOB''"
| "category TrapIndirectCallToNull = ''TRAP_INDIRECT_NULL''"
| "category TrapBadSignature = ''TRAP_BAD_SIGNATURE''"
| "category TrapNullReference = ''TRAP_NULL_REFERENCE''"
| "category TrapCastFailure = ''TRAP_CAST_FAILURE''"
| "category (TrapOther _) = ''TRAP_OTHER''"
| "category (MemoryLimitExceeded _ _) = ''MEMORY_LIMIT_EXCEEDED''"
| "category (InvalidModule _) = ''INVALID_MODULE''"
| "category (MissingEntrypoint _) = ''MISSING_ENTRYPOINT''"
| "category (HostError _) = ''HOST_ERROR''"

primrec describe :: "failure_mode \<Rightarrow> string" where
  "describe (Timeout limit_ms observed_ms) = ''Execution exceeded '' @ dec_u limit_ms @ ''ms (observed '' @ dec_u observed_ms @ ''ms)''"
| "describe (FuelExhausted limit) = ''Fuel budget of '' @ dec_u limit @ '' instructions exhausted''"
| "describe TrapUnreachable = ''WASM `unreachable` instruction reached''"
| "describe TrapDivByZero = ''Integer division by zero''"
| "describe TrapIntegerOverflow = ''Integer overflow''"
| "describe TrapBadConversionToInteger = ''Invalid float-to-integer conversion''"
| "describe TrapStackOverflow = ''Call stack exhausted (recursion / stack budget)''"
| "describe TrapMemoryOutOfBounds = ''Out-of-bounds linear memory access''"
| "describe TrapHeapMisaligned = ''Unaligned atomic access''"
| "describe TrapTableOutOfBounds = ''Out-of-bounds table access''"
| "describe TrapIndirectCallToNull = ''Indirect call to a null table entry''"
| "describe TrapBadSignature = ''Indirect call signature mismatch''"
| "describe TrapNullReference = ''Null reference dereferenced''"
| "describe TrapCastFailure = ''Type cast failure on a reference''"
| "describe (TrapOther s) = ''WASM trap: '' @ s"
| "describe (MemoryLimitExceeded pages limit_pages) = ''WASM memory grew to '' @ dec_u pages @ '' pages; limit is '' @ dec_u limit_pages"
| "describe (InvalidModule s) = ''Invalid WASM module: '' @ s"
| "describe (MissingEntrypoint expected) = ''Module has no exported `'' @ expected @ ''` function''"
| "describe (HostError s) = ''Host error: '' @ s"

fun is_deterministic :: "failure_mode \<Rightarrow> bool" where
  "is_deterministic TrapUnreachable = True"
| "is_deterministic TrapDivByZero = True"
| "is_deterministic TrapIntegerOverflow = True"
| "is_deterministic TrapBadConversionToInteger = True"
| "is_deterministic TrapMemoryOutOfBounds = True"
| "is_deterministic TrapHeapMisaligned = True"
| "is_deterministic TrapTableOutOfBounds = True"
| "is_deterministic TrapIndirectCallToNull = True"
| "is_deterministic TrapBadSignature = True"
| "is_deterministic TrapNullReference = True"
| "is_deterministic TrapCastFailure = True"
| "is_deterministic (TrapOther _) = True"
| "is_deterministic (InvalidModule _) = True"
| "is_deterministic (MissingEntrypoint _) = True"
| "is_deterministic _ = False"

fun requires_rollback :: "failure_mode \<Rightarrow> bool" where
  "requires_rollback (InvalidModule _) = False"
| "requires_rollback (MissingEntrypoint _) = False"
| "requires_rollback _ = True"

fun from_wasmtime_trap :: "trap \<Rightarrow> failure_mode" where
  "from_wasmtime_trap UnreachableCodeReached = TrapUnreachable"
| "from_wasmtime_trap IntegerDivisionByZero = TrapDivByZero"
| "from_wasmtime_trap IntegerOverflow = TrapIntegerOverflow"
| "from_wasmtime_trap BadConversionToInteger = TrapBadConversionToInteger"
| "from_wasmtime_trap StackOverflow = TrapStackOverflow"
| "from_wasmtime_trap MemoryOutOfBounds = TrapMemoryOutOfBounds"
| "from_wasmtime_trap HeapMisaligned = TrapHeapMisaligned"
| "from_wasmtime_trap TableOutOfBounds = TrapTableOutOfBounds"
| "from_wasmtime_trap IndirectCallToNull = TrapIndirectCallToNull"
| "from_wasmtime_trap BadSignature = TrapBadSignature"
| "from_wasmtime_trap NullReference = TrapNullReference"
| "from_wasmtime_trap CastFailure = TrapCastFailure"
| "from_wasmtime_trap OutOfFuel = FuelExhausted 0"
| "from_wasmtime_trap (OtherTrap dbg) = TrapOther dbg"

text \<open>A \<open>wasmtime::Error\<close> is its chain of causes, starting with itself, each given by its downcast to a
  trap.\<close>

definition from_anyhow_error :: "trap option list \<Rightarrow> failure_mode option" where
  "from_anyhow_error chain =
     (case chain of
        Some t # _ \<Rightarrow> Some (from_wasmtime_trap t)
      | _ \<Rightarrow> (case find (\<lambda>c. c \<noteq> None) chain of
                Some (Some t) \<Rightarrow> Some (from_wasmtime_trap t)
              | _ \<Rightarrow> None))"

fun health_of :: "failure_mode \<Rightarrow> health_status" where
  "health_of (Timeout _ _) = HealthTimeout"
| "health_of (FuelExhausted _) = HealthFuelExhausted"
| "health_of (MemoryLimitExceeded _ _) = ResourceExhausted"
| "health_of TrapStackOverflow = ResourceExhausted"
| "health_of TrapUnreachable = Trapped"
| "health_of TrapDivByZero = Trapped"
| "health_of TrapIntegerOverflow = Trapped"
| "health_of TrapBadConversionToInteger = Trapped"
| "health_of TrapMemoryOutOfBounds = Trapped"
| "health_of TrapHeapMisaligned = Trapped"
| "health_of TrapTableOutOfBounds = Trapped"
| "health_of TrapIndirectCallToNull = Trapped"
| "health_of TrapBadSignature = Trapped"
| "health_of TrapNullReference = Trapped"
| "health_of TrapCastFailure = Trapped"
| "health_of (TrapOther _) = Trapped"
| "health_of (InvalidModule _) = HealthInvalidModule"
| "health_of (MissingEntrypoint _) = HealthInvalidModule"
| "health_of (HostError _) = Corrupted"

definition is_healthy :: "health_status \<Rightarrow> bool" where
  "is_healthy h = (h = Healthy)"

definition health_requires_rollback :: "health_status \<Rightarrow> bool" where
  "health_requires_rollback h = (h \<notin> {Healthy, HealthInvalidModule})"

fun health_category :: "health_status \<Rightarrow> string" where
  "health_category Healthy = ''SUCCESS''"
| "health_category Corrupted = ''STATE_CORRUPTION''"
| "health_category HealthTimeout = ''TIMEOUT''"
| "health_category ResourceExhausted = ''RESOURCE_EXHAUSTED''"
| "health_category HealthFuelExhausted = ''INFINITE_LOOP_PREVENTED''"
| "health_category Trapped = ''WASM_TRAP''"
| "health_category HealthInvalidModule = ''INVALID_MODULE''"

subsection \<open>Recovery policies\<close>

datatype recovery_source = Static | Instinct | Llm

record recovery_action =
  ra_description :: string
  ra_confidence :: f32
  ra_source :: recovery_source
  ra_non_retryable :: bool
  ra_instinct_id :: "uuid option"

definition action_new :: "string \<Rightarrow> recovery_source \<Rightarrow> recovery_action" where
  "action_new description src =
     \<lparr>ra_description = description, ra_confidence = Fin 1, ra_source = src, ra_non_retryable = False,
      ra_instinct_id = None\<rparr>"

definition with_confidence :: "f32 \<Rightarrow> recovery_action \<Rightarrow> recovery_action" where
  "with_confidence c a = a\<lparr>ra_confidence := fl_clamp (Fin 0) (Fin 1) c\<rparr>"

definition with_non_retryable :: "bool \<Rightarrow> recovery_action \<Rightarrow> recovery_action" where
  "with_non_retryable nr a = a\<lparr>ra_non_retryable := nr\<rparr>"

definition with_instinct_id :: "uuid \<Rightarrow> recovery_action \<Rightarrow> recovery_action" where
  "with_instinct_id i a = a\<lparr>ra_instinct_id := Some i\<rparr>"

type_synonym recovery_policy = "failure_mode \<Rightarrow> string \<Rightarrow> recovery_action list"

definition em_dash :: string where
  "em_dash = [CHR 0xE2, CHR 0x80, CHR 0x94]"

definition ellipsis :: string where
  "ellipsis = [CHR 0xE2, CHR 0x80, CHR 0xA6]"

definition mk :: "string \<Rightarrow> recovery_action" where
  "mk s = action_new s Static"

primrec static_recover :: "failure_mode \<Rightarrow> recovery_action list" where
  "static_recover (Timeout limit_ms observed_ms) =
     [mk (''Watchdog fired at '' @ dec_u limit_ms @ '' ms; the sandbox guard already contained the run.''),
      with_confidence (f32_of (9/10)) (mk (''Add a per-tool fuel cap or iteration bound; convert any unbounded loop to a bounded/streaming algorithm with cooperative yield points.'')),
      with_confidence (f32_of (7/10)) (mk (''Only raise the timeout / fuel budget if profiling shows progress is being made.''))]"
| "static_recover (FuelExhausted limit) =
     [mk (''Fuel budget of '' @ dec_u limit @ '' instructions was consumed; the guard worked as designed.''),
      with_confidence (f32_of (9/10)) (mk (''Profile the WASM to find the hot loop, then either reduce its iteration count or raise the per-tool fuel cap with an explicit business rationale.'')),
      with_confidence (f32_of (7/10)) (mk (''Consider iterative or memoized algorithms instead of naive recursion/iteration over large inputs.''))]"
| "static_recover TrapUnreachable =
     [with_non_retryable True (mk (''Deterministic `unreachable` instruction reached '' @ em_dash @ '' likely an assertion failure or unhandled enum arm in the guest module.'')),
      with_non_retryable True (with_confidence (f32_of (9/10)) (mk (''Locate the failing instruction via the wasm backtrace (function index + offset). Fix the guest code or the invariant it expected.''))),
      with_non_retryable True (with_confidence (f32_of (1)) (mk (''Do NOT auto-retry with identical inputs; this failure is deterministic.'')))]"
| "static_recover TrapDivByZero =
     [with_non_retryable True (mk (''Integer divide-by-zero '' @ em_dash @ '' guard the divisor (`if denom == 0 { return '' @ ellipsis @ '' }`) or use checked-division at the call site.'')),
      with_non_retryable True (with_confidence (f32_of (9/10)) (mk (''Audit the input contract that allowed a zero divisor through; validation at the boundary is the right fix.''))),
      with_non_retryable True (with_confidence (f32_of (1)) (mk (''Do NOT auto-retry with identical inputs; this failure is deterministic.'')))]"
| "static_recover TrapIntegerOverflow =
     [with_non_retryable True (mk (''Integer overflow trap '' @ em_dash @ '' switch to wrapping/saturating arithmetic at the offending op, or widen the type.'')),
      with_non_retryable True (with_confidence (f32_of (17/20)) (mk (''Add a range check at the input boundary so out-of-range values are rejected before they reach the arithmetic.'')))]"
| "static_recover TrapBadConversionToInteger =
     [with_non_retryable True (mk (''Float-to-int conversion produced an out-of-range or NaN value; use a saturating-conversion variant or clamp the input.'')),
      with_non_retryable True (with_confidence (f32_of (17/20)) (mk (''If the source float is NaN, treat that case explicitly instead of converting.'')))]"
| "static_recover TrapStackOverflow =
     [with_non_retryable True (mk (''Call stack exhausted '' @ em_dash @ '' convert the recursive function to iteration, add an explicit depth bound, or restructure into trampolines.'')),
      with_non_retryable True (with_confidence (f32_of (17/20)) (mk (''Reject modules with unbounded recursion at validation; only legitimately deep, bounded workloads should raise the stack limit.'')))]"
| "static_recover TrapMemoryOutOfBounds =
     [with_non_retryable True (mk (''Out-of-bounds linear-memory access '' @ em_dash @ '' bounds-check the index before the load/store or use a memory.size guard.'')),
      with_non_retryable True (with_confidence (f32_of (17/20)) (mk (''Inspect the guest allocator for an off-by-one; ensure memory.grow happens before any access beyond the original heap.'')))]"
| "static_recover TrapHeapMisaligned =
     [with_non_retryable True (mk (''Atomic operation on a non-shared / misaligned address '' @ em_dash @ '' ensure the memory is shared and the address is naturally aligned for the atomic width.''))]"
| "static_recover TrapTableOutOfBounds =
     [with_non_retryable True (mk (''Out-of-bounds table access '' @ em_dash @ '' check the index against `table.size` before `call_indirect`.''))]"
| "static_recover TrapIndirectCallToNull =
     [with_non_retryable True (mk (''Indirect call to a null table slot '' @ em_dash @ '' populate the table entry with `table.set` before the call, or guard the slot at the call site.''))]"
| "static_recover TrapBadSignature =
     [with_non_retryable True (mk (''Indirect-call signature mismatch '' @ em_dash @ '' make the callee's actual signature match the `call_indirect` signature.''))]"
| "static_recover TrapNullReference =
     [with_non_retryable True (mk (''Null reference dereferenced '' @ em_dash @ '' null-check before use, or initialize the ref before passing it to the trapping op.''))]"
| "static_recover TrapCastFailure =
     [with_non_retryable True (mk (''Reference cast failed '' @ em_dash @ '' guard with `ref.test` before `ref.cast`, or fix the upstream type.''))]"
| "static_recover (TrapOther detail) =
     [with_non_retryable True (mk (''Deterministic WASM trap (subtype not yet classified): '' @ detail @ ''. Treat as non-retryable; classify the subtype before deciding on remediation.''))]"
| "static_recover (MemoryLimitExceeded pages limit_pages) =
     [mk (''WASM memory grew to '' @ dec_u pages @ '' pages but the per-tool limit is '' @ dec_u limit_pages @ ''; raise `max_memory_pages` or fix the guest allocator.''),
      with_confidence (f32_of (17/20)) (mk (''Stream large inputs rather than buffering them in linear memory; release no-longer-needed regions.''))]"
| "static_recover (InvalidModule detail) =
     [with_non_retryable True (mk (''Module failed to load: '' @ detail @ ''. Re-validate the WASM bytes and the toolchain output before retrying.'')),
      with_non_retryable True (with_confidence (f32_of (1)) (mk (''Do NOT roll back; no execution occurred and no state was mutated.'')))]"
| "static_recover (MissingEntrypoint expected) =
     [with_non_retryable True (mk (''Module exports no `'' @ expected @ ''` (or fallback `main`) function. Verify entrypoint at build time, or configure the executor to call the correct export explicitly.'')),
      with_non_retryable True (with_confidence (f32_of (1)) (mk (''Do NOT roll back; nothing executed.'')))]"
| "static_recover (HostError detail) =
     [mk (''Host-side error during execution plumbing: '' @ detail @ ''. This indicates a Nexus bug or a configuration issue, not a guest problem; capture full logs and file an issue.'')]"

definition static_policy :: recovery_policy where
  "static_policy mode operation = static_recover mode"

text \<open>The two nested loops of \<open>LayeredPolicy::recover\<close>, over the actions of all layers in order, with
  the set of descriptions seen so far.\<close>

fun dedup_actions :: "string list \<Rightarrow> recovery_action list \<Rightarrow> recovery_action list" where
  "dedup_actions seen [] = []"
| "dedup_actions seen (a # as) =
     (if ra_description a \<in> set seen then dedup_actions seen as
      else a # dedup_actions (ra_description a # seen) as)"

definition layered_policy :: "recovery_policy list \<Rightarrow> recovery_policy" where
  "layered_policy layers mode operation =
     dedup_actions [] (concat (map (\<lambda>layer. layer mode operation) layers))"

subsection \<open>The error log\<close>

record resource_snapshot =
  cpu_usage :: f32
  memory_used_mb :: u64
  memory_limit_mb :: u64
  rs_timestamp :: time

datatype capture_site = TrapSite | CheckpointSite

record stack_frame =
  sf_module_name :: "string option"
  sf_func_index :: u32
  sf_func_name :: "string option"
  sf_module_offset :: "u32 option"
  sf_func_offset :: "u32 option"

record captured_call_stack =
  frames :: "stack_frame list"
  captured_at :: capture_site

text \<open>\<open>to_u32\<close> and the conversion of a backtrace, whose frames wasmtime reports with \<open>usize\<close> offsets.\<close>

definition to_u32 :: "nat \<Rightarrow> u32 option" where
  "to_u32 v = (if v < 2 ^ 32 then Some (word_of_nat v) else None)"

record wasm_frame =
  wf_module_name :: "string option"
  wf_func_index :: u32
  wf_func_name :: "string option"
  wf_module_offset :: "nat option"
  wf_func_offset :: "nat option"

definition from_wasm_backtrace :: "wasm_frame list \<Rightarrow> capture_site \<Rightarrow> captured_call_stack" where
  "from_wasm_backtrace backtrace site =
     \<lparr>frames = map (\<lambda>f. \<lparr>sf_module_name = wf_module_name f, sf_func_index = wf_func_index f,
                         sf_func_name = wf_func_name f,
                         sf_module_offset = Option.bind (wf_module_offset f) to_u32,
                         sf_func_offset = Option.bind (wf_func_offset f) to_u32\<rparr>) backtrace,
      captured_at = site\<rparr>"

definition top_frames :: "nat \<Rightarrow> captured_call_stack \<Rightarrow> stack_frame list" where
  "top_frames limit c = take limit (frames c)"

record system_state =
  files_affected :: "string list"
  reverted :: bool
  ss_snapshot_id :: "string option"
  ss_execution_time_ms :: u64

record error_log =
  el_id :: string
  error_type :: string
  el_timestamp :: time
  el_operation :: string
  el_description :: string
  el_system_state :: system_state
  el_failure_mode :: failure_mode
  recovery_actions :: "recovery_action list"
  successful_patterns :: "string list"
  el_call_stack :: "captured_call_stack option"
  trigger_status :: health_status
  el_resources :: resource_snapshot

definition default_system_state :: system_state where
  "default_system_state = \<lparr>files_affected = [], reverted = False, ss_snapshot_id = None,
     ss_execution_time_ms = 0\<rparr>"

definition error_log_new ::
  "string \<Rightarrow> time \<Rightarrow> string \<Rightarrow> failure_mode \<Rightarrow> resource_snapshot \<Rightarrow> error_log" where
  "error_log_new new_id now operation mode resources =
     \<lparr>el_id = new_id, error_type = category mode, el_timestamp = now, el_operation = operation,
      el_description = describe mode, el_system_state = default_system_state, el_failure_mode = mode,
      recovery_actions = [], successful_patterns = [], el_call_stack = None,
      trigger_status = health_of mode, el_resources = resources\<rparr>"

definition with_recovery :: "recovery_action list \<Rightarrow> error_log \<Rightarrow> error_log" where
  "with_recovery actions l = l\<lparr>recovery_actions := actions\<rparr>"

definition with_patterns :: "string list \<Rightarrow> error_log \<Rightarrow> error_log" where
  "with_patterns patterns l = l\<lparr>successful_patterns := patterns\<rparr>"

definition with_system_state :: "system_state \<Rightarrow> error_log \<Rightarrow> error_log" where
  "with_system_state s l = l\<lparr>el_system_state := s\<rparr>"

definition with_call_stack :: "captured_call_stack option \<Rightarrow> error_log \<Rightarrow> error_log" where
  "with_call_stack c l = l\<lparr>el_call_stack := c\<rparr>"

subsection \<open>Lemmas\<close>

lemma mk_fields [simp]:
  "ra_description (mk s) = s" "ra_source (mk s) = Static" "\<not> ra_non_retryable (mk s)"
  "ra_instinct_id (mk s) = None"
  by (simp_all add: mk_def action_new_def)

lemma with_confidence_fields [simp]:
  "ra_description (with_confidence c a) = ra_description a" "ra_source (with_confidence c a) = ra_source a"
  "ra_non_retryable (with_confidence c a) = ra_non_retryable a"
  "ra_instinct_id (with_confidence c a) = ra_instinct_id a"
  by (simp_all add: with_confidence_def)

lemma with_non_retryable_fields [simp]:
  "ra_description (with_non_retryable nr a) = ra_description a" "ra_source (with_non_retryable nr a) = ra_source a"
  "ra_non_retryable (with_non_retryable nr a) = nr" "ra_instinct_id (with_non_retryable nr a) = ra_instinct_id a"
  by (simp_all add: with_non_retryable_def)

lemma dedup_actions_subseq: "subseq (dedup_actions seen as) as"
  by (induction seen as rule: dedup_actions.induct) auto

lemma dedup_actions_descriptions:
  "distinct (map ra_description (dedup_actions seen as))
   \<and> ra_description ` set (dedup_actions seen as) = ra_description ` set as - set seen"
  by (induction seen as rule: dedup_actions.induct) auto

lemma from_anyhow_error_eq:
  "from_anyhow_error chain = map_option from_wasmtime_trap (Option.bind (find (\<lambda>c. c \<noteq> None) chain) id)"
  by (auto simp: from_anyhow_error_def split: list.splits option.splits dest: find_Some_iff [THEN iffD1])

subsection \<open>Properties\<close>

text \<open>
  Classification is consistent: whether a failure asks for a rollback agrees with the health status
  derived from it, no failure is classified as healthy, and a trap anywhere in the chain of causes of a
  wasmtime error is found and always asks for a rollback.
\<close>

lemma classification_consistent:
  "requires_rollback mode = health_requires_rollback (health_of mode) \<and> \<not> is_healthy (health_of mode)
   \<and> (Some t \<in> set chain \<longrightarrow> (\<exists>m. from_anyhow_error chain = Some m \<and> requires_rollback m))"
proof -
  have "\<exists>m. from_anyhow_error chain = Some m \<and> requires_rollback m" if "Some t \<in> set chain"
  proof -
    have "find (\<lambda>c. c \<noteq> None) chain \<noteq> None" unfolding find_None_iff using that by auto
    then obtain c where c: "find (\<lambda>c. c \<noteq> None) chain = Some c" by blast
    then obtain u where "c = Some u" by (auto simp: find_Some_iff)
    moreover have "requires_rollback (from_wasmtime_trap u)" by (cases u) simp_all
    ultimately show ?thesis using c by (simp add: from_anyhow_error_eq)
  qed
  moreover have "requires_rollback mode = health_requires_rollback (health_of mode)" "\<not> is_healthy (health_of mode)"
    by (cases mode; simp add: health_requires_rollback_def is_healthy_def)+
  ultimately show ?thesis by blast
qed

text \<open>
  Static advice is total and says when not to retry: every failure mode gets at least one action,
  all from the static source, and they are marked non-retryable exactly for the deterministic failures
  and for a stack overflow (which \<open>is_deterministic\<close> leaves out).
\<close>

lemma static_advice_retryable:
  "static_policy mode operation \<noteq> []
   \<and> (\<forall>a \<in> set (static_policy mode operation). ra_source a = Static \<and> ra_instinct_id a = None
        \<and> ra_non_retryable a = (is_deterministic mode \<or> mode = TrapStackOverflow))"
  by (cases mode) (simp_all add: static_policy_def)

text \<open>
  Layering keeps priority and drops duplicates: the combined advice is a subsequence of the
  layers' advice in order, every description any layer gave appears, and appears once.
\<close>

lemma layered_policy_dedup:
  "subseq (layered_policy layers mode operation) (concat (map (\<lambda>l. l mode operation) layers))
   \<and> distinct (map ra_description (layered_policy layers mode operation))
   \<and> ra_description ` set (layered_policy layers mode operation) =
       (\<Union>l \<in> set layers. ra_description ` set (l mode operation))"
  using dedup_actions_subseq [of "[]"] dedup_actions_descriptions [of "[]"]
  by (auto simp: layered_policy_def)

end
