(* ===== verification/Sandbox.thy ===== *)
theory Sandbox
  imports Snapshot_Store Failure_Recovery
begin

text \<open>
  The WASM sandbox, \<open>src/src/sandbox/wasm_runtime.rs\<close>, and the captured memory of
  \<open>src/src/sandbox/wasm_memory.rs\<close>.

  wasmtime is the parameter \<open>wasmtime\<close>: compiling a binary, instantiating a module under a memory
  limit and a fuel budget, growing a memory, setting a global and calling an exported function. A
  compiled module is any type \<open>'m\<close>. An instance is what the host sees of it: the memory exported
  as \<open>memory\<close>, the exported globals and tables in export order and the exported functions without
  parameters and results. The linker is empty, so that a run depends on nothing else but on how it
  is scheduled against the epoch (the argument \<open>xe_sched\<close>). What the call reads from its
  surroundings, the clock and whether the worker replied in time, is the record \<open>exec_env\<close>.
  A \<open>Duration\<close> is its number of nanoseconds.
\<close>

subsection \<open>Durations\<close>

type_synonym duration = nat

definition as_millis :: "duration \<Rightarrow> nat" where
  "as_millis d = d div 1000000"

definition duration_millis :: "duration \<Rightarrow> u64" where
  "duration_millis d = word_of_nat (min (as_millis d) (2 ^ 64 - 1))"

definition timeout_mode :: "duration \<Rightarrow> duration \<Rightarrow> failure_mode" where
  "timeout_mode time_limit obs = Timeout (duration_millis time_limit) (duration_millis obs)"

subsection \<open>Configuration and results\<close>

record sandbox_config =
  max_fuel :: u64
  max_memory_pages :: u32
  time_limit :: duration
  module_bytes :: "bytes option"
  enable_wasi :: bool

definition default_sandbox_config :: sandbox_config where
  "default_sandbox_config = \<lparr>max_fuel = 10000000, max_memory_pages = 512, time_limit = 500 * 1000000,
     module_bytes = None, enable_wasi = True\<rparr>"

record execution_result =
  xr_success :: bool
  xr_return_value :: "bytes option"
  xr_fuel_consumed :: u64
  xr_duration_ms :: u64
  xr_error :: "string option"
  xr_failure_mode :: "failure_mode option"
  xr_pre_call_memory :: "bytes option"
  xr_syscall_count :: u32
  xr_post_call_globals :: "global_snapshot list option"
  xr_post_call_tables :: "table_snapshot list option"
  xr_call_stack :: "captured_call_stack option"

definition xr_of_success :: "bytes \<Rightarrow> u64 \<Rightarrow> u64 \<Rightarrow> execution_result" where
  "xr_of_success return_value fuel_consumed duration_ms =
     \<lparr>xr_success = True, xr_return_value = Some return_value, xr_fuel_consumed = fuel_consumed,
      xr_duration_ms = duration_ms, xr_error = None, xr_failure_mode = None, xr_pre_call_memory = None,
      xr_syscall_count = 0, xr_post_call_globals = None, xr_post_call_tables = None, xr_call_stack = None\<rparr>"

definition xr_with_pre_call_memory :: "bytes option \<Rightarrow> execution_result \<Rightarrow> execution_result" where
  "xr_with_pre_call_memory mem r = r\<lparr>xr_pre_call_memory := mem\<rparr>"

definition xr_with_call_stack :: "captured_call_stack option \<Rightarrow> execution_result \<Rightarrow> execution_result" where
  "xr_with_call_stack c r = r\<lparr>xr_call_stack := c\<rparr>"

definition xr_with_post_call_state ::
  "global_snapshot list \<Rightarrow> table_snapshot list \<Rightarrow> execution_result \<Rightarrow> execution_result" where
  "xr_with_post_call_state gs ts r = r\<lparr>xr_post_call_globals := Some gs, xr_post_call_tables := Some ts\<rparr>"

definition failure_from_mode :: "failure_mode \<Rightarrow> u64 \<Rightarrow> u64 \<Rightarrow> execution_result" where
  "failure_from_mode mode fuel_consumed duration_ms =
     \<lparr>xr_success = False, xr_return_value = None, xr_fuel_consumed = fuel_consumed,
      xr_duration_ms = duration_ms, xr_error = Some (describe mode), xr_failure_mode = Some mode,
      xr_pre_call_memory = None, xr_syscall_count = 0, xr_post_call_globals = None,
      xr_post_call_tables = None, xr_call_stack = None\<rparr>"

record step_capture =
  st_fuel_consumed :: u64
  st_completed :: bool
  st_memory :: "bytes option"
  st_globals :: "global_snapshot list"

record restored_execution_state =
  re_memory :: bytes
  re_execution_state :: execution_state

definition restored_from_rollback :: "rollback_result \<Rightarrow> restored_execution_state" where
  "restored_from_rollback r = \<lparr>re_memory = rr_memory r, re_execution_state = rr_execution_state r\<rparr>"

subsection \<open>wasmtime\<close>

text \<open>A global's value, if it is of a numeric type.\<close>

record wasm_global =
  wg_mutable :: bool
  wg_value :: "wasm_val option"

record wasm_instance =
  wi_memory :: "bytes option"
  wi_globals :: "(string, wasm_global) hashmap"
  wi_tables :: "(string, nat) hashmap"
  wi_funcs :: "string list"

record wasm_store =
  ws_instance :: wasm_instance
  ws_fuel :: "u64 option"

record call_error =
  err_chain :: "trap option list"
  err_backtrace :: "wasm_frame list option"
  err_display :: string

record 'm wasmtime =
  wt_from_binary :: "bytes \<Rightarrow> string + 'm"
  wt_set_fuel :: "u64 \<Rightarrow> string option"
  wt_instantiate :: "'m \<Rightarrow> nat \<Rightarrow> u64 \<Rightarrow> string + wasm_store"
  wt_grow :: "nat \<Rightarrow> bytes \<Rightarrow> nat \<Rightarrow> bytes option"
  wt_gset :: "wasm_global \<Rightarrow> wasm_val \<Rightarrow> wasm_global option"
  wt_call :: "nat \<Rightarrow> 'm \<Rightarrow> string \<Rightarrow> wasm_store \<Rightarrow> wasm_store \<times> call_error option"

datatype recv_outcome = Replied | RecvTimeout | RecvDisconnected

record exec_env =
  xe_sched :: nat
  xe_recv :: recv_outcome
  xe_compile_elapsed :: duration
  xe_worker_elapsed :: duration
  xe_recv_elapsed :: duration
  xe_end_elapsed :: duration

definition is_epoch_interrupt :: "call_error \<Rightarrow> bool" where
  "is_epoch_interrupt e = (Some (OtherTrap ''Interrupt'') \<in> set (err_chain e))"

subsection \<open>The worker\<close>

fun global_of_val :: "wasm_val \<Rightarrow> global_value" where
  "global_of_val (ValI32 v) = I32 v"
| "global_of_val (ValI64 v) = I64 v"
| "global_of_val (ValF32 v) = F32 v"
| "global_of_val (ValF64 v) = F64 v"

fun capture_globals :: "(string, wasm_global) hashmap \<Rightarrow> global_snapshot list" where
  "capture_globals [] = []"
| "capture_globals ((name, g) # rest) =
     (case wg_value g of
        None \<Rightarrow> capture_globals rest
      | Some v \<Rightarrow> \<lparr>gs_name = name, gs_value = global_of_val v, gs_mutable = wg_mutable g\<rparr> # capture_globals rest)"

definition capture_tables :: "(string, nat) hashmap \<Rightarrow> table_snapshot list" where
  "capture_tables ts = map (\<lambda>(name, size). \<lparr>ts_name = name, ts_size = word_of_nat size\<rparr>) ts"

definition max_memory_bytes :: "sandbox_config \<Rightarrow> nat" where
  "max_memory_bytes cfg = unat (max_memory_pages cfg) * 65536"

text \<open>The input is written as \<open>[len: u32 LE][data]\<close> when there is room for it.\<close>

definition write_input :: "bytes \<Rightarrow> bytes option \<Rightarrow> bytes option" where
  "write_input input_data m =
     (case m of
        None \<Rightarrow> None
      | Some mem \<Rightarrow>
          (if input_data \<noteq> [] \<and> 4 + length input_data \<le> length mem
           then Some (write_slice (write_slice mem 0 (u32_le (word_of_nat (length input_data)))) 4 input_data)
           else Some mem))"

definition resolve_entry :: "string list \<Rightarrow> string \<Rightarrow> string option" where
  "resolve_entry funcs entry_point =
     (if entry_point \<in> set funcs then Some entry_point
      else if entry_point = ''_start'' \<and> ''main'' \<in> set funcs then Some ''main''
      else None)"

text \<open>Seeding a fresh instance from a restored state: the message of the first failing step, or the
  instance.\<close>

definition seed_instance ::
  "'m wasmtime \<Rightarrow> nat \<Rightarrow> restored_execution_state option \<Rightarrow> wasm_instance \<Rightarrow> string + wasm_instance" where
  "seed_instance wt limit restored_state inst =
     (case restored_state of
        None \<Rightarrow> Inr inst
      | Some restored \<Rightarrow>
          (case (case wi_memory inst of
                   None \<Rightarrow> Inr None
                 | Some mem \<Rightarrow> map_sum id Some (restore_memory (wt_grow wt limit) mem (re_memory restored))) of
             Inl e \<Rightarrow> Inl ''snapshot memory restore failed: {e}''
           | Inr mem' \<Rightarrow>
               (case restore_globals (wt_gset wt) (captured_globals (re_execution_state restored)) (wi_globals inst) of
                  (Inl e, _) \<Rightarrow> Inl ''snapshot globals restore failed: {e}''
                | (Inr _, gs) \<Rightarrow> Inr (inst\<lparr>wi_memory := mem', wi_globals := gs\<rparr>))))"

datatype exec_reply =
    ReplyOk u64 "bytes option" "global_snapshot list" "table_snapshot list"
  | ReplyFailed failure_mode u64 "bytes option" "global_snapshot list" "table_snapshot list"
      "captured_call_stack option"

definition call_failure_mode :: "exec_env \<Rightarrow> sandbox_config \<Rightarrow> call_error \<Rightarrow> failure_mode" where
  "call_failure_mode xe cfg e =
     (if is_epoch_interrupt e then timeout_mode (time_limit cfg) (xe_worker_elapsed xe)
      else case (case from_anyhow_error (err_chain e) of
                   Some m \<Rightarrow> m
                 | None \<Rightarrow> HostError (''wasm error: '' @ err_display e)) of
             FuelExhausted _ \<Rightarrow> FuelExhausted (max_fuel cfg)
           | other \<Rightarrow> other)"

definition worker ::
  "'m wasmtime \<Rightarrow> exec_env \<Rightarrow> sandbox_config \<Rightarrow> 'm \<Rightarrow> bytes \<Rightarrow> restored_execution_state option \<Rightarrow> string
   \<Rightarrow> exec_reply" where
  "worker wt xe cfg md input_data restored_state entry_point =
     (case wt_set_fuel wt (max_fuel cfg) of
        Some e \<Rightarrow> ReplyFailed (HostError (''set_fuel failed: '' @ e)) 0 None [] [] None
      | None \<Rightarrow>
     (case wt_instantiate wt md (max_memory_bytes cfg) (max_fuel cfg) of
        Inl e \<Rightarrow> ReplyFailed (InvalidModule (''instantiate failed: '' @ e)) 0 None [] [] None
      | Inr store \<Rightarrow>
     (case seed_instance wt (max_memory_bytes cfg) restored_state (ws_instance store) of
        Inl msg \<Rightarrow> ReplyFailed (HostError msg) 0 None [] [] None
      | Inr inst \<Rightarrow>
          (let pre_call_memory = wi_memory inst;
               ready = store\<lparr>ws_instance := inst\<lparr>wi_memory := write_input input_data (wi_memory inst)\<rparr>\<rparr>
           in case resolve_entry (wi_funcs inst) entry_point of
                None \<Rightarrow> ReplyFailed (MissingEntrypoint entry_point) 0 pre_call_memory [] [] None
              | Some f \<Rightarrow>
                  (case wt_call wt (xe_sched xe) md f ready of
                     (store', outcome) \<Rightarrow>
                       (let fuel_remaining = (case ws_fuel store' of Some r \<Rightarrow> r | None \<Rightarrow> 0);
                            fuel_consumed = saturating_sub (max_fuel cfg) fuel_remaining;
                            gs = capture_globals (wi_globals (ws_instance store'));
                            ts = capture_tables (wi_tables (ws_instance store'))
                        in case outcome of
                             None \<Rightarrow> ReplyOk fuel_consumed pre_call_memory gs ts
                           | Some e \<Rightarrow>
                               ReplyFailed (call_failure_mode xe cfg e) fuel_consumed pre_call_memory gs ts
                                 (map_option (\<lambda>bt. from_wasm_backtrace bt TrapSite) (err_backtrace e))))))))"

subsection \<open>Executing a module\<close>

definition first_arg :: "bytes list \<Rightarrow> bytes" where
  "first_arg args = (case args of [] \<Rightarrow> [] | a # _ \<Rightarrow> a)"

definition execute_module_inner ::
  "'m wasmtime \<Rightarrow> exec_env \<Rightarrow> sandbox_config \<Rightarrow> 'm \<Rightarrow> bytes list \<Rightarrow> restored_execution_state option \<Rightarrow> string
   \<Rightarrow> execution_result result" where
  "execute_module_inner wt xe cfg md args restored_state entry_point =
     (let duration_ms = word_of_nat (as_millis (xe_recv_elapsed xe))
      in case xe_recv xe of
           Replied \<Rightarrow>
             (case worker wt xe cfg md (first_arg args) restored_state entry_point of
                ReplyOk fuel mem gs ts \<Rightarrow>
                  Inr (xr_with_post_call_state gs ts
                        (xr_with_pre_call_memory mem (xr_of_success [] fuel duration_ms)))
              | ReplyFailed mode fuel mem gs ts cs \<Rightarrow>
                  Inr (xr_with_call_stack cs (xr_with_post_call_state gs ts
                        (xr_with_pre_call_memory mem (failure_from_mode mode fuel duration_ms)))))
         | RecvTimeout \<Rightarrow>
             Inr (failure_from_mode (timeout_mode (time_limit cfg) (xe_end_elapsed xe)) 0 duration_ms)
         | RecvDisconnected \<Rightarrow>
             Inr (failure_from_mode (HostError ''worker thread disconnected before sending a result'') 0 duration_ms))"

definition execute_module_with_entry ::
  "'m wasmtime \<Rightarrow> exec_env \<Rightarrow> sandbox_config \<Rightarrow> 'm \<Rightarrow> bytes list \<Rightarrow> string \<Rightarrow> execution_result result" where
  "execute_module_with_entry wt xe cfg md args entry_point =
     execute_module_inner wt xe cfg md args None entry_point"

definition execute_with_entry ::
  "'m wasmtime \<Rightarrow> exec_env \<Rightarrow> sandbox_config \<Rightarrow> bytes \<Rightarrow> bytes list \<Rightarrow> string \<Rightarrow> execution_result result" where
  "execute_with_entry wt xe cfg wasm_bytes args entry_point =
     (case wt_from_binary wt wasm_bytes of
        Inl e \<Rightarrow> Inr (failure_from_mode (InvalidModule e) 0 (word_of_nat (as_millis (xe_compile_elapsed xe))))
      | Inr md \<Rightarrow> execute_module_with_entry wt xe cfg md args entry_point)"

definition execute_from_restored_state_with_entry ::
  "'m wasmtime \<Rightarrow> exec_env \<Rightarrow> sandbox_config \<Rightarrow> bytes \<Rightarrow> bytes list \<Rightarrow> restored_execution_state \<Rightarrow> string
   \<Rightarrow> execution_result result" where
  "execute_from_restored_state_with_entry wt xe cfg wasm_bytes args restored_state entry_point =
     (case wt_from_binary wt wasm_bytes of
        Inl e \<Rightarrow> Inr (failure_from_mode (InvalidModule e) 0 (word_of_nat (as_millis (xe_compile_elapsed xe))))
      | Inr md \<Rightarrow> execute_module_inner wt xe cfg md args (Some restored_state) entry_point)"

subsection \<open>Bounded replay\<close>

datatype step_reply =
    StepCaptured u64 bool "bytes option" "global_snapshot list"
  | StepDegenerate
  | StepFailed string

definition call_completed :: "call_error option \<Rightarrow> bool" where
  "call_completed outcome =
     (case outcome of
        None \<Rightarrow> True
      | Some e \<Rightarrow> \<not> is_epoch_interrupt e
          \<and> (case from_anyhow_error (err_chain e) of Some (FuelExhausted _) \<Rightarrow> False | _ \<Rightarrow> True))"

definition step_worker ::
  "'m wasmtime \<Rightarrow> exec_env \<Rightarrow> sandbox_config \<Rightarrow> 'm \<Rightarrow> bytes \<Rightarrow> u64 \<Rightarrow> step_reply" where
  "step_worker wt xe cfg md input_data fuel_cap =
     (case wt_set_fuel wt fuel_cap of
        Some e \<Rightarrow> StepFailed (''set_fuel failed: '' @ e)
      | None \<Rightarrow>
     (case wt_instantiate wt md (max_memory_bytes cfg) fuel_cap of
        Inl e \<Rightarrow> StepDegenerate
      | Inr store \<Rightarrow>
          (let inst = ws_instance store;
               ready = store\<lparr>ws_instance := inst\<lparr>wi_memory := write_input input_data (wi_memory inst)\<rparr>\<rparr>
           in case resolve_entry (wi_funcs inst) ''_start'' of
                None \<Rightarrow> StepDegenerate
              | Some f \<Rightarrow>
                  (case wt_call wt (xe_sched xe) md f ready of
                     (store', outcome) \<Rightarrow>
                       (let fuel_remaining = (case ws_fuel store' of Some r \<Rightarrow> r | None \<Rightarrow> 0)
                        in StepCaptured (saturating_sub fuel_cap fuel_remaining) (call_completed outcome)
                             (wi_memory (ws_instance store'))
                             (capture_globals (wi_globals (ws_instance store'))))))))"

definition execute_to_fuel ::
  "'m wasmtime \<Rightarrow> exec_env \<Rightarrow> sandbox_config \<Rightarrow> bytes \<Rightarrow> bytes list \<Rightarrow> u64 \<Rightarrow> step_capture result" where
  "execute_to_fuel wt xe cfg wasm_bytes args fuel_cap =
     (case wt_from_binary wt wasm_bytes of
        Inl e \<Rightarrow> Inl (WasmError (''compile failed: '' @ e))
      | Inr md \<Rightarrow>
          (case xe_recv xe of
             Replied \<Rightarrow>
               (case step_worker wt xe cfg md (first_arg args) fuel_cap of
                  StepCaptured fuel completed mem gs \<Rightarrow>
                    Inr \<lparr>st_fuel_consumed = fuel, st_completed = completed, st_memory = mem, st_globals = gs\<rparr>
                | StepDegenerate \<Rightarrow>
                    Inr \<lparr>st_fuel_consumed = 0, st_completed = True, st_memory = None, st_globals = []\<rparr>
                | StepFailed msg \<Rightarrow> Inl (WasmError msg))
           | RecvTimeout \<Rightarrow> Inl (nexus_error.Timeout (word_of_nat (as_millis (time_limit cfg))))
           | RecvDisconnected \<Rightarrow> Inl (WasmError ''worker thread disconnected before capturing step'')))"

subsection \<open>Captured memory\<close>

record wasm_memory_state =
  wm_pages :: "bytes list"
  wm_page_count :: u32
  wm_size_bytes :: nat

definition wasm_memory_empty :: wasm_memory_state where
  "wasm_memory_empty = \<lparr>wm_pages = [], wm_page_count = 0, wm_size_bytes = 0\<rparr>"

definition wasm_memory_from_bytes :: "bytes \<Rightarrow> wasm_memory_state" where
  "wasm_memory_from_bytes bs = \<lparr>wm_pages = chunks 65536 bs,
     wm_page_count = word_of_nat (div_ceil (length bs) 65536), wm_size_bytes = length bs\<rparr>"

definition wasm_memory_total_size :: "wasm_memory_state \<Rightarrow> nat" where
  "wasm_memory_total_size m = sum_list (map length (wm_pages m))"

definition wasm_memory_as_bytes :: "wasm_memory_state \<Rightarrow> bytes" where
  "wasm_memory_as_bytes m = concat (wm_pages m)"

definition wasm_memory_compression_info :: "wasm_memory_state \<Rightarrow> nat \<times> nat" where
  "wasm_memory_compression_info m = (wm_size_bytes m, wasm_memory_total_size m)"

subsection \<open>Well-formed results\<close>

text \<open>What every caller of the sandbox relies on: the flag, the classification and the message agree, a
  value is returned exactly on success, no more fuel than the budget is accounted for, and a load-time
  failure consumed nothing.\<close>

definition result_wf :: "sandbox_config \<Rightarrow> execution_result \<Rightarrow> bool" where
  "result_wf cfg r \<longleftrightarrow>
     (xr_success r \<longleftrightarrow> xr_failure_mode r = None)
     \<and> xr_error r = map_option describe (xr_failure_mode r)
     \<and> (xr_success r \<longleftrightarrow> xr_return_value r = Some [])
     \<and> xr_fuel_consumed r \<le> max_fuel cfg
     \<and> (\<forall>m. xr_failure_mode r = Some m \<and> \<not> requires_rollback m \<longrightarrow> xr_fuel_consumed r = 0)
     \<and> (\<forall>l. xr_failure_mode r = Some (FuelExhausted l) \<longrightarrow> l = max_fuel cfg)
     \<and> (xr_success r \<longrightarrow> xr_call_stack r = None \<and> xr_post_call_globals r \<noteq> None)"

lemma saturating_sub_le: "saturating_sub a b \<le> a"
  by (simp add: word_le_nat_alt unat_saturating_sub)

lemma from_anyhow_error_runtime:
  "from_anyhow_error chain = Some m \<Longrightarrow> requires_rollback m"
proof -
  have t: "requires_rollback (from_wasmtime_trap t)" for t by (cases t) simp_all
  assume "from_anyhow_error chain = Some m"
  then show ?thesis by (auto simp: from_anyhow_error_def t split: list.splits option.splits)
qed

lemma call_failure_mode_runtime:
  "requires_rollback (call_failure_mode xe cfg e)"
  "call_failure_mode xe cfg e = FuelExhausted l \<Longrightarrow> l = max_fuel cfg"
  using from_anyhow_error_runtime [of "err_chain e"]
  by (auto simp: call_failure_mode_def timeout_mode_def split: option.splits failure_mode.splits if_splits)

lemmas xr_defs = xr_of_success_def xr_with_pre_call_memory_def xr_with_call_stack_def
  xr_with_post_call_state_def failure_from_mode_def

lemma failure_from_mode_wf:
  "(\<And>l. m = FuelExhausted l \<Longrightarrow> l = max_fuel cfg) \<Longrightarrow> result_wf cfg (failure_from_mode m 0 d)"
  by (auto simp: result_wf_def failure_from_mode_def)

text \<open>What the worker sends, read as a result.\<close>

definition reply_wf :: "sandbox_config \<Rightarrow> exec_reply \<Rightarrow> bool" where
  "reply_wf cfg r = (case r of
      ReplyOk fuel mem gs ts \<Rightarrow> fuel \<le> max_fuel cfg
    | ReplyFailed mode fuel mem gs ts cs \<Rightarrow> fuel \<le> max_fuel cfg
        \<and> (\<not> requires_rollback mode \<longrightarrow> fuel = 0)
        \<and> (\<forall>l. mode = FuelExhausted l \<longrightarrow> l = max_fuel cfg))"

lemma worker_wf: "reply_wf cfg (worker wt xe cfg md input_data restored_state entry_point)"
  by (auto simp: worker_def reply_wf_def Let_def saturating_sub_le call_failure_mode_runtime
      split: option.splits sum.splits prod.splits)

lemma execute_module_inner_wf:
  "\<exists>r. execute_module_inner wt xe cfg md args restored_state entry_point = Inr r \<and> result_wf cfg r"
proof (cases "xe_recv xe")
  case Replied
  show ?thesis
    using worker_wf [of cfg wt xe md "first_arg args" restored_state entry_point] Replied
    by (cases "worker wt xe cfg md (first_arg args) restored_state entry_point")
      (auto simp: execute_module_inner_def reply_wf_def result_wf_def xr_defs)
qed (auto simp: execute_module_inner_def timeout_mode_def intro!: failure_from_mode_wf)

lemma execute_with_entry_wf:
  "\<exists>r. execute_with_entry wt xe cfg wasm args entry_point = Inr r \<and> result_wf cfg r"
  by (auto simp: execute_with_entry_def execute_module_with_entry_def execute_module_inner_wf
      intro!: failure_from_mode_wf split: sum.splits)

subsection \<open>Restoring what was captured\<close>

text \<open>What the code relies on of \<open>Global::set\<close>: it stores a value of the global's own type into a mutable
  global and refuses anything else.\<close>

fun same_type :: "wasm_val \<Rightarrow> wasm_val \<Rightarrow> bool" where
  "same_type (ValI32 _) (ValI32 _) = True"
| "same_type (ValI64 _) (ValI64 _) = True"
| "same_type (ValF32 _) (ValF32 _) = True"
| "same_type (ValF64 _) (ValF64 _) = True"
| "same_type _ _ = False"

definition gset_ok :: "(wasm_global \<Rightarrow> wasm_val \<Rightarrow> wasm_global option) \<Rightarrow> bool" where
  "gset_ok gset \<longleftrightarrow> (\<forall>g w v. wg_mutable g \<and> wg_value g = Some w \<and> same_type w v
     \<longrightarrow> gset g v = Some (g\<lparr>wg_value := Some v\<rparr>))"

text \<open>Two instances of one module: the same exported globals, of the same types, constants with the same
  values.\<close>

definition same_global :: "string \<times> wasm_global \<Rightarrow> string \<times> wasm_global \<Rightarrow> bool" where
  "same_global a b \<longleftrightarrow> fst a = fst b \<and> wg_mutable (snd a) = wg_mutable (snd b)
     \<and> (case (wg_value (snd a), wg_value (snd b)) of
          (Some v, Some w) \<Rightarrow> same_type w v \<and> (\<not> wg_mutable (snd a) \<longrightarrow> v = w)
        | (None, None) \<Rightarrow> True
        | _ \<Rightarrow> False)"

lemma val_of_global_of_val [simp]: "val_of_global (global_of_val v) = v"
  by (cases v) simp_all

lemma hm_insert_middle:
  "k \<notin> fst ` set P \<Longrightarrow> hm_insert k v (P @ (k, w) # I) = P @ (k, v) # I"
  by (induction P) auto

lemma hm_get_middle: "k \<notin> fst ` set P \<Longrightarrow> hm_get (P @ (k, w) # I) k = Some w"
  by (induction P) auto

lemma restore_globals_capture:
  assumes "gset_ok gset" and "list_all2 same_global G I" and "hm_wf (P @ I)"
  shows "\<exists>I'. restore_globals gset (capture_globals G) (P @ I) = (Inr (), P @ I')
    \<and> capture_globals I' = capture_globals G \<and> map fst I' = map fst I"
  using assms(2,3)
proof (induction arbitrary: P rule: list_all2_induct)
  case Nil
  then show ?case by simp
next
  case (Cons a G b I)
  obtain k g h where ab: "a = (k, g)" "b = (k, h)" and mut: "wg_mutable g = wg_mutable h"
    using Cons.hyps(1) by (cases a; cases b) (auto simp: same_global_def)
  have k: "k \<notin> fst ` set P" using Cons.prems by (auto simp: ab)
  have IH: "\<exists>I'. restore_globals gset (capture_globals G) (P @ (k, h') # I) = (Inr (), P @ (k, h') # I')
      \<and> capture_globals I' = capture_globals G \<and> map fst I' = map fst I" for h'
    using Cons.IH [of "P @ [(k, h')]"] Cons.prems by (simp add: ab)
  show ?case
  proof (cases "wg_value g")
    case None
    then have "wg_value h = None" using Cons.hyps(1) by (auto simp: ab same_global_def split: option.splits)
    with None IH [of h] show ?thesis by (fastforce simp: ab)
  next
    case (Some v)
    then obtain w where w: "wg_value h = Some w" "same_type w v" "\<not> wg_mutable g \<longrightarrow> v = w"
      using Cons.hyps(1) by (auto simp: ab same_global_def split: option.splits)
    show ?thesis
    proof (cases "wg_mutable g")
      case True
      then have "gset h v = Some (h\<lparr>wg_value := Some v\<rparr>)" using assms(1) w mut by (auto simp: gset_ok_def)
      moreover obtain I' where "restore_globals gset (capture_globals G)
          (P @ (k, h\<lparr>wg_value := Some v\<rparr>) # I) = (Inr (), P @ (k, h\<lparr>wg_value := Some v\<rparr>) # I')"
        and "capture_globals I' = capture_globals G" and "map fst I' = map fst I"
        using IH [of "h\<lparr>wg_value := Some v\<rparr>"] by blast
      ultimately show ?thesis using Some True mut k
        by (intro exI [of _ "(k, h\<lparr>wg_value := Some v\<rparr>) # I'"]) (simp add: ab hm_get_middle hm_insert_middle del: map_of_append)
    next
      case False
      with IH [of h] show ?thesis using Some w mut by (fastforce simp: ab)
    qed
  qed
qed

text \<open>What the code relies on of \<open>Memory::grow\<close> under the store's limit: it appends zero pages as long
  as the memory stays within the limit.\<close>

definition grow_within :: "nat \<Rightarrow> (bytes \<Rightarrow> nat \<Rightarrow> bytes option) \<Rightarrow> bool" where
  "grow_within limit grow \<longleftrightarrow> (\<forall>m n. grow m n =
     (if length m + n * 65536 \<le> limit then Some (m @ replicate (n * 65536) 0) else None))"

lemma div_ceil_exact: "0 < b \<Longrightarrow> b dvd a \<Longrightarrow> div_ceil a b * b = a"
  by (simp add: div_ceil_mult)

lemma restore_memory_exact:
  assumes "grow_within limit grow" and "length mem \<le> length bs" and "length bs \<le> limit"
    and "65536 dvd length mem" and "65536 dvd length bs"
  shows "restore_memory grow mem bs = Inr bs"
proof (cases "length mem < length bs")
  case True
  have "div_ceil (length bs - length mem) 65536 * 65536 = length bs - length mem"
    using assms(4,5) by (intro div_ceil_exact) (simp_all add: dvd_diff_nat)
  with True assms(1,3) show ?thesis by (simp add: restore_memory_def grow_within_def write_slice_def)
next
  case False
  with assms(2) show ?thesis by (simp add: restore_memory_def write_slice_def)
qed

lemma seed_instance_exact:
  assumes "grow_within limit (wt_grow wt limit)" and "gset_ok (wt_gset wt)"
    and "wi_memory inst = Some mem" and "length mem \<le> length bs" and "length bs \<le> limit"
    and "65536 dvd length mem" and "65536 dvd length bs"
    and "list_all2 same_global G (wi_globals inst)" and "hm_wf (wi_globals inst)"
  shows "\<exists>G'. seed_instance wt limit
      (Some \<lparr>re_memory = bs, re_execution_state = \<lparr>captured_globals = capture_globals G, captured_tables = ts\<rparr>\<rparr>) inst
        = Inr (inst\<lparr>wi_memory := Some bs, wi_globals := G'\<rparr>) \<and> capture_globals G' = capture_globals G"
proof -
  obtain G' where "restore_globals (wt_gset wt) (capture_globals G) (wi_globals inst) = (Inr (), G')"
    and "capture_globals G' = capture_globals G"
    using restore_globals_capture [OF assms(2,8), of "[]"] assms(9) by auto
  then show ?thesis
    using assms(3) restore_memory_exact [OF assms(1,4,5,6,7)]
    by (intro exI [of _ G']) (simp add: seed_instance_def)
qed

lemma worker_pre_call_memory:
  assumes "wt_set_fuel wt (max_fuel cfg) = None"
    and "wt_instantiate wt md (max_memory_bytes cfg) (max_fuel cfg) = Inr store"
    and "seed_instance wt (max_memory_bytes cfg) restored_state (ws_instance store) = Inr inst"
    and "xe_recv xe = Replied"
    and "execute_module_inner wt xe cfg md args restored_state entry_point = Inr r"
  shows "xr_pre_call_memory r = wi_memory inst"
  using assms by (auto simp: execute_module_inner_def worker_def Let_def xr_defs
      split: option.splits prod.splits)

subsection \<open>Properties\<close>


text \<open>
  A run from a restored state starts exactly where the snapshot was taken: seeding a fresh
  instance of the same module with a captured memory and captured globals gives an instance whose
  memory is the snapshot's bytes and whose captured globals are the snapshot's, and the memory that
  run reports for its own snapshot is again those bytes.
\<close>

lemma restored_run_starts_from_snapshot:
  assumes "grow_within (max_memory_bytes cfg) (wt_grow wt (max_memory_bytes cfg))" and "gset_ok (wt_gset wt)"
    and "wt_set_fuel wt (max_fuel cfg) = None"
    and "wt_instantiate wt md (max_memory_bytes cfg) (max_fuel cfg) = Inr store"
    and "wi_memory (ws_instance store) = Some mem" and "length mem \<le> length bs"
    and "length bs \<le> max_memory_bytes cfg" and "65536 dvd length mem" and "65536 dvd length bs"
    and "list_all2 same_global G (wi_globals (ws_instance store))" and "hm_wf (wi_globals (ws_instance store))"
    and "rs = \<lparr>re_memory = bs, re_execution_state = \<lparr>captured_globals = capture_globals G, captured_tables = ts\<rparr>\<rparr>"
    and "xe_recv xe = Replied"
  shows "\<exists>r inst. seed_instance wt (max_memory_bytes cfg) (Some rs) (ws_instance store) = Inr inst
    \<and> wi_memory inst = Some bs \<and> capture_globals (wi_globals inst) = capture_globals G
    \<and> wi_funcs inst = wi_funcs (ws_instance store)
    \<and> execute_module_inner wt xe cfg md args (Some rs) entry_point = Inr r
    \<and> xr_pre_call_memory r = Some bs"
proof -
  obtain G' where seed: "seed_instance wt (max_memory_bytes cfg) (Some rs) (ws_instance store)
      = Inr ((ws_instance store)\<lparr>wi_memory := Some bs, wi_globals := G'\<rparr>)"
    and cap: "capture_globals G' = capture_globals G"
    unfolding assms(12) using seed_instance_exact [OF assms(1,2,5-11)] by blast
  obtain r where r: "execute_module_inner wt xe cfg md args (Some rs) entry_point = Inr r"
    using execute_module_inner_wf [of wt xe cfg md args "Some rs" entry_point] by blast
  with worker_pre_call_memory [OF assms(3,4) seed assms(13)] seed cap show ?thesis by auto
qed

text \<open>A module with one page of memory, one mutable exported global and one entry point, whose run adds one
  to its global.\<close>

definition demo_instance :: wasm_instance where
  "demo_instance = \<lparr>wi_memory = Some (replicate 65536 0),
     wi_globals = [(''count'', \<lparr>wg_mutable = True, wg_value = Some (ValI32 0)\<rparr>)], wi_tables = [],
     wi_funcs = [''_start'']\<rparr>"

fun bump :: "wasm_global \<Rightarrow> wasm_global" where
  "bump g = (case wg_value g of Some (ValI32 v) \<Rightarrow> g\<lparr>wg_value := Some (ValI32 (v + 1))\<rparr> | _ \<Rightarrow> g)"

definition demo_wt :: "unit wasmtime" where
  "demo_wt = \<lparr>wt_from_binary = (\<lambda>b. if b = [] then Inl ''empty'' else Inr ()), wt_set_fuel = (\<lambda>_. None),
     wt_instantiate = (\<lambda>_ _ fuel. Inr \<lparr>ws_instance = demo_instance, ws_fuel = Some fuel\<rparr>),
     wt_grow = (\<lambda>limit m n. if length m + n * 65536 \<le> limit then Some (m @ replicate (n * 65536) 0) else None),
     wt_gset = (\<lambda>g v. case wg_value g of
                   Some w \<Rightarrow> if wg_mutable g \<and> same_type w v then Some (g\<lparr>wg_value := Some v\<rparr>) else None
                 | None \<Rightarrow> None),
     wt_call = (\<lambda>sched _ f s.
        let i = ws_instance s;
            s' = s\<lparr>ws_instance := i\<lparr>wi_globals := map (map_prod id bump) (wi_globals i)\<rparr>,
                   ws_fuel := map_option (\<lambda>r. r - 10) (ws_fuel s)\<rparr>
        in (s', if sched = 0 then None
                else Some \<lparr>err_chain = [None, Some UnreachableCodeReached], err_backtrace = None, err_display = ''trap''\<rparr>))\<rparr>"

definition demo_exec :: "nat \<Rightarrow> exec_env" where
  "demo_exec sched = \<lparr>xe_sched = sched, xe_recv = Replied, xe_compile_elapsed = 0, xe_worker_elapsed = 0,
     xe_recv_elapsed = 2000000, xe_end_elapsed = 0\<rparr>"

lemma demo_wt_ok: "grow_within l (wt_grow demo_wt l)" "gset_ok (wt_gset demo_wt)"
  by (auto simp: grow_within_def gset_ok_def demo_wt_def)

end
