(* ===== verification/Epoch.thy ===== *)
theory Epoch
  imports Sandbox
begin

text \<open>
  The epoch clock that cancels timed-out runs, \<open>SandboxEpoch\<close> of
  \<open>src/src/sandbox/wasm_runtime.rs\<close>, under concurrency.

  The runs of one sandbox share the two atomic counters and the engine's epoch. A run has two
  threads: the caller, which reserves a deadline, waits for the worker and advances the epoch to
  the deadline when the wait times out, and the worker, which turns the deadline into a number of ticks
  and sets it as its store's deadline. Each atomic access is one step of \<open>caller_step\<close> or
  \<open>worker_step\<close>; the relation \<open>epoch_step\<close> interleaves the threads of any number of runs.
\<close>

subsection \<open>The counters\<close>

definition EPOCH_TICK_MS :: nat where
  "EPOCH_TICK_MS = 10"

record sandbox_epoch =
  se_current :: u64
  se_next_deadline :: u64

definition sandbox_epoch_new :: sandbox_epoch where
  "sandbox_epoch_new = \<lparr>se_current = 0, se_next_deadline = 1\<rparr>"

definition epoch_ticks_for_time_limit :: "duration \<Rightarrow> u64" where
  "epoch_ticks_for_time_limit limit =
     word_of_nat (min (div_ceil (max (as_millis limit) 1) EPOCH_TICK_MS) (2 ^ 64 - 1))"

definition relative_ticks_until :: "u64 \<Rightarrow> u64 \<Rightarrow> u64" where
  "relative_ticks_until current deadline = max (saturating_sub deadline current) 1"

subsection \<open>The threads of a run\<close>

text \<open>The caller: inside \<open>reserve_deadline\<close> before the \<open>fetch_add\<close>, before the load of \<open>current\<close>, before
  the exchange; waiting for the worker; inside \<open>advance_to\<close> before the load, before the exchange, before
  the increment of the engine's epoch; and after it.\<close>

datatype caller_pc =
    CFetch
  | CCheck u64
  | CSwap u64 u64
  | CWait u64
  | CLoad u64
  | CCas u64 u64
  | CIncr u64
  | CDone u64

datatype worker_pc =
    WIdle
  | WArm u64
  | WRunning u64

record epoch_run =
  rn_ticks :: u64
  rn_caller :: caller_pc
  rn_worker :: worker_pc

record epoch_state =
  es_epoch :: sandbox_epoch
  es_engine :: u64

fun caller_step :: "u64 \<Rightarrow> epoch_state \<times> caller_pc \<Rightarrow> epoch_state \<times> caller_pc" where
  "caller_step ticks (s, CFetch) =
     (let deadline = se_next_deadline (es_epoch s)
      in (s\<lparr>es_epoch := (es_epoch s)\<lparr>se_next_deadline := deadline + ticks\<rparr>\<rparr>, CCheck deadline))"
| "caller_step ticks (s, CCheck deadline) =
     (let current = se_current (es_epoch s)
      in (s, if current < deadline then CWait deadline else CSwap deadline current))"
| "caller_step ticks (s, CSwap deadline current) =
     (let adjusted = saturating_add current (max ticks 1)
      in if se_next_deadline (es_epoch s) = saturating_add deadline ticks
         then (s\<lparr>es_epoch := (es_epoch s)\<lparr>se_next_deadline := saturating_add adjusted 1\<rparr>\<rparr>, CWait adjusted)
         else (s, CCheck (se_next_deadline (es_epoch s))))"
| "caller_step ticks (s, CWait deadline) = (s, CLoad deadline)"
| "caller_step ticks (s, CLoad deadline) =
     (let current = se_current (es_epoch s)
      in (s, if deadline \<le> current then CDone deadline else CCas deadline current))"
| "caller_step ticks (s, CCas deadline current) =
     (if se_current (es_epoch s) = current
      then (s\<lparr>es_epoch := (es_epoch s)\<lparr>se_current := current + 1\<rparr>\<rparr>, CIncr deadline)
      else (s, CLoad deadline))"
| "caller_step ticks (s, CIncr deadline) = (s\<lparr>es_engine := es_engine s + 1\<rparr>, CLoad deadline)"
| "caller_step ticks (s, CDone deadline) = (s, CDone deadline)"

fun spawned :: "caller_pc \<Rightarrow> u64 option" where
  "spawned (CWait d) = Some d"
| "spawned (CLoad d) = Some d"
| "spawned (CCas d c) = Some d"
| "spawned (CIncr d) = Some d"
| "spawned (CDone d) = Some d"
| "spawned _ = None"

text \<open>The worker is spawned once the caller has its deadline; \<open>set_epoch_deadline\<close> counts from the
  engine's epoch.\<close>

fun worker_step :: "epoch_state \<Rightarrow> caller_pc \<Rightarrow> worker_pc \<Rightarrow> worker_pc" where
  "worker_step s c WIdle =
     (case spawned c of
        None \<Rightarrow> WIdle
      | Some deadline \<Rightarrow> WArm (relative_ticks_until (se_current (es_epoch s)) deadline))"
| "worker_step s c (WArm ticks) = WRunning (es_engine s + max ticks 1)"
| "worker_step s c (WRunning a) = WRunning a"

definition interrupted :: "epoch_state \<Rightarrow> epoch_run \<Rightarrow> bool" where
  "interrupted s r = (case rn_worker r of WRunning a \<Rightarrow> a \<le> es_engine s | _ \<Rightarrow> False)"

type_synonym epoch_sys = "epoch_state \<times> epoch_run list"

definition run_caller :: "nat \<Rightarrow> epoch_sys \<Rightarrow> epoch_sys" where
  "run_caller i x = (case x of (s, rs) \<Rightarrow>
     (case caller_step (rn_ticks (rs ! i)) (s, rn_caller (rs ! i)) of
        (s', c) \<Rightarrow> (s', rs[i := (rs ! i)\<lparr>rn_caller := c\<rparr>])))"

definition run_worker :: "nat \<Rightarrow> epoch_sys \<Rightarrow> epoch_sys" where
  "run_worker i x = (case x of (s, rs) \<Rightarrow>
     (s, rs[i := (rs ! i)\<lparr>rn_worker := worker_step s (rn_caller (rs ! i)) (rn_worker (rs ! i))\<rparr>]))"

definition new_run :: "duration \<Rightarrow> epoch_sys \<Rightarrow> epoch_sys" where
  "new_run limit x = (case x of (s, rs) \<Rightarrow>
     (s, rs @ [\<lparr>rn_ticks = epoch_ticks_for_time_limit limit, rn_caller = CFetch, rn_worker = WIdle\<rparr>]))"

inductive epoch_step :: "epoch_sys \<Rightarrow> epoch_sys \<Rightarrow> bool" where
  caller: "i < length (snd x) \<Longrightarrow> epoch_step x (run_caller i x)"
| worker: "i < length (snd x) \<Longrightarrow> epoch_step x (run_worker i x)"
| spawn: "epoch_step x (new_run limit x)"

definition epoch_init :: "epoch_sys \<Rightarrow> bool" where
  "epoch_init x \<longleftrightarrow> x = (\<lparr>es_epoch = sandbox_epoch_new, es_engine = 0\<rparr>, [])"

subsection \<open>What moves the epoch\<close>

fun timed_out :: "caller_pc \<Rightarrow> u64 option" where
  "timed_out (CLoad d) = Some d"
| "timed_out (CCas d c) = Some d"
| "timed_out (CIncr d) = Some d"
| "timed_out (CDone d) = Some d"
| "timed_out _ = None"

fun pending :: "caller_pc \<Rightarrow> nat" where
  "pending (CIncr d) = 1"
| "pending _ = 0"

fun local_ok :: "caller_pc \<Rightarrow> bool" where
  "local_ok (CCas d c) = (c < d)"
| "local_ok _ = True"

definition epoch_inv :: "epoch_sys \<Rightarrow> bool" where
  "epoch_inv x \<longleftrightarrow>
     unat (es_engine (fst x)) + sum_list (map (\<lambda>r. pending (rn_caller r)) (snd x)) = unat (se_current (es_epoch (fst x)))
     \<and> (se_current (es_epoch (fst x)) = 0
        \<or> (\<exists>r \<in> set (snd x). \<exists>d. timed_out (rn_caller r) = Some d \<and> se_current (es_epoch (fst x)) \<le> d))
     \<and> (\<forall>r \<in> set (snd x). local_ok (rn_caller r))"

lemma unat_succ: "unat (w + 1) = unat w + 1" if "w < d" for w d :: u64
proof -
  have "unat w < unat d" using that by (simp add: word_less_nat_alt)
  moreover have "unat d < 2 ^ 64" using unsigned_less [of d] by simp
  ultimately show ?thesis by (simp add: unat_word_ariths)
qed

text \<open>One step of a caller: the engine's epoch and the pending increments account for the change of
  \<open>current\<close>, a timed-out deadline stays, and \<open>current\<close> moves only below it.\<close>

lemma caller_step_local:
  assumes "caller_step ticks (s, c) = (s', c')" and "local_ok c"
    and "unat (es_engine s) + pending c + rest = unat (se_current (es_epoch s))"
  shows "unat (es_engine s') + pending c' + rest = unat (se_current (es_epoch s'))"
    and "local_ok c'" and "timed_out c = Some d \<Longrightarrow> timed_out c' = Some d"
    and "se_current (es_epoch s') = se_current (es_epoch s)
         \<or> (\<exists>d. timed_out c' = Some d \<and> se_current (es_epoch s') \<le> d)"
proof -
  let ?goal = "unat (es_engine s') + pending c' + rest = unat (se_current (es_epoch s')) \<and> local_ok c'
    \<and> (timed_out c = Some d \<longrightarrow> timed_out c' = Some d)
    \<and> (se_current (es_epoch s') = se_current (es_epoch s)
       \<or> (\<exists>d. timed_out c' = Some d \<and> se_current (es_epoch s') \<le> d))"
  have ?goal
  proof (cases c)
    case (CCas dl cur)
    then have "cur < dl" using assms(2) by simp
    then have "unat (cur + 1) = unat cur + 1" "cur + 1 \<le> dl"
      by (rule unat_succ, simp add: inc_le)
    with CCas assms show ?thesis by (auto split: if_splits)
  next
    case (CIncr dl)
    have "unat (es_engine s) < unat (se_current (es_epoch s))" using assms(3) CIncr by simp
    then have "unat (es_engine s + 1) = unat (es_engine s) + 1" by (intro unat_succ) (simp add: word_less_nat_alt)
    with CIncr assms show ?thesis by auto
  qed (use assms in \<open>auto simp: Let_def split: if_splits\<close>)
  then show "unat (es_engine s') + pending c' + rest = unat (se_current (es_epoch s'))"
    and "local_ok c'" and "timed_out c = Some d \<Longrightarrow> timed_out c' = Some d"
    and "se_current (es_epoch s') = se_current (es_epoch s)
         \<or> (\<exists>d. timed_out c' = Some d \<and> se_current (es_epoch s') \<le> d)" by blast+
qed

lemma run_caller_inv:
  assumes "epoch_inv x" and "i < length (snd x)"
  shows "epoch_inv (run_caller i x)"
proof -
  obtain s rs where x: "x = (s, rs)" by fastforce
  define r where "r = rs ! i"
  obtain s' c where st: "caller_step (rn_ticks r) (s, rn_caller r) = (s', c)" by fastforce
  define rs' where "rs' = rs[i := r\<lparr>rn_caller := c\<rparr>]"
  have run: "run_caller i x = (s', rs')" by (simp add: run_caller_def x r_def [symmetric] st rs'_def)
  have i: "i < length rs" using assms(2) by (simp add: x)
  then have r: "r \<in> set rs" by (simp add: r_def)
  let ?p = "\<lambda>r. pending (rn_caller r)"
  have sum: "sum_list (map ?p rs') + pending (rn_caller r) = sum_list (map ?p rs) + pending c"
    using sum_list_map_update [OF i, of ?p "r\<lparr>rn_caller := c\<rparr>"] by (simp add: rs'_def r_def)
  have le: "pending (rn_caller r) \<le> sum_list (map ?p rs)"
    using member_le_sum_list [of "pending (rn_caller r)" "map ?p rs"] r by force
  define rest where "rest = sum_list (map ?p rs) - pending (rn_caller r)"
  have bal: "unat (es_engine s) + pending (rn_caller r) + rest = unat (se_current (es_epoch s))"
    using assms(1) le by (simp add: epoch_inv_def x rest_def)
  have lr: "local_ok (rn_caller r)" using assms(1) r by (simp add: epoch_inv_def x)
  note step = caller_step_local [OF st lr bal]
  have set: "set rs' \<subseteq> insert (r\<lparr>rn_caller := c\<rparr>) (set rs)" unfolding rs'_def by (rule set_update_subset_insert)
  have new: "r\<lparr>rn_caller := c\<rparr> \<in> set rs'" using i by (simp add: rs'_def set_update_memI)
  have "se_current (es_epoch s') = 0
    \<or> (\<exists>q \<in> set rs'. \<exists>d. timed_out (rn_caller q) = Some d \<and> se_current (es_epoch s') \<le> d)"
    using step(4)
  proof
    assume "\<exists>d. timed_out c = Some d \<and> se_current (es_epoch s') \<le> d"
    with new show ?thesis by (intro disjI2 bexI [of _ "r\<lparr>rn_caller := c\<rparr>"]) simp_all
  next
    assume eq: "se_current (es_epoch s') = se_current (es_epoch s)"
    consider "se_current (es_epoch s) = 0"
      | q d where "q \<in> set rs" "timed_out (rn_caller q) = Some d" "se_current (es_epoch s) \<le> d"
      using assms(1) by (auto simp: epoch_inv_def x)
    then show ?thesis
    proof cases
      case 2
      then obtain j where j: "j < length rs" "q = rs ! j" by (auto simp: in_set_conv_nth)
      have "timed_out (rn_caller (rs' ! j)) = Some d"
        using 2(2) j step(3) i by (cases "j = i") (simp_all add: rs'_def r_def)
      moreover have "rs' ! j \<in> set rs'" using j by (simp add: rs'_def)
      ultimately show ?thesis using 2(3) eq by auto
    qed (simp add: eq)
  qed
  moreover have "\<forall>q \<in> set rs'. local_ok (rn_caller q)"
    using set step(2) assms(1) by (auto simp: epoch_inv_def x)
  moreover have "unat (es_engine s') + sum_list (map ?p rs') = unat (se_current (es_epoch s'))"
    using step(1) sum le by (simp add: rest_def)
  ultimately show ?thesis by (simp add: epoch_inv_def run)
qed

lemma run_worker_callers: "i < length (snd x) \<Longrightarrow> map rn_caller (snd (run_worker i x)) = map rn_caller (snd x)"
  by (cases "i < length (snd x)") (auto simp: run_worker_def map_update case_prod_unfold list_update_same_conv)

lemma run_worker_state: "fst (run_worker i x) = fst x"
  by (simp add: run_worker_def case_prod_unfold)

lemma epoch_inv_callers:
  assumes "epoch_inv x" and "fst y = fst x" and "map rn_caller (snd y) = map rn_caller (snd x)"
  shows "epoch_inv y"
proof -
  have m: "map (\<lambda>r. f (rn_caller r)) (snd y) = map (\<lambda>r. f (rn_caller r)) (snd x)" for f :: "caller_pc \<Rightarrow> nat"
    using arg_cong [OF assms(3), of "map f"] by (simp add: comp_def)
  have s: "rn_caller ` set (snd y) = rn_caller ` set (snd x)"
    using arg_cong [OF assms(3), of set] by simp
  have ex: "(\<exists>r \<in> set z. Q (rn_caller r)) \<longleftrightarrow> (\<exists>c \<in> rn_caller ` set z. Q c)"
    and all: "(\<forall>r \<in> set z. Q (rn_caller r)) \<longleftrightarrow> (\<forall>c \<in> rn_caller ` set z. Q c)" for z Q by auto
  show ?thesis
    using assms(1) unfolding epoch_inv_def assms(2) m
      ex [of _ "\<lambda>c. \<exists>d. timed_out c = Some d \<and> se_current (es_epoch (fst x)) \<le> d"] all s .
qed

lemma new_run_inv: "epoch_inv x \<Longrightarrow> epoch_inv (new_run limit x)"
  by (cases x) (auto simp: epoch_inv_def new_run_def)

interpretation epoch: inductive_invariant epoch_init epoch_step epoch_inv
proof
  show "epoch_inv x" if "epoch_init x" for x
    using that by (simp add: epoch_init_def epoch_inv_def sandbox_epoch_new_def)
  show "epoch_inv y" if "epoch_inv x" "epoch_step x y" for x y
    using that(2,1)
    by cases (auto intro: run_caller_inv new_run_inv epoch_inv_callers simp: run_worker_callers run_worker_state)
qed

subsection \<open>Schedules\<close>

datatype move = Caller nat | Worker nat

fun play :: "move list \<Rightarrow> epoch_sys \<Rightarrow> epoch_sys" where
  "play [] x = x"
| "play (Caller i # ms) x = play ms (if i < length (snd x) then run_caller i x else x)"
| "play (Worker i # ms) x = play ms (if i < length (snd x) then run_worker i x else x)"

lemma reachable_moves:
  assumes "reachable epoch_init epoch_step x" and "i < length (snd x)"
  shows "reachable epoch_init epoch_step (run_caller i x)" "reachable epoch_init epoch_step (run_worker i x)"
  using assms by (auto intro: reachable.intros(2) epoch_step.intros)

lemma play_reachable: "reachable epoch_init epoch_step x \<Longrightarrow> reachable epoch_init epoch_step (play ms x)"
  by (induction ms x rule: play.induct) (simp_all add: reachable_moves)

definition start :: "nat \<Rightarrow> epoch_sys" where
  "start n = (new_run 10000000 ^^ n) (\<lparr>es_epoch = sandbox_epoch_new, es_engine = 0\<rparr>, [])"

lemma start_reachable: "reachable epoch_init epoch_step (start n)"
  by (induction n) (auto simp: start_def epoch_init_def intro: reachable.intros epoch_step.spawn)

definition late_worker :: "move list" where
  "late_worker = replicate 7 (Caller 0) @ [Worker 0, Worker 0]"

text \<open>One tick per run, as for a time limit of ten milliseconds.\<close>

lemma start_simps:
  "start n = (\<lparr>es_epoch = \<lparr>se_current = 0, se_next_deadline = 1\<rparr>, es_engine = 0\<rparr>,
     replicate n \<lparr>rn_ticks = 1, rn_caller = CFetch, rn_worker = WIdle\<rparr>)"
proof (induction n)
  case (Suc n)
  have "epoch_ticks_for_time_limit 10000000 = 1"
    by (simp add: epoch_ticks_for_time_limit_def as_millis_def EPOCH_TICK_MS_def div_ceil_def)
  with Suc show ?case by (simp add: start_def new_run_def replicate_append_same)
qed (simp add: start_def sandbox_epoch_new_def)

lemma late_worker_play:
  "play late_worker (start 1) = (\<lparr>es_epoch = \<lparr>se_current = 1, se_next_deadline = 2\<rparr>, es_engine = 1\<rparr>,
     [\<lparr>rn_ticks = 1, rn_caller = CDone 1, rn_worker = WRunning 2\<rparr>])"
  unfolding start_simps late_worker_def by code_simp

lemma saturating_add_small: "saturating_add (1 :: u64) 1 = 2" "saturating_add (2 :: u64) 1 = 3"
  by (simp_all add: saturating_add_def)

lemma play_append: "play (ms @ ns) x = play ns (play ms x)"
  by (induction ms x rule: play.induct) simp_all

lemma u64_not_le: "\<not> (2 :: u64) \<le> 1"
  by (simp add: word_le_nat_alt)

lemmas play_eval = run_caller_def Let_def saturating_add_small u64_not_le

text \<open>Run 0 fetches its deadline and is overtaken by run 1, which times out.\<close>

lemma slow_reservation_overtaken:
  "play [Caller 0, Caller (Suc 0), Caller (Suc 0), Caller (Suc 0), Caller (Suc 0), Caller (Suc 0)] (start (Suc (Suc (Suc 0)))) =
     (\<lparr>es_epoch = \<lparr>se_current = 1, se_next_deadline = 3\<rparr>, es_engine = 0\<rparr>,
      [\<lparr>rn_ticks = 1, rn_caller = CCheck 1, rn_worker = WIdle\<rparr>, \<lparr>rn_ticks = 1, rn_caller = CIncr 2, rn_worker = WIdle\<rparr>,
       \<lparr>rn_ticks = 1, rn_caller = CFetch, rn_worker = WIdle\<rparr>])"
  unfolding start_simps by (simp add: play_eval)

lemma slow_reservation_advanced:
  "play [Caller (Suc 0), Caller (Suc 0), Caller (Suc 0), Caller (Suc 0), Caller (Suc 0)]
     (\<lparr>es_epoch = \<lparr>se_current = 1, se_next_deadline = 3\<rparr>, es_engine = 0\<rparr>,
      [\<lparr>rn_ticks = 1, rn_caller = CCheck 1, rn_worker = WIdle\<rparr>, \<lparr>rn_ticks = 1, rn_caller = CIncr 2, rn_worker = WIdle\<rparr>,
       \<lparr>rn_ticks = 1, rn_caller = CFetch, rn_worker = WIdle\<rparr>]) =
     (\<lparr>es_epoch = \<lparr>se_current = 2, se_next_deadline = 3\<rparr>, es_engine = 2\<rparr>,
      [\<lparr>rn_ticks = 1, rn_caller = CCheck 1, rn_worker = WIdle\<rparr>, \<lparr>rn_ticks = 1, rn_caller = CDone 2, rn_worker = WIdle\<rparr>,
       \<lparr>rn_ticks = 1, rn_caller = CFetch, rn_worker = WIdle\<rparr>])"
  by (simp add: play_eval)

lemma slow_reservation_collides:
  "play [Caller 0, Caller 0, Caller 0, Caller (Suc (Suc 0)), Caller (Suc (Suc 0))]
     (\<lparr>es_epoch = \<lparr>se_current = 2, se_next_deadline = 3\<rparr>, es_engine = 2\<rparr>,
      [\<lparr>rn_ticks = 1, rn_caller = CCheck 1, rn_worker = WIdle\<rparr>, \<lparr>rn_ticks = 1, rn_caller = CDone 2, rn_worker = WIdle\<rparr>,
       \<lparr>rn_ticks = 1, rn_caller = CFetch, rn_worker = WIdle\<rparr>]) =
     (\<lparr>es_epoch = \<lparr>se_current = 2, se_next_deadline = 4\<rparr>, es_engine = 2\<rparr>,
      [\<lparr>rn_ticks = 1, rn_caller = CWait 3, rn_worker = WIdle\<rparr>, \<lparr>rn_ticks = 1, rn_caller = CDone 2, rn_worker = WIdle\<rparr>,
       \<lparr>rn_ticks = 1, rn_caller = CWait 3, rn_worker = WIdle\<rparr>])"
  by (simp add: play_eval)

definition slow_reservation :: "move list" where
  "slow_reservation = [Caller 0, Caller (Suc 0), Caller (Suc 0), Caller (Suc 0), Caller (Suc 0), Caller (Suc 0)]
     @ [Caller (Suc 0), Caller (Suc 0), Caller (Suc 0), Caller (Suc 0), Caller (Suc 0)] @ [Caller 0, Caller 0, Caller 0, Caller (Suc (Suc 0)), Caller (Suc (Suc 0))]"

subsection \<open>Properties\<close>

text \<open>
  The epoch is moved by timeouts only: in every interleaving of any number of runs, the engine's
  epoch together with the increments still owed equals the shared counter, and the counter never passes
  the deadline of a run whose caller has timed out. A run is therefore never cancelled unless
  some run timed out at or after the epoch its store waits for.
\<close>

lemma epoch_moved_by_timeouts:
  assumes "reachable epoch_init epoch_step (s, rs)"
  shows "unat (es_engine s) + sum_list (map (\<lambda>r. pending (rn_caller r)) rs) = unat (se_current (es_epoch s))
    \<and> (\<forall>r \<in> set rs. interrupted s r \<and> rn_worker r \<noteq> WRunning 0
        \<longrightarrow> (\<exists>q \<in> set rs. \<exists>d a. timed_out (rn_caller q) = Some d \<and> rn_worker r = WRunning a \<and> a \<le> d))"
proof -
  have inv: "epoch_inv (s, rs)" by (rule epoch.reachable_inv [OF assms])
  have le: "es_engine s \<le> se_current (es_epoch s)" using inv by (simp add: epoch_inv_def word_le_nat_alt)
  have "\<exists>q \<in> set rs. \<exists>d a. timed_out (rn_caller q) = Some d \<and> rn_worker r = WRunning a \<and> a \<le> d"
    if int: "interrupted s r" and ne: "rn_worker r \<noteq> WRunning 0" for r
  proof -
    obtain a where a: "rn_worker r = WRunning a" "a \<le> es_engine s"
      using int by (cases "rn_worker r") (simp_all add: interrupted_def)
    then have "se_current (es_epoch s) \<noteq> 0" using ne le by (auto simp: word_le_nat_alt unat_eq_0)
    then show ?thesis using inv a le by (fastforce simp: epoch_inv_def)
  qed
  with inv show ?thesis by (auto simp: epoch_inv_def)
qed

text \<open>
  Two races of the cancellation clock. A worker that is delayed until its caller has timed out and
  advanced the epoch sets its deadline beyond the advanced epoch, so that the finished cancellation does
  not stop it. And a reservation that is overtaken by a later run's timeout takes the next deadline
  without reserving it: two runs that are still waiting share one deadline.
\<close>

lemma epoch_cancellation_races:
  "(\<exists>s rs r d. reachable epoch_init epoch_step (s, rs) \<and> r \<in> set rs \<and> rn_caller r = CDone d
      \<and> (\<exists>a. rn_worker r = WRunning a) \<and> \<not> interrupted s r)
   \<and> (\<exists>s rs d. reachable epoch_init epoch_step (s, rs) \<and> length rs = 3
      \<and> rn_caller (rs ! 0) = CWait d \<and> rn_caller (rs ! 2) = CWait d)"
proof
  show "\<exists>s rs r d. reachable epoch_init epoch_step (s, rs) \<and> r \<in> set rs \<and> rn_caller r = CDone d
      \<and> (\<exists>a. rn_worker r = WRunning a) \<and> \<not> interrupted s r"
    using play_reachable [OF start_reachable, of late_worker 1] unfolding late_worker_play
    by (intro exI conjI) (auto simp: interrupted_def u64_not_le)
  have "play slow_reservation (start (Suc (Suc (Suc 0)))) = (\<lparr>es_epoch = \<lparr>se_current = 2, se_next_deadline = 4\<rparr>, es_engine = 2\<rparr>,
      [\<lparr>rn_ticks = 1, rn_caller = CWait 3, rn_worker = WIdle\<rparr>, \<lparr>rn_ticks = 1, rn_caller = CDone 2, rn_worker = WIdle\<rparr>,
       \<lparr>rn_ticks = 1, rn_caller = CWait 3, rn_worker = WIdle\<rparr>])"
    unfolding slow_reservation_def play_append slow_reservation_overtaken slow_reservation_advanced
    by (rule slow_reservation_collides)
  then show "\<exists>s rs d. reachable epoch_init epoch_step (s, rs) \<and> length rs = 3
      \<and> rn_caller (rs ! 0) = CWait d \<and> rn_caller (rs ! 2) = CWait d"
    using play_reachable [OF start_reachable, of slow_reservation "Suc (Suc (Suc 0))"] by fastforce
qed

end
