(* ===== verification/Module_Cache.thy ===== *)
theory Module_Cache
  imports Sandbox
begin

text \<open>
  The compiled-module cache, \<open>src/src/sandbox/module_cache.rs\<close>, and the warm sandbox pool,
  \<open>src/src/sandbox/pool.rs\<close>. SHA-256 and wasmtime are parameters; a compiled module is any type
  \<open>'m\<close>. A lookup and an insertion of the cache are two critical sections, between which other threads
  may run: the relation \<open>cache_step\<close> interleaves them. The semaphore of the pool is its number of
  available permits.
\<close>

subsection \<open>The cache\<close>

record 'm cache_inner =
  mc_map :: "(bytes, 'm) hashmap"
  mc_order :: "bytes list"
  max_entries :: nat
  hits :: u64
  misses :: u64

definition cache_with_capacity :: "nat \<Rightarrow> 'm cache_inner" where
  "cache_with_capacity n = \<lparr>mc_map = [], mc_order = [], max_entries = n, hits = 0, misses = 0\<rparr>"

definition cache_lookup :: "bytes \<Rightarrow> 'm cache_inner \<Rightarrow> 'm option \<times> 'm cache_inner" where
  "cache_lookup hash c =
     (case hm_get (mc_map c) hash of
        Some m \<Rightarrow> (Some m, c\<lparr>hits := hits c + 1, mc_order := remove1 hash (mc_order c) @ [hash]\<rparr>)
      | None \<Rightarrow> (None, c\<lparr>misses := misses c + 1\<rparr>))"

fun evict :: "nat \<Rightarrow> (bytes, 'm) hashmap \<Rightarrow> bytes list \<Rightarrow> (bytes, 'm) hashmap \<times> bytes list" where
  "evict n m [] = (m, [])"
| "evict n m (evicted # rest) =
     (if n \<le> length m then evict n (hm_remove evicted m) rest else (m, evicted # rest))"

definition cache_insert :: "bytes \<Rightarrow> 'm \<Rightarrow> 'm cache_inner \<Rightarrow> 'm cache_inner" where
  "cache_insert hash compiled c =
     (case evict (max_entries c) (mc_map c) (mc_order c) of
        (m, order) \<Rightarrow> c\<lparr>mc_map := hm_insert hash compiled m, mc_order := order @ [hash]\<rparr>)"

definition get_or_compile ::
  "(bytes \<Rightarrow> bytes) \<Rightarrow> 'm wasmtime \<Rightarrow> bytes \<Rightarrow> 'm cache_inner \<Rightarrow> (string + 'm) \<times> 'm cache_inner" where
  "get_or_compile sha256 wt bs c =
     (case cache_lookup (sha256 bs) c of
        (Some m, c') \<Rightarrow> (Inr m, c')
      | (None, c') \<Rightarrow>
          (case wt_from_binary wt bs of
             Inl e \<Rightarrow> (Inl e, c')
           | Inr compiled \<Rightarrow> (Inr compiled, cache_insert (sha256 bs) compiled c')))"

definition cache_clear :: "'m cache_inner \<Rightarrow> 'm cache_inner" where
  "cache_clear c = c\<lparr>mc_map := [], mc_order := []\<rparr>"

subsection \<open>The pool\<close>

record pool_config =
  max_concurrency :: nat
  max_cached_modules :: nat
  total_instances :: u32
  pool_max_memory_bytes :: nat
  table_elements :: nat
  pool_sandbox_config :: sandbox_config

definition default_pool_config :: pool_config where
  "default_pool_config = \<lparr>max_concurrency = 16, max_cached_modules = 256, total_instances = 100,
     pool_max_memory_bytes = 32 * 1024 * 1024, table_elements = 10000,
     pool_sandbox_config = default_sandbox_config\<rparr>"

record 'm sandbox_pool =
  sp_cache :: "'m cache_inner"
  available_permits :: nat
  sp_config :: pool_config

text \<open>\<open>Engine::new\<close> on the pooled configuration succeeds or not: \<open>engine_ok\<close>.\<close>

definition pool_new :: "bool \<Rightarrow> pool_config \<Rightarrow> 'm sandbox_pool result" where
  "pool_new engine_ok cfg =
     (if max_concurrency cfg = 0 then Inl (ConfigError ''pool max_concurrency must be > 0'')
      else if max_cached_modules cfg = 0 then Inl (ConfigError ''pool max_cached_modules must be > 0'')
      else if total_instances cfg < (word_of_nat (max_concurrency cfg) :: u32)
      then Inl (ConfigError ''pool max_concurrency ({}) must not exceed total_instances ({})'')
      else if \<not> engine_ok then Inl (ConfigError ''failed to create pooled engine: {e}'')
      else Inr \<lparr>sp_cache = cache_with_capacity (max_cached_modules cfg),
                available_permits = max_concurrency cfg, sp_config = cfg\<rparr>)"

text \<open>A call that waits for a permit while none is free does not return: \<open>None\<close>. A failed compilation
  drops the permit.\<close>

definition pool_acquire ::
  "(bytes \<Rightarrow> bytes) \<Rightarrow> 'm wasmtime \<Rightarrow> bytes \<Rightarrow> 'm sandbox_pool \<Rightarrow> ('m result \<times> 'm sandbox_pool) option" where
  "pool_acquire sha256 wt bs p =
     (if available_permits p = 0 then None
      else case get_or_compile sha256 wt bs (sp_cache p) of
             (Inl e, c) \<Rightarrow> Some (Inl (WasmError ''module load failed''), p\<lparr>sp_cache := c\<rparr>)
           | (Inr m, c) \<Rightarrow>
               Some (Inr m, p\<lparr>sp_cache := c, available_permits := available_permits p - 1\<rparr>))"

definition pool_release :: "'m sandbox_pool \<Rightarrow> 'm sandbox_pool" where
  "pool_release p = p\<lparr>available_permits := available_permits p + 1\<rparr>"

text \<open>The blocking task may panic: \<open>panicked\<close>.\<close>

definition execute_pooled_with_entry ::
  "(bytes \<Rightarrow> bytes) \<Rightarrow> 'm wasmtime \<Rightarrow> exec_env \<Rightarrow> bool \<Rightarrow> bytes \<Rightarrow> bytes list
   \<Rightarrow> restored_execution_state option \<Rightarrow> string \<Rightarrow> 'm sandbox_pool
   \<Rightarrow> (execution_result result \<times> 'm sandbox_pool) option" where
  "execute_pooled_with_entry sha256 wt xe panicked bs args restored_state entry_point p =
     (case pool_acquire sha256 wt bs p of
        None \<Rightarrow> None
      | Some (Inl e, p') \<Rightarrow> Some (Inl e, p')
      | Some (Inr m, p') \<Rightarrow>
          Some (if panicked then Inl (WasmError ''pooled execution task panicked: {e}'')
                else execute_module_inner wt xe (pool_sandbox_config (sp_config p')) m args restored_state entry_point,
                pool_release p'))"

subsection \<open>Least recently used\<close>

text \<open>The specification of one request: the key moves to the back and only the last \<open>n\<close> keys stay.\<close>

definition lru_touch :: "nat \<Rightarrow> 'k \<Rightarrow> 'k list \<Rightarrow> 'k list" where
  "lru_touch n k ks = (let ks' = removeAll k ks @ [k] in drop (length ks' - n) ks')"

definition cache_seq_inv :: "'m cache_inner \<Rightarrow> bool" where
  "cache_seq_inv c \<longleftrightarrow> distinct (mc_order c) \<and> set (mc_order c) = fst ` set (mc_map c) \<and> hm_wf (mc_map c)
     \<and> length (mc_order c) \<le> max_entries c \<and> 0 < max_entries c"

lemma hm_remove_keys: "fst ` set (hm_remove k m) = fst ` set m - {k}"
  using arg_cong [OF delete_keys [of k m], of set] by simp

lemma hm_keys_length: "hm_wf m \<Longrightarrow> distinct ks \<Longrightarrow> set ks = fst ` set m \<Longrightarrow> length m = length ks"
  by (metis distinct_card length_map set_map)

lemma evict_keys:
  assumes "distinct ks" and "set ks = fst ` set m" and "hm_wf m" and "evict n m ks = (m', ks')" and "0 < n"
  shows "ks' = drop (Suc (length ks) - n) ks \<and> set ks' = fst ` set m' \<and> hm_wf m'
    \<and> (\<forall>k \<in> set ks'. hm_get m' k = hm_get m k)"
  using assms
proof (induction n m ks rule: evict.induct)
  case (2 n m k ks)
  have len: "length m = Suc (length ks)" using hm_keys_length [OF 2(4) 2(2) 2(3)] by simp
  show ?case
  proof (cases "n \<le> length m")
    case True
    have s: "set ks = fst ` set (hm_remove k m)" using 2(2,3) unfolding hm_remove_keys by auto
    have ev: "evict n (hm_remove k m) ks = (m', ks')" using 2(5) True by simp
    have IH: "ks' = drop (Suc (length ks) - n) ks \<and> set ks' = fst ` set m' \<and> hm_wf m'
        \<and> (\<forall>j \<in> set ks'. hm_get m' j = hm_get (hm_remove k m) j)"
      by (rule 2(1) [OF True _ s _ ev 2(6)]) (use 2(2,4) in \<open>simp_all add: hm_wf_remove\<close>)
    have "k \<notin> set ks'" using IH 2(2) by (auto dest: in_set_dropD)
    then have "\<forall>j \<in> set ks'. hm_get m' j = hm_get m j" using IH by (metis hm_get_remove)
    moreover have "ks' = drop (Suc (length (k # ks)) - n) (k # ks)" using IH True len by (simp add: Suc_diff_le)
    ultimately show ?thesis using IH by blast
  next
    case False
    then have "m' = m" "ks' = k # ks" using 2(5) by simp_all
    with False 2(3,4) len show ?thesis by simp
  qed
qed auto

lemma evict_seq:
  assumes "cache_seq_inv c" and "evict (max_entries c) (mc_map c) (mc_order c) = (m, ks)"
  shows "ks = drop (Suc (length (mc_order c)) - max_entries c) (mc_order c)" and "set ks = fst ` set m"
    and "hm_wf m" and "k \<in> set ks \<Longrightarrow> hm_get m k = hm_get (mc_map c) k"
proof -
  have t: "ks = drop (Suc (length (mc_order c)) - max_entries c) (mc_order c) \<and> set ks = fst ` set m \<and> hm_wf m
      \<and> (\<forall>k \<in> set ks. hm_get m k = hm_get (mc_map c) k)"
    by (rule evict_keys [OF _ _ _ assms(2)]) (use assms(1) in \<open>simp_all add: cache_seq_inv_def\<close>)
  then show "ks = drop (Suc (length (mc_order c)) - max_entries c) (mc_order c)" by blast
  from t show "set ks = fst ` set m" "hm_wf m" by blast+
  from t show "k \<in> set ks \<Longrightarrow> hm_get m k = hm_get (mc_map c) k" by blast
qed

lemma cache_insert_lru:
  assumes inv: "cache_seq_inv c" and new: "hm_get (mc_map c) k = None"
  shows "cache_seq_inv (cache_insert k v c) \<and> mc_order (cache_insert k v c) = lru_touch (max_entries c) k (mc_order c)
    \<and> max_entries (cache_insert k v c) = max_entries c
    \<and> hm_get (mc_map (cache_insert k v c)) k = Some v
    \<and> (\<forall>j \<in> set (mc_order (cache_insert k v c)) - {k}. hm_get (mc_map (cache_insert k v c)) j = hm_get (mc_map c) j)"
proof -
  obtain m ks where ev: "evict (max_entries c) (mc_map c) (mc_order c) = (m, ks)" by fastforce
  note e = evict_seq [OF inv ev]
  have c': "cache_insert k v c = c\<lparr>mc_map := hm_insert k v m, mc_order := ks @ [k]\<rparr>"
    by (simp add: cache_insert_def ev)
  have k: "k \<notin> set (mc_order c)" using inv new by (auto simp: cache_seq_inv_def map_of_eq_None_iff)
  then have kks: "k \<notin> set ks" using e(1) by (auto dest: in_set_dropD)
  have d: "distinct ks" using inv e(1) by (simp add: cache_seq_inv_def)
  have len: "Suc (length ks) \<le> max_entries c" using inv e(1) by (auto simp: cache_seq_inv_def)
  have "set (ks @ [k]) = fst ` set (hm_insert k v m)" using e(2) dom_update [of k v m] by (simp add: insert_commute)
  then have "cache_seq_inv (cache_insert k v c)"
    using kks d len e(3) inv by (simp add: c' cache_seq_inv_def hm_wf_insert)
  moreover have "lru_touch (max_entries c) k (mc_order c) = ks @ [k]"
    using k e(1) inv by (simp add: lru_touch_def Let_def cache_seq_inv_def)
  ultimately show ?thesis using e(4) by (auto simp: c' hm_get_insert)
qed

text \<open>What one request does to the cache.\<close>

lemma get_or_compile_lru:
  assumes "cache_seq_inv c" and "get_or_compile sha256 wt bs c = (r, c')"
  shows "cache_seq_inv c' \<and> max_entries c' = max_entries c
    \<and> mc_order c' = (if isl r then mc_order c else lru_touch (max_entries c) (sha256 bs) (mc_order c))
    \<and> r = (case hm_get (mc_map c) (sha256 bs) of Some m \<Rightarrow> Inr m | None \<Rightarrow> wt_from_binary wt bs)
    \<and> (\<forall>j \<in> set (mc_order c'). hm_get (mc_map c') j =
          (if j = sha256 bs \<and> \<not> isl r then Some (projr r) else hm_get (mc_map c) j))"
proof (cases "hm_get (mc_map c) (sha256 bs)")
  case (Some m)
  then have k: "sha256 bs \<in> set (mc_order c)"
    using assms(1) by (force simp: cache_seq_inv_def dest: map_of_SomeD)
  have c': "c' = c\<lparr>hits := hits c + 1, mc_order := remove1 (sha256 bs) (mc_order c) @ [sha256 bs]\<rparr>" and r: "r = Inr m"
    using assms(2) Some by (simp_all add: get_or_compile_def cache_lookup_def)
  have d: "distinct (mc_order c)" "length (mc_order c) \<le> max_entries c" using assms(1) by (simp_all add: cache_seq_inv_def)
  have "Suc (length (mc_order c) - 1) \<le> max_entries c" "0 < max_entries c"
    using k d(2) by (cases "mc_order c"; simp)+
  then have lru: "mc_order c' = lru_touch (max_entries c) (sha256 bs) (mc_order c)"
    using d k by (simp add: c' lru_touch_def Let_def distinct_remove1_removeAll [symmetric] length_remove1)
  have "cache_seq_inv c'"
    using assms(1) k d by (auto simp: c' cache_seq_inv_def distinct_remove1_removeAll [symmetric] length_remove1)
  then show ?thesis using lru r Some by (simp add: c')
next
  case None
  have inv: "cache_seq_inv (c\<lparr>misses := misses c + 1\<rparr>)" using assms(1) by (simp add: cache_seq_inv_def)
  show ?thesis
  proof (cases "wt_from_binary wt bs")
    case (Inl e)
    then have "c' = c\<lparr>misses := misses c + 1\<rparr>" "r = Inl e"
      using None assms(2) by (simp_all add: get_or_compile_def cache_lookup_def)
    with None Inl inv show ?thesis by simp
  next
    case (Inr v)
    then have c': "c' = cache_insert (sha256 bs) v (c\<lparr>misses := misses c + 1\<rparr>)" and r: "r = Inr v"
      using None assms(2) by (simp_all add: get_or_compile_def cache_lookup_def)
    show ?thesis using cache_insert_lru [OF inv, of "sha256 bs" v] None Inr r by (auto simp: c')
  qed
qed

lemma cache_with_capacity_inv: "0 < n \<Longrightarrow> cache_seq_inv (cache_with_capacity n)"
  by (simp add: cache_seq_inv_def cache_with_capacity_def)

text \<open>A sequence of requests by one client.\<close>

definition requests ::
  "(bytes \<Rightarrow> bytes) \<Rightarrow> 'm wasmtime \<Rightarrow> bytes list \<Rightarrow> 'm cache_inner \<Rightarrow> 'm cache_inner" where
  "requests sha256 wt bss c = fold (\<lambda>bs c. snd (get_or_compile sha256 wt bs c)) bss c"

definition cache_sound :: "(bytes \<Rightarrow> bytes) \<Rightarrow> 'm wasmtime \<Rightarrow> 'm cache_inner \<Rightarrow> bool" where
  "cache_sound sha256 wt c \<longleftrightarrow>
     (\<forall>h m. hm_get (mc_map c) h = Some m \<longrightarrow> (\<exists>bs. sha256 bs = h \<and> wt_from_binary wt bs = Inr m))"

text \<open>The last \<open>n\<close> elements of a list, and the keys of a sequence of requests in the order of their last
  request.\<close>

definition lastn :: "nat \<Rightarrow> 'a list \<Rightarrow> 'a list" where
  "lastn n xs = drop (length xs - n) xs"

lemma lastn_append: "n \<le> length ys \<or> xs = [] \<Longrightarrow> lastn n (xs @ ys) = lastn n ys"
  by (auto simp: lastn_def)

lemma lastn_split: "\<exists>xs. L = xs @ lastn n L \<and> (xs = [] \<or> length (lastn n L) = n)"
  by (intro exI [of _ "take (length L - n) L"]) (auto simp: lastn_def)

lemma remdups_snoc: "remdups (ks @ [k]) = removeAll k (remdups ks) @ [k]"
  by (induction ks) auto

lemma lru_touch_lastn:
  assumes "distinct L"
  shows "lru_touch n k (lastn n L) = lastn n (removeAll k L @ [k])"
proof -
  obtain xs where L: "L = xs @ lastn n L" and x: "xs = [] \<or> length (lastn n L) = n" using lastn_split by blast
  define B where "B = lastn n L"
  have t: "lru_touch n k B = lastn n (removeAll k B @ [k])" by (simp add: lru_touch_def lastn_def Let_def)
  have R: "removeAll k L @ [k] = removeAll k xs @ (removeAll k B @ [k])"
    using arg_cong [OF L, of "removeAll k"] by (simp add: B_def)
  have d: "distinct B" using assms by (simp add: B_def lastn_def)
  have "length B \<le> Suc (length (removeAll k B))"
    using d by (auto simp: distinct_remove1_removeAll [symmetric] length_remove1)
  then have "n \<le> length (removeAll k B @ [k]) \<or> removeAll k xs = []" using x by (auto simp: B_def)
  then show ?thesis unfolding B_def [symmetric] t R by (rule lastn_append [symmetric])
qed

lemma requests_lru:
  fixes sha256 :: "bytes \<Rightarrow> bytes" and wt :: "'m wasmtime"
  assumes "0 < n" and "\<forall>bs \<in> set bss. \<not> isl (wt_from_binary wt bs)"
  defines "c \<equiv> requests sha256 wt bss (cache_with_capacity n)"
  shows "cache_seq_inv c \<and> max_entries c = n \<and> mc_order c = lastn n (remdups (map sha256 bss))
    \<and> (\<forall>h m. hm_get (mc_map c) h = Some m \<longrightarrow> (\<exists>bs \<in> set bss. sha256 bs = h \<and> wt_from_binary wt bs = Inr m))"
  using assms(2) unfolding c_def
proof (induction bss rule: rev_induct)
  case Nil
  show ?case using assms(1) by (simp add: requests_def cache_seq_inv_def cache_with_capacity_def lastn_def)
next
  case (snoc bs bss)
  define c0 where "c0 = requests sha256 wt bss (cache_with_capacity n)"
  obtain r c' where g: "get_or_compile sha256 wt bs c0 = (r, c')" by fastforce
  have c': "requests sha256 wt (bss @ [bs]) (cache_with_capacity n) = c'"
    using g by (simp add: requests_def c0_def)
  have IH: "cache_seq_inv c0" "max_entries c0 = n" "mc_order c0 = lastn n (remdups (map sha256 bss))"
    and snd: "\<And>h m. hm_get (mc_map c0) h = Some m \<Longrightarrow> \<exists>bs \<in> set bss. sha256 bs = h \<and> wt_from_binary wt bs = Inr m"
    using snoc unfolding c0_def by auto
  note l = get_or_compile_lru [OF IH(1) g]
  have r: "\<not> isl r" using l snoc.prems by (auto split: option.splits)
  have "mc_order c' = lastn n (remdups (map sha256 (bss @ [bs])))"
    using l r IH(2,3) lru_touch_lastn [OF distinct_remdups] by (simp add: remdups_snoc)
  moreover have "\<exists>b \<in> set (bss @ [bs]). sha256 b = h \<and> wt_from_binary wt b = Inr m"
    if h: "hm_get (mc_map c') h = Some m" for h m
  proof -
    have "h \<in> set (mc_order c')" using h l by (force simp: cache_seq_inv_def dest: map_of_SomeD)
    then have "hm_get (mc_map c') h = (if h = sha256 bs \<and> \<not> isl r then Some (projr r) else hm_get (mc_map c0) h)"
      using l by blast
    then consider "hm_get (mc_map c0) h = Some m" | "h = sha256 bs" "projr r = m"
      using h r by (cases "h = sha256 bs") simp_all
    then show ?thesis
    proof cases
      case 2
      have "r = (case hm_get (mc_map c0) (sha256 bs) of Some m \<Rightarrow> Inr m | None \<Rightarrow> wt_from_binary wt bs)"
        using l by blast
      then show ?thesis
        using 2 r snd [of "sha256 bs" m] by (cases "hm_get (mc_map c0) (sha256 bs)"; cases r) auto
    next
      case 1
      from snd [OF this] show ?thesis by auto
    qed
  qed
  ultimately show ?case using l IH(2) by (simp add: c')
qed

subsection \<open>Concurrent requests\<close>

datatype 'm client =
    Asked bytes
  | Missed bytes
  | Served bytes 'm
  | Refused bytes

inductive cache_step ::
  "(bytes \<Rightarrow> bytes) \<Rightarrow> 'm wasmtime \<Rightarrow> 'm cache_inner \<times> 'm client list \<Rightarrow> 'm cache_inner \<times> 'm client list \<Rightarrow> bool"
  for sha256 wt where
  ask: "cache_step sha256 wt (c, ts) (c, ts @ [Asked bs])"
| hit: "i < length ts \<Longrightarrow> ts ! i = Asked bs \<Longrightarrow> cache_lookup (sha256 bs) c = (Some m, c')
    \<Longrightarrow> cache_step sha256 wt (c, ts) (c', ts[i := Served bs m])"
| miss: "i < length ts \<Longrightarrow> ts ! i = Asked bs \<Longrightarrow> cache_lookup (sha256 bs) c = (None, c')
    \<Longrightarrow> cache_step sha256 wt (c, ts) (c', ts[i := Missed bs])"
| fail: "i < length ts \<Longrightarrow> ts ! i = Missed bs \<Longrightarrow> wt_from_binary wt bs = Inl e
    \<Longrightarrow> cache_step sha256 wt (c, ts) (c, ts[i := Refused bs])"
| compile: "i < length ts \<Longrightarrow> ts ! i = Missed bs \<Longrightarrow> wt_from_binary wt bs = Inr m
    \<Longrightarrow> cache_step sha256 wt (c, ts) (cache_insert (sha256 bs) m c, ts[i := Served bs m])"
| clear: "cache_step sha256 wt (c, ts) (cache_clear c, ts)"

definition cache_init :: "nat \<Rightarrow> 'm cache_inner \<times> 'm client list \<Rightarrow> bool" where
  "cache_init n s \<longleftrightarrow> s = (cache_with_capacity n, [])"

fun served_ok :: "(bytes \<Rightarrow> bytes) \<Rightarrow> 'm wasmtime \<Rightarrow> 'm client \<Rightarrow> bool" where
  "served_ok sha256 wt (Served bs m) = (\<exists>bs'. sha256 bs' = sha256 bs \<and> wt_from_binary wt bs' = Inr m)"
| "served_ok sha256 wt _ = True"

definition cache_inv :: "nat \<Rightarrow> (bytes \<Rightarrow> bytes) \<Rightarrow> 'm wasmtime \<Rightarrow> 'm cache_inner \<times> 'm client list \<Rightarrow> bool" where
  "cache_inv n sha256 wt s \<longleftrightarrow> cache_sound sha256 wt (fst s) \<and> hm_wf (mc_map (fst s))
     \<and> fst ` set (mc_map (fst s)) \<subseteq> set (mc_order (fst s)) \<and> length (mc_map (fst s)) \<le> n
     \<and> max_entries (fst s) = n \<and> list_all (served_ok sha256 wt) (snd s)"

lemma evict_inv:
  assumes "hm_wf m" and "fst ` set m \<subseteq> set ks" and "evict n m ks = (m', ks')" and "0 < n"
  shows "hm_wf m' \<and> fst ` set m' \<subseteq> set ks' \<and> length m' < n \<and> (\<forall>h v. hm_get m' h = Some v \<longrightarrow> hm_get m h = Some v)"
  using assms
proof (induction n m ks rule: evict.induct)
  case (2 n m k ks)
  show ?case
  proof (cases "n \<le> length m")
    case True
    have "fst ` set (hm_remove k m) \<subseteq> set ks" using 2(3) unfolding hm_remove_keys by auto
    with 2(1) [OF True] 2(2,4,5) True show ?thesis by (auto simp: hm_wf_remove hm_get_remove split: if_splits)
  qed (use 2 in auto)
qed auto

lemma cache_insert_inv:
  assumes "cache_inv n sha256 wt (c, ts)" and "0 < n" and "wt_from_binary wt bs = Inr v"
  shows "cache_inv n sha256 wt (cache_insert (sha256 bs) v c, ts)"
proof -
  obtain m ks where ev: "evict (max_entries c) (mc_map c) (mc_order c) = (m, ks)" by fastforce
  have M: "max_entries c = n" using assms(1) by (simp add: cache_inv_def)
  have e: "hm_wf m \<and> fst ` set m \<subseteq> set ks \<and> length m < n \<and> (\<forall>h v. hm_get m h = Some v \<longrightarrow> hm_get (mc_map c) h = Some v)"
    by (rule evict_inv [OF _ _ ev [unfolded M]]) (use assms ev in \<open>simp_all add: cache_inv_def\<close>)
  have len: "length (hm_insert k v m) \<le> Suc (length m)" for k by (induction m) auto
  have "fst ` set (hm_insert (sha256 bs) v m) \<subseteq> set (ks @ [sha256 bs])" using e dom_update [of "sha256 bs" v m] by auto
  moreover have c': "cache_insert (sha256 bs) v c = c\<lparr>mc_map := hm_insert (sha256 bs) v m, mc_order := ks @ [sha256 bs]\<rparr>"
    by (simp add: cache_insert_def ev)
  moreover have "cache_sound sha256 wt (cache_insert (sha256 bs) v c)"
    unfolding c' using assms(1,3) e by (auto simp: cache_sound_def cache_inv_def hm_get_insert split: if_splits)
  ultimately show ?thesis
    using assms(1) e len [of "sha256 bs"] by (simp add: cache_inv_def hm_wf_insert)
qed

lemma cache_lookup_inv:
  assumes "cache_inv n sha256 wt (c, ts)" and "cache_lookup (sha256 bs) c = (r, c')"
  shows "cache_inv n sha256 wt (c', ts)"
    and "r = Some m \<Longrightarrow> \<exists>bs'. sha256 bs' = sha256 bs \<and> wt_from_binary wt bs' = Inr m"
proof -
  have "fst ` set (mc_map c) \<subseteq> set (remove1 (sha256 bs) (mc_order c) @ [sha256 bs])"
    using assms(1) by (auto simp: cache_inv_def intro: in_set_remove1 [THEN iffD2])
  moreover have "c' = c\<lparr>misses := misses c + 1\<rparr>
      \<or> c' = c\<lparr>hits := hits c + 1, mc_order := remove1 (sha256 bs) (mc_order c) @ [sha256 bs]\<rparr>"
    using assms(2) by (cases "hm_get (mc_map c) (sha256 bs)") (simp_all add: cache_lookup_def)
  ultimately show "cache_inv n sha256 wt (c', ts)"
    using assms(1) unfolding cache_inv_def cache_sound_def by (elim disjE) simp_all
  show "\<exists>bs'. sha256 bs' = sha256 bs \<and> wt_from_binary wt bs' = Inr m" if "r = Some m"
  proof -
    have "hm_get (mc_map c) (sha256 bs) = Some m"
      using assms(2) that by (cases "hm_get (mc_map c) (sha256 bs)") (simp_all add: cache_lookup_def)
    then show ?thesis using assms(1) by (auto simp: cache_inv_def cache_sound_def simp del: map_of_eq_Some_iff)
  qed
qed

lemma cache_inv_client:
  "cache_inv n sha256 wt (c, ts) \<Longrightarrow> served_ok sha256 wt t \<Longrightarrow> cache_inv n sha256 wt (c, ts[i := t])"
  by (cases "i < length ts") (auto simp: cache_inv_def list_all_length nth_list_update)

lemma cache_step_inv:
  assumes "0 < n" and "cache_inv n sha256 wt s" and "cache_step sha256 wt s s'"
  shows "cache_inv n sha256 wt s'"
  using assms(3,2)
proof cases
  case (hit i ts bs c m c')
  then show ?thesis
    using cache_lookup_inv [of n sha256 wt c ts bs] assms(2) by (auto intro!: cache_inv_client)
next
  case (miss i ts bs c c')
  then show ?thesis
    using cache_lookup_inv [of n sha256 wt c ts bs] assms(2) by (auto intro!: cache_inv_client)
next
  case (compile i ts bs m c)
  then show ?thesis using assms by (auto intro!: cache_inv_client cache_insert_inv)
next
  case (fail i ts bs e c)
  then show ?thesis using assms(2) by (auto intro!: cache_inv_client)
qed (auto simp: cache_inv_def cache_clear_def cache_sound_def)

interpretation cache: inductive_invariant "cache_init (Suc n)" "cache_step sha256 wt" "cache_inv (Suc n) sha256 wt" for n sha256 wt
proof
  show "cache_inv (Suc n) sha256 wt s" if "cache_init (Suc n) s" for s
    using that by (simp add: cache_init_def cache_inv_def cache_with_capacity_def cache_sound_def)
qed (rule cache_step_inv, simp)

text \<open>Two clients that miss the same module at once both enter it, and its key is queued twice. The next
  hit moves only one of the two, so that the module used last is evicted before the one used first.\<close>

lemma double_miss_evicts_most_recent:
  fixes a b d :: 'm
  shows "let c0 = snd (cache_lookup [1] (snd (cache_lookup [1] (cache_with_capacity 2))));
             c1 = cache_insert [1] a (cache_insert [1] a c0);
             c2 = snd (cache_lookup [1] (cache_insert [2] b c1))
         in map fst (mc_map (cache_insert [3] d c2)) = [[2], [3]]"
  by (simp add: Let_def cache_insert_def cache_lookup_def cache_with_capacity_def)

subsection \<open>The pool's permits\<close>

lemma execute_pooled_returns:
  assumes "0 < available_permits p"
  shows "\<exists>r p'. execute_pooled_with_entry sha256 wt xe panicked bs args restored_state entry_point p = Some (r, p')
    \<and> available_permits p' = available_permits p \<and> sp_config p' = sp_config p
    \<and> (\<forall>x. r = Inr x \<longrightarrow> result_wf (pool_sandbox_config (sp_config p)) x)"
proof -
  obtain r c where g: "get_or_compile sha256 wt bs (sp_cache p) = (r, c)" by fastforce
  show ?thesis
  proof (cases r)
    case (Inr m)
    obtain x where "execute_module_inner wt xe (pool_sandbox_config (sp_config p)) m args restored_state entry_point = Inr x"
      and "result_wf (pool_sandbox_config (sp_config p)) x"
      using execute_module_inner_wf [of wt xe "pool_sandbox_config (sp_config p)" m args restored_state entry_point] by blast
    with g Inr assms show ?thesis by (simp add: execute_pooled_with_entry_def pool_acquire_def pool_release_def)
  qed (use g assms in \<open>simp add: execute_pooled_with_entry_def pool_acquire_def\<close>)
qed

lemma pool_new_permits:
  assumes "pool_new engine_ok cfg = Inr p"
  shows "0 < available_permits p \<and> available_permits p = max_concurrency cfg \<and> cache_seq_inv (sp_cache p)
    \<and> (max_concurrency cfg < 2 ^ 32 \<longrightarrow> max_concurrency cfg \<le> unat (total_instances cfg))"
proof -
  have "unat (word_of_nat (max_concurrency cfg) :: u32) = max_concurrency cfg" if "max_concurrency cfg < 2 ^ 32"
    using that by (simp add: unat_of_nat take_bit_nat_eq_self)
  with assms show ?thesis
    by (auto simp: pool_new_def cache_with_capacity_inv word_less_nat_alt split: if_splits)
qed

text \<open>The bound is compared after truncation to 32 bits: a larger \<open>max_concurrency\<close> slips through.\<close>

lemma pool_new_truncates:
  "\<exists>p. pool_new True (default_pool_config\<lparr>max_concurrency := 2 ^ 32 + 1\<rparr>) = Inr p
    \<and> unat (total_instances default_pool_config) < 2 ^ 32 + 1"
  by (simp add: pool_new_def default_pool_config_def)

subsection \<open>Properties\<close>


definition demo_sha :: "bytes \<Rightarrow> bytes" where
  "demo_sha b = b"


text \<open>
  Whatever the interleaving of lookups, compilations, insertions and clears by any number of clients, a
  client is served only a module compiled from bytes with the digest it asked for, and the cache never
  holds more modules than its capacity.
\<close>

lemma cache_concurrent_sound:
  assumes "reachable (cache_init n) (cache_step sha256 wt) (c, ts)" and "0 < n"
  shows "length (mc_map c) \<le> n
    \<and> (\<forall>bs m. Served bs m \<in> set ts \<longrightarrow> (\<exists>bs'. sha256 bs' = sha256 bs \<and> wt_from_binary wt bs' = Inr m))"
proof -
  have "cache_inv n sha256 wt (c, ts)" using cache.reachable_inv [of "n - 1"] assms by simp
  then show ?thesis by (fastforce simp: cache_inv_def list_all_iff)
qed

end
