(* ===== verification/Health.thy ===== *)
theory Health
  imports Failure_Recovery
begin

text \<open>
  The health validator, \<open>src/src/hypervisor/validator/health.rs\<close>. The \<open>sysinfo\<close> crate and the clocks
  are outside: one call reads a \<open>host_reading\<close> (the monotonic clock in microseconds, the CPU usage a
  refresh would report now, the memory counters, the wall clock), and the least interval between two
  CPU refreshes is an argument.
\<close>

record health_config =
  max_cpu_percent :: f32
  max_memory_growth_ratio :: f64
  hc_timeout :: nat
  cpu_spike_threshold :: f32
  fail_on_host_cpu :: bool

definition default_health_config :: health_config where
  "default_health_config =
     \<lparr>max_cpu_percent = Fin 95, max_memory_growth_ratio = Fin 3, hc_timeout = 30 * 1000000,
      cpu_spike_threshold = Fin 50, fail_on_host_cpu = False\<rparr>"

definition memory_usage_percent :: "resource_snapshot \<Rightarrow> f64" where
  "memory_usage_percent r =
     (if memory_limit_mb r = 0 then Fin 0
      else f64_mul (f64_div (u64_as_f64 (memory_used_mb r)) (u64_as_f64 (memory_limit_mb r))) (Fin 100))"

record host_reading =
  hr_instant :: nat
  hr_cpu :: f32
  hr_used :: u64
  hr_total :: u64
  hr_utc :: time

record health_validator =
  hv_config :: health_config
  hv_baseline :: "resource_snapshot option"
  hv_start :: "nat option"
  last_cpu_refresh :: "nat option"
  last_cpu_usage :: f32

definition validator_new :: "health_config \<Rightarrow> health_validator" where
  "validator_new config = \<lparr>hv_config = config, hv_baseline = None, hv_start = None,
     last_cpu_refresh = None, last_cpu_usage = Fin 0\<rparr>"

definition capture :: "nat \<Rightarrow> host_reading \<Rightarrow> health_validator \<Rightarrow> resource_snapshot \<times> health_validator" where
  "capture min_interval hr v =
     (let now = hr_instant hr;
          interval_elapsed = (case last_cpu_refresh v of
            Some t \<Rightarrow> min_interval \<le> now - t | None \<Rightarrow> False);
          (usage, v') = (if interval_elapsed
            then (hr_cpu hr, v\<lparr>last_cpu_usage := hr_cpu hr, last_cpu_refresh := Some now\<rparr>)
            else (last_cpu_usage v,
                  if last_cpu_refresh v = None then v\<lparr>last_cpu_refresh := Some now\<rparr> else v))
      in (\<lparr>cpu_usage = usage, memory_used_mb = hr_used hr div 1024,
           memory_limit_mb = hr_total hr div 1024, rs_timestamp = hr_utc hr\<rparr>, v'))"

definition start_execution :: "nat \<Rightarrow> host_reading \<Rightarrow> health_validator \<Rightarrow> health_validator" where
  "start_execution min_interval hr v =
     (case capture min_interval hr v of
        (resources, v') \<Rightarrow> v'\<lparr>hv_baseline := Some resources, hv_start := Some (hr_instant hr)\<rparr>)"

definition memory_growth :: "resource_snapshot \<Rightarrow> resource_snapshot \<Rightarrow> f64" where
  "memory_growth current base =
     (if 0 < memory_used_mb base
      then f64_div (u64_as_f64 (memory_used_mb current)) (u64_as_f64 (memory_used_mb base)) else Fin 1)"

definition validate_health :: "nat \<Rightarrow> host_reading \<Rightarrow> health_validator \<Rightarrow> health_status \<times> health_validator" where
  "validate_health min_interval hr v =
     (if (case hv_start v of Some start \<Rightarrow> hc_timeout (hv_config v) < hr_instant hr - start | None \<Rightarrow> False)
      then (HealthTimeout, v)
      else case capture min_interval hr v of
        (current, v') \<Rightarrow>
          (case hv_baseline v' of
             None \<Rightarrow> (Healthy, v')
           | Some base \<Rightarrow>
               (if fail_on_host_cpu (hv_config v')
                   \<and> fl_less (max_cpu_percent (hv_config v')) (cpu_usage current)
                then (ResourceExhausted, v')
                else if fail_on_host_cpu (hv_config v')
                   \<and> fl_less (cpu_spike_threshold (hv_config v')) (f32_sub (cpu_usage current) (cpu_usage base))
                then (ResourceExhausted, v')
                else if fl_less (max_memory_growth_ratio (hv_config v')) (memory_growth current base)
                then (ResourceExhausted, v')
                else (Healthy, v'))))"

definition check_corruption :: "nat \<Rightarrow> host_reading \<Rightarrow> health_validator \<Rightarrow> string option \<times> health_validator" where
  "check_corruption min_interval hr v =
     (case capture min_interval hr v of
        (resources, v') \<Rightarrow>
          (if fl_less (Fin 99) (memory_usage_percent resources) then (Some ''Memory usage critical'', v')
           else if fail_on_host_cpu (hv_config v') \<and> fl_less (Fin 99) (cpu_usage resources)
           then (Some ''CPU usage stuck at maximum'', v')
           else (None, v')))"

definition reset_health :: "health_validator \<Rightarrow> health_validator" where
  "reset_health v = v\<lparr>hv_baseline := None, hv_start := None\<rparr>"

definition current_resources :: "nat \<Rightarrow> host_reading \<Rightarrow> health_validator \<Rightarrow> resource_snapshot \<times> health_validator" where
  "current_resources = capture"

subsection \<open>Host load does not decide a guest's fate\<close>

text \<open>Two readings, samples or validators that agree on everything but CPU numbers.\<close>

definition same_but_cpu :: "host_reading \<Rightarrow> host_reading \<Rightarrow> bool" where
  "same_but_cpu a b \<longleftrightarrow> a\<lparr>hr_cpu := Fin 0\<rparr> = b\<lparr>hr_cpu := Fin 0\<rparr>"

definition same_sample :: "resource_snapshot \<Rightarrow> resource_snapshot \<Rightarrow> bool" where
  "same_sample a b \<longleftrightarrow> a\<lparr>cpu_usage := Fin 0\<rparr> = b\<lparr>cpu_usage := Fin 0\<rparr>"

definition same_validator :: "health_validator \<Rightarrow> health_validator \<Rightarrow> bool" where
  "same_validator v w \<longleftrightarrow> hv_config v = hv_config w \<and> hv_start v = hv_start w
     \<and> last_cpu_refresh v = last_cpu_refresh w \<and> rel_option same_sample (hv_baseline v) (hv_baseline w)"

lemma same_readings:
  "same_but_cpu a b \<Longrightarrow> hr_instant a = hr_instant b \<and> hr_used a = hr_used b \<and> hr_total a = hr_total b
     \<and> hr_utc a = hr_utc b"
  by (cases a; cases b) (simp add: same_but_cpu_def)

lemma same_samples:
  "same_sample a b \<Longrightarrow> memory_used_mb a = memory_used_mb b \<and> memory_limit_mb a = memory_limit_mb b"
  by (cases a; cases b) (simp add: same_sample_def)

lemma capture_same:
  assumes "same_but_cpu a b" and "same_validator v w"
  shows "same_sample (fst (capture mi a v)) (fst (capture mi b w))
    \<and> same_validator (snd (capture mi a v)) (snd (capture mi b w))"
  using same_readings [OF assms(1)] assms(2)
  by (auto simp: capture_def Let_def same_sample_def same_validator_def split: option.splits)

lemma capture_config [simp]: "hv_config (snd (capture mi hr v)) = hv_config v"
  "hv_baseline (snd (capture mi hr v)) = hv_baseline v" "hv_start (snd (capture mi hr v)) = hv_start v"
  by (simp_all add: capture_def Let_def)

text \<open>
  Ambient CPU load cannot fail a guest: unless \<open>fail_on_host_cpu\<close> is set, the health verdict and the
  corruption check are the same for any two hosts that differ only in their CPU readings, now and at
  every earlier sample.
\<close>

lemma host_cpu_irrelevant:
  assumes "same_but_cpu a b" and "same_validator v w" and "\<not> fail_on_host_cpu (hv_config v)"
  shows "fst (validate_health mi a v) = fst (validate_health mi b w)
    \<and> fst (check_corruption mi a v) = fst (check_corruption mi b w)
    \<and> same_validator (start_execution mi a v) (start_execution mi b w)"
proof -
  obtain ra v' where ca: "capture mi a v = (ra, v')" by fastforce
  obtain rb w' where cb: "capture mi b w = (rb, w')" by fastforce
  have same: "same_sample ra rb" "same_validator v' w'" using capture_same [OF assms(1,2), of mi] ca cb by simp_all
  have cfg: "hv_config v' = hv_config v" "hv_config w' = hv_config v" "hv_baseline v' = hv_baseline v"
    "hv_baseline w' = hv_baseline w"
    using capture_config(1,2) [of mi a v] capture_config(1,2) [of mi b w] ca cb assms(2)
    by (simp_all add: same_validator_def)
  note eqs = same_readings [OF assms(1)] same_samples [OF same(1)] cfg assms(3) ca cb
  have "fst (validate_health mi a v) = fst (validate_health mi b w)"
    using assms(2) eqs
    by (cases "hv_start w"; cases "hv_baseline v"; cases "hv_baseline w")
      (auto simp: validate_health_def same_validator_def memory_growth_def dest!: same_samples)
  moreover have "fst (check_corruption mi a v) = fst (check_corruption mi b w)"
    using eqs by (simp add: check_corruption_def memory_usage_percent_def)
  moreover have "same_validator (start_execution mi a v) (start_execution mi b w)"
    using same eqs by (simp add: start_execution_def same_validator_def)
  ultimately show ?thesis by blast
qed

end
