(* ===== verification/Telemetry.thy ===== *)
theory Telemetry
  imports Health Differential
begin

text \<open>
  Telemetry: the execution history, learned patterns and statistics of \<open>src/src/telemetry/mod.rs\<close> and
  the checkpoint traces of \<open>src/src/telemetry/trace.rs\<close>. Record ids and clock readings are arguments.
\<close>

subsection \<open>Execution records and the sink\<close>

record execution_record =
  er_id :: string
  er_timestamp :: time
  er_operation :: string
  er_success :: bool
  er_duration_ms :: u64
  er_fuel_consumed :: u64
  er_health_status :: health_status
  er_error :: "error_log option"
  er_resources :: resource_snapshot

definition record_of_success ::
  "string \<Rightarrow> time \<Rightarrow> string \<Rightarrow> u64 \<Rightarrow> u64 \<Rightarrow> resource_snapshot \<Rightarrow> execution_record" where
  "record_of_success new_id now operation duration_ms fuel_consumed resources =
     \<lparr>er_id = new_id, er_timestamp = now, er_operation = operation, er_success = True,
      er_duration_ms = duration_ms, er_fuel_consumed = fuel_consumed, er_health_status = Healthy,
      er_error = None, er_resources = resources\<rparr>"

definition record_of_failure ::
  "string \<Rightarrow> time \<Rightarrow> string \<Rightarrow> error_log \<Rightarrow> u64 \<Rightarrow> u64 \<Rightarrow> execution_record" where
  "record_of_failure new_id now operation err duration_ms fuel_consumed =
     \<lparr>er_id = new_id, er_timestamp = now, er_operation = operation, er_success = False,
      er_duration_ms = duration_ms, er_fuel_consumed = fuel_consumed,
      er_health_status = trigger_status err, er_error = Some err, er_resources = el_resources err\<rparr>"

record telemetry_stats =
  total_executions :: u64
  successful_executions :: u64
  failed_executions :: u64
  ts_total_rollbacks :: u64
  avg_duration_ms :: f64
  avg_fuel_per_execution :: f64
  success_rate :: f64

record learned_pattern =
  lp_operation :: string
  lp_pattern :: string
  lp_success_count :: u64
  lp_last_used :: time

record telemetry_sink =
  history :: "execution_record list"
  max_history :: nat
  patterns :: "learned_pattern list"
  sink_stats :: telemetry_stats

definition sink_new :: "nat \<Rightarrow> telemetry_sink" where
  "sink_new mx = \<lparr>history = [], max_history = mx, patterns = [],
     sink_stats = \<lparr>total_executions = 0, successful_executions = 0, failed_executions = 0,
       ts_total_rollbacks = 0, avg_duration_ms = Fin 0, avg_fuel_per_execution = Fin 0, success_rate = Fin 0\<rparr>\<rparr>"

definition add_to_history :: "execution_record \<Rightarrow> telemetry_sink \<Rightarrow> telemetry_sink" where
  "add_to_history r s =
     (let h = (if max_history s \<le> length (history s) then tl (history s) else history s)
      in s\<lparr>history := h @ [r]\<rparr>)"

text \<open>\<open>iter_mut().find(..)\<close> and the update of the element found.\<close>

fun update_first :: "('a \<Rightarrow> bool) \<Rightarrow> ('a \<Rightarrow> 'a) \<Rightarrow> 'a list \<Rightarrow> 'a list option" where
  "update_first P f [] = None"
| "update_first P f (x # xs) = (if P x then Some (f x # xs) else map_option (Cons x) (update_first P f xs))"

definition update_pattern :: "time \<Rightarrow> string \<Rightarrow> bool \<Rightarrow> telemetry_sink \<Rightarrow> telemetry_sink" where
  "update_pattern now operation success s =
     (case update_first (\<lambda>p. lp_operation p = operation)
             (\<lambda>p. p\<lparr>lp_success_count := (if success then saturating_add (lp_success_count p) 1
                                         else saturating_sub (lp_success_count p) 1),
                    lp_last_used := now\<rparr>) (patterns s) of
        Some ps \<Rightarrow> s\<lparr>patterns := ps\<rparr>
      | None \<Rightarrow>
          (if success
           then s\<lparr>patterns := patterns s @ [\<lparr>lp_operation = operation, lp_pattern = ''initial_success'',
                    lp_success_count = 1, lp_last_used = now\<rparr>]\<rparr>
           else s))"

text \<open>\<open>(avg * (n - 1) as f64 + x as f64) / n as f64\<close>.\<close>

definition running_avg :: "f64 \<Rightarrow> u64 \<Rightarrow> u64 \<Rightarrow> f64" where
  "running_avg avg n x = f64_div (f64_add (f64_mul avg (u64_as_f64 (n - 1))) (u64_as_f64 x)) (u64_as_f64 n)"

definition record_success :: "time \<Rightarrow> execution_record \<Rightarrow> telemetry_sink \<Rightarrow> telemetry_sink" where
  "record_success now r s =
     (let s1 = update_pattern now (er_operation r) True (add_to_history r s);
          st = sink_stats s1;
          n = total_executions st + 1;
          k = successful_executions st + 1
      in s1\<lparr>sink_stats := st\<lparr>total_executions := n, successful_executions := k,
             avg_duration_ms := running_avg (avg_duration_ms st) n (er_duration_ms r),
             avg_fuel_per_execution := running_avg (avg_fuel_per_execution st) n (er_fuel_consumed r),
             success_rate := f64_div (u64_as_f64 k) (u64_as_f64 n)\<rparr>\<rparr>)"

definition record_failure :: "time \<Rightarrow> execution_record \<Rightarrow> telemetry_sink \<Rightarrow> telemetry_sink" where
  "record_failure now r s =
     (let s1 = update_pattern now (er_operation r) False (add_to_history r s);
          st = sink_stats s1;
          n = total_executions st + 1
      in s1\<lparr>sink_stats := st\<lparr>total_executions := n, failed_executions := failed_executions st + 1,
             ts_total_rollbacks := (if er_error r = None then ts_total_rollbacks st
                                    else ts_total_rollbacks st + 1),
             avg_duration_ms := running_avg (avg_duration_ms st) n (er_duration_ms r),
             success_rate := f64_div (u64_as_f64 (successful_executions st)) (u64_as_f64 n)\<rparr>\<rparr>)"

definition get_history :: "nat option \<Rightarrow> telemetry_sink \<Rightarrow> execution_record list" where
  "get_history limit s =
     (let n = (case limit of Some k \<Rightarrow> k | None \<Rightarrow> length (history s)) in take n (rev (history s)))"

definition get_patterns :: "string \<Rightarrow> telemetry_sink \<Rightarrow> string list" where
  "get_patterns operation s =
     map lp_pattern (filter (\<lambda>p. lp_operation p = operation \<and> 0 < lp_success_count p) (patterns s))"

definition nl :: string where
  "nl = [CHR 0x0A]"

definition generate_feedback :: "string \<Rightarrow> telemetry_sink \<Rightarrow> string" where
  "generate_feedback operation s =
     (let ps = get_patterns operation s; recent = get_history (Some 5) s
      in (if ps = [] then []
          else ''## Previously Successful Approaches'' @ nl
               @ concat (map (\<lambda>p. ''- '' @ p @ nl) (take 3 ps)) @ nl)
         @ ''## Recent Executions'' @ nl
         @ concat (map (\<lambda>r. (if er_success r then [CHR 0xE2, CHR 0x9C, CHR 0x93] else [CHR 0xE2, CHR 0x9C, CHR 0x97])
                     @ '' '' @ er_operation r @ '' ('' @ dec_u (er_duration_ms r) @ ''ms)'' @ nl) (take 3 recent)))"

definition clear_history :: "telemetry_sink \<Rightarrow> telemetry_sink" where
  "clear_history s = s\<lparr>history := []\<rparr>"

subsection \<open>Checkpoint traces\<close>

record trace_config =
  checkpoint_interval_fuel :: u64
  max_checkpoints :: nat
  capture_memory :: bool

definition default_trace_config :: trace_config where
  "default_trace_config = \<lparr>checkpoint_interval_fuel = 10000, max_checkpoints = 256, capture_memory = True\<rparr>"

record checkpoint =
  cp_sequence :: nat
  cp_fuel_at :: u64
  cp_memory_hash :: string
  cp_globals :: "global_snapshot list"

record execution_trace =
  tr_id :: uuid
  tr_tool_name :: string
  checkpoints :: "checkpoint list"

definition trace_new :: "uuid \<Rightarrow> string \<Rightarrow> execution_trace" where
  "trace_new new_id tool_name = \<lparr>tr_id = new_id, tr_tool_name = tool_name, checkpoints = []\<rparr>"

definition trace_push ::
  "u64 \<Rightarrow> string \<Rightarrow> global_snapshot list \<Rightarrow> nat \<Rightarrow> execution_trace \<Rightarrow> bool \<times> execution_trace" where
  "trace_push fuel_at memory_hash gs mx t =
     (if mx \<le> length (checkpoints t) then (False, t)
      else (True, t\<lparr>checkpoints := checkpoints t @
              [\<lparr>cp_sequence = length (checkpoints t), cp_fuel_at = fuel_at, cp_memory_hash = memory_hash,
                cp_globals = gs\<rparr>]\<rparr>))"

record trace_replay =
  rp_trace :: execution_trace
  rp_cursor :: nat

definition replay :: "execution_trace \<Rightarrow> trace_replay" where
  "replay t = \<lparr>rp_trace = t, rp_cursor = 0\<rparr>"

definition checkpoint_at :: "execution_trace \<Rightarrow> nat \<Rightarrow> checkpoint option" where
  "checkpoint_at t i = (if i < length (checkpoints t) then Some (checkpoints t ! i) else None)"

definition replay_current :: "trace_replay \<Rightarrow> checkpoint option" where
  "replay_current r = checkpoint_at (rp_trace r) (rp_cursor r)"

definition step_forward :: "trace_replay \<Rightarrow> checkpoint option \<times> trace_replay" where
  "step_forward r =
     (if rp_cursor r + 1 < length (checkpoints (rp_trace r))
      then let r' = r\<lparr>rp_cursor := rp_cursor r + 1\<rparr> in (replay_current r', r')
      else (None, r))"

definition step_backward :: "trace_replay \<Rightarrow> checkpoint option \<times> trace_replay" where
  "step_backward r =
     (if 0 < rp_cursor r
      then let r' = r\<lparr>rp_cursor := rp_cursor r - 1\<rparr> in (replay_current r', r')
      else (None, r))"

definition goto_checkpoint :: "nat \<Rightarrow> trace_replay \<Rightarrow> checkpoint option \<times> trace_replay" where
  "goto_checkpoint idx r =
     (if idx < length (checkpoints (rp_trace r))
      then let r' = r\<lparr>rp_cursor := idx\<rparr> in (replay_current r', r')
      else (None, r))"

definition replay_fuel_at :: "nat \<Rightarrow> trace_replay \<Rightarrow> u64 option" where
  "replay_fuel_at idx r = map_option cp_fuel_at (checkpoint_at (rp_trace r) idx)"

subsection \<open>What the sink knows after a sequence of executions\<close>

definition record_event :: "time \<times> execution_record \<Rightarrow> telemetry_sink \<Rightarrow> telemetry_sink" where
  "record_event e s = (case e of (now, r) \<Rightarrow>
     if er_success r then record_success now r s else record_failure now r s)"

text \<open>The counter kept for an operation: nothing before its first success, then up and down.\<close>

definition count_outcome :: "u64 option \<Rightarrow> bool \<Rightarrow> u64 option" where
  "count_outcome c success =
     (case c of
        Some k \<Rightarrow> Some (if success then saturating_add k 1 else saturating_sub k 1)
      | None \<Rightarrow> (if success then Some 1 else None))"

definition pattern_count :: "string \<Rightarrow> execution_record list \<Rightarrow> u64 option" where
  "pattern_count operation rs =
     foldl count_outcome None (map er_success (filter (\<lambda>r. er_operation r = operation) rs))"

lemma update_pattern_sel [simp]:
  "history (update_pattern t o' b s) = history s" "max_history (update_pattern t o' b s) = max_history s"
  "sink_stats (update_pattern t o' b s) = sink_stats s"
  by (simp_all add: update_pattern_def split: option.split)

lemma add_to_history_sel [simp]:
  "patterns (add_to_history r s) = patterns s" "max_history (add_to_history r s) = max_history s"
  "sink_stats (add_to_history r s) = sink_stats s"
  by (simp_all add: add_to_history_def Let_def)

lemma update_first_None: "update_first P f xs = None \<longleftrightarrow> (\<forall>x \<in> set xs. \<not> P x)"
  by (induction xs) auto

interpretation history: bounded_history max_history history add_to_history
  by unfold_locales (simp_all add: add_to_history_def Let_def)

lemma record_event_history [simp]: "history (record_event e s) = history (add_to_history (snd e) s)"
  "max_history (record_event e s) = max_history s"
  by (simp_all add: record_event_def record_success_def record_failure_def Let_def case_prod_unfold)

lemma run_history: "history (fold record_event evs s) = history (fold add_to_history (map snd evs) s)"
proof (induction evs arbitrary: s rule: rev_induct)
  case (snoc e evs)
  moreover have "max_history (fold record_event evs s) = max_history s"
    by (induction evs arbitrary: s) simp_all
  moreover have "max_history (fold add_to_history rs s) = max_history s" for rs
    by (induction rs arbitrary: s) simp_all
  ultimately show ?case by (simp add: history.push_contents)
qed simp

text \<open>At most one pattern per operation, all with the pattern text of a first success.\<close>

definition pattern_view :: "telemetry_sink \<Rightarrow> string \<Rightarrow> u64 option" where
  "pattern_view s operation = map_option lp_success_count (find (\<lambda>p. lp_operation p = operation) (patterns s))"

definition patterns_inv :: "telemetry_sink \<Rightarrow> bool" where
  "patterns_inv s \<longleftrightarrow> distinct (map lp_operation (patterns s)) \<and> (\<forall>p \<in> set (patterns s). lp_pattern p = ''initial_success'')"

lemma update_first_Some:
  assumes "update_first (\<lambda>p. lp_operation p = k) f xs = Some ys" and "\<And>p. lp_operation (f p) = lp_operation p"
    and "\<And>p. lp_pattern (f p) = lp_pattern p"
  shows "map lp_operation ys = map lp_operation xs \<and> map lp_pattern ys = map lp_pattern xs
    \<and> find (\<lambda>p. lp_operation p = q) ys =
        (if q = k then map_option f (find (\<lambda>p. lp_operation p = q) xs) else find (\<lambda>p. lp_operation p = q) xs)"
  using assms(1)
proof (induction xs arbitrary: ys)
  case (Cons x xs)
  show ?case
  proof (cases "lp_operation x = k")
    case True
    then have "ys = f x # xs" using Cons.prems by simp
    with True show ?thesis by (cases "q = k") (simp_all add: assms(2,3))
  next
    case False
    then obtain zs where zs: "update_first (\<lambda>p. lp_operation p = k) f xs = Some zs" "ys = x # zs"
      using Cons.prems by auto
    with Cons.IH [OF zs(1)] False show ?thesis by (cases "q = lp_operation x") simp_all
  qed
qed simp

lemma find_append_case: "find P (xs @ ys) = (case find P xs of Some x \<Rightarrow> Some x | None \<Rightarrow> find P ys)"
  by (induction xs) simp_all

lemma update_pattern_fresh:
  assumes "patterns_inv s" and "\<forall>p \<in> set (patterns s). lp_operation p \<noteq> operation"
    and "lp_operation p' = operation" and "lp_pattern p' = ''initial_success''"
  shows "patterns_inv (s\<lparr>patterns := patterns s @ [p']\<rparr>)
    \<and> pattern_view (s\<lparr>patterns := patterns s @ [p']\<rparr>) q =
        (if q = operation then Some (lp_success_count p') else pattern_view s q)"
proof -
  have "find (\<lambda>p. lp_operation p = operation) (patterns s) = None"
    unfolding find_None_iff using assms(2) by blast
  then have "find (\<lambda>p. lp_operation p = q) (patterns s @ [p']) =
      (if q = operation then Some p' else find (\<lambda>p. lp_operation p = q) (patterns s))"
    using assms(3) by (cases "q = operation"; cases "find (\<lambda>p. lp_operation p = q) (patterns s)")
      (simp_all add: find_append_case)
  moreover have "operation \<notin> set (map lp_operation (patterns s))" using assms(2) by auto
  ultimately show ?thesis using assms(1,3,4) by (simp add: pattern_view_def patterns_inv_def)
qed

lemma update_pattern_known:
  assumes inv: "patterns_inv s" and f: "\<And>p. lp_operation (f p) = lp_operation p" "\<And>p. lp_pattern (f p) = lp_pattern p"
    and up: "update_first (\<lambda>p. lp_operation p = operation) f (patterns s) = Some ps"
  shows "patterns_inv (s\<lparr>patterns := ps\<rparr>)
    \<and> pattern_view (s\<lparr>patterns := ps\<rparr>) q =
        (if q = operation then map_option (\<lambda>p. lp_success_count (f p)) (find (\<lambda>p. lp_operation p = q) (patterns s))
         else pattern_view s q)"
proof -
  have u: "map lp_operation ps = map lp_operation (patterns s)" "map lp_pattern ps = map lp_pattern (patterns s)"
    "find (\<lambda>p. lp_operation p = q) ps =
      (if q = operation then map_option f (find (\<lambda>p. lp_operation p = q) (patterns s))
       else find (\<lambda>p. lp_operation p = q) (patterns s))"
    using update_first_Some [OF up f, of q] by blast+
  have pats: "(\<forall>p \<in> set xs. lp_pattern p = c) \<longleftrightarrow> set (map lp_pattern xs) \<subseteq> {c}" for xs c by auto
  show ?thesis using inv u by (simp add: patterns_inv_def pattern_view_def pats option.map_comp comp_def del: set_map)
qed

lemma update_pattern_view:
  assumes "patterns_inv s"
  shows "patterns_inv (update_pattern now operation b s)
    \<and> pattern_view (update_pattern now operation b s) q =
        (if q = operation then count_outcome (pattern_view s q) b else pattern_view s q)"
proof -
  define f :: "learned_pattern \<Rightarrow> learned_pattern" where "f = (\<lambda>p. p\<lparr>lp_success_count := (if b then saturating_add (lp_success_count p) 1
      else saturating_sub (lp_success_count p) 1), lp_last_used := now\<rparr>)"
  have f: "lp_operation (f p) = lp_operation p" "lp_pattern (f p) = lp_pattern p"
    "lp_success_count (f p) = (if b then saturating_add (lp_success_count p) 1 else saturating_sub (lp_success_count p) 1)" for p
    by (simp_all add: f_def)
  note unf = update_pattern_def [of now operation b s, folded f_def]
  show ?thesis
  proof (cases "update_first (\<lambda>p. lp_operation p = operation) f (patterns s)")
    case None
    then have no: "\<forall>p \<in> set (patterns s). lp_operation p \<noteq> operation" by (simp add: update_first_None)
    then have "find (\<lambda>p. lp_operation p = operation) (patterns s) = None" unfolding find_None_iff by blast
    then have "pattern_view s operation = None" by (simp add: pattern_view_def)
    define p' where "p' = \<lparr>lp_operation = operation, lp_pattern = ''initial_success'',
      lp_success_count = 1, lp_last_used = now\<rparr>"
    have "update_pattern now operation b s = (if b then s\<lparr>patterns := patterns s @ [p']\<rparr> else s)"
      by (simp add: unf None p'_def)
    with update_pattern_fresh [OF assms no, of p' q] assms \<open>pattern_view s operation = None\<close>
    show ?thesis by (cases "q = operation") (simp_all add: p'_def count_outcome_def)
  next
    case (Some ps)
    have "\<not> (\<forall>p \<in> set (patterns s). lp_operation p \<noteq> operation)"
      using Some by (simp flip: update_first_None [of _ f])
    then have "find (\<lambda>p. lp_operation p = operation) (patterns s) \<noteq> None" unfolding find_None_iff by blast
    then obtain p where p: "find (\<lambda>p. lp_operation p = operation) (patterns s) = Some p" by blast
    with update_pattern_known [OF assms f(1,2) Some, of q] show ?thesis
      by (cases "q = operation") (simp_all add: unf Some pattern_view_def count_outcome_def f(3))
  qed
qed

lemma record_event_view:
  assumes "patterns_inv s"
  shows "patterns_inv (record_event (now, r) s)
    \<and> pattern_view (record_event (now, r) s) q =
        (if q = er_operation r then count_outcome (pattern_view s q) (er_success r) else pattern_view s q)"
proof -
  have "patterns (record_event (now, r) s) = patterns (update_pattern now (er_operation r) (er_success r) (add_to_history r s))"
    by (simp add: record_event_def record_success_def record_failure_def Let_def)
  moreover have "patterns_inv (add_to_history r s)" "pattern_view (add_to_history r s) = pattern_view s"
    using assms by (simp_all add: patterns_inv_def pattern_view_def fun_eq_iff)
  ultimately show ?thesis
    using update_pattern_view [of "add_to_history r s" now "er_operation r" "er_success r" q]
    by (simp add: patterns_inv_def pattern_view_def)
qed

lemma run_patterns:
  "patterns_inv (fold record_event evs (sink_new mx))
   \<and> pattern_view (fold record_event evs (sink_new mx)) q = pattern_count q (map snd evs)"
proof (induction evs arbitrary: q rule: rev_induct)
  case Nil
  show ?case by (simp add: patterns_inv_def pattern_view_def pattern_count_def sink_new_def)
next
  case (snoc e evs)
  obtain now r where e: "e = (now, r)" by fastforce
  from snoc record_event_view [of "fold record_event evs (sink_new mx)" now r q] show ?case
    by (simp add: e pattern_count_def)
qed

lemma run_counts:
  "total_executions (sink_stats (fold record_event evs (sink_new mx))) = word_of_nat (length evs)
   \<and> successful_executions (sink_stats (fold record_event evs (sink_new mx))) =
       word_of_nat (length (filter (er_success \<circ> snd) evs))
   \<and> failed_executions (sink_stats (fold record_event evs (sink_new mx))) =
       word_of_nat (length (filter (Not \<circ> er_success \<circ> snd) evs))"
proof (induction evs rule: rev_induct)
  case Nil
  show ?case by (simp add: sink_new_def)
next
  case (snoc e evs)
  obtain now r where e: "e = (now, r)" by fastforce
  from snoc show ?case
    by (simp add: e record_event_def record_success_def record_failure_def Let_def)
qed

text \<open>
  Telemetry is faithful: after any executions, in any order and for any number of operations, the
  history is exactly the most recent records, the counters are the numbers of executions, successes and
  failures (modulo the width of the counter), and an operation is reported as a successful pattern
  exactly when its saturating success counter, which failures decrement, is positive.
\<close>

lemma telemetry_faithful:
  "history (fold record_event evs (sink_new mx)) = drop (length evs - max 1 mx) (map snd evs)
   \<and> total_executions (sink_stats (fold record_event evs (sink_new mx))) = word_of_nat (length evs)
   \<and> successful_executions (sink_stats (fold record_event evs (sink_new mx)))
     + failed_executions (sink_stats (fold record_event evs (sink_new mx))) = word_of_nat (length evs)
   \<and> get_patterns operation (fold record_event evs (sink_new mx)) =
       (case pattern_count operation (map snd evs) of
          Some k \<Rightarrow> if 0 < k then [''initial_success''] else [] | None \<Rightarrow> [])"
proof -
  let ?s = "fold record_event evs (sink_new mx)"
  have "history ?s = drop (length evs - max 1 mx) (map snd evs)"
    using history.pushes_window(1) [of "sink_new mx" "map snd evs"] by (simp add: run_history sink_new_def)
  moreover have "length (filter (er_success \<circ> snd) evs) + length (filter (Not \<circ> er_success \<circ> snd) evs) = length evs"
    using sum_length_filter_compl [of "er_success \<circ> snd" evs] by (simp add: comp_def)
  then have "successful_executions (sink_stats ?s) + failed_executions (sink_stats ?s) = word_of_nat (length evs)"
    by (simp add: run_counts flip: of_nat_add)
  moreover have "get_patterns operation ?s =
      (case pattern_view ?s operation of Some k \<Rightarrow> if 0 < k then [''initial_success''] else [] | None \<Rightarrow> [])"
  proof -
    have "map lp_pattern (filter (\<lambda>p. lp_operation p = operation \<and> 0 < lp_success_count p) ps) =
        (case map_option lp_success_count (find (\<lambda>p. lp_operation p = operation) ps) of
           Some k \<Rightarrow> if 0 < k then [c] else [] | None \<Rightarrow> [])"
      if "distinct (map lp_operation ps)" "\<forall>p \<in> set ps. lp_pattern p = c" for ps :: "learned_pattern list" and c
      using that
    proof (induction ps)
      case (Cons p ps)
      show ?case
      proof (cases "lp_operation p = operation")
        case True
        then have "filter (\<lambda>p. lp_operation p = operation \<and> 0 < lp_success_count p) ps = []"
          using Cons.prems(1) by (auto simp: filter_empty_conv) (metis imageI)
        with True Cons.prems(2) show ?thesis by simp
      next
        case False
        with Cons show ?thesis by simp
      qed
    qed simp
    moreover have "patterns_inv ?s" using run_patterns by blast
    ultimately show ?thesis unfolding get_patterns_def pattern_view_def patterns_inv_def by blast
  qed
  ultimately show ?thesis using run_counts [of evs mx] run_patterns [of evs mx operation] by simp
qed

end
