(* ===== verification/Instinct.thy ===== *)
theory Instinct
  imports Telemetry Capability "HOL-Library.Multiset"
begin

text \<open>
  The instinct store, \<open>src/src/instinct/mod.rs\<close>: recovery suggestions learned from the outcome of
  retries, their Laplace-smoothed confidence in single precision, and their files, one per failure
  category. JSON is a parameter; the directory is a map from paths to file contents; whether a file
  write succeeds, clock readings and fresh ids are arguments.
\<close>

subsection \<open>Instincts\<close>

record instinct =
  in_id :: uuid
  failure_category :: string
  operation_pattern :: string
  recovery_description :: string
  confidence :: f32
  support_count :: u64
  failure_count :: u64
  created_at :: time
  last_updated :: time

definition instinct_new :: "uuid \<Rightarrow> time \<Rightarrow> string \<Rightarrow> string \<Rightarrow> string \<Rightarrow> instinct" where
  "instinct_new new_id now cat pat desc =
     \<lparr>in_id = new_id, failure_category = cat, operation_pattern = pat, recovery_description = desc,
      confidence = Fin (1 / 2), support_count = 0, failure_count = 0, created_at = now, last_updated = now\<rparr>"

definition u64_as_f32 :: "u64 \<Rightarrow> f32" where
  "u64_as_f32 w = f32_of (of_int (uint w))"

definition recompute_confidence :: "time \<Rightarrow> instinct \<Rightarrow> instinct" where
  "recompute_confidence now i =
     (let s = u64_as_f32 (support_count i); f = u64_as_f32 (failure_count i)
      in i\<lparr>confidence := fl_div f32_of (f32_add s (Fin 1)) (f32_add (f32_add s f) (Fin 2)),
           last_updated := now\<rparr>)"

definition instinct_success :: "time \<Rightarrow> instinct \<Rightarrow> instinct" where
  "instinct_success now i =
     recompute_confidence now (i\<lparr>support_count := saturating_add (support_count i) 1\<rparr>)"

definition instinct_failure :: "time \<Rightarrow> instinct \<Rightarrow> instinct" where
  "instinct_failure now i =
     recompute_confidence now (i\<lparr>failure_count := saturating_add (failure_count i) 1\<rparr>)"

definition matches_operation :: "string \<Rightarrow> instinct \<Rightarrow> bool" where
  "matches_operation operation i = (operation_pattern i = ''*'' \<or> operation_pattern i = operation)"

subsection \<open>The store\<close>

type_synonym instinct_cache = "(string, instinct list) hashmap"

record instinct_store =
  is_dir :: string
  is_cache :: instinct_cache

record json_env =
  to_vec_pretty :: "instinct list \<Rightarrow> bytes option"
  from_slice :: "bytes \<Rightarrow> instinct list option"

type_synonym directory = "(string, bytes) hashmap"

text \<open>\<open>Path::join\<close>: an absolute argument replaces the path.\<close>

definition path_join :: "string \<Rightarrow> string \<Rightarrow> string" where
  "path_join p q =
     (if starts_with q ''/'' then q else if p \<noteq> [] \<and> last p \<noteq> CHR ''/'' then p @ ''/'' @ q else p @ q)"

text \<open>\<open>Path::extension\<close> of a file name: what follows the last dot, unless the dot comes first.\<close>

definition name_extension :: "string \<Rightarrow> string option" where
  "name_extension name =
     (let rest = takeWhile (\<lambda>c. c \<noteq> CHR ''.'') (rev name); n = length name - length rest
      in if length rest = length name \<or> n \<le> 1 \<or> name = ''..'' then None else Some (rev rest))"

fun load_entries :: "json_env \<Rightarrow> (string \<times> bytes option) list \<Rightarrow> instinct_cache \<Rightarrow> instinct_cache result" where
  "load_entries env [] cache = Inr cache"
| "load_entries env ((name, content) # rest) cache =
     (if name_extension name \<noteq> Some ''json'' then load_entries env rest cache
      else case content of
        None \<Rightarrow> Inl (FilesystemError ''read {path:?}: {e}'')
      | Some bs \<Rightarrow>
          (case from_slice env bs of
             None \<Rightarrow> Inl (SerializationError ''parse {path:?}: {e}'')
           | Some [] \<Rightarrow> load_entries env rest cache
           | Some (first # others) \<Rightarrow>
               load_entries env rest (hm_insert (failure_category first) (first # others) cache)))"

definition store_open ::
  "json_env \<Rightarrow> string \<Rightarrow> (string \<times> bytes option) list option \<Rightarrow> instinct_store result" where
  "store_open env dir listing =
     (case listing of
        None \<Rightarrow> Inl (FilesystemError ''read_dir {dir:?}: {e}'')
      | Some entries \<Rightarrow>
          (case load_entries env entries [] of
             Inl e \<Rightarrow> Inl e
           | Inr cache \<Rightarrow> Inr \<lparr>is_dir = dir, is_cache = cache\<rparr>))"

text \<open>The stable sort of \<open>query\<close>: by descending confidence, incomparable confidences counting as equal.\<close>

fun insert_desc :: "instinct \<Rightarrow> instinct list \<Rightarrow> instinct list" where
  "insert_desc x [] = [x]"
| "insert_desc x (y # ys) =
     (if fl_less (confidence x) (confidence y) then y # insert_desc x ys else x # y # ys)"

definition sort_desc :: "instinct list \<Rightarrow> instinct list" where
  "sort_desc xs = foldr insert_desc xs []"

definition store_query :: "instinct_store \<Rightarrow> failure_mode \<Rightarrow> string \<Rightarrow> instinct list" where
  "store_query st mode operation =
     sort_desc (case hm_get (is_cache st) (category mode) of
       Some v \<Rightarrow> filter (matches_operation operation) v | None \<Rightarrow> [])"

definition persist_category ::
  "json_env \<Rightarrow> bool \<Rightarrow> string \<Rightarrow> instinct_store \<Rightarrow> directory \<Rightarrow> unit result \<times> directory" where
  "persist_category env write_ok cat st disk =
     (case hm_get (is_cache st) cat of
        None \<Rightarrow> (Inr (), disk)
      | Some bucket \<Rightarrow>
          (case to_vec_pretty env bucket of
             None \<Rightarrow> (Inl (SerializationError ''serialize {category}: {e}''), disk)
           | Some bs \<Rightarrow>
               (if write_ok then (Inr (), hm_insert (path_join (is_dir st) (cat @ ''.json'')) bs disk)
                else (Inl (FilesystemError ''write {path:?}: {e}''), disk))))"

definition store_register ::
  "json_env \<Rightarrow> bool \<Rightarrow> uuid \<Rightarrow> time \<Rightarrow> failure_mode \<Rightarrow> string \<Rightarrow> string \<Rightarrow> instinct_store \<Rightarrow> directory
   \<Rightarrow> uuid result \<times> instinct_store \<times> directory" where
  "store_register env write_ok new_id now mode pat desc st disk =
     (let key = category mode;
          bucket = (case hm_get (is_cache st) key of Some b \<Rightarrow> b | None \<Rightarrow> []);
          (i, bucket') = (case find (\<lambda>i. operation_pattern i = pat \<and> recovery_description i = desc) bucket of
            Some existing \<Rightarrow> (in_id existing, bucket)
          | None \<Rightarrow> (new_id, bucket @ [instinct_new new_id now key pat desc]));
          st' = st\<lparr>is_cache := hm_insert key bucket' (is_cache st)\<rparr>
      in case persist_category env write_ok key st' disk of
           (Inl e, disk') \<Rightarrow> (Inl e, st', disk')
         | (Inr _, disk') \<Rightarrow> (Inr i, st', disk'))"

text \<open>The loop over the buckets that updates the first instinct with the given id.\<close>

fun update_buckets :: "uuid \<Rightarrow> (instinct \<Rightarrow> instinct) \<Rightarrow> instinct_cache \<Rightarrow> (string \<times> instinct_cache) option" where
  "update_buckets i f [] = None"
| "update_buckets i f ((cat, bucket) # rest) =
     (case update_first (\<lambda>x. in_id x = i) f bucket of
        Some bucket' \<Rightarrow> Some (cat, (cat, bucket') # rest)
      | None \<Rightarrow> map_option (\<lambda>(c, r). (c, (cat, bucket) # r)) (update_buckets i f rest))"

definition store_record ::
  "(instinct \<Rightarrow> instinct) \<Rightarrow> json_env \<Rightarrow> bool \<Rightarrow> uuid \<Rightarrow> instinct_store \<Rightarrow> directory
   \<Rightarrow> bool result \<times> instinct_store \<times> directory" where
  "store_record f env write_ok i st disk =
     (case update_buckets i f (is_cache st) of
        None \<Rightarrow> (Inr False, st, disk)
      | Some (cat, cache') \<Rightarrow>
          (let st' = st\<lparr>is_cache := cache'\<rparr>
           in case persist_category env write_ok cat st' disk of
                (Inl e, disk') \<Rightarrow> (Inl e, st', disk')
              | (Inr _, disk') \<Rightarrow> (Inr True, st', disk')))"

definition store_success :: "time \<Rightarrow> json_env \<Rightarrow> bool \<Rightarrow> uuid \<Rightarrow> instinct_store \<Rightarrow> directory
   \<Rightarrow> bool result \<times> instinct_store \<times> directory" where
  "store_success now = store_record (instinct_success now)"

definition store_failure :: "time \<Rightarrow> json_env \<Rightarrow> bool \<Rightarrow> uuid \<Rightarrow> instinct_store \<Rightarrow> directory
   \<Rightarrow> bool result \<times> instinct_store \<times> directory" where
  "store_failure now = store_record (instinct_failure now)"

text \<open>The loop of \<open>import_all\<close> over the parsed instincts, with the counts and the touched categories, and
  the writes that follow, in the set's iteration order.\<close>

fun import_loop ::
  "instinct list \<Rightarrow> instinct_cache \<Rightarrow> nat \<Rightarrow> nat \<Rightarrow> string list \<Rightarrow> instinct_cache \<times> nat \<times> nat \<times> string list" where
  "import_loop [] cache added merged touched = (cache, added, merged, touched)"
| "import_loop (inc # rest) cache added merged touched =
     (let cat = failure_category inc;
          bucket = (case hm_get cache cat of Some b \<Rightarrow> b | None \<Rightarrow> [])
      in if (\<exists>i \<in> set bucket. operation_pattern i = operation_pattern inc
               \<and> recovery_description i = recovery_description inc)
         then import_loop rest (hm_insert cat bucket cache) added (merged + 1) touched
         else import_loop rest (hm_insert cat (bucket @ [inc]) cache) (added + 1) merged
                (List.insert cat touched))"

fun persist_all ::
  "json_env \<Rightarrow> (string \<Rightarrow> bool) \<Rightarrow> string list \<Rightarrow> instinct_store \<Rightarrow> directory \<Rightarrow> unit result \<times> directory" where
  "persist_all env write_ok [] st disk = (Inr (), disk)"
| "persist_all env write_ok (cat # rest) st disk =
     (case persist_category env (write_ok cat) cat st disk of
        (Inl e, disk') \<Rightarrow> (Inl e, disk')
      | (Inr _, disk') \<Rightarrow> persist_all env write_ok rest st disk')"

definition import_all ::
  "json_env \<Rightarrow> (string \<Rightarrow> bool) \<Rightarrow> bytes \<Rightarrow> instinct_store \<Rightarrow> directory
   \<Rightarrow> (nat \<times> nat) result \<times> instinct_store \<times> directory" where
  "import_all env write_ok json st disk =
     (case from_slice env json of
        None \<Rightarrow> (Inl (SerializationError ''import: {e}''), st, disk)
      | Some parsed \<Rightarrow>
          (case import_loop parsed (is_cache st) 0 0 [] of
             (cache, added, merged, touched) \<Rightarrow>
               (let st' = st\<lparr>is_cache := cache\<rparr>
                in case persist_all env write_ok touched st' disk of
                     (Inl e, disk') \<Rightarrow> (Inl e, st', disk')
                   | (Inr _, disk') \<Rightarrow> (Inr (added, merged), st', disk'))))"

record instinct_stats =
  total_instincts :: u64
  categories :: "(string, u64) hashmap"
  avg_confidence :: f32
  highest_confidence :: "(string \<times> f32) option"
  total_support :: u64
  total_failures :: u64

definition count_instinct ::
  "instinct \<Rightarrow> instinct_stats \<times> f32 \<times> (string \<times> f32) option \<Rightarrow> instinct_stats \<times> f32 \<times> (string \<times> f32) option"
  where
  "count_instinct i acc =
     (case acc of (st, conf_sum, best) \<Rightarrow>
        (st\<lparr>total_instincts := total_instincts st + 1, total_support := total_support st + support_count i,
            total_failures := total_failures st + failure_count i\<rparr>,
         f32_add conf_sum (confidence i),
         if (case best of None \<Rightarrow> True | Some (_, c) \<Rightarrow> fl_less c (confidence i))
         then Some (recovery_description i, confidence i) else best))"

definition store_stats :: "instinct_store \<Rightarrow> instinct_stats" where
  "store_stats st =
     (case fold (\<lambda>(cat, bucket) (acc, conf_sum, best).
               fold count_instinct bucket
                 (acc\<lparr>categories := hm_insert cat (word_of_nat (length bucket)) (categories acc)\<rparr>, conf_sum, best))
             (is_cache st)
             (\<lparr>total_instincts = 0, categories = [], avg_confidence = Fin 0, highest_confidence = None,
               total_support = 0, total_failures = 0\<rparr>, Fin 0, None) of
        (acc, conf_sum, best) \<Rightarrow>
          acc\<lparr>avg_confidence := (if 0 < total_instincts acc
                then fl_div f32_of conf_sum (u64_as_f32 (total_instincts acc)) else Fin 0),
              highest_confidence := best\<rparr>)"

subsection \<open>The policy\<close>

record instinct_policy_config =
  ip_store :: instinct_store
  ip_min_confidence :: f32

definition instinct_policy_new :: "instinct_store \<Rightarrow> instinct_policy_config" where
  "instinct_policy_new st = \<lparr>ip_store = st, ip_min_confidence = Fin 0\<rparr>"

definition with_min_confidence :: "f32 \<Rightarrow> instinct_policy_config \<Rightarrow> instinct_policy_config" where
  "with_min_confidence c p = p\<lparr>ip_min_confidence := fl_clamp (Fin 0) (Fin 1) c\<rparr>"

definition instinct_policy :: "instinct_policy_config \<Rightarrow> recovery_policy" where
  "instinct_policy p mode operation =
     map (\<lambda>i. \<lparr>ra_description = recovery_description i, ra_confidence = confidence i, ra_source = Instinct,
                ra_non_retryable = False, ra_instinct_id = Some (in_id i)\<rparr>)
       (filter (\<lambda>i. fl_le (ip_min_confidence p) (confidence i)) (store_query (ip_store p) mode operation))"

subsection \<open>Lemmas\<close>

subsection \<open>Confidence\<close>

lemma f32_int: "0 \<le> k \<Longrightarrow> k \<le> 2 ^ 24 \<Longrightarrow> f32_of (of_int k) = Fin (of_int k)"
proof -
  assume k: "0 \<le> k" "k \<le> 2 ^ 24"
  have "(of_int k :: rat) \<le> of_int (2 ^ 24)" using k(2) by (simp only: of_int_le_iff)
  also have "\<dots> = pow2 24" by (simp add: pow2_def)
  also have "\<dots> \<le> pow2 100" by (rule pow2_mono) simp
  finally show ?thesis using k by (simp add: f32_of_small rnd_of_int)
qed

text \<open>A quotient of small integers that is strictly between zero and one stays there in single
  precision.\<close>

lemma f32_ratio:
  assumes "0 < a" "a < b" "b \<le> 2 ^ 24"
  shows "\<exists>c. f32_of (of_int a / of_int b) = Fin c \<and> 0 < c \<and> c < 1"
proof -
  define r :: rat where "r = of_int a / of_int b"
  define top :: rat where "top = 1 - 1 / 2 ^ 24"
  have "(of_int b :: rat) \<le> of_int (2 ^ 24)" using assms(3) by (simp only: of_int_le_iff)
  then have b: "(0::rat) < of_int b" "(of_int b :: rat) \<le> 2 ^ 24" using assms(1,2) by simp_all
  have "a \<le> b - 1" using assms(2) by simp
  then have "(of_int a :: rat) \<le> of_int (b - 1)" by (simp only: of_int_le_iff)
  then have a: "(1::rat) \<le> of_int a" "(of_int a :: rat) \<le> of_int b - 1" using assms(1) by simp_all
  have low: "pow2 (- 24) \<le> r"
  proof -
    have "1 / 2 ^ 24 \<le> 1 / (of_int b :: rat)" using b by (intro divide_left_mono) simp_all
    also have "\<dots> \<le> r" using a b by (simp add: r_def divide_right_mono)
    finally show ?thesis by (simp add: pow2_def)
  qed
  have high: "r \<le> top"
  proof -
    have "r \<le> (of_int b - 1) / of_int b" unfolding r_def using a b by (intro divide_right_mono) simp_all
    also have "\<dots> = 1 - 1 / of_int b" using b by (simp add: field_simps)
    also have "\<dots> \<le> top" unfolding top_def using b by (simp add: frac_le)
    finally show ?thesis .
  qed
  have r: "0 < r" using low pow2_pos(1) [of "- 24"] by linarith
  have "rnd 24 (- 149) (pow2 (- 24)) \<le> rnd 24 (- 149) r" by (rule rnd_mono [OF _ low]) simp_all
  then have "pow2 (- 24) \<le> rnd 24 (- 149) r" by (simp add: rnd_pow2)
  then have "0 < rnd 24 (- 149) r" using pow2_pos(1) [of "- 24"] by linarith
  moreover have "rnd 24 (- 149) r \<le> rnd 24 (- 149) top" by (rule rnd_mono [OF r high]) simp
  moreover have "rnd 24 (- 149) top = top"
  proof (rule rnd_exact)
    have "ilog2 \<bar>top\<bar> = - 1" by (rule ilog2_unique) (simp_all add: top_def pow2_def)
    then have "unit_exp 24 (- 149) top = - 24" by (simp add: unit_exp_def)
    then show "top = of_int (2 ^ 24 - 1) * pow2 (unit_exp 24 (- 149) top)" by (simp add: top_def pow2_def)
  qed
  moreover have "top < 1" by (simp add: top_def)
  moreover have "f32_of r = Fin (rnd 24 (- 149) r)"
    using r high \<open>top < 1\<close> pow2_mono [of 0 100] by (intro f32_of_small) (simp_all add: pow2_def [of 0])
  ultimately show ?thesis unfolding r_def [symmetric] by auto
qed

text \<open>
  Confidence is a probability: as long as an instinct has been judged at most \<open>2^23\<close> times, both
  recording a success and recording a failure leave a confidence strictly between zero and one.
\<close>

lemma confidence_bounds:
  assumes "unat (support_count i) + unat (failure_count i) < 2 ^ 23"
    and "j = instinct_success now i \<or> j = instinct_failure now i"
  shows "\<exists>c. confidence j = Fin c \<and> 0 < c \<and> c < 1"
proof -
  define s where "s = uint (support_count j)"
  define f where "f = uint (failure_count j)"
  have "unat (support_count j) + unat (failure_count j) \<le> 2 ^ 23"
    using assms by (auto simp: instinct_success_def instinct_failure_def recompute_confidence_def Let_def
        unat_saturating_add min_def)
  then have "int (unat (support_count j) + unat (failure_count j)) \<le> int (2 ^ 23)" by (simp only: of_nat_le_iff)
  then have sf: "0 \<le> s" "0 \<le> f" "s + f \<le> 2 ^ 23" by (simp_all add: s_def f_def)
  have conf: "confidence j = fl_div f32_of (f32_add (u64_as_f32 (support_count j)) (Fin 1))
      (f32_add (f32_add (u64_as_f32 (support_count j)) (u64_as_f32 (failure_count j))) (Fin 2))"
    using assms(2) by (auto simp: instinct_success_def instinct_failure_def recompute_confidence_def Let_def)
  have sfl: "u64_as_f32 (support_count j) = Fin (of_int s)" "u64_as_f32 (failure_count j) = Fin (of_int f)"
    using sf f32_int [of s] f32_int [of f]
    by (simp_all only: u64_as_f32_def s_def [symmetric] f_def [symmetric]) simp_all
  have ex: "f32_of (of_int s + 1) = Fin (of_int (s + 1))" "f32_of (of_int s + of_int f) = Fin (of_int (s + f))"
    "f32_of (of_int (s + f) + 2) = Fin (of_int (s + f + 2))"
    using sf f32_int [of "s + 1"] f32_int [of "s + f"] f32_int [of "s + f + 2"] by simp_all
  have "confidence j = f32_of (of_int (s + 1) / of_int (s + f + 2))"
    unfolding conf sfl using sf by (simp only: fl_add.simps ex fl_div.simps) simp
  with f32_ratio [of "s + 1" "s + f + 2"] sf show ?thesis by simp
qed

text \<open>Beyond that the single-precision quotient can round to one: after \<open>2^25\<close> successes.\<close>

lemma confidence_reaches_one:
  assumes "support_count i = 33554431" and "failure_count i = 0"
  shows "confidence (instinct_success now i) = Fin 1"
proof -
  have big: "rnd 24 (- 149) x = of_int (round_even (x / 4)) * 4" if "33554432 \<le> x" "x < 67108864" for x
  proof -
    have "ilog2 \<bar>x\<bar> = 25" by (rule ilog2_unique) (use that in \<open>simp_all add: pow2_def\<close>)
    then have "unit_exp 24 (- 149) x = 2" by (simp add: unit_exp_def)
    with that show ?thesis by (simp add: rnd_def pow2_def)
  qed
  have r: "rnd 24 (- 149) 33554432 = 33554432" "rnd 24 (- 149) 33554433 = 33554432"
    "rnd 24 (- 149) 33554434 = 33554432" "rnd 24 (- 149) 1 = 1"
    using rnd_of_int [of 1 24 "- 149"] floor_divide_of_int_eq [of 33554433 4, where 'a = rat]
      floor_divide_of_int_eq [of 16777217 2, where 'a = rat]
    by (simp_all add: big round_even_def Let_def)
  have "(33554434 :: rat) \<le> pow2 100" using pow2_mono [of 26 100] by (simp add: pow2_def [of 26])
  then have f: "f32_of 33554432 = Fin 33554432" "f32_of 33554433 = Fin 33554432" "f32_of 33554434 = Fin 33554432"
    "f32_of 1 = Fin 1" "f32_of 0 = Fin 0"
    by (simp_all add: f32_of_small r)
  have "saturating_add (support_count i) 1 = 33554432" by (simp add: assms(1) saturating_add_def)
  with assms(2) f show ?thesis
    by (simp add: instinct_success_def recompute_confidence_def Let_def u64_as_f32_def)
qed

subsection \<open>Queries\<close>

lemma insert_desc_mset [simp]: "mset (insert_desc x xs) = add_mset x (mset xs)"
  by (induction xs) auto

lemma sort_desc_mset [simp]: "mset (sort_desc xs) = mset xs"
  by (induction xs) (simp_all add: sort_desc_def)

lemma sort_desc_set [simp]: "set (sort_desc xs) = set xs"
  by (metis set_mset_mset sort_desc_mset)

text \<open>Confidences that are not NaN are totally ordered.\<close>

definition no_nan :: "instinct list \<Rightarrow> bool" where
  "no_nan xs \<longleftrightarrow> (\<forall>i \<in> set xs. confidence i \<noteq> NaN)"

definition descending :: "instinct list \<Rightarrow> bool" where
  "descending xs \<longleftrightarrow> sorted_wrt (\<lambda>a b. fl_le (confidence b) (confidence a)) xs"

lemma fl_le_trans: "fl_le a b \<Longrightarrow> fl_le b c \<Longrightarrow> fl_le a c"
  by (cases a; cases b; cases c) auto

lemma fl_less_le: "fl_less a b \<Longrightarrow> fl_le a b"
  by (cases a; cases b) auto

lemma fl_not_less: "a \<noteq> NaN \<Longrightarrow> b \<noteq> NaN \<Longrightarrow> \<not> fl_less a b \<longleftrightarrow> fl_le b a"
  by (cases a; cases b) auto

lemma insert_desc_descending:
  assumes "descending xs" and "no_nan (x # xs)"
  shows "descending (insert_desc x xs)"
  using assms
proof (induction xs)
  case (Cons y ys)
  have set: "set (insert_desc x ys) = insert x (set ys)"
    by (metis insert_desc_mset set_mset_add_mset_insert set_mset_mset)
  show ?case
  proof (cases "fl_less (confidence x) (confidence y)")
    case True
    with Cons set show ?thesis by (auto simp: descending_def no_nan_def intro: fl_less_le)
  next
    case False
    then have "fl_le (confidence y) (confidence x)"
      using Cons.prems(2) by (simp add: no_nan_def fl_not_less)
    with False Cons.prems(1) show ?thesis by (auto simp: descending_def intro: fl_le_trans)
  qed
qed (simp add: descending_def)

lemma sort_desc_descending: "no_nan xs \<Longrightarrow> descending (sort_desc xs)"
proof (induction xs)
  case (Cons x xs)
  have "no_nan (x # sort_desc xs)" using Cons.prems by (simp add: no_nan_def)
  with Cons show ?case using insert_desc_descending [of "sort_desc xs" x] by (simp add: sort_desc_def no_nan_def)
qed (simp add: sort_desc_def descending_def)

text \<open>
  The instinct policy advises from the matching instincts only, strongest first: its actions are the
  instincts of the failure's category whose pattern matches the operation and whose confidence reaches
  the threshold, each of them once, in descending order of confidence, each naming its instinct.
\<close>

lemma instinct_policy_advice:
  assumes "hm_get (is_cache (ip_store p)) (category mode) = Some bucket" and "no_nan bucket"
  shows "\<exists>is. descending is
    \<and> mset is = filter_mset (\<lambda>i. matches_operation operation i \<and> fl_le (ip_min_confidence p) (confidence i)) (mset bucket)
    \<and> map ra_description (instinct_policy p mode operation) = map recovery_description is
    \<and> map ra_confidence (instinct_policy p mode operation) = map confidence is
    \<and> map ra_instinct_id (instinct_policy p mode operation) = map (Some \<circ> in_id) is"
proof -
  let ?q = "store_query (ip_store p) mode operation"
  let ?is = "filter (\<lambda>i. fl_le (ip_min_confidence p) (confidence i)) ?q"
  have q: "?q = sort_desc (filter (matches_operation operation) bucket)" by (simp add: store_query_def assms(1))
  have "descending ?q" unfolding q using assms(2) by (intro sort_desc_descending) (simp add: no_nan_def)
  then have "descending ?is" by (simp add: descending_def sorted_wrt_filter)
  moreover have "mset ?is = filter_mset (\<lambda>i. matches_operation operation i \<and> fl_le (ip_min_confidence p) (confidence i)) (mset bucket)"
    by (simp add: q filter_filter_mset conj_commute)
  ultimately show ?thesis by (intro exI [of _ ?is]) (simp add: instinct_policy_def comp_def)
qed

text \<open>
  An imported category is not confined to the store's directory: importing an instinct whose
  category climbs out of the directory writes its file outside of it.
\<close>

definition climbing :: instinct where
  "climbing = instinct_new 1 0 ''../../etc/x'' ''*'' ''d''"

lemma import_escapes_directory:
  assumes "from_slice env json = Some [climbing]" and "to_vec_pretty env [climbing] = Some bs"
  shows "\<exists>disk'. import_all env (\<lambda>_. True) json \<lparr>is_dir = ''/home/u/.nexus'', is_cache = []\<rparr> [] =
      (Inr (1, 0), \<lparr>is_dir = ''/home/u/.nexus'', is_cache = [(''../../etc/x'', [climbing])]\<rparr>, disk')
    \<and> hm_get disk' ''/home/u/.nexus/../../etc/x.json'' = Some bs
    \<and> \<not> path_contains ''/home/u/.nexus'' ''/home/u/.nexus/../../etc/x.json''"
proof -
  have fc: "failure_category climbing = ''../../etc/x''" by (simp add: climbing_def instinct_new_def)
  have "import_loop [climbing] [] 0 0 [] = ([(''../../etc/x'', [climbing])], 1, 0, [''../../etc/x''])"
    by (simp add: fc hm_simps Let_def)
  moreover have "path_join ''/home/u/.nexus'' (''../../etc/x'' @ ''.json'') = ''/home/u/.nexus/../../etc/x.json''"
    by (simp add: path_join_def starts_with_def)
  moreover have "\<not> path_contains ''/home/u/.nexus'' ''/home/u/.nexus/../../etc/x.json''"
    by code_simp
  ultimately show ?thesis using assms
    by (simp add: import_all_def persist_category_def hm_simps Let_def)
qed

definition demo_json :: json_env where
  "demo_json = \<lparr>to_vec_pretty = (\<lambda>_. Some [1]), from_slice = (\<lambda>_. Some [climbing])\<rparr>"

end
