(* ===== verification/Fuel.thy ===== *)
theory Fuel
  imports Float64
begin

text \<open>
  Fuel metering and adaptive fuel budgets, \<open>src/src/sandbox/fuel_meter.rs\<close> and
  \<open>src/src/sandbox/fuel_budget.rs\<close>. The meter is shared between threads: its \<open>consume\<close> is modelled
  twice, as the uninterrupted call and as the atomic steps of its compare-and-exchange loop, which
  interleave with the steps of other threads. Elapsed times are arguments.
\<close>

subsection \<open>The fuel meter\<close>

record fuel_stats =
  fs_total_fuel :: u64
  fs_consumed :: u64
  fs_remaining :: u64
  fs_percentage :: f64
  fs_last_update :: nat

definition fuel_stats_new :: "nat \<Rightarrow> u64 \<Rightarrow> u64 \<Rightarrow> fuel_stats" where
  "fuel_stats_new now total_fuel consumed =
     \<lparr>fs_total_fuel = total_fuel, fs_consumed = consumed, fs_remaining = saturating_sub total_fuel consumed,
      fs_percentage = (if 0 < total_fuel
        then f64_mul (f64_div (u64_as_f64 consumed) (u64_as_f64 total_fuel)) (Fin 100) else Fin 0),
      fs_last_update = now\<rparr>"

record fuel_meter =
  fm_total :: u64
  fm_remaining :: u64
  fm_consumption_rate :: u64
  fm_operations :: u64

definition fuel_meter_new :: "u64 \<Rightarrow> fuel_meter" where
  "fuel_meter_new total_fuel = \<lparr>fm_total = total_fuel, fm_remaining = total_fuel, fm_consumption_rate = 0, fm_operations = 0\<rparr>"

text \<open>\<open>operations.checked_div(elapsed)\<close> and the store of the rate.\<close>

definition store_rate :: "u64 \<Rightarrow> u64 \<Rightarrow> fuel_meter \<Rightarrow> fuel_meter" where
  "store_rate elapsed ops m = (if elapsed = 0 then m else m\<lparr>fm_consumption_rate := ops div elapsed\<rparr>)"

definition consume :: "u64 \<Rightarrow> u64 \<Rightarrow> fuel_meter \<Rightarrow> bool \<times> fuel_meter" where
  "consume elapsed amount m =
     (if fm_remaining m < amount then (False, m)
      else let m1 = m\<lparr>fm_remaining := fm_remaining m - amount\<rparr>;
               m2 = m1\<lparr>fm_operations := fm_operations m1 + 1\<rparr>
           in (True, store_rate elapsed (fm_operations m2) m2))"

definition has_fuel :: "u64 \<Rightarrow> fuel_meter \<Rightarrow> bool" where
  "has_fuel amount m = (amount \<le> fm_remaining m)"

definition meter_stats :: "nat \<Rightarrow> fuel_meter \<Rightarrow> fuel_stats" where
  "meter_stats now m = fuel_stats_new now (fm_total m) (fm_total m - fm_remaining m)"

definition meter_reset :: "fuel_meter \<Rightarrow> fuel_meter" where
  "meter_reset m = m\<lparr>fm_remaining := fm_total m, fm_operations := 0\<rparr>"

definition predict_remaining_time :: "fuel_meter \<Rightarrow> u64 option" where
  "predict_remaining_time m =
     (let rate = fm_consumption_rate m
      in if rate = 0 then None else Some (fm_remaining m div rate))"

definition warning_level :: "fuel_meter \<Rightarrow> nat" where
  "warning_level m =
     (let p = fs_percentage (meter_stats 0 m)
      in if fl_le (Fin 90) p then 100
         else if fl_le (Fin 75) p then 75
         else if fl_le (Fin 50) p then 50
         else if fl_le (Fin 25) p then 25
         else 0)"

subsection \<open>Concurrent consumption\<close>

text \<open>The program counter of a thread inside \<open>consume\<close>: before the first load, in the loop with the
  value it last saw, after its exchange succeeded, after the operation count, after the count was
  read back, and returned. The amount is kept to the end.\<close>

datatype consume_pc =
    Start u64
  | Looping u64 u64
  | Exchanged u64
  | Counted u64
  | Reading u64 u64
  | Returned u64 bool

text \<open>One atomic step of a thread on the shared meter, reading the given elapsed time.\<close>

fun consume_step :: "u64 \<Rightarrow> fuel_meter \<times> consume_pc \<Rightarrow> fuel_meter \<times> consume_pc" where
  "consume_step elapsed (m, Start a) = (m, Looping a (fm_remaining m))"
| "consume_step elapsed (m, Looping a r) =
     (if r < a then (m, Returned a False)
      else if fm_remaining m = r then (m\<lparr>fm_remaining := r - a\<rparr>, Exchanged a)
      else (m, Looping a (fm_remaining m)))"
| "consume_step elapsed (m, Exchanged a) = (m\<lparr>fm_operations := fm_operations m + 1\<rparr>, Counted a)"
| "consume_step elapsed (m, Counted a) = (m, Reading a (fm_operations m))"
| "consume_step elapsed (m, Reading a ops) = (store_rate elapsed ops m, Returned a True)"
| "consume_step elapsed (m, Returned a b) = (m, Returned a b)"

inductive meter_step :: "fuel_meter \<times> consume_pc list \<Rightarrow> fuel_meter \<times> consume_pc list \<Rightarrow> bool" where
  thread: "i < length ts \<Longrightarrow> consume_step elapsed (m, ts ! i) = (m', t')
    \<Longrightarrow> meter_step (m, ts) (m', ts[i := t'])"
| spawn: "meter_step (m, ts) (m, ts @ [Start a])"

definition meter_init :: "u64 \<Rightarrow> fuel_meter \<times> consume_pc list \<Rightarrow> bool" where
  "meter_init total_fuel s \<longleftrightarrow> s = (fuel_meter_new total_fuel, [])"

text \<open>What a thread has taken from the meter.\<close>

fun taken :: "consume_pc \<Rightarrow> nat" where
  "taken (Exchanged a) = unat a"
| "taken (Counted a) = unat a"
| "taken (Reading a ops) = unat a"
| "taken (Returned a b) = (if b then unat a else 0)"
| "taken _ = 0"

text \<open>What a thread saw is never less than what remains, so that a refusal stays justified.\<close>

fun observed :: "u64 \<Rightarrow> consume_pc \<Rightarrow> bool" where
  "observed r (Looping a seen) = (r \<le> seen)"
| "observed r (Returned a b) = (b \<or> r < a)"
| "observed r _ = True"

definition conserved :: "u64 \<Rightarrow> fuel_meter \<times> consume_pc list \<Rightarrow> bool" where
  "conserved total_fuel s \<longleftrightarrow> fm_total (fst s) = total_fuel
     \<and> unat (fm_remaining (fst s)) + sum_list (map taken (snd s)) = unat total_fuel
     \<and> list_all (observed (fm_remaining (fst s))) (snd s)"

lemma store_rate_sel [simp]:
  "fm_total (store_rate e n m) = fm_total m" "fm_remaining (store_rate e n m) = fm_remaining m"
  "fm_operations (store_rate e n m) = fm_operations m"
  by (simp_all add: store_rate_def)

lemma consume_step_conserves:
  assumes "consume_step elapsed (m, t) = (m', t')"
  shows "fm_total m' = fm_total m \<and> unat (fm_remaining m') + taken t' = unat (fm_remaining m) + taken t"
proof (cases t)
  case (Looping a r)
  show ?thesis
  proof (cases "r < a")
    case False
    then have "unat (r - a) + unat a = unat r"
      by (simp add: unat_sub word_le_nat_alt not_less)
    with Looping False assms show ?thesis by (auto split: if_splits)
  qed (use Looping assms in auto)
qed (use assms in auto)

lemma consume_step_observed:
  assumes "consume_step elapsed (m, t) = (m', t')" and "observed (fm_remaining m) t"
  shows "fm_remaining m' \<le> fm_remaining m \<and> observed (fm_remaining m') t'"
proof (cases t)
  case (Looping a r)
  have "r - a \<le> r" if "\<not> r < a" using that by (simp add: word_le_nat_alt unat_sub not_less)
  with Looping assms show ?thesis by (auto split: if_splits)
qed (use assms in auto)

lemma observed_mono: "observed r t \<Longrightarrow> r' \<le> r \<Longrightarrow> observed r' t"
  by (cases t) auto

lemma meter_step_conserves:
  assumes inv: "conserved total_fuel s" and "meter_step s s'"
  shows "conserved total_fuel s'"
  using assms(2)
proof cases
  case (thread i ts elapsed m m' t')
  have "sum_list (map taken (ts[i := t'])) + taken (ts ! i) = sum_list (map taken ts) + taken t'"
    using thread(3) by (rule sum_list_map_update)
  moreover have "list_all (observed (fm_remaining m')) (ts[i := t'])"
    using consume_step_observed [OF thread(4)] inv thread(3) unfolding thread(1)
    by (auto simp: conserved_def list_all_length nth_list_update intro: observed_mono)
  ultimately show ?thesis using consume_step_conserves [OF thread(4)] inv
    by (simp add: conserved_def thread(1,2))
next
  case (spawn m ts a)
  with inv show ?thesis by (simp add: conserved_def)
qed

interpretation meter: inductive_invariant "meter_init total_fuel" meter_step "conserved total_fuel" for total_fuel
  by (unfold_locales, simp add: meter_init_def conserved_def fuel_meter_new_def, rule meter_step_conserves)

text \<open>Without interference the steps of one thread compute \<open>consume\<close>.\<close>

lemma consume_uninterrupted:
  "(consume_step elapsed ^^ 5) (m, Start a) = (snd (consume elapsed a m), Returned a (fst (consume elapsed a m)))"
  by (simp add: numeral_eq_Suc consume_def Let_def)

lemma consume_conserves:
  assumes "consume elapsed amount m = (b, m')"
  shows "fm_total m' = fm_total m
    \<and> unat (fm_remaining m') + (if b then unat amount else 0) = unat (fm_remaining m)"
  using assms by (auto simp: consume_def Let_def unat_sub word_le_nat_alt not_less split: if_splits)

subsection \<open>Budgets\<close>

definition MIN_SAMPLES :: nat where
  "MIN_SAMPLES = 5"

definition MAX_SAMPLES :: nat where
  "MAX_SAMPLES = 100"

definition MIN_FUEL_FLOOR :: u64 where
  "MIN_FUEL_FLOOR = 100000"

definition DEFAULT_HEADROOM_FACTOR :: f64 where
  "DEFAULT_HEADROOM_FACTOR = Fin (3 / 2)"

record fuel_profile =
  samples :: "u64 list"
  p50 :: u64
  p95 :: u64
  p99 :: u64
  max_observed :: u64

definition profile_new :: fuel_profile where
  "profile_new = \<lparr>samples = [], p50 = 0, p95 = 0, p99 = 0, max_observed = 0\<rparr>"

definition percentile_rank :: "nat \<Rightarrow> nat \<Rightarrow> nat" where
  "percentile_rank pct n =
     nat (f64_as_int 64 (fl_ceil (f64_mul (f64_div (nat_as_f64 pct) (Fin 100)) (nat_as_f64 n))))"

definition percentile :: "u64 list \<Rightarrow> nat \<Rightarrow> u64" where
  "percentile xs pct =
     (if length xs = 1 then xs ! 0
      else let rank = percentile_rank pct (length xs);
               idx = min (rank - 1) (length xs - 1)
           in xs ! idx)"

definition recompute :: "fuel_profile \<Rightarrow> fuel_profile" where
  "recompute p =
     (if samples p = [] then p\<lparr>p50 := 0, p95 := 0, p99 := 0, max_observed := 0\<rparr>
      else let xs = sort (samples p)
           in p\<lparr>p50 := percentile xs 50, p95 := percentile xs 95, p99 := percentile xs 99,
                max_observed := xs ! (length xs - 1)\<rparr>)"

definition profile_push :: "u64 \<Rightarrow> fuel_profile \<Rightarrow> fuel_profile" where
  "profile_push fuel_consumed p =
     (let p1 = (if MAX_SAMPLES \<le> length (samples p) then p\<lparr>samples := tl (samples p)\<rparr> else p)
      in recompute (p1\<lparr>samples := samples p1 @ [fuel_consumed]\<rparr>))"

record fuel_budget_policy =
  profiles :: "(string, fuel_profile) hashmap"
  headroom_factor :: f64
  fallback_budget :: u64

definition policy_new :: "u64 \<Rightarrow> fuel_budget_policy" where
  "policy_new fallback =
     \<lparr>profiles = [], headroom_factor = DEFAULT_HEADROOM_FACTOR, fallback_budget = fallback\<rparr>"

definition with_headroom :: "f64 \<Rightarrow> fuel_budget_policy \<Rightarrow> fuel_budget_policy" where
  "with_headroom factor p = p\<lparr>headroom_factor := factor\<rparr>"

definition budget_for :: "fuel_budget_policy \<Rightarrow> string \<Rightarrow> u64" where
  "budget_for p tool_name =
     (case hm_get (profiles p) tool_name of
        Some profile \<Rightarrow>
          (if MIN_SAMPLES \<le> length (samples profile)
           then max (f64_as_u64 (f64_mul (u64_as_f64 (p95 profile)) (headroom_factor p))) MIN_FUEL_FLOOR
           else fallback_budget p)
      | None \<Rightarrow> fallback_budget p)"

definition record_fuel :: "string \<Rightarrow> u64 \<Rightarrow> fuel_budget_policy \<Rightarrow> fuel_budget_policy" where
  "record_fuel tool_name fuel_consumed p =
     (let profile = (case hm_get (profiles p) tool_name of Some q \<Rightarrow> q | None \<Rightarrow> profile_new)
      in p\<lparr>profiles := hm_insert tool_name (profile_push fuel_consumed profile) (profiles p)\<rparr>)"

definition is_anomalous :: "fuel_budget_policy \<Rightarrow> string \<Rightarrow> u64 \<Rightarrow> bool" where
  "is_anomalous p tool_name fuel_consumed =
     (case hm_get (profiles p) tool_name of
        Some profile \<Rightarrow> MIN_SAMPLES \<le> length (samples profile) \<and> 0 < p95 profile
          \<and> 3 * p95 profile < fuel_consumed
      | None \<Rightarrow> False)"

subsection \<open>Percentiles\<close>

text \<open>The floating-point rank of the code is the exact nearest rank, for the three percentiles and all
  sample counts it is used with.\<close>

lemma rank_of_ratio:
  assumes n: "0 < n" "n \<le> 100" and r: "f64_div (nat_as_f64 pct) (Fin 100) = Fin r"
    and below: "r \<le> of_nat pct / 100" and close: "of_nat pct / 100 - r \<le> 1 / 1000000" and "1 / 2 \<le> r" "r \<le> 1"
  shows "int (percentile_rank pct n) = \<lceil>of_nat (pct * n) / (100 :: rat)\<rceil>"
proof -
  define x where "x = r * of_nat n"
  define y where "y = rnd 53 (- 1074) x"
  define k where "k = \<lceil>of_nat (pct * n) / (100 :: rat)\<rceil>"
  have nr: "(1::rat) \<le> of_nat n" "(of_nat n :: rat) \<le> 100" using n by (simp_all add: Suc_le_eq)
  have x: "1 / 2 \<le> x" "x \<le> 100"
    using mult_mono [OF assms(6) nr(1)] mult_mono [OF assms(7) nr(2)] assms(6) by (simp_all add: x_def)
  have xk: "x \<le> of_nat (pct * n) / 100" "of_nat (pct * n) / 100 - x \<le> 1 / 10000"
    using mult_right_mono [OF below, of "of_nat n"] mult_mono [OF close nr(2)] nr(1)
    by (simp_all add: x_def algebra_simps)
  have kb: "of_nat (pct * n) / 100 \<le> (of_int k :: rat)" "of_int k - 1 < of_nat (pct * n) / (100 :: rat)"
    unfolding k_def by linarith+
  have "of_int (100 * (k - 1)) < (of_int (int (pct * n)) :: rat)" using kb(2) by simp
  then have "100 * (k - 1) + 1 \<le> int (pct * n)" by (simp only: of_int_less_iff)
  then have "of_int (100 * (k - 1) + 1) \<le> (of_int (int (pct * n)) :: rat)" by (simp only: of_int_le_iff)
  then have k1: "of_int k - 1 + 1 / 100 \<le> (of_nat (pct * n) / 100 :: rat)" by simp
  have "(0::rat) < of_int k" using x xk kb by linarith
  then have kpos: "0 < k" by simp
  have "of_int k - 1 < (100::rat)" using k1 xk x by linarith
  then have k100: "k \<le> 100" by simp
  have "rnd 53 (- 1074) x \<le> rnd 53 (- 1074) (of_int k)"
    using x xk kb by (intro rnd_mono) linarith+
  also have "\<dots> = of_int k" using kpos k100 by (intro rnd_of_int) auto
  finally have yk: "y \<le> of_int k" by (simp add: y_def)
  have "\<bar>y - x\<bar> \<le> x / 2 ^ 53" unfolding y_def
  proof (rule rnd_relative)
    have "pow2 (- 1074 + int 53 - 1) \<le> pow2 (- 1)" by (rule pow2_mono) simp
    also have "\<dots> \<le> x" using x by (simp add: pow2_def)
    finally show "pow2 (- 1074 + int 53 - 1) \<le> x" .
  qed (use x in linarith)
  moreover have "x / 2 ^ 53 \<le> 1 / 1000" using x by simp
  ultimately have "of_int k - 1 < y" using xk(2) k1 by linarith
  with yk have ceil: "\<lceil>y\<rceil> = k" by (simp add: ceiling_unique)
  have "nat_as_f64 n = Fin (of_nat n)"
  proof -
    have "(of_nat n :: rat) \<le> pow2 1000" using nr(2) pow2_mono [of 7 1000] by (simp add: pow2_def [of 7])
    with n show ?thesis by (simp add: nat_as_f64_def f64_of_small rnd_of_nat)
  qed
  moreover have "f64_of x = Fin y"
    unfolding y_def using x pow2_mono [of 7 1000] by (intro f64_of_small) (simp_all add: pow2_def [of 7])
  ultimately have "percentile_rank pct n = nat (f64_as_int 64 (Fin (of_int k)))"
    using ceil by (simp add: percentile_rank_def r x_def)
  then show ?thesis using kpos k100 by (simp add: k_def)
qed

lemma nat_as_f64_small: "n \<le> 2 ^ 53 \<Longrightarrow> nat_as_f64 n = Fin (of_nat n)"
proof -
  assume n: "n \<le> 2 ^ 53"
  then have "(of_nat n :: rat) \<le> of_nat (2 ^ 53)" by (simp only: of_nat_le_iff)
  then have "(of_nat n :: rat) \<le> pow2 1000" using pow2_mono [of "int 53" 1000] pow2_nat [of 53] by simp
  with n show ?thesis by (simp add: nat_as_f64_def f64_of_small rnd_of_nat)
qed

lemma f64_ratio:
  assumes "pct \<le> 100" and "rnd 53 (- 1074) (of_nat pct / 100) = r"
  shows "f64_div (nat_as_f64 pct) (Fin 100) = Fin r"
proof -
  have "(of_nat pct :: rat) \<le> 100" using assms(1) by simp
  then have "(of_nat pct / 100 :: rat) \<le> pow2 1000" using pow2_mono [of 0 1000] by (simp add: pow2_def [of 0])
  with assms show ?thesis by (simp add: nat_as_f64_small f64_of_small)
qed

lemma rnd_ratios:
  "rnd 53 (- 1074) (50 / 100) = 1 / 2"
  "rnd 53 (- 1074) (95 / 100) = 4278419646001971 / 4503599627370496"
  "rnd 53 (- 1074) (99 / 100) = 4458563631096791 / 4503599627370496"
  by code_simp+

lemmas ratio_50 = f64_ratio [of 50 "1 / 2"]
  and ratio_95 = f64_ratio [of 95 "4278419646001971 / 4503599627370496"]
  and ratio_99 = f64_ratio [of 99 "4458563631096791 / 4503599627370496"]

lemma rank_exact:
  assumes "0 < n" "n \<le> 100" and "pct \<in> {50, 95, 99}"
  shows "int (percentile_rank pct n) = \<lceil>of_nat (pct * n) / (100 :: rat)\<rceil>"
  using assms(3)
proof (elim insertE)
  assume "pct = 50"
  with rank_of_ratio [OF assms(1,2) ratio_50] rnd_ratios show ?thesis by simp
next
  assume "pct = 95"
  with rank_of_ratio [OF assms(1,2) ratio_95] rnd_ratios show ?thesis by simp
next
  assume "pct = 99"
  with rank_of_ratio [OF assms(1,2) ratio_99] rnd_ratios show ?thesis by simp
qed simp

lemma rank_bounds:
  assumes "0 < n" "n \<le> 100" and "pct \<in> {50, 95, 99}"
  shows "0 < percentile_rank pct n \<and> percentile_rank pct n \<le> n
    \<and> pct * n \<le> 100 * percentile_rank pct n \<and> 100 * (percentile_rank pct n - 1) < pct * n"
proof -
  define k where "k = percentile_rank pct n"
  define c :: rat where "c = of_nat (pct * n) / 100"
  have k: "int k = \<lceil>c\<rceil>" using rank_exact [OF assms] by (simp add: k_def c_def)
  have c: "c \<le> of_nat k" "of_nat k - 1 < c" using k by linarith+
  have pos: "0 < c" using assms by (auto simp: c_def)
  then have k0: "0 < k" using c by (cases k) simp_all
  have "(of_nat (pct * n) :: rat) \<le> of_nat (100 * k)" "(of_nat (100 * (k - 1)) :: rat) < of_nat (pct * n)"
    using c k0 by (simp_all add: c_def of_nat_diff)
  then have b: "pct * n \<le> 100 * k" "100 * (k - 1) < pct * n" by (simp_all only: of_nat_le_iff of_nat_less_iff)
  have "pct * n \<le> 99 * n" using assms(3) by auto
  then have "100 * (k - 1) < 100 * n" using b(2) assms(1) by linarith
  with b k0 show ?thesis by (simp add: k_def [symmetric])
qed

lemma sorted_count_le: "sorted xs \<Longrightarrow> i < length xs \<Longrightarrow> Suc i \<le> length (filter (\<lambda>x. x \<le> xs ! i) xs)"
proof -
  assume xs: "sorted xs" "i < length xs"
  have "filter (\<lambda>x. x \<le> xs ! i) (take (Suc i) xs) = take (Suc i) xs"
    using xs by (auto simp: filter_id_conv in_set_conv_nth less_Suc_eq_le sorted_nth_mono)
  then have "length (filter (\<lambda>x. x \<le> xs ! i) (take (Suc i) xs @ drop (Suc i) xs)) \<ge> Suc i"
    using xs(2) by (simp only: filter_append length_append) simp
  then show ?thesis by simp
qed

lemma sorted_count_less: "sorted xs \<Longrightarrow> i < length xs \<Longrightarrow> length (filter (\<lambda>x. x < xs ! i) xs) \<le> i"
proof -
  assume xs: "sorted xs" "i < length xs"
  have "x \<in> set (drop i xs) \<Longrightarrow> xs ! i \<le> x" for x
    using xs by (auto simp: in_set_conv_nth intro: sorted_nth_mono)
  then have "filter (\<lambda>x. x < xs ! i) (drop i xs) = []" by (force simp: filter_empty_conv)
  then have "length (filter (\<lambda>x. x < xs ! i) (take i xs @ drop i xs)) \<le> i"
    by (simp only: filter_append length_append) (simp add: le_trans [OF length_filter_le])
  then show ?thesis by simp
qed

text \<open>A nearest-rank percentile: a sample such that at least \<open>pct\<close> percent of the samples are no greater
  and fewer are smaller.\<close>

definition is_percentile :: "nat \<Rightarrow> u64 list \<Rightarrow> u64 \<Rightarrow> bool" where
  "is_percentile pct xs p \<longleftrightarrow> p \<in> set xs
     \<and> pct * length xs \<le> 100 * length (filter (\<lambda>x. x \<le> p) xs)
     \<and> 100 * length (filter (\<lambda>x. x < p) xs) < pct * length xs"

lemma is_percentile_sort: "is_percentile pct (sort xs) p \<longleftrightarrow> is_percentile pct xs p"
proof -
  have "length (filter P (sort xs)) = length (filter P xs)" for P
    by (metis filter_sort length_sort)
  then show ?thesis by (simp add: is_percentile_def)
qed

lemma percentile_nth:
  assumes "xs \<noteq> []" "length xs \<le> 100" "pct \<in> {50, 95, 99}"
  obtains i where "percentile xs pct = xs ! i" "i < length xs"
    "pct * length xs \<le> 100 * Suc i" "100 * i < pct * length xs"
proof (cases "length xs = 1")
  case True
  show thesis by (rule that [of 0]) (use True assms(3) in \<open>auto simp: percentile_def\<close>)
next
  case False
  let ?k = "percentile_rank pct (length xs)"
  note k = rank_bounds [of "length xs", OF _ assms(2,3)]
  show thesis
    by (rule that [of "?k - 1"]) (use k assms(1) False in \<open>auto simp: percentile_def Let_def min_def\<close>)
qed

lemma percentile_is_percentile:
  assumes "sorted xs" "xs \<noteq> []" "length xs \<le> 100" "pct \<in> {50, 95, 99}"
  shows "is_percentile pct xs (percentile xs pct)"
proof -
  from percentile_nth [OF assms(2-4)] obtain i where i: "percentile xs pct = xs ! i" "i < length xs"
    "pct * length xs \<le> 100 * Suc i" "100 * i < pct * length xs" .
  have "Suc i \<le> length (filter (\<lambda>x. x \<le> xs ! i) xs)" by (rule sorted_count_le [OF assms(1) i(2)])
  moreover have "length (filter (\<lambda>x. x < xs ! i) xs) \<le> i" by (rule sorted_count_less [OF assms(1) i(2)])
  ultimately show ?thesis using i by (simp add: is_percentile_def)
qed

lemma recompute_samples [simp]: "samples (recompute p) = samples p"
  by (simp add: recompute_def Let_def)

interpretation fuel_window: bounded_history "\<lambda>_. MAX_SAMPLES" samples profile_push
  by unfold_locales (simp_all add: profile_push_def Let_def MAX_SAMPLES_def)

text \<open>The percentile fields of a profile agree with its samples.\<close>

definition profile_inv :: "fuel_profile \<Rightarrow> bool" where
  "profile_inv p \<longleftrightarrow> length (samples p) \<le> MAX_SAMPLES \<and> recompute p = p"

lemma recompute_idem: "recompute (recompute p) = recompute p"
  by (simp add: recompute_def Let_def)

lemma profile_push_inv: "profile_inv p \<Longrightarrow> profile_inv (profile_push x p)"
  using fuel_window.push_bound [of p x]
  by (simp add: profile_inv_def MAX_SAMPLES_def) (simp add: profile_push_def Let_def recompute_idem)

lemma profile_fields:
  assumes "profile_inv p" and "samples p \<noteq> []"
  shows "is_percentile 50 (samples p) (p50 p)" "is_percentile 95 (samples p) (p95 p)"
    "is_percentile 99 (samples p) (p99 p)" "max_observed p = Max (set (samples p))"
proof -
  let ?xs = "sort (samples p)"
  have len: "length ?xs \<le> 100" using assms by (simp add: profile_inv_def MAX_SAMPLES_def)
  have ne: "?xs \<noteq> []" using assms(2) by (metis length_0_conv length_sort)
  have p: "p = recompute p" using assms(1) by (simp add: profile_inv_def)
  have f: "p50 p = percentile ?xs 50" "p95 p = percentile ?xs 95" "p99 p = percentile ?xs 99"
    "max_observed p = ?xs ! (length ?xs - 1)"
    by (subst p, simp add: recompute_def assms(2) Let_def)+
  note perc = percentile_is_percentile [OF sorted_sort ne len]
  show "is_percentile 50 (samples p) (p50 p)" "is_percentile 95 (samples p) (p95 p)"
    "is_percentile 99 (samples p) (p99 p)"
    using perc [of 50] perc [of 95] perc [of 99] by (simp_all add: f is_percentile_sort)
  have "?xs ! (length ?xs - 1) = Max (set ?xs)"
  proof (rule Max_eqI [symmetric])
    fix y assume "y \<in> set ?xs"
    then obtain i where "i < length ?xs" "y = ?xs ! i" unfolding in_set_conv_nth by blast
    then show "y \<le> ?xs ! (length ?xs - 1)" by (simp add: sorted_nth_mono)
  next
    have "?xs ! (length ?xs - 1) \<in> set ?xs" by (rule nth_mem) (use assms(2) in simp)
    then show "?xs ! (length ?xs - 1) \<in> set ?xs" .
  qed simp
  then show "max_observed p = Max (set (samples p))" by (simp add: f)
qed

text \<open>What a policy knows of a tool after a sequence of recordings.\<close>

definition run_log :: "u64 \<Rightarrow> (string \<times> u64) list \<Rightarrow> fuel_budget_policy" where
  "run_log fallback evs = fold (\<lambda>(t, x). record_fuel t x) evs (policy_new fallback)"

definition tool_samples :: "string \<Rightarrow> (string \<times> u64) list \<Rightarrow> u64 list" where
  "tool_samples t evs = map snd (filter (\<lambda>(u, x). u = t) evs)"

lemma record_profile:
  "hm_get (profiles (record_fuel t x p)) u =
     (if u = t then Some (profile_push x (case hm_get (profiles p) t of Some q \<Rightarrow> q | None \<Rightarrow> profile_new))
      else hm_get (profiles p) u)"
  by (simp add: record_fuel_def Let_def hm_simps)

lemma run_log_profile:
  "hm_get (profiles (run_log fallback evs)) t =
     (if tool_samples t evs = [] then None else Some (fold profile_push (tool_samples t evs) profile_new))"
proof (induction evs rule: rev_induct)
  case (snoc e evs)
  obtain u x where e: "e = (u, x)" by fastforce
  have "run_log fallback (evs @ [e]) = record_fuel u x (run_log fallback evs)" by (simp add: run_log_def e)
  moreover have "tool_samples t (evs @ [e]) = tool_samples t evs @ (if u = t then [x] else [])"
    by (simp add: tool_samples_def e)
  ultimately show ?case using snoc by (auto simp: record_profile)
qed (simp add: run_log_def policy_new_def tool_samples_def)

lemma run_log_fixed [simp]:
  "headroom_factor (run_log fallback evs) = DEFAULT_HEADROOM_FACTOR"
  "fallback_budget (run_log fallback evs) = fallback"
  by (induction evs rule: rev_induct)
    (simp_all add: run_log_def policy_new_def record_fuel_def Let_def case_prod_unfold)

lemma pushes_inv: "profile_inv p \<Longrightarrow> profile_inv (fold profile_push xs p)"
  by (induction xs arbitrary: p) (simp_all add: profile_push_inv)

lemma profile_new_inv: "profile_inv profile_new"
  by (simp add: profile_inv_def profile_new_def recompute_def)

lemma pushes_samples: "samples (fold profile_push xs profile_new) = drop (length xs - 100) xs"
  using fuel_window.pushes_window(1) [of profile_new xs] by (simp add: profile_new_def MAX_SAMPLES_def)

text \<open>The headroom computation on a single value.\<close>

lemma rnd_half:
  assumes "0 \<le> k" and "k < 2 ^ 53"
  shows "rnd 53 (- 1074) (of_int k / 2) = of_int k / 2"
proof (cases "k = 0")
  case False
  define x :: rat where "x = of_int k / 2"
  have x: "0 < x" using assms(1) False by (simp add: x_def)
  have "of_int k < (of_int (2 ^ 53) :: rat)" using assms(2) by (simp only: of_int_less_iff)
  then have "x < pow2 52" using pow2_nat [of 52] by (simp add: x_def)
  then have "pow2 (ilog2 x) < pow2 52" using ilog2_bounds [OF x] by linarith
  then have l: "ilog2 x < 52" by (rule pow2_less_cancel)
  define j where "j = nat (- unit_exp 53 (- 1074) x - 1)"
  have u: "unit_exp 53 (- 1074) x = - 1 - int j" using l x by (simp add: unit_exp_def j_def)
  have "x = of_int (k * 2 ^ j) * pow2 (unit_exp 53 (- 1074) x)"
    unfolding u by (simp add: x_def pow2_diff pow2_nat) (simp add: pow2_def)
  then show ?thesis unfolding x_def [symmetric] by (rule rnd_exact)
qed simp

lemma rnd_lower:
  assumes "1 \<le> x"
  shows "x * (1 - 1 / 2 ^ 53) \<le> rnd 53 (- 1074) x"
proof -
  have "pow2 (- 1074 + int 53 - 1) \<le> pow2 0" by (rule pow2_mono) simp
  also have "pow2 0 = 1" by (simp add: pow2_def)
  finally have "pow2 (- 1074 + int 53 - 1) \<le> x" using assms by linarith
  then have "\<bar>rnd 53 (- 1074) x - x\<bar> \<le> x / 2 ^ 53" using assms by (intro rnd_relative) simp_all
  then have "x - x / 2 ^ 53 \<le> rnd 53 (- 1074) x" by linarith
  then show ?thesis by (simp add: algebra_simps)
qed

lemma headroom_real:
  fixes n :: int
  assumes "0 \<le> n"
  defines "y \<equiv> rnd 53 (- 1074) (rnd 53 (- 1074) (of_int n) * (3 / 2))"
  shows "of_int n \<le> y"
proof (cases "n = 0")
  case False
  define x where "x = rnd 53 (- 1074) (of_int n)"
  have n1: "(1::rat) \<le> of_int n" using assms(1) False by simp
  have x: "of_int n * (1 - 1 / 2 ^ 53) \<le> x" unfolding x_def by (rule rnd_lower [OF n1])
  then have x': "of_int n * (5 / 6) \<le> x" using n1 by simp
  then have x1: "1 \<le> x * (3 / 2)" using n1 by simp
  have "of_int n \<le> x * (3 / 2) * (1 - 1 / 2 ^ 53)" using x n1 by simp
  also have "\<dots> \<le> y" unfolding y_def x_def [symmetric] by (rule rnd_lower [OF x1])
  finally show ?thesis .
qed (simp add: y_def)

lemma headroom_value:
  defines "h p \<equiv> f64_as_u64 (f64_mul (u64_as_f64 p) DEFAULT_HEADROOM_FACTOR)"
  shows "p \<le> h p" and "unat p \<le> 2 ^ 51 \<Longrightarrow> unat (h p) = unat p + unat p div 2"
proof -
  define n where "n = uint p"
  define x :: rat where "x = rnd 53 (- 1074) (of_int n)"
  define y where "y = rnd 53 (- 1074) (x * (3 / 2))"
  have n: "0 \<le> n" "n < 2 ^ 64" using uint_lt2p [of p] by (simp_all add: n_def)
  have nr: "(0::rat) \<le> of_int n" "(of_int n :: rat) \<le> pow2 64"
    using n pow2_nat [of 64] by (simp_all add: order_less_imp_le)
  have x0: "0 \<le> x" unfolding x_def by (rule rnd_nonneg [OF nr(1)])
  have x64: "x \<le> pow2 64"
  proof (cases "n = 0")
    case False
    then have "rnd 53 (- 1074) (of_int n) \<le> rnd 53 (- 1074) (pow2 64)"
      using n(1) by (intro rnd_mono nr(2)) simp_all
    then show ?thesis by (simp add: x_def rnd_pow2)
  qed (simp add: x_def)
  have "pow2 64 * (3 / 2) \<le> pow2 65" using pow2_add [of 64 1] by (simp add: pow2_def [of 1])
  then have x65: "x * (3 / 2) \<le> pow2 65" using x64 by simp
  have "u64_as_f64 p = Fin x"
    using nr pow2_mono [of 64 1000] by (simp add: u64_as_f64_def n_def [symmetric] x_def f64_of_small)
  moreover have "f64_of (x * (3 / 2)) = Fin y"
    unfolding y_def using x0 x65 pow2_mono [of 65 1000] by (intro f64_of_small) simp_all
  ultimately have hp: "h p = word_of_int (max 0 (min \<lfloor>y\<rfloor> (2 ^ 64 - 1)))"
    by (simp add: h_def f64_as_u64_def DEFAULT_HEADROOM_FACTOR_def)
  have y: "of_int n \<le> y" unfolding y_def x_def by (rule headroom_real [OF n(1)])
  then have fl: "n \<le> \<lfloor>y\<rfloor>" by (simp add: le_floor_iff)
  define v where "v = min \<lfloor>y\<rfloor> (2 ^ 64 - 1)"
  have v: "0 \<le> v" "v < 2 ^ 64" unfolding v_def using fl n by linarith+
  then have h: "uint (h p) = min \<lfloor>y\<rfloor> (2 ^ 64 - 1)" unfolding hp v_def [symmetric]
    by (simp add: uint_word_of_int take_bit_eq_mod)
  show "p \<le> h p" unfolding word_le_def h using fl n by (simp add: n_def [symmetric])
  assume small: "unat p \<le> 2 ^ 51"
  then have "int (unat p) \<le> int (2 ^ 51)" by (simp only: of_nat_le_iff)
  then have n51: "n \<le> 2 ^ 51" by (simp add: n_def)
  have "x = of_int n" unfolding x_def using n(1) n51 by (intro rnd_of_int) simp_all
  then have yn: "y = of_int (3 * n) / 2" unfolding y_def using rnd_half [of "3 * n"] n(1) n51 by (simp add: mult.commute)
  have "\<lfloor>y\<rfloor> = 3 * n div 2" unfolding yn using floor_divide_of_int_eq [of "3 * n" 2, where 'a = rat] by simp
  moreover have "3 * n div 2 = n + n div 2" by linarith
  moreover have "n + n div 2 \<le> 2 ^ 64 - 1" using n(1) n51 by simp
  ultimately have "uint (h p) = n + n div 2" using h by simp
  then have "int (unat (h p)) = int (unat p + unat p div 2)" by (simp add: n_def zdiv_int)
  then show "unat (h p) = unat p + unat p div 2" by (simp only: of_nat_eq_iff)
qed

subsection \<open>Properties\<close>

text \<open>
  Fuel is conserved under concurrency: whatever the interleaving of any number of threads inside
  \<open>consume\<close>, the remaining fuel plus what the successful calls took is the initial allocation, so the
  meter is never oversubscribed and never underflows, and a call that was refused asked for more than
  what remains.
\<close>

lemma fuel_conserved:
  assumes "reachable (meter_init total_fuel) meter_step (m, ts)"
  shows "unat (fm_remaining m) + sum_list (map taken ts) = unat total_fuel
    \<and> (\<forall>a. Returned a False \<in> set ts \<longrightarrow> fm_remaining m < a)"
  using meter.reachable_inv [OF assms] by (auto simp: conserved_def list_all_iff)

lemma budget_for_run_log:
  "if length (tool_samples t evs) < 5 then budget_for (run_log fallback evs) t = fallback
   else \<exists>p. is_percentile 95 (drop (length (tool_samples t evs) - 100) (tool_samples t evs)) p
     \<and> MIN_FUEL_FLOOR \<le> budget_for (run_log fallback evs) t \<and> p \<le> budget_for (run_log fallback evs) t
     \<and> (unat p \<le> 2 ^ 51 \<longrightarrow>
         unat (budget_for (run_log fallback evs) t) = max (unat p + unat p div 2) 100000)"
proof (cases "length (tool_samples t evs) < 5")
  case True
  then show ?thesis
    by (simp add: budget_for_def MIN_SAMPLES_def run_log_profile pushes_samples)
next
  case False
  let ?xs = "tool_samples t evs"
  let ?q = "fold profile_push ?xs profile_new"
  have ne: "?xs \<noteq> []" "samples ?q \<noteq> []" "5 \<le> length (samples ?q)"
    using False by (auto simp: pushes_samples)
  have perc: "is_percentile 95 (drop (length ?xs - 100) ?xs) (p95 ?q)"
    using profile_fields(2) [OF pushes_inv [OF profile_new_inv] ne(2)] by (simp add: pushes_samples)
  let ?h = "f64_as_u64 (f64_mul (u64_as_f64 (p95 ?q)) DEFAULT_HEADROOM_FACTOR)"
  have b: "budget_for (run_log fallback evs) t = max ?h MIN_FUEL_FLOOR"
    using ne by (simp add: budget_for_def MIN_SAMPLES_def run_log_profile)
  have "unat (max ?h MIN_FUEL_FLOOR) = max (unat ?h) 100000"
    by (simp add: max_def word_le_nat_alt MIN_FUEL_FLOOR_def)
  with False perc headroom_value [of "p95 ?q"] b show ?thesis
    by (simp only: if_False) (intro exI [of _ "p95 ?q"], simp add: le_max_iff_disj)
qed

text \<open>
  Adaptive budgets follow the recorded consumption: a tool with fewer than five recorded runs
  gets the fallback budget; otherwise its budget is at least the floor and at least the 95th percentile
  of its last hundred runs, exactly one and a half times that percentile (rounded down) as long as the
  percentile is at most \<open>2^51\<close>. All of this holds for the floating-point computation of the code.
\<close>

lemma budget_follows_percentile:
  "if length (tool_samples t evs) < 5 then budget_for (run_log fallback evs) t = fallback
   else \<exists>p. is_percentile 95 (drop (length (tool_samples t evs) - 100) (tool_samples t evs)) p
     \<and> MIN_FUEL_FLOOR \<le> budget_for (run_log fallback evs) t \<and> p \<le> budget_for (run_log fallback evs) t
     \<and> (unat p \<le> 2 ^ 51 \<longrightarrow>
         unat (budget_for (run_log fallback evs) t) = max (unat p + unat p div 2) 100000)"
  by (rule budget_for_run_log)

end
