(* ===== verification/Hypervisor.thy ===== *)
theory Hypervisor
  imports Module_Cache Instinct Fuel Capability_Manager
begin

text \<open>
  The hypervisor, \<open>src/src/hypervisor/mod.rs\<close>, in its default build (without \<open>aeon-memory\<close>): the
  orchestration of authorization, the sandbox or the warm pool, snapshots and rollback, health
  checks, recovery advice, telemetry, adaptive fuel budgets and retries.

  The state of \<open>NexusHypervisor\<close> is the record \<open>hypervisor\<close>; a call is one atomic step that returns its
  result and the new state. \<open>None\<close> is a call that does not return: the loops over token and snapshot
  chains and the wait for a pool permit. The crates the components call are collected in \<open>hv_env\<close>, and what
  one execution reads from its surroundings (clocks, fresh ids, host readings, the scheduling of the
  guest) in \<open>call_inputs\<close>. The tool input is its JSON serialization, if it has one. The layered instinct
  policy reads the attached store. Proof capsules are in a theory of their own.
\<close>

subsection \<open>Tools, outputs and configuration\<close>

record tool_definition =
  tool_name :: string
  wasm_bytes :: bytes
  entry_point :: string
  input_schema :: string
  required_capabilities :: "capability list"

definition tool_new :: "string \<Rightarrow> bytes \<Rightarrow> tool_definition" where
  "tool_new name bs = \<lparr>tool_name = name, wasm_bytes = bs, entry_point = ''_start'', input_schema = ''{}'',
     required_capabilities = []\<rparr>"

record tool_output =
  to_success :: bool
  to_result :: "bytes option"
  to_error :: "string option"
  to_rollback_performed :: bool
  to_execution_time_ms :: u64
  to_fuel_consumed :: u64
  to_error_log :: "error_log option"
  to_snapshot_id :: "uuid option"

datatype snapshot_strategy = FullStrategy | DifferentialStrategy

datatype recovery_config = StaticConfig | LayeredConfig | LayeredInstinctConfig string f32

record hypervisor_config =
  snapshot_capacity :: nat
  enable_persistence :: bool
  persistence_dir :: "string option"
  hy_health_config :: health_config
  hy_sandbox_config :: sandbox_config
  max_retries :: u32
  retry_delay :: duration
  hy_pool_config :: "pool_config option"
  snapshot_strategy :: snapshot_strategy
  hy_recovery_config :: recovery_config

definition default_hypervisor_config :: hypervisor_config where
  "default_hypervisor_config = \<lparr>snapshot_capacity = 100, enable_persistence = False, persistence_dir = None,
     hy_health_config = default_health_config, hy_sandbox_config = default_sandbox_config, max_retries = 3,
     retry_delay = 100 * 1000000, hy_pool_config = None, snapshot_strategy = FullStrategy,
     hy_recovery_config = StaticConfig\<rparr>"

datatype runtime_snapshot = FullSnapshot snapshot | DiffSnapshot uuid

fun runtime_snapshot_id :: "runtime_snapshot \<Rightarrow> uuid" where
  "runtime_snapshot_id (FullSnapshot s) = snap_id s"
| "runtime_snapshot_id (DiffSnapshot i) = i"

definition wasm_pages_for_bytes :: "nat \<Rightarrow> u32" where
  "wasm_pages_for_bytes byte_len = word_of_nat (min (div_ceil byte_len 65536) (2 ^ 32 - 1))"

subsection \<open>Recovery policy selection\<close>

datatype policy_choice =
    StaticChoice
  | LayeredChoice
  | InstinctChoice f32
  | CustomChoice recovery_policy

definition recovery_from_config ::
  "json_env \<Rightarrow> (string \<times> bytes option) list option \<Rightarrow> recovery_config
   \<Rightarrow> (policy_choice \<times> instinct_store option) result" where
  "recovery_from_config json listing cfg =
     (case cfg of
        StaticConfig \<Rightarrow> Inr (StaticChoice, None)
      | LayeredConfig \<Rightarrow> Inr (LayeredChoice, None)
      | LayeredInstinctConfig store_dir min_confidence \<Rightarrow>
          (case store_open json store_dir listing of
             Inl e \<Rightarrow> Inl e
           | Inr store \<Rightarrow> Inr (InstinctChoice min_confidence, Some store)))"

definition recover :: "policy_choice \<Rightarrow> instinct_store option \<Rightarrow> recovery_policy" where
  "recover choice store =
     (case choice of
        StaticChoice \<Rightarrow> static_policy
      | LayeredChoice \<Rightarrow> layered_policy [static_policy]
      | InstinctChoice min_confidence \<Rightarrow>
          layered_policy (static_policy # (case store of
              None \<Rightarrow> []
            | Some st \<Rightarrow> [instinct_policy (with_min_confidence min_confidence (instinct_policy_new st))]))
      | CustomChoice policy \<Rightarrow> policy)"

subsection \<open>The state\<close>

record 'm hypervisor =
  nx_config :: hypervisor_config
  nx_sandbox :: sandbox_config
  nx_snapshots :: snapshot_manager
  nx_disk :: disk
  nx_capabilities :: capability_manager
  nx_health :: health_validator
  nx_telemetry :: telemetry_sink
  nx_current_snapshot :: "snapshot option"
  nx_policy :: policy_choice
  nx_instincts :: "instinct_store option"
  nx_instinct_dir :: directory
  nx_fuel_policy :: fuel_budget_policy
  nx_last_rollback_memory :: "bytes option"
  nx_last_rollback_state :: "execution_state option"
  nx_pool :: "'m sandbox_pool option"
  nx_latest :: "runtime_snapshot option"

record 'm hv_env =
  he_wt :: "'m wasmtime"
  he_snap :: snap_env
  he_sha256 :: "bytes \<Rightarrow> bytes"
  he_caps :: cap_env
  he_json :: json_env
  he_min_interval :: nat

record call_inputs =
  ca_now :: time
  ca_exec :: exec_env
  ca_engine_ok :: bool
  ca_panicked :: bool
  ca_start :: host_reading
  ca_sampled :: host_reading
  ca_validated :: host_reading
  ca_checked :: host_reading
  ca_snap :: call_env
  ca_rollback_now :: time
  ca_duration_ms :: u64
  ca_log_id :: string
  ca_log_now :: time
  ca_record_id :: string
  ca_record_now :: time
  ca_telemetry_now :: time

text \<open>\<open>NexusHypervisor::new\<close>. The capability manager's fresh keys and whether the engines can be created
  are arguments.\<close>

definition hypervisor_new ::
  "json_env \<Rightarrow> (string \<times> bytes option) list option \<Rightarrow> directory \<Rightarrow> bytes \<Rightarrow> bytes \<Rightarrow> bool \<Rightarrow> bool
   \<Rightarrow> hypervisor_config \<Rightarrow> 'm hypervisor result" where
  "hypervisor_new json listing dir sk vk engine_ok pool_engine_ok cfg =
     (case recovery_from_config json listing (hy_recovery_config cfg) of
        Inl e \<Rightarrow> Inl e
      | Inr (choice, store) \<Rightarrow>
          (if \<not> engine_ok then Inl (ConfigError ''Failed to create sandbox: {}'')
           else case (case hy_pool_config cfg of
                        None \<Rightarrow> Inr None
                      | Some pc \<Rightarrow> map_sum id Some (pool_new pool_engine_ok pc)) of
                  Inl e \<Rightarrow> Inl e
                | Inr pool \<Rightarrow>
                    Inr \<lparr>nx_config = cfg, nx_sandbox = hy_sandbox_config cfg,
                         nx_snapshots = (case persistence_dir cfg of
                             Some dir \<Rightarrow> if enable_persistence cfg
                               then sm_with_persistence (snapshot_capacity cfg) dir else sm_new (snapshot_capacity cfg)
                           | None \<Rightarrow> sm_new (snapshot_capacity cfg)),
                         nx_disk = [], nx_capabilities = manager_from_keys sk vk,
                         nx_health = validator_new (hy_health_config cfg), nx_telemetry = sink_new 1000,
                         nx_current_snapshot = None, nx_policy = choice, nx_instincts = store,
                         nx_instinct_dir = dir, nx_fuel_policy = policy_new (max_fuel (hy_sandbox_config cfg)),
                         nx_last_rollback_memory = None, nx_last_rollback_state = None, nx_pool = pool,
                         nx_latest = None\<rparr>))"

subsection \<open>Snapshots and rollback\<close>

definition create_full ::
  "'m hv_env \<Rightarrow> call_env \<Rightarrow> bytes \<Rightarrow> filesystem_diff \<Rightarrow> execution_state \<Rightarrow> snapshot_metadata \<Rightarrow> 'm hypervisor
   \<Rightarrow> runtime_snapshot result \<times> 'm hypervisor" where
  "create_full env ce mem fs es md hv =
     (case create_snapshot (he_snap env) ce mem fs es md (nx_snapshots hv) (nx_disk hv) of
        (Inl e, m, d) \<Rightarrow> (Inl e, hv\<lparr>nx_snapshots := m, nx_disk := d\<rparr>)
      | (Inr snap, m, d) \<Rightarrow>
          (Inr (FullSnapshot snap), hv\<lparr>nx_snapshots := m, nx_disk := d, nx_current_snapshot := Some snap,
             nx_latest := Some (FullSnapshot snap)\<rparr>))"

definition create_runtime_snapshot ::
  "'m hv_env \<Rightarrow> call_env \<Rightarrow> bytes \<Rightarrow> filesystem_diff \<Rightarrow> execution_state \<Rightarrow> snapshot_metadata \<Rightarrow> 'm hypervisor
   \<Rightarrow> (runtime_snapshot result \<times> 'm hypervisor) option" where
  "create_runtime_snapshot env ce mem fs es md hv =
     (case snapshot_strategy (nx_config hv) of
        FullStrategy \<Rightarrow> Some (create_full env ce mem fs es md hv)
      | DifferentialStrategy \<Rightarrow>
          (case map_option runtime_snapshot_id (nx_latest hv) of
             None \<Rightarrow> Some (create_full env ce mem fs es md hv)
           | Some base \<Rightarrow>
               (case create_diff_snapshot (he_snap env) ce mem base es md (nx_snapshots hv) (nx_disk hv) of
                  None \<Rightarrow> None
                | Some (Inl e, m, d) \<Rightarrow> Some (Inl e, hv\<lparr>nx_snapshots := m, nx_disk := d\<rparr>)
                | Some (Inr (DiffCreated diff), m, d) \<Rightarrow>
                    Some (Inr (DiffSnapshot (diff_id diff)), hv\<lparr>nx_snapshots := m, nx_disk := d,
                            nx_latest := Some (DiffSnapshot (diff_id diff))\<rparr>)
                | Some (Inr (Promoted snap), m, d) \<Rightarrow>
                    Some (Inr (FullSnapshot snap), hv\<lparr>nx_snapshots := m, nx_disk := d,
                            nx_current_snapshot := Some snap, nx_latest := Some (FullSnapshot snap)\<rparr>))))"

definition cache_rollback_result :: "rollback_result \<Rightarrow> 'm hypervisor \<Rightarrow> 'm hypervisor" where
  "cache_rollback_result r hv = hv\<lparr>nx_last_rollback_memory := Some (rr_memory r),
     nx_last_rollback_state := Some (rr_execution_state r)\<rparr>"

definition rollback_runtime_snapshot ::
  "'m hv_env \<Rightarrow> time \<Rightarrow> runtime_snapshot \<Rightarrow> 'm hypervisor \<Rightarrow> (unit result \<times> 'm hypervisor) option" where
  "rollback_runtime_snapshot env now rs hv =
     (case (case rs of
              FullSnapshot s \<Rightarrow> Some (rollback_to (he_snap env) now (snap_id s) (nx_snapshots hv))
            | DiffSnapshot i \<Rightarrow> rollback_to_diff (he_snap env) now i (nx_snapshots hv)) of
        None \<Rightarrow> None
      | Some (Inl e, m) \<Rightarrow> Some (Inl e, hv\<lparr>nx_snapshots := m\<rparr>)
      | Some (Inr r, m) \<Rightarrow> Some (Inr (), cache_rollback_result r (hv\<lparr>nx_snapshots := m\<rparr>)))"

definition rollback_snapshot ::
  "'m hv_env \<Rightarrow> time \<Rightarrow> uuid \<Rightarrow> 'm hypervisor \<Rightarrow> (rollback_result result \<times> 'm hypervisor) option" where
  "rollback_snapshot env now i hv =
     (case rollback_to (he_snap env) now i (nx_snapshots hv) of
        (Inr r, m) \<Rightarrow> Some (Inr r, cache_rollback_result r (hv\<lparr>nx_snapshots := m\<rparr>))
      | (Inl full_err, m) \<Rightarrow>
          (case rollback_to_diff (he_snap env) now i m of
             None \<Rightarrow> None
           | Some (Inr r, m') \<Rightarrow> Some (Inr r, cache_rollback_result r (hv\<lparr>nx_snapshots := m'\<rparr>))
           | Some (Inl diff_err, m') \<Rightarrow>
               Some (Inl (RollbackFailed ''snapshot {snapshot_id} was not restorable as a full or differential snapshot (full: {full_err}; diff: {diff_err})''),
                     hv\<lparr>nx_snapshots := m'\<rparr>)))"

definition latest_runtime_snapshot_id :: "'m hypervisor \<Rightarrow> uuid option" where
  "latest_runtime_snapshot_id hv = map_option runtime_snapshot_id (nx_latest hv)"

definition take_rollback_memory :: "'m hypervisor \<Rightarrow> bytes option \<times> 'm hypervisor" where
  "take_rollback_memory hv = (nx_last_rollback_memory hv, hv\<lparr>nx_last_rollback_memory := None\<rparr>)"

definition take_rollback_execution_state :: "'m hypervisor \<Rightarrow> execution_state option \<times> 'm hypervisor" where
  "take_rollback_execution_state hv = (nx_last_rollback_state hv, hv\<lparr>nx_last_rollback_state := None\<rparr>)"

subsection \<open>Capabilities\<close>

definition issue_token ::
  "'m hv_env \<Rightarrow> time \<Rightarrow> uuid \<Rightarrow> capability \<Rightarrow> string \<Rightarrow> time \<Rightarrow> 'm hypervisor
   \<Rightarrow> capability_token result \<times> 'm hypervisor" where
  "issue_token env now new_id cap by_whom validity hv =
     (case manager_issue (he_caps env) now new_id cap by_whom validity (nx_capabilities hv) of
        (r, m) \<Rightarrow> (r, hv\<lparr>nx_capabilities := m\<rparr>))"

definition grant_capability ::
  "'m hv_env \<Rightarrow> time \<Rightarrow> uuid \<Rightarrow> capability \<Rightarrow> time \<Rightarrow> 'm hypervisor \<Rightarrow> unit result \<times> 'm hypervisor" where
  "grant_capability env now new_id cap validity hv =
     (case issue_token env now new_id cap ''system'' validity hv of
        (Inl e, hv') \<Rightarrow> (Inl e, hv')
      | (Inr _, hv') \<Rightarrow> (Inr (), hv'))"

definition attenuate_token ::
  "'m hv_env \<Rightarrow> time \<Rightarrow> uuid \<Rightarrow> uuid \<Rightarrow> capability \<Rightarrow> string \<Rightarrow> time \<Rightarrow> 'm hypervisor
   \<Rightarrow> capability_token result \<times> 'm hypervisor" where
  "attenuate_token env now new_id pid cap by_whom validity hv =
     (case manager_attenuate (he_caps env) now new_id pid cap by_whom validity (nx_capabilities hv) of
        (r, m) \<Rightarrow> (r, hv\<lparr>nx_capabilities := m\<rparr>))"

definition authorize_call ::
  "'m hv_env \<Rightarrow> time \<Rightarrow> capability_token list \<Rightarrow> capability list \<Rightarrow> 'm hypervisor \<Rightarrow> unit result option" where
  "authorize_call env now tokens required hv =
     (if required = [] then Some (Inr ()) else authorize (he_caps env) now (nx_capabilities hv) tokens required)"

subsection \<open>One execution\<close>

text \<open>The derived \<open>Debug\<close> form of a capability; strings and paths are quoted and escaped.\<close>

definition debug_char :: "char \<Rightarrow> string" where
  "debug_char c =
     (if c = CHR 0x22 \<or> c = CHR 0x5C then [CHR 0x5C, c]
      else if c = CHR 0x0A then [CHR 0x5C, CHR ''n'']
      else if c = CHR 0x0D then [CHR 0x5C, CHR ''r'']
      else if c = CHR 0x09 then [CHR 0x5C, CHR ''t'']
      else if c = CHR 0x00 then [CHR 0x5C, CHR ''0'']
      else if of_char c < (32 :: nat) \<or> of_char c = (127 :: nat)
      then [CHR 0x5C] @ ''u{'' @ (if (of_char c :: nat) < 16 then [hex_digit (of_char c)]
             else [hex_digit (of_char c div 16), hex_digit (of_char c mod 16)]) @ ''}''
      else [c])"

definition debug_str :: "string \<Rightarrow> string" where
  "debug_str s = [CHR 0x22] @ concat (map debug_char s) @ [CHR 0x22]"

fun scope_debug :: "memory_scope \<Rightarrow> string" where
  "scope_debug (Agent a) = ''Agent('' @ debug_str a @ '')''"
| "scope_debug (Session a s) = ''Session { agent_id: '' @ debug_str a @ '', session_id: '' @ debug_str s @ '' }''"
| "scope_debug (Namespace n) = ''Namespace('' @ debug_str n @ '')''"

fun cap_debug :: "capability \<Rightarrow> string" where
  "cap_debug (ReadFile p) = ''ReadFile('' @ debug_str p @ '')''"
| "cap_debug (WriteFile p) = ''WriteFile('' @ debug_str p @ '')''"
| "cap_debug (ListDirectory p) = ''ListDirectory('' @ debug_str p @ '')''"
| "cap_debug (HttpGet u) = ''HttpGet('' @ debug_str u @ '')''"
| "cap_debug (HttpPost u) = ''HttpPost('' @ debug_str u @ '')''"
| "cap_debug (ExecuteBinary p) = ''ExecuteBinary('' @ debug_str p @ '')''"
| "cap_debug (MountTmpfs p) = ''MountTmpfs('' @ debug_str p @ '')''"
| "cap_debug MemoryPreview = ''MemoryPreview''"
| "cap_debug MemoryRecall = ''MemoryRecall''"
| "cap_debug (ReadMemory s) = ''ReadMemory('' @ scope_debug s @ '')''"
| "cap_debug (WriteMemory s) = ''WriteMemory('' @ scope_debug s @ '')''"
| "cap_debug CapAll = ''All''"
| "cap_debug CapNone = ''None''"

definition install_budget :: "call_inputs \<Rightarrow> string \<Rightarrow> 'm hypervisor \<Rightarrow> 'm hypervisor" where
  "install_budget ca name hv =
     (let tool_budget = budget_for (nx_fuel_policy hv) name;
          cfg = hy_sandbox_config (nx_config hv)
      in if nx_pool hv = None \<and> tool_budget \<noteq> max_fuel cfg \<and> ca_engine_ok ca
         then hv\<lparr>nx_sandbox := cfg\<lparr>max_fuel := tool_budget\<rparr>\<rparr>
         else hv)"

definition run_guest ::
  "'m hv_env \<Rightarrow> call_inputs \<Rightarrow> tool_definition \<Rightarrow> bytes list \<Rightarrow> 'm option \<Rightarrow> restored_execution_state option
   \<Rightarrow> 'm hypervisor \<Rightarrow> (execution_result result \<times> 'm hypervisor) option" where
  "run_guest env ca tool args precompiled restored_state hv =
     (case precompiled of
        Some md \<Rightarrow>
          Some (execute_module_inner (he_wt env) (ca_exec ca) (nx_sandbox hv) md args restored_state (entry_point tool), hv)
      | None \<Rightarrow>
          (case nx_pool hv of
             Some pool \<Rightarrow>
               (case execute_pooled_with_entry (he_sha256 env) (he_wt env) (ca_exec ca) (ca_panicked ca)
                       (wasm_bytes tool) args restored_state (entry_point tool) pool of
                  None \<Rightarrow> None
                | Some (r, pool') \<Rightarrow> Some (r, hv\<lparr>nx_pool := Some pool'\<rparr>))
           | None \<Rightarrow>
               Some (case restored_state of
                       Some rs \<Rightarrow> execute_from_restored_state_with_entry (he_wt env) (ca_exec ca) (nx_sandbox hv)
                                    (wasm_bytes tool) args rs (entry_point tool)
                     | None \<Rightarrow> execute_with_entry (he_wt env) (ca_exec ca) (nx_sandbox hv) (wasm_bytes tool) args
                                 (entry_point tool), hv)))"

definition unwrap_or_default :: "'a list option \<Rightarrow> 'a list" where
  "unwrap_or_default x = (case x of Some v \<Rightarrow> v | None \<Rightarrow> [])"

definition snapshot_run ::
  "'m hv_env \<Rightarrow> call_inputs \<Rightarrow> tool_definition \<Rightarrow> string \<Rightarrow> execution_result \<Rightarrow> 'm hypervisor
   \<Rightarrow> (runtime_snapshot option result \<times> 'm hypervisor) option" where
  "snapshot_run env ca tool ihash r hv =
     (case xr_pre_call_memory r of
        None \<Rightarrow> Some (Inr None, hv)
      | Some mem \<Rightarrow>
          (let es = \<lparr>captured_globals = unwrap_or_default (xr_post_call_globals r),
                     captured_tables = unwrap_or_default (xr_post_call_tables r)\<rparr>;
               md = (metadata_new (tool_name tool) ihash)
                      \<lparr>memory_pages := wasm_pages_for_bytes (length mem),
                       preconditions := map cap_debug (required_capabilities tool)\<rparr>
           in case create_runtime_snapshot env (ca_snap ca) mem fs_new es md hv of
                None \<Rightarrow> None
              | Some (Inl e, hv') \<Rightarrow> Some (Inl e, hv')
              | Some (Inr s, hv') \<Rightarrow> Some (Inr (Some s), hv')))"

definition reconcile :: "failure_mode option \<Rightarrow> string option \<Rightarrow> health_status \<Rightarrow> failure_mode option" where
  "reconcile sandbox_mode host_corruption host_health =
     (case sandbox_mode of
        Some mode \<Rightarrow> Some mode
      | None \<Rightarrow>
          (case host_corruption of
             Some detail \<Rightarrow> Some (HostError detail)
           | None \<Rightarrow>
               (if \<not> is_healthy host_health
                then Some (HostError (''host health degraded: '' @ health_category host_health))
                else None)))"

definition failure_log ::
  "call_inputs \<Rightarrow> tool_definition \<Rightarrow> execution_result \<Rightarrow> resource_snapshot \<Rightarrow> failure_mode \<Rightarrow> 'm hypervisor \<Rightarrow> error_log"
  where
  "failure_log ca tool r resources mode hv =
     Failure_Recovery.with_call_stack (xr_call_stack r)
       (with_patterns (get_patterns (tool_name tool) (nx_telemetry hv))
         (with_recovery (recover (nx_policy hv) (nx_instincts hv) mode (tool_name tool))
           (error_log_new (ca_log_id ca) (ca_log_now ca) (tool_name tool) mode resources)))"

definition failure_output ::
  "call_inputs \<Rightarrow> execution_result \<Rightarrow> runtime_snapshot option \<Rightarrow> error_log \<Rightarrow> bool \<Rightarrow> tool_output" where
  "failure_output ca r snap el rollback_performed =
     \<lparr>to_success = False, to_result = None, to_error = Some (el_description el),
      to_rollback_performed = rollback_performed, to_execution_time_ms = ca_duration_ms ca,
      to_fuel_consumed = xr_fuel_consumed r, to_error_log = Some el,
      to_snapshot_id = map_option runtime_snapshot_id snap\<rparr>"

definition attempt_rollback ::
  "'m hv_env \<Rightarrow> call_inputs \<Rightarrow> runtime_snapshot option \<Rightarrow> failure_mode \<Rightarrow> 'm hypervisor
   \<Rightarrow> (bool \<times> 'm hypervisor) option" where
  "attempt_rollback env ca snap mode hv =
     (if \<not> requires_rollback mode then Some (False, hv)
      else case snap of
             None \<Rightarrow> Some (False, hv)
           | Some s \<Rightarrow> map_option (map_prod is_ok id) (rollback_runtime_snapshot env (ca_rollback_now ca) s hv))"

definition finish_failure ::
  "'m hv_env \<Rightarrow> call_inputs \<Rightarrow> tool_definition \<Rightarrow> execution_result \<Rightarrow> runtime_snapshot option
   \<Rightarrow> resource_snapshot \<Rightarrow> failure_mode \<Rightarrow> 'm hypervisor \<Rightarrow> (tool_output result \<times> 'm hypervisor) option" where
  "finish_failure env ca tool r snap resources mode hv =
     (let el = failure_log ca tool r resources mode hv
      in case attempt_rollback env ca snap mode hv of
           None \<Rightarrow> None
         | Some (rollback_performed, hv') \<Rightarrow>
             Some (Inr (failure_output ca r snap el rollback_performed),
                   hv'\<lparr>nx_telemetry := record_failure (ca_telemetry_now ca)
                         (record_of_failure (ca_record_id ca) (ca_record_now ca) (tool_name tool) el
                            (ca_duration_ms ca) (xr_fuel_consumed r)) (nx_telemetry hv')\<rparr>))"

definition success_output ::
  "call_inputs \<Rightarrow> execution_result \<Rightarrow> runtime_snapshot option \<Rightarrow> tool_output" where
  "success_output ca r snap =
     \<lparr>to_success = True, to_result = xr_return_value r, to_error = None, to_rollback_performed = False,
      to_execution_time_ms = ca_duration_ms ca, to_fuel_consumed = xr_fuel_consumed r,
      to_error_log = None, to_snapshot_id = map_option runtime_snapshot_id snap\<rparr>"

definition finish_success ::
  "call_inputs \<Rightarrow> tool_definition \<Rightarrow> execution_result \<Rightarrow> runtime_snapshot option
   \<Rightarrow> resource_snapshot \<Rightarrow> 'm hypervisor \<Rightarrow> tool_output result \<times> 'm hypervisor" where
  "finish_success ca tool r snap resources hv =
     (Inr (success_output ca r snap),
      hv\<lparr>nx_telemetry := record_success (ca_telemetry_now ca)
            (record_of_success (ca_record_id ca) (ca_record_now ca) (tool_name tool) (ca_duration_ms ca)
               (xr_fuel_consumed r) resources) (nx_telemetry hv)\<rparr>)"

text \<open>The steps after the snapshot: sample the host, reconcile the verdicts and finish.\<close>

definition conclude ::
  "'m hv_env \<Rightarrow> call_inputs \<Rightarrow> tool_definition \<Rightarrow> execution_result \<Rightarrow> runtime_snapshot option \<Rightarrow> 'm hypervisor
   \<Rightarrow> (tool_output result \<times> 'm hypervisor) option" where
  "conclude env ca tool r snap hv =
     (case current_resources (he_min_interval env) (ca_sampled ca) (nx_health hv) of (resources, v1) \<Rightarrow>
      case validate_health (he_min_interval env) (ca_validated ca) v1 of (host_health, v2) \<Rightarrow>
      case check_corruption (he_min_interval env) (ca_checked ca) v2 of (host_corruption, v3) \<Rightarrow>
        (let hv' = hv\<lparr>nx_health := v3\<rparr>
         in case reconcile (xr_failure_mode r) host_corruption host_health of
              Some mode \<Rightarrow> finish_failure env ca tool r snap resources mode hv'
            | None \<Rightarrow> Some (finish_success ca tool r snap resources hv')))"

definition execute_tool_inner ::
  "'m hv_env \<Rightarrow> call_inputs \<Rightarrow> tool_definition \<Rightarrow> bytes option \<Rightarrow> capability_token list \<Rightarrow> 'm option
   \<Rightarrow> restored_execution_state option \<Rightarrow> 'm hypervisor \<Rightarrow> (tool_output result \<times> 'm hypervisor) option" where
  "execute_tool_inner env ca tool input tokens precompiled restored_state hv =
     (case authorize_call env (ca_now ca) tokens (required_capabilities tool) hv of
        None \<Rightarrow> None
      | Some (Inl e) \<Rightarrow> Some (Inl e, hv)
      | Some (Inr _) \<Rightarrow>
     (case input of
        None \<Rightarrow> Some (Inl (SerializationError ''failed to serialize tool input: {e}''), hv)
      | Some input_bytes \<Rightarrow>
          (let hv1 = install_budget ca (tool_name tool) hv;
               hv2 = hv1\<lparr>nx_health := start_execution (he_min_interval env) (ca_start ca) (nx_health hv1)\<rparr>
           in case run_guest env ca tool [input_bytes] precompiled restored_state hv2 of
                None \<Rightarrow> None
              | Some (Inl e, hv3) \<Rightarrow> Some (Inl e, hv3)
              | Some (Inr r, hv3) \<Rightarrow>
                  (let hv4 = hv3\<lparr>nx_fuel_policy := record_fuel (tool_name tool) (xr_fuel_consumed r) (nx_fuel_policy hv3)\<rparr>
                   in case snapshot_run env ca tool (sha256_hex (he_snap env) input_bytes) r hv4 of
                        None \<Rightarrow> None
                      | Some (Inl e, hv5) \<Rightarrow> Some (Inl e, hv5)
                      | Some (Inr snap, hv5) \<Rightarrow> conclude env ca tool r snap hv5))))"

definition execute_tool_with_tokens ::
  "'m hv_env \<Rightarrow> call_inputs \<Rightarrow> tool_definition \<Rightarrow> bytes option \<Rightarrow> capability_token list \<Rightarrow> 'm hypervisor
   \<Rightarrow> (tool_output result \<times> 'm hypervisor) option" where
  "execute_tool_with_tokens env ca tool input tokens hv = execute_tool_inner env ca tool input tokens None None hv"

definition execute_tool_from_snapshot_with_tokens ::
  "'m hv_env \<Rightarrow> call_inputs \<Rightarrow> time \<Rightarrow> uuid \<Rightarrow> tool_definition \<Rightarrow> bytes option \<Rightarrow> capability_token list \<Rightarrow> 'm hypervisor
   \<Rightarrow> (tool_output result \<times> 'm hypervisor) option" where
  "execute_tool_from_snapshot_with_tokens env ca now i tool input tokens hv =
     (case authorize_call env now tokens (required_capabilities tool) hv of
        None \<Rightarrow> None
      | Some (Inl e) \<Rightarrow> Some (Inl e, hv)
      | Some (Inr _) \<Rightarrow>
          (case rollback_snapshot env now i hv of
             None \<Rightarrow> None
           | Some (Inl e, hv') \<Rightarrow> Some (Inl e, hv')
           | Some (Inr r, hv') \<Rightarrow>
               execute_tool_inner env ca tool input tokens None (Some (restored_from_rollback r)) hv'))"

subsection \<open>Retry with outcome feedback\<close>

text \<open>The clock and the outcome of the file write for each instinct that is credited.\<close>

type_synonym feedback_env = "(time \<times> bool) list"

fun feedback :: "json_env \<Rightarrow> feedback_env \<Rightarrow> bool \<Rightarrow> uuid list \<Rightarrow> instinct_store \<Rightarrow> directory \<Rightarrow> instinct_store \<times> directory" where
  "feedback json fe success [] st dir = (st, dir)"
| "feedback json fe success (i # rest) st dir =
     (let (now, write_ok) = (case fe of [] \<Rightarrow> (0, False) | f # _ \<Rightarrow> f)
      in case (if success then store_success now json write_ok i st dir else store_failure now json write_ok i st dir) of
           (_, st', dir') \<Rightarrow> feedback json (tl fe) success rest st' dir')"

definition apply_feedback :: "'m hv_env \<Rightarrow> feedback_env \<Rightarrow> bool \<Rightarrow> uuid list \<Rightarrow> 'm hypervisor \<Rightarrow> 'm hypervisor" where
  "apply_feedback env fe success pending_instincts hv =
     (case nx_instincts hv of
        None \<Rightarrow> hv
      | Some st \<Rightarrow>
          (case feedback (he_json env) fe success pending_instincts st (nx_instinct_dir hv) of
             (st', dir') \<Rightarrow> hv\<lparr>nx_instincts := Some st', nx_instinct_dir := dir'\<rparr>))"

definition proposed_instincts :: "tool_output \<Rightarrow> uuid list \<Rightarrow> uuid list" where
  "proposed_instincts output pending_instincts =
     (case to_error_log output of
        Some el \<Rightarrow> List.map_filter ra_instinct_id (recovery_actions el)
      | None \<Rightarrow> pending_instincts)"

text \<open>\<open>remaining\<close> attempts are left after this one.\<close>

fun retry_loop ::
  "'m hv_env \<Rightarrow> (nat \<Rightarrow> call_inputs \<times> feedback_env) \<Rightarrow> tool_definition \<Rightarrow> bytes option \<Rightarrow> capability_token list
   \<Rightarrow> nat \<Rightarrow> nat \<Rightarrow> uuid list \<Rightarrow> 'm hypervisor \<Rightarrow> (tool_output result \<times> 'm hypervisor) option" where
  "retry_loop env ins tool input tokens attempt remaining pending_instincts hv =
     (case execute_tool_with_tokens env (fst (ins attempt)) tool input tokens hv of
        None \<Rightarrow> None
      | Some (Inr output, hv') \<Rightarrow>
          (let credited = 0 < attempt \<and> pending_instincts \<noteq> [];
               hv'' = (if credited then apply_feedback env (snd (ins attempt)) (to_success output) pending_instincts hv'
                       else hv');
               pend = (if credited then [] else pending_instincts)
           in if to_success output then Some (Inr output, hv'')
              else case remaining of
                     0 \<Rightarrow> Some (Inr output, hv'')
                   | Suc k \<Rightarrow> retry_loop env ins tool input tokens (Suc attempt) k (proposed_instincts output pend) hv'')
      | Some (Inl e, hv') \<Rightarrow>
          (case remaining of
             0 \<Rightarrow> Some (Inl e, hv')
           | Suc k \<Rightarrow> retry_loop env ins tool input tokens (Suc attempt) k pending_instincts hv'))"

declare retry_loop.simps [simp del]

definition execute_with_retry_with_tokens ::
  "'m hv_env \<Rightarrow> (nat \<Rightarrow> call_inputs \<times> feedback_env) \<Rightarrow> tool_definition \<Rightarrow> bytes option \<Rightarrow> capability_token list
   \<Rightarrow> 'm hypervisor \<Rightarrow> (tool_output result \<times> 'm hypervisor) option" where
  "execute_with_retry_with_tokens env ins tool input tokens hv =
     retry_loop env ins tool input tokens 0 (unat (max_retries (nx_config hv))) [] hv"

subsection \<open>Traces\<close>

definition execute_tool_traced ::
  "'m hv_env \<Rightarrow> call_inputs \<Rightarrow> uuid \<Rightarrow> tool_definition \<Rightarrow> bytes option \<Rightarrow> trace_config \<Rightarrow> 'm hypervisor
   \<Rightarrow> ((tool_output \<times> execution_trace) result \<times> 'm hypervisor) option" where
  "execute_tool_traced env ca trace_id tool input cfg hv =
     (case execute_tool_with_tokens env ca tool input [] hv of
        None \<Rightarrow> None
      | Some (Inl e, hv') \<Rightarrow> Some (Inl e, hv')
      | Some (Inr output, hv') \<Rightarrow>
          (let trace = trace_new trace_id (tool_name tool)
           in Some (Inr (output, case nx_current_snapshot hv' of
                 None \<Rightarrow> trace
               | Some snap \<Rightarrow>
                   snd (trace_push (to_fuel_consumed output)
                     (if capture_memory cfg then memory_checksum snap else [])
                     (captured_globals (snap_execution_state snap)) (max_checkpoints cfg) trace)), hv')))"

text \<open>The loop of \<open>record_trace\<close> at checkpoint \<open>k\<close>; the environment of the \<open>k\<close>-th replay is \<open>xs k\<close>.\<close>

fun trace_loop ::
  "'m hv_env \<Rightarrow> (nat \<Rightarrow> exec_env) \<Rightarrow> sandbox_config \<Rightarrow> tool_definition \<Rightarrow> bytes \<Rightarrow> trace_config \<Rightarrow> u64
   \<Rightarrow> nat \<Rightarrow> nat \<Rightarrow> execution_trace \<Rightarrow> execution_trace result" where
  "trace_loop env xs scfg tool input_bytes cfg interval k 0 trace = Inr trace"
| "trace_loop env xs scfg tool input_bytes cfg interval k (Suc n) trace =
     (case execute_to_fuel (he_wt env) (xs k) scfg (wasm_bytes tool) [input_bytes]
             (saturating_mul interval (word_of_nat k)) of
        Inl e \<Rightarrow> Inl e
      | Inr step \<Rightarrow>
          (let trace' = (case st_memory step of
                 None \<Rightarrow> trace
               | Some mem \<Rightarrow> snd (trace_push (st_fuel_consumed step)
                     (if capture_memory cfg then sha256_hex (he_snap env) mem else [])
                     (st_globals step) (max_checkpoints cfg) trace))
           in if st_completed step then Inr trace'
              else trace_loop env xs scfg tool input_bytes cfg interval (Suc k) n trace'))"

definition record_trace ::
  "'m hv_env \<Rightarrow> (nat \<Rightarrow> exec_env) \<Rightarrow> uuid \<Rightarrow> tool_definition \<Rightarrow> bytes option \<Rightarrow> trace_config \<Rightarrow> 'm hypervisor
   \<Rightarrow> execution_trace result" where
  "record_trace env xs trace_id tool input cfg hv =
     (case input of
        None \<Rightarrow> Inl (SerializationError ''trace input: {e}'')
      | Some input_bytes \<Rightarrow>
          trace_loop env xs (nx_sandbox hv) tool input_bytes cfg (max (checkpoint_interval_fuel cfg) 1) 1
            (max_checkpoints cfg) (trace_new trace_id (tool_name tool)))"

end
