(* ===== verification/Execution.thy ===== *)
theory Execution
  imports Hypervisor
begin

text \<open>
  Correctness of the hypervisor's executions: an invariant of its state, that every call returns and
  keeps it, what an execution reports and restores, and that nothing runs without authorization.
\<close>

subsection \<open>The invariant\<close>

text \<open>What the code relies on of wasmtime: a linear memory has at most 4 GiB, and \<open>Memory::grow\<close> appends
  zero pages.\<close>

definition wt_ok :: "'m wasmtime \<Rightarrow> bool" where
  "wt_ok wt \<longleftrightarrow>
     (\<forall>md l f st mem. wt_instantiate wt md l f = Inr st \<and> wi_memory (ws_instance st) = Some mem
        \<longrightarrow> length mem \<le> 2 ^ 32)
     \<and> (\<forall>l m n m'. wt_grow wt l m n = Some m' \<longrightarrow> m' = m @ replicate (n * 65536) 0 \<and> length m' \<le> 2 ^ 32)"

text \<open>The capability manager and the snapshot manager are in reachable states, the latter refining the
  map \<open>g\<close> of everything captured, and a pool has a free permit between two calls.\<close>

definition hv_inv :: "'m hv_env \<Rightarrow> store \<Rightarrow> 'm hypervisor \<Rightarrow> bool" where
  "hv_inv env g hv \<longleftrightarrow>
     reachable (manager_init (he_caps env)) (manager_step (he_caps env)) (nx_capabilities hv)
     \<and> store_inv (he_snap env) (nx_snapshots hv, g)
     \<and> (case nx_pool hv of None \<Rightarrow> True | Some p \<Rightarrow> 0 < available_permits p)"

lemma hv_inv_cong:
  "hv_inv env g hv \<Longrightarrow> nx_capabilities hv' = nx_capabilities hv \<Longrightarrow> nx_snapshots hv' = nx_snapshots hv
    \<Longrightarrow> nx_pool hv' = nx_pool hv \<Longrightarrow> hv_inv env g hv'"
  by (simp add: hv_inv_def)

subsection \<open>The guest\<close>

lemma restore_memory_bound:
  assumes "wt_ok wt" and "length mem \<le> 2 ^ 32" and "restore_memory (wt_grow wt l) mem bs = Inr mem'"
  shows "length mem' \<le> 2 ^ 32"
proof (cases "length mem < length bs")
  case True
  define n where "n = div_ceil (length bs - length mem) 65536"
  obtain g where g: "wt_grow wt l mem n = Some g" and m: "mem' = write_slice g 0 bs"
    using assms(3) True by (auto simp: restore_memory_def n_def split: option.splits)
  have gl: "g = mem @ replicate (n * 65536) 0" "length g \<le> 2 ^ 32" using assms(1) g by (auto simp: wt_ok_def)
  have "length bs \<le> length mem + n * 65536"
    using div_ceil_mult [of "length bs - length mem" 65536] mod_less_divisor [of 65536 "length bs - length mem"]
    unfolding n_def by (auto split: if_splits)
  then show ?thesis using gl m by (simp add: write_slice_def)
qed (use assms in \<open>auto simp: restore_memory_def write_slice_def\<close>)

lemma map_sum_Inr: "map_sum f h x = Inr y \<longleftrightarrow> (\<exists>z. x = Inr z \<and> y = h z)"
  by (cases x) auto

lemma seed_memory_bound:
  assumes "wt_ok wt" and "\<And>mem. wi_memory inst = Some mem \<Longrightarrow> length mem \<le> 2 ^ 32"
    and "seed_instance wt l rs inst = Inr inst'" and "wi_memory inst' = Some mem"
  shows "length mem \<le> 2 ^ 32"
proof (cases rs)
  case None
  with assms show ?thesis by (simp add: seed_instance_def)
next
  case (Some r)
  with assms obtain m0 where "wi_memory inst = Some m0" "restore_memory (wt_grow wt l) m0 (re_memory r) = Inr mem"
    by (auto simp: seed_instance_def map_sum_Inr split: option.splits sum.splits prod.splits)
  then show ?thesis using restore_memory_bound [OF assms(1)] assms(2) by blast
qed

lemma guest_memory_bound:
  assumes "wt_ok wt" and "execute_module_inner wt xe cfg md args rs entry = Inr r" and "xr_pre_call_memory r = Some mem"
  shows "length mem \<le> 2 ^ 32"
proof -
  obtain store inst where "wt_instantiate wt md (max_memory_bytes cfg) (max_fuel cfg) = Inr store"
    and "seed_instance wt (max_memory_bytes cfg) rs (ws_instance store) = Inr inst" and "wi_memory inst = Some mem"
    using assms(2,3)
    by (auto simp: execute_module_inner_def worker_def Let_def xr_defs
        split: recv_outcome.splits exec_reply.splits option.splits sum.splits prod.splits)
  then show ?thesis using seed_memory_bound [OF assms(1)] assms(1) unfolding wt_ok_def by blast
qed

text \<open>What running the guest may change, and what it returns.\<close>

lemma run_guest_returns:
  assumes "case nx_pool hv of None \<Rightarrow> True | Some p \<Rightarrow> 0 < available_permits p" and "wt_ok (he_wt env)"
  obtains r pool where "run_guest env ca tool args precompiled rs hv = Some (r, hv\<lparr>nx_pool := pool\<rparr>)"
    and "case pool of None \<Rightarrow> True | Some p \<Rightarrow> 0 < available_permits p"
    and "\<And>x mem. r = Inr x \<Longrightarrow> xr_pre_call_memory x = Some mem \<Longrightarrow> length mem \<le> 2 ^ 32"
    and "\<And>x. r = Inr x \<Longrightarrow> \<exists>cfg. result_wf cfg x"
proof -
  note direct = that [of _ "nx_pool hv"]
  show thesis
  proof (cases precompiled)
    case (Some md)
    then have "run_guest env ca tool args precompiled rs hv =
        Some (execute_module_inner (he_wt env) (ca_exec ca) (nx_sandbox hv) md args rs (entry_point tool), hv\<lparr>nx_pool := nx_pool hv\<rparr>)"
      by (simp add: run_guest_def)
    then show thesis
      using assms(1) guest_memory_bound [OF assms(2)] execute_module_inner_wf [of "he_wt env" "ca_exec ca" "nx_sandbox hv" md args rs "entry_point tool"]
      by (intro direct) auto
  next
    case None
    show thesis
    proof (cases "nx_pool hv")
      case (Some p)
      then obtain r p' where e: "execute_pooled_with_entry (he_sha256 env) (he_wt env) (ca_exec ca) (ca_panicked ca)
          (wasm_bytes tool) args rs (entry_point tool) p = Some (r, p')"
        and p': "available_permits p' = available_permits p"
        and wf: "\<forall>x. r = Inr x \<longrightarrow> result_wf (pool_sandbox_config (sp_config p)) x"
        using execute_pooled_returns [of p "he_sha256 env" "he_wt env" "ca_exec ca" "ca_panicked ca" "wasm_bytes tool" args rs "entry_point tool"]
          assms(1) by auto
      have b: "length mem \<le> 2 ^ 32" if "r = Inr x" "xr_pre_call_memory x = Some mem" for x mem
        using e that guest_memory_bound [OF assms(2)]
        by (auto simp: execute_pooled_with_entry_def split: option.splits sum.splits if_splits)
      show thesis
        using None Some e p' wf assms(1) b
        by (intro that [of r "Some p'"]) (auto simp: run_guest_def)
    next
      case no_pool: None
      let ?r = "case rs of
          Some s \<Rightarrow> execute_from_restored_state_with_entry (he_wt env) (ca_exec ca) (nx_sandbox hv)
                      (wasm_bytes tool) args s (entry_point tool)
        | None \<Rightarrow> execute_with_entry (he_wt env) (ca_exec ca) (nx_sandbox hv) (wasm_bytes tool) args (entry_point tool)"
      have run: "run_guest env ca tool args precompiled rs hv = Some (?r, hv\<lparr>nx_pool := nx_pool hv\<rparr>)"
        using None no_pool by (simp add: run_guest_def)
      have inner: "(\<exists>md. execute_module_inner (he_wt env) (ca_exec ca) (nx_sandbox hv) md args rs (entry_point tool) = Inr x)
          \<or> (\<exists>m d. x = failure_from_mode (InvalidModule m) 0 d)" if "?r = Inr x" for x
        using that by (auto simp: execute_with_entry_def execute_module_with_entry_def
            execute_from_restored_state_with_entry_def split: option.splits sum.splits)
      show thesis
      proof (rule direct [OF run assms(1)])
        show "length mem \<le> 2 ^ 32" if "?r = Inr x" "xr_pre_call_memory x = Some mem" for x mem
          using inner [OF that(1)] that(2) guest_memory_bound [OF assms(2)] by (auto simp: failure_from_mode_def)
        show "\<exists>cfg. result_wf cfg x" if "?r = Inr x" for x
          using inner [OF that] execute_module_inner_wf [of "he_wt env" "ca_exec ca" "nx_sandbox hv"] failure_from_mode_wf
          by (metis failure_mode.distinct sum.inject(2))
      qed
    qed
  qed
qed

subsection \<open>Snapshots of a run\<close>

definition run_state :: "execution_result \<Rightarrow> execution_state" where
  "run_state r = \<lparr>captured_globals = unwrap_or_default (xr_post_call_globals r),
     captured_tables = unwrap_or_default (xr_post_call_tables r)\<rparr>"

text \<open>A runtime snapshot restores a memory and a state: rolling back to it succeeds with them.\<close>

definition restores :: "'m hv_env \<Rightarrow> snapshot_manager \<Rightarrow> runtime_snapshot \<Rightarrow> bytes \<Rightarrow> execution_state \<Rightarrow> bool" where
  "restores env m s mem es \<longleftrightarrow> (\<forall>now hv. nx_snapshots hv = m \<longrightarrow>
     rollback_runtime_snapshot env now s hv = Some (Inr (), hv\<lparr>nx_snapshots := count_rollback m,
       nx_last_rollback_memory := Some mem, nx_last_rollback_state := Some es\<rparr>))"

lemma reconstruct_total: "store_inv env (m, g) \<Longrightarrow> \<exists>r. reconstruct_memory_for env m base = Some r"
proof -
  assume "store_inv env (m, g)"
  then have "\<exists>r. collect_chain msg (buffer m) (diff_buffer m) b c = Some r" for msg b c
    by (intro collect_chain_total) (simp add: store_inv_def)
  then show ?thesis
    by (auto simp: reconstruct_memory_for_def split: option.splits sum.splits) (metis not_Some_eq)+
qed

lemma create_diff_total:
  "store_inv env (m, g) \<Longrightarrow> \<exists>r. create_diff_snapshot env ce mem base es md m disk = Some r"
  using reconstruct_total [of env m g base]
  by (auto simp: create_diff_snapshot_def Let_def split: option.splits sum.splits prod.splits)

text \<open>Taking a snapshot touches the snapshot state only.\<close>

definition keeps :: "'m hypervisor \<Rightarrow> 'm hypervisor \<Rightarrow> bool" where
  "keeps hv hv' \<longleftrightarrow> nx_config hv' = nx_config hv \<and> nx_sandbox hv' = nx_sandbox hv
     \<and> nx_capabilities hv' = nx_capabilities hv \<and> nx_health hv' = nx_health hv \<and> nx_telemetry hv' = nx_telemetry hv
     \<and> nx_policy hv' = nx_policy hv \<and> nx_instincts hv' = nx_instincts hv \<and> nx_instinct_dir hv' = nx_instinct_dir hv
     \<and> nx_fuel_policy hv' = nx_fuel_policy hv \<and> nx_last_rollback_memory hv' = nx_last_rollback_memory hv
     \<and> nx_last_rollback_state hv' = nx_last_rollback_state hv \<and> nx_pool hv' = nx_pool hv"

lemma create_full_returns:
  assumes inv: "hv_inv env g hv" and fresh: "g (ce_id ce) = None" and adr: "addressable mem"
    and cr: "create_full env ce mem fs es md hv = (r, hv')"
  shows "hv_inv env (g(ce_id ce \<mapsto> (mem, es))) hv'"
    and "r = Inr s \<Longrightarrow> restores env (nx_snapshots hv') s mem es"
    and "keeps hv hv'"
proof -
  have si: "store_inv (he_snap env) (nx_snapshots hv, g)" using inv by (simp add: hv_inv_def)
  obtain r0 m d where c0: "create_snapshot (he_snap env) ce mem fs es md (nx_snapshots hv) (nx_disk hv) = (r0, m, d)"
    by (metis prod_cases3)
  have si': "store_inv (he_snap env) (m, g(ce_id ce \<mapsto> (mem, es)))" by (rule create_snapshot_inv [OF si fresh adr c0])
  have fields: "nx_snapshots hv' = m" "nx_capabilities hv' = nx_capabilities hv" "nx_pool hv' = nx_pool hv"
    using cr c0 by (auto simp: create_full_def split: sum.splits)
  then show "hv_inv env (g(ce_id ce \<mapsto> (mem, es))) hv'" using si' inv by (simp add: hv_inv_def)
  show "keeps hv hv'" using cr c0 by (auto simp: create_full_def keeps_def split: sum.splits)
  show "restores env (nx_snapshots hv') s mem es" if rs: "r = Inr s"
  proof -
    obtain snap where snap: "r0 = Inr snap" "s = FullSnapshot snap"
      using cr c0 rs by (auto simp: create_full_def split: sum.splits)
    note rb = create_rollback [OF si fresh c0 [unfolded snap(1)]]
    then show ?thesis
      by (simp add: restores_def rollback_runtime_snapshot_def snap(2) fields(1) rb cache_rollback_result_def)
  qed
qed

lemma create_runtime_returns:
  assumes inv: "hv_inv env g hv" and fresh: "g (ce_id ce) = None" and adr: "addressable mem"
  obtains r hv' where "create_runtime_snapshot env ce mem fs es md hv = Some (r, hv')"
    and "hv_inv env (g(ce_id ce \<mapsto> (mem, es))) hv'"
    and "\<And>s. r = Inr s \<Longrightarrow> restores env (nx_snapshots hv') s mem es"
    and "keeps hv hv'"
proof -
  note out = that
  have full: thesis if "create_runtime_snapshot env ce mem fs es md hv = Some (create_full env ce mem fs es md hv)"
  proof -
    obtain r hv' where c: "create_full env ce mem fs es md hv = (r, hv')" by fastforce
    show thesis
      by (rule out [OF that [unfolded c]]) (rule create_full_returns [OF inv fresh adr c], assumption?)+
  qed
  show thesis
  proof (cases "snapshot_strategy (nx_config hv) = FullStrategy \<or> nx_latest hv = None")
    case True
    then show thesis
      by (intro full) (auto simp: create_runtime_snapshot_def split: snapshot_strategy.splits)
  next
    case False
    then obtain base where ds: "snapshot_strategy (nx_config hv) = DifferentialStrategy"
      and b: "map_option runtime_snapshot_id (nx_latest hv) = Some base"
      by (cases "snapshot_strategy (nx_config hv)") auto
    have si: "store_inv (he_snap env) (nx_snapshots hv, g)" using inv by (simp add: hv_inv_def)
    obtain r m d where c: "create_diff_snapshot (he_snap env) ce mem base es md (nx_snapshots hv) (nx_disk hv) = Some (r, m, d)"
      using create_diff_total [OF si] by (metis prod_cases3)
    have si': "store_inv (he_snap env) (m, g(ce_id ce \<mapsto> (mem, es)))" by (rule create_diff_inv [OF si fresh adr c])
    consider (err) e where "r = Inl e" | (diff) df where "r = Inr (DiffCreated df)" | (prom) sn where "r = Inr (Promoted sn)"
      by (cases r) (auto, metis diff_snapshot_result.exhaust)
    then show thesis
    proof cases
      case err
      show thesis
        by (rule out [of "Inl e" "hv\<lparr>nx_snapshots := m, nx_disk := d\<rparr>"])
          (use err ds b c si' inv in \<open>auto simp: create_runtime_snapshot_def keeps_def hv_inv_def\<close>)
    next
      case diff
      note rb = create_diff_rollback [OF si fresh adr c [unfolded diff]]
      show thesis
        by (rule out [of "Inr (DiffSnapshot (diff_id df))" "hv\<lparr>nx_snapshots := m, nx_disk := d,
              nx_latest := Some (DiffSnapshot (diff_id df))\<rparr>"])
          (use diff ds b c si' inv rb in \<open>auto simp: create_runtime_snapshot_def keeps_def hv_inv_def restores_def
              rollback_runtime_snapshot_def cache_rollback_result_def\<close>)
    next
      case prom
      then have cs: "create_snapshot (he_snap env) ce mem fs_new es md (nx_snapshots hv) (nx_disk hv) = (Inr sn, m, d)"
        using c by (auto simp: create_diff_snapshot_def Let_def split: if_splits option.splits sum.splits prod.splits)
      note rb = create_rollback [OF si fresh cs]
      show thesis
        by (rule out [of "Inr (FullSnapshot sn)" "hv\<lparr>nx_snapshots := m, nx_disk := d,
              nx_current_snapshot := Some sn, nx_latest := Some (FullSnapshot sn)\<rparr>"])
          (use prom ds b c si' inv rb in \<open>auto simp: create_runtime_snapshot_def keeps_def hv_inv_def restores_def
              rollback_runtime_snapshot_def cache_rollback_result_def\<close>)
    qed
  qed
qed

lemma snapshot_run_returns:
  assumes inv: "hv_inv env g hv" and fresh: "g (ce_id (ca_snap ca)) = None"
    and len: "\<And>mem. xr_pre_call_memory r = Some mem \<Longrightarrow> length mem \<le> 2 ^ 32"
  obtains res hv' g' where "snapshot_run env ca tool ihash r hv = Some (res, hv')" and "hv_inv env g' hv'"
    and "g \<subseteq>\<^sub>m g'" and "dom g' \<subseteq> insert (ce_id (ca_snap ca)) (dom g)" and "keeps hv hv'"
    and "\<And>snap. res = Inr snap \<Longrightarrow> (snap = None \<longleftrightarrow> xr_pre_call_memory r = None)
      \<and> (\<forall>s mem. snap = Some s \<longrightarrow> xr_pre_call_memory r = Some mem
           \<longrightarrow> restores env (nx_snapshots hv') s mem (run_state r))"
proof (cases "xr_pre_call_memory r")
  case None
  then show thesis
    by (intro that [of "Inr None" hv g]) (auto simp: snapshot_run_def inv keeps_def)
next
  case (Some mem)
  define md where "md = (metadata_new (tool_name tool) ihash)
    \<lparr>memory_pages := wasm_pages_for_bytes (length mem), preconditions := map cap_debug (required_capabilities tool)\<rparr>"
  have adr: "addressable mem" using len [OF Some] by (simp add: addressable_def PAGE_SIZE_def)
  obtain x hv' where c: "create_runtime_snapshot env (ca_snap ca) mem fs_new (run_state r) md hv = Some (x, hv')"
    and i: "hv_inv env (g(ce_id (ca_snap ca) \<mapsto> (mem, run_state r))) hv'"
    and rst: "\<And>s. x = Inr s \<Longrightarrow> restores env (nx_snapshots hv') s mem (run_state r)" and k: "keeps hv hv'"
    using create_runtime_returns [OF inv fresh adr] by metis
  have eq: "snapshot_run env ca tool ihash r hv = Some (map_sum id Some x, hv')"
    using Some c by (cases x) (simp_all add: snapshot_run_def Let_def run_state_def md_def)
  have le: "g \<subseteq>\<^sub>m g(ce_id (ca_snap ca) \<mapsto> (mem, run_state r))" using fresh by (auto simp: map_le_def)
  show thesis
    by (rule that [OF eq i le _ k]) (use rst Some in \<open>auto simp: map_sum_Inr\<close>)
qed

subsection \<open>The verdict\<close>

text \<open>What the output of an execution says of the guest's result and of the state left behind.\<close>

definition verdict :: "execution_result \<Rightarrow> tool_output \<Rightarrow> 'm hypervisor \<Rightarrow> 'm hypervisor \<Rightarrow> bool" where
  "verdict r out hv hv' \<longleftrightarrow>
     to_fuel_consumed out = xr_fuel_consumed r
     \<and> (to_success out \<longrightarrow> xr_failure_mode r = None \<and> to_result out = xr_return_value r \<and> to_error out = None
          \<and> to_error_log out = None \<and> \<not> to_rollback_performed out)
     \<and> (\<not> to_success out \<longrightarrow> (\<exists>mode el. to_error_log out = Some el \<and> el_failure_mode el = mode
          \<and> to_error out = Some (describe mode)
          \<and> (xr_failure_mode r = Some mode \<or> xr_failure_mode r = None \<and> (\<exists>detail. mode = HostError detail))
          \<and> (to_rollback_performed out \<longleftrightarrow> requires_rollback mode \<and> xr_pre_call_memory r \<noteq> None)))
     \<and> (if to_rollback_performed out
        then nx_last_rollback_memory hv' = xr_pre_call_memory r \<and> nx_last_rollback_state hv' = Some (run_state r)
        else nx_last_rollback_memory hv' = nx_last_rollback_memory hv
          \<and> nx_last_rollback_state hv' = nx_last_rollback_state hv)"

lemma reconcile_mode:
  "reconcile m c h = Some mode \<Longrightarrow> m = Some mode \<or> m = None \<and> (\<exists>detail. mode = HostError detail)"
  "reconcile m c h = None \<Longrightarrow> m = None"
  by (auto simp: reconcile_def split: option.splits if_splits)

lemma error_log_fields [simp]:
  "el_failure_mode (error_log_new i t n m rs) = m" "el_description (error_log_new i t n m rs) = describe m"
  "el_failure_mode (with_recovery a l) = el_failure_mode l" "el_description (with_recovery a l) = el_description l"
  "el_failure_mode (with_patterns p l) = el_failure_mode l" "el_description (with_patterns p l) = el_description l"
  "el_failure_mode (Failure_Recovery.with_call_stack c l) = el_failure_mode l"
  "el_description (Failure_Recovery.with_call_stack c l) = el_description l"
  by (simp_all add: error_log_new_def with_recovery_def with_patterns_def Failure_Recovery.with_call_stack_def)

lemma attempt_rollback_returns:
  assumes inv: "hv_inv env g hv" and none: "snap = None \<longleftrightarrow> xr_pre_call_memory r = None"
    and some: "\<And>s mem. snap = Some s \<Longrightarrow> xr_pre_call_memory r = Some mem
      \<Longrightarrow> restores env (nx_snapshots hv) s mem (run_state r)"
  obtains hv' where "attempt_rollback env ca snap mode hv = Some (requires_rollback mode \<and> xr_pre_call_memory r \<noteq> None, hv')"
    and "hv_inv env g hv'"
    and "if requires_rollback mode \<and> xr_pre_call_memory r \<noteq> None
         then nx_last_rollback_memory hv' = xr_pre_call_memory r \<and> nx_last_rollback_state hv' = Some (run_state r)
         else hv' = hv"
proof (cases "requires_rollback mode \<and> xr_pre_call_memory r \<noteq> None")
  case True
  then obtain s mem where s: "snap = Some s" "xr_pre_call_memory r = Some mem" using none by auto
  have "rollback_runtime_snapshot env (ca_rollback_now ca) s hv = Some (Inr (), hv\<lparr>nx_snapshots := count_rollback (nx_snapshots hv),
      nx_last_rollback_memory := Some mem, nx_last_rollback_state := Some (run_state r)\<rparr>)"
    using some [OF s] by (simp add: restores_def)
  then have "attempt_rollback env ca snap mode hv = Some (True, hv\<lparr>nx_snapshots := count_rollback (nx_snapshots hv),
      nx_last_rollback_memory := Some mem, nx_last_rollback_state := Some (run_state r)\<rparr>)"
    using True s by (simp add: attempt_rollback_def)
  with True have "attempt_rollback env ca snap mode hv = Some (requires_rollback mode \<and> xr_pre_call_memory r \<noteq> None,
      hv\<lparr>nx_snapshots := count_rollback (nx_snapshots hv), nx_last_rollback_memory := Some mem,
         nx_last_rollback_state := Some (run_state r)\<rparr>)" by simp
  then show thesis by (rule that) (use True s inv in \<open>simp_all add: hv_inv_def store_inv_count\<close>)
next
  case False
  then have "attempt_rollback env ca snap mode hv = Some (False, hv)" using none by (auto simp: attempt_rollback_def)
  with False have "attempt_rollback env ca snap mode hv = Some (requires_rollback mode \<and> xr_pre_call_memory r \<noteq> None, hv)"
    by auto
  then show thesis by (rule that) (use False inv in auto)
qed

lemma finish_failure_returns:
  assumes inv: "hv_inv env g hv" and none: "snap = None \<longleftrightarrow> xr_pre_call_memory r = None"
    and some: "\<And>s mem. snap = Some s \<Longrightarrow> xr_pre_call_memory r = Some mem
      \<Longrightarrow> restores env (nx_snapshots hv) s mem (run_state r)"
    and mode: "xr_failure_mode r = Some mode \<or> xr_failure_mode r = None \<and> (\<exists>detail. mode = HostError detail)"
  obtains out hv' where "finish_failure env ca tool r snap resources mode hv = Some (Inr out, hv')" and "hv_inv env g hv'"
    and "verdict r out hv hv'" and "to_snapshot_id out = map_option runtime_snapshot_id snap"
proof -
  let ?b = "requires_rollback mode \<and> xr_pre_call_memory r \<noteq> None"
  obtain hv' where rb: "attempt_rollback env ca snap mode hv = Some (?b, hv')" and i: "hv_inv env g hv'"
    and lst: "if ?b then nx_last_rollback_memory hv' = xr_pre_call_memory r \<and> nx_last_rollback_state hv' = Some (run_state r)
         else hv' = hv"
    using attempt_rollback_returns [OF inv none some] by blast
  define el where "el = failure_log ca tool r resources mode hv"
  have el: "el_failure_mode el = mode" "el_description el = describe mode" by (simp_all add: el_def failure_log_def)
  define hv2 where "hv2 = hv'\<lparr>nx_telemetry := record_failure (ca_telemetry_now ca)
      (record_of_failure (ca_record_id ca) (ca_record_now ca) (tool_name tool) el
         (ca_duration_ms ca) (xr_fuel_consumed r)) (nx_telemetry hv')\<rparr>"
  have f: "finish_failure env ca tool r snap resources mode hv = Some (Inr (failure_output ca r snap el ?b), hv2)"
    by (simp add: finish_failure_def Let_def rb el_def hv2_def)
  have "hv_inv env g hv2" using i by (simp add: hv2_def hv_inv_def)
  moreover have "verdict r (failure_output ca r snap el ?b) hv hv2"
    using lst mode el by (cases ?b) (auto simp: verdict_def failure_output_def hv2_def)
  ultimately show thesis by (rule that [OF f]) (simp add: failure_output_def)
qed

lemma conclude_returns:
  assumes inv: "hv_inv env g hv" and none: "snap = None \<longleftrightarrow> xr_pre_call_memory r = None"
    and some: "\<And>s mem. snap = Some s \<Longrightarrow> xr_pre_call_memory r = Some mem
      \<Longrightarrow> restores env (nx_snapshots hv) s mem (run_state r)"
  obtains out hv' where "conclude env ca tool r snap hv = Some (Inr out, hv')" and "hv_inv env g hv'"
    and "verdict r out hv hv'" and "to_snapshot_id out = map_option runtime_snapshot_id snap"
proof -
  obtain res v1 where 1: "current_resources (he_min_interval env) (ca_sampled ca) (nx_health hv) = (res, v1)" by fastforce
  obtain h v2 where 2: "validate_health (he_min_interval env) (ca_validated ca) v1 = (h, v2)" by fastforce
  obtain c v3 where 3: "check_corruption (he_min_interval env) (ca_checked ca) v2 = (c, v3)" by fastforce
  define hv1 where "hv1 = hv\<lparr>nx_health := v3\<rparr>"
  have i: "hv_inv env g hv1" using inv by (simp add: hv1_def hv_inv_def)
  have s1: "restores env (nx_snapshots hv1) s mem (run_state r)"
    if "snap = Some s" "xr_pre_call_memory r = Some mem" for s mem
    using some [OF that] by (simp add: hv1_def)
  have v: "verdict r out hv1 hv' = verdict r out hv hv'" for out hv' by (simp add: verdict_def hv1_def)
  note out = that
  show thesis
  proof (cases "reconcile (xr_failure_mode r) c h")
    case None
    obtain t where c: "conclude env ca tool r snap hv = Some (Inr (success_output ca r snap), hv1\<lparr>nx_telemetry := t\<rparr>)"
      by (simp add: conclude_def 1 2 3 None Let_def finish_success_def hv1_def)
    show thesis
      by (rule out [OF c]) (use i reconcile_mode(2) [OF None] in
        \<open>simp_all add: hv_inv_def verdict_def success_output_def hv1_def\<close>)
  next
    case (Some mode)
    obtain x hv' where f: "finish_failure env ca tool r snap res mode hv1 = Some (Inr x, hv')" and p: "hv_inv env g hv'"
      "verdict r x hv1 hv'" "to_snapshot_id x = map_option runtime_snapshot_id snap"
      using finish_failure_returns [OF i none s1 reconcile_mode(1) [OF Some]] by blast
    have "conclude env ca tool r snap hv = Some (Inr x, hv')"
      using f by (simp add: conclude_def 1 2 3 Some Let_def hv1_def)
    then show thesis by (rule out) (use p v in simp_all)
  qed
qed

subsection \<open>One execution\<close>

lemma install_budget_keeps:
  "nx_capabilities (install_budget ca n hv) = nx_capabilities hv" "nx_snapshots (install_budget ca n hv) = nx_snapshots hv"
  "nx_pool (install_budget ca n hv) = nx_pool hv" "nx_config (install_budget ca n hv) = nx_config hv"
  "nx_last_rollback_memory (install_budget ca n hv) = nx_last_rollback_memory hv"
  "nx_last_rollback_state (install_budget ca n hv) = nx_last_rollback_state hv"
  "nx_fuel_policy (install_budget ca n hv) = nx_fuel_policy hv" "nx_telemetry (install_budget ca n hv) = nx_telemetry hv"
  by (simp_all add: install_budget_def Let_def)

text \<open>The state in which the guest runs.\<close>

definition ready :: "'m hv_env \<Rightarrow> call_inputs \<Rightarrow> tool_definition \<Rightarrow> 'm hypervisor \<Rightarrow> 'm hypervisor" where
  "ready env ca tool hv =
     (let hv1 = install_budget ca (tool_name tool) hv
      in hv1\<lparr>nx_health := start_execution (he_min_interval env) (ca_start ca) (nx_health hv1)\<rparr>)"

lemma ready_keeps [simp]:
  "nx_capabilities (ready env ca tool hv) = nx_capabilities hv" "nx_snapshots (ready env ca tool hv) = nx_snapshots hv"
  "nx_pool (ready env ca tool hv) = nx_pool hv"
  "nx_last_rollback_memory (ready env ca tool hv) = nx_last_rollback_memory hv"
  "nx_last_rollback_state (ready env ca tool hv) = nx_last_rollback_state hv"
  "nx_fuel_policy (ready env ca tool hv) = nx_fuel_policy hv" "nx_telemetry (ready env ca tool hv) = nx_telemetry hv"
  by (simp_all add: ready_def Let_def install_budget_keeps)

lemma execute_tool_inner_ready:
  assumes "authorize_call env (ca_now ca) tokens (required_capabilities tool) hv = Some (Inr u)"
  shows "execute_tool_inner env ca tool (Some bs) tokens pre rs hv =
     (case run_guest env ca tool [bs] pre rs (ready env ca tool hv) of
        None \<Rightarrow> None
      | Some (Inl e, hv3) \<Rightarrow> Some (Inl e, hv3)
      | Some (Inr r, hv3) \<Rightarrow>
          (let hv4 = hv3\<lparr>nx_fuel_policy := record_fuel (tool_name tool) (xr_fuel_consumed r) (nx_fuel_policy hv3)\<rparr>
           in case snapshot_run env ca tool (sha256_hex (he_snap env) bs) r hv4 of
                None \<Rightarrow> None
              | Some (Inl e, hv5) \<Rightarrow> Some (Inl e, hv5)
              | Some (Inr snap, hv5) \<Rightarrow> conclude env ca tool r snap hv5))"
  using assms by (simp add: execute_tool_inner_def ready_def Let_def)

lemma authorize_call_eq:
  assumes "reachable (manager_init (he_caps env)) (manager_step (he_caps env)) (nx_capabilities hv)"
  shows "authorize_call env now tokens required hv =
    Some (if \<forall>c \<in> set required. \<exists>t \<in> set tokens. validate (he_caps env) now (nx_capabilities hv) t c = Some (Inr ())
          then Inr () else Inl (CapabilityDenied ''no valid token grants {:?}''))"
  by (simp add: authorize_call_def authorize_eq [OF assms])

text \<open>Every execution ends in one of four ways: refused before anything runs, the pool refused the module,
  the snapshot could not be stored, or a verdict on the guest.\<close>

lemma execution_cases:
  assumes inv: "hv_inv env g hv" and fresh: "g (ce_id (ca_snap ca)) = None" and wt: "wt_ok (he_wt env)"
  obtains (refused) e where "execute_tool_inner env ca tool input tokens pre rs hv = Some (Inl e, hv)"
      "authorize_call env (ca_now ca) tokens (required_capabilities tool) hv = Some (Inl e) \<or> input = None"
  | (aborted) e hv' g' bs where "execute_tool_inner env ca tool input tokens pre rs hv = Some (Inl e, hv')"
      "hv_inv env g' hv'" "g \<subseteq>\<^sub>m g'" "dom g' \<subseteq> insert (ce_id (ca_snap ca)) (dom g)" "nx_telemetry hv' = nx_telemetry hv"
      "authorize_call env (ca_now ca) tokens (required_capabilities tool) hv = Some (Inr ())" "input = Some bs"
  | (concluded) bs r pool out hv' g' where "execute_tool_inner env ca tool input tokens pre rs hv = Some (Inr out, hv')"
      "hv_inv env g' hv'" "g \<subseteq>\<^sub>m g'" "dom g' \<subseteq> insert (ce_id (ca_snap ca)) (dom g)" "input = Some bs"
      "authorize_call env (ca_now ca) tokens (required_capabilities tool) hv = Some (Inr ())"
      "run_guest env ca tool [bs] pre rs (ready env ca tool hv) = Some (Inr r, (ready env ca tool hv)\<lparr>nx_pool := pool\<rparr>)"
      "\<exists>cfg. result_wf cfg r" "verdict r out hv hv'"
proof -
  have reach: "reachable (manager_init (he_caps env)) (manager_step (he_caps env)) (nx_capabilities hv)"
    using inv by (simp add: hv_inv_def)
  obtain a where a: "authorize_call env (ca_now ca) tokens (required_capabilities tool) hv = Some a"
    using authorize_call_eq [OF reach] by blast
  show thesis
  proof (cases "isl a \<or> input = None")
    case True
    then show thesis
    proof (cases a)
      case (Inl e)
      then show thesis using a by (intro refused [of e]) (simp_all add: execute_tool_inner_def)
    next
      case (Inr u)
      with True have "input = None" by simp
      then show thesis using a Inr
        by (intro refused [of "SerializationError ''failed to serialize tool input: {e}''"])
          (simp_all add: execute_tool_inner_def)
    qed
  next
    case False
    then obtain bs where bs: "input = Some bs" and a': "authorize_call env (ca_now ca) tokens (required_capabilities tool) hv = Some (Inr ())"
      using a by (cases a) auto
    note ex = execute_tool_inner_ready [OF a', of bs pre rs, folded bs]
    have pool: "case nx_pool (ready env ca tool hv) of None \<Rightarrow> True | Some p \<Rightarrow> 0 < available_permits p"
      using inv by (simp add: hv_inv_def)
    obtain x p where run: "run_guest env ca tool [bs] pre rs (ready env ca tool hv) = Some (x, (ready env ca tool hv)\<lparr>nx_pool := p\<rparr>)"
      and p: "case p of None \<Rightarrow> True | Some p \<Rightarrow> 0 < available_permits p"
      and len: "\<And>r mem. x = Inr r \<Longrightarrow> xr_pre_call_memory r = Some mem \<Longrightarrow> length mem \<le> 2 ^ 32"
      and wf: "\<And>r. x = Inr r \<Longrightarrow> \<exists>cfg. result_wf cfg r"
      using run_guest_returns [OF pool wt] by metis
    define hv3 where "hv3 = (ready env ca tool hv)\<lparr>nx_pool := p\<rparr>"
    have i3: "hv_inv env g hv3" using inv p by (simp add: hv3_def hv_inv_def)
    show thesis
    proof (cases x)
      case (Inl e)
      show thesis
        by (rule aborted [of e hv3 g bs]) (use ex run Inl i3 a' bs in \<open>auto simp: hv3_def\<close>)
    next
      case (Inr r)
      define hv4 where "hv4 = hv3\<lparr>nx_fuel_policy := record_fuel (tool_name tool) (xr_fuel_consumed r) (nx_fuel_policy hv3)\<rparr>"
      have i4: "hv_inv env g hv4" using i3 by (simp add: hv4_def hv_inv_def)
      obtain y hv5 g' where sr: "snapshot_run env ca tool (sha256_hex (he_snap env) bs) r hv4 = Some (y, hv5)"
        and i5: "hv_inv env g' hv5" and le: "g \<subseteq>\<^sub>m g'" and dm: "dom g' \<subseteq> insert (ce_id (ca_snap ca)) (dom g)"
        and k: "keeps hv4 hv5"
        and rst: "\<And>snap. y = Inr snap \<Longrightarrow> (snap = None \<longleftrightarrow> xr_pre_call_memory r = None)
          \<and> (\<forall>s mem. snap = Some s \<longrightarrow> xr_pre_call_memory r = Some mem \<longrightarrow> restores env (nx_snapshots hv5) s mem (run_state r))"
        using snapshot_run_returns [OF i4 fresh len [OF Inr]] by metis
      have tail: "execute_tool_inner env ca tool input tokens pre rs hv =
          (case y of Inl e \<Rightarrow> Some (Inl e, hv5) | Inr snap \<Rightarrow> conclude env ca tool r snap hv5)"
        using ex run Inr sr by (simp add: hv3_def [symmetric] hv4_def Let_def)
      have tele: "nx_telemetry hv5 = nx_telemetry hv" "nx_last_rollback_memory hv5 = nx_last_rollback_memory hv"
        "nx_last_rollback_state hv5 = nx_last_rollback_state hv"
        using k by (simp_all add: keeps_def hv4_def hv3_def)
      show thesis
      proof (cases y)
        case err: (Inl e)
        show thesis
          by (rule aborted [of e hv5 g' bs]) (use tail err i5 le dm tele a' bs in simp_all)
      next
        case ok: (Inr snap)
        obtain out hv' where c: "conclude env ca tool r snap hv5 = Some (Inr out, hv')" and i': "hv_inv env g' hv'"
          and v: "verdict r out hv5 hv'"
          using conclude_returns [OF i5] rst [OF ok] by metis
        have v': "verdict r out hv hv'" using v tele by (simp add: verdict_def)
        show thesis
          by (rule concluded [of out hv' g' bs r p]) (use tail ok c i' le dm bs a' run Inr wf v' in simp_all)
      qed
    qed
  qed
qed

lemma execution_returns:
  assumes "hv_inv env g hv" and "g (ce_id (ca_snap ca)) = None" and "wt_ok (he_wt env)"
  obtains res hv' g' where "execute_tool_inner env ca tool input tokens pre rs hv = Some (res, hv')"
    and "hv_inv env g' hv'" and "g \<subseteq>\<^sub>m g'" and "dom g' \<subseteq> insert (ce_id (ca_snap ca)) (dom g)"
  using assms
proof (cases rule: execution_cases [where tool = tool and input = input and tokens = tokens and pre = pre and rs = rs])
  case (refused e)
  show thesis by (rule that [OF refused(1) assms(1)]) auto
qed (rule that; assumption)+

lemma execute_tool_returns:
  assumes "hv_inv env g hv" and "g (ce_id (ca_snap ca)) = None" and "wt_ok (he_wt env)"
  shows "\<exists>res hv' g'. execute_tool_with_tokens env ca tool input tokens hv = Some (res, hv') \<and> hv_inv env g' hv'
    \<and> dom g' \<subseteq> insert (ce_id (ca_snap ca)) (dom g)"
  unfolding execute_tool_with_tokens_def
  by (rule execution_returns [OF assms, where tool = tool and input = input and tokens = tokens and pre = None and rs = None])
    blast

subsection \<open>Retries\<close>

lemma apply_feedback_keeps [simp]:
  "nx_capabilities (apply_feedback env fe b is hv) = nx_capabilities hv"
  "nx_snapshots (apply_feedback env fe b is hv) = nx_snapshots hv"
  "nx_pool (apply_feedback env fe b is hv) = nx_pool hv"
  by (auto simp: apply_feedback_def split: option.splits prod.splits)

lemma retry_returns:
  assumes "hv_inv env g hv" and "wt_ok (he_wt env)"
    and "\<And>k. attempt \<le> k \<Longrightarrow> k \<le> n \<Longrightarrow> g (ce_id (ca_snap (fst (ins k)))) = None"
    and "attempt + remaining \<le> n" and "inj_on (\<lambda>k. ce_id (ca_snap (fst (ins k)))) {..n}"
  shows "\<exists>res hv' g'. retry_loop env ins tool input tokens attempt remaining pend hv = Some (res, hv') \<and> hv_inv env g' hv'"
  using assms(1,3,4)
proof (induction remaining arbitrary: attempt pend hv g)
  case (0 attempt pend hv g)
  obtain res hv1 g1 where ex: "execute_tool_with_tokens env (fst (ins attempt)) tool input tokens hv = Some (res, hv1)"
    and i1: "hv_inv env g1 hv1"
    using execute_tool_returns [OF 0(1) 0(2) [OF order_refl] assms(2), of tool input tokens] 0(3) by auto
  then have "hv_inv env g1 (apply_feedback env fe b is hv1)" for fe b "is"
    by (rule_tac hv_inv_cong [OF i1]) simp_all
  then show ?case unfolding retry_loop.simps [of _ _ _ _ _ _ 0] using ex i1 by (cases res) (auto simp: Let_def)
next
  case (Suc j attempt pend hv g)
  obtain res hv1 g1 where ex: "execute_tool_with_tokens env (fst (ins attempt)) tool input tokens hv = Some (res, hv1)"
    and i1: "hv_inv env g1 hv1" and dm: "dom g1 \<subseteq> insert (ce_id (ca_snap (fst (ins attempt)))) (dom g)"
    using execute_tool_returns [OF Suc(2) Suc(3) [OF order_refl] assms(2), of tool input tokens] Suc(4) by auto
  have fr: "g1 (ce_id (ca_snap (fst (ins k)))) = None" if "Suc attempt \<le> k" "k \<le> n" for k
  proof -
    have "ce_id (ca_snap (fst (ins k))) \<noteq> ce_id (ca_snap (fst (ins attempt)))"
      using inj_onD [OF assms(5), of k attempt] that Suc(4) by auto
    then show ?thesis using dm Suc(3) [of k] that by (auto simp: domIff)
  qed
  have fb: "hv_inv env g1 (apply_feedback env fe b is hv1)" for fe b "is"
    by (rule hv_inv_cong [OF i1]) simp_all
  have IH: "\<exists>res hv' g'. retry_loop env ins tool input tokens (Suc attempt) j p h = Some (res, hv') \<and> hv_inv env g' hv'"
    if "hv_inv env g1 h" for p h
    using Suc.IH [OF that fr] Suc(4) by auto
  note step = retry_loop.simps [of env ins tool input tokens attempt "Suc j" pend hv]
  show ?case
  proof (cases res)
    case (Inl e)
    with ex IH [OF i1] show ?thesis by (simp add: step)
  next
    case (Inr out)
    define h where "h = (if 0 < attempt \<and> pend \<noteq> [] then apply_feedback env (snd (ins attempt)) (to_success out) pend hv1 else hv1)"
    have "hv_inv env g1 h" using fb i1 by (simp add: h_def)
    with ex Inr IH [OF this] show ?thesis by (auto simp: step Let_def h_def [symmetric])
  qed
qed

subsection \<open>A hypervisor\<close>

text \<open>A hypervisor with the default configuration, on a module with eight bytes of memory, whose run traps when
  \<open>sched\<close> is not zero.\<close>

definition small_wt :: "unit wasmtime" where
  "small_wt = demo_wt\<lparr>wt_instantiate := (\<lambda>_ _ fuel.
       Inr \<lparr>ws_instance = demo_instance\<lparr>wi_memory := Some [1, 2, 3, 4, 5, 6, 7, 8]\<rparr>, ws_fuel = Some fuel\<rparr>),
     wt_grow := (\<lambda>limit m n. if length m + n * 65536 \<le> min limit (2 ^ 32) then Some (m @ replicate (n * 65536) 0) else None)\<rparr>"

definition small_env :: "unit hv_env" where
  "small_env = \<lparr>he_wt = small_wt, he_snap = demo_snap_env, he_sha256 = (\<lambda>_. []), he_caps = demo_env,
     he_json = \<lparr>to_vec_pretty = (\<lambda>_. None), from_slice = (\<lambda>_. None)\<rparr>, he_min_interval = 0\<rparr>"

definition quiet_host :: host_reading where
  "quiet_host = \<lparr>hr_instant = 0, hr_cpu = Fin 0, hr_used = 0, hr_total = 0, hr_utc = 0\<rparr>"

definition small_call :: "nat \<Rightarrow> uuid \<Rightarrow> call_inputs" where
  "small_call sched i = \<lparr>ca_now = 20, ca_exec = demo_exec sched, ca_engine_ok = True, ca_panicked = False,
     ca_start = quiet_host, ca_sampled = quiet_host, ca_validated = quiet_host, ca_checked = quiet_host,
     ca_snap = demo_call i, ca_rollback_now = 21, ca_duration_ms = 2, ca_log_id = ''log'', ca_log_now = 21,
     ca_record_id = ''rec'', ca_record_now = 21, ca_telemetry_now = 21\<rparr>"

definition small_hv :: "unit hypervisor" where
  "small_hv = projr (hypervisor_new (he_json small_env) None [] [] [] True True default_hypervisor_config)"

definition small_tool :: tool_definition where
  "small_tool = tool_new ''t'' [0]"

lemma small_wt_ok: "wt_ok (he_wt small_env)"
  by (auto simp: wt_ok_def small_env_def small_wt_def demo_wt_def demo_instance_def split: if_splits)

lemma small_hv_fields:
  "nx_capabilities small_hv = manager_from_keys [] []" "nx_snapshots small_hv = sm_new 100" "nx_pool small_hv = None"
  "nx_config small_hv = default_hypervisor_config" "nx_sandbox small_hv = default_sandbox_config" "nx_disk small_hv = []"
  "nx_fuel_policy small_hv = policy_new (max_fuel default_sandbox_config)" "nx_latest small_hv = None"
  by (simp_all add: small_hv_def hypervisor_new_def default_hypervisor_config_def recovery_from_config_def)

lemma small_hv_inv: "hv_inv small_env Map.empty small_hv"
proof -
  have "reachable (manager_init demo_env) (manager_step demo_env) (manager_from_keys [] [])"
    by (rule reach_init) (auto simp: manager_init_def demo_env_ok)
  moreover have "store_inv demo_snap_env (sm_new 100, Map.empty)"
    by (rule snapstore.init_inv) (auto simp: store_init_def)
  ultimately show ?thesis by (simp add: hv_inv_def small_hv_fields small_env_def)
qed

subsection \<open>Properties\<close>

text \<open>
  C4: Nothing runs without authorization: on a hypervisor whose capability manager is in a reachable
  state, an execution (plain, precompiled, pooled or from a snapshot) either is refused with a denial
  that leaves the whole state as it was, or every capability the tool requires is granted by a token of
  the caller that validates at that moment.
\<close>

theorem execution_needs_authorization:
  assumes "reachable (manager_init (he_caps env)) (manager_step (he_caps env)) (nx_capabilities hv)"
  shows "execute_tool_inner env ca tool input tokens pre rs hv = Some (Inl (CapabilityDenied ''no valid token grants {:?}''), hv)
    \<and> execute_tool_from_snapshot_with_tokens env ca (ca_now ca) i tool input tokens hv
        = Some (Inl (CapabilityDenied ''no valid token grants {:?}''), hv)
    \<or> (\<forall>c \<in> set (required_capabilities tool). \<exists>t \<in> set tokens.
        validate (he_caps env) (ca_now ca) (nx_capabilities hv) t c = Some (Inr ()))"
  by (simp add: execute_tool_inner_def execute_tool_from_snapshot_with_tokens_def authorize_call_eq [OF assms])

theorem execution_needs_authorization_witness:
  "execute_tool_inner small_env (small_call 0 1) (small_tool\<lparr>required_capabilities := [MemoryRecall]\<rparr>) (Some []) [] None None small_hv
    = Some (Inl (CapabilityDenied ''no valid token grants {:?}''), small_hv)"
proof -
  have "reachable (manager_init (he_caps small_env)) (manager_step (he_caps small_env)) (nx_capabilities small_hv)"
    using small_hv_inv by (simp add: hv_inv_def)
  from execution_needs_authorization [OF this, of "small_call 0 1" "small_tool\<lparr>required_capabilities := [MemoryRecall]\<rparr>"
      "Some []" "[]" None None 0]
  show ?thesis by simp
qed

text \<open>
  C14: Every execution returns, with or without retries, on every build of the hypervisor (per-call sandbox
  or pool, full or differential snapshots): from a state that satisfies the invariant, with fresh snapshot
  ids, \<open>execute_with_retry\<close> ends with a result, and the invariant holds again.
\<close>

theorem executions_return:
  assumes "hv_inv env g hv" and "wt_ok (he_wt env)"
    and "\<And>k. g (ce_id (ca_snap (fst (ins k)))) = None"
    and "inj_on (\<lambda>k. ce_id (ca_snap (fst (ins k)))) {..unat (max_retries (nx_config hv))}"
  shows "\<exists>res hv' g'. execute_with_retry_with_tokens env ins tool input tokens hv = Some (res, hv') \<and> hv_inv env g' hv'"
  unfolding execute_with_retry_with_tokens_def by (rule retry_returns [OF assms(1,2) _ _ assms(4)]) (use assms(3) in simp_all)

theorem executions_return_witness:
  "\<exists>res hv' g'. execute_with_retry_with_tokens small_env (\<lambda>k. (small_call 1 (word_of_nat k), [])) small_tool (Some []) [] small_hv
     = Some (res, hv') \<and> hv_inv small_env g' hv'"
proof (rule executions_return [OF small_hv_inv small_wt_ok])
  have "{..unat (max_retries (nx_config small_hv))} = {0, 1, 2, 3}"
    by (auto simp: small_hv_fields default_hypervisor_config_def)
  then show "inj_on (\<lambda>k. ce_id (ca_snap (fst (small_call 1 (word_of_nat k), [])))) {..unat (max_retries (nx_config small_hv))}"
    by (simp add: small_call_def demo_call_def)
qed simp


text \<open>A trap: the run fails, and the memory captured before the call is the one to restore.\<close>

definition small_result :: "sandbox_config \<Rightarrow> execution_result" where
  "small_result cfg = projr (execute_module_inner small_wt (demo_exec 1) cfg () [[]] None ''_start'')"

lemma small_result_eq:
  "execute_module_inner small_wt (demo_exec 1) cfg () [[]] None ''_start'' = Inr (small_result cfg)"
  "xr_failure_mode (small_result cfg) = Some TrapUnreachable"
  "xr_pre_call_memory (small_result cfg) = Some [1, 2, 3, 4, 5, 6, 7, 8]"
  by (simp_all add: small_result_def execute_module_inner_def worker_def demo_exec_def small_wt_def demo_wt_def
      demo_instance_def seed_instance_def resolve_entry_def xr_defs call_failure_mode_def is_epoch_interrupt_def
      from_anyhow_error_def Let_def first_arg_def)

lemma small_sel:
  "he_wt small_env = small_wt" "he_snap small_env = demo_snap_env" "ca_exec (small_call sched i) = demo_exec sched"
  "wasm_bytes small_tool = [0]" "entry_point small_tool = ''_start''" "required_capabilities small_tool = []"
  "wt_from_binary small_wt [0] = Inr ()" "tool_name small_tool = ''t''" "ca_engine_ok (small_call sched i)"
  by (simp_all add: small_env_def small_call_def small_tool_def tool_new_def small_wt_def demo_wt_def)

lemma small_run:
  assumes "nx_pool hv = None"
  shows "run_guest small_env (small_call 1 1) small_tool [[]] pre None hv = Some (Inr (small_result (nx_sandbox hv)), hv)"
  using small_result_eq(1) assms
  by (cases pre) (simp_all add: run_guest_def execute_with_entry_def execute_module_with_entry_def small_sel)

text \<open>With full snapshots, no persistence and a compressor that succeeds, the snapshot of a run is stored.\<close>

lemma snapshot_run_stored:
  assumes "snapshot_strategy (nx_config hv) = FullStrategy" and "\<not> persist_enabled (nx_snapshots hv)"
    and "xr_pre_call_memory r = Some mem" and "copy_encode (zstd (he_snap env)) 3 mem \<noteq> None"
  shows "\<exists>s hv'. snapshot_run env ca tool ihash r hv = Some (Inr (Some s), hv')"
  using assms by (auto simp: snapshot_run_def create_runtime_snapshot_def create_full_def create_snapshot_def snapshot_new_def Let_def)

lemma conclude_outputs: "conclude env ca tool r snap hv = Some (x, hv') \<Longrightarrow> \<exists>out. x = Inr out"
  by (auto simp: conclude_def finish_failure_def finish_success_def Let_def split: prod.splits option.splits)

lemma small_outputs:
  assumes inv: "hv_inv small_env Map.empty hv" and "nx_pool hv = None" and "snapshot_strategy (nx_config hv) = FullStrategy"
    and "\<not> persist_enabled (nx_snapshots hv)"
  obtains out hv' where "execute_tool_inner small_env (small_call 1 1) small_tool (Some []) [] pre None hv = Some (Inr out, hv')"
proof -
  let ?ca = "small_call 1 1"
  let ?rd = "ready small_env ?ca small_tool hv"
  let ?r = "small_result (nx_sandbox ?rd)"
  let ?ex = "execute_tool_inner small_env ?ca small_tool (Some []) [] pre None hv"
  define hv4 where "hv4 = ?rd\<lparr>nx_fuel_policy := record_fuel (tool_name small_tool) (xr_fuel_consumed ?r) (nx_fuel_policy ?rd)\<rparr>"
  have c4: "nx_config hv4 = nx_config hv" "nx_snapshots hv4 = nx_snapshots hv"
    by (simp_all add: hv4_def ready_def Let_def install_budget_keeps)
  have "\<exists>s hv5. snapshot_run small_env ?ca small_tool (sha256_hex (he_snap small_env) []) ?r hv4 = Some (Inr (Some s), hv5)"
    by (rule snapshot_run_stored [OF _ _ small_result_eq(3)]) (simp_all add: c4 assms small_sel)
  then obtain s hv5 where sr: "snapshot_run small_env ?ca small_tool (sha256_hex (he_snap small_env) []) ?r hv4
      = Some (Inr (Some s), hv5)" by blast
  have au: "authorize_call small_env (ca_now ?ca) [] (required_capabilities small_tool) hv = Some (Inr ())"
    by (simp add: authorize_call_def small_sel)
  have run: "run_guest small_env ?ca small_tool [[]] pre None ?rd = Some (Inr ?r, ?rd)"
    by (rule small_run) (simp add: assms(2))
  have co: "?ex = conclude small_env ?ca small_tool ?r (Some s) hv5"
    unfolding execute_tool_inner_ready [OF au] run using sr by (simp add: hv4_def Let_def)
  have fr: "Map.empty (ce_id (ca_snap ?ca)) = None" by simp
  obtain res hv' where rs: "?ex = Some (res, hv')" by (rule execution_returns [OF inv fr small_wt_ok])
  then show thesis using conclude_outputs [OF rs [unfolded co]] that by blast
qed

lemma small_hv_full: "snapshot_strategy (nx_config small_hv) = FullStrategy" "\<not> persist_enabled (nx_snapshots small_hv)"
  by (simp_all add: small_hv_fields default_hypervisor_config_def sm_new_def)


subsection \<open>The installed fuel budget\<close>

text \<open>What an execution leaves of the sandbox and the fuel profiles.\<close>

definition frame :: "'m hypervisor \<Rightarrow> 'm hypervisor \<Rightarrow> bool" where
  "frame hv hv' \<longleftrightarrow> nx_sandbox hv' = nx_sandbox hv \<and> nx_config hv' = nx_config hv \<and> (nx_pool hv' = None \<longleftrightarrow> nx_pool hv = None)
     \<and> nx_fuel_policy hv' = nx_fuel_policy hv"

lemma run_guest_frame: "run_guest env ca tool args pre rs hv = Some (r, hv') \<Longrightarrow> frame hv hv'"
  by (auto simp: run_guest_def frame_def split: option.splits)

lemma create_full_frame: "create_full env ce mem fs es md hv = (r, hv') \<Longrightarrow> frame hv hv'"
  by (auto simp: create_full_def frame_def split: prod.splits sum.splits)

lemma snapshot_run_frame: "snapshot_run env ca tool h r hv = Some (x, hv') \<Longrightarrow> frame hv hv'"
  by (auto simp: snapshot_run_def create_runtime_snapshot_def frame_def Let_def
      dest!: create_full_frame split: option.splits sum.splits prod.splits snapshot_strategy.splits diff_snapshot_result.splits)

lemma attempt_rollback_frame: "attempt_rollback env ca snap mode hv = Some (b, hv') \<Longrightarrow> frame hv hv'"
  by (auto simp: attempt_rollback_def rollback_runtime_snapshot_def cache_rollback_result_def frame_def
      split: if_splits option.splits sum.splits prod.splits)

lemma conclude_frame: "conclude env ca tool r snap hv = Some (x, hv') \<Longrightarrow> frame hv hv'"
  by (auto simp: conclude_def finish_failure_def finish_success_def Let_def frame_def
      dest!: attempt_rollback_frame split: prod.splits option.splits)

lemma execution_frame:
  assumes "execute_tool_inner env ca tool input tokens pre rs hv = Some (Inr out, hv')"
  shows "nx_sandbox hv' = nx_sandbox (install_budget ca (tool_name tool) hv)" and "nx_config hv' = nx_config hv"
    and "nx_pool hv' = None \<longleftrightarrow> nx_pool hv = None"
    and "\<exists>c. nx_fuel_policy hv' = record_fuel (tool_name tool) c (nx_fuel_policy hv)"
proof -
  obtain bs u where bs: "input = Some bs" and au: "authorize_call env (ca_now ca) tokens (required_capabilities tool) hv = Some (Inr u)"
    using assms by (auto simp: execute_tool_inner_def split: option.splits sum.splits)
  obtain r hv3 where run: "run_guest env ca tool [bs] pre rs (ready env ca tool hv) = Some (Inr r, hv3)"
    using assms unfolding bs execute_tool_inner_ready [OF au] by (auto split: option.splits sum.splits prod.splits)
  define hv4 where "hv4 = hv3\<lparr>nx_fuel_policy := record_fuel (tool_name tool) (xr_fuel_consumed r) (nx_fuel_policy hv3)\<rparr>"
  obtain snap hv5 where "snapshot_run env ca tool (sha256_hex (he_snap env) bs) r hv4 = Some (Inr snap, hv5)"
    and "conclude env ca tool r snap hv5 = Some (Inr out, hv')"
    using assms unfolding bs execute_tool_inner_ready [OF au] run
    by (auto simp: Let_def hv4_def split: option.splits sum.splits prod.splits)
  then have "frame hv4 hv'" by (auto dest!: snapshot_run_frame conclude_frame simp: frame_def)
  moreover have "frame (ready env ca tool hv) hv3" by (rule run_guest_frame [OF run])
  moreover have "nx_sandbox (ready env ca tool hv) = nx_sandbox (install_budget ca (tool_name tool) hv)"
    "nx_config (ready env ca tool hv) = nx_config hv"
    by (simp_all add: ready_def Let_def install_budget_keeps)
  ultimately show "nx_sandbox hv' = nx_sandbox (install_budget ca (tool_name tool) hv)" "nx_config hv' = nx_config hv"
    "nx_pool hv' = None \<longleftrightarrow> nx_pool hv = None"
    "\<exists>c. nx_fuel_policy hv' = record_fuel (tool_name tool) c (nx_fuel_policy hv)"
    by (auto simp: frame_def hv4_def)
qed

lemma budget_for_other: "t \<noteq> u \<Longrightarrow> budget_for (record_fuel t c p) u = budget_for p u"
  by (simp add: budget_for_def record_fuel_def Let_def hm_simps split: option.split)

text \<open>
  A tool may run under the fuel budget of another. The adaptive budget is installed only when it differs
  from the configured default, so after an execution of a tool with a budget of its own, a tool
  whose budget is the default runs under the first tool's budget: its own is not restored.
\<close>

lemma stale_fuel_budget:
  assumes "nx_pool hv = None" and "ca_engine_ok ca" and "tool_name first \<noteq> tool_name second"
    and "execute_tool_inner env ca first input tokens pre rs hv = Some (Inr out, hv1)"
    and "budget_for (nx_fuel_policy hv) (tool_name first) \<noteq> max_fuel (hy_sandbox_config (nx_config hv))"
    and "budget_for (nx_fuel_policy hv) (tool_name second) = max_fuel (hy_sandbox_config (nx_config hv))"
  shows "budget_for (nx_fuel_policy hv1) (tool_name second) = max_fuel (hy_sandbox_config (nx_config hv1))
    \<and> max_fuel (nx_sandbox (ready env ca2 second hv1)) = budget_for (nx_fuel_policy hv) (tool_name first)"
proof -
  note fr = execution_frame [OF assms(4)]
  have b: "budget_for (nx_fuel_policy hv1) (tool_name second) = max_fuel (hy_sandbox_config (nx_config hv))"
    using fr(4) budget_for_other [OF assms(3)] assms(6) by auto
  moreover have "nx_sandbox (ready env ca2 second hv1) = nx_sandbox hv1"
    by (simp add: ready_def Let_def install_budget_def fr(2) b)
  ultimately show ?thesis using assms(1,2,5) fr(1,2) by (simp add: install_budget_def Let_def)
qed

end
