(* ===== verification/Wasi.thy ===== *)
theory Wasi
  imports Execution
begin

text \<open>
  Executions with host imports: \<open>src/src/sandbox/wasi.rs\<close> and the two WASI entry points of
  \<open>src/src/hypervisor/mod.rs\<close>. Mounts are derived from capabilities or from an explicit
  configuration, authorized, prepared on the host's filesystem and handed to the guest as
  pre-opened directories.

  The host's filesystem is outside: its operations are the record \<open>host_fs\<close> over a state \<open>'f\<close>, read
  when the mounts are derived and again when they are prepared. wasmtime and its WASI context are the
  record \<open>wasi_wt\<close>. The worker's cancellation flag is set only after the caller has stopped
  waiting, so it does not bear on a reply. A \<open>PathBuf\<close> is the string it holds.
\<close>

subsection \<open>Configurations\<close>

record pre_open =
  host_path :: string
  guest_path :: string
  writable :: bool

datatype wasi_access = ReadOnly | ReadWrite

record wasi_mount =
  wm_host_path :: string
  wm_guest_path :: string
  wm_access :: wasi_access

record wasi_tool_config =
  mounts :: "wasi_mount list"
  wt_inherit_stdout :: bool
  wt_inherit_stderr :: bool
  wt_env_vars :: "(string \<times> string) list"
  wt_args :: "string list"

record wasi_sandbox_config =
  preopens :: "pre_open list"
  inherit_stdout :: bool
  inherit_stderr :: bool
  env_vars :: "(string \<times> string) list"
  wasi_args :: "string list"

record validated_wasi_tool_config =
  va_sandbox_config :: wasi_sandbox_config
  va_required_capabilities :: "capability list"

definition wasi_sandbox_default :: wasi_sandbox_config where
  "wasi_sandbox_default = \<lparr>preopens = [], inherit_stdout = False, inherit_stderr = False, env_vars = [], wasi_args = []\<rparr>"

definition wasi_tool_new :: wasi_tool_config where
  "wasi_tool_new = \<lparr>mounts = [], wt_inherit_stdout = False, wt_inherit_stderr = False, wt_env_vars = [], wt_args = []\<rparr>"

definition with_mount :: "string \<Rightarrow> string \<Rightarrow> wasi_access \<Rightarrow> wasi_tool_config \<Rightarrow> wasi_tool_config" where
  "with_mount hp gp access cfg =
     cfg\<lparr>mounts := mounts cfg @ [\<lparr>wm_host_path = hp, wm_guest_path = gp, wm_access = access\<rparr>]\<rparr>"

definition tool_inherit_stderr :: "wasi_tool_config \<Rightarrow> wasi_tool_config" where
  "tool_inherit_stderr cfg = cfg\<lparr>wt_inherit_stderr := True\<rparr>"

definition tool_inherit_stdout :: "wasi_tool_config \<Rightarrow> wasi_tool_config" where
  "tool_inherit_stdout cfg = cfg\<lparr>wt_inherit_stdout := True\<rparr>"

subsection \<open>Guest paths\<close>

fun guest_parts :: "path_component list \<Rightarrow> string list \<Rightarrow> string list result" where
  "guest_parts [] parts = Inr parts"
| "guest_parts (RootDir # cs) parts = guest_parts cs parts"
| "guest_parts (Normal part # cs) parts =
     (if part = [] \<or> part = ''.'' \<or> part = ''..''
      then Inl (ConfigError ''WASI guest path contains invalid component: {path}'')
      else guest_parts cs (parts @ [part]))"
| "guest_parts (_ # cs) parts = Inl (ConfigError ''WASI guest path contains traversal or prefix component: {path}'')"

definition normalize_guest_path :: "string \<Rightarrow> string result" where
  "normalize_guest_path path =
     (if path = [] \<or> \<not> starts_with path ''/''
      then Inl (ConfigError ''WASI guest path must be absolute: {path}'')
      else if CHR 0x00 \<in> set path \<or> CHR 0x5C \<in> set path \<or> str_contains path ''//''
      then Inl (ConfigError ''WASI guest path contains invalid characters: {path}'')
      else case guest_parts (components path) [] of
             Inl e \<Rightarrow> Inl e
           | Inr parts \<Rightarrow>
               (if parts = [] then Inl (ConfigError ''WASI guest path cannot be root'')
                else Inr (''/'' @ join_with ''/'' parts)))"

definition guest_path_overlaps :: "string \<Rightarrow> string \<Rightarrow> bool" where
  "guest_path_overlaps left right \<longleftrightarrow>
     left = right
     \<or> (case strip_prefix right left of Some rest \<Rightarrow> starts_with rest ''/'' | None \<Rightarrow> False)
     \<or> (case strip_prefix left right of Some rest \<Rightarrow> starts_with rest ''/'' | None \<Rightarrow> False)"

text \<open>The loop of \<open>normalized_mounts\<close>; \<open>guests\<close> are the guest paths accepted so far.\<close>

fun normalize_loop :: "string list \<Rightarrow> wasi_mount list \<Rightarrow> wasi_mount list result" where
  "normalize_loop guests [] = Inr []"
| "normalize_loop guests (m # ms) =
     (case normalize_guest_path (wm_guest_path m) of
        Inl e \<Rightarrow> Inl e
      | Inr guest \<Rightarrow>
          (if guest \<in> set guests then Inl (ConfigError ''duplicate WASI guest path: {guest_path}'')
           else if list_ex (\<lambda>existing. guest_path_overlaps existing guest) guests
           then Inl (ConfigError ''overlapping WASI guest paths: {existing} and {guest_path}'')
           else case normalize_loop (guests @ [guest]) ms of
                  Inl e \<Rightarrow> Inl e
                | Inr rest \<Rightarrow> Inr (m\<lparr>wm_guest_path := guest\<rparr> # rest)))"

definition normalized_mounts :: "wasi_tool_config \<Rightarrow> wasi_mount list result" where
  "normalized_mounts cfg = normalize_loop [] (mounts cfg)"

subsection \<open>Host directories\<close>

record 'f host_fs =
  fs_exists :: "'f \<Rightarrow> string \<Rightarrow> bool"
  fs_is_dir :: "'f \<Rightarrow> string \<Rightarrow> bool"
  fs_canonicalize :: "'f \<Rightarrow> string \<Rightarrow> string option"
  fs_create_dir_all :: "'f \<Rightarrow> string \<Rightarrow> bool \<times> 'f"
  fs_current_dir :: "'f \<Rightarrow> string option"

definition canonicalize_existing_mount_dir :: "'f host_fs \<Rightarrow> 'f \<Rightarrow> string \<Rightarrow> string result" where
  "canonicalize_existing_mount_dir ops f path =
     (case fs_canonicalize ops f path of
        None \<Rightarrow> Inl (FilesystemError ''failed to canonicalize WASI mount directory {}: {e}'')
      | Some canonical \<Rightarrow>
          (if \<not> fs_is_dir ops f canonical
           then Inl (ConfigError ''WASI mount canonical host path is not a directory: {}'')
           else Inr canonical))"

definition absolute_mount_path :: "'f host_fs \<Rightarrow> 'f \<Rightarrow> string \<Rightarrow> string result" where
  "absolute_mount_path ops f path =
     (if starts_with path ''/'' then Inr path
      else case fs_current_dir ops f of
             None \<Rightarrow> Inl (FilesystemError ''failed to resolve current dir: {e}'')
           | Some cwd \<Rightarrow> Inr (path_join cwd path))"

text \<open>The walk to the nearest existing ancestor: \<open>cs\<close> are the components of \<open>anc\<close>, last first, and
  the result lists the missing names, innermost first.\<close>

fun missing_loop ::
  "'f host_fs \<Rightarrow> 'f \<Rightarrow> string \<Rightarrow> path_component list \<Rightarrow> string list \<Rightarrow> (string \<times> string list) result" where
  "missing_loop ops f anc cs missing =
     (if fs_exists ops f anc then Inr (anc, missing)
      else case cs of
             Normal name # rest \<Rightarrow> missing_loop ops f (render_path (rev rest)) rest (missing @ [name])
           | _ \<Rightarrow> Inl (FilesystemError ''failed to resolve WASI mount directory {} without creation''))"

declare missing_loop.simps [simp del]

definition required_capability_mount_dir :: "'f host_fs \<Rightarrow> 'f \<Rightarrow> string \<Rightarrow> string result" where
  "required_capability_mount_dir ops f path =
     (if fs_exists ops f path then canonicalize_existing_mount_dir ops f path
      else case absolute_mount_path ops f path of
             Inl e \<Rightarrow> Inl e
           | Inr absolute \<Rightarrow>
               (case missing_loop ops f absolute (rev (components absolute)) [] of
                  Inl e \<Rightarrow> Inl e
                | Inr (anc, missing) \<Rightarrow>
                    (case canonicalize_existing_mount_dir ops f anc of
                       Inl e \<Rightarrow> Inl e
                     | Inr resolved \<Rightarrow>
                         Inr (normalize_lexical_path (foldl path_push resolved (map Normal (rev missing)))))))"

definition prepare_mount_dir :: "'f host_fs \<Rightarrow> string \<Rightarrow> 'f \<Rightarrow> string result \<times> 'f" where
  "prepare_mount_dir ops path f =
     (if fs_exists ops f path \<and> \<not> fs_is_dir ops f path
      then (Inl (ConfigError ''WASI mount host path is not a directory: {}''), f)
      else case (if fs_exists ops f path then (True, f) else fs_create_dir_all ops f path) of
             (False, f') \<Rightarrow> (Inl (FilesystemError ''failed to create WASI mount directory {}: {e}''), f')
           | (True, f') \<Rightarrow> (canonicalize_existing_mount_dir ops f' path, f'))"

definition mount_capabilities :: "string \<Rightarrow> wasi_access \<Rightarrow> capability list" where
  "mount_capabilities hp access = ReadFile hp # (if access = ReadWrite then [WriteFile hp] else [])"

fun required_loop :: "'f host_fs \<Rightarrow> 'f \<Rightarrow> wasi_mount list \<Rightarrow> capability list result" where
  "required_loop ops f [] = Inr []"
| "required_loop ops f (m # ms) =
     (case required_capability_mount_dir ops f (wm_host_path m) of
        Inl e \<Rightarrow> Inl e
      | Inr hp \<Rightarrow>
          (case required_loop ops f ms of
             Inl e \<Rightarrow> Inl e
           | Inr caps \<Rightarrow> Inr (mount_capabilities hp (wm_access m) @ caps)))"

definition wasi_required_capabilities :: "'f host_fs \<Rightarrow> 'f \<Rightarrow> wasi_tool_config \<Rightarrow> capability list result" where
  "wasi_required_capabilities ops f cfg =
     (case normalized_mounts cfg of Inl e \<Rightarrow> Inl e | Inr ms \<Rightarrow> required_loop ops f ms)"

fun prepare_loop :: "'f host_fs \<Rightarrow> wasi_mount list \<Rightarrow> 'f \<Rightarrow> (pre_open list \<times> capability list) result \<times> 'f" where
  "prepare_loop ops [] f = (Inr ([], []), f)"
| "prepare_loop ops (m # ms) f =
     (case prepare_mount_dir ops (wm_host_path m) f of
        (Inl e, f') \<Rightarrow> (Inl e, f')
      | (Inr hp, f') \<Rightarrow>
          (case prepare_loop ops ms f' of
             (Inl e, f'') \<Rightarrow> (Inl e, f'')
           | (Inr (ps, caps), f'') \<Rightarrow>
               (Inr (\<lparr>host_path = hp, guest_path = wm_guest_path m, writable = (wm_access m = ReadWrite)\<rparr> # ps,
                     mount_capabilities hp (wm_access m) @ caps), f'')))"

definition prepare_mounts :: "'f host_fs \<Rightarrow> wasi_tool_config \<Rightarrow> 'f \<Rightarrow> validated_wasi_tool_config result \<times> 'f" where
  "prepare_mounts ops cfg f =
     (case normalized_mounts cfg of
        Inl e \<Rightarrow> (Inl e, f)
      | Inr ms \<Rightarrow>
          (case prepare_loop ops ms f of
             (Inl e, f') \<Rightarrow> (Inl e, f')
           | (Inr (ps, caps), f') \<Rightarrow>
               (Inr \<lparr>va_sandbox_config = \<lparr>preopens = ps, inherit_stdout = wt_inherit_stdout cfg,
                        inherit_stderr = wt_inherit_stderr cfg, env_vars = wt_env_vars cfg, wasi_args = wt_args cfg\<rparr>,
                     va_required_capabilities = caps\<rparr>, f')))"

subsection \<open>Mounts from capabilities\<close>

fun set_writable :: "string \<Rightarrow> pre_open list \<Rightarrow> pre_open list" where
  "set_writable path [] = []"
| "set_writable path (p # ps) =
     (if path_eq_std (host_path p) path then p\<lparr>writable := True\<rparr> # ps else p # set_writable path ps)"

definition add_capability :: "capability \<Rightarrow> wasi_sandbox_config \<Rightarrow> wasi_sandbox_config" where
  "add_capability cap config =
     (let add = (\<lambda>path. \<lparr>host_path = path, guest_path = path, writable = False\<rparr>);
          opened = (\<lambda>path. list_ex (\<lambda>p. path_eq_std (host_path p) path) (preopens config));
          read = (\<lambda>path. let path = normalize_lexical_path path in
             if opened path then config else config\<lparr>preopens := preopens config @ [add path]\<rparr>)
      in case cap of
           ReadFile path \<Rightarrow> read path
         | ListDirectory path \<Rightarrow> read path
         | WriteFile path \<Rightarrow>
             (let path = normalize_lexical_path path in
              if opened path then config\<lparr>preopens := set_writable path (preopens config)\<rparr>
              else config\<lparr>preopens := preopens config @ [(add path)\<lparr>writable := True\<rparr>]\<rparr>)
         | CapAll \<Rightarrow> config\<lparr>inherit_stdout := True, inherit_stderr := True\<rparr>
         | _ \<Rightarrow> config)"

definition from_capabilities :: "capability list \<Rightarrow> wasi_sandbox_config" where
  "from_capabilities caps = fold add_capability caps wasi_sandbox_default"

subsection \<open>Execution\<close>

datatype dir_perms = DirRead | DirAll

datatype file_perms = FileRead | FileAll

text \<open>The context \<open>WasiCtxBuilder\<close> builds: the streams, environment, arguments and directories with
  their permissions.\<close>

record wasi_ctx =
  cx_stdout :: bool
  cx_stderr :: bool
  cx_env :: "(string \<times> string) list"
  cx_args :: "string list"
  cx_dirs :: "(string \<times> string \<times> dir_perms \<times> file_perms) list"

record 'm wasi_wt =
  wa_preopened_dir :: "string \<times> string \<times> dir_perms \<times> file_perms \<Rightarrow> string option"
  wa_set_fuel :: "u64 \<Rightarrow> string option"
  wa_add_to_linker :: "string option"
  wa_instantiate :: "'m \<Rightarrow> wasi_ctx \<Rightarrow> nat \<Rightarrow> u64 \<Rightarrow> string + wasm_store"
  wa_call :: "nat \<Rightarrow> 'm \<Rightarrow> wasi_ctx \<Rightarrow> string \<Rightarrow> wasm_store \<Rightarrow> wasm_store \<times> call_error option"

datatype wasi_reply =
    WasiOk u64 "bytes option" "global_snapshot list" "table_snapshot list"
  | WasiFailed failure_mode u64 "bytes option" "global_snapshot list" "table_snapshot list"

definition preopen_entry :: "pre_open \<Rightarrow> string \<times> string \<times> dir_perms \<times> file_perms" where
  "preopen_entry p = (host_path p, guest_path p, if writable p then DirAll else DirRead,
     if writable p then FileAll else FileRead)"

fun open_dirs :: "'m wasi_wt \<Rightarrow> pre_open list \<Rightarrow> string option" where
  "open_dirs wa [] = None"
| "open_dirs wa (p # ps) =
     (case wa_preopened_dir wa (preopen_entry p) of
        Some e \<Rightarrow> Some (''preopened_dir '' @ debug_str (host_path p) @ '': '' @ e)
      | None \<Rightarrow> open_dirs wa ps)"

definition wasi_context :: "wasi_sandbox_config \<Rightarrow> wasi_ctx" where
  "wasi_context cfg = \<lparr>cx_stdout = inherit_stdout cfg, cx_stderr = inherit_stderr cfg, cx_env = env_vars cfg,
     cx_args = wasi_args cfg, cx_dirs = map preopen_entry (preopens cfg)\<rparr>"

definition wasi_failure_mode :: "exec_env \<Rightarrow> sandbox_config \<Rightarrow> call_error \<Rightarrow> failure_mode" where
  "wasi_failure_mode xe cfg e =
     (if is_epoch_interrupt e then timeout_mode (time_limit cfg) (xe_worker_elapsed xe)
      else case (case from_anyhow_error (err_chain e) of
                   Some m \<Rightarrow> m
                 | None \<Rightarrow> HostError (''wasm: '' @ err_display e)) of
             FuelExhausted _ \<Rightarrow> FuelExhausted (max_fuel cfg)
           | other \<Rightarrow> other)"

definition wasi_worker ::
  "'m wasi_wt \<Rightarrow> exec_env \<Rightarrow> sandbox_config \<Rightarrow> 'm \<Rightarrow> bytes \<Rightarrow> wasi_sandbox_config \<Rightarrow> wasi_reply" where
  "wasi_worker wa xe cfg md input_data wasi_config =
     (case open_dirs wa (preopens wasi_config) of
        Some msg \<Rightarrow> WasiFailed (HostError msg) 0 None [] []
      | None \<Rightarrow>
     (case wa_set_fuel wa (max_fuel cfg) of
        Some e \<Rightarrow> WasiFailed (HostError (''set_fuel: '' @ e)) 0 None [] []
      | None \<Rightarrow>
     (case wa_add_to_linker wa of
        Some e \<Rightarrow> WasiFailed (HostError (''WASI linker: '' @ e)) 0 None [] []
      | None \<Rightarrow>
     (case wa_instantiate wa md (wasi_context wasi_config) (max_memory_bytes cfg) (max_fuel cfg) of
        Inl e \<Rightarrow> WasiFailed (InvalidModule (''instantiate: '' @ e)) 0 None [] []
      | Inr store \<Rightarrow>
          (let inst = ws_instance store;
               pre_call_memory = wi_memory inst;
               ready = store\<lparr>ws_instance := inst\<lparr>wi_memory := write_input input_data (wi_memory inst)\<rparr>\<rparr>
           in case resolve_entry (wi_funcs inst) ''_start'' of
                None \<Rightarrow> WasiFailed (MissingEntrypoint ''_start'') 0 pre_call_memory [] []
              | Some f \<Rightarrow>
                  (case wa_call wa (xe_sched xe) md (wasi_context wasi_config) f ready of
                     (store', outcome) \<Rightarrow>
                       (let fuel_remaining = (case ws_fuel store' of Some r \<Rightarrow> r | None \<Rightarrow> 0);
                            fuel_consumed = saturating_sub (max_fuel cfg) fuel_remaining;
                            gs = capture_globals (wi_globals (ws_instance store'));
                            ts = capture_tables (wi_tables (ws_instance store'))
                        in case outcome of
                             None \<Rightarrow> WasiOk fuel_consumed pre_call_memory gs ts
                           | Some e \<Rightarrow>
                               (if str_contains (err_display e) ''exit status 0''
                                then WasiOk fuel_consumed pre_call_memory gs ts
                                else WasiFailed (wasi_failure_mode xe cfg e) fuel_consumed pre_call_memory gs ts))))))))"

definition execute_wasi_module ::
  "'m wasi_wt \<Rightarrow> exec_env \<Rightarrow> sandbox_config \<Rightarrow> 'm \<Rightarrow> bytes list \<Rightarrow> wasi_sandbox_config \<Rightarrow> execution_result result" where
  "execute_wasi_module wa xe cfg md args wasi_config =
     (let duration_ms = word_of_nat (as_millis (xe_recv_elapsed xe))
      in case xe_recv xe of
           Replied \<Rightarrow>
             (case wasi_worker wa xe cfg md (first_arg args) wasi_config of
                WasiOk fuel mem gs ts \<Rightarrow>
                  Inr (xr_with_post_call_state gs ts
                        (xr_with_pre_call_memory mem (xr_of_success [] fuel duration_ms)))
              | WasiFailed mode fuel mem gs ts \<Rightarrow>
                  Inr (xr_with_post_call_state gs ts
                        (xr_with_pre_call_memory mem (failure_from_mode mode fuel duration_ms))))
         | RecvTimeout \<Rightarrow>
             Inr (failure_from_mode (timeout_mode (time_limit cfg) (xe_end_elapsed xe)) 0 duration_ms)
         | RecvDisconnected \<Rightarrow>
             Inr (failure_from_mode (HostError ''WASI worker disconnected before sending result'') 0 duration_ms))"

definition execute_wasi ::
  "'m wasmtime \<Rightarrow> 'm wasi_wt \<Rightarrow> exec_env \<Rightarrow> sandbox_config \<Rightarrow> bytes \<Rightarrow> bytes list \<Rightarrow> wasi_sandbox_config
   \<Rightarrow> execution_result result" where
  "execute_wasi wt wa xe cfg bs args wasi_config =
     (case wt_from_binary wt bs of
        Inl e \<Rightarrow> Inr (failure_from_mode (InvalidModule e) 0 (word_of_nat (as_millis (xe_compile_elapsed xe))))
      | Inr md \<Rightarrow> execute_wasi_module wa xe cfg md args wasi_config)"

subsection \<open>The hypervisor's WASI executions\<close>

text \<open>What both entry points do once the guest is allowed to run.\<close>

definition wasi_mode :: "execution_result \<Rightarrow> failure_mode" where
  "wasi_mode r = (case xr_failure_mode r of Some m \<Rightarrow> m | None \<Rightarrow> HostError ''unknown WASI error'')"

definition wasi_output :: "call_inputs \<Rightarrow> execution_result \<Rightarrow> tool_output" where
  "wasi_output ca r =
     \<lparr>to_success = xr_success r, to_result = (if xr_success r then xr_return_value r else None),
      to_error = (if xr_success r then None else Some (describe (wasi_mode r))), to_rollback_performed = False,
      to_execution_time_ms = ca_duration_ms ca, to_fuel_consumed = xr_fuel_consumed r, to_error_log = None,
      to_snapshot_id = None\<rparr>"

definition run_wasi ::
  "'m hv_env \<Rightarrow> 'm wasi_wt \<Rightarrow> call_inputs \<Rightarrow> tool_definition \<Rightarrow> bytes \<Rightarrow> wasi_sandbox_config \<Rightarrow> 'm hypervisor
   \<Rightarrow> tool_output result \<times> 'm hypervisor" where
  "run_wasi env wa ca tool input_bytes wasi_config hv =
     (let hv1 = hv\<lparr>nx_health := start_execution (he_min_interval env) (ca_start ca) (nx_health hv)\<rparr>
      in case execute_wasi (he_wt env) wa (ca_exec ca) (nx_sandbox hv1) (wasm_bytes tool) [input_bytes] wasi_config of
           Inl e \<Rightarrow> (Inl e, hv1)
         | Inr r \<Rightarrow>
             (case current_resources (he_min_interval env) (ca_sampled ca) (nx_health hv1) of
                (resources, v) \<Rightarrow>
                  (let hv2 = hv1\<lparr>nx_fuel_policy := record_fuel (tool_name tool) (xr_fuel_consumed r) (nx_fuel_policy hv1),
                               nx_health := v\<rparr>
                   in (Inr (wasi_output ca r),
                       if xr_success r
                       then hv2\<lparr>nx_telemetry := record_success (ca_telemetry_now ca)
                              (record_of_success (ca_record_id ca) (ca_record_now ca) (tool_name tool) (ca_duration_ms ca)
                                 (xr_fuel_consumed r) resources) (nx_telemetry hv2)\<rparr>
                       else hv2\<lparr>nx_telemetry := record_failure (ca_telemetry_now ca)
                              (record_of_failure (ca_record_id ca) (ca_record_now ca) (tool_name tool)
                                 (error_log_new (ca_log_id ca) (ca_log_now ca) (tool_name tool) (wasi_mode r) resources)
                                 (ca_duration_ms ca) (xr_fuel_consumed r)) (nx_telemetry hv2)\<rparr>))))"

definition execute_tool_wasi ::
  "'m hv_env \<Rightarrow> 'm wasi_wt \<Rightarrow> call_inputs \<Rightarrow> tool_definition \<Rightarrow> bytes option \<Rightarrow> capability_token list \<Rightarrow> 'm hypervisor
   \<Rightarrow> (tool_output result \<times> 'm hypervisor) option" where
  "execute_tool_wasi env wa ca tool input tokens hv =
     (case authorize_call env (ca_now ca) tokens (required_capabilities tool) hv of
        None \<Rightarrow> None
      | Some (Inl e) \<Rightarrow> Some (Inl e, hv)
      | Some (Inr _) \<Rightarrow>
          (case input of
             None \<Rightarrow> Some (Inl (SerializationError ''failed to serialize tool input: {e}''), hv)
           | Some input_bytes \<Rightarrow>
               Some (run_wasi env wa ca tool input_bytes (from_capabilities (required_capabilities tool)) hv)))"

text \<open>\<open>f\<close> is the filesystem when the mounts are derived, \<open>f'\<close> when they are prepared.\<close>

definition execute_tool_wasi_with_config ::
  "'m hv_env \<Rightarrow> 'm wasi_wt \<Rightarrow> 'f host_fs \<Rightarrow> 'f \<Rightarrow> 'f \<Rightarrow> call_inputs \<Rightarrow> tool_definition \<Rightarrow> bytes option
   \<Rightarrow> capability_token list \<Rightarrow> wasi_tool_config \<Rightarrow> 'm hypervisor \<Rightarrow> (tool_output result \<times> 'm hypervisor \<times> 'f) option" where
  "execute_tool_wasi_with_config env wa ops f f' ca tool input tokens cfg hv =
     (case wasi_required_capabilities ops f cfg of
        Inl e \<Rightarrow> Some (Inl e, hv, f)
      | Inr mount_caps \<Rightarrow>
     (case authorize_call env (ca_now ca) tokens (required_capabilities tool @ mount_caps) hv of
        None \<Rightarrow> None
      | Some (Inl e) \<Rightarrow> Some (Inl e, hv, f)
      | Some (Inr _) \<Rightarrow>
     (case prepare_mounts ops cfg f' of
        (Inl e, f2) \<Rightarrow> Some (Inl e, hv, f2)
      | (Inr validated, f2) \<Rightarrow>
          (case input of
             None \<Rightarrow> Some (Inl (SerializationError ''failed to serialize tool input: {e}''), hv, f2)
           | Some input_bytes \<Rightarrow>
               (case run_wasi env wa ca tool input_bytes (va_sandbox_config validated) hv of
                  (r, hv') \<Rightarrow> Some (r, hv', f2))))))"

subsection \<open>Guest paths are disjoint\<close>

lemma guest_parts_Inr:
  "guest_parts cs acc = Inr parts \<Longrightarrow>
     \<exists>ns. parts = acc @ ns \<and> filter (\<lambda>c. c \<noteq> RootDir) cs = map Normal ns \<and> (\<forall>n \<in> set ns. n \<noteq> [] \<and> n \<noteq> ''.'' \<and> n \<noteq> ''..'')"
proof (induction cs acc rule: guest_parts.induct)
  case (3 part cs acc)
  then obtain ns where "part \<noteq> []" "part \<noteq> ''.''" "part \<noteq> ''..''" "parts = (acc @ [part]) @ ns"
    "filter (\<lambda>c. c \<noteq> RootDir) cs = map Normal ns" "\<forall>n \<in> set ns. n \<noteq> [] \<and> n \<noteq> ''.'' \<and> n \<noteq> ''..''"
    by (auto split: if_splits)
  then show ?case by (intro exI [of _ "part # ns"]) auto
qed auto

lemma components_Normal: "Normal n \<in> set (components p) \<Longrightarrow> name_ok n"
  using split_char_pieces [of _ "CHR ''/''" p]
  by (auto simp: components_def Let_def name_ok_def split: if_splits)

text \<open>An accepted guest path is the rendering of a nonempty list of plain names.\<close>

definition guest_form :: "string \<Rightarrow> string list \<Rightarrow> bool" where
  "guest_form g ns \<longleftrightarrow> ns \<noteq> [] \<and> (\<forall>n \<in> set ns. name_ok n) \<and> g = concat (map (\<lambda>n. ''/'' @ n) ns)"

lemma normalize_guest_form:
  assumes "normalize_guest_path p = Inr g"
  obtains ns where "guest_form g ns" and "components p = RootDir # map Normal ns"
proof -
  obtain parts where gp: "guest_parts (components p) [] = Inr parts" and ne: "parts \<noteq> []"
    and g: "g = ''/'' @ join_with ''/'' parts" and root: "starts_with p ''/''"
    using assms by (auto simp: normalize_guest_path_def split: if_splits sum.splits)
  obtain ns where ns: "parts = ns" "filter (\<lambda>c. c \<noteq> RootDir) (components p) = map Normal ns"
    using guest_parts_Inr [OF gp] by auto
  have cs: "components p = RootDir # filter (\<lambda>c. c \<noteq> RootDir) (components p)"
    using root by (auto simp: components_def Let_def filter_concat comp_def intro!: arg_cong [where f = concat] filter_True)
  have "\<forall>n \<in> set ns. name_ok n"
  proof
    fix n assume "n \<in> set ns"
    then have "Normal n \<in> set (filter (\<lambda>c. c \<noteq> RootDir) (components p))" unfolding ns(2) by simp
    then show "name_ok n" using components_Normal by simp
  qed
  moreover have "g = concat (map (\<lambda>n. ''/'' @ n) ns)"
    using g ne ns(1) by (cases ns) (simp_all add: join_slash del: join_with.simps)
  ultimately show thesis using that ne ns cs by (simp add: guest_form_def)
qed

lemma guest_components: "guest_form g ns \<Longrightarrow> components g = RootDir # map Normal ns"
proof -
  assume g: "guest_form g ns"
  then have r: "rooted_form (RootDir # map Normal ns) ns" by (simp add: guest_form_def rooted_form_def)
  have ok: "\<forall>c \<in> set (map Normal ns). comp_ok c" using g by (auto simp: guest_form_def comp_ok_def)
  have "render_path (RootDir # map Normal ns) = ''/'' @ join_with ''/'' ns"
    using render_rooted [OF ok] by (simp add: comp_def)
  also have "\<dots> = g" using g by (cases ns) (simp_all add: guest_form_def join_slash del: join_with.simps)
  finally show ?thesis using components_render_rooted [OF r] by simp
qed

text \<open>Two guest paths neither of which overlaps the other name disjoint subtrees.\<close>

definition disjoint_paths :: "string \<Rightarrow> string \<Rightarrow> bool" where
  "disjoint_paths p q \<longleftrightarrow> \<not> path_starts_with p q \<and> \<not> path_starts_with q p"

lemma prefix_overlaps:
  assumes "guest_form g ns" and "guest_form h (ns @ ms)"
  shows "guest_path_overlaps g h" and "guest_path_overlaps h g"
proof -
  have h: "h = g @ concat (map (\<lambda>n. ''/'' @ n) ms)" using assms by (simp add: guest_form_def)
  then have sp: "strip_prefix h g = Some (concat (map (\<lambda>n. ''/'' @ n) ms))" by (simp add: strip_prefix_Some)
  show "guest_path_overlaps g h"
  proof (cases ms)
    case (Cons n ms')
    with sp show ?thesis by (simp add: guest_path_overlaps_def starts_with_def)
  qed (use h in \<open>simp add: guest_path_overlaps_def\<close>)
  then show "guest_path_overlaps h g" by (auto simp: guest_path_overlaps_def)
qed

lemma not_overlaps_disjoint:
  assumes "guest_form g ns" and "guest_form h ms" and "\<not> guest_path_overlaps g h"
  shows "disjoint_paths g h"
proof -
  have "\<not> prefix ns ms" "\<not> prefix ms ns"
    using prefix_overlaps assms by (metis prefix_def)+
  then show ?thesis
    by (simp add: disjoint_paths_def path_starts_with_def starts_with_iff guest_components [OF assms(1)]
        guest_components [OF assms(2)] prefix_map_rightE) (metis inj_onI map_injective path_component.inject prefix_def prefix_map_rightE)
qed

lemma normalize_loop_ConsE:
  assumes "normalize_loop guests (m # ms) = Inr ms'"
  obtains guest rest where "normalize_guest_path (wm_guest_path m) = Inr guest"
    and "\<forall>g \<in> set guests. \<not> guest_path_overlaps g guest" and "normalize_loop (guests @ [guest]) ms = Inr rest"
    and "ms' = m\<lparr>wm_guest_path := guest\<rparr> # rest"
  using assms by (auto simp: list_ex_iff split: sum.splits if_splits)

lemma normalize_loop_spec:
  assumes "normalize_loop guests ms = Inr ms'"
  shows "map (\<lambda>m. m\<lparr>wm_guest_path := []\<rparr>) ms' = map (\<lambda>m. m\<lparr>wm_guest_path := []\<rparr>) ms
    \<and> (\<forall>m \<in> set ms'. \<exists>ns. guest_form (wm_guest_path m) ns)
    \<and> (\<forall>g \<in> set guests. \<forall>m \<in> set ms'. \<not> guest_path_overlaps g (wm_guest_path m))
    \<and> sorted_wrt (\<lambda>m n. \<not> guest_path_overlaps (wm_guest_path m) (wm_guest_path n)) ms'"
  using assms
proof (induction ms arbitrary: guests ms')
  case (Cons m ms)
  from Cons.prems show ?case
  proof (cases rule: normalize_loop_ConsE)
    case (1 guest rest)
    obtain ns where "guest_form guest ns" using normalize_guest_form [OF 1(1)] by blast
    with Cons.IH [OF 1(3)] 1 show ?thesis by auto
  qed
qed simp

lemma normalized_mounts_disjoint:
  assumes "normalized_mounts cfg = Inr ms"
  shows "sorted_wrt disjoint_paths (map wm_guest_path ms)" and "map wm_host_path ms = map wm_host_path (mounts cfg)"
    and "map wm_access ms = map wm_access (mounts cfg)"
proof -
  note spec = normalize_loop_spec [OF assms [unfolded normalized_mounts_def]]
  have "sorted_wrt (\<lambda>m n. disjoint_paths (wm_guest_path m) (wm_guest_path n)) ms"
    by (rule sorted_wrt_mono_rel [where P = "\<lambda>m n. \<not> guest_path_overlaps (wm_guest_path m) (wm_guest_path n)"])
      (use spec not_overlaps_disjoint in blast)+
  then show "sorted_wrt disjoint_paths (map wm_guest_path ms)" by (simp add: sorted_wrt_map)
  have "map wm_host_path (map (\<lambda>m. m\<lparr>wm_guest_path := []\<rparr>) ms) = map wm_host_path (map (\<lambda>m. m\<lparr>wm_guest_path := []\<rparr>) (mounts cfg))"
    "map wm_access (map (\<lambda>m. m\<lparr>wm_guest_path := []\<rparr>) ms) = map wm_access (map (\<lambda>m. m\<lparr>wm_guest_path := []\<rparr>) (mounts cfg))"
    using spec(1) by simp_all
  then show "map wm_host_path ms = map wm_host_path (mounts cfg)" "map wm_access ms = map wm_access (mounts cfg)"
    by (simp_all add: comp_def)
qed

subsection \<open>Prepared mounts are the derived ones\<close>

lemma prepare_existing:
  assumes "fs_exists ops f path" and "prepare_mount_dir ops path f = (Inr hp, f')"
  shows "f' = f" and "required_capability_mount_dir ops f path = Inr hp"
  using assms by (auto simp: prepare_mount_dir_def required_capability_mount_dir_def split: if_splits)

lemma prepare_loop_ConsE:
  assumes "prepare_loop ops (m # ms) f = (Inr (ps, caps), f')"
  obtains hp f1 ps' caps' where "prepare_mount_dir ops (wm_host_path m) f = (Inr hp, f1)"
    and "prepare_loop ops ms f1 = (Inr (ps', caps'), f')"
    and "ps = \<lparr>host_path = hp, guest_path = wm_guest_path m, writable = (wm_access m = ReadWrite)\<rparr> # ps'"
    and "caps = mount_capabilities hp (wm_access m) @ caps'"
  using assms by (auto split: prod.splits sum.splits)

lemma prepare_loop_existing:
  assumes "\<forall>m \<in> set ms. fs_exists ops f (wm_host_path m)" and "prepare_loop ops ms f = (Inr (ps, caps), f')"
  shows "f' = f \<and> required_loop ops f ms = Inr caps \<and> map guest_path ps = map wm_guest_path ms
    \<and> map writable ps = map (\<lambda>m. wm_access m = ReadWrite) ms
    \<and> (\<forall>p \<in> set ps. ReadFile (host_path p) \<in> set caps \<and> (writable p \<longrightarrow> WriteFile (host_path p) \<in> set caps))"
  using assms
proof (induction ms arbitrary: ps caps)
  case (Cons m ms)
  from Cons.prems(2) show ?case
  proof (cases rule: prepare_loop_ConsE)
    case (1 hp f1 ps' caps')
    have f1: "f1 = f" and r: "required_capability_mount_dir ops f (wm_host_path m) = Inr hp"
      using prepare_existing [OF _ 1(1)] Cons.prems(1) by simp_all
    have "\<forall>m \<in> set ms. fs_exists ops f (wm_host_path m)" using Cons.prems(1) by simp
    from Cons.IH [OF this 1(2) [unfolded f1]] 1 r show ?thesis by (auto simp: mount_capabilities_def)
  qed
qed auto

text \<open>What a token grants at the time of a call.\<close>

definition granted :: "'m hv_env \<Rightarrow> call_inputs \<Rightarrow> capability_token list \<Rightarrow> 'm hypervisor \<Rightarrow> capability \<Rightarrow> bool" where
  "granted env ca tokens hv c \<longleftrightarrow>
     (\<exists>t \<in> set tokens. validate (he_caps env) (ca_now ca) (nx_capabilities hv) t c = Some (Inr ()))"

lemma authorize_call_granted:
  assumes "reachable (manager_init (he_caps env)) (manager_step (he_caps env)) (nx_capabilities hv)"
    and "authorize_call env (ca_now ca) tokens caps hv = Some (Inr u)" and "c \<in> set caps"
  shows "granted env ca tokens hv c"
  using assms(2,3) by (auto simp: authorize_call_eq [OF assms(1)] granted_def split: if_splits)

text \<open>
  C18: Explicit mounts are what was authorized. When every mount's host directory exists and the filesystem
  does not change under the call, a guest that runs under a mount configuration is given, one for each mount, directories
  for each of which a token grants reading and, if the mount is writable, writing; the guest paths name pairwise
  disjoint subtrees; and the call has left the filesystem alone before the guest starts.
\<close>

theorem wasi_mounts_authorized:
  assumes "reachable (manager_init (he_caps env)) (manager_step (he_caps env)) (nx_capabilities hv)"
    and "\<forall>m \<in> set (mounts cfg). fs_exists ops f (wm_host_path m)"
    and "execute_tool_wasi_with_config env wa ops f f ca tool input tokens cfg hv = Some (Inr out, hv', f')"
  shows "f' = f \<and> (\<exists>(v :: validated_wasi_tool_config) bs. input = Some bs \<and> run_wasi env wa ca tool bs (va_sandbox_config v) hv = (Inr out, hv')
    \<and> map writable (preopens (va_sandbox_config v)) = map (\<lambda>m. wm_access m = ReadWrite) (mounts cfg)
    \<and> sorted_wrt disjoint_paths (map guest_path (preopens (va_sandbox_config v)))
    \<and> (\<forall>p \<in> set (preopens (va_sandbox_config v)). granted env ca tokens hv (ReadFile (host_path p))
         \<and> (writable p \<longrightarrow> granted env ca tokens hv (WriteFile (host_path p)))))"
proof -
  obtain caps u v bs where req: "wasi_required_capabilities ops f cfg = Inr caps"
    and au: "authorize_call env (ca_now ca) tokens (required_capabilities tool @ caps) hv = Some (Inr u)"
    and pr: "prepare_mounts ops cfg f = (Inr v, f')" and bs: "input = Some bs"
    and run: "run_wasi env wa ca tool bs (va_sandbox_config v) hv = (Inr out, hv')"
    using assms(3) by (auto simp: execute_tool_wasi_with_config_def split: sum.splits option.splits prod.splits)
  obtain ms where nm: "normalized_mounts cfg = Inr ms"
    using pr by (auto simp: prepare_mounts_def split: sum.splits)
  then obtain ps caps' where pl: "prepare_loop ops ms f = (Inr (ps, caps'), f')" and ps: "preopens (va_sandbox_config v) = ps"
    using pr by (auto simp: prepare_mounts_def split: sum.splits prod.splits)
  note dj = normalized_mounts_disjoint [OF nm]
  have ex: "\<forall>m \<in> set ms. fs_exists ops f (wm_host_path m)"
  proof
    fix m assume "m \<in> set ms"
    then have "wm_host_path m \<in> set (map wm_host_path ms)" by simp
    then show "fs_exists ops f (wm_host_path m)" using assms(2) unfolding dj(2) by auto
  qed
  note pe = prepare_loop_existing [OF ex pl]
  have "caps' = caps" using pe req nm by (simp add: wasi_required_capabilities_def)
  then have "\<forall>p \<in> set ps. granted env ca tokens hv (ReadFile (host_path p))
      \<and> (writable p \<longrightarrow> granted env ca tokens hv (WriteFile (host_path p)))"
    using pe authorize_call_granted [OF assms(1) au] by auto
  moreover have "map writable ps = map (\<lambda>m. wm_access m = ReadWrite) (mounts cfg)"
    using pe arg_cong [OF dj(3), of "map (\<lambda>a. a = ReadWrite)"] by (simp add: comp_def)
  ultimately show ?thesis using pe dj(1) run bs ps by (intro conjI exI [of _ v] exI [of _ bs]) simp_all
qed

subsection \<open>Mounts from capabilities are the capabilities\<close>

text \<open>The capabilities for a path, up to normalization.\<close>

fun names_path :: "capability \<Rightarrow> string option" where
  "names_path (ReadFile p) = Some p"
| "names_path (ListDirectory p) = Some p"
| "names_path (WriteFile p) = Some p"
| "names_path _ = None"

fun writes_path :: "capability \<Rightarrow> string option" where
  "writes_path (WriteFile p) = Some p"
| "writes_path _ = None"

text \<open>The pre-opened directories of a set of capabilities: each is the normalized path of one of them, it
  is writable exactly if a write capability names it, every capability has its directory, and no
  directory is opened twice.\<close>

definition opens_exactly :: "capability list \<Rightarrow> pre_open list \<Rightarrow> bool" where
  "opens_exactly caps ps \<longleftrightarrow>
     (\<forall>p \<in> set ps. guest_path p = host_path p
        \<and> (\<exists>c \<in> set caps. \<exists>q. names_path c = Some q \<and> host_path p = normalize_lexical_path q)
        \<and> (writable p \<longleftrightarrow> (\<exists>c \<in> set caps. \<exists>q. writes_path c = Some q \<and> host_path p = normalize_lexical_path q)))
     \<and> (\<forall>c \<in> set caps. \<forall>q. names_path c = Some q \<longrightarrow> normalize_lexical_path q \<in> host_path ` set ps)
     \<and> distinct (map host_path ps)"

lemma normalize_eq_std: "path_eq_std (normalize_lexical_path p) (normalize_lexical_path q) \<longleftrightarrow> normalize_lexical_path p = normalize_lexical_path q"
  by (metis components_normalize normalize_lexical_path_def path_eq_std_def)

lemma set_writable_map:
  "distinct (map host_path ps) \<Longrightarrow> \<forall>p \<in> set ps. path_eq_std (host_path p) path \<longleftrightarrow> host_path p = path
    \<Longrightarrow> set_writable path ps = map (\<lambda>p. if host_path p = path then p\<lparr>writable := True\<rparr> else p) ps"
proof (induction ps)
  case (Cons p ps)
  show ?case
  proof (cases "host_path p = path")
    case True
    then have "path \<notin> set (map host_path ps)" using Cons.prems(1) by auto
    then have "map (\<lambda>p. if host_path p = path then p\<lparr>writable := True\<rparr> else p) ps = ps" by (auto intro!: map_idI)
    with True Cons.prems show ?thesis by simp
  qed (use Cons in simp)
qed simp

text \<open>One more capability: without a path, for an open directory, or for a new one.\<close>

lemma opens_other: "opens_exactly caps ps \<Longrightarrow> names_path c = None \<Longrightarrow> writes_path c = None \<Longrightarrow> opens_exactly (caps @ [c]) ps"
  by (auto simp: opens_exactly_def)

lemma opens_open:
  "opens_exactly caps ps \<Longrightarrow> names_path c = Some q \<Longrightarrow> writes_path c = None \<Longrightarrow> normalize_lexical_path q \<in> host_path ` set ps
    \<Longrightarrow> opens_exactly (caps @ [c]) ps"
  by (auto simp: opens_exactly_def)

lemma opens_write:
  assumes "opens_exactly caps ps" and "normalize_lexical_path q \<in> host_path ` set ps"
  shows "opens_exactly (caps @ [WriteFile q]) (map (\<lambda>p. if host_path p = normalize_lexical_path q then p\<lparr>writable := True\<rparr> else p) ps)"
proof -
  let ?f = "\<lambda>p. if host_path p = normalize_lexical_path q then p\<lparr>writable := True\<rparr> else p"
  have h: "host_path (?f p) = host_path p" "guest_path (?f p) = guest_path p"
    "writable (?f p) \<longleftrightarrow> writable p \<or> host_path p = normalize_lexical_path q" for p by auto
  have m: "map host_path (map ?f ps) = map host_path ps" by (simp add: h comp_def)
  have im: "host_path ` set (map ?f ps) = host_path ` set ps" using arg_cong [OF m, of set] by (simp only: set_map)
  show ?thesis
    unfolding opens_exactly_def m im using assms
    by (auto simp: opens_exactly_def h(1,2) h(3) simp del: if_split)
qed

lemma opens_new:
  assumes "opens_exactly caps ps" and "names_path c = Some q" and "normalize_lexical_path q \<notin> host_path ` set ps"
  shows "opens_exactly (caps @ [c]) (ps @ [\<lparr>host_path = normalize_lexical_path q, guest_path = normalize_lexical_path q,
    writable = (writes_path c \<noteq> None)\<rparr>])"
proof -
  have w: "writes_path c = None \<or> writes_path c = Some q" using assms(2) by (cases c) simp_all
  have nw: "writes_path d = Some r \<Longrightarrow> names_path d = Some r" for d r by (cases d) simp_all
  let ?new = "\<lparr>host_path = normalize_lexical_path q, guest_path = normalize_lexical_path q, writable = (writes_path c \<noteq> None)\<rparr>"
  let ?ok = "\<lambda>caps p. guest_path p = host_path p
      \<and> (\<exists>c \<in> set caps. \<exists>q. names_path c = Some q \<and> host_path p = normalize_lexical_path q)
      \<and> (writable p \<longleftrightarrow> (\<exists>c \<in> set caps. \<exists>q. writes_path c = Some q \<and> host_path p = normalize_lexical_path q))"
  have "?ok (caps @ [c]) p" if "p \<in> set ps" for p
  proof -
    have "?ok caps p" using assms(1) that by (simp add: opens_exactly_def)
    moreover have "host_path p \<noteq> normalize_lexical_path q" using assms(3) that by (metis imageI)
    ultimately show ?thesis using w by auto
  qed
  moreover have "?ok (caps @ [c]) ?new"
  proof -
    have "\<not> (writes_path d = Some r \<and> normalize_lexical_path q = normalize_lexical_path r)" if "d \<in> set caps" for d r
      using assms(1,3) that nw by (auto simp: opens_exactly_def)
    then show ?thesis using assms(2) w by auto
  qed
  moreover have "normalize_lexical_path r \<in> host_path ` set (ps @ [?new])" if "d \<in> set (caps @ [c])" "names_path d = Some r" for d r
    using assms(1,2) that by (auto simp: opens_exactly_def)
  ultimately show ?thesis using assms(1,3) by (simp add: opens_exactly_def)
qed

lemma opens_exactly_step:
  assumes "opens_exactly caps (preopens cfg)"
  shows "opens_exactly (caps @ [c]) (preopens (add_capability c cfg))"
proof -
  have eq: "path_eq_std (host_path p) (normalize_lexical_path q) \<longleftrightarrow> host_path p = normalize_lexical_path q"
    if "p \<in> set (preopens cfg)" for p q
    using assms that normalize_eq_std by (auto simp: opens_exactly_def)
  have op: "list_ex (\<lambda>p. path_eq_std (host_path p) (normalize_lexical_path q)) (preopens cfg)
      \<longleftrightarrow> normalize_lexical_path q \<in> host_path ` set (preopens cfg)" for q
    using eq by (force simp: list_ex_iff)
  have wr: "set_writable (normalize_lexical_path q) (preopens cfg) =
      map (\<lambda>p. if host_path p = normalize_lexical_path q then p\<lparr>writable := True\<rparr> else p) (preopens cfg)" for q
    using assms eq by (intro set_writable_map) (auto simp: opens_exactly_def)
  note old = opens_open [OF assms] and new = opens_new [OF assms] and other = opens_other [OF assms]
  show ?thesis
  proof (cases c)
    case (ReadFile q)
    then show ?thesis using old [of c q] new [of c q] by (simp add: add_capability_def Let_def op)
  next
    case (ListDirectory q)
    then show ?thesis using old [of c q] new [of c q] by (simp add: add_capability_def Let_def op)
  next
    case (WriteFile q)
    then show ?thesis using opens_write [OF assms, of q] new [of c q] by (simp add: add_capability_def Let_def op wr)
  qed (use other [of c] in \<open>simp_all add: add_capability_def Let_def\<close>)
qed

lemma from_capabilities_exact: "opens_exactly caps (preopens (from_capabilities caps))"
proof (induction caps rule: rev_induct)
  case (snoc c caps)
  then show ?case using opens_exactly_step by (simp add: from_capabilities_def)
qed (simp add: opens_exactly_def from_capabilities_def wasi_sandbox_default_def)

text \<open>
  Directories from capabilities are what was authorized: a guest that runs through \<open>execute_tool_wasi\<close> is given
  exactly the directories the tool's file capabilities name after lexical normalization, each once; for each of
  them a token grants one of these capabilities, and a directory is writable exactly if a write capability names
  it, which a token then grants.
\<close>

lemma wasi_capabilities_confine:
  assumes "reachable (manager_init (he_caps env)) (manager_step (he_caps env)) (nx_capabilities hv)"
    and "execute_tool_wasi env wa ca tool input tokens hv = Some (Inr out, hv')"
  shows "\<exists>bs ps. input = Some bs \<and> ps = preopens (from_capabilities (required_capabilities tool))
    \<and> run_wasi env wa ca tool bs (from_capabilities (required_capabilities tool)) hv = (Inr out, hv')
    \<and> opens_exactly (required_capabilities tool) ps
    \<and> (\<forall>p \<in> set ps. (\<exists>c q. names_path c = Some q \<and> host_path p = normalize_lexical_path q \<and> granted env ca tokens hv c)
         \<and> (writable p \<longrightarrow> (\<exists>q. host_path p = normalize_lexical_path q \<and> granted env ca tokens hv (WriteFile q))))"
proof -
  let ?caps = "required_capabilities tool"
  obtain u bs where au: "authorize_call env (ca_now ca) tokens ?caps hv = Some (Inr u)" and bs: "input = Some bs"
    and run: "run_wasi env wa ca tool bs (from_capabilities ?caps) hv = (Inr out, hv')"
    using assms(2) by (auto simp: execute_tool_wasi_def split: sum.splits option.splits)
  note ex = from_capabilities_exact [of ?caps] and gr = authorize_call_granted [OF assms(1) au]
  have wf: "writes_path c = Some q \<longleftrightarrow> c = WriteFile q" for c q by (cases c) auto
  have "\<exists>c q. names_path c = Some q \<and> host_path p = normalize_lexical_path q \<and> granted env ca tokens hv c"
    "writable p \<longrightarrow> (\<exists>q. host_path p = normalize_lexical_path q \<and> granted env ca tokens hv (WriteFile q))"
    if "p \<in> set (preopens (from_capabilities ?caps))" for p
    using ex that gr unfolding opens_exactly_def wf by blast+
  with bs run ex show ?thesis by blast
qed

text \<open>Listing a directory is granted as reading the files in it: the two capabilities open the same
  directory with the same permissions, although the one does not allow the other.\<close>

lemma list_capability_reads_files:
  "from_capabilities [ListDirectory d] = from_capabilities [ReadFile d]"
  "\<not> cap_allows (ListDirectory d) (ReadFile d)"
  by (simp_all add: from_capabilities_def add_capability_def Let_def cap_allows_def)

text \<open>
  A failed run can be reported as a success: whatever went wrong in the guest, a trap included, the WASI path
  takes a rendered error that contains \<open>exit status 0\<close> for a clean exit. The rendering includes the
  function names of the module, which its author chooses.
\<close>

lemma wasi_trap_reported_as_success:
  assumes "required_capabilities tool = []" and "wt_from_binary (he_wt env) (wasm_bytes tool) = Inr md"
    and "wa_set_fuel wa (max_fuel (nx_sandbox hv)) = None" and "wa_add_to_linker wa = None"
    and "wa_instantiate wa md (wasi_context (from_capabilities [])) (max_memory_bytes (nx_sandbox hv)) (max_fuel (nx_sandbox hv))
      = Inr store"
    and "resolve_entry (wi_funcs (ws_instance store)) ''_start'' = Some f"
    and "\<And>s. snd (wa_call wa (xe_sched (ca_exec ca)) md (wasi_context (from_capabilities [])) f s) = Some e"
    and "str_contains (err_display e) ''exit status 0''" and "xe_recv (ca_exec ca) = Replied"
  shows "\<exists>out hv'. execute_tool_wasi env wa ca tool (Some bs) [] hv = Some (Inr out, hv')
    \<and> to_success out \<and> to_error out = None \<and> to_error_log out = None"
proof -
  have p: "preopens (from_capabilities []) = []" by (simp add: from_capabilities_def wasi_sandbox_default_def)
  define ready where "ready = store\<lparr>ws_instance := (ws_instance store)\<lparr>wi_memory :=
      write_input (first_arg [bs]) (wi_memory (ws_instance store))\<rparr>\<rparr>"
  obtain s' where c: "wa_call wa (xe_sched (ca_exec ca)) md (wasi_context (from_capabilities [])) f ready = (s', Some e)"
    using assms(7) [of ready] by (metis prod.collapse)
  then obtain fuel mem gs ts where
    w: "wasi_worker wa (ca_exec ca) (nx_sandbox hv) md (first_arg [bs]) (from_capabilities []) = WasiOk fuel mem gs ts"
    using assms(3-6,8) by (simp add: wasi_worker_def p Let_def ready_def)
  then show ?thesis using assms(1,2,9)
    by (simp add: execute_tool_wasi_def authorize_call_def run_wasi_def execute_wasi_def execute_wasi_module_def
        Let_def xr_defs wasi_output_def split: prod.split)
qed

subsection \<open>Witnesses\<close>

text \<open>A host with two directories, and a WASI engine whose guest traps in a function named after a clean exit.\<close>

definition demo_fs :: "unit host_fs" where
  "demo_fs = \<lparr>fs_exists = (\<lambda>_ p. p \<in> {''/d'', ''/d/a''}), fs_is_dir = (\<lambda>_ p. p \<in> {''/d'', ''/d/a''}),
     fs_canonicalize = (\<lambda>_ p. if p \<in> {''/d'', ''/d/a''} then Some p else None),
     fs_create_dir_all = (\<lambda>f _. (False, f)), fs_current_dir = (\<lambda>_. Some ''/'')\<rparr>"

definition demo_wasi :: "unit wasi_wt" where
  "demo_wasi = \<lparr>wa_preopened_dir = (\<lambda>_. None), wa_set_fuel = (\<lambda>_. None), wa_add_to_linker = None,
     wa_instantiate = (\<lambda>_ _ _ fuel. Inr \<lparr>ws_instance = demo_instance\<lparr>wi_memory := Some [1, 2, 3, 4]\<rparr>, ws_fuel = Some fuel\<rparr>),
     wa_call = (\<lambda>_ _ _ _ s. (s, Some \<lparr>err_chain = [None, Some UnreachableCodeReached], err_backtrace = None,
       err_display = ''0: 0x1e - <unknown>!exit status 0: wasm trap: unreachable''\<rparr>))\<rparr>"

text \<open>A tool that reads what the delegated token grants: its directory is mounted read-only.\<close>

definition token_hv :: "unit hypervisor" where
  "token_hv = small_hv\<lparr>nx_capabilities := demo_manager\<rparr>"

lemma token_hv_reachable:
  "reachable (manager_init (he_caps small_env)) (manager_step (he_caps small_env)) (nx_capabilities token_hv)"
  using demo_reachable by (simp add: token_hv_def small_env_def)

lemma token_authorizes: "authorize_call small_env (ca_now (small_call 0 1)) [demo_leaf] [ReadFile ''/d/a''] token_hv = Some (Inr ())"
proof -
  have "validate (he_caps small_env) (ca_now (small_call 0 1)) (nx_capabilities token_hv) demo_leaf (ReadFile ''/d/a'') = Some (Inr ())"
    using demo_validates by (simp add: token_hv_def small_call_def small_env_def)
  then show ?thesis by (simp add: authorize_call_eq [OF token_hv_reachable])
qed

lemma run_wasi_outputs: "\<exists>out hv'. run_wasi env wa ca tool bs cfg hv = (Inr out, hv')"
  by (auto simp: run_wasi_def execute_wasi_def execute_wasi_module_def Let_def
      split: sum.splits prod.splits recv_outcome.splits wasi_reply.splits)

theorem wasi_mounts_authorized_witness:
  "\<exists>out hv'. execute_tool_wasi_with_config small_env demo_wasi demo_fs () () (small_call 0 1) small_tool (Some []) [demo_leaf]
      (with_mount ''/d/a'' ''/work'' ReadOnly wasi_tool_new) token_hv = Some (Inr out, hv', ())
    \<and> granted small_env (small_call 0 1) [demo_leaf] token_hv (ReadFile ''/d/a'')"
proof -
  let ?cfg = "with_mount ''/d/a'' ''/work'' ReadOnly wasi_tool_new"
  let ?v = "\<lparr>va_sandbox_config = \<lparr>preopens = [\<lparr>host_path = ''/d/a'', guest_path = ''/work'', writable = False\<rparr>],
      inherit_stdout = False, inherit_stderr = False, env_vars = [], wasi_args = []\<rparr>, va_required_capabilities = [ReadFile ''/d/a'']\<rparr>"
  have nm: "normalized_mounts ?cfg = Inr [\<lparr>wm_host_path = ''/d/a'', wm_guest_path = ''/work'', wm_access = ReadOnly\<rparr>]"
    by code_simp
  have pr: "prepare_mounts demo_fs ?cfg () = (Inr ?v, ())"
    by (simp add: prepare_mounts_def nm prepare_mount_dir_def demo_fs_def canonicalize_existing_mount_dir_def mount_capabilities_def)
      (simp add: with_mount_def wasi_tool_new_def)
  have rq: "wasi_required_capabilities demo_fs () ?cfg = Inr [ReadFile ''/d/a'']"
    by (simp add: wasi_required_capabilities_def nm required_capability_mount_dir_def demo_fs_def
        canonicalize_existing_mount_dir_def mount_capabilities_def)
  obtain out hv' where run: "run_wasi small_env demo_wasi (small_call 0 1) small_tool [] (va_sandbox_config ?v) token_hv = (Inr out, hv')"
    using run_wasi_outputs by blast
  have ex: "execute_tool_wasi_with_config small_env demo_wasi demo_fs () () (small_call 0 1) small_tool (Some []) [demo_leaf] ?cfg token_hv
      = Some (Inr out, hv', ())"
    using token_authorizes run by (simp add: execute_tool_wasi_with_config_def rq pr small_sel)
  have "\<forall>m \<in> set (mounts ?cfg). fs_exists demo_fs () (wm_host_path m)"
    by (simp add: with_mount_def wasi_tool_new_def demo_fs_def)
  note auth = wasi_mounts_authorized [OF token_hv_reachable this ex]
  have "granted small_env (small_call 0 1) [demo_leaf] token_hv (ReadFile ''/d/a'')"
    using authorize_call_granted [OF token_hv_reachable token_authorizes] by simp
  with auth ex show ?thesis by blast
qed

end
