(* ===== verification/Snapshot_Digest.thy ===== *)
theory Snapshot_Digest
  imports Snapshot_Manager
begin

text \<open>
  The content-addressed snapshot digest, \<open>src/src/snapshot/sync/digest.rs\<close>: the hand-rolled
  length-prefixed encoding, hex conversion and constant-time comparison. SHA-256 is a parameter.
  An encoder that appends to \<open>out\<close> is the function to the bytes it appends.
\<close>

unbundle bit_operations_syntax

type_synonym digest = bytes

definition DIGEST_DOMAIN :: bytes where
  "DIGEST_DOMAIN = str_bytes ''NEXUS-SNAPSHOT-DIGEST-v1''"

definition SNAPSHOT_DIGEST_SCHEMA_VERSION :: u32 where
  "SNAPSHOT_DIGEST_SCHEMA_VERSION = 1"

subsection \<open>Primitive encoders\<close>

definition put_u32 :: "u32 \<Rightarrow> bytes" where
  "put_u32 v = u32_le v"

definition put_u64 :: "u64 \<Rightarrow> bytes" where
  "put_u64 v = u64_le v"

definition put_len_prefixed :: "bytes \<Rightarrow> bytes" where
  "put_len_prefixed b = put_u32 (word_of_nat (length b)) @ b"

definition put_str :: "string \<Rightarrow> bytes" where
  "put_str s = put_len_prefixed (str_bytes s)"

definition put_bytes :: "bytes \<Rightarrow> bytes" where
  "put_bytes b = put_len_prefixed b"

text \<open>A count followed by the elements, the pattern of every list in the encoding.\<close>

definition put_list :: "('a \<Rightarrow> bytes) \<Rightarrow> 'a list \<Rightarrow> bytes" where
  "put_list enc xs = put_u32 (word_of_nat (length xs)) @ concat (map enc xs)"

subsection \<open>Composite encoders\<close>

fun encode_global_value :: "global_value \<Rightarrow> bytes" where
  "encode_global_value (I32 x) = 0x00 # u32_le x"
| "encode_global_value (I64 x) = 0x01 # u64_le x"
| "encode_global_value (F32 x) = 0x02 # u32_le x"
| "encode_global_value (F64 x) = 0x03 # u64_le x"

definition encode_global :: "global_snapshot \<Rightarrow> bytes" where
  "encode_global g =
     put_str (gs_name g) @ encode_global_value (gs_value g) @ [if gs_mutable g then 1 else 0]"

definition encode_table :: "table_snapshot \<Rightarrow> bytes" where
  "encode_table t = put_str (ts_name t) @ put_u32 (ts_size t)"

definition encode_execution_state :: "execution_state \<Rightarrow> bytes" where
  "encode_execution_state es =
     put_list encode_global (captured_globals es) @ put_list encode_table (captured_tables es)"

definition encode_file_change :: "file_change \<Rightarrow> bytes" where
  "encode_file_change fc =
     put_str (fc_path fc) @ put_bytes (fc_content fc) @
     (case fc_old_content fc of None \<Rightarrow> [0x00] | Some b \<Rightarrow> 0x01 # put_bytes b)"

definition encode_filesystem_diff :: "filesystem_diff \<Rightarrow> bytes" where
  "encode_filesystem_diff fs =
     put_list encode_file_change (created fs) @ put_list encode_file_change (modified fs)
     @ put_list put_str (deleted fs) @ put_list put_str (dirs_created fs)
     @ put_list put_str (dirs_deleted fs)"

definition encode_metadata :: "snapshot_metadata \<Rightarrow> bytes" where
  "encode_metadata m =
     put_str (operation_name m) @ put_str (input_hash m) @ put_u64 (creation_time_us m)
     @ put_u32 (memory_pages m) @ put_list put_str (preconditions m)"

definition canonical_encode_snapshot_tail :: "snapshot \<Rightarrow> bytes" where
  "canonical_encode_snapshot_tail s =
     put_len_prefixed (encode_execution_state (snap_execution_state s))
     @ put_len_prefixed (encode_filesystem_diff (fs_changes s))
     @ put_len_prefixed (encode_metadata (metadata s))"

subsection \<open>Hex\<close>

definition to_hex :: "bytes \<Rightarrow> string" where
  "to_hex bs = concat (map (\<lambda>b. [hex_digit (unat b div 16), hex_digit (unat b mod 16)]) bs)"

definition hex_val :: "char \<Rightarrow> byte result" where
  "hex_val c =
     (let n = (of_char c :: nat) in
      if 48 \<le> n \<and> n \<le> 57 then Inr (word_of_nat (n - 48))
      else if 97 \<le> n \<and> n \<le> 102 then Inr (word_of_nat (n - 97 + 10))
      else if 65 \<le> n \<and> n \<le> 70 then Inr (word_of_nat (n - 65 + 10))
      else Inl (SerializationError ''invalid hex character: {:?}''))"

fun from_hex_pairs :: "string \<Rightarrow> bytes result" where
  "from_hex_pairs (a # b # rest) =
     (case hex_val a of
        Inl e \<Rightarrow> Inl e
      | Inr hi \<Rightarrow>
          (case hex_val b of
             Inl e \<Rightarrow> Inl e
           | Inr lo \<Rightarrow>
               (case from_hex_pairs rest of
                  Inl e \<Rightarrow> Inl e
                | Inr out \<Rightarrow> Inr ((push_bit 4 hi OR lo) # out))))"
| "from_hex_pairs _ = Inr []"

definition from_hex :: "string \<Rightarrow> bytes result" where
  "from_hex s =
     (if length s mod 2 \<noteq> 0 then Inl (SerializationError ''hex string must have even length'')
      else from_hex_pairs s)"

definition digest_from_hex :: "string \<Rightarrow> digest result" where
  "digest_from_hex s =
     (case from_hex s of
        Inl e \<Rightarrow> Inl e
      | Inr bs \<Rightarrow>
          (if length bs = 32 then Inr bs
           else Inl (SerializationError ''snapshot digest must be 32 bytes (64 hex chars)'')))"

definition ct_eq :: "bytes \<Rightarrow> bytes \<Rightarrow> bool" where
  "ct_eq a b = (fold (\<lambda>i diff. diff OR (a ! i XOR b ! i)) [0..<32] 0 = 0)"

subsection \<open>The digest\<close>

definition digest_preimage :: "bytes \<Rightarrow> snapshot \<Rightarrow> bytes" where
  "digest_preimage raw_memory_hash s =
     DIGEST_DOMAIN @ put_u32 SNAPSHOT_DIGEST_SCHEMA_VERSION @ put_len_prefixed raw_memory_hash
     @ put_u64 (word_of_nat (original_size s)) @ canonical_encode_snapshot_tail s"

definition digest_of :: "(bytes \<Rightarrow> bytes) \<Rightarrow> snapshot \<Rightarrow> digest result" where
  "digest_of sha256 s =
     (case from_hex (memory_checksum s) of
        Inl e \<Rightarrow> Inl e
      | Inr raw_memory_hash \<Rightarrow>
          (if length raw_memory_hash \<noteq> 32
           then Inl (SerializationError ''memory_checksum must decode to 32 bytes, got {}'')
           else Inr (sha256 (digest_preimage raw_memory_hash s))))"

definition verify_snapshot_digest :: "(bytes \<Rightarrow> bytes) \<Rightarrow> snapshot \<Rightarrow> digest \<Rightarrow> bool" where
  "verify_snapshot_digest sha256 s expected =
     (case digest_of sha256 s of Inr actual \<Rightarrow> ct_eq actual expected | Inl _ \<Rightarrow> False)"

subsection \<open>Prefix codes\<close>

text \<open>The contract of an encoder used inside a longer message: on the values it accepts, what was
  encoded and what follows can both be recovered. Counted lists of such values are encoded the same
  way.\<close>

locale prefix_code =
  fixes enc :: "'a \<Rightarrow> bytes" and ok :: "'a \<Rightarrow> bool"
  assumes prefix_inj: "ok x \<Longrightarrow> ok y \<Longrightarrow> enc x @ r = enc y @ s \<Longrightarrow> x = y \<and> r = s"
begin

lemma enc_inj: "ok x \<Longrightarrow> ok y \<Longrightarrow> enc x = enc y \<Longrightarrow> x = y"
  using prefix_inj [of x y "[]" "[]"] by simp

lemma concat_inj:
  "length xs = length ys \<Longrightarrow> list_all ok xs \<Longrightarrow> list_all ok ys \<Longrightarrow>
   concat (map enc xs) @ r = concat (map enc ys) @ s \<Longrightarrow> xs = ys \<and> r = s"
proof (induction xs ys rule: list_induct2)
  case (Cons x xs y ys)
  then have "enc x @ (concat (map enc xs) @ r) = enc y @ (concat (map enc ys) @ s)" by simp
  from prefix_inj [OF _ _ this] Cons.prems
  have "x = y \<and> concat (map enc xs) @ r = concat (map enc ys) @ s" by simp
  with Cons show ?case by simp
qed simp

lemma list_inj:
  assumes "length xs < 2 ^ 32" and "list_all ok xs" and "length ys < 2 ^ 32" and "list_all ok ys"
    and "put_list enc xs @ r = put_list enc ys @ s"
  shows "xs = ys \<and> r = s"
proof -
  have "put_u32 (word_of_nat (length xs)) = put_u32 (word_of_nat (length ys))"
    and rest: "concat (map enc xs) @ r = concat (map enc ys) @ s"
    using assms(5) by (simp_all add: put_list_def put_u32_def append_eq_append_conv)
  then have "(word_of_nat (length xs) :: u32) = word_of_nat (length ys)"
    by (simp add: put_u32_def u32_le_inj)
  with assms(1,3) have "length xs = length ys"
    by (metis unat_u32_of_nat)
  with rest assms(2,4) show ?thesis by (intro concat_inj)
qed

lemma list_code: "prefix_code (put_list enc) (\<lambda>xs. length xs < 2 ^ 32 \<and> list_all ok xs)"
  by unfold_locales (rule list_inj, auto)

end

interpretation u32_code: prefix_code put_u32 "\<lambda>_. True"
  by unfold_locales (simp add: put_u32_def append_eq_append_conv, blast dest: u32_le_inj)

interpretation u64_code: prefix_code put_u64 "\<lambda>_. True"
  by unfold_locales (simp add: put_u64_def append_eq_append_conv, blast dest: u64_le_inj)

interpretation block_code: prefix_code put_len_prefixed "\<lambda>b. length b < 2 ^ 32"
proof unfold_locales
  fix x y r s :: bytes
  assume "length x < 2 ^ 32" "length y < 2 ^ 32" "put_len_prefixed x @ r = put_len_prefixed y @ s"
  moreover from this have "(word_of_nat (length x) :: u32) = word_of_nat (length y)" "x @ r = y @ s"
    using u32_code.prefix_inj [where x = "word_of_nat (length x)" and y = "word_of_nat (length y)"
        and r = "x @ r" and s = "y @ s"]
    by (simp_all add: put_len_prefixed_def)
  ultimately show "x = y \<and> r = s" by (metis unat_u32_of_nat append_eq_append_conv)
qed

interpretation bytes_code: prefix_code put_bytes "\<lambda>b. length b < 2 ^ 32"
  using block_code.prefix_code_axioms unfolding put_bytes_def by simp

interpretation str_code: prefix_code put_str "\<lambda>s. length s < 2 ^ 32"
proof unfold_locales
  fix x y :: string and r s :: bytes
  assume "length x < 2 ^ 32" "length y < 2 ^ 32" "put_str x @ r = put_str y @ s"
  then have "str_bytes x = str_bytes y \<and> r = s"
    by (intro block_code.prefix_inj) (simp_all add: put_str_def)
  then show "x = y \<and> r = s" by (simp add: str_bytes_inj)
qed

interpretation value_code: prefix_code encode_global_value "\<lambda>_. True"
proof unfold_locales
  fix x y :: global_value and r s :: bytes
  assume "encode_global_value x @ r = encode_global_value y @ s"
  then show "x = y \<and> r = s"
    using u32_le_inj u64_le_inj by (cases x; cases y) (auto simp: append_eq_append_conv)
qed

definition global_ok :: "global_snapshot \<Rightarrow> bool" where
  "global_ok g \<longleftrightarrow> length (gs_name g) < 2 ^ 32"

interpretation global_code: prefix_code encode_global global_ok
proof unfold_locales
  fix x y :: global_snapshot and r s :: bytes
  assume ok: "global_ok x" "global_ok y" and eq: "encode_global x @ r = encode_global y @ s"
  then have 1: "gs_name x = gs_name y \<and>
      encode_global_value (gs_value x) @ (if gs_mutable x then 1 else 0) # r =
      encode_global_value (gs_value y) @ (if gs_mutable y then 1 else 0) # s"
    by (intro str_code.prefix_inj) (simp_all add: encode_global_def global_ok_def)
  then have "gs_value x = gs_value y \<and>
      (if gs_mutable x then 1 else 0) # r = (if gs_mutable y then 1 else 0) # s"
    by (intro value_code.prefix_inj) simp_all
  with 1 show "x = y \<and> r = s" by (auto split: if_splits)
qed

definition table_ok :: "table_snapshot \<Rightarrow> bool" where
  "table_ok t \<longleftrightarrow> length (ts_name t) < 2 ^ 32"

interpretation table_code: prefix_code encode_table table_ok
proof unfold_locales
  fix x y :: table_snapshot and r s :: bytes
  assume "table_ok x" "table_ok y" "encode_table x @ r = encode_table y @ s"
  then have 1: "ts_name x = ts_name y \<and> put_u32 (ts_size x) @ r = put_u32 (ts_size y) @ s"
    by (intro str_code.prefix_inj) (simp_all add: encode_table_def table_ok_def)
  then have "ts_size x = ts_size y \<and> r = s" by (intro u32_code.prefix_inj) simp_all
  with 1 show "x = y \<and> r = s" by simp
qed

definition change_ok :: "file_change \<Rightarrow> bool" where
  "change_ok c \<longleftrightarrow> length (fc_path c) < 2 ^ 32 \<and> length (fc_content c) < 2 ^ 32
     \<and> (case fc_old_content c of None \<Rightarrow> True | Some b \<Rightarrow> length b < 2 ^ 32)"

interpretation change_code: prefix_code encode_file_change change_ok
proof unfold_locales
  fix x y :: file_change and r s :: bytes
  let ?t = "\<lambda>c. case fc_old_content c of None \<Rightarrow> [0x00] | Some b \<Rightarrow> 0x01 # put_bytes b"
  assume ok: "change_ok x" "change_ok y" and eq: "encode_file_change x @ r = encode_file_change y @ s"
  then have 1: "fc_path x = fc_path y \<and> put_bytes (fc_content x) @ ?t x @ r = put_bytes (fc_content y) @ ?t y @ s"
    by (intro str_code.prefix_inj) (simp_all add: encode_file_change_def change_ok_def)
  then have 2: "fc_content x = fc_content y \<and> ?t x @ r = ?t y @ s"
    using ok by (intro bytes_code.prefix_inj) (simp_all add: change_ok_def)
  have "fc_old_content x = fc_old_content y \<and> r = s"
  proof (cases "fc_old_content x"; cases "fc_old_content y")
    fix a b assume o: "fc_old_content x = Some a" "fc_old_content y = Some b"
    with 2 have "put_bytes a @ r = put_bytes b @ s" by simp
    moreover have "length a < 2 ^ 32" "length b < 2 ^ 32" using ok o by (simp_all add: change_ok_def)
    ultimately have "a = b \<and> r = s" by (intro bytes_code.prefix_inj)
    with o show ?thesis by simp
  qed (use 2 in simp_all)
  with 1 2 show "x = y \<and> r = s" by simp
qed

definition strings_ok :: "string list \<Rightarrow> bool" where
  "strings_ok ss \<longleftrightarrow> length ss < 2 ^ 32 \<and> list_all (\<lambda>s. length s < 2 ^ 32) ss"

definition changes_ok :: "file_change list \<Rightarrow> bool" where
  "changes_ok cs \<longleftrightarrow> length cs < 2 ^ 32 \<and> list_all change_ok cs"

interpretation strings_code: prefix_code "put_list put_str" strings_ok
  using str_code.list_code unfolding strings_ok_def [abs_def] .

interpretation changes_code: prefix_code "put_list encode_file_change" changes_ok
  using change_code.list_code unfolding changes_ok_def [abs_def] .

interpretation globals_code: prefix_code "put_list encode_global"
  "\<lambda>gs. length gs < 2 ^ 32 \<and> list_all global_ok gs"
  by (rule global_code.list_code)

interpretation tables_code: prefix_code "put_list encode_table"
  "\<lambda>ts. length ts < 2 ^ 32 \<and> list_all table_ok ts"
  by (rule table_code.list_code)

definition state_ok :: "execution_state \<Rightarrow> bool" where
  "state_ok es \<longleftrightarrow> (length (captured_globals es) < 2 ^ 32 \<and> list_all global_ok (captured_globals es))
     \<and> (length (captured_tables es) < 2 ^ 32 \<and> list_all table_ok (captured_tables es))"

lemma encode_state_inj:
  assumes "state_ok x" and "state_ok y" and "encode_execution_state x = encode_execution_state y"
  shows "x = y"
proof -
  have 1: "captured_globals x = captured_globals y \<and>
      put_list encode_table (captured_tables x) = put_list encode_table (captured_tables y)"
    by (rule globals_code.prefix_inj)
      (use assms in \<open>simp_all only: state_ok_def encode_execution_state_def\<close>)
  then have "captured_tables x = captured_tables y"
    by (intro tables_code.enc_inj) (use assms in \<open>simp_all only: state_ok_def\<close>)
  with 1 show ?thesis by simp
qed

definition fs_ok :: "filesystem_diff \<Rightarrow> bool" where
  "fs_ok d \<longleftrightarrow> changes_ok (created d) \<and> changes_ok (modified d) \<and> strings_ok (deleted d)
     \<and> strings_ok (dirs_created d) \<and> strings_ok (dirs_deleted d)"

lemma encode_fs_inj:
  assumes "fs_ok x" and "fs_ok y" and "encode_filesystem_diff x = encode_filesystem_diff y"
  shows "x = y"
proof -
  let ?c = "put_list encode_file_change" and ?s = "put_list put_str"
  have 1: "created x = created y \<and> ?c (modified x) @ ?s (deleted x) @ ?s (dirs_created x) @ ?s (dirs_deleted x) =
      ?c (modified y) @ ?s (deleted y) @ ?s (dirs_created y) @ ?s (dirs_deleted y)"
    by (rule changes_code.prefix_inj) (use assms in \<open>simp_all add: fs_ok_def encode_filesystem_diff_def\<close>)
  then have 2: "modified x = modified y \<and> ?s (deleted x) @ ?s (dirs_created x) @ ?s (dirs_deleted x) =
      ?s (deleted y) @ ?s (dirs_created y) @ ?s (dirs_deleted y)"
    by (intro changes_code.prefix_inj) (use assms in \<open>simp_all add: fs_ok_def\<close>)
  then have 3: "deleted x = deleted y \<and> ?s (dirs_created x) @ ?s (dirs_deleted x) =
      ?s (dirs_created y) @ ?s (dirs_deleted y)"
    by (intro strings_code.prefix_inj) (use assms in \<open>simp_all add: fs_ok_def\<close>)
  then have 4: "dirs_created x = dirs_created y \<and> ?s (dirs_deleted x) = ?s (dirs_deleted y)"
    by (intro strings_code.prefix_inj) (use assms in \<open>simp_all add: fs_ok_def\<close>)
  then have "dirs_deleted x = dirs_deleted y"
    by (intro strings_code.enc_inj) (use assms in \<open>simp_all add: fs_ok_def\<close>)
  with 1 2 3 4 show ?thesis by simp
qed

definition metadata_ok :: "snapshot_metadata \<Rightarrow> bool" where
  "metadata_ok m \<longleftrightarrow> length (operation_name m) < 2 ^ 32 \<and> length (input_hash m) < 2 ^ 32
     \<and> strings_ok (preconditions m)"

lemma encode_metadata_inj:
  assumes "metadata_ok x" and "metadata_ok y" and "encode_metadata x = encode_metadata y"
  shows "x = y"
proof -
  let ?r = "\<lambda>m. put_u32 (memory_pages m) @ put_list put_str (preconditions m)"
  have 1: "operation_name x = operation_name y \<and> put_str (input_hash x) @ put_u64 (creation_time_us x) @ ?r x =
      put_str (input_hash y) @ put_u64 (creation_time_us y) @ ?r y"
    by (rule str_code.prefix_inj) (use assms in \<open>simp_all add: metadata_ok_def encode_metadata_def\<close>)
  then have 2: "input_hash x = input_hash y \<and> put_u64 (creation_time_us x) @ ?r x =
      put_u64 (creation_time_us y) @ ?r y"
    by (intro str_code.prefix_inj) (use assms in \<open>simp_all add: metadata_ok_def\<close>)
  then have 3: "creation_time_us x = creation_time_us y \<and> ?r x = ?r y"
    by (intro u64_code.prefix_inj) simp_all
  then have 4: "memory_pages x = memory_pages y \<and>
      put_list put_str (preconditions x) = put_list put_str (preconditions y)"
    by (intro u32_code.prefix_inj) simp_all
  then have "preconditions x = preconditions y"
    by (intro strings_code.enc_inj) (use assms in \<open>simp_all add: metadata_ok_def\<close>)
  with 1 2 3 4 show ?thesis by simp
qed

text \<open>Every length prefix of the encoding fits its 32 bits; sizes are below \<open>usize::MAX\<close>.\<close>

definition encodable :: "snapshot \<Rightarrow> bool" where
  "encodable s \<longleftrightarrow> state_ok (snap_execution_state s) \<and> fs_ok (fs_changes s) \<and> metadata_ok (metadata s)
     \<and> original_size s < 2 ^ 64
     \<and> length (encode_execution_state (snap_execution_state s)) < 2 ^ 32
     \<and> length (encode_filesystem_diff (fs_changes s)) < 2 ^ 32
     \<and> length (encode_metadata (metadata s)) < 2 ^ 32"

lemma encode_tail_inj:
  assumes "encodable s" and "encodable t"
    and "canonical_encode_snapshot_tail s = canonical_encode_snapshot_tail t"
  shows "snap_execution_state s = snap_execution_state t \<and> fs_changes s = fs_changes t
    \<and> metadata s = metadata t"
proof -
  let ?e = "\<lambda>s. encode_execution_state (snap_execution_state s)"
    and ?f = "\<lambda>s. encode_filesystem_diff (fs_changes s)" and ?m = "\<lambda>s. encode_metadata (metadata s)"
  have b: "length (?e s) < 2 ^ 32" "length (?e t) < 2 ^ 32" "length (?f s) < 2 ^ 32"
      "length (?f t) < 2 ^ 32" "length (?m s) < 2 ^ 32" "length (?m t) < 2 ^ 32"
    using assms(1,2) unfolding encodable_def by blast+
  have 1: "?e s = ?e t \<and> put_len_prefixed (?f s) @ put_len_prefixed (?m s) =
      put_len_prefixed (?f t) @ put_len_prefixed (?m t)"
    by (rule block_code.prefix_inj [OF b(1,2) assms(3) [unfolded canonical_encode_snapshot_tail_def]])
  then have 2: "?f s = ?f t \<and> put_len_prefixed (?m s) = put_len_prefixed (?m t)"
    by (intro block_code.prefix_inj [OF b(3,4)]) (rule conjunct2)
  then have "?m s = ?m t" by (intro block_code.enc_inj [OF b(5,6)]) (rule conjunct2)
  then have "metadata s = metadata t"
    by (intro encode_metadata_inj) (use assms in \<open>simp_all add: encodable_def\<close>)
  moreover have "fs_changes s = fs_changes t"
    by (rule encode_fs_inj) (use assms 2 in \<open>simp_all add: encodable_def\<close>)
  moreover have "snap_execution_state s = snap_execution_state t"
    by (rule encode_state_inj) (use assms 1 in \<open>simp_all add: encodable_def\<close>)
  ultimately show ?thesis by simp
qed

lemma digest_preimage_inj:
  assumes "encodable s" and "encodable t" and "length a = 32" and "length b = 32"
    and "digest_preimage a s = digest_preimage b t"
  shows "a = b \<and> original_size s = original_size t \<and> snap_execution_state s = snap_execution_state t
    \<and> fs_changes s = fs_changes t \<and> metadata s = metadata t"
proof -
  let ?n = "\<lambda>s. word_of_nat (original_size s) :: u64"
  have "put_len_prefixed a @ put_u64 (?n s) @ canonical_encode_snapshot_tail s =
      put_len_prefixed b @ put_u64 (?n t) @ canonical_encode_snapshot_tail t"
    using assms(5) by (simp add: digest_preimage_def)
  then have 1: "a = b \<and> put_u64 (?n s) @ canonical_encode_snapshot_tail s =
      put_u64 (?n t) @ canonical_encode_snapshot_tail t"
    by (intro block_code.prefix_inj) (simp_all add: assms(3,4))
  then have 2: "?n s = ?n t \<and> canonical_encode_snapshot_tail s = canonical_encode_snapshot_tail t"
    by (intro u64_code.prefix_inj) simp_all
  then have "original_size s = original_size t"
    using assms(1,2) by (metis encodable_def unat_u64_of_nat)
  with 1 2 encode_tail_inj [OF assms(1,2)] show ?thesis by simp
qed

lemma byte_nibbles:
  "push_bit 4 (word_of_nat (unat b div 16)) OR word_of_nat (unat b mod 16) = b" for b :: byte
proof -
  have "unat b < 256" using unsigned_less [of b] by simp
  then have "word_of_nat (unat b div 16) = drop_bit 4 b" "word_of_nat (unat b mod 16) = take_bit 4 b"
    by (simp_all add: word_unat_eq_iff unat_of_nat drop_bit_eq_div take_bit_eq_mod unat_div unat_mod)
  then show ?thesis by (simp add: bit_eq_iff bit_simps) auto
qed

lemma hex_val_digit: "d < 16 \<Longrightarrow> hex_val (hex_digit d) = Inr (word_of_nat d)"
  by (auto simp: hex_val_def hex_digit_def)

lemma from_hex_pairs_to_hex: "from_hex_pairs (to_hex bs) = Inr bs"
proof (induction bs)
  case (Cons b bs)
  have "unat b < 256" using unsigned_less [of b] by simp
  then have "unat b div 16 < 16" by (simp add: less_mult_imp_div_less)
  with Cons show ?case by (simp add: to_hex_def hex_val_digit byte_nibbles)
qed (simp add: to_hex_def)

lemma to_hex_inj [simp]: "to_hex a = to_hex b \<longleftrightarrow> a = b"
  by (metis from_hex_pairs_to_hex sum.inject(2))

lemma length_to_hex: "length (to_hex bs) = 2 * length bs"
  by (induction bs) (simp_all add: to_hex_def)

lemma fold_or_zero:
  "fold (\<lambda>i diff. diff OR f i) is (d :: byte) = 0 \<longleftrightarrow> d = 0 \<and> (\<forall>i \<in> set is. f i = 0)"
  by (induction "is" arbitrary: d) (auto simp: or_eq_0_iff)

lemma byte_xor_zero: "a XOR b = 0 \<longleftrightarrow> a = b" for a b :: byte
  by (auto simp: bit_eq_iff bit_simps)

lemma ct_eq_iff: "length a = 32 \<Longrightarrow> length b = 32 \<Longrightarrow> ct_eq a b \<longleftrightarrow> a = b"
  by (auto simp: ct_eq_def fold_or_zero byte_xor_zero list_eq_iff_nth_eq)

subsection \<open>Properties\<close>

text \<open>
  C9: The digest binds content: when two encodable snapshots have the same digest and SHA-256
  does not collide on their two preimages, they have the same memory hash, size, execution state,
  filesystem changes and metadata. The length-prefixed encoding leaves no ambiguity.
\<close>

theorem digest_binds_content:
  assumes "encodable s" and "encodable t" and "digest_of sha256 s = Inr d" and "digest_of sha256 t = Inr d"
    and collision_free: "\<And>a b. from_hex (memory_checksum s) = Inr a \<Longrightarrow> from_hex (memory_checksum t) = Inr b
      \<Longrightarrow> sha256 (digest_preimage a s) = sha256 (digest_preimage b t)
      \<Longrightarrow> digest_preimage a s = digest_preimage b t"
  shows "from_hex (memory_checksum s) = from_hex (memory_checksum t) \<and> original_size s = original_size t
    \<and> snap_execution_state s = snap_execution_state t \<and> fs_changes s = fs_changes t
    \<and> metadata s = metadata t"
proof -
  obtain a b where h: "from_hex (memory_checksum s) = Inr a" "from_hex (memory_checksum t) = Inr b"
      "length a = 32" "length b = 32" "sha256 (digest_preimage a s) = sha256 (digest_preimage b t)"
    using assms(3,4) by (auto simp: digest_of_def split: sum.splits if_splits)
  from digest_preimage_inj [OF assms(1,2) h(3,4) collision_free [OF h(1,2,5)]] h show ?thesis by simp
qed

definition hash_snap :: "uuid \<Rightarrow> byte \<Rightarrow> snapshot" where
  "hash_snap i b = \<lparr>snap_id = i, snap_timestamp = 0, memory = [], memory_checksum = to_hex (replicate 32 b),
     fs_changes = fs_new, snap_execution_state = \<lparr>captured_globals = [], captured_tables = []\<rparr>,
     metadata = metadata_new ''op'' ''h'', original_size = 3, compressed_size = 3\<rparr>"

lemma hash_snap_encodable: "encodable (hash_snap i b)"
  by (simp add: encodable_def hash_snap_def state_ok_def fs_ok_def metadata_ok_def changes_ok_def
      strings_ok_def fs_new_def metadata_new_def encode_execution_state_def encode_filesystem_diff_def
      encode_metadata_def put_list_def put_str_def put_len_prefixed_def put_u32_def put_u64_def)

lemma hash_snap_hash: "from_hex (memory_checksum (hash_snap i b)) = Inr (replicate 32 b)"
  by (simp add: from_hex_def length_to_hex hash_snap_def from_hex_pairs_to_hex)

theorem digest_binds_content_witness: "fs_changes (hash_snap 1 5) = fs_changes (hash_snap 2 5)"
proof -
  have "fs_changes (hash_snap 1 5) = fs_changes (hash_snap 2 5) \<and> True"
    using digest_binds_content [OF hash_snap_encodable hash_snap_encodable,
        of "\<lambda>x. x" 1 5 "digest_preimage (replicate 32 5) (hash_snap 1 5)" 2 5]
    by (simp add: digest_of_def hash_snap_hash)
      (simp add: digest_preimage_def hash_snap_def canonical_encode_snapshot_tail_def)
  then show ?thesis by simp
qed

text \<open>
  A digest survives its hex form: parsing the 64 lower-case hex characters of a 32-byte
  digest gives the digest back.
\<close>

lemma digest_hex_roundtrip:
  assumes "length d = 32"
  shows "digest_from_hex (to_hex d) = Inr d \<and> length (to_hex d) = 64"
  using assms by (simp add: digest_from_hex_def from_hex_def length_to_hex from_hex_pairs_to_hex)

text \<open>
  Verification accepts exactly the snapshot's own digest: for 32-byte digests the
  constant-time comparison is equality, and a malformed checksum is rejected.
\<close>

lemma verify_digest_iff:
  assumes "\<And>x. length (sha256 x) = 32" and "length expected = 32"
  shows "verify_snapshot_digest sha256 s expected \<longleftrightarrow> digest_of sha256 s = Inr expected"
proof (cases "digest_of sha256 s")
  case (Inr d)
  then have "length d = 32" using assms(1) by (auto simp: digest_of_def split: sum.splits if_splits)
  with Inr assms(2) show ?thesis by (simp add: verify_snapshot_digest_def ct_eq_iff)
qed (simp add: verify_snapshot_digest_def)

text \<open>
  The digest is a function of content alone: changing a snapshot's id, timestamp, compressed
  bytes or compressed size leaves its digest unchanged.
\<close>

lemma digest_ignores_identity:
  "digest_of sha256 (s\<lparr>snap_id := i, snap_timestamp := ts, memory := bs, compressed_size := n\<rparr>) =
     digest_of sha256 s"
  by (simp add: digest_of_def digest_preimage_def canonical_encode_snapshot_tail_def split: sum.split)

end
