(* ===== verification/Redaction.thy ===== *)
theory Redaction
  imports Snapshot_Digest
begin

text \<open>
  Keyed digests and redaction of proof capsules: \<open>src/src/proof/digest.rs\<close> and
  \<open>src/src/proof/redaction.rs\<close>. SHA-256, HMAC-SHA256 and the process environment are the record
  \<open>proof_env\<close>. The release build is modelled: \<open>cfg!(test)\<close> is false.
\<close>

subsection \<open>String functions of the standard library\<close>

text \<open>\<open>str::find\<close> on a string pattern: the position of the first match.\<close>

fun str_find :: "'a list \<Rightarrow> 'a list \<Rightarrow> nat option" where
  "str_find [] p = (if p = [] then Some 0 else None)"
| "str_find (x # xs) p = (if starts_with (x # xs) p then Some 0 else map_option Suc (str_find xs p))"

text \<open>\<open>str::split_whitespace\<close>; \<open>w\<close> is the word read so far.\<close>

fun split_ws :: "string \<Rightarrow> string \<Rightarrow> string list" where
  "split_ws w [] = (if w = [] then [] else [w])"
| "split_ws w (c # cs) =
     (if is_ws c then (if w = [] then split_ws [] cs else w # split_ws [] cs) else split_ws (w @ [c]) cs)"

definition split_whitespace :: "string \<Rightarrow> string list" where
  "split_whitespace s = split_ws [] s"

definition trim_matches :: "(char \<Rightarrow> bool) \<Rightarrow> string \<Rightarrow> string" where
  "trim_matches P s = rev (dropWhile P (rev (dropWhile P s)))"

definition is_ascii_alphabetic :: "char \<Rightarrow> bool" where
  "is_ascii_alphabetic c = (let n = (of_char c :: nat) in 65 \<le> n \<and> n \<le> 90 \<or> 97 \<le> n \<and> n \<le> 122)"

definition is_ascii_alphanumeric :: "char \<Rightarrow> bool" where
  "is_ascii_alphanumeric c \<longleftrightarrow> is_ascii_alphabetic c \<or> (let n = (of_char c :: nat) in 48 \<le> n \<and> n \<le> 57)"

subsection \<open>Digests\<close>

record typed_digest =
  td_algorithm :: string
  td_value :: string
  public_recomputable :: bool

datatype proof_hmac_key = HmacDisabled | HmacFromEnv string | EphemeralTestOnly

record proof_env =
  pe_sha256 :: "bytes \<Rightarrow> bytes"
  pe_hmac :: "bytes \<Rightarrow> bytes \<Rightarrow> bytes"
  pe_var :: "string \<Rightarrow> string option"

definition sha256_public :: "proof_env \<Rightarrow> bytes \<Rightarrow> typed_digest" where
  "sha256_public pe bs = \<lparr>td_algorithm = ''sha256'', td_value = to_hex (pe_sha256 pe bs), public_recomputable = True\<rparr>"

definition hmac_sha256_private :: "proof_env \<Rightarrow> bytes \<Rightarrow> bytes \<Rightarrow> typed_digest" where
  "hmac_sha256_private pe key bs =
     \<lparr>td_algorithm = ''hmac-sha256'', td_value = to_hex (pe_hmac pe key bs), public_recomputable = False\<rparr>"

definition redacted_digest :: typed_digest where
  "redacted_digest = \<lparr>td_algorithm = ''none'', td_value = ''[REDACTED]'', public_recomputable = False\<rparr>"

definition digest_with_key :: "proof_env \<Rightarrow> proof_hmac_key \<Rightarrow> bytes \<Rightarrow> typed_digest" where
  "digest_with_key pe key bs =
     (case key of
        HmacDisabled \<Rightarrow> redacted_digest
      | HmacFromEnv var \<Rightarrow>
          (case pe_var pe var of
             Some secret \<Rightarrow> hmac_sha256_private pe (str_bytes secret) bs
           | None \<Rightarrow> redacted_digest)
      | EphemeralTestOnly \<Rightarrow> redacted_digest)"

subsection \<open>Classification of words\<close>

definition not_alnum :: "char \<Rightarrow> bool" where
  "not_alnum c = (\<not> is_ascii_alphanumeric c)"

definition looks_like_bearer_marker :: "string \<Rightarrow> bool" where
  "looks_like_bearer_marker lower_word \<longleftrightarrow>
     trim_matches not_alnum lower_word = ''bearer''
     \<or> starts_with lower_word ''bearer=''
     \<or> starts_with lower_word ''bearer:''
     \<or> starts_with lower_word ''authorization:''
     \<or> starts_with lower_word ''authorization=''"

definition looks_like_secret_token :: "string \<Rightarrow> bool" where
  "looks_like_secret_token word \<longleftrightarrow>
     (let trimmed = trim_matches (\<lambda>c. not_alnum c \<and> c \<noteq> CHR ''-'' \<and> c \<noteq> CHR ''_'' \<and> c \<noteq> CHR ''='' \<and> c \<noteq> CHR '':'')
            (to_ascii_lowercase word)
      in starts_with trimmed ''sk-'' \<or> starts_with trimmed ''ghp_'' \<or> starts_with trimmed ''xoxb-''
         \<or> str_contains trimmed ''token='' \<or> str_contains trimmed ''token:'' \<or> str_contains trimmed ''api_key''
         \<or> str_contains trimmed ''apikey'' \<or> str_contains trimmed ''api-key'' \<or> str_contains trimmed ''secret=''
         \<or> str_contains trimmed ''secret:'' \<or> str_contains trimmed ''password='' \<or> str_contains trimmed ''password:''
         \<or> str_contains trimmed ''private_key'')"

definition is_windows_drive_path :: "string \<Rightarrow> bool" where
  "is_windows_drive_path lower \<longleftrightarrow>
     3 \<le> length lower \<and> is_ascii_alphabetic (lower ! 0) \<and> lower ! 1 = CHR '':''
     \<and> (lower ! 2 = CHR 0x5C \<or> lower ! 2 = CHR ''/'')"

definition looks_like_path :: "string \<Rightarrow> bool" where
  "looks_like_path word \<longleftrightarrow>
     (let lower = to_ascii_lowercase word
      in starts_with lower ''/'' \<or> str_contains lower ''/home/'' \<or> str_contains lower ''/users/''
         \<or> str_contains lower ''/.ssh'' \<or> str_contains lower ([CHR 0x5C] @ ''users'' @ [CHR 0x5C])
         \<or> str_contains lower ([CHR 0x5C] @ ''.ssh'') \<or> is_windows_drive_path lower)"

subsection \<open>Forbidden markers\<close>

text \<open>The loop of \<open>replace_ascii_case_insensitive\<close> on the rest of the input. The needle is not empty: it is
  given by its first character and the others.\<close>

function replace_loop :: "char \<Rightarrow> string \<Rightarrow> string \<Rightarrow> string \<Rightarrow> string" where
  "replace_loop n ns replacement input =
     (case str_find (to_ascii_lowercase input) (to_ascii_lowercase (n # ns)) of
        None \<Rightarrow> input
      | Some found \<Rightarrow>
          take found input @ replacement @ replace_loop n ns replacement (drop (found + Suc (length ns)) input))"
  by pat_completeness auto
termination
proof (relation "measure (\<lambda>(n, ns, r, input). length input)")
  fix n :: char and ns replacement input :: string and found
  assume "str_find (to_ascii_lowercase input) (to_ascii_lowercase (n # ns)) = Some found"
  then have "input \<noteq> []" by (auto simp: to_ascii_lowercase_def)
  then show "((n, ns, replacement, drop (found + Suc (length ns)) input), n, ns, replacement, input)
      \<in> measure (\<lambda>(n, ns, r, input). length input)" by simp
qed simp

declare replace_loop.simps [simp del]

definition replace_ascii_case_insensitive :: "string \<Rightarrow> char \<Rightarrow> string \<Rightarrow> string \<Rightarrow> string \<times> bool" where
  "replace_ascii_case_insensitive input n ns replacement =
     (replace_loop n ns replacement input, str_contains (to_ascii_lowercase input) (to_ascii_lowercase (n # ns)))"

definition remove_forbidden_markers :: "string \<Rightarrow> string \<times> bool" where
  "remove_forbidden_markers input =
     fold (\<lambda>marker (current, changed).
         case replace_ascii_case_insensitive current (hd marker) (tl marker) ''[REMOVED]'' of
           (nxt, marker_changed) \<Rightarrow> (nxt, changed \<or> marker_changed))
       [''.env'', ''preview_base64'', ''BEGIN PRIVATE KEY''] (input, False)"

subsection \<open>Redaction\<close>

datatype redaction_field = HmacOrPlaceholder | Truncated | Removed

definition ERROR_SUMMARY_MAX_CHARS :: nat where
  "ERROR_SUMMARY_MAX_CHARS = 256"

definition redact_path :: "proof_env \<Rightarrow> proof_hmac_key \<Rightarrow> string \<Rightarrow> string \<times> redaction_field" where
  "redact_path pe key path =
     (if key = HmacDisabled then ''[PATH_REDACTED]'' else td_value (digest_with_key pe key (str_bytes path)), HmacOrPlaceholder)"

definition redact_token :: "proof_env \<Rightarrow> proof_hmac_key \<Rightarrow> string \<Rightarrow> string \<times> redaction_field" where
  "redact_token pe key token =
     (if key = HmacDisabled then ''[TOKEN_REDACTED]'' else td_value (digest_with_key pe key (str_bytes token)), HmacOrPlaceholder)"

definition redact_env_value :: "string \<Rightarrow> string \<times> redaction_field" where
  "redact_env_value v = (''[ENV_REDACTED]'', Removed)"

definition push_redaction ::
  "string \<Rightarrow> redaction_field \<Rightarrow> (string \<times> redaction_field) list \<Rightarrow> (string \<times> redaction_field) list" where
  "push_redaction field kind applied = (if (field, kind) \<in> set applied then applied else applied @ [(field, kind)])"

text \<open>One word of the loop: whether it asks for the next word to be redacted, what replaces it, and how.\<close>

definition redact_word ::
  "proof_env \<Rightarrow> proof_hmac_key \<Rightarrow> bool \<Rightarrow> string \<Rightarrow> bool \<times> string \<times> redaction_field option" where
  "redact_word pe key redact_next_token word =
     (if redact_next_token
      then (case redact_token pe key word of (redacted, field) \<Rightarrow> (False, redacted, Some field))
      else let lower = to_ascii_lowercase word in
        if looks_like_bearer_marker lower
        then (CHR ''='' \<notin> set lower \<and> CHR '':'' \<notin> set lower \<and> trim_matches not_alnum lower = ''bearer'',
              ''[TOKEN_REDACTED]'', Some HmacOrPlaceholder)
        else if looks_like_path word
        then (case redact_path pe key word of (redacted, field) \<Rightarrow> (False, redacted, Some field))
        else if looks_like_secret_token word
        then (case redact_token pe key word of (redacted, field) \<Rightarrow> (False, redacted, Some field))
        else (False, word, None))"

fun redact_words ::
  "proof_env \<Rightarrow> proof_hmac_key \<Rightarrow> string \<Rightarrow> bool \<Rightarrow> string list \<Rightarrow> (string \<times> redaction_field) list
   \<Rightarrow> string list \<times> (string \<times> redaction_field) list" where
  "redact_words pe key field_name nxt [] applied = ([], applied)"
| "redact_words pe key field_name nxt (word # rest) applied =
     (case redact_word pe key nxt word of
        (nxt', w, field) \<Rightarrow>
          (case redact_words pe key field_name nxt' rest
                  (case field of Some f \<Rightarrow> push_redaction field_name f applied | None \<Rightarrow> applied) of
             (ws, applied') \<Rightarrow> (w # ws, applied')))"

definition redact_error_for_field ::
  "proof_env \<Rightarrow> proof_hmac_key \<Rightarrow> string \<Rightarrow> string \<Rightarrow> string \<times> (string \<times> redaction_field) list" where
  "redact_error_for_field pe key field_name err =
     (case remove_forbidden_markers err of
        (without_forbidden_markers, removed) \<Rightarrow>
          (case redact_words pe key field_name False (split_whitespace without_forbidden_markers)
                  (if removed then push_redaction field_name Removed [] else []) of
             (words, applied) \<Rightarrow>
               (let sanitized = join_with '' '' words
                in (take ERROR_SUMMARY_MAX_CHARS sanitized,
                    if ERROR_SUMMARY_MAX_CHARS < length sanitized then push_redaction field_name Truncated applied
                    else applied))))"

definition redact_error :: "proof_env \<Rightarrow> proof_hmac_key \<Rightarrow> string \<Rightarrow> string \<times> redaction_field" where
  "redact_error pe key err =
     (case redact_error_for_field pe key ''failure.error_summary'' err of
        (redacted, applied) \<Rightarrow>
          (redacted,
           if Truncated \<in> snd ` set applied then Truncated
           else if HmacOrPlaceholder \<in> snd ` set applied then HmacOrPlaceholder
           else if Removed \<in> snd ` set applied then Removed
           else Truncated))"

record redaction_report =
  hashed_fields :: "string list"
  truncated_fields :: "string list"
  removed_fields :: "string list"
  hmac_fields :: "string list"

definition build_report :: "(string \<times> redaction_field) list \<Rightarrow> redaction_report" where
  "build_report applied =
     \<lparr>hashed_fields = [],
      truncated_fields = map fst (filter (\<lambda>(_, k). k = Truncated) applied),
      removed_fields = map fst (filter (\<lambda>(_, k). k = Removed) applied),
      hmac_fields = map fst (filter (\<lambda>(_, k). k = HmacOrPlaceholder) applied)\<rparr>"

subsection \<open>Substrings\<close>

lemma str_contains_iff: "str_contains s p \<longleftrightarrow> sublist p s"
proof (induction s)
  case (Cons x xs)
  then show ?case by (simp add: starts_with_iff sublist_Cons_right)
qed simp

lemma str_find_None: "str_find s p = None \<longleftrightarrow> \<not> sublist p s"
proof (induction s)
  case (Cons x xs)
  then show ?case by (simp add: starts_with_iff sublist_Cons_right)
qed simp

lemma str_find_Some:
  "str_find s p = Some i \<Longrightarrow> prefix p (drop i s) \<and> i \<le> length s \<and> (p \<noteq> [] \<longrightarrow> \<not> sublist p (take i s))"
proof (induction s arbitrary: i)
  case (Cons x xs)
  show ?case
  proof (cases "starts_with (x # xs) p")
    case True
    with Cons.prems show ?thesis by (simp add: starts_with_iff)
  next
    case False
    then obtain j where j: "str_find xs p = Some j" "i = Suc j" using Cons.prems by auto
    have "\<not> prefix p (x # take j xs)"
      using False by (metis append_take_drop_id append_Cons prefix_prefix starts_with_iff)
    with Cons.IH [OF j(1)] j(2) show ?thesis by (simp add: sublist_Cons_right)
  qed
qed (simp split: if_splits)

lemma sublist_sep: "c \<notin> set p \<Longrightarrow> sublist p (a @ c # b) \<longleftrightarrow> sublist p a \<or> sublist p b"
proof
  assume c: "c \<notin> set p" and "sublist p (a @ c # b)"
  then consider "sublist p a" | "sublist p (c # b)" | xs ys where "p = xs @ ys" "suffix xs a" "prefix ys (c # b)"
    by (auto simp: sublist_append)
  then show "sublist p a \<or> sublist p b"
  proof cases
    case 2
    then show ?thesis using c by (auto simp: sublist_Cons_right prefix_Cons)
  next
    case 3
    then have "ys = []" using c by (cases ys) auto
    then show ?thesis using 3 by (auto intro: suffix_imp_sublist)
  qed simp
qed (auto simp: sublist_append sublist_Cons_right)

abbreviation lower :: "string \<Rightarrow> string" where
  "lower \<equiv> to_ascii_lowercase"

lemma lower_simps [simp]:
  "lower [] = []" "lower (c # cs) = char_lower c # lower cs" "lower (a @ b) = lower a @ lower b"
  "length (lower a) = length a"
  by (simp_all add: to_ascii_lowercase_def)

lemma lower_take_drop: "lower (take n a) = take n (lower a)" "lower (drop n a) = drop n (lower a)"
  by (simp_all add: to_ascii_lowercase_def take_map drop_map)

lemma lower_sublist: "sublist w s \<Longrightarrow> sublist (lower w) (lower s)"
  unfolding sublist_def by (metis lower_simps(3))

subsection \<open>What replacing removes\<close>

text \<open>The replacement text cannot take part in a match of a pattern without brackets that is not a part
  of it.\<close>

definition clean_pattern :: "string \<Rightarrow> bool" where
  "clean_pattern p \<longleftrightarrow> p \<noteq> [] \<and> CHR ''['' \<notin> set p \<and> CHR '']'' \<notin> set p \<and> \<not> sublist p ''removed''"

lemma lower_removed: "lower ''[REMOVED]'' = CHR ''['' # ''removed'' @ [CHR '']'']"
  by code_simp

lemma sublist_replacement:
  assumes "clean_pattern p"
  shows "sublist p (lower (a @ ''[REMOVED]'' @ b)) \<longleftrightarrow> sublist p (lower a) \<or> sublist p (lower b)"
proof -
  have "lower (a @ ''[REMOVED]'' @ b) = lower a @ CHR ''['' # (''removed'' @ CHR '']'' # lower b)"
    unfolding lower_simps(3) lower_removed by simp
  moreover have "sublist p (lower a @ CHR ''['' # (''removed'' @ CHR '']'' # lower b))
      \<longleftrightarrow> sublist p (lower a) \<or> sublist p (''removed'' @ CHR '']'' # lower b)"
    by (rule sublist_sep) (use assms in \<open>simp add: clean_pattern_def\<close>)
  moreover have "sublist p (''removed'' @ CHR '']'' # lower b) \<longleftrightarrow> sublist p ''removed'' \<or> sublist p (lower b)"
    by (rule sublist_sep) (use assms in \<open>simp add: clean_pattern_def\<close>)
  ultimately show ?thesis using assms by (simp only: clean_pattern_def) blast
qed

lemma replace_keeps_absent:
  assumes "clean_pattern p" and "\<not> sublist p (lower input)"
  shows "\<not> sublist p (lower (replace_loop n ns ''[REMOVED]'' input))"
  using assms(2)
proof (induction n ns "''[REMOVED]''" input rule: replace_loop.induct)
  case (1 n ns input)
  show ?case
  proof (cases "str_find (lower input) (lower (n # ns))")
    case None
    with 1 show ?thesis by (simp add: replace_loop.simps [of n ns _ input])
  next
    case (Some i)
    let ?rest = "drop (i + Suc (length ns)) input"
    have "\<not> sublist p (lower (take i input))" "\<not> sublist p (lower ?rest)"
      using "1.prems" sublist_order.order.trans [OF _ sublist_take] sublist_order.order.trans [OF _ sublist_drop]
      unfolding lower_take_drop by blast+
    with "1.hyps" [OF Some] Some sublist_replacement [OF assms(1)] show ?thesis
      by (simp only: replace_loop.simps [of n ns _ input] option.case) blast
  qed
qed

lemma replace_removes:
  assumes "clean_pattern (lower (n # ns))"
  shows "\<not> sublist (lower (n # ns)) (lower (replace_loop n ns ''[REMOVED]'' input))"
  using assms
proof (induction n ns "''[REMOVED]''" input rule: replace_loop.induct)
  case (1 n ns input)
  show ?case
  proof (cases "str_find (lower input) (lower (n # ns))")
    case None
    then have "replace_loop n ns ''[REMOVED]'' input = input" by (simp only: replace_loop.simps [of n ns _ input] option.case)
    with None show ?thesis by (simp only: str_find_None not_False_eq_True)
  next
    case (Some i)
    let ?rest = "drop (i + Suc (length ns)) input"
    have "\<not> sublist (lower (n # ns)) (lower (take i input))"
      using str_find_Some [OF Some] "1.prems" unfolding lower_take_drop by (simp add: clean_pattern_def)
    with "1.hyps" [OF Some "1.prems"] Some sublist_replacement [OF "1.prems"] show ?thesis
      by (simp only: replace_loop.simps [of n ns _ input] option.case) blast
  qed
qed

lemma markers_clean: "clean_pattern (lower ''.env'')" "clean_pattern (lower ''preview_base64'')"
  "clean_pattern (lower ''BEGIN PRIVATE KEY'')"
  by (simp_all add: clean_pattern_def str_contains_iff [symmetric]) code_simp+

lemma remove_forbidden_markers_clean:
  assumes "remove_forbidden_markers input = (out, b)" and "m \<in> {''.env'', ''preview_base64'', ''BEGIN PRIVATE KEY''}"
  shows "\<not> sublist (lower m) (lower out)"
proof -
  let ?r = "replace_loop"
  define a where "a = ?r (CHR ''.'') ''env'' ''[REMOVED]'' input"
  define c where "c = ?r (CHR ''p'') ''review_base64'' ''[REMOVED]'' a"
  have out: "out = ?r (CHR ''B'') ''EGIN PRIVATE KEY'' ''[REMOVED]'' c"
    using assms(1) by (simp add: remove_forbidden_markers_def replace_ascii_case_insensitive_def a_def c_def)
  have 1: "\<not> sublist (lower ''.env'') (lower a)" unfolding a_def by (rule replace_removes [OF markers_clean(1)])
  have 2: "\<not> sublist (lower ''.env'') (lower c)" unfolding c_def by (rule replace_keeps_absent [OF markers_clean(1) 1])
  have 3: "\<not> sublist (lower ''preview_base64'') (lower c)" unfolding c_def by (rule replace_removes [OF markers_clean(2)])
  have "\<not> sublist (lower ''.env'') (lower out)" unfolding out by (rule replace_keeps_absent [OF markers_clean(1) 2])
  moreover have "\<not> sublist (lower ''preview_base64'') (lower out)"
    unfolding out by (rule replace_keeps_absent [OF markers_clean(2) 3])
  moreover have "\<not> sublist (lower ''BEGIN PRIVATE KEY'') (lower out)"
    unfolding out by (rule replace_removes [OF markers_clean(3)])
  ultimately show ?thesis using assms(2) by blast
qed

subsection \<open>What redaction leaves\<close>

text \<open>A word that is not replaced.\<close>

definition harmless :: "string \<Rightarrow> bool" where
  "harmless w \<longleftrightarrow> \<not> looks_like_bearer_marker (lower w) \<and> \<not> looks_like_path w \<and> \<not> looks_like_secret_token w"

text \<open>What replaces the word \<open>w\<close>: a fixed text, or the HMAC of that word under the secret that the configured variable holds.\<close>

definition keyed_digest :: "proof_env \<Rightarrow> proof_hmac_key \<Rightarrow> string \<Rightarrow> string \<Rightarrow> bool" where
  "keyed_digest pe key w w' \<longleftrightarrow>
     (\<exists>var secret. key = HmacFromEnv var \<and> pe_var pe var = Some secret \<and> w' = to_hex (pe_hmac pe (str_bytes secret) (str_bytes w)))"

definition replacement_text :: "proof_env \<Rightarrow> proof_hmac_key \<Rightarrow> string \<Rightarrow> string \<Rightarrow> bool" where
  "replacement_text pe key w w' \<longleftrightarrow> w' \<in> {''[TOKEN_REDACTED]'', ''[PATH_REDACTED]'', ''[REDACTED]''} \<or> keyed_digest pe key w w'"

text \<open>A word and what the redaction makes of it.\<close>

definition redacted_as :: "proof_env \<Rightarrow> proof_hmac_key \<Rightarrow> string \<Rightarrow> string \<Rightarrow> bool" where
  "redacted_as pe key w w' \<longleftrightarrow> replacement_text pe key w w' \<or> w' = w \<and> harmless w"

lemma digest_text: "key \<noteq> HmacDisabled \<Longrightarrow> replacement_text pe key w (td_value (digest_with_key pe key (str_bytes w)))"
  by (auto simp: digest_with_key_def redacted_digest_def hmac_sha256_private_def replacement_text_def keyed_digest_def
      split: proof_hmac_key.splits option.splits)

lemma redact_word_text:
  "redact_word pe key nxt w = (nxt', w', f) \<Longrightarrow> redacted_as pe key w w'"
proof -
  have c: "replacement_text pe key w ''[TOKEN_REDACTED]''" "replacement_text pe key w ''[PATH_REDACTED]''" by (simp_all add: replacement_text_def)
  have t: "redact_token pe key w = (x, g) \<Longrightarrow> replacement_text pe key w x" "redact_path pe key w = (x, g) \<Longrightarrow> replacement_text pe key w x" for x g
    using c digest_text [of key pe w] by (auto simp: redact_token_def redact_path_def)
  assume "redact_word pe key nxt w = (nxt', w', f)"
  then show ?thesis using c t unfolding redacted_as_def
    by (auto simp: redact_word_def Let_def harmless_def split: if_splits prod.splits)
qed

lemma redact_words_text:
  "redact_words pe key fname nxt ws applied = (ws', applied') \<Longrightarrow> list_all2 (redacted_as pe key) ws ws'"
proof (induction ws arbitrary: nxt applied ws' applied')
  case (Cons w ws)
  obtain nxt1 w1 f where w: "redact_word pe key nxt w = (nxt1, w1, f)" by (metis prod_cases3)
  with Cons.prems obtain ws1 where ws': "ws' = w1 # ws1"
    and r: "redact_words pe key fname nxt1 ws (case f of Some f \<Rightarrow> push_redaction fname f applied | None \<Rightarrow> applied) = (ws1, applied')"
    by (auto split: prod.splits)
  show ?case unfolding ws' using Cons.IH [OF r] redact_word_text [OF w] by simp
qed simp

lemma split_ws_sublist: "w \<in> set (split_ws acc s) \<Longrightarrow> sublist w (acc @ s)"
proof (induction acc s rule: split_ws.induct)
  case (2 acc c cs)
  have a: "sublist w (acc @ c # cs)" if "sublist w cs"
    using that by (auto simp: sublist_append sublist_Cons_right)
  show ?case
  proof (cases "is_ws c")
    case True
    with "2.prems" consider "w = acc" | "w \<in> set (split_ws [] cs)" by (auto split: if_splits)
    then show ?thesis
    proof cases
      case 2
      have "sublist w cs"
        using "2.IH"(1) [OF True] "2.IH"(2) [OF True] 2 by (cases "acc = []") simp_all
      then show ?thesis by (rule a)
    qed simp
  next
    case False
    with "2.prems" "2.IH"(3) show ?thesis by simp
  qed
qed (auto split: if_splits)

lemma join_sublist:
  "CHR '' '' \<notin> set p \<Longrightarrow> p \<noteq> [] \<Longrightarrow> sublist p (lower (join_with '' '' ws)) \<Longrightarrow> \<exists>w \<in> set ws. sublist p (lower w)"
proof (induction "'' ''" ws rule: join_with.induct)
  case (3 w v vs)
  have "lower (join_with '' '' (w # v # vs)) = lower w @ CHR '' '' # lower (join_with '' '' (v # vs))"
    by (simp add: char_lower_def)
  then have "sublist p (lower w) \<or> sublist p (lower (join_with '' '' (v # vs)))"
    using "3.prems" sublist_sep [OF "3.prems"(1)] by metis
  with 3 show ?case by auto
qed auto

lemma hex_digit_char: "d < 16 \<Longrightarrow> hex_digit d \<in> set ''0123456789abcdef''"
proof -
  have "\<forall>d \<in> {..<16}. hex_digit d \<in> set ''0123456789abcdef''" by code_simp
  then show "d < 16 \<Longrightarrow> hex_digit d \<in> set ''0123456789abcdef''" by simp
qed

lemma to_hex_chars: "set (to_hex bs) \<subseteq> set ''0123456789abcdef''"
proof -
  have "unat b div 16 < 16" "unat b mod 16 < 16" for b :: byte using unsigned_less [where 'a = nat, of b] by simp_all
  then have "hex_digit (unat b div 16) \<in> set ''0123456789abcdef''" "hex_digit (unat b mod 16) \<in> set ''0123456789abcdef''" for b :: byte
    using hex_digit_char by blast+
  then have "set [hex_digit (unat b div 16), hex_digit (unat b mod 16)] \<subseteq> set ''0123456789abcdef''" for b :: byte
    by (simp only: list.set(2) [of "hex_digit _"] list.set(1) empty_subsetI insert_subset)
  then show ?thesis unfolding to_hex_def set_concat set_map image_image by blast
qed

lemma hex_no_marker: "m \<in> {''.env'', ''preview_base64''} \<Longrightarrow> \<not> sublist (lower m) (lower (to_hex bs))"
proof
  assume m: "m \<in> {''.env'', ''preview_base64''}" and "sublist (lower m) (lower (to_hex bs))"
  then have "set (lower m) \<subseteq> char_lower ` set ''0123456789abcdef''"
    using set_mono_sublist to_hex_chars [of bs] by (fastforce simp: to_ascii_lowercase_def simp del: list.set)
  moreover have "\<not> set (lower ''.env'') \<subseteq> char_lower ` set ''0123456789abcdef''"
    "\<not> set (lower ''preview_base64'') \<subseteq> char_lower ` set ''0123456789abcdef''" by code_simp+
  ultimately show False using m by auto
qed

lemma replacement_no_marker:
  "replacement_text pe key v w \<Longrightarrow> m \<in> {''.env'', ''preview_base64''} \<Longrightarrow> \<not> sublist (lower m) (lower w)"
proof -
  have "\<forall>m \<in> {''.env'', ''preview_base64''}. \<forall>w \<in> {''[TOKEN_REDACTED]'', ''[PATH_REDACTED]'', ''[REDACTED]''}.
      \<not> str_contains (lower w) (lower m)" by code_simp
  then show "replacement_text pe key v w \<Longrightarrow> m \<in> {''.env'', ''preview_base64''} \<Longrightarrow> \<not> sublist (lower m) (lower w)"
    using hex_no_marker unfolding replacement_text_def keyed_digest_def str_contains_iff by blast
qed

lemma list_all2_right: "list_all2 P xs ys \<Longrightarrow> y \<in> set ys \<Longrightarrow> \<exists>x \<in> set xs. P x y"
  by (induction rule: list_all2_induct) auto

lemma redact_words_no_marker:
  assumes m: "m \<in> {''.env'', ''preview_base64''}" and clean: "\<not> sublist (lower m) (lower body)"
    and la: "list_all2 (redacted_as pe key) (split_whitespace body) ws"
    and w': "w' \<in> set ws"
  shows "\<not> sublist (lower m) (lower w')"
proof -
  from list_all2_right [OF la w'] obtain w where w: "w \<in> set (split_whitespace body)"
    and d: "replacement_text pe key w w' \<or> w' = w \<and> harmless w" unfolding redacted_as_def by (elim bexE)
  show ?thesis
  proof (cases "replacement_text pe key w w'")
    case True
    then show ?thesis using m by (rule replacement_no_marker)
  next
    case False
    with d have "w' = w" by (elim disjE conjE) simp_all
    moreover have "sublist w body" using split_ws_sublist [of w "[]" body] w by (simp add: split_whitespace_def)
    ultimately have "sublist (lower w') (lower body)" using lower_sublist by simp
    with clean show ?thesis using sublist_order.order.trans [of "lower m" "lower w'" "lower body"] by (elim contrapos_nn) assumption+
  qed
qed

lemma marker_chars: "m \<in> {''.env'', ''preview_base64''} \<Longrightarrow> CHR '' '' \<notin> set (lower m) \<and> lower m \<noteq> []"
  by (elim insertE emptyE) (simp_all add: char_lower_def)

lemma summary_no_marker:
  assumes m: "m \<in> {''.env'', ''preview_base64''}" and clean: "\<not> sublist (lower m) (lower body)"
    and la: "list_all2 (redacted_as pe key) (split_whitespace body) ws"
  shows "\<not> str_contains (lower (take k (join_with '' '' ws))) (lower m)"
proof
  assume "str_contains (lower (take k (join_with '' '' ws))) (lower m)"
  then have "sublist (lower m) (take k (lower (join_with '' '' ws)))" by (simp only: str_contains_iff lower_take_drop)
  then have "sublist (lower m) (lower (join_with '' '' ws))" by (rule sublist_order.order.trans [OF _ sublist_take])
  with marker_chars [OF m] have "\<exists>w' \<in> set ws. sublist (lower m) (lower w')" by (intro join_sublist) (erule conjE, assumption)+
  then show False using redact_words_no_marker [OF m clean la] by (elim bexE) simp
qed

subsection \<open>Properties\<close>

text \<open>
  C21: What the redacted summary of an error can hold, for every error text and every key: at most 256 characters of a sequence of words separated
  by blanks, one for each word of the text without its forbidden markers; each is a fixed placeholder, the HMAC of the word it replaces under
  the secret in the environment variable the key names, or the word itself if it looks neither like a path nor like a secret nor like an
  authorization header. Without such a secret there are no digests, only placeholders. Neither \<open>.env\<close> nor \<open>preview_base64\<close> occurs in the summary in
  any case.
\<close>

theorem redaction_leaves:
  assumes "redact_error_for_field pe key field_name err = (summary, applied)"
  shows "length summary \<le> 256
    \<and> (\<exists>ws. summary = take 256 (join_with '' '' ws)
         \<and> list_all2 (redacted_as pe key) (split_whitespace (fst (remove_forbidden_markers err))) ws
         \<and> (key \<in> {HmacDisabled, EphemeralTestOnly} \<longrightarrow> list_all2 (\<lambda>w w'.
              w' \<in> {''[TOKEN_REDACTED]'', ''[PATH_REDACTED]'', ''[REDACTED]''} \<or> w' = w \<and> harmless w)
              (split_whitespace (fst (remove_forbidden_markers err))) ws))
    \<and> \<not> str_contains (to_ascii_lowercase summary) ''.env'' \<and> \<not> str_contains (to_ascii_lowercase summary) ''preview_base64''"
proof -
  obtain body removed where rm: "remove_forbidden_markers err = (body, removed)" by fastforce
  obtain ws ap where rw: "redact_words pe key field_name False (split_whitespace body)
      (if removed then push_redaction field_name Removed [] else []) = (ws, ap)" by fastforce
  have sm: "summary = take 256 (join_with '' '' ws)"
    using assms by (simp add: redact_error_for_field_def rm rw Let_def ERROR_SUMMARY_MAX_CHARS_def)
  note la = redact_words_text [OF rw]
  note clean = remove_forbidden_markers_clean [OF rm]
  have low: "lower ''.env'' = ''.env''" "lower ''preview_base64'' = ''preview_base64''" by code_simp+
  have "\<not> str_contains (lower summary) ''.env''"
    using summary_no_marker [OF insertI1 clean [OF insertI1] la, of 256] unfolding sm low .
  moreover have "\<not> str_contains (lower summary) ''preview_base64''"
    using summary_no_marker [OF insertI2 [OF insertI1] clean [OF insertI2 [OF insertI1]] la, of 256] unfolding sm low .
  moreover have "length summary \<le> 256" by (simp only: sm length_take min.cobounded2)
  moreover have "list_all2 (\<lambda>w w'. w' \<in> {''[TOKEN_REDACTED]'', ''[PATH_REDACTED]'', ''[REDACTED]''} \<or> w' = w \<and> harmless w) (split_whitespace body) ws"
    if "key \<in> {HmacDisabled, EphemeralTestOnly}"
    using la by (rule list_all2_mono) (use that in \<open>auto simp: redacted_as_def replacement_text_def keyed_digest_def\<close>)
  ultimately show ?thesis using sm la unfolding rm fst_conv by (intro conjI exI [of _ ws] impI)
qed

theorem redaction_leaves_witness:
  "\<not> str_contains (to_ascii_lowercase (fst (redact_error_for_field
      \<lparr>pe_sha256 = (\<lambda>_. []), pe_hmac = (\<lambda>_ _. []), pe_var = (\<lambda>_. None)\<rparr> HmacDisabled ''f'' ''cannot open /srv/.ENV''))) ''.env''"
  using redaction_leaves [OF surjective_pairing] by blast

text \<open>
  Two ways around the redaction. The markers are removed before the words are split and joined again with single
  blanks, so a private-key header written with a tab comes out as the forbidden text itself; and the word after
  an authorization header is kept unless the header is spelled exactly as the bearer keyword.
\<close>

lemma redaction_bypassed:
  "fst (redact_error_for_field pe key field_name ([CHR ''B'', CHR ''E'', CHR ''G'', CHR ''I'', CHR ''N'', CHR 0x09] @ ''PRIVATE KEY''))
     = ''BEGIN PRIVATE KEY''
   \<and> fst (redact_error_for_field pe key field_name ''Authorization: hunter2'') = ''[TOKEN_REDACTED] hunter2''
   \<and> fst (redact_error_for_field pe key field_name ''Bearer: hunter2'') = ''[TOKEN_REDACTED] hunter2''"
  by (intro conjI; code_simp)

end
