(* ===== verification/Json.thy ===== *)
theory Json
  imports Prelude "HOL-Library.List_Lexorder" "HOL-Library.Char_ord"
begin

text \<open>
  JSON values as \<open>serde_json::Value\<close> has them, over a type of numbers, with the recursive sorting of object keys that both canonical forms
  of the program use (\<open>src/src/proof/canonical.rs\<close>, \<open>src/crates/aeon_nexus_bridge/src/lib.rs\<close>), and when sorted values determine what they encode.
  Objects list their members in the order they were written; the keys of a serialized struct are distinct.
\<close>

subsection \<open>JSON values\<close>

datatype 'n json =
    JNull
  | JBool bool
  | JNumber 'n
  | JString string
  | JArray "'n json list"
  | JObject "(string \<times> 'n json) list"

primrec sort_json_value :: "'n json \<Rightarrow> 'n json" where
  "sort_json_value JNull = JNull"
| "sort_json_value (JBool b) = JBool b"
| "sort_json_value (JNumber n) = JNumber n"
| "sort_json_value (JString s) = JString s"
| "sort_json_value (JArray vs) = JArray (map sort_json_value vs)"
| "sort_json_value (JObject kvs) = JObject (sort_key fst (map (map_prod id sort_json_value) kvs))"

definition option_json :: "('a \<Rightarrow> 'n json) \<Rightarrow> 'a option \<Rightarrow> 'n json" where
  "option_json enc v = (case v of None \<Rightarrow> JNull | Some x \<Rightarrow> enc x)"

definition list_json :: "('a \<Rightarrow> 'n json) \<Rightarrow> 'a list \<Rightarrow> 'n json" where
  "list_json enc vs = JArray (map enc vs)"

subsection \<open>The canonical form determines the value\<close>

text \<open>Sorting the keys of an object loses nothing when they are distinct.\<close>

lemma map_of_sort_key:
  assumes "distinct (map fst kvs)"
  shows "map_of (sort_key fst kvs) = map_of kvs"
proof
  have d: "distinct (map fst (sort_key fst kvs))" using assms by (simp add: distinct_map)
  fix k
  have "map_of (sort_key fst kvs) k = Some v \<longleftrightarrow> map_of kvs k = Some v" for v
    by (simp only: map_of_eq_Some_iff [OF d] map_of_eq_Some_iff [OF assms] set_sort)
  then show "map_of (sort_key fst kvs) k = map_of kvs k" by (metis not_None_eq)
qed

lemma map_of_map_prod: "map_of (map (map_prod id f) kvs) k = map_option f (map_of kvs k)"
  by (induction kvs) auto

lemma object_fields_inj:
  assumes "sort_json_value (JObject xs) = sort_json_value (JObject ys)" and "map fst xs = map fst ys" and "distinct (map fst xs)"
  shows "map (sort_json_value \<circ> snd) xs = map (sort_json_value \<circ> snd) ys"
proof -
  have d: "distinct (map fst (map (map_prod id sort_json_value) zs)) \<longleftrightarrow> distinct (map fst zs)" for zs :: "(string \<times> 'n json) list"
    by (simp add: comp_def)
  have mo: "map_option sort_json_value (map_of xs k) = map_option sort_json_value (map_of ys k)" for k
    using arg_cong [OF assms(1), of "\<lambda>v. case v of JObject kvs \<Rightarrow> map_of kvs k | _ \<Rightarrow> None"]
      map_of_sort_key [OF iffD2 [OF d], of xs] map_of_sort_key [OF iffD2 [OF d], of ys] assms(2,3)
    by (simp add: map_of_map_prod)
  show ?thesis
  proof (rule nth_equalityI)
    show len: "length (map (sort_json_value \<circ> snd) xs) = length (map (sort_json_value \<circ> snd) ys)"
      using arg_cong [OF assms(2), of length] by simp
    fix i assume i: "i < length (map (sort_json_value \<circ> snd) xs)"
    then have k: "fst (xs ! i) = fst (ys ! i)" using assms(2) len by (metis length_map nth_map)
    have "map_of xs (fst (xs ! i)) = Some (snd (xs ! i))" "map_of ys (fst (ys ! i)) = Some (snd (ys ! i))"
      using i len assms(2,3) by (simp_all add: map_of_eq_Some_iff)
    with mo [of "fst (xs ! i)"] k i len show "map (sort_json_value \<circ> snd) xs ! i = map (sort_json_value \<circ> snd) ys ! i" by simp
  qed
qed

locale json_code =
  fixes enc :: "'a \<Rightarrow> 'n json"
  assumes canonical_inj: "sort_json_value (enc x) = sort_json_value (enc y) \<Longrightarrow> x = y"
    and not_null: "sort_json_value (enc x) \<noteq> JNull"
begin

lemma canonical_iff [simp]: "sort_json_value (enc x) = sort_json_value (enc y) \<longleftrightarrow> x = y"
  using canonical_inj by blast

lemma option_iff: "sort_json_value (option_json enc a) = sort_json_value (option_json enc b) \<longleftrightarrow> a = b"
  using not_null not_null [symmetric] by (cases a; cases b) (auto simp: option_json_def)

lemma list_code: "json_code (list_json enc)"
proof
  fix xs ys :: "'a list"
  assume "sort_json_value (list_json enc xs) = sort_json_value (list_json enc ys)"
  then have "map (\<lambda>x. sort_json_value (enc x)) xs = map (\<lambda>x. sort_json_value (enc x)) ys" by (simp add: list_json_def comp_def)
  then show "xs = ys" by (rule map_injective) (simp add: inj_def)
qed (simp add: list_json_def)

end

interpretation str: json_code JString
  by unfold_locales simp_all

interpretation boolean: json_code JBool
  by unfold_locales simp_all

interpretation strs: json_code "list_json JString"
  by (rule str.list_code)

lemma record_code:
  assumes "\<And>x. enc x = JObject (fl x)" and "\<And>x y. map fst (fl x) = map fst (fl y)"
    and "\<And>x. distinct (map fst (fl x))"
    and "\<And>x y. map (sort_json_value \<circ> snd) (fl x) = map (sort_json_value \<circ> snd) (fl y) \<Longrightarrow> x = y"
  shows "json_code enc"
proof
  fix x y assume "sort_json_value (enc x) = sort_json_value (enc y)"
  then have "sort_json_value (JObject (fl x)) = sort_json_value (JObject (fl y))" by (simp only: assms(1))
  from object_fields_inj [OF this assms(2) assms(3)] show "x = y" by (rule assms(4))
qed (simp add: assms(1))

subsection \<open>Decimal numbers\<close>

definition nat_of_dec :: "string \<Rightarrow> nat" where
  "nat_of_dec s = foldl (\<lambda>a c. 10 * a + (of_char c - 48)) 0 s"

lemma dec_digit: "d < 10 \<Longrightarrow> (of_char (char_of (48 + d) :: char) :: nat) = 48 + d"
  by simp

lemma nat_of_dec_dec: "nat_of_dec (dec_nat n) = n"
proof (induction n rule: dec_nat.induct)
  case (1 n)
  show ?case
  proof (cases "n < 10")
    case True
    then show ?thesis by (simp add: dec_nat.simps [of n] nat_of_dec_def)
  next
    case False
    then show ?thesis using 1 [OF False] by (simp add: dec_nat.simps [of n] nat_of_dec_def)
  qed
qed

lemma dec_nat_inj: "dec_nat a = dec_nat b \<longleftrightarrow> a = b"
  by (metis nat_of_dec_dec)

lemma dec_nat_digit: "c \<in> set (dec_nat n) \<Longrightarrow> 48 \<le> (of_char c :: nat) \<and> (of_char c :: nat) \<le> 57"
proof (induction n rule: dec_nat.induct)
  case (1 n)
  then show ?case by (cases "n < 10") (auto simp: dec_nat.simps [of n])
qed

lemma dec_nat_digits: "c \<in> set (dec_nat n) \<Longrightarrow> 48 \<le> (of_char c :: nat)"
  using dec_nat_digit by blast

lemma dec_nat_nonempty [simp]: "dec_nat n \<noteq> []"
  by (subst dec_nat.simps) simp

end
