(* ===== verification/Proof_Capsule.thy ===== *)
theory Proof_Capsule
  imports Redaction Json
begin

text \<open>
  Proof capsules: the schema (\<open>src/src/proof/schema.rs\<close>) in the default build, the canonical JSON form
  (\<open>canonical.rs\<close>), native signatures (\<open>signing.rs\<close>), DSSE envelopes (\<open>dsse.rs\<close>) and the scorecard
  (\<open>scorecard.rs\<close>).

  A derived \<open>Serialize\<close> is the function \<open>..._json\<close> that writes the fields in their declared order. Ed25519,
  base64, the text of a UUID and of a time stamp, and the compact writer of serde_json are the record
  \<open>capsule_env\<close>; \<open>capsule_env_ok\<close> states what is documented of them.
\<close>

subsection \<open>The schema\<close>

definition DEFAULT_PROOF_CAPSULE_LIMITATIONS :: "string list" where
  "DEFAULT_PROOF_CAPSULE_LIMITATIONS =
     [''runtime_attestation_only'',
      ''does_not_prove_correct_execution'',
      ''does_not_prove_absence_of_external_side_effects'',
      ''does_not_prove_external_side_effects_absent'',
      ''does_not_include_raw_snapshot_memory'',
      ''does_not_guarantee_full_deterministic_replay'',
      ''does_not_restore_stack_or_registers'',
      ''execution_state_is_memory_globals_and_table_metadata'',
      ''blocked_sync_wasi_io_cancellation_is_cooperative'',
      ''trusts_nexus_runtime_and_host_boundary'',
      ''proof_trusts_nexus_runtime_and_host_boundary'']"

datatype snapshot_kind = LatestRuntime | EmptyBaseline | DiffKind

record proof_subject =
  su_run_id :: uuid
  su_tool_name :: string
  su_started_at :: time
  su_finished_at :: time
  su_duration_ms :: u64

record tool_identity =
  ti_module_digest :: typed_digest
  ti_module_name :: string
  ti_entrypoint :: string

record input_identity =
  ii_digest :: typed_digest
  ii_media_type :: string
  ii_raw_included :: bool

datatype policy_enforcement_mode =
    UnprofiledDev
  | ProfileValidatedOnly
  | ProfileLoadedMcp
  | ProfileEnforcedMcpCapabilitiesOnly
  | ProfileEnforcedMcpToolAndCapability
  | ProfileEnforcedRuntime

record policy_profile_ref =
  pp_digest :: "typed_digest option"
  pp_name :: "string option"
  pp_mode :: policy_enforcement_mode

record capability_evidence =
  ev_required :: "string list"
  ev_granted :: "string list"
  ev_mismatch :: "string list option"

record snapshot_evidence =
  se_snapshot_id :: uuid
  se_kind :: snapshot_kind
  se_memory_digest :: typed_digest
  se_original_size :: u64
  se_compressed_size :: u64

record failure_evidence =
  fe_category :: string
  fe_requires_rollback :: bool
  fe_deterministic :: "bool option"
  fe_error_summary :: string

record rollback_evidence =
  re_occurred :: bool
  re_from_snapshot_id :: "uuid option"
  re_reason :: "string option"

record branch_race_evidence =
  br_source_snapshot_id :: "uuid option"
  br_winner_branch_id :: string
  br_branches_tried :: u32
  br_branches_succeeded :: u32

record signature_envelope =
  sg_signer :: string
  sg_key_id :: string
  sg_signature :: string
  sg_payload_digest :: typed_digest

record proof_capsule =
  pc_version :: string
  pc_capsule_id :: uuid
  pc_subject :: proof_subject
  pc_tool :: tool_identity
  pc_input :: input_identity
  pc_policy :: policy_profile_ref
  pc_capabilities :: capability_evidence
  pc_snapshot :: "snapshot_evidence option"
  pc_failure :: "failure_evidence option"
  pc_rollback :: "rollback_evidence option"
  pc_branches :: "branch_race_evidence option"
  pc_redaction :: redaction_report
  pc_limitations :: "string list"
  pc_signature :: "signature_envelope option"

text \<open>\<open>ProofCapsuleBuilder::new(..).build()\<close>.\<close>

definition capsule_builder :: "uuid \<Rightarrow> uuid \<Rightarrow> time \<Rightarrow> string \<Rightarrow> typed_digest \<Rightarrow> typed_digest \<Rightarrow> proof_capsule" where
  "capsule_builder capsule_id run_id now name module_digest input_digest =
     \<lparr>pc_version = ''1'', pc_capsule_id = capsule_id,
      pc_subject = \<lparr>su_run_id = run_id, su_tool_name = name, su_started_at = now, su_finished_at = now, su_duration_ms = 0\<rparr>,
      pc_tool = \<lparr>ti_module_digest = module_digest, ti_module_name = name, ti_entrypoint = ''_start''\<rparr>,
      pc_input = \<lparr>ii_digest = input_digest, ii_media_type = ''application/json'', ii_raw_included = False\<rparr>,
      pc_policy = \<lparr>pp_digest = None, pp_name = None, pp_mode = UnprofiledDev\<rparr>,
      pc_capabilities = \<lparr>ev_required = [], ev_granted = [], ev_mismatch = None\<rparr>,
      pc_snapshot = None, pc_failure = None, pc_rollback = None, pc_branches = None,
      pc_redaction = \<lparr>hashed_fields = [], truncated_fields = [], removed_fields = [], hmac_fields = [''input.digest'']\<rparr>,
      pc_limitations = DEFAULT_PROOF_CAPSULE_LIMITATIONS, pc_signature = None\<rparr>"

record proof_scorecard =
  sc_capsule_id :: uuid
  sc_version :: string
  sc_has_signature :: bool
  sc_has_failure :: bool
  sc_has_rollback :: bool
  sc_redaction_count :: nat
  sc_limitations_count :: nat
  sc_pass :: bool

definition scorecard_from_capsule :: "proof_capsule \<Rightarrow> proof_scorecard" where
  "scorecard_from_capsule c =
     \<lparr>sc_capsule_id = pc_capsule_id c, sc_version = pc_version c, sc_has_signature = (pc_signature c \<noteq> None),
      sc_has_failure = (pc_failure c \<noteq> None),
      sc_has_rollback = (case pc_rollback c of None \<Rightarrow> False | Some r \<Rightarrow> re_occurred r),
      sc_redaction_count = length (hashed_fields (pc_redaction c)) + length (hmac_fields (pc_redaction c))
        + length (truncated_fields (pc_redaction c)) + length (removed_fields (pc_redaction c)),
      sc_limitations_count = length (pc_limitations c),
      sc_pass = (pc_failure c = None \<and> ev_mismatch (pc_capabilities c) = None)\<rparr>"

subsection \<open>Serialization\<close>

record capsule_env =
  cv_proof :: proof_env
  cv_uuid :: "uuid \<Rightarrow> string"
  cv_time :: "time \<Rightarrow> string"
  cv_to_vec :: "u64 json \<Rightarrow> bytes option"
  cv_verifying_key :: "bytes \<Rightarrow> bytes"
  cv_sign :: "bytes \<Rightarrow> bytes \<Rightarrow> bytes"
  cv_verify :: "bytes \<Rightarrow> bytes \<Rightarrow> bytes \<Rightarrow> bool"
  cv_base64 :: "bytes \<Rightarrow> string"
  cv_unbase64 :: "string \<Rightarrow> bytes option"

definition typed_digest_json :: "typed_digest \<Rightarrow> u64 json" where
  "typed_digest_json d = JObject [(''algorithm'', JString (td_algorithm d)), (''value'', JString (td_value d)),
     (''public_recomputable'', JBool (public_recomputable d))]"

fun snapshot_kind_json :: "snapshot_kind \<Rightarrow> u64 json" where
  "snapshot_kind_json LatestRuntime = JString ''LatestRuntime''"
| "snapshot_kind_json EmptyBaseline = JString ''EmptyBaseline''"
| "snapshot_kind_json DiffKind = JString ''Diff''"

definition subject_json :: "capsule_env \<Rightarrow> proof_subject \<Rightarrow> u64 json" where
  "subject_json ce s = JObject [(''run_id'', JString (cv_uuid ce (su_run_id s))), (''tool_name'', JString (su_tool_name s)),
     (''started_at'', JString (cv_time ce (su_started_at s))), (''finished_at'', JString (cv_time ce (su_finished_at s))),
     (''duration_ms'', JNumber (su_duration_ms s))]"

definition tool_identity_json :: "tool_identity \<Rightarrow> u64 json" where
  "tool_identity_json t = JObject [(''module_digest'', typed_digest_json (ti_module_digest t)),
     (''module_name'', JString (ti_module_name t)), (''entrypoint'', JString (ti_entrypoint t))]"

definition input_identity_json :: "input_identity \<Rightarrow> u64 json" where
  "input_identity_json i = JObject [(''digest'', typed_digest_json (ii_digest i)), (''media_type'', JString (ii_media_type i)),
     (''raw_included'', JBool (ii_raw_included i))]"

fun mode_json :: "policy_enforcement_mode \<Rightarrow> u64 json" where
  "mode_json UnprofiledDev = JString ''UnprofiledDev''"
| "mode_json ProfileValidatedOnly = JString ''ProfileValidatedOnly''"
| "mode_json ProfileLoadedMcp = JString ''ProfileLoadedMcp''"
| "mode_json ProfileEnforcedMcpCapabilitiesOnly = JString ''ProfileEnforcedMcpCapabilitiesOnly''"
| "mode_json ProfileEnforcedMcpToolAndCapability = JString ''ProfileEnforcedMcpToolAndCapability''"
| "mode_json ProfileEnforcedRuntime = JString ''ProfileEnforcedRuntime''"

definition policy_json :: "policy_profile_ref \<Rightarrow> u64 json" where
  "policy_json p = JObject [(''profile_digest'', option_json typed_digest_json (pp_digest p)),
     (''profile_name'', option_json JString (pp_name p)), (''mode'', mode_json (pp_mode p))]"

definition capabilities_json :: "capability_evidence \<Rightarrow> u64 json" where
  "capabilities_json e = JObject [(''required'', list_json JString (ev_required e)),
     (''granted'', list_json JString (ev_granted e)), (''mismatch'', option_json (list_json JString) (ev_mismatch e))]"

definition snapshot_evidence_json :: "capsule_env \<Rightarrow> snapshot_evidence \<Rightarrow> u64 json" where
  "snapshot_evidence_json ce s = JObject [(''snapshot_id'', JString (cv_uuid ce (se_snapshot_id s))),
     (''snapshot_kind'', snapshot_kind_json (se_kind s)), (''memory_digest'', typed_digest_json (se_memory_digest s)),
     (''original_size'', JNumber (se_original_size s)), (''compressed_size'', JNumber (se_compressed_size s))]"

definition failure_json :: "failure_evidence \<Rightarrow> u64 json" where
  "failure_json f = JObject [(''failure_category'', JString (fe_category f)),
     (''requires_rollback'', JBool (fe_requires_rollback f)), (''deterministic'', option_json JBool (fe_deterministic f)),
     (''error_summary'', JString (fe_error_summary f))]"

definition rollback_json :: "capsule_env \<Rightarrow> rollback_evidence \<Rightarrow> u64 json" where
  "rollback_json ce r = JObject [(''occurred'', JBool (re_occurred r)),
     (''from_snapshot_id'', option_json (\<lambda>i. JString (cv_uuid ce i)) (re_from_snapshot_id r)),
     (''reason'', option_json JString (re_reason r))]"

definition branches_json :: "capsule_env \<Rightarrow> branch_race_evidence \<Rightarrow> u64 json" where
  "branches_json ce b = JObject [(''source_snapshot_id'', option_json (\<lambda>i. JString (cv_uuid ce i)) (br_source_snapshot_id b)),
     (''winner_branch_id'', JString (br_winner_branch_id b)), (''branches_tried'', JNumber (ucast (br_branches_tried b))),
     (''branches_succeeded'', JNumber (ucast (br_branches_succeeded b)))]"

definition redaction_json :: "redaction_report \<Rightarrow> u64 json" where
  "redaction_json r = JObject [(''hashed_fields'', list_json JString (hashed_fields r)),
     (''truncated_fields'', list_json JString (truncated_fields r)), (''removed_fields'', list_json JString (removed_fields r)),
     (''hmac_fields'', list_json JString (hmac_fields r))]"

definition signature_json :: "signature_envelope \<Rightarrow> u64 json" where
  "signature_json s = JObject [(''signer'', JString (sg_signer s)), (''key_id'', JString (sg_key_id s)),
     (''signature'', JString (sg_signature s)), (''signed_payload_digest'', typed_digest_json (sg_payload_digest s))]"

definition capsule_json :: "capsule_env \<Rightarrow> proof_capsule \<Rightarrow> u64 json" where
  "capsule_json ce c = JObject [(''version'', JString (pc_version c)), (''capsule_id'', JString (cv_uuid ce (pc_capsule_id c))),
     (''subject'', subject_json ce (pc_subject c)), (''tool'', tool_identity_json (pc_tool c)),
     (''input'', input_identity_json (pc_input c)), (''policy'', policy_json (pc_policy c)),
     (''capabilities'', capabilities_json (pc_capabilities c)),
     (''snapshot'', option_json (snapshot_evidence_json ce) (pc_snapshot c)),
     (''failure'', option_json failure_json (pc_failure c)), (''rollback'', option_json (rollback_json ce) (pc_rollback c)),
     (''branches'', option_json (branches_json ce) (pc_branches c)), (''redaction'', redaction_json (pc_redaction c)),
     (''limitations'', list_json JString (pc_limitations c)), (''signature'', option_json signature_json (pc_signature c))]"

subsection \<open>Canonical form\<close>

definition canonical_bytes :: "capsule_env \<Rightarrow> proof_capsule \<Rightarrow> bytes option" where
  "canonical_bytes ce c = cv_to_vec ce (sort_json_value (capsule_json ce (c\<lparr>pc_signature := None\<rparr>)))"

definition capsule_digest :: "capsule_env \<Rightarrow> proof_capsule \<Rightarrow> typed_digest option" where
  "capsule_digest ce c = map_option (sha256_public (cv_proof ce)) (canonical_bytes ce c)"

subsection \<open>Signing\<close>

datatype proof_signing_config = EphemeralDedicated | SigningFromEnv string

definition signing_key_from_env :: "capsule_env \<Rightarrow> string \<Rightarrow> bytes result" where
  "signing_key_from_env ce var =
     (case pe_var (cv_proof ce) var of
        None \<Rightarrow> Inl (ConfigError ''proof signing seed env var {var} is unset or not valid Unicode'')
      | Some raw \<Rightarrow>
          (case cv_unbase64 ce (trim raw) of
             None \<Rightarrow> Inl (ConfigError ''proof signing seed env var {var} is not valid base64'')
           | Some seed \<Rightarrow>
               (if length seed = 32 then Inr seed
                else Inl (ConfigError ''proof signing seed env var {var} must decode to 32 bytes''))))"

text \<open>The fresh key of \<open>EphemeralDedicated\<close> is an argument.\<close>

definition signing_key :: "capsule_env \<Rightarrow> bytes \<Rightarrow> proof_signing_config \<Rightarrow> bytes result" where
  "signing_key ce fresh cfg =
     (case cfg of EphemeralDedicated \<Rightarrow> Inr fresh | SigningFromEnv var \<Rightarrow> signing_key_from_env ce var)"

definition verifying_key_id :: "bytes \<Rightarrow> string" where
  "verifying_key_id vk = to_hex vk"

text \<open>\<open>None\<close> is the panic of \<open>expect\<close> when the capsule cannot be serialized.\<close>

definition sign_capsule :: "capsule_env \<Rightarrow> bytes \<Rightarrow> proof_capsule \<Rightarrow> proof_capsule option" where
  "sign_capsule ce key c =
     (case canonical_bytes ce c of
        None \<Rightarrow> None
      | Some payload \<Rightarrow>
          Some (c\<lparr>pc_signature := Some
            \<lparr>sg_signer = ''nexus-hypervisor'', sg_key_id = verifying_key_id (cv_verifying_key ce key),
             sg_signature = to_hex (cv_sign ce key payload), sg_payload_digest = sha256_public (cv_proof ce) payload\<rparr>\<rparr>))"

definition hex_value :: "char \<Rightarrow> byte result" where
  "hex_value c =
     (let n = (of_char c :: nat) in
      if 48 \<le> n \<and> n \<le> 57 then Inr (word_of_nat (n - 48))
      else if 97 \<le> n \<and> n \<le> 102 then Inr (word_of_nat (n - 97 + 10))
      else if 65 \<le> n \<and> n \<le> 70 then Inr (word_of_nat (n - 65 + 10))
      else Inl (InvalidCapability ''proof capsule signature is not valid hex''))"

fun decode_pairs :: "string \<Rightarrow> bytes result" where
  "decode_pairs (a # b # rest) =
     (case hex_value a of
        Inl e \<Rightarrow> Inl e
      | Inr high \<Rightarrow>
          (case hex_value b of
             Inl e \<Rightarrow> Inl e
           | Inr low \<Rightarrow>
               (case decode_pairs rest of
                  Inl e \<Rightarrow> Inl e
                | Inr decoded \<Rightarrow> Inr ((push_bit 4 high OR low) # decoded))))"
| "decode_pairs _ = Inr []"

definition decode_hex :: "string \<Rightarrow> bytes result" where
  "decode_hex s =
     (if length s mod 2 \<noteq> 0 then Inl (InvalidCapability ''proof capsule signature is not valid hex'')
      else decode_pairs s)"

definition verify_capsule :: "capsule_env \<Rightarrow> proof_capsule \<Rightarrow> bytes \<Rightarrow> unit result" where
  "verify_capsule ce c vk =
     (case pc_signature c of
        None \<Rightarrow> Inl (InvalidCapability ''proof capsule missing signature'')
      | Some envelope \<Rightarrow>
     (case canonical_bytes ce c of
        None \<Rightarrow> Inl (SerializationError ''proof capsule canonical serialization: {e}'')
      | Some payload \<Rightarrow>
          (if sg_payload_digest envelope \<noteq> sha256_public (cv_proof ce) payload
           then Inl (InvalidCapability ''proof capsule signed payload digest mismatch'')
           else if sg_key_id envelope \<noteq> verifying_key_id vk
           then Inl (InvalidCapability ''proof capsule key id does not match verifying key'')
           else case decode_hex (sg_signature envelope) of
                  Inl e \<Rightarrow> Inl e
                | Inr sig \<Rightarrow>
                    (if length sig \<noteq> 64 then Inl (InvalidCapability ''proof capsule signature has invalid length'')
                     else if cv_verify ce vk payload sig then Inr ()
                     else Inl (InvalidCapability ''proof capsule signature verification failed'')))))"

subsection \<open>DSSE envelopes\<close>

definition CAPSULE_PAYLOAD_TYPE :: string where
  "CAPSULE_PAYLOAD_TYPE = ''application/vnd.nexus.proof-capsule+json''"

record dsse_signature =
  ds_keyid :: string
  ds_sig :: string

record dsse_envelope =
  de_payload_type :: string
  de_payload :: string
  de_signatures :: "dsse_signature list"

definition pae :: "string \<Rightarrow> bytes \<Rightarrow> bytes" where
  "pae payload_type payload =
     str_bytes (''DSSEv1 '' @ dec_nat (length payload_type) @ '' '' @ payload_type @ '' '' @ dec_nat (length payload) @ '' '')
     @ payload"

definition wrap_capsule :: "capsule_env \<Rightarrow> proof_capsule \<Rightarrow> bytes \<Rightarrow> dsse_envelope result" where
  "wrap_capsule ce c key =
     (case canonical_bytes ce c of
        None \<Rightarrow> Inl (ConfigError ''failed to canonicalize capsule for DSSE: {e}'')
      | Some payload \<Rightarrow>
          Inr \<lparr>de_payload_type = CAPSULE_PAYLOAD_TYPE, de_payload = cv_base64 ce payload,
               de_signatures = [\<lparr>ds_keyid = to_hex (cv_verifying_key ce key),
                 ds_sig = cv_base64 ce (cv_sign ce key (pae CAPSULE_PAYLOAD_TYPE payload))\<rparr>]\<rparr>)"

definition verify_envelope :: "capsule_env \<Rightarrow> dsse_envelope \<Rightarrow> bytes \<Rightarrow> string + unit" where
  "verify_envelope ce envelope vk =
     (if de_payload_type envelope \<noteq> CAPSULE_PAYLOAD_TYPE
      then Inl ''unexpected payloadType {:?} (expected {CAPSULE_PAYLOAD_TYPE:?})''
      else case cv_unbase64 ce (de_payload envelope) of
        None \<Rightarrow> Inl ''payload is not valid base64: {e}''
      | Some payload \<Rightarrow>
          (case find (\<lambda>s. to_ascii_lowercase (ds_keyid s) = to_ascii_lowercase (to_hex vk)) (de_signatures envelope) of
             None \<Rightarrow> Inl ''no signature with keyid {expected_keyid}''
           | Some matching \<Rightarrow>
               (case cv_unbase64 ce (ds_sig matching) of
                  None \<Rightarrow> Inl ''signature is not valid base64: {e}''
                | Some sig \<Rightarrow>
                    (if length sig \<noteq> 64 then Inl ''signature is not 64 bytes''
                     else if cv_verify ce vk (pae (de_payload_type envelope) payload) sig then Inr ()
                     else Inl ''DSSE signature verification failed: {e}''))))"

subsection \<open>The canonical form determines the value\<close>

interpretation kind: json_code snapshot_kind_json
proof
  show "sort_json_value (snapshot_kind_json x) = sort_json_value (snapshot_kind_json y) \<Longrightarrow> x = y" for x y
    by (cases x; cases y) simp_all
  show "sort_json_value (snapshot_kind_json x) \<noteq> JNull" for x by (cases x) simp_all
qed

interpretation pmode: json_code mode_json
proof
  show "sort_json_value (mode_json x) = sort_json_value (mode_json y) \<Longrightarrow> x = y" for x y
    by (cases x; cases y) simp_all
  show "sort_json_value (mode_json x) \<noteq> JNull" for x by (cases x) simp_all
qed

interpretation digest: json_code typed_digest_json
  by (rule record_code [OF typed_digest_json_def]) simp_all

interpretation tool_id: json_code tool_identity_json
  by (rule record_code [OF tool_identity_json_def]) simp_all

interpretation input_id: json_code input_identity_json
  by (rule record_code [OF input_identity_json_def]) simp_all

interpretation policy: json_code policy_json
  by (rule record_code [OF policy_json_def]) (simp_all add: digest.option_iff str.option_iff)

interpretation caps: json_code capabilities_json
  by (rule record_code [OF capabilities_json_def]) (simp_all add: strs.option_iff)

interpretation failure: json_code failure_json
  by (rule record_code [OF failure_json_def]) (simp_all add: boolean.option_iff)

interpretation redaction: json_code redaction_json
  by (rule record_code [OF redaction_json_def]) simp_all

interpretation sig: json_code signature_json
  by (rule record_code [OF signature_json_def]) simp_all

text \<open>What is relied on: the texts of ids and times, the JSON writer and base64 can be read back, and Ed25519
  accepts what it signed.\<close>

definition capsule_env_ok :: "capsule_env \<Rightarrow> bool" where
  "capsule_env_ok ce \<longleftrightarrow> inj (cv_uuid ce) \<and> inj (cv_time ce)
     \<and> (\<forall>v. cv_to_vec ce v \<noteq> None) \<and> (\<forall>v w. cv_to_vec ce v = cv_to_vec ce w \<longrightarrow> v = w)
     \<and> (\<forall>b. cv_unbase64 ce (cv_base64 ce b) = Some b)
     \<and> (\<forall>k m. length (cv_sign ce k m) = 64 \<and> cv_verify ce (cv_verifying_key ce k) m (cv_sign ce k m))"

lemma uuid_code: "capsule_env_ok ce \<Longrightarrow> json_code (\<lambda>i. JString (cv_uuid ce i))"
  by unfold_locales (simp_all add: capsule_env_ok_def inj_eq)

lemma subject_code: "capsule_env_ok ce \<Longrightarrow> json_code (subject_json ce)"
  by (rule record_code [OF subject_json_def]) (simp_all add: capsule_env_ok_def inj_eq)

lemma snapshot_evidence_code: "capsule_env_ok ce \<Longrightarrow> json_code (snapshot_evidence_json ce)"
  by (rule record_code [OF snapshot_evidence_json_def]) (simp_all add: capsule_env_ok_def inj_eq)

lemma rollback_code: "capsule_env_ok ce \<Longrightarrow> json_code (rollback_json ce)"
  by (rule record_code [OF rollback_json_def]) (simp_all add: json_code.option_iff [OF uuid_code] str.option_iff)

lemma ucast_u32_inj: "(ucast (a :: u32) :: u64) = ucast b \<longleftrightarrow> a = b"
proof -
  have "unat (ucast w :: u64) = unat w" for w :: u32
    using unsigned_less [where 'a = nat, of w] by (simp add: unsigned_ucast_eq take_bit_nat_eq_self)
  then show ?thesis by (metis word_unat_eq_iff)
qed

lemma branches_code: "capsule_env_ok ce \<Longrightarrow> json_code (branches_json ce)"
  by (rule record_code [OF branches_json_def]) (simp_all add: json_code.option_iff [OF uuid_code] ucast_u32_inj)

lemma capsule_code: "capsule_env_ok ce \<Longrightarrow> json_code (capsule_json ce)"
  by (rule record_code [OF capsule_json_def])
    (simp_all add: json_code.option_iff [OF snapshot_evidence_code] json_code.option_iff [OF rollback_code]
      json_code.option_iff [OF branches_code] json_code.canonical_iff [OF subject_code] failure.option_iff
      sig.option_iff, simp add: capsule_env_ok_def inj_eq)

lemma canonical_bytes_iff:
  assumes "capsule_env_ok ce"
  shows "canonical_bytes ce c = canonical_bytes ce c' \<longleftrightarrow> c\<lparr>pc_signature := None\<rparr> = c'\<lparr>pc_signature := None\<rparr>"
proof -
  have "cv_to_vec ce v = cv_to_vec ce w \<longleftrightarrow> v = w" for v w using assms by (auto simp: capsule_env_ok_def)
  then show ?thesis by (simp add: canonical_bytes_def json_code.canonical_iff [OF capsule_code [OF assms]])
qed

lemma canonical_bytes_total: "capsule_env_ok ce \<Longrightarrow> \<exists>payload. canonical_bytes ce c = Some payload"
  by (simp add: capsule_env_ok_def canonical_bytes_def)

lemma canonical_bytes_sig [simp]: "canonical_bytes ce (c\<lparr>pc_signature := s\<rparr>) = canonical_bytes ce c"
  by (simp add: canonical_bytes_def)

subsection \<open>Hexadecimal and decimal texts\<close>

lemma decode_pairs_from_hex: "from_hex_pairs s = Inr bs \<Longrightarrow> decode_pairs s = Inr bs"
proof (induction s arbitrary: bs rule: from_hex_pairs.induct)
  case (1 a b rest)
  have v: "hex_val x = Inr w \<Longrightarrow> hex_value x = Inr w" for x w
    by (auto simp: hex_val_def hex_value_def Let_def split: if_splits)
  from 1 show ?case by (auto split: sum.splits dest!: v)
qed auto

lemma decode_hex_to_hex: "decode_hex (to_hex bs) = Inr bs"
  using decode_pairs_from_hex [OF from_hex_pairs_to_hex] by (simp add: decode_hex_def length_to_hex)

lemma dec_nat_no_blank: "CHR '' '' \<notin> set (dec_nat n)"
  using dec_nat_digits [of "CHR '' ''" n] by auto

lemma split_at_first:
  assumes "xs @ c # ys = xs' @ c # ys'" and "c \<notin> set xs" and "c \<notin> set xs'"
  shows "xs = xs' \<and> ys = ys'"
proof -
  have "takeWhile (\<lambda>x. x \<noteq> c) (zs @ c # vs) = zs" if "c \<notin> set zs" for zs vs
    using that by (simp add: takeWhile_tail) (metis takeWhile_eq_all_conv)
  with assms have "xs = xs'" by metis
  with assms(1) show ?thesis by simp
qed

lemma dec_bytes_no_blank: "(32 :: byte) \<notin> set (str_bytes (dec_nat n))"
proof
  assume "(32 :: byte) \<in> set (str_bytes (dec_nat n))"
  then obtain c where c: "c \<in> set (dec_nat n)" "word_of_nat (of_char c) = (32 :: byte)" by (auto simp: str_bytes_def)
  then have "unat (word_of_nat (of_char c) :: byte) = unat (32 :: byte)" by (simp only:)
  then have "(of_char c :: nat) = 32" unfolding unat_of_nat by simp
  then show False using dec_nat_digits [OF c(1)] by simp
qed

lemma pae_bytes:
  "pae t p = str_bytes ''DSSEv1 '' @ str_bytes (dec_nat (length t)) @ 32 # str_bytes t @ 32 # str_bytes (dec_nat (length p)) @ 32 # p"
  by (simp add: pae_def str_bytes_def)

lemma pae_inj:
  assumes "pae t p = pae t' p'"
  shows "t = t' \<and> p = p'"
proof -
  have "str_bytes (dec_nat (length t)) @ 32 # str_bytes t @ 32 # str_bytes (dec_nat (length p)) @ 32 # p
      = str_bytes (dec_nat (length t')) @ 32 # str_bytes t' @ 32 # str_bytes (dec_nat (length p')) @ 32 # p'"
    using assms unfolding pae_bytes same_append_eq .
  from split_at_first [OF this dec_bytes_no_blank dec_bytes_no_blank]
  have "length t = length t'" and r: "str_bytes t @ 32 # str_bytes (dec_nat (length p)) @ 32 # p
      = str_bytes t' @ 32 # str_bytes (dec_nat (length p')) @ 32 # p'"
    by (simp_all only: str_bytes_inj dec_nat_inj)
  then have "str_bytes t = str_bytes t' \<and> 32 # str_bytes (dec_nat (length p)) @ 32 # p = 32 # str_bytes (dec_nat (length p')) @ 32 # p'"
    by (intro append_eq_append_conv [THEN iffD1]) simp_all
  then have "t = t'" and q: "str_bytes (dec_nat (length p)) @ 32 # p = str_bytes (dec_nat (length p')) @ 32 # p'"
    by (simp_all only: str_bytes_inj list.inject simp_thms)
  with split_at_first [OF q dec_bytes_no_blank dec_bytes_no_blank] show ?thesis by simp
qed

subsection \<open>Properties\<close>

lemma sign_capsule_total:
  "capsule_env_ok ce \<Longrightarrow> \<exists>sg. sign_capsule ce key c = Some (c\<lparr>pc_signature := Some sg\<rparr>)"
  using canonical_bytes_total [of ce c] by (auto simp: sign_capsule_def)

lemma sign_verifies:
  assumes "capsule_env_ok ce" and "sign_capsule ce key c = Some sc"
  shows "verify_capsule ce sc (cv_verifying_key ce key) = Inr ()"
proof -
  obtain p where p: "canonical_bytes ce c = Some p" using canonical_bytes_total [OF assms(1)] by blast
  have s: "sc = c\<lparr>pc_signature := Some \<lparr>sg_signer = ''nexus-hypervisor'', sg_key_id = verifying_key_id (cv_verifying_key ce key),
      sg_signature = to_hex (cv_sign ce key p), sg_payload_digest = sha256_public (cv_proof ce) p\<rparr>\<rparr>"
    using assms(2) by (simp add: sign_capsule_def p)
  show ?thesis using assms(1) by (simp add: verify_capsule_def s p decode_hex_to_hex capsule_env_ok_def)
qed

text \<open>
  C20: A signature makes a capsule tamper-evident. A capsule signed by a key verifies under its verifying key, and
  whoever changes anything in the capsule while keeping the signature envelope, be it one nested field, is caught: if the result verifies,
  under any key, then either it is the signed capsule and the key is the signer's, or its canonical bytes are a
  SHA-256 collision with the signed ones.
\<close>

theorem capsule_tamper_evident:
  assumes ok: "capsule_env_ok ce" and sign: "sign_capsule ce key c = Some sc"
  shows "verify_capsule ce sc (cv_verifying_key ce key) = Inr ()
    \<and> (\<forall>t vk. pc_signature t = pc_signature sc \<longrightarrow> verify_capsule ce t vk = Inr () \<longrightarrow>
          t = sc \<and> vk = cv_verifying_key ce key
        \<or> (\<exists>p q. canonical_bytes ce sc = Some p \<and> canonical_bytes ce t = Some q \<and> p \<noteq> q
             \<and> pe_sha256 (cv_proof ce) p = pe_sha256 (cv_proof ce) q))"
proof -
  obtain p where p: "canonical_bytes ce c = Some p" using canonical_bytes_total [OF ok] by blast
  let ?env = "\<lparr>sg_signer = ''nexus-hypervisor'', sg_key_id = verifying_key_id (cv_verifying_key ce key),
      sg_signature = to_hex (cv_sign ce key p), sg_payload_digest = sha256_public (cv_proof ce) p\<rparr>"
  have s: "sc = c\<lparr>pc_signature := Some ?env\<rparr>" using sign by (simp add: sign_capsule_def p)
  have "verify_capsule ce sc (cv_verifying_key ce key) = Inr ()" by (rule sign_verifies [OF ok sign])
  moreover have "t = sc \<and> vk = cv_verifying_key ce key \<or> (\<exists>p q. canonical_bytes ce sc = Some p
      \<and> canonical_bytes ce t = Some q \<and> p \<noteq> q \<and> pe_sha256 (cv_proof ce) p = pe_sha256 (cv_proof ce) q)"
    if t: "pc_signature t = pc_signature sc" and v: "verify_capsule ce t vk = Inr ()" for t vk
  proof -
    obtain q where q: "canonical_bytes ce t = Some q" using canonical_bytes_total [OF ok] by blast
    have d: "pe_sha256 (cv_proof ce) p = pe_sha256 (cv_proof ce) q" and k: "vk = cv_verifying_key ce key"
      using v by (auto simp: verify_capsule_def t s q verifying_key_id_def sha256_public_def split: if_splits)
    have "t = sc" if "p = q"
    proof -
      have "t\<lparr>pc_signature := None\<rparr> = c\<lparr>pc_signature := None\<rparr>" using canonical_bytes_iff [OF ok] p q that by metis
      then show ?thesis using t s by (cases t; cases c) simp
    qed
    with d k p q s show ?thesis by auto
  qed
  ultimately show ?thesis by blast
qed

text \<open>
  DSSE export. The envelope of a capsule verifies under the key that made it and carries the capsule's
  canonical bytes; and the bytes that are signed, the pre-authentication encoding, determine payload type and
  payload, so that no other envelope has the same signed bytes.
\<close>

lemma dsse_export_binds:
  assumes "capsule_env_ok ce"
  shows "\<exists>envelope. wrap_capsule ce c key = Inr envelope
      \<and> verify_envelope ce envelope (cv_verifying_key ce key) = Inr ()
      \<and> cv_unbase64 ce (de_payload envelope) = canonical_bytes ce c
      \<and> (\<forall>ty q. pae ty q = pae (de_payload_type envelope) (the (canonical_bytes ce c))
            \<longleftrightarrow> ty = CAPSULE_PAYLOAD_TYPE \<and> Some q = canonical_bytes ce c)"
proof -
  obtain p where p: "canonical_bytes ce c = Some p" using canonical_bytes_total [OF assms] by blast
  then show ?thesis using assms pae_inj [of _ _ CAPSULE_PAYLOAD_TYPE p]
    by (auto simp: wrap_capsule_def verify_envelope_def capsule_env_ok_def)
qed

subsection \<open>An environment\<close>

text \<open>A writer whose output can be read back: every value starts with a tag, every element of a sequence with 1,
  and a sequence ends with 0.\<close>

definition demo_seq :: "('a \<Rightarrow> bytes) \<Rightarrow> 'a list \<Rightarrow> bytes" where
  "demo_seq f xs = concat (map (\<lambda>x. 1 # f x) xs) @ [0]"

definition demo_char :: "char \<Rightarrow> bytes" where
  "demo_char c = [word_of_nat (of_char c)]"

primrec demo_write :: "u64 json \<Rightarrow> bytes" where
  "demo_write JNull = [0]"
| "demo_write (JBool b) = [1, if b then 1 else 0]"
| "demo_write (JNumber n) = 2 # u64_le n"
| "demo_write (JString s) = 3 # demo_seq demo_char s"
| "demo_write (JArray vs) = 4 # concat (map (\<lambda>x. 1 # x) (map demo_write vs)) @ [0]"
| "demo_write (JObject kvs) = 5 # concat (map (\<lambda>(k, x). 1 # demo_seq demo_char k @ x) (map (map_prod id demo_write) kvs)) @ [0]"

lemma demo_seq_inj:
  assumes "\<And>x y r r'. x \<in> set xs \<Longrightarrow> f x @ r = f y @ r' \<Longrightarrow> x = y \<and> r = r'" and "demo_seq f xs @ r = demo_seq f ys @ r'"
  shows "xs = ys \<and> r = r'"
  using assms
proof (induction xs arbitrary: ys)
  case Nil
  then show ?case by (cases ys) (simp_all add: demo_seq_def)
next
  case (Cons x xs)
  show ?case
  proof (cases ys)
    case (Cons y ys')
    have "f x @ (demo_seq f xs @ r) = f y @ (demo_seq f ys' @ r')" using Cons.prems(2) Cons by (simp add: demo_seq_def)
    with Cons.prems(1) [of x] have "x = y" "demo_seq f xs @ r = demo_seq f ys' @ r'" by auto
    moreover have "xs = ys' \<and> r = r'"
      by (rule Cons.IH) (use Cons.prems(1) in \<open>meson list.set_intros(2)\<close>, fact)
    ultimately show ?thesis using Cons by simp
  qed (use Cons.prems(2) in \<open>simp add: demo_seq_def\<close>)
qed

lemma demo_string_inj: "demo_seq demo_char s @ r = demo_seq demo_char t @ r' \<Longrightarrow> s = t \<and> r = r'"
proof (rule demo_seq_inj)
  fix x y :: char and r r' assume "demo_char x @ r = demo_char y @ r'"
  then have "str_bytes [x] = str_bytes [y] \<and> r = r'" by (simp add: demo_char_def str_bytes_def)
  then show "x = y \<and> r = r'" unfolding str_bytes_inj by simp
qed

lemma demo_write_seq:
  "demo_write (JArray vs) = 4 # demo_seq demo_write vs"
  "demo_write (JObject kvs) = 5 # demo_seq (\<lambda>(k, v). demo_seq demo_char k @ demo_write v) kvs"
  by (simp_all add: demo_seq_def comp_def case_prod_beta)

lemma demo_write_inj: "demo_write v @ r = demo_write w @ r' \<Longrightarrow> v = w \<and> r = r'"
proof (induction v arbitrary: w r r')
  case JNull
  then show ?case by (cases w) simp_all
next
  case (JBool b)
  then show ?case by (cases w) (simp_all split: if_splits)
next
  case (JNumber n)
  then show ?case by (cases w) (auto simp: append_eq_append_conv u64_le_inj)
next
  case (JString s)
  then show ?case by (cases w) (auto dest: demo_string_inj)
next
  case (JArray vs)
  then obtain ws where w: "w = JArray ws" by (cases w) simp_all
  have "demo_seq demo_write vs @ r = demo_seq demo_write ws @ r'" using JArray.prems unfolding w demo_write_seq by simp
  then have "vs = ws \<and> r = r'" by (intro demo_seq_inj [where f = demo_write]) (use JArray.IH in blast)+
  then show ?case using w by simp
next
  case (JObject kvs)
  then obtain ws where w: "w = JObject ws" by (cases w) simp_all
  let ?f = "\<lambda>(k, v). demo_seq demo_char k @ demo_write v"
  have "demo_seq ?f kvs @ r = demo_seq ?f ws @ r'" using JObject.prems unfolding w demo_write_seq by simp
  then have "kvs = ws \<and> r = r'"
  proof (rule demo_seq_inj [rotated])
    fix x y :: "string \<times> u64 json" and s s' assume x: "x \<in> set kvs" and e: "?f x @ s = ?f y @ s'"
    obtain k v l u where xy: "x = (k, v)" "y = (l, u)" by fastforce
    with e have e: "demo_seq demo_char k @ (demo_write v @ s) = demo_seq demo_char l @ (demo_write u @ s')" by simp
    from demo_string_inj [OF e] have "k = l" "demo_write v @ s = demo_write u @ s'" by simp_all
    with JObject.IH [OF x, of v] xy show "x = y \<and> s = s'" by auto
  qed
  then show ?case using w by simp
qed

definition demo_capsule_env :: capsule_env where
  "demo_capsule_env = \<lparr>cv_proof = \<lparr>pe_sha256 = (\<lambda>b. b), pe_hmac = (\<lambda>k b. k @ b), pe_var = (\<lambda>_. None)\<rparr>,
     cv_uuid = (\<lambda>i. dec_nat (unat i)), cv_time = (\<lambda>t. (if t < 0 then CHR ''-'' else CHR ''+'') # dec_nat (nat \<bar>t\<bar>)),
     cv_to_vec = (\<lambda>v. Some (demo_write v)), cv_verifying_key = rev,
     cv_sign = (\<lambda>k m. replicate 64 (word_of_nat (length m))), cv_verify = (\<lambda>vk m s. s = replicate 64 (word_of_nat (length m))),
     cv_base64 = (\<lambda>b. map (\<lambda>w. char_of (unat w)) b), cv_unbase64 = (\<lambda>s. Some (str_bytes s))\<rparr>"

lemma demo_time_inj:
  assumes "(if x < 0 then CHR ''-'' else CHR ''+'') # dec_nat (nat \<bar>x\<bar>) = (if y < 0 then CHR ''-'' else CHR ''+'') # dec_nat (nat \<bar>y\<bar>)"
  shows "x = (y :: int)"
proof -
  have "nat \<bar>x\<bar> = nat \<bar>y\<bar>" using assms by (simp only: list.inject dec_nat_inj)
  moreover have "x < 0 \<longleftrightarrow> y < 0" using assms by (cases "x < 0"; cases "y < 0") simp_all
  ultimately show ?thesis by (cases "x < 0") linarith+
qed

lemma demo_base64: "str_bytes (map (\<lambda>w. char_of (unat w)) bs) = bs"
proof (induction bs)
  case (Cons w bs)
  have "unat w < 256" using unsigned_less [where 'a = nat, of w] by simp
  then show ?case using Cons by (simp add: str_bytes_def)
qed (simp add: str_bytes_def)

lemma demo_capsule_env_ok: "capsule_env_ok demo_capsule_env"
proof -
  have "inj (cv_time demo_capsule_env)" by (rule injI) (rule demo_time_inj, simp only: demo_capsule_env_def capsule_env.select_convs)
  moreover have "inj (cv_uuid demo_capsule_env)"
    by (rule injI) (simp only: demo_capsule_env_def capsule_env.select_convs dec_nat_inj word_unat_eq_iff)
  moreover have "demo_write v = demo_write u \<longleftrightarrow> v = u" for v u using demo_write_inj [of v "[]" u "[]"] by auto
  ultimately show ?thesis unfolding capsule_env_ok_def by (simp add: demo_capsule_env_def demo_base64)
qed

definition demo_capsule :: proof_capsule where
  "demo_capsule = capsule_builder 1 2 3 ''t'' redacted_digest redacted_digest"

lemma demo_limitations: "(demo_capsule\<lparr>pc_signature := sg\<rparr>)\<lparr>pc_limitations := []\<rparr> \<noteq> demo_capsule\<lparr>pc_signature := sg\<rparr>"
  by (simp add: demo_capsule_def capsule_builder_def DEFAULT_PROOF_CAPSULE_LIMITATIONS_def)

theorem capsule_tamper_evident_witness:
  "\<exists>s. sign_capsule demo_capsule_env [1] demo_capsule = Some s \<and> verify_capsule demo_capsule_env s [1] = Inr ()
    \<and> (\<forall>vk. verify_capsule demo_capsule_env (s\<lparr>pc_limitations := []\<rparr>) vk \<noteq> Inr ())"
proof -
  obtain sg where s: "sign_capsule demo_capsule_env [1] demo_capsule = Some (demo_capsule\<lparr>pc_signature := Some sg\<rparr>)"
    using sign_capsule_total [OF demo_capsule_env_ok] by blast
  let ?s = "demo_capsule\<lparr>pc_signature := Some sg\<rparr>" and ?t = "(demo_capsule\<lparr>pc_signature := Some sg\<rparr>)\<lparr>pc_limitations := []\<rparr>"
  have k: "cv_verifying_key demo_capsule_env [1] = [1]" by (simp add: demo_capsule_env_def)
  have h: "pe_sha256 (cv_proof demo_capsule_env) b = b" for b by (simp add: demo_capsule_env_def)
  note te = capsule_tamper_evident [OF demo_capsule_env_ok s, unfolded h k]
  have g: "pc_signature ?t = pc_signature ?s" by simp
  have "verify_capsule demo_capsule_env ?t vk \<noteq> Inr ()" for vk
  proof
    assume "verify_capsule demo_capsule_env ?t vk = Inr ()"
    from te [THEN conjunct2, THEN spec, THEN spec, THEN mp, OF g, THEN mp, OF this] show False
      using demo_limitations [of "Some sg"] by (elim disjE exE conjE) simp_all
  qed
  then show ?thesis using te [THEN conjunct1] s by (intro exI [of _ ?s] conjI) simp_all
qed

end
