(* ===== verification/Proof_Execution.thy ===== *)
theory Proof_Execution
  imports Wasi Proof_Capsule
begin

text \<open>
  Proof-producing executions: \<open>execute_tool_proof\<close> and what it calls in \<open>src/src/hypervisor/mod.rs\<close> (lines 680
  to 1236, default build), with the receipt of \<open>src/src/proof/receipt.rs\<close>.

  The signing key and the HMAC key source are fields of the hypervisor and of its configuration that only this path reads
  and that no operation changes; they are the record \<open>proof_keys\<close>. Fresh ids and clock readings are in
  \<open>proof_call\<close>. The value \<open>None\<close> is a call that does not return, a panic included.
\<close>

subsection \<open>Receipts\<close>

record failure_mode_lite =
  fl_category :: string
  fl_requires_rollback :: bool
  fl_is_deterministic :: "bool option"

record execution_receipt =
  rc_run_id :: uuid
  rc_started_at :: time
  rc_finished_at :: time
  rc_tool_name :: string
  rc_entrypoint :: string
  rc_module_sha256 :: string
  rc_input_sha256 :: typed_digest
  rc_input_bytes_len :: nat
  rc_required_caps :: "string list"
  rc_granted_caps :: "string list"
  rc_policy_mode :: policy_enforcement_mode
  rc_profile :: "(string \<times> string) option"
  rc_snapshot :: "snapshot_evidence option"
  rc_failure :: "failure_mode_lite option"
  rc_rollback :: "(bool \<times> uuid \<times> string) option"
  rc_branches :: "branch_race_evidence option"

record proof_keys =
  pk_signing_key :: bytes
  pk_hmac_key :: proof_hmac_key

record proof_call =
  pf_run_id :: uuid
  pf_capsule_id :: uuid
  pf_started_at :: time
  pf_finished_at :: time

definition proof_verifying_key :: "capsule_env \<Rightarrow> proof_keys \<Rightarrow> bytes" where
  "proof_verifying_key ce pk = cv_verifying_key ce (pk_signing_key pk)"

definition proof_key_id :: "capsule_env \<Rightarrow> proof_keys \<Rightarrow> string" where
  "proof_key_id ce pk = verifying_key_id (proof_verifying_key ce pk)"

subsection \<open>Evidence\<close>

definition hv_snapshot_evidence :: "uuid \<Rightarrow> 'm hypervisor \<Rightarrow> snapshot_evidence" where
  "hv_snapshot_evidence i hv =
     (case nx_current_snapshot hv of
        Some s \<Rightarrow>
          (if snap_id s = i
           then \<lparr>se_snapshot_id = i, se_kind = LatestRuntime,
                 se_memory_digest = \<lparr>td_algorithm = ''sha256'', td_value = memory_checksum s, public_recomputable = True\<rparr>,
                 se_original_size = word_of_nat (original_size s), se_compressed_size = word_of_nat (compressed_size s)\<rparr>
           else \<lparr>se_snapshot_id = i, se_kind = DiffKind, se_memory_digest = redacted_digest, se_original_size = 0,
                 se_compressed_size = 0\<rparr>)
      | None \<Rightarrow> \<lparr>se_snapshot_id = i, se_kind = DiffKind, se_memory_digest = redacted_digest, se_original_size = 0,
                 se_compressed_size = 0\<rparr>)"

definition PROOF_INPUT_HMAC_KEY_ENV :: string where
  "PROOF_INPUT_HMAC_KEY_ENV = ''NEXUS_AEON_HMAC_KEY''"

definition PROOF_INPUT_HMAC_SHORT_BYTES :: nat where
  "PROOF_INPUT_HMAC_SHORT_BYTES = 1024"

definition input_contains_sensitive_value :: "string \<Rightarrow> bool" where
  "input_contains_sensitive_value lowered \<longleftrightarrow>
     list_ex (str_contains lowered) [''api_key'', ''apikey'', ''authorization'', ''bearer '', ''password'', ''secret'', ''token'',
       ''raw_memory'']"

definition input_contains_path_like_value :: "string \<Rightarrow> bool" where
  "input_contains_path_like_value lowered \<longleftrightarrow>
     list_ex (str_contains lowered) [''/home/'', ''/users/'', ''c:/'', ''c:'' @ [CHR 0x5C], [CHR 0x5C, CHR 0x5C], ''/tmp/'']"

definition input_should_use_private_digest :: "bytes \<Rightarrow> bool" where
  "input_should_use_private_digest input_bytes =
     (if length input_bytes \<le> PROOF_INPUT_HMAC_SHORT_BYTES then True
      else let lowered = str_to_lowercase (map (\<lambda>b. char_of (unat b)) input_bytes)
           in input_contains_sensitive_value lowered \<or> input_contains_path_like_value lowered)"

definition input_identity_digest :: "proof_env \<Rightarrow> proof_hmac_key \<Rightarrow> bytes \<Rightarrow> typed_digest" where
  "input_identity_digest pe key input_bytes =
     (if key \<noteq> HmacDisabled then digest_with_key pe key input_bytes
      else if input_should_use_private_digest input_bytes
      then digest_with_key pe (HmacFromEnv PROOF_INPUT_HMAC_KEY_ENV) input_bytes
      else sha256_public pe input_bytes)"

definition failure_lite :: "tool_output \<Rightarrow> failure_mode_lite option" where
  "failure_lite output =
     (case to_error_log output of
        Some el \<Rightarrow> Some \<lparr>fl_category = category (el_failure_mode el),
                       fl_requires_rollback = requires_rollback (el_failure_mode el),
                       fl_is_deterministic = Some (is_deterministic (el_failure_mode el))\<rparr>
      | None \<Rightarrow>
          (if to_success output then None
           else Some \<lparr>fl_category = ''UNKNOWN'', fl_requires_rollback = to_rollback_performed output,
                      fl_is_deterministic = None\<rparr>))"

definition failure_evidence_of ::
  "proof_env \<Rightarrow> proof_hmac_key \<Rightarrow> tool_output \<Rightarrow> failure_mode_lite \<Rightarrow> failure_evidence \<times> (string \<times> redaction_field) list" where
  "failure_evidence_of pe hmac_key output failure =
     (case redact_error_for_field pe hmac_key ''failure.error_summary''
             (case to_error output of Some e \<Rightarrow> e | None \<Rightarrow> fl_category failure) of
        (error_summary, error_redactions) \<Rightarrow>
          (\<lparr>fe_category = fl_category failure, fe_requires_rollback = fl_requires_rollback failure,
            fe_deterministic = fl_is_deterministic failure, fe_error_summary = error_summary\<rparr>, error_redactions))"

text \<open>\<open>build_limitations\<close>; its assertion fails on an empty list.\<close>

definition build_limitations :: "string list option" where
  "build_limitations =
     (if DEFAULT_PROOF_CAPSULE_LIMITATIONS = [] then None else Some DEFAULT_PROOF_CAPSULE_LIMITATIONS)"

subsection \<open>Capsules\<close>

definition unsigned_capsule_from_receipt ::
  "proof_env \<Rightarrow> uuid \<Rightarrow> execution_receipt \<Rightarrow> tool_output \<Rightarrow> proof_hmac_key \<Rightarrow> proof_capsule option" where
  "unsigned_capsule_from_receipt pe capsule_id receipt output hmac_key =
     (let required = rc_required_caps receipt;
          granted_caps = rc_granted_caps receipt;
          mismatch = (if required = [] \<or> required = granted_caps then None else Some required);
          input_redaction = (if td_algorithm (rc_input_sha256 receipt) = ''sha256'' then (''input.digest'', Removed)
            else if td_algorithm (rc_input_sha256 receipt) = ''hmac-sha256'' then (''input.digest'', HmacOrPlaceholder)
            else (''input.digest'', Removed));
          failure = map_option (failure_evidence_of pe hmac_key output) (rc_failure receipt);
          redactions = input_redaction # (case failure of Some (_, rs) \<Rightarrow> rs | None \<Rightarrow> [])
      in case build_limitations of
           None \<Rightarrow> None
         | Some limitations \<Rightarrow>
             Some \<lparr>pc_version = ''1'', pc_capsule_id = capsule_id,
               pc_subject = \<lparr>su_run_id = rc_run_id receipt, su_tool_name = rc_tool_name receipt,
                 su_started_at = rc_started_at receipt, su_finished_at = rc_finished_at receipt,
                 su_duration_ms = to_execution_time_ms output\<rparr>,
               pc_tool = \<lparr>ti_module_digest = \<lparr>td_algorithm = ''sha256'', td_value = rc_module_sha256 receipt,
                   public_recomputable = True\<rparr>,
                 ti_module_name = rc_tool_name receipt, ti_entrypoint = rc_entrypoint receipt\<rparr>,
               pc_input = \<lparr>ii_digest = rc_input_sha256 receipt, ii_media_type = ''application/json'', ii_raw_included = False\<rparr>,
               pc_policy = \<lparr>pp_digest = map_option (\<lambda>(_, toml_sha256). \<lparr>td_algorithm = ''sha256'', td_value = toml_sha256,
                   public_recomputable = True\<rparr>) (rc_profile receipt),
                 pp_name = map_option fst (rc_profile receipt), pp_mode = rc_policy_mode receipt\<rparr>,
               pc_capabilities = \<lparr>ev_required = required, ev_granted = granted_caps, ev_mismatch = mismatch\<rparr>,
               pc_snapshot = rc_snapshot receipt, pc_failure = map_option fst failure,
               pc_rollback = map_option (\<lambda>(occurred, i, reason). \<lparr>re_occurred = occurred, re_from_snapshot_id = Some i,
                   re_reason = Some reason\<rparr>) (rc_rollback receipt),
               pc_branches = rc_branches receipt, pc_redaction = build_report redactions, pc_limitations = limitations,
               pc_signature = None\<rparr>)"

definition capsule_from_receipt ::
  "capsule_env \<Rightarrow> proof_keys \<Rightarrow> uuid \<Rightarrow> execution_receipt \<Rightarrow> tool_output \<Rightarrow> proof_capsule option" where
  "capsule_from_receipt ce pk capsule_id receipt output =
     Option.bind (unsigned_capsule_from_receipt (cv_proof ce) capsule_id receipt output (pk_hmac_key pk))
       (sign_capsule ce (pk_signing_key pk))"

definition proof_receipt ::
  "capsule_env \<Rightarrow> proof_keys \<Rightarrow> proof_call \<Rightarrow> tool_definition \<Rightarrow> bytes \<Rightarrow> tool_output \<Rightarrow> 'm hypervisor \<Rightarrow> execution_receipt" where
  "proof_receipt ce pk pf tool input_bytes output hv =
     \<lparr>rc_run_id = pf_run_id pf, rc_started_at = pf_started_at pf, rc_finished_at = pf_finished_at pf,
      rc_tool_name = tool_name tool, rc_entrypoint = entry_point tool,
      rc_module_sha256 = td_value (sha256_public (cv_proof ce) (wasm_bytes tool)),
      rc_input_sha256 = input_identity_digest (cv_proof ce) (pk_hmac_key pk) input_bytes,
      rc_input_bytes_len = length input_bytes,
      rc_required_caps = map cap_description (required_capabilities tool), rc_granted_caps = [],
      rc_policy_mode = UnprofiledDev, rc_profile = None,
      rc_snapshot = map_option (\<lambda>i. hv_snapshot_evidence i hv) (to_snapshot_id output),
      rc_failure = failure_lite output,
      rc_rollback = (case (to_rollback_performed output, to_snapshot_id output) of
          (True, Some i) \<Rightarrow> Some (True, i, ''restore latest runtime state after failed execution'')
        | _ \<Rightarrow> None),
      rc_branches = None\<rparr>"

definition execute_tool_proof ::
  "'m hv_env \<Rightarrow> capsule_env \<Rightarrow> proof_keys \<Rightarrow> call_inputs \<Rightarrow> proof_call \<Rightarrow> tool_definition \<Rightarrow> bytes option \<Rightarrow> 'm hypervisor
   \<Rightarrow> ((tool_output \<times> proof_capsule) result \<times> 'm hypervisor) option" where
  "execute_tool_proof env ce pk ca pf tool input hv =
     (case input of
        None \<Rightarrow> Some (Inl (SerializationError ''failed to serialize tool input: {e}''), hv)
      | Some input_bytes \<Rightarrow>
          (case execute_tool_with_tokens env ca tool input [] hv of
             None \<Rightarrow> None
           | Some (Inl e, hv') \<Rightarrow> Some (Inl e, hv')
           | Some (Inr output, hv') \<Rightarrow>
               (case capsule_from_receipt ce pk (pf_capsule_id pf) (proof_receipt ce pk pf tool input_bytes output hv') output of
                  None \<Rightarrow> None
                | Some capsule \<Rightarrow> Some (Inr (output, capsule), hv'))))"

subsection \<open>The snapshot of an output\<close>

lemma conclude_snapshot:
  assumes "conclude env ca tool r snap hv = Some (Inr out, hv')"
  shows "to_snapshot_id out = map_option runtime_snapshot_id snap \<and> nx_current_snapshot hv' = nx_current_snapshot hv
    \<and> (to_rollback_performed out \<longrightarrow> snap \<noteq> None)"
proof -
  have ar: "nx_current_snapshot h' = nx_current_snapshot h \<and> (b \<longrightarrow> snap \<noteq> None)"
    if "attempt_rollback env ca snap mode h = Some (b, h')" for mode b and h h' :: "'a hypervisor"
    using that by (auto simp: attempt_rollback_def rollback_runtime_snapshot_def cache_rollback_result_def
        split: if_splits option.splits sum.splits prod.splits)
  show ?thesis
    using assms by (auto simp: conclude_def finish_failure_def finish_success_def failure_output_def success_output_def Let_def
        dest!: ar split: prod.splits option.splits)
qed

lemma snapshot_run_full:
  assumes "snapshot_strategy (nx_config hv) = FullStrategy" and "snapshot_run env ca tool ihash r hv = Some (Inr snap, hv')"
  shows "case snap of
      None \<Rightarrow> xr_pre_call_memory r = None
    | Some rs \<Rightarrow> \<exists>s mem. xr_pre_call_memory r = Some mem \<and> rs = FullSnapshot s \<and> nx_current_snapshot hv' = Some s
        \<and> memory_checksum s = sha256_hex (he_snap env) mem \<and> original_size s = length mem"
  using assms
  by (auto simp: snapshot_run_def create_runtime_snapshot_def create_full_def create_snapshot_def snapshot_new_def Let_def
      split: option.splits sum.splits prod.splits if_splits)

lemma output_snapshot:
  assumes ex: "execute_tool_inner env ca tool (Some bs) tokens pre rs hv = Some (Inr out, hv')"
    and au: "authorize_call env (ca_now ca) tokens (required_capabilities tool) hv = Some (Inr ())"
    and run: "run_guest env ca tool [bs] pre rs (ready env ca tool hv) = Some (Inr r, hv3)"
  shows "to_rollback_performed out \<longrightarrow> to_snapshot_id out \<noteq> None"
    and "snapshot_strategy (nx_config hv) = FullStrategy \<Longrightarrow>
      case to_snapshot_id out of
        None \<Rightarrow> xr_pre_call_memory r = None
      | Some i \<Rightarrow> \<exists>s mem. xr_pre_call_memory r = Some mem \<and> nx_current_snapshot hv' = Some s \<and> snap_id s = i
          \<and> memory_checksum s = sha256_hex (he_snap env) mem \<and> original_size s = length mem"
proof -
  define hv4 where "hv4 = hv3\<lparr>nx_fuel_policy := record_fuel (tool_name tool) (xr_fuel_consumed r) (nx_fuel_policy hv3)\<rparr>"
  have cfg: "nx_config hv4 = nx_config hv"
    using run_guest_frame [OF run] by (simp add: hv4_def frame_def ready_def Let_def install_budget_keeps)
  obtain snap hv5 where sr: "snapshot_run env ca tool (sha256_hex (he_snap env) bs) r hv4 = Some (Inr snap, hv5)"
    and co: "conclude env ca tool r snap hv5 = Some (Inr out, hv')"
    using ex unfolding execute_tool_inner_ready [OF au] run
    by (auto simp: hv4_def [symmetric] Let_def split: option.splits sum.splits prod.splits)
  note cs = conclude_snapshot [OF co]
  show "to_rollback_performed out \<longrightarrow> to_snapshot_id out \<noteq> None" using cs by auto
  show "case to_snapshot_id out of
        None \<Rightarrow> xr_pre_call_memory r = None
      | Some i \<Rightarrow> \<exists>s mem. xr_pre_call_memory r = Some mem \<and> nx_current_snapshot hv' = Some s \<and> snap_id s = i
          \<and> memory_checksum s = sha256_hex (he_snap env) mem \<and> original_size s = length mem"
    if full: "snapshot_strategy (nx_config hv) = FullStrategy"
    using snapshot_run_full [OF full [folded cfg] sr] cs by (auto split: option.splits)
qed

subsection \<open>What a capsule attests\<close>

lemma digest_with_key_private: "\<not> public_recomputable (digest_with_key pe key bs)"
  by (auto simp: digest_with_key_def redacted_digest_def hmac_sha256_private_def split: proof_hmac_key.splits option.splits)

lemma build_limitations_eq: "build_limitations = Some DEFAULT_PROOF_CAPSULE_LIMITATIONS"
  by (simp add: build_limitations_def DEFAULT_PROOF_CAPSULE_LIMITATIONS_def)

text \<open>The capsule says of the output what the output says of the run.\<close>

definition attests ::
  "capsule_env \<Rightarrow> proof_keys \<Rightarrow> tool_definition \<Rightarrow> bytes \<Rightarrow> tool_output \<Rightarrow> proof_capsule \<Rightarrow> bool" where
  "attests ce pk tool bs out cap \<longleftrightarrow>
     verify_capsule ce cap (proof_verifying_key ce pk) = Inr ()
     \<and> ti_module_digest (pc_tool cap) = sha256_public (cv_proof ce) (wasm_bytes tool)
     \<and> (pc_failure cap = None \<longleftrightarrow> to_success out)
     \<and> (\<forall>fe. pc_failure cap = Some fe \<longrightarrow> (\<exists>el. to_error_log out = Some el
          \<and> fe_category fe = category (el_failure_mode el) \<and> fe_requires_rollback fe = requires_rollback (el_failure_mode el)
          \<and> fe_deterministic fe = Some (is_deterministic (el_failure_mode el))
          \<and> fe_error_summary fe = fst (redact_error_for_field (cv_proof ce) (pk_hmac_key pk) ''failure.error_summary''
               (describe (el_failure_mode el)))))
     \<and> (if to_rollback_performed out
        then \<exists>rb. pc_rollback cap = Some rb \<and> re_occurred rb \<and> re_from_snapshot_id rb = to_snapshot_id out
        else pc_rollback cap = None)
     \<and> (sc_pass (scorecard_from_capsule cap) \<longleftrightarrow> to_success out)
     \<and> map_option se_snapshot_id (pc_snapshot cap) = to_snapshot_id out
     \<and> (public_recomputable (ii_digest (pc_input cap)) \<longrightarrow> pk_hmac_key pk = HmacDisabled \<and> 1024 < length bs
          \<and> \<not> input_should_use_private_digest bs)"

lemma failure_lite_cases:
  assumes "verdict r out hv hv'"
  shows "failure_lite out = (if to_success out then None else
      Some \<lparr>fl_category = category (el_failure_mode (the (to_error_log out))),
        fl_requires_rollback = requires_rollback (el_failure_mode (the (to_error_log out))),
        fl_is_deterministic = Some (is_deterministic (el_failure_mode (the (to_error_log out))))\<rparr>)"
    and "\<not> to_success out \<Longrightarrow> \<exists>el. to_error_log out = Some el \<and> to_error out = Some (describe (el_failure_mode el))"
  using assms by (auto simp: failure_lite_def verdict_def)

lemma capsule_attests:
  assumes ok: "capsule_env_ok ce" and v: "verdict r out hv hv'" and rb: "to_rollback_performed out \<longrightarrow> to_snapshot_id out \<noteq> None"
    and caps: "required_capabilities tool = []"
  shows "\<exists>cap. capsule_from_receipt ce pk cid (proof_receipt ce pk pf tool bs out hv') out = Some cap
    \<and> attests ce pk tool bs out cap \<and> pc_snapshot cap = map_option (\<lambda>i. hv_snapshot_evidence i hv') (to_snapshot_id out)"
proof -
  let ?rc = "proof_receipt ce pk pf tool bs out hv'"
  obtain c where c: "unsigned_capsule_from_receipt (cv_proof ce) cid ?rc out (pk_hmac_key pk) = Some c"
    by (simp add: unsigned_capsule_from_receipt_def build_limitations_eq Let_def)
  obtain sg where sg: "sign_capsule ce (pk_signing_key pk) c = Some (c\<lparr>pc_signature := Some sg\<rparr>)"
    using sign_capsule_total [OF ok] by blast
  let ?cap = "c\<lparr>pc_signature := Some sg\<rparr>"
  have ver: "verify_capsule ce ?cap (proof_verifying_key ce pk) = Inr ()"
    unfolding proof_verifying_key_def by (rule sign_verifies [OF ok sg])
  have cf: "pc_tool c = \<lparr>ti_module_digest = sha256_public (cv_proof ce) (wasm_bytes tool), ti_module_name = tool_name tool,
      ti_entrypoint = entry_point tool\<rparr>"
    "pc_snapshot c = map_option (\<lambda>i. hv_snapshot_evidence i hv') (to_snapshot_id out)"
    "pc_failure c = map_option (fst \<circ> failure_evidence_of (cv_proof ce) (pk_hmac_key pk) out) (failure_lite out)"
    "ev_mismatch (pc_capabilities c) = None" "ii_digest (pc_input c) = input_identity_digest (cv_proof ce) (pk_hmac_key pk) bs"
    "pc_rollback c = (case (to_rollback_performed out, to_snapshot_id out) of
        (True, Some i) \<Rightarrow> Some \<lparr>re_occurred = True, re_from_snapshot_id = Some i,
          re_reason = Some ''restore latest runtime state after failed execution''\<rparr> | _ \<Rightarrow> None)"
    using c by (auto simp: unsigned_capsule_from_receipt_def build_limitations_eq Let_def proof_receipt_def sha256_public_def caps
        option.map_comp split: option.splits bool.splits)
  have "se_snapshot_id (hv_snapshot_evidence i hv') = i" for i by (simp add: hv_snapshot_evidence_def split: option.split)
  then have "map_option se_snapshot_id (pc_snapshot c) = to_snapshot_id out" by (simp add: cf option.map_comp comp_def option.map_ident)
  moreover have "public_recomputable (ii_digest (pc_input c)) \<longrightarrow> pk_hmac_key pk = HmacDisabled \<and> 1024 < length bs
      \<and> \<not> input_should_use_private_digest bs"
    unfolding cf(5) by (auto simp: input_identity_digest_def digest_with_key_private input_should_use_private_digest_def
        PROOF_INPUT_HMAC_SHORT_BYTES_def split: if_splits)
  moreover have "pc_failure c = None \<longleftrightarrow> to_success out" by (simp add: cf(3) failure_lite_cases(1) [OF v])
  moreover have "\<exists>el. to_error_log out = Some el
      \<and> fe_category fe = category (el_failure_mode el) \<and> fe_requires_rollback fe = requires_rollback (el_failure_mode el)
      \<and> fe_deterministic fe = Some (is_deterministic (el_failure_mode el))
      \<and> fe_error_summary fe = fst (redact_error_for_field (cv_proof ce) (pk_hmac_key pk) ''failure.error_summary''
           (describe (el_failure_mode el)))" if fe: "pc_failure c = Some fe" for fe
  proof -
    have "\<not> to_success out" using fe by (auto simp: cf(3) failure_lite_cases(1) [OF v])
    with fe failure_lite_cases(2) [OF v this] show ?thesis
      by (auto simp: cf(3) failure_lite_cases(1) [OF v] failure_evidence_of_def split: prod.splits)
  qed
  moreover have "if to_rollback_performed out
      then \<exists>rb. pc_rollback c = Some rb \<and> re_occurred rb \<and> re_from_snapshot_id rb = to_snapshot_id out else pc_rollback c = None"
    using rb by (auto simp: cf(6))
  ultimately have "attests ce pk tool bs out ?cap"
    unfolding attests_def using ver by (simp add: cf(1,4) scorecard_from_capsule_def)
  then show ?thesis using c sg cf(2) by (simp add: capsule_from_receipt_def)
qed


definition demo_keys :: proof_keys where
  "demo_keys = \<lparr>pk_signing_key = [1], pk_hmac_key = HmacDisabled\<rparr>"

definition demo_proof_call :: proof_call where
  "demo_proof_call = \<lparr>pf_run_id = 1, pf_capsule_id = 2, pf_started_at = 3, pf_finished_at = 4\<rparr>"


end
