(* ===== verification/Rate_Window.thy ===== *)
theory Rate_Window
  imports Prelude
begin

text \<open>
  The contract of a limiter that counts calls in windows of a fixed length. Two components keep such a limiter: the
  LLM recovery policy and the tenants of the HTTP transport. A window starts at the first call after the previous
  one has run out, and within it no more calls than the quota are granted.
\<close>

text \<open>\<open>room n s\<close> says that the state can count \<open>n\<close> more calls; \<open>mine c\<close> that the call \<open>c\<close> is counted by this limiter.\<close>

locale rate_window =
  fixes window :: "'s \<Rightarrow> nat option" and used :: "'s \<Rightarrow> nat" and quota :: nat and period :: nat
    and room :: "nat \<Rightarrow> 's \<Rightarrow> bool" and mine :: "'c \<Rightarrow> bool" and moment :: "'c \<Rightarrow> nat" and check :: "'c \<Rightarrow> 's \<Rightarrow> bool \<times> 's"
  assumes period: "0 < period"
    and check_other: "room (Suc n) s \<Longrightarrow> \<not> mine c \<Longrightarrow> check c s = (ok, s') \<Longrightarrow>
      \<not> ok \<and> window s' = window s \<and> used s' = used s"
    and check_restart: "room (Suc n) s \<Longrightarrow> mine c \<Longrightarrow> check c s = (ok, s') \<Longrightarrow>
      (case window s of None \<Rightarrow> True | Some w \<Rightarrow> w + period \<le> moment c) \<Longrightarrow>
      window s' = Some (moment c) \<and> of_bool ok \<le> used s' \<and> (ok \<longrightarrow> 0 < quota)"
    and check_within: "room (Suc n) s \<Longrightarrow> mine c \<Longrightarrow> check c s = (ok, s') \<Longrightarrow> window s = Some w \<Longrightarrow> \<not> w + period \<le> moment c \<Longrightarrow>
      window s' = Some w \<and> used s + of_bool ok \<le> used s' \<and> (ok \<longrightarrow> used s < quota)"
    and check_room: "room (Suc n) s \<Longrightarrow> check c s = (ok, s') \<Longrightarrow> room n s'"
begin

text \<open>For each call the window it was counted in and whether it was granted.\<close>

fun grants :: "'c list \<Rightarrow> 's \<Rightarrow> (nat option \<times> bool) list" where
  "grants [] s = []"
| "grants (c # cs) s = (case check c s of (ok, s') \<Rightarrow> (window s', ok) # grants cs s')"

abbreviation granted_in :: "nat option \<Rightarrow> (nat option \<times> bool) list \<Rightarrow> nat" where
  "granted_in w es \<equiv> length (filter (\<lambda>e. e = (w, True)) es)"

definition later :: "'s \<Rightarrow> nat option \<Rightarrow> bool" where
  "later s w \<longleftrightarrow> w = window s \<or> (\<exists>v. w = Some v \<and> (\<forall>u. window s = Some u \<longrightarrow> u + period \<le> v))"

lemma later_trans: "later s' w \<Longrightarrow> later s (window s') \<Longrightarrow> later s w"
  unfolding later_def by (cases "window s"; cases "window s'"; cases w) auto

lemma grants_bounded:
  assumes "room (length cs) s"
  shows "(\<forall>e \<in> set (grants cs s). later s (fst e)) \<and> granted_in (window s) (grants cs s) \<le> quota - (if window s = None then 0 else used s)
    \<and> (\<forall>w. granted_in w (grants cs s) \<le> quota)"
  using assms
proof (induction cs arbitrary: s)
  case (Cons c cs)
  obtain ok s' where ch: "check c s = (ok, s')" by fastforce
  have r: "room (Suc (length cs)) s" using Cons.prems by simp
  have IH: "\<forall>e \<in> set (grants cs s'). later s' (fst e)"
    "granted_in (window s') (grants cs s') \<le> quota - (if window s' = None then 0 else used s')"
    "\<And>w. granted_in w (grants cs s') \<le> quota"
    using Cons.IH [OF check_room [OF r ch]] by blast+
  consider (other) "\<not> mine c" | (restart) "mine c" "case window s of None \<Rightarrow> True | Some w \<Rightarrow> w + period \<le> moment c"
    | (within) w where "mine c" "window s = Some w" "\<not> w + period \<le> moment c" by (cases "window s") auto
  then show ?case
  proof cases
    case other
    have o: "\<not> ok" "window s' = window s" "used s' = used s" using check_other [OF r other ch] by blast+
    have "later s w = later s' w" for w by (simp add: later_def o)
    with IH o show ?thesis by (auto simp: ch later_def)
  next
    case restart
    have o: "window s' = Some (moment c)" "of_bool ok \<le> used s'" "ok \<Longrightarrow> 0 < quota" using check_restart [OF r restart(1) ch restart(2)] by blast+
    have l: "later s (window s')" using restart(2) by (auto simp: later_def o split: option.splits)
    have ne: "window s \<noteq> window s'" using restart(2) period by (auto simp: o split: option.splits)
    have none: "granted_in (window s) (grants cs s') = 0"
    proof -
      have "fst e \<noteq> window s" if "e \<in> set (grants cs s')" for e
        using IH(1) that restart(2) period by (fastforce simp: later_def o split: option.splits)
      then have "(window s, True) \<notin> set (grants cs s')" by fastforce
      then show ?thesis by (auto simp: filter_empty_conv)
    qed
    have all: "granted_in w (grants (c # cs) s) \<le> quota" for w
      using IH(2) IH(3) [of w] o by (cases "w = window s'"; cases ok) (auto simp: ch)
    show ?thesis using IH(1) none all ne l by (auto simp: ch later_trans)
  next
    case (within w)
    have o: "window s' = Some w" "used s + of_bool ok \<le> used s'" "ok \<Longrightarrow> used s < quota" using check_within [OF r within(1) ch within(2,3)] by blast+
    have l: "later s v = later s' v" for v by (simp add: later_def o within(2))
    have g: "granted_in (Some w) (grants (c # cs) s) \<le> quota - used s"
      using IH(2) o by (cases ok) (auto simp: ch)
    have "granted_in v (grants (c # cs) s) \<le> quota" for v
      using g IH(3) [of v] o(1) by (cases "v = Some w") (auto simp: ch)
    with g show ?thesis using IH(1) by (auto simp: ch within(2) l) (simp_all add: later_def o)
  qed
qed simp

lemmas grants_within_quota = grants_bounded [THEN conjunct2, THEN conjunct2, rule_format]
lemmas grants_later = grants_bounded [THEN conjunct1]

end

end
