(* ===== verification/Llm_Policy.thy ===== *)
theory Llm_Policy
  imports Failure_Recovery Proof_Capsule Rate_Window
begin

text \<open>
  The LLM-backed recovery policy, \<open>src/src/hypervisor/llm_policy.rs\<close>, in the \<open>ai-recovery\<close> build without
  \<open>aeon-memory\<close>: the prompt sanitizer, the per-minute call budget, the two request shapes and the reading of the
  model's answer. Sending a request is the parameter \<open>llm_http\<close>: \<open>None\<close> is any failure on the way. Reading a
  JSON array of strings is the parameter \<open>json_strings\<close>.
\<close>

subsection \<open>Configuration and state\<close>

datatype llm_provider =
    Openai string string string
  | Anthropic string string string

record llm_budget =
  max_calls_per_minute :: u32
  max_input_chars :: nat
  timeout_ms :: u64

definition default_llm_budget :: llm_budget where
  "default_llm_budget = \<lparr>max_calls_per_minute = 30, max_input_chars = 2048, timeout_ms = 3000\<rparr>"

record llm_policy =
  lp_provider :: llm_provider
  lp_budget :: llm_budget
  rl_window_start_ms :: u64
  rl_count :: u64

definition llm_policy_new :: "u64 \<Rightarrow> llm_provider \<Rightarrow> llm_budget \<Rightarrow> llm_policy" where
  "llm_policy_new now_ms provider budget =
     \<lparr>lp_provider = provider, lp_budget = budget, rl_window_start_ms = now_ms, rl_count = 0\<rparr>"

subsection \<open>The sanitizer\<close>

definition INJECTION_MARKERS :: "string list" where
  "INJECTION_MARKERS = [''ignore previous'', ''ignore the above'', ''disregard prior'', ''you are now'', ''system:'',
     ''<|im_start|>'', ''</prompt>'', ''[INST]'', ''<<SYS>>'']"

text \<open>\<open>char::is_control\<close> on ASCII.\<close>

definition is_control :: "char \<Rightarrow> bool" where
  "is_control c = (let n = (of_char c :: nat) in n < 32 \<or> n = 127)"

definition sanitize_for_prompt :: "llm_budget \<Rightarrow> string \<Rightarrow> string option" where
  "sanitize_for_prompt budget raw =
     (let lower_raw = str_to_lowercase raw
      in if list_ex (str_contains lower_raw) INJECTION_MARKERS then None
         else Some (take (max_input_chars budget)
                (filter (\<lambda>c. \<not> is_control c \<or> c = CHR 0x0A \<or> c = CHR 0x09) raw)))"

subsection \<open>The call budget\<close>

text \<open>The four atomic steps of \<open>rate_limit_check\<close>: load the window, store the new window, reset the count, count.\<close>

definition window_expired :: "u64 \<Rightarrow> u64 \<Rightarrow> bool" where
  "window_expired now_ms window_start \<longleftrightarrow> 60000 \<le> saturating_sub now_ms window_start"

definition count_call :: "llm_policy \<Rightarrow> bool \<times> llm_policy" where
  "count_call p = ((ucast (rl_count p) :: u32) < max_calls_per_minute (lp_budget p), p\<lparr>rl_count := rl_count p + 1\<rparr>)"

definition rate_limit_check :: "u64 \<Rightarrow> llm_policy \<Rightarrow> bool \<times> llm_policy" where
  "rate_limit_check now_ms p =
     count_call (if window_expired now_ms (rl_window_start_ms p) then p\<lparr>rl_window_start_ms := now_ms, rl_count := 0\<rparr> else p)"

text \<open>Threads inside \<open>rate_limit_check\<close>, each with the time it read: about to store the window, to reset the
  count, to count, or done with its answer.\<close>

datatype limiter_thread =
    Entering
  | StoreWindow u64
  | ResetCount u64
  | CountCall u64
  | Answered u64 bool

inductive limiter_step :: "llm_policy \<times> limiter_thread list \<Rightarrow> llm_policy \<times> limiter_thread list \<Rightarrow> bool" where
  load: "i < length ts \<Longrightarrow> ts ! i = Entering \<Longrightarrow>
     limiter_step (p, ts) (p, ts[i := (if window_expired now_ms (rl_window_start_ms p) then StoreWindow now_ms else CountCall now_ms)])"
| store: "i < length ts \<Longrightarrow> ts ! i = StoreWindow now_ms \<Longrightarrow>
     limiter_step (p, ts) (p\<lparr>rl_window_start_ms := now_ms\<rparr>, ts[i := ResetCount now_ms])"
| reset: "i < length ts \<Longrightarrow> ts ! i = ResetCount now_ms \<Longrightarrow> limiter_step (p, ts) (p\<lparr>rl_count := 0\<rparr>, ts[i := CountCall now_ms])"
| count: "i < length ts \<Longrightarrow> ts ! i = CountCall now_ms \<Longrightarrow> count_call p = (ok, p') \<Longrightarrow>
     limiter_step (p, ts) (p', ts[i := Answered now_ms ok])"

subsection \<open>Prompts and answers\<close>

definition SYSTEM_PROMPT :: string where
  "SYSTEM_PROMPT = ''You are a sandbox-recovery advisor. Given a WASM failure mode and operation name, return at most 3 short, concrete recovery actions as a JSON array of strings. Do not include any other text. Each action should be specific to the failure type (e.g. for divide-by-zero, suggest a divisor guard).''"

definition build_prompt :: "string \<Rightarrow> failure_mode \<Rightarrow> string \<Rightarrow> string" where
  "build_prompt sanitized mode operation =
     ''Operation: '' @ operation @ [CHR 0x0A] @ ''Failure category: '' @ category mode @ [CHR 0x0A]
     @ ''Failure description: '' @ sanitized @ [CHR 0x0A, CHR 0x0A] @ ''Return JSON array.''"

text \<open>A request: its endpoint, key and JSON body.\<close>

record llm_request =
  rq_endpoint :: string
  rq_api_key :: string
  rq_body :: "u64 json"

definition recovery_request :: "llm_provider \<Rightarrow> string \<Rightarrow> llm_request" where
  "recovery_request provider prompt =
     (case provider of
        Openai api_key model endpoint \<Rightarrow>
          \<lparr>rq_endpoint = endpoint, rq_api_key = api_key,
           rq_body = JObject [(''model'', JString model), (''max_tokens'', JNumber 512),
             (''messages'', JArray [JObject [(''role'', JString ''system''), (''content'', JString SYSTEM_PROMPT)],
                JObject [(''role'', JString ''user''), (''content'', JString prompt)]])]\<rparr>
      | Anthropic api_key model endpoint \<Rightarrow>
          \<lparr>rq_endpoint = endpoint, rq_api_key = api_key,
           rq_body = JObject [(''model'', JString model), (''max_tokens'', JNumber 512),
             (''messages'', JArray [JObject [(''role'', JString ''user''),
                (''content'', JString (SYSTEM_PROMPT @ [CHR 0x0A, CHR 0x0A] @ prompt))]])]\<rparr>)"

fun value_get :: "string \<Rightarrow> u64 json \<Rightarrow> u64 json option" where
  "value_get k (JObject kvs) = map_of kvs k"
| "value_get k _ = None"

fun value_first :: "u64 json \<Rightarrow> u64 json option" where
  "value_first (JArray (v # _)) = Some v"
| "value_first _ = None"

fun value_as_str :: "u64 json \<Rightarrow> string option" where
  "value_as_str (JString s) = Some s"
| "value_as_str _ = None"

definition answer_text :: "u64 json \<Rightarrow> string option" where
  "answer_text body =
     (case Option.bind (Option.bind (Option.bind (Option.bind (value_get ''choices'' body) value_first) (value_get ''message''))
             (value_get ''content'')) value_as_str of
        Some t \<Rightarrow> Some t
      | None \<Rightarrow> Option.bind (Option.bind (Option.bind (value_get ''content'' body) value_first) (value_get ''text'')) value_as_str)"

definition extract_recovery_actions :: "(string \<Rightarrow> string list option) \<Rightarrow> u64 json \<Rightarrow> recovery_action list" where
  "extract_recovery_actions json_strings body =
     (case answer_text body of
        None \<Rightarrow> []
      | Some t \<Rightarrow>
          map (\<lambda>s. \<lparr>ra_description = s, ra_confidence = f32_of (6/10), ra_source = Llm, ra_non_retryable = False,
                    ra_instinct_id = None\<rparr>)
            (case json_strings t of Some parsed \<Rightarrow> parsed | None \<Rightarrow> []))"

definition llm_recover ::
  "(llm_request \<Rightarrow> u64 json option) \<Rightarrow> (string \<Rightarrow> string list option) \<Rightarrow> u64 \<Rightarrow> failure_mode \<Rightarrow> string \<Rightarrow> llm_policy
   \<Rightarrow> recovery_action list \<times> llm_policy" where
  "llm_recover llm_http json_strings now_ms mode operation p =
     (case sanitize_for_prompt (lp_budget p) (describe mode) of
        None \<Rightarrow> ([], p)
      | Some sanitized \<Rightarrow>
          (case rate_limit_check now_ms p of
             (False, p') \<Rightarrow> ([], p')
           | (True, p') \<Rightarrow>
               (case llm_http (recovery_request (lp_provider p') (build_prompt sanitized mode operation)) of
                  None \<Rightarrow> ([], p')
                | Some body \<Rightarrow> (extract_recovery_actions json_strings body, p'))))"

subsection \<open>The budget over a sequence of calls\<close>

text \<open>For each call the window it was counted in and its answer.\<close>

fun check_log :: "u64 list \<Rightarrow> llm_policy \<Rightarrow> (u64 \<times> bool) list" where
  "check_log [] p = []"
| "check_log (now_ms # rest) p =
     (case rate_limit_check now_ms p of (ok, p') \<Rightarrow> (rl_window_start_ms p', ok) # check_log rest p')"

abbreviation calls_granted :: "u64 \<Rightarrow> (u64 \<times> bool) list \<Rightarrow> nat" where
  "calls_granted w es \<equiv> length (filter (\<lambda>e. e = (w, True)) es)"

lemma window_expired_unat: "window_expired now w \<longleftrightarrow> unat w + 60000 \<le> unat now"
proof -
  have "unat (saturating_sub now w) = unat now - unat w" by (simp add: saturating_sub_def unat_sub_if' word_le_nat_alt)
  then show ?thesis unfolding window_expired_def word_le_nat_alt by simp arith
qed

lemma ucast_small: "unat (c :: u64) < 2 ^ 32 \<Longrightarrow> unat (ucast c :: u32) = unat c"
  by (simp add: unsigned_ucast_eq take_bit_nat_eq_self)

text \<open>The policy is a limiter by windows of a minute, as long as its counter does not wrap as a 32-bit number.\<close>

definition llm_room :: "llm_budget \<Rightarrow> nat \<Rightarrow> llm_policy \<Rightarrow> bool" where
  "llm_room budget n p \<longleftrightarrow> lp_budget p = budget \<and> unat (rl_count p) + n < 2 ^ 32"

lemma rate_limit_check_counts:
  assumes "llm_room budget (Suc n) p" and "rate_limit_check now p = (ok, p')"
  shows "rl_window_start_ms p' = (if unat (rl_window_start_ms p) + 60000 \<le> unat now then now else rl_window_start_ms p)"
    and "unat (rl_count p') = (if unat (rl_window_start_ms p) + 60000 \<le> unat now then 0 else unat (rl_count p)) + 1"
    and "ok \<longleftrightarrow> (if unat (rl_window_start_ms p) + 60000 \<le> unat now then 0 else unat (rl_count p)) < unat (max_calls_per_minute budget)"
    and "lp_budget p' = budget"
proof -
  define q where "q = (if window_expired now (rl_window_start_ms p) then p\<lparr>rl_window_start_ms := now, rl_count := 0\<rparr> else p)"
  have q: "lp_budget q = budget" "unat (rl_count q) + 1 < 2 ^ 32"
    "unat (rl_count q) = (if unat (rl_window_start_ms p) + 60000 \<le> unat now then 0 else unat (rl_count p))"
    "rl_window_start_ms q = (if unat (rl_window_start_ms p) + 60000 \<le> unat now then now else rl_window_start_ms p)"
    using assms(1) by (auto simp: q_def window_expired_unat llm_room_def)
  have e: "ok \<longleftrightarrow> unat (rl_count q) < unat (max_calls_per_minute budget)" "p' = q\<lparr>rl_count := rl_count q + 1\<rparr>"
    using assms(2) q(1,2) ucast_small [of "rl_count q"]
    by (auto simp: rate_limit_check_def q_def [symmetric] count_call_def word_less_nat_alt)
  have inc: "unat (rl_count p') = Suc (unat (rl_count q))" using q(2) by (simp add: e(2) unat_word_ariths)
  show "rl_window_start_ms p' = (if unat (rl_window_start_ms p) + 60000 \<le> unat now then now else rl_window_start_ms p)"
    "unat (rl_count p') = (if unat (rl_window_start_ms p) + 60000 \<le> unat now then 0 else unat (rl_count p)) + 1"
    "ok \<longleftrightarrow> (if unat (rl_window_start_ms p) + 60000 \<le> unat now then 0 else unat (rl_count p)) < unat (max_calls_per_minute budget)"
    "lp_budget p' = budget"
    using e q inc by simp_all
qed

interpretation llm: rate_window "\<lambda>p. Some (unat (rl_window_start_ms p))" "\<lambda>p. unat (rl_count p)" "unat (max_calls_per_minute budget)"
  60000 "llm_room budget" "\<lambda>_. True" unat rate_limit_check for budget
proof
  fix n s c ok s' and w :: nat
  assume r: "llm_room budget (Suc n) s" and ch: "rate_limit_check c s = (ok, s')"
  note e = rate_limit_check_counts [OF r ch]
  show "llm_room budget n s'" using e r by (auto simp: llm_room_def split: if_splits)
  show "Some (unat (rl_window_start_ms s')) = Some (unat c) \<and> of_bool ok \<le> unat (rl_count s') \<and> (ok \<longrightarrow> 0 < unat (max_calls_per_minute budget))"
    if "case Some (unat (rl_window_start_ms s)) of None \<Rightarrow> True | Some w \<Rightarrow> w + 60000 \<le> unat c"
    using e that by simp
  show "Some (unat (rl_window_start_ms s')) = Some w \<and> unat (rl_count s) + of_bool ok \<le> unat (rl_count s')
      \<and> (ok \<longrightarrow> unat (rl_count s) < unat (max_calls_per_minute budget))"
    if "Some (unat (rl_window_start_ms s)) = Some w" "\<not> w + 60000 \<le> unat c"
    using e that by simp
qed simp_all

lemma check_log_grants: "llm.grants ts p = map (\<lambda>(w, ok). (Some (unat w), ok)) (check_log ts p)"
  by (induction ts arbitrary: p) (auto split: prod.splits)

lemma check_log_bounds:
  assumes "lp_budget p = budget" and "rl_count p = 0" and "length ts < 2 ^ 32"
  shows "calls_granted w (check_log ts p) \<le> unat (max_calls_per_minute budget)"
    and "\<forall>(w, _) \<in> set (check_log ts p). w = rl_window_start_ms p \<or> unat (rl_window_start_ms p) + 60000 \<le> unat w"
proof -
  have room: "llm_room budget (length ts) p" using assms by (simp add: llm_room_def)
  have "length (filter (\<lambda>e. e = (Some (unat w), True)) (llm.grants ts p)) = calls_granted w (check_log ts p)"
    unfolding check_log_grants by (induction ts arbitrary: p) (auto simp: word_unat_eq_iff split: prod.splits)
  with llm.grants_within_quota [OF room, of "Some (unat w)"] show "calls_granted w (check_log ts p) \<le> unat (max_calls_per_minute budget)"
    by simp
  show "\<forall>(w, _) \<in> set (check_log ts p). w = rl_window_start_ms p \<or> unat (rl_window_start_ms p) + 60000 \<le> unat w"
  proof clarify
    fix w ok
    assume m: "(w, ok) \<in> set (check_log ts p)" and n: "\<not> unat (rl_window_start_ms p) + 60000 \<le> unat w"
    have "llm.later p (Some (unat w))" using llm.grants_later [OF room] m unfolding check_log_grants by fastforce
    with n show "w = rl_window_start_ms p" by (simp add: llm.later_def word_unat_eq_iff)
  qed
qed

subsection \<open>Properties\<close>

text \<open>
  C24: The call budget holds for calls one after another. In a run of fewer than \<open>2^32\<close> checks each window grants at
  most the configured number of calls, whatever the clock does, and a window that follows the first starts at least a minute after it.
\<close>

theorem llm_budget_kept:
  assumes "length ts < 2 ^ 32"
  shows "calls_granted w (check_log ts (llm_policy_new t0 provider budget)) \<le> unat (max_calls_per_minute budget)
    \<and> (\<forall>(w, _) \<in> set (check_log ts (llm_policy_new t0 provider budget)). w = t0 \<or> unat t0 + 60000 \<le> unat w)"
  using check_log_bounds [of "llm_policy_new t0 provider budget" budget ts] assms by (simp add: llm_policy_new_def)

theorem llm_budget_kept_witness:
  "calls_granted 0 (check_log [1, 2, 3] (llm_policy_new 0 (Openai [] [] []) (default_llm_budget\<lparr>max_calls_per_minute := 2\<rparr>))) \<le> 2"
  using llm_budget_kept [of "[1, 2, 3]" 0 0 "Openai [] [] []" "default_llm_budget\<lparr>max_calls_per_minute := 2\<rparr>"] by simp

text \<open>
  Calls at the same time can exceed the budget: when the window has expired and two threads check at once, both see the old
  window, and the second reset forgets the call of the first, so that a budget of one call grants two in the same window.
\<close>

lemma llm_budget_race:
  assumes "window_expired now (rl_window_start_ms p)" and "max_calls_per_minute (lp_budget p) = 1"
  shows "limiter_step\<^sup>*\<^sup>* (p, [Entering, Entering])
    (p\<lparr>rl_window_start_ms := now, rl_count := 1\<rparr>, [Answered now True, Answered now True])"
proof -
  let ?S = "\<lambda>a b. limiter_step a b"
  let ?w = "p\<lparr>rl_window_start_ms := now\<rparr>"
  have c: "count_call (?w\<lparr>rl_count := 0\<rparr>) = (True, ?w\<lparr>rl_count := 1\<rparr>)" using assms(2) by (simp add: count_call_def)
  have 1: "?S (p, [Entering, Entering]) (p, [StoreWindow now, Entering])"
    using limiter_step.load [of 0 "[Entering, Entering]" p now] assms(1) by simp
  have 2: "?S (p, [StoreWindow now, Entering]) (p, [StoreWindow now, StoreWindow now])"
    using limiter_step.load [of 1 "[StoreWindow now, Entering]" p now] assms(1) by simp
  have 3: "?S (p, [StoreWindow now, StoreWindow now]) (?w, [ResetCount now, StoreWindow now])"
    using limiter_step.store [of 0 "[StoreWindow now, StoreWindow now]" now p] by simp
  have 4: "?S (?w, [ResetCount now, StoreWindow now]) (?w, [ResetCount now, ResetCount now])"
    using limiter_step.store [of 1 "[ResetCount now, StoreWindow now]" now ?w] by simp
  have 5: "?S (?w, [ResetCount now, ResetCount now]) (?w\<lparr>rl_count := 0\<rparr>, [CountCall now, ResetCount now])"
    using limiter_step.reset [of 0 "[ResetCount now, ResetCount now]" now ?w] by simp
  have 6: "?S (?w\<lparr>rl_count := 0\<rparr>, [CountCall now, ResetCount now]) (?w\<lparr>rl_count := 1\<rparr>, [Answered now True, ResetCount now])"
    using limiter_step.count [of 0 "[CountCall now, ResetCount now]" now _ True, OF _ _ c] by simp
  have 7: "?S (?w\<lparr>rl_count := 1\<rparr>, [Answered now True, ResetCount now]) (?w\<lparr>rl_count := 0\<rparr>, [Answered now True, CountCall now])"
    using limiter_step.reset [of 1 "[Answered now True, ResetCount now]" now "?w\<lparr>rl_count := 1\<rparr>"] by simp
  have 8: "?S (?w\<lparr>rl_count := 0\<rparr>, [Answered now True, CountCall now]) (?w\<lparr>rl_count := 1\<rparr>, [Answered now True, Answered now True])"
    using limiter_step.count [of 1 "[Answered now True, CountCall now]" now _ True, OF _ _ c] by simp
  from 1 2 3 4 5 6 7 8 show ?thesis by (meson converse_rtranclp_into_rtranclp rtranclp.rtrancl_refl)
qed

text \<open>What the sanitizer does guarantee: its output is bounded, has no control characters but line breaks and
  tabs, and none of the lower-case markers occurs in the input in any case.\<close>

lemma sanitizer_output:
  assumes "sanitize_for_prompt budget raw = Some s"
  shows "length s \<le> max_input_chars budget \<and> (\<forall>c \<in> set s. is_control c \<longrightarrow> c = CHR 0x0A \<or> c = CHR 0x09)
    \<and> (\<forall>m \<in> set INJECTION_MARKERS. \<not> sublist m (str_to_lowercase raw))"
  using assms
  by (auto simp: sanitize_for_prompt_def Let_def list_ex_iff str_contains_iff split: if_splits dest: in_set_takeD)

text \<open>
  The sanitizer lets injections through. Two of its markers are written in capitals and are looked for in the
  lower-case text, where they cannot occur; and control characters are removed after the markers were looked for, so a marker with
  a control character in it comes out as the marker itself.
\<close>

lemma sanitizer_bypassed:
  assumes "20 \<le> max_input_chars budget"
  shows "sanitize_for_prompt budget ''[INST] x [/INST]'' = Some ''[INST] x [/INST]''
    \<and> sanitize_for_prompt budget ''<<SYS>> x'' = Some ''<<SYS>> x''
    \<and> sanitize_for_prompt budget (''ignore'' @ [CHR 0x01] @ '' previous'') = Some ''ignore previous''
    \<and> ''ignore previous'' \<in> set INJECTION_MARKERS"
proof -
  have no: "\<not> list_ex (str_contains (str_to_lowercase ''[INST] x [/INST]'')) INJECTION_MARKERS"
    "\<not> list_ex (str_contains (str_to_lowercase ''<<SYS>> x'')) INJECTION_MARKERS"
    "\<not> list_ex (str_contains (str_to_lowercase (''ignore'' @ [CHR 0x01] @ '' previous''))) INJECTION_MARKERS" by code_simp+
  have keep: "filter (\<lambda>c. \<not> is_control c \<or> c = CHR 0x0A \<or> c = CHR 0x09) ''[INST] x [/INST]'' = ''[INST] x [/INST]''"
    "filter (\<lambda>c. \<not> is_control c \<or> c = CHR 0x0A \<or> c = CHR 0x09) ''<<SYS>> x'' = ''<<SYS>> x''"
    "filter (\<lambda>c. \<not> is_control c \<or> c = CHR 0x0A \<or> c = CHR 0x09) (''ignore'' @ [CHR 0x01] @ '' previous'') = ''ignore previous''"
    by code_simp+
  show ?thesis
    using assms unfolding sanitize_for_prompt_def Let_def keep
    by (simp only: no if_False option.inject) (simp add: INJECTION_MARKERS_def)
qed

end
