(* ===== verification/Daemon_Pool.thy ===== *)
theory Daemon_Pool
  imports Nexus_Error "HOL-Library.Multiset"
begin

text \<open>
  The daemon's pool of hypervisors (\<open>src/src/daemon/pool.rs\<close>) under concurrency.

  A pool holds a queue of instances behind a mutex and a semaphore of as many permits. Every access to one of the two is
  a step of its own: a borrower takes a permit, then pops an instance; dropping the guard spawns a task that will push the instance
  back and then releases the permit, so the task may still be waiting to run when the permit is free. The instances are
  a type parameter.
\<close>

subsection \<open>The pool\<close>

record 'h hypervisor_pool =
  hp_available :: "'h list"
  hp_permits :: nat
  hp_size :: nat

fun build_instances :: "(nat \<Rightarrow> 'h result) \<Rightarrow> nat \<Rightarrow> nat \<Rightarrow> 'h list \<Rightarrow> 'h list result" where
  "build_instances mk i 0 acc = Inr acc"
| "build_instances mk i (Suc n) acc = (case mk i of Inl e \<Rightarrow> Inl e | Inr h \<Rightarrow> build_instances mk (Suc i) n (acc @ [h]))"

definition hypervisor_pool_new :: "(nat \<Rightarrow> 'h result) \<Rightarrow> nat \<Rightarrow> 'h hypervisor_pool result" where
  "hypervisor_pool_new mk n =
     map_sum id (\<lambda>hs. \<lparr>hp_available = hs, hp_permits = n, hp_size = n\<rparr>) (build_instances mk 0 n [])"

text \<open>A borrower in \<open>acquire\<close>, with its guard, or in the guard's drop.\<close>

datatype 'h borrower =
    Waiting
  | Permitted
  | Holding 'h
  | Releasing
  | AcquirePanicked

type_synonym 'h pool_state = "'h hypervisor_pool \<times> 'h borrower list \<times> 'h list"

inductive pool_step :: "'h pool_state \<Rightarrow> 'h pool_state \<Rightarrow> bool" where
  call: "pool_step (p, ts, ret) (p, ts @ [Waiting], ret)"
| permit: "i < length ts \<Longrightarrow> ts ! i = Waiting \<Longrightarrow> hp_permits p = Suc n
    \<Longrightarrow> pool_step (p, ts, ret) (p\<lparr>hp_permits := n\<rparr>, ts[i := Permitted], ret)"
| pop: "i < length ts \<Longrightarrow> ts ! i = Permitted \<Longrightarrow> hp_available p = h # q
    \<Longrightarrow> pool_step (p, ts, ret) (p\<lparr>hp_available := q\<rparr>, ts[i := Holding h], ret)"
| pop_panic: "i < length ts \<Longrightarrow> ts ! i = Permitted \<Longrightarrow> hp_available p = []
    \<Longrightarrow> pool_step (p, ts, ret) (p\<lparr>hp_permits := Suc (hp_permits p)\<rparr>, ts[i := AcquirePanicked], ret)"
| drop_guard: "i < length ts \<Longrightarrow> ts ! i = Holding h
    \<Longrightarrow> pool_step (p, ts, ret) (p, ts[i := Releasing], ret @ [h])"
| drop_permit: "i < length ts \<Longrightarrow> ts ! i = Releasing
    \<Longrightarrow> pool_step (p, ts, ret) (p\<lparr>hp_permits := Suc (hp_permits p)\<rparr>, ts[i := Waiting], ret)"
| push_back: "j < length ret
    \<Longrightarrow> pool_step (p, ts, ret) (p\<lparr>hp_available := hp_available p @ [ret ! j]\<rparr>, ts, take j ret @ drop (Suc j) ret)"

definition pool_init :: "'h list \<Rightarrow> 'h pool_state \<Rightarrow> bool" where
  "pool_init hs s \<longleftrightarrow> s = (\<lparr>hp_available = hs, hp_permits = length hs, hp_size = length hs\<rparr>, [], [])"

text \<open>\<open>acquire\<close> and the complete return of a guard, without interference: the first waits for ever or panics with no instance.\<close>

definition acquire_hypervisor :: "'h hypervisor_pool \<Rightarrow> ('h \<times> 'h hypervisor_pool) option" where
  "acquire_hypervisor p =
     (if hp_permits p = 0 then None
      else case hp_available p of
             [] \<Rightarrow> None
           | h # q \<Rightarrow> Some (h, p\<lparr>hp_available := q, hp_permits := hp_permits p - 1\<rparr>))"

definition return_hypervisor :: "'h \<Rightarrow> 'h hypervisor_pool \<Rightarrow> 'h hypervisor_pool" where
  "return_hypervisor h p = p\<lparr>hp_available := hp_available p @ [h], hp_permits := hp_permits p + 1\<rparr>"

subsection \<open>Construction\<close>

lemma build_instances_ok:
  "build_instances mk i n acc = Inr hs \<longleftrightarrow> (\<exists>new. hs = acc @ new \<and> length new = n \<and> (\<forall>k < n. mk (i + k) = Inr (new ! k)))"
proof (induction mk i n acc arbitrary: hs rule: build_instances.induct)
  case (2 mk i n acc)
  show ?case
  proof (cases "mk i")
    case (Inr h)
    have "(\<exists>new. hs = (acc @ [h]) @ new \<and> length new = n \<and> (\<forall>k < n. mk (Suc i + k) = Inr (new ! k)))
      \<longleftrightarrow> (\<exists>new. hs = acc @ new \<and> length new = Suc n \<and> (\<forall>k < Suc n. mk (i + k) = Inr (new ! k)))" (is "?l \<longleftrightarrow> ?r")
    proof
      assume ?l
      then obtain new where new: "hs = (acc @ [h]) @ new" "length new = n" "\<forall>k < n. mk (Suc i + k) = Inr (new ! k)" by blast
      have "mk (i + k) = Inr ((h # new) ! k)" if "k < Suc n" for k using new(3) that Inr by (cases k) auto
      with new(1,2) show ?r by (intro exI [of _ "h # new"]) simp
    next
      assume ?r
      then obtain x new where new: "hs = acc @ x # new" "length new = n" "\<forall>k < Suc n. mk (i + k) = Inr ((x # new) ! k)"
        by (metis length_Suc_conv)
      have "x = h" using new(3) Inr by force
      moreover have "mk (Suc i + k) = Inr (new ! k)" if "k < n" for k using new(3) [rule_format, of "Suc k"] that by simp
      ultimately show ?l using new(1,2) by (intro exI [of _ new]) simp
    qed
    with 2 [OF Inr] show ?thesis by (simp add: Inr)
  next
    case (Inl e)
    then show ?thesis by (auto dest!: spec [of _ 0])
  qed
qed auto

subsection \<open>Conservation\<close>

fun held_by :: "'h borrower \<Rightarrow> 'h list" where
  "held_by (Holding h) = [h]"
| "held_by _ = []"

fun has_permit :: "'h borrower \<Rightarrow> bool" where
  "has_permit Permitted = True"
| "has_permit (Holding _) = True"
| "has_permit Releasing = True"
| "has_permit _ = False"

abbreviation permit_holders :: "'h borrower list \<Rightarrow> nat" where
  "permit_holders ts \<equiv> length (filter has_permit ts)"

abbreviation held :: "'h borrower list \<Rightarrow> 'h list" where
  "held ts \<equiv> concat (map held_by ts)"

definition pool_inv :: "'h list \<Rightarrow> 'h pool_state \<Rightarrow> bool" where
  "pool_inv hs s \<longleftrightarrow>
     (case s of (p, ts, ret) \<Rightarrow>
        hp_size p = length hs \<and> hp_permits p + permit_holders ts = length hs
        \<and> mset (hp_available p) + mset (held ts) + mset ret = mset hs)"

lemma update_split:
  assumes "i < length ts"
  obtains xs ys where "ts = xs @ ts ! i # ys" and "\<And>t. ts[i := t] = xs @ t # ys"
  using assms by (metis id_take_nth_drop upd_conv_take_nth_drop)

lemma held_update:
  assumes "i < length ts"
  shows "mset (held (ts[i := t])) + mset (held_by (ts ! i)) = mset (held ts) + mset (held_by t)"
proof -
  obtain xs ys where s: "ts = xs @ ts ! i # ys" "\<And>t. ts[i := t] = xs @ t # ys" using update_split [OF assms] by blast
  have "mset (held ts) = mset (held xs) + mset (held_by (ts ! i)) + mset (held ys)" by (subst s(1)) simp
  then show ?thesis by (simp add: s(2))
qed

lemma permits_update:
  assumes "i < length ts"
  shows "permit_holders (ts[i := t]) + of_bool (has_permit (ts ! i)) = permit_holders ts + of_bool (has_permit t)"
proof -
  obtain xs ys where s: "ts = xs @ ts ! i # ys" "\<And>t. ts[i := t] = xs @ t # ys" using update_split [OF assms] by blast
  have "permit_holders ts = length (filter has_permit xs) + of_bool (has_permit (ts ! i)) + length (filter has_permit ys)"
    by (subst s(1)) simp
  then show ?thesis by (simp add: s(2))
qed

lemma pool_step_inv:
  assumes "pool_inv hs s" and "pool_step s s'"
  shows "pool_inv hs s'"
  using assms(2,1)
proof cases
  case (permit i ts p n ret)
  then show ?thesis using assms(1) held_update [of i ts Permitted] permits_update [of i ts Permitted] by (simp add: pool_inv_def)
next
  case (pop i ts p h q ret)
  then show ?thesis using assms(1) held_update [of i ts "Holding h"] permits_update [of i ts "Holding h"] by (simp add: pool_inv_def)
next
  case (pop_panic i ts p ret)
  then show ?thesis
    using assms(1) held_update [of i ts AcquirePanicked] permits_update [of i ts AcquirePanicked] by (simp add: pool_inv_def)
next
  case (drop_guard i ts h p ret)
  then have "mset (held ts) = add_mset h (mset (held (ts[i := Releasing])))" using held_update [of i ts Releasing] by simp
  with drop_guard assms(1) permits_update [of i ts Releasing] show ?thesis by (simp add: pool_inv_def)
next
  case (drop_permit i ts p ret)
  then show ?thesis using assms(1) held_update [of i ts Waiting] permits_update [of i ts Waiting] by (simp add: pool_inv_def)
next
  case (push_back j ret p ts)
  have "mset ret = add_mset (ret ! j) (mset (take j ret @ drop (Suc j) ret))"
    using push_back(3) by (metis id_take_nth_drop mset_append mset.simps(2) union_mset_add_mset_right)
  with push_back assms(1) show ?thesis by (simp add: pool_inv_def)
qed (use assms(1) in \<open>simp add: pool_inv_def\<close>)

interpretation pool: inductive_invariant "pool_init hs" pool_step "pool_inv hs" for hs :: "'h list"
  by unfold_locales (simp add: pool_init_def pool_inv_def, rule pool_step_inv)

text \<open>Counting permits and instances together: what is missing from the queue is on its way back.\<close>

lemma pool_queue_count:
  assumes "pool_inv hs (p, ts, ret)"
  shows "length (hp_available p) + length ret = hp_permits p + length (filter (\<lambda>t. t = Permitted \<or> t = Releasing) ts)"
proof -
  have "size (mset (hp_available p) + mset (held ts) + mset ret) = length hs" using assms by (simp add: pool_inv_def)
  then have "length (hp_available p) + length (held ts) + length ret = length hs" by simp
  moreover have "permit_holders ts = length (held ts) + length (filter (\<lambda>t. t = Permitted \<or> t = Releasing) ts)"
  proof (induction ts)
    case (Cons t ts)
    then show ?case by (cases t) auto
  qed simp
  moreover have "hp_permits p + permit_holders ts = length hs" using assms by (simp add: pool_inv_def)
  ultimately show ?thesis by linarith
qed

lemma held_distinct:
  assumes "distinct (held ts)" and "i < j" and "j < length ts" and "ts ! i = Holding h" and "ts ! j = Holding h'"
  shows "h \<noteq> h'"
proof -
  have "ts = take j ts @ ts ! j # drop (Suc j) ts" by (rule id_take_nth_drop [OF assms(3)])
  then have "distinct (held (take j ts @ ts ! j # drop (Suc j) ts))" using assms(1) by simp
  then have "h' \<notin> set (held (take j ts))" using assms(5) by auto
  moreover have "take j ts ! i \<in> set (take j ts)" using assms(2,3) by (intro nth_mem) simp
  then have "h \<in> set (held (take j ts))" using assms(2,4) by (auto intro!: bexI [of _ "Holding h"])
  ultimately show ?thesis by blast
qed

subsection \<open>Properties\<close>

text \<open>
  C26: The pool conserves its instances and permits. Whatever the interleaving of borrowers, guards and returning tasks, every instance is
  in the queue, with exactly one borrower, or in a task that will push it back, none is lost or duplicated; free permits and
  borrowers with a permit add up to the size; no two guards share an instance; and a borrower with a permit finds an
  instance unless a return is still pending.
\<close>

theorem pool_conserves:
  assumes "reachable (pool_init hs) pool_step (p, ts, ret)" and "distinct hs"
  shows "mset (hp_available p) + mset (held ts) + mset ret = mset hs
    \<and> hp_permits p + permit_holders ts = length hs
    \<and> (\<forall>i j h h'. i < j \<longrightarrow> j < length ts \<longrightarrow> ts ! i = Holding h \<longrightarrow> ts ! j = Holding h' \<longrightarrow> h \<noteq> h')
    \<and> (Permitted \<in> set ts \<longrightarrow> ret = [] \<longrightarrow> hp_available p \<noteq> [])"
proof -
  have inv: "pool_inv hs (p, ts, ret)" using assms(1) by (rule pool.reachable_inv)
  then have m: "mset (hp_available p) + mset (held ts) + mset ret = mset hs" by (simp add: pool_inv_def)
  then have "mset (hp_available p @ held ts @ ret) = mset hs" by (simp add: add.assoc)
  then have "distinct (hp_available p @ held ts @ ret)" using assms(2) mset_eq_imp_distinct_iff by blast
  then have d: "distinct (held ts)" by (simp only: distinct_append)
  have "hp_available p \<noteq> []" if "Permitted \<in> set ts" "ret = []"
  proof -
    have "filter (\<lambda>t. t = Permitted \<or> t = Releasing) ts \<noteq> []" using that(1) by (auto simp: filter_empty_conv)
    with pool_queue_count [OF inv] that(2) show ?thesis by force
  qed
  with inv m held_distinct [OF d] show ?thesis by (auto simp: pool_inv_def)
qed

theorem pool_conserves_witness:
  "mset ([] :: nat list) + mset (held [Holding (7::nat)]) + mset [] = mset [7]"
proof -
  let ?p = "\<lambda>av n. \<lparr>hp_available = av, hp_permits = n, hp_size = 1\<rparr> :: nat hypervisor_pool"
  have "reachable (pool_init [7]) pool_step (?p [7] 1, [], [])" by (rule reach_init) (simp add: pool_init_def)
  then have "reachable (pool_init [7]) pool_step (?p [7] 1, [Waiting], [])"
    by (rule reach_step) (use call [of "?p [7] 1" "[]" "[]"] in simp)
  then have "reachable (pool_init [7]) pool_step (?p [7] 0, [Permitted], [])"
    by (rule reach_step) (use permit [of 0 "[Waiting]" "?p [7] 1" 0 "[]"] in simp)
  then have "reachable (pool_init [7]) pool_step (?p [] 0, [Holding 7], [])"
    by (rule reach_step) (use pop [of 0 "[Permitted]" "?p [7] 0" 7 "[]" "[]"] in simp)
  from pool_conserves [OF this] show ?thesis by simp
qed

text \<open>
  A borrower can panic. In a pool of one instance, a borrower whose permit was released by a dropped guard pops the queue before
  the task of that guard has pushed the instance back: the expectation that a permit implies an instance fails although no
  instance is in use.
\<close>

lemma pool_acquire_panics:
  "\<exists>p. reachable (pool_init [h]) pool_step (p, [Waiting, AcquirePanicked], [h]) \<and> hp_available p = [] \<and> hp_permits p = 1"
proof -
  let ?p = "\<lambda>av n. \<lparr>hp_available = av, hp_permits = n, hp_size = 1\<rparr>" and ?R = "reachable (pool_init [h]) pool_step"
  have "?R (?p [h] 1, [], [])" by (rule reach_init) (simp add: pool_init_def)
  then have "?R (?p [h] 1, [Waiting], [])" by (rule reach_step) (use call [of "?p [h] 1" "[]" "[]"] in simp)
  then have "?R (?p [h] 1, [Waiting, Waiting], [])" by (rule reach_step) (use call [of "?p [h] 1" "[Waiting]" "[]"] in simp)
  then have "?R (?p [h] 0, [Permitted, Waiting], [])"
    by (rule reach_step) (use permit [of 0 "[Waiting, Waiting]" "?p [h] 1" 0 "[]"] in simp)
  then have "?R (?p [] 0, [Holding h, Waiting], [])"
    by (rule reach_step) (use pop [of 0 "[Permitted, Waiting]" "?p [h] 0" h "[]" "[]"] in simp)
  then have "?R (?p [] 0, [Releasing, Waiting], [h])"
    by (rule reach_step) (use drop_guard [of 0 "[Holding h, Waiting]" h "?p [] 0" "[]"] in simp)
  then have "?R (?p [] 1, [Waiting, Waiting], [h])"
    by (rule reach_step) (use drop_permit [of 0 "[Releasing, Waiting]" "?p [] 0" "[h]"] in simp)
  then have "?R (?p [] 0, [Waiting, Permitted], [h])"
    by (rule reach_step) (use permit [of 1 "[Waiting, Waiting]" "?p [] 1" 0 "[h]"] in simp)
  then have "?R (?p [] 1, [Waiting, AcquirePanicked], [h])"
    by (rule reach_step) (use pop_panic [of 1 "[Waiting, Permitted]" "?p [] 0" "[h]"] in simp)
  then show ?thesis by (intro exI [of _ "?p [] 1"]) simp
qed

end
