(* ===== verification/Sync_Protocol.thy ===== *)
theory Sync_Protocol
  imports Snapshot_Digest
begin

text \<open>
  The snapshot-sync state machine, \<open>src/src/snapshot/sync/protocol.rs\<close>, and the replication driver
  over the in-memory transport, \<open>src/src/snapshot/sync/transport.rs\<close>. SHA-256 is a parameter. The two
  cross-wired endpoints are the two message queues they share.
\<close>

datatype nack_reason = DigestMismatch | Gone

datatype sync_message =
    Advertise "digest list"
  | Want "digest list"
  | SnapshotMsg digest snapshot
  | Ack digest
  | Nack digest nack_reason

type_synonym sync_node = "(digest, snapshot) hashmap"

subsection \<open>The node\<close>

definition node_new :: sync_node where
  "node_new = []"

definition try_insert :: "(bytes \<Rightarrow> bytes) \<Rightarrow> snapshot \<Rightarrow> sync_node \<Rightarrow> digest result \<times> sync_node" where
  "try_insert sha256 s node =
     (case digest_of sha256 s of
        Inl e \<Rightarrow> (Inl e, node)
      | Inr d \<Rightarrow> (Inr d, hm_insert d s node))"

definition node_has :: "sync_node \<Rightarrow> digest \<Rightarrow> bool" where
  "node_has node d = (hm_get node d \<noteq> None)"

definition node_digests :: "sync_node \<Rightarrow> digest list" where
  "node_digests node = map fst node"

definition advertise :: "sync_node \<Rightarrow> sync_message" where
  "advertise node = Advertise (node_digests node)"

definition handle ::
  "(bytes \<Rightarrow> bytes) \<Rightarrow> sync_message \<Rightarrow> sync_node \<Rightarrow> sync_message list \<times> sync_node" where
  "handle sha256 msg node =
     (case msg of
        Advertise digests \<Rightarrow>
          (let want = filter (\<lambda>d. \<not> node_has node d) digests
           in (if want = [] then [] else [Want want], node))
      | Want digests \<Rightarrow>
          (map (\<lambda>d. case hm_get node d of
                     Some s \<Rightarrow> SnapshotMsg d s
                   | None \<Rightarrow> Nack d Gone) digests, node)
      | SnapshotMsg digest s \<Rightarrow>
          (if \<not> verify_snapshot_digest sha256 s digest then ([Nack digest DigestMismatch], node)
           else if node_has node digest then ([Ack digest], node)
           else case try_insert sha256 s node of
             (Inr d, node') \<Rightarrow> ([Ack d], node')
           | (Inl _, node') \<Rightarrow> ([Nack digest DigestMismatch], node'))
      | Ack _ \<Rightarrow> ([], node)
      | Nack _ _ \<Rightarrow> ([], node))"

subsection \<open>Replication over the in-memory transport\<close>

text \<open>\<open>while let Some(msg) = t.try_recv() { for out in n.handle(msg) { t.send(out) } }\<close>: the node's
  inbound queue is consumed and its answers are appended to its outbound queue.\<close>

fun drain ::
  "(bytes \<Rightarrow> bytes) \<Rightarrow> sync_node \<Rightarrow> sync_message list \<Rightarrow> sync_message list \<Rightarrow> sync_node \<times> sync_message list"
  where
  "drain sha256 node [] outq = (node, outq)"
| "drain sha256 node (msg # inq) outq =
     (case handle sha256 msg node of (outs, node') \<Rightarrow> drain sha256 node' inq (outq @ outs))"

fun replicate_loop ::
  "(bytes \<Rightarrow> bytes) \<Rightarrow> nat \<Rightarrow> sync_node \<Rightarrow> sync_node \<Rightarrow> sync_message list \<Rightarrow> sync_message list
   \<Rightarrow> unit result \<times> sync_node \<times> sync_node" where
  "replicate_loop sha256 budget a b a_to_b b_to_a =
     (let progressed1 = (a_to_b \<noteq> []);
          (b', b_to_a') = drain sha256 b a_to_b b_to_a;
          progressed2 = (b_to_a' \<noteq> []);
          (a', a_to_b') = drain sha256 a b_to_a' []
      in if \<not> (progressed1 \<or> progressed2) then (Inr (), a', b')
         else if budget \<le> 1
         then (Inl (ConfigError
                 ''snapshot-sync replicate did not reach quiescence within {max_steps} steps''), a', b')
         else replicate_loop sha256 (budget - 1) a' b' a_to_b' [])"

definition replicate_nodes ::
  "(bytes \<Rightarrow> bytes) \<Rightarrow> nat \<Rightarrow> sync_node \<Rightarrow> sync_node \<Rightarrow> unit result \<times> sync_node \<times> sync_node" where
  "replicate_nodes sha256 max_steps a b = replicate_loop sha256 max_steps a b [advertise a] []"

declare replicate_loop.simps [simp del]

subsection \<open>Lemmas\<close>

text \<open>A node's store is keyed by the digests of what it holds.\<close>

definition keyed :: "(bytes \<Rightarrow> bytes) \<Rightarrow> sync_node \<Rightarrow> bool" where
  "keyed sha256 node \<longleftrightarrow> hm_wf node \<and> (\<forall>d s. hm_get node d = Some s \<longrightarrow> digest_of sha256 s = Inr d)"

definition sha256_ok :: "(bytes \<Rightarrow> bytes) \<Rightarrow> bool" where
  "sha256_ok sha256 \<longleftrightarrow> (\<forall>x. length (sha256 x) = 32)"

lemma digest_length: "sha256_ok sha256 \<Longrightarrow> digest_of sha256 s = Inr d \<Longrightarrow> length d = 32"
  by (auto simp: digest_of_def sha256_ok_def split: sum.splits if_splits)

lemma verify_own: "sha256_ok sha256 \<Longrightarrow> digest_of sha256 s = Inr d \<Longrightarrow> verify_snapshot_digest sha256 s d"
  by (simp add: verify_snapshot_digest_def ct_eq_iff digest_length)

lemma try_insert_keyed: "keyed sha256 node \<Longrightarrow> keyed sha256 (snd (try_insert sha256 s node))"
proof (cases "digest_of sha256 s")
  case (Inr d)
  assume k: "keyed sha256 node"
  have "digest_of sha256 t = Inr e" if "hm_get (hm_insert d s node) e = Some t" for e t
    using that Inr k unfolding hm_get_insert by (simp add: keyed_def split: if_splits)
  with Inr k show ?thesis by (simp add: keyed_def try_insert_def hm_wf_insert)
qed (simp add: try_insert_def)

lemma handle_keyed: "keyed sha256 node \<Longrightarrow> keyed sha256 (snd (handle sha256 msg node))"
proof (cases msg)
  case (SnapshotMsg d s)
  assume k: "keyed sha256 node"
  have "snd (handle sha256 msg node) = node \<or>
      snd (handle sha256 msg node) = snd (try_insert sha256 s node)"
    using SnapshotMsg by (auto simp: handle_def split: prod.splits sum.splits)
  with k try_insert_keyed [OF k, of s] show ?thesis by auto
qed (simp_all add: handle_def Let_def)

lemma drain_snapshots:
  assumes "sha256_ok sha256"
    and "\<forall>(d, s) \<in> set ds. digest_of sha256 s = Inr d \<and> hm_get b d = None" and "distinct (map fst ds)"
  shows "drain sha256 b (map (\<lambda>(d, s). SnapshotMsg d s) ds) outq =
    (b @ ds, outq @ map (\<lambda>(d, s). Ack d) ds)"
  using assms(2-)
proof (induction ds arbitrary: b outq)
  case (Cons p ds)
  obtain d s where p: "p = (d, s)" by (cases p)
  have d: "digest_of sha256 s = Inr d" "hm_get b d = None" using Cons.prems p by auto
  have "handle sha256 (SnapshotMsg d s) b = ([Ack d], b @ [(d, s)])"
    using verify_own [OF assms(1) d(1)] d
    by (simp add: handle_def node_has_def try_insert_def hm_insert_fresh)
  moreover have "\<forall>(e, t) \<in> set ds. digest_of sha256 t = Inr e \<and> hm_get (b @ [(d, s)]) e = None"
  proof (intro ballI, clarify)
    fix e t assume et: "(e, t) \<in> set ds"
    then have "digest_of sha256 t = Inr e" "hm_get b e = None" using Cons.prems(1) by auto
    moreover have "e \<noteq> d" using Cons.prems(2) p et by force
    ultimately show "digest_of sha256 t = Inr e \<and> hm_get (b @ [(d, s)]) e = None"
      by (simp add: map_add_def)
  qed
  ultimately show ?case using Cons.IH Cons.prems(2) p by simp
qed simp

lemma drain_acks: "drain sha256 a (map Ack ds) outq = (a, outq)"
  by (induction ds) (simp_all add: handle_def)

text \<open>The part of one store that another lacks.\<close>

definition missing :: "sync_node \<Rightarrow> sync_node \<Rightarrow> sync_node" where
  "missing a b = filter (\<lambda>(d, s). hm_get b d = None) a"

lemma answer_want:
  assumes "hm_wf a" and "set ps \<subseteq> set a"
  shows "map (\<lambda>d. case hm_get a d of Some s \<Rightarrow> SnapshotMsg d s | None \<Rightarrow> Nack d Gone) (map fst ps) =
    map (\<lambda>(d, s). SnapshotMsg d s) ps"
  using assms by (induction ps) (auto simp: map_of_eq_Some_iff)

lemma replicate_eq:
  assumes ok: "sha256_ok sha256" and a: "keyed sha256 a" and steps: "3 \<le> n"
  shows "replicate_nodes sha256 n a b = (Inr (), a, b @ missing a b)"
proof -
  let ?miss = "missing a b"
  let ?want = "filter (\<lambda>d. \<not> node_has b d) (node_digests a)"
  have want: "?want = map fst ?miss"
    by (simp add: node_digests_def node_has_def missing_def filter_map comp_def case_prod_unfold)
  have d1: "drain sha256 b [advertise a] [] = (b, if ?miss = [] then [] else [Want (map fst ?miss)])"
    using want by (simp add: advertise_def handle_def Let_def)
  have wf: "hm_wf a" "set ?miss \<subseteq> set a" using a by (auto simp: keyed_def missing_def)
  have d2: "drain sha256 a [Want (map fst ?miss)] [] = (a, map (\<lambda>(d, s). SnapshotMsg d s) ?miss)"
    using answer_want [OF wf] by (simp add: handle_def)
  have "distinct (map fst ?miss)"
    using a by (simp add: keyed_def missing_def distinct_map_filter)
  moreover have "\<forall>(d, s) \<in> set ?miss. digest_of sha256 s = Inr d \<and> hm_get b d = None"
    using a by (auto simp: keyed_def missing_def map_of_eq_Some_iff)
  ultimately have d3: "drain sha256 b (map (\<lambda>(d, s). SnapshotMsg d s) ?miss) [] =
      (b @ ?miss, map Ack (map fst ?miss))"
    using drain_snapshots [OF ok, of ?miss b "[]"] by (simp add: case_prod_unfold comp_def)
  have quiet: "replicate_loop sha256 k a b' [] [] = (Inr (), a, b')" for k b'
    by (subst replicate_loop.simps) simp
  show ?thesis
  proof (cases "?miss = []")
    case True
    then show ?thesis unfolding replicate_nodes_def
      by (subst replicate_loop.simps) (use steps d1 in \<open>simp add: quiet\<close>)
  next
    case False
    have last: "replicate_loop sha256 (n - 1) a b (map (\<lambda>(d, s). SnapshotMsg d s) ?miss) [] =
        (Inr (), a, b @ ?miss)"
      by (subst replicate_loop.simps)
        (use steps False d3 drain_acks [of sha256 a "map fst ?miss" "[]"] in \<open>simp add: quiet\<close>)
    from False show ?thesis unfolding replicate_nodes_def
      by (subst replicate_loop.simps) (use steps d1 d2 last in simp)
  qed
qed

lemma replicate_get:
  assumes "sha256_ok sha256" and "keyed sha256 a" and "3 \<le> max_steps"
  shows "\<exists>b'. replicate_nodes sha256 max_steps a b = (Inr (), a, b')
    \<and> (\<forall>d. hm_get b' d = (case hm_get b d of Some s \<Rightarrow> Some s | None \<Rightarrow> hm_get a d))"
proof -
  have "hm_get (b @ missing a b) d = (case hm_get b d of Some s \<Rightarrow> Some s | None \<Rightarrow> hm_get a d)" for d
  proof (cases "hm_get b d")
    case None
    have "map_of (filter (\<lambda>(d, s). hm_get b d = None) xs) d = map_of xs d" for xs
      using None by (induction xs) auto
    with None show ?thesis by (simp add: missing_def map_add_def)
  next
    case (Some s)
    moreover have "hm_get (missing a b) d = None"
      using Some map_of_SomeD [OF Some] by (force simp: missing_def map_of_eq_None_iff)
    ultimately show ?thesis by (simp add: map_add_def)
  qed
  with replicate_eq [OF assms] show ?thesis by blast
qed

subsection \<open>Properties\<close>

text \<open>
  C7: Replication converges: from a node whose store is keyed by digests, replication within at
  least three rounds succeeds, leaves the sender unchanged, and gives the receiver exactly the
  union: what it had stays as it was and every snapshot it lacked arrives under its digest.
\<close>

theorem replication_converges:
  assumes "sha256_ok sha256" and "keyed sha256 a" and "3 \<le> max_steps"
  shows "\<exists>b'. replicate_nodes sha256 max_steps a b = (Inr (), a, b')
    \<and> (\<forall>d. hm_get b' d = (case hm_get b d of Some s \<Rightarrow> Some s | None \<Rightarrow> hm_get a d))"
  by (rule replicate_get [OF assms])

theorem replication_converges_witness:
  "\<exists>b'. replicate_nodes (\<lambda>x. replicate 32 1) 3 [(replicate 32 1, hash_snap 1 5)] [] =
      (Inr (), [(replicate 32 1, hash_snap 1 5)], b')"
proof -
  have ok: "sha256_ok (\<lambda>x. replicate 32 1)" by (simp add: sha256_ok_def)
  have "keyed (\<lambda>x. replicate 32 1) [(replicate 32 1, hash_snap 1 5)]"
    by (auto simp: keyed_def digest_of_def hash_snap_hash split: if_splits)
  from replication_converges [OF ok this order_refl] show ?thesis by blast
qed

text \<open>
  A node never stores a snapshot under a digest that is not its own: handling any message
  from a peer, however malformed, keeps the store keyed by the digests the node computed.
\<close>

lemma handle_keeps_keyed:
  assumes "keyed sha256 node"
  shows "keyed sha256 (snd (handle sha256 msg node))"
  by (rule handle_keyed [OF assms])

text \<open>
  Delivery is idempotent and never forgets: a valid snapshot is acknowledged on every
  delivery, after the first one the store no longer changes, and no delivery replaces or drops a
  snapshot already held.
\<close>

lemma snapshot_delivery_idempotent:
  assumes ok: "sha256_ok sha256" and "digest_of sha256 s = Inr d"
    and first: "handle sha256 (SnapshotMsg d s) node = (r1, node1)"
  shows "r1 = [Ack d] \<and> handle sha256 (SnapshotMsg d s) node1 = ([Ack d], node1)
    \<and> hm_get node1 d \<noteq> None \<and> (\<forall>e t. hm_get node e = Some t \<longrightarrow> hm_get node1 e = Some t)"
proof -
  have v: "verify_snapshot_digest sha256 s d" by (rule verify_own [OF ok assms(2)])
  have n: "node1 = (if node_has node d then node else hm_insert d s node)" "r1 = [Ack d]"
    using first v assms(2) by (cases "node_has node d"; simp add: handle_def try_insert_def)+
  then have "node_has node1 d" by (simp add: node_has_def hm_simps)
  with v n show ?thesis by (auto simp: handle_def node_has_def hm_simps)
qed

lemma digest_of_memory [simp]: "digest_of sha256 (s\<lparr>memory := b\<rparr>) = digest_of sha256 s"
  by (simp add: digest_of_def digest_preimage_def canonical_encode_snapshot_tail_def split: sum.split)

text \<open>
  The digest does not protect the memory itself: it covers the checksum field, which the receiver
  never compares with the memory it carries. A peer that replaces the compressed memory of a genuine
  snapshot by any bytes has it acknowledged and stored under the genuine digest, and the genuine
  snapshot delivered afterwards is acknowledged but no longer stored.
\<close>

lemma tampered_memory_accepted:
  assumes "sha256_ok sha256" and "digest_of sha256 s = Inr d" and "hm_get node d = None"
  shows "handle sha256 (SnapshotMsg d (s\<lparr>memory := evil\<rparr>)) node =
      ([Ack d], hm_insert d (s\<lparr>memory := evil\<rparr>) node)
    \<and> handle sha256 (SnapshotMsg d s) (hm_insert d (s\<lparr>memory := evil\<rparr>) node) =
      ([Ack d], hm_insert d (s\<lparr>memory := evil\<rparr>) node)"
proof -
  have "verify_snapshot_digest sha256 s d" "verify_snapshot_digest sha256 (s\<lparr>memory := evil\<rparr>) d"
    by (rule verify_own [OF assms(1)]; simp add: assms(2))+
  with assms show ?thesis by (simp add: handle_def node_has_def try_insert_def hm_simps)
qed

end
