(* ===== verification/Framed.thy ===== *)
theory Framed
  imports Sync_Protocol
begin

text \<open>
  The authenticated framed transport, \<open>src/src/snapshot/sync/framed.rs\<close>, over the daemon's
  length-prefixed framing, \<open>src/src/daemon/protocol.rs\<close>.

  A byte stream is the list of bytes still to be read, ended by end-of-file; writing appends.
  HMAC-SHA256, SHA-256, bincode on wire messages and base64 are parameters (\<open>frame_env\<close>). The wire
  mirror of \<open>SyncMessage\<close> has the same shape as the message and is identified with it; digests are
  32-byte lists.
\<close>

subsection \<open>Length-prefixed framing\<close>

datatype io_error = UnexpectedEof | InvalidData string

definition DEFAULT_MAX_PAYLOAD :: nat where
  "DEFAULT_MAX_PAYLOAD = 64 * 1024 * 1024"

definition read_exact :: "nat \<Rightarrow> bytes \<Rightarrow> (io_error + bytes) \<times> bytes" where
  "read_exact n s = (if n \<le> length s then (Inr (take n s), drop n s) else (Inl UnexpectedEof, []))"

definition read_raw_frame_with_limit :: "nat \<Rightarrow> bytes \<Rightarrow> (io_error + bytes) \<times> bytes" where
  "read_raw_frame_with_limit max_payload s =
     (case read_exact 4 s of
        (Inl e, s1) \<Rightarrow> (Inl e, s1)
      | (Inr len_buf, s1) \<Rightarrow>
          (let len = unat (u32_from_be len_buf) in
           if max_payload < len then (Inl (InvalidData ''frame too large: {len} > {max_payload}''), s1)
           else read_exact len s1))"

definition write_raw_frame :: "bytes \<Rightarrow> bytes \<Rightarrow> (io_error + unit) \<times> bytes" where
  "write_raw_frame body w =
     (if 2 ^ 32 \<le> length body then (Inl (InvalidData ''payload exceeds u32 max''), w)
      else (Inr (), w @ u32_be (word_of_nat (length body)) @ body))"

subsection \<open>Frames\<close>

definition FRAME_MAC_DOMAIN :: bytes where
  "FRAME_MAC_DOMAIN = str_bytes ''NEXUS-SNAPSHOT-SYNC-FRAME-HMAC-v1''"

definition HANDSHAKE_MAGIC :: bytes where
  "HANDSHAKE_MAGIC = str_bytes ''NEXUS-SYNC-HELLO-v1''"

definition SESSION_DOMAIN :: bytes where
  "SESSION_DOMAIN = str_bytes ''NEXUS-SYNC-v1''"

definition SYNC_FRAME_PROTO_VERSION :: u16 where
  "SYNC_FRAME_PROTO_VERSION = 1"

definition SYNC_FRAME_MAC_ALG_HMAC_SHA256 :: byte where
  "SYNC_FRAME_MAC_ALG_HMAC_SHA256 = 1"

definition FRAME_HEADER_LEN :: nat where
  "FRAME_HEADER_LEN = 2 + 1 + 2 + 16 + 8 + 1 + 4"

definition FRAME_MIN_LEN :: nat where
  "FRAME_MIN_LEN = FRAME_HEADER_LEN + 32"

definition HANDSHAKE_LEN :: nat where
  "HANDSHAKE_LEN = 19 + 2 + 2 + 32"

datatype frame_kind = KAdvertise | KWant | KSnapshot | KAck | KNack

fun kind_u8 :: "frame_kind \<Rightarrow> byte" where
  "kind_u8 KAdvertise = 1"
| "kind_u8 KWant = 2"
| "kind_u8 KSnapshot = 3"
| "kind_u8 KAck = 4"
| "kind_u8 KNack = 5"

definition kind_from_u8 :: "byte \<Rightarrow> frame_kind result" where
  "kind_from_u8 v =
     (if v = 1 then Inr KAdvertise else if v = 2 then Inr KWant else if v = 3 then Inr KSnapshot
      else if v = 4 then Inr KAck else if v = 5 then Inr KNack
      else Inl (ConfigError ''unknown sync frame kind {v}''))"

fun wire_kind :: "sync_message \<Rightarrow> frame_kind" where
  "wire_kind (Advertise _) = KAdvertise"
| "wire_kind (Want _) = KWant"
| "wire_kind (SnapshotMsg _ _) = KSnapshot"
| "wire_kind (Ack _) = KAck"
| "wire_kind (Nack _ _) = KNack"

record frame_env =
  hmac_sha256 :: "bytes \<Rightarrow> bytes \<Rightarrow> bytes"
  fe_sha256 :: "bytes \<Rightarrow> bytes"
  wire_serialize :: "sync_message \<Rightarrow> bytes option"
  wire_deserialize :: "bytes \<Rightarrow> sync_message option"

definition mac_preimage :: "frame_env \<Rightarrow> u16 \<Rightarrow> bytes \<Rightarrow> u64 \<Rightarrow> frame_kind \<Rightarrow> u32 \<Rightarrow> bytes \<Rightarrow> bytes" where
  "mac_preimage env key_id session_id seq kind body_len body =
     FRAME_MAC_DOMAIN @ u16_be SYNC_FRAME_PROTO_VERSION @ [SYNC_FRAME_MAC_ALG_HMAC_SHA256]
     @ u16_be key_id @ session_id @ u64_be seq @ [kind_u8 kind] @ u32_be body_len @ fe_sha256 env body"

definition compute_mac ::
  "frame_env \<Rightarrow> bytes \<Rightarrow> u16 \<Rightarrow> bytes \<Rightarrow> u64 \<Rightarrow> frame_kind \<Rightarrow> u32 \<Rightarrow> bytes \<Rightarrow> bytes" where
  "compute_mac env key key_id session_id seq kind body_len body =
     hmac_sha256 env key (mac_preimage env key_id session_id seq kind body_len body)"

definition encode_frame ::
  "frame_env \<Rightarrow> bytes \<Rightarrow> u16 \<Rightarrow> bytes \<Rightarrow> u64 \<Rightarrow> frame_kind \<Rightarrow> bytes \<Rightarrow> bytes result" where
  "encode_frame env key key_id session_id seq kind body =
     (if 2 ^ 32 \<le> length body then Inl (ConfigError ''sync frame body exceeds u32 length prefix'')
      else
        let body_len = word_of_nat (length body) in
        Inr (u16_be SYNC_FRAME_PROTO_VERSION @ [SYNC_FRAME_MAC_ALG_HMAC_SHA256] @ u16_be key_id
             @ session_id @ u64_be seq @ [kind_u8 kind] @ u32_be body_len @ body
             @ compute_mac env key key_id session_id seq kind body_len body))"

definition verify_frame ::
  "frame_env \<Rightarrow> bytes \<Rightarrow> u16 \<Rightarrow> bytes \<Rightarrow> bytes \<Rightarrow> (u64 \<times> frame_kind \<times> bytes) result" where
  "verify_frame env key expected_key_id expected_session_id frame =
     (if length frame < FRAME_MIN_LEN
      then Inl (ConfigError ''sync frame too short: {} < {FRAME_MIN_LEN}'')
      else if u16_from_be [frame ! 0, frame ! 1] \<noteq> SYNC_FRAME_PROTO_VERSION
      then Inl (ConfigError ''unsupported sync frame proto_version {proto_version}'')
      else if frame ! 2 \<noteq> SYNC_FRAME_MAC_ALG_HMAC_SHA256
      then Inl (ConfigError ''unsupported sync frame mac_alg {mac_alg}'')
      else
        let key_id = u16_from_be [frame ! 3, frame ! 4] in
        if key_id \<noteq> expected_key_id
        then Inl (ConfigError ''sync frame key_id {key_id} did not match expected {expected_key_id}'')
        else
          let session_id = slice frame 5 21 in
          if session_id \<noteq> expected_session_id
          then Inl (ConfigError ''sync frame session_id mismatch'')
          else
            let seq = u64_from_be (slice frame 21 29) in
            case kind_from_u8 (frame ! 29) of
              Inl e \<Rightarrow> Inl e
            | Inr kind \<Rightarrow>
                (let body_len = u32_from_be (slice frame 30 34);
                     body_start = FRAME_HEADER_LEN;
                     body_end = body_start + unat body_len;
                     mac_end = body_end + 32
                 in if mac_end \<noteq> length frame
                    then Inl (ConfigError ''sync frame body_len mismatch: body_len={body_len}, frame_len={}'')
                    else
                      let body = slice frame body_start body_end;
                          received_mac = slice frame body_end mac_end
                      in if hmac_sha256 env key (mac_preimage env key_id session_id seq kind body_len body)
                              \<noteq> received_mac
                         then Inl (ConfigError ''sync frame MAC verification failed'')
                         else Inr (seq, kind, body)))"

subsection \<open>The transport\<close>

record sync_auth_config =
  node_key :: bytes
  auth_key_id :: u16
  max_payload :: nat

definition auth_new :: "bytes \<Rightarrow> sync_auth_config" where
  "auth_new key = \<lparr>node_key = key, auth_key_id = 0, max_payload = DEFAULT_MAX_PAYLOAD\<rparr>"

record framed_transport =
  reader :: bytes
  writer :: bytes
  auth :: sync_auth_config
  session_id :: bytes
  tx_seq :: u64
  expected_rx_seq :: u64

definition io_err :: "io_error \<Rightarrow> nexus_error" where
  "io_err e = ConfigError ''sync framed I/O: {e}''"

definition write_handshake :: "u16 \<Rightarrow> bytes \<Rightarrow> bytes \<Rightarrow> unit result \<times> bytes" where
  "write_handshake key_id nonce w =
     (case write_raw_frame (HANDSHAKE_MAGIC @ u16_be SYNC_FRAME_PROTO_VERSION @ u16_be key_id @ nonce) w of
        (Inl e, w') \<Rightarrow> (Inl (io_err e), w')
      | (Inr _, w') \<Rightarrow> (Inr (), w'))"

definition read_handshake :: "u16 \<Rightarrow> nat \<Rightarrow> bytes \<Rightarrow> bytes result \<times> bytes" where
  "read_handshake expected_key_id limit s =
     (case read_raw_frame_with_limit limit s of
        (Inl e, s') \<Rightarrow> (Inl (io_err e), s')
      | (Inr body, s') \<Rightarrow>
          ((if length body \<noteq> HANDSHAKE_LEN \<or> \<not> starts_with body HANDSHAKE_MAGIC
            then Inl (ConfigError ''invalid sync handshake frame'')
            else
              let offset = length HANDSHAKE_MAGIC in
              if u16_from_be [body ! offset, body ! (offset + 1)] \<noteq> SYNC_FRAME_PROTO_VERSION
              then Inl (ConfigError ''unsupported sync handshake proto_version {proto_version}'')
              else if u16_from_be [body ! (offset + 2), body ! (offset + 3)] \<noteq> expected_key_id
              then Inl (ConfigError
                     ''sync handshake key_id {key_id} did not match expected {expected_key_id}'')
              else Inr (slice body (offset + 4) (offset + 4 + 32))), s'))"

definition derive_session_id :: "frame_env \<Rightarrow> bytes \<Rightarrow> bytes \<Rightarrow> bytes" where
  "derive_session_id env client_nonce server_nonce =
     take 16 (fe_sha256 env (client_nonce @ server_nonce @ SESSION_DOMAIN))"

definition from_parts :: "bytes \<Rightarrow> bytes \<Rightarrow> sync_auth_config \<Rightarrow> bytes \<Rightarrow> framed_transport" where
  "from_parts r w a sid =
     \<lparr>reader = r, writer = w, auth = a, session_id = sid, tx_seq = 0, expected_rx_seq = 0\<rparr>"

text \<open>Both ends of a connection: the initiator sends its nonce first, the acceptor answers.\<close>

definition connect_initiator ::
  "frame_env \<Rightarrow> bytes \<Rightarrow> bytes \<Rightarrow> bytes \<Rightarrow> sync_auth_config \<Rightarrow> framed_transport result \<times> bytes" where
  "connect_initiator env client_nonce r w a =
     (case write_handshake (auth_key_id a) client_nonce w of
        (Inl e, w') \<Rightarrow> (Inl e, w')
      | (Inr _, w') \<Rightarrow>
          (case read_handshake (auth_key_id a) (max_payload a) r of
             (Inl e, r') \<Rightarrow> (Inl e, w')
           | (Inr server_nonce, r') \<Rightarrow>
               (Inr (from_parts r' w' a (derive_session_id env client_nonce server_nonce)), w')))"

definition accept_connection ::
  "frame_env \<Rightarrow> bytes \<Rightarrow> bytes \<Rightarrow> bytes \<Rightarrow> sync_auth_config \<Rightarrow> framed_transport result \<times> bytes" where
  "accept_connection env server_nonce r w a =
     (case read_handshake (auth_key_id a) (max_payload a) r of
        (Inl e, r') \<Rightarrow> (Inl e, w)
      | (Inr client_nonce, r') \<Rightarrow>
          (case write_handshake (auth_key_id a) server_nonce w of
             (Inl e, w') \<Rightarrow> (Inl e, w')
           | (Inr _, w') \<Rightarrow>
               (Inr (from_parts r' w' a (derive_session_id env client_nonce server_nonce)), w')))"

definition send :: "frame_env \<Rightarrow> sync_message \<Rightarrow> framed_transport \<Rightarrow> unit result \<times> framed_transport" where
  "send env msg t =
     (case wire_serialize env msg of
        None \<Rightarrow> (Inl (SerializationError ''sync body serialize: {e}''), t)
      | Some body \<Rightarrow>
          (case encode_frame env (node_key (auth t)) (auth_key_id (auth t)) (session_id t) (tx_seq t)
                  (wire_kind msg) body of
             Inl e \<Rightarrow> (Inl e, t)
           | Inr frame \<Rightarrow>
               (case write_raw_frame frame (writer t) of
                  (Inl e, w') \<Rightarrow> (Inl (io_err e), t\<lparr>writer := w'\<rparr>)
                | (Inr _, w') \<Rightarrow>
                    (case checked_add (tx_seq t) 1 of
                       None \<Rightarrow> (Inl (ConfigError ''sync tx sequence overflow''), t\<lparr>writer := w'\<rparr>)
                     | Some n \<Rightarrow> (Inr (), t\<lparr>writer := w', tx_seq := n\<rparr>)))))"

definition recv ::
  "frame_env \<Rightarrow> framed_transport \<Rightarrow> sync_message option result \<times> framed_transport" where
  "recv env t =
     (case read_raw_frame_with_limit (max_payload (auth t)) (reader t) of
        (Inl UnexpectedEof, r') \<Rightarrow> (Inr None, t\<lparr>reader := r'\<rparr>)
      | (Inl e, r') \<Rightarrow> (Inl (io_err e), t\<lparr>reader := r'\<rparr>)
      | (Inr frame, r') \<Rightarrow>
          (let t = t\<lparr>reader := r'\<rparr> in
           case verify_frame env (node_key (auth t)) (auth_key_id (auth t)) (session_id t) frame of
             Inl e \<Rightarrow> (Inl e, t)
           | Inr (seq, kind, body) \<Rightarrow>
               (if seq \<noteq> expected_rx_seq t
                then (Inl (ConfigError ''sync frame out of order: got seq {seq}, expected {}''), t)
                else case checked_add (expected_rx_seq t) 1 of
                  None \<Rightarrow> (Inl (ConfigError ''sync rx sequence overflow''), t)
                | Some n \<Rightarrow>
                    (let t = t\<lparr>expected_rx_seq := n\<rparr> in
                     case wire_deserialize env body of
                       None \<Rightarrow> (Inl (SerializationError ''sync body deserialize: {e}''), t)
                     | Some wire \<Rightarrow>
                         (if wire_kind wire \<noteq> kind
                          then (Inl (ConfigError ''sync frame kind mismatch: header={kind:?}, body={:?}''), t)
                          else (Inr (Some wire), t))))))"

definition is_hexdigit :: "char \<Rightarrow> bool" where
  "is_hexdigit c = is_ok (hex_val c)"

definition parse_key :: "(string \<Rightarrow> bytes option) \<Rightarrow> string \<Rightarrow> bytes result" where
  "parse_key base64_decode raw =
     (let trimmed = trim raw in
      if length trimmed = 64 \<and> list_all is_hexdigit trimmed then from_hex_pairs trimmed
      else case base64_decode trimmed of
        None \<Rightarrow> Inl (ConfigError ''invalid NEXUS_SYNC_NODE_KEY: {e}'')
      | Some bs \<Rightarrow>
          (if length bs = 32 then Inr bs
           else Inl (ConfigError ''NEXUS_SYNC_NODE_KEY must be 32 bytes'')))"

subsection \<open>Lemmas\<close>

lemma raw_frame_roundtrip:
  assumes "length body < 2 ^ 32" and "length body \<le> limit"
  shows "read_raw_frame_with_limit limit (u32_be (word_of_nat (length body)) @ body @ rest) =
    (Inr body, rest)"
  using assms by (simp add: read_raw_frame_with_limit_def read_exact_def unat_u32_of_nat)

definition hmac_ok :: "frame_env \<Rightarrow> bool" where
  "hmac_ok env \<longleftrightarrow> (\<forall>k m. length (hmac_sha256 env k m) = 32)"

lemma kind_roundtrip: "kind_from_u8 v = Inr k \<longleftrightarrow> v = kind_u8 k"
  by (cases k) (auto simp: kind_from_u8_def split: if_splits)

lemma frame_split:
  assumes "length frame = 34 + n + 32"
  shows "frame = [frame ! 0, frame ! 1] @ [frame ! 2] @ [frame ! 3, frame ! 4] @ slice frame 5 21
    @ slice frame 21 29 @ [frame ! 29] @ slice frame 30 34 @ slice frame 34 (34 + n)
    @ slice frame (34 + n) (34 + n + 32)"
proof -
  have two: "[frame ! 0, frame ! 1] = slice frame 0 2" "[frame ! 3, frame ! 4] = slice frame 3 5"
    using slice_append [of 0 1 2 frame] slice_append [of 3 4 5 frame] slice_one [of _ frame] assms
    by (simp_all add: numeral_2_eq_2 eval_nat_numeral)
  have one: "[frame ! 2] = slice frame 2 3" "[frame ! 29] = slice frame 29 30"
    using slice_one [of 2 frame] slice_one [of 29 frame] assms by simp_all
  show ?thesis
    using assms slice_all [of frame] unfolding two one by (simp add: slice_append)
qed

lemma u16_be_two: "\<exists>a b. u16_be w = [a, b] \<and> u16_from_be [a, b] = w"
proof -
  have "length (u16_be w) = Suc (Suc 0)" by simp
  then obtain a b where "u16_be w = [a, b]" by (auto simp: length_Suc_conv simp del: length_int_bytes)
  then show ?thesis by (metis from_be_to_be(1))
qed

lemma verify_encode:
  assumes "hmac_ok env" and "length sid = 16" and "encode_frame env key kid sid seq kind body = Inr frame"
  shows "verify_frame env key kid sid frame = Inr (seq, kind, body)"
proof -
  obtain a b c d where v: "u16_be SYNC_FRAME_PROTO_VERSION = [a, b]"
      "u16_from_be [a, b] = SYNC_FRAME_PROTO_VERSION" "u16_be kid = [c, d]" "u16_from_be [c, d] = kid"
    using u16_be_two by metis
  define n where "n = length body"
  define mac where "mac = compute_mac env key kid sid seq kind (word_of_nat n) body"
  define q l where "q = u64_be seq" and "l = u32_be (word_of_nat n)"
  have n: "n < 2 ^ 32" using assms(3) by (simp add: encode_frame_def n_def split: if_splits)
  have frame: "frame = a # b # SYNC_FRAME_MAC_ALG_HMAC_SHA256 # c # d # sid @ q @ kind_u8 kind # l @ body @ mac"
    using assms(3) v by (simp add: encode_frame_def Let_def n_def mac_def q_def l_def split: if_splits)
  have len: "length q = 8" "length l = 4" "length mac = 32"
    using assms(1) by (simp_all add: q_def l_def mac_def compute_mac_def hmac_ok_def)
  have lf: "length frame = 34 + n + 32" using frame len assms(2) by (simp add: n_def)
  have pos: "frame ! 0 = a" "frame ! 1 = b" "frame ! 2 = SYNC_FRAME_MAC_ALG_HMAC_SHA256"
      "frame ! 3 = c" "frame ! 4 = d" "frame ! 29 = kind_u8 kind"
    using len assms(2) by (simp_all add: frame nth_append)
  have rest: "drop 34 frame = body @ mac" using len assms(2) by (simp add: frame)
  then have "drop (34 + n) frame = mac" by (metis n_def append_eq_conv_conj drop_drop add.commute)
  then have sl: "slice frame 5 21 = sid" "slice frame 21 29 = q" "slice frame 30 34 = l"
      "slice frame 34 (34 + n) = body" "slice frame (34 + n) (34 + n + 32) = mac"
    using len assms(2) rest by (simp_all add: slice_def n_def) (simp_all add: frame)
  have ints: "u64_from_be q = seq" "u32_from_be l = word_of_nat n" "unat (word_of_nat n :: u32) = n"
    using n by (simp_all add: q_def l_def unat_u32_of_nat)
  have mac: "hmac_sha256 env key (mac_preimage env kid sid seq kind (word_of_nat n) body) = mac"
    by (simp add: mac_def compute_mac_def)
  show ?thesis
    unfolding verify_frame_def FRAME_MIN_LEN_def FRAME_HEADER_LEN_def pos v
    using lf sl(5) by (simp add: sl(1-4) ints mac Let_def kind_roundtrip [THEN iffD2])
qed

lemma encode_verify:
  assumes "length sid = 16" and "verify_frame env key kid sid frame = Inr (seq, kind, body)"
  shows "encode_frame env key kid sid seq kind body = Inr frame"
proof -
  define n where "n = unat (u32_from_be (slice frame 30 34))"
  have L: "length frame = 34 + n + 32" and v: "u16_from_be [frame ! 0, frame ! 1] = SYNC_FRAME_PROTO_VERSION"
    and m: "frame ! 2 = SYNC_FRAME_MAC_ALG_HMAC_SHA256" and k: "u16_from_be [frame ! 3, frame ! 4] = kid"
    and sid: "slice frame 5 21 = sid" and sq: "seq = u64_from_be (slice frame 21 29)"
    and kd: "kind_from_u8 (frame ! 29) = Inr kind" and body: "body = slice frame 34 (34 + n)"
    and mac: "hmac_sha256 env key (mac_preimage env kid sid seq kind (u32_from_be (slice frame 30 34)) body)
      = slice frame (34 + n) (34 + n + 32)"
    using assms(2) unfolding verify_frame_def FRAME_MIN_LEN_def FRAME_HEADER_LEN_def
    by (auto simp: Let_def n_def split: if_splits sum.splits)
  have lb: "length body = n" using L body by simp
  have n32: "n < 2 ^ 32" using unsigned_less [of "u32_from_be (slice frame 30 34)"] by (simp add: n_def)
  have w: "u32_from_be (slice frame 30 34) = word_of_nat n" by (simp add: n_def)
  have enc: "u16_be SYNC_FRAME_PROTO_VERSION = [frame ! 0, frame ! 1]" "u16_be kid = [frame ! 3, frame ! 4]"
      "u64_be seq = slice frame 21 29" "u32_be (word_of_nat n) = slice frame 30 34" "kind_u8 kind = frame ! 29"
    using to_be_from_be(1) [of "[frame ! 0, frame ! 1]"] to_be_from_be(1) [of "[frame ! 3, frame ! 4]"]
      to_be_from_be(3) [of "slice frame 21 29"] to_be_from_be(2) [of "slice frame 30 34"] L kd
    unfolding v k sq [symmetric] w kind_roundtrip by simp_all
  show ?thesis
    using frame_split [OF L] n32 lb mac unfolding encode_frame_def Let_def compute_mac_def w
    by (simp add: enc m [symmetric] sid body [symmetric])
qed

text \<open>What the code relies on of bincode: a serialized message deserializes to itself.\<close>

definition wire_ok :: "frame_env \<Rightarrow> bool" where
  "wire_ok env \<longleftrightarrow> (\<forall>m b. wire_serialize env m = Some b \<longrightarrow> wire_deserialize env b = Some m)"

lemma encode_frame_length:
  "hmac_ok env \<Longrightarrow> length sid = 16 \<Longrightarrow> encode_frame env key kid sid seq kind body = Inr frame \<Longrightarrow>
   length frame = 66 + length body"
  by (auto simp: encode_frame_def Let_def compute_mac_def hmac_ok_def split: if_splits)

lemma checked_succ: "checked_add (w :: u64) 1 = Some n \<Longrightarrow> n = w + 1 \<and> w < n"
  by (auto simp: checked_add_def word_less_nat_alt unat_word_ariths split: if_splits)

text \<open>Two ends of one connection agree on key, key id and session.\<close>

definition same_session :: "framed_transport \<Rightarrow> framed_transport \<Rightarrow> bool" where
  "same_session a b \<longleftrightarrow> node_key (auth a) = node_key (auth b) \<and> auth_key_id (auth a) = auth_key_id (auth b)
     \<and> session_id a = session_id b"

lemma send_ok:
  assumes "send env msg t = (Inr (), t')"
  obtains body frame where "wire_serialize env msg = Some body"
    "encode_frame env (node_key (auth t)) (auth_key_id (auth t)) (session_id t) (tx_seq t)
       (wire_kind msg) body = Inr frame"
    "length frame < 2 ^ 32" "checked_add (tx_seq t) 1 = Some (tx_seq t')"
    "t' = t\<lparr>writer := writer t @ u32_be (word_of_nat (length frame)) @ frame, tx_seq := tx_seq t'\<rparr>"
  using assms
  by (auto simp: send_def write_raw_frame_def not_le split: option.splits sum.splits if_splits prod.splits)

lemma recv_frame:
  assumes "length frame < 2 ^ 32" and "length frame \<le> max_payload (auth t)"
    and "reader t = u32_be (word_of_nat (length frame)) @ frame @ rest"
    and "verify_frame env (node_key (auth t)) (auth_key_id (auth t)) (session_id t) frame =
      Inr (seq, kind, body)"
  shows "recv env t = (if seq \<noteq> expected_rx_seq t
      then (Inl (ConfigError ''sync frame out of order: got seq {seq}, expected {}''), t\<lparr>reader := rest\<rparr>)
      else case checked_add (expected_rx_seq t) 1 of
        None \<Rightarrow> (Inl (ConfigError ''sync rx sequence overflow''), t\<lparr>reader := rest\<rparr>)
      | Some n \<Rightarrow> (case wire_deserialize env body of
          None \<Rightarrow> (Inl (SerializationError ''sync body deserialize: {e}''),
                   t\<lparr>reader := rest, expected_rx_seq := n\<rparr>)
        | Some wire \<Rightarrow> if wire_kind wire \<noteq> kind
            then (Inl (ConfigError ''sync frame kind mismatch: header={kind:?}, body={:?}''),
                  t\<lparr>reader := rest, expected_rx_seq := n\<rparr>)
            else (Inr (Some wire), t\<lparr>reader := rest, expected_rx_seq := n\<rparr>)))"
  using raw_frame_roundtrip [OF assms(1,2), of rest] assms(3,4)
  by (simp add: recv_def Let_def split: option.split)

lemma deliver_one:
  assumes env: "hmac_ok env" "wire_ok env" and snd: "send env msg a = (Inr (), a')"
    and ses: "same_session a b" "length (session_id a) = 16" and seq: "expected_rx_seq b = tx_seq a"
    and size: "\<And>body. wire_serialize env msg = Some body \<Longrightarrow> length body + 66 \<le> max_payload (auth b)"
    and rd: "reader b = drop (length (writer a)) (writer a') @ rest"
  shows "recv env b = (Inr (Some msg), b\<lparr>reader := rest, expected_rx_seq := tx_seq a'\<rparr>)"
proof -
  from snd obtain body frame where b: "wire_serialize env msg = Some body"
    and f: "encode_frame env (node_key (auth a)) (auth_key_id (auth a)) (session_id a) (tx_seq a)
       (wire_kind msg) body = Inr frame"
    and l: "length frame < 2 ^ 32" and n: "checked_add (tx_seq a) 1 = Some (tx_seq a')"
    and a': "a' = a\<lparr>writer := writer a @ u32_be (word_of_nat (length frame)) @ frame, tx_seq := tx_seq a'\<rparr>"
    by (rule send_ok)
  have w: "writer a' = writer a @ u32_be (word_of_nat (length frame)) @ frame" by (subst a') simp
  have fl: "length frame \<le> max_payload (auth b)"
    using encode_frame_length [OF env(1) ses(2) f] size [OF b] by simp
  have v: "verify_frame env (node_key (auth b)) (auth_key_id (auth b)) (session_id b) frame =
      Inr (tx_seq a, wire_kind msg, body)"
    using verify_encode [OF env(1) ses(2) f] ses(1) by (simp add: same_session_def)
  have "reader b = u32_be (word_of_nat (length frame)) @ frame @ rest" using rd w by simp
  from recv_frame [OF l fl this v] seq n env(2) b show ?thesis by (simp add: wire_ok_def)
qed

fun send_all :: "frame_env \<Rightarrow> sync_message list \<Rightarrow> framed_transport \<Rightarrow> unit result \<times> framed_transport" where
  "send_all env [] t = (Inr (), t)"
| "send_all env (m # ms) t =
     (case send env m t of (Inl e, t') \<Rightarrow> (Inl e, t') | (Inr _, t') \<Rightarrow> send_all env ms t')"

fun recv_all :: "frame_env \<Rightarrow> nat \<Rightarrow> framed_transport \<Rightarrow> sync_message list result \<times> framed_transport" where
  "recv_all env 0 t = (Inr [], t)"
| "recv_all env (Suc k) t =
     (case recv env t of
        (Inr (Some m), t') \<Rightarrow>
          (case recv_all env k t' of (Inr ms, t'') \<Rightarrow> (Inr (m # ms), t'') | (Inl e, t'') \<Rightarrow> (Inl e, t''))
      | (Inr None, t') \<Rightarrow> (Inr [], t')
      | (Inl e, t') \<Rightarrow> (Inl e, t'))"

lemma send_keeps: "send env m t = (Inr (), t') \<Longrightarrow> auth t' = auth t \<and> session_id t' = session_id t
    \<and> (\<exists>bs. writer t' = writer t @ bs)"
proof -
  assume "send env m t = (Inr (), t')"
  then obtain bs n where "t' = t\<lparr>writer := writer t @ bs, tx_seq := n\<rparr>" by (rule send_ok)
  then show ?thesis by simp
qed

lemma send_all_grows: "send_all env ms t = (Inr (), t') \<Longrightarrow> \<exists>bs. writer t' = writer t @ bs"
proof (induction ms arbitrary: t)
  case (Cons m ms)
  then obtain t1 where "send env m t = (Inr (), t1)" "send_all env ms t1 = (Inr (), t')"
    by (auto split: prod.splits sum.splits)
  with Cons.IH send_keeps show ?case by fastforce
qed simp

lemma deliver_all:
  assumes env: "hmac_ok env" "wire_ok env"
    and size: "\<And>m body. m \<in> set ms \<Longrightarrow> wire_serialize env m = Some body \<Longrightarrow>
      length body + 66 \<le> max_payload (auth b)"
    and snd: "send_all env ms a = (Inr (), a')"
    and ses: "same_session a b" "length (session_id a) = 16" and seq: "expected_rx_seq b = tx_seq a"
    and rd: "reader b = drop (length (writer a)) (writer a') @ rest"
  shows "recv_all env (length ms) b = (Inr ms, b\<lparr>reader := rest, expected_rx_seq := tx_seq a'\<rparr>)"
  using size snd ses seq rd
proof (induction ms arbitrary: a b)
  case Nil
  then show ?case by simp
next
  case (Cons m ms)
  from Cons.prems(2) obtain a1 where s1: "send env m a = (Inr (), a1)"
    and s2: "send_all env ms a1 = (Inr (), a')"
    by (auto split: prod.splits sum.splits)
  note k = send_keeps [OF s1]
  obtain x y where w: "writer a1 = writer a @ x" "writer a' = writer a1 @ y"
    using k send_all_grows [OF s2] by blast
  let ?r1 = "drop (length (writer a1)) (writer a') @ rest"
  have r: "recv env b = (Inr (Some m), b\<lparr>reader := ?r1, expected_rx_seq := tx_seq a1\<rparr>)"
    by (rule deliver_one [OF env s1 Cons.prems(3,4,5)]) (use Cons.prems(1,6) w in auto)
  have "recv_all env (length ms) (b\<lparr>reader := ?r1, expected_rx_seq := tx_seq a1\<rparr>) =
      (Inr ms, b\<lparr>reader := ?r1, expected_rx_seq := tx_seq a1\<rparr>\<lparr>reader := rest, expected_rx_seq := tx_seq a'\<rparr>)"
    by (rule Cons.IH [OF _ s2]) (use Cons.prems(1,3,4) k in \<open>auto simp: same_session_def\<close>)
  with r show ?case by simp
qed

subsection \<open>Properties\<close>

text \<open>
  C5: Only genuine frames are accepted: for a 16-byte session, \<open>verify_frame\<close> accepts a byte string
  with a given sequence number, kind and body exactly when it is the frame \<open>encode_frame\<close> builds from
  them under the same key, key id and session. No other byte string of any length passes.
\<close>

theorem verify_frame_iff_encode:
  assumes "hmac_ok env" and "length sid = 16"
  shows "verify_frame env key kid sid frame = Inr (seq, kind, body) \<longleftrightarrow>
    encode_frame env key kid sid seq kind body = Inr frame"
  using verify_encode [OF assms] encode_verify [OF assms(2)] by blast

definition demo_frame_env :: frame_env where
  "demo_frame_env = \<lparr>hmac_sha256 = (\<lambda>k m. replicate 32 9), fe_sha256 = (\<lambda>b. replicate 32 1),
     wire_serialize = (\<lambda>m. case m of Ack d \<Rightarrow> Some d | _ \<Rightarrow> None), wire_deserialize = (\<lambda>b. Some (Ack b))\<rparr>"

lemma demo_frame_env_ok: "hmac_ok demo_frame_env" "wire_ok demo_frame_env"
  by (auto simp: hmac_ok_def wire_ok_def demo_frame_env_def split: sync_message.splits)

theorem verify_frame_iff_encode_witness:
  "\<exists>frame. verify_frame demo_frame_env [7] 3 (replicate 16 2) frame = Inr (5, KAck, [1, 2])"
  using verify_frame_iff_encode [OF demo_frame_env_ok(1), of "replicate 16 2" "[7]" 3 _ 5 KAck "[1, 2]"]
  by (simp add: encode_frame_def)

text \<open>
  The framed channel delivers exactly what was sent, in order: when one end of a session
  sends a list of messages successfully and the other end, expecting the sender's next sequence
  number, reads those bytes, it receives the same messages in the same order and is left expecting
  the sender's following sequence number.
\<close>

lemma framed_channel_fifo:
  assumes "hmac_ok env" and "wire_ok env" and "send_all env ms a = (Inr (), a')"
    and "same_session a b" and "length (session_id a) = 16" and "expected_rx_seq b = tx_seq a"
    and "\<And>m body. m \<in> set ms \<Longrightarrow> wire_serialize env m = Some body \<Longrightarrow>
      length body + 66 \<le> max_payload (auth b)"
    and "reader b = drop (length (writer a)) (writer a') @ rest"
  shows "recv_all env (length ms) b = (Inr ms, b\<lparr>reader := rest, expected_rx_seq := tx_seq a'\<rparr>)"
  by (rule deliver_all) (use assms in auto)

definition demo_end :: "bytes \<Rightarrow> framed_transport" where
  "demo_end r = \<lparr>reader = r, writer = [], auth = auth_new [7], session_id = replicate 16 2,
     tx_seq = 0, expected_rx_seq = 0\<rparr>"

lemma demo_sent: "\<exists>a'. send_all demo_frame_env [Ack [1], Ack [2]] (demo_end []) = (Inr (), a')"
  by (simp add: send_def demo_frame_env_def demo_end_def encode_frame_def Let_def write_raw_frame_def
      compute_mac_def checked_add_def)

text \<open>
  Replayed frames are rejected: once a frame has been accepted, presenting the same bytes
  again to the same end in the same session, at any later point of the session, is an error; and
  receiving never moves the expected sequence number backwards.
\<close>

lemma replay_rejected:
  assumes "length frame < 2 ^ 32" and "length frame \<le> max_payload (auth t)"
    and "reader t = u32_be (word_of_nat (length frame)) @ frame @ rest"
    and acc: "recv env t = (Inr (Some msg), t1)"
    and "auth t2 = auth t" and "session_id t2 = session_id t"
    and later: "expected_rx_seq t1 \<le> expected_rx_seq t2"
    and "reader t2 = u32_be (word_of_nat (length frame)) @ frame @ rest2"
  shows "isl (fst (recv env t2)) \<and> expected_rx_seq t < expected_rx_seq t1"
proof -
  obtain seq kind body where v: "verify_frame env (node_key (auth t)) (auth_key_id (auth t)) (session_id t) frame =
      Inr (seq, kind, body)"
    using acc raw_frame_roundtrip [OF assms(1,2), of rest] assms(3)
    by (auto simp: recv_def Let_def split: sum.splits)
  note r1 = recv_frame [OF assms(1-3) v]
  then have seq: "seq = expected_rx_seq t" "expected_rx_seq t < expected_rx_seq t1"
    using acc by (auto split: if_splits option.splits dest: checked_succ)
  have "recv env t2 = (Inl (ConfigError ''sync frame out of order: got seq {seq}, expected {}''),
      t2\<lparr>reader := rest2\<rparr>)"
    using recv_frame [of frame t2 rest2 env seq kind body] assms v seq by auto
  with seq show ?thesis by simp
qed

lemma demo_frame:
  obtains f where "encode_frame demo_frame_env [7] 0 (replicate 16 2) 0 KAck [1] = Inr f" "length f = 67"
proof -
  have "\<exists>f. encode_frame demo_frame_env [7] 0 (replicate 16 2) 0 KAck [1] = Inr f"
    by (simp add: encode_frame_def)
  then obtain f where f: "encode_frame demo_frame_env [7] 0 (replicate 16 2) 0 KAck [1] = Inr f" by blast
  with encode_frame_length [OF demo_frame_env_ok(1) _ f] that show thesis by simp
qed

text \<open>
  Frames carry no direction: a message an end has just sent is accepted by that same end when
  its bytes are reflected back to it, if it expects the sequence number it sent with (as both ends
  do at the start of a session). The MAC binds key, session and sequence number but not the sender.
\<close>

lemma reflected_frame_accepted:
  assumes "hmac_ok env" and "wire_ok env" and "send env msg a = (Inr (), a')"
    and "length (session_id a) = 16" and "expected_rx_seq a = tx_seq a"
    and "\<And>body. wire_serialize env msg = Some body \<Longrightarrow> length body + 66 \<le> max_payload (auth a)"
  shows "fst (recv env (a'\<lparr>reader := drop (length (writer a)) (writer a')\<rparr>)) = Inr (Some msg)"
proof -
  obtain bs n where a': "a' = a\<lparr>writer := writer a @ bs, tx_seq := n\<rparr>" using assms(3) by (rule send_ok)
  have "recv env (a'\<lparr>reader := drop (length (writer a)) (writer a')\<rparr>) = (Inr (Some msg),
      (a'\<lparr>reader := drop (length (writer a)) (writer a')\<rparr>)\<lparr>reader := [], expected_rx_seq := tx_seq a'\<rparr>)"
    by (rule deliver_one [OF assms(1-3)]) (use assms a' in \<open>auto simp: same_session_def\<close>)
  then show ?thesis by simp
qed

text \<open>
  The handshake agrees: an initiator and an acceptor with the same key id that read each
  other's hello (32-byte nonces, limits of at least 55 bytes) both succeed and derive the same
  session id, with both sequence counters at zero.
\<close>

lemma handshake_agrees:
  assumes "length cn = 32" and "length sn = 32" and "auth_key_id a = auth_key_id b"
    and "55 \<le> max_payload a" and "55 \<le> max_payload b"
  shows "\<exists>ta tb ra rb. accept_connection env sn (snd (connect_initiator env cn ra [] a)) [] b = (Inr tb, ra)
    \<and> connect_initiator env cn ra [] a = (Inr ta, rb)
    \<and> session_id ta = session_id tb \<and> tx_seq ta = expected_rx_seq tb \<and> tx_seq tb = expected_rx_seq ta"
proof -
  define hello where "hello n = HANDSHAKE_MAGIC @ u16_be SYNC_FRAME_PROTO_VERSION @ u16_be (auth_key_id b) @ n"
    for n :: bytes
  have magic: "length HANDSHAKE_MAGIC = 19" by (simp add: HANDSHAKE_MAGIC_def)
  have len: "length (hello n) = 55" if "length n = 32" for n using that magic by (simp add: hello_def)
  have wr: "write_handshake (auth_key_id b) n [] = (Inr (), u32_be 55 @ hello n)" if "length n = 32" for n
    using len [OF that] by (simp add: write_handshake_def write_raw_frame_def hello_def)
  have rd: "read_handshake (auth_key_id b) lim (u32_be 55 @ hello n) = (Inr n, [])"
    if "length n = 32" "55 \<le> lim" for n lim
  proof -
    obtain v w x y where e: "u16_be SYNC_FRAME_PROTO_VERSION = [v, w]" "u16_from_be [v, w] = SYNC_FRAME_PROTO_VERSION"
        "u16_be (auth_key_id b) = [x, y]" "u16_from_be [x, y] = auth_key_id b"
      using u16_be_two by metis
    have "read_raw_frame_with_limit lim (u32_be 55 @ hello n) = (Inr (hello n), [])"
      using raw_frame_roundtrip [of "hello n" lim "[]"] len [OF that(1)] that(2) by simp
    moreover have "hello n ! 19 = v" "hello n ! 20 = w" "hello n ! 21 = x" "hello n ! 22 = y"
        "slice (hello n) 23 55 = n" "starts_with (hello n) HANDSHAKE_MAGIC"
      using magic that(1) by (simp_all add: hello_def e nth_append slice_def starts_with_iff)
    ultimately show ?thesis
      using len [OF that(1)] magic e by (simp add: read_handshake_def HANDSHAKE_LEN_def Let_def)
  qed
  show ?thesis
    by (rule exI [of _ "from_parts [] (u32_be 55 @ hello cn) a (derive_session_id env cn sn)"],
        rule exI [of _ "from_parts [] (u32_be 55 @ hello sn) b (derive_session_id env cn sn)"],
        rule exI [of _ "u32_be 55 @ hello sn"], rule exI [of _ "u32_be 55 @ hello cn"])
      (use assms in \<open>simp add: connect_initiator_def accept_connection_def wr rd from_parts_def\<close>)
qed

end
