(* ===== verification/Profile.thy ===== *)
theory Profile
  imports Capability
begin

text \<open>
  Capability profiles: the manifest parser and validator of \<open>src/src/profile/mod.rs\<close>. Errors are
  collected in order, as in the code, and returned together. The file contents are an argument: \<open>None\<close> is a failed
  read. Numbers in error messages are not rendered; the message texts that interpolate a key or a character are.
\<close>

subsection \<open>Manifests\<close>

record mcp_policy =
  tool_allowlist :: "string list option"
  snapshot_enabled :: bool
  fork_enabled :: bool
  proof_enabled :: bool
  wasi_enabled :: bool
  instinct_enabled :: bool
  retry_enabled :: bool

record execution_policy =
  module_dirs :: "string list"
  daemon_auth_required :: bool

record profile_manifest =
  mf_name :: string
  mf_capabilities :: "capability list"
  mf_mcp :: mcp_policy
  mf_execution :: execution_policy

definition allows_tool :: "mcp_policy \<Rightarrow> string \<Rightarrow> bool" where
  "allows_tool p tool = (case tool_allowlist p of Some l \<Rightarrow> tool \<in> set l | None \<Rightarrow> True)"

datatype validation_error =
    ProfileIo string string
  | ParseError nat string
  | EmptyCapabilities
  | MissingCapabilityType nat
  | UnknownCapabilityType nat string
  | MissingRequiredField nat string string

fun validation_error_display :: "validation_error \<Rightarrow> string" where
  "validation_error_display (ProfileIo path message) = ''failed to read profile '' @ path @ '': '' @ message"
| "validation_error_display (ParseError line message) = ''line '' @ dec_nat line @ '': '' @ message"
| "validation_error_display EmptyCapabilities = ''profile must declare at least one [[capabilities]] entry''"
| "validation_error_display (MissingCapabilityType line) =
     ''capability entry starting at line '' @ dec_nat line @ '' is missing required field type''"
| "validation_error_display (UnknownCapabilityType line ty) =
     ''line '' @ dec_nat line @ '': unknown capability type '' @ [CHR 0x22] @ ty @ [CHR 0x22]"
| "validation_error_display (MissingRequiredField line ty field) =
     ''capability '' @ [CHR 0x22] @ ty @ [CHR 0x22] @ '' at line '' @ dec_nat line @ '' is missing required field '' @ field"

subsection \<open>Lines\<close>

text \<open>\<open>str::lines\<close>; \<open>acc\<close> is the line read so far.\<close>

definition strip_cr :: "string \<Rightarrow> string" where
  "strip_cr l = (case strip_suffix l [CHR 0x0D] of Some l' \<Rightarrow> l' | None \<Rightarrow> l)"

fun lines_loop :: "string \<Rightarrow> string \<Rightarrow> string list" where
  "lines_loop acc [] = (if acc = [] then [] else [acc])"
| "lines_loop acc (c # cs) = (if c = CHR 0x0A then strip_cr acc # lines_loop [] cs else lines_loop (acc @ [c]) cs)"

definition str_lines :: "string \<Rightarrow> string list" where
  "str_lines s = lines_loop [] s"

text \<open>The two scanners share their quote state: the open quote, if any, and whether the next character is escaped.\<close>

fun strip_comment_loop :: "char option \<Rightarrow> bool \<Rightarrow> string \<Rightarrow> string" where
  "strip_comment_loop quote escaped [] = []"
| "strip_comment_loop quote escaped (c # cs) =
     (case quote of
        Some q \<Rightarrow>
          (if q = CHR 0x22 \<and> escaped then c # strip_comment_loop quote False cs
           else if q = CHR 0x22 \<and> c = CHR 0x5C then c # strip_comment_loop quote True cs
           else if c = q then c # strip_comment_loop None escaped cs
           else c # strip_comment_loop quote escaped cs)
      | None \<Rightarrow>
          (if c = CHR ''#'' then []
           else if c = CHR 0x22 \<or> c = CHR 0x27 then c # strip_comment_loop (Some c) escaped cs
           else c # strip_comment_loop None escaped cs))"

definition strip_comment :: "string \<Rightarrow> string" where
  "strip_comment line = strip_comment_loop None False line"

fun equals_loop :: "nat \<Rightarrow> char option \<Rightarrow> bool \<Rightarrow> string \<Rightarrow> nat option" where
  "equals_loop index quote escaped [] = None"
| "equals_loop index quote escaped (c # cs) =
     (case quote of
        Some q \<Rightarrow>
          (if q = CHR 0x22 \<and> escaped then equals_loop (Suc index) quote False cs
           else if q = CHR 0x22 \<and> c = CHR 0x5C then equals_loop (Suc index) quote True cs
           else if c = q then equals_loop (Suc index) None escaped cs
           else equals_loop (Suc index) quote escaped cs)
      | None \<Rightarrow>
          (if c = CHR 0x22 \<or> c = CHR 0x27 then equals_loop (Suc index) (Some c) escaped cs
           else if c = CHR ''='' then Some index
           else equals_loop (Suc index) None escaped cs))"

definition find_unquoted_equals :: "string \<Rightarrow> nat option" where
  "find_unquoted_equals line = equals_loop 0 None False line"

subsection \<open>Values\<close>

text \<open>The loop of \<open>parse_basic_string\<close> on the text after the opening quote; \<open>parsed\<close> is what was read.\<close>

fun basic_loop :: "string \<Rightarrow> bool \<Rightarrow> string \<Rightarrow> string + string" where
  "basic_loop parsed escaped [] = Inl ''unterminated string value''"
| "basic_loop parsed escaped (c # cs) =
     (if escaped
      then (if c = CHR 0x22 then basic_loop (parsed @ [CHR 0x22]) False cs
            else if c = CHR 0x5C then basic_loop (parsed @ [CHR 0x5C]) False cs
            else if c = CHR ''n'' then basic_loop (parsed @ [CHR 0x0A]) False cs
            else if c = CHR ''r'' then basic_loop (parsed @ [CHR 0x0D]) False cs
            else if c = CHR ''t'' then basic_loop (parsed @ [CHR 0x09]) False cs
            else Inl (''unsupported escape sequence '' @ [CHR 0x5C, c]))
      else if c = CHR 0x5C then basic_loop parsed True cs
      else if c = CHR 0x22
      then (if trim cs = [] then Inr parsed else Inl ''unexpected content after string value'')
      else basic_loop (parsed @ [c]) False cs)"

definition parse_basic_string :: "string \<Rightarrow> string + string" where
  "parse_basic_string v = basic_loop [] False (tl v)"

definition parse_literal_string :: "string \<Rightarrow> string + string" where
  "parse_literal_string v =
     (let rest = tl v
      in if CHR 0x27 \<notin> set rest then Inl ''unterminated string value''
         else let trailing = tl (dropWhile (\<lambda>c. c \<noteq> CHR 0x27) rest)
              in if trim trailing = [] then Inr (takeWhile (\<lambda>c. c \<noteq> CHR 0x27) rest)
                 else Inl ''unexpected content after string value'')"

definition parse_string_value :: "string \<Rightarrow> string + string" where
  "parse_string_value v =
     (case v of
        [] \<Rightarrow> Inl ''expected quoted string value''
      | quote # _ \<Rightarrow>
          (if quote = CHR 0x22 then parse_basic_string v
           else if quote = CHR 0x27 then parse_literal_string v
           else Inl ''expected quoted string value''))"

definition parse_bool_value :: "string \<Rightarrow> string + bool" where
  "parse_bool_value v =
     (if trim v = ''true'' then Inr True else if trim v = ''false'' then Inr False else Inl ''expected boolean true or false'')"

fun parse_elements :: "string list \<Rightarrow> string + string list" where
  "parse_elements [] = Inr []"
| "parse_elements (element # rest) =
     (if trim element = [] then Inl ''empty array element''
      else case parse_string_value (trim element) of
             Inl e \<Rightarrow> Inl e
           | Inr item \<Rightarrow> map_sum id (\<lambda>items. item # items) (parse_elements rest))"

definition parse_string_array :: "string \<Rightarrow> string + string list" where
  "parse_string_array v =
     (case Option.bind (strip_prefix (trim v) ''['') (\<lambda>rest. strip_suffix rest '']'') of
        None \<Rightarrow> Inl ''expected an array of quoted strings in [ ... ]''
      | Some inner \<Rightarrow> if trim inner = [] then Inr [] else parse_elements (split_char (CHR '','') (trim inner)))"

subsection \<open>Raw profiles\<close>

record parsed_value =
  pv_line :: nat
  pv_value :: string

record raw_capability =
  rw_line :: nat
  rw_type :: "parsed_value option"
  rw_path :: "parsed_value option"
  rw_pattern :: "parsed_value option"

record raw_mcp =
  rm_tool_allowlist :: "string list option"
  rm_snapshot_enabled :: "bool option"
  rm_fork_enabled :: "bool option"
  rm_proof_enabled :: "bool option"
  rm_wasi_enabled :: "bool option"
  rm_instinct_enabled :: "bool option"
  rm_retry_enabled :: "bool option"

record raw_execution =
  rx_module_dirs :: "string list option"
  rx_daemon_auth_required :: "bool option"

record raw_profile =
  rp_name :: "string option"
  rp_capabilities :: "raw_capability list"
  rp_mcp :: "raw_mcp option"
  rp_execution :: "raw_execution option"

datatype profile_section = TopSection | CapabilitySection nat | McpSection | ExecutionSection

definition raw_capability_new :: "nat \<Rightarrow> raw_capability" where
  "raw_capability_new line = \<lparr>rw_line = line, rw_type = None, rw_path = None, rw_pattern = None\<rparr>"

definition raw_mcp_new :: raw_mcp where
  "raw_mcp_new = \<lparr>rm_tool_allowlist = None, rm_snapshot_enabled = None, rm_fork_enabled = None, rm_proof_enabled = None,
     rm_wasi_enabled = None, rm_instinct_enabled = None, rm_retry_enabled = None\<rparr>"

definition raw_execution_default :: raw_execution where
  "raw_execution_default = \<lparr>rx_module_dirs = None, rx_daemon_auth_required = None\<rparr>"

definition raw_profile_default :: raw_profile where
  "raw_profile_default = \<lparr>rp_name = None, rp_capabilities = [], rp_mcp = None, rp_execution = None\<rparr>"

definition execution_policy_from_raw :: "raw_execution option \<Rightarrow> execution_policy" where
  "execution_policy_from_raw raw =
     (case raw of
        None \<Rightarrow> \<lparr>module_dirs = [], daemon_auth_required = False\<rparr>
      | Some r \<Rightarrow> \<lparr>module_dirs = (case rx_module_dirs r of Some ds \<Rightarrow> ds | None \<Rightarrow> []),
                   daemon_auth_required = (rx_daemon_auth_required r = Some True)\<rparr>)"

definition mcp_policy_from_raw :: "raw_mcp option \<Rightarrow> mcp_policy" where
  "mcp_policy_from_raw raw =
     (case raw of
        None \<Rightarrow> \<lparr>tool_allowlist = None, snapshot_enabled = False, fork_enabled = False, proof_enabled = False,
                 wasi_enabled = False, instinct_enabled = False, retry_enabled = False\<rparr>
      | Some r \<Rightarrow> \<lparr>tool_allowlist = rm_tool_allowlist r, snapshot_enabled = (rm_snapshot_enabled r = Some True),
                   fork_enabled = (rm_fork_enabled r = Some True), proof_enabled = (rm_proof_enabled r = Some True),
                   wasi_enabled = (rm_wasi_enabled r = Some True), instinct_enabled = (rm_instinct_enabled r = Some True),
                   retry_enabled = (rm_retry_enabled r = Some True)\<rparr>)"

text \<open>An assignment stores the parsed value or reports the message at its line.\<close>

definition assign :: "nat \<Rightarrow> string + 'v \<Rightarrow> ('v \<Rightarrow> 'r \<Rightarrow> 'r) \<Rightarrow> 'r \<Rightarrow> 'r \<times> validation_error list" where
  "assign line_number parsed store r =
     (case parsed of Inr v \<Rightarrow> (store v r, []) | Inl message \<Rightarrow> (r, [ParseError line_number message]))"

definition parse_execution_assignment :: "string \<Rightarrow> string \<Rightarrow> nat \<Rightarrow> raw_execution \<Rightarrow> raw_execution \<times> validation_error list" where
  "parse_execution_assignment key rhs line_number r =
     (if key = ''module_dirs'' then assign line_number (parse_string_array rhs) (\<lambda>v. rx_module_dirs_update (\<lambda>_. Some v)) r
      else if key = ''daemon_auth_required''
      then assign line_number (parse_bool_value rhs) (\<lambda>v. rx_daemon_auth_required_update (\<lambda>_. Some v)) r
      else (r, [ParseError line_number (''unsupported [execution] key '' @ [CHR 0x22] @ key @ [CHR 0x22])]))"

definition parse_mcp_assignment :: "string \<Rightarrow> string \<Rightarrow> nat \<Rightarrow> raw_mcp \<Rightarrow> raw_mcp \<times> validation_error list" where
  "parse_mcp_assignment key rhs line_number r =
     (if key = ''tool_allowlist'' then assign line_number (parse_string_array rhs) (\<lambda>v. rm_tool_allowlist_update (\<lambda>_. Some v)) r
      else if key = ''snapshot_enabled'' then assign line_number (parse_bool_value rhs) (\<lambda>v. rm_snapshot_enabled_update (\<lambda>_. Some v)) r
      else if key = ''fork_enabled'' then assign line_number (parse_bool_value rhs) (\<lambda>v. rm_fork_enabled_update (\<lambda>_. Some v)) r
      else if key = ''proof_enabled'' then assign line_number (parse_bool_value rhs) (\<lambda>v. rm_proof_enabled_update (\<lambda>_. Some v)) r
      else if key = ''wasi_enabled'' then assign line_number (parse_bool_value rhs) (\<lambda>v. rm_wasi_enabled_update (\<lambda>_. Some v)) r
      else if key = ''instinct_enabled'' then assign line_number (parse_bool_value rhs) (\<lambda>v. rm_instinct_enabled_update (\<lambda>_. Some v)) r
      else if key = ''retry_enabled'' then assign line_number (parse_bool_value rhs) (\<lambda>v. rm_retry_enabled_update (\<lambda>_. Some v)) r
      else (r, [ParseError line_number (''unsupported [mcp] key '' @ [CHR 0x22] @ key @ [CHR 0x22])]))"

subsection \<open>Parsing\<close>

type_synonym parse_state = "raw_profile \<times> profile_section \<times> validation_error list"

definition get_or_insert :: "'a \<Rightarrow> 'a option \<Rightarrow> 'a" where
  "get_or_insert d v = (case v of Some x \<Rightarrow> x | None \<Rightarrow> d)"

definition set_capability_field :: "string \<Rightarrow> parsed_value \<Rightarrow> raw_capability \<Rightarrow> raw_capability" where
  "set_capability_field key parsed c =
     (if key = ''type'' then c\<lparr>rw_type := Some parsed\<rparr>
      else if key = ''path'' then c\<lparr>rw_path := Some parsed\<rparr>
      else if key = ''pattern'' then c\<lparr>rw_pattern := Some parsed\<rparr>
      else c)"

text \<open>A \<open>key = value\<close> line in the current section.\<close>

definition parse_assignment :: "nat \<Rightarrow> string \<Rightarrow> string \<Rightarrow> parse_state \<Rightarrow> parse_state" where
  "parse_assignment line_number key rhs st =
     (case st of (profile, section, errors) \<Rightarrow>
        (case section of
           McpSection \<Rightarrow>
             (case parse_mcp_assignment key rhs line_number (get_or_insert raw_mcp_new (rp_mcp profile)) of
                (r, es) \<Rightarrow> (profile\<lparr>rp_mcp := Some r\<rparr>, section, errors @ es))
         | ExecutionSection \<Rightarrow>
             (case parse_execution_assignment key rhs line_number (get_or_insert raw_execution_default (rp_execution profile)) of
                (r, es) \<Rightarrow> (profile\<lparr>rp_execution := Some r\<rparr>, section, errors @ es))
         | _ \<Rightarrow>
             (case parse_string_value rhs of
                Inl message \<Rightarrow> (profile, section, errors @ [ParseError line_number message])
              | Inr v \<Rightarrow>
                  (case section of
                     CapabilitySection i \<Rightarrow>
                       (profile\<lparr>rp_capabilities := (rp_capabilities profile)
                          [i := set_capability_field key \<lparr>pv_line = line_number, pv_value = v\<rparr> (rp_capabilities profile ! i)]\<rparr>,
                        section, errors)
                   | _ \<Rightarrow> (if key = ''name'' then profile\<lparr>rp_name := Some v\<rparr> else profile, section, errors)))))"

definition parse_line :: "nat \<Rightarrow> string \<Rightarrow> parse_state \<Rightarrow> parse_state" where
  "parse_line line_number original_line st =
     (case st of (profile, section, errors) \<Rightarrow>
        (let line = trim (strip_comment original_line)
         in if line = [] then st
            else if line = ''[[capabilities]]''
            then (profile\<lparr>rp_capabilities := rp_capabilities profile @ [raw_capability_new line_number]\<rparr>,
                  CapabilitySection (length (rp_capabilities profile)), errors)
            else if line = ''[mcp]''
            then (profile\<lparr>rp_mcp := Some (get_or_insert raw_mcp_new (rp_mcp profile))\<rparr>, McpSection, errors)
            else if line = ''[execution]''
            then (profile\<lparr>rp_execution := Some (get_or_insert raw_execution_default (rp_execution profile))\<rparr>, ExecutionSection, errors)
            else if starts_with line ''[''
            then (profile, section,
                  errors @ [ParseError line_number ''only [[capabilities]], [mcp], and [execution] tables are supported''])
            else case find_unquoted_equals line of
                   None \<Rightarrow> (profile, section, errors @ [ParseError line_number ''expected key = value assignment''])
                 | Some separator \<Rightarrow>
                     (let key = trim (take separator line)
                      in if key = [] then (profile, section, errors @ [ParseError line_number ''expected key before =''])
                         else parse_assignment line_number key (trim (drop (separator + 1) line)) st)))"

fun parse_lines :: "nat \<Rightarrow> string list \<Rightarrow> parse_state \<Rightarrow> parse_state" where
  "parse_lines line_number [] st = st"
| "parse_lines line_number (l # ls) st = parse_lines (Suc line_number) ls (parse_line line_number l st)"

definition parse_profile :: "string \<Rightarrow> raw_profile \<times> validation_error list" where
  "parse_profile contents =
     (case parse_lines 1 (str_lines contents) (raw_profile_default, TopSection, []) of
        (profile, _, errors) \<Rightarrow> (profile, errors))"

subsection \<open>Validation\<close>

definition required_value ::
  "raw_capability \<Rightarrow> string \<Rightarrow> string \<Rightarrow> parsed_value option \<Rightarrow> validation_error + string" where
  "required_value raw capability_type field v =
     (case v of
        None \<Rightarrow> Inl (MissingRequiredField (rw_line raw) capability_type field)
      | Some pv \<Rightarrow>
          (if trim (pv_value pv) = [] then Inl (MissingRequiredField (pv_line pv) capability_type field)
           else Inr (trim (pv_value pv))))"

definition required_path :: "raw_capability \<Rightarrow> string \<Rightarrow> string \<Rightarrow> validation_error + string" where
  "required_path raw capability_type field = required_value raw capability_type field (rw_path raw)"

definition required_pattern :: "raw_capability \<Rightarrow> string \<Rightarrow> validation_error + string" where
  "required_pattern raw capability_type =
     required_value raw capability_type ''pattern'' (case rw_pattern raw of Some v \<Rightarrow> Some v | None \<Rightarrow> rw_path raw)"

definition normalize_type :: "string \<Rightarrow> string" where
  "normalize_type s = map (\<lambda>c. if c = CHR ''-'' then CHR ''_'' else c) (to_ascii_lowercase s)"

definition validate_capability :: "raw_capability \<Rightarrow> validation_error + capability" where
  "validate_capability raw =
     (case rw_type raw of
        None \<Rightarrow> Inl (MissingCapabilityType (rw_line raw))
      | Some ty \<Rightarrow>
          (let original_type = trim (pv_value ty);
               n = normalize_type original_type
           in if n = ''read_file'' then map_sum id ReadFile (required_path raw original_type ''path'')
              else if n = ''write_file'' then map_sum id WriteFile (required_path raw original_type ''path'')
              else if n \<in> {''list_dir'', ''list_directory''} then map_sum id ListDirectory (required_path raw original_type ''path'')
              else if n = ''http_get'' then map_sum id HttpGet (required_pattern raw original_type)
              else if n = ''http_post'' then map_sum id HttpPost (required_pattern raw original_type)
              else if n \<in> {''execute'', ''execute_binary''} then map_sum id ExecuteBinary (required_path raw original_type ''path'')
              else if n = ''mount_tmpfs'' then map_sum id MountTmpfs (required_path raw original_type ''path'')
              else if n \<in> {''memory_preview'', ''nexus:memory_preview''} then Inr MemoryPreview
              else if n \<in> {''all'', ''none''}
              then Inl (UnknownCapabilityType (pv_line ty)
                     ([CHR 0x22] @ original_type @ [CHR 0x22] @ '' is a reserved sentinel and may not appear in profile manifests''))
              else Inl (UnknownCapabilityType (pv_line ty) original_type)))"

definition validate_capabilities :: "raw_capability list \<Rightarrow> capability list \<times> validation_error list" where
  "validate_capabilities raw_capabilities =
     (if raw_capabilities = [] then ([], [EmptyCapabilities])
      else (List.map_filter (\<lambda>r. case validate_capability r of Inr c \<Rightarrow> Some c | Inl _ \<Rightarrow> None) raw_capabilities,
            List.map_filter (\<lambda>r. case validate_capability r of Inr _ \<Rightarrow> None | Inl e \<Rightarrow> Some e) raw_capabilities))"

text \<open>\<open>Path::file_stem\<close>: the last component without its extension.\<close>

definition file_stem :: "string \<Rightarrow> string option" where
  "file_stem path =
     (case components path of
        [] \<Rightarrow> None
      | cs \<Rightarrow> (case last cs of
                 Normal name \<Rightarrow>
                   (let before = rev (tl (dropWhile (\<lambda>c. c \<noteq> CHR ''.'') (rev name)))
                    in if CHR ''.'' \<notin> set name \<or> before = [] then Some name else Some before)
               | _ \<Rightarrow> None))"

definition profile_name_from_path :: "string \<Rightarrow> string" where
  "profile_name_from_path path =
     (case file_stem path of Some stem \<Rightarrow> if stem = [] then ''profile'' else stem | None \<Rightarrow> ''profile'')"

definition load_and_validate :: "string \<Rightarrow> string + string \<Rightarrow> validation_error list + profile_manifest" where
  "load_and_validate path contents =
     (case contents of
        Inl message \<Rightarrow> Inl [ProfileIo path message]
      | Inr text_read \<Rightarrow>
          (case parse_profile text_read of (raw, parse_errors) \<Rightarrow>
           case validate_capabilities (rp_capabilities raw) of (caps, cap_errors) \<Rightarrow>
             (if parse_errors @ cap_errors = []
              then Inr \<lparr>mf_name = (case rp_name raw of
                            Some name \<Rightarrow> if trim name = [] then profile_name_from_path path else name
                          | None \<Rightarrow> profile_name_from_path path),
                        mf_capabilities = caps, mf_mcp = mcp_policy_from_raw (rp_mcp raw),
                        mf_execution = execution_policy_from_raw (rp_execution raw)\<rparr>
              else Inl (parse_errors @ cap_errors))))"

subsection \<open>Rendering a manifest\<close>

definition escape_char :: "char \<Rightarrow> string" where
  "escape_char c = (if c = CHR 0x22 then [CHR 0x5C, CHR 0x22] else if c = CHR 0x5C then [CHR 0x5C, CHR 0x5C]
     else if c = CHR 0x0A then [CHR 0x5C, CHR ''n''] else if c = CHR 0x0D then [CHR 0x5C, CHR ''r'']
     else if c = CHR 0x09 then [CHR 0x5C, CHR ''t''] else [c])"

definition quoted :: "string \<Rightarrow> string" where
  "quoted s = CHR 0x22 # concat (map escape_char s) @ [CHR 0x22]"

definition assignment :: "string \<Rightarrow> string \<Rightarrow> string" where
  "assignment key rhs = key @ '' = '' @ rhs"

definition rendered_bool :: "bool \<Rightarrow> string" where
  "rendered_bool b = (if b then ''true'' else ''false'')"

definition rendered_array :: "string list \<Rightarrow> string" where
  "rendered_array xs = ''['' @ join_with '','' (map quoted xs) @ '']''"

text \<open>The type of a capability that a profile can grant, with the key and the value of its parameter.\<close>

fun cap_entry :: "capability \<Rightarrow> (string \<times> (string \<times> string) option) option" where
  "cap_entry (ReadFile p) = Some (''read_file'', Some (''path'', p))"
| "cap_entry (WriteFile p) = Some (''write_file'', Some (''path'', p))"
| "cap_entry (ListDirectory p) = Some (''list_directory'', Some (''path'', p))"
| "cap_entry (HttpGet u) = Some (''http_get'', Some (''pattern'', u))"
| "cap_entry (HttpPost u) = Some (''http_post'', Some (''pattern'', u))"
| "cap_entry (ExecuteBinary p) = Some (''execute_binary'', Some (''path'', p))"
| "cap_entry (MountTmpfs p) = Some (''mount_tmpfs'', Some (''path'', p))"
| "cap_entry MemoryPreview = Some (''memory_preview'', None)"
| "cap_entry _ = None"

definition grantable :: "capability \<Rightarrow> bool" where
  "grantable c = (case cap_entry c of None \<Rightarrow> False | Some (_, None) \<Rightarrow> True | Some (_, Some (_, v)) \<Rightarrow> v \<noteq> [] \<and> trim v = v)"

definition capability_lines :: "capability \<Rightarrow> string list" where
  "capability_lines c =
     (case cap_entry c of
        None \<Rightarrow> []
      | Some (ty, kv) \<Rightarrow> [''[[capabilities]]'', assignment ''type'' (quoted ty)]
          @ (case kv of None \<Rightarrow> [] | Some (k, v) \<Rightarrow> [assignment k (quoted v)]))"

definition mcp_lines :: "mcp_policy \<Rightarrow> string list" where
  "mcp_lines p = ''[mcp]'' # (case tool_allowlist p of None \<Rightarrow> [] | Some l \<Rightarrow> [assignment ''tool_allowlist'' (rendered_array l)])
     @ map (\<lambda>(k, b). assignment k (rendered_bool b))
         [(''snapshot_enabled'', snapshot_enabled p), (''fork_enabled'', fork_enabled p), (''proof_enabled'', proof_enabled p),
          (''wasi_enabled'', wasi_enabled p), (''instinct_enabled'', instinct_enabled p), (''retry_enabled'', retry_enabled p)]"

definition execution_lines :: "execution_policy \<Rightarrow> string list" where
  "execution_lines p = [''[execution]'', assignment ''module_dirs'' (rendered_array (module_dirs p)),
     assignment ''daemon_auth_required'' (rendered_bool (daemon_auth_required p))]"

definition profile_lines :: "profile_manifest \<Rightarrow> string list" where
  "profile_lines m = [assignment ''name'' (quoted (mf_name m))] @ concat (map capability_lines (mf_capabilities m))
     @ mcp_lines (mf_mcp m) @ execution_lines (mf_execution m)"

definition render_profile :: "profile_manifest \<Rightarrow> string" where
  "render_profile m = concat (map (\<lambda>l. l @ [CHR 0x0A]) (profile_lines m))"

text \<open>What can be written: a name that is not blank, grantable capabilities, and no commas in array elements.\<close>

definition profile_ok :: "profile_manifest \<Rightarrow> bool" where
  "profile_ok m \<longleftrightarrow> trim (mf_name m) \<noteq> [] \<and> mf_capabilities m \<noteq> [] \<and> list_all grantable (mf_capabilities m)
     \<and> (case tool_allowlist (mf_mcp m) of None \<Rightarrow> True | Some l \<Rightarrow> \<forall>x \<in> set l. CHR '','' \<notin> set x)
     \<and> (\<forall>x \<in> set (module_dirs (mf_execution m)). CHR '','' \<notin> set x)"

subsection \<open>Scanning quoted text\<close>

lemma escape_char_cases [case_names quote backslash lf cr tab other]:
  obtains "c = CHR 0x22" "escape_char c = [CHR 0x5C, CHR 0x22]" | "c = CHR 0x5C" "escape_char c = [CHR 0x5C, CHR 0x5C]"
  | "c = CHR 0x0A" "escape_char c = [CHR 0x5C, CHR ''n'']" | "c = CHR 0x0D" "escape_char c = [CHR 0x5C, CHR ''r'']"
  | "c = CHR 0x09" "escape_char c = [CHR 0x5C, CHR ''t'']"
  | "c \<noteq> CHR 0x22" "c \<noteq> CHR 0x5C" "c \<noteq> CHR 0x0A" "c \<noteq> CHR 0x0D" "c \<noteq> CHR 0x09" "escape_char c = [c]"
  unfolding escape_char_def by (cases "c = CHR 0x22"; cases "c = CHR 0x5C"; cases "c = CHR 0x0A"; cases "c = CHR 0x0D"; cases "c = CHR 0x09") auto

lemma strip_comment_quoted:
  "strip_comment_loop (Some (CHR 0x22)) False (concat (map escape_char s) @ CHR 0x22 # rest)
     = concat (map escape_char s) @ CHR 0x22 # strip_comment_loop None False rest"
proof (induction s)
  case (Cons c s)
  show ?case by (cases c rule: escape_char_cases) (simp_all add: Cons)
qed simp

lemma basic_loop_quoted: "basic_loop parsed False (concat (map escape_char s) @ [CHR 0x22]) = Inr (parsed @ s)"
proof (induction s arbitrary: parsed)
  case (Cons c s)
  show ?case by (cases c rule: escape_char_cases) (simp_all add: Cons)
qed (simp add: trim_def trim_end_def trim_start_def)

lemma parse_string_quoted: "parse_string_value (quoted s) = Inr s"
  by (simp add: parse_string_value_def quoted_def parse_basic_string_def basic_loop_quoted)

text \<open>Text outside quotes that holds neither a quote nor a comment sign.\<close>

definition plain :: "string \<Rightarrow> bool" where
  "plain s \<longleftrightarrow> list_all (\<lambda>c. c \<noteq> CHR ''#'' \<and> c \<noteq> CHR 0x22 \<and> c \<noteq> CHR 0x27) s"

lemma strip_comment_plain: "plain s \<Longrightarrow> strip_comment_loop None False (s @ rest) = s @ strip_comment_loop None False rest"
  by (induction s) (simp_all add: plain_def)

lemma strip_comment_quoted_text: "strip_comment_loop None False (quoted s @ rest) = quoted s @ strip_comment_loop None False rest"
  by (simp add: quoted_def strip_comment_quoted)

lemma equals_loop_plain:
  "plain key \<Longrightarrow> CHR ''='' \<notin> set key \<Longrightarrow> equals_loop i None False (key @ CHR ''='' # rest) = Some (i + length key)"
  by (induction key arbitrary: i) (auto simp: plain_def)

text \<open>A text that is not changed by trimming.\<close>

definition trimmed :: "string \<Rightarrow> bool" where
  "trimmed s \<longleftrightarrow> s \<noteq> [] \<and> \<not> is_ws (hd s) \<and> \<not> is_ws (last s)"

lemma trim_trimmed: "trimmed s \<Longrightarrow> trim s = s"
proof -
  assume t: "trimmed s"
  then have "dropWhile is_ws s = s" by (cases s) (simp_all add: trimmed_def)
  moreover have "dropWhile is_ws (rev s) = rev s" using t by (cases s rule: rev_cases) (simp_all add: trimmed_def)
  ultimately show ?thesis by (simp add: trim_def trim_start_def trim_end_def)
qed

lemma trimmed_append: "trimmed a \<Longrightarrow> trimmed b \<Longrightarrow> trimmed (a @ m @ b)"
  by (auto simp: trimmed_def)

lemma trim_padded: "trimmed a \<Longrightarrow> trim ('' '' @ a) = a" "trimmed a \<Longrightarrow> trim (a @ '' '') = a"
proof -
  assume t: "trimmed a"
  have ws: "is_ws (CHR '' '')" by (simp add: is_ws_def)
  have "dropWhile is_ws a = a" using t by (cases a) (simp_all add: trimmed_def)
  moreover have "dropWhile is_ws (rev a) = rev a" using t by (cases a rule: rev_cases) (simp_all add: trimmed_def)
  moreover have "dropWhile is_ws (a @ '' '') = a @ '' ''" using t by (cases a) (simp_all add: trimmed_def)
  ultimately show "trim ('' '' @ a) = a" "trim (a @ '' '') = a" by (simp_all add: trim_def trim_start_def trim_end_def ws)
qed

lemma trim_idem: "trim (trim s) = trim s"
proof (cases "trim s = []")
  case True
  show ?thesis unfolding True by (simp add: trim_def trim_end_def trim_start_def)
next
  case False
  have "trim_start s \<noteq> []" using False by (auto simp: trim_def trim_end_def)
  then have h: "\<not> is_ws (hd (trim_start s))" by (simp add: trim_start_def hd_dropWhile)
  have r: "\<not> is_ws (hd (dropWhile is_ws (rev (trim_start s))))" 
    using False hd_dropWhile [of is_ws "rev (trim_start s)"] unfolding trim_def trim_end_def rev_is_Nil_conv by blast
  have "\<exists>w. trim_start s = trim s @ w"
    unfolding trim_def trim_end_def by (metis rev_append rev_rev_ident takeWhile_dropWhile_id)
  then have "hd (trim s) = hd (trim_start s)" using False by (metis hd_append2)
  moreover have "last (trim s) = hd (dropWhile is_ws (rev (trim_start s)))"
    using False by (simp add: trim_def trim_end_def last_rev)
  ultimately show ?thesis using h r False by (intro trim_trimmed) (simp add: trimmed_def)
qed

lemma trimmed_quoted: "trimmed (quoted s)"
  by (simp add: trimmed_def quoted_def is_ws_def)

subsection \<open>Parsing rendered lines\<close>

definition key_ok :: "string \<Rightarrow> bool" where
  "key_ok key \<longleftrightarrow> trimmed key \<and> plain key \<and> CHR ''='' \<notin> set key \<and> hd key \<noteq> CHR ''[''"

text \<open>A right-hand side that survives comment stripping and trimming.\<close>

definition rhs_ok :: "string \<Rightarrow> bool" where
  "rhs_ok rhs \<longleftrightarrow> trimmed rhs \<and> strip_comment_loop None False rhs = rhs"

lemma plain_append: "plain (a @ b) \<longleftrightarrow> plain a \<and> plain b"
  by (simp add: plain_def)

lemma parse_line_assignment:
  assumes k: "key_ok key" and r: "rhs_ok rhs"
  shows "parse_line n (assignment key rhs) st = parse_assignment n key rhs st"
proof -
  have "strip_comment (assignment key rhs) = (key @ '' = '') @ strip_comment_loop None False rhs"
    unfolding strip_comment_def assignment_def append_assoc [symmetric]
    by (rule strip_comment_plain) (use k in \<open>simp add: key_ok_def plain_def\<close>)
  then have sc: "strip_comment (assignment key rhs) = assignment key rhs" using r by (simp add: rhs_ok_def assignment_def)
  have tk: "trimmed key" "trimmed rhs" using k r by (simp_all add: key_ok_def rhs_ok_def)
  then have tr: "trim (assignment key rhs) = assignment key rhs"
    unfolding assignment_def by (intro trim_trimmed trimmed_append)
  have hd: "hd (assignment key rhs) \<noteq> CHR ''[''" "assignment key rhs \<noteq> []"
    using k by (simp_all add: assignment_def key_ok_def trimmed_def)
  then have ns: "assignment key rhs \<noteq> ''[[capabilities]]''" "assignment key rhs \<noteq> ''[mcp]''" "assignment key rhs \<noteq> ''[execution]''"
    "\<not> starts_with (assignment key rhs) ''[''" by (auto simp: starts_with_iff prefix_def)
  have eq: "find_unquoted_equals (assignment key rhs) = Some (length key + 1)"
    using equals_loop_plain [of "key @ '' ''" 0 "'' '' @ rhs"] k
    by (simp add: find_unquoted_equals_def assignment_def key_ok_def plain_append) (simp add: plain_def)
  have kt: "trim (take (length key + 1) (assignment key rhs)) = key"
    using trim_padded(2) [OF tk(1)] by (simp add: assignment_def)
  have rt: "trim (drop (length key + 1 + 1) (assignment key rhs)) = rhs"
    using trim_padded(1) [OF tk(2)] by (simp add: assignment_def)
  obtain p sec es where st: "st = (p, sec, es)" by (cases st)
  have "key \<noteq> []" using tk by (simp add: trimmed_def)
  then show ?thesis
    unfolding parse_line_def st prod.case Let_def sc tr eq option.case kt rt by (simp only: ns hd if_False)
qed

lemma rhs_ok_quoted: "rhs_ok (quoted s)"
  using strip_comment_quoted_text [of s "[]"] by (simp add: rhs_ok_def trimmed_quoted)

lemma rhs_ok_bool: "rhs_ok (rendered_bool b)"
  by (cases b) (simp_all add: rhs_ok_def rendered_bool_def trimmed_def is_ws_def)

lemma parse_bool_rendered: "parse_bool_value (rendered_bool b) = Inr b"
proof -
  have "trimmed (rendered_bool b)" using rhs_ok_bool by (simp add: rhs_ok_def)
  then show ?thesis by (cases b) (simp_all add: parse_bool_value_def trim_trimmed rendered_bool_def)
qed

lemma strip_comment_array:
  "strip_comment_loop None False (join_with '','' (map quoted xs) @ rest) = join_with '','' (map quoted xs) @ strip_comment_loop None False rest"
  by (induction xs rule: induct_list012) (simp_all add: strip_comment_quoted_text)

lemma rhs_ok_array: "rhs_ok (rendered_array xs)"
  using strip_comment_array [of xs "'']''"]
  by (simp add: rhs_ok_def rendered_array_def trimmed_def is_ws_def)

lemma comma_escape: "CHR '','' \<in> set (escape_char c) \<Longrightarrow> c = CHR '',''"
  by (cases c rule: escape_char_cases) simp_all

lemma comma_quoted: "CHR '','' \<notin> set x \<Longrightarrow> CHR '','' \<notin> set (quoted x)"
  using comma_escape by (induction x) (auto simp: quoted_def)

lemma split_char_absent: "c \<notin> set s \<Longrightarrow> split_char c s = [s]"
  by (induction s) auto

lemma split_char_at: "c \<notin> set p \<Longrightarrow> split_char c (p @ c # r) = p # split_char c r"
  by (induction p) (auto split: list.splits)

lemma split_quoted:
  "\<forall>x \<in> set xs. CHR '','' \<notin> set x \<Longrightarrow> xs \<noteq> [] \<Longrightarrow> split_char (CHR '','') (join_with '','' (map quoted xs)) = map quoted xs"
  by (induction xs rule: induct_list012) (simp_all add: comma_quoted split_char_absent split_char_at)

lemma parse_elements_quoted: "parse_elements (map quoted xs) = Inr xs"
proof (induction xs)
  case (Cons x xs)
  have "quoted x \<noteq> []" by (simp add: quoted_def)
  with Cons show ?case by (simp add: trim_trimmed [OF trimmed_quoted] parse_string_quoted)
qed simp

lemma trimmed_join: "xs \<noteq> [] \<Longrightarrow> trimmed (join_with '','' (map quoted xs))"
proof (induction xs rule: induct_list012)
  case (3 x y zs)
  then show ?case using trimmed_append [OF trimmed_quoted, of "join_with '','' (map quoted (y # zs))" x "'',''"] by simp
qed (simp_all add: trimmed_quoted)

lemma parse_array_rendered:
  assumes "\<forall>x \<in> set xs. CHR '','' \<notin> set x"
  shows "parse_string_array (rendered_array xs) = Inr xs"
proof -
  have "trimmed (rendered_array xs)" using rhs_ok_array by (simp add: rhs_ok_def)
  then have tr: "trim (rendered_array xs) = rendered_array xs" by (rule trim_trimmed)
  have inner: "Option.bind (strip_prefix (rendered_array xs) ''['') (\<lambda>rest. strip_suffix rest '']'') = Some (join_with '','' (map quoted xs))"
    by (simp add: rendered_array_def strip_prefix_def strip_suffix_def starts_with_def)
  show ?thesis
  proof (cases "xs = []")
    case True
    then show ?thesis unfolding parse_string_array_def tr inner by (simp add: trim_def trim_start_def trim_end_def)
  next
    case False
    note tj = trimmed_join [OF False]
    then have "join_with '','' (map quoted xs) \<noteq> []" by (simp add: trimmed_def)
    then show ?thesis unfolding parse_string_array_def tr inner
      by (simp add: trim_trimmed [OF tj] split_quoted [OF assms False] parse_elements_quoted)
  qed
qed

lemma parse_lines_append: "parse_lines n (a @ b) st = parse_lines (n + length a) b (parse_lines n a st)"
  by (induction a arbitrary: n st) simp_all

lemma parse_line_header:
  "parse_line n ''[[capabilities]]'' (p, sec, es) =
     (p\<lparr>rp_capabilities := rp_capabilities p @ [raw_capability_new n]\<rparr>, CapabilitySection (length (rp_capabilities p)), es)"
  "parse_line n ''[mcp]'' (p, sec, es) = (p\<lparr>rp_mcp := Some (get_or_insert raw_mcp_new (rp_mcp p))\<rparr>, McpSection, es)"
  "parse_line n ''[execution]'' (p, sec, es) =
     (p\<lparr>rp_execution := Some (get_or_insert raw_execution_default (rp_execution p))\<rparr>, ExecutionSection, es)"
proof -
  have "trim (strip_comment ''[[capabilities]]'') = ''[[capabilities]]''" "trim (strip_comment ''[mcp]'') = ''[mcp]''"
    "trim (strip_comment ''[execution]'') = ''[execution]''" by code_simp+
  then show "parse_line n ''[[capabilities]]'' (p, sec, es) =
     (p\<lparr>rp_capabilities := rp_capabilities p @ [raw_capability_new n]\<rparr>, CapabilitySection (length (rp_capabilities p)), es)"
  "parse_line n ''[mcp]'' (p, sec, es) = (p\<lparr>rp_mcp := Some (get_or_insert raw_mcp_new (rp_mcp p))\<rparr>, McpSection, es)"
  "parse_line n ''[execution]'' (p, sec, es) =
     (p\<lparr>rp_execution := Some (get_or_insert raw_execution_default (rp_execution p))\<rparr>, ExecutionSection, es)"
    by (simp_all add: parse_line_def Let_def)
qed

lemma keys_ok:
  "key_ok ''name''" "key_ok ''type''" "key_ok ''path''" "key_ok ''pattern''" "key_ok ''tool_allowlist''" "key_ok ''snapshot_enabled''"
  "key_ok ''fork_enabled''" "key_ok ''proof_enabled''" "key_ok ''wasi_enabled''" "key_ok ''instinct_enabled''" "key_ok ''retry_enabled''"
  "key_ok ''module_dirs''" "key_ok ''daemon_auth_required''"
  by (simp_all add: key_ok_def trimmed_def plain_def is_ws_def)

lemma parse_capability_assignment:
  assumes "key_ok key"
  shows "parse_line n (assignment key (quoted v)) (p\<lparr>rp_capabilities := cs @ [raw]\<rparr>, CapabilitySection (length cs), es)
    = (p\<lparr>rp_capabilities := cs @ [set_capability_field key \<lparr>pv_line = n, pv_value = v\<rparr> raw]\<rparr>, CapabilitySection (length cs), es)"
  unfolding parse_line_assignment [OF assms rhs_ok_quoted]
  by (simp add: parse_assignment_def parse_string_quoted)

definition raw_of :: "nat \<Rightarrow> string \<Rightarrow> (string \<times> string) option \<Rightarrow> raw_capability" where
  "raw_of n ty kv =
     (let r = (raw_capability_new n)\<lparr>rw_type := Some \<lparr>pv_line = n + 1, pv_value = ty\<rparr>\<rparr>
      in case kv of None \<Rightarrow> r | Some (k, v) \<Rightarrow> set_capability_field k \<lparr>pv_line = n + 2, pv_value = v\<rparr> r)"

lemma types_normal:
  "trim ''read_file'' = ''read_file'' \<and> normalize_type ''read_file'' = ''read_file''"
  "trim ''write_file'' = ''write_file'' \<and> normalize_type ''write_file'' = ''write_file''"
  "trim ''list_directory'' = ''list_directory'' \<and> normalize_type ''list_directory'' = ''list_directory''"
  "trim ''http_get'' = ''http_get'' \<and> normalize_type ''http_get'' = ''http_get''"
  "trim ''http_post'' = ''http_post'' \<and> normalize_type ''http_post'' = ''http_post''"
  "trim ''execute_binary'' = ''execute_binary'' \<and> normalize_type ''execute_binary'' = ''execute_binary''"
  "trim ''mount_tmpfs'' = ''mount_tmpfs'' \<and> normalize_type ''mount_tmpfs'' = ''mount_tmpfs''"
  "trim ''memory_preview'' = ''memory_preview'' \<and> normalize_type ''memory_preview'' = ''memory_preview''"
  by code_simp+

lemma raw_of_eqs:
  "raw_of n ty None = \<lparr>rw_line = n, rw_type = Some \<lparr>pv_line = n + 1, pv_value = ty\<rparr>, rw_path = None, rw_pattern = None\<rparr>"
  "raw_of n ty (Some (''path'', v)) = \<lparr>rw_line = n, rw_type = Some \<lparr>pv_line = n + 1, pv_value = ty\<rparr>,
     rw_path = Some \<lparr>pv_line = n + 2, pv_value = v\<rparr>, rw_pattern = None\<rparr>"
  "raw_of n ty (Some (''pattern'', v)) = \<lparr>rw_line = n, rw_type = Some \<lparr>pv_line = n + 1, pv_value = ty\<rparr>,
     rw_path = None, rw_pattern = Some \<lparr>pv_line = n + 2, pv_value = v\<rparr>\<rparr>"
  by (simp_all add: raw_of_def raw_capability_new_def set_capability_field_def)

lemma required_value_given: "v \<noteq> [] \<Longrightarrow> trim v = v \<Longrightarrow> required_value raw ty field (Some \<lparr>pv_line = n, pv_value = v\<rparr>) = Inr v"
  by (simp add: required_value_def)

lemma validate_types:
  "rw_type raw = Some pv \<Longrightarrow> pv_value pv = ''read_file'' \<Longrightarrow> validate_capability raw = map_sum id ReadFile (required_path raw ''read_file'' ''path'')"
  "rw_type raw = Some pv \<Longrightarrow> pv_value pv = ''write_file'' \<Longrightarrow> validate_capability raw = map_sum id WriteFile (required_path raw ''write_file'' ''path'')"
  "rw_type raw = Some pv \<Longrightarrow> pv_value pv = ''list_directory'' \<Longrightarrow> validate_capability raw = map_sum id ListDirectory (required_path raw ''list_directory'' ''path'')"
  "rw_type raw = Some pv \<Longrightarrow> pv_value pv = ''http_get'' \<Longrightarrow> validate_capability raw = map_sum id HttpGet (required_pattern raw ''http_get'')"
  "rw_type raw = Some pv \<Longrightarrow> pv_value pv = ''http_post'' \<Longrightarrow> validate_capability raw = map_sum id HttpPost (required_pattern raw ''http_post'')"
  "rw_type raw = Some pv \<Longrightarrow> pv_value pv = ''execute_binary'' \<Longrightarrow> validate_capability raw = map_sum id ExecuteBinary (required_path raw ''execute_binary'' ''path'')"
  "rw_type raw = Some pv \<Longrightarrow> pv_value pv = ''mount_tmpfs'' \<Longrightarrow> validate_capability raw = map_sum id MountTmpfs (required_path raw ''mount_tmpfs'' ''path'')"
  "rw_type raw = Some pv \<Longrightarrow> pv_value pv = ''memory_preview'' \<Longrightarrow> validate_capability raw = Inr MemoryPreview"
  by (simp_all add: validate_capability_def types_normal)

lemma validate_raw_of:
  assumes g: "grantable c" and e: "cap_entry c = Some (ty, kv)"
  shows "validate_capability (raw_of n ty kv) = Inr c"
proof -
  have ty: "rw_type (raw_of n ty kv) = Some \<lparr>pv_line = n + 1, pv_value = ty\<rparr>"
    using e by (cases c) (auto simp: raw_of_eqs)
  have v: "\<And>v. v \<noteq> [] \<and> trim v = v \<Longrightarrow> required_path (raw_of n ty (Some (''path'', v))) t ''path'' = Inr v"
    "\<And>v. v \<noteq> [] \<and> trim v = v \<Longrightarrow> required_pattern (raw_of n ty (Some (''pattern'', v))) t = Inr v" for t
    by (simp_all add: required_path_def required_pattern_def raw_of_eqs required_value_given)
  show ?thesis
  proof (cases c)
    case (ReadFile p)
    with e g validate_types(1) [OF ty] v(1) [of p] show ?thesis by (auto simp: grantable_def)
  next
    case (WriteFile p)
    with e g validate_types(2) [OF ty] v(1) [of p] show ?thesis by (auto simp: grantable_def)
  next
    case (ListDirectory p)
    with e g validate_types(3) [OF ty] v(1) [of p] show ?thesis by (auto simp: grantable_def)
  next
    case (HttpGet p)
    with e g validate_types(4) [OF ty] v(2) [of p] show ?thesis by (auto simp: grantable_def)
  next
    case (HttpPost p)
    with e g validate_types(5) [OF ty] v(2) [of p] show ?thesis by (auto simp: grantable_def)
  next
    case (ExecuteBinary p)
    with e g validate_types(6) [OF ty] v(1) [of p] show ?thesis by (auto simp: grantable_def)
  next
    case (MountTmpfs p)
    with e g validate_types(7) [OF ty] v(1) [of p] show ?thesis by (auto simp: grantable_def)
  next
    case MemoryPreview
    with e validate_types(8) [OF ty] show ?thesis by auto
  qed (use e in simp_all)
qed

lemma capability_block:
  assumes "grantable c" and "cap_entry c = Some (ty, kv)"
  shows "parse_lines n (capability_lines c) (p, sec, es) =
    (p\<lparr>rp_capabilities := rp_capabilities p @ [raw_of n ty kv]\<rparr>, CapabilitySection (length (rp_capabilities p)), es)"
proof -
  have k: "key_ok k" if "kv = Some (k, v)" for k v using assms(2) that keys_ok by (cases c) auto
  have "set_capability_field ''type'' \<lparr>pv_line = Suc n, pv_value = ty\<rparr> (raw_capability_new n)
      = (raw_capability_new n)\<lparr>rw_type := Some \<lparr>pv_line = n + 1, pv_value = ty\<rparr>\<rparr>" by (simp add: set_capability_field_def)
  note ty = parse_capability_assignment [OF keys_ok(2), where n = "Suc n" and v = ty and p = p and cs = "rp_capabilities p"
      and raw = "raw_capability_new n" and es = es, unfolded this]
  show ?thesis
  proof (cases kv)
    case None
    then show ?thesis by (simp add: capability_lines_def assms(2) parse_line_header ty raw_of_def)
  next
    case (Some x)
    then obtain key v where kv: "kv = Some (key, v)" by (cases x) simp
    show ?thesis
      using parse_capability_assignment [OF k [OF kv], where n = "Suc (Suc n)" and v = v and p = p and cs = "rp_capabilities p"]
      by (simp add: capability_lines_def assms(2) parse_line_header ty raw_of_def kv)
  qed
qed

lemma capability_blocks:
  assumes "list_all grantable cs"
  shows "\<exists>raws sec'. parse_lines n (concat (map capability_lines cs)) (p, sec, es) =
      (p\<lparr>rp_capabilities := rp_capabilities p @ raws\<rparr>, sec', es) \<and> list_all2 (\<lambda>r c. validate_capability r = Inr c) raws cs"
  using assms
proof (induction cs arbitrary: n p sec)
  case Nil
  then show ?case by (intro exI [of _ "[]"] exI [of _ sec]) simp
next
  case (Cons c cs)
  then have g: "grantable c" by simp
  then obtain ty kv where e: "cap_entry c = Some (ty, kv)" by (auto simp: grantable_def split: option.splits)
  note b = capability_block [OF g e, of n p sec es]
  let ?p = "p\<lparr>rp_capabilities := rp_capabilities p @ [raw_of n ty kv]\<rparr>"
  obtain raws sec' where r: "parse_lines (n + length (capability_lines c)) (concat (map capability_lines cs))
      (?p, CapabilitySection (length (rp_capabilities p)), es) = (?p\<lparr>rp_capabilities := rp_capabilities ?p @ raws\<rparr>, sec', es)"
    "list_all2 (\<lambda>r c. validate_capability r = Inr c) raws cs"
    using Cons.IH [of "n + length (capability_lines c)" ?p] Cons.prems by fastforce
  show ?case
    by (intro exI [of _ "raw_of n ty kv # raws"] exI [of _ sec'])
      (use r validate_raw_of [OF g e] in \<open>simp add: parse_lines_append b\<close>)
qed

lemma validate_all:
  assumes "list_all2 (\<lambda>r c. validate_capability r = Inr c) raws cs" and "cs \<noteq> []"
  shows "validate_capabilities raws = (cs, [])"
proof -
  have "List.map_filter (\<lambda>r. case validate_capability r of Inr c \<Rightarrow> Some c | Inl _ \<Rightarrow> None) raws = cs
    \<and> List.map_filter (\<lambda>r. case validate_capability r of Inr _ \<Rightarrow> None | Inl e \<Rightarrow> Some e) raws = []"
    using assms(1) by (induction rule: list_all2_induct) (simp_all add: map_filter_simps)
  moreover have "raws \<noteq> []" using assms by (auto simp: list_all2_iff)
  ultimately show ?thesis by (simp add: validate_capabilities_def)
qed

lemma parse_mcp_line:
  assumes "key_ok key" and "rhs_ok rhs" and "parse_mcp_assignment key rhs n r = (r', [])"
  shows "parse_line n (assignment key rhs) (p\<lparr>rp_mcp := Some r\<rparr>, McpSection, es) = (p\<lparr>rp_mcp := Some r'\<rparr>, McpSection, es)"
  unfolding parse_line_assignment [OF assms(1,2)] using assms(3) by (simp add: parse_assignment_def get_or_insert_def)

lemma mcp_flags:
  "parse_mcp_assignment ''snapshot_enabled'' (rendered_bool b) n r = (r\<lparr>rm_snapshot_enabled := Some b\<rparr>, [])"
  "parse_mcp_assignment ''fork_enabled'' (rendered_bool b) n r = (r\<lparr>rm_fork_enabled := Some b\<rparr>, [])"
  "parse_mcp_assignment ''proof_enabled'' (rendered_bool b) n r = (r\<lparr>rm_proof_enabled := Some b\<rparr>, [])"
  "parse_mcp_assignment ''wasi_enabled'' (rendered_bool b) n r = (r\<lparr>rm_wasi_enabled := Some b\<rparr>, [])"
  "parse_mcp_assignment ''instinct_enabled'' (rendered_bool b) n r = (r\<lparr>rm_instinct_enabled := Some b\<rparr>, [])"
  "parse_mcp_assignment ''retry_enabled'' (rendered_bool b) n r = (r\<lparr>rm_retry_enabled := Some b\<rparr>, [])"
  "\<forall>x \<in> set l. CHR '','' \<notin> set x \<Longrightarrow>
     parse_mcp_assignment ''tool_allowlist'' (rendered_array l) n r = (r\<lparr>rm_tool_allowlist := Some l\<rparr>, [])"
  by (simp_all add: parse_mcp_assignment_def assign_def parse_bool_rendered parse_array_rendered)

lemmas mcp_line_steps = parse_mcp_line [OF keys_ok(6) rhs_ok_bool mcp_flags(1)] parse_mcp_line [OF keys_ok(7) rhs_ok_bool mcp_flags(2)]
  parse_mcp_line [OF keys_ok(8) rhs_ok_bool mcp_flags(3)] parse_mcp_line [OF keys_ok(9) rhs_ok_bool mcp_flags(4)]
  parse_mcp_line [OF keys_ok(10) rhs_ok_bool mcp_flags(5)] parse_mcp_line [OF keys_ok(11) rhs_ok_bool mcp_flags(6)]

definition raw_mcp_of :: "mcp_policy \<Rightarrow> raw_mcp" where
  "raw_mcp_of m = \<lparr>rm_tool_allowlist = tool_allowlist m, rm_snapshot_enabled = Some (snapshot_enabled m),
     rm_fork_enabled = Some (fork_enabled m), rm_proof_enabled = Some (proof_enabled m), rm_wasi_enabled = Some (wasi_enabled m),
     rm_instinct_enabled = Some (instinct_enabled m), rm_retry_enabled = Some (retry_enabled m)\<rparr>"

definition raw_execution_of :: "execution_policy \<Rightarrow> raw_execution" where
  "raw_execution_of m = \<lparr>rx_module_dirs = Some (module_dirs m), rx_daemon_auth_required = Some (daemon_auth_required m)\<rparr>"

lemma policies_from_raw: "mcp_policy_from_raw (Some (raw_mcp_of m)) = m" "execution_policy_from_raw (Some (raw_execution_of x)) = x"
  by (simp_all add: mcp_policy_from_raw_def raw_mcp_of_def execution_policy_from_raw_def raw_execution_of_def)

lemma mcp_block:
  assumes "rp_mcp p = None" and "\<forall>l. tool_allowlist m = Some l \<longrightarrow> (\<forall>x \<in> set l. CHR '','' \<notin> set x)"
  shows "parse_lines n (mcp_lines m) (p, sec, es) = (p\<lparr>rp_mcp := Some (raw_mcp_of m)\<rparr>, McpSection, es)"
proof (cases "tool_allowlist m")
  case None
  then show ?thesis
    by (simp add: mcp_lines_def parse_line_header mcp_line_steps assms(1) get_or_insert_def raw_mcp_new_def raw_mcp_of_def)
next
  case (Some l)
  with assms(2) have l: "\<forall>x \<in> set l. CHR '','' \<notin> set x" by blast
  show ?thesis
    by (simp add: mcp_lines_def Some parse_line_header parse_mcp_line [OF keys_ok(5) rhs_ok_array mcp_flags(7) [OF l]] mcp_line_steps
        assms(1) get_or_insert_def raw_mcp_new_def raw_mcp_of_def)
qed

lemma parse_execution_line:
  assumes "key_ok key" and "rhs_ok rhs" and "parse_execution_assignment key rhs n r = (r', [])"
  shows "parse_line n (assignment key rhs) (p\<lparr>rp_execution := Some r\<rparr>, ExecutionSection, es)
    = (p\<lparr>rp_execution := Some r'\<rparr>, ExecutionSection, es)"
  unfolding parse_line_assignment [OF assms(1,2)] using assms(3) by (simp add: parse_assignment_def get_or_insert_def)

lemma execution_block:
  assumes "rp_execution p = None" and "\<forall>x \<in> set (module_dirs m). CHR '','' \<notin> set x"
  shows "parse_lines n (execution_lines m) (p, sec, es) = (p\<lparr>rp_execution := Some (raw_execution_of m)\<rparr>, ExecutionSection, es)"
proof -
  have d: "parse_execution_assignment ''module_dirs'' (rendered_array (module_dirs m)) k r = (r\<lparr>rx_module_dirs := Some (module_dirs m)\<rparr>, [])" for k r
    by (simp add: parse_execution_assignment_def assign_def parse_array_rendered [OF assms(2)])
  have a: "parse_execution_assignment ''daemon_auth_required'' (rendered_bool b) k r = (r\<lparr>rx_daemon_auth_required := Some b\<rparr>, [])" for b k r
    by (simp add: parse_execution_assignment_def assign_def parse_bool_rendered)
  show ?thesis
    by (simp add: execution_lines_def parse_line_header parse_execution_line [OF keys_ok(12) rhs_ok_array d]
        parse_execution_line [OF keys_ok(13) rhs_ok_bool a] assms(1) get_or_insert_def raw_execution_default_def raw_execution_of_def)
qed

subsection \<open>Lines of a rendered manifest\<close>

definition line_ok :: "string \<Rightarrow> bool" where
  "line_ok l \<longleftrightarrow> CHR 0x0A \<notin> set l \<and> strip_cr l = l"

lemma lines_loop_append: "CHR 0x0A \<notin> set l \<Longrightarrow> lines_loop acc (l @ CHR 0x0A # rest) = strip_cr (acc @ l) # lines_loop [] rest"
  by (induction l arbitrary: acc) auto

lemma str_lines_rendered: "list_all line_ok ls \<Longrightarrow> str_lines (concat (map (\<lambda>l. l @ [CHR 0x0A]) ls)) = ls"
  unfolding str_lines_def by (induction ls) (simp_all add: lines_loop_append line_ok_def)

lemma strip_cr_trimmed: "trimmed l \<Longrightarrow> strip_cr l = l"
proof -
  assume t: "trimmed l"
  then have "last l \<noteq> CHR 0x0D" "l \<noteq> []" by (auto simp: trimmed_def is_ws_def)
  then show ?thesis by (cases l rule: rev_cases) (auto simp: strip_cr_def strip_suffix_def strip_prefix_def starts_with_def)
qed

lemma lf_escape: "CHR 0x0A \<notin> set (escape_char c)"
  by (cases c rule: escape_char_cases) auto

lemma lf_quoted: "CHR 0x0A \<notin> set (quoted s)"
  using lf_escape by (induction s) (auto simp: quoted_def)

lemma lf_array: "CHR 0x0A \<notin> set (rendered_array xs)"
proof -
  have "CHR 0x0A \<notin> set (join_with '','' (map quoted xs))"
    by (induction xs rule: induct_list012) (simp_all add: lf_quoted)
  then show ?thesis by (simp add: rendered_array_def)
qed

lemma line_ok_assignment:
  assumes "key_ok key" and "rhs_ok rhs" and "CHR 0x0A \<notin> set rhs" and "CHR 0x0A \<notin> set key"
  shows "line_ok (assignment key rhs)"
proof -
  have "trimmed (assignment key rhs)" unfolding assignment_def using assms by (intro trimmed_append) (simp_all add: key_ok_def rhs_ok_def)
  with assms(3,4) show ?thesis by (simp add: line_ok_def strip_cr_trimmed) (simp add: assignment_def)
qed

lemma keys_no_lf: "\<forall>k \<in> set [''name'', ''type'', ''path'', ''pattern'', ''tool_allowlist'', ''snapshot_enabled'', ''fork_enabled'',
    ''proof_enabled'', ''wasi_enabled'', ''instinct_enabled'', ''retry_enabled'', ''module_dirs'', ''daemon_auth_required'']. CHR 0x0A \<notin> set k"
  by simp

lemma line_ok_key:
  assumes "key_ok key" and "CHR 0x0A \<notin> set key"
  shows "line_ok (assignment key (quoted v))" "line_ok (assignment key (rendered_bool b))" "line_ok (assignment key (rendered_array l))"
proof -
  have "CHR 0x0A \<notin> set (rendered_bool b)" by (simp add: rendered_bool_def)
  then show "line_ok (assignment key (quoted v))" "line_ok (assignment key (rendered_bool b))" "line_ok (assignment key (rendered_array l))"
    using assms rhs_ok_quoted rhs_ok_bool rhs_ok_array lf_quoted lf_array by (simp_all add: line_ok_assignment)
qed

lemma header_lines_ok: "line_ok ''[[capabilities]]''" "line_ok ''[mcp]''" "line_ok ''[execution]''"
  by code_simp+

lemma capability_lines_ok: "list_all line_ok (capability_lines c)"
  using keys_ok by (cases c) (simp_all add: capability_lines_def header_lines_ok line_ok_key)

lemma profile_lines_ok: "list_all line_ok (profile_lines m)"
proof -
  have "list_all line_ok (concat (map capability_lines cs))" for cs
    using capability_lines_ok by (induction cs) simp_all
  moreover have "list_all line_ok (mcp_lines p)" for p
    by (simp add: mcp_lines_def header_lines_ok line_ok_key keys_ok split: option.split)
  moreover have "list_all line_ok (execution_lines p)" for p
    by (simp add: execution_lines_def header_lines_ok line_ok_key keys_ok)
  ultimately show ?thesis by (simp add: profile_lines_def line_ok_key keys_ok)
qed

lemma parse_name_line:
  "parse_line n (assignment ''name'' (quoted v)) (p, TopSection, es) = (p\<lparr>rp_name := Some v\<rparr>, TopSection, es)"
  unfolding parse_line_assignment [OF keys_ok(1) rhs_ok_quoted] by (simp add: parse_assignment_def parse_string_quoted)

subsection \<open>What validation accepts\<close>

lemma required_value_Inr: "required_value raw ty field x = Inr v \<Longrightarrow> v \<noteq> [] \<and> trim v = v"
  by (auto simp: required_value_def trim_idem split: option.splits if_splits)

lemma map_sum_id_Inr: "map_sum id f x = Inr y \<longleftrightarrow> (\<exists>z. x = Inr z \<and> y = f z)"
  by (cases x) auto

definition grants_only :: "validation_error + capability \<Rightarrow> bool" where
  "grants_only r \<longleftrightarrow> (\<forall>c. r = Inr c \<longrightarrow> grantable c)"

lemma grants_only_if: "grants_only a \<Longrightarrow> grants_only b \<Longrightarrow> grants_only (if P then a else b)"
  by simp

lemma grants_only_value:
  assumes "K \<in> {ReadFile, WriteFile, ListDirectory, HttpGet, HttpPost, ExecuteBinary, MountTmpfs}"
  shows "grants_only (map_sum id K (required_path raw ty field))" "grants_only (map_sum id K (required_pattern raw ty))"
  using assms unfolding required_path_def required_pattern_def
  by (auto simp: grants_only_def map_sum_id_Inr grantable_def dest: required_value_Inr)

lemma validate_grantable:
  assumes "validate_capability r = Inr c"
  shows "grantable c"
proof -
  have e: "grants_only (Inl x)" for x by (simp add: grants_only_def)
  have m: "grants_only (Inr MemoryPreview)" by (simp add: grants_only_def grantable_def)
  have "grants_only (validate_capability r)"
  proof (cases "rw_type r")
    case None
    then show ?thesis by (simp add: validate_capability_def e)
  next
    case (Some ty)
    show ?thesis unfolding validate_capability_def Some option.case Let_def
      by (intro grants_only_if grants_only_value e m) simp_all
  qed
  with assms show ?thesis by (simp add: grants_only_def)
qed

text \<open>How many capability tables a state has seen, and that the tool policy is untouched without its table.\<close>

lemma parse_assignment_counts:
  "length (rp_capabilities (fst (parse_assignment n key rhs (p, sec, es)))) = length (rp_capabilities p)"
  "fst (snd (parse_assignment n key rhs (p, sec, es))) = sec"
  "sec \<noteq> McpSection \<Longrightarrow> rp_mcp (fst (parse_assignment n key rhs (p, sec, es))) = rp_mcp p"
  by (auto simp: parse_assignment_def split: profile_section.splits prod.splits sum.splits)

definition is_header :: "string \<Rightarrow> string \<Rightarrow> bool" where
  "is_header h l \<longleftrightarrow> trim (strip_comment l) = h"

lemma parse_line_counts:
  "length (rp_capabilities (fst (parse_line n l (p, sec, es)))) = length (rp_capabilities p) + (if is_header ''[[capabilities]]'' l then 1 else 0)"
  "\<not> is_header ''[mcp]'' l \<Longrightarrow> sec \<noteq> McpSection \<Longrightarrow> fst (snd (parse_line n l (p, sec, es))) \<noteq> McpSection
     \<and> rp_mcp (fst (parse_line n l (p, sec, es))) = rp_mcp p"
proof -
  let ?l = "trim (strip_comment l)"
  note h = is_header_def [of _ l] and a = parse_assignment_counts
  show "length (rp_capabilities (fst (parse_line n l (p, sec, es)))) = length (rp_capabilities p) + (if is_header ''[[capabilities]]'' l then 1 else 0)"
    unfolding parse_line_def h prod.case Let_def
    by (cases "?l = []"; cases "?l = ''[[capabilities]]''"; cases "?l = ''[mcp]''"; cases "?l = ''[execution]''"; cases "starts_with ?l ''[''")
      (simp_all add: a split: option.split)
  show "\<not> is_header ''[mcp]'' l \<Longrightarrow> sec \<noteq> McpSection \<Longrightarrow> fst (snd (parse_line n l (p, sec, es))) \<noteq> McpSection
     \<and> rp_mcp (fst (parse_line n l (p, sec, es))) = rp_mcp p"
    unfolding parse_line_def h prod.case Let_def
    by (cases "?l = []"; cases "?l = ''[[capabilities]]''"; cases "?l = ''[execution]''"; cases "starts_with ?l ''[''")
      (simp_all add: a split: option.split)
qed

lemma parse_lines_counts:
  "length (rp_capabilities (fst (parse_lines n ls (p, sec, es)))) = length (rp_capabilities p) + length (filter (is_header ''[[capabilities]]'') ls)
   \<and> ((\<forall>l \<in> set ls. \<not> is_header ''[mcp]'' l) \<longrightarrow> sec \<noteq> McpSection \<longrightarrow> rp_mcp (fst (parse_lines n ls (p, sec, es))) = rp_mcp p)"
proof (induction ls arbitrary: n p sec es)
  case (Cons l ls)
  obtain p' sec' es' where l: "parse_line n l (p, sec, es) = (p', sec', es')" by (metis prod_cases3)
  show ?case using Cons.IH [of "Suc n" p' sec' es'] parse_line_counts [where n = n and l = l and p = p and sec = sec and es = es] by (simp add: l)
qed simp

lemma validate_capabilities_ok:
  assumes "validate_capabilities raws = (cs, [])"
  shows "cs \<noteq> [] \<and> list_all grantable cs \<and> length cs = length raws"
proof -
  have ne: "raws \<noteq> []" using assms by (auto simp: validate_capabilities_def)
  with assms have cs: "cs = List.map_filter (\<lambda>r. case validate_capability r of Inr c \<Rightarrow> Some c | Inl _ \<Rightarrow> None) raws"
    and no: "List.map_filter (\<lambda>r. case validate_capability r of Inr _ \<Rightarrow> None | Inl e \<Rightarrow> Some e) raws = []"
    by (simp_all add: validate_capabilities_def)
  from no have "list_all grantable (List.map_filter (\<lambda>r. case validate_capability r of Inr c \<Rightarrow> Some c | Inl _ \<Rightarrow> None) raws)
    \<and> length (List.map_filter (\<lambda>r. case validate_capability r of Inr c \<Rightarrow> Some c | Inl _ \<Rightarrow> None) raws) = length raws"
    by (induction raws) (auto simp: map_filter_simps dest: validate_grantable split: sum.splits option.splits)
  with cs ne show ?thesis by auto
qed

subsection \<open>Properties\<close>

text \<open>
  C22: Profiles round-trip: loading the text of a manifest gives the manifest, with its name, every capability in
  order and the two policies, whatever characters the strings hold, quotes, backslashes, comment and equality signs and line
  breaks included; only array elements may not hold a comma.
\<close>

theorem profile_roundtrip:
  assumes "profile_ok m"
  shows "load_and_validate path (Inr (render_profile m)) = Inr m"
proof -
  let ?p1 = "raw_profile_default\<lparr>rp_name := Some (mf_name m)\<rparr>"
  have lines: "str_lines (render_profile m) = profile_lines m"
    unfolding render_profile_def by (rule str_lines_rendered [OF profile_lines_ok])
  have g: "list_all grantable (mf_capabilities m)" using assms by (simp add: profile_ok_def)
  obtain raws sec where caps: "parse_lines 2 (concat (map capability_lines (mf_capabilities m))) (?p1, TopSection, [])
      = (?p1\<lparr>rp_capabilities := raws\<rparr>, sec, [])" and va: "list_all2 (\<lambda>r c. validate_capability r = Inr c) raws (mf_capabilities m)"
    using capability_blocks [OF g, of 2 ?p1 TopSection "[]"] by (auto simp: raw_profile_default_def)
  let ?p2 = "?p1\<lparr>rp_capabilities := raws\<rparr>"
  have mcp: "parse_lines n (mcp_lines (mf_mcp m)) (?p2, sec, []) = (?p2\<lparr>rp_mcp := Some (raw_mcp_of (mf_mcp m))\<rparr>, McpSection, [])" for n
    by (rule mcp_block) (use assms in \<open>auto simp: profile_ok_def raw_profile_default_def\<close>)
  let ?p3 = "?p2\<lparr>rp_mcp := Some (raw_mcp_of (mf_mcp m))\<rparr>"
  have ex: "parse_lines n (execution_lines (mf_execution m)) (?p3, McpSection, [])
      = (?p3\<lparr>rp_execution := Some (raw_execution_of (mf_execution m))\<rparr>, ExecutionSection, [])" for n
    by (rule execution_block) (use assms in \<open>simp_all add: profile_ok_def raw_profile_default_def\<close>)
  have "parse_profile (render_profile m) = (?p3\<lparr>rp_execution := Some (raw_execution_of (mf_execution m))\<rparr>, [])"
    unfolding parse_profile_def lines profile_lines_def parse_lines_append
    using caps mcp ex by (simp add: parse_name_line numeral_2_eq_2)
  moreover have "validate_capabilities raws = (mf_capabilities m, [])"
    by (rule validate_all [OF va]) (use assms in \<open>simp add: profile_ok_def\<close>)
  ultimately show ?thesis using assms
    by (simp add: load_and_validate_def policies_from_raw profile_ok_def)
qed

text \<open>
  What a loaded profile grants. A file that loads has at least one capability, exactly one for each of its
  capability tables, and each is of a kind with a nonempty trimmed parameter, never the unrestricted or the empty capability nor one
  for recalled or scoped memory; and without an \<open>[mcp]\<close> table every optional tool group is disabled.
\<close>

lemma profile_confines:
  assumes "load_and_validate path (Inr contents) = Inr m"
  shows "mf_capabilities m \<noteq> [] \<and> list_all grantable (mf_capabilities m)
    \<and> length (mf_capabilities m) = length (filter (is_header ''[[capabilities]]'') (str_lines contents))
    \<and> ((\<forall>l \<in> set (str_lines contents). \<not> is_header ''[mcp]'' l) \<longrightarrow>
         mf_mcp m = \<lparr>tool_allowlist = None, snapshot_enabled = False, fork_enabled = False, proof_enabled = False,
           wasi_enabled = False, instinct_enabled = False, retry_enabled = False\<rparr>)"
proof -
  obtain p sec es where pl: "parse_lines 1 (str_lines contents) (raw_profile_default, TopSection, []) = (p, sec, es)" by (metis prod_cases3)
  obtain cs ces where va: "validate_capabilities (rp_capabilities p) = (cs, ces)" by fastforce
  have ok: "es = []" "ces = []" "mf_capabilities m = cs" "mf_mcp m = mcp_policy_from_raw (rp_mcp p)"
    using assms by (auto simp: load_and_validate_def parse_profile_def pl [unfolded One_nat_def] va split: if_splits)
  have n: "length (rp_capabilities p) = length (filter (is_header ''[[capabilities]]'') (str_lines contents))"
    and mcp: "(\<forall>l \<in> set (str_lines contents). \<not> is_header ''[mcp]'' l) \<longrightarrow> rp_mcp p = None"
    using parse_lines_counts [of 1 "str_lines contents" raw_profile_default TopSection "[]"]
    unfolding pl by (simp_all add: raw_profile_default_def)
  with validate_capabilities_ok [OF va [unfolded ok(2)]] ok show ?thesis by (simp add: mcp_policy_from_raw_def)
qed

text \<open>A manifest with every kind of character in its strings.\<close>

definition demo_manifest :: profile_manifest where
  "demo_manifest = \<lparr>mf_name = ''a # b = '' @ [CHR 0x22, CHR 0x5C, CHR 0x0A, CHR ''x''],
     mf_capabilities = [ReadFile ''/tmp'', MemoryPreview, HttpGet ''https://x.org/a#b''],
     mf_mcp = \<lparr>tool_allowlist = Some [''nexus_execute''], snapshot_enabled = True, fork_enabled = False, proof_enabled = True,
       wasi_enabled = False, instinct_enabled = False, retry_enabled = False\<rparr>,
     mf_execution = \<lparr>module_dirs = [''/opt/wasm'', ''/srv/wasm''], daemon_auth_required = True\<rparr>\<rparr>"

theorem profile_roundtrip_witness:
  "load_and_validate ''p.toml'' (Inr (render_profile demo_manifest)) = Inr demo_manifest"
  by (rule profile_roundtrip) code_simp

end
