(* ===== verification/Daemon.thy ===== *)
theory Daemon
  imports Daemon_Pool Framed Profile Execution
begin

text \<open>
  The daemon \<open>nexus-agentd\<close>: the request and response types of \<open>src/src/daemon/mod.rs\<close>, the JSON framing of
  \<open>src/src/daemon/protocol.rs\<close>, and from \<open>src/src/bin/nexus_agentd.rs\<close> the start with its
  authentication gates, the admission of requests, the module allow-list and the connection loop.

  The environment, the file system, the UTF-8 check of an environment value and the JSON codec are parameters. An instance of
  the pool is a hypervisor with its own \<open>hv_env\<close>, because each hypervisor has an engine of its own; that an instance replaces its engine
  when a tool's fuel budget is installed is left out. The input of a tool is its serialization. A request is
  served without interference from others: the interleavings of the pool and of the module cache are in \<open>Daemon_Pool\<close> and
  \<open>Module_Cache\<close>. The exit of the process after a shutdown request, which may cut connections short, is left out. The build is the default one, without aeon-memory.
\<close>

subsection \<open>Requests and responses\<close>

datatype daemon_request =
    Ping
  | Execute string "bytes option" "string option" string "bytes option" "string option"
  | Shutdown "string option"

datatype daemon_response =
    Pong string
  | Executed tool_output
  | DaemonError string

definition default_entry :: string where
  "default_entry = ''_start''"

definition default_socket_path :: "(string \<Rightarrow> string option) \<Rightarrow> (string \<Rightarrow> bool) \<Rightarrow> string" where
  "default_socket_path env_var dir_exists =
     (case env_var ''NEXUS_AGENTD_SOCKET'' of
        Some p \<Rightarrow> p
      | None \<Rightarrow>
          (let dir = (case env_var ''XDG_RUNTIME_DIR'' of
                        Some p \<Rightarrow> if dir_exists p then p else ''/tmp''
                      | None \<Rightarrow> ''/tmp'')
           in path_join dir ''nexus-agentd.sock''))"

subsection \<open>Start\<close>

definition AUTH_TOKEN_ENV :: string where
  "AUTH_TOKEN_ENV = ''NEXUS_AGENTD_AUTH_TOKEN''"

definition MODULE_DIR_ENV :: string where
  "MODULE_DIR_ENV = ''NEXUS_AGENTD_MODULE_DIR''"

definition AGENTD_PROFILE_ENV :: string where
  "AGENTD_PROFILE_ENV = ''NEXUS_AGENTD_PROFILE''"

definition AGENTD_RELEASE_ENV :: string where
  "AGENTD_RELEASE_ENV = ''NEXUS_AGENTD_RELEASE''"

text \<open>The process environment: the value of a variable as the system has it, and whether a value is Unicode.\<close>

record os_env =
  oe_var :: "string \<Rightarrow> string option"
  oe_unicode :: "string \<Rightarrow> bool"

definition configured_auth_token :: "os_env \<Rightarrow> string + string option" where
  "configured_auth_token oe =
     (case oe_var oe AUTH_TOKEN_ENV of
        None \<Rightarrow> Inr None
      | Some token \<Rightarrow> if oe_unicode oe token then Inr (Some token) else Inl ''{AUTH_TOKEN_ENV} must be valid Unicode'')"

definition release_auth_requirement_violated :: "string option \<Rightarrow> bool \<Rightarrow> bool" where
  "release_auth_requirement_violated auth_token release_build \<longleftrightarrow> release_build \<and> auth_token = None"

definition release_auth_requirement_error :: string where
  "release_auth_requirement_error =
     ''release builds refuse to start without daemon authentication ({AUTH_TOKEN_ENV} must be set)''"

definition enforce_release_auth_requirement :: "bool \<Rightarrow> string option \<Rightarrow> string + unit" where
  "enforce_release_auth_requirement release_build auth_token =
     (if release_auth_requirement_violated auth_token release_build then Inl release_auth_requirement_error else Inr ())"

definition enforce_profile_auth_requirement ::
  "os_env \<Rightarrow> (string \<Rightarrow> string + string) \<Rightarrow> string option \<Rightarrow> string + unit" where
  "enforce_profile_auth_requirement oe read_file auth_token =
     (let release_active = (case oe_var oe AGENTD_RELEASE_ENV of Some v \<Rightarrow> v \<noteq> [] | None \<Rightarrow> False)
      in if release_active \<and> auth_token = None
         then Inl ''release profile is active ({AGENTD_RELEASE_ENV} is set) but {AUTH_TOKEN_ENV} is not configured''
         else case oe_var oe AGENTD_PROFILE_ENV of
           None \<Rightarrow> Inr ()
         | Some profile_path \<Rightarrow>
             (case load_and_validate profile_path (read_file profile_path) of
                Inl errors \<Rightarrow> Inl (''invalid {AGENTD_PROFILE_ENV} '' @ profile_path @ '': ''
                                  @ join_with ''; '' (map validation_error_display errors))
              | Inr manifest \<Rightarrow>
                  (if daemon_auth_required (mf_execution manifest) \<and> auth_token = None
                   then Inl (''profile '' @ mf_name manifest @ '' requires daemon authentication ({AUTH_TOKEN_ENV} must be set)'')
                   else Inr ())))"

text \<open>The daemon after its start: the pool of instances, the shared module cache, the token and the shutdown flag.\<close>

type_synonym 'm hv_instance = "'m hv_env \<times> 'm hypervisor"

record 'm daemon =
  dm_pool :: "'m hv_instance hypervisor_pool"
  dm_cache :: "'m cache_inner"
  dm_auth_token :: "string option"
  dm_shutdown :: bool

record agentd_cli =
  cli_pool :: "nat option"
  cli_fuel :: u64
  cli_timeout_ms :: nat

definition agentd_config :: "agentd_cli \<Rightarrow> hypervisor_config" where
  "agentd_config cli =
     (let cfg = default_hypervisor_config; sc = hy_sandbox_config cfg
      in cfg\<lparr>hy_sandbox_config := sc\<lparr>max_fuel := cli_fuel cli, time_limit := cli_timeout_ms cli * 1000000\<rparr>\<rparr>)"

definition agentd_main ::
  "bool \<Rightarrow> os_env \<Rightarrow> (string \<Rightarrow> string + string) \<Rightarrow> nat \<Rightarrow> (nat \<Rightarrow> hypervisor_config \<Rightarrow> 'm hv_instance result)
   \<Rightarrow> agentd_cli \<Rightarrow> string + 'm daemon" where
  "agentd_main release_build oe read_file num_cpus build cli =
     (let pool_size = (case cli_pool cli of Some n \<Rightarrow> n | None \<Rightarrow> num_cpus)
      in case hypervisor_pool_new (\<lambda>i. build i (agentd_config cli)) pool_size of
           Inl e \<Rightarrow> Inl ''{e}''
         | Inr pool \<Rightarrow>
             (case configured_auth_token oe of
                Inl e \<Rightarrow> Inl e
              | Inr auth_token \<Rightarrow>
                  (case enforce_release_auth_requirement release_build auth_token of
                     Inl e \<Rightarrow> Inl e
                   | Inr _ \<Rightarrow>
                       (case enforce_profile_auth_requirement oe read_file auth_token of
                          Inl e \<Rightarrow> Inl e
                        | Inr _ \<Rightarrow> Inr \<lparr>dm_pool = pool, dm_cache = cache_with_capacity 256, dm_auth_token = auth_token,
                                        dm_shutdown = False\<rparr>))))"

subsection \<open>Admission\<close>

definition UNAUTHORIZED_MESSAGE :: string where
  "UNAUTHORIZED_MESSAGE = ''Unauthorized: daemon request authentication failed''"

definition WASM_PATH_REJECTED_MESSAGE :: string where
  "WASM_PATH_REJECTED_MESSAGE = ''wasm_path rejected: configure an allowed module directory''"

definition get_or_zero :: "bytes \<Rightarrow> nat \<Rightarrow> byte" where
  "get_or_zero a i = (if i < length a then a ! i else 0)"

fun constant_time_loop :: "bytes \<Rightarrow> bytes \<Rightarrow> nat list \<Rightarrow> u64 \<Rightarrow> u64" where
  "constant_time_loop a b [] diff = diff"
| "constant_time_loop a b (i # rest) diff =
     constant_time_loop a b rest (or diff (ucast (xor (get_or_zero a i) (get_or_zero b i))))"

definition constant_time_eq :: "bytes \<Rightarrow> bytes \<Rightarrow> bool" where
  "constant_time_eq a b =
     (constant_time_loop a b [0..<max (length a) (length b)] (xor (word_of_nat (length a)) (word_of_nat (length b))) = 0)"

definition unauthorized_response :: "daemon_request \<Rightarrow> string option \<Rightarrow> daemon_response option" where
  "unauthorized_response req auth_token =
     (case auth_token of
        None \<Rightarrow> None
      | Some configured \<Rightarrow>
          (let check = (\<lambda>supplied. case supplied of
                 Some token \<Rightarrow> if constant_time_eq (str_bytes token) (str_bytes configured) then None
                               else Some (DaemonError UNAUTHORIZED_MESSAGE)
               | None \<Rightarrow> Some (DaemonError UNAUTHORIZED_MESSAGE))
           in case req of
                Ping \<Rightarrow> None
              | Execute _ _ _ _ _ supplied \<Rightarrow> check supplied
              | Shutdown supplied \<Rightarrow> check supplied))"

text \<open>The file system as the daemon uses it: paths are resolved, a file is opened once, and its handle says what it is.\<close>

record 'h agentd_fs =
  af_canonicalize :: "string \<Rightarrow> string option"
  af_is_dir :: "string \<Rightarrow> bool"
  af_open :: "string \<Rightarrow> 'h option"
  af_is_file :: "'h \<Rightarrow> bool option"
  af_fd_path :: "'h \<Rightarrow> string option"
  af_read :: "'h \<Rightarrow> bytes option"

fun canonical_dirs :: "'h agentd_fs \<Rightarrow> string list \<Rightarrow> string + string list" where
  "canonical_dirs fs [] = Inr []"
| "canonical_dirs fs (dir # dirs) =
     (case af_canonicalize fs dir of
        None \<Rightarrow> Inl WASM_PATH_REJECTED_MESSAGE
      | Some canonical \<Rightarrow>
          (if \<not> af_is_dir fs canonical then Inl WASM_PATH_REJECTED_MESSAGE
           else map_sum id (\<lambda>cs. canonical # cs) (canonical_dirs fs dirs)))"

definition allowed_agentd_module_dirs :: "os_env \<Rightarrow> 'h agentd_fs \<Rightarrow> string + string list" where
  "allowed_agentd_module_dirs oe fs =
     (case oe_var oe MODULE_DIR_ENV of
        None \<Rightarrow> Inl WASM_PATH_REJECTED_MESSAGE
      | Some v \<Rightarrow>
          (let raw_dirs = split_char CHR '':'' v
           in if raw_dirs = [] then Inl WASM_PATH_REJECTED_MESSAGE else canonical_dirs fs raw_dirs))"

definition open_agentd_wasm_path_with_dirs :: "'h agentd_fs \<Rightarrow> string \<Rightarrow> string list \<Rightarrow> string + 'h \<times> string" where
  "open_agentd_wasm_path_with_dirs fs wasm_path allowed_dirs =
     (case af_open fs wasm_path of
        None \<Rightarrow> Inl WASM_PATH_REJECTED_MESSAGE
      | Some file \<Rightarrow>
          (if af_is_file fs file \<noteq> Some True then Inl WASM_PATH_REJECTED_MESSAGE
           else case af_fd_path fs file of
             None \<Rightarrow> Inl WASM_PATH_REJECTED_MESSAGE
           | Some canonical \<Rightarrow>
               (if list_ex (path_starts_with canonical) allowed_dirs then Inr (file, canonical)
                else Inl WASM_PATH_REJECTED_MESSAGE)))"

definition open_agentd_wasm_path :: "os_env \<Rightarrow> 'h agentd_fs \<Rightarrow> string \<Rightarrow> string + 'h \<times> string" where
  "open_agentd_wasm_path oe fs wasm_path =
     (case allowed_agentd_module_dirs oe fs of
        Inl e \<Rightarrow> Inl e
      | Inr allowed_dirs \<Rightarrow> open_agentd_wasm_path_with_dirs fs wasm_path allowed_dirs)"

definition read_allowlisted_wasm_path :: "os_env \<Rightarrow> 'h agentd_fs \<Rightarrow> string \<Rightarrow> string + bytes" where
  "read_allowlisted_wasm_path oe fs wasm_path =
     (case open_agentd_wasm_path oe fs wasm_path of
        Inl e \<Rightarrow> Inl e
      | Inr (file, _) \<Rightarrow> (case af_read fs file of None \<Rightarrow> Inl WASM_PATH_REJECTED_MESSAGE | Some bs \<Rightarrow> Inr bs))"

subsection \<open>Serving a request\<close>

definition module_bytes ::
  "os_env \<Rightarrow> 'h agentd_fs \<Rightarrow> string option \<Rightarrow> bytes option \<Rightarrow> string option \<Rightarrow> string + bytes" where
  "module_bytes oe fs auth_token raw wasm_path =
     (case (raw, wasm_path) of
        (Some b, _) \<Rightarrow>
          (if auth_token = None then Inl ''wasm_bytes submission requires daemon authentication to be configured'' else Inr b)
      | (None, Some p) \<Rightarrow> read_allowlisted_wasm_path oe fs p
      | (None, None) \<Rightarrow> Inl ''request missing wasm_bytes and wasm_path'')"

definition run_on_instance ::
  "(bytes \<Rightarrow> bytes) \<Rightarrow> call_inputs \<Rightarrow> string \<Rightarrow> string \<Rightarrow> bytes option \<Rightarrow> bytes \<Rightarrow> 'm hv_instance \<Rightarrow> 'm cache_inner
   \<Rightarrow> (daemon_response \<times> 'm hv_instance \<times> 'm cache_inner) option" where
  "run_on_instance sha256 ca name entry input bs inst cache =
     (case get_or_compile sha256 (he_wt (fst inst)) bs cache of
        (Inl e, cache') \<Rightarrow> Some (DaemonError ''module load failed'', inst, cache')
      | (Inr m, cache') \<Rightarrow>
          (case execute_tool_inner (fst inst) ca ((tool_new name bs)\<lparr>entry_point := entry\<rparr>) input [] (Some m) None (snd inst) of
             None \<Rightarrow> None
           | Some (res, hv') \<Rightarrow>
               Some ((case res of Inr output \<Rightarrow> Executed output | Inl e \<Rightarrow> DaemonError ''{e}''), (fst inst, hv'), cache')))"

definition serve ::
  "(bytes \<Rightarrow> bytes) \<Rightarrow> os_env \<Rightarrow> 'h agentd_fs \<Rightarrow> string \<Rightarrow> call_inputs \<Rightarrow> daemon_request \<Rightarrow> 'm daemon
   \<Rightarrow> (daemon_response \<times> 'm daemon) option" where
  "serve sha256 oe fs version ca req d =
     (case unauthorized_response req (dm_auth_token d) of
        Some resp \<Rightarrow> Some (resp, d)
      | None \<Rightarrow>
     (case req of
        Ping \<Rightarrow> Some (Pong version, d)
      | Shutdown _ \<Rightarrow> Some (Pong version, d\<lparr>dm_shutdown := True\<rparr>)
      | Execute name raw wasm_path entry input _ \<Rightarrow>
          (case module_bytes oe fs (dm_auth_token d) raw wasm_path of
             Inl message \<Rightarrow> Some (DaemonError message, d)
           | Inr bs \<Rightarrow>
               (case acquire_hypervisor (dm_pool d) of
                  None \<Rightarrow> None
                | Some (inst, pool) \<Rightarrow>
                    (case run_on_instance sha256 ca name entry input bs inst (dm_cache d) of
                       None \<Rightarrow> None
                     | Some (resp, inst', cache') \<Rightarrow>
                         Some (resp, d\<lparr>dm_pool := return_hypervisor inst' pool, dm_cache := cache'\<rparr>))))))"

subsection \<open>Connections\<close>

text \<open>The JSON codec of the two message types.\<close>

record daemon_codec =
  dc_request :: "bytes \<Rightarrow> daemon_request option"
  dc_response :: "daemon_response \<Rightarrow> bytes option"

definition read_frame :: "daemon_codec \<Rightarrow> bytes \<Rightarrow> (io_error + daemon_request) \<times> bytes" where
  "read_frame dc s =
     (case read_raw_frame_with_limit DEFAULT_MAX_PAYLOAD s of
        (Inl e, s') \<Rightarrow> (Inl e, s')
      | (Inr buf, s') \<Rightarrow>
          (case dc_request dc buf of Some r \<Rightarrow> (Inr r, s') | None \<Rightarrow> (Inl (InvalidData ''JSON: {e}''), s')))"

definition write_frame :: "daemon_codec \<Rightarrow> daemon_response \<Rightarrow> bytes \<Rightarrow> (io_error + unit) \<times> bytes" where
  "write_frame dc msg w =
     (case dc_response dc msg of
        None \<Rightarrow> (Inl (InvalidData ''serialize: {e}''), w)
      | Some body \<Rightarrow> write_raw_frame body w)"

lemma read_exact_shorter: "read_exact n s = (Inr b, s') \<Longrightarrow> length s' + n = length s"
  by (auto simp: read_exact_def split: if_splits)

lemma read_frame_shorter: "read_frame dc s = (Inr r, s') \<Longrightarrow> length s' < length s"
  by (auto simp: read_frame_def read_raw_frame_with_limit_def Let_def split: prod.splits sum.splits if_splits option.splits
      dest!: read_exact_shorter)

text \<open>A connection: the bytes the client sends, the bytes written back, and how it ends. \<open>ins\<close> gives the clocks and ids of
  the requests in order. \<open>None\<close> is a request that is never answered.\<close>

function handle_connection ::
  "(bytes \<Rightarrow> bytes) \<Rightarrow> os_env \<Rightarrow> 'h agentd_fs \<Rightarrow> string \<Rightarrow> daemon_codec \<Rightarrow> (nat \<Rightarrow> call_inputs) \<Rightarrow> nat \<Rightarrow> bytes \<Rightarrow> bytes
   \<Rightarrow> 'm daemon \<Rightarrow> ((io_error + unit) \<times> bytes \<times> 'm daemon) option" where
  "handle_connection sha256 oe fs version dc ins k rd wr d =
     (case read_frame dc rd of
        (Inl UnexpectedEof, _) \<Rightarrow> Some (Inr (), wr, d)
      | (Inl e, _) \<Rightarrow> Some (Inl e, wr, d)
      | (Inr req, rd') \<Rightarrow>
          (case serve sha256 oe fs version (ins k) req d of
             None \<Rightarrow> None
           | Some (resp, d') \<Rightarrow>
               (case write_frame dc resp wr of
                  (Inl e, wr') \<Rightarrow> Some (Inl e, wr', d')
                | (Inr _, wr') \<Rightarrow> handle_connection sha256 oe fs version dc ins (Suc k) rd' wr' d')))"
  by pat_completeness auto
termination
  by (relation "measure (\<lambda>(_, _, _, _, _, _, _, rd, _, _). length rd)") (auto dest: sym [THEN read_frame_shorter])

declare handle_connection.simps [simp del]

subsection \<open>The token comparison\<close>

lemma or_eq_zero: "or x y = 0 \<longleftrightarrow> x = 0 \<and> y = 0" for x y :: "'a::len word"
  by (rule or_eq_0_iff)

lemma constant_time_loop_zero:
  "constant_time_loop a b js diff = 0 \<longleftrightarrow> diff = 0 \<and> (\<forall>i \<in> set js. get_or_zero a i = get_or_zero b i)"
proof (induction js arbitrary: diff)
  case (Cons i js)
  have "(ucast w :: u64) = 0 \<longleftrightarrow> w = 0" for w :: byte by transfer simp
  then have "(ucast (xor x y) :: u64) = 0 \<longleftrightarrow> x = y" for x y :: byte by (simp add: byte_xor_zero)
  then show ?case by (simp add: Cons or_eq_zero)
qed simp

lemma constant_time_eq_iff:
  assumes "length a < 2 ^ 64" and "length b < 2 ^ 64"
  shows "constant_time_eq a b \<longleftrightarrow> a = b"
proof -
  have len: "(xor (word_of_nat (length a)) (word_of_nat (length b)) :: u64) = 0 \<longleftrightarrow> length a = length b"
  proof -
    have "xor x y = 0 \<longleftrightarrow> x = y" for x y :: u64 by (auto simp: bit_eq_iff bit_simps)
    moreover have "(word_of_nat (length a) :: u64) = word_of_nat (length b) \<longleftrightarrow> length a = length b"
      using assms by (metis unat_u64_of_nat)
    ultimately show ?thesis by simp
  qed
  show ?thesis
  proof (cases "length a = length b")
    case True
    have "(\<forall>i < length b. get_or_zero a i = get_or_zero b i) \<longleftrightarrow> a = b"
      using True by (auto simp: get_or_zero_def list_eq_iff_nth_eq)
    with True len show ?thesis by (auto simp: constant_time_eq_def constant_time_loop_zero)
  qed (use len in \<open>auto simp: constant_time_eq_def constant_time_loop_zero\<close>)
qed

subsection \<open>The start\<close>

text \<open>What demands a token: a release build, the release variable, or the profile.\<close>

definition auth_demanded :: "bool \<Rightarrow> os_env \<Rightarrow> (string \<Rightarrow> string + string) \<Rightarrow> bool" where
  "auth_demanded release_build oe read_file \<longleftrightarrow>
     release_build \<or> (\<exists>c v. oe_var oe AGENTD_RELEASE_ENV = Some (c # v))
     \<or> (\<exists>path m. oe_var oe AGENTD_PROFILE_ENV = Some path \<and> load_and_validate path (read_file path) = Inr m
          \<and> daemon_auth_required (mf_execution m))"

lemma profile_gate:
  assumes "enforce_profile_auth_requirement oe read_file None = Inr u"
  shows "\<not> auth_demanded False oe read_file"
    and "oe_var oe AGENTD_PROFILE_ENV = Some path \<Longrightarrow> \<exists>m. load_and_validate path (read_file path) = Inr m"
  using assms
  by (auto simp: enforce_profile_auth_requirement_def auth_demanded_def Let_def split: if_splits option.splits sum.splits)

subsection \<open>Serving\<close>

fun request_token :: "daemon_request \<Rightarrow> string option" where
  "request_token Ping = None"
| "request_token (Execute _ _ _ _ _ token) = token"
| "request_token (Shutdown token) = token"

lemma unauthorized_response_iff:
  assumes "\<forall>t \<in> set_option token \<union> set_option (request_token req). length t < 2 ^ 64"
  shows "unauthorized_response req token =
    (if req \<noteq> Ping \<and> token \<noteq> None \<and> request_token req \<noteq> token then Some (DaemonError UNAUTHORIZED_MESSAGE) else None)"
proof (cases token)
  case (Some t)
  have ct: "constant_time_eq (str_bytes u) (str_bytes t) \<longleftrightarrow> u = t" if "request_token req = Some u" for u
    using assms that Some by (subst constant_time_eq_iff) (simp_all add: str_bytes_inj)
  show ?thesis by (cases req) (use ct Some in \<open>auto simp: unauthorized_response_def split: option.splits\<close>)
qed (simp add: unauthorized_response_def)

text \<open>A file below an allowed directory: the open handle is a regular file, and the path the system gives for it lies below
  the resolution of a directory of the allow-list.\<close>

definition allowed_module :: "os_env \<Rightarrow> 'h agentd_fs \<Rightarrow> string \<Rightarrow> bytes \<Rightarrow> bool" where
  "allowed_module oe fs path bs \<longleftrightarrow>
     (\<exists>file canonical v dir root. af_open fs path = Some file \<and> af_is_file fs file = Some True \<and> af_read fs file = Some bs
        \<and> af_fd_path fs file = Some canonical \<and> oe_var oe MODULE_DIR_ENV = Some v \<and> dir \<in> set (split_char CHR '':'' v)
        \<and> af_canonicalize fs dir = Some root \<and> af_is_dir fs root \<and> path_starts_with canonical root)"

lemma canonical_dirs_mem:
  "canonical_dirs fs dirs = Inr cs \<Longrightarrow> c \<in> set cs \<Longrightarrow> \<exists>dir \<in> set dirs. af_canonicalize fs dir = Some c \<and> af_is_dir fs c"
  by (induction dirs arbitrary: cs) (auto simp: map_sum_Inr split: option.splits if_splits)

lemma read_allowlisted: "read_allowlisted_wasm_path oe fs path = Inr bs \<Longrightarrow> allowed_module oe fs path bs"
  by (auto simp: read_allowlisted_wasm_path_def open_agentd_wasm_path_def open_agentd_wasm_path_with_dirs_def
      allowed_agentd_module_dirs_def allowed_module_def Let_def list_ex_iff
      split: option.splits sum.splits if_splits dest!: canonical_dirs_mem)

lemma run_on_instance_executed:
  assumes "run_on_instance sha256 ca name entry input bs inst cache = Some (Executed out, inst', cache')"
  shows "\<exists>m hv'. execute_tool_inner (fst inst) ca ((tool_new name bs)\<lparr>entry_point := entry\<rparr>) input [] (Some m) None (snd inst)
    = Some (Inr out, hv')"
  using assms by (auto simp: run_on_instance_def split: prod.splits sum.splits option.splits)

lemma serve_authorized:
  assumes "dm_auth_token d = Some t" and "length t < 2 ^ 64" and "hp_available (dm_pool d) = inst # rest" and "0 < hp_permits (dm_pool d)"
    and "run_on_instance sha256 ca name entry input bs inst (dm_cache d) = Some (resp, inst', cache')"
  shows "serve sha256 oe fs version ca (Execute name (Some bs) path entry input (Some t)) d =
    Some (resp, d\<lparr>dm_pool := (dm_pool d)\<lparr>hp_available := rest @ [inst']\<rparr>, dm_cache := cache'\<rparr>)"
proof -
  have "unauthorized_response (Execute name (Some bs) path entry input (Some t)) (dm_auth_token d) = None"
    using assms(1,2) by (subst unauthorized_response_iff) simp_all
  with assms show ?thesis
    by (simp add: serve_def module_bytes_def acquire_hypervisor_def return_hypervisor_def)
qed

text \<open>A module that the engine of an instance cannot instantiate never runs successfully there.\<close>

lemma foreign_module_fails:
  assumes "hv_inv env g hv" and "g (ce_id (ca_snap ca)) = None" and "wt_ok (he_wt env)"
    and foreign: "\<forall>limit fuel. \<exists>e. wt_instantiate (he_wt env) m limit fuel = Inl e"
    and "execute_tool_inner env ca tool input tokens (Some m) None hv = Some (Inr out, hv')"
  shows "\<not> to_success out"
  using assms(1-3)
proof (cases rule: execution_cases [where tool = tool and input = input and tokens = tokens and pre = "Some m" and rs = None])
  case (concluded bs r pool out2 hv2 g2)
  obtain e where "wt_instantiate (he_wt env) m (max_memory_bytes (nx_sandbox (ready env ca tool hv)))
      (max_fuel (nx_sandbox (ready env ca tool hv))) = Inl e" using foreign by blast
  then have "xr_failure_mode r \<noteq> None" using concluded(7)
    by (auto simp: run_guest_def execute_module_inner_def worker_def Let_def failure_from_mode_def xr_with_post_call_state_def
        xr_with_pre_call_memory_def xr_with_call_stack_def split: recv_outcome.splits option.splits)
  with concluded assms(5) show ?thesis by (auto simp: verdict_def)
qed (use assms(5) in auto)

lemma get_or_compile_again:
  assumes "get_or_compile sha256 wt bs c = (Inr m, c')"
  shows "fst (get_or_compile sha256 wt' bs c') = Inr m"
  using assms by (auto simp: get_or_compile_def cache_lookup_def cache_insert_def hm_get_insert
      split: option.splits sum.splits prod.splits)

lemma run_on_instance_returns:
  assumes "hv_inv env g hv" and "g (ce_id (ca_snap ca)) = None" and "wt_ok (he_wt env)"
    and "get_or_compile sha256 (he_wt env) bs cache = (Inr m, cache')"
  obtains res hv' where "execute_tool_inner env ca ((tool_new name bs)\<lparr>entry_point := entry\<rparr>) input [] (Some m) None hv = Some (res, hv')"
    and "run_on_instance sha256 ca name entry input bs (env, hv) cache =
      Some ((case res of Inr output \<Rightarrow> Executed output | Inl e \<Rightarrow> DaemonError ''{e}''), (env, hv'), cache')"
proof -
  obtain res hv' where "execute_tool_inner env ca ((tool_new name bs)\<lparr>entry_point := entry\<rparr>) input [] (Some m) None hv = Some (res, hv')"
    using execution_returns [OF assms(1-3)] by metis
  with assms(4) show thesis by (intro that) (simp_all add: run_on_instance_def)
qed

text \<open>Where the modules of the cache come from: each was compiled by one of the engines, from bytes with the digest it is filed under.\<close>

definition modules_from :: "(bytes \<Rightarrow> bytes) \<Rightarrow> 'm wasmtime set \<Rightarrow> 'm cache_inner \<Rightarrow> bool" where
  "modules_from sha256 engines c \<longleftrightarrow>
     (\<forall>h m. hm_get (mc_map c) h = Some m \<longrightarrow> (\<exists>wt \<in> engines. \<exists>bs. sha256 bs = h \<and> wt_from_binary wt bs = Inr m))"

lemma evict_removes: "evict n m ks = (m', ks') \<Longrightarrow> hm_get m' h = Some v \<Longrightarrow> hm_get m h = Some v"
  by (induction n m ks rule: evict.induct) (auto simp: hm_get_remove split: if_splits)

lemma modules_from_insert:
  assumes "modules_from sha256 engines c" and "wt \<in> engines" and "wt_from_binary wt bs = Inr m"
  shows "modules_from sha256 engines (cache_insert (sha256 bs) m c)"
proof -
  obtain mp ks where ev: "evict (max_entries c) (mc_map c) (mc_order c) = (mp, ks)" by fastforce
  then have "mc_map (cache_insert (sha256 bs) m c) = hm_insert (sha256 bs) m mp" by (simp add: cache_insert_def)
  then show ?thesis using assms evict_removes [OF ev]
    by (simp add: modules_from_def hm_get_insert) (metis (lifting) option.inject)
qed

lemma get_or_compile_modules:
  assumes prov: "modules_from sha256 engines c" and wt: "wt \<in> engines" and g: "get_or_compile sha256 wt bs c = (r, c')"
  shows "modules_from sha256 engines c'"
    and "r = Inr m \<Longrightarrow> \<exists>wt' \<in> engines. \<exists>bs'. sha256 bs' = sha256 bs \<and> wt_from_binary wt' bs' = Inr m"
proof -
  have "modules_from sha256 engines c' \<and> (r = Inr m \<longrightarrow> (\<exists>wt' \<in> engines. \<exists>bs'. sha256 bs' = sha256 bs \<and> wt_from_binary wt' bs' = Inr m))"
  proof (cases "hm_get (mc_map c) (sha256 bs)")
    case (Some k)
    then have "r = Inr k" "mc_map c' = mc_map c" using g by (auto simp: get_or_compile_def cache_lookup_def)
    with Some prov show ?thesis by (auto simp: modules_from_def)
  next
    case None
    have miss: "modules_from sha256 engines (c\<lparr>misses := misses c + 1\<rparr>)" using prov by (simp add: modules_from_def)
    show ?thesis
    proof (cases "wt_from_binary wt bs")
      case (Inl e)
      with None g miss show ?thesis by (auto simp: get_or_compile_def cache_lookup_def)
    next
      case (Inr k)
      then have "r = Inr k" "c' = cache_insert (sha256 bs) k (c\<lparr>misses := misses c + 1\<rparr>)"
        using None g by (auto simp: get_or_compile_def cache_lookup_def)
      with modules_from_insert [OF miss wt Inr] wt Inr show ?thesis by auto
    qed
  qed
  then show "modules_from sha256 engines c'"
    and "r = Inr m \<Longrightarrow> \<exists>wt' \<in> engines. \<exists>bs'. sha256 bs' = sha256 bs \<and> wt_from_binary wt' bs' = Inr m"
    by blast+
qed

lemma modules_from_new: "modules_from sha256 engines (cache_with_capacity n)"
  by (simp add: modules_from_def cache_with_capacity_def)

text \<open>The requests of a connection served in order.\<close>

fun serve_all ::
  "(bytes \<Rightarrow> bytes) \<Rightarrow> os_env \<Rightarrow> 'h agentd_fs \<Rightarrow> string \<Rightarrow> (nat \<Rightarrow> call_inputs) \<Rightarrow> nat \<Rightarrow> daemon_request list \<Rightarrow> 'm daemon
   \<Rightarrow> (daemon_response list \<times> 'm daemon) option" where
  "serve_all sha256 oe fs version ins k [] d = Some ([], d)"
| "serve_all sha256 oe fs version ins k (req # reqs) d =
     (case serve sha256 oe fs version (ins k) req d of
        None \<Rightarrow> None
      | Some (resp, d') \<Rightarrow> map_option (\<lambda>(resps, d''). (resp # resps, d'')) (serve_all sha256 oe fs version ins (Suc k) reqs d'))"

definition frame_of :: "bytes \<Rightarrow> bytes" where
  "frame_of body = u32_be (word_of_nat (length body)) @ body"

lemma read_frame_of:
  assumes "dc_request dc body = Some req" and "length body \<le> DEFAULT_MAX_PAYLOAD"
  shows "read_frame dc (frame_of body @ rest) = (Inr req, rest)"
proof -
  have "read_raw_frame_with_limit DEFAULT_MAX_PAYLOAD (frame_of body @ rest) = (Inr body, rest)"
    unfolding frame_of_def append_assoc by (rule raw_frame_roundtrip) (use assms(2) in \<open>simp_all add: DEFAULT_MAX_PAYLOAD_def\<close>)
  with assms(1) show ?thesis by (simp add: read_frame_def)
qed

lemma read_frame_end: "read_frame dc [] = (Inl UnexpectedEof, [])"
  by (simp add: read_frame_def read_raw_frame_with_limit_def read_exact_def)

subsection \<open>Properties\<close>

text \<open>
  Fail-closed start. A daemon that starts has the token of the environment, and it has one whenever it was built for
  release, the release variable is set, or a profile that loads requires authentication; its pool holds as many instances as permits, each
  built without an error.
\<close>

lemma daemon_starts_closed:
  assumes "agentd_main release_build oe read_file num_cpus build cli = Inr d"
  shows "(auth_demanded release_build oe read_file \<longrightarrow> dm_auth_token d \<noteq> None)
    \<and> dm_auth_token d = oe_var oe AUTH_TOKEN_ENV \<and> \<not> dm_shutdown d
    \<and> hp_permits (dm_pool d) = length (hp_available (dm_pool d))
    \<and> (\<forall>k < length (hp_available (dm_pool d)). build k (agentd_config cli) = Inr (hp_available (dm_pool d) ! k))"
proof -
  let ?n = "case cli_pool cli of Some n \<Rightarrow> n | None \<Rightarrow> num_cpus"
  obtain pool token u v where pool: "hypervisor_pool_new (\<lambda>i. build i (agentd_config cli)) ?n = Inr pool"
    and token: "configured_auth_token oe = Inr token" and rel: "enforce_release_auth_requirement release_build token = Inr u"
    and prof: "enforce_profile_auth_requirement oe read_file token = Inr v"
    and d: "d = \<lparr>dm_pool = pool, dm_cache = cache_with_capacity 256, dm_auth_token = token, dm_shutdown = False\<rparr>"
    using assms by (auto simp: agentd_main_def Let_def split: sum.splits)
  obtain hs where hs: "build_instances (\<lambda>i. build i (agentd_config cli)) 0 ?n [] = Inr hs"
    "pool = \<lparr>hp_available = hs, hp_permits = ?n, hp_size = ?n\<rparr>"
    using pool by (auto simp: hypervisor_pool_new_def map_sum_Inr)
  have len: "length hs = ?n" "\<forall>k < ?n. build k (agentd_config cli) = Inr (hs ! k)" using hs(1) by (auto simp: build_instances_ok)
  have "token = oe_var oe AUTH_TOKEN_ENV" using token by (auto simp: configured_auth_token_def split: option.splits if_splits)
  moreover have "token \<noteq> None" if "auth_demanded release_build oe read_file"
  proof
    assume n: "token = None"
    then have "\<not> release_build" using rel
      by (auto simp: enforce_release_auth_requirement_def release_auth_requirement_violated_def split: if_splits)
    with that profile_gate(1) [OF prof [unfolded n]] show False by (simp add: auth_demanded_def)
  qed
  ultimately show ?thesis using len by (simp add: d hs(2))
qed

text \<open>
  C25: Admission. With a configured token a request other than a ping with another token or none is refused and nothing changes. When a request
  is answered with an output, its module is either the submitted bytes, under a configured and presented token, or the contents of a regular file
  whose resolved path lies below an allowed directory. The output is that of an execution, on the
  instance at the front of the pool, of the module the cache gives for exactly these bytes: one that an engine of the pool compiled from
  bytes with the SHA-256 of the admitted ones. The instance then goes to the end of the pool, with the permits as before. The cache keeps
  holding only modules that engines of the pool compiled from bytes with the digest they are filed under, as the
  empty cache of a new daemon does. Only a shutdown request that passes the token check sets the shutdown flag.
\<close>

theorem daemon_admission:
  assumes s: "serve sha256 oe fs version ca req d = Some (resp, d')"
    and len: "\<forall>t \<in> set_option (dm_auth_token d) \<union> set_option (request_token req). length t < 2 ^ 64"
    and engines: "(\<lambda>inst. he_wt (fst inst)) ` set (hp_available (dm_pool d)) \<subseteq> engines"
    and cache: "modules_from sha256 engines (dm_cache d)"
  shows "(req \<noteq> Ping \<and> dm_auth_token d \<noteq> None \<and> request_token req \<noteq> dm_auth_token d \<longrightarrow>
       resp = DaemonError UNAUTHORIZED_MESSAGE \<and> d' = d)
    \<and> (\<forall>out. resp = Executed out \<longrightarrow> (\<exists>name raw path entry input token bs env hv rest m hv'.
         req = Execute name raw path entry input token
         \<and> (raw = Some bs \<and> dm_auth_token d \<noteq> None \<and> token = dm_auth_token d
            \<or> raw = None \<and> (\<exists>p. path = Some p \<and> allowed_module oe fs p bs))
         \<and> hp_available (dm_pool d) = (env, hv) # rest
         \<and> get_or_compile sha256 (he_wt env) bs (dm_cache d) = (Inr m, dm_cache d')
         \<and> (\<exists>wt \<in> engines. \<exists>bs'. sha256 bs' = sha256 bs \<and> wt_from_binary wt bs' = Inr m)
         \<and> execute_tool_inner env ca ((tool_new name bs)\<lparr>entry_point := entry\<rparr>) input [] (Some m) None hv = Some (Inr out, hv')
         \<and> hp_available (dm_pool d') = rest @ [(env, hv')] \<and> hp_permits (dm_pool d') = hp_permits (dm_pool d)))
    \<and> modules_from sha256 engines (dm_cache d') \<and> modules_from sha256 engines (cache_with_capacity 256)
    \<and> (dm_shutdown d' \<noteq> dm_shutdown d \<longrightarrow> (\<exists>token. req = Shutdown token \<and> dm_auth_token d \<in> {None, token}))"
proof (cases "req \<noteq> Ping \<and> dm_auth_token d \<noteq> None \<and> request_token req \<noteq> dm_auth_token d")
  case True
  then have "resp = DaemonError UNAUTHORIZED_MESSAGE" "d' = d" using s unauthorized_response_iff [OF len] by (simp_all add: serve_def)
  with True cache show ?thesis by (simp add: modules_from_new)
next
  case False
  then have un: "unauthorized_response req (dm_auth_token d) = None" using unauthorized_response_iff [OF len] by simp
  show ?thesis
  proof (cases req)
    case (Execute name raw path entry input token)
    show ?thesis
    proof (cases "module_bytes oe fs (dm_auth_token d) raw path")
      case (Inl e)
      then show ?thesis using s Execute un False cache by (auto simp: serve_def modules_from_new)
    next
      case (Inr bs)
      obtain inst pool inst' cache' where acq: "acquire_hypervisor (dm_pool d) = Some (inst, pool)"
        and run: "run_on_instance sha256 ca name entry input bs inst (dm_cache d) = Some (resp, inst', cache')"
        and d': "d' = d\<lparr>dm_pool := return_hypervisor inst' pool, dm_cache := cache'\<rparr>"
        using s Execute un Inr by (auto simp: serve_def split: option.splits)
      have src: "raw = Some bs \<and> dm_auth_token d \<noteq> None \<and> token = dm_auth_token d
          \<or> raw = None \<and> (\<exists>p. path = Some p \<and> allowed_module oe fs p bs)"
        using Inr False Execute by (auto simp: module_bytes_def split: option.splits if_splits dest: read_allowlisted)
      obtain env hv where inst: "inst = (env, hv)" by fastforce
      obtain rest where av: "hp_available (dm_pool d) = (env, hv) # rest" "0 < hp_permits (dm_pool d)"
        "pool = (dm_pool d)\<lparr>hp_available := rest, hp_permits := hp_permits (dm_pool d) - 1\<rparr>"
        using acq inst by (auto simp: acquire_hypervisor_def split: if_splits list.splits)
      have wt: "he_wt env \<in> engines" using engines av(1) by auto
      obtain r where g: "get_or_compile sha256 (he_wt env) bs (dm_cache d) = (r, cache')"
        using run by (auto simp: run_on_instance_def inst split: prod.splits sum.splits option.splits)
      note mods = get_or_compile_modules [OF cache wt g]
      have "\<exists>m hv'. r = Inr m \<and> execute_tool_inner env ca ((tool_new name bs)\<lparr>entry_point := entry\<rparr>) input [] (Some m) None hv = Some (Inr out, hv')
          \<and> inst' = (env, hv')" if "resp = Executed out" for out
        using run that g by (auto simp: run_on_instance_def inst split: prod.splits sum.splits option.splits)
      then have ex: "\<exists>m hv'. get_or_compile sha256 (he_wt env) bs (dm_cache d) = (Inr m, cache')
          \<and> (\<exists>wt \<in> engines. \<exists>bs'. sha256 bs' = sha256 bs \<and> wt_from_binary wt bs' = Inr m)
          \<and> execute_tool_inner env ca ((tool_new name bs)\<lparr>entry_point := entry\<rparr>) input [] (Some m) None hv = Some (Inr out, hv')
          \<and> inst' = (env, hv')" if "resp = Executed out" for out
        using that g mods(2) by metis
      have p': "hp_available (dm_pool d') = rest @ [inst']" "hp_permits (dm_pool d') = hp_permits (dm_pool d)" "dm_cache d' = cache'"
        "dm_shutdown d' = dm_shutdown d" using av by (simp_all add: d' return_hypervisor_def)
      show ?thesis
      proof (intro conjI allI impI)
        fix out assume "resp = Executed out"
        from ex [OF this] src av(1) p' Execute show "\<exists>name raw path entry input token bs env hv rest m hv'.
           req = Execute name raw path entry input token
           \<and> (raw = Some bs \<and> dm_auth_token d \<noteq> None \<and> token = dm_auth_token d
              \<or> raw = None \<and> (\<exists>p. path = Some p \<and> allowed_module oe fs p bs))
           \<and> hp_available (dm_pool d) = (env, hv) # rest
           \<and> get_or_compile sha256 (he_wt env) bs (dm_cache d) = (Inr m, dm_cache d')
           \<and> (\<exists>wt \<in> engines. \<exists>bs'. sha256 bs' = sha256 bs \<and> wt_from_binary wt bs' = Inr m)
           \<and> execute_tool_inner env ca ((tool_new name bs)\<lparr>entry_point := entry\<rparr>) input [] (Some m) None hv = Some (Inr out, hv')
           \<and> hp_available (dm_pool d') = rest @ [(env, hv')] \<and> hp_permits (dm_pool d') = hp_permits (dm_pool d)"
          by (metis (no_types, lifting))
      qed (use False mods(1) p' in \<open>simp_all add: modules_from_new\<close>)
    qed
  qed (use s un False cache in \<open>auto simp: serve_def modules_from_new\<close>)
qed

definition demo_os :: os_env where
  "demo_os = \<lparr>oe_var = map_of [(''NEXUS_AGENTD_AUTH_TOKEN'', ''key'')], oe_unicode = (\<lambda>_. True)\<rparr>"

definition demo_agentd_fs :: "unit agentd_fs" where
  "demo_agentd_fs = \<lparr>af_canonicalize = Some, af_is_dir = (\<lambda>_. True), af_open = (\<lambda>_. None), af_is_file = (\<lambda>_. None),
     af_fd_path = (\<lambda>_. None), af_read = (\<lambda>_. None)\<rparr>"

definition demo_daemon :: "(unit hv_env \<times> unit hypervisor) list \<Rightarrow> unit daemon" where
  "demo_daemon insts =
     \<lparr>dm_pool = \<lparr>hp_available = insts, hp_permits = length insts, hp_size = length insts\<rparr>, dm_cache = cache_with_capacity 256,
      dm_auth_token = Some ''key'', dm_shutdown = False\<rparr>"

text \<open>A request with a wrong token is refused; one with the token runs the submitted module.\<close>

theorem daemon_admission_witness:
  "serve demo_sha demo_os demo_agentd_fs ''0.1'' (small_call 1 1) (Shutdown (Some ''guess'')) (demo_daemon [(small_env, small_hv)])
     = Some (DaemonError UNAUTHORIZED_MESSAGE, demo_daemon [(small_env, small_hv)])
   \<and> (\<exists>out d'. serve demo_sha demo_os demo_agentd_fs ''0.1'' (small_call 1 1) (Execute ''t'' (Some [0]) None ''_start'' (Some []) (Some ''key''))
          (demo_daemon [(small_env, small_hv)]) = Some (Executed out, d')
        \<and> get_or_compile demo_sha small_wt [0] (cache_with_capacity 256) = (Inr (), dm_cache d')
        \<and> modules_from demo_sha {small_wt} (dm_cache d'))"
proof -
  let ?d = "demo_daemon [(small_env, small_hv)]" and ?ca = "small_call 1 1"
  let ?req = "Execute ''t'' (Some [0]) None ''_start'' (Some []) (Some ''key'')"
  have av: "hp_available (dm_pool ?d) = [(small_env, small_hv)]" "0 < hp_permits (dm_pool ?d)" "dm_auth_token ?d = Some ''key''"
    "dm_cache ?d = cache_with_capacity 256" by (simp_all add: demo_daemon_def)
  have prov: "modules_from demo_sha {small_wt} (dm_cache ?d)" by (simp add: av modules_from_new)
  have eng: "(\<lambda>inst. he_wt (fst inst)) ` set (hp_available (dm_pool ?d)) \<subseteq> {small_wt}" by (simp add: av small_sel)
  have "\<not> constant_time_eq (str_bytes ''guess'') (str_bytes ''key'')" by code_simp
  then have s: "serve demo_sha demo_os demo_agentd_fs ''0.1'' ?ca (Shutdown (Some ''guess'')) ?d = Some (DaemonError UNAUTHORIZED_MESSAGE, ?d)"
    by (simp add: serve_def unauthorized_response_def demo_daemon_def)
  obtain c where g: "get_or_compile demo_sha (he_wt small_env) [0] (dm_cache ?d) = (Inr (), c)"
    by (simp add: av get_or_compile_def cache_lookup_def cache_with_capacity_def small_sel)
  have tool: "(tool_new ''t'' [0])\<lparr>entry_point := ''_start''\<rparr> = small_tool" by (simp add: small_tool_def tool_new_def)
  obtain out hv' where ex: "execute_tool_inner small_env ?ca small_tool (Some []) [] (Some ()) None small_hv = Some (Inr out, hv')"
    by (rule small_outputs [OF small_hv_inv small_hv_fields(3) small_hv_full])
  have run: "run_on_instance demo_sha ?ca ''t'' ''_start'' (Some []) [0] (small_env, small_hv) (dm_cache ?d)
      = Some (Executed out, (small_env, hv'), c)"
    using ex by (simp add: run_on_instance_def g tool)
  obtain d' where x: "serve demo_sha demo_os demo_agentd_fs ''0.1'' ?ca ?req ?d = Some (Executed out, d')"
    by (rule that, rule serve_authorized [OF av(3) _ av(1,2) run]) simp
  have "modules_from demo_sha {small_wt} (dm_cache d')" "get_or_compile demo_sha small_wt [0] (dm_cache ?d) = (Inr (), dm_cache d')"
    using daemon_admission [OF x _ eng prov] by (auto simp: av small_sel)
  with x daemon_admission [OF s _ eng prov] s show ?thesis by (simp add: av)
qed

text \<open>
  The module cache is shared by instances with different engines. A module can only be instantiated by the engine that compiled it. When a request is repeated
  and the second of two instances takes it, it is served the module the first one compiled, and the run never
  succeeds, whatever the engine of the second instance could do with the same bytes.
\<close>

lemma cached_module_foreign_engine:
  assumes av: "hp_available (dm_pool d) = [(e1, h1), (e2, h2)]" "0 < hp_permits (dm_pool d)"
    and auth: "dm_auth_token d = Some t" "length t < 2 ^ 64"
    and inv1: "hv_inv e1 g1 h1" "g1 (ce_id (ca_snap ca1)) = None" "wt_ok (he_wt e1)"
    and inv2: "hv_inv e2 g2 h2" "g2 (ce_id (ca_snap ca2)) = None" "wt_ok (he_wt e2)"
    and compiled: "get_or_compile sha256 (he_wt e1) bs (dm_cache d) = (Inr m, c)"
    and foreign: "\<forall>limit fuel. \<exists>e. wt_instantiate (he_wt e2) m limit fuel = Inl e"
  shows "\<exists>r1 d1 r2 d2. serve sha256 oe fs version ca1 (Execute name (Some bs) path entry input (Some t)) d = Some (r1, d1)
    \<and> serve sha256 oe fs version ca2 (Execute name (Some bs) path entry input (Some t)) d1 = Some (r2, d2)
    \<and> (\<forall>out. r2 = Executed out \<longrightarrow> \<not> to_success out)"
proof -
  let ?req = "Execute name (Some bs) path entry input (Some t)"
  obtain res1 h1' where "execute_tool_inner e1 ca1 ((tool_new name bs)\<lparr>entry_point := entry\<rparr>) input [] (Some m) None h1 = Some (res1, h1')"
    and r1: "run_on_instance sha256 ca1 name entry input bs (e1, h1) (dm_cache d) =
      Some ((case res1 of Inr output \<Rightarrow> Executed output | Inl e \<Rightarrow> DaemonError ''{e}''), (e1, h1'), c)"
    by (rule run_on_instance_returns [OF inv1 compiled])
  note s1 = serve_authorized [OF auth av r1, of oe fs version path]
  obtain c2 where hit: "get_or_compile sha256 (he_wt e2) bs c = (Inr m, c2)"
    using get_or_compile_again [OF compiled, of "he_wt e2"] by (metis prod.collapse)
  obtain res2 h2' where x2: "execute_tool_inner e2 ca2 ((tool_new name bs)\<lparr>entry_point := entry\<rparr>) input [] (Some m) None h2 = Some (res2, h2')"
    and r2: "run_on_instance sha256 ca2 name entry input bs (e2, h2) c =
      Some ((case res2 of Inr output \<Rightarrow> Executed output | Inl e \<Rightarrow> DaemonError ''{e}''), (e2, h2'), c2)"
    by (rule run_on_instance_returns [OF inv2 hit])
  have s2: "\<exists>d2. serve sha256 oe fs version ca2 ?req
      (d\<lparr>dm_pool := (dm_pool d)\<lparr>hp_available := [(e2, h2)] @ [(e1, h1')]\<rparr>, dm_cache := c\<rparr>)
      = Some ((case res2 of Inr output \<Rightarrow> Executed output | Inl e \<Rightarrow> DaemonError ''{e}''), d2)"
    by (rule exI, rule serve_authorized) (use auth av r2 in simp_all)
  have "\<not> to_success out" if "res2 = Inr out" for out
    using foreign_module_fails [OF inv2 foreign] x2 that by blast
  then have "\<forall>out. (case res2 of Inr output \<Rightarrow> Executed output | Inl e \<Rightarrow> DaemonError ''{e}'') = Executed out \<longrightarrow> \<not> to_success out"
    by (auto split: sum.splits)
  then show ?thesis using s1 s2 by blast
qed

text \<open>Engines told apart by a number: a module is the number of the engine that compiled it.\<close>

definition engine_wt :: "nat \<Rightarrow> nat wasmtime" where
  "engine_wt k = \<lparr>wt_from_binary = (\<lambda>_. Inr k), wt_set_fuel = wt_set_fuel small_wt,
     wt_instantiate = (\<lambda>m limit fuel. if m = k then wt_instantiate small_wt () limit fuel
                        else Inl ''cross-Engine instantiation is not currently supported''),
     wt_grow = wt_grow small_wt, wt_gset = wt_gset small_wt, wt_call = (\<lambda>sched _. wt_call small_wt sched ())\<rparr>"

definition engine_env :: "nat \<Rightarrow> nat hv_env" where
  "engine_env k = \<lparr>he_wt = engine_wt k, he_snap = demo_snap_env, he_sha256 = (\<lambda>_. []), he_caps = demo_env,
     he_json = he_json small_env, he_min_interval = 0\<rparr>"

definition engine_hv :: "nat hypervisor" where
  "engine_hv = projr (hypervisor_new (he_json small_env) None [] [] [] True True default_hypervisor_config)"

lemma engine_ok: "wt_ok (he_wt (engine_env k))" "hv_inv (engine_env k) Map.empty engine_hv"
proof -
  show "wt_ok (he_wt (engine_env k))"
    using small_wt_ok by (auto simp: wt_ok_def engine_env_def engine_wt_def small_env_def split: if_splits)
  have "nx_capabilities engine_hv = nx_capabilities small_hv" "nx_snapshots engine_hv = nx_snapshots small_hv" "nx_pool engine_hv = None"
    by (simp_all add: engine_hv_def small_hv_def hypervisor_new_def default_hypervisor_config_def recovery_from_config_def)
  then show "hv_inv (engine_env k) Map.empty engine_hv"
    using small_hv_inv by (simp add: hv_inv_def engine_env_def small_env_def small_hv_fields)
qed

definition engine_daemon :: "nat daemon" where
  "engine_daemon =
     \<lparr>dm_pool = \<lparr>hp_available = [(engine_env 0, engine_hv), (engine_env 1, engine_hv)], hp_permits = 2, hp_size = 2\<rparr>,
      dm_cache = cache_with_capacity 256, dm_auth_token = Some ''key'', dm_shutdown = False\<rparr>"

text \<open>
  A connection answers in order. Given the frames of a list of requests and then the end of the stream, the connection loop serves each
  request on the state the previous one left, writes exactly the frame of each response in order, and ends without an error; and it
  does not return only if a request is never answered.
\<close>

lemma connection_answers_in_order:
  assumes enc: "\<forall>req \<in> set reqs. dc_request dc (encode_request req) = Some req \<and> length (encode_request req) \<le> DEFAULT_MAX_PAYLOAD"
    and resp: "\<forall>resp. dc_response dc resp = Some (encode_response resp) \<and> length (encode_response resp) < 2 ^ 32"
  shows "handle_connection sha256 oe fs version dc ins k (concat (map (\<lambda>r. frame_of (encode_request r)) reqs)) wr d =
    map_option (\<lambda>(resps, d'). (Inr (), wr @ concat (map (\<lambda>r. frame_of (encode_response r)) resps), d'))
      (serve_all sha256 oe fs version ins k reqs d)"
  using enc
proof (induction reqs arbitrary: k wr d)
  case Nil
  then show ?case by (subst handle_connection.simps) (simp add: read_frame_end)
next
  case (Cons req reqs)
  have rd: "read_frame dc (concat (map (\<lambda>r. frame_of (encode_request r)) (req # reqs)))
      = (Inr req, concat (map (\<lambda>r. frame_of (encode_request r)) reqs))"
    using Cons.prems by (simp add: read_frame_of)
  have wf: "write_frame dc r wr = (Inr (), wr @ frame_of (encode_response r))" for r
    using resp by (simp add: write_frame_def write_raw_frame_def frame_of_def not_le)
  show ?case
  proof (cases "serve sha256 oe fs version (ins k) req d")
    case None
    then show ?thesis by (subst handle_connection.simps) (simp add: rd del: concat.simps list.map)
  next
    case (Some x)
    obtain r d' where x: "x = (r, d')" by fastforce
    have "handle_connection sha256 oe fs version dc ins k (concat (map (\<lambda>r. frame_of (encode_request r)) (req # reqs))) wr d
      = handle_connection sha256 oe fs version dc ins (Suc k) (concat (map (\<lambda>r. frame_of (encode_request r)) reqs))
          (wr @ frame_of (encode_response r)) d'"
      by (subst handle_connection.simps) (simp add: rd Some x wf del: concat.simps list.map)
    also have "\<dots> = map_option (\<lambda>(resps, d'). (Inr (), (wr @ frame_of (encode_response r)) @ concat (map (\<lambda>r. frame_of (encode_response r)) resps), d'))
        (serve_all sha256 oe fs version ins (Suc k) reqs d')"
      using Cons.prems by (intro Cons.IH) simp
    finally show ?thesis by (simp add: Some x option.map_comp comp_def case_prod_unfold)
  qed
qed

definition ping_codec :: daemon_codec where
  "ping_codec = \<lparr>dc_request = (\<lambda>b. if b = [1] then Some Ping else None), dc_response = (\<lambda>r. Some (if r = Pong ''0.1'' then [2] else [3]))\<rparr>"

end
