(* ===== verification/Mcp_Http.thy ===== *)
theory Mcp_Http
  imports Daemon Rate_Window Url_Guard
begin

text \<open>
  The HTTP transport of the MCP server (\<open>src/src/bin/nexus_mcp.rs\<close>, features \<open>mcp-http\<close> and
  \<open>tenant-registry-postgres\<close>): bearer tokens, the tenant configuration, the rate limits per
  tenant, the registry with its staleness rule and the gates of the start.

  An \<open>Instant\<close> is a number of nanoseconds and \<open>duration_since\<close> saturates at zero. SHA-256, the JSON reader, the file system and the
  database are parameters. Strings hold bytes of UTF-8; slicing one inside a character panics, which is the value \<open>None\<close>.
\<close>

subsection \<open>Tokens\<close>

type_synonym instant = nat

definition normalize_http_token :: "string \<Rightarrow> string option" where
  "normalize_http_token raw = (let token = trim raw in if token = [] then None else Some token)"

text \<open>\<open>str::split_once\<close> at a character.\<close>

definition split_once :: "char \<Rightarrow> string \<Rightarrow> (string \<times> string) option" where
  "split_once c s = (let a = takeWhile (\<lambda>x. x \<noteq> c) s in if length a = length s then None else Some (a, drop (Suc (length a)) s))"

definition parse_bearer_token :: "string \<Rightarrow> string option" where
  "parse_bearer_token raw =
     (case split_once CHR '' '' raw of
        None \<Rightarrow> None
      | Some (scheme, v) \<Rightarrow> if to_ascii_lowercase scheme \<noteq> ''bearer'' then None else normalize_http_token v)"

text \<open>A UTF-8 continuation byte, where a string may not be cut.\<close>

definition continuation :: "char \<Rightarrow> bool" where
  "continuation c = (let n = (of_char c :: nat) in 128 \<le> n \<and> n < 192)"

text \<open>\<open>u8::from_str_radix(s, 16)\<close> on two characters: a leading plus sign is accepted.\<close>

definition u8_from_hex_pair :: "char \<Rightarrow> char \<Rightarrow> byte option" where
  "u8_from_hex_pair a b =
     (case (hex_val a, hex_val b) of
        (Inr x, Inr y) \<Rightarrow> Some (16 * x + y)
      | (_, Inr y) \<Rightarrow> if a = CHR ''+'' then Some y else None
      | _ \<Rightarrow> None)"

fun parse_hex_loop :: "string \<Rightarrow> bytes \<Rightarrow> (string + bytes) option" where
  "parse_hex_loop (a # b # rest) acc =
     (if continuation a \<or> rest \<noteq> [] \<and> continuation (hd rest) then None
      else case u8_from_hex_pair a b of
             None \<Rightarrow> Some (Inl ''tenant api key hash must be hex'')
           | Some v \<Rightarrow> parse_hex_loop rest (acc @ [v]))"
| "parse_hex_loop _ acc = Some (Inr acc)"

definition parse_hex_sha256 :: "string \<Rightarrow> (string + bytes) option" where
  "parse_hex_sha256 raw = (if length raw \<noteq> 64 then Some (Inl ''invalid SHA-256 hex length'') else parse_hex_loop raw [])"

definition sha256_hex_bytes :: "(bytes \<Rightarrow> bytes) \<Rightarrow> string \<Rightarrow> string" where
  "sha256_hex_bytes sha256 raw = to_hex (sha256 (str_bytes raw))"

subsection \<open>Tenants\<close>

record tenant_info =
  ti_tenant_id :: string
  ti_rate_limit_rpm :: u64

record tenant_config_file_entry =
  te_tenant_id :: string
  te_api_key_sha256 :: string
  te_rate_limit_rpm :: "u64 option"

type_synonym tenant_snapshot = "(string, tenant_info) hashmap"

definition DEFAULT_TENANT_RATE_LIMIT_RPM :: u64 where
  "DEFAULT_TENANT_RATE_LIMIT_RPM = 60"

definition TENANT_ID_FALLBACK :: string where
  "TENANT_ID_FALLBACK = ''default''"

fun tenant_loop ::
  "tenant_config_file_entry list \<Rightarrow> string list \<Rightarrow> string list \<Rightarrow> tenant_snapshot \<Rightarrow> (string + tenant_snapshot) option" where
  "tenant_loop [] ids hashes configs = Some (Inr configs)"
| "tenant_loop (t # ts) ids hashes configs =
     (let tenant_id = trim (te_tenant_id t)
      in if tenant_id = [] then Some (Inl ''tenant_id must not be empty'')
         else if tenant_id \<in> set ids then Some (Inl ''duplicate tenant_id'')
         else case parse_hex_sha256 (trim (te_api_key_sha256 t)) of
           None \<Rightarrow> None
         | Some (Inl e) \<Rightarrow> Some (Inl e)
         | Some (Inr raw) \<Rightarrow>
             (let api_key_sha256 = to_hex raw;
                  limit = (case te_rate_limit_rpm t of Some l \<Rightarrow> l | None \<Rightarrow> DEFAULT_TENANT_RATE_LIMIT_RPM)
              in if api_key_sha256 \<in> set hashes then Some (Inl ''duplicate tenant api_key_sha256'')
                 else if limit = 0 then Some (Inl ''rate_limit_rpm for tenant must be greater than 0'')
                 else tenant_loop ts (tenant_id # ids) (api_key_sha256 # hashes)
                        (hm_insert api_key_sha256 \<lparr>ti_tenant_id = tenant_id, ti_rate_limit_rpm = limit\<rparr> configs)))"

text \<open>The entries of the file, after reading and JSON decoding.\<close>

definition parse_tenant_config_file :: "string + tenant_config_file_entry list \<Rightarrow> (string + tenant_snapshot) option" where
  "parse_tenant_config_file contents =
     (case contents of
        Inl e \<Rightarrow> Some (Inl e)
      | Inr tenants \<Rightarrow>
          (if tenants = [] then Some (Inl ''tenant configuration must contain at least one tenant'')
           else tenant_loop tenants [] [] []))"

definition env_str :: "os_env \<Rightarrow> string \<Rightarrow> string \<Rightarrow> string + string option" where
  "env_str oe name e =
     (case oe_var oe name of None \<Rightarrow> Inr None | Some v \<Rightarrow> if oe_unicode oe v then Inr (Some v) else Inl e)"

definition parse_mcp_http_token :: "os_env \<Rightarrow> string + string option" where
  "parse_mcp_http_token oe =
     map_sum id (\<lambda>v. Option.bind v normalize_http_token)
       (env_str oe ''NEXUS_MCP_HTTP_TOKEN'' ''{NEXUS_MCP_HTTP_TOKEN_ENV} must be valid UTF-8'')"

definition parse_mcp_http_tenants_path :: "os_env \<Rightarrow> string + string option" where
  "parse_mcp_http_tenants_path oe =
     map_sum id (\<lambda>v. Option.bind v (\<lambda>p. if trim p = [] then None else Some (trim p)))
       (env_str oe ''NEXUS_MCP_HTTP_TENANTS'' ''{NEXUS_MCP_HTTP_TENANTS_ENV} must be valid UTF-8 path'')"

definition parse_tenant_auth_state_from_file ::
  "(bytes \<Rightarrow> bytes) \<Rightarrow> os_env \<Rightarrow> (string \<Rightarrow> string + tenant_config_file_entry list) \<Rightarrow> (string + tenant_snapshot option) option" where
  "parse_tenant_auth_state_from_file sha256 oe read_tenants =
     (case parse_mcp_http_tenants_path oe of
        Inl e \<Rightarrow> Some (Inl e)
      | Inr (Some path) \<Rightarrow> map_option (map_sum id Some) (parse_tenant_config_file (read_tenants path))
      | Inr None \<Rightarrow>
          Some (map_sum id (map_option (\<lambda>token. [(sha256_hex_bytes sha256 token,
                  \<lparr>ti_tenant_id = TENANT_ID_FALLBACK, ti_rate_limit_rpm = DEFAULT_TENANT_RATE_LIMIT_RPM\<rparr>)]))
                 (parse_mcp_http_token oe)))"

fun is_loopback_ip :: "ip_addr \<Rightarrow> bool" where
  "is_loopback_ip (V4 ip) = v4_is_loopback ip"
| "is_loopback_ip (V6 s) = (s = [0, 0, 0, 0, 0, 0, 0, 1])"

text \<open>What the HTTP transport serves with: without tenants only on a loopback address.\<close>

definition http_auth_gate :: "ip_addr \<Rightarrow> 'a option \<Rightarrow> string + 'a option" where
  "http_auth_gate addr tenant_auth =
     (if tenant_auth = None \<and> \<not> is_loopback_ip addr
      then Inl ''tenant auth source is required for non-loopback HTTP bind'' else Inr tenant_auth)"

subsection \<open>Rate limits\<close>

record tenant_rate_window =
  rw_window_start :: instant
  rw_request_count :: u64

type_synonym rate_limits = "(string, tenant_rate_window) hashmap"

definition rate_limit_blocked :: "string \<Rightarrow> u64 \<Rightarrow> instant \<Rightarrow> rate_limits \<Rightarrow> bool \<times> rate_limits" where
  "rate_limit_blocked tenant_id limit_rpm now limits =
     (let w = (case hm_get limits tenant_id of Some w \<Rightarrow> w | None \<Rightarrow> \<lparr>rw_window_start = now, rw_request_count = 0\<rparr>);
          w = (if 60 * 1000000000 \<le> now - rw_window_start w then w\<lparr>rw_window_start := now, rw_request_count := 0\<rparr> else w)
      in if limit_rpm \<le> rw_request_count w then (True, hm_insert tenant_id w limits)
         else (False, hm_insert tenant_id (w\<lparr>rw_request_count := rw_request_count w + 1\<rparr>) limits))"

subsection \<open>The middleware\<close>

datatype http_reply =
    Unauthorized
  | TooManyRequests
  | Forwarded "string option"

definition require_bearer_token ::
  "(bytes \<Rightarrow> bytes) \<Rightarrow> tenant_snapshot option \<Rightarrow> string option \<Rightarrow> instant \<Rightarrow> rate_limits \<Rightarrow> http_reply \<times> rate_limits" where
  "require_bearer_token sha256 tenant_auth authorization now limits =
     (case tenant_auth of
        None \<Rightarrow> (Forwarded None, limits)
      | Some snapshot \<Rightarrow>
          (case Option.bind authorization parse_bearer_token of
             None \<Rightarrow> (Unauthorized, limits)
           | Some presented_key \<Rightarrow>
               (case hm_get snapshot (sha256_hex_bytes sha256 presented_key) of
                  None \<Rightarrow> (Unauthorized, limits)
                | Some tenant \<Rightarrow>
                    (case rate_limit_blocked (ti_tenant_id tenant) (ti_rate_limit_rpm tenant) now limits of
                       (True, limits') \<Rightarrow> (TooManyRequests, limits')
                     | (False, limits') \<Rightarrow> (Forwarded (Some (ti_tenant_id tenant)), limits')))))"

subsection \<open>The database registry\<close>

record tenant_snapshot_state =
  tss_snapshot :: tenant_snapshot
  tss_refreshed_at :: "instant option"

definition snapshot_fresh :: "tenant_snapshot \<Rightarrow> instant \<Rightarrow> tenant_snapshot_state" where
  "snapshot_fresh s t = \<lparr>tss_snapshot = s, tss_refreshed_at = Some t\<rparr>"

definition snapshot_empty :: tenant_snapshot_state where
  "snapshot_empty = \<lparr>tss_snapshot = [], tss_refreshed_at = None\<rparr>"

definition clear_if_stale :: "nat \<Rightarrow> instant \<Rightarrow> tenant_snapshot_state \<Rightarrow> tenant_snapshot_state" where
  "clear_if_stale max_stale now current =
     (case tss_refreshed_at current of
        None \<Rightarrow> current
      | Some refreshed_at \<Rightarrow> if now - refreshed_at < max_stale then current else snapshot_empty)"

definition refresh_timeout_budget :: "nat \<Rightarrow> nat \<Rightarrow> instant \<Rightarrow> tenant_snapshot_state \<Rightarrow> nat" where
  "refresh_timeout_budget max_stale configured now current =
     (if tss_snapshot current = [] then configured
      else case tss_refreshed_at current of
             None \<Rightarrow> configured
           | Some refreshed_at \<Rightarrow>
               (if now - refreshed_at < max_stale then min configured (max_stale - (now - refreshed_at)) else configured))"

text \<open>What the loader does: after how long it answers, and with what.\<close>

datatype loader_outcome = Loaded tenant_snapshot | LoadFailed string

definition refresh_with_loader ::
  "nat \<Rightarrow> nat \<Rightarrow> instant \<Rightarrow> nat \<Rightarrow> loader_outcome \<Rightarrow> tenant_snapshot_state \<Rightarrow> (string + unit) \<times> tenant_snapshot_state" where
  "refresh_with_loader max_stale timeout now took outcome st =
     (let st1 = clear_if_stale max_stale now st;
          budget = refresh_timeout_budget max_stale timeout now st1
      in if budget < took
         then (Inl ''tenant registry refresh from PostgreSQL timed out'', clear_if_stale max_stale (now + budget) st1)
         else case outcome of
                LoadFailed e \<Rightarrow> (Inl e, clear_if_stale max_stale (now + took) st1)
              | Loaded s \<Rightarrow> (Inr (), snapshot_fresh s (now + took)))"

subsection \<open>The limits as windows\<close>

definition tenant_window :: "string \<Rightarrow> rate_limits \<Rightarrow> instant option" where
  "tenant_window t limits = map_option rw_window_start (hm_get limits t)"

definition tenant_used :: "string \<Rightarrow> rate_limits \<Rightarrow> nat" where
  "tenant_used t limits = (case hm_get limits t of None \<Rightarrow> 0 | Some w \<Rightarrow> unat (rw_request_count w))"

definition tenant_check :: "(string \<Rightarrow> u64) \<Rightarrow> string \<Rightarrow> string \<times> instant \<Rightarrow> rate_limits \<Rightarrow> bool \<times> rate_limits" where
  "tenant_check rpm t c limits =
     (case rate_limit_blocked (fst c) (rpm (fst c)) (snd c) limits of (blocked, limits') \<Rightarrow> (fst c = t \<and> \<not> blocked, limits'))"

lemma expired_iff: "60 * 1000000000 \<le> now - w \<longleftrightarrow> w + 60 * 1000000000 \<le> now" for now w :: nat
  by arith

lemma count_succ: "c < (l :: u64) \<Longrightarrow> unat (c + 1) = Suc (unat c)"
proof -
  assume "c < l"
  then have "unat c + 1 < 2 ^ 64" using unsigned_less [of l, where ?'a = nat] by (simp add: word_less_nat_alt)
  then show ?thesis by (simp add: unat_word_ariths)
qed

lemma window_update: "w\<lparr>rw_window_start := now, rw_request_count := n\<rparr> = \<lparr>rw_window_start = now, rw_request_count = n\<rparr>"
  for w :: tenant_rate_window
  by (cases w) simp

interpretation tenants: rate_window "tenant_window t" "tenant_used t" "unat (rpm t)" "60 * 1000000000" "\<lambda>_ _. True"
  "\<lambda>c. fst c = t" snd "tenant_check rpm t" for t rpm
proof
  fix s c ok s' and w :: nat
  assume ch: "tenant_check rpm t c s = (ok, s')"
  obtain tn now where c: "c = (tn, now)" by fastforce
  show "\<not> ok \<and> tenant_window t s' = tenant_window t s \<and> tenant_used t s' = tenant_used t s" if "fst c \<noteq> t"
    using ch that by (auto simp: tenant_check_def rate_limit_blocked_def Let_def c tenant_window_def tenant_used_def hm_get_insert
        split: if_splits)
  show "tenant_window t s' = Some (snd c) \<and> of_bool ok \<le> tenant_used t s' \<and> (ok \<longrightarrow> 0 < unat (rpm t))"
    if "fst c = t" "case tenant_window t s of None \<Rightarrow> True | Some w \<Rightarrow> w + 60 * 1000000000 \<le> snd c"
  proof -
    have "rate_limit_blocked t (rpm t) now s =
        (rpm t \<le> 0, hm_insert t \<lparr>rw_window_start = now, rw_request_count = (if rpm t \<le> 0 then 0 else 1)\<rparr> s)"
      using that(2) by (cases "hm_get s t") (auto simp: c rate_limit_blocked_def Let_def tenant_window_def expired_iff window_update)
    then show ?thesis using ch that(1)
      by (auto simp: tenant_check_def c tenant_window_def tenant_used_def hm_get_insert word_gt_0 unat_gt_0 split: if_splits)
  qed
  show "tenant_window t s' = Some w \<and> tenant_used t s + of_bool ok \<le> tenant_used t s' \<and> (ok \<longrightarrow> tenant_used t s < unat (rpm t))"
    if c': "fst c = t" and w: "tenant_window t s = Some w" and n: "\<not> w + 60 * 1000000000 \<le> snd c"
  proof -
    obtain r where r: "hm_get s t = Some r" "rw_window_start r = w" using w by (auto simp: tenant_window_def)
    have "rate_limit_blocked t (rpm t) now s =
        (if rpm t \<le> rw_request_count r then (True, hm_insert t r s)
         else (False, hm_insert t (r\<lparr>rw_request_count := rw_request_count r + 1\<rparr>) s))"
      using n r by (auto simp: c rate_limit_blocked_def Let_def expired_iff)
    then show ?thesis using ch c' r count_succ [of "rw_request_count r" "rpm t"]
      by (auto simp: tenant_check_def c tenant_window_def tenant_used_def hm_get_insert word_less_nat_alt word_le_nat_alt split: if_splits)
  qed
qed simp_all

text \<open>For each request of a tenant the window it was counted in and whether it was let through.\<close>

fun rate_log :: "(string \<Rightarrow> u64) \<Rightarrow> (string \<times> instant) list \<Rightarrow> rate_limits \<Rightarrow> (string \<times> instant option \<times> bool) list" where
  "rate_log rpm [] limits = []"
| "rate_log rpm ((t, now) # cs) limits =
     (case rate_limit_blocked t (rpm t) now limits of
        (blocked, limits') \<Rightarrow> (t, tenant_window t limits', \<not> blocked) # rate_log rpm cs limits')"

lemma rate_log_grants:
  "length (filter (\<lambda>e. e = (t, w, True)) (rate_log rpm cs limits))
     = length (filter (\<lambda>e. e = (w, True)) (tenants.grants t rpm cs limits))"
proof (induction cs arbitrary: limits)
  case (Cons c cs)
  obtain a now blocked limits' where c: "c = (a, now)" and b: "rate_limit_blocked a (rpm a) now limits = (blocked, limits')"
    by (metis surj_pair)
  have "tenant_check rpm t c limits = (a = t \<and> \<not> blocked, limits')" by (simp add: tenant_check_def c b)
  with c b Cons.IH [of limits'] show ?case by (cases "a = t") simp_all
qed simp

subsection \<open>The configuration\<close>

text \<open>A key hash of the configuration belongs to the entry \<open>t\<close>.\<close>

definition entry_hash :: "tenant_config_file_entry \<Rightarrow> string \<Rightarrow> bool" where
  "entry_hash t h \<longleftrightarrow> (\<exists>raw. parse_hex_sha256 (trim (te_api_key_sha256 t)) = Some (Inr raw) \<and> h = to_hex raw)"

lemma tenant_loop_Cons:
  assumes "tenant_loop (t # ts) ids hashes configs = Some (Inr snap)"
  obtains raw rpm where "parse_hex_sha256 (trim (te_api_key_sha256 t)) = Some (Inr raw)" and "to_hex raw \<notin> set hashes"
    and "trim (te_tenant_id t) \<notin> set ids"
    and "rpm = (case te_rate_limit_rpm t of Some l \<Rightarrow> l | None \<Rightarrow> DEFAULT_TENANT_RATE_LIMIT_RPM)"
    and "tenant_loop ts (trim (te_tenant_id t) # ids) (to_hex raw # hashes)
        (hm_insert (to_hex raw) \<lparr>ti_tenant_id = trim (te_tenant_id t), ti_rate_limit_rpm = rpm\<rparr> configs) = Some (Inr snap)"
proof -
  let ?rpm = "case te_rate_limit_rpm t of Some l \<Rightarrow> l | None \<Rightarrow> DEFAULT_TENANT_RATE_LIMIT_RPM"
  obtain raw where "parse_hex_sha256 (trim (te_api_key_sha256 t)) = Some (Inr raw)" "to_hex raw \<notin> set hashes" "trim (te_tenant_id t) \<notin> set ids"
    "tenant_loop ts (trim (te_tenant_id t) # ids) (to_hex raw # hashes)
        (hm_insert (to_hex raw) \<lparr>ti_tenant_id = trim (te_tenant_id t), ti_rate_limit_rpm = ?rpm\<rparr> configs) = Some (Inr snap)"
    using assms by (auto simp: Let_def split: if_splits option.splits sum.splits)
  then show thesis by (rule that [OF _ _ _ refl])
qed

lemma tenant_loop_ids:
  "tenant_loop ts ids hashes configs = Some (Inr snap) \<Longrightarrow>
     (\<forall>t \<in> set ts. trim (te_tenant_id t) \<notin> set ids) \<and> distinct (map (\<lambda>t. trim (te_tenant_id t)) ts)"
proof (induction ts arbitrary: ids hashes configs)
  case (Cons t ts)
  show ?case by (rule tenant_loop_Cons [OF Cons.prems]) (drule Cons.IH, force)
qed simp

lemma tenant_loop_result:
  assumes "tenant_loop ts ids hashes configs = Some (Inr snap)" and "\<forall>h. hm_get configs h \<noteq> None \<longrightarrow> h \<in> set hashes"
  shows "hm_get snap h = Some info \<longleftrightarrow> hm_get configs h = Some info
      \<or> (\<exists>t \<in> set ts. entry_hash t h \<and> ti_tenant_id info = trim (te_tenant_id t)
           \<and> ti_rate_limit_rpm info = (case te_rate_limit_rpm t of Some l \<Rightarrow> l | None \<Rightarrow> DEFAULT_TENANT_RATE_LIMIT_RPM))"
  using assms
proof (induction ts arbitrary: ids hashes configs)
  case (Cons t ts)
  obtain raw rpm where raw: "parse_hex_sha256 (trim (te_api_key_sha256 t)) = Some (Inr raw)" "to_hex raw \<notin> set hashes"
    and rpm: "rpm = (case te_rate_limit_rpm t of Some l \<Rightarrow> l | None \<Rightarrow> DEFAULT_TENANT_RATE_LIMIT_RPM)"
    and rest: "tenant_loop ts (trim (te_tenant_id t) # ids) (to_hex raw # hashes)
        (hm_insert (to_hex raw) \<lparr>ti_tenant_id = trim (te_tenant_id t), ti_rate_limit_rpm = rpm\<rparr> configs) = Some (Inr snap)"
    by (rule tenant_loop_Cons [OF Cons.prems(1)])
  have e: "entry_hash t h \<longleftrightarrow> h = to_hex raw" using raw(1) by (auto simp: entry_hash_def)
  have none: "hm_get configs (to_hex raw) = None" using Cons.prems(2) raw(2) by blast
  have info: "\<lparr>ti_tenant_id = trim (te_tenant_id t), ti_rate_limit_rpm = rpm\<rparr> = info
      \<longleftrightarrow> ti_tenant_id info = trim (te_tenant_id t) \<and> ti_rate_limit_rpm info = rpm" by (cases info) auto
  have keys: "\<forall>h. hm_get (hm_insert (to_hex raw) \<lparr>ti_tenant_id = trim (te_tenant_id t), ti_rate_limit_rpm = rpm\<rparr> configs) h \<noteq> None
      \<longrightarrow> h \<in> set (to_hex raw # hashes)"
    using Cons.prems(2) by (simp add: hm_get_insert)
  show ?case using none info e rpm unfolding Cons.IH [OF rest keys] hm_get_insert by (cases "h = to_hex raw") auto
qed simp

subsection \<open>Properties\<close>

text \<open>
  C31: Rate limits hold per tenant. Over any sequence of requests of any tenants at any instants, no window of a tenant lets more requests
  through than the tenant's limit, however the requests of other tenants are interleaved.
\<close>

theorem tenant_rate_bounded:
  "length (filter (\<lambda>e. e = (t, w, True)) (rate_log rpm cs [])) \<le> unat (rpm t)"
  unfolding rate_log_grants by (rule tenants.grants_within_quota) simp

text \<open>The entries of the configuration file that a request may act for: those whose key hash is that of the bearer token in its authorization header.\<close>

definition presents_key :: "(bytes \<Rightarrow> bytes) \<Rightarrow> string option \<Rightarrow> tenant_config_file_entry \<Rightarrow> bool" where
  "presents_key sha256 authorization t \<longleftrightarrow> (\<exists>header key. authorization = Some header \<and> parse_bearer_token header = Some key
     \<and> parse_hex_sha256 (trim (te_api_key_sha256 t)) = Some (Inr (sha256 (str_bytes key))))"

lemma loaded_lookup:
  assumes "parse_tenant_config_file (Inr entries) = Some (Inr snap)"
  shows "hm_get snap (sha256_hex_bytes sha256 key) = Some info \<longleftrightarrow> (\<exists>t \<in> set entries.
      parse_hex_sha256 (trim (te_api_key_sha256 t)) = Some (Inr (sha256 (str_bytes key))) \<and> ti_tenant_id info = trim (te_tenant_id t)
      \<and> ti_rate_limit_rpm info = (case te_rate_limit_rpm t of Some l \<Rightarrow> l | None \<Rightarrow> DEFAULT_TENANT_RATE_LIMIT_RPM))"
    and "distinct (map (\<lambda>t. trim (te_tenant_id t)) entries)"
proof -
  have loop: "tenant_loop entries [] [] [] = Some (Inr snap)" using assms by (simp add: parse_tenant_config_file_def split: if_splits)
  have "entry_hash t (sha256_hex_bytes sha256 key) \<longleftrightarrow> parse_hex_sha256 (trim (te_api_key_sha256 t)) = Some (Inr (sha256 (str_bytes key)))" for t
    by (auto simp: entry_hash_def sha256_hex_bytes_def)
  then show "hm_get snap (sha256_hex_bytes sha256 key) = Some info \<longleftrightarrow> (\<exists>t \<in> set entries.
      parse_hex_sha256 (trim (te_api_key_sha256 t)) = Some (Inr (sha256 (str_bytes key))) \<and> ti_tenant_id info = trim (te_tenant_id t)
      \<and> ti_rate_limit_rpm info = (case te_rate_limit_rpm t of Some l \<Rightarrow> l | None \<Rightarrow> DEFAULT_TENANT_RATE_LIMIT_RPM))"
    using tenant_loop_result [OF loop] by simp
  show "distinct (map (\<lambda>t. trim (te_tenant_id t)) entries)" using tenant_loop_ids [OF loop] by blast
qed

text \<open>
  C30: Tenants are who they claim to be. Under a configuration that loads, whatever the authorization header is, absent and malformed included: a
  request is forwarded as a tenant only if its header is a bearer token whose SHA-256 is the key hash of an entry with that id, and no other
  entry has that id; it is never forwarded without a tenant; it is answered with unauthorized, and no limit counts it, exactly when it presents
  the key of no entry.
\<close>

theorem tenant_authenticated:
  assumes cfg: "parse_tenant_config_file (Inr entries) = Some (Inr snap)"
  shows "(\<forall>tenant. fst (require_bearer_token sha256 (Some snap) authorization now limits) = Forwarded tenant \<longrightarrow>
      (\<exists>t \<in> set entries. tenant = Some (trim (te_tenant_id t)) \<and> presents_key sha256 authorization t
         \<and> (\<forall>u \<in> set entries. trim (te_tenant_id u) = trim (te_tenant_id t) \<longrightarrow> u = t)))
    \<and> (require_bearer_token sha256 (Some snap) authorization now limits = (Unauthorized, limits) \<longleftrightarrow>
      \<not> (\<exists>t \<in> set entries. presents_key sha256 authorization t))"
proof (cases "Option.bind authorization parse_bearer_token")
  case None
  then have "\<not> presents_key sha256 authorization t" for t by (auto simp: presents_key_def)
  with None show ?thesis by (simp add: require_bearer_token_def)
next
  case (Some key)
  have pk: "presents_key sha256 authorization t \<longleftrightarrow> parse_hex_sha256 (trim (te_api_key_sha256 t)) = Some (Inr (sha256 (str_bytes key)))" for t
    using Some by (auto simp: presents_key_def bind_eq_Some_conv)
  note get = loaded_lookup(1) [OF cfg, of sha256 key, folded pk]
  show ?thesis
  proof (cases "hm_get snap (sha256_hex_bytes sha256 key)")
    case none: None
    then have "\<not> presents_key sha256 authorization t" if "t \<in> set entries" for t
      using get that by (metis option.distinct(1) tenant_info.select_convs)
    with Some none show ?thesis by (auto simp: require_bearer_token_def)
  next
    case info: (Some info)
    then obtain t where t: "t \<in> set entries" "presents_key sha256 authorization t" "ti_tenant_id info = trim (te_tenant_id t)"
      using get by blast
    have "fst (require_bearer_token sha256 (Some snap) authorization now limits) \<in> {TooManyRequests, Forwarded (Some (ti_tenant_id info))}"
      using Some info by (auto simp: require_bearer_token_def split: prod.splits bool.splits)
    moreover have "u = t" if "u \<in> set entries" "trim (te_tenant_id u) = trim (te_tenant_id t)" for u
      using loaded_lookup(2) [OF cfg] that t(1) by (auto simp: distinct_map inj_on_def)
    ultimately show ?thesis using t by (intro conjI allI impI) auto
  qed
qed

definition demo_entry :: tenant_config_file_entry where
  "demo_entry = \<lparr>te_tenant_id = ''acme '', te_api_key_sha256 = replicate 64 CHR ''0'', te_rate_limit_rpm = None\<rparr>"

definition demo_tenants :: tenant_snapshot where
  "demo_tenants = [(replicate 64 CHR ''0'', \<lparr>ti_tenant_id = ''acme'', ti_rate_limit_rpm = 60\<rparr>)]"

lemma demo_hash:
  "parse_hex_loop (replicate (2 * n) CHR ''0'') acc = Some (Inr (acc @ replicate n 0))" "to_hex (replicate n 0) = replicate (2 * n) CHR ''0''"
proof -
  have z: "u8_from_hex_pair CHR ''0'' CHR ''0'' = Some 0" "\<not> continuation CHR ''0''" "hex_digit 0 = CHR ''0''" by code_simp+
  show "parse_hex_loop (replicate (2 * n) CHR ''0'') acc = Some (Inr (acc @ replicate n 0))"
  proof (induction n arbitrary: acc)
    case (Suc n)
    have "n = 0 \<or> hd (replicate (2 * n) CHR ''0'') = CHR ''0''" by (cases n) simp_all
    with Suc show ?case by (auto simp: z replicate_app_Cons_same)
  qed simp
  show "to_hex (replicate n 0) = replicate (2 * n) CHR ''0''" by (induction n) (simp_all add: to_hex_def z)
qed

lemma demo_config: "parse_tenant_config_file (Inr [demo_entry]) = Some (Inr demo_tenants)"
proof -
  have t: "trim ''acme '' = ''acme''" by code_simp
  have "is_ws CHR ''0'' = False" by code_simp
  then have z: "trim (replicate 64 CHR ''0'') = replicate 64 CHR ''0''" by (simp add: trim_def trim_start_def trim_end_def eval_nat_numeral)
  have "parse_hex_sha256 (replicate 64 CHR ''0'') = Some (Inr (replicate 32 0))"
    using demo_hash(1) [of 32 "[]"] by (simp add: parse_hex_sha256_def)
  then show ?thesis using demo_hash(2) [of 32]
    by (simp add: parse_tenant_config_file_def demo_entry_def t z demo_tenants_def DEFAULT_TENANT_RATE_LIMIT_RPM_def)
qed

theorem tenant_authenticated_witness:
  "fst (require_bearer_token (\<lambda>_. replicate 32 0) (Some demo_tenants) (Some ''bearer  key'') 5 []) = Forwarded (Some ''acme'')
    \<and> (\<exists>t \<in> set [demo_entry]. presents_key (\<lambda>_. replicate 32 0) (Some ''bearer  key'') t)
    \<and> require_bearer_token (\<lambda>_. replicate 32 0) (Some demo_tenants) None 5 [] = (Unauthorized, [])"
proof -
  have key: "parse_bearer_token ''bearer  key'' = Some ''key''" by code_simp
  have f: "fst (require_bearer_token (\<lambda>_. replicate 32 0) (Some demo_tenants) (Some ''bearer  key'') 5 []) = Forwarded (Some ''acme'')"
    using demo_hash(2) [of 32]
    by (simp add: require_bearer_token_def key sha256_hex_bytes_def demo_tenants_def rate_limit_blocked_def Let_def word_le_nat_alt)
  have "\<not> presents_key (\<lambda>_. replicate 32 0) None t" for t by (simp add: presents_key_def)
  then have "require_bearer_token (\<lambda>_. replicate 32 0) (Some demo_tenants) None 5 [] = (Unauthorized, [])"
    using tenant_authenticated [OF demo_config, of "\<lambda>_. replicate 32 0" None 5 "[]"] by blast
  moreover have "\<exists>t \<in> set [demo_entry]. presents_key (\<lambda>_. replicate 32 0) (Some ''bearer  key'') t"
    using tenant_authenticated [OF demo_config, of "\<lambda>_. replicate 32 0" "Some ''bearer  key''" 5 "[]"] f by blast
  ultimately show ?thesis using f by blast
qed

text \<open>
  The registry never serves a stale snapshot after a refresh. From any state in which a snapshot has the time of its refresh, a refresh attempt that
  succeeds, fails or times out leaves either no tenants or a snapshot younger than the maximal staleness at the instant the attempt ends; the attempt is
  given some time unless none is configured, and it never outlives the snapshot it would replace.
\<close>

lemma registry_never_stale:
  assumes "tss_snapshot st \<noteq> [] \<longrightarrow> tss_refreshed_at st \<noteq> None" and "0 < max_stale" and "0 < timeout"
  shows "let st1 = clear_if_stale max_stale now st; budget = refresh_timeout_budget max_stale timeout now st1;
             st' = snd (refresh_with_loader max_stale timeout now took outcome st); finished = now + min took budget
         in 0 < budget \<and> budget \<le> timeout
            \<and> (tss_snapshot st' \<noteq> [] \<longrightarrow> (\<exists>r. tss_refreshed_at st' = Some r \<and> finished - r < max_stale))
            \<and> (tss_snapshot st1 \<noteq> [] \<longrightarrow> (\<exists>r. tss_refreshed_at st1 = Some r \<and> now + budget - r \<le> max_stale))"
proof -
  define st1 where "st1 = clear_if_stale max_stale now st"
  define budget where "budget = refresh_timeout_budget max_stale timeout now st1"
  have fresh: "tss_snapshot (clear_if_stale max_stale n s) \<noteq> [] \<longrightarrow>
      (\<exists>r. tss_refreshed_at (clear_if_stale max_stale n s) = Some r \<and> n - r < max_stale)"
    if "tss_snapshot s \<noteq> [] \<longrightarrow> tss_refreshed_at s \<noteq> None" for n s
    using that by (auto simp: clear_if_stale_def snapshot_empty_def split: option.splits)
  note f1 = fresh [OF assms(1), of now, folded st1_def]
  have ok1: "tss_snapshot st1 \<noteq> [] \<longrightarrow> tss_refreshed_at st1 \<noteq> None" using f1 by auto
  have b: "0 < budget" "budget \<le> timeout" using assms(3) by (auto simp: budget_def refresh_timeout_budget_def split: option.splits)
  have st1b: "tss_snapshot st1 \<noteq> [] \<longrightarrow> (\<exists>r. tss_refreshed_at st1 = Some r \<and> now + budget - r \<le> max_stale)"
    using f1 by (auto simp: budget_def refresh_timeout_budget_def)
  have "tss_snapshot (snd (refresh_with_loader max_stale timeout now took outcome st)) \<noteq> [] \<longrightarrow>
      (\<exists>r. tss_refreshed_at (snd (refresh_with_loader max_stale timeout now took outcome st)) = Some r \<and> now + min took budget - r < max_stale)"
    using fresh [OF ok1, of "now + budget"] fresh [OF ok1, of "now + took"] assms(2)
    by (cases outcome) (auto simp: refresh_with_loader_def Let_def st1_def [symmetric] budget_def [symmetric] snapshot_fresh_def min_def)
  with b st1b show ?thesis by (simp only: Let_def st1_def [symmetric] budget_def [symmetric])
qed

text \<open>A pair of a plus sign and a digit counts as a hexadecimal byte, so a key hash that is no digest is accepted.\<close>

lemma plus_sign_accepted: "parse_hex_sha256 (concat (replicate 32 ''+a'')) = Some (Inr (replicate 32 10))"
  by code_simp

text \<open>A key hash with a character of two bytes across a pair boundary stops the server with a panic.\<close>

lemma tenant_hash_panics: "parse_hex_sha256 (CHR ''0'' # CHR 0xC3 # CHR 0xA9 # replicate 61 CHR ''0'') = None"
  by code_simp

end
