(* ===== verification/Speculative.thy ===== *)
theory Speculative
  imports Execution "HOL-Library.Multiset"
begin

text \<open>
  Speculative execution: the racing core of \<open>src/src/hypervisor/speculative.rs\<close> and
  \<open>NexusHypervisor::speculative_execute\<close>, at the granularity of the polls of the branch futures.

  A branch is a task. A poll runs it up to its next \<open>await\<close> that has to wait and says that it is ready or pending; \<open>tokio::time::timeout\<close> polls the branch first
  and looks at its timer only when the branch is pending. A schedule is a list of events: the poll of one of the branches still
  running, with the time since its first poll and whether its timer has fired, or a step of the background. The race returns as soon as the events decide it, and \<open>None\<close> stands for a
  race that waits for more events, or a poll that does not return.

  A branch of the hypervisor without a warm pool has no \<open>await\<close> that waits: it completes in its first poll. With a pool it
  waits for a permit and then for the blocking task that runs the guest. Blocking tasks are the background: one that is done frees its permit, and
  dropping the branch that started it does not stop it. A branch may be polled at any time, and a freed permit may go to any waiting branch, so the schedules
  of the model include those of the runtime; a task that finishes before the poll that spawned it looks at it is the schedule that polls again.
\<close>

subsection \<open>Branches\<close>

datatype selection_strategy = FirstSuccess | WaitAll

record speculative_config =
  max_branches :: nat
  branch_timeout :: duration
  selection_strategy :: selection_strategy

definition default_speculative_config :: speculative_config where
  "default_speculative_config =
     \<lparr>max_branches = 4, branch_timeout = 5 * 1000000000, selection_strategy = FirstSuccess\<rparr>"

record speculative_branch =
  sb_id :: uuid
  base_snapshot_id :: uuid
  sb_tool :: tool_definition
  sb_strategy :: recovery_action

definition branch_new :: "uuid \<Rightarrow> uuid \<Rightarrow> tool_definition \<Rightarrow> recovery_action \<Rightarrow> speculative_branch" where
  "branch_new i base tool strategy = \<lparr>sb_id = i, base_snapshot_id = base, sb_tool = tool, sb_strategy = strategy\<rparr>"

record branch_outcome =
  bo_branch_id :: uuid
  bo_succeeded :: bool
  bo_output :: "tool_output option"
  bo_error :: "string option"
  bo_elapsed :: duration
  bo_timed_out :: bool

record speculative_result =
  sr_winner :: branch_outcome
  sr_branches_tried :: nat
  sr_branches_succeeded :: nat

text \<open>What became of a branch under its timeout.\<close>

datatype race_result = Finished "tool_output result" | BranchTimedOut

definition outcome_of :: "uuid \<Rightarrow> duration \<Rightarrow> race_result \<Rightarrow> branch_outcome" where
  "outcome_of i elapsed res =
     (case res of
        Finished (Inr output) \<Rightarrow>
          \<lparr>bo_branch_id = i, bo_succeeded = to_success output, bo_output = Some output,
           bo_error = (if to_success output then None else to_error output), bo_elapsed = elapsed, bo_timed_out = False\<rparr>
      | Finished (Inl e) \<Rightarrow>
          \<lparr>bo_branch_id = i, bo_succeeded = False, bo_output = None, bo_error = Some ''{e}'', bo_elapsed = elapsed,
           bo_timed_out = False\<rparr>
      | BranchTimedOut \<Rightarrow>
          \<lparr>bo_branch_id = i, bo_succeeded = False, bo_output = None, bo_error = Some ''branch timed out after {timeout:?}'',
           bo_elapsed = elapsed, bo_timed_out = True\<rparr>)"

subsection \<open>The race\<close>

datatype 't poll = Ready "tool_output result" | Pending 't

text \<open>A poll of a branch on the shared state.\<close>

type_synonym ('t, 's) poller = "'t \<Rightarrow> 's \<Rightarrow> ('t poll \<times> 's) option"

datatype 'e race_event = Polled nat duration bool | Background 'e

text \<open>\<open>tokio::time::timeout\<close>: the branch first, then the timer, which does not fire early.\<close>

fun poll_timeout :: "duration \<Rightarrow> duration \<Rightarrow> bool \<Rightarrow> 't poll \<Rightarrow> race_result + 't" where
  "poll_timeout timeout elapsed fired (Ready res) = Inl (Finished res)"
| "poll_timeout timeout elapsed fired (Pending t) = (if fired \<and> timeout \<le> elapsed then Inl BranchTimedOut else Inr t)"

definition finish_race :: "nat \<Rightarrow> nat \<Rightarrow> branch_outcome list \<Rightarrow> speculative_result result" where
  "finish_race tried branches_succeeded completed =
     (case find bo_succeeded completed of
        Some winner \<Rightarrow> Inr \<lparr>sr_winner = winner, sr_branches_tried = tried, sr_branches_succeeded = branches_succeeded\<rparr>
      | None \<Rightarrow> Inl (WasmError ''all {tried} speculative branches failed or timed out without a success [{}]''))"

definition drop_nth :: "nat \<Rightarrow> 'a list \<Rightarrow> 'a list" where
  "drop_nth i xs = take i xs @ drop (Suc i) xs"

text \<open>\<open>while let Some(..) = running.next().await\<close>: \<open>running\<close> holds the branches not yet completed.\<close>

fun race_loop ::
  "('t, 's) poller \<Rightarrow> ('e \<Rightarrow> 's \<Rightarrow> 's) \<Rightarrow> duration \<Rightarrow> selection_strategy \<Rightarrow> nat \<Rightarrow> (uuid \<times> 't) list \<Rightarrow> nat \<Rightarrow> branch_outcome list
   \<Rightarrow> 'e race_event list \<Rightarrow> 's \<Rightarrow> (speculative_result result \<times> 's) option" where
  "race_loop poll bg timeout strategy tried [] branches_succeeded completed evs s =
     Some (finish_race tried branches_succeeded completed, s)"
| "race_loop poll bg timeout strategy tried (r # rs) branches_succeeded completed [] s = None"
| "race_loop poll bg timeout strategy tried (r # rs) branches_succeeded completed (Background e # evs) s =
     race_loop poll bg timeout strategy tried (r # rs) branches_succeeded completed evs (bg e s)"
| "race_loop poll bg timeout strategy tried (r # rs) branches_succeeded completed (Polled i elapsed fired # evs) s =
     (if length (r # rs) \<le> i then race_loop poll bg timeout strategy tried (r # rs) branches_succeeded completed evs s
      else case (r # rs) ! i of (branch_id, t) \<Rightarrow>
        (case poll t s of
           None \<Rightarrow> None
         | Some (p, s') \<Rightarrow>
             (case poll_timeout timeout elapsed fired p of
                Inr t' \<Rightarrow> race_loop poll bg timeout strategy tried ((r # rs)[i := (branch_id, t')]) branches_succeeded completed evs s'
              | Inl res \<Rightarrow>
                  (let outcome = outcome_of branch_id elapsed res;
                       branches_succeeded = (if bo_succeeded outcome then branches_succeeded + 1 else branches_succeeded)
                   in if strategy = FirstSuccess \<and> bo_succeeded outcome
                      then Some (Inr \<lparr>sr_winner = outcome, sr_branches_tried = tried, sr_branches_succeeded = branches_succeeded\<rparr>, s')
                      else race_loop poll bg timeout strategy tried (drop_nth i (r # rs)) branches_succeeded (completed @ [outcome]) evs s'))))"

definition raced_branches :: "speculative_config \<Rightarrow> speculative_branch list \<Rightarrow> speculative_branch list" where
  "raced_branches config branches = take (max (max_branches config) 1) branches"

definition fork_and_race ::
  "('t, 's) poller \<Rightarrow> ('e \<Rightarrow> 's \<Rightarrow> 's) \<Rightarrow> (speculative_branch \<Rightarrow> 't) \<Rightarrow> speculative_branch list \<Rightarrow> speculative_config \<Rightarrow> 'e race_event list \<Rightarrow> 's
   \<Rightarrow> (speculative_result result \<times> 's) option" where
  "fork_and_race poll bg exec branches config evs s =
     (if branches = [] then Some (Inl (ConfigError ''speculative execution requires at least one branch''), s)
      else let raced = raced_branches config branches
           in race_loop poll bg (branch_timeout config) (selection_strategy config) (length raced)
                (map (\<lambda>b. (sb_id b, exec b)) raced) 0 [] evs s)"

subsection \<open>Branches on the hypervisor\<close>

text \<open>A branch before its first poll, waiting for a permit of the pool, and waiting for the blocking task that runs its guest. The first
  field is the branch and the snapshot it starts from, if any.\<close>

datatype branch_task =
    TaskStart "speculative_branch \<times> uuid option"
  | TaskAcquire "speculative_branch \<times> uuid option" bytes "restored_execution_state option"
  | TaskJoin "speculative_branch \<times> uuid option" bytes nat

text \<open>The hypervisor and the blocking tasks: those that run, with what they will return, and those that are done.\<close>

record 'm race_state =
  rc_hv :: "'m hypervisor"
  rc_blocking :: "(nat \<times> execution_result result) list"
  rc_finished :: "(nat \<times> execution_result result) list"
  rc_next :: nat

definition race_start :: "'m hypervisor \<Rightarrow> 'm race_state" where
  "race_start hv = \<lparr>rc_hv = hv, rc_blocking = [], rc_finished = [], rc_next = 0\<rparr>"

text \<open>\<open>execute_tool_inner\<close> up to the guest, and after it.\<close>

definition before_guest ::
  "'m hv_env \<Rightarrow> call_inputs \<Rightarrow> tool_definition \<Rightarrow> bytes option \<Rightarrow> 'm hypervisor \<Rightarrow> (bytes result \<times> 'm hypervisor) option" where
  "before_guest env ca tool input hv =
     (case authorize_call env (ca_now ca) [] (required_capabilities tool) hv of
        None \<Rightarrow> None
      | Some (Inl e) \<Rightarrow> Some (Inl e, hv)
      | Some (Inr _) \<Rightarrow>
     (case input of
        None \<Rightarrow> Some (Inl (SerializationError ''failed to serialize tool input: {e}''), hv)
      | Some input_bytes \<Rightarrow>
          (let hv1 = install_budget ca (tool_name tool) hv
           in Some (Inr input_bytes,
                    hv1\<lparr>nx_health := start_execution (he_min_interval env) (ca_start ca) (nx_health hv1)\<rparr>))))"

definition after_guest ::
  "'m hv_env \<Rightarrow> call_inputs \<Rightarrow> tool_definition \<Rightarrow> bytes \<Rightarrow> execution_result result \<Rightarrow> 'm hypervisor
   \<Rightarrow> (tool_output result \<times> 'm hypervisor) option" where
  "after_guest env ca tool input_bytes res hv =
     (case res of
        Inl e \<Rightarrow> Some (Inl e, hv)
      | Inr r \<Rightarrow>
          (let hv' = hv\<lparr>nx_fuel_policy := record_fuel (tool_name tool) (xr_fuel_consumed r) (nx_fuel_policy hv)\<rparr>
           in case snapshot_run env ca tool (sha256_hex (he_snap env) input_bytes) r hv' of
                None \<Rightarrow> None
              | Some (Inl e, hv'') \<Rightarrow> Some (Inl e, hv'')
              | Some (Inr snap, hv'') \<Rightarrow> conclude env ca tool r snap hv''))"

definition ready_on :: "'m race_state \<Rightarrow> (tool_output result \<times> 'm hypervisor) option \<Rightarrow> (branch_task poll \<times> 'm race_state) option" where
  "ready_on st r = map_option (\<lambda>(res, hv). (Ready res, st\<lparr>rc_hv := hv\<rparr>)) r"

text \<open>Without a pool the guest runs within the poll. With a pool the poll acquires a permit and the compiled module and
  spawns the blocking task, or waits.\<close>

definition poll_guest ::
  "'m hv_env \<Rightarrow> call_inputs \<Rightarrow> speculative_branch \<times> uuid option \<Rightarrow> bytes \<Rightarrow> restored_execution_state option \<Rightarrow> 'm race_state
   \<Rightarrow> (branch_task poll \<times> 'm race_state) option" where
  "poll_guest env ca b bs rs st =
     (let tool = sb_tool (fst b); hv = rc_hv st
      in case nx_pool hv of
           None \<Rightarrow>
             (case run_guest env ca tool [bs] None rs hv of
                None \<Rightarrow> None
              | Some (res, hv') \<Rightarrow> ready_on st (after_guest env ca tool bs res hv'))
         | Some pool \<Rightarrow>
             (case pool_acquire (he_sha256 env) (he_wt env) (wasm_bytes tool) pool of
                None \<Rightarrow> Some (Pending (TaskAcquire b bs rs), st)
              | Some (Inl e, pool') \<Rightarrow> Some (Ready (Inl e), st\<lparr>rc_hv := hv\<lparr>nx_pool := Some pool'\<rparr>\<rparr>)
              | Some (Inr m, pool') \<Rightarrow>
                  (let res = (if ca_panicked ca then Inl (WasmError ''pooled execution task panicked: {e}'')
                              else execute_module_inner (he_wt env) (ca_exec ca) (pool_sandbox_config (sp_config pool')) m [bs] rs
                                     (entry_point tool))
                   in Some (Pending (TaskJoin b bs (rc_next st)),
                            st\<lparr>rc_hv := hv\<lparr>nx_pool := Some pool'\<rparr>, rc_blocking := (rc_next st, res) # rc_blocking st,
                               rc_next := Suc (rc_next st)\<rparr>))))"

text \<open>\<open>execute_tool_from_snapshot\<close> up to \<open>execute_tool_inner\<close>, or nothing for a branch from scratch.\<close>

definition restore_base ::
  "'m hv_env \<Rightarrow> time \<Rightarrow> tool_definition \<Rightarrow> uuid option \<Rightarrow> 'm hypervisor
   \<Rightarrow> (restored_execution_state option result \<times> 'm hypervisor) option" where
  "restore_base env now tool base hv =
     (case base of
        None \<Rightarrow> Some (Inr None, hv)
      | Some i \<Rightarrow>
     (case authorize_call env now [] (required_capabilities tool) hv of
        None \<Rightarrow> None
      | Some (Inl e) \<Rightarrow> Some (Inl e, hv)
      | Some (Inr _) \<Rightarrow>
          map_option (\<lambda>(r, hv'). (map_sum id (\<lambda>x. Some (restored_from_rollback x)) r, hv')) (rollback_snapshot env now i hv)))"

text \<open>One poll of a branch; \<open>ins\<close> gives each branch its clocks and ids, \<open>inputs\<close> its serialized input.\<close>

fun poll_branch ::
  "'m hv_env \<Rightarrow> (uuid \<Rightarrow> call_inputs \<times> time) \<Rightarrow> (uuid \<Rightarrow> bytes option) \<Rightarrow> (branch_task, 'm race_state) poller" where
  "poll_branch env ins inputs (TaskStart b) st =
     (case ins (sb_id (fst b)) of (ca, now) \<Rightarrow>
      (case restore_base env now (sb_tool (fst b)) (snd b) (rc_hv st) of
         None \<Rightarrow> None
       | Some (Inl e, hv) \<Rightarrow> Some (Ready (Inl e), st\<lparr>rc_hv := hv\<rparr>)
       | Some (Inr rs, hv) \<Rightarrow>
           (case before_guest env ca (sb_tool (fst b)) (inputs (sb_id (fst b))) hv of
              None \<Rightarrow> None
            | Some (Inl e, hv') \<Rightarrow> Some (Ready (Inl e), st\<lparr>rc_hv := hv'\<rparr>)
            | Some (Inr bs, hv') \<Rightarrow> poll_guest env ca b bs rs (st\<lparr>rc_hv := hv'\<rparr>))))"
| "poll_branch env ins inputs (TaskAcquire b bs rs) st = poll_guest env (fst (ins (sb_id (fst b)))) b bs rs st"
| "poll_branch env ins inputs (TaskJoin b bs key) st =
     (case map_of (rc_finished st) key of
        None \<Rightarrow> Some (Pending (TaskJoin b bs key), st)
      | Some res \<Rightarrow> ready_on st (after_guest env (fst (ins (sb_id (fst b)))) (sb_tool (fst b)) bs res (rc_hv st)))"

text \<open>A blocking task is done: its permit is free again and its result can be joined.\<close>

definition blocking_done :: "nat \<Rightarrow> 'm race_state \<Rightarrow> 'm race_state" where
  "blocking_done key st =
     (case map_of (rc_blocking st) key of
        None \<Rightarrow> st
      | Some res \<Rightarrow> st\<lparr>rc_hv := (rc_hv st)\<lparr>nx_pool := map_option pool_release (nx_pool (rc_hv st))\<rparr>,
          rc_blocking := AList.delete key (rc_blocking st), rc_finished := (key, res) # rc_finished st\<rparr>)"

text \<open>Each branch runs its tool from its base snapshot, without tokens, on the same input.\<close>

definition speculative_execute ::
  "'m hv_env \<Rightarrow> (uuid \<Rightarrow> call_inputs \<times> time) \<Rightarrow> bytes option \<Rightarrow> speculative_branch list \<Rightarrow> speculative_config \<Rightarrow> nat race_event list
   \<Rightarrow> 'm hypervisor \<Rightarrow> (speculative_result result \<times> 'm race_state) option" where
  "speculative_execute env ins input branches config evs hv =
     fork_and_race (poll_branch env ins (\<lambda>_. input)) blocking_done (\<lambda>b. TaskStart (b, Some (base_snapshot_id b))) branches config evs
       (race_start hv)"

subsection \<open>The race selects the first success\<close>

text \<open>The same events without the decision of the race: the outcomes in the order of completion, what still runs, and the state.\<close>

fun run_events ::
  "('t, 's) poller \<Rightarrow> ('e \<Rightarrow> 's \<Rightarrow> 's) \<Rightarrow> duration \<Rightarrow> (uuid \<times> 't) list \<Rightarrow> 'e race_event list \<Rightarrow> 's
   \<Rightarrow> (branch_outcome list \<times> (uuid \<times> 't) list \<times> 's) option" where
  "run_events poll bg timeout running [] s = Some ([], running, s)"
| "run_events poll bg timeout running (Background e # evs) s = run_events poll bg timeout running evs (bg e s)"
| "run_events poll bg timeout running (Polled i elapsed fired # evs) s =
     (if length running \<le> i then run_events poll bg timeout running evs s
      else case running ! i of (branch_id, t) \<Rightarrow>
        (case poll t s of
           None \<Rightarrow> None
         | Some (p, s') \<Rightarrow>
             (case poll_timeout timeout elapsed fired p of
                Inr t' \<Rightarrow> run_events poll bg timeout (running[i := (branch_id, t')]) evs s'
              | Inl res \<Rightarrow>
                  map_option (\<lambda>(outs, x). (outcome_of branch_id elapsed res # outs, x))
                    (run_events poll bg timeout (drop_nth i running) evs s'))))"

text \<open>The cases of one poll.\<close>

lemma run_events_poll:
  assumes "run_events poll bg timeout running (Polled i elapsed fired # evs) s = Some (outs, running', s')"
  obtains (idle) "length running \<le> i" "run_events poll bg timeout running evs s = Some (outs, running', s')"
  | (waits) p s1 t where "i < length running" "poll (snd (running ! i)) s = Some (p, s1)" "poll_timeout timeout elapsed fired p = Inr t"
      "run_events poll bg timeout (running[i := (fst (running ! i), t)]) evs s1 = Some (outs, running', s')"
  | (completes) p s1 res outs' where "i < length running" "poll (snd (running ! i)) s = Some (p, s1)"
      "poll_timeout timeout elapsed fired p = Inl res" "outs = outcome_of (fst (running ! i)) elapsed res # outs'"
      "run_events poll bg timeout (drop_nth i running) evs s1 = Some (outs', running', s')"
proof (cases "length running \<le> i")
  case True
  then show thesis using assms by (intro idle) simp_all
next
  case False
  obtain b t where bt: "running ! i = (b, t)" by fastforce
  then obtain p s1 where p: "poll t s = Some (p, s1)" using assms False by (auto split: option.splits)
  show thesis
  proof (cases "poll_timeout timeout elapsed fired p")
    case (Inl res)
    then show thesis using assms False bt p by (auto intro: completes)
  next
    case (Inr t')
    then show thesis using assms False bt p by (intro waits) auto
  qed
qed

lemma outcome_id [simp]: "bo_branch_id (outcome_of i e res) = i"
  by (simp add: outcome_of_def split: race_result.split sum.split)

lemma outcome_elapsed [simp]: "bo_elapsed (outcome_of i e res) = e"
  by (simp add: outcome_of_def split: race_result.split sum.split)

lemma outcome_succeeded:
  "bo_succeeded (outcome_of i e res) \<Longrightarrow> \<not> bo_timed_out (outcome_of i e res)"
  "bo_succeeded (outcome_of i e res) \<Longrightarrow> \<exists>out. bo_output (outcome_of i e res) = Some out \<and> to_success out"
  by (auto simp: outcome_of_def split: race_result.splits sum.splits)

lemma outcome_timed_out: "bo_timed_out (outcome_of i e res) \<longleftrightarrow> res = BranchTimedOut"
  by (auto simp: outcome_of_def split: race_result.splits sum.splits)

lemma poll_timeout_Inl:
  "poll_timeout timeout elapsed fired p = Inl res \<Longrightarrow>
     (\<exists>r. p = Ready r \<and> res = Finished r) \<or> (\<exists>t. p = Pending t \<and> res = BranchTimedOut \<and> timeout \<le> elapsed)"
  by (cases p) (auto split: if_splits)

lemma mset_drop_nth: "i < length xs \<Longrightarrow> add_mset (xs ! i) (mset (drop_nth i xs)) = mset xs"
proof -
  assume i: "i < length xs"
  have "mset xs = mset (take i xs @ xs ! i # drop (Suc i) xs)" using id_take_nth_drop [OF i] by simp
  then show ?thesis by (simp add: drop_nth_def)
qed

lemma length_drop_nth: "i < length xs \<Longrightarrow> length (drop_nth i xs) = length xs - 1"
  by (simp add: drop_nth_def)

lemma map_drop_nth: "map f (drop_nth i xs) = drop_nth i (map f xs)"
  by (simp add: drop_nth_def take_map drop_map)

lemma set_drop_nth: "set (drop_nth i xs) \<subseteq> set xs"
  by (auto simp: drop_nth_def dest: in_set_takeD in_set_dropD)

lemma run_events_outcomes:
  "run_events poll bg timeout running evs s = Some (outs, running', s') \<Longrightarrow>
     mset (map bo_branch_id outs) + mset (map fst running') = mset (map fst running)
     \<and> (\<forall>w \<in> set outs. (bo_timed_out w \<longrightarrow> timeout \<le> bo_elapsed w)
          \<and> (bo_succeeded w \<longrightarrow> \<not> bo_timed_out w \<and> (\<exists>out. bo_output w = Some out \<and> to_success out)))"
proof (induction evs arbitrary: running s outs)
  case (Cons ev evs)
  show ?case
  proof (cases ev)
    case (Background e)
    with Cons show ?thesis by simp
  next
    case (Polled i elapsed fired)
    from Cons.prems [unfolded Polled] show ?thesis
    proof (cases rule: run_events_poll)
      case idle
      then show ?thesis by (intro Cons.IH)
    next
      case (waits p s1 t)
      have "map fst (running[i := (fst (running ! i), t)]) = map fst running"
        using waits(1) list_update_id [of "map fst running" i] by (simp add: map_update)
      with Cons.IH [OF waits(4)] show ?thesis by metis
    next
      case (completes p s1 res outs')
      have "add_mset (fst (running ! i)) (mset (map fst (drop_nth i running))) = mset (map fst running)"
        using mset_drop_nth [of i "map fst running"] completes(1) by (simp add: map_drop_nth)
      then show ?thesis
        using Cons.IH [OF completes(5)] completes(4) poll_timeout_Inl [OF completes(3)] outcome_succeeded
        by (auto simp: outcome_timed_out)
    qed
  qed
qed simp

text \<open>What a race returns, given the outcomes \<open>outs\<close> of the branches that completed.\<close>

definition race_verdict :: "selection_strategy \<Rightarrow> nat \<Rightarrow> bool \<Rightarrow> branch_outcome list \<Rightarrow> speculative_result result \<Rightarrow> bool" where
  "race_verdict strategy tried all_completed outs r \<longleftrightarrow>
     (case r of
        Inr res \<Rightarrow> find bo_succeeded outs = Some (sr_winner res) \<and> sr_branches_tried res = tried
          \<and> sr_branches_succeeded res = length (filter bo_succeeded outs)
          \<and> (strategy = FirstSuccess \<longrightarrow> sr_winner res = last outs) \<and> (strategy = WaitAll \<longrightarrow> all_completed)
      | Inl _ \<Rightarrow> all_completed \<and> (\<forall>w \<in> set outs. \<not> bo_succeeded w))"

lemma find_append: "find P (xs @ ys) = (case find P xs of None \<Rightarrow> find P ys | Some x \<Rightarrow> Some x)"
  by (induction xs) auto

lemma find_None: "find P xs = None \<longleftrightarrow> (\<forall>x \<in> set xs. \<not> P x)"
  by (induction xs) auto

lemma find_SomeD: "find P xs = Some x \<Longrightarrow> x \<in> set xs \<and> P x"
  by (induction xs) (auto split: if_splits)

lemma finish_race_verdict:
  assumes "n = length (filter bo_succeeded acc)" and "strategy = FirstSuccess \<longrightarrow> n = 0"
  shows "race_verdict strategy tried True acc (finish_race tried n acc)"
proof (cases "find bo_succeeded acc")
  case None
  from None find_None [THEN iffD1, OF None] show ?thesis by (simp only: race_verdict_def finish_race_def option.case sum.case simp_thms)
next
  case (Some w)
  from find_SomeD [OF Some] have "filter bo_succeeded acc \<noteq> []" by (auto simp: filter_empty_conv)
  then have "strategy \<noteq> FirstSuccess" using assms by auto
  with Some assms(1) show ?thesis by (simp add: race_verdict_def finish_race_def)
qed

lemma race_loop_verdict:
  assumes "race_loop poll bg timeout strategy tried running n acc evs s = Some (r, s')" and "n = length (filter bo_succeeded acc)"
    and "strategy = FirstSuccess \<longrightarrow> n = 0"
  shows "\<exists>k outs running'. run_events poll bg timeout running (take k evs) s = Some (outs, running', s')
    \<and> race_verdict strategy tried (running' = []) (acc @ outs) r"
  using assms
proof (induction poll bg timeout strategy tried running n acc evs s rule: race_loop.induct)
  case (1 poll bg timeout strategy tried n acc evs s)
  then show ?case
    by (intro exI [of _ 0] exI [of _ "[]"]) (auto intro: finish_race_verdict)
next
  case (3 poll bg timeout strategy tried x xs n acc e evs s)
  then obtain k outs running' where "run_events poll bg timeout (x # xs) (take k evs) (bg e s) = Some (outs, running', s')"
    "race_verdict strategy tried (running' = []) (acc @ outs) r" by auto
  then show ?case by (intro exI [of _ "Suc k"]) auto
next
  case (4 poll bg timeout strategy tried x xs n acc i elapsed fired evs s)
  let ?run = "x # xs"
  show ?case
  proof (cases "length ?run \<le> i")
    case True
    with 4(1) 4(4-6) obtain k outs running' where "run_events poll bg timeout ?run (take k evs) s = Some (outs, running', s')"
      "race_verdict strategy tried (running' = []) (acc @ outs) r" by auto
    with True show ?thesis by (intro exI [of _ "Suc k"]) auto
  next
    case False
    obtain b t where bt: "?run ! i = (b, t)" by fastforce
    obtain p s1 where p: "poll t s = Some (p, s1)" using 4(4) False bt by (auto split: option.splits)
    show ?thesis
    proof (cases "poll_timeout timeout elapsed fired p")
      case (Inr t')
      have "race_loop poll bg timeout strategy tried (?run[i := (b, t')]) n acc evs s1 = Some (r, s')"
        using 4(4) False bt p Inr by simp
      from 4(3) [OF False bt [symmetric] p refl Inr this 4(5,6)] obtain k outs running' where
        "run_events poll bg timeout (?run[i := (b, t')]) (take k evs) s1 = Some (outs, running', s')"
        "race_verdict strategy tried (running' = []) (acc @ outs) r" by blast
      then show ?thesis using False bt p Inr by (intro exI [of _ "Suc k"] exI [of _ outs] exI [of _ running']) simp
    next
      case (Inl res)
      let ?o = "outcome_of b elapsed res" and ?n = "if bo_succeeded (outcome_of b elapsed res) then n + 1 else n"
      show ?thesis
      proof (cases "strategy = FirstSuccess \<and> bo_succeeded ?o")
        case True
        have "find bo_succeeded acc = None" using 4(5,6) True by (auto simp: find_None filter_empty_conv)
        with True 4(4-6) False bt p Inl show ?thesis
          by (intro exI [of _ 1] exI [of _ "[?o]"] exI [of _ "drop_nth i ?run"]) (auto simp: race_verdict_def find_append Let_def)
      next
        case go: False
        have loop: "race_loop poll bg timeout strategy tried (drop_nth i ?run) ?n (acc @ [?o]) evs s1 = Some (r, s')"
          using 4(4) False bt p Inl by (simp only: race_loop.simps if_False prod.case option.case sum.case Let_def go)
        have cnt: "?n = length (filter bo_succeeded (acc @ [?o]))" "strategy = FirstSuccess \<longrightarrow> ?n = 0"
          using 4(5,6) go by auto
        from 4(2) [OF False bt [symmetric] p refl Inl refl refl go loop cnt] obtain k outs running' where
          "run_events poll bg timeout (drop_nth i ?run) (take k evs) s1 = Some (outs, running', s')"
          "race_verdict strategy tried (running' = []) ((acc @ [?o]) @ outs) r" by blast
        then show ?thesis using False bt p Inl
          by (intro exI [of _ "Suc k"] exI [of _ "?o # outs"] exI [of _ running']) simp
      qed
    qed
  qed
qed simp

subsection \<open>Races that end\<close>

text \<open>
  What a race asks of its branches: an invariant of the branches that run and of the shared state, kept by every poll, by the end of a branch and by the background, under which
  polls return.
\<close>

locale race_invariant =
  fixes poll :: "('t, 's) poller" and bg :: "'e \<Rightarrow> 's \<Rightarrow> 's" and inv :: "(uuid \<times> 't) list \<Rightarrow> 's \<Rightarrow> bool"
  assumes poll_inv: "inv running s \<Longrightarrow> i < length running \<Longrightarrow>
      \<exists>p s'. poll (snd (running ! i)) s = Some (p, s') \<and> inv (drop_nth i running) s'
        \<and> (\<forall>t. p = Pending t \<longrightarrow> inv (running[i := (fst (running ! i), t)]) s')"
    and bg_inv: "inv running s \<Longrightarrow> inv running (bg e s)"
begin

lemma run_events_inv:
  "run_events poll bg timeout running evs s = Some (outs, running', s') \<Longrightarrow> inv running s \<Longrightarrow> inv running' s'"
proof (induction evs arbitrary: running s outs)
  case (Cons ev evs)
  show ?case
  proof (cases ev)
    case (Background e)
    with Cons bg_inv show ?thesis by simp
  next
    case (Polled i elapsed fired)
    from Cons.prems(1) [unfolded Polled] show ?thesis
    proof (cases rule: run_events_poll)
      case idle
      then show ?thesis using Cons.IH Cons.prems(2) by blast
    next
      case (waits p s1 t)
      then have "p = Pending t" by (cases p) (auto split: if_splits)
      with waits poll_inv [OF Cons.prems(2) waits(1)] show ?thesis by (intro Cons.IH [OF waits(4)]) auto
    next
      case (completes p s1 res outs')
      with poll_inv [OF Cons.prems(2) completes(1)] show ?thesis by (intro Cons.IH [OF completes(5)]) auto
    qed
  qed
qed simp

text \<open>Once the remaining branches are polled after their timeouts, the race is decided.\<close>

lemma race_loop_polled:
  "inv running s \<Longrightarrow> length running \<le> m \<Longrightarrow>
     \<exists>r s'. race_loop poll bg timeout strategy tried running n acc (replicate m (Polled 0 timeout True)) s = Some (r, s')"
proof (induction m arbitrary: running s n acc)
  case (Suc m)
  show ?case
  proof (cases running)
    case (Cons x xs)
    obtain b t where x: "x = (b, t)" by fastforce
    obtain p s1 where p: "poll t s = Some (p, s1)" and i1: "inv xs s1"
      using poll_inv [OF Suc.prems(1), of 0] Cons x by (auto simp: drop_nth_def)
    obtain res where res: "poll_timeout timeout timeout True p = Inl res" by (cases p) auto
    have "length xs \<le> m" using Suc.prems(2) Cons by simp
    from Suc.IH [OF i1 this] have IH: "\<exists>r s'. race_loop poll bg timeout strategy tried xs n' acc' (replicate m (Polled 0 timeout True)) s1 = Some (r, s')" for n' acc'
      by blast
    show ?thesis
      by (cases "strategy = FirstSuccess \<and> bo_succeeded (outcome_of b timeout res)") (use IH in \<open>simp_all add: Cons x p res drop_nth_def Let_def\<close>)
  qed simp
qed simp

lemma race_loop_ends:
  "inv running s \<Longrightarrow> length running \<le> m \<Longrightarrow>
     \<exists>r s'. race_loop poll bg timeout strategy tried running n acc (evs @ replicate m (Polled 0 timeout True)) s = Some (r, s')"
proof (induction evs arbitrary: running s n acc)
  case Nil
  then show ?case using race_loop_polled by simp
next
  case (Cons ev evs)
  let ?tail = "evs @ replicate m (Polled 0 timeout True)"
  show ?case
  proof (cases running)
    case run: (Cons x xs)
    show ?thesis
    proof (cases ev)
      case (Background e)
      then show ?thesis using Cons.IH [OF bg_inv [OF Cons.prems(1)] Cons.prems(2)] by (simp add: run)
    next
      case (Polled i elapsed fired)
      show ?thesis
      proof (cases "length running \<le> i")
        case True
        then show ?thesis using Cons.IH [OF Cons.prems] by (simp add: run Polled)
      next
        case False
        obtain b t where bt: "running ! i = (b, t)" by fastforce
        obtain p s1 where p: "poll t s = Some (p, s1)" and gone: "inv (drop_nth i running) s1"
          and wait: "\<And>t. p = Pending t \<Longrightarrow> inv (running[i := (b, t)]) s1"
          using poll_inv [OF Cons.prems(1), of i] False bt by auto
        have len: "length (drop_nth i running) \<le> m" using False Cons.prems(2) by (simp add: length_drop_nth)
        show ?thesis
        proof (cases "poll_timeout timeout elapsed fired p")
          case (Inr t')
          then have "p = Pending t'" by (cases p) (auto split: if_splits)
          from Cons.IH [OF wait [OF this]] Cons.prems(2) have
            "\<exists>r s'. race_loop poll bg timeout strategy tried (running[i := (b, t')]) n acc ?tail s1 = Some (r, s')" by simp
          then show ?thesis using False bt p Inr by (simp add: run Polled)
        next
          case (Inl res)
          have "\<exists>r s'. race_loop poll bg timeout strategy tried (drop_nth i running) n' acc' ?tail s1 = Some (r, s')" for n' acc'
            by (rule Cons.IH [OF gone len])
          then show ?thesis using False bt p Inl
            by (cases "strategy = FirstSuccess \<and> bo_succeeded (outcome_of b elapsed res)") (simp_all add: run Polled Let_def)
        qed
      qed
    qed
  qed simp
qed

end

subsection \<open>The polls of a branch return\<close>

text \<open>The invariant of the hypervisor without the permits: while blocking tasks run, all of them may be taken.\<close>

definition hv_core :: "'m hv_env \<Rightarrow> store \<Rightarrow> 'm hypervisor \<Rightarrow> bool" where
  "hv_core env g hv \<longleftrightarrow> reachable (manager_init (he_caps env)) (manager_step (he_caps env)) (nx_capabilities hv)
     \<and> store_inv (he_snap env) (nx_snapshots hv, g)"

lemma hv_core_inv: "hv_inv env g hv \<Longrightarrow> hv_core env g hv" "hv_core env g hv \<Longrightarrow> hv_inv env g (hv\<lparr>nx_pool := None\<rparr>)"
  by (simp_all add: hv_core_def hv_inv_def)

lemma rollback_snapshot_returns:
  assumes "hv_core env g hv"
  obtains r hv1 where "rollback_snapshot env now i hv = Some (r, hv1)" and "hv_core env g hv1" and "nx_pool hv1 = nx_pool hv"
proof -
  have si: "store_inv (he_snap env) (nx_snapshots hv, g)" using assms by (simp add: hv_core_def)
  obtain r m where rb: "rollback_to (he_snap env) now i (nx_snapshots hv) = (r, m)" by fastforce
  have m: "store_inv (he_snap env) (m, g)" using rollback_state [OF rb] si by (auto simp: store_inv_count)
  show thesis
  proof (cases r)
    case (Inr x)
    show thesis
      by (rule that [of "Inr x" "cache_rollback_result x (hv\<lparr>nx_snapshots := m\<rparr>)"])
        (use rb Inr m assms in \<open>auto simp: rollback_snapshot_def cache_rollback_result_def hv_core_def\<close>)
  next
    case (Inl e)
    obtain y m' where rd: "rollback_to_diff (he_snap env) now i m = Some (y, m')" using rollback_diff_total [OF m] by (metis surj_pair)
    have m': "store_inv (he_snap env) (m', g)" using rollback_diff_state [OF rd] m by (auto simp: store_inv_count)
    have "\<exists>r hv1. rollback_snapshot env now i hv = Some (r, hv1) \<and> hv_core env g hv1 \<and> nx_pool hv1 = nx_pool hv"
      using rb Inl rd m' assms by (cases y) (auto simp: rollback_snapshot_def cache_rollback_result_def hv_core_def)
    then show thesis using that by blast
  qed
qed

text \<open>What follows the guest neither reads nor changes the pool.\<close>

lemma create_full_pool:
  "create_full env ce mem fs es md (hv\<lparr>nx_pool := p\<rparr>) = map_prod id (\<lambda>h. h\<lparr>nx_pool := p\<rparr>) (create_full env ce mem fs es md hv)"
  by (simp add: create_full_def split: prod.split sum.split)

lemma create_runtime_pool:
  "create_runtime_snapshot env ce mem fs es md (hv\<lparr>nx_pool := p\<rparr>)
    = map_option (map_prod id (\<lambda>h. h\<lparr>nx_pool := p\<rparr>)) (create_runtime_snapshot env ce mem fs es md hv)"
  by (simp add: create_runtime_snapshot_def create_full_pool
      split: snapshot_strategy.split option.split prod.split sum.split diff_snapshot_result.split)

lemma snapshot_run_pool:
  "snapshot_run env ca tool h r (hv\<lparr>nx_pool := p\<rparr>) = map_option (map_prod id (\<lambda>h. h\<lparr>nx_pool := p\<rparr>)) (snapshot_run env ca tool h r hv)"
  by (simp add: snapshot_run_def create_runtime_pool Let_def split: option.split prod.split sum.split)

lemma attempt_rollback_pool:
  "attempt_rollback env ca snap mode (hv\<lparr>nx_pool := p\<rparr>)
    = map_option (map_prod id (\<lambda>h. h\<lparr>nx_pool := p\<rparr>)) (attempt_rollback env ca snap mode hv)"
  by (simp add: attempt_rollback_def rollback_runtime_snapshot_def cache_rollback_result_def
      split: option.split prod.split sum.split runtime_snapshot.split)

lemma conclude_pool:
  "conclude env ca tool r snap (hv\<lparr>nx_pool := p\<rparr>) = map_option (map_prod id (\<lambda>h. h\<lparr>nx_pool := p\<rparr>)) (conclude env ca tool r snap hv)"
proof -
  have swap: "h\<lparr>nx_pool := p\<rparr>\<lparr>nx_health := v\<rparr> = h\<lparr>nx_health := v\<rparr>\<lparr>nx_pool := p\<rparr>" for h :: "'a hypervisor" and v by simp
  have "finish_failure env ca tool r snap res mode (h\<lparr>nx_pool := p\<rparr>)
      = map_option (map_prod id (\<lambda>h. h\<lparr>nx_pool := p\<rparr>)) (finish_failure env ca tool r snap res mode h)" for res mode and h :: "'a hypervisor"
    by (simp add: finish_failure_def attempt_rollback_pool failure_log_def Let_def split: option.split prod.split)
  then show ?thesis
    by (simp add: conclude_def Let_def swap finish_success_def del: hypervisor.update_convs split: option.split prod.split)
qed

lemma after_guest_pool:
  "after_guest env ca tool bs res (hv\<lparr>nx_pool := p\<rparr>) = map_option (map_prod id (\<lambda>h. h\<lparr>nx_pool := p\<rparr>)) (after_guest env ca tool bs res hv)"
proof -
  have swap: "h\<lparr>nx_pool := p\<rparr>\<lparr>nx_fuel_policy := v\<rparr> = h\<lparr>nx_fuel_policy := v\<rparr>\<lparr>nx_pool := p\<rparr>" for h :: "'a hypervisor" and v by simp
  show ?thesis
    unfolding after_guest_def Let_def hypervisor.simps swap
    by (simp only: snapshot_run_pool hypervisor.simps) (simp add: conclude_pool split: option.split prod.split sum.split)
qed

definition bounded_result :: "execution_result result \<Rightarrow> bool" where
  "bounded_result res \<longleftrightarrow> (\<forall>r mem. res = Inr r \<longrightarrow> xr_pre_call_memory r = Some mem \<longrightarrow> length mem \<le> 2 ^ 32)"

lemma guest_bounded: "wt_ok wt \<Longrightarrow> bounded_result (execute_module_inner wt xe cfg md args rs entry)"
  using guest_memory_bound by (fastforce simp: bounded_result_def)

lemma after_guest_returns:
  assumes inv: "hv_core env g hv" and fresh: "g (ce_id (ca_snap ca)) = None" and res: "bounded_result res"
  obtains out hv' g' where "after_guest env ca tool bs res hv = Some (out, hv')" and "hv_core env g' hv'"
    and "dom g' \<subseteq> insert (ce_id (ca_snap ca)) (dom g)" and "nx_pool hv' = nx_pool hv"
proof (cases res)
  case (Inl e)
  show thesis by (rule that [of "Inl e" hv g]) (auto simp: after_guest_def Inl inv)
next
  case (Inr r)
  define h where "h = (hv\<lparr>nx_pool := None\<rparr>)\<lparr>nx_fuel_policy := record_fuel (tool_name tool) (xr_fuel_consumed r) (nx_fuel_policy hv)\<rparr>"
  have ih: "hv_inv env g h" using hv_core_inv(2) [OF inv] by (simp add: h_def hv_inv_def)
  have len: "\<And>mem. xr_pre_call_memory r = Some mem \<Longrightarrow> length mem \<le> 2 ^ 32" using res Inr by (simp add: bounded_result_def)
  obtain x h1 g' where sr: "snapshot_run env ca tool (sha256_hex (he_snap env) bs) r h = Some (x, h1)" and i1: "hv_inv env g' h1"
    and d: "dom g' \<subseteq> insert (ce_id (ca_snap ca)) (dom g)"
    and rst: "\<And>snap. x = Inr snap \<Longrightarrow> (snap = None \<longleftrightarrow> xr_pre_call_memory r = None)
      \<and> (\<forall>s mem. snap = Some s \<longrightarrow> xr_pre_call_memory r = Some mem \<longrightarrow> restores env (nx_snapshots h1) s mem (run_state r))"
    using snapshot_run_returns [OF ih fresh len] by metis
  have "\<exists>out h2. after_guest env ca tool bs res (hv\<lparr>nx_pool := None\<rparr>) = Some (out, h2) \<and> hv_inv env g' h2"
  proof (cases x)
    case err: (Inl e)
    then show ?thesis using sr i1 Inr by (simp add: after_guest_def Let_def h_def)
  next
    case ok: (Inr snap)
    obtain out h2 where "conclude env ca tool r snap h1 = Some (Inr out, h2)" "hv_inv env g' h2"
      using conclude_returns [OF i1] rst [OF ok] by metis
    then show ?thesis using sr ok Inr by (simp add: after_guest_def Let_def h_def)
  qed
  then obtain out h2 where a: "after_guest env ca tool bs res (hv\<lparr>nx_pool := None\<rparr>) = Some (out, h2)" and i2: "hv_inv env g' h2" by blast
  have "after_guest env ca tool bs res hv = Some (out, h2\<lparr>nx_pool := nx_pool hv\<rparr>)"
    using after_guest_pool [of env ca tool bs res "nx_pool hv" "hv\<lparr>nx_pool := None\<rparr>"] a by simp
  then show thesis by (rule that) (use i2 d in \<open>simp_all add: hv_core_def hv_inv_def\<close>)
qed

lemma before_guest_returns:
  assumes "hv_core env g hv"
  obtains res hv' where "before_guest env ca tool input hv = Some (res, hv')" and "hv_core env g hv'" and "nx_pool hv' = nx_pool hv"
proof -
  have "reachable (manager_init (he_caps env)) (manager_step (he_caps env)) (nx_capabilities hv)" using assms by (simp add: hv_core_def)
  then obtain a where a: "authorize_call env (ca_now ca) [] (required_capabilities tool) hv = Some a" using authorize_call_eq by blast
  have "\<exists>res hv'. before_guest env ca tool input hv = Some (res, hv') \<and> hv_core env g hv' \<and> nx_pool hv' = nx_pool hv"
    using a assms by (auto simp: before_guest_def Let_def hv_core_def install_budget_keeps split: sum.split option.split)
  then show thesis using that by blast
qed

lemma restore_base_returns:
  assumes inv: "hv_core env g hv"
  obtains res hv' where "restore_base env now tool base hv = Some (res, hv')" and "hv_core env g hv'" and "nx_pool hv' = nx_pool hv"
proof (cases base)
  case None
  show thesis by (rule that [of "Inr None" hv]) (simp_all add: restore_base_def None inv)
next
  case (Some i)
  have "reachable (manager_init (he_caps env)) (manager_step (he_caps env)) (nx_capabilities hv)" using inv by (simp add: hv_core_def)
  then obtain a where a: "authorize_call env now [] (required_capabilities tool) hv = Some a" using authorize_call_eq by blast
  obtain r hv1 where "rollback_snapshot env now i hv = Some (r, hv1)" "hv_core env g hv1" "nx_pool hv1 = nx_pool hv"
    using rollback_snapshot_returns [OF inv] by metis
  then have "\<exists>res hv'. restore_base env now tool base hv = Some (res, hv') \<and> hv_core env g hv' \<and> nx_pool hv' = nx_pool hv"
    using a inv Some by (cases a) (auto simp: restore_base_def)
  then show thesis using that by blast
qed

text \<open>The permits of the pool and of the running blocking tasks are \<open>n\<close>, if there is a pool; each blocking task has a key of its own.\<close>

definition tasks_ok :: "nat option \<Rightarrow> 'm race_state \<Rightarrow> bool" where
  "tasks_ok n st \<longleftrightarrow> (\<forall>(k, res) \<in> set (rc_blocking st) \<union> set (rc_finished st). bounded_result res)
     \<and> distinct (map fst (rc_blocking st)) \<and> (\<forall>k \<in> fst ` set (rc_blocking st). k < rc_next st)
     \<and> (case nx_pool (rc_hv st) of
          None \<Rightarrow> n = None \<and> rc_blocking st = []
        | Some p \<Rightarrow> n = Some (available_permits p + length (rc_blocking st)))"

lemma tasks_ok_hv: "tasks_ok n st \<Longrightarrow> nx_pool hv = nx_pool (rc_hv st) \<Longrightarrow> tasks_ok n (st\<lparr>rc_hv := hv\<rparr>)"
  by (cases "nx_pool (rc_hv st)") (simp_all add: tasks_ok_def)

lemma length_delete: "distinct (map fst xs) \<Longrightarrow> map_of xs k = Some v \<Longrightarrow> length xs = Suc (length (AList.delete k xs))"
proof (induction xs)
  case (Cons x xs)
  show ?case
  proof (cases "fst x = k")
    case True
    then have "AList.delete k xs = xs" using Cons.prems(1) by (intro delete_id) auto
    with True show ?thesis by simp
  next
    case False
    with Cons show ?thesis by (cases x) auto
  qed
qed simp

lemma blocking_done_ok:
  assumes ok: "tasks_ok n st"
  shows "tasks_ok n (blocking_done key st)"
proof (cases "map_of (rc_blocking st) key")
  case None
  with ok show ?thesis by (simp add: blocking_done_def)
next
  case (Some res)
  have d: "distinct (map fst (rc_blocking st))" using ok by (simp add: tasks_ok_def)
  have b: "bounded_result res" using ok map_of_SomeD [OF Some] by (auto simp: tasks_ok_def)
  have sub: "set (AList.delete key (rc_blocking st)) \<subseteq> set (rc_blocking st)" by (auto simp: AList.delete_eq)
  have pool: "case nx_pool (rc_hv (blocking_done key st)) of
      None \<Rightarrow> n = None \<and> rc_blocking (blocking_done key st) = []
    | Some p \<Rightarrow> n = Some (available_permits p + length (rc_blocking (blocking_done key st)))"
    using ok length_delete [OF d Some] Some
    by (cases "nx_pool (rc_hv st)") (simp_all add: tasks_ok_def blocking_done_def pool_release_def)
  have "distinct (map fst (AList.delete key (rc_blocking st)))" by (rule distinct_delete [OF d])
  with ok b sub pool show ?thesis unfolding tasks_ok_def by (auto simp: blocking_done_def Some)
qed

fun task_branch :: "branch_task \<Rightarrow> speculative_branch \<times> uuid option" where
  "task_branch (TaskStart b) = b"
| "task_branch (TaskAcquire b bs rs) = b"
| "task_branch (TaskJoin b bs key) = b"

text \<open>What a poll leaves: a good state, in which a pending branch has captured nothing.\<close>

definition polled :: "'m hv_env \<Rightarrow> nat option \<Rightarrow> store \<Rightarrow> uuid \<Rightarrow> speculative_branch \<times> uuid option \<Rightarrow> (branch_task poll \<times> 'm race_state) option \<Rightarrow> bool" where
  "polled env n g i b r \<longleftrightarrow> (\<exists>p st g'. r = Some (p, st) \<and> hv_core env g' (rc_hv st) \<and> tasks_ok n st \<and> dom g' \<subseteq> insert i (dom g)
     \<and> (\<forall>t. p = Pending t \<longrightarrow> g' = g \<and> task_branch t = b))"

lemma ready_polled:
  assumes "hv_core env g hv" and "g (ce_id (ca_snap ca)) = None" and "bounded_result res" and "tasks_ok n (st\<lparr>rc_hv := hv\<rparr>)"
  shows "polled env n g (ce_id (ca_snap ca)) b (ready_on st (after_guest env ca tool bs res hv))"
proof -
  obtain out hv' g' where a: "after_guest env ca tool bs res hv = Some (out, hv')" "hv_core env g' hv'"
    "dom g' \<subseteq> insert (ce_id (ca_snap ca)) (dom g)" "nx_pool hv' = nx_pool hv"
    by (rule after_guest_returns [OF assms(1-3)])
  then have "tasks_ok n (st\<lparr>rc_hv := hv'\<rparr>)" using tasks_ok_hv [OF assms(4), of hv'] by simp
  with a show ?thesis by (auto simp: polled_def ready_on_def)
qed

lemma poll_guest_polled:
  assumes wt: "wt_ok (he_wt env)" and inv: "hv_core env g (rc_hv st)" and ok: "tasks_ok n st" and fresh: "g (ce_id (ca_snap ca)) = None"
  shows "polled env n g (ce_id (ca_snap ca)) b (poll_guest env ca b bs rs st)"
proof (cases "nx_pool (rc_hv st)")
  case None
  obtain r pool where run: "run_guest env ca (sb_tool (fst b)) [bs] None rs (rc_hv st) = Some (r, (rc_hv st)\<lparr>nx_pool := pool\<rparr>)"
    and b: "bounded_result r"
    using run_guest_returns [of "rc_hv st" env, OF _ wt] None by (auto simp: bounded_result_def) metis
  have "pool = None" using run_guest_frame [OF run] None by (simp add: frame_def)
  then have same: "(rc_hv st)\<lparr>nx_pool := pool\<rparr> = rc_hv st" using None by simp
  have "polled env n g (ce_id (ca_snap ca)) b (ready_on st (after_guest env ca (sb_tool (fst b)) bs r (rc_hv st)))"
    by (rule ready_polled [OF inv fresh b]) (use ok in simp)
  then show ?thesis using None run by (simp add: poll_guest_def Let_def same)
next
  case (Some p)
  have core: "hv_core env g ((rc_hv st)\<lparr>nx_pool := q\<rparr>)" for q using inv by (simp add: hv_core_def)
  show ?thesis
  proof (cases "pool_acquire (he_sha256 env) (he_wt env) (wasm_bytes (sb_tool (fst b))) p")
    case None
    with Some inv ok show ?thesis by (auto simp: poll_guest_def polled_def Let_def)
  next
    case acq: (Some x)
    obtain r p' where x: "x = (r, p')" by fastforce
    show ?thesis
    proof (cases r)
      case (Inl e)
      then have "available_permits p' = available_permits p"
        using acq x by (auto simp: pool_acquire_def split: if_splits sum.splits prod.splits)
      then have "tasks_ok n (st\<lparr>rc_hv := (rc_hv st)\<lparr>nx_pool := Some p'\<rparr>\<rparr>)" using ok Some by (simp add: tasks_ok_def)
      with Some acq x Inl core [of "Some p'"] show ?thesis by (auto simp: poll_guest_def polled_def Let_def)
    next
      case (Inr m)
      then have "Suc (available_permits p') = available_permits p"
        using acq x by (auto simp: pool_acquire_def split: if_splits sum.splits prod.splits)
      moreover define res where "res = (if ca_panicked ca then Inl (WasmError ''pooled execution task panicked: {e}'')
          else execute_module_inner (he_wt env) (ca_exec ca) (pool_sandbox_config (sp_config p')) m [bs] rs (entry_point (sb_tool (fst b))))"
      moreover have "bounded_result res" using guest_bounded [OF wt] by (simp add: res_def) (simp add: bounded_result_def)
      ultimately have "tasks_ok n (st\<lparr>rc_hv := (rc_hv st)\<lparr>nx_pool := Some p'\<rparr>, rc_blocking := (rc_next st, res) # rc_blocking st,
          rc_next := Suc (rc_next st)\<rparr>)"
        using ok Some by (auto simp: tasks_ok_def less_Suc_eq)
      with Some acq x Inr core [of "Some p'"] show ?thesis
        by (auto simp: poll_guest_def polled_def Let_def res_def)
    qed
  qed
qed

lemma poll_branch_polled:
  assumes wt: "wt_ok (he_wt env)" and inv: "hv_core env g (rc_hv st)" and ok: "tasks_ok n st"
    and fresh: "g (ce_id (ca_snap (fst (ins (sb_id (fst (task_branch t))))))) = None"
  shows "polled env n g (ce_id (ca_snap (fst (ins (sb_id (fst (task_branch t))))))) (task_branch t) (poll_branch env ins inputs t st)"
proof (cases t)
  case (TaskStart b)
  obtain ca now where i: "ins (sb_id (fst b)) = (ca, now)" by fastforce
  obtain x hv1 where rb: "restore_base env now (sb_tool (fst b)) (snd b) (rc_hv st) = Some (x, hv1)" "hv_core env g hv1" "nx_pool hv1 = nx_pool (rc_hv st)"
    by (rule restore_base_returns [OF inv])
  obtain y hv2 where bg: "before_guest env ca (sb_tool (fst b)) (inputs (sb_id (fst b))) hv1 = Some (y, hv2)" "hv_core env g hv2" "nx_pool hv2 = nx_pool hv1"
    by (rule before_guest_returns [OF rb(2)])
  have ok1: "tasks_ok n (st\<lparr>rc_hv := hv1\<rparr>)" "tasks_ok n (st\<lparr>rc_hv := hv2\<rparr>)" using tasks_ok_hv [OF ok] rb(3) bg(3) by simp_all
  have pg: "polled env n g (ce_id (ca_snap ca)) b (poll_guest env ca b bs rs (st\<lparr>rc_hv := hv2\<rparr>))" for bs rs
    by (rule poll_guest_polled [OF wt _ ok1(2)]) (use bg(2) fresh in \<open>simp_all add: TaskStart i\<close>)
  show ?thesis
    by (cases x; cases y) (use rb bg ok1 pg in \<open>auto simp: TaskStart i polled_def\<close>)
next
  case (TaskAcquire b bs rs)
  with poll_guest_polled [OF wt inv ok] fresh show ?thesis by simp
next
  case (TaskJoin b bs key)
  show ?thesis
  proof (cases "map_of (rc_finished st) key")
    case None
    with inv ok show ?thesis by (auto simp: TaskJoin polled_def)
  next
    case (Some res)
    then have "bounded_result res" using ok map_of_SomeD [OF Some] by (auto simp: tasks_ok_def)
    from ready_polled [OF inv _ this] ok fresh Some show ?thesis by (simp add: TaskJoin)
  qed
qed

definition branch_snap :: "(uuid \<Rightarrow> call_inputs \<times> time) \<Rightarrow> uuid \<Rightarrow> uuid" where
  "branch_snap ins i = ce_id (ca_snap (fst (ins i)))"

text \<open>The invariant of a race: a good hypervisor, on which the snapshot ids of the branches that run are fresh.\<close>

definition race_inv ::
  "'m hv_env \<Rightarrow> (uuid \<Rightarrow> call_inputs \<times> time) \<Rightarrow> nat option \<Rightarrow> (uuid \<times> branch_task) list \<Rightarrow> 'm race_state \<Rightarrow> bool" where
  "race_inv env ins n running st \<longleftrightarrow> wt_ok (he_wt env) \<and> tasks_ok n st \<and> distinct (map (\<lambda>r. branch_snap ins (fst r)) running)
     \<and> (\<forall>(i, t) \<in> set running. sb_id (fst (task_branch t)) = i)
     \<and> (\<exists>g. hv_core env g (rc_hv st) \<and> (\<forall>r \<in> set running. g (branch_snap ins (fst r)) = None))"

lemma distinct_drop_nth: "i < length xs \<Longrightarrow> distinct xs \<Longrightarrow> distinct (xs ! i # drop_nth i xs)"
  using mset_drop_nth [of i xs] mset_eq_imp_distinct_iff [of "xs ! i # drop_nth i xs" xs] by simp

lemma race_inv_poll:
  assumes inv: "race_inv env ins n running st" and i: "i < length running"
  shows "\<exists>p st'. poll_branch env ins inputs (snd (running ! i)) st = Some (p, st') \<and> race_inv env ins n (drop_nth i running) st'
    \<and> (\<forall>t. p = Pending t \<longrightarrow> race_inv env ins n (running[i := (fst (running ! i), t)]) st')"
proof -
  obtain b t where bt: "running ! i = (b, t)" by fastforce
  have mem: "(b, t) \<in> set running" using i bt nth_mem by metis
  have wt: "wt_ok (he_wt env)" and ok0: "tasks_ok n st" using inv by (simp_all add: race_inv_def)
  obtain g where g: "hv_core env g (rc_hv st)" "\<And>r. r \<in> set running \<Longrightarrow> g (branch_snap ins (fst r)) = None"
    using inv by (auto simp: race_inv_def)
  have ids: "sb_id (fst (task_branch t)) = b" using inv mem by (auto simp: race_inv_def)
  have "g (ce_id (ca_snap (fst (ins (sb_id (fst (task_branch t))))))) = None" using g(2) [OF mem] by (simp add: ids branch_snap_def)
  from poll_branch_polled [where g = g and ins = ins and t = t and inputs = inputs, OF wt g(1) ok0 this] obtain p st' g' where p: "poll_branch env ins inputs t st = Some (p, st')"
    and core: "hv_core env g' (rc_hv st')" and ok: "tasks_ok n st'" and dm: "dom g' \<subseteq> insert (branch_snap ins b) (dom g)"
    and pend: "\<And>t'. p = Pending t' \<Longrightarrow> g' = g \<and> task_branch t' = task_branch t"
    by (auto simp: polled_def ids branch_snap_def)
  have d: "distinct (branch_snap ins b # map (\<lambda>r. branch_snap ins (fst r)) (drop_nth i running))"
    using distinct_drop_nth [of i "map (\<lambda>r. branch_snap ins (fst r)) running"] inv i bt by (simp add: race_inv_def map_drop_nth)
  have fresh: "g' (branch_snap ins (fst r)) = None" if "r \<in> set (drop_nth i running)" for r
  proof -
    have "branch_snap ins (fst r) \<in> set (map (\<lambda>r. branch_snap ins (fst r)) (drop_nth i running))" using that by simp
    then have "branch_snap ins (fst r) \<noteq> branch_snap ins b" using d by (metis distinct.simps(2))
    moreover have "branch_snap ins (fst r) \<notin> dom g" using g(2) [of r] that set_drop_nth [of i running] by (auto simp: domIff)
    ultimately have "branch_snap ins (fst r) \<notin> dom g'" using dm by blast
    then show ?thesis by (simp only: domIff not_not)
  qed
  have gone: "race_inv env ins n (drop_nth i running) st'"
    using inv ok core d fresh set_drop_nth [of i running] by (auto simp: race_inv_def)
  have "race_inv env ins n (running[i := (b, t')]) st'" if "p = Pending t'" for t'
  proof -
    have sub: "set (running[i := (b, t')]) \<subseteq> insert (b, t') (set running)" by (rule set_update_subset_insert)
    have "map (\<lambda>r. branch_snap ins (fst r)) (running[i := (b, t')]) = map (\<lambda>r. branch_snap ins (fst r)) running"
      using list_update_id [of "map (\<lambda>r. branch_snap ins (fst r)) running" i] i bt by (simp add: map_update)
    moreover have "sb_id (fst (task_branch t')) = b" using pend [OF that] ids by simp
    moreover have "\<forall>r \<in> set (running[i := (b, t')]). g' (branch_snap ins (fst r)) = None"
      using sub g(2) g(2) [OF mem] pend [OF that] by auto
    moreover have "\<forall>(j, t) \<in> set (running[i := (b, t')]). sb_id (fst (task_branch t)) = j"
      using sub inv calculation(2) by (fastforce simp: race_inv_def)
    ultimately show ?thesis using inv ok core unfolding race_inv_def by auto
  qed
  with p gone bt show ?thesis by auto
qed

lemma race_inv_background: "race_inv env ins n running st \<Longrightarrow> race_inv env ins n running (blocking_done key st)"
proof -
  assume inv: "race_inv env ins n running st"
  have "hv_core env g (rc_hv st) \<Longrightarrow> hv_core env g (rc_hv (blocking_done key st))" for g
    by (simp add: blocking_done_def hv_core_def split: option.split)
  with inv show ?thesis unfolding race_inv_def by (meson blocking_done_ok)
qed

interpretation branches: race_invariant "poll_branch env ins inputs" blocking_done "race_inv env ins n"
  for env :: "'m hv_env" and ins :: "uuid \<Rightarrow> call_inputs \<times> time" and inputs :: "uuid \<Rightarrow> bytes option" and n :: "nat option"
  by unfold_locales (rule race_inv_poll race_inv_background; assumption)+

subsection \<open>Branches as executions\<close>

text \<open>A branch as one undisturbed execution, and branches that run one after the other.\<close>

definition execute_branch ::
  "'m hv_env \<Rightarrow> (uuid \<Rightarrow> call_inputs \<times> time) \<Rightarrow> (uuid \<Rightarrow> bytes option) \<Rightarrow> speculative_branch \<times> uuid option \<Rightarrow> 'm hypervisor
   \<Rightarrow> (tool_output result \<times> 'm hypervisor) option" where
  "execute_branch env ins inputs b hv =
     (case ins (sb_id (fst b)) of (ca, now) \<Rightarrow>
      (case snd b of
         Some i \<Rightarrow> execute_tool_from_snapshot_with_tokens env ca now i (sb_tool (fst b)) (inputs (sb_id (fst b))) [] hv
       | None \<Rightarrow> execute_tool_with_tokens env ca (sb_tool (fst b)) (inputs (sb_id (fst b))) [] hv))"

fun run_branches ::
  "'m hv_env \<Rightarrow> (uuid \<Rightarrow> call_inputs \<times> time) \<Rightarrow> (uuid \<Rightarrow> bytes option) \<Rightarrow> ((speculative_branch \<times> uuid option) \<times> duration) list
   \<Rightarrow> 'm hypervisor \<Rightarrow> (branch_outcome list \<times> 'm hypervisor) option" where
  "run_branches env ins inputs [] hv = Some ([], hv)"
| "run_branches env ins inputs ((b, elapsed) # bs) hv =
     (case execute_branch env ins inputs b hv of
        None \<Rightarrow> None
      | Some (res, hv') \<Rightarrow>
          map_option (\<lambda>(outs, x). (outcome_of (sb_id (fst b)) elapsed (Finished res) # outs, x)) (run_branches env ins inputs bs hv'))"

text \<open>An execution is its two halves around the guest.\<close>

lemma execute_tool_inner_split:
  "execute_tool_inner env ca tool input [] None rs hv =
     (case before_guest env ca tool input hv of
        None \<Rightarrow> None
      | Some (Inl e, hv1) \<Rightarrow> Some (Inl e, hv1)
      | Some (Inr bs, hv1) \<Rightarrow>
          (case run_guest env ca tool [bs] None rs hv1 of
             None \<Rightarrow> None
           | Some (res, hv2) \<Rightarrow> after_guest env ca tool bs res hv2))"
  by (simp add: execute_tool_inner_def before_guest_def after_guest_def Let_def split: option.split sum.split prod.split)

lemma execute_branch_split:
  "execute_branch env ins inputs b hv =
     (case ins (sb_id (fst b)) of (ca, now) \<Rightarrow>
      (case restore_base env now (sb_tool (fst b)) (snd b) hv of
         None \<Rightarrow> None
       | Some (Inl e, hv1) \<Rightarrow> Some (Inl e, hv1)
       | Some (Inr rs, hv1) \<Rightarrow> execute_tool_inner env ca (sb_tool (fst b)) (inputs (sb_id (fst b))) [] None rs hv1))"
  by (simp add: execute_branch_def execute_tool_with_tokens_def execute_tool_from_snapshot_with_tokens_def restore_base_def
      split: option.split sum.split prod.split)

lemma restore_base_pool: "restore_base env now tool base hv = Some (r, hv') \<Longrightarrow> nx_pool hv' = nx_pool hv"
  by (auto simp: restore_base_def rollback_snapshot_def cache_rollback_result_def split: option.splits sum.splits prod.splits)

lemma before_guest_pool: "before_guest env ca tool input hv = Some (r, hv') \<Longrightarrow> nx_pool hv' = nx_pool hv"
  by (auto simp: before_guest_def Let_def install_budget_keeps split: option.splits sum.splits)

lemma after_guest_keeps_pool:
  assumes "after_guest env ca tool bs res hv = Some (r, hv')"
  shows "nx_pool hv' = nx_pool hv"
proof -
  have "hv' = hv'\<lparr>nx_pool := nx_pool hv\<rparr>" using after_guest_pool [of env ca tool bs res "nx_pool hv" hv] assms by simp
  then have "nx_pool hv' = nx_pool (hv'\<lparr>nx_pool := nx_pool hv\<rparr>)" by (rule arg_cong)
  then show ?thesis by simp
qed

text \<open>Without a pool the first poll of a branch is its whole execution.\<close>

lemma poll_without_pool:
  assumes "nx_pool (rc_hv st) = None"
  shows "poll_branch env ins inputs (TaskStart b) st = ready_on st (execute_branch env ins inputs b (rc_hv st))"
proof -
  obtain ca now where i: "ins (sb_id (fst b)) = (ca, now)" by fastforce
  show ?thesis
    using assms
    by (auto simp: i execute_branch_split execute_tool_inner_split poll_guest_def ready_on_def Let_def
        dest!: restore_base_pool before_guest_pool split: option.split sum.split prod.split)
qed

lemma execute_branch_no_pool:
  assumes "execute_branch env ins inputs b hv = Some (res, hv')" and "nx_pool hv = None"
  shows "nx_pool hv' = None"
  using assms
  by (auto simp: execute_branch_split execute_tool_inner_split frame_def
      dest!: restore_base_pool before_guest_pool run_guest_frame after_guest_keeps_pool split: option.splits sum.splits prod.splits)

definition started :: "(speculative_branch \<times> uuid option) list \<Rightarrow> (uuid \<times> branch_task) list" where
  "started bs = map (\<lambda>b. (sb_id (fst b), TaskStart b)) bs"

lemma started_nth: "i < length (started bs) \<Longrightarrow> started bs ! i = (sb_id (fst (bs ! i)), TaskStart (bs ! i))"
  by (simp add: started_def)

lemma run_events_no_pool:
  assumes "run_events (poll_branch env ins inputs) blocking_done timeout (started bs) evs st = Some (outs, running', st')"
    and "nx_pool (rc_hv st) = None" and "rc_blocking st = []"
  shows "\<exists>completed_bs rest. run_branches env ins inputs completed_bs (rc_hv st) = Some (outs, rc_hv st') \<and> mset (map fst completed_bs) + mset rest = mset bs"
  using assms
proof (induction evs arbitrary: bs st outs)
  case Nil
  then show ?case by (intro exI [of _ "[]"] exI [of _ bs]) simp
next
  case (Cons ev evs)
  show ?case
  proof (cases ev)
    case (Background e)
    with Cons show ?thesis by (simp add: blocking_done_def)
  next
    case (Polled i elapsed fired)
    from Cons.prems(1) [unfolded Polled] show ?thesis
    proof (cases rule: run_events_poll)
      case idle
      then show ?thesis using Cons by blast
    next
      case (waits p st1 t)
      then have "\<exists>res. p = Ready res"
        using poll_without_pool [OF Cons.prems(2)] by (auto simp: started_nth ready_on_def)
      with waits(3) show ?thesis by auto
    next
      case (completes p st1 res outs')
      let ?b = "bs ! i"
      have i: "i < length bs" using completes(1) by (simp add: started_def)
      obtain out hv1 where ex: "execute_branch env ins inputs ?b (rc_hv st) = Some (out, hv1)" and p: "p = Ready out" and st1: "st1 = st\<lparr>rc_hv := hv1\<rparr>"
        using completes(1,2) poll_without_pool [OF Cons.prems(2)] by (auto simp: started_nth ready_on_def)
      have res: "res = Finished out" using completes(3) p by simp
      have "drop_nth i (started bs) = started (drop_nth i bs)" by (simp add: started_def map_drop_nth)
      with completes(5) have run: "run_events (poll_branch env ins inputs) blocking_done timeout (started (drop_nth i bs)) evs st1 = Some (outs', running', st')" by simp
      have "nx_pool (rc_hv st1) = None" "rc_blocking st1 = []" using execute_branch_no_pool [OF ex Cons.prems(2)] Cons.prems(3) by (simp_all add: st1)
      from Cons.IH [OF run this] obtain completed_bs rest where r: "run_branches env ins inputs completed_bs (rc_hv st1) = Some (outs', rc_hv st')"
        "mset (map fst completed_bs) + mset rest = mset (drop_nth i bs)" by blast
      have "run_branches env ins inputs ((?b, elapsed) # completed_bs) (rc_hv st) = Some (outs, rc_hv st')"
        using ex r(1) completes(1,4) by (simp add: st1 res started_nth)
      moreover have "mset (map fst ((?b, elapsed) # completed_bs)) + mset rest = mset bs" using r(2) mset_drop_nth [OF i] by simp
      ultimately show ?thesis by blast
    qed
  qed
qed

lemma run_branches_in_time: "run_branches env ins inputs completed_bs hv = Some (outs, hv') \<Longrightarrow> w \<in> set outs \<Longrightarrow> \<not> bo_timed_out w"
proof (induction completed_bs arbitrary: hv outs)
  case (Cons x completed_bs)
  obtain b e where x: "x = (b, e)" by fastforce
  then obtain res hv1 outs1 where "run_branches env ins inputs completed_bs hv1 = Some (outs1, hv')"
    "outs = outcome_of (sb_id (fst b)) e (Finished res) # outs1"
    using Cons.prems(1) by (auto split: option.splits)
  with Cons show ?case by (auto simp: outcome_timed_out)
qed simp

text \<open>An undisturbed execution is one of the schedules, with a pool and without: start, let the blocking task finish, and join it.\<close>

lemma execution_is_a_schedule:
  assumes ex: "execute_branch env ins inputs b hv = Some (res, hv')"
  shows "\<exists>st. run_events (poll_branch env ins inputs) blocking_done timeout (started [b])
      [Polled 0 elapsed False, Background 0, Polled 0 elapsed False] (race_start hv)
      = Some ([outcome_of (sb_id (fst b)) elapsed (Finished res)], [], st) \<and> rc_hv st = hv'"
proof (cases "nx_pool hv")
  case None
  then have "poll_branch env ins inputs (TaskStart b) (race_start hv) = Some (Ready res, (race_start hv)\<lparr>rc_hv := hv'\<rparr>)"
    using poll_without_pool [of "race_start hv"] ex by (simp add: race_start_def ready_on_def)
  then show ?thesis by (simp add: started_def drop_nth_def race_start_def blocking_done_def)
next
  case (Some pool)
  obtain ca now where i: "ins (sb_id (fst b)) = (ca, now)" by fastforce
  let ?tool = "sb_tool (fst b)" and ?poll = "poll_branch env ins inputs" and ?st = "race_start hv"
  have at_once: ?thesis if "?poll (TaskStart b) ?st = Some (Ready res, ?st\<lparr>rc_hv := hv'\<rparr>)"
    using that by (simp add: started_def drop_nth_def race_start_def blocking_done_def)
  obtain x hv1 where rb: "restore_base env now ?tool (snd b) hv = Some (x, hv1)"
    using ex i by (auto simp: execute_branch_split split: option.splits)
  show ?thesis
  proof (cases x)
    case (Inl e)
    then have "res = Inl e" "hv' = hv1" using ex i rb by (simp_all add: execute_branch_split)
    with Inl i rb show ?thesis by (intro at_once) (simp add: race_start_def)
  next
    case rs: (Inr rs)
    obtain y hv2 where bg: "before_guest env ca ?tool (inputs (sb_id (fst b))) hv1 = Some (y, hv2)"
      and tail: "case y of Inl e \<Rightarrow> res = Inl e \<and> hv' = hv2
        | Inr bs \<Rightarrow> (case run_guest env ca ?tool [bs] None rs hv2 of None \<Rightarrow> None | Some (r, hv3) \<Rightarrow> after_guest env ca ?tool bs r hv3) = Some (res, hv')"
      using ex i rb rs by (auto simp: execute_branch_split execute_tool_inner_split split: option.splits sum.splits)
    show ?thesis
    proof (cases y)
      case (Inl e)
      with tail i rb rs bg show ?thesis by (intro at_once) (simp add: race_start_def)
    next
      case (Inr bs)
      have pool: "nx_pool hv2 = Some pool" using before_guest_pool [OF bg] restore_base_pool [OF rb] Some by simp
      have start: "?poll (TaskStart b) ?st = poll_guest env ca b bs rs (?st\<lparr>rc_hv := hv2\<rparr>)" using i rb rs bg Inr by (simp add: race_start_def)
      obtain z pool' where acq: "pool_acquire (he_sha256 env) (he_wt env) (wasm_bytes ?tool) pool = Some (z, pool')"
        using tail Inr pool by (auto simp: run_guest_def execute_pooled_with_entry_def split: option.splits)
      show ?thesis
      proof (cases z)
        case err: (Inl e)
        then have "res = Inl e" "hv' = hv2\<lparr>nx_pool := Some pool'\<rparr>"
          using tail Inr pool acq by (simp_all add: run_guest_def execute_pooled_with_entry_def after_guest_def)
        then show ?thesis by (intro at_once, unfold start) (simp add: poll_guest_def Let_def pool acq err race_start_def)
      next
        case m: (Inr m)
        define r where "r = (if ca_panicked ca then Inl (WasmError ''pooled execution task panicked: {e}'')
          else execute_module_inner (he_wt env) (ca_exec ca) (pool_sandbox_config (sp_config pool')) m [bs] rs (entry_point ?tool))"
        have after: "after_guest env ca ?tool bs r (hv2\<lparr>nx_pool := Some (pool_release pool')\<rparr>) = Some (res, hv')"
          using tail Inr pool acq m by (simp add: run_guest_def execute_pooled_with_entry_def r_def)
        have p1: "?poll (TaskStart b) ?st = Some (Pending (TaskJoin b bs 0),
            ?st\<lparr>rc_hv := hv2\<lparr>nx_pool := Some pool'\<rparr>, rc_blocking := [(0, r)], rc_next := 1\<rparr>)"
          unfolding start by (simp add: poll_guest_def Let_def pool acq m race_start_def r_def)
        have p2: "?poll (TaskJoin b bs 0) (\<lparr>rc_hv = hv2\<lparr>nx_pool := Some (pool_release pool')\<rparr>, rc_blocking = [], rc_finished = [(0, r)], rc_next = 1\<rparr>)
            = Some (Ready res, \<lparr>rc_hv = hv', rc_blocking = [], rc_finished = [(0, r)], rc_next = 1\<rparr>)"
          using after i by (simp add: ready_on_def)
        show ?thesis using p1 p2 by (simp add: started_def drop_nth_def race_start_def blocking_done_def del: poll_branch.simps)
      qed
    qed
  qed
qed

text \<open>
  With a pool a timeout is real: a branch whose guest runs in a blocking task is pending, a poll after its timer has fired records it as timed out, and
  its blocking task keeps the permit until it is done.
\<close>

lemma pooled_branch_times_out:
  assumes i: "ins (sb_id (fst b)) = (ca, now)" and rb: "restore_base env now (sb_tool (fst b)) (snd b) hv = Some (Inr rs, hv1)"
    and bg: "before_guest env ca (sb_tool (fst b)) (inputs (sb_id (fst b))) hv1 = Some (Inr bs, hv2)" and pool: "nx_pool hv = Some pool"
    and acq: "pool_acquire (he_sha256 env) (he_wt env) (wasm_bytes (sb_tool (fst b))) pool = Some (Inr m, pool')"
  shows "\<exists>st res. run_events (poll_branch env ins inputs) blocking_done timeout (started [b])
      [Polled 0 elapsed False, Polled 0 timeout True] (race_start hv) = Some ([outcome_of (sb_id (fst b)) timeout BranchTimedOut], [], st)
    \<and> rc_blocking st = [(0, res)] \<and> nx_pool (rc_hv st) = Some pool'
    \<and> nx_pool (rc_hv (blocking_done 0 st)) = Some (pool_release pool') \<and> rc_blocking (blocking_done 0 st) = []"
proof -
  have p2: "nx_pool hv2 = Some pool" using before_guest_pool [OF bg] restore_base_pool [OF rb] pool by simp
  show ?thesis
    using i rb bg p2 acq
    by (simp add: started_def race_start_def drop_nth_def poll_guest_def Let_def blocking_done_def)
qed

subsection \<open>Properties\<close>

text \<open>
  C23: Speculative execution, under any schedule of the polls, timers and blocking tasks. A race that returns has run a prefix of the
  schedule, in which every raced branch either completed, once, or still runs; its winner is the first outcome that succeeded, with a successful output and
  never a timed out branch; the counts are those of the branches raced and of the successes; the first
  success ends the race unless it waits for all; it fails only when every branch completed and none succeeded. A branch is timed out only after the branch
  timeout. The hypervisor is left in a good state, and of the permits of a warm pool exactly those are taken whose blocking
  task still runs, also for branches that were dropped. Without a warm pool no branch is ever timed out, however long it takes: the branches complete one after
  another, each as one execution from its base snapshot. Whatever happened before, a race whose remaining branches are polled after their timeouts
  returns. And an undisturbed execution of a branch is one of the schedules, with or without a pool.
\<close>

theorem speculative_race:
  assumes inv: "hv_inv env g hv" and wt: "wt_ok (he_wt env)" and ne: "branches \<noteq> []"
    and fresh: "\<forall>b \<in> set (raced_branches config branches). g (branch_snap ins (sb_id b)) = None"
    and dist: "distinct (map (\<lambda>b. branch_snap ins (sb_id b)) (raced_branches config branches))"
  shows "(\<forall>r st. speculative_execute env ins input branches config evs hv = Some (r, st) \<longrightarrow>
      (\<exists>k outs running. run_events (poll_branch env ins (\<lambda>_. input)) blocking_done (branch_timeout config)
            (started (map (\<lambda>b. (b, Some (base_snapshot_id b))) (raced_branches config branches))) (take k evs) (race_start hv)
            = Some (outs, running, st)
         \<and> mset (map bo_branch_id outs) + mset (map fst running) = mset (map sb_id (raced_branches config branches))
         \<and> race_verdict (selection_strategy config) (min (length branches) (max (max_branches config) 1)) (running = []) outs r
         \<and> (\<forall>w \<in> set outs. (bo_timed_out w \<longrightarrow> branch_timeout config \<le> bo_elapsed w)
              \<and> (bo_succeeded w \<longrightarrow> \<not> bo_timed_out w \<and> (\<exists>out. bo_output w = Some out \<and> to_success out)))
         \<and> (nx_pool hv = None \<longrightarrow> (\<forall>w \<in> set outs. \<not> bo_timed_out w)
              \<and> (\<exists>bs rest. run_branches env ins (\<lambda>_. input) bs hv = Some (outs, rc_hv st)
                   \<and> mset (map fst bs) + mset rest = mset (map (\<lambda>b. (b, Some (base_snapshot_id b))) (raced_branches config branches)))))
      \<and> (\<exists>g'. hv_core env g' (rc_hv st))
      \<and> (\<forall>p. nx_pool hv = Some p \<longrightarrow>
            (\<exists>p'. nx_pool (rc_hv st) = Some p' \<and> available_permits p' + length (rc_blocking st) = available_permits p)))
    \<and> (\<exists>r st. speculative_execute env ins input branches config
          (evs @ replicate (length (raced_branches config branches)) (Polled 0 (branch_timeout config) True)) hv = Some (r, st))
    \<and> (\<forall>b elapsed res hv'. execute_branch env ins (\<lambda>_. input) b hv = Some (res, hv') \<longrightarrow>
          (\<exists>st. run_events (poll_branch env ins (\<lambda>_. input)) blocking_done (branch_timeout config) (started [b])
              [Polled 0 elapsed False, Background 0, Polled 0 elapsed False] (race_start hv)
              = Some ([outcome_of (sb_id (fst b)) elapsed (Finished res)], [], st) \<and> rc_hv st = hv'))"
proof -
  let ?raced = "raced_branches config branches" and ?poll = "poll_branch env ins (\<lambda>_. input)" and ?to = "branch_timeout config"
  let ?bs = "map (\<lambda>b. (b, Some (base_snapshot_id b))) ?raced" and ?n = "map_option available_permits (nx_pool hv)"
  have se: "speculative_execute env ins input branches config es hv
      = race_loop ?poll blocking_done ?to (selection_strategy config) (length ?raced) (started ?bs) 0 [] es (race_start hv)" for es
    using ne by (simp add: speculative_execute_def fork_and_race_def started_def Let_def comp_def)
  have len: "length ?raced = min (length branches) (max (max_branches config) 1)" by (simp add: raced_branches_def)
  have "tasks_ok ?n (race_start hv)" using inv by (simp add: tasks_ok_def race_start_def split: option.split)
  then have i0: "race_inv env ins ?n (started ?bs) (race_start hv)"
    using wt hv_core_inv(1) [OF inv] fresh dist
    by (auto simp: race_inv_def started_def race_start_def comp_def)
  have verdict: "(\<exists>k outs running. run_events ?poll blocking_done ?to (started ?bs) (take k evs) (race_start hv) = Some (outs, running, st)
         \<and> mset (map bo_branch_id outs) + mset (map fst running) = mset (map sb_id ?raced)
         \<and> race_verdict (selection_strategy config) (length ?raced) (running = []) outs r
         \<and> (\<forall>w \<in> set outs. (bo_timed_out w \<longrightarrow> ?to \<le> bo_elapsed w)
              \<and> (bo_succeeded w \<longrightarrow> \<not> bo_timed_out w \<and> (\<exists>out. bo_output w = Some out \<and> to_success out)))
         \<and> (nx_pool hv = None \<longrightarrow> (\<forall>w \<in> set outs. \<not> bo_timed_out w)
              \<and> (\<exists>bs rest. run_branches env ins (\<lambda>_. input) bs hv = Some (outs, rc_hv st) \<and> mset (map fst bs) + mset rest = mset ?bs)))
      \<and> (\<exists>g'. hv_core env g' (rc_hv st))
      \<and> (\<forall>p. nx_pool hv = Some p \<longrightarrow>
            (\<exists>p'. nx_pool (rc_hv st) = Some p' \<and> available_permits p' + length (rc_blocking st) = available_permits p))"
    if r: "speculative_execute env ins input branches config evs hv = Some (r, st)" for r st
  proof -
    obtain k outs running where run: "run_events ?poll blocking_done ?to (started ?bs) (take k evs) (race_start hv) = Some (outs, running, st)"
      and v: "race_verdict (selection_strategy config) (length ?raced) (running = []) outs r"
      using race_loop_verdict [OF r [unfolded se]] by auto
    note outcomes = run_events_outcomes [OF run]
    have ids: "map fst (started ?bs) = map sb_id ?raced" by (simp add: started_def comp_def)
    have fin: "race_inv env ins ?n running st" by (rule branches.run_events_inv [OF run i0])
    have permits: "\<exists>p'. nx_pool (rc_hv st) = Some p' \<and> available_permits p' + length (rc_blocking st) = available_permits p"
      if "nx_pool hv = Some p" for p
      using fin that by (auto simp: race_inv_def tasks_ok_def split: option.splits)
    have seq: "\<exists>bs rest. run_branches env ins (\<lambda>_. input) bs hv = Some (outs, rc_hv st) \<and> mset (map fst bs) + mset rest = mset ?bs"
      if "nx_pool hv = None"
      using run_events_no_pool [OF run] that by (simp add: race_start_def)
    then have in_time: "\<forall>w \<in> set outs. \<not> bo_timed_out w" if "nx_pool hv = None" using that run_branches_in_time by blast
    from fin have core: "\<exists>g'. hv_core env g' (rc_hv st)" unfolding race_inv_def by blast
    have outs: "mset (map bo_branch_id outs) + mset (map fst running) = mset (map sb_id ?raced)"
      "\<forall>w \<in> set outs. (bo_timed_out w \<longrightarrow> ?to \<le> bo_elapsed w)
         \<and> (bo_succeeded w \<longrightarrow> \<not> bo_timed_out w \<and> (\<exists>out. bo_output w = Some out \<and> to_success out))"
      using outcomes unfolding ids by (rule conjunct1, rule conjunct2)
    show ?thesis
      by (intro conjI core allI impI exI [of _ k] exI [of _ outs] exI [of _ running] run v outs permits in_time seq)
  qed
  have ends: "\<exists>r st. speculative_execute env ins input branches config (evs @ replicate (length ?raced) (Polled 0 ?to True)) hv = Some (r, st)"
    unfolding se by (rule branches.race_loop_ends [OF i0]) (simp add: started_def)
  show ?thesis
    unfolding len [symmetric] using verdict ends execution_is_a_schedule by blast
qed

definition small_branch :: speculative_branch where
  "small_branch = branch_new 1 0 small_tool (mk ''retry'')"

text \<open>One branch without a pool, polled for the first time long after its timeout: it is not timed out.\<close>

theorem speculative_race_witness:
  "\<exists>r st outs. speculative_execute small_env (\<lambda>_. (small_call 1 1, 0)) (Some []) [small_branch] default_speculative_config
       [Polled 0 (5 * 1000000000) True] small_hv = Some (r, st)
    \<and> race_verdict FirstSuccess 1 True outs r \<and> map bo_branch_id outs = [1] \<and> list_all (\<lambda>w. \<not> bo_timed_out w) outs"
proof -
  let ?ins = "\<lambda>_ :: uuid. (small_call 1 1, 0 :: time)"
  have raced: "raced_branches default_speculative_config [small_branch] = [small_branch]"
    by (simp add: raced_branches_def default_speculative_config_def)
  have cfg: "selection_strategy default_speculative_config = FirstSuccess" "branch_timeout default_speculative_config = 5 * 1000000000"
    "min (length [small_branch]) (max (max_branches default_speculative_config) 1) = 1"
    by (simp_all add: default_speculative_config_def)
  note race = speculative_race [OF small_hv_inv small_wt_ok, where branches = "[small_branch]" and config = default_speculative_config
      and ins = ?ins and input = "Some []", unfolded raced cfg]
  have pre: "[small_branch] \<noteq> []" "\<forall>b \<in> set [small_branch]. Map.empty (branch_snap ?ins (sb_id b)) = None"
    "distinct (map (\<lambda>b. branch_snap ?ins (sb_id b)) [small_branch])" by simp_all
  let ?evs = "[Polled 0 (5 * 1000000000) True] :: nat race_event list"
  obtain r st where r: "speculative_execute small_env ?ins (Some []) [small_branch] default_speculative_config ?evs small_hv = Some (r, st)"
    using race [OF pre, THEN conjunct2, THEN conjunct1, of "[]"] by auto
  obtain outs and running :: "(uuid \<times> branch_task) list" where m: "mset (map bo_branch_id outs) + mset (map fst running) = mset (map sb_id [small_branch])"
    and v: "race_verdict FirstSuccess 1 (running = []) outs r" and t: "nx_pool small_hv = None \<longrightarrow> (\<forall>w \<in> set outs. \<not> bo_timed_out w)"
    using race [OF pre, THEN conjunct1, THEN spec, THEN spec, THEN mp, OF r]
    by (elim exE conjE) (rule that, assumption, assumption, fast)
  have ids: "mset (map bo_branch_id outs) + mset (map fst running) = {#1#}" using m by (simp add: small_branch_def branch_new_def)
  have "outs \<noteq> []" using v ids by (cases r) (auto simp: race_verdict_def)
  then obtain w where "outs = [w]" "bo_branch_id w = 1" "running = []" using ids
    by (cases outs) (auto simp: single_is_union add_eq_conv_diff)
  with r v t show ?thesis by (auto simp: small_hv_fields)
qed

end
