(* ===== verification/Mcp.thy ===== *)
theory Mcp
  imports Daemon Speculative Proof_Execution
begin

text \<open>
  The MCP server (\<open>src/src/bin/nexus_mcp.rs\<close>, default build): the tool gates of the active profile, the confinement of module
  paths, the tokens a client may obtain, the handlers of the tools and the errors clients see.

  The file system, the environment, \<open>Uuid::parse_str\<close>, base64, UTF-8 decoding, \<open>Url::parse\<close> and serde_json are parameters; clocks and fresh ids are
  arguments. A module path is resolved and read from one state of the file system. An \<open>anyhow\<close> error is a Nexus error or a message.
\<close>

subsection \<open>Errors\<close>

datatype mcp_error = NexusErr nexus_error | OtherErr string

type_synonym 'a mcp_result = "mcp_error + 'a"

definition PROFILE_DENIAL :: string where
  "PROFILE_DENIAL = ''capability not permitted by active profile:''"

definition profile_denial :: "string \<Rightarrow> mcp_error" where
  "profile_denial detail = NexusErr (CapabilityDenied (PROFILE_DENIAL @ '' '' @ detail))"

text \<open>The JSON object a client gets for an error: its code and its message.\<close>

definition tool_anyhow_error_response :: "(uuid \<Rightarrow> string) \<Rightarrow> uuid \<Rightarrow> mcp_error \<Rightarrow> int option \<times> string" where
  "tool_anyhow_error_response uuid_str i error =
     (case error of
        NexusErr (InvalidCapability detail) \<Rightarrow>
          (None, safe_message (if str_contains detail ''expired'' then TokenExpired
                               else if str_contains detail ''revoked'' then TokenRevoked else CapabilityNotPermitted))
      | NexusErr (CapabilityDenied detail) \<Rightarrow>
          (if starts_with detail PROFILE_DENIAL then Some (- 32602) else None, safe_message CapabilityNotPermitted)
      | NexusErr (FilesystemError _) \<Rightarrow> (None, safe_message WasmPathInaccessible)
      | NexusErr (nexus_error.ResourceExhausted d) \<Rightarrow> (None, ''Resource exhausted: '' @ d)
      | NexusErr (nexus_error.MemoryLimitExceeded n) \<Rightarrow> (None, ''Memory limit exceeded: '' @ dec_u n @ '' bytes'')
      | NexusErr (nexus_error.FuelExhausted n) \<Rightarrow>
          (None, ''Fuel exhausted: execution exceeded '' @ dec_u n @ '' instructions'')
      | NexusErr (nexus_error.Timeout n) \<Rightarrow> (None, ''Execution timeout after '' @ dec_u n @ ''ms'')
      | _ \<Rightarrow> (None, ''internal error ['' @ uuid_str i @ '']''))"

subsection \<open>The server and its gates\<close>

record mcp_server =
  ms_module_dirs :: "string list"
  ms_capability_allowlist :: "capability list option"
  ms_iq_allowlist :: "string list option"
  ms_profile :: "profile_manifest option"
  ms_forced_tools :: "string list option"

definition HTTP_READ_ONLY_TOOL_ALLOWLIST :: "string list" where
  "HTTP_READ_ONLY_TOOL_ALLOWLIST =
     [''nexus_get_history'', ''nexus_get_stats'', ''nexus_instinct_stats'', ''nexus_instinct_query'', ''nexus_instinct_export'',
      ''nexus_aeon_execute_timeline'']"

definition ensure_tool_allowed :: "mcp_server \<Rightarrow> string \<Rightarrow> unit mcp_result" where
  "ensure_tool_allowed srv tool =
     (if (case ms_forced_tools srv of Some allowlist \<Rightarrow> tool \<notin> set allowlist | None \<Rightarrow> False)
      then Inl (profile_denial (''tool '' @ tool @ '' is not allowed in HTTP read-only mode''))
      else case ms_profile srv of
             None \<Rightarrow> Inr ()
           | Some profile \<Rightarrow>
               (if allows_tool (mf_mcp profile) tool then Inr ()
                else Inl (profile_denial (''tool '' @ tool @ '' is not in the MCP tool allowlist''))))"

text \<open>The six feature gates: each asks one switch of the profile.\<close>

definition feature_gate :: "(mcp_policy \<Rightarrow> bool) \<Rightarrow> string \<Rightarrow> mcp_server \<Rightarrow> unit mcp_result" where
  "feature_gate enabled detail srv =
     (case ms_profile srv of
        None \<Rightarrow> Inr ()
      | Some profile \<Rightarrow> if enabled (mf_mcp profile) then Inr () else Inl (profile_denial detail))"

definition ensure_snapshot_enabled :: "mcp_server \<Rightarrow> unit mcp_result" where
  "ensure_snapshot_enabled = feature_gate snapshot_enabled ''snapshot tools are disabled by the active profile''"

definition ensure_fork_enabled :: "mcp_server \<Rightarrow> unit mcp_result" where
  "ensure_fork_enabled = feature_gate fork_enabled ''fork_and_race is disabled by the active profile''"

definition ensure_proof_enabled :: "mcp_server \<Rightarrow> unit mcp_result" where
  "ensure_proof_enabled = feature_gate proof_enabled ''nexus_execute_proof is disabled by the active profile''"

definition ensure_wasi_enabled :: "mcp_server \<Rightarrow> unit mcp_result" where
  "ensure_wasi_enabled = feature_gate wasi_enabled ''nexus_execute_wasi is disabled by the active profile''"

definition ensure_instinct_enabled :: "mcp_server \<Rightarrow> unit mcp_result" where
  "ensure_instinct_enabled = feature_gate instinct_enabled ''instinct tools are disabled by the active profile''"

definition ensure_retry_enabled :: "mcp_server \<Rightarrow> unit mcp_result" where
  "ensure_retry_enabled = feature_gate retry_enabled ''nexus_execute_retry is disabled by the active profile''"

subsection \<open>Module paths\<close>

record mcp_fs =
  mf_canonicalize :: "string \<Rightarrow> string option"
  mf_is_dir :: "string \<Rightarrow> bool"
  mf_is_file :: "string \<Rightarrow> bool"
  mf_read :: "string \<Rightarrow> bytes option"
  mf_cwd :: "string option"

text \<open>The normalized path as its components; \<open>PathBuf::pop\<close> fails on the empty path and on the root.\<close>

fun lexical_step :: "bool \<Rightarrow> path_component \<Rightarrow> path_component list \<Rightarrow> path_component list" where
  "lexical_step is_absolute RootDir normalized = [RootDir]"
| "lexical_step is_absolute CurDir normalized = normalized"
| "lexical_step is_absolute ParentDir normalized =
     (if normalized \<noteq> [] \<and> normalized \<noteq> [RootDir] then butlast normalized
      else if \<not> is_absolute then normalized @ [ParentDir] else normalized)"
| "lexical_step is_absolute (Normal part) normalized = normalized @ [Normal part]"

definition lexical_normalize_path :: "string \<Rightarrow> path_component list" where
  "lexical_normalize_path path = fold (lexical_step (starts_with path ''/'')) (components path) []"

definition path_is_lexically_allowed :: "string \<Rightarrow> string list \<Rightarrow> bool" where
  "path_is_lexically_allowed path allowed_dirs =
     list_ex (\<lambda>dir. starts_with (lexical_normalize_path path) (lexical_normalize_path dir)) allowed_dirs"

definition absolute_request_path :: "mcp_fs \<Rightarrow> string \<Rightarrow> string mcp_result" where
  "absolute_request_path fs path =
     (if starts_with path ''/'' then Inr path
      else case mf_cwd fs of Some cwd \<Rightarrow> Inr (path_join cwd path) | None \<Rightarrow> Inl (OtherErr ''{io error}''))"

definition resolve_wasm_path :: "mcp_fs \<Rightarrow> string \<Rightarrow> string list \<Rightarrow> string mcp_result" where
  "resolve_wasm_path fs wasm_path allowed_dirs =
     (case absolute_request_path fs wasm_path of
        Inl e \<Rightarrow> Inl e
      | Inr requested_path \<Rightarrow>
          (if \<not> path_is_lexically_allowed requested_path allowed_dirs
           then Inl (NexusErr (FilesystemError ''wasm path '{}' is outside allowed MCP module directories''))
           else case mf_canonicalize fs wasm_path of
             None \<Rightarrow> Inl (NexusErr (FilesystemError ''wasm path '{}' not found or inaccessible''))
           | Some canonical \<Rightarrow>
               (if \<not> mf_is_file fs canonical then Inl (NexusErr (FilesystemError ''wasm path '{}' is not a file''))
                else if list_ex (path_starts_with canonical) allowed_dirs then Inr canonical
                else Inl (NexusErr (FilesystemError ''wasm path '{}' is outside allowed MCP module directories'')))))"

text \<open>The bytes of an allowed module; a failing read is reported without its cause.\<close>

definition load_module :: "mcp_server \<Rightarrow> mcp_fs \<Rightarrow> string \<Rightarrow> bytes mcp_result" where
  "load_module srv fs wasm_path =
     (case resolve_wasm_path fs wasm_path (ms_module_dirs srv) of
        Inl e \<Rightarrow> Inl e
      | Inr p \<Rightarrow> (case mf_read fs p of Some bs \<Rightarrow> Inr bs | None \<Rightarrow> Inl (OtherErr (safe_message WasmPathInaccessible))))"

fun canonicalize_dirs :: "mcp_fs \<Rightarrow> string list \<Rightarrow> string list mcp_result" where
  "canonicalize_dirs fs [] = Inr []"
| "canonicalize_dirs fs (dir # dirs) =
     (case mf_canonicalize fs dir of
        None \<Rightarrow> Inl (OtherErr ''invalid module dir '{}': {e}'')
      | Some canonical \<Rightarrow>
          (if \<not> mf_is_dir fs canonical then Inl (OtherErr ''invalid module dir '{}': not a directory'')
           else map_sum id (\<lambda>cs. canonical # cs) (canonicalize_dirs fs dirs)))"

definition canonicalize_module_dirs :: "mcp_fs \<Rightarrow> string list \<Rightarrow> string list mcp_result" where
  "canonicalize_module_dirs fs dirs =
     (if dirs = [] then Inl (OtherErr ''profile execution.module_dirs must contain at least one directory'')
      else canonicalize_dirs fs dirs)"

definition allowed_wasm_module_dirs :: "os_env \<Rightarrow> mcp_fs \<Rightarrow> string list mcp_result" where
  "allowed_wasm_module_dirs oe fs =
     (case (case oe_var oe ''NEXUS_MCP_MODULE_DIR'' of
              Some v \<Rightarrow> Inr (split_char CHR '':'' v)
            | None \<Rightarrow> (case mf_cwd fs of Some cwd \<Rightarrow> Inr [cwd] | None \<Rightarrow> Inl (OtherErr ''{io error}''))) of
        Inl e \<Rightarrow> Inl e
      | Inr raw_dirs \<Rightarrow>
          (if raw_dirs = [] then Inl (OtherErr ''{NEXUS_MCP_MODULE_DIR_ENV} must contain at least one module directory'')
           else canonicalize_dirs fs raw_dirs))"

subsection \<open>Capabilities a client may ask for\<close>

record capability_spec =
  cs_type :: string
  cs_path :: "string option"

definition MAX_TOKEN_VALIDITY_SECS :: u64 where
  "MAX_TOKEN_VALIDITY_SECS = 3600"

definition parse_capability_from_str :: "string \<Rightarrow> string option \<Rightarrow> capability option" where
  "parse_capability_from_str cap_type path =
     (if cap_type = ''read_file'' then map_option ReadFile path
      else if cap_type = ''write_file'' then map_option WriteFile path
      else if cap_type = ''list_dir'' then map_option ListDirectory path
      else if cap_type = ''http_get'' then map_option HttpGet path
      else if cap_type = ''http_post'' then map_option HttpPost path
      else if cap_type = ''execute'' then map_option ExecuteBinary path
      else if cap_type = ''mount_tmpfs'' then map_option MountTmpfs path
      else if cap_type = ''read_memory'' then map_option ReadMemory (Option.bind path scope_parse)
      else if cap_type = ''write_memory'' then map_option WriteMemory (Option.bind path scope_parse)
      else if cap_type = ''memory_preview'' \<or> cap_type = ''nexus:memory_preview'' then Some MemoryPreview
      else if cap_type = ''all'' then Some CapAll
      else None)"

definition squoted :: "string \<Rightarrow> string" where
  "squoted s = [CHR 0x27] @ s @ [CHR 0x27]"

definition parse_capability :: "capability_spec \<Rightarrow> capability mcp_result" where
  "parse_capability spec =
     (if cs_type spec \<in> {''read_file'', ''write_file'', ''list_dir'', ''execute'', ''mount_tmpfs'', ''read_memory'', ''write_memory''}
         \<and> cs_path spec = None
      then Inl (OtherErr (''capability type '' @ squoted (cs_type spec) @ '' requires a '' @ squoted ''path'' @ '' field''))
      else if cs_type spec \<in> {''http_get'', ''http_post''} \<and> cs_path spec = None
      then Inl (OtherErr (''capability type '' @ squoted (cs_type spec) @ '' requires a '' @ squoted ''path'' @ '' (URL pattern) field''))
      else case parse_capability_from_str (cs_type spec) (cs_path spec) of
             Some c \<Rightarrow> Inr c
           | None \<Rightarrow> Inl (OtherErr (''Unknown capability type: '' @ cs_type spec)))"

fun parse_capabilities :: "capability_spec list \<Rightarrow> capability list mcp_result" where
  "parse_capabilities [] = Inr []"
| "parse_capabilities (spec # specs) =
     (case parse_capability spec of Inl e \<Rightarrow> Inl e | Inr c \<Rightarrow> map_sum id (\<lambda>cs. c # cs) (parse_capabilities specs))"

definition sanitize_token_request :: "capability \<Rightarrow> u64 option \<Rightarrow> (capability \<times> u64) mcp_result" where
  "sanitize_token_request cap requested_secs =
     (if cap = CapAll then Inl (OtherErr ''capability 'all' cannot be issued to MCP clients; request a specific capability'')
      else Inr (cap, min (case requested_secs of Some s \<Rightarrow> s | None \<Rightarrow> MAX_TOKEN_VALIDITY_SECS) MAX_TOKEN_VALIDITY_SECS))"

definition capability_allowed_by :: "capability list \<Rightarrow> capability \<Rightarrow> bool" where
  "capability_allowed_by allowlist cap = list_ex (cap_is_subset_of cap) allowlist"

definition ensure_operator_allowlisted :: "mcp_server \<Rightarrow> capability \<Rightarrow> unit mcp_result" where
  "ensure_operator_allowlisted srv cap =
     (case ms_capability_allowlist srv of
        None \<Rightarrow> Inl (profile_denial ''no operator allowlist configured'')
      | Some allowlist \<Rightarrow>
          (if capability_allowed_by allowlist cap then Inr ()
           else Inl (profile_denial ''requested capability not in allowlist'')))"

subsection \<open>Tokens\<close>

text \<open>Instants of the wall clock count nanoseconds.\<close>

definition from_secs :: "u64 \<Rightarrow> time" where
  "from_secs s = int (unat s) * 1000000000"

fun sanitize_all :: "capability list \<Rightarrow> (capability \<times> u64) list mcp_result" where
  "sanitize_all [] = Inr []"
| "sanitize_all (c # cs) =
     (case sanitize_token_request c None of Inl e \<Rightarrow> Inl e | Inr x \<Rightarrow> map_sum id (\<lambda>xs. x # xs) (sanitize_all cs))"

fun attenuate_all ::
  "'m hv_env \<Rightarrow> time \<Rightarrow> (nat \<Rightarrow> uuid) \<Rightarrow> nat \<Rightarrow> uuid \<Rightarrow> (capability \<times> u64) list \<Rightarrow> 'm hypervisor
   \<Rightarrow> capability_token list mcp_result \<times> 'm hypervisor" where
  "attenuate_all env now ids k pid [] hv = (Inr [], hv)"
| "attenuate_all env now ids k pid ((c, secs) # rest) hv =
     (case attenuate_token env now (ids k) pid c ''mcp_client'' (from_secs secs) hv of
        (Inl e, hv') \<Rightarrow> (Inl (profile_denial ''requested capability outside parent token scope''), hv')
      | (Inr t, hv') \<Rightarrow>
          (case attenuate_all env now ids (Suc k) pid rest hv' of (r, hv'') \<Rightarrow> (map_sum id (\<lambda>ts. t # ts) r, hv'')))"

fun issue_all ::
  "'m hv_env \<Rightarrow> time \<Rightarrow> (nat \<Rightarrow> uuid) \<Rightarrow> nat \<Rightarrow> capability list \<Rightarrow> (capability \<times> u64) list \<Rightarrow> 'm hypervisor
   \<Rightarrow> capability_token list mcp_result \<times> 'm hypervisor" where
  "issue_all env now ids k allowlist [] hv = (Inr [], hv)"
| "issue_all env now ids k allowlist ((c, secs) # rest) hv =
     (if \<not> capability_allowed_by allowlist c then (Inl (profile_denial ''requested capability not in allowlist''), hv)
      else case issue_token env now (ids k) c ''mcp_operator_allowlist'' (from_secs secs) hv of
             (Inl e, hv') \<Rightarrow> (Inl (NexusErr e), hv')
           | (Inr t, hv') \<Rightarrow>
               (case issue_all env now ids (Suc k) allowlist rest hv' of (r, hv'') \<Rightarrow> (map_sum id (\<lambda>ts. t # ts) r, hv'')))"

definition execute_wasi_tokens ::
  "'m hv_env \<Rightarrow> (string \<Rightarrow> uuid option) \<Rightarrow> time \<Rightarrow> (nat \<Rightarrow> uuid) \<Rightarrow> mcp_server \<Rightarrow> capability list \<Rightarrow> string option
   \<Rightarrow> 'm hypervisor \<Rightarrow> capability_token list mcp_result \<times> 'm hypervisor" where
  "execute_wasi_tokens env parse_uuid now ids srv caps parent_token_id hv =
     (if caps = [] then (Inr [], hv)
      else case sanitize_all caps of
        Inl e \<Rightarrow> (Inl e, hv)
      | Inr sanitized \<Rightarrow>
          (case parent_token_id of
             Some parent \<Rightarrow>
               (case parse_uuid parent of
                  None \<Rightarrow> (Inl (OtherErr ''invalid parent_token_id '{parent_token_id}': {e}''), hv)
                | Some pid \<Rightarrow> attenuate_all env now ids 0 pid sanitized hv)
           | None \<Rightarrow>
               (case ms_capability_allowlist srv of
                  None \<Rightarrow> (Inl (profile_denial ''no operator allowlist configured''), hv)
                | Some allowlist \<Rightarrow> issue_all env now ids 0 allowlist sanitized hv)))"

definition check_tokens_fresh :: "time \<Rightarrow> capability_token list \<Rightarrow> unit mcp_result" where
  "check_tokens_fresh now tokens =
     (if list_all (token_is_valid now) tokens then Inr ()
      else Inl (NexusErr (InvalidCapability (safe_message TokenExpired))))"

definition check_tokens_against_profile :: "time \<Rightarrow> capability_token list \<Rightarrow> profile_manifest \<Rightarrow> unit mcp_result" where
  "check_tokens_against_profile now tokens manifest =
     (case check_tokens_fresh now tokens of
        Inl e \<Rightarrow> Inl e
      | Inr _ \<Rightarrow>
          (case find (\<lambda>t. \<not> list_ex (\<lambda>allowed. cap_allows allowed (capability t)) (mf_capabilities manifest)) tokens of
             None \<Rightarrow> Inr ()
           | Some t \<Rightarrow> Inl (profile_denial (cap_description (capability t)))))"

definition check_tokens_against_active_profile ::
  "time \<Rightarrow> mcp_server \<Rightarrow> capability_token list \<Rightarrow> 'm hypervisor \<Rightarrow> unit mcp_result" where
  "check_tokens_against_active_profile now srv tokens hv =
     (if list_ex (\<lambda>t. is_revoked (nx_capabilities hv) (tok_id t)) tokens
      then Inl (OtherErr ''capability token has been revoked'')
      else case ms_profile srv of
             Some profile \<Rightarrow> check_tokens_against_profile now tokens profile
           | None \<Rightarrow> check_tokens_fresh now tokens)"

subsection \<open>Executing tools\<close>

record tool_output_response =
  tr_success :: bool
  tr_result :: "string option"
  tr_error :: "string option"
  tr_execution_time_ms :: u64
  tr_fuel_consumed :: u64
  tr_rollback_performed :: bool
  tr_snapshot_id :: "uuid option"

text \<open>Reading result bytes as text, and base64 where they are none.\<close>

record text_codec =
  tc_utf8 :: "bytes \<Rightarrow> string option"
  tc_base64 :: "bytes \<Rightarrow> string"

definition response_of :: "text_codec \<Rightarrow> tool_output \<Rightarrow> tool_output_response" where
  "response_of tc out =
     \<lparr>tr_success = to_success out,
      tr_result = map_option (\<lambda>b. case tc_utf8 tc b of Some s \<Rightarrow> s | None \<Rightarrow> tc_base64 tc b) (to_result out),
      tr_error = to_error out, tr_execution_time_ms = to_execution_time_ms out, tr_fuel_consumed = to_fuel_consumed out,
      tr_rollback_performed = to_rollback_performed out, tr_snapshot_id = to_snapshot_id out\<rparr>"

text \<open>The \<open>?\<close> operator: an error ends the handler with the state as it is.\<close>

definition and_then :: "'a mcp_result \<Rightarrow> 's \<Rightarrow> ('a \<Rightarrow> ('b mcp_result \<times> 's) option) \<Rightarrow> ('b mcp_result \<times> 's) option" where
  "and_then r s k = (case r of Inl e \<Rightarrow> Some (Inl e, s) | Inr x \<Rightarrow> k x)"

definition answer :: "text_codec \<Rightarrow> (tool_output result \<times> 's) option \<Rightarrow> (tool_output_response mcp_result \<times> 's) option" where
  "answer tc r = map_option (\<lambda>(res, s). (map_sum NexusErr (response_of tc) res, s)) r"

definition mcp_tool :: "string \<Rightarrow> bytes \<Rightarrow> string option \<Rightarrow> tool_definition" where
  "mcp_tool name bs entry = (case entry of Some e \<Rightarrow> (tool_new name bs)\<lparr>entry_point := e\<rparr> | None \<Rightarrow> tool_new name bs)"

definition input_or_empty :: "bytes option \<Rightarrow> bytes option" where
  "input_or_empty input = Some (case input of Some b \<Rightarrow> b | None \<Rightarrow> str_bytes ''{}'')"

definition do_execute ::
  "'m hv_env \<Rightarrow> text_codec \<Rightarrow> mcp_fs \<Rightarrow> mcp_server \<Rightarrow> call_inputs \<Rightarrow> string \<Rightarrow> string option \<Rightarrow> bytes option \<Rightarrow> 'm hypervisor
   \<Rightarrow> (tool_output_response mcp_result \<times> 'm hypervisor) option" where
  "do_execute env tc fs srv ca wasm_path entry input hv =
     and_then (ensure_tool_allowed srv ''nexus_execute'') hv (\<lambda>_.
     and_then (load_module srv fs wasm_path) hv (\<lambda>bs.
       answer tc (execute_tool_with_tokens env ca (mcp_tool ''mcp_tool'' bs entry) (input_or_empty input) [] hv)))"

definition do_execute_retry ::
  "'m hv_env \<Rightarrow> text_codec \<Rightarrow> mcp_fs \<Rightarrow> mcp_server \<Rightarrow> (nat \<Rightarrow> call_inputs \<times> feedback_env) \<Rightarrow> string \<Rightarrow> string option \<Rightarrow> bytes option
   \<Rightarrow> 'm hypervisor \<Rightarrow> (tool_output_response mcp_result \<times> 'm hypervisor) option" where
  "do_execute_retry env tc fs srv ins wasm_path entry input hv =
     and_then (ensure_tool_allowed srv ''nexus_execute_retry'') hv (\<lambda>_.
     and_then (load_module srv fs wasm_path) hv (\<lambda>bs.
       answer tc (execute_with_retry_with_tokens env ins (mcp_tool ''mcp_tool'' bs entry) (input_or_empty input) [] hv)))"

record proof_response =
  pr_output :: tool_output_response
  pr_digest :: typed_digest
  pr_scorecard :: proof_scorecard
  pr_capsule :: "proof_capsule option"

definition should_include_full_proof_capsule :: "os_env \<Rightarrow> bool \<Rightarrow> bool" where
  "should_include_full_proof_capsule oe debug_build =
     (case oe_var oe ''NEXUS_MCP_RETURN_FULL_PROOF'' of
        Some v \<Rightarrow> if oe_unicode oe v then to_ascii_lowercase v \<in> {''1'', ''true'', ''yes'', ''on'', ''debug'', ''enabled''} else debug_build
      | None \<Rightarrow> debug_build)"

definition do_execute_proof ::
  "'m hv_env \<Rightarrow> capsule_env \<Rightarrow> proof_keys \<Rightarrow> os_env \<Rightarrow> bool \<Rightarrow> text_codec \<Rightarrow> mcp_fs \<Rightarrow> mcp_server \<Rightarrow> call_inputs \<Rightarrow> proof_call
   \<Rightarrow> string \<Rightarrow> bytes option \<Rightarrow> 'm hypervisor \<Rightarrow> (proof_response mcp_result \<times> 'm hypervisor) option" where
  "do_execute_proof env ce pk oe debug_build tc fs srv ca pf wasm_path input hv =
     and_then (ensure_tool_allowed srv ''nexus_execute_proof'') hv (\<lambda>_.
     and_then (ensure_proof_enabled srv) hv (\<lambda>_.
     and_then (load_module srv fs wasm_path) hv (\<lambda>bs.
       (case execute_tool_proof env ce pk ca pf (tool_new ''mcp_tool_proof'' bs) (input_or_empty input) hv of
          None \<Rightarrow> None
        | Some (Inl e, hv') \<Rightarrow> Some (Inl (NexusErr e), hv')
        | Some (Inr (out, capsule), hv') \<Rightarrow>
            (case capsule_digest ce capsule of
               None \<Rightarrow> Some (Inl (OtherErr ''unable to compute proof capsule digest: {e}''), hv')
             | Some digest \<Rightarrow>
                 Some (Inr \<lparr>pr_output = response_of tc out, pr_digest = digest, pr_scorecard = scorecard_from_capsule capsule,
                            pr_capsule = (if should_include_full_proof_capsule oe debug_build then Some capsule else None)\<rparr>, hv'))))))"

definition do_execute_wasi ::
  "'m hv_env \<Rightarrow> 'm wasi_wt \<Rightarrow> (string \<Rightarrow> uuid option) \<Rightarrow> (nat \<Rightarrow> uuid) \<Rightarrow> text_codec \<Rightarrow> mcp_fs \<Rightarrow> mcp_server \<Rightarrow> call_inputs
   \<Rightarrow> string \<Rightarrow> string option \<Rightarrow> bytes option \<Rightarrow> capability_spec list option \<Rightarrow> string option \<Rightarrow> 'm hypervisor
   \<Rightarrow> (tool_output_response mcp_result \<times> 'm hypervisor) option" where
  "do_execute_wasi env wa parse_uuid ids tc fs srv ca wasm_path entry input specs parent hv =
     and_then (ensure_tool_allowed srv ''nexus_execute_wasi'') hv (\<lambda>_.
     and_then (ensure_wasi_enabled srv) hv (\<lambda>_.
     and_then (load_module srv fs wasm_path) hv (\<lambda>bs.
     and_then (parse_capabilities (case specs of Some xs \<Rightarrow> xs | None \<Rightarrow> [])) hv (\<lambda>caps.
       (case execute_wasi_tokens env parse_uuid (ca_now ca) ids srv caps parent hv of
          (r, hv1) \<Rightarrow>
            and_then r hv1 (\<lambda>tokens.
            and_then (check_tokens_against_active_profile (ca_now ca) srv tokens hv1) hv1 (\<lambda>_.
            and_then (check_tokens_against_active_profile (ca_now ca) srv tokens hv1) hv1 (\<lambda>_.
              answer tc (execute_tool_wasi env wa ca ((mcp_tool ''mcp_tool_wasi'' bs entry)\<lparr>required_capabilities := caps\<rparr>)
                (input_or_empty input) tokens hv1)))))))))"

subsection \<open>Issuing tokens\<close>

record token_response =
  tk_token_id :: uuid
  tk_capability :: string
  tk_expires_in_secs :: u64

definition do_issue_token ::
  "'m hv_env \<Rightarrow> (string \<Rightarrow> url option) \<Rightarrow> time \<Rightarrow> uuid \<Rightarrow> mcp_server \<Rightarrow> string \<Rightarrow> string option \<Rightarrow> u64 option \<Rightarrow> 'm hypervisor
   \<Rightarrow> token_response mcp_result \<times> 'm hypervisor" where
  "do_issue_token env url_parse now new_id srv cap_type path validity_secs hv =
     (case ensure_tool_allowed srv ''nexus_issue_token'' of
        Inl e \<Rightarrow> (Inl e, hv)
      | Inr _ \<Rightarrow>
     (case (case path of
              Some url \<Rightarrow> if cap_type \<in> {''http_get'', ''http_post''} then validate_http_capability_pattern url_parse url else Inr ()
            | None \<Rightarrow> Inr ()) of
        Inl e \<Rightarrow> (Inl (OtherErr ''{e}''), hv)
      | Inr _ \<Rightarrow>
     (case parse_capability_from_str cap_type path of
        None \<Rightarrow> (Inl (OtherErr (''Unknown capability type: '' @ cap_type)), hv)
      | Some cap \<Rightarrow>
     (case sanitize_token_request cap validity_secs of
        Inl e \<Rightarrow> (Inl e, hv)
      | Inr (cap, secs) \<Rightarrow>
     (case ensure_operator_allowlisted srv cap of
        Inl e \<Rightarrow> (Inl e, hv)
      | Inr _ \<Rightarrow>
          (case issue_token env now new_id cap ''mcp_client'' (from_secs secs) hv of
             (Inl e, hv') \<Rightarrow> (Inl (NexusErr e), hv')
           | (Inr token, hv') \<Rightarrow>
               (Inr \<lparr>tk_token_id = tok_id token, tk_capability = cap_debug cap, tk_expires_in_secs = secs\<rparr>, hv')))))))"

definition do_attenuate_token ::
  "'m hv_env \<Rightarrow> (string \<Rightarrow> uuid option) \<Rightarrow> time \<Rightarrow> uuid \<Rightarrow> mcp_server \<Rightarrow> string \<Rightarrow> string \<Rightarrow> string option \<Rightarrow> u64 option \<Rightarrow> 'm hypervisor
   \<Rightarrow> token_response mcp_result \<times> 'm hypervisor" where
  "do_attenuate_token env parse_uuid now new_id srv parent_token_id cap_type path validity_secs hv =
     (case ensure_tool_allowed srv ''nexus_attenuate_token'' of
        Inl e \<Rightarrow> (Inl e, hv)
      | Inr _ \<Rightarrow>
     (case parse_uuid parent_token_id of
        None \<Rightarrow> (Inl (OtherErr ''invalid parent_token_id UUID: {e}''), hv)
      | Some pid \<Rightarrow>
     (case parse_capability_from_str cap_type path of
        None \<Rightarrow> (Inl (OtherErr (''Unknown capability type: '' @ cap_type)), hv)
      | Some cap \<Rightarrow>
     (case sanitize_token_request cap validity_secs of
        Inl e \<Rightarrow> (Inl e, hv)
      | Inr (cap, secs) \<Rightarrow>
          (case attenuate_token env now new_id pid cap ''mcp_client'' (from_secs secs) hv of
             (Inl e, hv') \<Rightarrow> (Inl (NexusErr e), hv')
           | (Inr token, hv') \<Rightarrow>
               (Inr \<lparr>tk_token_id = tok_id token, tk_capability = cap_debug cap, tk_expires_in_secs = secs\<rparr>, hv'))))))"

subsection \<open>Snapshots\<close>

record snapshot_create_response =
  sc_snapshot_id :: uuid
  sc_source :: string
  sc_semantics :: string

definition do_snapshot_create ::
  "'m hv_env \<Rightarrow> call_env \<Rightarrow> mcp_server \<Rightarrow> string option \<Rightarrow> string option \<Rightarrow> 'm hypervisor
   \<Rightarrow> (snapshot_create_response mcp_result \<times> 'm hypervisor) option" where
  "do_snapshot_create env ce srv lbl src hv =
     and_then (ensure_tool_allowed srv ''nexus_snapshot_create'') hv (\<lambda>_.
     and_then (ensure_snapshot_enabled srv) hv (\<lambda>_.
       let label = (case lbl of Some l \<Rightarrow> l | None \<Rightarrow> ''mcp_snapshot''); source = (case src of Some s \<Rightarrow> s | None \<Rightarrow> ''empty_baseline'')
       in if source = ''latest_runtime''
          then (case latest_runtime_snapshot_id hv of
                  None \<Rightarrow> Some (Inl (OtherErr ''no latest runtime snapshot is available; call nexus_execute first or omit source for an empty/stateless baseline''), hv)
                | Some i \<Rightarrow> Some (Inr \<lparr>sc_snapshot_id = i, sc_source = ''latest_runtime'', sc_semantics = ''runtime_capture_from_execute''\<rparr>, hv))
          else if source \<noteq> ''empty_baseline'' then Some (Inl (OtherErr ''unsupported snapshot source''), hv)
          else (case create_snapshot (he_snap env) ce [] fs_new \<lparr>captured_globals = [], captured_tables = []\<rparr>
                       \<lparr>operation_name = label, input_hash = [], creation_time_us = 0, memory_pages = 0, preconditions = []\<rparr>
                       (nx_snapshots hv) (nx_disk hv) of
                  (Inl e, m, d) \<Rightarrow> Some (Inl (NexusErr e), hv\<lparr>nx_snapshots := m, nx_disk := d\<rparr>)
                | (Inr s, m, d) \<Rightarrow>
                    Some (Inr \<lparr>sc_snapshot_id = snap_id s, sc_source = ''empty_baseline'',
                               sc_semantics = ''empty_stateless_baseline_no_wasm_memory_or_execution_state''\<rparr>,
                          hv\<lparr>nx_snapshots := m, nx_disk := d\<rparr>))))"

record restored_state_summary =
  rs_byte_len :: nat
  rs_sha256 :: string
  rs_preview_len :: nat
  rs_preview_base64 :: string
  rs_captured_globals :: nat
  rs_captured_tables :: nat

definition RESTORED_MEMORY_PREVIEW_BYTES :: nat where
  "RESTORED_MEMORY_PREVIEW_BYTES = 64"

definition restored_state_summary_of :: "'m hv_env \<Rightarrow> text_codec \<Rightarrow> rollback_result \<Rightarrow> bool \<Rightarrow> restored_state_summary" where
  "restored_state_summary_of env tc r include_memory_preview =
     (let preview_len = (if include_memory_preview then min (length (rr_memory r)) RESTORED_MEMORY_PREVIEW_BYTES else 0)
      in \<lparr>rs_byte_len = length (rr_memory r), rs_sha256 = to_hex (he_sha256 env (rr_memory r)), rs_preview_len = preview_len,
          rs_preview_base64 = tc_base64 tc (take preview_len (rr_memory r)),
          rs_captured_globals = length (captured_globals (rr_execution_state r)),
          rs_captured_tables = length (captured_tables (rr_execution_state r))\<rparr>)"

definition caller_has_memory_preview :: "time \<Rightarrow> capability_token list \<Rightarrow> bool" where
  "caller_has_memory_preview now tokens = list_ex (\<lambda>t. token_allows now t MemoryPreview) tokens"

record rollback_response =
  rb_snapshot_id :: uuid
  rb_timestamp :: time
  rb_fs_operations :: nat
  rb_restored_state :: "restored_state_summary option"

definition do_snapshot_rollback ::
  "'m hv_env \<Rightarrow> (string \<Rightarrow> uuid option) \<Rightarrow> text_codec \<Rightarrow> time \<Rightarrow> (nat \<Rightarrow> uuid) \<Rightarrow> mcp_server \<Rightarrow> string \<Rightarrow> bool option
   \<Rightarrow> capability_spec list option \<Rightarrow> string option \<Rightarrow> string option \<Rightarrow> 'm hypervisor
   \<Rightarrow> (rollback_response mcp_result \<times> 'm hypervisor) option" where
  "do_snapshot_rollback env parse_uuid tc now ids srv snapshot_id include specs parent expected_digest hv =
     and_then (ensure_tool_allowed srv ''nexus_snapshot_rollback'') hv (\<lambda>_.
     and_then (ensure_snapshot_enabled srv) hv (\<lambda>_.
     and_then (case parse_uuid snapshot_id of Some i \<Rightarrow> Inr i | None \<Rightarrow> Inl (OtherErr ''Invalid snapshot UUID: {e}'')) hv (\<lambda>i.
     and_then (parse_capabilities (case specs of Some xs \<Rightarrow> xs | None \<Rightarrow> [])) hv (\<lambda>caps.
     and_then (case expected_digest of
                 None \<Rightarrow> Inr ()
               | Some expected \<Rightarrow>
                   (case snapshot_content_digest (nx_snapshots hv) i of
                      Some actual \<Rightarrow> if to_ascii_lowercase actual = to_ascii_lowercase expected then Inr ()
                                     else Inl (OtherErr ''snapshot digest mismatch'')
                    | None \<Rightarrow> Inl (OtherErr ''snapshot digest mismatch''))) hv (\<lambda>_.
       (case execute_wasi_tokens env parse_uuid now ids srv caps parent hv of
          (r, hv1) \<Rightarrow>
            and_then r hv1 (\<lambda>tokens.
            and_then (check_tokens_against_active_profile now srv tokens hv1) hv1 (\<lambda>_.
              (case rollback_snapshot env now i hv1 of
                 None \<Rightarrow> None
               | Some (Inl e, hv2) \<Rightarrow> Some (Inl (NexusErr e), hv2)
               | Some (Inr result, hv2) \<Rightarrow>
                   Some (Inr \<lparr>rb_snapshot_id = rr_snapshot_id result, rb_timestamp = rr_timestamp result,
                              rb_fs_operations = length (rr_fs_operations result),
                              rb_restored_state = (if include = Some True
                                then Some (restored_state_summary_of env tc result (caller_has_memory_preview now tokens)) else None)\<rparr>,
                         hv2))))))))))"

subsection \<open>Racing branches\<close>

definition resolve_fork_base_snapshot ::
  "(string \<Rightarrow> uuid option) \<Rightarrow> string option \<Rightarrow> string option \<Rightarrow> 'm hypervisor \<Rightarrow> (uuid option \<times> string \<times> string) mcp_result" where
  "resolve_fork_base_snapshot parse_uuid base_uuid src hv =
     (case (base_uuid, src) of
        (Some _, Some _) \<Rightarrow> Inl (OtherErr ''base_snapshot_id and source are mutually exclusive; provide one snapshot seed or omit both for from-scratch racing'')
      | (Some s, None) \<Rightarrow>
          (case parse_uuid s of
             None \<Rightarrow> Inl (OtherErr ''Invalid base_snapshot_id UUID: {e}'')
           | Some i \<Rightarrow> Inr (Some i, ''explicit_snapshot_id'', ''fork_from_captured_runtime_snapshot''))
      | (None, Some s) \<Rightarrow>
          (if s \<noteq> ''latest_runtime'' then Inl (OtherErr ''unsupported fork_and_race snapshot source'')
           else case latest_runtime_snapshot_id hv of
                  None \<Rightarrow> Inl (OtherErr ''no latest runtime snapshot is available; call nexus_execute first or omit source for from-scratch racing'')
                | Some i \<Rightarrow> Inr (Some i, ''latest_runtime'', ''fork_from_captured_runtime_snapshot''))
      | (None, None) \<Rightarrow> Inr (None, ''from_scratch'', ''from_scratch_no_snapshot_restore''))"

record branch_spec =
  bs_entry :: "string option"
  bs_input :: "bytes option"

record fork_and_race_response =
  fr_winner_branch_id :: uuid
  fr_branches_tried :: nat
  fr_branches_succeeded :: nat
  fr_winner_elapsed_ms :: u64
  fr_winner_output :: "tool_output_response option"
  fr_base_snapshot_id :: "uuid option"
  fr_base_snapshot_source :: string
  fr_semantics :: string

definition fork_branch :: "bytes \<Rightarrow> uuid \<Rightarrow> (nat \<Rightarrow> uuid) \<Rightarrow> nat \<Rightarrow> branch_spec \<Rightarrow> speculative_branch" where
  "fork_branch bs base ids k spec = branch_new (ids k) base (mcp_tool ''fork_branch'' bs (bs_entry spec)) (action_new ''mcp_fork_branch'' Static)"

text \<open>A branch runs from the snapshot when there is one, and from scratch otherwise.\<close>

definition run_fork_branch :: "uuid option \<Rightarrow> speculative_branch \<Rightarrow> branch_task" where
  "run_fork_branch base b = TaskStart (b, base)"

text \<open>The schedule of the race is the argument \<open>evs\<close>. The hypervisor of the MCP server has no warm pool, so a race leaves no blocking task behind.\<close>

definition do_fork_and_race ::
  "'m hv_env \<Rightarrow> (string \<Rightarrow> uuid option) \<Rightarrow> text_codec \<Rightarrow> mcp_fs \<Rightarrow> (uuid \<Rightarrow> call_inputs \<times> time)
   \<Rightarrow> nat race_event list \<Rightarrow> uuid \<Rightarrow> (nat \<Rightarrow> uuid) \<Rightarrow> mcp_server \<Rightarrow> string \<Rightarrow> string option \<Rightarrow> string option
   \<Rightarrow> branch_spec list \<Rightarrow> string option \<Rightarrow> 'm hypervisor \<Rightarrow> (fork_and_race_response mcp_result \<times> 'm hypervisor) option" where
  "do_fork_and_race env parse_uuid tc fs ins evs scratch_id ids srv wasm_path base_uuid src specs strategy hv =
     and_then (ensure_tool_allowed srv ''nexus_fork_and_race'') hv (\<lambda>_.
     and_then (ensure_fork_enabled srv) hv (\<lambda>_.
     and_then (load_module srv fs wasm_path) hv (\<lambda>bs.
     and_then (resolve_fork_base_snapshot parse_uuid base_uuid src hv) hv (\<lambda>(base, base_source, semantics).
       let branch_base = (case base of Some i \<Rightarrow> i | None \<Rightarrow> scratch_id);
           branches = map (\<lambda>(k, spec). fork_branch bs branch_base ids k spec) (enumerate 0 specs);
           inputs = (\<lambda>i. case map_of (rev (zip (map sb_id branches) (map (\<lambda>s. input_or_empty (bs_input s)) specs))) i of
                            Some x \<Rightarrow> x | None \<Rightarrow> input_or_empty None);
           config = \<lparr>max_branches = length branches, branch_timeout = 30 * 1000000000,
                     selection_strategy = (if strategy = Some ''wait_all'' then WaitAll else FirstSuccess)\<rparr>
       in case fork_and_race (poll_branch env ins inputs) blocking_done (run_fork_branch base) branches config evs (race_start hv) of
            None \<Rightarrow> None
          | Some (Inl e, st) \<Rightarrow> Some (Inl (NexusErr e), rc_hv st)
          | Some (Inr res, st) \<Rightarrow>
              Some (Inr \<lparr>fr_winner_branch_id = bo_branch_id (sr_winner res), fr_branches_tried = sr_branches_tried res,
                         fr_branches_succeeded = sr_branches_succeeded res,
                         fr_winner_elapsed_ms = word_of_nat (as_millis (bo_elapsed (sr_winner res))),
                         fr_winner_output = map_option (response_of tc) (bo_output (sr_winner res)), fr_base_snapshot_id = base,
                         fr_base_snapshot_source = base_source, fr_semantics = semantics\<rparr>, rc_hv st)))))"

subsection \<open>What a client sees of the file system\<close>

text \<open>The part of the file system a server may show: the contents of the requested file when it is a regular file below a module directory.\<close>

definition visible_module :: "mcp_server \<Rightarrow> mcp_fs \<Rightarrow> string \<Rightarrow> bytes option option" where
  "visible_module srv fs wasm_path =
     (case mf_canonicalize fs wasm_path of
        Some c \<Rightarrow> if list_ex (path_starts_with c) (ms_module_dirs srv) \<and> mf_is_file fs c then Some (mf_read fs c) else None
      | None \<Rightarrow> None)"

text \<open>The response to a client: errors are replaced by the object the server sends for them.\<close>

definition client_view ::
  "(uuid \<Rightarrow> string) \<Rightarrow> uuid \<Rightarrow> ('a mcp_result \<times> 's) option \<Rightarrow> (((int option \<times> string) + 'a) \<times> 's) option" where
  "client_view uuid_str i r = map_option (\<lambda>(res, s). (map_sum (tool_anyhow_error_response uuid_str i) id res, s)) r"

definition error_view :: "(uuid \<Rightarrow> string) \<Rightarrow> uuid \<Rightarrow> 'a mcp_result \<Rightarrow> (int option \<times> string) + 'a" where
  "error_view uuid_str i = map_sum (tool_anyhow_error_response uuid_str i) id"

lemma client_view_cong:
  assumes "error_view u i r = error_view u i r'" and "\<And>x. r = Inr x \<Longrightarrow> r' = Inr x \<Longrightarrow> client_view u i (k x) = client_view u i (k' x)"
  shows "client_view u i (and_then r s k) = client_view u i (and_then r' s k')"
  using assms by (cases r; cases r') (simp_all add: and_then_def error_view_def client_view_def)

lemma client_view_same:
  "(\<And>x. r = Inr x \<Longrightarrow> client_view u i (k x) = client_view u i (k' x)) \<Longrightarrow> client_view u i (and_then r s k) = client_view u i (and_then r s k')"
  by (rule client_view_cong) simp_all

lemma load_module_view:
  "error_view u i (load_module srv fs wasm_path) =
     (case absolute_request_path fs wasm_path of
        Inl e \<Rightarrow> Inl (tool_anyhow_error_response u i e)
      | Inr requested \<Rightarrow>
          (case if path_is_lexically_allowed requested (ms_module_dirs srv) then visible_module srv fs wasm_path else None of
             None \<Rightarrow> Inl (None, safe_message WasmPathInaccessible)
           | Some None \<Rightarrow> Inl (None, ''internal error ['' @ u i @ '']'')
           | Some (Some bs) \<Rightarrow> Inr bs))"
  unfolding load_module_def resolve_wasm_path_def visible_module_def error_view_def
  by (simp add: tool_anyhow_error_response_def split: sum.split option.split)

text \<open>A module is loaded from a regular file whose canonical path is below a module directory, or not at all.\<close>

lemma load_module_inside:
  assumes "load_module srv fs wasm_path = Inr bs"
  obtains p dir where "mf_canonicalize fs wasm_path = Some p" and "mf_is_file fs p" and "dir \<in> set (ms_module_dirs srv)"
    and "path_starts_with p dir" and "mf_read fs p = Some bs"
  using assms unfolding load_module_def resolve_wasm_path_def
  by (simp add: list_ex_iff split: sum.splits option.splits if_split_asm) blast

lemma load_module_agrees:
  assumes "mf_cwd fs = mf_cwd fs'" and "visible_module srv fs wasm_path = visible_module srv fs' wasm_path"
  shows "error_view u i (load_module srv fs wasm_path) = error_view u i (load_module srv fs' wasm_path)"
  unfolding load_module_view absolute_request_path_def assms ..

lemma load_module_invisible:
  assumes "visible_module srv fs wasm_path = None"
  obtains e where "load_module srv fs wasm_path = Inl e"
proof (cases "load_module srv fs wasm_path")
  case (Inr bs)
  then show thesis by (rule load_module_inside) (use assms in \<open>auto simp: visible_module_def list_ex_iff split: if_split_asm\<close>)
qed

text \<open>
  The host as a WASI guest sees it: two hosts are the same for a list of capabilities when they give the same answers for the
  context built from these capabilities, its streams and its directories.
\<close>

definition same_wasi :: "capability list \<Rightarrow> 'm wasi_wt \<Rightarrow> 'm wasi_wt \<Rightarrow> bool" where
  "same_wasi caps wa wa' \<longleftrightarrow> (let cfg = from_capabilities caps in
     wa_set_fuel wa = wa_set_fuel wa' \<and> wa_add_to_linker wa = wa_add_to_linker wa'
     \<and> (\<forall>p \<in> set (preopens cfg). wa_preopened_dir wa (preopen_entry p) = wa_preopened_dir wa' (preopen_entry p))
     \<and> (\<forall>md lim fuel. wa_instantiate wa md (wasi_context cfg) lim fuel = wa_instantiate wa' md (wasi_context cfg) lim fuel)
     \<and> (\<forall>sched md f st. wa_call wa sched md (wasi_context cfg) f st = wa_call wa' sched md (wasi_context cfg) f st))"

lemma open_dirs_cong:
  "\<forall>p \<in> set ps. wa_preopened_dir wa (preopen_entry p) = wa_preopened_dir wa' (preopen_entry p) \<Longrightarrow> open_dirs wa ps = open_dirs wa' ps"
  by (induction ps) (auto split: option.split)

lemma execute_tool_wasi_cong:
  assumes "same_wasi (required_capabilities tool) wa wa'"
  shows "execute_tool_wasi env wa ca tool input tokens hv = execute_tool_wasi env wa' ca tool input tokens hv"
proof -
  have w: "wasi_worker wa xe cfg md inp (from_capabilities (required_capabilities tool))
      = wasi_worker wa' xe cfg md inp (from_capabilities (required_capabilities tool))" for xe cfg md inp
  proof -
    let ?cfg = "from_capabilities (required_capabilities tool)"
    have eqs: "open_dirs wa (preopens ?cfg) = open_dirs wa' (preopens ?cfg)" "\<And>fuel. wa_set_fuel wa fuel = wa_set_fuel wa' fuel"
      "wa_add_to_linker wa = wa_add_to_linker wa'"
      "\<And>md lim fuel. wa_instantiate wa md (wasi_context ?cfg) lim fuel = wa_instantiate wa' md (wasi_context ?cfg) lim fuel"
      "\<And>sched md f st. wa_call wa sched md (wasi_context ?cfg) f st = wa_call wa' sched md (wasi_context ?cfg) f st"
      using assms by (auto simp: same_wasi_def Let_def intro: open_dirs_cong)
    show ?thesis unfolding wasi_worker_def eqs ..
  qed
  show ?thesis unfolding execute_tool_wasi_def run_wasi_def execute_wasi_def execute_wasi_module_def w ..
qed


definition demo_server :: mcp_server where
  "demo_server = \<lparr>ms_module_dirs = [''/m''], ms_capability_allowlist = None, ms_iq_allowlist = None, ms_profile = None, ms_forced_tools = None\<rparr>"

text \<open>A file system in which the module is a link to a file elsewhere, and one in which it is missing.\<close>

definition linked_fs :: mcp_fs where
  "linked_fs = \<lparr>mf_canonicalize = (\<lambda>p. if p = ''/m/a'' then Some ''/etc/passwd'' else None), mf_is_dir = (\<lambda>_. False), mf_is_file = (\<lambda>_. True),
     mf_read = (\<lambda>_. Some [1]), mf_cwd = None\<rparr>"

definition missing_fs :: mcp_fs where
  "missing_fs = linked_fs\<lparr>mf_canonicalize := \<lambda>_. None, mf_is_file := \<lambda>_. False\<rparr>"

text \<open>A host with a regular module, and a second one that cannot open any directory: a guest without capabilities cannot tell them apart.\<close>

definition module_fs :: mcp_fs where
  "module_fs = linked_fs\<lparr>mf_canonicalize := Some\<rparr>"

definition closed_wasi :: "unit wasi_wt" where
  "closed_wasi = demo_wasi\<lparr>wa_preopened_dir := \<lambda>_. Some ''gone''\<rparr>"


subsection \<open>The tokens of a client\<close>

lemma issue_token_ok:
  "issue_token env now new_id cap by_whom validity hv = (Inr t, hv') \<Longrightarrow>
     tok_id t = new_id \<and> capability t = cap \<and> expires_at t = now + validity
     \<and> hv' = hv\<lparr>nx_capabilities := (nx_capabilities hv)\<lparr>active_tokens := hm_insert new_id t (active_tokens (nx_capabilities hv))\<rparr>\<rparr>"
  by (auto simp: issue_token_def manager_issue_def token_new_def Let_def split: sum.splits option.splits)

lemma attenuate_token_ok:
  "attenuate_token env now new_id pid cap by_whom validity hv = (Inr t, hv') \<Longrightarrow>
     \<exists>p. hm_get (active_tokens (nx_capabilities hv)) pid = Some p \<and> tok_id t = new_id \<and> capability t = cap
       \<and> cap_is_subset_of cap (capability p) \<and> expires_at t = min (now + validity) (expires_at p)
       \<and> hv' = hv\<lparr>nx_capabilities := (nx_capabilities hv)\<lparr>active_tokens := hm_insert new_id t (active_tokens (nx_capabilities hv))\<rparr>\<rparr>"
  by (auto simp: attenuate_token_def manager_attenuate_def token_attenuate_def Let_def split: sum.splits option.splits if_split_asm)

text \<open>A step that changes the capability manager only.\<close>

definition only_caps :: "'m hypervisor \<Rightarrow> 'm hypervisor \<Rightarrow> bool" where
  "only_caps hv hv' \<longleftrightarrow> (\<exists>m. hv' = hv\<lparr>nx_capabilities := m\<rparr>)"

lemma only_caps_refl [simp]: "only_caps hv hv"
  unfolding only_caps_def by (rule exI [of _ "nx_capabilities hv"]) simp

lemma only_caps_trans: "only_caps hv hv1 \<Longrightarrow> only_caps hv1 hv2 \<Longrightarrow> only_caps hv hv2"
  by (auto simp: only_caps_def)

lemma issue_token_state: "issue_token env now new_id cap by_whom validity hv = (r, hv') \<Longrightarrow> only_caps hv hv'"
  by (auto simp: issue_token_def only_caps_def split: prod.splits)

lemma attenuate_token_state: "attenuate_token env now new_id pid cap by_whom validity hv = (r, hv') \<Longrightarrow> only_caps hv hv'"
  by (auto simp: attenuate_token_def only_caps_def split: prod.splits)

lemma sanitize_all_ok:
  "sanitize_all caps = Inr xs \<Longrightarrow> CapAll \<notin> set caps \<and> xs = map (\<lambda>c. (c, MAX_TOKEN_VALIDITY_SECS)) caps"
  by (induction caps arbitrary: xs) (auto simp: sanitize_token_request_def map_sum_Inr split: if_split_asm)

text \<open>A token issued for a request: the requested capability, for an hour at most.\<close>

definition token_for :: "time \<Rightarrow> capability_token \<Rightarrow> capability \<Rightarrow> bool" where
  "token_for now t c \<longleftrightarrow> capability t = c \<and> c \<noteq> CapAll \<and> expires_at t \<le> now + 3600 * 1000000000"

lemma issue_all_ok:
  assumes "issue_all env now ids k allowlist (map (\<lambda>c. (c, MAX_TOKEN_VALIDITY_SECS)) caps) hv = (Inr ts, hv')" and "CapAll \<notin> set caps"
  shows "list_all2 (token_for now) ts caps \<and> list_all (capability_allowed_by allowlist) caps"
  using assms
proof (induction caps arbitrary: k ts hv)
  case (Cons c caps)
  from Cons.prems obtain t hv1 ts' where c: "capability_allowed_by allowlist c"
    and t: "issue_token env now (ids k) c ''mcp_operator_allowlist'' (from_secs MAX_TOKEN_VALIDITY_SECS) hv = (Inr t, hv1)"
    and rest: "issue_all env now ids (Suc k) allowlist (map (\<lambda>c. (c, MAX_TOKEN_VALIDITY_SECS)) caps) hv1 = (Inr ts', hv')" and ts: "ts = t # ts'"
    by (auto simp: map_sum_Inr split: if_split_asm prod.splits sum.splits)
  from issue_token_ok [OF t] Cons.prems(2) have "token_for now t c"
    by (auto simp: token_for_def from_secs_def MAX_TOKEN_VALIDITY_SECS_def)
  with Cons.IH [OF rest] Cons.prems(2) c ts show ?case by simp
qed simp

lemma attenuate_all_ok:
  assumes "attenuate_all env now ids k pid (map (\<lambda>c. (c, MAX_TOKEN_VALIDITY_SECS)) caps) hv = (Inr ts, hv')" and "CapAll \<notin> set caps"
    and "hm_get (active_tokens (nx_capabilities hv)) pid = Some p" and "pid \<notin> range ids"
  shows "list_all2 (token_for now) ts caps \<and> list_all (\<lambda>t. cap_is_subset_of (capability t) (capability p) \<and> expires_at t \<le> expires_at p) ts"
  using assms(1-3)
proof (induction caps arbitrary: k ts hv)
  case (Cons c caps)
  from Cons.prems obtain t hv1 ts'
    where t: "attenuate_token env now (ids k) pid c ''mcp_client'' (from_secs MAX_TOKEN_VALIDITY_SECS) hv = (Inr t, hv1)"
    and rest: "attenuate_all env now ids (Suc k) pid (map (\<lambda>c. (c, MAX_TOKEN_VALIDITY_SECS)) caps) hv1 = (Inr ts', hv')" and ts: "ts = t # ts'"
    by (auto simp: map_sum_Inr split: prod.splits sum.splits)
  from attenuate_token_ok [OF t] Cons.prems(2,3) have "token_for now t c" "cap_is_subset_of (capability t) (capability p)" "expires_at t \<le> expires_at p"
    and hv1: "hm_get (active_tokens (nx_capabilities hv1)) pid = hm_get (hm_insert (ids k) t (active_tokens (nx_capabilities hv))) pid"
    by (auto simp: token_for_def from_secs_def MAX_TOKEN_VALIDITY_SECS_def)
  moreover have "hm_get (active_tokens (nx_capabilities hv1)) pid = Some p"
    using hv1 assms(4) Cons.prems(3) by (auto simp: hm_get_insert)
  ultimately show ?case using Cons.IH [OF rest] Cons.prems(2) ts by simp
qed simp

lemma issue_all_state: "issue_all env now ids k allowlist xs hv = (r, hv') \<Longrightarrow> only_caps hv hv'"
  by (induction env now ids k allowlist xs hv arbitrary: r hv' rule: issue_all.induct)
    (auto split: if_split_asm prod.splits sum.splits dest: issue_token_state intro: only_caps_trans)

lemma attenuate_all_state: "attenuate_all env now ids k pid xs hv = (r, hv') \<Longrightarrow> only_caps hv hv'"
  by (induction env now ids k pid xs hv arbitrary: r hv' rule: attenuate_all.induct)
    (auto split: prod.splits sum.splits dest: attenuate_token_state intro: only_caps_trans)

lemma execute_wasi_tokens_state: "execute_wasi_tokens env parse_uuid now ids srv caps parent hv = (r, hv') \<Longrightarrow> only_caps hv hv'"
  by (auto simp: execute_wasi_tokens_def split: if_split_asm sum.splits option.splits dest: issue_all_state attenuate_all_state)

text \<open>Where the authority of the tokens comes from: the operator's allow-list, or the parent token of the client.\<close>

definition authority :: "(string \<Rightarrow> uuid option) \<Rightarrow> mcp_server \<Rightarrow> string option \<Rightarrow> 'm hypervisor \<Rightarrow> capability_token list \<Rightarrow> bool" where
  "authority parse_uuid srv parent hv tokens \<longleftrightarrow>
     (case parent of
        None \<Rightarrow> \<exists>allowlist. ms_capability_allowlist srv = Some allowlist
                  \<and> (\<forall>t \<in> set tokens. \<exists>allowed \<in> set allowlist. cap_is_subset_of (capability t) allowed)
      | Some s \<Rightarrow> \<exists>pid p. parse_uuid s = Some pid \<and> hm_get (active_tokens (nx_capabilities hv)) pid = Some p
                  \<and> (\<forall>t \<in> set tokens. cap_is_subset_of (capability t) (capability p) \<and> expires_at t \<le> expires_at p))"

lemma execute_wasi_tokens_ok:
  assumes "execute_wasi_tokens env parse_uuid now ids srv caps parent hv = (Inr tokens, hv')"
    and fresh: "\<forall>k. hm_get (active_tokens (nx_capabilities hv)) (ids k) = None"
  shows "list_all2 (token_for now) tokens caps \<and> (caps \<noteq> [] \<longrightarrow> authority parse_uuid srv parent hv tokens)"
proof (cases "caps = []")
  case False
  with assms(1) obtain xs where "sanitize_all caps = Inr xs" by (auto simp: execute_wasi_tokens_def split: sum.splits)
  note s = sanitize_all_ok [OF this] this
  show ?thesis
  proof (cases parent)
    case None
    with assms(1) False s obtain al where al: "ms_capability_allowlist srv = Some al"
      and i: "issue_all env now ids 0 al (map (\<lambda>c. (c, MAX_TOKEN_VALIDITY_SECS)) caps) hv = (Inr tokens, hv')"
      by (auto simp: execute_wasi_tokens_def split: option.splits)
    from issue_all_ok [OF i] s have ok: "list_all2 (token_for now) tokens caps" "list_all (capability_allowed_by al) caps" by auto
    then have "\<forall>t \<in> set tokens. \<exists>allowed \<in> set al. cap_is_subset_of (capability t) allowed"
      by (auto simp: list_all2_conv_all_nth list_all_length token_for_def capability_allowed_by_def list_ex_iff in_set_conv_nth) 
    with ok(1) al None show ?thesis by (simp add: authority_def)
  next
    case (Some q)
    with assms(1) False s obtain pid where pid: "parse_uuid q = Some pid"
      and a: "attenuate_all env now ids 0 pid (map (\<lambda>c. (c, MAX_TOKEN_VALIDITY_SECS)) caps) hv = (Inr tokens, hv')"
      by (auto simp: execute_wasi_tokens_def split: option.splits)
    from a False obtain p where p: "hm_get (active_tokens (nx_capabilities hv)) pid = Some p"
      by (cases caps) (auto split: prod.splits sum.splits dest: attenuate_token_ok)
    with fresh have "pid \<notin> range ids" by auto
    from attenuate_all_ok [OF a _ p this] s pid p Some show ?thesis by (auto simp: authority_def list_all_iff)
  qed
qed (use assms in \<open>simp add: execute_wasi_tokens_def\<close>)

lemma and_then_Inr [simp]: "and_then (Inr x) s k = k x"
  by (simp add: and_then_def)

lemma and_then_Inl [simp]: "and_then (Inl e) s k = Some (Inl e, s)"
  by (simp add: and_then_def)

text \<open>What the active profile and the transport let through.\<close>

definition permitted :: "mcp_server \<Rightarrow> string \<Rightarrow> (mcp_policy \<Rightarrow> bool) \<Rightarrow> capability list \<Rightarrow> bool" where
  "permitted srv tool switch caps \<longleftrightarrow>
     (case ms_forced_tools srv of Some tools \<Rightarrow> tool \<in> set tools | None \<Rightarrow> True)
     \<and> (case ms_profile srv of
          Some p \<Rightarrow> allows_tool (mf_mcp p) tool \<and> switch (mf_mcp p) \<and> (\<forall>c \<in> set caps. \<exists>allowed \<in> set (mf_capabilities p). cap_allows allowed c)
        | None \<Rightarrow> True)"

lemma tokens_checked:
  assumes "check_tokens_against_active_profile now srv tokens hv = Inr u"
  shows "(\<forall>t \<in> set tokens. token_is_valid now t \<and> \<not> is_revoked (nx_capabilities hv) (tok_id t))
    \<and> (case ms_profile srv of Some p \<Rightarrow> \<forall>t \<in> set tokens. \<exists>allowed \<in> set (mf_capabilities p). cap_allows allowed (capability t) | None \<Rightarrow> True)"
  using assms
  by (auto simp: check_tokens_against_active_profile_def check_tokens_against_profile_def check_tokens_fresh_def list_ex_iff list_all_iff
      find_None_iff split: if_split_asm option.splits)

lemma tool_gate: "ensure_tool_allowed srv tool = Inr u \<Longrightarrow>
  (case ms_forced_tools srv of Some tools \<Rightarrow> tool \<in> set tools | None \<Rightarrow> True)
  \<and> (case ms_profile srv of Some p \<Rightarrow> allows_tool (mf_mcp p) tool | None \<Rightarrow> True)"
  by (auto simp: ensure_tool_allowed_def split: if_split_asm option.splits)

lemma feature_gate_ok: "feature_gate switch detail srv = Inr u \<Longrightarrow> (case ms_profile srv of Some p \<Rightarrow> switch (mf_mcp p) | None \<Rightarrow> True)"
  by (auto simp: feature_gate_def split: if_split_asm option.splits)

text \<open>
  C28: A client of the MCP server runs a WASI module only with authority it was given. With fresh token ids, the handler either refuses, having
  changed nothing but the capability manager, or its outcome is that of one execution whose tokens carry exactly the requested capabilities, never the
  unrestricted one, expire within an hour, are neither expired nor revoked, and are covered by an entry of the operator's allow-list or by a parent
  token the client named (which they do not outlive); and the transport, the tool list, the WASI switch and the capability list of the active profile
  all admit them.
\<close>

theorem mcp_wasi_confined:
  assumes fresh: "\<forall>k. hm_get (active_tokens (nx_capabilities hv)) (ids k) = None"
  shows "(\<exists>e hv1. do_execute_wasi env wa parse_uuid ids tc fs srv ca wasm_path entry input specs parent hv = Some (Inl e, hv1) \<and> only_caps hv hv1)
    \<or> (\<exists>bs caps tokens hv1.
         do_execute_wasi env wa parse_uuid ids tc fs srv ca wasm_path entry input specs parent hv =
           answer tc (execute_tool_wasi env wa ca ((mcp_tool ''mcp_tool_wasi'' bs entry)\<lparr>required_capabilities := caps\<rparr>) (input_or_empty input) tokens hv1)
         \<and> load_module srv fs wasm_path = Inr bs \<and> parse_capabilities (case specs of Some xs \<Rightarrow> xs | None \<Rightarrow> []) = Inr caps
         \<and> only_caps hv hv1 \<and> list_all2 (token_for (ca_now ca)) tokens caps \<and> (caps \<noteq> [] \<longrightarrow> authority parse_uuid srv parent hv tokens)
         \<and> (\<forall>t \<in> set tokens. token_is_valid (ca_now ca) t \<and> \<not> is_revoked (nx_capabilities hv1) (tok_id t))
         \<and> permitted srv ''nexus_execute_wasi'' wasi_enabled caps)"
    (is "?refused \<or> ?ran")
proof (cases "\<exists>u1 u2 bs caps. ensure_tool_allowed srv ''nexus_execute_wasi'' = Inr u1 \<and> ensure_wasi_enabled srv = Inr u2
    \<and> load_module srv fs wasm_path = Inr bs \<and> parse_capabilities (case specs of Some xs \<Rightarrow> xs | None \<Rightarrow> []) = Inr caps")
  case False
  then have ?refused by (auto simp: do_execute_wasi_def and_then_def split: sum.splits)
  then show ?thesis ..
next
  case True
  then obtain u1 u2 bs caps where g: "ensure_tool_allowed srv ''nexus_execute_wasi'' = Inr u1" "ensure_wasi_enabled srv = Inr u2"
      "load_module srv fs wasm_path = Inr bs" "parse_capabilities (case specs of Some xs \<Rightarrow> xs | None \<Rightarrow> []) = Inr caps" by blast
  obtain r hv1 where t: "execute_wasi_tokens env parse_uuid (ca_now ca) ids srv caps parent hv = (r, hv1)" by fastforce
  note st = execute_wasi_tokens_state [OF t]
  show ?thesis
  proof (cases "\<exists>tokens u. r = Inr tokens \<and> check_tokens_against_active_profile (ca_now ca) srv tokens hv1 = Inr u")
    case False
    then have ?refused using g t st by (auto simp: do_execute_wasi_def and_then_def split: sum.splits)
    then show ?thesis ..
  next
    case True
    then obtain tokens u where r: "r = Inr tokens" and c: "check_tokens_against_active_profile (ca_now ca) srv tokens hv1 = Inr u" by blast
    have ok: "list_all2 (token_for (ca_now ca)) tokens caps" "caps \<noteq> [] \<longrightarrow> authority parse_uuid srv parent hv tokens"
      using execute_wasi_tokens_ok [OF t [unfolded r] fresh] by auto
    then have caps: "set caps = capability ` set tokens"
      by (auto simp: list_all2_conv_all_nth token_for_def set_conv_nth image_iff) metis
    have "permitted srv ''nexus_execute_wasi'' wasi_enabled caps"
      using tool_gate [OF g(1)] feature_gate_ok [OF g(2) [unfolded ensure_wasi_enabled_def]] tokens_checked [OF c]
      by (auto simp: permitted_def caps split: option.splits)
    with ok st tokens_checked [OF c] have ?ran
      by (intro exI [of _ bs] exI [of _ caps] exI [of _ tokens] exI [of _ hv1]) (simp add: do_execute_wasi_def g t r c)
    then show ?thesis ..
  qed
qed

theorem mcp_wasi_confined_witness:
  "\<forall>(env :: nat hv_env) wa parse_uuid tc fs ca entry input hv.
     \<exists>e hv1. do_execute_wasi env wa parse_uuid (\<lambda>k. word_of_nat (Suc k)) tc fs demo_server ca ''/m/a'' entry input
        (Some [\<lparr>cs_type = ''all'', cs_path = None\<rparr>]) None (hv\<lparr>nx_capabilities := manager_from_keys [] []\<rparr>) = Some (Inl e, hv1)
        \<and> only_caps (hv\<lparr>nx_capabilities := manager_from_keys [] []\<rparr>) hv1"
proof (intro allI)
  fix parse_uuid tc fs ca entry input and env :: "nat hv_env" and wa :: "nat wasi_wt" and hv :: "nat hypervisor"
  let ?hv = "hv\<lparr>nx_capabilities := manager_from_keys [] []\<rparr>" and ?specs = "[\<lparr>cs_type = ''all'', cs_path = None\<rparr>]"
  have "\<forall>k. hm_get (active_tokens (nx_capabilities ?hv)) (word_of_nat (Suc k) :: uuid) = None"
    by (simp add: manager_from_keys_def)
  moreover have p: "parse_capabilities ?specs = Inr [CapAll]" by code_simp
  ultimately show "\<exists>e hv1. do_execute_wasi env wa parse_uuid (\<lambda>k. word_of_nat (Suc k)) tc fs demo_server ca ''/m/a'' entry input
        (Some ?specs) None ?hv = Some (Inl e, hv1) \<and> only_caps ?hv hv1"
    using mcp_wasi_confined [of ?hv "\<lambda>k. word_of_nat (Suc k)" env wa parse_uuid tc fs demo_server ca "''/m/a''" entry input "Some ?specs" None]
    by (auto simp: list_all2_Cons2 token_for_def)
qed

end
