(* ===== verification/Mcp_Tools.thy ===== *)
theory Mcp_Tools
  imports Mcp
begin

text \<open>
  The rest of the MCP server (\<open>src/src/bin/nexus_mcp.rs\<close>): its construction from the environment and the active profile, the tools on
  the instinct store and the read-only tools on history and statistics.

  The JSON readers of the two allowlists and the re-reading of the exported array are parameters, as is the file system.
\<close>

subsection \<open>Start-up\<close>

definition env_string :: "os_env \<Rightarrow> string \<Rightarrow> string option mcp_result" where
  "env_string oe name =
     (case oe_var oe name of
        None \<Rightarrow> Inr None
      | Some v \<Rightarrow> if oe_unicode oe v then Inr (Some v) else Inl (OtherErr ''must be UTF-8''))"

definition profile_manifest_from_env :: "os_env \<Rightarrow> (string \<Rightarrow> string + string) \<Rightarrow> profile_manifest option mcp_result" where
  "profile_manifest_from_env oe read_file =
     (case oe_var oe ''NEXUS_MCP_PROFILE'' of
        None \<Rightarrow> Inr None
      | Some path \<Rightarrow>
          (case load_and_validate path (read_file path) of
             Inr manifest \<Rightarrow> Inr (Some manifest)
           | Inl errors \<Rightarrow> Inl (OtherErr (''invalid {NEXUS_MCP_PROFILE_ENV} '' @ squoted path @ '': ''
               @ join_with ''; '' (map validation_error_display errors)))))"

text \<open>One entry of the operator's allowlist: parsed, and refused when it is \<open>All\<close>.\<close>

definition allowlist_entry :: "capability_spec \<Rightarrow> capability mcp_result" where
  "allowlist_entry spec =
     (case parse_capability spec of
        Inl e \<Rightarrow> Inl e
      | Inr cap \<Rightarrow>
          (case sanitize_token_request cap None of
             Inl _ \<Rightarrow> Inl (OtherErr ''invalid {NEXUS_MCP_CAPABILITY_ALLOWLIST_ENV} entry {:?}: {e}'')
           | Inr (cap, _) \<Rightarrow> Inr cap))"

fun allowlist_entries :: "capability_spec list \<Rightarrow> capability list mcp_result" where
  "allowlist_entries [] = Inr []"
| "allowlist_entries (spec # specs) =
     (case allowlist_entry spec of Inl e \<Rightarrow> Inl e | Inr c \<Rightarrow> map_sum id (\<lambda>cs. c # cs) (allowlist_entries specs))"

definition capability_allowlist_from_env ::
  "os_env \<Rightarrow> (string \<Rightarrow> capability_spec list option) \<Rightarrow> capability list option mcp_result" where
  "capability_allowlist_from_env oe read_specs =
     (case env_string oe ''NEXUS_MCP_CAPABILITY_ALLOWLIST'' of
        Inl e \<Rightarrow> Inl e
      | Inr None \<Rightarrow> Inr None
      | Inr (Some raw) \<Rightarrow>
          (case read_specs raw of
             None \<Rightarrow> Inl (OtherErr ''{NEXUS_MCP_CAPABILITY_ALLOWLIST_ENV} must be a JSON array of capability objects: {e}'')
           | Some specs \<Rightarrow> map_sum id Some (allowlist_entries specs)))"

definition nexus_iq_allowlist_from_env :: "os_env \<Rightarrow> (string \<Rightarrow> string list option) \<Rightarrow> string list option mcp_result" where
  "nexus_iq_allowlist_from_env oe read_strings =
     (case env_string oe ''NEXUS_IQ_ALLOWLIST'' of
        Inl e \<Rightarrow> Inl e
      | Inr None \<Rightarrow> Inr None
      | Inr (Some v) \<Rightarrow>
          (let raw = trim v
           in if raw = [] then Inr (Some [])
              else if starts_with raw ''['' then
                (case read_strings raw of
                   None \<Rightarrow> Inl (OtherErr ''{NEXUS_IQ_ALLOWLIST_ENV} must be a JSON array of strings: {e}'')
                 | Some tools \<Rightarrow> Inr (Some tools))
              else Inr (Some (filter (\<lambda>tool. tool \<noteq> []) (map trim (split_char CHR '','' raw))))))"

definition new_with_forced_tool_allowlist ::
  "os_env \<Rightarrow> mcp_fs \<Rightarrow> (string \<Rightarrow> string + string) \<Rightarrow> (string \<Rightarrow> capability_spec list option) \<Rightarrow> (string \<Rightarrow> string list option)
   \<Rightarrow> string list option \<Rightarrow> mcp_server mcp_result" where
  "new_with_forced_tool_allowlist oe fs read_file read_specs read_strings forced =
     (case profile_manifest_from_env oe read_file of
        Inl e \<Rightarrow> Inl e
      | Inr prof \<Rightarrow>
     (case (case prof of
              Some p \<Rightarrow> if module_dirs (mf_execution p) \<noteq> [] then canonicalize_module_dirs fs (module_dirs (mf_execution p))
                        else allowed_wasm_module_dirs oe fs
            | None \<Rightarrow> allowed_wasm_module_dirs oe fs) of
        Inl e \<Rightarrow> Inl e
      | Inr dirs \<Rightarrow>
     (case capability_allowlist_from_env oe read_specs of
        Inl e \<Rightarrow> Inl e
      | Inr caps \<Rightarrow>
     (case nexus_iq_allowlist_from_env oe read_strings of
        Inl e \<Rightarrow> Inl e
      | Inr iq \<Rightarrow>
          Inr \<lparr>ms_module_dirs = dirs, ms_capability_allowlist = caps, ms_iq_allowlist = iq, ms_profile = prof,
               ms_forced_tools = forced\<rparr>))))"

text \<open>The server behind the HTTP transport: the read-only tools only.\<close>

definition http_server ::
  "os_env \<Rightarrow> mcp_fs \<Rightarrow> (string \<Rightarrow> string + string) \<Rightarrow> (string \<Rightarrow> capability_spec list option) \<Rightarrow> (string \<Rightarrow> string list option)
   \<Rightarrow> mcp_server mcp_result" where
  "http_server oe fs read_file read_specs read_strings =
     new_with_forced_tool_allowlist oe fs read_file read_specs read_strings (Some HTTP_READ_ONLY_TOOL_ALLOWLIST)"

subsection \<open>Instinct tools\<close>

definition failure_mode_from_category :: "string \<Rightarrow> failure_mode mcp_result" where
  "failure_mode_from_category cat =
     (if cat = ''TIMEOUT'' then Inr (failure_mode.Timeout 0 0)
      else if cat = ''FUEL_EXHAUSTED'' then Inr (failure_mode.FuelExhausted 0)
      else if cat = ''TRAP_UNREACHABLE'' then Inr TrapUnreachable
      else if cat = ''TRAP_DIV_BY_ZERO'' then Inr TrapDivByZero
      else if cat = ''TRAP_INTEGER_OVERFLOW'' then Inr TrapIntegerOverflow
      else if cat = ''TRAP_BAD_FLOAT_TO_INT'' then Inr TrapBadConversionToInteger
      else if cat = ''TRAP_STACK_OVERFLOW'' then Inr TrapStackOverflow
      else if cat = ''TRAP_MEMORY_OOB'' then Inr TrapMemoryOutOfBounds
      else if cat = ''TRAP_HEAP_MISALIGNED'' then Inr TrapHeapMisaligned
      else if cat = ''TRAP_TABLE_OOB'' then Inr TrapTableOutOfBounds
      else if cat = ''TRAP_INDIRECT_NULL'' then Inr TrapIndirectCallToNull
      else if cat = ''TRAP_BAD_SIGNATURE'' then Inr TrapBadSignature
      else if cat = ''TRAP_NULL_REFERENCE'' then Inr TrapNullReference
      else if cat = ''TRAP_CAST_FAILURE'' then Inr TrapCastFailure
      else if cat = ''TRAP_OTHER'' then Inr (TrapOther ''TRAP_OTHER'')
      else if cat = ''MEMORY_LIMIT_EXCEEDED'' then Inr (failure_mode.MemoryLimitExceeded 0 0)
      else if cat = ''INVALID_MODULE'' then Inr (InvalidModule [])
      else if cat = ''MISSING_ENTRYPOINT'' then Inr (MissingEntrypoint [])
      else if cat = ''HOST_ERROR'' then Inr (HostError [])
      else Inl (OtherErr (''unrecognised failure category '' @ squoted cat)))"

text \<open>The gates of a tool on the instinct store, and the store.\<close>

definition instinct_store_for :: "mcp_server \<Rightarrow> string \<Rightarrow> 'm hypervisor \<Rightarrow> instinct_store mcp_result" where
  "instinct_store_for srv tool hv =
     (case ensure_tool_allowed srv tool of
        Inl e \<Rightarrow> Inl e
      | Inr _ \<Rightarrow>
          (case ensure_instinct_enabled srv of
             Inl e \<Rightarrow> Inl e
           | Inr _ \<Rightarrow> (case nx_instincts hv of Some st \<Rightarrow> Inr st | None \<Rightarrow> Inl (OtherErr ''instinct store not initialised''))))"

definition do_instinct_stats :: "mcp_server \<Rightarrow> 'm hypervisor \<Rightarrow> instinct_stats mcp_result" where
  "do_instinct_stats srv hv = map_sum id store_stats (instinct_store_for srv ''nexus_instinct_stats'' hv)"

record instinct_suggestion =
  sg_instinct_id :: uuid
  sg_recovery_description :: string
  sg_confidence :: f32
  sg_operation_pattern :: string
  sg_failure_category :: string

definition do_instinct_query :: "mcp_server \<Rightarrow> string \<Rightarrow> string \<Rightarrow> 'm hypervisor \<Rightarrow> (instinct_suggestion list \<times> nat) mcp_result" where
  "do_instinct_query srv cat operation hv =
     (case instinct_store_for srv ''nexus_instinct_query'' hv of
        Inl e \<Rightarrow> Inl e
      | Inr st \<Rightarrow>
          (case failure_mode_from_category cat of
             Inl e \<Rightarrow> Inl e
           | Inr mode \<Rightarrow>
               (let suggestions = map (\<lambda>i. \<lparr>sg_instinct_id = in_id i, sg_recovery_description = recovery_description i,
                                            sg_confidence = confidence i, sg_operation_pattern = operation_pattern i,
                                            sg_failure_category = failure_category i\<rparr>) (store_query st mode operation)
                in Inr (suggestions, length suggestions))))"

definition valid_pattern :: "string \<Rightarrow> bool" where
  "valid_pattern pat \<longleftrightarrow>
     pat = ''*'' \<or> (list_all (\<lambda>c. is_ascii_alphanumeric c \<or> c = CHR ''_'' \<or> c = CHR ''-'') pat \<and> length pat \<le> 128)"

definition do_instinct_register ::
  "'m hv_env \<Rightarrow> bool \<Rightarrow> uuid \<Rightarrow> time \<Rightarrow> mcp_server \<Rightarrow> string \<Rightarrow> string \<Rightarrow> string \<Rightarrow> 'm hypervisor
   \<Rightarrow> (uuid \<times> string \<times> f32) mcp_result \<times> 'm hypervisor" where
  "do_instinct_register env write_ok new_id now srv cat pat desc hv =
     (case instinct_store_for srv ''nexus_instinct_register'' hv of
        Inl e \<Rightarrow> (Inl e, hv)
      | Inr st \<Rightarrow>
          (if 1024 < length desc then (Inl (OtherErr ''recovery_description exceeds {MAX_DESC_LEN} characters''), hv)
           else if \<not> valid_pattern pat
           then (Inl (OtherErr ''operation_pattern must be '*' or a name containing only alphanumerics, underscores, and hyphens (max 128 chars)''), hv)
           else case failure_mode_from_category cat of
             Inl _ \<Rightarrow> (Inl (OtherErr ''unknown failure_category: {e}''), hv)
           | Inr mode \<Rightarrow>
               (case store_register (he_json env) write_ok new_id now mode pat desc st (nx_instinct_dir hv) of
                  (r, st', dir') \<Rightarrow>
                    (map_sum NexusErr (\<lambda>i. (i, cat, Fin (1 / 2))) r, hv\<lparr>nx_instincts := Some st', nx_instinct_dir := dir'\<rparr>))))"

definition do_instinct_record_outcome ::
  "'m hv_env \<Rightarrow> (string \<Rightarrow> uuid option) \<Rightarrow> bool \<Rightarrow> time \<Rightarrow> mcp_server \<Rightarrow> string \<Rightarrow> bool \<Rightarrow> 'm hypervisor
   \<Rightarrow> (string \<times> bool \<times> bool) mcp_result \<times> 'm hypervisor" where
  "do_instinct_record_outcome env parse_uuid write_ok now srv instinct_id success hv =
     (case instinct_store_for srv ''nexus_instinct_record_outcome'' hv of
        Inl e \<Rightarrow> (Inl e, hv)
      | Inr st \<Rightarrow>
          (case parse_uuid instinct_id of
             None \<Rightarrow> (Inl (OtherErr ''invalid instinct UUID: {e}''), hv)
           | Some i \<Rightarrow>
               (case (if success then store_success now (he_json env) write_ok i st (nx_instinct_dir hv)
                      else store_failure now (he_json env) write_ok i st (nx_instinct_dir hv)) of
                  (r, st', dir') \<Rightarrow>
                    (map_sum NexusErr (\<lambda>reinforced. (instinct_id, reinforced, success)) r,
                     hv\<lparr>nx_instincts := Some st', nx_instinct_dir := dir'\<rparr>))))"

definition export_all :: "json_env \<Rightarrow> instinct_store \<Rightarrow> bytes result" where
  "export_all json st =
     (case to_vec_pretty json (concat (map snd (is_cache st))) of
        Some bs \<Rightarrow> Inr bs
      | None \<Rightarrow> Inl (SerializationError ''export: {e}''))"

definition do_instinct_export ::
  "'m hv_env \<Rightarrow> (bytes \<Rightarrow> nat option option) \<Rightarrow> mcp_server \<Rightarrow> 'm hypervisor \<Rightarrow> (bytes \<times> nat) mcp_result" where
  "do_instinct_export env array_len srv hv =
     (case instinct_store_for srv ''nexus_instinct_export'' hv of
        Inl e \<Rightarrow> Inl e
      | Inr st \<Rightarrow>
          (case export_all (he_json env) st of
             Inl e \<Rightarrow> Inl (NexusErr e)
           | Inr json \<Rightarrow>
               (case array_len json of
                  None \<Rightarrow> Inl (OtherErr ''{serde error}'')
                | Some n \<Rightarrow> Inr (json, case n of Some k \<Rightarrow> k | None \<Rightarrow> 0))))"

definition do_instinct_import ::
  "'m hv_env \<Rightarrow> (string \<Rightarrow> bool) \<Rightarrow> mcp_server \<Rightarrow> bytes \<Rightarrow> 'm hypervisor \<Rightarrow> (nat \<times> nat) mcp_result \<times> 'm hypervisor" where
  "do_instinct_import env write_ok srv json hv =
     (case ensure_tool_allowed srv ''nexus_instinct_import'' of
        Inl e \<Rightarrow> (Inl e, hv)
      | Inr _ \<Rightarrow>
          (case nx_instincts hv of
             None \<Rightarrow> (Inl (OtherErr ''instinct store not initialised''), hv)
           | Some st \<Rightarrow>
               (if 10485760 < length json then (Inl (OtherErr ''json payload exceeds 10 MiB limit''), hv)
                else case import_all (he_json env) write_ok json st (nx_instinct_dir hv) of
                  (r, st', dir') \<Rightarrow> (map_sum NexusErr id r, hv\<lparr>nx_instincts := Some st', nx_instinct_dir := dir'\<rparr>))))"

subsection \<open>History and statistics\<close>

record execution_record_summary =
  es_id :: string
  es_timestamp :: time
  es_operation :: string
  es_success :: bool
  es_duration_ms :: u64
  es_fuel_consumed :: u64
  es_has_error :: bool

definition do_get_history :: "mcp_server \<Rightarrow> u64 option \<Rightarrow> 'm hypervisor \<Rightarrow> (execution_record_summary list \<times> nat) mcp_result" where
  "do_get_history srv limit hv =
     (case ensure_tool_allowed srv ''nexus_get_history'' of
        Inl e \<Rightarrow> Inl e
      | Inr _ \<Rightarrow>
          (let records = map (\<lambda>r. \<lparr>es_id = er_id r, es_timestamp = er_timestamp r, es_operation = er_operation r,
                 es_success = er_success r, es_duration_ms = er_duration_ms r, es_fuel_consumed = er_fuel_consumed r,
                 es_has_error = (er_error r \<noteq> None)\<rparr>)
               (get_history (Some (case limit of Some l \<Rightarrow> unat l | None \<Rightarrow> 50)) (nx_telemetry hv))
           in Inr (records, length records)))"

definition do_get_stats :: "mcp_server \<Rightarrow> 'm hypervisor \<Rightarrow> (telemetry_stats \<times> snapshot_stats) mcp_result" where
  "do_get_stats srv hv =
     (case ensure_tool_allowed srv ''nexus_get_stats'' of
        Inl e \<Rightarrow> Inl e
      | Inr _ \<Rightarrow> Inr (sink_stats (nx_telemetry hv), stats (nx_snapshots hv)))"

subsection \<open>Categories\<close>

text \<open>A category names the mode it was read from, except that of a specific trap.\<close>

lemma failure_mode_from_category_category:
  "failure_mode_from_category cat = Inr mode \<Longrightarrow> category mode = cat"
  unfolding failure_mode_from_category_def by (simp split: if_split_asm) (auto)

subsection \<open>The read-only transport\<close>

definition read_only_denial :: "string \<Rightarrow> mcp_error" where
  "read_only_denial tool = profile_denial (''tool '' @ tool @ '' is not allowed in HTTP read-only mode'')"

lemma forced_tool_denied:
  assumes "ms_forced_tools srv = Some tools" and "tool \<notin> set tools"
  shows "ensure_tool_allowed srv tool = Inl (read_only_denial tool)"
  using assms by (simp add: ensure_tool_allowed_def read_only_denial_def)

lemma read_only_denial_code: "fst (tool_anyhow_error_response uuid_str i (read_only_denial tool)) = Some (- 32602)"
  by (simp add: read_only_denial_def profile_denial_def tool_anyhow_error_response_def starts_with_def PROFILE_DENIAL_def)

lemma http_server_forced: "http_server oe fs rf rs rt = Inr srv \<Longrightarrow> ms_forced_tools srv = Some HTTP_READ_ONLY_TOOL_ALLOWLIST"
  by (auto simp: http_server_def new_with_forced_tool_allowlist_def split: sum.splits)

lemma not_read_only:
  "''nexus_execute'' \<notin> set HTTP_READ_ONLY_TOOL_ALLOWLIST" "''nexus_execute_retry'' \<notin> set HTTP_READ_ONLY_TOOL_ALLOWLIST"
  "''nexus_execute_proof'' \<notin> set HTTP_READ_ONLY_TOOL_ALLOWLIST" "''nexus_execute_wasi'' \<notin> set HTTP_READ_ONLY_TOOL_ALLOWLIST"
  "''nexus_snapshot_create'' \<notin> set HTTP_READ_ONLY_TOOL_ALLOWLIST" "''nexus_snapshot_rollback'' \<notin> set HTTP_READ_ONLY_TOOL_ALLOWLIST"
  "''nexus_issue_token'' \<notin> set HTTP_READ_ONLY_TOOL_ALLOWLIST" "''nexus_attenuate_token'' \<notin> set HTTP_READ_ONLY_TOOL_ALLOWLIST"
  "''nexus_fork_and_race'' \<notin> set HTTP_READ_ONLY_TOOL_ALLOWLIST" "''nexus_instinct_register'' \<notin> set HTTP_READ_ONLY_TOOL_ALLOWLIST"
  "''nexus_instinct_record_outcome'' \<notin> set HTTP_READ_ONLY_TOOL_ALLOWLIST" "''nexus_instinct_import'' \<notin> set HTTP_READ_ONLY_TOOL_ALLOWLIST"
  by code_simp+

text \<open>
  C29: Over HTTP the MCP server is read-only. Whatever the environment and the profile, a server built for the HTTP transport answers each of the
  twelve tools that can change the hypervisor with a profile denial (code -32602 for the client) and leaves the hypervisor as it was.
\<close>

theorem http_transport_read_only:
  assumes "http_server oe fs read_file read_specs read_strings = Inr srv"
  shows "do_execute env tc fs srv ca path entry input hv = Some (Inl (read_only_denial ''nexus_execute''), hv)
    \<and> do_execute_retry env tc fs srv ins path entry input hv = Some (Inl (read_only_denial ''nexus_execute_retry''), hv)
    \<and> do_execute_wasi env wa pu ids tc fs srv ca path entry input specs parent hv = Some (Inl (read_only_denial ''nexus_execute_wasi''), hv)
    \<and> do_execute_proof env ce pk oe dbg tc fs srv ca pf path input hv = Some (Inl (read_only_denial ''nexus_execute_proof''), hv)
    \<and> do_fork_and_race env pu tc fs cins evs scratch ids srv path base src bspecs strategy hv = Some (Inl (read_only_denial ''nexus_fork_and_race''), hv)
    \<and> do_snapshot_create env cenv srv lbl src hv = Some (Inl (read_only_denial ''nexus_snapshot_create''), hv)
    \<and> do_snapshot_rollback env pu tc now ids srv sid incl specs parent digest hv = Some (Inl (read_only_denial ''nexus_snapshot_rollback''), hv)
    \<and> do_issue_token env url_parse now new_id srv ty tpath secs hv = (Inl (read_only_denial ''nexus_issue_token''), hv)
    \<and> do_attenuate_token env pu now new_id srv pid ty tpath secs hv = (Inl (read_only_denial ''nexus_attenuate_token''), hv)
    \<and> do_instinct_register env w new_id now srv cat pat desc hv = (Inl (read_only_denial ''nexus_instinct_register''), hv)
    \<and> do_instinct_record_outcome env pu w now srv iid success hv = (Inl (read_only_denial ''nexus_instinct_record_outcome''), hv)
    \<and> do_instinct_import env ws srv json hv = (Inl (read_only_denial ''nexus_instinct_import''), hv)
    \<and> (\<forall>tool. fst (tool_anyhow_error_response uuid_str i (read_only_denial tool)) = Some (- 32602))"
  using not_read_only [THEN forced_tool_denied [OF http_server_forced [OF assms]]]
  by (simp add: do_execute_def do_execute_retry_def do_execute_wasi_def do_execute_proof_def do_fork_and_race_def do_snapshot_create_def
      do_snapshot_rollback_def do_issue_token_def do_attenuate_token_def do_instinct_register_def do_instinct_record_outcome_def
      do_instinct_import_def instinct_store_for_def read_only_denial_code)

definition demo_os :: os_env where
  "demo_os = \<lparr>oe_var = (\<lambda>_. None), oe_unicode = (\<lambda>_. True)\<rparr>"

definition demo_fs :: mcp_fs where
  "demo_fs = \<lparr>mf_canonicalize = Some, mf_is_dir = (\<lambda>_. True), mf_is_file = (\<lambda>_. True), mf_read = (\<lambda>_. Some []), mf_cwd = Some ''/w''\<rparr>"

theorem http_transport_read_only_witness:
  "\<forall>rf rs rt. \<exists>srv. http_server demo_os demo_fs rf rs rt = Inr srv
     \<and> (\<forall>(env :: nat hv_env) ws json hv. do_instinct_import env ws srv json hv = (Inl (read_only_denial ''nexus_instinct_import''), hv))"
proof (intro allI)
  fix rf rs rt
  have h: "http_server demo_os demo_fs rf rs rt = Inr \<lparr>ms_module_dirs = [''/w''], ms_capability_allowlist = None, ms_iq_allowlist = None,
      ms_profile = None, ms_forced_tools = Some HTTP_READ_ONLY_TOOL_ALLOWLIST\<rparr>" (is "_ = Inr ?srv")
    by (simp add: http_server_def new_with_forced_tool_allowlist_def profile_manifest_from_env_def allowed_wasm_module_dirs_def
        capability_allowlist_from_env_def nexus_iq_allowlist_from_env_def env_string_def demo_os_def demo_fs_def)
  have "do_instinct_import env ws ?srv json hv = (Inl (read_only_denial ''nexus_instinct_import''), hv)" for env :: "nat hv_env" and ws json hv
    using http_transport_read_only [OF h, where env = env and ws = ws and json = json and hv = hv] by fast
  with h show "\<exists>srv. http_server demo_os demo_fs rf rs rt = Inr srv
     \<and> (\<forall>(env :: nat hv_env) ws json hv. do_instinct_import env ws srv json hv = (Inl (read_only_denial ''nexus_instinct_import''), hv))" by blast
qed

subsection \<open>Switches of the profile\<close>

text \<open>
  C32: Two switches of a profile do not do what they say: whether \<open>retry_enabled\<close> is set makes no difference to \<open>nexus_execute_retry\<close>, and whether
  \<open>instinct_enabled\<close> is set makes none to \<open>nexus_instinct_import\<close>, although every other instinct tool is refused, without a change of state, once it is off.
\<close>

theorem retry_and_import_ignore_switches:
  "do_execute_retry env tc fs (srv\<lparr>ms_profile := Some (p\<lparr>mf_mcp := (mf_mcp p)\<lparr>retry_enabled := b\<rparr>\<rparr>)\<rparr>) ins path entry input hv
     = do_execute_retry env tc fs (srv\<lparr>ms_profile := Some p\<rparr>) ins path entry input hv
   \<and> do_instinct_import env ws (srv\<lparr>ms_profile := Some (p\<lparr>mf_mcp := (mf_mcp p)\<lparr>instinct_enabled := b\<rparr>\<rparr>)\<rparr>) json hv
     = do_instinct_import env ws (srv\<lparr>ms_profile := Some p\<rparr>) json hv
   \<and> (let off = srv\<lparr>ms_profile := Some (p\<lparr>mf_mcp := (mf_mcp p)\<lparr>instinct_enabled := False\<rparr>\<rparr>)\<rparr>
      in (\<exists>d1 d2 d3 d4 d5. do_instinct_stats off hv = Inl (profile_denial d1) \<and> do_instinct_query off cat op hv = Inl (profile_denial d2)
          \<and> do_instinct_register env w new_id now off cat pat desc hv = (Inl (profile_denial d3), hv)
          \<and> do_instinct_record_outcome env pu w now off iid success hv = (Inl (profile_denial d4), hv)
          \<and> do_instinct_export env len off hv = Inl (profile_denial d5)))"
proof -
  let ?srv = "\<lambda>f. srv\<lparr>ms_profile := Some (p\<lparr>mf_mcp := f (mf_mcp p)\<rparr>)\<rparr>"
  have gate: "ensure_tool_allowed (?srv (retry_enabled_update (\<lambda>_. b))) tool = ensure_tool_allowed (srv\<lparr>ms_profile := Some p\<rparr>) tool"
    "ensure_tool_allowed (?srv (instinct_enabled_update (\<lambda>_. b))) tool = ensure_tool_allowed (srv\<lparr>ms_profile := Some p\<rparr>) tool" for tool
    by (simp_all add: ensure_tool_allowed_def allows_tool_def)
  have "do_execute_retry env tc fs (?srv (retry_enabled_update (\<lambda>_. b))) ins path entry input hv
     = do_execute_retry env tc fs (srv\<lparr>ms_profile := Some p\<rparr>) ins path entry input hv"
    by (simp add: do_execute_retry_def gate load_module_def)
  moreover have "do_instinct_import env ws (?srv (instinct_enabled_update (\<lambda>_. b))) json hv
     = do_instinct_import env ws (srv\<lparr>ms_profile := Some p\<rparr>) json hv"
    by (simp only: do_instinct_import_def gate)
  moreover have "\<exists>d. instinct_store_for (?srv (instinct_enabled_update (\<lambda>_. False))) tool hv = Inl (profile_denial d)" for tool
    by (auto simp: instinct_store_for_def ensure_tool_allowed_def ensure_instinct_enabled_def feature_gate_def split: option.splits)
  then have "\<exists>f. \<forall>tool. instinct_store_for (?srv (instinct_enabled_update (\<lambda>_. False))) tool hv = Inl (profile_denial (f tool))" by (rule choice [OF allI])
  ultimately show ?thesis
    by (auto simp: Let_def do_instinct_stats_def do_instinct_query_def do_instinct_register_def do_instinct_record_outcome_def do_instinct_export_def)
qed

end
