(* ===== verification/Recall_Envelope.thy ===== *)
theory Recall_Envelope
  imports Json Snapshot_Digest Float64
begin

text \<open>
  Recall envelopes, version 2 (\<open>src/crates/aeon_nexus_bridge/src/v2.rs\<close>, \<open>v2/canonical_preflight.rs\<close>): the wire records, the canonical JSON
  form the crate writes itself, the signing bytes and the strict validation.

  SHA-256 and the text of a UUID (\<open>Uuid::hyphenated\<close>, \<open>Uuid::parse_str\<close>) are the record \<open>recall_env\<close>. What a derived \<open>Serialize\<close> hands to a
  serializer is a value of the type \<open>serde\<close>: \<open>to_value\<close> is what serde_json makes of it. Strings are their UTF-8 bytes; \<open>i64\<close> is a word read by \<open>sint\<close>.
\<close>

type_synonym i64 = "64 word"

subsection \<open>Errors\<close>

datatype recall_error =
    FloatInCanonicalBytes
  | ProtocolVersion string
  | CanonicalizationVersion string
  | NonceLength nat
  | NonceCharset string
  | NegativeIssuedAt i64
  | ExpiryNotAfterIssue i64 i64
  | TtlTooLong i64
  | LimitOutOfRange u32
  | UnsupportedAlgorithm string
  | SignatureLength nat
  | NonCanonicalUuid string
  | TooManyHits nat
  | HitsExceedLimit nat u32
  | RankMismatch nat u32
  | DuplicateMemoryId string
  | DuplicateMemoryVersionId string
  | EmptyIdentifier string
  | MalformedHex string
  | DigestAlgorithm string string
  | SigningDomain string
  | SignedPayloadDigestNotPubliclyRecomputable
  | SignedPayloadDigestMismatch string string

subsection \<open>Canonical JSON\<close>

text \<open>A JSON number is an integer or a float.\<close>

datatype json_number = JInt int | JFloat f64

text \<open>What a \<open>Serialize\<close> implementation tells a serializer.\<close>

datatype serde =
    SNone
  | SBool bool
  | SInt int
  | SFloat f64
  | SStr string
  | SSeq "serde list"
  | SStruct "(string \<times> serde) list"

text \<open>The first pass: a serializer that accepts everything but a float.\<close>

primrec reject_floats :: "serde \<Rightarrow> recall_error + unit" where
  "reject_floats SNone = Inr ()"
| "reject_floats (SBool b) = Inr ()"
| "reject_floats (SInt i) = Inr ()"
| "reject_floats (SFloat x) = Inl FloatInCanonicalBytes"
| "reject_floats (SStr s) = Inr ()"
| "reject_floats (SSeq vs) = (if list_all (\<lambda>r. r = Inr ()) (map reject_floats vs) then Inr () else Inl FloatInCanonicalBytes)"
| "reject_floats (SStruct kvs) =
     (if list_all (\<lambda>(_, r). r = Inr ()) (map (map_prod id reject_floats) kvs) then Inr () else Inl FloatInCanonicalBytes)"

text \<open>\<open>serde_json::to_value\<close>: a float that is not finite becomes null.\<close>

definition float_value :: "f64 \<Rightarrow> json_number json" where
  "float_value x = (case x of Fin _ \<Rightarrow> JNumber (JFloat x) | _ \<Rightarrow> JNull)"

primrec to_value :: "serde \<Rightarrow> json_number json" where
  "to_value SNone = JNull"
| "to_value (SBool b) = JBool b"
| "to_value (SInt i) = JNumber (JInt i)"
| "to_value (SFloat x) = float_value x"
| "to_value (SStr s) = JString s"
| "to_value (SSeq vs) = JArray (map to_value vs)"
| "to_value (SStruct kvs) = JObject (map (map_prod id to_value) kvs)"

definition write_scalar :: "char \<Rightarrow> string" where
  "write_scalar c =
     (let n = (of_char c :: nat) in
      if n = 0x22 then [CHR 0x5C, CHR 0x22]
      else if n = 0x5C then [CHR 0x5C, CHR 0x5C]
      else if n = 0x08 then [CHR 0x5C, CHR ''b'']
      else if n = 0x09 then [CHR 0x5C, CHR ''t'']
      else if n = 0x0A then [CHR 0x5C, CHR ''n'']
      else if n = 0x0C then [CHR 0x5C, CHR ''f'']
      else if n = 0x0D then [CHR 0x5C, CHR ''r'']
      else if n \<le> 0x1F then [CHR 0x5C, CHR ''u'', CHR ''0'', CHR ''0'', hex_digit (n div 16), hex_digit (n mod 16)]
      else [c])"

definition write_json_string :: "string \<Rightarrow> string" where
  "write_json_string value = [CHR 0x22] @ concat (map write_scalar value) @ [CHR 0x22]"

definition dec_int :: "int \<Rightarrow> string" where
  "dec_int i = (if i < 0 then CHR ''-'' # dec_nat (nat (- i)) else dec_nat (nat i))"

text \<open>The first error of a list of results, or all the values.\<close>

fun collect :: "('e + 'a) list \<Rightarrow> 'e + 'a list" where
  "collect [] = Inr []"
| "collect (Inl e # rs) = Inl e"
| "collect (Inr x # rs) = map_sum id (\<lambda>xs. x # xs) (collect rs)"

primrec write_canonical :: "json_number json \<Rightarrow> recall_error + string" where
  "write_canonical JNull = Inr ''null''"
| "write_canonical (JBool b) = Inr (if b then ''true'' else ''false'')"
| "write_canonical (JNumber n) = (case n of JFloat _ \<Rightarrow> Inl FloatInCanonicalBytes | JInt i \<Rightarrow> Inr (dec_int i))"
| "write_canonical (JString s) = Inr (write_json_string s)"
| "write_canonical (JArray items) = map_sum id (\<lambda>ts. ''['' @ join_with '','' ts @ '']'') (collect (map write_canonical items))"
| "write_canonical (JObject members) =
     map_sum id (\<lambda>ts. ''{'' @ join_with '','' ts @ ''}'')
       (collect (map (\<lambda>(key, r). map_sum id (\<lambda>t. write_json_string key @ '':'' @ t) r)
          (sort_key fst (map (map_prod id write_canonical) members))))"

definition canonical_json_v1_bytes :: "serde \<Rightarrow> recall_error + bytes" where
  "canonical_json_v1_bytes value =
     (case reject_floats value of
        Inl e \<Rightarrow> Inl e
      | Inr _ \<Rightarrow> map_sum id str_bytes (write_canonical (to_value value)))"

subsection \<open>Wire records\<close>

record recall_env =
  rv_sha256 :: "bytes \<Rightarrow> bytes"
  rv_hyphenated :: "uuid \<Rightarrow> string"
  rv_parse_str :: "string \<Rightarrow> uuid option"

definition RECALL_PROTOCOL_VERSION :: string where
  "RECALL_PROTOCOL_VERSION = ''aeon-recall-envelope-v2''"

definition RECALL_CANONICALIZATION_VERSION :: string where
  "RECALL_CANONICALIZATION_VERSION = ''aeon-canonical-json-v1''"

definition RECALL_SIGNING_DOMAIN_LABEL :: string where
  "RECALL_SIGNING_DOMAIN_LABEL = ''AEON_RECALL_ENVELOPE_V2''"

definition RECALL_SIGNING_DOMAIN_BYTES :: bytes where
  "RECALL_SIGNING_DOMAIN_BYTES = str_bytes (''AEON_RECALL_ENVELOPE_V2'' @ [CHR 0x00])"

definition RECALL_MAX_TTL_MS :: i64 where
  "RECALL_MAX_TTL_MS = 120000"

definition RECALL_MIN_LIMIT :: u32 where
  "RECALL_MIN_LIMIT = 1"

definition RECALL_MAX_LIMIT :: u32 where
  "RECALL_MAX_LIMIT = 100"

definition RECALL_MAX_HITS :: nat where
  "RECALL_MAX_HITS = 100"

definition RECALL_NONCE_HEX_LEN :: nat where
  "RECALL_NONCE_HEX_LEN = 64"

definition RECALL_SIGNATURE_ALGORITHM :: string where
  "RECALL_SIGNATURE_ALGORITHM = ''ed25519''"

definition RECALL_SIGNATURE_HEX_LEN :: nat where
  "RECALL_SIGNATURE_HEX_LEN = 128"

definition SHA256_ALGORITHM :: string where
  "SHA256_ALGORITHM = ''sha256''"

definition SHA256_HEX_LEN :: nat where
  "SHA256_HEX_LEN = 64"

definition lowercase_hex :: "char \<Rightarrow> bool" where
  "lowercase_hex c = (let n = (of_char c :: nat) in 48 \<le> n \<and> n \<le> 57 \<or> 97 \<le> n \<and> n \<le> 102)"

text \<open>A UUID has one text only: thirty-six characters, lower case, hyphens at four places.\<close>

definition canonical_uuid_char :: "nat \<Rightarrow> char \<Rightarrow> bool" where
  "canonical_uuid_char offset c = (if offset \<in> {8, 13, 18, 23} then c = CHR ''-'' else lowercase_hex c)"

definition canonical_uuid_parse :: "recall_env \<Rightarrow> string \<Rightarrow> recall_error + uuid" where
  "canonical_uuid_parse env input =
     (if length input \<noteq> 36 then Inl (NonCanonicalUuid input)
      else if \<not> list_all (\<lambda>(offset, c). canonical_uuid_char offset c) (enumerate 0 input) then Inl (NonCanonicalUuid input)
      else case rv_parse_str env input of Some u \<Rightarrow> Inr u | None \<Rightarrow> Inl (NonCanonicalUuid input))"

record recall_digest =
  rd_algorithm :: string
  rd_value :: string
  rd_public_recomputable :: bool

definition recall_digest_sha256 :: "recall_env \<Rightarrow> bytes \<Rightarrow> bool \<Rightarrow> recall_digest" where
  "recall_digest_sha256 env bs public =
     \<lparr>rd_algorithm = SHA256_ALGORITHM, rd_value = to_hex (rv_sha256 env bs), rd_public_recomputable = public\<rparr>"

definition recall_digest_from_wire :: "recall_digest \<Rightarrow> string + recall_digest" where
  "recall_digest_from_wire wire =
     (if rd_algorithm wire \<noteq> SHA256_ALGORITHM then Inl ''digest algorithm must be exactly {SHA256_ALGORITHM}''
      else if length (rd_value wire) \<noteq> SHA256_HEX_LEN \<or> \<not> list_all lowercase_hex (rd_value wire)
      then Inl ''digest value must be exactly {SHA256_HEX_LEN} lowercase hexadecimal characters''
      else Inr wire)"

record recall_hit =
  rh_memory_id :: string
  rh_memory_version_id :: string
  rh_content_digest :: recall_digest
  rh_rank :: u32
  rh_score_micros :: "i64 option"
  rh_provenance_digest :: "recall_digest option"
  rh_authority_label :: "string option"

record recall_payload =
  rp_protocol_version :: string
  rp_canonicalization_version :: string
  rp_request_id :: uuid
  rp_nonce :: string
  rp_issued_at :: i64
  rp_expires_at :: i64
  rp_tenant_id :: string
  rp_workspace_id :: "string option"
  rp_agent_id :: string
  rp_session_id :: "string option"
  rp_mission_id :: "string option"
  rp_run_id :: uuid
  rp_query_digest :: recall_digest
  rp_limit :: u32
  rp_retrieval_policy_digest :: recall_digest
  rp_embedding_config_digest :: recall_digest
  rp_hits :: "recall_hit list"

record recall_signature =
  rs_algorithm :: string
  rs_key_id :: string
  rs_signature :: string
  rs_signed_payload_digest :: recall_digest
  rs_signing_domain :: string

record recall_envelope =
  re_payload :: recall_payload
  re_signature :: recall_signature

subsection \<open>Serialization\<close>

definition ser_nullable :: "('a \<Rightarrow> serde) \<Rightarrow> 'a option \<Rightarrow> serde" where
  "ser_nullable ser v = (case v of Some x \<Rightarrow> ser x | None \<Rightarrow> SNone)"

definition ser_digest :: "recall_digest \<Rightarrow> serde" where
  "ser_digest d = SStruct [(''algorithm'', SStr (rd_algorithm d)), (''value'', SStr (rd_value d)),
     (''public_recomputable'', SBool (rd_public_recomputable d))]"

definition ser_hit :: "recall_hit \<Rightarrow> serde" where
  "ser_hit h = SStruct [(''memory_id'', SStr (rh_memory_id h)), (''memory_version_id'', SStr (rh_memory_version_id h)),
     (''content_digest'', ser_digest (rh_content_digest h)), (''rank'', SInt (uint (rh_rank h))),
     (''score_micros'', ser_nullable (\<lambda>m. SInt (sint m)) (rh_score_micros h)),
     (''provenance_digest'', ser_nullable ser_digest (rh_provenance_digest h)),
     (''authority_label'', ser_nullable SStr (rh_authority_label h))]"

definition ser_payload :: "recall_env \<Rightarrow> recall_payload \<Rightarrow> serde" where
  "ser_payload env p = SStruct
     [(''protocol_version'', SStr (rp_protocol_version p)), (''canonicalization_version'', SStr (rp_canonicalization_version p)),
      (''request_id'', SStr (rv_hyphenated env (rp_request_id p))), (''nonce'', SStr (rp_nonce p)),
      (''issued_at_unix_ms'', SInt (sint (rp_issued_at p))), (''expires_at_unix_ms'', SInt (sint (rp_expires_at p))),
      (''tenant_id'', SStr (rp_tenant_id p)), (''workspace_id'', ser_nullable SStr (rp_workspace_id p)),
      (''agent_id'', SStr (rp_agent_id p)), (''session_id'', ser_nullable SStr (rp_session_id p)),
      (''mission_id'', ser_nullable SStr (rp_mission_id p)), (''run_id'', SStr (rv_hyphenated env (rp_run_id p))),
      (''query_digest'', ser_digest (rp_query_digest p)), (''limit'', SInt (uint (rp_limit p))),
      (''retrieval_policy_digest'', ser_digest (rp_retrieval_policy_digest p)),
      (''embedding_config_digest'', ser_digest (rp_embedding_config_digest p)),
      (''hits'', SSeq (map ser_hit (rp_hits p)))]"

definition recall_signing_bytes :: "recall_env \<Rightarrow> recall_payload \<Rightarrow> recall_error + bytes" where
  "recall_signing_bytes env p =
     map_sum id (\<lambda>canonical. RECALL_SIGNING_DOMAIN_BYTES @ canonical) (canonical_json_v1_bytes (ser_payload env p))"

definition recall_signed_payload_digest :: "recall_env \<Rightarrow> recall_payload \<Rightarrow> recall_error + recall_digest" where
  "recall_signed_payload_digest env p = map_sum id (\<lambda>bs. recall_digest_sha256 env bs True) (recall_signing_bytes env p)"

subsection \<open>Validation\<close>

text \<open>The \<open>?\<close> operator.\<close>

definition require :: "bool \<Rightarrow> recall_error \<Rightarrow> recall_error + unit \<Rightarrow> recall_error + unit" where
  "require ok e rest = (if ok then rest else Inl e)"

definition validate_nonce :: "string \<Rightarrow> recall_error + unit \<Rightarrow> recall_error + unit" where
  "validate_nonce nonce rest =
     require (length nonce = RECALL_NONCE_HEX_LEN) (NonceLength (length nonce))
       (require (list_all lowercase_hex nonce) (NonceCharset nonce) rest)"

definition require_non_empty :: "string \<Rightarrow> string \<Rightarrow> recall_error + unit \<Rightarrow> recall_error + unit" where
  "require_non_empty fld value rest = require (value \<noteq> []) (EmptyIdentifier fld) rest"

definition require_non_empty_nullable :: "string \<Rightarrow> string option \<Rightarrow> recall_error + unit \<Rightarrow> recall_error + unit" where
  "require_non_empty_nullable fld value rest = (case value of Some v \<Rightarrow> require_non_empty fld v rest | None \<Rightarrow> rest)"

definition require_lowercase_hex :: "string \<Rightarrow> string \<Rightarrow> recall_error + unit \<Rightarrow> recall_error + unit" where
  "require_lowercase_hex fld value rest =
     require (value \<noteq> [] \<and> even (length value)) (MalformedHex fld) (require (list_all lowercase_hex value) (MalformedHex fld) rest)"

definition require_sha256_digest :: "string \<Rightarrow> recall_digest \<Rightarrow> recall_error + unit \<Rightarrow> recall_error + unit" where
  "require_sha256_digest fld d rest =
     require (rd_algorithm d = SHA256_ALGORITHM) (DigestAlgorithm fld (rd_algorithm d))
       (require (length (rd_value d) = SHA256_HEX_LEN) (MalformedHex fld) (require_lowercase_hex fld (rd_value d) rest))"

text \<open>The loop over the hits, with the identifiers seen before.\<close>

fun validate_hits :: "nat \<Rightarrow> string list \<Rightarrow> string list \<Rightarrow> recall_hit list \<Rightarrow> recall_error + unit" where
  "validate_hits index memory_ids version_ids [] = Inr ()"
| "validate_hits index memory_ids version_ids (hit # hits) =
     require (unat (rh_rank hit) = index) (RankMismatch index (rh_rank hit))
     (require_non_empty ''memory_id'' (rh_memory_id hit)
     (require_non_empty ''memory_version_id'' (rh_memory_version_id hit)
     (require_sha256_digest ''content_digest'' (rh_content_digest hit)
     ((case rh_provenance_digest hit of Some d \<Rightarrow> require_sha256_digest ''provenance_digest'' d | None \<Rightarrow> id)
     ((case rh_authority_label hit of Some l \<Rightarrow> require_non_empty ''authority_label'' l | None \<Rightarrow> id)
     (require (rh_memory_id hit \<notin> set memory_ids) (DuplicateMemoryId (rh_memory_id hit))
     (require (rh_memory_version_id hit \<notin> set version_ids) (DuplicateMemoryVersionId (rh_memory_version_id hit))
       (validate_hits (Suc index) (rh_memory_id hit # memory_ids) (rh_memory_version_id hit # version_ids) hits))))))))"

definition payload_validate :: "recall_payload \<Rightarrow> recall_error + unit" where
  "payload_validate p =
     require (rp_protocol_version p = RECALL_PROTOCOL_VERSION) (ProtocolVersion (rp_protocol_version p))
     (require (rp_canonicalization_version p = RECALL_CANONICALIZATION_VERSION) (CanonicalizationVersion (rp_canonicalization_version p))
     (validate_nonce (rp_nonce p)
     (require (0 \<le> sint (rp_issued_at p)) (NegativeIssuedAt (rp_issued_at p))
     (require (sint (rp_issued_at p) < sint (rp_expires_at p)) (ExpiryNotAfterIssue (rp_issued_at p) (rp_expires_at p))
     (require (sint (rp_expires_at p - rp_issued_at p) \<le> sint RECALL_MAX_TTL_MS) (TtlTooLong (rp_expires_at p - rp_issued_at p))
     (require_non_empty ''tenant_id'' (rp_tenant_id p)
     (require_non_empty ''agent_id'' (rp_agent_id p)
     (require_non_empty_nullable ''workspace_id'' (rp_workspace_id p)
     (require_non_empty_nullable ''session_id'' (rp_session_id p)
     (require_non_empty_nullable ''mission_id'' (rp_mission_id p)
     (require_sha256_digest ''query_digest'' (rp_query_digest p)
     (require_sha256_digest ''retrieval_policy_digest'' (rp_retrieval_policy_digest p)
     (require_sha256_digest ''embedding_config_digest'' (rp_embedding_config_digest p)
     (require (RECALL_MIN_LIMIT \<le> rp_limit p \<and> rp_limit p \<le> RECALL_MAX_LIMIT) (LimitOutOfRange (rp_limit p))
     (require (length (rp_hits p) \<le> RECALL_MAX_HITS) (TooManyHits (length (rp_hits p)))
     (require (length (rp_hits p) \<le> unat (rp_limit p)) (HitsExceedLimit (length (rp_hits p)) (rp_limit p))
       (validate_hits 0 [] [] (rp_hits p))))))))))))))))))"

definition envelope_validate :: "recall_env \<Rightarrow> recall_envelope \<Rightarrow> recall_error + unit" where
  "envelope_validate env e =
     (case payload_validate (re_payload e) of
        Inl err \<Rightarrow> Inl err
      | Inr _ \<Rightarrow>
          (let sg = re_signature e; d = rs_signed_payload_digest sg in
           require (rs_signing_domain sg = RECALL_SIGNING_DOMAIN_LABEL) (SigningDomain (rs_signing_domain sg))
           (require (rs_algorithm sg = RECALL_SIGNATURE_ALGORITHM) (UnsupportedAlgorithm (rs_algorithm sg))
           (require_non_empty ''key_id'' (rs_key_id sg)
           (require_lowercase_hex ''signature'' (rs_signature sg)
           (require (length (rs_signature sg) = RECALL_SIGNATURE_HEX_LEN) (SignatureLength (length (rs_signature sg)))
           (require_sha256_digest ''signed_payload_digest'' d
           (require (rd_public_recomputable d) SignedPayloadDigestNotPubliclyRecomputable
           (case recall_signed_payload_digest env (re_payload e) of
              Inl err \<Rightarrow> Inl err
            | Inr expected \<Rightarrow>
                require (rd_value d = rd_value expected) (SignedPayloadDigestMismatch (rd_value expected) (rd_value d)) (Inr ()))))))))))"

subsection \<open>Reading canonical text back\<close>

text \<open>The text of a scalar ends where it ends, and is never a bare quote.\<close>

definition nibble_val :: "char \<Rightarrow> nat" where
  "nibble_val c = (let n = (of_char c :: nat) in if n \<le> 57 then n - 48 else n - 87)"

definition short_escape :: "char \<Rightarrow> nat" where
  "short_escape c =
     (if c = CHR ''b'' then 0x08 else if c = CHR ''t'' then 0x09 else if c = CHR ''n'' then 0x0A
      else if c = CHR ''f'' then 0x0C else if c = CHR ''r'' then 0x0D else of_char c)"

definition read_scalar :: "string \<Rightarrow> nat \<times> string" where
  "read_scalar s =
     (if hd s \<noteq> CHR 0x5C then (of_char (hd s), tl s)
      else if s ! 1 = CHR ''u'' then (16 * nibble_val (s ! 4) + nibble_val (s ! 5), drop 6 s)
      else (short_escape (s ! 1), drop 2 s))"

lemma nibble_val_digit: "d < 16 \<Longrightarrow> nibble_val (hex_digit d) = d"
  by (simp add: nibble_val_def hex_digit_def Let_def)

lemma read_write_scalar: "read_scalar (write_scalar c @ r) = (of_char c, r)"
proof -
  have "c \<noteq> CHR 0x5C" if "(of_char c :: nat) \<noteq> 0x5C" using that by auto
  moreover have "nibble_val (hex_digit (of_char c div 16)) = of_char c div 16" "nibble_val (hex_digit (of_char c mod 16)) = of_char c mod 16"
    if "(of_char c :: nat) \<le> 31" using that by (simp_all add: nibble_val_digit)
  ultimately show ?thesis by (simp add: write_scalar_def read_scalar_def short_escape_def Let_def)
qed

lemma write_scalar_prefix:
  assumes "write_scalar c @ r = write_scalar d @ s"
  shows "c = d \<and> r = s"
  using arg_cong [OF assms, of read_scalar] by (simp add: read_write_scalar)

lemma write_scalar_head: "\<exists>c' cs. write_scalar c = c' # cs \<and> c' \<noteq> CHR 0x22"
  by (auto simp: write_scalar_def Let_def)

lemma write_json_string_prefix:
  assumes "write_json_string s @ r = write_json_string t @ r'"
  shows "s = t \<and> r = r'"
proof -
  have "concat (map write_scalar s) @ CHR 0x22 # r = concat (map write_scalar t) @ CHR 0x22 # r'"
    using assms by (simp add: write_json_string_def)
  then show ?thesis
  proof (induction s arbitrary: t)
    case Nil
    then show ?case using write_scalar_head [of "hd t"] by (cases t) auto
  next
    case (Cons c s)
    show ?case
    proof (cases t)
      case Nil
      then show ?thesis using Cons.prems write_scalar_head [of c] by auto
    next
      case (Cons d t')
      then have "write_scalar c @ concat (map write_scalar s) @ CHR 0x22 # r = write_scalar d @ concat (map write_scalar t') @ CHR 0x22 # r'"
        using Cons.prems by simp
      from write_scalar_prefix [OF this] Cons.IH [of t'] Cons show ?thesis by auto
    qed
  qed
qed

text \<open>What may follow a value.\<close>

definition delim :: "string \<Rightarrow> bool" where
  "delim r \<longleftrightarrow> r = [] \<or> hd r \<in> {CHR '','', CHR '']'', CHR ''}''}"

definition number_char :: "char \<Rightarrow> bool" where
  "number_char c \<longleftrightarrow> c = CHR ''-'' \<or> 48 \<le> (of_char c :: nat) \<and> (of_char c :: nat) \<le> 57"

lemma dec_int_chars: "dec_int i \<noteq> []" "c \<in> set (dec_int i) \<Longrightarrow> number_char c"
  using dec_nat_digit by (auto simp: dec_int_def number_char_def split: if_split_asm)

lemma dec_int_inj: "dec_int i = dec_int j \<longleftrightarrow> i = j"
proof -
  have "CHR ''-'' \<notin> set (dec_nat n)" for n using dec_nat_digit [of "CHR ''-''" n] by auto
  then have "dec_nat n \<noteq> CHR ''-'' # t" for n t by (metis list.set_intros(1))
  then show ?thesis by (auto simp: dec_int_def dec_nat_inj dest: sym)
qed

lemma dec_int_prefix:
  assumes "dec_int i @ r = dec_int j @ r'" and "delim r" and "delim r'"
  shows "i = j \<and> r = r'"
proof -
  have "takeWhile number_char (dec_int k @ q) = dec_int k" if "delim q" for k q
  proof -
    have "takeWhile number_char q = []" using that by (cases q) (auto simp: delim_def number_char_def)
    then show ?thesis using dec_int_chars(2) by (simp add: takeWhile_append)
  qed
  with assms have "dec_int i = dec_int j" by metis
  with assms(1) show ?thesis by (simp add: dec_int_inj)
qed

lemma map_sum_eq_Inr: "map_sum f g r = Inr y \<longleftrightarrow> (\<exists>x. r = Inr x \<and> y = g x)"
  by (cases r) auto

text \<open>The first character of a value's text tells its kind.\<close>

definition lead_kind :: "char \<Rightarrow> nat" where
  "lead_kind c =
     (if c = CHR ''n'' then 0 else if c = CHR ''t'' then 1 else if c = CHR ''f'' then 2 else if c = CHR 0x22 then 3
      else if c = CHR ''['' then 4 else if c = CHR ''{'' then 5 else if c \<in> {CHR '']'', CHR ''}''} then 6 else 7)"

definition kind :: "'n json \<Rightarrow> nat" where
  "kind v = (case v of JNull \<Rightarrow> 0 | JBool b \<Rightarrow> (if b then 1 else 2) | JString _ \<Rightarrow> 3 | JArray _ \<Rightarrow> 4 | JObject _ \<Rightarrow> 5 | JNumber _ \<Rightarrow> 7)"

lemma number_kind: "number_char c \<Longrightarrow> lead_kind c = 7"
proof -
  have "\<not> list_ex number_char [CHR ''n'', CHR ''t'', CHR ''f'', CHR 0x22, CHR ''['', CHR ''{'', CHR '']'', CHR ''}'']" by code_simp
  then show "number_char c \<Longrightarrow> lead_kind c = 7" by (auto simp: lead_kind_def)
qed

lemma lead_kinds:
  "lead_kind CHR ''n'' = 0" "lead_kind CHR ''t'' = 1" "lead_kind CHR ''f'' = 2" "lead_kind CHR 0x22 = 3" "lead_kind CHR ''['' = 4" "lead_kind CHR ''{'' = 5"
  by (simp_all add: lead_kind_def)

lemma write_canonical_lead:
  assumes "write_canonical v = Inr t"
  shows "t \<noteq> [] \<and> lead_kind (hd t) = kind v"
proof (cases v)
  case (JNumber n)
  with assms obtain i where i: "t = dec_int i" by (cases n) auto
  then have "number_char (hd t)" using dec_int_chars(2) [OF hd_in_set [OF dec_int_chars(1)]] by simp
  with JNumber i show ?thesis using dec_int_chars(1) [of i] by (simp add: number_kind kind_def)
qed (use assms in \<open>auto simp: write_json_string_def map_sum_eq_Inr lead_kinds kind_def simp del: One_nat_def\<close>)

lemma same_kind:
  assumes "write_canonical v = Inr t" and "write_canonical w = Inr u" and "t @ r = u @ r'"
  shows "kind w = kind v"
  using write_canonical_lead [OF assms(1)] write_canonical_lead [OF assms(2)] arg_cong [OF assms(3), of hd] by simp

lemma lead_not_closing:
  assumes "write_canonical v = Inr t"
  shows "\<exists>d ds. t = d # ds \<and> d \<notin> {CHR '']'', CHR ''}''}"
proof -
  have "kind v \<noteq> 6" by (simp add: kind_def split: json.split)
  then show ?thesis using write_canonical_lead [OF assms] by (cases t) (auto simp: lead_kind_def)
qed

lemma kind_cases:
  "kind w = 0 \<longleftrightarrow> w = JNull" "kind w = 1 \<longleftrightarrow> w = JBool True" "kind w = 2 \<longleftrightarrow> w = JBool False" "kind w = 3 \<longleftrightarrow> (\<exists>s. w = JString s)"
  "kind w = 4 \<longleftrightarrow> (\<exists>vs. w = JArray vs)" "kind w = 5 \<longleftrightarrow> (\<exists>kvs. w = JObject kvs)" "kind w = 7 \<longleftrightarrow> (\<exists>n. w = JNumber n)"
  by (simp_all add: kind_def split: json.split)

lemma join_with_Cons: "join_with '','' (t # ts) = t @ concat (map ((#) CHR '','') ts)"
  by (induction ts arbitrary: t) simp_all

lemma collect_Inr_Cons: "collect (a # as) = Inr ts \<longleftrightarrow> (\<exists>t us. a = Inr t \<and> collect as = Inr us \<and> ts = t # us)"
  by (cases a) (auto simp: map_sum_eq_Inr)

text \<open>A separated list of texts, each of which ends where it ends, determines its items.\<close>

lemma tail_prefix:
  assumes "collect (map E xs) = Inr ts" and "collect (map E ys) = Inr us"
    and "\<And>x y t u r r'. x \<in> set xs \<Longrightarrow> E x = Inr t \<Longrightarrow> E y = Inr u \<Longrightarrow> t @ r = u @ r' \<Longrightarrow> delim r \<Longrightarrow> delim r' \<Longrightarrow> F x = F y \<and> r = r'"
    and "c \<in> {CHR '']'', CHR ''}''}"
    and "concat (map ((#) CHR '','') ts) @ c # r = concat (map ((#) CHR '','') us) @ c # r'"
  shows "map F xs = map F ys \<and> r = r'"
  using assms
proof (induction xs arbitrary: ys ts us)
  case Nil
  then show ?case by (cases ys) (auto simp: collect_Inr_Cons)
next
  case (Cons x xs)
  obtain t ts' where t: "E x = Inr t" "collect (map E xs) = Inr ts'" "ts = t # ts'"
    using Cons.prems(1) by (auto simp: collect_Inr_Cons)
  show ?case
  proof (cases ys)
    case Nil
    then show ?thesis using Cons.prems t by auto
  next
    case (Cons y ys')
    then obtain u us' where u: "E y = Inr u" "collect (map E ys') = Inr us'" "us = u # us'"
      using Cons.prems(2) by (auto simp: collect_Inr_Cons)
    let ?q = "\<lambda>ts r. concat (map ((#) CHR '','') ts) @ c # r"
    have d: "delim (?q zs q)" for zs q using Cons.prems(4) by (cases zs) (auto simp: delim_def)
    have "t @ ?q ts' r = u @ ?q us' r'" using Cons.prems(5) t u by simp
    from Cons.prems(3) [OF _ t(1) u(1) this d d] have "F x = F y" and q: "?q ts' r = ?q us' r'" by simp_all
    moreover have "map F xs = map F ys' \<and> r = r'"
      by (rule Cons.IH [OF t(2) u(2) _ Cons.prems(4) q]) (rule Cons.prems(3), simp_all)
    ultimately show ?thesis using Cons by simp
  qed
qed

lemma join_prefix:
  assumes "collect (map E xs) = Inr ts" and "collect (map E ys) = Inr us"
    and step: "\<And>x y t u r r'. x \<in> set xs \<Longrightarrow> E x = Inr t \<Longrightarrow> E y = Inr u \<Longrightarrow> t @ r = u @ r' \<Longrightarrow> delim r \<Longrightarrow> delim r' \<Longrightarrow> F x = F y \<and> r = r'"
    and c: "c \<in> {CHR '']'', CHR ''}''}" and lead: "\<And>y u. E y = Inr u \<Longrightarrow> \<exists>d ds. u = d # ds \<and> d \<notin> {CHR '']'', CHR ''}''}"
    and eq: "join_with '','' ts @ c # r = join_with '','' us @ c # r'"
  shows "map F xs = map F ys \<and> r = r'"
proof -
  have ne: "\<exists>d ds. join_with '','' vs @ c # q = d # ds \<and> d \<noteq> c" if "collect (map E (z # zs)) = Inr vs" for z zs vs q
    using that lead [of z] c by (fastforce simp: collect_Inr_Cons join_with_Cons)
  show ?thesis
  proof (cases xs; cases ys)
    fix x xs' y ys' assume xy: "xs = x # xs'" "ys = y # ys'"
    then have "concat (map ((#) CHR '','') ts) = CHR '','' # join_with '','' ts"
      "concat (map ((#) CHR '','') us) = CHR '','' # join_with '','' us"
      using assms(1,2) by (auto simp: collect_Inr_Cons join_with_Cons)
    then show ?thesis using eq by (intro tail_prefix [OF assms(1,2) step c]) simp_all
  next
    fix x xs' assume "xs = x # xs'" "ys = []"
    then show ?thesis using ne [of x xs' ts r] assms(1,2) eq by auto
  next
    fix y ys' assume "xs = []" "ys = y # ys'"
    then show ?thesis using ne [of y ys' us r'] assms(1,2) eq by auto
  qed (use assms in auto)
qed

lemma insort_map_prod: "insort_key fst (map_prod id f x) (map (map_prod id f) xs) = map (map_prod id f) (insort_key fst x xs)"
  by (induction xs) (auto simp: map_prod_def split_beta)

lemma sort_map_prod: "sort_key fst (map (map_prod id f) xs) = map (map_prod id f) (sort_key fst xs)"
  by (induction xs) (simp_all only: list.map sort_key_simps insort_map_prod)

definition write_member :: "string \<times> json_number json \<Rightarrow> recall_error + string" where
  "write_member kv = map_sum id (\<lambda>t. write_json_string (fst kv) @ '':'' @ t) (write_canonical (snd kv))"

lemma write_object:
  "write_canonical (JObject members) = map_sum id (\<lambda>ts. ''{'' @ join_with '','' ts @ ''}'') (collect (map write_member (sort_key fst members)))"
  by (simp add: sort_map_prod write_member_def [abs_def] comp_def split_beta)

lemma member_prefix:
  assumes "write_member kv = Inr t" and "write_member lw = Inr u" and "t @ r = u @ r'" and "delim r" and "delim r'"
    and "\<And>w t u. write_canonical (snd kv) = Inr t \<Longrightarrow> write_canonical w = Inr u \<Longrightarrow> t @ r = u @ r' \<Longrightarrow> G (snd kv) = G w \<and> r = r'"
  shows "map_prod id G kv = map_prod id G lw \<and> r = r'"
proof -
  obtain t1 u1 where t: "write_canonical (snd kv) = Inr t1" "t = write_json_string (fst kv) @ '':'' @ t1"
    and u: "write_canonical (snd lw) = Inr u1" "u = write_json_string (fst lw) @ '':'' @ u1"
    using assms(1,2) by (auto simp: write_member_def map_sum_eq_Inr)
  have "write_json_string (fst kv) @ ('':'' @ t1 @ r) = write_json_string (fst lw) @ ('':'' @ u1 @ r')"
    using assms(3) t(2) u(2) by simp
  from write_json_string_prefix [OF this] have "fst kv = fst lw" "t1 @ r = u1 @ r'" by simp_all
  with assms(6) [OF t(1) u(1)] show ?thesis by (simp add: map_prod_def split_beta)
qed

lemma write_canonical_prefix:
  assumes "write_canonical v = Inr t" and "write_canonical w = Inr u" and "t @ r = u @ r'" and "delim r" and "delim r'"
  shows "sort_json_value v = sort_json_value w \<and> r = r'"
  using assms
proof (induction v arbitrary: w t u r r')
  case JNull
  have "w = JNull" using same_kind [OF JNull(1-3)] by (simp add: kind_cases kind_def [of JNull])
  with JNull show ?case by simp
next
  case (JBool b)
  have "w = JBool b" using same_kind [OF JBool(1-3)] by (cases b) (simp_all add: kind_cases kind_def [of "JBool _"] del: One_nat_def)
  with JBool show ?case by simp
next
  case (JNumber n)
  obtain m where w: "w = JNumber m" using same_kind [OF JNumber(1-3)] by (auto simp: kind_cases kind_def [of "JNumber _"])
  with JNumber obtain i j where ij: "n = JInt i" "m = JInt j" by (cases n; cases m) auto
  with JNumber w have "dec_int i @ r = dec_int j @ r'" by simp
  from dec_int_prefix [OF this] JNumber w ij show ?case by simp
next
  case (JString s)
  obtain s' where w: "w = JString s'" using same_kind [OF JString(1-3)] by (auto simp: kind_cases kind_def [of "JString _"])
  with JString have "write_json_string s @ r = write_json_string s' @ r'" by simp
  from write_json_string_prefix [OF this] w show ?case by simp
next
  case (JArray xs)
  obtain ys where w: "w = JArray ys" using same_kind [OF JArray.prems(1-3)] by (auto simp: kind_cases kind_def [of "JArray _"])
  obtain ts us where ts: "collect (map write_canonical xs) = Inr ts" "t = ''['' @ join_with '','' ts @ '']''"
    and us: "collect (map write_canonical ys) = Inr us" "u = ''['' @ join_with '','' us @ '']''"
    using JArray.prems(1,2) w by (auto simp: map_sum_eq_Inr)
  have "join_with '','' ts @ CHR '']'' # r = join_with '','' us @ CHR '']'' # r'" using JArray.prems(3) ts us by simp
  with JArray.IH have "map sort_json_value xs = map sort_json_value ys \<and> r = r'"
    by (intro join_prefix [OF ts(1) us(1) _ _ lead_not_closing]) blast+
  with w show ?case by simp
next
  case (JObject xs)
  obtain ys where w: "w = JObject ys" using same_kind [OF JObject.prems(1-3)] by (auto simp: kind_cases kind_def [of "JObject _"])
  obtain ts us where ts: "collect (map write_member (sort_key fst xs)) = Inr ts" "t = ''{'' @ join_with '','' ts @ ''}''"
    and us: "collect (map write_member (sort_key fst ys)) = Inr us" "u = ''{'' @ join_with '','' us @ ''}''"
    using JObject.prems(1,2) w by (auto simp: map_sum_eq_Inr write_object simp del: write_canonical.simps)
  have eq: "join_with '','' ts @ CHR ''}'' # r = join_with '','' us @ CHR ''}'' # r'" using JObject.prems(3) ts us by simp
  have "map (map_prod id sort_json_value) (sort_key fst xs) = map (map_prod id sort_json_value) (sort_key fst ys) \<and> r = r'"
  proof (rule join_prefix [OF ts(1) us(1) _ _ _ eq])
    show "\<exists>d ds. t' = d # ds \<and> d \<notin> {CHR '']'', CHR ''}''}" if "write_member y = Inr t'" for y t'
      using that by (auto simp: write_member_def map_sum_eq_Inr write_json_string_def)
    show "map_prod id sort_json_value x = map_prod id sort_json_value y \<and> r = r'"
      if "x \<in> set (sort_key fst xs)" "write_member x = Inr t" "write_member y = Inr u" "t @ r = u @ r'" "delim r" "delim r'" for x y t u r r'
    proof (rule member_prefix [OF that(2-6)])
      have x: "x \<in> set xs" "snd x \<in> Basic_BNFs.snds x" using that(1) by (auto simp: snds.simps)
      show "sort_json_value (snd x) = sort_json_value w' \<and> r = r'"
        if "write_canonical (snd x) = Inr t'" "write_canonical w' = Inr u'" "t' @ r = u' @ r'" for w' t' u'
        by (rule JObject.IH [OF x that \<open>delim r\<close> \<open>delim r'\<close>])
    qed
  qed simp
  with w show ?case by (simp add: sort_map_prod)
qed

lemma write_canonical_inj:
  assumes "write_canonical v = Inr t" and "write_canonical w = Inr t"
  shows "sort_json_value v = sort_json_value w"
  using write_canonical_prefix [OF assms, of "[]" "[]"] by (simp add: delim_def)

subsection \<open>Canonical bytes are total on values without floats\<close>

lemma collect_total: "(\<And>r. r \<in> set rs \<Longrightarrow> \<exists>t. r = Inr t) \<Longrightarrow> \<exists>ts. collect rs = Inr ts"
proof (induction rs)
  case (Cons r rs)
  then show ?case by (cases r) (force simp: map_sum_eq_Inr)+
qed simp

lemma list_all_members: "list_all (\<lambda>(_, r). P r) (map (map_prod id f) kvs) \<longleftrightarrow> (\<forall>kv \<in> set kvs. P (f (snd kv)))"
  by (auto simp: list_all_iff)

lemma write_canonical_total: "reject_floats v = Inr () \<Longrightarrow> \<exists>t. write_canonical (to_value v) = Inr t"
proof (induction v)
  case (SSeq vs)
  then have "\<exists>ts. collect (map write_canonical (map to_value vs)) = Inr ts"
    by (intro collect_total) (auto simp: list_all_iff split: if_split_asm)
  then show ?case by auto
next
  case (SStruct kvs)
  have "\<exists>ts. collect (map write_member (sort_key fst (map (map_prod id to_value) kvs))) = Inr ts"
  proof (rule collect_total)
    fix r assume "r \<in> set (map write_member (sort_key fst (map (map_prod id to_value) kvs)))"
    then obtain kv where kv: "kv \<in> set kvs" "r = write_member (map_prod id to_value kv)" by auto
    then have "reject_floats (snd kv) = Inr ()" using SStruct.prems by (simp add: list_all_members split: if_split_asm)
    then have "\<exists>t. write_canonical (to_value (snd kv)) = Inr t" by (intro SStruct.IH [OF kv(1)]) (simp_all add: snds.simps)
    with kv(2) show "\<exists>t. r = Inr t" by (auto simp: write_member_def)
  qed
  then show ?case by (auto simp: write_object simp del: write_canonical.simps)
qed auto

subsection \<open>The payload is determined by the bytes that are signed\<close>

lemma to_value_nullable [simp]: "to_value (ser_nullable ser v) = option_json (\<lambda>x. to_value (ser x)) v"
  by (cases v) (simp_all add: ser_nullable_def option_json_def)

lemma uint_iff: "uint (a :: u32) = uint b \<longleftrightarrow> a = b"
  by (simp add: word_uint_eq_iff)

lemma sint_iff: "sint (a :: i64) = sint b \<longleftrightarrow> a = b"
  by (auto intro: signed_word_eqI)

interpretation recall_u32: json_code "\<lambda>n :: u32. JNumber (JInt (uint n))"
  by unfold_locales (simp_all add: uint_iff)

interpretation recall_i64: json_code "\<lambda>n :: i64. JNumber (JInt (sint n))"
  by unfold_locales (simp_all add: sint_iff)

lemma ser_digest_code: "json_code (\<lambda>d. to_value (ser_digest d))"
  by (rule record_code [where fl = "\<lambda>d. [(''algorithm'', JString (rd_algorithm d)), (''value'', JString (rd_value d)),
     (''public_recomputable'', JBool (rd_public_recomputable d))]"]) (simp_all add: ser_digest_def)

interpretation recall_dig: json_code "\<lambda>d. to_value (ser_digest d)"
  by (rule ser_digest_code)

lemma ser_hit_code: "json_code (\<lambda>h. to_value (ser_hit h))"
  by (rule record_code [where fl = "\<lambda>h. [(''memory_id'', JString (rh_memory_id h)), (''memory_version_id'', JString (rh_memory_version_id h)),
     (''content_digest'', to_value (ser_digest (rh_content_digest h))), (''rank'', JNumber (JInt (uint (rh_rank h)))),
     (''score_micros'', option_json (\<lambda>n. JNumber (JInt (sint n))) (rh_score_micros h)),
     (''provenance_digest'', option_json (\<lambda>d. to_value (ser_digest d)) (rh_provenance_digest h)),
     (''authority_label'', option_json JString (rh_authority_label h))]"])
    (simp_all add: ser_hit_def uint_iff recall_i64.option_iff recall_dig.option_iff str.option_iff)

interpretation recall_hits: json_code "list_json (\<lambda>h. to_value (ser_hit h))"
  by (rule json_code.list_code [OF ser_hit_code])

lemma to_value_hits: "to_value (SSeq (map ser_hit hs)) = list_json (\<lambda>h. to_value (ser_hit h)) hs"
  by (simp add: list_json_def)

lemma ser_payload_code:
  assumes "inj (rv_hyphenated env)"
  shows "json_code (\<lambda>p. to_value (ser_payload env p))"
  by (rule record_code [where fl = "\<lambda>p.
      [(''protocol_version'', JString (rp_protocol_version p)), (''canonicalization_version'', JString (rp_canonicalization_version p)),
       (''request_id'', JString (rv_hyphenated env (rp_request_id p))), (''nonce'', JString (rp_nonce p)),
       (''issued_at_unix_ms'', JNumber (JInt (sint (rp_issued_at p)))), (''expires_at_unix_ms'', JNumber (JInt (sint (rp_expires_at p)))),
       (''tenant_id'', JString (rp_tenant_id p)), (''workspace_id'', option_json JString (rp_workspace_id p)),
       (''agent_id'', JString (rp_agent_id p)), (''session_id'', option_json JString (rp_session_id p)),
       (''mission_id'', option_json JString (rp_mission_id p)), (''run_id'', JString (rv_hyphenated env (rp_run_id p))),
       (''query_digest'', to_value (ser_digest (rp_query_digest p))), (''limit'', JNumber (JInt (uint (rp_limit p)))),
       (''retrieval_policy_digest'', to_value (ser_digest (rp_retrieval_policy_digest p))),
       (''embedding_config_digest'', to_value (ser_digest (rp_embedding_config_digest p))),
       (''hits'', list_json (\<lambda>h. to_value (ser_hit h)) (rp_hits p))]"])
    (simp_all add: ser_payload_def to_value_hits inj_eq [OF assms] str.option_iff uint_iff sint_iff del: to_value.simps(6))

lemma reject_nullable [simp]: "(\<And>x. reject_floats (ser x) = Inr ()) \<Longrightarrow> reject_floats (ser_nullable ser v) = Inr ()"
  by (cases v) (simp_all add: ser_nullable_def)

lemma reject_digest [simp]: "reject_floats (ser_digest d) = Inr ()"
  by (simp add: ser_digest_def)

lemma reject_hit [simp]: "reject_floats (ser_hit h) = Inr ()"
  by (simp add: ser_hit_def)

lemma reject_payload [simp]: "reject_floats (ser_payload env p) = Inr ()"
  by (simp add: ser_payload_def list_all_iff)

lemma signing_bytes_total: "\<exists>bs. recall_signing_bytes env p = Inr bs"
  using write_canonical_total [OF reject_payload, of env p] by (auto simp: recall_signing_bytes_def canonical_json_v1_bytes_def)

lemma signing_bytes_inj:
  assumes "inj (rv_hyphenated env)" and "recall_signing_bytes env p = recall_signing_bytes env q"
  shows "p = q"
proof -
  obtain t u where t: "write_canonical (to_value (ser_payload env p)) = Inr t" and u: "write_canonical (to_value (ser_payload env q)) = Inr u"
    using write_canonical_total reject_payload by blast
  with assms(2) have "t = u" by (simp add: recall_signing_bytes_def canonical_json_v1_bytes_def str_bytes_inj)
  with t u have "sort_json_value (to_value (ser_payload env p)) = sort_json_value (to_value (ser_payload env q))"
    using write_canonical_inj by blast
  then show ?thesis by (rule json_code.canonical_inj [OF ser_payload_code [OF assms(1)]])
qed

subsection \<open>What validation accepts\<close>

lemma require_Inr [simp]: "require ok e rest = Inr () \<longleftrightarrow> ok \<and> rest = Inr ()"
  by (simp add: require_def)

definition digest_ok :: "recall_digest \<Rightarrow> bool" where
  "digest_ok d \<longleftrightarrow> rd_algorithm d = SHA256_ALGORITHM \<and> length (rd_value d) = SHA256_HEX_LEN \<and> list_all lowercase_hex (rd_value d)"

lemma require_sha256_Inr [simp]: "require_sha256_digest fld d rest = Inr () \<longleftrightarrow> digest_ok d \<and> rest = Inr ()"
  by (auto simp: require_sha256_digest_def require_lowercase_hex_def digest_ok_def SHA256_HEX_LEN_def)

lemma require_non_empty_Inr [simp]: "require_non_empty fld v rest = Inr () \<longleftrightarrow> v \<noteq> [] \<and> rest = Inr ()"
  by (simp add: require_non_empty_def)

lemma require_nullable_Inr [simp]: "require_non_empty_nullable fld v rest = Inr () \<longleftrightarrow> v \<noteq> Some [] \<and> rest = Inr ()"
  by (auto simp: require_non_empty_nullable_def split: option.split)

definition hit_ok :: "recall_hit \<Rightarrow> bool" where
  "hit_ok h \<longleftrightarrow> rh_memory_id h \<noteq> [] \<and> rh_memory_version_id h \<noteq> [] \<and> digest_ok (rh_content_digest h) \<and>
     (\<forall>d. rh_provenance_digest h = Some d \<longrightarrow> digest_ok d) \<and> rh_authority_label h \<noteq> Some []"

lemma validate_hits_Inr:
  "validate_hits i ms vs hs = Inr () \<longleftrightarrow>
     map (\<lambda>h. unat (rh_rank h)) hs = [i..<i + length hs] \<and> (\<forall>h \<in> set hs. hit_ok h) \<and>
     distinct (map rh_memory_id hs) \<and> set (map rh_memory_id hs) \<inter> set ms = {} \<and>
     distinct (map rh_memory_version_id hs) \<and> set (map rh_memory_version_id hs) \<inter> set vs = {}"
proof (induction hs arbitrary: i ms vs)
  case (Cons h hs)
  have up: "[i..<i + length (h # hs)] = i # [Suc i..<Suc i + length hs]" by (simp add: upt_conv_Cons del: upt_Suc)
  have opt: "(case rh_provenance_digest h of Some d \<Rightarrow> require_sha256_digest f d | None \<Rightarrow> id) r = Inr () \<longleftrightarrow>
      (\<forall>d. rh_provenance_digest h = Some d \<longrightarrow> digest_ok d) \<and> r = Inr ()"
    "(case rh_authority_label h of Some l \<Rightarrow> require_non_empty f l | None \<Rightarrow> id) r = Inr () \<longleftrightarrow> rh_authority_label h \<noteq> Some [] \<and> r = Inr ()" for f r
    by (auto split: option.split)
  show ?case unfolding up by (auto simp: Cons.IH opt hit_ok_def simp del: upt_Suc)
qed simp

text \<open>A payload is accepted exactly when it has the contract's shape. The lifetime is the true difference of the two times: it does not wrap.\<close>

definition payload_ok :: "recall_payload \<Rightarrow> bool" where
  "payload_ok p \<longleftrightarrow>
     rp_protocol_version p = RECALL_PROTOCOL_VERSION \<and> rp_canonicalization_version p = RECALL_CANONICALIZATION_VERSION \<and>
     length (rp_nonce p) = 64 \<and> list_all lowercase_hex (rp_nonce p) \<and>
     0 \<le> sint (rp_issued_at p) \<and> sint (rp_issued_at p) < sint (rp_expires_at p) \<and> sint (rp_expires_at p) - sint (rp_issued_at p) \<le> 120000 \<and>
     rp_tenant_id p \<noteq> [] \<and> rp_agent_id p \<noteq> [] \<and> rp_workspace_id p \<noteq> Some [] \<and> rp_session_id p \<noteq> Some [] \<and> rp_mission_id p \<noteq> Some [] \<and>
     digest_ok (rp_query_digest p) \<and> digest_ok (rp_retrieval_policy_digest p) \<and> digest_ok (rp_embedding_config_digest p) \<and>
     1 \<le> unat (rp_limit p) \<and> unat (rp_limit p) \<le> 100 \<and> length (rp_hits p) \<le> unat (rp_limit p) \<and>
     map (\<lambda>h. unat (rh_rank h)) (rp_hits p) = [0..<length (rp_hits p)] \<and> (\<forall>h \<in> set (rp_hits p). hit_ok h) \<and>
     distinct (map rh_memory_id (rp_hits p)) \<and> distinct (map rh_memory_version_id (rp_hits p))"

lemma ttl_exact:
  assumes "0 \<le> sint (a :: i64)" and "sint a < sint b"
  shows "sint (b - a) = sint b - sint a"
proof -
  have "sint b < 2 ^ 63" using sint_lt [of b] by simp
  with assms show ?thesis by (simp add: sint_word_ariths signed_take_bit_int_eq_self)
qed

lemma payload_validate_Inr: "payload_validate p = Inr () \<longleftrightarrow> payload_ok p"
proof -
  have l: "RECALL_MIN_LIMIT \<le> rp_limit p \<and> rp_limit p \<le> RECALL_MAX_LIMIT \<longleftrightarrow> 1 \<le> unat (rp_limit p) \<and> unat (rp_limit p) \<le> 100"
    by (simp add: RECALL_MIN_LIMIT_def RECALL_MAX_LIMIT_def word_le_nat_alt)
  show ?thesis
    by (auto simp: payload_validate_def payload_ok_def validate_nonce_def l validate_hits_Inr RECALL_MAX_TTL_MS_def RECALL_MAX_HITS_def
        RECALL_NONCE_HEX_LEN_def ttl_exact simp del: One_nat_def)
qed

definition signature_ok :: "recall_env \<Rightarrow> recall_envelope \<Rightarrow> bool" where
  "signature_ok env e \<longleftrightarrow> (let sg = re_signature e; d = rs_signed_payload_digest sg in
     rs_signing_domain sg = RECALL_SIGNING_DOMAIN_LABEL \<and> rs_algorithm sg = RECALL_SIGNATURE_ALGORITHM \<and> rs_key_id sg \<noteq> [] \<and>
     length (rs_signature sg) = 128 \<and> list_all lowercase_hex (rs_signature sg) \<and> digest_ok d \<and> rd_public_recomputable d \<and>
     (\<exists>bs. recall_signing_bytes env (re_payload e) = Inr bs \<and> rd_value d = to_hex (rv_sha256 env bs)))"

lemma envelope_validate_Inr: "envelope_validate env e = Inr () \<longleftrightarrow> payload_ok (re_payload e) \<and> signature_ok env e"
proof -
  obtain bs where bs: "recall_signing_bytes env (re_payload e) = Inr bs" using signing_bytes_total by blast
  show ?thesis
  proof (cases "payload_validate (re_payload e)")
    case (Inl a)
    then show ?thesis using payload_validate_Inr [of "re_payload e"] by (simp add: envelope_validate_def)
  next
    case (Inr b)
    then have p: "payload_ok (re_payload e)" by (simp add: payload_validate_Inr)
    have len: "length s = 128 \<Longrightarrow> s \<noteq> []" for s :: string by auto
    show ?thesis using Inr p
      by (auto simp: envelope_validate_def signature_ok_def Let_def require_lowercase_hex_def recall_signed_payload_digest_def bs
          recall_digest_sha256_def RECALL_SIGNATURE_HEX_LEN_def)
  qed
qed

lemma same_digest_same_payload:
  assumes "inj (rv_hyphenated env)" and "envelope_validate env e = Inr ()" and "envelope_validate env e' = Inr ()"
    and d: "rs_signed_payload_digest (re_signature e) = rs_signed_payload_digest (re_signature e')"
    and col: "\<And>bs bs'. recall_signing_bytes env (re_payload e) = Inr bs \<Longrightarrow> recall_signing_bytes env (re_payload e') = Inr bs' \<Longrightarrow>
      rv_sha256 env bs = rv_sha256 env bs' \<Longrightarrow> bs = bs'"
  shows "re_payload e = re_payload e'"
proof -
  obtain bs bs' where bs: "recall_signing_bytes env (re_payload e) = Inr bs" "rd_value (rs_signed_payload_digest (re_signature e)) = to_hex (rv_sha256 env bs)"
    and bs': "recall_signing_bytes env (re_payload e') = Inr bs'" "rd_value (rs_signed_payload_digest (re_signature e')) = to_hex (rv_sha256 env bs')"
    using assms(2,3) unfolding envelope_validate_Inr signature_ok_def Let_def by blast
  have "to_hex (rv_sha256 env bs) = to_hex (rv_sha256 env bs')" using bs(2) bs'(2) d by simp
  then have "rv_sha256 env bs = rv_sha256 env bs'" by (simp only: to_hex_inj)
  from col [OF bs(1) bs'(1) this] show ?thesis using bs(1) bs'(1) by (intro signing_bytes_inj [OF assms(1)]) simp
qed

subsection \<open>Properties\<close>

text \<open>
  C33: what is signed is the payload. The bytes of the canonical form always exist, start with the signing domain, and two payloads have the same
  bytes only if they are equal in every field and every hit, escapes, nulls, signs and list boundaries included: a signature for one recall
  is a signature for no other. Two envelopes that pass validation with the same payload digest carry the same payload, if SHA-256 does not
  collide on their bytes. Assumed: the hyphenated text of a UUID is unique to it.
\<close>

theorem signing_bytes_determine_payload:
  assumes "inj (rv_hyphenated env)"
  shows "(\<exists>bs. recall_signing_bytes env p = Inr (RECALL_SIGNING_DOMAIN_BYTES @ bs)) \<and>
     (recall_signing_bytes env p = recall_signing_bytes env q \<longleftrightarrow> p = q) \<and>
     (envelope_validate env e = Inr () \<and> envelope_validate env e' = Inr () \<and>
       rs_signed_payload_digest (re_signature e) = rs_signed_payload_digest (re_signature e') \<and>
       (\<forall>bs bs'. recall_signing_bytes env (re_payload e) = Inr bs \<and> recall_signing_bytes env (re_payload e') = Inr bs' \<and>
          rv_sha256 env bs = rv_sha256 env bs' \<longrightarrow> bs = bs') \<longrightarrow> re_payload e = re_payload e')"
proof (intro conjI)
  show "\<exists>bs. recall_signing_bytes env p = Inr (RECALL_SIGNING_DOMAIN_BYTES @ bs)"
    using signing_bytes_total [of env p] by (auto simp: recall_signing_bytes_def map_sum_eq_Inr)
  show "recall_signing_bytes env p = recall_signing_bytes env q \<longleftrightarrow> p = q" using signing_bytes_inj [OF assms] by blast
qed (use same_digest_same_payload [OF assms] in blast)

theorem signing_bytes_determine_payload_witness:
  "\<forall>p q. recall_signing_bytes \<lparr>rv_sha256 = id, rv_hyphenated = (\<lambda>u. dec_nat (unat u)), rv_parse_str = (\<lambda>_. None)\<rparr> p =
     recall_signing_bytes \<lparr>rv_sha256 = id, rv_hyphenated = (\<lambda>u. dec_nat (unat u)), rv_parse_str = (\<lambda>_. None)\<rparr> q \<longleftrightarrow> p = q"
proof -
  have "inj (rv_hyphenated \<lparr>rv_sha256 = id, rv_hyphenated = (\<lambda>u. dec_nat (unat u)), rv_parse_str = (\<lambda>_. None)\<rparr>)"
    by (simp add: inj_def dec_nat_inj word_unat_eq_iff)
  from signing_bytes_determine_payload [OF this] show ?thesis by blast
qed

end
