(* ===== verification/Replay_Store.thy ===== *)
theory Replay_Store
  imports Recall_Envelope "HOL-Library.Product_Lexorder" "HOL-Library.AList"
begin

text \<open>
  The replay store of recall verification: its contract (\<open>ReplayStore\<close>, \<open>src/src/aeon/recall_v2.rs\<close>) as a locale, and the PostgreSQL store
  (\<open>src/src/aeon/recall_v2_postgres.rs\<close>) that the locale is interpreted on.

  The table is an association list of the rows the queries read and write, by their primary key; a transaction is one step, which the advisory lock and
  the primary key make it. What the database answers, fails or lets time out is an argument: a commit whose answer is lost has happened all
  the same. The column \<open>first_consumed_at\<close> is written by the database and read by nothing here.
\<close>

subsection \<open>The contract\<close>

type_synonym replay_namespace = bytes

datatype consume_result = Fresh | Replayed

text \<open>
  \<open>expiry s\<close> is what a store in state \<open>s\<close> remembers. Consuming answers \<open>Fresh\<close> only for an entry it did not have, and has it from then on;
  and whatever it answers it forgets nothing and never shortens an expiry.
\<close>

definition remembers :: "('k \<Rightarrow> i64 option) \<Rightarrow> 'k \<Rightarrow> int \<Rightarrow> bool" where
  "remembers m k e \<longleftrightarrow> (\<exists>e'. m k = Some e' \<and> e \<le> sint e')"

locale replay_contract =
  fixes expiry :: "'s \<Rightarrow> (replay_namespace \<times> string) \<Rightarrow> i64 option"
    and consume :: "'f \<Rightarrow> replay_namespace \<Rightarrow> string \<Rightarrow> i64 \<Rightarrow> 's \<Rightarrow> ('e + consume_result) \<times> 's"
  assumes fresh_unknown: "consume f ns n e s = (Inr Fresh, s') \<Longrightarrow> expiry s (ns, n) = None"
    and fresh_kept: "consume f ns n e s = (Inr Fresh, s') \<Longrightarrow> expiry s' (ns, n) = Some e"
    and keeps: "consume f ns n e s = (r, s') \<Longrightarrow> remembers (expiry s) k t \<Longrightarrow> remembers (expiry s') k t"
begin

lemma known_not_fresh: "remembers (expiry s) (ns, n) t \<Longrightarrow> fst (consume f ns n e s) \<noteq> Inr Fresh"
  using fresh_unknown by (metis option.distinct(1) prod.collapse remembers_def)

lemma fresh_remembers: "consume f ns n e s = (Inr Fresh, s') \<Longrightarrow> remembers (expiry s') (ns, n) (sint e)"
  using fresh_kept by (auto simp: remembers_def)

lemma fresh_once: "consume f ns n e s = (Inr Fresh, s') \<Longrightarrow> fst (consume f' ns n e' s') \<noteq> Inr Fresh"
  using fresh_remembers known_not_fresh by blast

end

subsection \<open>The PostgreSQL store\<close>

datatype postgres_error =
    InvalidOperationTimeout
  | InvalidNonce
  | InvalidExpiresAt i64
  | InvalidSafeCutoff i64
  | InvalidBatchSize u32
  | TimedOut string
  | Database string
  | SchemaVersion int "int option"
  | SchemaContract string

text \<open>What a query comes back with.\<close>

datatype 'a answer = Answered 'a | Query_Failed | Query_Timed_Out

definition timeout_sqlx :: "string \<Rightarrow> 'a answer \<Rightarrow> postgres_error + 'a" where
  "timeout_sqlx operation a =
     (case a of Query_Timed_Out \<Rightarrow> Inl (TimedOut operation) | Query_Failed \<Rightarrow> Inl (Database operation) | Answered x \<Rightarrow> Inr x)"

definition POSTGRES_REPLAY_SCHEMA_VERSION :: int where
  "POSTGRES_REPLAY_SCHEMA_VERSION = 1"

definition MAX_PURGE_BATCH_SIZE :: u32 where
  "MAX_PURGE_BATCH_SIZE = 10000"

definition validate_operation_timeout :: "nat \<Rightarrow> postgres_error + unit" where
  "validate_operation_timeout millis = (if millis = 0 then Inl InvalidOperationTimeout else Inr ())"

definition store_validate_nonce :: "string \<Rightarrow> postgres_error + unit" where
  "store_validate_nonce nonce =
     (if length nonce = RECALL_NONCE_HEX_LEN \<and> list_all lowercase_hex nonce then Inr () else Inl InvalidNonce)"

definition validate_expires_at :: "i64 \<Rightarrow> postgres_error + unit" where
  "validate_expires_at e = (if 0 \<le> sint e then Inr () else Inl (InvalidExpiresAt e))"

definition validate_safe_cutoff :: "i64 \<Rightarrow> postgres_error + unit" where
  "validate_safe_cutoff c = (if 0 \<le> sint c then Inr () else Inl (InvalidSafeCutoff c))"

definition validate_batch_size :: "u32 \<Rightarrow> postgres_error + unit" where
  "validate_batch_size b = (if 1 \<le> b \<and> b \<le> MAX_PURGE_BATCH_SIZE then Inr () else Inl (InvalidBatchSize b))"

subsubsection \<open>Schema\<close>

text \<open>What the five queries of \<open>validate_schema\<close> return: the version row, the columns (name, type, nullable, default), the constraints (name,
  kind, validated, definition), the index definition and the privileges.\<close>

record schema_view =
  sv_version :: "int option answer"
  sv_columns :: "(string \<times> string \<times> string \<times> string option) list answer"
  sv_constraints :: "(string \<times> string \<times> bool \<times> string) list answer"
  sv_index :: "string option answer"
  sv_privileges :: "bool answer"

definition required_columns :: "(string \<times> string) list" where
  "required_columns = [(''replay_namespace'', ''bytea''), (''nonce'', ''text''), (''expires_at_unix_ms'', ''bigint''),
     (''first_consumed_at'', ''timestamp with time zone'')]"

definition required_constraints :: "(string \<times> string \<times> string) list" where
  "required_constraints =
     [(''nexus_recall_replay_nonces_pkey'', ''p'', ''PRIMARY KEY (replay_namespace, nonce)''),
      (''nexus_recall_replay_namespace_length'', ''c'', ''octet_length(replay_namespace) = 32''),
      (''nexus_recall_replay_nonce_shape'', ''c'', ''octet_length(nonce) = 64''),
      (''nexus_recall_replay_expiry_nonnegative'', ''c'', ''expires_at_unix_ms >= 0'')]"

definition columns_ok :: "(string \<times> string \<times> string \<times> string option) list \<Rightarrow> bool" where
  "columns_ok columns = list_all (\<lambda>(name, ty). list_ex (\<lambda>(n, t, nullable, _). n = name \<and> t = ty \<and> nullable = ''NO'') columns) required_columns"

definition default_ok :: "(string \<times> string \<times> string \<times> string option) list \<Rightarrow> bool" where
  "default_ok columns = list_ex (\<lambda>(n, _, _, d). n = ''first_consumed_at'' \<and>
     (case d of Some v \<Rightarrow> str_contains v ''clock_timestamp()'' | None \<Rightarrow> False)) columns"

definition constraints_ok :: "(string \<times> string \<times> bool \<times> string) list \<Rightarrow> bool" where
  "constraints_ok constraints =
     list_all (\<lambda>(name, kind, fragment). list_ex (\<lambda>(n, k, validated, def). n = name \<and> k = kind \<and> validated \<and> str_contains def fragment) constraints)
       required_constraints"

definition nonce_shape_ok :: "(string \<times> string \<times> bool \<times> string) list \<Rightarrow> bool" where
  "nonce_shape_ok constraints =
     list_ex (\<lambda>(n, _, _, def). n = ''nexus_recall_replay_nonce_shape'' \<and> str_contains def ''^[0-9a-f]{64}$'') constraints"

definition index_ok :: "string option \<Rightarrow> bool" where
  "index_ok i = (case i of Some def \<Rightarrow> str_contains def ''(expires_at_unix_ms, replay_namespace, nonce)'' | None \<Rightarrow> False)"

definition validate_schema :: "schema_view \<Rightarrow> postgres_error + unit" where
  "validate_schema v =
     (case timeout_sqlx ''read replay schema version'' (sv_version v) of Inl e \<Rightarrow> Inl e | Inr version \<Rightarrow>
      (if version \<noteq> Some POSTGRES_REPLAY_SCHEMA_VERSION then Inl (SchemaVersion POSTGRES_REPLAY_SCHEMA_VERSION version) else
      case timeout_sqlx ''inspect replay table columns'' (sv_columns v) of Inl e \<Rightarrow> Inl e | Inr columns \<Rightarrow>
      (if \<not> columns_ok columns then Inl (SchemaContract ''required replay column is absent, nullable, or has the wrong type'') else
      if \<not> default_ok columns then Inl (SchemaContract ''first_consumed_at must use the database consumption timestamp default'') else
      case timeout_sqlx ''inspect replay table constraints'' (sv_constraints v) of Inl e \<Rightarrow> Inl e | Inr constraints \<Rightarrow>
      (if \<not> constraints_ok constraints then Inl (SchemaContract ''required replay constraint is absent, malformed, or unvalidated'') else
      if \<not> nonce_shape_ok constraints then Inl (SchemaContract ''replay nonce constraint does not enforce lowercase hexadecimal'') else
      case timeout_sqlx ''inspect replay cleanup index'' (sv_index v) of Inl e \<Rightarrow> Inl e | Inr index \<Rightarrow>
      (if \<not> index_ok index then Inl (SchemaContract ''required replay cleanup index is absent or malformed'') else
      case timeout_sqlx ''inspect replay table privileges'' (sv_privileges v) of Inl e \<Rightarrow> Inl e | Inr privileges \<Rightarrow>
      (if \<not> privileges then Inl (SchemaContract ''current database role lacks SELECT, INSERT, DELETE, or UPDATE'') else Inr ()))))))"

text \<open>A store is its operation timeout, held only by a store whose schema was found to be right.\<close>

definition postgres_replay_store_new :: "nat \<Rightarrow> schema_view \<Rightarrow> postgres_error + nat" where
  "postgres_replay_store_new operation_timeout v =
     (case validate_operation_timeout operation_timeout of Inl e \<Rightarrow> Inl e | Inr _ \<Rightarrow>
      (case validate_schema v of Inl e \<Rightarrow> Inl e | Inr _ \<Rightarrow> Inr operation_timeout))"

text \<open>The migration runs first, then the schema it leaves is validated.\<close>

definition apply_migrations :: "nat \<Rightarrow> unit answer \<Rightarrow> schema_view \<Rightarrow> postgres_error + unit" where
  "apply_migrations operation_timeout migration after =
     (case validate_operation_timeout operation_timeout of Inl e \<Rightarrow> Inl e | Inr _ \<Rightarrow>
      (case timeout_sqlx ''apply replay-store migration'' migration of Inl e \<Rightarrow> Inl e | Inr _ \<Rightarrow> validate_schema after))"

subsubsection \<open>Rows\<close>

type_synonym replay_table = "(replay_namespace \<times> string, i64) hashmap"

text \<open>How a transaction may end: it commits and is answered, it is rolled back with an error or a timeout, or it commits and the answer is lost.\<close>

datatype db_fault = No_Fault | Rolled_Back "unit answer" | Answer_Lost "unit answer"

definition db_answer :: "db_fault \<Rightarrow> 'a \<Rightarrow> 'a answer" where
  "db_answer f x = (case f of No_Fault \<Rightarrow> Answered x
     | Rolled_Back a \<Rightarrow> (case a of Query_Timed_Out \<Rightarrow> Query_Timed_Out | _ \<Rightarrow> Query_Failed)
     | Answer_Lost a \<Rightarrow> (case a of Query_Timed_Out \<Rightarrow> Query_Timed_Out | _ \<Rightarrow> Query_Failed))"

definition db_commits :: "db_fault \<Rightarrow> bool" where
  "db_commits f = (case f of Rolled_Back _ \<Rightarrow> False | _ \<Rightarrow> True)"

text \<open>\<open>INSERT .. ON CONFLICT DO NOTHING RETURNING TRUE\<close>, and \<open>UPDATE .. SET expires = GREATEST(expires, new) WHERE expires < new\<close> with the number
  of rows it changed.\<close>

definition consume_insert :: "replay_namespace \<times> string \<Rightarrow> i64 \<Rightarrow> replay_table \<Rightarrow> bool option \<times> replay_table" where
  "consume_insert k e t = (case hm_get t k of None \<Rightarrow> (Some True, hm_insert k e t) | Some _ \<Rightarrow> (None, t))"

definition extend_expiry :: "replay_namespace \<times> string \<Rightarrow> i64 \<Rightarrow> replay_table \<Rightarrow> nat \<times> replay_table" where
  "extend_expiry k e t =
     (case hm_get t k of Some old \<Rightarrow> if sint old < sint e then (1, hm_insert k e t) else (0, t) | None \<Rightarrow> (0, t))"

text \<open>The rolled back result of the last branch is \<open>sqlx::Error::RowNotFound\<close>.\<close>

definition consume_transaction :: "replay_namespace \<Rightarrow> string \<Rightarrow> i64 \<Rightarrow> replay_table \<Rightarrow> consume_result option \<times> replay_table" where
  "consume_transaction ns nonce e t =
     (case consume_insert (ns, nonce) e t of
        (Some _, t') \<Rightarrow> (Some Fresh, t')
      | (None, t') \<Rightarrow>
          (case extend_expiry (ns, nonce) e t' of (rows, t'') \<Rightarrow>
             (if rows = 0 \<and> hm_get t'' (ns, nonce) = None then (None, t) else (Some Replayed, t''))))"

definition consume_once :: "db_fault \<Rightarrow> replay_namespace \<Rightarrow> string \<Rightarrow> i64 \<Rightarrow> replay_table \<Rightarrow> (postgres_error + consume_result) \<times> replay_table" where
  "consume_once f ns nonce e t =
     (case store_validate_nonce nonce of Inl err \<Rightarrow> (Inl err, t) | Inr _ \<Rightarrow>
      (case validate_expires_at e of Inl err \<Rightarrow> (Inl err, t) | Inr _ \<Rightarrow>
      (case consume_transaction ns nonce e t of
        (None, _) \<Rightarrow> (Inl (Database ''consume replay nonce''), t)
      | (Some r, t') \<Rightarrow> (timeout_sqlx ''consume replay nonce'' (db_answer f r), if db_commits f then t' else t))))"

text \<open>The oldest expired rows go first, at most a batch of them. Rows another session has locked are skipped.\<close>

definition purge_order :: "(replay_namespace \<times> string) \<times> i64 \<Rightarrow> int \<times> int list \<times> string" where
  "purge_order row = (sint (snd row), map uint (fst (fst row)), snd (fst row))"

definition purge_victims :: "(replay_namespace \<times> string) list \<Rightarrow> i64 \<Rightarrow> u32 \<Rightarrow> replay_table \<Rightarrow> (replay_namespace \<times> string) list" where
  "purge_victims locked cutoff batch t =
     map fst (take (unat batch) (sort_key purge_order (filter (\<lambda>(k, e). sint e < sint cutoff \<and> k \<notin> set locked) t)))"

definition purge_expired_before ::
  "db_fault \<Rightarrow> (replay_namespace \<times> string) list \<Rightarrow> i64 \<Rightarrow> u32 \<Rightarrow> replay_table \<Rightarrow> (postgres_error + nat) \<times> replay_table" where
  "purge_expired_before f locked cutoff batch t =
     (case validate_safe_cutoff cutoff of Inl err \<Rightarrow> (Inl err, t) | Inr _ \<Rightarrow>
      (case validate_batch_size batch of Inl err \<Rightarrow> (Inl err, t) | Inr _ \<Rightarrow>
      (let victims = purge_victims locked cutoff batch t; t' = filter (\<lambda>(k, _). k \<notin> set victims) t in
      (timeout_sqlx ''purge expired replay rows'' (db_answer f (length victims)), if db_commits f then t' else t))))"

subsection \<open>The store keeps the contract\<close>

lemma timeout_sqlx_Inr: "timeout_sqlx op (db_answer f x) = Inr y \<longleftrightarrow> f = No_Fault \<and> y = x"
  by (auto simp: timeout_sqlx_def db_answer_def split: db_fault.split answer.split)

lemma consume_once_fresh:
  assumes "consume_once f ns n e t = (Inr Fresh, t')"
  shows "hm_get t (ns, n) = None \<and> t' = hm_insert (ns, n) e t"
proof (cases "consume_transaction ns n e t")
  case (Pair r u)
  then obtain res where r: "r = Some res" using assms by (cases r) (auto simp: consume_once_def split: sum.split_asm)
  with Pair assms have "timeout_sqlx ''consume replay nonce'' (db_answer f res) = Inr Fresh" "t' = (if db_commits f then u else t)"
    by (auto simp: consume_once_def split: sum.split_asm)
  then have "res = Fresh" "t' = u" by (auto simp: timeout_sqlx_Inr db_commits_def)
  with Pair r show ?thesis
    by (auto simp: consume_transaction_def consume_insert_def split: option.split_asm prod.split_asm if_split_asm)
qed

lemma remembers_insert:
  assumes "remembers (hm_get t) k i" and "\<And>old. hm_get t k' = Some old \<Longrightarrow> sint old \<le> sint e"
  shows "remembers (hm_get (hm_insert k' e t)) k i"
  using assms by (auto simp: remembers_def hm_get_insert)

lemma consume_transaction_keeps:
  assumes "remembers (hm_get t) k i"
  shows "remembers (hm_get (snd (consume_transaction ns n e t))) k i"
  using assms remembers_insert [OF assms, of "(ns, n)" e]
  by (auto simp: consume_transaction_def consume_insert_def extend_expiry_def split: option.split)

interpretation postgres: replay_contract hm_get consume_once
proof
  fix f ns n e t t' k i and r :: "postgres_error + consume_result"
  show "hm_get t (ns, n) = None" "hm_get t' (ns, n) = Some e" if "consume_once f ns n e t = (Inr Fresh, t')"
    using consume_once_fresh [OF that] by (simp_all add: hm_get_insert)
  show "remembers (hm_get t') k i" if "consume_once f ns n e t = (r, t')" "remembers (hm_get t) k i"
    using that consume_transaction_keeps [OF that(2), of ns n e]
    by (auto simp: consume_once_def split: sum.split_asm prod.split_asm option.split_asm if_split_asm)
qed

text \<open>A purge forgets only rows that expired before its cutoff, and counts them.\<close>

lemma map_of_filter_keys: "k \<notin> V \<Longrightarrow> map_of (filter (\<lambda>(k, _). k \<notin> V) t) k = map_of t k"
  by (induction t) auto

lemma purge_keeps:
  assumes "remembers (hm_get t) k i" and "hm_wf t" and "sint cutoff \<le> i"
  shows "remembers (hm_get (snd (purge_expired_before f locked cutoff batch t))) k i"
proof -
  obtain e where e: "hm_get t k = Some e" "i \<le> sint e" using assms(1) by (auto simp: remembers_def)
  have "k \<notin> set (purge_victims locked cutoff batch t)"
  proof
    assume "k \<in> set (purge_victims locked cutoff batch t)"
    then obtain e' where "(k, e') \<in> set t" "sint e' < sint cutoff"
      by (auto simp: purge_victims_def dest!: in_set_takeD)
    with assms(2,3) e show False by (auto simp: map_of_eq_Some_iff)
  qed
  then have "hm_get (filter (\<lambda>(k, _). k \<notin> set (purge_victims locked cutoff batch t)) t) k = Some e"
    using e(1) by (simp add: map_of_filter_keys)
  with assms(1) e show ?thesis
    by (auto simp: purge_expired_before_def Let_def remembers_def split: sum.split)
qed

lemma purge_wf: "hm_wf t \<Longrightarrow> hm_wf (snd (purge_expired_before f locked cutoff batch t))"
  by (auto simp: purge_expired_before_def Let_def distinct_map inj_on_def split: sum.split)

lemma consume_wf: "hm_wf t \<Longrightarrow> hm_wf (snd (consume_once f ns n e t))"
  by (auto simp: consume_once_def consume_transaction_def consume_insert_def extend_expiry_def hm_wf_insert
      split: sum.split prod.split option.split)

end
