(* ===== verification/Recall_Verifier.thy ===== *)
theory Recall_Verifier
  imports Replay_Store
begin

text \<open>
  Verification of recall envelopes (\<open>src/src/aeon/recall_v2.rs\<close>): trusted keys, the checks of \<open>verify_json\<close> in their order, the replay namespace
  and the consumption of the nonce.

  The record \<open>verifier_env\<close> holds what the module calls from outside: the strict JSON reader, Ed25519 and, through \<open>recall_env\<close>, SHA-256 and
  the text of UUIDs. The replay store is an argument of \<open>verify_json\<close>, with the contract of the locale \<open>replay_contract\<close>; the clock is
  read once for each call and its reading is an argument too.
\<close>

record verifier_env =
  ve_recall :: recall_env
  ve_from_str :: "string \<Rightarrow> recall_envelope option"
  ve_key_valid :: "bytes \<Rightarrow> bool"
  ve_verify_strict :: "bytes \<Rightarrow> bytes \<Rightarrow> bytes \<Rightarrow> bool"

subsection \<open>Trusted keys\<close>

datatype bundle_error = EmptyKeyId | InvalidPublicKey | EmptyBundle | DuplicateKeyId string

record trusted_key =
  tk_key_id :: string
  tk_verifying_key :: bytes
  tk_fingerprint :: bytes

definition trusted_key_from_bytes :: "verifier_env \<Rightarrow> string \<Rightarrow> bytes \<Rightarrow> bundle_error + trusted_key" where
  "trusted_key_from_bytes env key_id public_key =
     (if key_id = [] then Inl EmptyKeyId
      else if \<not> ve_key_valid env public_key then Inl InvalidPublicKey
      else Inr \<lparr>tk_key_id = key_id, tk_verifying_key = public_key, tk_fingerprint = rv_sha256 (ve_recall env) public_key\<rparr>)"

type_synonym trusted_key_bundle = "(string, trusted_key) hashmap"

fun bundle_insert :: "trusted_key_bundle \<Rightarrow> trusted_key list \<Rightarrow> bundle_error + trusted_key_bundle" where
  "bundle_insert configured [] = Inr configured"
| "bundle_insert configured (key # keys) =
     (if hm_get configured (tk_key_id key) \<noteq> None then Inl (DuplicateKeyId (tk_key_id key))
      else bundle_insert (hm_insert (tk_key_id key) key configured) keys)"

definition trusted_key_bundle_new :: "trusted_key list \<Rightarrow> bundle_error + trusted_key_bundle" where
  "trusted_key_bundle_new keys =
     (case bundle_insert [] keys of Inl e \<Rightarrow> Inl e | Inr configured \<Rightarrow> if configured = [] then Inl EmptyBundle else Inr configured)"

subsection \<open>Policy, context and errors\<close>

record expected_context =
  ec_tenant_id :: string
  ec_workspace_id :: "string option"
  ec_agent_id :: string
  ec_session_id :: "string option"
  ec_mission_id :: "string option"
  ec_run_id :: uuid
  ec_request_id :: uuid
  ec_query :: string

datatype context_field = TenantId | WorkspaceId | AgentId | SessionId | MissionId | RunId | RequestId | QueryDigest

text \<open>The policy is the largest future skew, made only from a value that is not negative.\<close>

definition recall_policy_new :: "i64 \<Rightarrow> i64 + i64" where
  "recall_policy_new max_future_skew_ms = (if sint max_future_skew_ms < 0 then Inl max_future_skew_ms else Inr max_future_skew_ms)"

datatype 'e verification_error =
    ParseError
  | UnsupportedProtocolVersion
  | UnsupportedCanonicalizationVersion
  | InvalidEnvelope recall_error
  | UnknownSigningKey
  | InvalidSignatureEncoding
  | InvalidSignature
  | ContextMismatch context_field
  | InvalidClock
  | Expired
  | IssuedTooFarInFuture
  | NonceReplayed
  | ReplayStoreError 'e

record verified_envelope =
  vr_envelope :: recall_envelope
  vr_verified_at :: i64
  vr_namespace :: replay_namespace

subsection \<open>The checks\<close>

definition validate_envelope :: "verifier_env \<Rightarrow> recall_envelope \<Rightarrow> 'e verification_error + unit" where
  "validate_envelope env e =
     (case envelope_validate (ve_recall env) e of
        Inr _ \<Rightarrow> Inr ()
      | Inl (ProtocolVersion _) \<Rightarrow> Inl UnsupportedProtocolVersion
      | Inl (CanonicalizationVersion _) \<Rightarrow> Inl UnsupportedCanonicalizationVersion
      | Inl other \<Rightarrow> Inl (InvalidEnvelope other))"

definition decode_nibble :: "char \<Rightarrow> 'e verification_error + byte" where
  "decode_nibble c =
     (let n = (of_char c :: nat) in
      if 48 \<le> n \<and> n \<le> 57 then Inr (word_of_nat (n - 48))
      else if 97 \<le> n \<and> n \<le> 102 then Inr (word_of_nat (n - 97 + 10))
      else Inl InvalidSignatureEncoding)"

fun decode_sig_pairs :: "string \<Rightarrow> 'e verification_error + bytes" where
  "decode_sig_pairs (a # b # rest) =
     (case decode_nibble a of Inl e \<Rightarrow> Inl e | Inr hi \<Rightarrow>
      (case decode_nibble b of Inl e \<Rightarrow> Inl e | Inr lo \<Rightarrow>
      map_sum id (\<lambda>bs. (push_bit 4 hi OR lo) # bs) (decode_sig_pairs rest)))"
| "decode_sig_pairs _ = Inr []"

definition decode_signature :: "string \<Rightarrow> 'e verification_error + bytes" where
  "decode_signature encoded = (if length encoded \<noteq> 128 then Inl InvalidSignatureEncoding else decode_sig_pairs encoded)"

definition recall_verify_signature :: "verifier_env \<Rightarrow> recall_envelope \<Rightarrow> trusted_key \<Rightarrow> 'e verification_error + unit" where
  "recall_verify_signature env e key =
     (case decode_signature (rs_signature (re_signature e)) of Inl err \<Rightarrow> Inl err | Inr signature \<Rightarrow>
      (case recall_signing_bytes (ve_recall env) (re_payload e) of Inl err \<Rightarrow> Inl (InvalidEnvelope err) | Inr bs \<Rightarrow>
      (if ve_verify_strict env (tk_verifying_key key) bs signature then Inr () else Inl InvalidSignature)))"

definition require_context :: "bool \<Rightarrow> context_field \<Rightarrow> 'e verification_error + unit \<Rightarrow> 'e verification_error + unit" where
  "require_context matches fld rest = (if matches then rest else Inl (ContextMismatch fld))"

definition verify_context :: "verifier_env \<Rightarrow> recall_envelope \<Rightarrow> expected_context \<Rightarrow> 'e verification_error + unit" where
  "verify_context env e expected =
     (let p = re_payload e in
      require_context (rp_tenant_id p = ec_tenant_id expected) TenantId
      (require_context (rp_workspace_id p = ec_workspace_id expected) WorkspaceId
      (require_context (rp_agent_id p = ec_agent_id expected) AgentId
      (require_context (rp_session_id p = ec_session_id expected) SessionId
      (require_context (rp_mission_id p = ec_mission_id expected) MissionId
      (require_context (rp_run_id p = ec_run_id expected) RunId
      (require_context (rp_request_id p = ec_request_id expected) RequestId
      (require_context (rd_value (rp_query_digest p) = rd_value (recall_digest_sha256 (ve_recall env) (str_bytes (ec_query expected)) True)) QueryDigest
         (Inr ())))))))))"

text \<open>\<open>i64::saturating_add\<close>.\<close>

definition saturating_add_i64 :: "i64 \<Rightarrow> i64 \<Rightarrow> i64" where
  "saturating_add_i64 a b = word_of_int (max (- (2 ^ 63)) (min (2 ^ 63 - 1) (sint a + sint b)))"

definition verify_time :: "recall_envelope \<Rightarrow> i64 \<Rightarrow> i64 \<Rightarrow> 'e verification_error + unit" where
  "verify_time e now skew =
     (if sint now < 0 then Inl InvalidClock
      else if sint (rp_expires_at (re_payload e)) \<le> sint now then Inl Expired
      else if sint (saturating_add_i64 now skew) < sint (rp_issued_at (re_payload e)) then Inl IssuedTooFarInFuture
      else Inr ())"

definition REPLAY_NAMESPACE_DOMAIN :: bytes where
  "REPLAY_NAMESPACE_DOMAIN = str_bytes (''NEXUS_RECALL_V2_REPLAY_NAMESPACE_V1'' @ [CHR 0x00])"

definition append_namespace_part :: "bytes \<Rightarrow> bytes" where
  "append_namespace_part v = u64_be (word_of_nat (length v)) @ v"

definition append_optional_namespace_part :: "bytes option \<Rightarrow> bytes" where
  "append_optional_namespace_part v = (case v of Some b \<Rightarrow> [1] @ append_namespace_part b | None \<Rightarrow> [0])"

text \<open>The bytes that are hashed.\<close>

definition namespace_input :: "recall_envelope \<Rightarrow> trusted_key \<Rightarrow> bytes" where
  "namespace_input e key =
     append_namespace_part REPLAY_NAMESPACE_DOMAIN @ append_namespace_part (str_bytes RECALL_PROTOCOL_VERSION) @
     append_namespace_part (str_bytes RECALL_CANONICALIZATION_VERSION) @ append_namespace_part (str_bytes RECALL_SIGNING_DOMAIN_LABEL) @
     append_namespace_part (str_bytes RECALL_SIGNATURE_ALGORITHM) @ append_namespace_part (tk_fingerprint key) @
     append_namespace_part (str_bytes (rp_tenant_id (re_payload e))) @
     append_optional_namespace_part (map_option str_bytes (rp_workspace_id (re_payload e)))"

definition derive_replay_namespace :: "verifier_env \<Rightarrow> recall_envelope \<Rightarrow> trusted_key \<Rightarrow> replay_namespace" where
  "derive_replay_namespace env e key = rv_sha256 (ve_recall env) (namespace_input e key)"

subsection \<open>Verification\<close>

text \<open>Everything before the replay store is asked.\<close>

definition verify_pure ::
  "verifier_env \<Rightarrow> trusted_key_bundle \<Rightarrow> i64 \<Rightarrow> i64 \<Rightarrow> string \<Rightarrow> expected_context \<Rightarrow> 'e verification_error + verified_envelope" where
  "verify_pure env keys skew now json expected =
     (case ve_from_str env json of None \<Rightarrow> Inl ParseError | Some e \<Rightarrow>
      (case validate_envelope env e of Inl err \<Rightarrow> Inl err | Inr _ \<Rightarrow>
      (case hm_get keys (rs_key_id (re_signature e)) of None \<Rightarrow> Inl UnknownSigningKey | Some key \<Rightarrow>
      (case recall_verify_signature env e key of Inl err \<Rightarrow> Inl err | Inr _ \<Rightarrow>
      (case verify_context env e expected of Inl err \<Rightarrow> Inl err | Inr _ \<Rightarrow>
      (case verify_time e now skew of Inl err \<Rightarrow> Inl err | Inr _ \<Rightarrow>
      Inr \<lparr>vr_envelope = e, vr_verified_at = now, vr_namespace = derive_replay_namespace env e key\<rparr>))))))"

definition verify_json ::
  "verifier_env \<Rightarrow> trusted_key_bundle \<Rightarrow> i64 \<Rightarrow> (replay_namespace \<Rightarrow> string \<Rightarrow> i64 \<Rightarrow> 's \<Rightarrow> ('e + consume_result) \<times> 's) \<Rightarrow>
   i64 \<Rightarrow> string \<Rightarrow> expected_context \<Rightarrow> 's \<Rightarrow> ('e verification_error + verified_envelope) \<times> 's" where
  "verify_json env keys skew consume now json expected s =
     (case verify_pure env keys skew now json expected of Inl err \<Rightarrow> (Inl err, s) | Inr v \<Rightarrow>
      (let p = re_payload (vr_envelope v) in
      case consume (vr_namespace v) (rp_nonce p) (rp_expires_at p) s of
        (Inl err, s') \<Rightarrow> (Inl (ReplayStoreError err), s')
      | (Inr Replayed, s') \<Rightarrow> (Inl NonceReplayed, s')
      | (Inr Fresh, s') \<Rightarrow> (Inr v, s')))"

subsection \<open>What a verified envelope is\<close>

lemma validate_envelope_Inr: "validate_envelope env e = Inr () \<longleftrightarrow> payload_ok (re_payload e) \<and> signature_ok (ve_recall env) e"
proof -
  have "validate_envelope env e = Inr () \<longleftrightarrow> envelope_validate (ve_recall env) e = Inr ()"
    by (auto simp: validate_envelope_def split: sum.split recall_error.split)
  then show ?thesis by (simp only: envelope_validate_Inr)
qed

text \<open>The signature's text is the hexadecimal of the bytes that are verified.\<close>

lemma decode_nibble_Inr:
  assumes "decode_nibble c = Inr w"
  shows "\<exists>d < 16. c = hex_digit d \<and> w = word_of_nat d"
proof -
  let ?n = "of_char c :: nat"
  consider "48 \<le> ?n" "?n \<le> 57" "w = word_of_nat (?n - 48)" | "97 \<le> ?n" "?n \<le> 102" "w = word_of_nat (?n - 97 + 10)"
    using assms unfolding decode_nibble_def Let_def by (metis sum.distinct(1) sum.inject(2))
  then show ?thesis
  proof cases
    case 1
    then have "?n - 48 < 10" "48 + (?n - 48) = ?n" by linarith+
    then have "c = hex_digit (?n - 48)" by (simp only: hex_digit_def if_True char_of_char)
    with 1 show ?thesis by (intro exI [of _ "?n - 48"]) simp
  next
    case 2
    then have "\<not> ?n - 97 + 10 < 10" "87 + (?n - 97 + 10) = ?n" by linarith+
    then have "c = hex_digit (?n - 97 + 10)" by (simp only: hex_digit_def if_False char_of_char)
    with 2 show ?thesis by (intro exI [of _ "?n - 97 + 10"]) simp
  qed
qed

lemma nibbles_unat:
  assumes "d < 16" and "e < 16"
  shows "unat (push_bit 4 (word_of_nat d) OR word_of_nat e :: byte) = 16 * d + e"
proof -
  have "\<forall>d \<in> {..<16}. \<forall>e \<in> {..<16}. unat (push_bit 4 (word_of_nat d) OR word_of_nat e :: byte) = 16 * d + e" by code_simp
  with assms show ?thesis by simp
qed

lemma decode_sig_pairs_Inr: "decode_sig_pairs s = (Inr bs :: 'e verification_error + bytes) \<Longrightarrow> even (length s) \<Longrightarrow> s = to_hex bs"
proof (induction s arbitrary: bs rule: induct_list012)
  case (3 a b rest)
  obtain hi lo bs' where h: "decode_nibble a = (Inr hi :: 'e verification_error + byte)" "decode_nibble b = (Inr lo :: 'e verification_error + byte)"
    and r: "decode_sig_pairs rest = (Inr bs' :: 'e verification_error + bytes)" "bs = (push_bit 4 hi OR lo) # bs'"
    using 3(3) by (auto simp: map_sum_eq_Inr split: sum.split_asm)
  obtain d e where d: "d < 16" "e < 16" "a = hex_digit d" "hi = word_of_nat d" "b = hex_digit e" "lo = word_of_nat e"
    using decode_nibble_Inr [OF h(1)] decode_nibble_Inr [OF h(2)] by blast
  have "rest = to_hex bs'" using 3(1) [OF r(1)] 3(4) by simp
  then show ?case using d r(2) nibbles_unat [OF d(1,2)] by (simp add: to_hex_def)
qed (simp_all add: to_hex_def)

lemma decode_signature_Inr: "decode_signature s = Inr bs \<Longrightarrow> s = to_hex bs \<and> length bs = 64"
  using decode_sig_pairs_Inr [of s bs] by (auto simp: decode_signature_def length_to_hex split: if_split_asm)

definition context_ok :: "verifier_env \<Rightarrow> recall_payload \<Rightarrow> expected_context \<Rightarrow> bool" where
  "context_ok env p x \<longleftrightarrow> rp_tenant_id p = ec_tenant_id x \<and> rp_workspace_id p = ec_workspace_id x \<and> rp_agent_id p = ec_agent_id x \<and>
     rp_session_id p = ec_session_id x \<and> rp_mission_id p = ec_mission_id x \<and> rp_run_id p = ec_run_id x \<and> rp_request_id p = ec_request_id x \<and>
     rd_value (rp_query_digest p) = to_hex (rv_sha256 (ve_recall env) (str_bytes (ec_query x)))"

lemma verify_context_Inr: "verify_context env e x = Inr () \<longleftrightarrow> context_ok env (re_payload e) x"
  by (auto simp: verify_context_def context_ok_def Let_def require_context_def recall_digest_sha256_def)

text \<open>The saturating addition never decides: a time of issue is at most the largest \<open>i64\<close>.\<close>

lemma issue_bound:
  assumes "0 \<le> sint now"
  shows "sint (saturating_add_i64 now skew) < sint (i :: i64) \<longleftrightarrow> sint now + sint skew < sint i"
proof -
  have b: "- (2 ^ 63) \<le> sint (w :: i64)" "sint w < 2 ^ 63" for w using sint_ge [of w] sint_lt [of w] by simp_all
  have "sint (saturating_add_i64 now skew) = min (2 ^ 63 - 1) (sint now + sint skew)"
    using assms b(1) [of skew] by (simp add: saturating_add_i64_def sint_sbintrunc' signed_take_bit_int_eq_self)
  then show ?thesis using b(2) [of i] by auto
qed

lemma verify_time_Inr:
  "verify_time e now skew = Inr () \<longleftrightarrow>
     0 \<le> sint now \<and> sint now < sint (rp_expires_at (re_payload e)) \<and> sint (rp_issued_at (re_payload e)) \<le> sint now + sint skew"
  using issue_bound [of now skew "rp_issued_at (re_payload e)"] by (auto simp: verify_time_def)

text \<open>Everything that holds of an envelope that verifies, and suffices for it.\<close>

definition recall_verified ::
  "verifier_env \<Rightarrow> trusted_key_bundle \<Rightarrow> i64 \<Rightarrow> i64 \<Rightarrow> string \<Rightarrow> expected_context \<Rightarrow> trusted_key \<Rightarrow> recall_envelope \<Rightarrow> bool" where
  "recall_verified env keys skew now json x key e \<longleftrightarrow>
     ve_from_str env json = Some e \<and> payload_ok (re_payload e) \<and> signature_ok (ve_recall env) e \<and>
     hm_get keys (rs_key_id (re_signature e)) = Some key \<and>
     (\<exists>bs sg. recall_signing_bytes (ve_recall env) (re_payload e) = Inr bs \<and> rs_signature (re_signature e) = to_hex sg \<and> length sg = 64 \<and>
        ve_verify_strict env (tk_verifying_key key) bs sg) \<and>
     context_ok env (re_payload e) x \<and>
     0 \<le> sint now \<and> sint now < sint (rp_expires_at (re_payload e)) \<and> sint (rp_issued_at (re_payload e)) \<le> sint now + sint skew"

lemma verify_pure_Inr:
  assumes "verify_pure env keys skew now json x = Inr v"
  shows "\<exists>key. recall_verified env keys skew now json x key (vr_envelope v) \<and> vr_verified_at v = now \<and>
     vr_namespace v = derive_replay_namespace env (vr_envelope v) key"
proof -
  obtain e where e: "ve_from_str env json = Some e" using assms by (auto simp: verify_pure_def split: option.split_asm)
  have val: "validate_envelope env e = (Inr () :: 'a verification_error + unit)"
    using assms e by (cases "validate_envelope env e :: 'a verification_error + unit") (auto simp: verify_pure_def)
  obtain key where key: "hm_get keys (rs_key_id (re_signature e)) = Some key"
    using assms e val by (auto simp: verify_pure_def split: option.split_asm)
  have sig: "recall_verify_signature env e key = (Inr () :: 'a verification_error + unit)"
    using assms e val key by (cases "recall_verify_signature env e key :: 'a verification_error + unit") (auto simp: verify_pure_def)
  have con: "verify_context env e x = (Inr () :: 'a verification_error + unit)"
    using assms e val key sig by (cases "verify_context env e x :: 'a verification_error + unit") (auto simp: verify_pure_def)
  have tim: "verify_time e now skew = (Inr () :: 'a verification_error + unit)"
    using assms e val key sig con by (cases "verify_time e now skew :: 'a verification_error + unit") (auto simp: verify_pure_def)
  have v: "v = \<lparr>vr_envelope = e, vr_verified_at = now, vr_namespace = derive_replay_namespace env e key\<rparr>"
    using assms e val key sig con tim by (simp add: verify_pure_def)
  obtain sg bs where "decode_signature (rs_signature (re_signature e)) = (Inr sg :: 'a verification_error + bytes)"
    "recall_signing_bytes (ve_recall env) (re_payload e) = Inr bs" "ve_verify_strict env (tk_verifying_key key) bs sg"
    using sig by (auto simp: recall_verify_signature_def split: sum.split_asm if_split_asm)
  with e val key con tim v show ?thesis
    unfolding recall_verified_def validate_envelope_Inr verify_context_Inr verify_time_Inr using decode_signature_Inr by fastforce
qed

lemma decode_nibble_digit: "d < 16 \<Longrightarrow> decode_nibble (hex_digit d) = Inr (word_of_nat d)"
  by (auto simp: decode_nibble_def hex_digit_def)

lemma decode_sig_pairs_to_hex: "decode_sig_pairs (to_hex bs) = Inr bs"
proof (induction bs)
  case (Cons b bs)
  have "unat b < 256" using unsigned_less [of b] by simp
  then have "unat b div 16 < 16" by (simp add: less_mult_imp_div_less)
  with Cons show ?case by (simp add: to_hex_def decode_nibble_digit byte_nibbles)
qed (simp add: to_hex_def)

lemma verify_pure_complete:
  assumes "recall_verified env keys skew now json x key e"
  shows "verify_pure env keys skew now json x =
    (Inr \<lparr>vr_envelope = e, vr_verified_at = now, vr_namespace = derive_replay_namespace env e key\<rparr> :: 'e verification_error + verified_envelope)"
proof -
  obtain bs sg where sg: "recall_signing_bytes (ve_recall env) (re_payload e) = Inr bs" "rs_signature (re_signature e) = to_hex sg" "length sg = 64"
    "ve_verify_strict env (tk_verifying_key key) bs sg" using assms by (auto simp: recall_verified_def)
  then have "recall_verify_signature env e key = (Inr () :: 'e verification_error + unit)"
    by (simp add: recall_verify_signature_def decode_signature_def length_to_hex decode_sig_pairs_to_hex)
  moreover have "validate_envelope env e = (Inr () :: 'e verification_error + unit)" "verify_context env e x = (Inr () :: 'e verification_error + unit)"
    "verify_time e now skew = (Inr () :: 'e verification_error + unit)"
    using assms by (simp_all add: recall_verified_def validate_envelope_Inr verify_context_Inr verify_time_Inr)
  ultimately show ?thesis using assms by (simp add: verify_pure_def recall_verified_def)
qed

lemma verify_json_Inr:
  assumes "verify_json env keys skew consume now json x s = (Inr v, s')"
  shows "verify_pure env keys skew now json x = (Inr v :: 'e verification_error + verified_envelope) \<and>
     consume (vr_namespace v) (rp_nonce (re_payload (vr_envelope v))) (rp_expires_at (re_payload (vr_envelope v))) s = ((Inr Fresh :: 'e + consume_result), s')"
  using assms by (auto simp: verify_json_def Let_def split: sum.split_asm prod.split_asm consume_result.split_asm)

text \<open>An envelope refused by its own checks leaves the replay store alone.\<close>

lemma verify_json_refused: "verify_pure env keys skew now json x = Inl err \<Longrightarrow> verify_json env keys skew consume now json x s = (Inl err, s)"
  by (simp add: verify_json_def)

subsection \<open>Sequences of verifications and purges\<close>

datatype ('f, 'p) recall_op = Verify 'f i64 string expected_context | Purge 'p

text \<open>The envelopes accepted by a sequence of calls, in order; \<open>'f\<close> and \<open>'p\<close> are what a call of the store and a purge depend on.\<close>

fun run_recall ::
  "verifier_env \<Rightarrow> trusted_key_bundle \<Rightarrow> i64 \<Rightarrow> ('f \<Rightarrow> replay_namespace \<Rightarrow> string \<Rightarrow> i64 \<Rightarrow> 's \<Rightarrow> ('e + consume_result) \<times> 's) \<Rightarrow>
   ('p \<Rightarrow> 's \<Rightarrow> 's) \<Rightarrow> ('f, 'p) recall_op list \<Rightarrow> 's \<Rightarrow> verified_envelope list" where
  "run_recall env keys skew consume purge [] s = []"
| "run_recall env keys skew consume purge (Purge p # ops) s = run_recall env keys skew consume purge ops (purge p s)"
| "run_recall env keys skew consume purge (Verify f now json x # ops) s =
     (case verify_json env keys skew (consume f) now json x s of
        (Inr v, s') \<Rightarrow> v # run_recall env keys skew consume purge ops s'
      | (Inl _, s') \<Rightarrow> run_recall env keys skew consume purge ops s')"

text \<open>No purge has a cutoff after the clock of a verification that comes later.\<close>

fun timely :: "('p \<Rightarrow> int) \<Rightarrow> ('f, 'p) recall_op list \<Rightarrow> bool" where
  "timely cutoff [] \<longleftrightarrow> True"
| "timely cutoff (Purge p # ops) \<longleftrightarrow> list_all (\<lambda>op. case op of Verify _ now _ _ \<Rightarrow> cutoff p \<le> sint now | Purge _ \<Rightarrow> True) ops \<and> timely cutoff ops"
| "timely cutoff (Verify _ _ _ _ # ops) \<longleftrightarrow> timely cutoff ops"

text \<open>What identifies an acceptance: the partition, the nonce and the expiry.\<close>

definition acceptance :: "verified_envelope \<Rightarrow> (replay_namespace \<times> string) \<times> i64" where
  "acceptance v = ((vr_namespace v, rp_nonce (re_payload (vr_envelope v))), rp_expires_at (re_payload (vr_envelope v)))"

locale purging_contract = replay_contract expiry consume
  for expiry :: "'s \<Rightarrow> (replay_namespace \<times> string) \<Rightarrow> i64 option"
    and consume :: "'f \<Rightarrow> replay_namespace \<Rightarrow> string \<Rightarrow> i64 \<Rightarrow> 's \<Rightarrow> ('e + consume_result) \<times> 's" +
  fixes purge :: "'p \<Rightarrow> 's \<Rightarrow> 's" and cutoff :: "'p \<Rightarrow> int" and wf :: "'s \<Rightarrow> bool"
  assumes purge_remembers: "wf s \<Longrightarrow> cutoff p \<le> t \<Longrightarrow> remembers (expiry s) k t \<Longrightarrow> remembers (expiry (purge p s)) k t"
    and wf_purge: "wf s \<Longrightarrow> wf (purge p s)"
    and wf_consume: "wf s \<Longrightarrow> wf (snd (consume f ns n e s))"
begin

text \<open>Either the store remembers an entry, or it has expired for everything that follows.\<close>

definition guarded :: "(replay_namespace \<times> string) \<times> i64 \<Rightarrow> 's \<Rightarrow> ('f, 'p) recall_op list \<Rightarrow> bool" where
  "guarded ke s ops \<longleftrightarrow> remembers (expiry s) (fst ke) (sint (snd ke)) \<or>
     list_all (\<lambda>op. case op of Verify _ now _ _ \<Rightarrow> sint (snd ke) \<le> sint now | Purge _ \<Rightarrow> True) ops"

text \<open>What verification leaves is what consuming leaves, or the store as it was.\<close>

lemma verify_store:
  "snd (verify_json env keys skew (consume f) now json x s) = s \<or>
   (\<exists>ns n e. snd (verify_json env keys skew (consume f) now json x s) = snd (consume f ns n e s))"
proof (cases "verify_pure env keys skew now json x :: 'e verification_error + verified_envelope")
  case (Inr v)
  obtain r s' where "consume f (vr_namespace v) (rp_nonce (re_payload (vr_envelope v))) (rp_expires_at (re_payload (vr_envelope v))) s = (r, s')" by fastforce
  with Inr have "snd (verify_json env keys skew (consume f) now json x s) =
      snd (consume f (vr_namespace v) (rp_nonce (re_payload (vr_envelope v))) (rp_expires_at (re_payload (vr_envelope v))) s)"
    by (simp add: verify_json_def Let_def split: sum.split consume_result.split)
  then show ?thesis by blast
qed (simp add: verify_json_def)

lemma verify_wf: "wf s \<Longrightarrow> wf (snd (verify_json env keys skew (consume f) now json x s))"
  using verify_store [of env keys skew f now json x s] wf_consume by metis

lemma verify_keeps:
  assumes "remembers (expiry s) k t"
  shows "remembers (expiry (snd (verify_json env keys skew (consume f) now json x s))) k t"
  using verify_store [of env keys skew f now json x s] assms keeps by (metis prod.collapse)

lemma accepted_fresh:
  assumes "verify_json env keys skew (consume f) now json x s = (Inr v, s')"
  shows "\<not> remembers (expiry s) (fst (acceptance v)) (sint (snd (acceptance v))) \<and> sint now < sint (snd (acceptance v)) \<and>
     remembers (expiry s') (fst (acceptance v)) (sint (snd (acceptance v)))"
proof -
  note v = verify_json_Inr [OF assms]
  obtain key where "recall_verified env keys skew now json x key (vr_envelope v)" using verify_pure_Inr v by blast
  then have "sint now < sint (snd (acceptance v))" by (simp add: recall_verified_def acceptance_def)
  moreover have "remembers (expiry s') (fst (acceptance v)) (sint (snd (acceptance v)))"
    using fresh_remembers [OF conjunct2 [OF v]] by (simp add: acceptance_def)
  moreover have "\<not> remembers (expiry s) (fst (acceptance v)) (sint (snd (acceptance v)))"
    using fresh_unknown [OF conjunct2 [OF v]] by (simp add: acceptance_def remembers_def)
  ultimately show ?thesis by blast
qed

lemma guarded_not_accepted:
  assumes "guarded ke s ops" and "wf s" and "timely cutoff ops"
  shows "ke \<notin> acceptance ` set (run_recall env keys skew consume purge ops s)"
  using assms
proof (induction ops arbitrary: s)
  case (Cons op ops)
  show ?case
  proof (cases op)
    case (Purge p)
    have "guarded ke (purge p s) ops"
    proof (cases "remembers (expiry s) (fst ke) (sint (snd ke)) \<and> cutoff p \<le> sint (snd ke)")
      case True
      then show ?thesis using purge_remembers [OF Cons.prems(2)] by (simp add: guarded_def)
    next
      case False
      then have "list_all (\<lambda>op. case op of Verify _ now _ _ \<Rightarrow> sint (snd ke) \<le> sint now | Purge _ \<Rightarrow> True) ops"
        using Cons.prems(1,3) Purge by (auto simp: guarded_def list_all_iff split: recall_op.splits)
      then show ?thesis by (simp add: guarded_def)
    qed
    with Cons Purge wf_purge show ?thesis by simp
  next
    case (Verify f now json x)
    obtain r s' where v: "verify_json env keys skew (consume f) now json x s = (r, s')" by fastforce
    have "guarded ke s' ops"
      using Cons.prems(1) Verify verify_keeps [of s "fst ke" "sint (snd ke)" env keys skew f now json x] v by (auto simp: guarded_def)
    moreover have "wf s'" using verify_wf [OF Cons.prems(2), of env keys skew f now json x] v by simp
    ultimately have IH: "ke \<notin> acceptance ` set (run_recall env keys skew consume purge ops s')" using Cons.IH Cons.prems(3) Verify by simp
    have "acceptance a \<noteq> ke" if "r = Inr a" for a
      using accepted_fresh [OF v [unfolded that]] Cons.prems(1) Verify by (auto simp: guarded_def)
    with IH Verify v show ?thesis by (auto split: sum.split)
  qed
qed simp

lemma accepted_distinct:
  assumes "wf s" and "timely cutoff ops"
  shows "distinct (map acceptance (run_recall env keys skew consume purge ops s))"
  using assms
proof (induction ops arbitrary: s)
  case (Cons op ops)
  show ?case
  proof (cases op)
    case (Purge p)
    with Cons wf_purge show ?thesis by simp
  next
    case (Verify f now json x)
    obtain r s' where v: "verify_json env keys skew (consume f) now json x s = (r, s')" by fastforce
    have wf: "wf s'" using verify_wf [OF Cons.prems(1), of env keys skew f now json x] v by simp
    have t: "timely cutoff ops" using Cons.prems(2) Verify by simp
    have "acceptance a \<notin> acceptance ` set (run_recall env keys skew consume purge ops s')" if "r = Inr a" for a
      using accepted_fresh [OF v [unfolded that]] by (intro guarded_not_accepted [OF _ wf t]) (simp add: guarded_def)
    with Cons.IH [OF wf t] Verify v show ?thesis by (auto split: sum.split)
  qed
qed simp

end

text \<open>The store of the program, with its purge.\<close>

record purge_call =
  pu_fault :: db_fault
  pu_locked :: "(replay_namespace \<times> string) list"
  pu_cutoff :: i64
  pu_batch :: u32

definition purge_step :: "purge_call \<Rightarrow> replay_table \<Rightarrow> replay_table" where
  "purge_step c t = snd (purge_expired_before (pu_fault c) (pu_locked c) (pu_cutoff c) (pu_batch c) t)"

interpretation postgres_purging: purging_contract hm_get consume_once purge_step "\<lambda>c. sint (pu_cutoff c)" hm_wf
  by unfold_locales (simp_all add: purge_step_def purge_keeps purge_wf consume_wf)

lemma run_recall_verified:
  fixes consume :: "'f \<Rightarrow> replay_namespace \<Rightarrow> string \<Rightarrow> i64 \<Rightarrow> 's \<Rightarrow> ('e + consume_result) \<times> 's"
  assumes "v \<in> set (run_recall env keys skew consume purge ops s)"
  shows "\<exists>f now json x. Verify f now json x \<in> set ops \<and> verify_pure env keys skew now json x = (Inr v :: 'e verification_error + verified_envelope)"
  using assms
proof (induction ops arbitrary: s)
  case (Cons op ops)
  show ?case
  proof (cases op)
    case (Verify f now json x)
    obtain r s' where r: "verify_json env keys skew (consume f) now json x s = (r, s')" by fastforce
    show ?thesis
    proof (cases "r = Inr v")
      case True
      then show ?thesis using verify_json_Inr r Verify by fastforce
    next
      case False
      then have "v \<in> set (run_recall env keys skew consume purge ops s')" using Cons.prems Verify r by (auto split: sum.split_asm)
      then show ?thesis using Cons.IH by fastforce
    qed
  qed (use Cons in auto)
qed simp

subsection \<open>Namespaces\<close>

lemma unat_u64_length: "n < 2 ^ 64 \<Longrightarrow> unat (word_of_nat n :: u64) = n"
  by (rule unat_u64_of_nat)

interpretation namespace_part: prefix_code append_namespace_part "\<lambda>b. length b < 2 ^ 64"
proof unfold_locales
  fix x y r s :: bytes
  assume l: "length x < 2 ^ 64" "length y < 2 ^ 64" and "append_namespace_part x @ r = append_namespace_part y @ s"
  then have e: "u64_be (word_of_nat (length x)) @ (x @ r) = u64_be (word_of_nat (length y)) @ (y @ s)" by (simp add: append_namespace_part_def)
  then have "u64_be (word_of_nat (length x)) = u64_be (word_of_nat (length y))" and xy: "x @ r = y @ s"
    by (simp_all add: append_eq_append_conv)
  then have "(word_of_nat (length x) :: u64) = word_of_nat (length y)" by (metis from_be_to_be(3))
  then have "length x = length y" using l by (metis unat_u64_length)
  with xy show "x = y \<and> r = s" by simp
qed

lemma namespace_input_inj:
  assumes "namespace_input e key = namespace_input e' key'" and "length (tk_fingerprint key) < 2 ^ 64" and "length (tk_fingerprint key') < 2 ^ 64"
    and "length (rp_tenant_id (re_payload e)) < 2 ^ 64" and "length (rp_tenant_id (re_payload e')) < 2 ^ 64"
    and "\<And>w. rp_workspace_id (re_payload e) = Some w \<Longrightarrow> length w < 2 ^ 64" and "\<And>w. rp_workspace_id (re_payload e') = Some w \<Longrightarrow> length w < 2 ^ 64"
  shows "tk_fingerprint key = tk_fingerprint key' \<and> rp_tenant_id (re_payload e) = rp_tenant_id (re_payload e') \<and>
     rp_workspace_id (re_payload e) = rp_workspace_id (re_payload e')"
proof -
  let ?o = "\<lambda>e. append_optional_namespace_part (map_option str_bytes (rp_workspace_id (re_payload e)))"
  have "append_namespace_part (tk_fingerprint key) @ append_namespace_part (str_bytes (rp_tenant_id (re_payload e))) @ ?o e =
     append_namespace_part (tk_fingerprint key') @ append_namespace_part (str_bytes (rp_tenant_id (re_payload e'))) @ ?o e'"
    using assms(1) by (simp add: namespace_input_def)
  from namespace_part.prefix_inj [OF assms(2,3) this] have f: "tk_fingerprint key = tk_fingerprint key'"
    and "append_namespace_part (str_bytes (rp_tenant_id (re_payload e))) @ ?o e = append_namespace_part (str_bytes (rp_tenant_id (re_payload e'))) @ ?o e'"
    by simp_all
  from namespace_part.prefix_inj [OF _ _ this(2)] assms(4,5) have t: "str_bytes (rp_tenant_id (re_payload e)) = str_bytes (rp_tenant_id (re_payload e'))"
    and o: "?o e = ?o e'" by simp_all
  have "rp_workspace_id (re_payload e) = rp_workspace_id (re_payload e')"
    using o assms(6,7) namespace_part.enc_inj [of "str_bytes _" "str_bytes _"]
    by (cases "rp_workspace_id (re_payload e)"; cases "rp_workspace_id (re_payload e')")
      (auto simp: append_optional_namespace_part_def str_bytes_inj)
  with f t show ?thesis by (simp add: str_bytes_inj)
qed

lemma namespace_separates:
  assumes "derive_replay_namespace env e key = derive_replay_namespace env e' key'"
    and "rv_sha256 (ve_recall env) (namespace_input e key) = rv_sha256 (ve_recall env) (namespace_input e' key') \<longrightarrow> namespace_input e key = namespace_input e' key'"
    and "list_all (\<lambda>n. n < 2 ^ 64) [length (tk_fingerprint key), length (tk_fingerprint key'), length (rp_tenant_id (re_payload e)),
          length (rp_tenant_id (re_payload e')), case rp_workspace_id (re_payload e) of Some w \<Rightarrow> length w | None \<Rightarrow> 0,
          case rp_workspace_id (re_payload e') of Some w \<Rightarrow> length w | None \<Rightarrow> 0]"
  shows "tk_fingerprint key = tk_fingerprint key' \<and> rp_tenant_id (re_payload e) = rp_tenant_id (re_payload e') \<and>
        rp_workspace_id (re_payload e) = rp_workspace_id (re_payload e')"
proof (rule namespace_input_inj)
  show "namespace_input e key = namespace_input e' key'" using assms(1,2) by (simp add: derive_replay_namespace_def)
qed (use assms(3) in simp_all)

subsection \<open>Properties\<close>

text \<open>
  C34: what recall verification accepts. An envelope is accepted exactly when the JSON parses to it, its payload and signature have the contract's
  shape, the key it names is pinned and verifies, strictly, the bytes of this very payload against the signature it carries, every part of the
  context and the digest of the query are the expected ones, the clock is within its lifetime and its time of issue within the allowed skew
  (in exact arithmetic, though the code saturates), and the replay store finds its nonce fresh in the partition of the key, tenant and workspace. Unless
  all but the last holds the replay store is not asked: a forged, misdirected or expired envelope consumes no nonce.
\<close>

theorem recall_verification_exact:
  fixes consume :: "replay_namespace \<Rightarrow> string \<Rightarrow> i64 \<Rightarrow> 's \<Rightarrow> ('e + consume_result) \<times> 's"
  shows "((\<exists>s'. verify_json env keys skew consume now json x s = (Inr v, s')) \<longleftrightarrow>
      (\<exists>key. recall_verified env keys skew now json x key (vr_envelope v) \<and>
         v = \<lparr>vr_envelope = vr_envelope v, vr_verified_at = now, vr_namespace = derive_replay_namespace env (vr_envelope v) key\<rparr> \<and>
         fst (consume (vr_namespace v) (rp_nonce (re_payload (vr_envelope v))) (rp_expires_at (re_payload (vr_envelope v))) s) = Inr Fresh)) \<and>
    (snd (verify_json env keys skew consume now json x s) = s \<or> (\<exists>key e. recall_verified env keys skew now json x key e))"
proof (intro conjI iffI)
  assume "\<exists>s'. verify_json env keys skew consume now json x s = (Inr v, s')"
  then obtain s' where "verify_json env keys skew consume now json x s = (Inr v, s')" by blast
  note v = verify_json_Inr [OF this]
  from verify_pure_Inr [OF conjunct1 [OF v]] v
  show "\<exists>key. recall_verified env keys skew now json x key (vr_envelope v) \<and>
      v = \<lparr>vr_envelope = vr_envelope v, vr_verified_at = now, vr_namespace = derive_replay_namespace env (vr_envelope v) key\<rparr> \<and>
      fst (consume (vr_namespace v) (rp_nonce (re_payload (vr_envelope v))) (rp_expires_at (re_payload (vr_envelope v))) s) = Inr Fresh" by auto
next
  assume "\<exists>key. recall_verified env keys skew now json x key (vr_envelope v) \<and>
      v = \<lparr>vr_envelope = vr_envelope v, vr_verified_at = now, vr_namespace = derive_replay_namespace env (vr_envelope v) key\<rparr> \<and>
      fst (consume (vr_namespace v) (rp_nonce (re_payload (vr_envelope v))) (rp_expires_at (re_payload (vr_envelope v))) s) = Inr Fresh"
  then obtain key where k: "recall_verified env keys skew now json x key (vr_envelope v)"
    "v = \<lparr>vr_envelope = vr_envelope v, vr_verified_at = now, vr_namespace = derive_replay_namespace env (vr_envelope v) key\<rparr>"
    "fst (consume (vr_namespace v) (rp_nonce (re_payload (vr_envelope v))) (rp_expires_at (re_payload (vr_envelope v))) s) = Inr Fresh" by blast
  have "verify_pure env keys skew now json x = (Inr v :: 'e verification_error + verified_envelope)"
    using verify_pure_complete [OF k(1)] k(2) by simp
  with k(3) show "\<exists>s'. verify_json env keys skew consume now json x s = (Inr v, s')"
    by (cases "consume (vr_namespace v) (rp_nonce (re_payload (vr_envelope v))) (rp_expires_at (re_payload (vr_envelope v))) s")
      (auto simp: verify_json_def Let_def)
next
  show "snd (verify_json env keys skew consume now json x s) = s \<or> (\<exists>key e. recall_verified env keys skew now json x key e)"
    using verify_pure_Inr [of env keys skew now json x] verify_json_refused [of env keys skew now json x _ consume s]
    by (cases "verify_pure env keys skew now json x :: 'e verification_error + verified_envelope") auto
qed

text \<open>
  C35: a recall is accepted at most once. Over any sequence of verifications and purges on the PostgreSQL store, with any failures, lost answers and rows
  skipped by a purge, no two acceptances have the same partition, nonce and expiry, so no payload is accepted twice under one key; the clock need
  not be monotone, if no purge has a cutoff after the clock of a later verification. Two envelopes share a partition only if the public key, the tenant and
  the workspace agree, whatever key id they name, if SHA-256 does not collide on the two inputs.
\<close>

theorem recall_accepted_at_most_once:
  assumes "hm_wf t" and "timely (\<lambda>c. sint (pu_cutoff c)) ops"
  shows "distinct (map acceptance (run_recall env keys skew consume_once purge_step ops t)) \<and>
     distinct (map (\<lambda>v. (vr_namespace v, re_payload (vr_envelope v))) (run_recall env keys skew consume_once purge_step ops t)) \<and>
     (\<forall>e key e' key'. derive_replay_namespace env e key = derive_replay_namespace env e' key' \<and>
        (rv_sha256 (ve_recall env) (namespace_input e key) = rv_sha256 (ve_recall env) (namespace_input e' key') \<longrightarrow> namespace_input e key = namespace_input e' key') \<and>
        list_all (\<lambda>n. n < 2 ^ 64) [length (tk_fingerprint key), length (tk_fingerprint key'), length (rp_tenant_id (re_payload e)),
          length (rp_tenant_id (re_payload e')), case rp_workspace_id (re_payload e) of Some w \<Rightarrow> length w | None \<Rightarrow> 0,
          case rp_workspace_id (re_payload e') of Some w \<Rightarrow> length w | None \<Rightarrow> 0] \<longrightarrow>
        tk_fingerprint key = tk_fingerprint key' \<and> rp_tenant_id (re_payload e) = rp_tenant_id (re_payload e') \<and>
        rp_workspace_id (re_payload e) = rp_workspace_id (re_payload e'))"
proof (intro conjI)
  let ?vs = "run_recall env keys skew consume_once purge_step ops t"
  show d: "distinct (map acceptance ?vs)" by (rule postgres_purging.accepted_distinct [OF assms])
  have "map acceptance ?vs = map (\<lambda>(ns, p). ((ns, rp_nonce p), rp_expires_at p)) (map (\<lambda>v. (vr_namespace v, re_payload (vr_envelope v))) ?vs)"
    unfolding list.map_comp by (rule map_cong) (simp_all add: acceptance_def)
  from d [unfolded this] show "distinct (map (\<lambda>v. (vr_namespace v, re_payload (vr_envelope v))) ?vs)" unfolding distinct_map by (rule conjunct1)
next
  show "\<forall>e key e' key'. derive_replay_namespace env e key = derive_replay_namespace env e' key' \<and>
        (rv_sha256 (ve_recall env) (namespace_input e key) = rv_sha256 (ve_recall env) (namespace_input e' key') \<longrightarrow> namespace_input e key = namespace_input e' key') \<and>
        list_all (\<lambda>n. n < 2 ^ 64) [length (tk_fingerprint key), length (tk_fingerprint key'), length (rp_tenant_id (re_payload e)),
          length (rp_tenant_id (re_payload e')), case rp_workspace_id (re_payload e) of Some w \<Rightarrow> length w | None \<Rightarrow> 0,
          case rp_workspace_id (re_payload e') of Some w \<Rightarrow> length w | None \<Rightarrow> 0] \<longrightarrow>
        tk_fingerprint key = tk_fingerprint key' \<and> rp_tenant_id (re_payload e) = rp_tenant_id (re_payload e') \<and>
        rp_workspace_id (re_payload e) = rp_workspace_id (re_payload e')"
    using namespace_separates by blast
qed

text \<open>A recall that is verified: every hash is thirty-two zero bytes, every signature verifies.\<close>

definition zero_digest :: recall_digest where
  "zero_digest = \<lparr>rd_algorithm = ''sha256'', rd_value = to_hex (replicate 32 0), rd_public_recomputable = True\<rparr>"

definition zero_envelope :: recall_envelope where
  "zero_envelope = \<lparr>re_payload = \<lparr>rp_protocol_version = RECALL_PROTOCOL_VERSION, rp_canonicalization_version = RECALL_CANONICALIZATION_VERSION,
       rp_request_id = 1, rp_nonce = to_hex (replicate 32 0), rp_issued_at = 1000, rp_expires_at = 2000, rp_tenant_id = ''t'', rp_workspace_id = None,
       rp_agent_id = ''a'', rp_session_id = None, rp_mission_id = None, rp_run_id = 2, rp_query_digest = zero_digest, rp_limit = 5,
       rp_retrieval_policy_digest = zero_digest, rp_embedding_config_digest = zero_digest, rp_hits = []\<rparr>,
     re_signature = \<lparr>rs_algorithm = RECALL_SIGNATURE_ALGORITHM, rs_key_id = ''k'', rs_signature = to_hex (replicate 64 0),
       rs_signed_payload_digest = zero_digest, rs_signing_domain = RECALL_SIGNING_DOMAIN_LABEL\<rparr>\<rparr>"

definition zero_env :: verifier_env where
  "zero_env = \<lparr>ve_recall = \<lparr>rv_sha256 = (\<lambda>_. replicate 32 0), rv_hyphenated = (\<lambda>u. dec_nat (unat u)), rv_parse_str = (\<lambda>_. None)\<rparr>,
     ve_from_str = (\<lambda>_. Some zero_envelope), ve_key_valid = (\<lambda>_. True), ve_verify_strict = (\<lambda>_ _ _. True)\<rparr>"

definition zero_key :: trusted_key where
  "zero_key = \<lparr>tk_key_id = ''k'', tk_verifying_key = [], tk_fingerprint = []\<rparr>"

definition zero_context :: expected_context where
  "zero_context = \<lparr>ec_tenant_id = ''t'', ec_workspace_id = None, ec_agent_id = ''a'', ec_session_id = None, ec_mission_id = None, ec_run_id = 2,
     ec_request_id = 1, ec_query = ''q''\<rparr>"

lemma zero_hex: "length (to_hex (replicate n 0)) = 2 * n" "list_all lowercase_hex (to_hex (replicate n 0))"
proof -
  show "length (to_hex (replicate n 0)) = 2 * n" by (simp add: length_to_hex)
  have "lowercase_hex (hex_digit 0)" by code_simp
  then show "list_all lowercase_hex (to_hex (replicate n 0))" by (induction n) (simp_all add: to_hex_def)
qed

lemma zero_verified: "recall_verified zero_env [(''k'', zero_key)] 0 1500 json zero_context zero_key zero_envelope"
proof -
  have d: "digest_ok zero_digest" using zero_hex [of 32] by (simp add: digest_ok_def zero_digest_def SHA256_ALGORITHM_def SHA256_HEX_LEN_def)
  obtain bs where bs: "recall_signing_bytes (ve_recall zero_env) (re_payload zero_envelope) = Inr bs" using signing_bytes_total by blast
  have "payload_ok (re_payload zero_envelope)" using d zero_hex [of 32] by (simp add: payload_ok_def zero_envelope_def)
  moreover have "signature_ok (ve_recall zero_env) zero_envelope"
    using d bs zero_hex [of 64] by (auto simp: signature_ok_def Let_def zero_envelope_def zero_digest_def zero_env_def)
  moreover have "context_ok zero_env (re_payload zero_envelope) zero_context"
    by (simp add: context_ok_def zero_envelope_def zero_context_def zero_digest_def zero_env_def)
  moreover have "\<exists>bs sg. recall_signing_bytes (ve_recall zero_env) (re_payload zero_envelope) = Inr bs \<and>
      rs_signature (re_signature zero_envelope) = to_hex sg \<and> length sg = 64 \<and> ve_verify_strict zero_env (tk_verifying_key zero_key) bs sg"
    using bs by (intro exI [of _ bs] exI [of _ "replicate 64 0"]) (simp add: zero_envelope_def zero_env_def)
  ultimately show ?thesis by (simp add: recall_verified_def) (simp add: zero_env_def zero_envelope_def)
qed

definition zero_ops :: "(db_fault, purge_call) recall_op list" where
  "zero_ops = [Verify No_Fault 1500 ''j'' zero_context, Purge \<lparr>pu_fault = No_Fault, pu_locked = [], pu_cutoff = 1400, pu_batch = 10\<rparr>,
     Verify No_Fault 1500 ''j'' zero_context]"

theorem recall_accepted_at_most_once_witness:
  "timely (\<lambda>c. sint (pu_cutoff c)) zero_ops \<and> length (run_recall zero_env [(''k'', zero_key)] 0 consume_once purge_step zero_ops []) = 1"
proof
  show t: "timely (\<lambda>c. sint (pu_cutoff c)) zero_ops" by (simp add: zero_ops_def)
  let ?v = "\<lparr>vr_envelope = zero_envelope, vr_verified_at = 1500, vr_namespace = derive_replay_namespace zero_env zero_envelope zero_key\<rparr>"
  have p: "verify_pure zero_env [(''k'', zero_key)] 0 1500 ''j'' zero_context = (Inr ?v :: postgres_error verification_error + verified_envelope)"
    by (rule verify_pure_complete [OF zero_verified])
  have acc: "set (run_recall zero_env [(''k'', zero_key)] 0 consume_once purge_step (drop 1 zero_ops) s) \<subseteq> {?v}" for s
  proof
    fix v assume "v \<in> set (run_recall zero_env [(''k'', zero_key)] 0 consume_once purge_step (drop 1 zero_ops) s)"
    from run_recall_verified [OF this] p show "v \<in> {?v}" by (auto simp: zero_ops_def)
  qed
  have n: "store_validate_nonce (rp_nonce (re_payload zero_envelope)) = Inr ()" "validate_expires_at (rp_expires_at (re_payload zero_envelope)) = Inr ()"
    using zero_hex [of 32] by (simp_all add: store_validate_nonce_def validate_expires_at_def zero_envelope_def RECALL_NONCE_HEX_LEN_def)
  then obtain s' where v: "verify_json zero_env [(''k'', zero_key)] 0 (consume_once No_Fault) 1500 ''j'' zero_context [] = (Inr ?v, s')"
    by (simp add: verify_json_def p Let_def consume_once_def consume_transaction_def consume_insert_def timeout_sqlx_def db_answer_def)
  have run: "run_recall zero_env [(''k'', zero_key)] 0 consume_once purge_step zero_ops [] =
      ?v # run_recall zero_env [(''k'', zero_key)] 0 consume_once purge_step (drop 1 zero_ops) s'" by (simp add: zero_ops_def v)
  have "distinct (map acceptance (run_recall zero_env [(''k'', zero_key)] 0 consume_once purge_step zero_ops []))"
    using recall_accepted_at_most_once [of "[]", OF _ t] by simp
  then have "acceptance ?v \<notin> acceptance ` set (run_recall zero_env [(''k'', zero_key)] 0 consume_once purge_step (drop 1 zero_ops) s')"
    unfolding run by simp
  then have "run_recall zero_env [(''k'', zero_key)] 0 consume_once purge_step (drop 1 zero_ops) s' = []"
    using acc [of s'] by (cases "run_recall zero_env [(''k'', zero_key)] 0 consume_once purge_step (drop 1 zero_ops) s'") auto
  with run show "length (run_recall zero_env [(''k'', zero_key)] 0 consume_once purge_step zero_ops []) = 1" by simp
qed

end
