(* ===== verification/Recall_Config.thy ===== *)
theory Recall_Config
  imports Recall_Verifier Url_Guard
begin

text \<open>
  Configuration of recall verification (\<open>src/src/aeon/recall_v2_config.rs\<close>): the mode, the numeric settings, the pinned trust roots and the
  construction of the components.

  The environment variables are an argument, and so is what serde_json makes of the pinned document (strictly: unknown and missing members are an error)
  and how the connection to PostgreSQL goes. A sorted list searched by bisection is membership in it.
\<close>

subsection \<open>Errors\<close>

datatype key_provider_error =
    InvalidDocument
  | UnsupportedDocumentVersion u32
  | ProviderEmptyBundle
  | ProviderEmptyKeyId
  | ProviderDuplicateKeyId string
  | NonCanonicalKeyId string string
  | DuplicatePublicKey
  | InvalidPublicKeyHex string
  | ProviderInvalidPublicKey string
  | MissingActiveKey

datatype recall_config_error =
    NonUnicodeEnvironment string
  | InvalidMode
  | MissingTrustedKeys
  | TrustedKeysError key_provider_error
  | MissingReplayDatabaseUrl
  | InvalidPoolMaxConnections
  | InvalidConnectTimeout
  | InvalidReplayOperationTimeout

datatype recall_startup_error =
    StartupConfig recall_config_error
  | StartupTrustedKeys key_provider_error
  | InvalidReplayDatabaseUrl
  | ReplayDatabaseConnectTimedOut
  | ReplayDatabaseUnavailable
  | StartupReplayStore postgres_error

subsection \<open>Raw values\<close>

record recall_config_values =
  cv_mode :: "string option"
  cv_trusted_keys_json :: "string option"
  cv_replay_database_url :: "string option"
  cv_pool_max_connections :: "string option"
  cv_connect_timeout_ms :: "string option"
  cv_operation_timeout_ms :: "string option"

definition recall_read_optional_env :: "(string \<Rightarrow> env_var) \<Rightarrow> string \<Rightarrow> recall_config_error + string option" where
  "recall_read_optional_env os name =
     (case os name of EnvValue v \<Rightarrow> Inr (Some v) | EnvNotPresent \<Rightarrow> Inr None | EnvNotUnicode \<Rightarrow> Inl (NonUnicodeEnvironment name))"

definition recall_values_from_env :: "(string \<Rightarrow> env_var) \<Rightarrow> recall_config_error + recall_config_values" where
  "recall_values_from_env os =
     (case recall_read_optional_env os ''NEXUS_RECALL_V2_MODE'' of Inl e \<Rightarrow> Inl e | Inr mode \<Rightarrow>
      (case recall_read_optional_env os ''NEXUS_RECALL_V2_TRUSTED_KEYS'' of Inl e \<Rightarrow> Inl e | Inr keys \<Rightarrow>
      (case recall_read_optional_env os ''NEXUS_RECALL_V2_REPLAY_DATABASE_URL'' of Inl e \<Rightarrow> Inl e | Inr db \<Rightarrow>
      (case recall_read_optional_env os ''NEXUS_RECALL_V2_POOL_MAX_CONNECTIONS'' of Inl e \<Rightarrow> Inl e | Inr pool \<Rightarrow>
      (case recall_read_optional_env os ''NEXUS_RECALL_V2_CONNECT_TIMEOUT_MS'' of Inl e \<Rightarrow> Inl e | Inr connect \<Rightarrow>
      (case recall_read_optional_env os ''NEXUS_RECALL_V2_OPERATION_TIMEOUT_MS'' of Inl e \<Rightarrow> Inl e | Inr operation \<Rightarrow>
      Inr \<lparr>cv_mode = mode, cv_trusted_keys_json = keys, cv_replay_database_url = db, cv_pool_max_connections = pool,
        cv_connect_timeout_ms = connect, cv_operation_timeout_ms = operation\<rparr>))))))"

datatype runtime_mode = ModeDisabled | ModeEnforced

definition parse_runtime_mode :: "string option \<Rightarrow> recall_config_error + runtime_mode" where
  "parse_runtime_mode value =
     (case value of
        None \<Rightarrow> Inr ModeDisabled
      | Some v \<Rightarrow> if v = ''disabled'' then Inr ModeDisabled else if v = ''enforced'' then Inr ModeEnforced else Inl InvalidMode)"

definition require_nonempty :: "string option \<Rightarrow> 'e \<Rightarrow> 'e + string" where
  "require_nonempty value err = (case value of Some v \<Rightarrow> if v \<noteq> [] \<and> trim v = v then Inr v else Inl err | None \<Rightarrow> Inl err)"

definition is_decimal :: "string \<Rightarrow> bool" where
  "is_decimal value = (value \<noteq> [] \<and> list_all (\<lambda>c. 48 \<le> (of_char c :: nat) \<and> (of_char c :: nat) \<le> 57) value)"

text \<open>\<open>str::parse\<close> on decimal digits fails when the value does not fit.\<close>

definition parse_nonzero :: "nat \<Rightarrow> string option \<Rightarrow> nat \<Rightarrow> recall_config_error \<Rightarrow> recall_config_error + nat" where
  "parse_nonzero bits value dflt err =
     (case value of
        None \<Rightarrow> Inr dflt
      | Some v \<Rightarrow>
          (if is_decimal v then
            (let n = nat_of_dec v in if n < 2 ^ bits \<and> 0 < n then Inr n else Inl err)
          else Inl err))"

definition parse_nonzero_u32 :: "string option \<Rightarrow> nat \<Rightarrow> recall_config_error \<Rightarrow> recall_config_error + nat" where
  "parse_nonzero_u32 = parse_nonzero 32"

definition parse_nonzero_u64 :: "string option \<Rightarrow> nat \<Rightarrow> recall_config_error \<Rightarrow> recall_config_error + nat" where
  "parse_nonzero_u64 = parse_nonzero 64"

subsection \<open>Pinned keys\<close>

datatype pinned_key_state = KeyActive | KeyRetired

record pinned_key_record =
  pk_key_id :: string
  pk_public_key_hex :: string
  pk_state :: pinned_key_state

record pinned_key_document =
  pd_version :: u32
  pd_keys :: "pinned_key_record list"

record trusted_key_set =
  ks_bundle :: trusted_key_bundle
  ks_active_key_ids :: "string list"
  ks_retired_key_ids :: "string list"

definition key_set_len :: "trusted_key_set \<Rightarrow> nat" where
  "key_set_len ks = length (ks_active_key_ids ks) + length (ks_retired_key_ids ks)"

definition contains_key :: "trusted_key_set \<Rightarrow> string \<Rightarrow> bool" where
  "contains_key ks key_id = (key_id \<in> set (ks_active_key_ids ks) \<or> key_id \<in> set (ks_retired_key_ids ks))"

text \<open>A digit outside the range is unreachable in the code, which has checked every character.\<close>

definition key_nibble :: "char \<Rightarrow> byte" where
  "key_nibble c = (let n = (of_char c :: nat) in if n \<le> 57 then word_of_nat (n - 48) else word_of_nat (n - 97 + 10))"

fun decode_key_pairs :: "string \<Rightarrow> bytes" where
  "decode_key_pairs (a # b # rest) = (push_bit 4 (key_nibble a) OR key_nibble b) # decode_key_pairs rest"
| "decode_key_pairs _ = []"

definition decode_public_key :: "string \<Rightarrow> string \<Rightarrow> key_provider_error + bytes" where
  "decode_public_key key_id encoded =
     (if length encoded \<noteq> 64 \<or> \<not> list_all lowercase_hex encoded then Inl (InvalidPublicKeyHex key_id)
      else Inr (decode_key_pairs encoded))"

definition canonical_key_id :: "bytes \<Rightarrow> string" where
  "canonical_key_id fingerprint = ''ed25519-sha256:'' @ to_hex fingerprint"

definition map_trusted_key_error :: "string \<Rightarrow> bundle_error \<Rightarrow> key_provider_error" where
  "map_trusted_key_error key_id err =
     (case err of
        EmptyKeyId \<Rightarrow> ProviderEmptyKeyId
      | InvalidPublicKey \<Rightarrow> ProviderInvalidPublicKey key_id
      | EmptyBundle \<Rightarrow> ProviderEmptyBundle
      | DuplicateKeyId i \<Rightarrow> ProviderDuplicateKeyId i)"

text \<open>One record of the document, with the keys read before it.\<close>

definition pin_record :: "verifier_env \<Rightarrow> trusted_key list \<Rightarrow> pinned_key_record \<Rightarrow> key_provider_error + trusted_key" where
  "pin_record env before r =
     (if pk_key_id r = [] then Inl ProviderEmptyKeyId
      else case decode_public_key (pk_key_id r) (pk_public_key_hex r) of Inl e \<Rightarrow> Inl e | Inr public_key \<Rightarrow>
      (case trusted_key_from_bytes env (pk_key_id r) public_key of Inl e \<Rightarrow> Inl (map_trusted_key_error (pk_key_id r) e) | Inr key \<Rightarrow>
      (if pk_key_id r \<noteq> canonical_key_id (tk_fingerprint key)
      then Inl (NonCanonicalKeyId (pk_key_id r) (canonical_key_id (tk_fingerprint key)))
      else if pk_key_id r \<in> tk_key_id ` set before then Inl (ProviderDuplicateKeyId (pk_key_id r))
      else if public_key \<in> tk_verifying_key ` set before then Inl DuplicatePublicKey
      else Inr key)))"

fun pin_records :: "verifier_env \<Rightarrow> trusted_key list \<Rightarrow> pinned_key_record list \<Rightarrow> key_provider_error + trusted_key list" where
  "pin_records env before [] = Inr before"
| "pin_records env before (r # rs) =
     (case pin_record env before r of Inl e \<Rightarrow> Inl e | Inr key \<Rightarrow> pin_records env (before @ [key]) rs)"

definition ids_in_state :: "pinned_key_state \<Rightarrow> pinned_key_record list \<Rightarrow> string list" where
  "ids_in_state s rs = map pk_key_id (filter (\<lambda>r. pk_state r = s) rs)"

definition key_provider_from_document :: "verifier_env \<Rightarrow> pinned_key_document option \<Rightarrow> key_provider_error + trusted_key_set" where
  "key_provider_from_document env parsed =
     (case parsed of None \<Rightarrow> Inl InvalidDocument | Some doc \<Rightarrow>
      (if pd_version doc \<noteq> 1 then Inl (UnsupportedDocumentVersion (pd_version doc))
      else if pd_keys doc = [] then Inl ProviderEmptyBundle
      else case pin_records env [] (pd_keys doc) of Inl e \<Rightarrow> Inl e | Inr keys \<Rightarrow>
      (let active = ids_in_state KeyActive (pd_keys doc); retired = ids_in_state KeyRetired (pd_keys doc) in
      if active = [] then Inl MissingActiveKey
      else case trusted_key_bundle_new keys of
        Inl e \<Rightarrow> Inl (map_trusted_key_error [] e)
      | Inr bundle \<Rightarrow> Inr \<lparr>ks_bundle = bundle, ks_active_key_ids = sort active, ks_retired_key_ids = sort retired\<rparr>)))"

subsection \<open>Component configuration\<close>

record enforced_config =
  ef_trusted_key_set :: trusted_key_set
  ef_replay_database_url :: string
  ef_pool_max_connections :: nat
  ef_connect_timeout :: nat
  ef_operation_timeout :: nat

datatype component_config = ConfigDisabled | ConfigEnforced enforced_config

definition recall_config_from_values ::
  "verifier_env \<Rightarrow> (string \<Rightarrow> pinned_key_document option) \<Rightarrow> recall_config_values \<Rightarrow> recall_config_error + component_config" where
  "recall_config_from_values env parse values =
     (case parse_runtime_mode (cv_mode values) of Inl e \<Rightarrow> Inl e | Inr mode \<Rightarrow>
      (if mode = ModeDisabled then Inr ConfigDisabled
      else case require_nonempty (cv_trusted_keys_json values) MissingTrustedKeys of Inl e \<Rightarrow> Inl e | Inr json \<Rightarrow>
      (case key_provider_from_document env (parse json) of Inl e \<Rightarrow> Inl (TrustedKeysError e) | Inr keys \<Rightarrow>
      (case require_nonempty (cv_replay_database_url values) MissingReplayDatabaseUrl of Inl e \<Rightarrow> Inl e | Inr db \<Rightarrow>
      (case parse_nonzero_u32 (cv_pool_max_connections values) 8 InvalidPoolMaxConnections of Inl e \<Rightarrow> Inl e | Inr pool \<Rightarrow>
      (case parse_nonzero_u64 (cv_connect_timeout_ms values) 5000 InvalidConnectTimeout of Inl e \<Rightarrow> Inl e | Inr connect \<Rightarrow>
      (case parse_nonzero_u64 (cv_operation_timeout_ms values) 5000 InvalidReplayOperationTimeout of Inl e \<Rightarrow> Inl e | Inr operation \<Rightarrow>
      Inr (ConfigEnforced \<lparr>ef_trusted_key_set = keys, ef_replay_database_url = db, ef_pool_max_connections = pool,
        ef_connect_timeout = connect, ef_operation_timeout = operation\<rparr>))))))))"

text \<open>What connecting finds: whether the URL is one, how the connection ends, and the schema there.\<close>

record replay_database =
  rb_url_ok :: bool
  rb_connect :: "unit answer"
  rb_schema :: schema_view

datatype recall_components = ComponentsDisabled | ComponentsEnforced trusted_key_set nat

definition construct_recall_components :: "(string \<Rightarrow> replay_database) \<Rightarrow> component_config \<Rightarrow> recall_startup_error + recall_components" where
  "construct_recall_components database config =
     (case config of ConfigDisabled \<Rightarrow> Inr ComponentsDisabled | ConfigEnforced cfg \<Rightarrow>
      (let db = database (ef_replay_database_url cfg) in
      if \<not> rb_url_ok db then Inl InvalidReplayDatabaseUrl
      else case rb_connect db of Query_Timed_Out \<Rightarrow> Inl ReplayDatabaseConnectTimedOut | Query_Failed \<Rightarrow> Inl ReplayDatabaseUnavailable | Answered _ \<Rightarrow>
      (case postgres_replay_store_new (ef_operation_timeout cfg) (rb_schema db) of Inl e \<Rightarrow> Inl (StartupReplayStore e) | Inr timeout \<Rightarrow>
      Inr (ComponentsEnforced (ef_trusted_key_set cfg) timeout))))"

definition construct_recall_components_from_values ::
  "verifier_env \<Rightarrow> (string \<Rightarrow> pinned_key_document option) \<Rightarrow> (string \<Rightarrow> replay_database) \<Rightarrow> recall_config_values \<Rightarrow> recall_startup_error + recall_components" where
  "construct_recall_components_from_values env parse database values =
     (case recall_config_from_values env parse values of Inl e \<Rightarrow> Inl (StartupConfig e) | Inr config \<Rightarrow> construct_recall_components database config)"

definition construct_recall_components_from_env ::
  "verifier_env \<Rightarrow> (string \<Rightarrow> pinned_key_document option) \<Rightarrow> (string \<Rightarrow> replay_database) \<Rightarrow> (string \<Rightarrow> env_var) \<Rightarrow> recall_startup_error + recall_components" where
  "construct_recall_components_from_env env parse database os =
     (case recall_values_from_env os of Inl e \<Rightarrow> Inl (StartupConfig e) | Inr values \<Rightarrow>
      construct_recall_components_from_values env parse database values)"

subsection \<open>The pinned keys\<close>

lemma key_nibble_decode: "lowercase_hex c \<Longrightarrow> decode_nibble c = Inr (key_nibble c)"
  by (auto simp: lowercase_hex_def decode_nibble_def key_nibble_def Let_def)

lemma decode_key_pairs_hex: "list_all lowercase_hex s \<Longrightarrow> decode_sig_pairs s = Inr (decode_key_pairs s)"
  by (induction s rule: induct_list012) (simp_all add: key_nibble_decode)

lemma decode_public_key_Inr:
  assumes "decode_public_key i s = Inr bs"
  shows "s = to_hex bs \<and> length bs = 32"
proof -
  have s: "length s = 64" "list_all lowercase_hex s" "bs = decode_key_pairs s" using assms by (auto simp: decode_public_key_def split: if_split_asm)
  then have "s = to_hex bs" using decode_sig_pairs_Inr [OF decode_key_pairs_hex [OF s(2)]] by simp
  with s(1) show ?thesis by (simp add: length_to_hex)
qed

text \<open>What a record that is pinned says of its key.\<close>

definition key_of_record :: "verifier_env \<Rightarrow> pinned_key_record \<Rightarrow> trusted_key \<Rightarrow> bool" where
  "key_of_record env r key \<longleftrightarrow> tk_key_id key = pk_key_id r \<and> pk_public_key_hex r = to_hex (tk_verifying_key key) \<and> length (tk_verifying_key key) = 32 \<and>
     ve_key_valid env (tk_verifying_key key) \<and> tk_fingerprint key = rv_sha256 (ve_recall env) (tk_verifying_key key) \<and>
     pk_key_id r = canonical_key_id (tk_fingerprint key)"

lemma trusted_key_from_bytes_Inr:
  "trusted_key_from_bytes env i pk = Inr key \<Longrightarrow>
     ve_key_valid env pk \<and> tk_key_id key = i \<and> tk_verifying_key key = pk \<and> tk_fingerprint key = rv_sha256 (ve_recall env) pk"
  by (auto simp: trusted_key_from_bytes_def split: if_split_asm)

lemma pin_record_Inr:
  assumes "pin_record env before r = Inr key"
  shows "key_of_record env r key \<and> tk_key_id key \<notin> tk_key_id ` set before \<and> tk_verifying_key key \<notin> tk_verifying_key ` set before"
proof (cases "decode_public_key (pk_key_id r) (pk_public_key_hex r)")
  case (Inl e)
  then show ?thesis using assms by (simp add: pin_record_def split: if_split_asm)
next
  case pk: (Inr pk)
  show ?thesis
  proof (cases "trusted_key_from_bytes env (pk_key_id r) pk")
    case (Inl e)
    then show ?thesis using assms pk by (simp add: pin_record_def split: if_split_asm)
  next
    case (Inr k)
    then have "k = key" "pk_key_id r = canonical_key_id (tk_fingerprint key)" "pk_key_id r \<notin> tk_key_id ` set before" "pk \<notin> tk_verifying_key ` set before"
      using assms pk by (simp_all add: pin_record_def split: if_split_asm)
    with trusted_key_from_bytes_Inr [OF Inr] decode_public_key_Inr [OF pk] show ?thesis by (simp add: key_of_record_def)
  qed
qed

lemma pin_records_Inr:
  assumes "pin_records env before rs = Inr keys" and "distinct (map tk_key_id before)" and "distinct (map tk_verifying_key before)"
  shows "\<exists>new. keys = before @ new \<and> list_all2 (key_of_record env) rs new \<and> distinct (map tk_key_id keys) \<and> distinct (map tk_verifying_key keys)"
  using assms
proof (induction rs arbitrary: before)
  case (Cons r rs)
  then obtain key where key: "pin_record env before r = Inr key" "pin_records env (before @ [key]) rs = Inr keys" by (auto split: sum.split_asm)
  note k = pin_record_Inr [OF key(1)]
  obtain new where "keys = (before @ [key]) @ new" "list_all2 (key_of_record env) rs new" "distinct (map tk_key_id keys)" "distinct (map tk_verifying_key keys)"
    using Cons.IH [OF key(2)] k Cons.prems(2,3) by auto
  then show ?case using k by (intro exI [of _ "key # new"]) simp
qed simp

text \<open>Keys with distinct identifiers make a bundle, in their order.\<close>

lemma bundle_insert_distinct:
  "distinct (map tk_key_id keys) \<Longrightarrow> (\<forall>k \<in> set keys. hm_get m (tk_key_id k) = None) \<Longrightarrow>
   bundle_insert m keys = Inr (m @ map (\<lambda>k. (tk_key_id k, k)) keys)"
proof (induction keys arbitrary: m)
  case (Cons k ks)
  then have "hm_insert (tk_key_id k) k m = m @ [(tk_key_id k, k)]" by (simp add: hm_insert_fresh)
  moreover have "\<forall>j \<in> set ks. hm_get (m @ [(tk_key_id k, k)]) (tk_key_id j) = None" using Cons.prems by (auto simp: map_add_def) (metis imageI)
  ultimately show ?case using Cons by simp
qed simp

lemma list_all2_key_ids: "list_all2 (key_of_record env) rs keys \<Longrightarrow> map tk_key_id keys = map pk_key_id rs"
  by (induction rs keys rule: list_all2_induct) (simp_all add: key_of_record_def)

lemma map_of_by_id: "distinct (map f ks) \<Longrightarrow> k \<in> set ks \<Longrightarrow> map_of (map (\<lambda>k. (f k, k)) ks) (f k) = Some k"
  by (induction ks) (auto, metis imageI)

lemma key_provider_Inr:
  assumes "key_provider_from_document env parsed = Inr ks"
  shows "\<exists>doc keys. parsed = Some doc \<and> pd_version doc = 1 \<and> list_all2 (key_of_record env) (pd_keys doc) keys \<and>
     distinct (map tk_key_id keys) \<and> distinct (map tk_verifying_key keys) \<and> ks_bundle ks = map (\<lambda>k. (tk_key_id k, k)) keys \<and>
     ks_active_key_ids ks = sort (ids_in_state KeyActive (pd_keys doc)) \<and> ks_retired_key_ids ks = sort (ids_in_state KeyRetired (pd_keys doc)) \<and>
     ks_active_key_ids ks \<noteq> []"
proof -
  obtain doc where doc: "parsed = Some doc" using assms by (auto simp: key_provider_from_document_def split: option.split_asm)
  obtain keys where keys: "pin_records env [] (pd_keys doc) = Inr keys" and v: "pd_version doc = 1" "pd_keys doc \<noteq> []"
    using assms doc by (cases "pin_records env [] (pd_keys doc)") (auto simp: key_provider_from_document_def split: if_split_asm)
  from pin_records_Inr [OF keys] have k: "list_all2 (key_of_record env) (pd_keys doc) keys" "distinct (map tk_key_id keys)" "distinct (map tk_verifying_key keys)" by simp_all
  then have "keys \<noteq> []" using v(2) by (auto simp: list_all2_Nil2)
  then have "trusted_key_bundle_new keys = Inr (map (\<lambda>k. (tk_key_id k, k)) keys)"
    using bundle_insert_distinct [OF k(2), of "[]"] by (simp add: trusted_key_bundle_new_def)
  with assms doc keys v have "ids_in_state KeyActive (pd_keys doc) \<noteq> []"
    "ks = \<lparr>ks_bundle = map (\<lambda>k. (tk_key_id k, k)) keys, ks_active_key_ids = sort (ids_in_state KeyActive (pd_keys doc)),
       ks_retired_key_ids = sort (ids_in_state KeyRetired (pd_keys doc))\<rparr>"
    by (simp_all add: key_provider_from_document_def Let_def split: if_split_asm)
  then show ?thesis using doc v k by (auto simp flip: set_empty)
qed

lemma ids_of_states: "set (ids_in_state KeyActive rs) \<union> set (ids_in_state KeyRetired rs) = set (map pk_key_id rs)"
proof -
  have "pk_state r = KeyActive \<or> pk_state r = KeyRetired" for r :: pinned_key_record by (cases "pk_state r") auto
  then show ?thesis by (auto simp: ids_in_state_def)
qed

lemma parse_nonzero_Inr: "parse_nonzero bits value dflt err = Inr n \<Longrightarrow> 0 < dflt \<Longrightarrow> dflt < 2 ^ bits \<Longrightarrow> 0 < n \<and> n < 2 ^ bits"
  by (auto simp: parse_nonzero_def Let_def split: option.split_asm if_split_asm)

subsection \<open>Properties\<close>

text \<open>
  C36: the trust roots are what the operator pinned, and enforcement does not degrade. If the components start, either the mode is unset or
  \<open>disabled\<close> and there are none, or it is \<open>enforced\<close> and then every key of the document is in the bundle under the fingerprint of its own public key, with
  no identifier and no public key twice, at least one of them active and each of them valid; the bundle has no other key; the numbers
  are positive; and the replay store is one whose schema, constraints, index and privileges were found right.
\<close>

theorem recall_startup_fails_closed:
  assumes "construct_recall_components_from_values env parse database values = Inr components"
  shows "(cv_mode values \<in> {None, Some ''disabled''} \<and> components = ComponentsDisabled) \<or>
     (cv_mode values = Some ''enforced'' \<and>
      (\<exists>ks timeout json doc keys url. components = ComponentsEnforced ks timeout \<and> 0 < timeout \<and> timeout < 2 ^ 64 \<and>
         cv_trusted_keys_json values = Some json \<and> parse json = Some doc \<and> list_all2 (key_of_record env) (pd_keys doc) keys \<and>
         distinct (map tk_key_id keys) \<and> distinct (map tk_verifying_key keys) \<and>
         (\<forall>k. k \<in> set keys \<longleftrightarrow> hm_get (ks_bundle ks) (tk_key_id k) = Some k) \<and>
         (\<forall>i. contains_key ks i \<longleftrightarrow> i \<in> set (map tk_key_id keys)) \<and> ks_active_key_ids ks \<noteq> [] \<and>
         cv_replay_database_url values = Some url \<and> rb_url_ok (database url) \<and> validate_schema (rb_schema (database url)) = Inr ()))"
proof -
  obtain config where c: "recall_config_from_values env parse values = Inr config" "construct_recall_components database config = Inr components"
    using assms by (auto simp: construct_recall_components_from_values_def split: sum.split_asm)
  obtain mode where m: "parse_runtime_mode (cv_mode values) = Inr mode" using c(1) by (auto simp: recall_config_from_values_def split: sum.split_asm)
  show ?thesis
  proof (cases mode)
    case ModeDisabled
    then have "config = ConfigDisabled" using c(1) m by (simp add: recall_config_from_values_def)
    then have "components = ComponentsDisabled" using c(2) by (simp add: construct_recall_components_def)
    moreover have "cv_mode values \<in> {None, Some ''disabled''}"
      using m ModeDisabled by (auto simp: parse_runtime_mode_def split: option.split_asm if_split_asm)
    ultimately show ?thesis by blast
  next
    case ModeEnforced
    then have mode: "cv_mode values = Some ''enforced''" using m by (auto simp: parse_runtime_mode_def split: option.split_asm if_split_asm)
    obtain cfg where cfg: "config = ConfigEnforced cfg" using c m ModeEnforced
      by (auto simp: recall_config_from_values_def split: sum.split_asm)
    obtain json where json: "cv_trusted_keys_json values = Some json" "key_provider_from_document env (parse json) = Inr (ef_trusted_key_set cfg)"
      and url: "cv_replay_database_url values = Some (ef_replay_database_url cfg)" and t: "0 < ef_operation_timeout cfg \<and> ef_operation_timeout cfg < 2 ^ 64"
      using c(1) m ModeEnforced cfg parse_nonzero_Inr [of 64 _ 5000]
      by (auto simp: recall_config_from_values_def require_nonempty_def parse_nonzero_u64_def split: sum.split_asm option.split_asm if_split_asm)
    have st: "rb_url_ok (database (ef_replay_database_url cfg))" "components = ComponentsEnforced (ef_trusted_key_set cfg) (ef_operation_timeout cfg)"
      "validate_schema (rb_schema (database (ef_replay_database_url cfg))) = Inr ()"
      using c(2) cfg
      by (auto simp: construct_recall_components_def Let_def postgres_replay_store_new_def split: sum.split_asm answer.split_asm if_split_asm)
    from key_provider_Inr [OF json(2)] obtain doc keys where k: "parse json = Some doc" "list_all2 (key_of_record env) (pd_keys doc) keys"
      "distinct (map tk_key_id keys)" "distinct (map tk_verifying_key keys)" "ks_bundle (ef_trusted_key_set cfg) = map (\<lambda>k. (tk_key_id k, k)) keys"
      "ks_active_key_ids (ef_trusted_key_set cfg) = sort (ids_in_state KeyActive (pd_keys doc))"
      "ks_retired_key_ids (ef_trusted_key_set cfg) = sort (ids_in_state KeyRetired (pd_keys doc))" "ks_active_key_ids (ef_trusted_key_set cfg) \<noteq> []" by blast
    have "k \<in> set keys \<longleftrightarrow> hm_get (ks_bundle (ef_trusted_key_set cfg)) (tk_key_id k) = Some k" for k
      using map_of_by_id [OF k(3)] unfolding k(5) by (auto dest: map_of_SomeD)
    moreover have "contains_key (ef_trusted_key_set cfg) i \<longleftrightarrow> i \<in> set (map tk_key_id keys)" for i
      using ids_of_states [of "pd_keys doc"] list_all2_key_ids [OF k(2)] k(6,7) by (auto simp: contains_key_def)
    ultimately show ?thesis using mode json(1) url t st k(1-4,8) by blast
  qed
qed

definition right_schema :: schema_view where
  "right_schema = \<lparr>sv_version = Answered (Some 1),
     sv_columns = Answered [(''replay_namespace'', ''bytea'', ''NO'', None), (''nonce'', ''text'', ''NO'', None), (''expires_at_unix_ms'', ''bigint'', ''NO'', None),
       (''first_consumed_at'', ''timestamp with time zone'', ''NO'', Some ''clock_timestamp()'')],
     sv_constraints = Answered [(''nexus_recall_replay_nonces_pkey'', ''p'', True, ''PRIMARY KEY (replay_namespace, nonce)''),
       (''nexus_recall_replay_namespace_length'', ''c'', True, ''octet_length(replay_namespace) = 32''),
       (''nexus_recall_replay_nonce_shape'', ''c'', True, ''octet_length(nonce) = 64 ^[0-9a-f]{64}$''),
       (''nexus_recall_replay_expiry_nonnegative'', ''c'', True, ''expires_at_unix_ms >= 0'')],
     sv_index = Answered (Some ''(expires_at_unix_ms, replay_namespace, nonce)''), sv_privileges = Answered True\<rparr>"

definition one_key_document :: pinned_key_document where
  "one_key_document = \<lparr>pd_version = 1, pd_keys = [\<lparr>pk_key_id = canonical_key_id (replicate 32 0), pk_public_key_hex = to_hex (replicate 32 0),
     pk_state = KeyActive\<rparr>]\<rparr>"

definition enforced_values :: recall_config_values where
  "enforced_values = \<lparr>cv_mode = Some ''enforced'', cv_trusted_keys_json = Some ''{}'', cv_replay_database_url = Some ''u'', cv_pool_max_connections = None,
     cv_connect_timeout_ms = None, cv_operation_timeout_ms = Some ''250''\<rparr>"

definition enforced_start :: "recall_startup_error + recall_components" where
  "enforced_start = construct_recall_components_from_values zero_env (\<lambda>_. Some one_key_document)
     (\<lambda>_. \<lparr>rb_url_ok = True, rb_connect = Answered (), rb_schema = right_schema\<rparr>) enforced_values"

lemma right_schema_ok: "validate_schema right_schema = Inr ()"
  by code_simp

lemma one_key_ok: "\<exists>ks. key_provider_from_document zero_env (Some one_key_document) = Inr ks"
proof -
  let ?z = "to_hex (replicate 32 0)"
  have "decode_sig_pairs ?z = (Inr (decode_key_pairs ?z) :: unit verification_error + bytes)" by (rule decode_key_pairs_hex) (rule zero_hex)
  then have d: "decode_public_key i ?z = Inr (replicate 32 0)" for i
    using zero_hex [of 32] by (simp add: decode_sig_pairs_to_hex decode_public_key_def)
  let ?r = "\<lparr>pk_key_id = canonical_key_id (replicate 32 0), pk_public_key_hex = ?z, pk_state = KeyActive\<rparr>"
  have id: "canonical_key_id fp \<noteq> []" for fp by (simp add: canonical_key_id_def)
  have "pin_record zero_env [] ?r = Inr \<lparr>tk_key_id = canonical_key_id (replicate 32 0), tk_verifying_key = replicate 32 0, tk_fingerprint = replicate 32 0\<rparr>"
    by (simp only: pin_record_def d trusted_key_from_bytes_def id pinned_key_record.simps) (simp add: zero_env_def id)
  then show ?thesis
    by (simp add: key_provider_from_document_def one_key_document_def ids_in_state_def trusted_key_bundle_new_def)
qed

theorem recall_startup_fails_closed_witness:
  "\<exists>ks. enforced_start = Inr (ComponentsEnforced ks 250) \<and> ks_active_key_ids ks \<noteq> []"
proof -
  obtain keys where k: "key_provider_from_document zero_env (Some one_key_document) = Inr keys" using one_key_ok by blast
  have n: "nat_of_dec ''250'' = 250" "is_decimal ''250''" "trim ''u'' = ''u''" "trim ''{}'' = ''{}''" by code_simp+
  have ks: "enforced_start = Inr (ComponentsEnforced keys 250)"
    by (simp add: enforced_start_def construct_recall_components_from_values_def recall_config_from_values_def enforced_values_def parse_runtime_mode_def
        require_nonempty_def k parse_nonzero_u32_def parse_nonzero_u64_def parse_nonzero_def n construct_recall_components_def
        postgres_replay_store_new_def validate_operation_timeout_def right_schema_ok)
  from recall_startup_fails_closed [OF ks [unfolded enforced_start_def]] have "ks_active_key_ids keys \<noteq> []" by (auto simp: enforced_values_def)
  with ks show ?thesis by blast
qed

end
