(* ===== verification/Memory_Evidence.thy ===== *)
theory Memory_Evidence
  imports Recall_Envelope
begin

text \<open>
  Memory evidence, version 1 (\<open>src/crates/aeon_nexus_bridge/src/lib.rs\<close>): typed digests, fixed-point scores, the evidence record, the reference to it
  that a proof capsule carries, and the mapping of agents.

  SHA-256, HMAC-SHA-256 and the text serde_json writes for a value are the record \<open>bridge_env\<close>; scores are IEEE doubles.
  Serializing these records does not fail, so the error \<open>BridgeError::Serialization\<close> does not arise.
\<close>

subsection \<open>Digests\<close>

record bridge_env =
  br_sha256 :: "bytes \<Rightarrow> bytes"
  br_hmac :: "bytes \<Rightarrow> bytes \<Rightarrow> bytes"
  br_to_vec :: "json_number json \<Rightarrow> bytes"

record bridge_digest =
  bd_algorithm :: string
  bd_value :: string
  bd_public_recomputable :: bool

definition HMAC_SHA256_ALGORITHM :: string where
  "HMAC_SHA256_ALGORITHM = ''hmac-sha256''"

definition MEMORY_EVIDENCE_VERSION :: string where
  "MEMORY_EVIDENCE_VERSION = ''aeon-nexus-memory-evidence-v1''"

definition bridge_sha256_public :: "bridge_env \<Rightarrow> bytes \<Rightarrow> bridge_digest" where
  "bridge_sha256_public env bs = \<lparr>bd_algorithm = SHA256_ALGORITHM, bd_value = to_hex (br_sha256 env bs), bd_public_recomputable = True\<rparr>"

definition bridge_hmac_private :: "bridge_env \<Rightarrow> bytes \<Rightarrow> bytes \<Rightarrow> bridge_digest" where
  "bridge_hmac_private env key bs = \<lparr>bd_algorithm = HMAC_SHA256_ALGORITHM, bd_value = to_hex (br_hmac env key bs), bd_public_recomputable = False\<rparr>"

definition content_digest :: "bridge_env \<Rightarrow> string \<Rightarrow> bridge_digest" where
  "content_digest env s = bridge_sha256_public env (str_bytes s)"

definition hmac_agent_id :: "bridge_env \<Rightarrow> bytes \<Rightarrow> string \<Rightarrow> bridge_digest" where
  "hmac_agent_id env key agent_id = bridge_hmac_private env key (str_bytes agent_id)"

definition bridge_hex_value :: "char \<Rightarrow> byte option" where
  "bridge_hex_value c =
     (let n = (of_char c :: nat) in
      if 48 \<le> n \<and> n \<le> 57 then Some (word_of_nat (n - 48))
      else if 97 \<le> n \<and> n \<le> 102 then Some (word_of_nat (n - 97 + 10))
      else if 65 \<le> n \<and> n \<le> 70 then Some (word_of_nat (n - 65 + 10))
      else None)"

fun bridge_hex_pairs :: "string \<Rightarrow> bytes option" where
  "bridge_hex_pairs (a # b # rest) =
     (case bridge_hex_value a of None \<Rightarrow> None | Some high \<Rightarrow>
      (case bridge_hex_value b of None \<Rightarrow> None | Some low \<Rightarrow>
       map_option (\<lambda>bs. (push_bit 4 high OR low) # bs) (bridge_hex_pairs rest)))"
| "bridge_hex_pairs _ = Some []"

definition bridge_decode_hex :: "string \<Rightarrow> bytes option" where
  "bridge_decode_hex s = (if odd (length s) then None else bridge_hex_pairs s)"

text \<open>\<open>verify_slice\<close> compares in constant time: the answer is equality.\<close>

definition verify_agent_id_hmac :: "bridge_env \<Rightarrow> bytes \<Rightarrow> string \<Rightarrow> bridge_digest \<Rightarrow> bool" where
  "verify_agent_id_hmac env key agent_id expected =
     (if bd_algorithm expected \<noteq> HMAC_SHA256_ALGORITHM \<or> bd_public_recomputable expected then False
      else case bridge_decode_hex (bd_value expected) of None \<Rightarrow> False | Some bs \<Rightarrow> bs = br_hmac env key (str_bytes agent_id))"

subsection \<open>Scores\<close>

datatype bridge_error = InvalidScore f64

text \<open>\<open>f64::round\<close> rounds half away from zero; \<open>as i64\<close> truncates and saturates; \<open>i64::MAX as f64\<close> is the double above it.\<close>

fun fl_round :: "f64 \<Rightarrow> f64" where
  "fl_round (Fin x) = Fin (of_int (if 0 \<le> x then \<lfloor>x + 1 / 2\<rfloor> else - \<lfloor>1 / 2 - x\<rfloor>))"
| "fl_round x = x"

fun f64_as_i64 :: "f64 \<Rightarrow> i64" where
  "f64_as_i64 (Fin x) = word_of_int (max (- (2 ^ 63)) (min (2 ^ 63 - 1) (if 0 \<le> x then \<lfloor>x\<rfloor> else \<lceil>x\<rceil>)))"
| "f64_as_i64 PosInf = word_of_int (2 ^ 63 - 1)"
| "f64_as_i64 NegInf = word_of_int (- (2 ^ 63))"
| "f64_as_i64 NaN = 0"

definition memory_score_new :: "f64 \<Rightarrow> bridge_error + i64" where
  "memory_score_new score =
     (case score of
        Fin _ \<Rightarrow>
          (let micros = fl_round (f64_mul score (Fin 1000000)) in
           if fl_less micros (Fin (- (2 ^ 63))) \<or> fl_less (Fin (2 ^ 63)) micros then Inl (InvalidScore score)
           else Inr (f64_as_i64 micros))
      | _ \<Rightarrow> Inl (InvalidScore score))"

subsection \<open>Evidence\<close>

record evidence_hit =
  eh_memory_id :: string
  eh_score :: "i64 option"
  eh_content_digest :: bridge_digest

definition evidence_hit_new :: "bridge_env \<Rightarrow> string \<Rightarrow> string \<Rightarrow> f64 option \<Rightarrow> bridge_error + evidence_hit" where
  "evidence_hit_new env memory_id content score =
     (case (case score of None \<Rightarrow> Inr None | Some x \<Rightarrow> map_sum id Some (memory_score_new x)) of
        Inl e \<Rightarrow> Inl e
      | Inr s \<Rightarrow> Inr \<lparr>eh_memory_id = memory_id, eh_score = s, eh_content_digest = content_digest env content\<rparr>)"

definition with_content_digest :: "string \<Rightarrow> bridge_digest \<Rightarrow> i64 option \<Rightarrow> evidence_hit" where
  "with_content_digest memory_id digest score = \<lparr>eh_memory_id = memory_id, eh_score = score, eh_content_digest = digest\<rparr>"

record memory_evidence =
  mv_version :: string
  mv_agent_handle :: bridge_digest
  mv_session_id :: "string option"
  mv_injected_hits :: "evidence_hit list"

definition memory_evidence_new :: "bridge_digest \<Rightarrow> string option \<Rightarrow> evidence_hit list \<Rightarrow> memory_evidence" where
  "memory_evidence_new handle session_id hits =
     \<lparr>mv_version = MEMORY_EVIDENCE_VERSION, mv_agent_handle = handle, mv_session_id = session_id, mv_injected_hits = hits\<rparr>"

text \<open>What the derived serializers write.\<close>

definition ser_typed_digest :: "bridge_digest \<Rightarrow> json_number json" where
  "ser_typed_digest d = JObject [(''algorithm'', JString (bd_algorithm d)), (''value'', JString (bd_value d)),
     (''public_recomputable'', JBool (bd_public_recomputable d))]"

definition ser_evidence_hit :: "evidence_hit \<Rightarrow> json_number json" where
  "ser_evidence_hit h = JObject [(''memory_id'', JString (eh_memory_id h)), (''score'', option_json (\<lambda>m. JNumber (JInt (sint m))) (eh_score h)),
     (''content_digest'', ser_typed_digest (eh_content_digest h))]"

definition ser_memory_evidence :: "memory_evidence \<Rightarrow> json_number json" where
  "ser_memory_evidence e = JObject [(''version'', JString (mv_version e)), (''agent_handle'', ser_typed_digest (mv_agent_handle e)),
     (''session_id'', option_json JString (mv_session_id e)), (''injected_hits'', list_json ser_evidence_hit (mv_injected_hits e))]"

definition bridge_canonical_bytes :: "bridge_env \<Rightarrow> json_number json \<Rightarrow> bytes" where
  "bridge_canonical_bytes env v = br_to_vec env (sort_json_value v)"

definition canonical_sha256_digest :: "bridge_env \<Rightarrow> json_number json \<Rightarrow> bridge_digest" where
  "canonical_sha256_digest env v = bridge_sha256_public env (bridge_canonical_bytes env v)"

definition memory_evidence_digest :: "bridge_env \<Rightarrow> memory_evidence \<Rightarrow> bridge_digest" where
  "memory_evidence_digest env e = canonical_sha256_digest env (ser_memory_evidence e)"

record memory_evidence_ref =
  mr_evidence_version :: string
  mr_digest :: bridge_digest
  mr_agent_handle :: bridge_digest
  mr_session_id :: "string option"
  mr_injected_count :: nat

definition evidence_to_ref :: "bridge_env \<Rightarrow> memory_evidence \<Rightarrow> memory_evidence_ref" where
  "evidence_to_ref env e =
     \<lparr>mr_evidence_version = mv_version e, mr_digest = memory_evidence_digest env e, mr_agent_handle = mv_agent_handle e,
      mr_session_id = mv_session_id e, mr_injected_count = length (mv_injected_hits e)\<rparr>"

record agent_session_mapping =
  am_nexus_agent_id :: string
  am_session_id :: "string option"
  am_aeon_agent_id :: string

definition agent_handle :: "bridge_env \<Rightarrow> bytes \<Rightarrow> agent_session_mapping \<Rightarrow> bridge_digest" where
  "agent_handle env key m = hmac_agent_id env key (am_aeon_agent_id m)"

definition mapping_memory_evidence :: "bridge_env \<Rightarrow> bytes \<Rightarrow> evidence_hit list \<Rightarrow> agent_session_mapping \<Rightarrow> memory_evidence" where
  "mapping_memory_evidence env key hits m = memory_evidence_new (agent_handle env key m) (am_session_id m) hits"

subsection \<open>The reference determines the evidence\<close>

lemma typed_digest_code: "json_code ser_typed_digest"
  by (rule record_code [where fl = "\<lambda>d. [(''algorithm'', JString (bd_algorithm d)), (''value'', JString (bd_value d)),
     (''public_recomputable'', JBool (bd_public_recomputable d))]"]) (simp_all add: ser_typed_digest_def)

interpretation typed_dig: json_code ser_typed_digest
  by (rule typed_digest_code)

lemma evidence_hit_code: "json_code ser_evidence_hit"
  by (rule record_code [where fl = "\<lambda>h. [(''memory_id'', JString (eh_memory_id h)), (''score'', option_json (\<lambda>m. JNumber (JInt (sint m))) (eh_score h)),
     (''content_digest'', ser_typed_digest (eh_content_digest h))]"]) (simp_all add: ser_evidence_hit_def recall_i64.option_iff)

interpretation evidence_hits: json_code "list_json ser_evidence_hit"
  by (rule json_code.list_code [OF evidence_hit_code])

interpretation memory_evidence: json_code ser_memory_evidence
  by (rule record_code [where fl = "\<lambda>e. [(''version'', JString (mv_version e)), (''agent_handle'', ser_typed_digest (mv_agent_handle e)),
     (''session_id'', option_json JString (mv_session_id e)), (''injected_hits'', list_json ser_evidence_hit (mv_injected_hits e))]"])
    (simp_all add: ser_memory_evidence_def str.option_iff)

text \<open>The handle of an agent verifies under its key and identifier.\<close>

lemma bridge_hex_digit: "d < 16 \<Longrightarrow> bridge_hex_value (hex_digit d) = Some (word_of_nat d)"
  by (auto simp: bridge_hex_value_def hex_digit_def)

lemma bridge_hex_pairs_to_hex: "bridge_hex_pairs (to_hex bs) = Some bs"
proof (induction bs)
  case (Cons b bs)
  have "unat b < 256" using unsigned_less [of b] by simp
  then have "unat b div 16 < 16" by (simp add: less_mult_imp_div_less)
  with Cons show ?case by (simp add: to_hex_def bridge_hex_digit byte_nibbles)
qed (simp add: to_hex_def)

lemma agent_handle_verifies:
  "verify_agent_id_hmac env key i (hmac_agent_id env key' j) \<longleftrightarrow> br_hmac env key' (str_bytes j) = br_hmac env key (str_bytes i)"
  by (simp add: verify_agent_id_hmac_def hmac_agent_id_def bridge_hmac_private_def bridge_decode_hex_def length_to_hex bridge_hex_pairs_to_hex)

subsection \<open>Scores in range\<close>

lemma round_even_near: "\<bar>x - of_int k\<bar> < 1 / 2 \<Longrightarrow> round_even x = k"
proof -
  assume "\<bar>x - of_int k\<bar> < 1 / 2"
  then have "\<bar>of_int (round_even x - k) :: rat\<bar> < 1" using round_even_error [of x] by (simp only: of_int_diff)
  then show "round_even x = k" by linarith
qed

text \<open>The double nearest to the bound passes the check, its product being rounded to the bound, and is stored as another number, without an error.\<close>

lemma score_at_the_bound: "memory_score_new (Fin (4722366482869645 / 512)) = Inr (word_of_int (2 ^ 63 - 1))"
proof -
  let ?v = "4722366482869645 / 512 * 1000000 :: rat"
  have p: "pow2 62 = 2 ^ 62" "pow2 63 = 2 ^ 63" "pow2 10 = 1024" by (simp_all add: pow2_def)
  have "ilog2 \<bar>?v\<bar> = 62" by (rule ilog2_unique) (simp_all add: p)
  then have "unit_exp 53 (- 1074) ?v = 10" by (simp add: unit_exp_def)
  moreover have "round_even (?v / 1024) = 2 ^ 53" by (rule round_even_near) simp
  ultimately have "rnd 53 (- 1074) ?v = 2 ^ 63" by (simp add: rnd_def Let_def p)
  moreover have "?v \<le> pow2 1000" using pow2_mono [of 63 1000] p(2) by simp
  ultimately have "f64_of ?v = Fin (2 ^ 63)" by (subst f64_of_small) simp_all
  then have "f64_mul (Fin (4722366482869645 / 512)) (Fin 1000000) = Fin (2 ^ 63)" by simp
  moreover have "fl_round (Fin (2 ^ 63)) = Fin (2 ^ 63)"
    by (simp add: floor_eq_iff)
  ultimately show ?thesis by (simp add: memory_score_new_def Let_def del: fl_round.simps fl_mul.simps)
qed

subsection \<open>Canonical bytes determine the value\<close>

text \<open>Values the canonical writer of version 2 accepts are those without a floating-point number; all evidence is of this kind.\<close>

definition float_free :: "json_number json \<Rightarrow> bool" where
  "float_free v \<longleftrightarrow> (case write_canonical v of Inr _ \<Rightarrow> True | Inl _ \<Rightarrow> False)"

definition text_determines :: "bridge_env \<Rightarrow> bool" where
  "text_determines env \<longleftrightarrow> (\<forall>v w. float_free v \<and> float_free w \<and> br_to_vec env (sort_json_value v) = br_to_vec env (sort_json_value w) \<longrightarrow>
     sort_json_value v = sort_json_value w)"

lemma float_free_iff: "float_free v \<longleftrightarrow> (\<exists>t. write_canonical v = Inr t)"
  by (auto simp: float_free_def split: sum.splits)

lemma float_free_scalar [simp]: "float_free JNull" "float_free (JBool b)" "float_free (JNumber (JInt i))" "float_free (JString s)"
  by (simp_all add: float_free_def)

lemma float_free_list [simp]: "float_free (JArray vs) \<longleftrightarrow> list_all float_free vs"
proof (induction vs)
  case (Cons v vs)
  then show ?case by (cases "write_canonical v") (auto simp: float_free_iff map_sum_eq_Inr)
qed (simp add: float_free_def)

lemma float_free_object: "(\<And>kv. kv \<in> set kvs \<Longrightarrow> float_free (snd kv)) \<Longrightarrow> float_free (JObject kvs)"
proof -
  assume "\<And>kv. kv \<in> set kvs \<Longrightarrow> float_free (snd kv)"
  then have "\<exists>ts. collect (map write_member (sort_key fst kvs)) = Inr ts"
    by (intro collect_total) (fastforce simp: float_free_iff write_member_def)
  then show ?thesis by (auto simp: float_free_iff write_object simp del: write_canonical.simps)
qed

lemma float_free_option [simp]: "(\<And>x. float_free (enc x)) \<Longrightarrow> float_free (option_json enc v)"
  by (cases v) (simp_all add: option_json_def)

lemma float_free_list_json [simp]: "(\<And>x. float_free (enc x)) \<Longrightarrow> float_free (list_json enc vs)"
  by (simp add: list_json_def list_all_iff)

lemma float_free_evidence: "float_free (ser_memory_evidence e)"
proof -
  have d: "float_free (ser_typed_digest d)" for d unfolding ser_typed_digest_def by (rule float_free_object) auto
  have "float_free (ser_evidence_hit h)" for h unfolding ser_evidence_hit_def by (rule float_free_object) (auto simp: d)
  then show ?thesis unfolding ser_memory_evidence_def by (intro float_free_object) (auto simp: d)
qed

lemma canonical_bytes_determine:
  assumes "text_determines env" and "float_free v" and "float_free w" and "bridge_canonical_bytes env v = bridge_canonical_bytes env w"
  shows "sort_json_value v = sort_json_value w"
  using assms by (simp add: text_determines_def bridge_canonical_bytes_def)

lemma evidence_determined:
  assumes "text_determines env" and "memory_evidence_digest env e = memory_evidence_digest env e'"
    and "br_sha256 env (bridge_canonical_bytes env (ser_memory_evidence e)) = br_sha256 env (bridge_canonical_bytes env (ser_memory_evidence e')) \<Longrightarrow>
      bridge_canonical_bytes env (ser_memory_evidence e) = bridge_canonical_bytes env (ser_memory_evidence e')"
  shows "e = e'"
proof -
  have "bridge_canonical_bytes env (ser_memory_evidence e) = bridge_canonical_bytes env (ser_memory_evidence e')"
    using assms(2) by (intro assms(3)) (simp add: memory_evidence_digest_def canonical_sha256_digest_def bridge_sha256_public_def to_hex_inj)
  from canonical_bytes_determine [OF assms(1) float_free_evidence float_free_evidence this]
  show ?thesis by (rule memory_evidence.canonical_inj)
qed

text \<open>An environment in which the hypothesis holds: the canonical writer itself.\<close>

definition writer_env :: "bridge_env \<Rightarrow> bridge_env" where
  "writer_env env = env\<lparr>br_to_vec := (\<lambda>v. case write_canonical v of Inr t \<Rightarrow> str_bytes t | Inl _ \<Rightarrow> [])\<rparr>"

lemma write_canonical_sort: "write_canonical (sort_json_value v) = write_canonical v"
proof (induction v)
  case (JArray vs)
  then have "map write_canonical (map sort_json_value vs) = map write_canonical vs" by simp
  then show ?case by (simp only: sort_json_value.simps write_canonical.simps)
next
  case (JObject kvs)
  have "write_member (map_prod id sort_json_value kv) = write_member kv" if "kv \<in> set kvs" for kv
    using JObject.IH [OF that, of "snd kv"] by (simp add: write_member_def snds.simps split_beta)
  then have "map write_member (sort_key fst (sort_key fst (map (map_prod id sort_json_value) kvs))) = map write_member (sort_key fst kvs)"
    by (simp add: sort_map_prod sort_key_id_if_sorted)
  then show ?case by (simp only: sort_json_value.simps write_object)
qed simp_all

lemma writer_env_text: "text_determines (writer_env env)"
  unfolding text_determines_def
proof (intro allI impI, elim conjE)
  fix v w assume "float_free v" "float_free w"
    and eq: "br_to_vec (writer_env env) (sort_json_value v) = br_to_vec (writer_env env) (sort_json_value w)"
  then obtain s t where st: "write_canonical v = Inr s" "write_canonical w = Inr t" by (auto simp: float_free_iff)
  with eq have "s = t" by (simp add: writer_env_def write_canonical_sort str_bytes_inj)
  with st show "sort_json_value v = sort_json_value w" by (intro write_canonical_inj) simp_all
qed

end
