(* ===== verification/Aeon_Timeline.thy ===== *)
theory Aeon_Timeline
  imports Url_Guard Snapshot_Digest
begin

text \<open>
  Forwarding execution events to the AEON-IQ timeline (\<open>src/src/aeon.rs\<close>, \<open>AeonTimelineSink\<close>): delivery with retries, the digest chain
  through delivered events, the offline spool with its append-if-absent rule, and its replay.

  The record \<open>timeline_env\<close> holds what the sink calls from outside: serde_json on events and spool records, SHA-256, name resolution and URLs. The
  answers of the server are an argument, indexed by the number of requests made so far (\<open>None\<close> is a request that failed), and so are the results
  of file operations. The state of a sink is what its mutex guards; one call runs to its end before the next one starts.
\<close>

subsection \<open>Events\<close>

datatype execution_event =
    CapabilityDeniedEvent string
  | SnapshotCreatedEvent uuid
  | ProofCapsuleEmittedEvent uuid

record timeline_event_body =
  tb_session_id :: "string option"
  tb_nexus_snapshot_id :: "string option"
  tb_capsule_digest :: "string option"
  tb_event_type :: string
  tb_prev_event_digest :: "string option"

record timeline_spool_record =
  sr_created_at :: time
  sr_agent_id :: string
  sr_event_id :: "string option"
  sr_event :: timeline_event_body

record timeline_env =
  te_to_vec :: "timeline_event_body \<Rightarrow> bytes option"
  te_sha256 :: "bytes \<Rightarrow> bytes"
  te_uuid_str :: "uuid \<Rightarrow> string"
  te_record_json :: "timeline_spool_record \<Rightarrow> string option"
  te_parse_record :: "string \<Rightarrow> timeline_spool_record option"
  te_url :: "string \<Rightarrow> string list \<Rightarrow> url option"
  te_resolve :: "string \<Rightarrow> u16 \<Rightarrow> ip_addr list option"

definition body_from_event :: "timeline_env \<Rightarrow> string option \<Rightarrow> execution_event \<Rightarrow> timeline_event_body" where
  "body_from_event env session_id event =
     (case event of
        SnapshotCreatedEvent snapshot_id \<Rightarrow>
          \<lparr>tb_session_id = session_id, tb_nexus_snapshot_id = Some (te_uuid_str env snapshot_id), tb_capsule_digest = None,
           tb_event_type = ''snapshot_created'', tb_prev_event_digest = None\<rparr>
      | CapabilityDeniedEvent _ \<Rightarrow>
          \<lparr>tb_session_id = session_id, tb_nexus_snapshot_id = None, tb_capsule_digest = None,
           tb_event_type = ''capability_denied'', tb_prev_event_digest = None\<rparr>
      | ProofCapsuleEmittedEvent capsule_id \<Rightarrow>
          \<lparr>tb_session_id = session_id, tb_nexus_snapshot_id = None, tb_capsule_digest = Some (te_uuid_str env capsule_id),
           tb_event_type = ''proof_capsule_emitted'', tb_prev_event_digest = None\<rparr>)"

definition timeline_event_body_digest :: "timeline_env \<Rightarrow> timeline_event_body \<Rightarrow> string + string" where
  "timeline_event_body_digest env body =
     (case te_to_vec env body of
        Some bs \<Rightarrow> Inr (to_hex (te_sha256 env bs))
      | None \<Rightarrow> Inl ''timeline event serialization failed: {error}'')"

fun verify_timeline_from :: "timeline_env \<Rightarrow> string option \<Rightarrow> timeline_event_body list \<Rightarrow> string + unit" where
  "verify_timeline_from env previous_digest [] = Inr ()"
| "verify_timeline_from env previous_digest (event # events) =
     (if tb_prev_event_digest event \<noteq> previous_digest
      then Inl ''timeline event {index} prev_event_digest mismatch: expected {:?}, got {:?}''
      else case timeline_event_body_digest env event of
        Inl e \<Rightarrow> Inl e
      | Inr d \<Rightarrow> verify_timeline_from env (Some d) events)"

definition verify_timeline_chain :: "timeline_env \<Rightarrow> timeline_event_body list \<Rightarrow> string + unit" where
  "verify_timeline_chain env events = verify_timeline_from env None events"

text \<open>The identity of an event, for the spool: \<open>unwrap_or("")\<close> on each optional part, joined by the unit separator.\<close>

definition or_empty :: "string option \<Rightarrow> string" where
  "or_empty s = (case s of Some v \<Rightarrow> v | None \<Rightarrow> [])"

definition timeline_event_id :: "timeline_env \<Rightarrow> string \<Rightarrow> timeline_event_body \<Rightarrow> string" where
  "timeline_event_id env agent_id body =
     to_hex (te_sha256 env (str_bytes (join_with [CHR 0x1F]
       [agent_id, or_empty (tb_session_id body), tb_event_type body, or_empty (tb_nexus_snapshot_id body), or_empty (tb_capsule_digest body)])))"

subsection \<open>The sink\<close>

datatype delivery_status = FireAndForget | Delivered | FailedOpen | RequiredButFailed

datatype delivery_mode = Advisory | Attested | Offline

definition delivery_mode_parse :: "string option \<Rightarrow> delivery_mode" where
  "delivery_mode_parse value =
     (let v = to_ascii_lowercase (trim (case value of Some v \<Rightarrow> v | None \<Rightarrow> ''advisory'')) in
      if v = ''attested'' \<or> v = ''required'' then Attested
      else if v = ''offline'' \<or> v = ''spool'' then Offline
      else Advisory)"

record replay_report =
  rr_delivered :: nat
  rr_failed :: nat
  rr_skipped :: nat

record timeline_sink =
  sk_base_url :: string
  sk_policy :: "egress_policy result"
  sk_management_key :: "string option"
  sk_mode :: delivery_mode
  sk_spool_path :: string

text \<open>What changes: the digest the mutex guards, the requests made so far, and (ghost state) the bodies that were acknowledged, in order.\<close>

record sink_state =
  ss_last_event_digest :: "string option"
  ss_requests :: nat
  ss_acknowledged :: "timeline_event_body list"

definition sink_state_new :: sink_state where
  "sink_state_new = \<lparr>ss_last_event_digest = None, ss_requests = 0, ss_acknowledged = []\<rparr>"

definition link_timeline_event :: "sink_state \<Rightarrow> timeline_event_body \<Rightarrow> timeline_event_body" where
  "link_timeline_event st body = body\<lparr>tb_prev_event_digest := ss_last_event_digest st\<rparr>"

definition record_timeline_event_digest :: "timeline_env \<Rightarrow> timeline_event_body \<Rightarrow> sink_state \<Rightarrow> sink_state" where
  "record_timeline_event_digest env body st =
     (case timeline_event_body_digest env body of
        Inl _ \<Rightarrow> st
      | Inr digest \<Rightarrow> st\<lparr>ss_last_event_digest := Some digest\<rparr>)"

definition is_success :: "u16 \<Rightarrow> bool" where
  "is_success status = (200 \<le> status \<and> status < 300)"

definition TIMELINE_MAX_ATTEMPTS :: nat where
  "TIMELINE_MAX_ATTEMPTS = 3"

text \<open>The pause after an attempt, in milliseconds.\<close>

definition timeline_retry_delay :: "nat \<Rightarrow> nat" where
  "timeline_retry_delay attempt = 25 * 2 ^ min attempt 5"

text \<open>A request is made only to a URL the egress policy admits.\<close>

definition timeline_post_json :: "timeline_env \<Rightarrow> (nat \<Rightarrow> u16 option) \<Rightarrow> timeline_sink \<Rightarrow> url \<Rightarrow> sink_state \<Rightarrow> u16 option \<times> sink_state" where
  "timeline_post_json env server sink u st =
     (case sk_policy sink of
        Inl _ \<Rightarrow> (None, st)
      | Inr policy \<Rightarrow>
          (case egress_check_url (te_resolve env) policy u of
             Inl _ \<Rightarrow> (None, st)
           | Inr _ \<Rightarrow> (server (ss_requests st), st\<lparr>ss_requests := Suc (ss_requests st)\<rparr>)))"

function timeline_attempts :: "timeline_env \<Rightarrow> (nat \<Rightarrow> u16 option) \<Rightarrow> timeline_sink \<Rightarrow> url \<Rightarrow> nat \<Rightarrow> sink_state \<Rightarrow> bool \<times> sink_state" where
  "timeline_attempts env server sink u attempt st =
     (if TIMELINE_MAX_ATTEMPTS \<le> attempt then (False, st)
      else case timeline_post_json env server sink u st of
        (Some status, st') \<Rightarrow>
          (if is_success status then (True, st')
           else if 500 \<le> status \<and> attempt + 1 < TIMELINE_MAX_ATTEMPTS then timeline_attempts env server sink u (attempt + 1) st'
           else (False, st'))
      | (None, st') \<Rightarrow>
          (if attempt + 1 < TIMELINE_MAX_ATTEMPTS then timeline_attempts env server sink u (attempt + 1) st'
           else (False, st')))"
  by pat_completeness auto
termination by (relation "measure (\<lambda>(_, _, _, _, attempt, _). TIMELINE_MAX_ATTEMPTS - attempt)") auto

declare timeline_attempts.simps [simp del]

definition post_event_with_retry ::
  "timeline_env \<Rightarrow> (nat \<Rightarrow> u16 option) \<Rightarrow> timeline_sink \<Rightarrow> string \<Rightarrow> sink_state \<Rightarrow> bool \<times> sink_state" where
  "post_event_with_retry env server sink agent_id st =
     (case sk_management_key sink of None \<Rightarrow> (False, st) | Some _ \<Rightarrow>
      (case te_url env (sk_base_url sink) [''api'', ''v1'', ''agents'', agent_id, ''timeline''] of None \<Rightarrow> (False, st) | Some u \<Rightarrow>
      timeline_attempts env server sink u 0 st))"

text \<open>After a post that was acknowledged: the digest is recorded, under the lock, which was not held since the event was linked.\<close>

definition acknowledge :: "timeline_env \<Rightarrow> timeline_event_body \<Rightarrow> sink_state \<Rightarrow> sink_state" where
  "acknowledge env body st = (record_timeline_event_digest env body st)\<lparr>ss_acknowledged := ss_acknowledged st @ [body]\<rparr>"

text \<open>One event of \<open>deliver\<close> or of a replay, when no other call on the sink runs meanwhile: link, post, and record on success.\<close>

definition deliver_one ::
  "timeline_env \<Rightarrow> (nat \<Rightarrow> u16 option) \<Rightarrow> timeline_sink \<Rightarrow> string \<Rightarrow> timeline_event_body \<Rightarrow> sink_state \<Rightarrow> bool \<times> sink_state" where
  "deliver_one env server sink agent_id body0 st =
     (let body = link_timeline_event st body0 in
      case post_event_with_retry env server sink agent_id st of
        (True, st') \<Rightarrow> (True, acknowledge env body st')
      | (False, st') \<Rightarrow> (False, st'))"

fun deliver_events ::
  "timeline_env \<Rightarrow> (nat \<Rightarrow> u16 option) \<Rightarrow> timeline_sink \<Rightarrow> string \<Rightarrow> string option \<Rightarrow> execution_event list \<Rightarrow> sink_state \<Rightarrow> bool \<times> sink_state" where
  "deliver_events env server sink agent_id session_id [] st = (True, st)"
| "deliver_events env server sink agent_id session_id (event # events) st =
     (case deliver_one env server sink agent_id (body_from_event env session_id event) st of
        (ok, st') \<Rightarrow> map_prod (\<lambda>rest. ok \<and> rest) id (deliver_events env server sink agent_id session_id events st'))"

subsection \<open>The spool\<close>

text \<open>\<open>str::lines\<close>: split at newlines, a carriage return before a newline dropped with it; a last piece without a newline is kept as it is, unless
  it is empty.\<close>

definition strip_cr :: "string \<Rightarrow> string" where
  "strip_cr l = (if l \<noteq> [] \<and> last l = CHR 0x0D then butlast l else l)"

definition str_lines :: "string \<Rightarrow> string list" where
  "str_lines s = (let ps = split_char CHR 0x0A s in map strip_cr (butlast ps) @ (if last ps = [] then [] else [last ps]))"

definition spool_lines :: "string \<Rightarrow> string list" where
  "spool_lines content = filter (\<lambda>l. trim l \<noteq> []) (str_lines content)"

type_synonym spool_file = "string option"

definition line_event_id :: "timeline_env \<Rightarrow> string \<Rightarrow> string option" where
  "line_event_id env line = Option.bind (te_parse_record env line) sr_event_id"

definition read_spooled_event_ids :: "timeline_env \<Rightarrow> bool \<Rightarrow> spool_file \<Rightarrow> string list" where
  "read_spooled_event_ids env read_ok f =
     (case f of
        Some content \<Rightarrow> (if read_ok then List.map_filter (line_event_id env) (spool_lines content) else [])
      | None \<Rightarrow> [])"

definition spool_record_of :: "timeline_env \<Rightarrow> time \<Rightarrow> string \<Rightarrow> string option \<Rightarrow> execution_event \<Rightarrow> timeline_spool_record" where
  "spool_record_of env now agent_id session_id event =
     (let body = body_from_event env session_id event in
      \<lparr>sr_created_at = now, sr_agent_id = agent_id, sr_event_id = Some (timeline_event_id env agent_id body), sr_event = body\<rparr>)"

text \<open>A write succeeds, or stops after some bytes; \<open>writes\<close> says which for each record in turn.\<close>

fun spool_append :: "timeline_env \<Rightarrow> nat option list \<Rightarrow> string list \<Rightarrow> timeline_spool_record list \<Rightarrow> string \<Rightarrow> bool \<times> string" where
  "spool_append env writes seen [] content = (True, content)"
| "spool_append env writes seen (record # records) content =
     (if (case sr_event_id record of Some i \<Rightarrow> i \<in> set seen | None \<Rightarrow> False) then spool_append env writes seen records content
      else case te_record_json env record of
        None \<Rightarrow> (False, content)
      | Some js \<Rightarrow>
          (case (if writes = [] then None else hd writes) of
             Some k \<Rightarrow> (False, content @ take k (js @ [CHR 0x0A]))
           | None \<Rightarrow> spool_append env (tl writes) (case sr_event_id record of Some i \<Rightarrow> i # seen | None \<Rightarrow> seen) records (content @ js @ [CHR 0x0A])))"

text \<open>Results of the file operations of one call.\<close>

record spool_io =
  io_read :: bool
  io_open :: bool
  io_writes :: "nat option list"
  io_rewrite :: "spool_file option"

definition spool_events ::
  "timeline_env \<Rightarrow> spool_io \<Rightarrow> time \<Rightarrow> string \<Rightarrow> string option \<Rightarrow> execution_event list \<Rightarrow> spool_file \<Rightarrow> bool \<times> spool_file" where
  "spool_events env io now agent_id session_id events f =
     (if \<not> io_open io then (False, f)
      else map_prod id Some (spool_append env (io_writes io) (read_spooled_event_ids env (io_read io) f)
        (map (spool_record_of env now agent_id session_id) events) (case f of Some content \<Rightarrow> content | None \<Rightarrow> [])))"

definition timeline_deliver ::
  "timeline_env \<Rightarrow> (nat \<Rightarrow> u16 option) \<Rightarrow> spool_io \<Rightarrow> time \<Rightarrow> timeline_sink \<Rightarrow> string \<Rightarrow> string option \<Rightarrow> execution_event list \<Rightarrow>
   sink_state \<Rightarrow> spool_file \<Rightarrow> delivery_status \<times> sink_state \<times> spool_file" where
  "timeline_deliver env server io now sink agent_id session_id events st f =
     (if events = [] then (Delivered, st, f)
      else if sk_mode sink = Offline
      then (case spool_events env io now agent_id session_id events f of (ok, f') \<Rightarrow> (if ok then FireAndForget else FailedOpen, st, f'))
      else case deliver_events env server sink agent_id session_id events st of (delivered_all, st') \<Rightarrow>
        (if delivered_all then Delivered
         else case sk_mode sink of Attested \<Rightarrow> RequiredButFailed | _ \<Rightarrow> FailedOpen, st', f))"

subsection \<open>Replay\<close>

definition count_delivered :: "replay_report \<Rightarrow> replay_report" where
  "count_delivered r = r\<lparr>rr_delivered := Suc (rr_delivered r)\<rparr>"

definition count_failed :: "replay_report \<Rightarrow> replay_report" where
  "count_failed r = r\<lparr>rr_failed := Suc (rr_failed r)\<rparr>"

definition count_skipped :: "replay_report \<Rightarrow> replay_report" where
  "count_skipped r = r\<lparr>rr_skipped := Suc (rr_skipped r)\<rparr>"

definition replay_report_default :: replay_report where
  "replay_report_default = \<lparr>rr_delivered = 0, rr_failed = 0, rr_skipped = 0\<rparr>"

definition not_for_replay :: "string \<Rightarrow> time option \<Rightarrow> timeline_spool_record \<Rightarrow> bool" where
  "not_for_replay agent_id since record =
     (sr_agent_id record \<noteq> agent_id \<or> (case since of Some s \<Rightarrow> sr_created_at record < s | None \<Rightarrow> False))"

text \<open>The loop over the lines: the report, the retained lines and the sink afterwards.\<close>

fun replay_lines ::
  "timeline_env \<Rightarrow> (nat \<Rightarrow> u16 option) \<Rightarrow> timeline_sink \<Rightarrow> string \<Rightarrow> time option \<Rightarrow> string list \<Rightarrow> string list \<Rightarrow> replay_report \<times> string list \<times> sink_state \<Rightarrow>
   replay_report \<times> string list \<times> sink_state" where
  "replay_lines env server sink agent_id since seen [] acc = acc"
| "replay_lines env server sink agent_id since seen (line # lines) (report, retained, st) =
     (case te_parse_record env line of
        None \<Rightarrow> replay_lines env server sink agent_id since seen lines (count_failed report, retained @ [line], st)
      | Some record \<Rightarrow>
          if not_for_replay agent_id since record
          then replay_lines env server sink agent_id since seen lines (count_skipped report, retained @ [line], st)
          else if (case sr_event_id record of Some i \<Rightarrow> i \<in> set seen | None \<Rightarrow> False)
          then replay_lines env server sink agent_id since seen lines (count_skipped report, retained, st)
          else
            (let seen' = (case sr_event_id record of Some i \<Rightarrow> i # seen | None \<Rightarrow> seen) in
             case deliver_one env server sink (sr_agent_id record) (sr_event record) st of
               (True, st') \<Rightarrow> replay_lines env server sink agent_id since seen' lines (count_delivered report, retained, st')
             | (False, st') \<Rightarrow> replay_lines env server sink agent_id since seen' lines (count_failed report, retained @ [line], st')))"

definition rewrite_spool :: "spool_file option \<Rightarrow> string list \<Rightarrow> spool_file" where
  "rewrite_spool fault retained =
     (case fault of
        Some left \<Rightarrow> left
      | None \<Rightarrow> if retained = [] then None else Some (join_with [CHR 0x0A] retained @ [CHR 0x0A]))"

definition replay_spooled_events ::
  "timeline_env \<Rightarrow> (nat \<Rightarrow> u16 option) \<Rightarrow> spool_io \<Rightarrow> timeline_sink \<Rightarrow> string \<Rightarrow> time option \<Rightarrow> sink_state \<Rightarrow> spool_file \<Rightarrow>
   replay_report \<times> sink_state \<times> spool_file" where
  "replay_spooled_events env server io sink agent_id since st f =
     (case f of
        None \<Rightarrow> (replay_report_default, st, f)
      | Some content \<Rightarrow>
          (if \<not> io_read io then (count_failed replay_report_default, st, f)
          else case replay_lines env server sink agent_id since [] (spool_lines content) (replay_report_default, [], st) of
            (report, retained, st') \<Rightarrow> (report, st', rewrite_spool (io_rewrite io) retained)))"

subsection \<open>Requests\<close>

lemma post_json_requests: "ss_requests (snd (timeline_post_json env server sink u st)) \<le> Suc (ss_requests st)"
  by (simp add: timeline_post_json_def split: sum.split)

lemma post_json_frame [simp]:
  "ss_last_event_digest (snd (timeline_post_json env server sink u st)) = ss_last_event_digest st"
  "ss_acknowledged (snd (timeline_post_json env server sink u st)) = ss_acknowledged st"
  by (simp_all add: timeline_post_json_def split: sum.split)

lemma attempts_frame:
  "ss_last_event_digest (snd (timeline_attempts env server sink u a st)) = ss_last_event_digest st \<and>
   ss_acknowledged (snd (timeline_attempts env server sink u a st)) = ss_acknowledged st"
proof (induction env server sink u a st rule: timeline_attempts.induct)
  case (1 env server sink u a st)
  obtain r st' where p: "timeline_post_json env server sink u st = (r, st')" by fastforce
  have f: "ss_last_event_digest st' = ss_last_event_digest st" "ss_acknowledged st' = ss_acknowledged st"
    using post_json_frame [of env server sink u st] p by simp_all
  show ?case using 1 p f by (subst (1 2) timeline_attempts.simps) (auto split: option.split)
qed

lemma attempts_requests:
  "a \<le> TIMELINE_MAX_ATTEMPTS \<Longrightarrow> ss_requests (snd (timeline_attempts env server sink u a st)) \<le> ss_requests st + (TIMELINE_MAX_ATTEMPTS - a)"
proof (induction env server sink u a st rule: timeline_attempts.induct)
  case (1 env server sink u a st)
  obtain r st' where p: "timeline_post_json env server sink u st = (r, st')" by fastforce
  have q: "ss_requests st' \<le> Suc (ss_requests st)" using post_json_requests [of env server sink u st] p by simp
  show ?case using 1 p q by (subst timeline_attempts.simps) (fastforce split: option.split)
qed

lemma post_frame:
  assumes "post_event_with_retry env server sink agent_id st = (ok, st')"
  shows "ss_last_event_digest st' = ss_last_event_digest st \<and> ss_acknowledged st' = ss_acknowledged st \<and>
     ss_requests st' \<le> ss_requests st + 3"
proof -
  have "ss_requests (snd (timeline_attempts env server sink u 0 st)) \<le> ss_requests st + 3" for u
    using attempts_requests [of 0 env server sink u st] by (simp add: TIMELINE_MAX_ATTEMPTS_def)
  moreover have "st' = st \<or> (\<exists>u. st' = snd (timeline_attempts env server sink u 0 st))"
    using assms by (simp add: post_event_with_retry_def split: option.split_asm) (metis snd_conv)
  ultimately show ?thesis using attempts_frame by auto
qed

subsection \<open>The chain\<close>

text \<open>The digest a chain ends in.\<close>

fun chain_end :: "timeline_env \<Rightarrow> string option \<Rightarrow> timeline_event_body list \<Rightarrow> string option" where
  "chain_end env d [] = d"
| "chain_end env d (e # es) = chain_end env (case timeline_event_body_digest env e of Inr x \<Rightarrow> Some x | Inl _ \<Rightarrow> None) es"

lemma chain_end_append: "chain_end env d (es @ fs) = chain_end env (chain_end env d es) fs"
  by (induction es arbitrary: d) simp_all

lemma verify_timeline_append:
  "verify_timeline_from env d (es @ fs) = Inr () \<longleftrightarrow>
     verify_timeline_from env d es = Inr () \<and> verify_timeline_from env (chain_end env d es) fs = Inr ()"
  by (induction es arbitrary: d) (auto split: sum.split)

text \<open>The invariant of a sink: the acknowledged events are a chain that ends in the digest it holds.\<close>

definition chain_inv :: "timeline_env \<Rightarrow> sink_state \<Rightarrow> bool" where
  "chain_inv env st \<longleftrightarrow> verify_timeline_chain env (ss_acknowledged st) = Inr () \<and>
     chain_end env None (ss_acknowledged st) = ss_last_event_digest st"

lemma deliver_one_inv:
  assumes total: "\<And>b. te_to_vec env b \<noteq> None" and inv: "chain_inv env st" and "deliver_one env server sink agent_id body st = (ok, st')"
  shows "chain_inv env st' \<and> ss_requests st' \<le> ss_requests st + 3 \<and> ss_acknowledged st' = ss_acknowledged st @ (if ok then [link_timeline_event st body] else [])"
proof -
  obtain r s where p: "post_event_with_retry env server sink agent_id st = (r, s)" by fastforce
  note f = post_frame [OF p]
  let ?b = "link_timeline_event st body"
  obtain d where d: "timeline_event_body_digest env ?b = Inr d"
    using total [of ?b] by (auto simp: timeline_event_body_digest_def)
  have prev: "tb_prev_event_digest ?b = ss_last_event_digest st" by (simp add: link_timeline_event_def)
  show ?thesis
  proof (cases r)
    case True
    then have "ok" "st' = s\<lparr>ss_last_event_digest := Some d, ss_acknowledged := ss_acknowledged st @ [?b]\<rparr>"
      using assms(3) p f d by (auto simp: deliver_one_def Let_def acknowledge_def record_timeline_event_digest_def)
    then show ?thesis using inv f d prev
      by (simp add: chain_inv_def verify_timeline_chain_def verify_timeline_append chain_end_append)
  next
    case False
    then have "\<not> ok" "st' = s" using assms(3) p by (auto simp: deliver_one_def Let_def)
    then show ?thesis using inv f by (simp add: chain_inv_def)
  qed
qed

lemma deliver_events_inv:
  assumes "\<And>b. te_to_vec env b \<noteq> None" and "chain_inv env st"
  shows "chain_inv env (snd (deliver_events env server sink agent_id session_id events st)) \<and>
     ss_requests (snd (deliver_events env server sink agent_id session_id events st)) \<le> ss_requests st + 3 * length events"
  using assms(2)
proof (induction events arbitrary: st)
  case (Cons e es)
  obtain ok st1 where s: "deliver_one env server sink agent_id (body_from_event env session_id e) st = (ok, st1)" by fastforce
  note i = deliver_one_inv [OF assms(1) Cons.prems s]
  from Cons.IH [of st1] i s show ?case by (auto simp: map_prod_def split: prod.split)
qed simp

lemma replay_lines_inv:
  assumes "\<And>b. te_to_vec env b \<noteq> None" and "chain_inv env st"
  shows "chain_inv env (snd (snd (replay_lines env server sink agent_id since seen lines (report, retained, st))))"
  using assms(2)
proof (induction lines arbitrary: seen report retained st)
  case (Cons l ls)
  show ?case
  proof (cases "te_parse_record env l")
    case (Some r)
    obtain ok st1 where s: "deliver_one env server sink (sr_agent_id r) (sr_event r) st = (ok, st1)" by fastforce
    have "chain_inv env st1" using deliver_one_inv [OF assms(1) Cons.prems s] by blast
    then show ?thesis using Some s Cons by (simp add: Let_def split: bool.split)
  qed (simp add: Cons)
qed simp

text \<open>The calls on one sink, one after another, whatever the server, the spool and the arguments are.\<close>

inductive sink_step :: "timeline_env \<Rightarrow> timeline_sink \<Rightarrow> sink_state \<Rightarrow> sink_state \<Rightarrow> bool" for env :: timeline_env and sink :: timeline_sink where
  step_deliver: "timeline_deliver env server io now sink agent_id session_id events st f = (status, st', f') \<Longrightarrow> sink_step env sink st st'"
| step_replay: "replay_spooled_events env server io sink agent_id since st f = (report, st', f') \<Longrightarrow> sink_step env sink st st'"

lemma sink_step_inv:
  assumes "\<And>b. te_to_vec env b \<noteq> None" and "chain_inv env st" and "sink_step env sink st st'"
  shows "chain_inv env st'"
  using assms(3)
proof cases
  case (step_deliver server io now agent_id session_id events f status f')
  then show ?thesis using assms(2) deliver_events_inv [OF assms(1,2), of server sink agent_id session_id events]
    by (auto simp: timeline_deliver_def split: if_split_asm prod.split_asm)
next
  case (step_replay server io agent_id since f report f')
  show ?thesis
  proof (cases "\<exists>content. f = Some content \<and> io_read io")
    case True
    then obtain content where "f = Some content" "io_read io" by blast
    then have "st' = snd (snd (replay_lines env server sink agent_id since [] (spool_lines content) (replay_report_default, [], st)))"
      using step_replay by (auto simp: replay_spooled_events_def split: prod.split_asm)
    then show ?thesis using replay_lines_inv [OF assms(1,2)] by simp
  next
    case False
    then have "st' = st" using step_replay by (auto simp: replay_spooled_events_def split: option.split_asm)
    then show ?thesis using assms(2) by simp
  qed
qed

text \<open>A chain cannot be rewritten without changing the digest it ends in.\<close>

lemma chain_end_snoc: "te_to_vec env x \<noteq> None \<Longrightarrow> \<exists>c. timeline_event_body_digest env x = Inr c \<and> chain_end env d (es @ [x]) = Some c"
  by (auto simp: chain_end_append timeline_event_body_digest_def)

lemma chain_end_inj:
  assumes inj: "inj_on (timeline_event_body_digest env) (set es \<union> set fs)" and total: "\<And>b. te_to_vec env b \<noteq> None"
    and "verify_timeline_from env None es = Inr ()" and "verify_timeline_from env None fs = Inr ()"
    and "chain_end env None es = chain_end env None fs"
  shows "es = fs"
  using assms(1,3-)
proof (induction es arbitrary: fs rule: rev_induct)
  case Nil
  then show ?case using chain_end_snoc [OF total, where d = None] by (cases fs rule: rev_cases) (metis, metis chain_end.simps(1) option.distinct(1))
next
  case (snoc x es)
  obtain c where c: "timeline_event_body_digest env x = Inr c" "chain_end env None (es @ [x]) = Some c"
    using chain_end_snoc [OF total] by blast
  then obtain gs y where fs: "fs = gs @ [y]" using snoc.prems(4) by (cases fs rule: rev_cases) auto
  obtain c' where c': "timeline_event_body_digest env y = Inr c'" "chain_end env None (gs @ [y]) = Some c'"
    using chain_end_snoc [OF total] by blast
  have "c = c'" using c(2) c'(2) fs snoc.prems(4) by simp
  then have xy: "x = y" using c(1) c'(1) fs by (intro inj_onD [OF snoc.prems(1)]) simp_all
  have "tb_prev_event_digest x = chain_end env None es" "tb_prev_event_digest y = chain_end env None gs"
    using snoc.prems(2,3) fs by (auto simp: verify_timeline_append split: if_split_asm)
  with xy have "chain_end env None es = chain_end env None gs" by simp
  moreover have "inj_on (timeline_event_body_digest env) (set es \<union> set gs)"
    by (rule inj_on_subset [OF snoc.prems(1)]) (auto simp: fs)
  ultimately have "es = gs" using snoc.IH [of gs] snoc.prems(2,3) fs by (simp add: verify_timeline_append)
  with xy fs show ?case by simp
qed

subsection \<open>Replay accounts for every line\<close>

text \<open>The identifier a line is known by in this replay, if it is one of its records.\<close>

definition replayed_id :: "timeline_env \<Rightarrow> string \<Rightarrow> time option \<Rightarrow> string \<Rightarrow> string option" where
  "replayed_id env agent_id since line =
     (case te_parse_record env line of
        Some r \<Rightarrow> if not_for_replay agent_id since r then None else sr_event_id r
      | None \<Rightarrow> None)"

definition report_total :: "replay_report \<Rightarrow> nat" where
  "report_total r = rr_delivered r + rr_failed r + rr_skipped r"

lemma report_total_count [simp]:
  "report_total (count_delivered r) = Suc (report_total r)" "report_total (count_failed r) = Suc (report_total r)"
  "report_total (count_skipped r) = Suc (report_total r)" "rr_delivered (count_delivered r) = Suc (rr_delivered r)"
  "rr_delivered (count_failed r) = rr_delivered r" "rr_delivered (count_skipped r) = rr_delivered r"
  by (simp_all add: report_total_def count_delivered_def count_failed_def count_skipped_def)

lemma replay_lines_total:
  "replay_lines env server sink agent_id since seen lines (report, retained, st) = (report', retained', st') \<Longrightarrow>
     report_total report' = report_total report + length lines"
proof (induction lines arbitrary: seen report retained st)
  case (Cons l ls)
  show ?case using Cons.prems
    by (auto simp: Let_def dest!: Cons.IH split: option.split_asm if_split_asm prod.split_asm bool.split_asm)
qed simp

text \<open>Lines are kept in order, and one that is not kept was acknowledged now or has the identifier of an earlier one.\<close>

lemma replay_lines_retained:
  "replay_lines env server sink agent_id since seen lines (report, retained, st) = (report', retained', st') \<Longrightarrow>
     (\<exists>kept. retained' = retained @ kept \<and> subseq kept lines)"
proof (induction lines arbitrary: seen report retained st)
  case (Cons l ls)
  have step: "\<exists>kept. retained' = retained @ kept \<and> subseq kept (l # ls)"
    if "\<exists>kept. retained' = r @ kept \<and> subseq kept ls" "r = retained \<or> r = retained @ [l]" for r
    using that by (auto intro: subseq_Cons')
  show ?case using Cons.prems
    by (auto simp: Let_def dest!: Cons.IH intro!: step split: option.split_asm if_split_asm prod.split_asm bool.split_asm)
qed simp

definition accounted :: "timeline_env \<Rightarrow> string \<Rightarrow> time option \<Rightarrow> string list \<Rightarrow> string list \<Rightarrow> string list \<Rightarrow> timeline_event_body list \<Rightarrow> string \<Rightarrow> bool" where
  "accounted env agent_id since seen earlier retained acked line \<longleftrightarrow>
     line \<in> set retained \<or>
     (\<exists>r b d. te_parse_record env line = Some r \<and> b \<in> set acked \<and> b = (sr_event r)\<lparr>tb_prev_event_digest := d\<rparr>) \<or>
     (\<exists>i. replayed_id env agent_id since line = Some i \<and> (i \<in> set seen \<or> (\<exists>l \<in> set earlier. replayed_id env agent_id since l = Some i)))"

lemma deliver_one_acked:
  assumes "deliver_one env server sink agent_id body st = (ok, st')"
  shows "ss_acknowledged st' = ss_acknowledged st @ (if ok then [body\<lparr>tb_prev_event_digest := ss_last_event_digest st\<rparr>] else [])"
proof -
  obtain r s where p: "post_event_with_retry env server sink agent_id st = (r, s)" by fastforce
  then show ?thesis using assms post_frame [OF p] by (cases r) (auto simp: deliver_one_def acknowledge_def Let_def link_timeline_event_def)
qed

lemma replay_lines_acked_mono:
  "replay_lines env server sink agent_id since seen lines (report, retained, st) = (report', retained', st') \<Longrightarrow>
     \<exists>acked. ss_acknowledged st' = ss_acknowledged st @ acked \<and> rr_delivered report' = rr_delivered report + length acked"
proof (induction lines arbitrary: seen report retained st)
  case (Cons l ls)
  show ?case
  proof (cases "te_parse_record env l")
    case (Some r)
    obtain ok s where d: "deliver_one env server sink (sr_agent_id r) (sr_event r) st = (ok, s)" by fastforce
    show ?thesis using Cons.prems Some d deliver_one_acked [OF d]
      by (cases ok) (fastforce simp: Let_def dest!: Cons.IH split: if_split_asm)+
  qed (use Cons.prems in \<open>auto dest!: Cons.IH\<close>)
qed simp

lemma accounted_retained: "l \<in> set retained \<Longrightarrow> accounted env agent_id since seen us retained acked l"
  by (simp add: accounted_def)

lemma accounted_mono:
  assumes "accounted env agent_id since seen' us retained acked l"
    and "set seen' \<subseteq> set seen \<union> {i. replayed_id env agent_id since u = Some i}"
  shows "accounted env agent_id since seen (u # us) retained (pre @ acked) l"
  using assms unfolding accounted_def by fastforce

lemma replay_lines_accounted:
  assumes "replay_lines env server sink agent_id since seen (us @ l # vs) (report, retained, st) = (report', retained', st')"
  shows "\<exists>acked. ss_acknowledged st' = ss_acknowledged st @ acked \<and> accounted env agent_id since seen us retained' acked l"
  using assms
proof (induction us arbitrary: seen report retained st)
  case Nil
  have fin: "\<exists>acked. ss_acknowledged st' = ss_acknowledged s @ acked \<and> (\<exists>kept. retained' = r @ kept)"
    if "replay_lines env server sink agent_id since sn vs (rep, r, s) = (report', retained', st')" for sn rep r s
    using replay_lines_acked_mono [OF that] replay_lines_retained [OF that] by blast
  show ?case
  proof (cases "te_parse_record env l")
    case None
    with Nil fin show ?thesis by (fastforce intro: accounted_retained)
  next
    case (Some r)
    obtain ok s where d: "deliver_one env server sink (sr_agent_id r) (sr_event r) st = (ok, s)" by fastforce
    note ack = deliver_one_acked [OF d]
    consider (skip) "not_for_replay agent_id since r"
      | (dup) i where "\<not> not_for_replay agent_id since r" "sr_event_id r = Some i" "i \<in> set seen"
      | (post) "\<not> not_for_replay agent_id since r" "\<not> (case sr_event_id r of Some i \<Rightarrow> i \<in> set seen | None \<Rightarrow> False)"
      by (cases "sr_event_id r"; cases "not_for_replay agent_id since r") auto
    then show ?thesis
    proof cases
      case skip
      with Nil Some fin show ?thesis by (fastforce intro: accounted_retained)
    next
      case dup
      then have "replayed_id env agent_id since l = Some i" using Some by (simp add: replayed_id_def)
      with dup Nil Some show ?thesis using fin by (fastforce simp: accounted_def)
    next
      case post
      show ?thesis
      proof (cases ok)
        case True
        then obtain acked where "ss_acknowledged st' = ss_acknowledged s @ acked" using Nil Some post d fin by (fastforce simp: Let_def)
        with True ack Some show ?thesis unfolding accounted_def by fastforce
      next
        case False
        then show ?thesis using Nil Some post d ack fin by (fastforce simp: Let_def intro: accounted_retained)
      qed
    qed
  qed
next
  case (Cons u us)
  have next_line: "\<exists>acked. ss_acknowledged st' = ss_acknowledged st @ acked \<and> accounted env agent_id since seen (u # us) retained' acked l"
    if "replay_lines env server sink agent_id since sn (us @ l # vs) (rep, r, s) = (report', retained', st')"
      "ss_acknowledged s = ss_acknowledged st @ pre" "set sn \<subseteq> set seen \<union> {i. replayed_id env agent_id since u = Some i}" for sn rep r s pre
    using Cons.IH [OF that(1)] that(2) accounted_mono [OF _ that(3)] by fastforce
  show ?case
  proof (cases "te_parse_record env u")
    case None
    then show ?thesis using Cons.prems next_line [of seen _ _ st "[]"] by simp
  next
    case (Some r)
    obtain ok s where d: "deliver_one env server sink (sr_agent_id r) (sr_event r) st = (ok, s)" by fastforce
    show ?thesis
    proof (cases "not_for_replay agent_id since r \<or> (case sr_event_id r of Some i \<Rightarrow> i \<in> set seen | None \<Rightarrow> False)")
      case True
      then show ?thesis using Cons.prems Some next_line [of seen _ _ st "[]"] by (auto split: if_split_asm)
    next
      case False
      then have "set (case sr_event_id r of Some i \<Rightarrow> i # seen | None \<Rightarrow> seen) \<subseteq> set seen \<union> {i. replayed_id env agent_id since u = Some i}"
        using Some by (auto simp: replayed_id_def split: option.split)
      from next_line [OF _ deliver_one_acked [OF d] this] show ?thesis
        using Cons.prems Some False d by (cases ok) (auto simp: Let_def)
    qed
  qed
qed

subsection \<open>Denials\<close>

text \<open>Two denials of one session are one event to the spool, whatever was denied: only the first is written.\<close>

lemma second_denial_not_spooled:
  "spool_events env io now agent_id session_id (CapabilityDeniedEvent a # CapabilityDeniedEvent b # events) f =
   spool_events env io now agent_id session_id (CapabilityDeniedEvent a # events) f"
  by (simp add: spool_events_def spool_record_of_def body_from_event_def Let_def split: option.split)

subsection \<open>Properties\<close>

interpretation timeline: inductive_invariant "\<lambda>st. st = sink_state_new" "sink_step env sink"
  "\<lambda>st. (\<forall>b. te_to_vec env b \<noteq> None) \<longrightarrow> chain_inv env st" for env sink
proof
  show "(\<forall>b. te_to_vec env b \<noteq> None) \<longrightarrow> chain_inv env s" if "s = sink_state_new" for s
    using that by (simp add: chain_inv_def sink_state_new_def verify_timeline_chain_def)
qed (use sink_step_inv in blast)

lemma chain_restarts:
  assumes "\<And>b. te_to_vec env b \<noteq> None" and "verify_timeline_chain env es = Inr ()" and "verify_timeline_chain env fs = Inr ()"
    and "es \<noteq> []" and "fs \<noteq> []"
  shows "verify_timeline_chain env (es @ fs) \<noteq> Inr ()"
proof -
  obtain es' e where "es = es' @ [e]" using assms(4) by (cases es rule: rev_cases) auto
  then obtain c where c: "chain_end env None es = Some c" using chain_end_snoc [OF assms(1), where es = es' and x = e and d = None] by auto
  obtain f fs' where f: "fs = f # fs'" using assms(5) by (cases fs) auto
  then have "tb_prev_event_digest f = None" using assms(3) by (auto simp: verify_timeline_chain_def split: if_split_asm)
  with c f show ?thesis by (simp add: verify_timeline_chain_def verify_timeline_append)
qed

text \<open>Deliveries that overlap, on clones of one sink: an event is linked, and other events are linked and acknowledged before its own post ends.\<close>

inductive shared_step ::
  "timeline_env \<Rightarrow> sink_state \<times> timeline_event_body list \<Rightarrow> sink_state \<times> timeline_event_body list \<Rightarrow> bool" for env :: timeline_env where
  shared_link: "shared_step env (st, flying) (st, flying @ [link_timeline_event st body])"
| shared_acknowledge: "shared_step env (st, us @ body # vs) (acknowledge env body st, us @ vs)"
| shared_failed: "shared_step env (st, us @ body # vs) (st, us @ vs)"

lemma overlap_forks:
  assumes "\<And>b. te_to_vec env b \<noteq> None"
  shows "\<exists>st. reachable (\<lambda>s. s = (sink_state_new, [])) (shared_step env) (st, []) \<and>
     ss_acknowledged st = [link_timeline_event sink_state_new b, link_timeline_event sink_state_new c] \<and>
     verify_timeline_chain env (ss_acknowledged st) \<noteq> Inr ()"
proof -
  let ?n = sink_state_new and ?b = "link_timeline_event sink_state_new b" and ?c = "link_timeline_event sink_state_new c"
  let ?R = "reachable (\<lambda>s. s = (sink_state_new, [])) (shared_step env)"
  let ?st = "acknowledge env ?c (acknowledge env ?b ?n)"
  have "?R (?n, [])" by (rule reach_init) (rule refl)
  from reach_step [OF this shared_link [of env ?n "[]" b]] have "?R (?n, [?b])" by simp
  from reach_step [OF this shared_link [of env ?n "[?b]" c]] have "?R (?n, [?b, ?c])" by simp
  from reach_step [OF this] shared_acknowledge [of env ?n "[]" ?b "[?c]"] have "?R (acknowledge env ?b ?n, [?c])" by simp
  from reach_step [OF this] shared_acknowledge [of env "acknowledge env ?b ?n" "[]" ?c "[]"] have "?R (?st, [])" by simp
  moreover have ack: "ss_acknowledged ?st = [?b, ?c]"
    by (simp add: acknowledge_def sink_state_new_def)
  moreover have "verify_timeline_chain env [?b, ?c] \<noteq> Inr ()"
    by (simp add: verify_timeline_chain_def link_timeline_event_def sink_state_new_def split: sum.split)
  ultimately show ?thesis by (intro exI [of _ ?st]) simp
qed


definition plain_timeline_env :: timeline_env where
  "plain_timeline_env = \<lparr>te_to_vec = (\<lambda>b. Some [if tb_event_type b = ''snapshot_created'' then 1 else 2]), te_sha256 = (\<lambda>b. b), te_uuid_str = (\<lambda>_. ''u''),
     te_record_json = (\<lambda>r. Some (sr_agent_id r)),
     te_parse_record = (\<lambda>l. Some \<lparr>sr_created_at = 0, sr_agent_id = ''a'', sr_event_id = Some l,
        sr_event = \<lparr>tb_session_id = None, tb_nexus_snapshot_id = None, tb_capsule_digest = None, tb_event_type = l, tb_prev_event_digest = None\<rparr>\<rparr>),
     te_url = (\<lambda>_ _. Some \<lparr>url_scheme = ''https'', url_host = None, url_host_str = Some ''iq'', url_port = None\<rparr>), te_resolve = (\<lambda>_ _. None)\<rparr>"

definition plain_sink :: timeline_sink where
  "plain_sink = \<lparr>sk_base_url = ''https://iq'', sk_policy = Inr \<lparr>allow_hosts = [''iq''], allow_private = False\<rparr>, sk_management_key = Some ''k'',
     sk_mode = Advisory, sk_spool_path = ''s''\<rparr>"

definition plain_io :: spool_io where
  "plain_io = \<lparr>io_read = True, io_open = True, io_writes = [], io_rewrite = None\<rparr>"

definition plain_delivery :: "delivery_status \<times> sink_state \<times> spool_file" where
  "plain_delivery = timeline_deliver plain_timeline_env (\<lambda>n. if n = 1 then None else Some 200) plain_io 0 plain_sink ''a'' None
     [CapabilityDeniedEvent ''x'', SnapshotCreatedEvent 7] sink_state_new None"


text \<open>
  C38: replaying the spool loses no event. Every line is counted once as delivered, failed or skipped; the lines written back are some of the lines
  read, in their order; and a line that is not written back was acknowledged by the server in this replay, or carries the identifier of an
  earlier line of it. The number reported as delivered is the number of acknowledged events.
\<close>

theorem replay_accounts_for_every_line:
  assumes "replay_spooled_events env server io sink agent_id since st (Some content) = (report, st', f')" and "io_read io"
  shows "\<exists>retained acked. f' = rewrite_spool (io_rewrite io) retained \<and> subseq retained (spool_lines content) \<and>
     ss_acknowledged st' = ss_acknowledged st @ acked \<and> rr_delivered report = length acked \<and>
     rr_delivered report + rr_failed report + rr_skipped report = length (spool_lines content) \<and>
     (\<forall>us l vs. spool_lines content = us @ l # vs \<longrightarrow> accounted env agent_id since [] us retained acked l)"
proof -
  obtain retained where r: "replay_lines env server sink agent_id since [] (spool_lines content) (replay_report_default, [], st) = (report, retained, st')"
    and f: "f' = rewrite_spool (io_rewrite io) retained"
    using assms by (auto simp: replay_spooled_events_def split: prod.split_asm)
  obtain acked where a: "ss_acknowledged st' = ss_acknowledged st @ acked" "rr_delivered report = length acked"
    using replay_lines_acked_mono [OF r] by (auto simp: replay_report_default_def)
  have "accounted env agent_id since [] us retained acked l" if "spool_lines content = us @ l # vs" for us l vs
    using replay_lines_accounted [OF r [unfolded that]] a(1) by auto
  then show ?thesis using f a replay_lines_retained [OF r] replay_lines_total [OF r] by (auto simp: report_total_def replay_report_default_def)
qed

definition plain_replay :: "replay_report \<times> sink_state \<times> spool_file" where
  "plain_replay = replay_spooled_events plain_timeline_env (\<lambda>n. if n = 0 then Some 200 else None) plain_io plain_sink ''a'' None sink_state_new
     (Some (''x'' @ [CHR 0x0A] @ ''x'' @ [CHR 0x0A] @ ''y'' @ [CHR 0x0A]))"

theorem replay_accounts_for_every_line_witness:
  "rr_delivered (fst plain_replay) + rr_failed (fst plain_replay) + rr_skipped (fst plain_replay) = 3 \<and>
   snd (snd plain_replay) = Some (''y'' @ [CHR 0x0A]) \<and> length (ss_acknowledged (fst (snd plain_replay))) = rr_delivered (fst plain_replay)"
proof -
  obtain report st' f' where p: "plain_replay = (report, st', f')" by (cases plain_replay) auto
  have c: "length (spool_lines (''x'' @ [CHR 0x0A] @ ''x'' @ [CHR 0x0A] @ ''y'' @ [CHR 0x0A])) = 3" "snd (snd plain_replay) = Some (''y'' @ [CHR 0x0A])"
    by code_simp+
  have "io_read plain_io" by (simp add: plain_io_def)
  from replay_accounts_for_every_line [OF p [unfolded plain_replay_def] this] c(1)
  have "rr_delivered report = length (ss_acknowledged st')" "rr_delivered report + rr_failed report + rr_skipped report = 3"
    by (auto simp: sink_state_new_def)
  with c(2) show ?thesis unfolding p by simp
qed

end
