(* ===== verification/Aeon_Memory.thy ===== *)
theory Aeon_Memory
  imports Memory_Evidence Aeon_Timeline
begin

text \<open>
  The client of the AEON-IQ memory service (\<open>src/src/aeon.rs\<close>): its configuration from the environment, construction with degradation, search with
  the counter-signature over the served hits, storing, health, and the evidence bound into proof capsules.

  The record \<open>aeon_env\<close> holds the environment variables, URL parsing and name resolution, SHA-256, HMAC, Ed25519 and serde_json. The service is
  a function from the request that is made to its answer; each operation also returns the requests it made. Logging is left out.
\<close>

subsection \<open>Configuration\<close>

record aeon_config =
  ac_enabled :: bool
  ac_base_url :: string
  ac_agent_id :: string
  ac_session_id :: "string option"
  ac_timeout_ms :: u64
  ac_management_key :: "string option"
  ac_hmac_key :: "bytes option"
  ac_verifying_key :: "bytes option"

definition aeon_config_default :: aeon_config where
  "aeon_config_default = \<lparr>ac_enabled = False, ac_base_url = ''http://localhost:8080'', ac_agent_id = ''nexus'', ac_session_id = None,
     ac_timeout_ms = 30000, ac_management_key = None, ac_hmac_key = None, ac_verifying_key = None\<rparr>"

definition not_unicode :: "'a result" where
  "not_unicode = Inl (ConfigError ''{name} must be valid Unicode'')"

definition aeon_env_string :: "env_var \<Rightarrow> string \<Rightarrow> string result" where
  "aeon_env_string v dflt =
     (case v of
        EnvValue s \<Rightarrow> if trim s = [] then Inl (ConfigError ''{name} must not be empty when configured'') else Inr s
      | EnvNotPresent \<Rightarrow> Inr dflt
      | EnvNotUnicode \<Rightarrow> not_unicode)"

definition env_optional_string :: "env_var \<Rightarrow> string option result" where
  "env_optional_string v =
     (case v of
        EnvValue s \<Rightarrow> Inr (if trim s = [] then None else Some s)
      | EnvNotPresent \<Rightarrow> Inr None
      | EnvNotUnicode \<Rightarrow> not_unicode)"

definition env_bool :: "env_var \<Rightarrow> bool \<Rightarrow> bool result" where
  "env_bool v dflt =
     (case v of
        EnvValue s \<Rightarrow>
          (let t = to_ascii_lowercase (trim s) in
           if t \<in> {''1'', ''true'', ''yes'', ''on''} then Inr True
           else if t \<in> {''0'', ''false'', ''no'', ''off''} then Inr False
           else Inl (ConfigError ''{name} must be one of true/false, yes/no, on/off, or 1/0''))
      | EnvNotPresent \<Rightarrow> Inr dflt
      | EnvNotUnicode \<Rightarrow> not_unicode)"

text \<open>\<open>str::parse::<u64>\<close>: decimal digits after an optional plus sign, in range.\<close>

definition parse_u64 :: "string \<Rightarrow> u64 option" where
  "parse_u64 s =
     (let t = (case s of c # cs \<Rightarrow> if c = CHR ''+'' then cs else s | [] \<Rightarrow> s) in
      if t \<noteq> [] \<and> list_all (\<lambda>c. 48 \<le> (of_char c :: nat) \<and> (of_char c :: nat) \<le> 57) t \<and> nat_of_dec t < 2 ^ 64
      then Some (word_of_nat (nat_of_dec t)) else None)"

definition env_u64 :: "env_var \<Rightarrow> u64 \<Rightarrow> u64 result" where
  "env_u64 v dflt =
     (case v of
        EnvValue s \<Rightarrow> (case parse_u64 (trim s) of Some n \<Rightarrow> Inr n | None \<Rightarrow> Inl (ConfigError ''invalid {name}: {e}''))
      | EnvNotPresent \<Rightarrow> Inr dflt
      | EnvNotUnicode \<Rightarrow> not_unicode)"

definition aeon_hex_nibble :: "char \<Rightarrow> byte option" where
  "aeon_hex_nibble c =
     (let n = (of_char c :: nat) in
      if 48 \<le> n \<and> n \<le> 57 then Some (word_of_nat (n - 48))
      else if 97 \<le> n \<and> n \<le> 102 then Some (word_of_nat (n - 97 + 10))
      else if 65 \<le> n \<and> n \<le> 70 then Some (word_of_nat (n - 65 + 10))
      else None)"

fun env_hex_pairs :: "string \<Rightarrow> bytes result" where
  "env_hex_pairs [] = Inr []"
| "env_hex_pairs [c] = Inl (ConfigError ''{name} must be an even-length hex string'')"
| "env_hex_pairs (a # b # rest) =
     (case aeon_hex_nibble a of None \<Rightarrow> Inl (ConfigError ''{name} contains invalid hex character'') | Some hi \<Rightarrow>
      (case aeon_hex_nibble b of None \<Rightarrow> Inl (ConfigError ''{name} contains invalid hex character'') | Some lo \<Rightarrow>
       map_sum id (\<lambda>bs. (push_bit 4 hi OR lo) # bs) (env_hex_pairs rest)))"

definition env_optional_hex :: "env_var \<Rightarrow> bytes option result" where
  "env_optional_hex v =
     (case v of
        EnvValue s \<Rightarrow>
          (if trim s = [] then Inr None
           else case env_hex_pairs (trim s) of
             Inl e \<Rightarrow> Inl e
           | Inr bs \<Rightarrow> if 512 < length bs then Inl (ConfigError ''{name} must be at most 512 bytes (1024 hex chars)'') else Inr (Some bs))
      | EnvNotPresent \<Rightarrow> Inr None
      | EnvNotUnicode \<Rightarrow> not_unicode)"

subsection \<open>What the client depends on\<close>

datatype http_method = Http_Post | Http_Get

record http_request =
  hr_method :: http_method
  hr_url :: url
  hr_management_key :: string
  hr_body :: "json_number json"

type_synonym http_service = "http_request \<Rightarrow> (u16 \<times> string) option"

record search_hit =
  sh_id :: "string option"
  sh_content :: "string option"
  sh_score :: "f64 option"
  sh_distance :: "f64 option"
  sh_similarity :: "f64 option"

record evidence_envelope =
  ev_version :: string
  ev_key_id :: string
  ev_signature :: string
  ev_payload_digest :: string

record search_response =
  rs_results :: "search_hit list"
  rs_evidence :: "evidence_envelope option"

record aeon_env =
  ae_os :: "string \<Rightarrow> env_var"
  ae_http_ok :: bool
  ae_parse_url :: "string \<Rightarrow> url option"
  ae_url :: "string \<Rightarrow> string list \<Rightarrow> url option"
  ae_resolve :: "string \<Rightarrow> u16 \<Rightarrow> ip_addr list option"
  ae_bridge :: bridge_env
  ae_key_valid :: "bytes \<Rightarrow> bool"
  ae_verify :: "bytes \<Rightarrow> bytes \<Rightarrow> bytes \<Rightarrow> bool"
  ae_parse_search :: "string \<Rightarrow> search_response option"
  ae_parse_value :: "string \<Rightarrow> json_number json option"
  ae_parse_uuid :: "string \<Rightarrow> uuid option"

text \<open>The base URL is checked before the other variables are read.\<close>

definition aeon_config_from_env :: "aeon_env \<Rightarrow> aeon_config result" where
  "aeon_config_from_env env =
     (case aeon_env_string (ae_os env ''NEXUS_AEON_BASE_URL'') (ac_base_url aeon_config_default) of Inl e \<Rightarrow> Inl e | Inr base_url \<Rightarrow>
      (case ae_parse_url env base_url of None \<Rightarrow> Inl (ConfigError ''AEON_BASE_URL is not a valid URL: {e}'') | Some parsed \<Rightarrow>
      (if url_scheme parsed \<noteq> ''http'' \<and> url_scheme parsed \<noteq> ''https''
       then Inl (ConfigError ''AEON_BASE_URL must use http or https scheme, got {}'') else
      (case env_bool (ae_os env ''NEXUS_AEON_ENABLED'') (ac_enabled aeon_config_default) of Inl e \<Rightarrow> Inl e | Inr enabled \<Rightarrow>
      (case aeon_env_string (ae_os env ''NEXUS_AEON_AGENT_ID'') (ac_agent_id aeon_config_default) of Inl e \<Rightarrow> Inl e | Inr agent_id \<Rightarrow>
      (case env_optional_string (ae_os env ''NEXUS_AEON_SESSION_ID'') of Inl e \<Rightarrow> Inl e | Inr session_id \<Rightarrow>
      (case env_u64 (ae_os env ''NEXUS_AEON_TIMEOUT_MS'') (ac_timeout_ms aeon_config_default) of Inl e \<Rightarrow> Inl e | Inr timeout_ms \<Rightarrow>
      (case env_optional_string (ae_os env ''NEXUS_AEON_MANAGEMENT_KEY'') of Inl e \<Rightarrow> Inl e | Inr management_key \<Rightarrow>
      (case env_optional_hex (ae_os env ''NEXUS_AEON_HMAC_KEY'') of Inl e \<Rightarrow> Inl e | Inr hmac_key \<Rightarrow>
      (case env_optional_hex (ae_os env ''NEXUS_AEON_VERIFYING_KEY'') of Inl e \<Rightarrow> Inl e | Inr verifying_key \<Rightarrow>
      (if (case verifying_key of Some k \<Rightarrow> length k \<noteq> 32 | None \<Rightarrow> False)
       then Inl (ConfigError ''{VERIFYING_KEY_ENV} must decode to exactly 32 bytes (Ed25519 public key)'')
       else if (case hmac_key of Some k \<Rightarrow> length k < 32 | None \<Rightarrow> False)
       then Inl (ConfigError ''AEON_HMAC_KEY must be at least 32 bytes (256 bits); got {} bytes'')
       else Inr \<lparr>ac_enabled = enabled, ac_base_url = base_url, ac_agent_id = agent_id, ac_session_id = session_id, ac_timeout_ms = timeout_ms,
         ac_management_key = management_key, ac_hmac_key = hmac_key, ac_verifying_key = verifying_key\<rparr>)))))))))))"

definition trim_end_slash :: "string \<Rightarrow> string" where
  "trim_end_slash s = rev (dropWhile (\<lambda>c. c = CHR ''/'') (rev s))"

definition chat_completions_url :: "aeon_config \<Rightarrow> string" where
  "chat_completions_url cfg = trim_end_slash (ac_base_url cfg) @ ''/v1/chat/completions''"

text \<open>A malformed value of the variable counts as not required.\<close>

definition aeon_required :: "aeon_env \<Rightarrow> bool" where
  "aeon_required env = (case env_bool (ae_os env ''NEXUS_AEON_REQUIRED'') False of Inr b \<Rightarrow> b | Inl _ \<Rightarrow> False)"

definition degrade_or_fail :: "aeon_env \<Rightarrow> nexus_error \<Rightarrow> 'a option result" where
  "degrade_or_fail env e = (if aeon_required env then Inl e else Inr None)"

subsection \<open>The client\<close>

record aeon_client =
  cl_base_url :: string
  cl_policy :: egress_policy
  cl_agent_id :: string
  cl_session_id :: "string option"
  cl_management_key :: "string option"
  cl_verifying_key :: "bytes option"

definition aeon_egress_policy :: "aeon_env \<Rightarrow> aeon_config \<Rightarrow> egress_policy result" where
  "aeon_egress_policy env cfg =
     (case egress_from_env (ae_os env ''NEXUS_EGRESS_ALLOWLIST'') (ae_os env ''NEXUS_EGRESS_ALLOW_PRIVATE'') of
        Inl e \<Rightarrow> Inl e
      | Inr policy \<Rightarrow>
          Inr (case ae_parse_url env (ac_base_url cfg) of
             Some u \<Rightarrow> (case url_host_str u of Some host \<Rightarrow> egress_allow_host host policy | None \<Rightarrow> policy)
           | None \<Rightarrow> policy))"

definition client_from_config :: "aeon_env \<Rightarrow> aeon_config \<Rightarrow> aeon_client result" where
  "client_from_config env cfg =
     (if \<not> ae_http_ok env then Inl (ConfigError ''failed to build AEON-IQ memory client: {error}'')
      else case aeon_egress_policy env cfg of
        Inl e \<Rightarrow> Inl e
      | Inr policy \<Rightarrow> Inr \<lparr>cl_base_url = trim_end_slash (ac_base_url cfg), cl_policy = policy, cl_agent_id = ac_agent_id cfg,
          cl_session_id = ac_session_id cfg, cl_management_key = ac_management_key cfg, cl_verifying_key = ac_verifying_key cfg\<rparr>)"

definition has_required_config :: "aeon_config \<Rightarrow> bool" where
  "has_required_config cfg = (ac_enabled cfg \<and> trim (ac_base_url cfg) \<noteq> [] \<and> trim (ac_agent_id cfg) \<noteq> [] \<and>
     (case ac_management_key cfg of Some key \<Rightarrow> trim key \<noteq> [] | None \<Rightarrow> False))"

definition client_from_enabled_config :: "aeon_env \<Rightarrow> aeon_config \<Rightarrow> aeon_client option result" where
  "client_from_enabled_config env cfg =
     (if has_required_config cfg then map_sum id Some (client_from_config env cfg) else Inr None)"

definition init_aeon_memory_client :: "aeon_env \<Rightarrow> aeon_config \<Rightarrow> aeon_client option result" where
  "init_aeon_memory_client env cfg =
     (case client_from_enabled_config env cfg of Inr c \<Rightarrow> Inr c | Inl e \<Rightarrow> degrade_or_fail env e)"

text \<open>The sinks made from a configuration; the default path of the spool is an argument.\<close>

definition sink_from_config :: "aeon_env \<Rightarrow> string \<Rightarrow> aeon_config \<Rightarrow> timeline_sink result" where
  "sink_from_config env spool cfg =
     (if \<not> ae_http_ok env then Inl (ConfigError ''failed to build AEON-IQ timeline client: {error}'')
      else Inr \<lparr>sk_base_url = trim_end_slash (ac_base_url cfg), sk_policy = aeon_egress_policy env cfg, sk_management_key = ac_management_key cfg,
        sk_mode = Advisory, sk_spool_path = spool\<rparr>)"

definition sink_from_memory_client :: "string \<Rightarrow> aeon_client \<Rightarrow> timeline_sink" where
  "sink_from_memory_client spool c = \<lparr>sk_base_url = cl_base_url c, sk_policy = Inr (cl_policy c), sk_management_key = cl_management_key c,
     sk_mode = Advisory, sk_spool_path = spool\<rparr>"

definition sink_from_enabled_config :: "aeon_env \<Rightarrow> string \<Rightarrow> aeon_config \<Rightarrow> timeline_sink option result" where
  "sink_from_enabled_config env spool cfg = map_sum id (map_option (sink_from_memory_client spool)) (client_from_enabled_config env cfg)"

definition with_mode :: "delivery_mode \<Rightarrow> timeline_sink \<Rightarrow> timeline_sink" where
  "with_mode mode sink = sink\<lparr>sk_mode := mode\<rparr>"

definition with_spool_path :: "string \<Rightarrow> timeline_sink \<Rightarrow> timeline_sink" where
  "with_spool_path path sink = sink\<lparr>sk_spool_path := path\<rparr>"

definition init_aeon_timeline_sink :: "aeon_env \<Rightarrow> string \<Rightarrow> aeon_config \<Rightarrow> timeline_sink option result" where
  "init_aeon_timeline_sink env spool cfg =
     (case sink_from_enabled_config env spool cfg of Inr s \<Rightarrow> Inr s | Inl e \<Rightarrow> degrade_or_fail env e)"

definition init_aeon_timeline_sink_offline :: "aeon_env \<Rightarrow> string \<Rightarrow> aeon_config \<Rightarrow> timeline_sink option result" where
  "init_aeon_timeline_sink_offline env spool cfg =
     (case sink_from_config env spool cfg of Inr s \<Rightarrow> Inr (Some s) | Inl e \<Rightarrow> degrade_or_fail env e)"

subsection \<open>Requests\<close>

definition aeon_send :: "aeon_env \<Rightarrow> http_service \<Rightarrow> aeon_client \<Rightarrow> http_request \<Rightarrow> (u16 \<times> string) option \<times> http_request list" where
  "aeon_send env http c r =
     (case egress_check_url (ae_resolve env) (cl_policy c) (hr_url r) of Inl _ \<Rightarrow> (None, []) | Inr _ \<Rightarrow> (http r, [r]))"

definition aeon_post_json ::
  "aeon_env \<Rightarrow> http_service \<Rightarrow> aeon_client \<Rightarrow> url \<Rightarrow> string \<Rightarrow> json_number json \<Rightarrow> (u16 \<times> string) option \<times> http_request list" where
  "aeon_post_json env http c u key body =
     aeon_send env http c \<lparr>hr_method = Http_Post, hr_url = u, hr_management_key = key, hr_body = body\<rparr>"

definition aeon_get :: "aeon_env \<Rightarrow> http_service \<Rightarrow> aeon_client \<Rightarrow> url \<Rightarrow> string \<Rightarrow> (u16 \<times> string) option \<times> http_request list" where
  "aeon_get env http c u key =
     map_prod (map_option (\<lambda>(status, _). (status, []))) id
       (aeon_send env http c \<lparr>hr_method = Http_Get, hr_url = u, hr_management_key = key, hr_body = JNull\<rparr>)"

subsection \<open>Searching\<close>

record aeon_hit =
  ah_id :: string
  ah_content :: string
  ah_score :: "f64 option"

datatype attestation_mode = AdvisoryMode | AttestedMode | AttestedNoHit | AttestedWithRecall | Degraded | Absent

record search_outcome =
  so_hits :: "aeon_hit list"
  so_attestation :: attestation_mode

definition degraded :: search_outcome where
  "degraded = \<lparr>so_hits = [], so_attestation = Degraded\<rparr>"

definition aeon_hit_of :: "search_hit \<Rightarrow> aeon_hit" where
  "aeon_hit_of h = \<lparr>ah_id = or_empty (sh_id h), ah_content = or_empty (sh_content h),
     ah_score = (case sh_score h of Some s \<Rightarrow> Some s | None \<Rightarrow> (case sh_distance h of Some d \<Rightarrow> Some d | None \<Rightarrow> sh_similarity h))\<rparr>"

definition EVIDENCE_SIG_VERSION :: string where
  "EVIDENCE_SIG_VERSION = ''aeon-evidence-sig-v1''"

definition aeon_sha256_hex :: "aeon_env \<Rightarrow> string \<Rightarrow> string" where
  "aeon_sha256_hex env s = to_hex (br_sha256 (ae_bridge env) (str_bytes s))"

text \<open>\<open>decode_hex_exact::<64>\<close>.\<close>

fun aeon_hex_pairs :: "string \<Rightarrow> bytes option" where
  "aeon_hex_pairs (a # b # rest) =
     (case aeon_hex_nibble a of None \<Rightarrow> None | Some hi \<Rightarrow>
      (case aeon_hex_nibble b of None \<Rightarrow> None | Some lo \<Rightarrow>
       map_option (\<lambda>bs. (push_bit 4 hi OR lo) # bs) (aeon_hex_pairs rest)))"
| "aeon_hex_pairs _ = Some []"

definition decode_hex_exact :: "nat \<Rightarrow> string \<Rightarrow> bytes option" where
  "decode_hex_exact n s = (let h = trim s in if length h \<noteq> n * 2 then None else aeon_hex_pairs h)"

text \<open>The payload the service signs, as a value (the served \<open>payload_digest\<close> is not read): agent, session, identifiers and digests of contents, in the order served.\<close>

definition evidence_payload :: "aeon_env \<Rightarrow> aeon_client \<Rightarrow> aeon_hit list \<Rightarrow> json_number json" where
  "evidence_payload env c hits = JObject [(''version'', JString EVIDENCE_SIG_VERSION), (''agent_id'', JString (cl_agent_id c)),
     (''session_id'', option_json JString (cl_session_id c)), (''hit_ids'', list_json JString (map ah_id hits)),
     (''hit_content_digests'', list_json JString (map (\<lambda>h. aeon_sha256_hex env (ah_content h)) hits))]"

definition verifies_evidence :: "aeon_client \<Rightarrow> bool" where
  "verifies_evidence c = (cl_verifying_key c \<noteq> None)"

definition evidence_signature_ok :: "aeon_env \<Rightarrow> aeon_client \<Rightarrow> search_response \<Rightarrow> bool" where
  "evidence_signature_ok env c body =
     (case cl_verifying_key c of None \<Rightarrow> False | Some key \<Rightarrow>
      (case rs_evidence body of None \<Rightarrow> False | Some e \<Rightarrow>
      (if ev_version e \<noteq> EVIDENCE_SIG_VERSION then False
       else if to_ascii_lowercase (ev_key_id e) \<noteq> to_ascii_lowercase (to_hex key) then False
       else if \<not> ae_key_valid env key then False
       else case decode_hex_exact 64 (ev_signature e) of None \<Rightarrow> False | Some signature \<Rightarrow>
         ae_verify env key (bridge_canonical_bytes (ae_bridge env) (evidence_payload env c (map aeon_hit_of (rs_results body)))) signature)))"

definition search_request :: "aeon_client \<Rightarrow> string \<Rightarrow> nat \<Rightarrow> json_number json" where
  "search_request c query limit = JObject ([(''agent_id'', JString (cl_agent_id c)), (''query'', JString query), (''limit'', JNumber (JInt (int limit)))] @
     (case cl_session_id c of Some s \<Rightarrow> [(''session_id'', JString s)] | None \<Rightarrow> []))"

definition search_outcome_of :: "aeon_env \<Rightarrow> aeon_client \<Rightarrow> (u16 \<times> string) option \<Rightarrow> search_outcome" where
  "search_outcome_of env c response =
     (case response of None \<Rightarrow> degraded | Some (status, body_text) \<Rightarrow>
      (if \<not> is_success status then degraded
       else case ae_parse_search env body_text of None \<Rightarrow> degraded | Some body \<Rightarrow>
         (if cl_verifying_key c \<noteq> None \<and> \<not> evidence_signature_ok env c body then degraded
          else let hits = map aeon_hit_of (rs_results body) in
            \<lparr>so_hits = hits, so_attestation = (if hits = [] then AttestedNoHit else AttestedWithRecall)\<rparr>)))"

definition search_with_status :: "aeon_env \<Rightarrow> http_service \<Rightarrow> aeon_client \<Rightarrow> string \<Rightarrow> nat \<Rightarrow> search_outcome \<times> http_request list" where
  "search_with_status env http c query limit =
     (case cl_management_key c of None \<Rightarrow> (\<lparr>so_hits = [], so_attestation = Absent\<rparr>, []) | Some key \<Rightarrow>
      (case ae_url env (cl_base_url c) [''api'', ''v1'', ''memories'', ''search''] of None \<Rightarrow> (degraded, []) | Some u \<Rightarrow>
       map_prod (search_outcome_of env c) id (aeon_post_json env http c u key (search_request c query limit))))"

definition aeon_search :: "aeon_env \<Rightarrow> http_service \<Rightarrow> aeon_client \<Rightarrow> string \<Rightarrow> nat \<Rightarrow> aeon_hit list" where
  "aeon_search env http c query limit = so_hits (fst (search_with_status env http c query limit))"

subsection \<open>Storing and health\<close>

fun json_get :: "string \<Rightarrow> json_number json \<Rightarrow> json_number json option" where
  "json_get k (JObject kvs) = map_of kvs k"
| "json_get k _ = None"

fun json_as_str :: "json_number json \<Rightarrow> string option" where
  "json_as_str (JString s) = Some s"
| "json_as_str _ = None"

definition or_else :: "'a option \<Rightarrow> 'a option \<Rightarrow> 'a option" where
  "or_else a b = (case a of Some x \<Rightarrow> Some x | None \<Rightarrow> b)"

definition extract_memory_id :: "aeon_env \<Rightarrow> json_number json \<Rightarrow> uuid option" where
  "extract_memory_id env body =
     Option.bind (or_else (or_else (json_as_str body) (Option.bind (json_get ''id'' body) json_as_str)) (Option.bind (json_get ''memory_id'' body) json_as_str))
       (ae_parse_uuid env)"

definition store_request :: "string \<Rightarrow> string option \<Rightarrow> json_number option \<Rightarrow> json_number json" where
  "store_request content memory_type importance = JObject ([(''content'', JString content)] @
     (case memory_type of Some t \<Rightarrow> [(''memory_type'', JString t)] | None \<Rightarrow> []) @ (case importance of Some i \<Rightarrow> [(''importance'', JNumber i)] | None \<Rightarrow> []))"

definition aeon_store ::
  "aeon_env \<Rightarrow> http_service \<Rightarrow> aeon_client \<Rightarrow> string \<Rightarrow> json_number option \<Rightarrow> string option \<Rightarrow> uuid option \<times> http_request list" where
  "aeon_store env http c content importance memory_type =
     (case cl_management_key c of None \<Rightarrow> (None, []) | Some key \<Rightarrow>
      (case ae_url env (cl_base_url c) [''api'', ''v1'', ''agents'', cl_agent_id c, ''memories''] of None \<Rightarrow> (None, []) | Some u \<Rightarrow>
       map_prod (\<lambda>response. case response of None \<Rightarrow> None | Some (status, body_text) \<Rightarrow>
           (if is_success status then Option.bind (ae_parse_value env body_text) (extract_memory_id env) else None)) id
         (aeon_post_json env http c u key (store_request content memory_type importance))))"

definition aeon_health :: "aeon_env \<Rightarrow> http_service \<Rightarrow> aeon_client \<Rightarrow> bool \<times> http_request list" where
  "aeon_health env http c =
     (case cl_management_key c of None \<Rightarrow> (False, []) | Some key \<Rightarrow>
      (case ae_url env (cl_base_url c) [''health''] of None \<Rightarrow> (False, []) | Some u \<Rightarrow>
       map_prod (\<lambda>response. case response of Some (status, _) \<Rightarrow> is_success status | None \<Rightarrow> False) id (aeon_get env http c u key)))"

subsection \<open>Evidence\<close>

record memory_evidence_v1 =
  m1_version :: byte
  m1_query :: string
  m1_hit_count :: nat
  m1_hit_digests :: "string list"
  m1_attestation :: attestation_mode
  m1_capsule_digest :: "string option"

definition memory_evidence_v1_new :: "aeon_env \<Rightarrow> string \<Rightarrow> aeon_hit list \<Rightarrow> attestation_mode \<Rightarrow> memory_evidence_v1" where
  "memory_evidence_v1_new env query hits attestation =
     \<lparr>m1_version = 1, m1_query = query, m1_hit_count = length hits, m1_hit_digests = map (\<lambda>h. aeon_sha256_hex env (ah_content h)) hits,
      m1_attestation = attestation, m1_capsule_digest = None\<rparr>"

definition with_capsule_digest :: "string option \<Rightarrow> memory_evidence_v1 \<Rightarrow> memory_evidence_v1" where
  "with_capsule_digest d e = e\<lparr>m1_capsule_digest := d\<rparr>"

definition attestation_name :: "attestation_mode \<Rightarrow> string" where
  "attestation_name m = (case m of AdvisoryMode \<Rightarrow> ''Advisory'' | AttestedMode \<Rightarrow> ''Attested'' | AttestedNoHit \<Rightarrow> ''AttestedNoHit''
     | AttestedWithRecall \<Rightarrow> ''AttestedWithRecall'' | Degraded \<Rightarrow> ''Degraded'' | Absent \<Rightarrow> ''Absent'')"

text \<open>The digest body leaves out the version and the capsule digest.\<close>

definition canonical_digest_bytes :: "aeon_env \<Rightarrow> memory_evidence_v1 \<Rightarrow> bytes" where
  "canonical_digest_bytes env e = br_to_vec (ae_bridge env) (JObject [(''query'', JString (m1_query e)), (''hit_count'', JNumber (JInt (int (m1_hit_count e)))),
     (''hit_digests'', list_json JString (m1_hit_digests e)), (''attestation'', JString (attestation_name (m1_attestation e)))])"

definition evidence_hmac_digest :: "aeon_env \<Rightarrow> bytes \<Rightarrow> memory_evidence_v1 \<Rightarrow> string" where
  "evidence_hmac_digest env key e = to_hex (br_hmac (ae_bridge env) key (canonical_digest_bytes env e))"

definition evidence_sha256_digest :: "aeon_env \<Rightarrow> memory_evidence_v1 \<Rightarrow> string option" where
  "evidence_sha256_digest env e = Some (to_hex (br_sha256 (ae_bridge env) (br_to_vec (ae_bridge env) (JObject ([(''version'', JNumber (JInt (uint (m1_version e)))),
     (''query'', JString (m1_query e)), (''hit_count'', JNumber (JInt (int (m1_hit_count e)))), (''hit_digests'', list_json JString (m1_hit_digests e)),
     (''attestation'', JString (attestation_name (m1_attestation e)))] @
     (case m1_capsule_digest e of Some d \<Rightarrow> [(''capsule_digest'', JString d)] | None \<Rightarrow> []))))))"

definition validate_memory_evidence_v1 :: "memory_evidence_v1 \<Rightarrow> string + unit" where
  "validate_memory_evidence_v1 e =
     (if m1_version e \<noteq> 1 then Inl ''unsupported version {}; expected {}''
      else if m1_hit_count e \<noteq> length (m1_hit_digests e) then Inl ''hit_count {} does not match hit_digests length {}''
      else if (case m1_capsule_digest e of Some d \<Rightarrow> trim d = [] | None \<Rightarrow> False) then Inl ''capsule_digest must be non-empty when set''
      else Inr ())"

definition recall_memory_evidence_v1 ::
  "aeon_env \<Rightarrow> http_service \<Rightarrow> aeon_client option \<Rightarrow> string \<Rightarrow> nat \<Rightarrow> aeon_hit list \<times> memory_evidence_v1" where
  "recall_memory_evidence_v1 env http client query limit =
     (case client of
        None \<Rightarrow> ([], memory_evidence_v1_new env query [] Absent)
      | Some c \<Rightarrow>
          (let outcome = fst (search_with_status env http c query limit) in
           (so_hits outcome, memory_evidence_v1_new env query (so_hits outcome) (so_attestation outcome))))"

text \<open>The loop over the hits stops at the first score that does not fit.\<close>

fun bridge_hits :: "bridge_env \<Rightarrow> aeon_hit list \<Rightarrow> bridge_error + evidence_hit list" where
  "bridge_hits env [] = Inr []"
| "bridge_hits env (h # hs) =
     (case evidence_hit_new env (ah_id h) (ah_content h) (ah_score h) of
        Inl e \<Rightarrow> Inl e
      | Inr x \<Rightarrow> map_sum id (\<lambda>xs. x # xs) (bridge_hits env hs))"

definition build_memory_evidence_ref ::
  "aeon_env \<Rightarrow> aeon_config \<Rightarrow> aeon_hit list \<Rightarrow> string option \<Rightarrow> memory_evidence_ref option \<times> attestation_mode" where
  "build_memory_evidence_ref env cfg hits session_id =
     (case ac_hmac_key cfg of None \<Rightarrow> (None, Absent) | Some key \<Rightarrow>
      (case bridge_hits (ae_bridge env) hits of
         Inl _ \<Rightarrow> (None, Degraded)
       | Inr bs \<Rightarrow>
           (Some (evidence_to_ref (ae_bridge env) (mapping_memory_evidence (ae_bridge env) key bs
              \<lparr>am_nexus_agent_id = ac_agent_id cfg, am_session_id = session_id, am_aeon_agent_id = ac_agent_id cfg\<rparr>)),
            if hits = [] then AttestedNoHit else AttestedWithRecall)))"

subsection \<open>What an attested search means\<close>

definition attested :: "search_outcome \<Rightarrow> bool" where
  "attested out \<longleftrightarrow> so_attestation out \<in> {AttestedNoHit, AttestedWithRecall}"

text \<open>The counter-signature that was checked, over the hits that are returned.\<close>

definition countersigned :: "aeon_env \<Rightarrow> aeon_client \<Rightarrow> bytes \<Rightarrow> evidence_envelope \<Rightarrow> aeon_hit list \<Rightarrow> bool" where
  "countersigned env c key e hits \<longleftrightarrow> ev_version e = EVIDENCE_SIG_VERSION \<and> to_ascii_lowercase (ev_key_id e) = to_ascii_lowercase (to_hex key) \<and>
     ae_key_valid env key \<and> (\<exists>signature. decode_hex_exact 64 (ev_signature e) = Some signature \<and>
       ae_verify env key (bridge_canonical_bytes (ae_bridge env) (evidence_payload env c hits)) signature)"

lemma evidence_signature_ok_iff:
  "evidence_signature_ok env c body \<longleftrightarrow> (\<exists>key e. cl_verifying_key c = Some key \<and> rs_evidence body = Some e \<and>
     countersigned env c key e (map aeon_hit_of (rs_results body)))"
  by (auto simp: evidence_signature_ok_def countersigned_def split: option.splits)

text \<open>An answer that serves these hits: a success that parses as them, counter-signed if the client has a verifying key.\<close>

definition served :: "aeon_env \<Rightarrow> aeon_client \<Rightarrow> (u16 \<times> string) option \<Rightarrow> aeon_hit list \<Rightarrow> bool" where
  "served env c response hits \<longleftrightarrow> (\<exists>status body_text body. response = Some (status, body_text) \<and> is_success status \<and>
     ae_parse_search env body_text = Some body \<and> hits = map aeon_hit_of (rs_results body) \<and>
     (\<forall>key. cl_verifying_key c = Some key \<longrightarrow> (\<exists>e. rs_evidence body = Some e \<and> countersigned env c key e hits)))"

definition attested_outcome :: "aeon_hit list \<Rightarrow> search_outcome" where
  "attested_outcome hits = \<lparr>so_hits = hits, so_attestation = (if hits = [] then AttestedNoHit else AttestedWithRecall)\<rparr>"

lemma attested_outcome_simps [simp]: "attested (attested_outcome hits)" "so_hits (attested_outcome hits) = hits"
  by (simp_all add: attested_outcome_def attested_def)

lemma not_attested [simp]: "\<not> attested degraded" "so_hits degraded = []" "so_attestation degraded = Degraded"
  by (simp_all add: attested_def degraded_def)

lemma search_outcome_served:
  assumes "served env c response hits"
  shows "search_outcome_of env c response = attested_outcome hits"
proof -
  obtain status body_text body where r: "response = Some (status, body_text)" "is_success status" "ae_parse_search env body_text = Some body"
    "hits = map aeon_hit_of (rs_results body)"
    and e: "\<forall>key. cl_verifying_key c = Some key \<longrightarrow> (\<exists>e. rs_evidence body = Some e \<and> countersigned env c key e hits)"
    using assms unfolding served_def by blast
  have "\<not> (cl_verifying_key c \<noteq> None \<and> \<not> evidence_signature_ok env c body)"
    using e unfolding r(4) evidence_signature_ok_iff by (metis not_None_eq)
  then show ?thesis unfolding r(1,4) search_outcome_of_def attested_outcome_def using r(2,3)
    by (simp only: option.case prod.case simp_thms if_False Let_def not_True_eq_False)
qed

lemma search_outcome_not_served:
  assumes "\<nexists>hits. served env c response hits"
  shows "search_outcome_of env c response = degraded"
proof (rule ccontr)
  assume "search_outcome_of env c response \<noteq> degraded"
  then obtain status body_text body where r: "response = Some (status, body_text)" "is_success status" "ae_parse_search env body_text = Some body"
    and v: "cl_verifying_key c = None \<or> evidence_signature_ok env c body"
    by (auto simp: search_outcome_of_def split: option.splits if_splits)
  have "\<exists>e. rs_evidence body = Some e \<and> countersigned env c key e (map aeon_hit_of (rs_results body))" if "cl_verifying_key c = Some key" for key
    using v that by (auto simp: evidence_signature_ok_iff)
  with r have "served env c response (map aeon_hit_of (rs_results body))" unfolding served_def by blast
  with assms show False by blast
qed

lemma served_unique: "served env c response hits \<Longrightarrow> served env c response hits' \<Longrightarrow> hits = hits'"
  by (auto simp: served_def)

text \<open>The request a search makes.\<close>

definition search_post :: "aeon_client \<Rightarrow> string \<Rightarrow> nat \<Rightarrow> string \<Rightarrow> url \<Rightarrow> http_request" where
  "search_post c query lmt key u = \<lparr>hr_method = Http_Post, hr_url = u, hr_management_key = key, hr_body = search_request c query lmt\<rparr>"

text \<open>The client can make its request: a management key, a URL and the consent of the egress policy.\<close>

definition may_search :: "aeon_env \<Rightarrow> aeon_client \<Rightarrow> string \<Rightarrow> url \<Rightarrow> bool" where
  "may_search env c key u \<longleftrightarrow> cl_management_key c = Some key \<and> ae_url env (cl_base_url c) [''api'', ''v1'', ''memories'', ''search''] = Some u \<and>
     egress_check_url (ae_resolve env) (cl_policy c) u = Inr ()"

lemma search_admitted:
  assumes "may_search env c key u"
  shows "search_with_status env http c query lmt = (search_outcome_of env c (http (search_post c query lmt key u)), [search_post c query lmt key u])"
  using assms by (simp add: may_search_def search_with_status_def aeon_post_json_def aeon_send_def search_post_def)

lemma search_not_admitted:
  assumes "\<nexists>key u. may_search env c key u"
  shows "snd (search_with_status env http c query lmt) = []"
    and "fst (search_with_status env http c query lmt) = \<lparr>so_hits = [], so_attestation = (if cl_management_key c = None then Absent else Degraded)\<rparr>"
  using assms by (auto simp: may_search_def search_with_status_def aeon_post_json_def aeon_send_def degraded_def search_outcome_of_def
      split: option.splits sum.splits)

text \<open>The outcome, by what the world offers: a request that may be made and an answer that serves hits.\<close>

lemma may_search_unique: "may_search env c key u \<Longrightarrow> may_search env c key' u' \<Longrightarrow> key' = key \<and> u' = u"
  by (auto simp: may_search_def)

lemma search_exact:
  "attested (fst (search_with_status env http c query lmt)) \<and> so_hits (fst (search_with_status env http c query lmt)) = hits \<longleftrightarrow>
     (\<exists>key u. may_search env c key u \<and> served env c (http (search_post c query lmt key u)) hits)"
proof (cases "\<exists>key u. may_search env c key u")
  case True
  then obtain key u where m: "may_search env c key u" by blast
  have "attested (search_outcome_of env c r) \<and> so_hits (search_outcome_of env c r) = hits \<longleftrightarrow> served env c r hits" for r
    using search_outcome_served [of env c r] search_outcome_not_served [of env c r] not_attested(1) attested_outcome_simps by metis
  then show ?thesis unfolding search_admitted [OF m] fst_conv using m may_search_unique [OF m] by blast
next
  case False
  then show ?thesis using search_not_admitted(2) [OF False] by (auto simp: attested_def)
qed

lemma search_outcome_form:
  "fst (search_with_status env http c query lmt) = attested_outcome (so_hits (fst (search_with_status env http c query lmt))) \<or>
   fst (search_with_status env http c query lmt) = \<lparr>so_hits = [], so_attestation = (if cl_management_key c = None then Absent else Degraded)\<rparr>"
proof (cases "\<exists>key u. may_search env c key u")
  case True
  then obtain key u where m: "may_search env c key u" by blast
  let ?r = "http (search_post c query lmt key u)"
  show ?thesis
  proof (cases "\<exists>hits. served env c ?r hits")
    case True
    then obtain hits where "served env c ?r hits" by blast
    from search_outcome_served [OF this] show ?thesis unfolding search_admitted [OF m] fst_conv by simp
  next
    case False
    from search_outcome_not_served [OF this] m show ?thesis unfolding search_admitted [OF m] fst_conv
      by (simp add: degraded_def may_search_def)
  qed
next
  case False
  from search_not_admitted(2) [OF this] show ?thesis by blast
qed

subsection \<open>What the counter-signature and the reference bind\<close>

definition payload_fields :: "string \<times> string option \<times> string list \<times> string list \<Rightarrow> (string \<times> json_number json) list" where
  "payload_fields p = (case p of (agent_id, session_id, ids, digests) \<Rightarrow>
     [(''version'', JString EVIDENCE_SIG_VERSION), (''agent_id'', JString agent_id), (''session_id'', option_json JString session_id),
      (''hit_ids'', list_json JString ids), (''hit_content_digests'', list_json JString digests)])"

interpretation signed_payload: json_code "\<lambda>p. JObject (payload_fields p)"
  by (rule record_code [where fl = payload_fields]) (simp_all add: payload_fields_def str.option_iff split_beta prod_eq_iff)

lemma evidence_payload_fields: "evidence_payload env c hits =
    JObject (payload_fields (cl_agent_id c, cl_session_id c, map ah_id hits, map (\<lambda>h. aeon_sha256_hex env (ah_content h)) hits))"
  by (simp add: evidence_payload_def payload_fields_def)

lemma digests_determine:
  assumes "inj_on (br_sha256 (ae_bridge env)) A"
    and "str_bytes ` ah_content ` set hits \<subseteq> A" and "str_bytes ` ah_content ` set hits' \<subseteq> A"
    and "map (\<lambda>h. br_sha256 (ae_bridge env) (str_bytes (ah_content h))) hits = map (\<lambda>h. br_sha256 (ae_bridge env) (str_bytes (ah_content h))) hits'"
  shows "map ah_content hits = map ah_content hits'"
proof -
  let ?bs = "\<lambda>hs. map str_bytes (map ah_content hs)"
  have "inj_on (br_sha256 (ae_bridge env)) (set (?bs hits) \<union> set (?bs hits'))"
    by (rule inj_on_subset [OF assms(1)]) (use assms(2,3) in auto)
  moreover have "map (br_sha256 (ae_bridge env)) (?bs hits) = map (br_sha256 (ae_bridge env)) (?bs hits')"
    using assms(4) by (simp only: list.map_comp comp_def)
  ultimately have "?bs hits = ?bs hits'" by (simp only: inj_on_map_eq_map)
  then show ?thesis by (rule map_injective) (simp add: inj_def str_bytes_inj)
qed

lemma payload_bytes_determine:
  assumes "text_determines (ae_bridge env)" and "inj_on (br_sha256 (ae_bridge env)) (str_bytes ` ah_content ` (set hits \<union> set hits'))"
    and "bridge_canonical_bytes (ae_bridge env) (evidence_payload env c hits) = bridge_canonical_bytes (ae_bridge env) (evidence_payload env c' hits')"
  shows "cl_agent_id c = cl_agent_id c' \<and> cl_session_id c = cl_session_id c' \<and> map ah_id hits = map ah_id hits' \<and>
    map ah_content hits = map ah_content hits'"
proof -
  have "float_free (evidence_payload env c hits)" for c hits unfolding evidence_payload_def by (rule float_free_object) auto
  from canonical_bytes_determine [OF assms(1) this this assms(3)]
  have p: "cl_agent_id c = cl_agent_id c'" "cl_session_id c = cl_session_id c'" "map ah_id hits = map ah_id hits'"
    "map (\<lambda>h. aeon_sha256_hex env (ah_content h)) hits = map (\<lambda>h. aeon_sha256_hex env (ah_content h)) hits'"
    unfolding evidence_payload_fields signed_payload.canonical_iff by simp_all
  have "map to_hex (map (\<lambda>h. br_sha256 (ae_bridge env) (str_bytes (ah_content h))) hits) =
      map to_hex (map (\<lambda>h. br_sha256 (ae_bridge env) (str_bytes (ah_content h))) hits')"
    using p(4) by (simp add: aeon_sha256_hex_def comp_def)
  then have "map (\<lambda>h. br_sha256 (ae_bridge env) (str_bytes (ah_content h))) hits = map (\<lambda>h. br_sha256 (ae_bridge env) (str_bytes (ah_content h))) hits'"
    by (rule map_injective) (simp add: inj_def to_hex_inj)
  from digests_determine [OF assms(2) _ _ this] p(1-3) show ?thesis by blast
qed

text \<open>The hits of the bridge, when every score fits.\<close>

lemma bridge_hits_Inr:
  "bridge_hits env hits = Inr bs \<Longrightarrow> map eh_memory_id bs = map ah_id hits \<and>
     map (\<lambda>b. map_option Inr (eh_score b)) bs = map (\<lambda>h. map_option memory_score_new (ah_score h)) hits \<and>
     map eh_content_digest bs = map (\<lambda>h. content_digest env (ah_content h)) hits"
proof (induction hits arbitrary: bs)
  case (Cons h hs)
  obtain x xs where x: "evidence_hit_new env (ah_id h) (ah_content h) (ah_score h) = Inr x" "bridge_hits env hs = Inr xs" "bs = x # xs"
    using Cons.prems by (cases "evidence_hit_new env (ah_id h) (ah_content h) (ah_score h)") (auto simp: map_sum_eq_Inr)
  have "eh_memory_id x = ah_id h \<and> map_option Inr (eh_score x) = map_option memory_score_new (ah_score h) \<and>
      eh_content_digest x = content_digest env (ah_content h)"
    using x(1) by (cases "ah_score h"; cases "memory_score_new (the (ah_score h))") (auto simp: evidence_hit_new_def)
  with Cons.IH [OF x(2)] x(3) show ?case by simp
qed simp

lemma bridge_hits_Inl:
  "(\<exists>e. bridge_hits env hits = Inl e) \<longleftrightarrow> (\<exists>h \<in> set hits. \<exists>s x. ah_score h = Some s \<and> memory_score_new s = Inl x)"
proof (induction hits)
  case (Cons h hs)
  show ?case
  proof (cases "ah_score h")
    case None
    with Cons show ?thesis by (cases "bridge_hits env hs") (auto simp: evidence_hit_new_def)
  next
    case (Some s)
    with Cons show ?thesis by (cases "memory_score_new s"; cases "bridge_hits env hs") (auto simp: evidence_hit_new_def)
  qed
qed simp

text \<open>What is hashed for a reference: the contents of the hits and the canonical bytes of the evidence.\<close>

definition evidence_of :: "aeon_env \<Rightarrow> aeon_config \<Rightarrow> bytes \<Rightarrow> string option \<Rightarrow> evidence_hit list \<Rightarrow> memory_evidence" where
  "evidence_of env cfg key session_id bs = mapping_memory_evidence (ae_bridge env) key bs
     \<lparr>am_nexus_agent_id = ac_agent_id cfg, am_session_id = session_id, am_aeon_agent_id = ac_agent_id cfg\<rparr>"

definition hashed_bytes :: "aeon_env \<Rightarrow> aeon_config \<Rightarrow> aeon_hit list \<Rightarrow> string option \<Rightarrow> bytes set" where
  "hashed_bytes env cfg hits session_id = str_bytes ` ah_content ` set hits \<union>
     (case (ac_hmac_key cfg, bridge_hits (ae_bridge env) hits) of
        (Some key, Inr bs) \<Rightarrow> {bridge_canonical_bytes (ae_bridge env) (ser_memory_evidence (evidence_of env cfg key session_id bs))}
      | _ \<Rightarrow> {})"

lemma build_ref_Some:
  assumes "build_memory_evidence_ref env cfg hits session_id = (Some r, m)"
  obtains key bs where "ac_hmac_key cfg = Some key" and "bridge_hits (ae_bridge env) hits = Inr bs"
    and "r = evidence_to_ref (ae_bridge env) (evidence_of env cfg key session_id bs)" and "m = (if hits = [] then AttestedNoHit else AttestedWithRecall)"
  using assms by (auto simp: build_memory_evidence_ref_def evidence_of_def split: option.splits sum.splits)

lemma build_ref_None:
  "fst (build_memory_evidence_ref env cfg hits session_id) = None \<longleftrightarrow>
     ac_hmac_key cfg = None \<or> (\<exists>h \<in> set hits. \<exists>s x. ah_score h = Some s \<and> memory_score_new s = Inl x)"
  unfolding bridge_hits_Inl [where env = "ae_bridge env", symmetric]
  by (auto simp: build_memory_evidence_ref_def split: option.splits sum.splits)

lemma ref_binds:
  assumes td: "text_determines (ae_bridge env)"
    and sha: "inj_on (br_sha256 (ae_bridge env)) (hashed_bytes env cfg hits s \<union> hashed_bytes env cfg' hits' s')"
    and k: "ac_hmac_key cfg = Some key" "bridge_hits (ae_bridge env) hits = Inr bs"
    and k': "ac_hmac_key cfg' = Some key'" "bridge_hits (ae_bridge env) hits' = Inr bs'"
    and d: "memory_evidence_digest (ae_bridge env) (evidence_of env cfg key s bs) = memory_evidence_digest (ae_bridge env) (evidence_of env cfg' key' s' bs')"
  shows "evidence_of env cfg key s bs = evidence_of env cfg' key' s' bs'" and "s = s'" and "bs = bs'"
    and "map ah_content hits = map ah_content hits'"
proof -
  have mem: "bridge_canonical_bytes (ae_bridge env) (ser_memory_evidence (evidence_of env cfg key s bs)) \<in> hashed_bytes env cfg hits s \<union> hashed_bytes env cfg' hits' s'"
    "bridge_canonical_bytes (ae_bridge env) (ser_memory_evidence (evidence_of env cfg' key' s' bs')) \<in> hashed_bytes env cfg hits s \<union> hashed_bytes env cfg' hits' s'"
    by (simp_all add: hashed_bytes_def k k')
  show e: "evidence_of env cfg key s bs = evidence_of env cfg' key' s' bs'"
    by (rule evidence_determined [OF td d]) (rule inj_onD [OF sha _ mem])
  then show "s = s'" and bs: "bs = bs'" by (simp_all add: evidence_of_def mapping_memory_evidence_def memory_evidence_new_def)
  have "map (\<lambda>h. content_digest (ae_bridge env) (ah_content h)) hits = map (\<lambda>h. content_digest (ae_bridge env) (ah_content h)) hits'"
    using bridge_hits_Inr [OF k(2)] bridge_hits_Inr [OF k'(2)] unfolding bs by (elim conjE) (simp only:)
  from arg_cong [OF this, of "map bd_value"]
  have "map to_hex (map (\<lambda>h. br_sha256 (ae_bridge env) (str_bytes (ah_content h))) hits) =
      map to_hex (map (\<lambda>h. br_sha256 (ae_bridge env) (str_bytes (ah_content h))) hits')"
    by (simp only: list.map_comp comp_def content_digest_def bridge_sha256_public_def bridge_digest.select_convs)
  then have "map (\<lambda>h. br_sha256 (ae_bridge env) (str_bytes (ah_content h))) hits = map (\<lambda>h. br_sha256 (ae_bridge env) (str_bytes (ah_content h))) hits'"
    by (rule map_injective) (simp add: inj_def to_hex_inj)
  from digests_determine [OF sha _ _ this] show "map ah_content hits = map ah_content hits'"
    by (auto simp: hashed_bytes_def)
qed

text \<open>Evidence of a recall is well formed, with or without a client.\<close>

lemma recalled_evidence_valid:
  "recall_memory_evidence_v1 env http client query lmt = (hits, e) \<Longrightarrow> validate_memory_evidence_v1 e = Inr () \<and> m1_hit_count e = length hits"
  by (auto simp: recall_memory_evidence_v1_def validate_memory_evidence_v1_def memory_evidence_v1_new_def Let_def split: option.splits)

text \<open>A service with one signed hit, behind an admitted host.\<close>

definition demo_hit :: aeon_hit where
  "demo_hit = \<lparr>ah_id = ''m'', ah_content = ''c'', ah_score = None\<rparr>"

definition demo_key :: bytes where
  "demo_key = replicate 32 7"

definition demo_url :: url where
  "demo_url = \<lparr>url_scheme = ''http'', url_host = None, url_host_str = Some ''h'', url_port = Some 80\<rparr>"

definition demo_aeon :: aeon_env where
  "demo_aeon = \<lparr>ae_os = (\<lambda>_. EnvNotPresent), ae_http_ok = True, ae_parse_url = (\<lambda>_. None), ae_url = (\<lambda>_ _. Some demo_url), ae_resolve = (\<lambda>_ _. None),
     ae_bridge = writer_env \<lparr>br_sha256 = id, br_hmac = (@), br_to_vec = (\<lambda>_. [])\<rparr>, ae_key_valid = (\<lambda>_. True), ae_verify = (\<lambda>_ _ _. True),
     ae_parse_search = (\<lambda>_. Some \<lparr>rs_results = [\<lparr>sh_id = Some ''m'', sh_content = Some ''c'', sh_score = None, sh_distance = None, sh_similarity = None\<rparr>],
       rs_evidence = Some \<lparr>ev_version = EVIDENCE_SIG_VERSION, ev_key_id = to_hex demo_key, ev_signature = replicate 128 (CHR ''0''), ev_payload_digest = []\<rparr>\<rparr>),
     ae_parse_value = (\<lambda>_. None), ae_parse_uuid = (\<lambda>_. None)\<rparr>"

definition demo_client :: aeon_client where
  "demo_client = \<lparr>cl_base_url = ''http://h'', cl_policy = \<lparr>allow_hosts = [''h''], allow_private = False\<rparr>, cl_agent_id = ''a'', cl_session_id = None,
     cl_management_key = Some ''k'', cl_verifying_key = Some demo_key\<rparr>"

lemma demo_may_search: "may_search demo_aeon demo_client ''k'' demo_url"
proof -
  have "egress_check_url (\<lambda>_ _. None) \<lparr>allow_hosts = [''h''], allow_private = False\<rparr> demo_url = Inr ()" by code_simp
  then show ?thesis by (simp add: may_search_def demo_aeon_def demo_client_def)
qed

lemma demo_signature: "decode_hex_exact 64 (replicate 128 (CHR ''0'')) = Some (replicate 64 0)"
  by code_simp

lemma demo_outcome:
  "search_outcome_of demo_aeon demo_client (Some (200, [])) = \<lparr>so_hits = [demo_hit], so_attestation = AttestedWithRecall\<rparr>"
proof -
  have "is_success 200" by (simp add: is_success_def)
  then show ?thesis
    by (simp add: search_outcome_of_def evidence_signature_ok_def demo_aeon_def demo_client_def demo_signature aeon_hit_of_def or_empty_def demo_hit_def)
qed

subsection \<open>Properties\<close>

text \<open>
  C39: an answer of the memory service is used only, and always, on these terms. A search returns these hits as attested exactly when the client has a
  management key and a URL that its egress policy admits, and the answer to the request it then makes is a success that parses as these hits and,
  if a verifying key is configured, carries a signature that Ed25519 accepts over the canonical payload of the very hits, in order. It makes that one
  request with its key, or none. An attested outcome says whether there were hits; every other outcome has no hits and is Absent without a management
  key and Degraded with one. The signed bytes determine the agent, the session and every identifier and content, if serde_json's text determines
  values and SHA-256 does not collide on the contents. They bind nothing of the question: the same answer given to another query with another limit
  yields the same outcome.
\<close>

theorem memory_search_attested:
  assumes "search_with_status env http c query lmt = (out, reqs)"
  shows "(\<forall>hits. attested out \<and> so_hits out = hits \<longleftrightarrow>
       (\<exists>key u. may_search env c key u \<and> served env c (http (search_post c query lmt key u)) hits)) \<and>
     (\<forall>r. r \<in> set reqs \<longleftrightarrow> (\<exists>key u. may_search env c key u \<and> r = search_post c query lmt key u)) \<and> length reqs \<le> 1 \<and>
     (attested out \<longrightarrow> so_attestation out = (if so_hits out = [] then AttestedNoHit else AttestedWithRecall)) \<and>
     (\<not> attested out \<longrightarrow> out = \<lparr>so_hits = [], so_attestation = (if cl_management_key c = None then Absent else Degraded)\<rparr>) \<and>
     (\<forall>c' hits'. text_determines (ae_bridge env) \<and> inj_on (br_sha256 (ae_bridge env)) (str_bytes ` ah_content ` (set (so_hits out) \<union> set hits')) \<and>
       bridge_canonical_bytes (ae_bridge env) (evidence_payload env c (so_hits out)) = bridge_canonical_bytes (ae_bridge env) (evidence_payload env c' hits') \<longrightarrow>
       cl_agent_id c = cl_agent_id c' \<and> cl_session_id c = cl_session_id c' \<and> map ah_id (so_hits out) = map ah_id hits' \<and>
       map ah_content (so_hits out) = map ah_content hits') \<and>
     (\<forall>http' query' lmt'. (\<forall>key u. http' (search_post c query' lmt' key u) = http (search_post c query lmt key u)) \<longrightarrow>
       fst (search_with_status env http' c query' lmt') = out)"
proof (intro conjI impI allI)
  have out: "fst (search_with_status env http c query lmt) = out" "snd (search_with_status env http c query lmt) = reqs" using assms by simp_all
  note form = search_outcome_form [of env http c query lmt, unfolded out]
  show "attested out \<and> so_hits out = hits \<longleftrightarrow> (\<exists>key u. may_search env c key u \<and> served env c (http (search_post c query lmt key u)) hits)" for hits
    using search_exact [of env http c query lmt hits] unfolding out .
  have reqs: "reqs = [search_post c query lmt key u]" if "may_search env c key u" for key u
    using search_admitted [OF that] out(2) by simp
  have none: "reqs = []" if "\<nexists>key u. may_search env c key u" using search_not_admitted(1) [OF that] out(2) by simp
  show "r \<in> set reqs \<longleftrightarrow> (\<exists>key u. may_search env c key u \<and> r = search_post c query lmt key u)" for r
    using reqs none may_search_unique by (cases "\<exists>key u. may_search env c key u") fastforce+
  show "length reqs \<le> 1" using reqs none by (cases "\<exists>key u. may_search env c key u") auto
  show "so_attestation out = (if so_hits out = [] then AttestedNoHit else AttestedWithRecall)" if "attested out"
  proof -
    have "out = attested_outcome (so_hits out)" using form that by (elim disjE) (auto simp: attested_def split: if_splits)
    from arg_cong [OF this, of so_attestation] show ?thesis by (simp add: attested_outcome_def)
  qed
  show "out = \<lparr>so_hits = [], so_attestation = (if cl_management_key c = None then Absent else Degraded)\<rparr>" if "\<not> attested out"
    using form that attested_outcome_simps(1) by metis
  fix http' query' lmt' assume same: "\<forall>key u. http' (search_post c query' lmt' key u) = http (search_post c query lmt key u)"
  show "fst (search_with_status env http' c query' lmt') = out"
  proof (cases "\<exists>key u. may_search env c key u")
    case True
    then obtain key u where m: "may_search env c key u" by blast
    show ?thesis using same unfolding out(1) [symmetric] search_admitted [OF m] fst_conv by simp
  next
    case False
    show ?thesis unfolding out(1) [symmetric] search_not_admitted(2) [OF False] ..
  qed
qed (use payload_bytes_determine [of env "so_hits out"] in blast)+

theorem memory_search_attested_witness:
  "\<exists>key u. may_search demo_aeon demo_client key u \<and> served demo_aeon demo_client (Some (200, [])) [demo_hit]"
proof -
  have "search_with_status demo_aeon (\<lambda>_. Some (200, [])) demo_client ''q'' 5 =
      (\<lparr>so_hits = [demo_hit], so_attestation = AttestedWithRecall\<rparr>, [search_post demo_client ''q'' 5 ''k'' demo_url])"
    unfolding search_admitted [OF demo_may_search] demo_outcome ..
  note m = memory_search_attested [OF this, THEN conjunct1, rule_format, of "[demo_hit]"]
  have "attested \<lparr>so_hits = [demo_hit], so_attestation = AttestedWithRecall\<rparr>" by (simp add: attested_def)
  with m show ?thesis by simp
qed

text \<open>
  C40: the reference to memory evidence that goes into a proof capsule binds the evidence. Two references with the same digest, built from any
  configurations, hits and sessions, are equal with their modes, and were built from the same session and the same hits: identifiers,
  contents and scores in millionths. The agent handle verifies for the configured agent under the configured key. With that key no
  reference is built exactly when some score does not fit. Assumed: serde_json's text determines values without floats, and SHA-256 does not
  collide on the contents and the two bodies hashed.
\<close>

theorem memory_evidence_ref_binds:
  assumes "text_determines (ae_bridge env)"
    and "inj_on (br_sha256 (ae_bridge env)) (hashed_bytes env cfg hits s \<union> hashed_bytes env cfg' hits' s')"
    and "build_memory_evidence_ref env cfg hits s = (Some r, m)" and "build_memory_evidence_ref env cfg' hits' s' = (Some r', m')"
    and "mr_digest r = mr_digest r'"
  shows "r = r' \<and> m = m' \<and> s = s' \<and> map ah_id hits = map ah_id hits' \<and> map ah_content hits = map ah_content hits' \<and>
     map (\<lambda>h. map_option memory_score_new (ah_score h)) hits = map (\<lambda>h. map_option memory_score_new (ah_score h)) hits' \<and>
     (\<exists>key. ac_hmac_key cfg = Some key \<and> verify_agent_id_hmac (ae_bridge env) key (ac_agent_id cfg) (mr_agent_handle r')) \<and>
     (\<forall>hits session_id. fst (build_memory_evidence_ref env cfg hits session_id) = None \<longleftrightarrow>
       (\<exists>h \<in> set hits. \<exists>s x. ah_score h = Some s \<and> memory_score_new s = Inl x))"
proof -
  obtain key bs where k: "ac_hmac_key cfg = Some key" "bridge_hits (ae_bridge env) hits = Inr bs"
    and r: "r = evidence_to_ref (ae_bridge env) (evidence_of env cfg key s bs)" "m = (if hits = [] then AttestedNoHit else AttestedWithRecall)"
    by (rule build_ref_Some [OF assms(3)])
  obtain key' bs' where k': "ac_hmac_key cfg' = Some key'" "bridge_hits (ae_bridge env) hits' = Inr bs'"
    and r': "r' = evidence_to_ref (ae_bridge env) (evidence_of env cfg' key' s' bs')" "m' = (if hits' = [] then AttestedNoHit else AttestedWithRecall)"
    by (rule build_ref_Some [OF assms(4)])
  have "memory_evidence_digest (ae_bridge env) (evidence_of env cfg key s bs) = memory_evidence_digest (ae_bridge env) (evidence_of env cfg' key' s' bs')"
    using assms(5) unfolding r(1) r'(1) evidence_to_ref_def by simp
  note b = ref_binds [OF assms(1,2) k k' this]
  have eq: "r = r'" unfolding r(1) r'(1) b(1) ..
  have ids: "map ah_id hits = map ah_id hits'"
    "map (\<lambda>h. map_option memory_score_new (ah_score h)) hits = map (\<lambda>h. map_option memory_score_new (ah_score h)) hits'"
    using bridge_hits_Inr [OF k(2)] bridge_hits_Inr [OF k'(2)] unfolding b(3) by (elim conjE, simp only:)+
  have "hits = [] \<longleftrightarrow> hits' = []" using ids(1) by (metis map_is_Nil_conv)
  then have "m = m'" unfolding r(2) r'(2) by (simp only:)
  moreover have "verify_agent_id_hmac (ae_bridge env) key (ac_agent_id cfg) (mr_agent_handle r')"
    unfolding eq [symmetric] r(1)
    by (simp add: evidence_to_ref_def evidence_of_def mapping_memory_evidence_def memory_evidence_new_def agent_handle_def agent_handle_verifies)
  moreover have "\<forall>hits session_id. fst (build_memory_evidence_ref env cfg hits session_id) = None \<longleftrightarrow>
       (\<exists>h \<in> set hits. \<exists>s x. ah_score h = Some s \<and> memory_score_new s = Inl x)" unfolding build_ref_None k(1) by simp
  ultimately show ?thesis using eq b(2,4) ids k(1) by blast
qed

theorem memory_evidence_ref_binds_witness:
  "\<exists>r. build_memory_evidence_ref demo_aeon (aeon_config_default\<lparr>ac_hmac_key := Some demo_key\<rparr>) [demo_hit] None = (Some r, AttestedWithRecall) \<and>
     verify_agent_id_hmac (ae_bridge demo_aeon) demo_key ''nexus'' (mr_agent_handle r)"
proof -
  let ?cfg = "aeon_config_default\<lparr>ac_hmac_key := Some demo_key\<rparr>"
  obtain r where r: "build_memory_evidence_ref demo_aeon ?cfg [demo_hit] None = (Some r, AttestedWithRecall)"
    by (simp add: build_memory_evidence_ref_def demo_hit_def evidence_hit_new_def)
  have "text_determines (ae_bridge demo_aeon)" by (simp add: demo_aeon_def writer_env_text)
  moreover have "inj_on (br_sha256 (ae_bridge demo_aeon)) A" for A by (simp add: demo_aeon_def writer_env_def)
  ultimately have "\<exists>key. ac_hmac_key ?cfg = Some key \<and> verify_agent_id_hmac (ae_bridge demo_aeon) key (ac_agent_id ?cfg) (mr_agent_handle r)"
    using memory_evidence_ref_binds [OF _ _ r r refl] by blast
  with r show ?thesis by (simp add: aeon_config_default_def)
qed

end
