(* ===== verification/Spec2Isabelle.thy ===== *)
theory Spec2Isabelle
  imports Negotiator Lineage Epoch Proof_Execution Llm_Policy Mcp_Http Mcp_Tools Recall_Config Aeon_Memory
begin

text \<open>
  Nexus is a sandbox runtime. It executes agent actions as WebAssembly under signed capability tokens, snapshots their memory and rolls them
  back on failure, replicates snapshots between nodes, attests executions in proof capsules, and serves all this as a library, a daemon and an MCP
  server. This development models the program's own logic (Rust, under \<open>src/src/\<close> and \<open>src/crates/\<close>) as HOL functions and proves what makes
  each part correct.

  \<^bold>\<open>The program's parts and how they interact.\<close> A caller presents capability tokens; the capability manager validates them (signature, expiry,
  revocation, the whole delegation chain) and authorizes the capabilities an action requires. On a denial the negotiator asks the memory service
  for hints and retries with a strict subset of the requirements. HTTP capabilities and outgoing requests pass the URL guard and the egress
  policy. The hypervisor compiles the module through a cache, captures the state before a call, meters fuel, runs the guest in the sandbox under an
  epoch deadline, classifies what happened, asks a recovery policy for a verdict, and rolls back. Snapshots live in a ring buffer, as full images or as
  page-wise differences; they are content-addressed by a digest, exchanged by a small advertise/want/snapshot/ack protocol over an
  authenticated, framed transport, and arranged in a lineage graph that detects forks. A proof execution signs a redacted record of all this. The
  daemon and the MCP server admit requests and drive hypervisors. The memory client recalls memories from the AEON-IQ service, whose answers carry
  signatures, and forwards events to its timeline.

  \<^bold>\<open>Theories, sources and what is shown.\<close> Paths are relative to \<open>src/src/\<close>.

  Shared:
  \<^item> \<open>Prelude\<close>: machine integers, byte strings, hash maps, the standard-library string functions the code calls, big-endian encoding; the locales
    \<open>inductive_invariant\<close> (a property of the initial states kept by every step holds in every reachable state) and \<open>bounded_history\<close> (a container that
    keeps the last \<open>n\<close> pushed elements).
  \<^item> \<open>Nexus_Error\<close>: \<open>error.rs\<close>, \<open>security/denial.rs\<close>. \<open>Float64\<close>: IEEE arithmetic on rationals with rounding to nearest. \<open>Json\<close>: JSON values, sorting
    of keys, and the locale \<open>json_code\<close>: encodings whose sorted form determines what is encoded.
  \<^item> \<open>Rate_Window\<close>: the locale \<open>rate_window\<close>, the contract of a fixed-window limiter: no window grants more than its quota.

  Security:
  \<^item> \<open>Capability\<close>, \<open>Capability_Manager\<close>: \<open>security/capability.rs\<close>. Path containment is containment of resolved locations; whatever a chain of subset
    capabilities allows at its leaf every ancestor allows, barring one widening of memory scopes that is proved as such (locale \<open>grant_order\<close>, for
    capabilities and for scopes). The loop of \<open>validate_chain\<close> implements the inductive relation \<open>valid_chain\<close> and ends on every reachable manager;
    revocation is transitive.
  \<^item> \<open>Url_Guard\<close>: \<open>security/url_guard.rs\<close>, \<open>security/egress.rs\<close>: address classification under every IPv6 embedding of IPv4, and what an accepted URL
    satisfies. \<open>Negotiator\<close>: \<open>security/negotiator.rs\<close>: negotiation never escalates and never panics.

  Snapshots:
  \<^item> \<open>Compression\<close>, \<open>Differential\<close>: \<open>snapshot/compression.rs\<close>, \<open>snapshot/differential.rs\<close>: round trips, in any iteration order of the page map.
  \<^item> \<open>Snapshot_Manager\<close>, \<open>Snapshot_Store\<close>: \<open>snapshot/manager.rs\<close>: the operations, and their refinement of an abstract store that maps each id to the
    memory and execution state it was created from. A rollback that succeeds is exact; chains are bounded and the walk along them ends.
  \<^item> \<open>Snapshot_Digest\<close>: \<open>snapshot/sync/digest.rs\<close>: the canonical encoding byte for byte; the locale \<open>prefix_code\<close> (encodings that can be read back from
    the front of a byte string) is interpreted for every encoder.
  \<^item> \<open>Sync_Protocol\<close>: \<open>snapshot/sync/protocol.rs\<close>, \<open>transport.rs\<close>: replication converges to the union in three rounds. \<open>Framed\<close>: \<open>snapshot/sync/framed.rs\<close>: a
    byte string is accepted exactly when it is the frame the sender builds; replays are rejected, reflections are not. \<open>Lineage\<close>:
    \<open>snapshot/sync/lineage.rs\<close>: hybrid clocks respect causality, visible heads cover all nodes and form an antichain.

  Sandbox and hypervisor:
  \<^item> \<open>Fuel\<close>: \<open>sandbox/fuel_meter.rs\<close> (the compare-and-exchange loop step by step), \<open>sandbox/fuel_budget.rs\<close>. \<open>Sandbox\<close>, \<open>Epoch\<close>:
    \<open>sandbox/wasm_runtime.rs\<close>: every run yields a consistent, classified result; the epoch clock under interleavings. \<open>Module_Cache\<close>:
    \<open>sandbox/module_cache.rs\<close>, \<open>sandbox/pool.rs\<close>: the cache, with its critical sections as steps, is an LRU cache. \<open>Wasi\<close>: \<open>sandbox/wasi.rs\<close>: a guest
    gets exactly the directories its tokens grant.
  \<^item> \<open>Failure_Recovery\<close>, \<open>Health\<close>, \<open>Telemetry\<close>, \<open>Instinct\<close>: \<open>hypervisor/failure_mode.rs\<close>, \<open>recovery.rs\<close>, \<open>validator/\<close>, \<open>telemetry/\<close>, \<open>instinct/mod.rs\<close>:
    classification and verdicts, host readings, bounded histories and floating-point averages, learned suggestions and their files.
  \<^item> \<open>Hypervisor\<close>, \<open>Execution\<close>: \<open>hypervisor/mod.rs\<close>: construction, tokens, snapshots, execution with budget, verdict, recovery and retries; nothing runs
    without authorization, every execution returns, and what it reports and restores is right. \<open>Speculative\<close>: \<open>hypervisor/speculative.rs\<close>: the race, poll by
    poll under any schedule, with the branches of the hypervisor with and without a warm pool (locale \<open>race_invariant\<close>: what a race asks of its branches to end). \<open>Llm_Policy\<close>: \<open>hypervisor/llm_policy.rs\<close>: sanitizer, prompts, extraction of actions, and the budget of calls.

  Proofs and profiles:
  \<^item> \<open>Redaction\<close>, \<open>Proof_Capsule\<close>, \<open>Proof_Execution\<close>: \<open>proof/\<close> and the proof part of \<open>hypervisor/mod.rs\<close>: what redaction leaves, tamper evidence of
    signed capsules, and that a proof execution is the ordinary execution with a capsule that reports it. \<open>Profile\<close>: \<open>profile/mod.rs\<close>: the manifest parser
    inverts a printer.

  Servers:
  \<^item> \<open>Daemon_Pool\<close>, \<open>Daemon\<close>: \<open>daemon/\<close>, \<open>bin/nexus_agentd.rs\<close>: the pool under interleavings loses, duplicates and shares no instance; admission and the module
    allow-list, and that the module that runs was compiled from the admitted bytes.
  \<^item> \<open>Mcp\<close>, \<open>Mcp_Tools\<close>, \<open>Mcp_Http\<close>: \<open>bin/nexus_mcp.rs\<close>: gates, module paths, what of the host a client can see, WASI confinement, the tool handlers, the read-only HTTP transport with its
    tenants and rate limits.

  Memory service (\<open>aeon.rs\<close>, \<open>aeon/\<close>, and \<open>src/crates/aeon_nexus_bridge/\<close>):
  \<^item> \<open>Recall_Envelope\<close>, \<open>Replay_Store\<close>, \<open>Recall_Verifier\<close>, \<open>Recall_Config\<close>: the recall contract, version 2. What is signed determines the payload, including the
    canonical JSON text; verification accepts exactly the envelopes it should; none is accepted twice (locales \<open>replay_contract\<close> and
    \<open>purging_contract\<close>, interpreted on the PostgreSQL store with its failures); the configuration fails closed.
  \<^item> \<open>Aeon_Timeline\<close>: delivery with retries, the digest chain and the spool. \<open>Memory_Evidence\<close>: version 1 digests, scores and references.
    \<open>Aeon_Memory\<close>: the client, what an attested search means, and what the reference in a capsule binds.

  This theory: properties that span components.

  \<^bold>\<open>How state and effects are modelled.\<close> A Rust struct is a record, an enum a datatype, a method that mutates \<open>self\<close> a function that returns the updated
  record, \<open>Result\<close> a sum, \<open>panic!\<close> and \<open>assert!\<close> an error branch. Hash maps are association lists with distinct keys in an arbitrary iteration
  order. Clock readings, fresh UUIDs, answers of servers and results of file operations are arguments. Format strings of messages are kept as
  written, without their arguments, unless a property depends on them. Integer overflow wraps as in the release profile wherever a value can
  overflow. A public call is one atomic step, except where the code relies on finer interleavings: the fuel meter, the epoch clock, the module
  cache, the rate limiters, the daemon's pool and overlapping deliveries on a timeline sink are step relations over their atomic operations and
  critical sections, and the branches of a race are interleaved at their \<open>await\<close>s. A transaction of the replay store is one step.

  \<^bold>\<open>Parameters and hypotheses.\<close> Code outside the repository is a parameter: Ed25519 and bincode on tokens (\<open>cap_env\<close>; \<open>ed25519_ok\<close>: a signature made with
  the key verifies), zstd (\<open>zstd_ok\<close>: decoding inverts encoding), SHA-256 (\<open>sha256_ok\<close>: 32 bytes; collisions are excluded on the inputs a property
  names), HMAC (\<open>hmac_ok\<close>), bincode on wire messages and snapshots (\<open>wire_ok\<close>, \<open>bincode_ok\<close>), wasmtime (\<open>wt_ok\<close>, \<open>grow_ok\<close>), the
  host filesystem, the text serde_json writes (\<open>text_determines\<close>: it determines values without floats), base64, the parsing of URLs and UUIDs, DNS,
  environment variables, the HTTP services and the answers of PostgreSQL. Fresh ids are assumed not to collide with recorded ones; memories are
  \<open>addressable\<close> (at most 16 TiB, so that page indices fit a \<open>u32\<close>); \<open>encodable\<close> bounds the fields of a snapshot by their 32-bit length prefixes.

  \<^bold>\<open>Loops.\<close> The walks along parent links (\<open>validate_chain_loop\<close>, \<open>collect_chain\<close>) may run forever on cyclic links; they are \<open>partial_function\<close>s whose
  value \<open>None\<close> is non-termination, and that they return on every reachable state is proved. \<open>ancestor_loop\<close> terminates by its \<open>seen\<close> set, the other
  loops by a measure or structurally. No definition has fuel of its own: step budgets and attempts are the code's parameters.

  \<^bold>\<open>Not modelled.\<close> The command line (\<open>main.rs\<close>) and the rmcp dispatch, which only call what is modelled; the PostgreSQL queries for tenants and the handlers
  of the MCP server that exist only with the feature \<open>aeon-memory\<close>; the parts of the hypervisor, the recovery policy and the daemon under that
  feature; accept loops, Windows pipes, sockets and timeouts; \<open>replicate_framed\<close>; poisoned mutexes; concurrent calls on one
  snapshot manager; the spool under concurrent deliveries; logging; test support. Wasmtime itself, its memory model and the instructions of the guest are outside the repository.
\<close>

subsection \<open>Properties that span components\<close>

text \<open>
  C13: A snapshot taken on one node can be restored on another: a snapshot created by the snapshot
  manager is accepted into its node's sync store, replication delivers it to any peer that has nothing
  under its digest, and what the peer holds decompresses to the captured memory and passes the
  checksum verification.
\<close>

theorem replicated_snapshot_restores:
  assumes z: "zstd_ok (zstd env)" and sha: "sha256_ok sha256"
    and hex: "\<And>x. sha256_hex env x = to_hex (sha256 x)"
    and a: "keyed sha256 a" and n: "3 \<le> max_steps"
    and cr: "create_snapshot env ce mem fs es md m disk = (Inr s, m', disk')"
  shows "\<exists>d a' b'. try_insert sha256 s a = (Inr d, a')
    \<and> replicate_nodes sha256 max_steps a' b = (Inr (), a', b')
    \<and> (hm_get b d = None \<longrightarrow> hm_get b' d = Some s)
    \<and> decompress_memory env s = Inr mem \<and> snapshot_verify env s mem \<and> snap_execution_state s = es"
proof -
  obtain s' where new: "snapshot_new env ce mem fs es md = Inr s'" and "s' = s"
    using cr by (cases rule: create_snapshot_cases) auto
  note s = snapshot_new_ok [OF new [unfolded \<open>s' = s\<close>]]
  have sum: "memory_checksum s = to_hex (sha256 mem)"
    using new \<open>s' = s\<close> by (auto simp: snapshot_new_def hex split: option.splits)
  define d where "d = sha256 (digest_preimage (sha256 mem) s)"
  have d: "digest_of sha256 s = Inr d"
    using sha by (simp add: digest_of_def sum d_def from_hex_def length_to_hex from_hex_pairs_to_hex sha256_ok_def)
  then have ins: "try_insert sha256 s a = (Inr d, hm_insert d s a)" by (simp add: try_insert_def)
  have "keyed sha256 (hm_insert d s a)" using try_insert_keyed [OF a, of s] ins by simp
  from replicate_get [OF sha this n, of b] obtain b'
    where "replicate_nodes sha256 max_steps (hm_insert d s a) b = (Inr (), hm_insert d s a, b')"
      and "hm_get b d = None \<longrightarrow> hm_get b' d = Some s" by (auto simp: hm_simps)
  moreover have "decompress_memory env s = Inr mem"
    using z s by (auto simp: decompress_memory_def zstd_ok_def)
  moreover have "snapshot_verify env s mem" by (simp add: snapshot_verify_def sum hex)
  ultimately show ?thesis using ins s
    by (intro exI [of _ d] exI [of _ "hm_insert d s a"] exI [of _ b']) simp
qed

definition sync_demo_env :: snap_env where
  "sync_demo_env = demo_snap_env\<lparr>sha256_hex := \<lambda>_. to_hex (replicate 32 1)\<rparr>"

definition sync_demo_snap :: snapshot where
  "sync_demo_snap = (demo_snap 1 [1, 2, 3])\<lparr>memory_checksum := to_hex (replicate 32 1)\<rparr>"

theorem replicated_snapshot_restores_witness:
  "\<exists>d a' b'. try_insert (\<lambda>_. replicate 32 1) sync_demo_snap [] = (Inr d, a')
    \<and> replicate_nodes (\<lambda>_. replicate 32 1) 3 a' [] = (Inr (), a', b') \<and> hm_get b' d = Some sync_demo_snap
    \<and> decompress_memory sync_demo_env sync_demo_snap = Inr [1, 2, 3]"
proof -
  have z: "zstd_ok (zstd sync_demo_env)" by (simp add: sync_demo_env_def zstd_ok_def id_zstd_def)
  have sha: "sha256_ok (\<lambda>_. replicate 32 1)" by (simp add: sha256_ok_def)
  have hex: "\<And>x. sha256_hex sync_demo_env x = to_hex (replicate 32 1)" by (simp add: sync_demo_env_def)
  have keyed: "keyed (\<lambda>_. replicate 32 1) []" by (simp add: keyed_def)
  have "\<exists>m'. create_snapshot sync_demo_env (demo_call 1) [1, 2, 3] fs_new demo_es
      (metadata_new ''op'' ''h'') (sm_new 2) [] = (Inr sync_demo_snap, m', [])"
    by (simp add: create_snapshot_def snapshot_new_def sync_demo_env_def sync_demo_snap_def demo_call_def
        demo_snap_def demo_es_def sm_new_def Let_def)
  then obtain m' where cr: "create_snapshot sync_demo_env (demo_call 1) [1, 2, 3] fs_new demo_es
      (metadata_new ''op'' ''h'') (sm_new 2) [] = (Inr sync_demo_snap, m', [])" by blast
  from replicated_snapshot_restores [OF z sha hex keyed order_refl cr, of "[]"]
  show ?thesis by auto
qed

end
